(* ===== verification/Kinetix_Prelude.thy ===== *)
theory Kinetix_Prelude
  imports Complex_Main "HOL-Library.Multiset"
begin

text \<open>
  Shared vocabulary of the Kinetix development: the machine arithmetic the Rust sources use
  (saturating, wrapping and clamped operations), time as integer nanoseconds, the string and
  queue operations of the standard library, the concurrent map pattern
  \<^verbatim>\<open>entry(k).or_insert_with(Default::default)\<close> every stateful component is built on, and the
  interface locale of a component that keeps one independent state per key.

  Conventions: \<^verbatim>\<open>f64\<close> is \<open>real\<close> (exact arithmetic, no NaN and no rounding); unsigned
  machine integers are \<open>nat\<close> with saturation or wrap-around written out; \<^verbatim>\<open>i64\<close> is
  \<open>int\<close>; \<^verbatim>\<open>Instant\<close>, \<^verbatim>\<open>DateTime<Utc>\<close> and \<^verbatim>\<open>Duration\<close> are
  \<open>int\<close> nanoseconds; a Rust \<^verbatim>\<open>String\<close> is its list of UTF-8 bytes.
\<close>

section \<open>Types and theorem collections\<close>

type_synonym f64 = real
type_synonym nanos = int

named_theorems const_defs \<open>definitions of the numeric constants of the sources\<close>
named_theorems arith_defs \<open>definitions of the machine-arithmetic operations\<close>

section \<open>Machine arithmetic\<close>

definition u64_max :: nat where
  [const_defs]: "u64_max = 18446744073709551615"

definition u32_max :: nat where
  [const_defs]: "u32_max = 4294967295"

text \<open>\<^verbatim>\<open>u64::saturating_add\<close>, \<^verbatim>\<open>u64::wrapping_add\<close> and the release-mode
  (unchecked, wrapping) \<^verbatim>\<open>+\<close> of \<^verbatim>\<open>u64\<close>.\<close>

definition sat_add64 :: "nat \<Rightarrow> nat \<Rightarrow> nat" where
  [arith_defs]: "sat_add64 a b = min (a + b) u64_max"

definition wrap_add64 :: "nat \<Rightarrow> nat \<Rightarrow> nat" where
  [arith_defs]: "wrap_add64 a b = (a + b) mod 18446744073709551616"

definition wrap_sum64 :: "nat list \<Rightarrow> nat" where
  [arith_defs]: "wrap_sum64 xs = foldl wrap_add64 0 xs"

definition div_ceil :: "nat \<Rightarrow> nat \<Rightarrow> nat" where
  [arith_defs]: "div_ceil a b = (a + b - 1) div b"

text \<open>\<^verbatim>\<open>f64::clamp\<close>.\<close>

definition clampf :: "f64 \<Rightarrow> f64 \<Rightarrow> f64 \<Rightarrow> f64" where
  [arith_defs]: "clampf x lo hi = (if x < lo then lo else if x > hi then hi else x)"

section \<open>Time\<close>

definition secs :: "int \<Rightarrow> nanos" where
  [const_defs]: "secs n = n * 1000000000"

text \<open>\<^verbatim>\<open>TimeDelta::num_seconds\<close> and \<^verbatim>\<open>num_milliseconds\<close> truncate towards zero.\<close>

definition num_seconds :: "nanos \<Rightarrow> int" where
  "num_seconds d = sgn d * (\<bar>d\<bar> div 1000000000)"

definition num_milliseconds :: "nanos \<Rightarrow> int" where
  "num_milliseconds d = sgn d * (\<bar>d\<bar> div 1000000)"

text \<open>\<^verbatim>\<open>Instant::saturating_duration_since\<close>.\<close>

definition sat_since :: "nanos \<Rightarrow> nanos \<Rightarrow> nanos" where
  [arith_defs]: "sat_since now earlier = max 0 (now - earlier)"

section \<open>Options and strings\<close>

text \<open>\<^verbatim>\<open>Option::filter\<close>, \<^verbatim>\<open>Option::or\<close>, \<^verbatim>\<open>Option::is_some_and\<close>.\<close>

definition opt_filter :: "('a \<Rightarrow> bool) \<Rightarrow> 'a option \<Rightarrow> 'a option" where
  "opt_filter P x = (case x of None \<Rightarrow> None | Some v \<Rightarrow> if P v then Some v else None)"

definition opt_or :: "'a option \<Rightarrow> 'a option \<Rightarrow> 'a option" where
  "opt_or x y = (case x of None \<Rightarrow> y | Some v \<Rightarrow> Some v)"

definition unwrap_or :: "'a option \<Rightarrow> 'a \<Rightarrow> 'a" where
  "unwrap_or x d = (case x of None \<Rightarrow> d | Some v \<Rightarrow> v)"

definition is_some_and :: "('a \<Rightarrow> bool) \<Rightarrow> 'a option \<Rightarrow> bool" where
  "is_some_and P x = (case x of None \<Rightarrow> False | Some v \<Rightarrow> P v)"

lemmas opt_defs = opt_filter_def opt_or_def unwrap_or_def is_some_and_def

fun strip_prefix :: "string \<Rightarrow> string \<Rightarrow> string option" where
  "strip_prefix [] s = Some s"
| "strip_prefix (p # ps) [] = None"
| "strip_prefix (p # ps) (c # cs) = (if p = c then strip_prefix ps cs else None)"

definition starts_with :: "string \<Rightarrow> string \<Rightarrow> bool" where
  "starts_with s p = (strip_prefix p s \<noteq> None)"

definition strip_suffix :: "string \<Rightarrow> string \<Rightarrow> string option" where
  "strip_suffix p s = map_option rev (strip_prefix (rev p) (rev s))"

fun split_once :: "char \<Rightarrow> string \<Rightarrow> (string \<times> string) option" where
  "split_once d [] = None"
| "split_once d (c # cs) =
     (if c = d then Some ([], cs)
      else map_option (\<lambda>(a, b). (c # a, b)) (split_once d cs))"

definition ascii_ws :: "char \<Rightarrow> bool" where
  "ascii_ws c = (c \<in> {CHR '' '', CHR 0x09, CHR 0x0A, CHR 0x0B, CHR 0x0C, CHR 0x0D})"

text \<open>
  \<^verbatim>\<open>str::trim\<close>: the characters with the property White_Space are dropped at both ends, the wider ones as their bytes in
  UTF-8.
\<close>

definition wide_spaces :: "string list" where
  "wide_spaces = [[CHR 0xC2, CHR 0x85], [CHR 0xC2, CHR 0xA0], [CHR 0xE1, CHR 0x9A, CHR 0x80],
     [CHR 0xE2, CHR 0x80, CHR 0x80], [CHR 0xE2, CHR 0x80, CHR 0x81], [CHR 0xE2, CHR 0x80, CHR 0x82],
     [CHR 0xE2, CHR 0x80, CHR 0x83], [CHR 0xE2, CHR 0x80, CHR 0x84], [CHR 0xE2, CHR 0x80, CHR 0x85],
     [CHR 0xE2, CHR 0x80, CHR 0x86], [CHR 0xE2, CHR 0x80, CHR 0x87], [CHR 0xE2, CHR 0x80, CHR 0x88],
     [CHR 0xE2, CHR 0x80, CHR 0x89], [CHR 0xE2, CHR 0x80, CHR 0x8A], [CHR 0xE2, CHR 0x80, CHR 0xA8],
     [CHR 0xE2, CHR 0x80, CHR 0xA9], [CHR 0xE2, CHR 0x80, CHR 0xAF], [CHR 0xE2, CHR 0x81, CHR 0x9F],
     [CHR 0xE3, CHR 0x80, CHR 0x80]]"

fun trim_front :: "string list \<Rightarrow> string \<Rightarrow> string" where
  "trim_front wide [] = []"
| "trim_front wide [a] = (if ascii_ws a then [] else [a])"
| "trim_front wide [a, b] =
     (if ascii_ws a then trim_front wide [b] else if [a, b] \<in> set wide then [] else [a, b])"
| "trim_front wide (a # b # c # s) =
     (if ascii_ws a then trim_front wide (b # c # s)
      else if [a, b] \<in> set wide then trim_front wide (c # s)
      else if [a, b, c] \<in> set wide then trim_front wide s
      else a # b # c # s)"

definition trim :: "string \<Rightarrow> string" where
  "trim s = rev (trim_front (map rev wide_spaces) (rev (trim_front wide_spaces s)))"

lemma trim_front_plain:
  "\<forall>c \<in> set s. \<not> ascii_ws c \<Longrightarrow> \<forall>w \<in> set wide. \<forall>c \<in> set s. c \<noteq> hd w \<Longrightarrow> trim_front wide s = s"
  by (cases "(wide, s)" rule: trim_front.cases) fastforce+

lemma wide_heads: "w \<in> set wide_spaces \<Longrightarrow> 128 \<le> (of_char (hd w) :: nat) \<and> 128 \<le> (of_char (hd (rev w)) :: nat)"
proof -
  have "list_all (\<lambda>w. 128 \<le> (of_char (hd w) :: nat) \<and> 128 \<le> (of_char (hd (rev w)) :: nat)) wide_spaces" by code_simp
  then show "w \<in> set wide_spaces \<Longrightarrow> ?thesis" by (simp add: list_all_iff)
qed

lemma trim_plain:
  assumes "\<forall>c \<in> set s. \<not> ascii_ws c \<and> (of_char c :: nat) < 128"
  shows "trim s = s"
proof -
  have "c \<noteq> hd w" "c \<noteq> hd (rev w)" if "w \<in> set wide_spaces" "c \<in> set s" for w c
    using that wide_heads [of w] assms by fastforce+
  then have heads: "\<forall>w \<in> set wide_spaces. \<forall>c \<in> set s. c \<noteq> hd w"
    "\<forall>w \<in> set (map rev wide_spaces). \<forall>c \<in> set (rev s). c \<noteq> hd w" by auto
  then show ?thesis using assms by (simp add: trim_def trim_front_plain del: set_map)
qed

fun contains_str :: "string \<Rightarrow> string \<Rightarrow> bool" where
  "contains_str [] sub = (sub = [])"
| "contains_str (c # cs) sub = (starts_with (c # cs) sub \<or> contains_str cs sub)"

definition digit_char :: "nat \<Rightarrow> char" where
  "digit_char d = char_of (48 + d)"

fun show_nat :: "nat \<Rightarrow> string" where
  "show_nat n = (if n < 10 then [digit_char n] else show_nat (n div 10) @ [digit_char (n mod 10)])"

declare show_nat.simps [simp del]

definition show_int :: "int \<Rightarrow> string" where
  "show_int i = (if i < 0 then CHR ''-'' # show_nat (nat (- i)) else show_nat (nat i))"

text \<open>Decimal digits of a byte string.\<close>

definition is_digit :: "char \<Rightarrow> bool" where
  "is_digit c \<longleftrightarrow> 48 \<le> (of_char c :: nat) \<and> (of_char c :: nat) \<le> 57"

definition digits_value :: "string \<Rightarrow> nat" where
  "digits_value s = foldl (\<lambda>n c. 10 * n + (of_char c - 48)) 0 s"

section \<open>Concurrent maps keyed by identifier\<close>

text \<open>
  \<^verbatim>\<open>DashMap<K, Arc<Mutex<S>>>\<close>: a component looks its key up, inserts the default state when
  the key is new, and runs one operation under the entry's lock. An operation is a function from
  the entry's state to the new state and the operation's result.
\<close>

definition entry_or :: "'s \<Rightarrow> ('k \<rightharpoonup> 's) \<Rightarrow> 'k \<Rightarrow> 's" where
  "entry_or d m k = (case m k of None \<Rightarrow> d | Some s \<Rightarrow> s)"

definition with_entry :: "'s \<Rightarrow> 'k \<Rightarrow> ('s \<Rightarrow> 's \<times> 'r) \<Rightarrow> ('k \<rightharpoonup> 's) \<Rightarrow> ('k \<rightharpoonup> 's) \<times> 'r" where
  "with_entry d k f m = (let (s, r) = f (entry_or d m k) in (m(k \<mapsto> s), r))"

fun run_entries :: "'s \<Rightarrow> ('op \<Rightarrow> 's \<Rightarrow> 's) \<Rightarrow> ('k \<times> 'op) list \<Rightarrow> ('k \<rightharpoonup> 's) \<Rightarrow> ('k \<rightharpoonup> 's)" where
  "run_entries d st [] m = m"
| "run_entries d st ((k, x) # es) m =
     run_entries d st es (fst (with_entry d k (\<lambda>s. (st x s, ())) m))"

fun run_ops :: "('op \<Rightarrow> 's \<Rightarrow> 's) \<Rightarrow> 'op list \<Rightarrow> 's \<Rightarrow> 's" where
  "run_ops st [] s = s"
| "run_ops st (x # xs) s = run_ops st xs (st x s)"

section \<open>Lemmas on arithmetic\<close>

lemma u64_max_less: "u64_max < 18446744073709551616"
  by (simp add: u64_max_def)

lemma sat_add64_le [simp]: "sat_add64 a b \<le> u64_max"
  by (simp add: sat_add64_def)

lemma sat_add64_exact: "a + b \<le> u64_max \<Longrightarrow> sat_add64 a b = a + b"
  by (simp add: sat_add64_def)

lemma sat_add64_le_iff: "c < u64_max \<Longrightarrow> sat_add64 a b \<le> c \<longleftrightarrow> a + b \<le> c"
  by (auto simp: sat_add64_def)

lemma wrap_add64_exact: "a + b \<le> u64_max \<Longrightarrow> wrap_add64 a b = a + b"
  by (simp add: wrap_add64_def u64_max_def)

lemma wrap_add64_le [simp]: "wrap_add64 a b \<le> u64_max"
  by (simp add: wrap_add64_def u64_max_def less_Suc_eq_le [symmetric])

lemma foldl_wrap_exact: "a + sum_list xs \<le> u64_max \<Longrightarrow> foldl wrap_add64 a xs = a + sum_list xs"
  by (induction xs arbitrary: a) (auto simp: wrap_add64_exact add.assoc)

lemma wrap_sum64_exact: "sum_list xs \<le> u64_max \<Longrightarrow> wrap_sum64 xs = sum_list xs"
  by (simp add: wrap_sum64_def foldl_wrap_exact)

lemma clampf_bounds: "lo \<le> hi \<Longrightarrow> lo \<le> clampf x lo hi \<and> clampf x lo hi \<le> hi"
  by (simp add: clampf_def)

lemma clampf_id: "lo \<le> x \<Longrightarrow> x \<le> hi \<Longrightarrow> clampf x lo hi = x"
  by (simp add: clampf_def)

lemma num_seconds_nonneg: "0 \<le> d \<Longrightarrow> num_seconds d = d div 1000000000"
  by (auto simp: num_seconds_def sgn_if)

section \<open>Lemmas on decimal numbers\<close>

lemma is_digit_digit_char: "d < 10 \<Longrightarrow> is_digit (digit_char d) \<and> of_char (digit_char d) - 48 = d"
  by (simp add: is_digit_def digit_char_def)

lemma show_nat_digits: "list_all is_digit (show_nat n) \<and> show_nat n \<noteq> []"
proof (induction n rule: show_nat.induct)
  case (1 n)
  then show ?case
    by (subst show_nat.simps, subst show_nat.simps) (auto simp: is_digit_digit_char list_all_append)
qed

lemma digits_value_snoc: "digits_value (s @ [c]) = 10 * digits_value s + (of_char c - 48)"
  by (simp add: digits_value_def)

lemma digits_value_show_nat: "digits_value (show_nat n) = n"
proof (induction n rule: show_nat.induct)
  case (1 n)
  show ?case
  proof (cases "n < 10")
    case True
    then show ?thesis
      by (subst show_nat.simps) (simp add: digits_value_def is_digit_digit_char)
  next
    case False
    then show ?thesis
      using 1 by (subst show_nat.simps) (simp add: digits_value_snoc is_digit_digit_char)
  qed
qed

lemma show_nat_inj: "show_nat m = show_nat n \<Longrightarrow> m = n"
  by (metis digits_value_show_nat)

section \<open>Lemmas on window queues\<close>

text \<open>
  Time-ordered queues are pruned from the front only. On a queue that is sorted by time this
  removes exactly the expired elements; on an unsorted one it may keep some of them.
\<close>

lemma dropWhile_filter_sorted:
  assumes "sorted (map f xs)" and "\<And>x y. f x \<le> f y \<Longrightarrow> P y \<Longrightarrow> P x"
  shows "dropWhile P xs = filter (\<lambda>x. \<not> P x) xs"
  using assms(1)
proof (induction xs)
  case Nil
  then show ?case by simp
next
  case (Cons x xs)
  show ?case
  proof (cases "P x")
    case True
    with Cons show ?thesis by simp
  next
    case False
    with Cons.prems assms(2) have "\<forall>y \<in> set xs. \<not> P y" by fastforce
    with False show ?thesis by (simp add: filter_id_conv)
  qed
qed

lemma set_dropWhile_subset: "set (dropWhile P xs) \<subseteq> set xs"
  by (meson set_dropWhileD subsetI)

lemma sorted_map_dropWhile: "sorted (map f xs) \<Longrightarrow> sorted (map f (dropWhile P xs))"
  by (induction xs) auto

lemma hd_dropWhile_not: "dropWhile P xs = y # ys \<Longrightarrow> \<not> P y"
  by (metis hd_dropWhile list.distinct(1) list.sel(1))

lemma length_dropWhile_le': "length (dropWhile P xs) \<le> length xs"
  by (rule length_dropWhile_le)

text \<open>Replacing one element changes a count by what the old and the new element contribute.\<close>

lemma length_filter_update:
  "i < length xs \<Longrightarrow> length (filter P (xs[i := x])) + (if P (xs ! i) then 1 else 0) =
     length (filter P xs) + (if P x then 1 else 0)"
proof (induction xs arbitrary: i)
  case (Cons y ys)
  show ?case
  proof (cases i)
    case (Suc j)
    with Cons show ?thesis using Cons.IH [of j] by simp
  qed simp
qed simp

section \<open>Lemmas on keyed maps\<close>

lemma with_entry_same: "fst (with_entry d k f m) k = Some (fst (f (entry_or d m k)))"
  by (simp add: with_entry_def split: prod.split)

lemma with_entry_other: "k' \<noteq> k \<Longrightarrow> fst (with_entry d k f m) k' = m k'"
  by (simp add: with_entry_def split: prod.split)

lemma with_entry_result: "snd (with_entry d k f m) = snd (f (entry_or d m k))"
  by (simp add: with_entry_def split: prod.split)

lemma entry_or_with_entry:
  "entry_or d (fst (with_entry d k f m)) k' =
     (if k' = k then fst (f (entry_or d m k)) else entry_or d m k')"
  by (simp add: entry_or_def with_entry_same with_entry_other)

lemma run_ops_append: "run_ops st (xs @ ys) s = run_ops st ys (run_ops st xs s)"
  by (induction xs arbitrary: s) simp_all

text \<open>
  Interface of a keyed component: what a provider of per-key state promises about its
  operations. The client facts hold for every interleaving of operations on any number of keys:
  each key's state is what its own operations alone produce, and it satisfies the invariant.
\<close>

locale keyed_component =
  fixes initial :: 's
    and step :: "'op \<Rightarrow> 's \<Rightarrow> 's"
    and invar :: "'s \<Rightarrow> bool"
  assumes invar_initial: "invar initial"
    and invar_step: "invar s \<Longrightarrow> invar (step x s)"
begin

lemma run_ops_invar: "invar s \<Longrightarrow> invar (run_ops step xs s)"
  by (induction xs arbitrary: s) (auto intro: invar_step)

lemma entry_invar: "(\<And>s. m k = Some s \<Longrightarrow> invar s) \<Longrightarrow> invar (entry_or initial m k)"
  by (auto simp: entry_or_def invar_initial split: option.split)

lemma run_entries_project:
  "entry_or initial (run_entries initial step es m) k =
     run_ops step (map snd (filter (\<lambda>e. fst e = k) es)) (entry_or initial m k)"
proof (induction es arbitrary: m)
  case Nil
  then show ?case by simp
next
  case (Cons e es)
  obtain k' x where "e = (k', x)" by (cases e)
  with Cons show ?case by (simp add: entry_or_with_entry)
qed

lemma run_entries_invar:
  "invar (entry_or initial (run_entries initial step es Map.empty) k)"
  by (simp only: run_entries_project) (simp add: entry_or_def run_ops_invar invar_initial)

lemma run_entries_isolated:
  assumes "k \<notin> fst ` set es"
  shows "entry_or initial (run_entries initial step es m) k = entry_or initial m k"
proof -
  have "filter (\<lambda>e. fst e = k) es = []"
    using assms by (auto simp: filter_empty_conv)
  then show ?thesis by (simp add: run_entries_project)
qed

end

end
