(* ===== verification/Sse.thy ===== *)
theory Sse
  imports Kinetix_Prelude
begin

text \<open>
  The streaming SSE frame splitter (\<^verbatim>\<open>src/src/sse.rs\<close>): the framer's buffer with its scan
  offset and frame limit, the delimiter search, CRLF normalisation, the lossy UTF-8 decoding of a
  frame, and the extraction of a frame's data payload. A stateless splitter of a whole byte
  stream is the specification; the theorems show that the incremental framer refines it for
  every chunking, and exactly which inputs it refuses.
\<close>

section \<open>Definitions\<close>

abbreviation LF :: char where "LF \<equiv> CHR 0x0A"
abbreviation CR :: char where "CR \<equiv> CHR 0x0D"

definition DEFAULT_MAX_FRAME_BYTES :: nat where
  [const_defs]: "DEFAULT_MAX_FRAME_BYTES = 1024 * 1024"

datatype sse_frame_error = FrameTooLarge nat nat
  \<comment> \<open>pending\_bytes, limit\<close>

fun frame_error_display :: "sse_frame_error \<Rightarrow> string" where
  "frame_error_display (FrameTooLarge k l) =
     ''upstream SSE frame exceeds '' @ show_nat l @ '' byte limit ('' @ show_nat k @ '' bytes buffered)''"

record sse_framer =
  fr_buffer :: string
  fr_scan_from :: nat
  fr_max_frame_bytes :: nat

definition with_max_frame_bytes :: "nat \<Rightarrow> sse_framer" where
  "with_max_frame_bytes n = \<lparr>fr_buffer = [], fr_scan_from = 0, fr_max_frame_bytes = max n 1\<rparr>"

definition framer_default :: sse_framer where
  "framer_default = with_max_frame_bytes DEFAULT_MAX_FRAME_BYTES"

text \<open>\<^verbatim>\<open>find_delimiter\<close>: the index loop, tests in the order of the source.\<close>

function find_from :: "string \<Rightarrow> nat \<Rightarrow> (nat \<times> nat) option" where
  "find_from bytes i =
     (if i < length bytes then
        if i + 1 < length bytes \<and> bytes ! i = LF \<and> bytes ! (i + 1) = LF then Some (i, 2)
        else if i + 3 < length bytes \<and> bytes ! i = CR \<and> bytes ! (i + 1) = LF
                \<and> bytes ! (i + 2) = CR \<and> bytes ! (i + 3) = LF then Some (i, 4)
        else find_from bytes (i + 1)
      else None)"
  by pat_completeness auto
termination
  by (relation "measure (\<lambda>(bytes, i). length bytes - i)") auto

declare find_from.simps [simp del]

definition find_delimiter :: "string \<Rightarrow> nat \<Rightarrow> (nat \<times> nat) option" where
  "find_delimiter bytes start = find_from bytes (min start (length bytes))"

fun normalize_crlf :: "string \<Rightarrow> string" where
  "normalize_crlf (a # b # bs) =
     (if a = CR \<and> b = LF then LF # normalize_crlf bs else a # normalize_crlf (b # bs))"
| "normalize_crlf bs = bs"

text \<open>
  \<^verbatim>\<open>String::from_utf8_lossy\<close>: a maximal ill-formed subsequence becomes one replacement
  character. \<open>utf8_class\<close> gives the number of continuation bytes after a lead byte and the
  range of the first of them.
\<close>

definition utf8_class :: "nat \<Rightarrow> (nat \<times> nat \<times> nat) option" where
  "utf8_class b =
     (if b < 0x80 then Some (0, 0, 0)
      else if 0xC2 \<le> b \<and> b \<le> 0xDF then Some (1, 0x80, 0xBF)
      else if b = 0xE0 then Some (2, 0xA0, 0xBF)
      else if b = 0xED then Some (2, 0x80, 0x9F)
      else if 0xE1 \<le> b \<and> b \<le> 0xEF then Some (2, 0x80, 0xBF)
      else if b = 0xF0 then Some (3, 0x90, 0xBF)
      else if b = 0xF4 then Some (3, 0x80, 0x8F)
      else if 0xF1 \<le> b \<and> b \<le> 0xF3 then Some (3, 0x80, 0xBF)
      else None)"

fun count_conts :: "nat \<Rightarrow> nat \<Rightarrow> nat \<Rightarrow> string \<Rightarrow> nat" where
  "count_conts 0 lo hi bs = 0"
| "count_conts (Suc n) lo hi [] = 0"
| "count_conts (Suc n) lo hi (b # bs) =
     (if lo \<le> of_char b \<and> of_char b \<le> hi then Suc (count_conts n 0x80 0xBF bs) else 0)"

definition replacement :: string where
  "replacement = [CHR 0xEF, CHR 0xBF, CHR 0xBD]"

function utf8_lossy :: "string \<Rightarrow> string" where
  "utf8_lossy [] = []"
| "utf8_lossy (b # bs) =
     (case utf8_class (of_char b) of
        None \<Rightarrow> replacement @ utf8_lossy bs
      | Some (n, lo, hi) \<Rightarrow>
          let k = count_conts n lo hi bs
          in (if k = n then b # take k bs else replacement) @ utf8_lossy (drop k bs))"
  by pat_completeness auto
termination
  by (relation "measure length") auto

text \<open>One completed frame: empty frames are skipped, before and after normalisation.\<close>

definition emit :: "string \<Rightarrow> string list" where
  "emit raw =
     (if raw = [] then []
      else if normalize_crlf raw = [] then []
      else [utf8_lossy (normalize_crlf raw)])"

lemma find_from_bounds:
  "find_from bytes i = Some (j, d) \<Longrightarrow> i \<le> j \<and> (d = 2 \<or> d = 4) \<and> j + d \<le> length bytes"
proof (induction bytes i rule: find_from.induct)
  case (1 bytes i)
  from 1(2) show ?case
    by (subst (asm) find_from.simps) (auto split: if_splits dest!: 1(1))
qed

lemma find_delimiter_bounds:
  "find_delimiter bytes s = Some (j, d) \<Longrightarrow> (d = 2 \<or> d = 4) \<and> j + d \<le> length bytes"
  by (auto simp: find_delimiter_def dest: find_from_bounds)

text \<open>The loop of \<^verbatim>\<open>push\<close>, from a framer whose buffer already holds the new bytes.\<close>

function push_loop ::
  "sse_framer \<Rightarrow> string list \<Rightarrow> sse_framer \<times> (sse_frame_error + string list)" where
  "push_loop f frames =
     (case find_delimiter (fr_buffer f) (fr_scan_from f) of
        None \<Rightarrow>
          (if length (fr_buffer f) > fr_max_frame_bytes f
           then (f\<lparr>fr_buffer := [], fr_scan_from := 0\<rparr>,
                 Inl (FrameTooLarge (length (fr_buffer f)) (fr_max_frame_bytes f)))
           else (f\<lparr>fr_scan_from := length (fr_buffer f) - 3\<rparr>, Inr frames))
      | Some (idx, delimiter_len) \<Rightarrow>
          (if idx > fr_max_frame_bytes f
           then (f\<lparr>fr_buffer := [], fr_scan_from := 0\<rparr>,
                 Inl (FrameTooLarge idx (fr_max_frame_bytes f)))
           else push_loop
                  (f\<lparr>fr_buffer := drop delimiter_len (drop idx (fr_buffer f)), fr_scan_from := 0\<rparr>)
                  (frames @ emit (take idx (fr_buffer f)))))"
  by pat_completeness auto
termination
  by (relation "measure (\<lambda>(f, _). length (fr_buffer f))") (auto dest!: find_delimiter_bounds)

declare push_loop.simps [simp del]

definition push :: "sse_framer \<Rightarrow> string \<Rightarrow> sse_framer \<times> (sse_frame_error + string list)" where
  "push f bytes = push_loop (f\<lparr>fr_buffer := fr_buffer f @ bytes\<rparr>) []"

definition pending :: "sse_framer \<Rightarrow> bool" where
  "pending f = (fr_buffer f \<noteq> [])"

definition pending_bytes :: "sse_framer \<Rightarrow> nat" where
  "pending_bytes f = length (fr_buffer f)"

definition framer_flush :: "sse_framer \<Rightarrow> sse_framer \<times> string option" where
  "framer_flush f =
     (if fr_buffer f = [] then (f, None)
      else let rest = utf8_lossy (normalize_crlf (fr_buffer f))
           in (f\<lparr>fr_buffer := [], fr_scan_from := 0\<rparr>, if trim rest = [] then None else Some rest))"

text \<open>\<^verbatim>\<open>str::lines\<close>: split after each line feed; the terminator (LF or CRLF) is removed, a final
  line needs none.\<close>

definition strip_cr :: "string \<Rightarrow> string" where
  "strip_cr l = (if l \<noteq> [] \<and> last l = CR then butlast l else l)"

fun lines_aux :: "string \<Rightarrow> string \<Rightarrow> string list" where
  "lines_aux acc [] = (if acc = [] then [] else [rev acc])"
| "lines_aux acc (c # cs) =
     (if c = LF then strip_cr (rev acc) # lines_aux [] cs else lines_aux (c # acc) cs)"

definition str_lines :: "string \<Rightarrow> string list" where
  "str_lines s = lines_aux [] s"

definition data_step :: "string \<Rightarrow> string \<times> bool \<Rightarrow> string \<times> bool" where
  "data_step line acc =
     (case strip_prefix ''data:'' line of
        None \<Rightarrow> acc
      | Some rest \<Rightarrow>
          ((if fst acc = [] then [] else fst acc @ [LF])
             @ unwrap_or (strip_prefix '' '' rest) rest, True))"

definition extract_data :: "string \<Rightarrow> string option" where
  "extract_data frame =
     (let (data, found) = fold data_step (str_lines frame) ([], False)
      in if found then Some data else None)"

text \<open>The payloads of a frame's data lines, and their join, as the specification of the loop.\<close>

definition payload :: "string \<Rightarrow> string option" where
  "payload line = map_option (\<lambda>r. unwrap_or (strip_prefix '' '' r) r) (strip_prefix ''data:'' line)"

definition payloads :: "string \<Rightarrow> string list" where
  "payloads frame = List.map_filter payload (str_lines frame)"

fun join_lf :: "string list \<Rightarrow> string" where
  "join_lf [] = []"
| "join_lf [x] = x"
| "join_lf (x # xs) = x @ LF # join_lf xs"

section \<open>Specification: splitting a whole stream\<close>

text \<open>
  \<open>split_raw\<close> cuts a complete byte string at every delimiter: the raw frames in order and the
  unterminated tail. A framer run is one outcome of this split under the frame limit.
\<close>

function split_raw :: "string \<Rightarrow> string list \<times> string" where
  "split_raw buf =
     (case find_from buf 0 of
        None \<Rightarrow> ([], buf)
      | Some (idx, d) \<Rightarrow>
          let (fs, rest) = split_raw (drop (idx + d) buf) in (take idx buf # fs, rest))"
  by pat_completeness auto
termination
  by (relation "measure length") (auto dest: find_from_bounds)

declare split_raw.simps [simp del]

definition render :: "string list \<Rightarrow> string list" where
  "render raws = concat (map emit raws)"

definition framer_spec :: "nat \<Rightarrow> string \<Rightarrow> (sse_frame_error + (string list \<times> string))" where
  "framer_spec m buf =
     (let (fs, rest) = split_raw buf
      in case find (\<lambda>r. length r > m) fs of
           Some r \<Rightarrow> Inl (FrameTooLarge (length r) m)
         | None \<Rightarrow> if length rest > m then Inl (FrameTooLarge (length rest) m)
                    else Inr (render fs, rest))"

text \<open>Framer invariant: no delimiter starts before the scan offset.\<close>

definition delim_at :: "string \<Rightarrow> nat \<Rightarrow> nat option" where
  "delim_at bytes i =
     (if i + 1 < length bytes \<and> bytes ! i = LF \<and> bytes ! (i + 1) = LF then Some 2
      else if i + 3 < length bytes \<and> bytes ! i = CR \<and> bytes ! (i + 1) = LF
              \<and> bytes ! (i + 2) = CR \<and> bytes ! (i + 3) = LF then Some 4
      else None)"

definition framer_inv :: "sse_framer \<Rightarrow> bool" where
  "framer_inv f = (\<forall>i < fr_scan_from f. delim_at (fr_buffer f) i = None)"

text \<open>Between two pushes the buffer holds no complete frame, is within the limit, and the scan
  offset leaves the last three bytes to be rescanned.\<close>

definition framer_idle :: "sse_framer \<Rightarrow> bool" where
  "framer_idle f \<longleftrightarrow>
     find_from (fr_buffer f) 0 = None \<and> fr_scan_from f \<le> length (fr_buffer f) - 3
     \<and> length (fr_buffer f) \<le> fr_max_frame_bytes f"

text \<open>Feeding a splitter chunk by chunk, keeping only the unterminated tail.\<close>

fun feed_chunks :: "('a list \<Rightarrow> 'f list \<times> 'a list) \<Rightarrow> 'a list \<Rightarrow> 'a list list \<Rightarrow> 'f list \<times> 'a list" where
  "feed_chunks split t [] = ([], t)"
| "feed_chunks split t (c # cs) =
     (let (fs, t') = split (t @ c); (gs, t'') = feed_chunks split t' cs in (fs @ gs, t''))"

fun push_all :: "sse_framer \<Rightarrow> string list \<Rightarrow> sse_framer \<times> (sse_frame_error + string list)" where
  "push_all f [] = (f, Inr [])"
| "push_all f (c # cs) =
     (case push f c of
        (f', Inl e) \<Rightarrow> (f', Inl e)
      | (f', Inr fs) \<Rightarrow>
          (case push_all f' cs of
             (f'', Inl e) \<Rightarrow> (f'', Inl e)
           | (f'', Inr gs) \<Rightarrow> (f'', Inr (fs @ gs))))"

section \<open>Lemmas on the delimiter search\<close>

lemma find_from_unfold:
  "find_from bytes i =
     (if i < length bytes
      then (case delim_at bytes i of Some d \<Rightarrow> Some (i, d) | None \<Rightarrow> find_from bytes (i + 1))
      else None)"
  by (subst find_from.simps) (auto simp: delim_at_def)

lemma delim_at_range: "delim_at bytes i = Some d \<Longrightarrow> i < length bytes"
  by (auto simp: delim_at_def split: if_splits)

lemma find_from_Some_iff:
  "find_from bytes i = Some (j, d) \<longleftrightarrow>
     i \<le> j \<and> delim_at bytes j = Some d \<and> (\<forall>k. i \<le> k \<and> k < j \<longrightarrow> delim_at bytes k = None)"
proof (induction bytes i rule: find_from.induct)
  case (1 bytes i)
  show ?case
  proof (cases "i < length bytes")
    case False
    then show ?thesis by (auto simp: find_from_unfold [of bytes i] dest: delim_at_range)
  next
    case True
    show ?thesis
    proof (cases "delim_at bytes i")
      case None
      then have "find_from bytes i = find_from bytes (i + 1)"
        using True by (simp add: find_from_unfold [of bytes i])
      moreover have "find_from bytes (i + 1) = Some (j, d) \<longleftrightarrow>
          i + 1 \<le> j \<and> delim_at bytes j = Some d
          \<and> (\<forall>k. i + 1 \<le> k \<and> k < j \<longrightarrow> delim_at bytes k = None)"
        using True None by (intro 1) (auto simp: delim_at_def split: if_splits)
      moreover have "i \<le> k \<longleftrightarrow> k = i \<or> i + 1 \<le> k" for k by auto
      ultimately show ?thesis using None by auto
    next
      case (Some e)
      then show ?thesis using True
        by (auto simp: find_from_unfold [of bytes i] le_eq_less_or_eq)
    qed
  qed
qed

lemma find_from_None_iff: "find_from bytes i = None \<longleftrightarrow> (\<forall>k \<ge> i. delim_at bytes k = None)"
proof -
  have "find_from bytes i = None \<longleftrightarrow> (\<forall>j d. find_from bytes i \<noteq> Some (j, d))"
    by (cases "find_from bytes i") auto
  also have "\<dots> \<longleftrightarrow> (\<forall>k \<ge> i. delim_at bytes k = None)"
    unfolding find_from_Some_iff
  proof safe
    fix k assume none: "\<forall>j d. \<not> (i \<le> j \<and> delim_at bytes j = Some d
        \<and> (\<forall>k. i \<le> k \<and> k < j \<longrightarrow> delim_at bytes k = None))" and "i \<le> k"
    show "delim_at bytes k = None"
      using \<open>i \<le> k\<close>
    proof (induction k rule: less_induct)
      case (less k)
      with none show ?case by (cases "delim_at bytes k") auto
    qed
  qed auto
  finally show ?thesis .
qed

lemma find_from_skip:
  assumes "\<forall>k < s. delim_at bytes k = None"
  shows "find_from bytes s = find_from bytes 0"
proof (cases "find_from bytes 0")
  case None
  then have "find_from bytes s = None" by (simp add: find_from_None_iff)
  with None show ?thesis by simp
next
  case (Some p)
  obtain j d where p: "p = (j, d)" by (cases p)
  with Some have "delim_at bytes j = Some d" "\<forall>k < j. delim_at bytes k = None"
    by (simp_all add: find_from_Some_iff)
  moreover from this assms have "s \<le> j" by (metis linorder_not_less option.distinct(1))
  ultimately have "find_from bytes s = Some (j, d)" by (simp add: find_from_Some_iff)
  with p Some show ?thesis by simp
qed

lemma find_delimiter_inv:
  assumes "framer_inv f"
  shows "find_delimiter (fr_buffer f) (fr_scan_from f) = find_from (fr_buffer f) 0"
proof -
  have "\<forall>k < min (fr_scan_from f) (length (fr_buffer f)). delim_at (fr_buffer f) k = None"
    using assms by (simp add: framer_inv_def)
  then show ?thesis unfolding find_delimiter_def by (rule find_from_skip)
qed

text \<open>A delimiter of a prefix stays one; a new one can only start in the last three bytes.\<close>

lemma delim_at_append: "delim_at xs i = Some d \<Longrightarrow> delim_at (xs @ ys) i = Some d"
  by (auto simp: delim_at_def nth_append split: if_splits)

lemma delim_at_append_far: "i + 3 < length xs \<Longrightarrow> delim_at (xs @ ys) i = delim_at xs i"
  by (auto simp: delim_at_def nth_append)

lemma delim_at_append_before:
  assumes "delim_at xs j = Some d" and "i < j" and "delim_at xs i = None"
  shows "delim_at (xs @ ys) i = None"
proof (cases "i + 3 < length xs")
  case True
  then show ?thesis using assms by (simp add: delim_at_append_far)
next
  case False
  with assms(1,2) have j: "j = i + 1" "length xs = i + 3"
    by (auto simp: delim_at_def split: if_splits)
  with assms(1) have "xs ! (i + 1) = LF" "xs ! (i + 2) = LF"
    by (auto simp: delim_at_def split: if_splits)
  with j assms(3) show ?thesis by (auto simp: delim_at_def nth_append split: if_splits)
qed

lemma find_from_append:
  assumes "find_from xs 0 = Some (j, d)"
  shows "find_from (xs @ ys) 0 = Some (j, d)"
  using assms by (auto simp: find_from_Some_iff intro: delim_at_append delim_at_append_before)

section \<open>Lemmas on splitting and pushing\<close>

lemma split_raw_None: "find_from buf 0 = None \<Longrightarrow> split_raw buf = ([], buf)"
  by (subst split_raw.simps) simp

lemma split_raw_Some:
  "find_from buf 0 = Some (idx, d) \<Longrightarrow>
     split_raw buf = (take idx buf # fst (split_raw (drop (idx + d) buf)),
                      snd (split_raw (drop (idx + d) buf)))"
  by (subst split_raw.simps) (simp add: case_prod_beta Let_def)

lemma split_raw_Nil: "split_raw [] = ([], [])"
  by (simp add: split_raw_None find_from.simps [of "[]"])

lemma split_raw_tail: "find_from (snd (split_raw buf)) 0 = None"
proof (induction buf rule: split_raw.induct)
  case (1 buf)
  show ?case
  proof (cases "find_from buf 0")
    case None
    then show ?thesis by (simp add: split_raw_None)
  next
    case (Some p)
    then show ?thesis using 1 by (cases p) (simp add: split_raw_Some)
  qed
qed

text \<open>Splitting resumes: the tail of a prefix carries everything the rest of the stream needs.\<close>

lemma split_raw_append:
  "split_raw (xs @ ys) =
     (fst (split_raw xs) @ fst (split_raw (snd (split_raw xs) @ ys)),
      snd (split_raw (snd (split_raw xs) @ ys)))"
proof (induction xs rule: split_raw.induct)
  case (1 xs)
  show ?case
  proof (cases "find_from xs 0")
    case None
    then show ?thesis by (simp add: split_raw_None)
  next
    case (Some p)
    obtain j d where p: "p = (j, d)" by (cases p)
    with Some have f: "find_from xs 0 = Some (j, d)" by simp
    then have len: "j + d \<le> length xs" by (auto dest: find_from_bounds)
    have "split_raw (drop (j + d) xs @ ys) =
       (fst (split_raw (drop (j + d) xs)) @ fst (split_raw (snd (split_raw (drop (j + d) xs)) @ ys)),
        snd (split_raw (snd (split_raw (drop (j + d) xs)) @ ys)))"
      using 1 Some p by blast
    then show ?thesis
      using len by (simp add: split_raw_Some [OF f] split_raw_Some [OF find_from_append [OF f]])
  qed
qed

text \<open>
  Interface of a resumable splitter: its result on a stream is determined by its result on any
  prefix and the tail that prefix leaves. A client that keeps only the tail may then cut the
  stream into chunks wherever it likes.
\<close>

locale resumable_splitter =
  fixes split :: "'a list \<Rightarrow> 'f list \<times> 'a list"
  assumes split_append:
    "split (xs @ ys) = (fst (split xs) @ fst (split (snd (split xs) @ ys)),
                        snd (split (snd (split xs) @ ys)))"
begin

lemma feed_chunks_concat:
  assumes "split t = ([], t)"
  shows "feed_chunks split t cs = split (t @ concat cs)"
  using assms
proof (induction cs arbitrary: t)
  case Nil
  then show ?case by simp
next
  case (Cons c cs)
  have "split (snd (split (t @ c))) = ([], snd (split (t @ c)))"
    using split_append [of "t @ c" "[]"] by (simp add: prod_eq_iff)
  then have IH: "feed_chunks split (snd (split (t @ c))) cs = split (snd (split (t @ c)) @ concat cs)"
    by (rule Cons.IH)
  have "split (t @ concat (c # cs)) = split ((t @ c) @ concat cs)" by simp
  also have "\<dots> = feed_chunks split t (c # cs)"
    by (subst split_append) (simp add: case_prod_beta IH)
  finally show ?case by simp
qed

lemma feed_chunks_rechunk:
  assumes "split t = ([], t)" and "concat cs = concat ds"
  shows "feed_chunks split t cs = feed_chunks split t ds"
  using assms by (simp add: feed_chunks_concat)

end

interpretation raw_split: resumable_splitter split_raw
  by unfold_locales (rule split_raw_append)

lemma render_append: "render (xs @ ys) = render xs @ render ys"
  by (simp add: render_def)

lemma framer_inv_init: "framer_inv (with_max_frame_bytes n)"
  by (simp add: framer_inv_def with_max_frame_bytes_def)

lemma framer_inv_extend:
  assumes "framer_inv f" and "fr_scan_from f \<le> length (fr_buffer f) - 3"
  shows "framer_inv (f\<lparr>fr_buffer := fr_buffer f @ bytes\<rparr>)"
  using assms by (auto simp: framer_inv_def delim_at_append_far)

lemma framer_spec_step:
  assumes "find_from buf 0 = Some (j, d)" and "\<not> j > m"
  shows "framer_spec m buf =
     (case framer_spec m (drop (j + d) buf) of
        Inl e \<Rightarrow> Inl e
      | Inr (fs, rest) \<Rightarrow> Inr (emit (take j buf) @ fs, rest))"
proof -
  have "length (take j buf) = j" using find_from_bounds [OF assms(1)] by simp
  with assms show ?thesis
    by (simp add: framer_spec_def split_raw_Some case_prod_beta render_def split: option.split)
qed

text \<open>The loop computes the specified split, with the frames found so far in front.\<close>

lemma push_loop_spec:
  assumes "framer_inv f"
  shows "push_loop f acc =
     (case framer_spec (fr_max_frame_bytes f) (fr_buffer f) of
        Inl e \<Rightarrow> (f\<lparr>fr_buffer := [], fr_scan_from := 0\<rparr>, Inl e)
      | Inr (fs, rest) \<Rightarrow>
          (f\<lparr>fr_buffer := rest, fr_scan_from := length rest - 3\<rparr>, Inr (acc @ fs)))"
  using assms
proof (induction f acc rule: push_loop.induct)
  case (1 f acc)
  note del = find_delimiter_inv [OF "1.prems"]
  show ?case
  proof (cases "find_from (fr_buffer f) 0")
    case None
    then show ?thesis
      by (simp add: push_loop.simps [of f acc] del framer_spec_def split_raw_None render_def)
  next
    case (Some p)
    obtain j d where p: "p = (j, d)" by (cases p)
    with Some have f: "find_from (fr_buffer f) 0 = Some (j, d)" by simp
    then have len: "j + d \<le> length (fr_buffer f)" by (auto dest: find_from_bounds)
    show ?thesis
    proof (cases "j > fr_max_frame_bytes f")
      case True
      then show ?thesis
        using len by (simp add: push_loop.simps [of f acc] del f framer_spec_def split_raw_Some
            case_prod_beta)
    next
      case False
      let ?f' = "f\<lparr>fr_buffer := drop d (drop j (fr_buffer f)), fr_scan_from := 0\<rparr>"
      have "framer_inv ?f'" by (simp add: framer_inv_def)
      have IH: "push_loop ?f' (acc @ emit (take j (fr_buffer f))) =
         (case framer_spec (fr_max_frame_bytes f) (drop (j + d) (fr_buffer f)) of
            Inl e \<Rightarrow> (f\<lparr>fr_buffer := [], fr_scan_from := 0\<rparr>, Inl e)
          | Inr (fs, rest) \<Rightarrow>
              (f\<lparr>fr_buffer := rest, fr_scan_from := length rest - 3\<rparr>,
               Inr ((acc @ emit (take j (fr_buffer f))) @ fs)))"
        using "1.IH" [OF _ refl False \<open>framer_inv ?f'\<close>] f del
        by (simp add: add.commute split: sum.split)
      have "push_loop f acc = push_loop ?f' (acc @ emit (take j (fr_buffer f)))"
        using False by (simp add: push_loop.simps [of f acc] del f)
      then show ?thesis
        unfolding IH framer_spec_step [OF f False] by (simp split: sum.split)
    qed
  qed
qed

lemma framer_idle_init: "framer_idle (with_max_frame_bytes n)"
  by (simp add: framer_idle_def with_max_frame_bytes_def find_from.simps [of "[]"])

lemma framer_idle_inv: "framer_idle f \<Longrightarrow> framer_inv (f\<lparr>fr_buffer := fr_buffer f @ bytes\<rparr>)"
  by (rule framer_inv_extend) (auto simp: framer_idle_def framer_inv_def find_from_None_iff)

lemma push_spec:
  assumes "framer_idle f"
  shows "push f bytes =
     (case framer_spec (fr_max_frame_bytes f) (fr_buffer f @ bytes) of
        Inl e \<Rightarrow> (f\<lparr>fr_buffer := [], fr_scan_from := 0\<rparr>, Inl e)
      | Inr (fs, rest) \<Rightarrow>
          (f\<lparr>fr_buffer := rest, fr_scan_from := length rest - 3\<rparr>, Inr fs))"
  unfolding push_def push_loop_spec [OF framer_idle_inv [OF assms]]
  by (simp split: sum.split)

lemma framer_spec_InrD:
  assumes "framer_spec m buf = Inr (fs, rest)"
  shows "fs = render (fst (split_raw buf))" "rest = snd (split_raw buf)" "length rest \<le> m"
  using assms by (auto simp: framer_spec_def case_prod_beta split: option.splits if_splits)

lemma framer_spec_ok:
  assumes "\<forall>r \<in> set (fst (split_raw buf)). length r \<le> m" and "length (snd (split_raw buf)) \<le> m"
  shows "framer_spec m buf = Inr (render (fst (split_raw buf)), snd (split_raw buf))"
proof -
  have "find (\<lambda>r. length r > m) (fst (split_raw buf)) = None"
    using assms(1) by (auto simp: find_None_iff)
  with assms(2) show ?thesis by (simp add: framer_spec_def case_prod_beta)
qed

lemma push_idle:
  assumes "framer_idle f" and "push f bytes = (f', r)"
  shows "framer_idle f'" "fr_max_frame_bytes f' = fr_max_frame_bytes f"
  using assms(2) push_spec [OF assms(1), of bytes]
  by (auto simp: framer_idle_def find_from.simps [of "[]"] split_raw_tail dest: framer_spec_InrD
      split: sum.splits)

lemma push_Inr:
  assumes "framer_idle f" and "push f bytes = (f', Inr fs)"
  shows "fs = render (fst (split_raw (fr_buffer f @ bytes)))"
    "fr_buffer f' = snd (split_raw (fr_buffer f @ bytes))"
  using assms(2) push_spec [OF assms(1), of bytes]
  by (auto dest: framer_spec_InrD split: sum.splits)

text \<open>A successful run over chunks is the chunk-wise feed of the specification.\<close>

lemma push_all_feed:
  assumes "framer_idle f" and "push_all f cs = (f', Inr fs)"
  shows "fs = render (fst (feed_chunks split_raw (fr_buffer f) cs))
    \<and> fr_buffer f' = snd (feed_chunks split_raw (fr_buffer f) cs)"
  using assms
proof (induction cs arbitrary: f fs)
  case Nil
  then show ?case by (simp add: render_def)
next
  case (Cons c cs)
  then obtain g gs hs where p: "push f c = (g, Inr gs)" "push_all g cs = (f', Inr hs)"
    "fs = gs @ hs"
    by (auto split: prod.splits sum.splits)
  with Cons.prems(1) have "framer_idle g" by (auto intro: push_idle)
  from Cons.IH [OF this p(2)] push_Inr [OF Cons.prems(1) p(1)] p(3)
  show ?case by (simp add: case_prod_beta render_append)
qed

lemma idle_tail: "framer_idle f \<Longrightarrow> split_raw (fr_buffer f) = ([], fr_buffer f)"
  by (simp add: framer_idle_def split_raw_None)

text \<open>A pending tail is at most three bytes longer than the frame it will complete.\<close>

lemma tail_before_frame:
  assumes "find_from t 0 = None" and "find_from (t @ ys) 0 = Some (j, d)"
  shows "length t \<le> j + 3"
proof (rule ccontr)
  assume "\<not> length t \<le> j + 3"
  then have "delim_at (t @ ys) j = delim_at t j" by (simp add: delim_at_append_far)
  with assms show False by (auto simp: find_from_Some_iff find_from_None_iff)
qed

lemma tail_within_limit:
  assumes t: "find_from t 0 = None"
    and fs: "\<forall>r \<in> set (fst (split_raw (t @ ys))). length r + 3 \<le> m"
    and rest: "length (snd (split_raw (t @ ys))) \<le> m"
  shows "length t \<le> m"
proof (cases "find_from (t @ ys) 0")
  case None
  with rest show ?thesis by (simp add: split_raw_None)
next
  case (Some p)
  then obtain j d where f: "find_from (t @ ys) 0 = Some (j, d)" by (cases p) auto
  with fs have "length (take j (t @ ys)) + 3 \<le> m" by (simp add: split_raw_Some)
  moreover have "length (take j (t @ ys)) = j" using find_from_bounds [OF f] by auto
  ultimately show ?thesis using tail_before_frame [OF t f] by simp
qed

lemma push_all_succeeds:
  assumes "framer_idle f" and "m = fr_max_frame_bytes f"
    and "\<forall>r \<in> set (fst (split_raw (fr_buffer f @ concat cs))). length r + 3 \<le> m"
    and "length (snd (split_raw (fr_buffer f @ concat cs))) \<le> m"
  shows "\<exists>f' fs. push_all f cs = (f', Inr fs)"
  using assms
proof (induction cs arbitrary: f)
  case Nil
  then show ?case by simp
next
  case (Cons c cs)
  let ?b = "fr_buffer f @ c"
  have eq: "split_raw (fr_buffer f @ concat (c # cs)) = split_raw (?b @ concat cs)" by simp
  note sp = split_raw_append [of ?b "concat cs"]
  let ?t = "snd (split_raw ?b)"
  have "\<forall>r \<in> set (fst (split_raw ?b)). length r + 3 \<le> m"
    and rec: "\<forall>r \<in> set (fst (split_raw (?t @ concat cs))). length r + 3 \<le> m"
      "length (snd (split_raw (?t @ concat cs))) \<le> m"
    using Cons.prems(3,4) unfolding eq sp by auto
  moreover have "length ?t \<le> m" using tail_within_limit [OF split_raw_tail rec] .
  ultimately have "framer_spec m ?b = Inr (render (fst (split_raw ?b)), ?t)"
    by (intro framer_spec_ok) auto
  then obtain g gs where g: "push f c = (g, Inr gs)" "fr_buffer g = ?t"
    using push_spec [OF Cons.prems(1), of c] Cons.prems(2) by auto
  moreover from push_idle [OF Cons.prems(1) g(1)] Cons.prems(2)
  have "framer_idle g" "m = fr_max_frame_bytes g" by auto
  ultimately obtain h hs where "push_all g cs = (h, Inr hs)"
    using Cons.IH [of g] rec by auto
  with g(1) show ?case by simp
qed

section \<open>Lemmas on data payloads\<close>

lemma data_step_alt:
  "data_step line acc =
     (case payload line of
        None \<Rightarrow> acc
      | Some x \<Rightarrow> ((if fst acc = [] then x else fst acc @ LF # x), True))"
  by (simp add: data_step_def payload_def split: option.split)

lemma join_lf_snoc: "xs \<noteq> [] \<Longrightarrow> join_lf (xs @ [y]) = join_lf xs @ LF # y"
  by (induction xs rule: join_lf.induct) auto

lemma join_lf_Nil: "join_lf xs = [] \<longleftrightarrow> xs = [] \<or> xs = [[]]"
  by (induction xs rule: join_lf.induct) auto

lemma map_filter_append: "List.map_filter f (xs @ ys) = List.map_filter f xs @ List.map_filter f ys"
  by (simp add: List.map_filter_def)

lemma map_filter_single:
  "List.map_filter f [x] = (case f x of None \<Rightarrow> [] | Some y \<Rightarrow> [y])"
  by (simp add: List.map_filter_def split: option.split)

text \<open>The loop keeps the join of the payloads seen so far, leading empty ones dropped.\<close>

lemma dropWhile_snoc:
  "dropWhile P (xs @ [y]) =
     (if dropWhile P xs = [] then (if P y then [] else [y]) else dropWhile P xs @ [y])"
  by (induction xs) auto

lemma join_lf_dropWhile_Nil:
  "join_lf (dropWhile (\<lambda>p. p = []) xs) = [] \<longleftrightarrow> dropWhile (\<lambda>p. p = []) xs = []"
  using hd_dropWhile_not [of "\<lambda>p. p = []" xs "[]" "[]"] by (auto simp: join_lf_Nil)

lemma fold_data_step:
  "fold data_step ls ([], False) =
     (let ps = List.map_filter payload ls
      in (join_lf (dropWhile (\<lambda>p. p = []) ps), ps \<noteq> []))"
proof (induction ls rule: rev_induct)
  case Nil
  then show ?case by (simp add: List.map_filter_def)
next
  case (snoc l ls)
  show ?case
  proof (cases "payload l")
    case None
    with snoc show ?thesis
      by (simp add: data_step_alt map_filter_append map_filter_single)
  next
    case (Some x)
    with snoc show ?thesis
      by (simp add: data_step_alt map_filter_append map_filter_single Let_def dropWhile_snoc
          join_lf_dropWhile_Nil join_lf_snoc)
  qed
qed

section \<open>Properties\<close>

text \<open>
  C29. Chunk independence: whenever a framer accepts a stream, the frames it yields and the
  pending bytes it keeps are those of the whole stream, whatever the transport chunks were.
\<close>

theorem framer_chunk_independent:
  assumes "push_all (with_max_frame_bytes n) chunks = (f, Inr fs)"
  shows "fs = render (fst (split_raw (concat chunks)))
    \<and> fr_buffer f = snd (split_raw (concat chunks))"
proof -
  have "fr_buffer (with_max_frame_bytes n) = []" by (simp add: with_max_frame_bytes_def)
  with push_all_feed [OF framer_idle_init assms] show ?thesis
    using raw_split.feed_chunks_concat [OF split_raw_Nil, of chunks] by simp
qed

theorem framer_chunk_independent_witness:
  "push_all (with_max_frame_bytes 12) [''data: a'' @ [CR, LF, CR], [LF, CHR ''x'']]
     = (\<lparr>fr_buffer = ''x'', fr_scan_from = 0, fr_max_frame_bytes = 12\<rparr>, Inr [''data: a''])
   \<and> [''data: a''] = render (fst (split_raw (concat [''data: a'' @ [CR, LF, CR], [LF, CHR ''x'']])))"
proof -
  have run: "push_all (with_max_frame_bytes 12) [''data: a'' @ [CR, LF, CR], [LF, CHR ''x'']]
     = (\<lparr>fr_buffer = ''x'', fr_scan_from = 0, fr_max_frame_bytes = 12\<rparr>, Inr [''data: a''])"
    by code_simp
  show ?thesis using run framer_chunk_independent [OF run] by blast
qed

text \<open>
  No spurious rejection: when every frame of a stream is at least three bytes below the
  limit (room for a split delimiter) and the unterminated tail is within it, every chunking of
  the stream is accepted, and yields all frames.
\<close>

theorem framer_accepts:
  assumes "\<forall>r \<in> set (fst (split_raw (concat chunks))). length r + 3 \<le> n"
    and "length (snd (split_raw (concat chunks))) \<le> n"
  shows "\<exists>f. push_all (with_max_frame_bytes n) chunks
            = (f, Inr (render (fst (split_raw (concat chunks)))))"
proof -
  let ?f = "with_max_frame_bytes n"
  have "fr_buffer ?f = []" "n \<le> fr_max_frame_bytes ?f"
    by (simp_all add: with_max_frame_bytes_def)
  with assms obtain f fs where r: "push_all ?f chunks = (f, Inr fs)"
    using push_all_succeeds [OF framer_idle_init refl, of n chunks] by fastforce
  have "fs = render (fst (feed_chunks split_raw (fr_buffer ?f) chunks))"
    using push_all_feed [OF framer_idle_init r] by blast
  with r show ?thesis
    using raw_split.feed_chunks_concat [OF split_raw_Nil, of chunks] \<open>fr_buffer ?f = []\<close>
    by simp
qed

theorem framer_accepts_witness:
  "\<exists>f. push_all (with_max_frame_bytes 10) [''data: a'', [LF], [LF]] = (f, Inr [''data: a''])"
proof -
  have s: "split_raw (concat [''data: a'', [LF], [LF]]) = ([''data: a''], [])"
    "render [''data: a''] = [''data: a'']"
    by code_simp+
  show ?thesis by (rule framer_accepts [of "[''data: a'', [LF], [LF]]" 10, unfolded s fst_conv]) simp_all
qed

text \<open>
  The limit is enforced on every push: an accepted push leaves at most the limit buffered,
  a rejected one reports a size above the limit and leaves the framer empty and reusable.
\<close>

theorem framer_bounded:
  assumes "framer_idle f" and "push f bytes = (f', r)"
  shows "framer_idle f' \<and> pending_bytes f' \<le> fr_max_frame_bytes f
    \<and> (\<forall>k l. r = Inl (FrameTooLarge k l) \<longrightarrow>
          l = fr_max_frame_bytes f \<and> l < k \<and> \<not> pending f')"
proof -
  have idle: "framer_idle f'" and m: "fr_max_frame_bytes f' = fr_max_frame_bytes f"
    using push_idle [OF assms] by auto
  then have "pending_bytes f' \<le> fr_max_frame_bytes f"
    by (simp add: framer_idle_def pending_bytes_def)
  moreover have "l = fr_max_frame_bytes f \<and> l < k \<and> \<not> pending f'"
    if "r = Inl (FrameTooLarge k l)" for k l
    using assms(2) that push_spec [OF assms(1), of bytes]
    by (auto simp: framer_spec_def case_prod_beta pending_def find_Some_iff
        split: option.splits if_splits sum.splits)
  ultimately show ?thesis using idle by blast
qed

theorem framer_bounded_witness:
  "\<not> pending (fst (push (with_max_frame_bytes 2) ''abc''))
   \<and> snd (push (with_max_frame_bytes 2) ''abc'') = Inl (FrameTooLarge 3 2)"
proof -
  have p: "push (with_max_frame_bytes 2) ''abc''
     = (\<lparr>fr_buffer = [], fr_scan_from = 0, fr_max_frame_bytes = 2\<rparr>, Inl (FrameTooLarge 3 2))"
    by code_simp
  show ?thesis using framer_bounded [OF framer_idle_init p] p by simp
qed

text \<open>
  The limit does depend on chunk boundaries: a frame of exactly the limit is accepted when
  its delimiter arrives in one chunk and rejected when the delimiter is split.
\<close>

theorem framer_limit_chunk_dependent:
  "snd (push_all (with_max_frame_bytes 1) [''a'' @ [LF, LF]]) = Inr [''a'']
   \<and> snd (push_all (with_max_frame_bytes 1) [''a'' @ [LF], [LF]]) = Inl (FrameTooLarge 2 1)"
  by code_simp

text \<open>
  The data payload of a frame is the newline-join of its data lines with leading empty
  lines dropped; there is none exactly when no line carries data.
\<close>

theorem extract_data_spec:
  "extract_data frame =
     (if payloads frame = [] then None
      else Some (join_lf (dropWhile (\<lambda>p. p = []) (payloads frame))))"
  by (simp add: extract_data_def fold_data_step payloads_def Let_def)

end
