(* ===== verification/Core_Types.thy ===== *)
theory Core_Types
  imports Kinetix_Prelude
begin

text \<open>
  The provider-neutral value types of \<^verbatim>\<open>src/src/types.rs\<close>: JSON values, capabilities, prices,
  thinking maps, the internal request, token usage, stream events, upstream failures and the
  proxy error with its HTTP rendering. The theorems at the end state how a request's needs are
  matched against configured capabilities, how partial usage reports merge, which failures may be
  retried and which status an error is rendered with.

  \<^verbatim>\<open>serde_json::Value\<close> is the datatype \<open>json\<close> with its public constructors; objects are
  association lists in insertion order (the \<^verbatim>\<open>preserve_order\<close> feature). The accessors
  \<^verbatim>\<open>as_str\<close>, \<^verbatim>\<open>as_f64\<close>, \<dots> are written from their documentation; the parser and the
  printer are parameters of the definitions that call them.
\<close>

section \<open>JSON values\<close>

datatype jnum = PosInt nat | NegInt int | Float f64

datatype json =
    JNull
  | JBool bool
  | JNumber jnum
  | JString string
  | JArray "json list"
  | JObject "(string \<times> json) list"

fun as_bool :: "json \<Rightarrow> bool option" where
  "as_bool (JBool b) = Some b"
| "as_bool _ = None"

fun as_str :: "json \<Rightarrow> string option" where
  "as_str (JString s) = Some s"
| "as_str _ = None"

fun as_array :: "json \<Rightarrow> json list option" where
  "as_array (JArray xs) = Some xs"
| "as_array _ = None"

fun as_object :: "json \<Rightarrow> (string \<times> json) list option" where
  "as_object (JObject fs) = Some fs"
| "as_object _ = None"

fun as_u64 :: "json \<Rightarrow> nat option" where
  "as_u64 (JNumber (PosInt n)) = Some n"
| "as_u64 _ = None"

fun num_to_f64 :: "jnum \<Rightarrow> f64" where
  "num_to_f64 (PosInt n) = of_nat n"
| "num_to_f64 (NegInt i) = of_int i"
| "num_to_f64 (Float x) = x"

fun json_as_f64 :: "json \<Rightarrow> f64 option" where
  "json_as_f64 (JNumber n) = Some (num_to_f64 n)"
| "json_as_f64 _ = None"

fun json_get :: "json \<Rightarrow> string \<Rightarrow> json option" where
  "json_get (JObject fs) k = map_of fs k"
| "json_get _ k = None"

section \<open>Wire formats, capabilities and prices\<close>

datatype wire_format = Openai | Anthropic | Gemini | Plugin

fun wire_format_as_str :: "wire_format \<Rightarrow> string" where
  "wire_format_as_str Openai = ''openai''"
| "wire_format_as_str Anthropic = ''anthropic''"
| "wire_format_as_str Gemini = ''gemini''"
| "wire_format_as_str Plugin = ''plugin''"

definition wire_format_parse :: "string \<Rightarrow> wire_format option" where
  "wire_format_parse s =
     (if s = ''openai'' then Some Openai
      else if s = ''anthropic'' then Some Anthropic
      else if s = ''gemini'' then Some Gemini
      else if s = ''plugin'' then Some Plugin
      else None)"

datatype auth_scheme = Bearer | CustomHeader | QueryParam

definition auth_scheme_parse :: "string \<Rightarrow> auth_scheme option" where
  "auth_scheme_parse s =
     (if s = ''bearer'' then Some Bearer
      else if s = ''custom_header'' then Some CustomHeader
      else if s = ''query_param'' then Some QueryParam
      else None)"

fun auth_scheme_str :: "auth_scheme \<Rightarrow> string" where
  "auth_scheme_str Bearer = ''bearer''"
| "auth_scheme_str CustomHeader = ''custom_header''"
| "auth_scheme_str QueryParam = ''query_param''"

record capabilities =
  cap_text :: bool
  cap_vision :: bool
  cap_reasoning :: bool
  cap_tool_calling :: bool
  cap_audio :: bool
  cap_structured_output :: bool

definition capabilities_default :: capabilities where
  "capabilities_default = \<lparr>cap_text = False, cap_vision = False, cap_reasoning = False,
     cap_tool_calling = False, cap_audio = False, cap_structured_output = False\<rparr>"

definition apply_token :: "string \<Rightarrow> capabilities \<Rightarrow> capabilities" where
  "apply_token t c =
     (if t = ''text'' then c\<lparr>cap_text := True\<rparr>
      else if t = ''vision'' then c\<lparr>cap_vision := True\<rparr>
      else if t = ''reasoning'' then c\<lparr>cap_reasoning := True\<rparr>
      else if t = ''tool_calling'' \<or> t = ''tools'' then c\<lparr>cap_tool_calling := True\<rparr>
      else if t = ''audio'' then c\<lparr>cap_audio := True\<rparr>
      else if t = ''structured_output'' \<or> t = ''structuredOutput''
           then c\<lparr>cap_structured_output := True\<rparr>
      else c)"

definition from_tokens :: "string list \<Rightarrow> capabilities" where
  "from_tokens tokens = fold apply_token tokens capabilities_default"

record capability_needs =
  need_vision :: bool
  need_tools :: bool
  need_reasoning :: bool

definition satisfies :: "capabilities \<Rightarrow> capability_needs \<Rightarrow> bool" where
  "satisfies c needs =
     (if need_vision needs \<and> \<not> cap_vision c then False
      else if need_tools needs \<and> \<not> cap_tool_calling c then False
      else if need_reasoning needs \<and> \<not> cap_reasoning c then False
      else True)"

record prices =
  input_per_1m :: "f64 option"
  output_per_1m :: "f64 option"
  cached_per_1m :: "f64 option"
  cache_write_per_1m :: "f64 option"
  thinking_per_1m :: "f64 option"

definition is_configured :: "prices \<Rightarrow> bool" where
  "is_configured p = (input_per_1m p \<noteq> None \<or> output_per_1m p \<noteq> None)"

section \<open>Thinking levels and maps\<close>

datatype thinking_level =
  TL_Off | TL_Default | TL_Minimal | TL_Low | TL_Medium | TL_High | TL_XHigh | TL_Max

fun thinking_as_key :: "thinking_level \<Rightarrow> string" where
  "thinking_as_key TL_Off = ''off''"
| "thinking_as_key TL_Default = ''default''"
| "thinking_as_key TL_Minimal = ''minimal''"
| "thinking_as_key TL_Low = ''low''"
| "thinking_as_key TL_Medium = ''medium''"
| "thinking_as_key TL_High = ''high''"
| "thinking_as_key TL_XHigh = ''xhigh''"
| "thinking_as_key TL_Max = ''max''"

datatype thinking_mode = ManualBudget | Level | Adaptive

text \<open>The level table is a hash map; its entries are listed in iteration order.\<close>

record thinking_map =
  tm_levels :: "(string \<times> json) list"
  tm_mode :: "thinking_mode option"
  tm_budget_field :: "string option"
  tm_level_field :: "string option"

definition is_adaptive :: "thinking_map \<Rightarrow> bool" where
  "is_adaptive tm = (tm_mode tm = Some Adaptive)"

definition uses_level_field :: "thinking_map \<Rightarrow> bool" where
  "uses_level_field tm = (tm_mode tm = Some Level \<or> tm_mode tm = Some Adaptive)"

definition scalar_field :: "thinking_map \<Rightarrow> string option" where
  "scalar_field tm = (if uses_level_field tm then tm_level_field tm else tm_budget_field tm)"

definition level_is_executable :: "thinking_map \<Rightarrow> string \<Rightarrow> bool" where
  "level_is_executable tm level =
     (case map_of (tm_levels tm) level of
        None \<Rightarrow> False
      | Some JNull \<Rightarrow> False
      | Some (JArray _) \<Rightarrow> False
      | Some (JObject fs) \<Rightarrow> fs \<noteq> [] \<and> list_all (\<lambda>f. trim (fst f) \<noteq> []) fs
      | Some _ \<Rightarrow> is_some_and (\<lambda>f. trim f \<noteq> []) (scalar_field tm))"

definition anthropic_adaptive_off_is_executable :: "thinking_map \<Rightarrow> bool" where
  "anthropic_adaptive_off_is_executable tm =
     (if \<not> is_adaptive tm then False
      else case map_of (tm_levels tm) ''off'' of
        Some (JObject fs) \<Rightarrow>
          Option.bind (map_of fs ''thinking.type'') as_str = Some ''disabled''
          \<or> Option.bind (Option.bind (map_of fs ''thinking'')
                (\<lambda>th. case th of JObject _ \<Rightarrow> json_get th ''type'' | _ \<Rightarrow> None)) as_str
              = Some ''disabled''
      | _ \<Rightarrow> False)"

definition level_error :: "thinking_map \<Rightarrow> string \<Rightarrow> json \<Rightarrow> string list" where
  "level_error tm level value =
     (if trim level = [] then [''thinking_map level names must not be empty'']
      else case value of
        JNull \<Rightarrow> [''thinking_map level '' @ CHR 0x27 # level @ CHR 0x27 # '' must not be null'']
      | JArray _ \<Rightarrow>
          [''thinking_map level '' @ CHR 0x27 # level @ CHR 0x27 # '' must be an object or scalar'']
      | JObject fs \<Rightarrow>
          (if fs = [] then
             [''thinking_map level '' @ CHR 0x27 # level @ CHR 0x27 # '' must not be an empty object'']
           else if list_ex (\<lambda>f. trim (fst f) = []) fs then
             [''thinking_map level '' @ CHR 0x27 # level @ CHR 0x27 # '' contains an empty upstream field'']
           else [])
      | _ \<Rightarrow>
          (if is_adaptive tm \<and> level = ''off'' then
             [''thinking_map adaptive level '' @ CHR 0x27 # ''off'' @ CHR 0x27
                # '' must be an object mapping that explicitly disables thinking'']
           else if \<not> level_is_executable tm level then
             [''thinking_map level '' @ CHR 0x27 # level @ CHR 0x27 # '' uses a scalar mapping but ''
                @ (if uses_level_field tm then ''level_field'' else ''budget_field'')
                @ '' is not configured'']
           else []))"

definition validation_errors :: "thinking_map \<Rightarrow> string list" where
  "validation_errors tm =
     (if is_some_and (\<lambda>f. trim f = []) (tm_budget_field tm)
      then [''thinking_map.budget_field must not be empty''] else [])
     @ (if is_some_and (\<lambda>f. trim f = []) (tm_level_field tm)
        then [''thinking_map.level_field must not be empty''] else [])
     @ concat (map (\<lambda>(level, value). level_error tm level value) (tm_levels tm))"

section \<open>The internal request\<close>

datatype role = System | User | Assistant | Tool

datatype image_data = Base64 string string | Url string

datatype part =
    Text string
  | Image image_data
  | ToolCall "string option" string string "string option"
      \<comment> \<open>id, name, arguments, signature\<close>
  | ToolResult string "string option" string bool
      \<comment> \<open>tool\_call\_id, name, content, is\_error\<close>
  | Thinking string "string option"
      \<comment> \<open>text, signature\<close>

record message =
  msg_role :: role
  msg_parts :: "part list"

record tool_def =
  tool_name :: string
  tool_description :: "string option"
  tool_parameters :: json
  tool_defer_loading :: "bool option"

datatype tool_choice = TC_Auto | TC_None | TC_Required | TC_Specific

record sampling_params =
  sp_temperature :: "f64 option"
  sp_top_p :: "f64 option"
  sp_top_k :: "f64 option"
  sp_max_tokens :: "nat option"
  sp_stop :: "string list"
  sp_seed :: "int option"
  sp_presence_penalty :: "f64 option"
  sp_frequency_penalty :: "f64 option"

record internal_request =
  requested_model :: string
  rq_system :: "string list"
  rq_messages :: "message list"
  rq_tools :: "tool_def list"
  rq_tool_choice :: "tool_choice option"
  rq_tool_choice_name :: "string option"
  rq_params :: sampling_params
  rq_stream :: bool
  rq_include_usage :: bool
  rq_thinking :: "thinking_level option"
  rq_extra :: "(string \<times> json) list"
  rq_raw_body :: "string option"

fun is_image :: "part \<Rightarrow> bool" where
  "is_image (Image _) = True"
| "is_image _ = False"

definition request_needs :: "internal_request \<Rightarrow> capability_needs" where
  "request_needs req =
     \<lparr>need_vision = list_ex (\<lambda>m. list_ex is_image (msg_parts m)) (rq_messages req),
      need_tools = (rq_tools req \<noteq> []),
      need_reasoning = (rq_thinking req \<noteq> None)\<rparr>"

fun part_chars :: "part \<Rightarrow> nat" where
  "part_chars (Text t) = length t"
| "part_chars (Thinking t _) = length t"
| "part_chars (ToolCall _ name args _) = length name + length args"
| "part_chars (ToolResult _ _ content _) = length content"
| "part_chars (Image _) = 1000"

definition approx_input_tokens :: "internal_request \<Rightarrow> nat" where
  "approx_input_tokens req =
     div_ceil (sum_list (map length (rq_system req))
        + sum_list (map (\<lambda>m. sum_list (map part_chars (msg_parts m))) (rq_messages req))) 4"

section \<open>Usage and stream events\<close>

record token_usage =
  tu_input :: "nat option"
  tu_output :: "nat option"
  tu_cached :: "nat option"
  tu_cache_write :: "nat option"
  tu_thinking :: "nat option"

definition usage_default :: token_usage where
  "usage_default = \<lparr>tu_input = None, tu_output = None, tu_cached = None,
     tu_cache_write = None, tu_thinking = None\<rparr>"

definition merge_usage :: "token_usage \<Rightarrow> token_usage \<Rightarrow> token_usage" where
  "merge_usage self other =
     (let s1 = (if tu_input other \<noteq> None then self\<lparr>tu_input := tu_input other\<rparr> else self);
          s2 = (if tu_output other \<noteq> None then s1\<lparr>tu_output := tu_output other\<rparr> else s1);
          s3 = (if tu_cached other \<noteq> None then s2\<lparr>tu_cached := tu_cached other\<rparr> else s2);
          s4 = (if tu_cache_write other \<noteq> None
                then s3\<lparr>tu_cache_write := tu_cache_write other\<rparr> else s3)
      in if tu_thinking other \<noteq> None then s4\<lparr>tu_thinking := tu_thinking other\<rparr> else s4)"

datatype finish_reason = Stop | Length | ToolCalls | ContentFilter | OtherReason string

fun finish_as_str :: "finish_reason \<Rightarrow> string" where
  "finish_as_str Stop = ''stop''"
| "finish_as_str Length = ''length''"
| "finish_as_str ToolCalls = ''tool_calls''"
| "finish_as_str ContentFilter = ''content_filter''"
| "finish_as_str (OtherReason s) = s"

datatype stream_event =
    Start "string option"
  | ThinkingDelta string "string option"
  | TextDelta string
  | RefusalDelta string
  | ToolCallStart nat "string option" string "string option"
  | ToolCallArgsDelta nat string
  | Usage token_usage
  | Finish finish_reason

section \<open>Failures and errors\<close>

datatype failure_kind =
    RateLimit | QuotaExhausted | AuthError | TargetError
  | ServerError | ConnectionError | Timeout | BadRequest

definition is_retryable :: "failure_kind \<Rightarrow> bool" where
  "is_retryable k = (k \<noteq> BadRequest)"

definition is_account_scoped :: "failure_kind \<Rightarrow> bool" where
  "is_account_scoped k = (k = RateLimit \<or> k = QuotaExhausted \<or> k = AuthError)"

definition is_key_level :: "failure_kind \<Rightarrow> bool" where
  "is_key_level k = is_account_scoped k"

record upstream_failure =
  uf_kind :: failure_kind
  uf_status :: "nat option"
  uf_retry_after_secs :: "nat option"
  uf_message :: string
  uf_quota_reset_at :: "nanos option"

datatype error_kind =
    E_BadRequest | E_Unauthorized | E_Forbidden | E_NotFound | E_RateLimited | E_BudgetExceeded
  | E_Unsupported | E_Upstream | E_AllTargetsUnavailable | E_Internal | E_ServiceUnavailable

record proxy_error =
  pe_kind :: error_kind
  pe_message :: string
  pe_retry_after_secs :: "nat option"
  pe_headers :: "(string \<times> string) list"
  pe_http_status_override :: "nat option"
  pe_body_override :: "json option"

definition pe_new :: "error_kind \<Rightarrow> string \<Rightarrow> proxy_error" where
  "pe_new k msg = \<lparr>pe_kind = k, pe_message = msg, pe_retry_after_secs = None, pe_headers = [],
     pe_http_status_override = None, pe_body_override = None\<rparr>"

definition pe_bad_request :: "string \<Rightarrow> proxy_error" where
  "pe_bad_request msg = pe_new E_BadRequest msg"

definition pe_not_found :: "string \<Rightarrow> proxy_error" where
  "pe_not_found msg = pe_new E_NotFound msg"

definition pe_unauthorized :: "string \<Rightarrow> proxy_error" where
  "pe_unauthorized msg = pe_new E_Unauthorized msg"

definition pe_rate_limited :: "string \<Rightarrow> nat option \<Rightarrow> proxy_error" where
  "pe_rate_limited msg ra = \<lparr>pe_kind = E_RateLimited, pe_message = msg,
     pe_retry_after_secs = ra, pe_headers = [], pe_http_status_override = None,
     pe_body_override = None\<rparr>"

definition pe_budget_exceeded :: "string \<Rightarrow> proxy_error" where
  "pe_budget_exceeded msg = pe_new E_BudgetExceeded msg"

definition pe_upstream :: "string \<Rightarrow> proxy_error" where
  "pe_upstream msg = pe_new E_Upstream msg"

definition pe_all_unavailable :: "string \<Rightarrow> nat option \<Rightarrow> proxy_error" where
  "pe_all_unavailable msg ra = \<lparr>pe_kind = E_AllTargetsUnavailable, pe_message = msg,
     pe_retry_after_secs = ra, pe_headers = [], pe_http_status_override = None,
     pe_body_override = None\<rparr>"

definition pe_unsupported :: "string \<Rightarrow> proxy_error" where
  "pe_unsupported msg = pe_new E_Unsupported msg"

definition pe_unavailable :: "string \<Rightarrow> proxy_error" where
  "pe_unavailable msg = pe_new E_ServiceUnavailable msg"

definition pe_internal :: "string \<Rightarrow> proxy_error" where
  "pe_internal msg = pe_new E_Internal msg"

fun kind_status :: "error_kind \<Rightarrow> nat" where
  "kind_status E_BadRequest = 400"
| "kind_status E_Unauthorized = 401"
| "kind_status E_Forbidden = 403"
| "kind_status E_NotFound = 404"
| "kind_status E_Unsupported = 422"
| "kind_status E_RateLimited = 429"
| "kind_status E_BudgetExceeded = 429"
| "kind_status E_AllTargetsUnavailable = 503"
| "kind_status E_ServiceUnavailable = 503"
| "kind_status E_Upstream = 502"
| "kind_status E_Internal = 502"

definition http_status :: "proxy_error \<Rightarrow> nat" where
  "http_status e =
     (case pe_http_status_override e of Some s \<Rightarrow> s | None \<Rightarrow> kind_status (pe_kind e))"

lemmas pe_defs = pe_new_def pe_bad_request_def pe_not_found_def pe_unauthorized_def
  pe_rate_limited_def pe_budget_exceeded_def pe_upstream_def pe_all_unavailable_def
  pe_internal_def pe_unsupported_def pe_unavailable_def

section \<open>Lemmas\<close>

lemma wire_format_roundtrip: "wire_format_parse (wire_format_as_str w) = Some w"
  by (cases w) (simp_all add: wire_format_parse_def)

lemma wire_format_parse_sound: "wire_format_parse s = Some w \<Longrightarrow> wire_format_as_str w = s"
  by (auto simp: wire_format_parse_def split: if_splits)

lemma auth_scheme_roundtrip: "auth_scheme_parse (auth_scheme_str a) = Some a"
  by (cases a) (simp_all add: auth_scheme_parse_def)

lemma thinking_as_key_inj: "thinking_as_key a = thinking_as_key b \<Longrightarrow> a = b"
  by (cases a; cases b) simp_all

lemma merge_usage_fields [simp]:
  "tu_input (merge_usage a b) = opt_or (tu_input b) (tu_input a)"
  "tu_output (merge_usage a b) = opt_or (tu_output b) (tu_output a)"
  "tu_cached (merge_usage a b) = opt_or (tu_cached b) (tu_cached a)"
  "tu_cache_write (merge_usage a b) = opt_or (tu_cache_write b) (tu_cache_write a)"
  "tu_thinking (merge_usage a b) = opt_or (tu_thinking b) (tu_thinking a)"
  by (simp_all add: merge_usage_def Let_def opt_or_def split: option.split)

lemma opt_or_assoc: "opt_or (opt_or x y) z = opt_or x (opt_or y z)"
  by (simp add: opt_or_def split: option.split)

lemma opt_or_None [simp]: "opt_or None x = x" "opt_or x None = x"
  by (simp_all add: opt_or_def split: option.split)

lemma merge_usage_assoc:
  "merge_usage (merge_usage a b) c = merge_usage a (merge_usage b c)"
  by (rule token_usage.equality) (simp_all add: opt_or_assoc)

lemma merge_usage_default:
  "merge_usage usage_default u = u" "merge_usage u usage_default = u"
  by (rule token_usage.equality; simp add: usage_default_def)+

text \<open>Capability tokens accumulate: each flag is set iff one of its tokens occurs.\<close>

lemma fold_apply_token:
  "cap_text (fold apply_token ts c) = (cap_text c \<or> ''text'' \<in> set ts)"
  "cap_vision (fold apply_token ts c) = (cap_vision c \<or> ''vision'' \<in> set ts)"
  "cap_reasoning (fold apply_token ts c) = (cap_reasoning c \<or> ''reasoning'' \<in> set ts)"
  "cap_tool_calling (fold apply_token ts c) =
     (cap_tool_calling c \<or> ''tool_calling'' \<in> set ts \<or> ''tools'' \<in> set ts)"
  "cap_audio (fold apply_token ts c) = (cap_audio c \<or> ''audio'' \<in> set ts)"
  by (induction ts arbitrary: c; auto simp: apply_token_def)+

lemma from_tokens_satisfies:
  "satisfies (from_tokens ts) needs \<longleftrightarrow>
     (need_vision needs \<longrightarrow> ''vision'' \<in> set ts) \<and>
     (need_tools needs \<longrightarrow> ''tool_calling'' \<in> set ts \<or> ''tools'' \<in> set ts) \<and>
     (need_reasoning needs \<longrightarrow> ''reasoning'' \<in> set ts)"
  by (auto simp: satisfies_def from_tokens_def fold_apply_token capabilities_default_def)

lemma http_status_range:
  "pe_http_status_override e = None \<Longrightarrow> 400 \<le> http_status e \<and> http_status e < 600"
  by (cases "pe_kind e") (simp_all add: http_status_def)

text \<open>A level with no validation error is executable.\<close>

lemma level_error_executable:
  assumes "map_of (tm_levels tm) level = Some value" and "level_error tm level value = []"
  shows "level_is_executable tm level"
  using assms
  by (auto simp: level_error_def level_is_executable_def list_all_iff list_ex_iff
      split: if_splits json.splits)

lemma validation_errors_executable:
  assumes "validation_errors tm = []" and "map_of (tm_levels tm) level = Some value"
  shows "level_is_executable tm level"
proof -
  have "(level, value) \<in> set (tm_levels tm)"
    using assms(2) by (rule map_of_SomeD)
  with assms(1) have "level_error tm level value = []"
    by (auto simp: validation_errors_def)
  with assms(2) show ?thesis by (rule level_error_executable)
qed

end
