(* ===== verification/Provider_Circuit.thy ===== *)
theory Provider_Circuit
  imports Core_Types
begin

text \<open>
  The provider-level circuit breaker (\<^verbatim>\<open>src/src/provider_circuit.rs\<close>): the circuit with its
  evidence window, generation and half-open lease, the attempt that borrows it, and every
  operation on the two. Each method runs under the circuit's lock, so one method call is one
  step; the clock reading is an argument. A provider's run is a sequence of such steps over the
  circuit and all attempts ever started on it, and the theorems hold in every state of every run.
\<close>

section \<open>Definitions\<close>

definition CORRELATION_WINDOW_SECS :: int where [const_defs]: "CORRELATION_WINDOW_SECS = 30"
definition OPEN_COOLDOWN_SECS :: int where [const_defs]: "OPEN_COOLDOWN_SECS = 30"
definition ABANDONED_PROBE_RETRY_SECS :: int where [const_defs]: "ABANDONED_PROBE_RETRY_SECS = 1"
definition MIN_DISTINCT_ACCOUNTS :: nat where [const_defs]: "MIN_DISTINCT_ACCOUNTS = 2"
definition MIN_DISTINCT_TARGETS :: nat where [const_defs]: "MIN_DISTINCT_TARGETS = 2"
definition MAX_RECENT_FAILURES :: nat where [const_defs]: "MAX_RECENT_FAILURES = 128"

datatype circuit_state = Closed | Open | HalfOpen

record failure_evidence =
  fe_at :: nanos
  fe_account_id :: string
  fe_target_id :: string

record circuit =
  c_state :: circuit_state
  c_failures :: "failure_evidence list"
  c_opened_at :: "nanos option"
  c_retry_at :: "nanos option"
  c_last_successful_probe :: "nanos option"
  c_half_open_inflight :: nat
  c_generation :: nat
  c_opens :: nat
  c_recoveries :: nat
  c_rejects :: nat
  c_half_open_probes :: nat

definition circuit_default :: circuit where
  "circuit_default = \<lparr>c_state = Closed, c_failures = [], c_opened_at = None, c_retry_at = None,
     c_last_successful_probe = None, c_half_open_inflight = 0, c_generation = 0, c_opens = 0,
     c_recoveries = 0, c_rejects = 0, c_half_open_probes = 0\<rparr>"

record circuit_snapshot =
  cs_provider_id :: string
  cs_state :: circuit_state
  cs_recent_qualifying_failures :: nat
  cs_distinct_failing_accounts :: nat
  cs_distinct_failing_targets :: nat
  cs_recent_failures :: "failure_evidence list"
  cs_opened_at :: "nanos option"
  cs_retry_at :: "nanos option"
  cs_last_successful_probe :: "nanos option"
  cs_opens :: nat
  cs_recoveries :: nat
  cs_rejects :: nat
  cs_half_open_probes :: nat

datatype correlation_policy = DistinctAccounts | AccountlessTargets

record circuit_transition =
  tr_opened :: bool
  tr_recovered :: bool
  tr_half_open_probe :: bool

definition transition_default :: circuit_transition where
  "transition_default = \<lparr>tr_opened = False, tr_recovered = False, tr_half_open_probe = False\<rparr>"

definition merge_transition :: "circuit_transition \<Rightarrow> circuit_transition \<Rightarrow> circuit_transition" where
  "merge_transition a b =
     \<lparr>tr_opened = (tr_opened a \<or> tr_opened b), tr_recovered = (tr_recovered a \<or> tr_recovered b),
      tr_half_open_probe = (tr_half_open_probe a \<or> tr_half_open_probe b)\<rparr>"

record circuit_reject =
  rj_retry_after_secs :: nat
  rj_snapshot :: circuit_snapshot

definition purge_old :: "nanos \<Rightarrow> circuit \<Rightarrow> circuit" where
  "purge_old now c =
     (let cutoff = now - secs CORRELATION_WINDOW_SECS
      in c\<lparr>c_failures := dropWhile (\<lambda>f. fe_at f < cutoff) (c_failures c)\<rparr>)"

definition distinct_accounts :: "failure_evidence list \<Rightarrow> nat" where
  "distinct_accounts fs = length (remdups (map fe_account_id fs))"

definition distinct_targets :: "failure_evidence list \<Rightarrow> nat" where
  "distinct_targets fs = length (remdups (map fe_target_id fs))"

definition circuit_snapshot_of :: "string \<Rightarrow> nanos \<Rightarrow> circuit \<Rightarrow> circuit \<times> circuit_snapshot" where
  "circuit_snapshot_of provider_id now c0 =
     (let c = purge_old now c0
      in (c, \<lparr>cs_provider_id = provider_id, cs_state = c_state c,
              cs_recent_qualifying_failures = length (c_failures c),
              cs_distinct_failing_accounts = distinct_accounts (c_failures c),
              cs_distinct_failing_targets = distinct_targets (c_failures c),
              cs_recent_failures = c_failures c, cs_opened_at = c_opened_at c,
              cs_retry_at = c_retry_at c, cs_last_successful_probe = c_last_successful_probe c,
              cs_opens = c_opens c, cs_recoveries = c_recoveries c, cs_rejects = c_rejects c,
              cs_half_open_probes = c_half_open_probes c\<rparr>))"

definition open_circuit :: "nanos \<Rightarrow> circuit \<Rightarrow> circuit \<times> bool" where
  "open_circuit now c =
     (let changed = (c_state c \<noteq> Open);
          c' = c\<lparr>c_state := Open, c_opened_at := Some now,
                 c_retry_at := Some (now + secs OPEN_COOLDOWN_SECS), c_half_open_inflight := 0\<rparr>
      in (if changed then c'\<lparr>c_opens := sat_add64 (c_opens c') 1\<rparr> else c', changed))"

definition release_probe_slot :: "nat \<Rightarrow> circuit \<Rightarrow> circuit \<times> bool" where
  "release_probe_slot gen c =
     (if gen \<noteq> c_generation c \<or> c_state c \<noteq> HalfOpen then (c, False)
      else (c\<lparr>c_half_open_inflight := 0\<rparr>, True))"

definition reopen_abandoned_probe :: "nat \<Rightarrow> nanos \<Rightarrow> circuit \<Rightarrow> circuit" where
  "reopen_abandoned_probe gen now c =
     (case release_probe_slot gen c of
        (c', True) \<Rightarrow>
          c'\<lparr>c_state := Open, c_retry_at := Some (now + secs ABANDONED_PROBE_RETRY_SECS)\<rparr>
      | (c', False) \<Rightarrow> c')"

text \<open>\<^verbatim>\<open>(retry_at - now).num_seconds().max(1) as u64\<close>\<close>

definition wait_secs :: "nanos \<Rightarrow> nanos \<Rightarrow> nat" where
  "wait_secs retry_at now = nat (max 1 (num_seconds (retry_at - now)))"

definition bump_rejects :: "circuit \<Rightarrow> circuit" where
  "bump_rejects c = c\<lparr>c_rejects := sat_add64 (c_rejects c) 1\<rparr>"

definition reject_with :: "string \<Rightarrow> nanos \<Rightarrow> nat \<Rightarrow> circuit \<Rightarrow> circuit \<times> (circuit_reject + 'a)" where
  "reject_with provider_id now retry c =
     (let (c', s) = circuit_snapshot_of provider_id now (bump_rejects c)
      in (c', Inl \<lparr>rj_retry_after_secs = retry, rj_snapshot = s\<rparr>))"

definition check_available_in ::
  "string \<Rightarrow> nanos \<Rightarrow> circuit \<Rightarrow> circuit \<times> (circuit_reject + unit)" where
  "check_available_in provider_id now c0 =
     (let c = purge_old now c0;
          retry_after =
            (case c_state c of
               Closed \<Rightarrow> None
             | Open \<Rightarrow>
                 (case c_retry_at c of
                    None \<Rightarrow> None
                  | Some r \<Rightarrow> if r > now then Some (wait_secs r now) else None)
             | HalfOpen \<Rightarrow> if c_half_open_inflight c > 0 then Some 1 else None)
      in case retry_after of
           Some n \<Rightarrow> reject_with provider_id now n c
         | None \<Rightarrow> (c, Inr ()))"

record provider_attempt =
  a_account_id :: string
  a_target_id :: string
  a_generation :: nat
  a_correlation_policy :: correlation_policy
  a_half_open_probe :: bool
  a_validated_success :: bool
  a_finished :: bool

definition new_attempt ::
  "string \<Rightarrow> string \<Rightarrow> correlation_policy \<Rightarrow> bool \<Rightarrow> circuit \<Rightarrow> provider_attempt" where
  "new_attempt account_id target_id policy probe c =
     \<lparr>a_account_id = account_id, a_target_id = target_id, a_generation = c_generation c,
      a_correlation_policy = policy, a_half_open_probe = probe, a_validated_success = False,
      a_finished = False\<rparr>"

definition take_lease :: "circuit \<Rightarrow> circuit" where
  "take_lease c = c\<lparr>c_state := HalfOpen, c_half_open_inflight := 1,
     c_half_open_probes := sat_add64 (c_half_open_probes c) 1\<rparr>"

definition begin_attempt_in ::
  "string \<Rightarrow> string \<Rightarrow> string \<Rightarrow> correlation_policy \<Rightarrow> nanos \<Rightarrow> circuit
     \<Rightarrow> circuit \<times> (circuit_reject + provider_attempt)" where
  "begin_attempt_in provider_id account_id target_id policy now c0 =
     (let c = purge_old now c0
      in case c_state c of
           Closed \<Rightarrow> (c, Inr (new_attempt account_id target_id policy False c))
         | Open \<Rightarrow>
             (if is_some_and (\<lambda>r. r > now) (c_retry_at c)
              then reject_with provider_id now
                     (case c_retry_at c of Some r \<Rightarrow> wait_secs r now | None \<Rightarrow> 1) c
              else let c' = take_lease c
                   in (c', Inr (new_attempt account_id target_id policy True c')))
         | HalfOpen \<Rightarrow>
             (if c_half_open_inflight c > 0 then reject_with provider_id now 1 c
              else let c' = take_lease c
                   in (c', Inr (new_attempt account_id target_id policy True c'))))"

text \<open>The circuit's recovery: what a validated or successful probe does to it.\<close>

definition recover :: "nanos \<Rightarrow> circuit \<Rightarrow> circuit" where
  "recover now c = c\<lparr>c_half_open_inflight := 0, c_state := Closed, c_opened_at := None,
     c_retry_at := None, c_failures := [], c_last_successful_probe := Some now,
     c_recoveries := sat_add64 (c_recoveries c) 1\<rparr>"

definition mark_validated_success ::
  "nanos \<Rightarrow> provider_attempt \<times> circuit \<Rightarrow> (provider_attempt \<times> circuit) \<times> circuit_transition" where
  "mark_validated_success now ac =
     (let (a, c) = ac
      in if \<not> a_half_open_probe a \<or> a_finished a then (ac, transition_default)
         else if a_validated_success a then (ac, transition_default)
         else
           let a' = a\<lparr>a_validated_success := True\<rparr>;
               recovered = (c_generation c = a_generation a \<and> c_state c = HalfOpen)
           in ((a', if recovered then recover now c else c),
               transition_default\<lparr>tr_recovered := recovered, tr_half_open_probe := True\<rparr>))"

definition finish_success ::
  "nanos \<Rightarrow> provider_attempt \<times> circuit \<Rightarrow> (provider_attempt \<times> circuit) \<times> circuit_transition" where
  "finish_success now ac =
     (let (a, c) = ac
      in if a_finished a then (ac, transition_default)
         else
           let a' = a\<lparr>a_finished := True\<rparr>
           in if a_half_open_probe a \<and> a_validated_success a
              then ((a', c), transition_default\<lparr>tr_half_open_probe := True\<rparr>)
              else if c_generation c = a_generation a \<and> a_half_open_probe a \<and> c_state c = HalfOpen
              then ((a', recover now c),
                    transition_default\<lparr>tr_recovered := True, tr_half_open_probe := True\<rparr>)
              else if c_generation c = a_generation a \<and> \<not> a_half_open_probe a \<and> c_state c = Closed
              then ((a', c\<lparr>c_failures := []\<rparr>),
                    transition_default\<lparr>tr_half_open_probe := a_half_open_probe a\<rparr>)
              else ((a', c), transition_default\<lparr>tr_half_open_probe := a_half_open_probe a\<rparr>))"

definition qualifies :: "failure_kind \<Rightarrow> nat option \<Rightarrow> bool" where
  "qualifies kind status =
     (case kind of
        ConnectionError \<Rightarrow> True
      | Timeout \<Rightarrow> True
      | ServerError \<Rightarrow> status = Some 502 \<or> status = Some 503 \<or> status = Some 504
      | _ \<Rightarrow> False)"

definition attempt_owns_state :: "provider_attempt \<Rightarrow> circuit \<Rightarrow> bool" where
  "attempt_owns_state a c =
     (c_generation c = a_generation a \<and>
      (if a_half_open_probe a
       then c_state c = HalfOpen \<or> (a_validated_success a \<and> c_state c = Closed)
       else c_state c = Closed))"

text \<open>Appending evidence; the queue keeps its newest entries.\<close>

definition push_failure :: "nanos \<Rightarrow> provider_attempt \<Rightarrow> circuit \<Rightarrow> circuit" where
  "push_failure now a c0 =
     (let c = purge_old now c0;
          fs = c_failures c @ [\<lparr>fe_at = now, fe_account_id = a_account_id a,
                                fe_target_id = a_target_id a\<rparr>]
      in c\<lparr>c_failures := drop (length fs - MAX_RECENT_FAILURES) fs\<rparr>)"

definition correlated :: "correlation_policy \<Rightarrow> failure_evidence list \<Rightarrow> bool" where
  "correlated policy fs =
     (case policy of
        DistinctAccounts \<Rightarrow> distinct_accounts fs \<ge> MIN_DISTINCT_ACCOUNTS
      | AccountlessTargets \<Rightarrow> distinct_targets fs \<ge> MIN_DISTINCT_TARGETS)"

definition finish_failure ::
  "failure_kind \<Rightarrow> nat option \<Rightarrow> nanos \<Rightarrow> provider_attempt \<times> circuit
     \<Rightarrow> (provider_attempt \<times> circuit) \<times> circuit_transition" where
  "finish_failure kind status now ac =
     (let (a, c) = ac
      in if a_finished a then (ac, transition_default)
         else
           let a' = a\<lparr>a_finished := True\<rparr>;
               tr = transition_default\<lparr>tr_half_open_probe := a_half_open_probe a\<rparr>
           in if \<not> attempt_owns_state a c then ((a', c), tr)
              else if \<not> qualifies kind status
              then ((a', if a_half_open_probe a
                         then fst (release_probe_slot (a_generation a) c) else c), tr)
              else
                let c1 = push_failure now a c
                in if (a_half_open_probe a \<and> \<not> a_validated_success a)
                      \<or> correlated (a_correlation_policy a) (c_failures c1)
                   then let (c2, changed) = open_circuit now c1
                        in ((a', if changed
                                 then c2\<lparr>c_generation := wrap_add64 (c_generation c2) 1\<rparr> else c2),
                            tr\<lparr>tr_opened := changed\<rparr>)
                   else ((a', c1), tr))"

definition finish_neutral ::
  "nanos \<Rightarrow> provider_attempt \<times> circuit \<Rightarrow> (provider_attempt \<times> circuit) \<times> circuit_transition" where
  "finish_neutral now ac =
     (let (a, c) = ac
      in if a_finished a then (ac, transition_default)
         else ((a\<lparr>a_finished := True\<rparr>,
                if a_half_open_probe a then reopen_abandoned_probe (a_generation a) now c else c),
               transition_default\<lparr>tr_half_open_probe := a_half_open_probe a\<rparr>))"

definition drop_attempt ::
  "nanos \<Rightarrow> provider_attempt \<times> circuit \<Rightarrow> provider_attempt \<times> circuit" where
  "drop_attempt now ac =
     (let (a, c) = ac
      in if a_finished a then ac
         else (a\<lparr>a_finished := True\<rparr>,
               if a_half_open_probe a then reopen_abandoned_probe (a_generation a) now c else c))"

text \<open>The per-provider table: every public operation works on the provider's own circuit.\<close>

type_synonym provider_circuits = "string \<rightharpoonup> circuit"

definition check_available ::
  "string \<Rightarrow> nanos \<Rightarrow> provider_circuits \<Rightarrow> provider_circuits \<times> (circuit_reject + unit)" where
  "check_available p now m = with_entry circuit_default p (check_available_in p now) m"

definition begin_attempt_with_policy ::
  "string \<Rightarrow> string \<Rightarrow> string \<Rightarrow> correlation_policy \<Rightarrow> nanos \<Rightarrow> provider_circuits
     \<Rightarrow> provider_circuits \<times> (circuit_reject + provider_attempt)" where
  "begin_attempt_with_policy p account_id target_id policy now m =
     with_entry circuit_default p (begin_attempt_in p account_id target_id policy now) m"

definition begin_attempt ::
  "string \<Rightarrow> string \<Rightarrow> string \<Rightarrow> nanos \<Rightarrow> provider_circuits
     \<Rightarrow> provider_circuits \<times> (circuit_reject + provider_attempt)" where
  "begin_attempt p account_id target_id now m =
     begin_attempt_with_policy p account_id target_id DistinctAccounts now m"

definition provider_snapshot ::
  "string \<Rightarrow> nanos \<Rightarrow> provider_circuits \<Rightarrow> provider_circuits \<times> circuit_snapshot" where
  "provider_snapshot p now m = with_entry circuit_default p (circuit_snapshot_of p now) m"

section \<open>A provider's run\<close>

text \<open>
  The circuit of one provider together with every attempt started on it, and a count of the
  steps taken (a ghost: it bounds how often the generation can have moved).
\<close>

record provider_sys =
  s_circuit :: circuit
  s_attempts :: "provider_attempt list"
  s_steps :: nat

datatype circuit_event =
    Check string nanos
  | Begin string string string correlation_policy nanos
  | Validated nat nanos
  | Success nat nanos
  | Failure nat failure_kind "nat option" nanos
  | Neutral nat nanos
  | Dropped nat nanos
  | Snapshot string nanos

definition sys_initial :: provider_sys where
  "sys_initial = \<lparr>s_circuit = circuit_default, s_attempts = [], s_steps = 0\<rparr>"

definition on_attempt ::
  "nat \<Rightarrow> (provider_attempt \<times> circuit \<Rightarrow> provider_attempt \<times> circuit) \<Rightarrow> provider_sys \<Rightarrow> provider_sys" where
  "on_attempt i f s =
     (if i < length (s_attempts s)
      then let (a, c) = f (s_attempts s ! i, s_circuit s)
           in s\<lparr>s_circuit := c, s_attempts := (s_attempts s)[i := a]\<rparr>
      else s)"

definition on_begin :: "circuit \<times> (circuit_reject + provider_attempt) \<Rightarrow> provider_sys \<Rightarrow> provider_sys" where
  "on_begin r s =
     s\<lparr>s_circuit := fst r,
       s_attempts := s_attempts s @ (case snd r of Inl _ \<Rightarrow> [] | Inr a \<Rightarrow> [a])\<rparr>"

fun sys_act :: "circuit_event \<Rightarrow> provider_sys \<Rightarrow> provider_sys" where
  "sys_act (Check p now) s = s\<lparr>s_circuit := fst (check_available_in p now (s_circuit s))\<rparr>"
| "sys_act (Begin p acc tgt policy now) s =
     on_begin (begin_attempt_in p acc tgt policy now (s_circuit s)) s"
| "sys_act (Validated i now) s = on_attempt i (fst \<circ> mark_validated_success now) s"
| "sys_act (Success i now) s = on_attempt i (fst \<circ> finish_success now) s"
| "sys_act (Failure i kind status now) s = on_attempt i (fst \<circ> finish_failure kind status now) s"
| "sys_act (Neutral i now) s = on_attempt i (fst \<circ> finish_neutral now) s"
| "sys_act (Dropped i now) s = on_attempt i (drop_attempt now) s"
| "sys_act (Snapshot p now) s = s\<lparr>s_circuit := fst (circuit_snapshot_of p now (s_circuit s))\<rparr>"

definition sys_step :: "circuit_event \<Rightarrow> provider_sys \<Rightarrow> provider_sys" where
  "sys_step e s = sys_act e (s\<lparr>s_steps := Suc (s_steps s)\<rparr>)"

definition sys_run :: "circuit_event list \<Rightarrow> provider_sys" where
  "sys_run es = run_ops sys_step es sys_initial"

section \<open>The invariant\<close>

definition circuit_ok :: "circuit \<Rightarrow> bool" where
  "circuit_ok c \<longleftrightarrow>
     c_half_open_inflight c \<le> 1
     \<and> (c_half_open_inflight c = 1 \<longrightarrow> c_state c = HalfOpen)
     \<and> (c_state c \<noteq> Closed \<longrightarrow> c_retry_at c \<noteq> None \<and> c_opened_at c \<noteq> None)
     \<and> (c_state c = Closed \<longrightarrow> c_retry_at c = None \<and> c_opened_at c = None)
     \<and> length (c_failures c) \<le> MAX_RECENT_FAILURES"

text \<open>A live probe holds the half-open lease of the current generation.\<close>

definition live_probe :: "circuit \<Rightarrow> provider_attempt \<Rightarrow> bool" where
  "live_probe c a \<longleftrightarrow> a_half_open_probe a \<and> \<not> a_finished a \<and> \<not> a_validated_success a
     \<and> a_generation a = c_generation c"

definition lease_count :: "circuit \<Rightarrow> nat" where
  "lease_count c = (if c_state c = HalfOpen then c_half_open_inflight c else 0)"

definition attempts_ok :: "circuit \<Rightarrow> provider_attempt list \<Rightarrow> bool" where
  "attempts_ok c as \<longleftrightarrow>
     length (filter (live_probe c) as) = lease_count c
     \<and> (\<forall>a \<in> set as. a_generation a \<le> c_generation c)
     \<and> (\<forall>a \<in> set as. \<not> a_finished a \<and> a_generation a = c_generation c
           \<and> (a_half_open_probe a \<longrightarrow> a_validated_success a) \<longrightarrow> c_state c = Closed)"

definition sys_inv :: "provider_sys \<Rightarrow> bool" where
  "sys_inv s \<longleftrightarrow>
     circuit_ok (s_circuit s)
     \<and> (s_steps s \<le> u64_max \<longrightarrow>
          c_generation (s_circuit s) \<le> s_steps s \<and> attempts_ok (s_circuit s) (s_attempts s))"

section \<open>Lemmas on single operations\<close>

lemmas circuit_op_defs = mark_validated_success_def finish_success_def finish_failure_def
  finish_neutral_def drop_attempt_def recover_def open_circuit_def release_probe_slot_def
  reopen_abandoned_probe_def push_failure_def purge_old_def Let_def

lemma purge_old_fields [simp]:
  "c_state (purge_old now c) = c_state c" "c_retry_at (purge_old now c) = c_retry_at c"
  "c_opened_at (purge_old now c) = c_opened_at c"
  "c_half_open_inflight (purge_old now c) = c_half_open_inflight c"
  "c_generation (purge_old now c) = c_generation c"
  by (simp_all add: purge_old_def Let_def)

lemma purge_old_failures:
  "c_failures (purge_old now c) = dropWhile (\<lambda>f. fe_at f < now - secs 30) (c_failures c)"
  by (simp add: purge_old_def CORRELATION_WINDOW_SECS_def)

lemma purge_old_idem: "purge_old now (purge_old now c) = purge_old now c"
  by (simp add: purge_old_def Let_def)

lemma circuit_ok_purge: "circuit_ok c \<Longrightarrow> circuit_ok (purge_old now c)"
  by (auto simp: circuit_ok_def purge_old_failures intro: order_trans [OF length_dropWhile_le])

lemma circuit_ok_default: "circuit_ok circuit_default"
  by (simp add: circuit_ok_def circuit_default_def)

lemma push_failure_fields [simp]:
  "c_state (push_failure now a c) = c_state c" "c_retry_at (push_failure now a c) = c_retry_at c"
  "c_opened_at (push_failure now a c) = c_opened_at c"
  "c_half_open_inflight (push_failure now a c) = c_half_open_inflight c"
  "c_generation (push_failure now a c) = c_generation c"
  "length (c_failures (push_failure now a c)) \<le> MAX_RECENT_FAILURES"
  by (simp_all add: push_failure_def Let_def)

lemma reject_with_fields:
  "c_state (fst (reject_with p now n c)) = c_state c"
  "c_half_open_inflight (fst (reject_with p now n c)) = c_half_open_inflight c"
  "c_generation (fst (reject_with p now n c)) = c_generation c"
  "circuit_ok c \<Longrightarrow> circuit_ok (fst (reject_with p now n c))"
  "\<exists>r. snd (reject_with p now n c) = Inl r \<and> rj_retry_after_secs r = n"
proof -
  have "circuit_ok c \<Longrightarrow> circuit_ok (purge_old now (bump_rejects c))"
    by (rule circuit_ok_purge) (simp add: circuit_ok_def bump_rejects_def)
  then show "circuit_ok c \<Longrightarrow> circuit_ok (fst (reject_with p now n c))"
    by (simp add: reject_with_def circuit_snapshot_of_def Let_def)
qed (simp_all add: reject_with_def circuit_snapshot_of_def bump_rejects_def Let_def)

lemma check_available_in_keeps:
  "c_state (fst (check_available_in p now c)) = c_state c"
  "c_half_open_inflight (fst (check_available_in p now c)) = c_half_open_inflight c"
  "c_generation (fst (check_available_in p now c)) = c_generation c"
  "circuit_ok c \<Longrightarrow> circuit_ok (fst (check_available_in p now c))"
  by (auto simp: check_available_in_def Let_def reject_with_fields circuit_ok_purge
      split: option.split)

text \<open>
  What an operation of an attempt may do to the circuit: keep the well-formedness, and either
  stay in the generation (then the lease moves with the attempt, a closed circuit stays closed,
  and an attempt that no longer holds a lease only survives under a closed circuit) or enter the
  next generation with the lease free.
\<close>

definition leaseless :: "circuit \<Rightarrow> provider_attempt \<Rightarrow> bool" where
  "leaseless c a \<longleftrightarrow> \<not> a_finished a \<and> a_generation a = c_generation c
     \<and> (a_half_open_probe a \<longrightarrow> a_validated_success a)"

definition may_act :: "circuit \<Rightarrow> provider_attempt \<Rightarrow> bool" where
  "may_act c a \<longleftrightarrow> (live_probe c a \<longrightarrow> c_state c = HalfOpen \<and> c_half_open_inflight c = 1)
     \<and> (leaseless c a \<longrightarrow> c_state c = Closed)"

definition moves :: "circuit \<Rightarrow> provider_attempt \<Rightarrow> circuit \<Rightarrow> provider_attempt \<Rightarrow> bool" where
  "moves c a c' a' \<longleftrightarrow>
     a_generation a' = a_generation a
     \<and> (if c_generation c' = c_generation c
         then lease_count c' + of_bool (live_probe c a) = lease_count c + of_bool (live_probe c a')
              \<and> (c_state c = Closed \<longrightarrow> c_state c' = Closed)
              \<and> (leaseless c a' \<longrightarrow> c_state c' = Closed)
         else c_generation c' = Suc (c_generation c) \<and> lease_count c' = 0)"

definition good_op :: "(provider_attempt \<times> circuit \<Rightarrow> provider_attempt \<times> circuit) \<Rightarrow> bool" where
  "good_op f \<longleftrightarrow>
     (\<forall>a c. circuit_ok c \<longrightarrow>
        circuit_ok (snd (f (a, c)))
        \<and> (may_act c a \<and> c_generation c < u64_max \<longrightarrow>
             moves c a (snd (f (a, c))) (fst (f (a, c)))))"

lemmas move_defs = moves_def may_act_def live_probe_def leaseless_def lease_count_def

lemma good_mark: "good_op (fst \<circ> mark_validated_success now)"
  by (auto simp: good_op_def mark_validated_success_def recover_def circuit_ok_def move_defs Let_def)

lemma good_success: "good_op (fst \<circ> finish_success now)"
  by (auto simp: good_op_def finish_success_def recover_def circuit_ok_def move_defs Let_def)

lemma reopen_cases:
  "reopen_abandoned_probe gen now c =
     (if gen = c_generation c \<and> c_state c = HalfOpen
      then c\<lparr>c_half_open_inflight := 0, c_state := Open,
             c_retry_at := Some (now + secs ABANDONED_PROBE_RETRY_SECS)\<rparr>
      else c)"
  by (auto simp: reopen_abandoned_probe_def release_probe_slot_def)

lemma good_neutral: "good_op (fst \<circ> finish_neutral now)"
  by (auto simp: good_op_def finish_neutral_def reopen_cases circuit_ok_def move_defs Let_def)

lemma good_drop: "good_op (drop_attempt now)"
  by (auto simp: good_op_def drop_attempt_def reopen_cases circuit_ok_def move_defs Let_def)

text \<open>The outcome of a failure, by cases.\<close>

lemma open_circuit_fields [simp]:
  "c_state (fst (open_circuit now c)) = Open"
  "c_opened_at (fst (open_circuit now c)) = Some now"
  "c_retry_at (fst (open_circuit now c)) = Some (now + secs 30)"
  "c_half_open_inflight (fst (open_circuit now c)) = 0"
  "c_generation (fst (open_circuit now c)) = c_generation c"
  "c_failures (fst (open_circuit now c)) = c_failures c"
  "snd (open_circuit now c) \<longleftrightarrow> c_state c \<noteq> Open"
  by (simp_all add: open_circuit_def Let_def OPEN_COOLDOWN_SECS_def)

lemma finish_failure_cases:
  assumes "\<not> a_finished a"
  shows "fst (finish_failure kind status now (a, c)) =
    (a\<lparr>a_finished := True\<rparr>,
     if \<not> attempt_owns_state a c then c
     else if \<not> qualifies kind status
     then (if a_half_open_probe a then fst (release_probe_slot (a_generation a) c) else c)
     else if (a_half_open_probe a \<and> \<not> a_validated_success a)
             \<or> correlated (a_correlation_policy a) (c_failures (push_failure now a c))
     then (fst (open_circuit now (push_failure now a c)))
            \<lparr>c_generation := wrap_add64 (c_generation c) 1\<rparr>
     else push_failure now a c)"
proof -
  have "attempt_owns_state a c \<Longrightarrow> c_state c \<noteq> Open"
    by (auto simp: attempt_owns_state_def split: if_splits)
  then show ?thesis
    using assms by (simp add: finish_failure_def Let_def case_prod_beta)
qed

lemma good_failure: "good_op (fst \<circ> finish_failure kind status now)"
proof -
  have ok: "circuit_ok (snd (fst (finish_failure kind status now (a, c))))" if "circuit_ok c" for a c
  proof (cases "a_finished a")
    case True
    then show ?thesis using that by (simp add: finish_failure_def)
  next
    case False
    show ?thesis
      unfolding finish_failure_cases [OF False] using that
      by (auto simp: circuit_ok_def release_probe_slot_def)
  qed
  have mv: "moves c a (snd (fst (finish_failure kind status now (a, c))))
              (fst (fst (finish_failure kind status now (a, c))))"
    if "may_act c a" "c_generation c < u64_max" "circuit_ok c" for a c
  proof (cases "a_finished a")
    case True
    then show ?thesis using that by (auto simp: finish_failure_def move_defs)
  next
    case False
    have w: "wrap_add64 (c_generation c) 1 = Suc (c_generation c)"
      using that by (simp add: wrap_add64_exact)
    note [simp] = finish_failure_cases [OF False]
    consider "\<not> attempt_owns_state a c"
      | "attempt_owns_state a c" "\<not> qualifies kind status"
      | "attempt_owns_state a c" "qualifies kind status" "a_half_open_probe a" "\<not> a_validated_success a"
      | "attempt_owns_state a c" "qualifies kind status" "a_half_open_probe a \<longrightarrow> a_validated_success a"
      by blast
    then show ?thesis
    proof cases
      case 1
      then show ?thesis using that False by (auto simp: move_defs attempt_owns_state_def split: if_splits)
    next
      case 2
      then show ?thesis using that False
        by (auto simp: move_defs attempt_owns_state_def release_probe_slot_def split: if_splits)
    next
      case 3
      then show ?thesis using w by (simp add: moves_def lease_count_def)
    next
      case 4
      then have "c_state c = Closed"
        using that False by (auto simp: may_act_def leaseless_def attempt_owns_state_def)
      with 4 show ?thesis
        using w by (auto simp: move_defs)
    qed
  qed
  from ok mv show ?thesis by (simp add: good_op_def)
qed

section \<open>The invariant holds along every run\<close>

lemma count_update:
  "i < length xs \<Longrightarrow>
   length (filter P (xs[i := y])) + of_bool (P (xs ! i)) = length (filter P xs) + of_bool (P y)"
  using length_filter_update [of i xs P y] by (simp add: of_bool_def)

lemma live_probe_generation: "c_generation c' = c_generation c \<Longrightarrow> live_probe c' = live_probe c"
  by (auto simp: live_probe_def)

lemma attempts_ok_may_act:
  assumes "attempts_ok c as" and "circuit_ok c" and "a \<in> set as"
  shows "may_act c a"
proof -
  have "c_state c = HalfOpen \<and> c_half_open_inflight c = 1" if "live_probe c a"
  proof -
    have "0 < length (filter (live_probe c) as)"
      using assms(3) that by (auto simp: length_greater_0_conv filter_empty_conv)
    with assms(1,2) show ?thesis
      by (auto simp: attempts_ok_def lease_count_def circuit_ok_def split: if_splits)
  qed
  moreover have "c_state c = Closed" if "leaseless c a"
    using assms(1,3) that by (auto simp: attempts_ok_def leaseless_def)
  ultimately show ?thesis by (simp add: may_act_def)
qed

lemma attempts_ok_update:
  assumes ok: "attempts_ok c as" and i: "i < length as" and mv: "moves c (as ! i) c' a'"
  shows "attempts_ok c' (as[i := a'])"
proof (cases "c_generation c' = c_generation c")
  case True
  have "length (filter (live_probe c) (as[i := a'])) + of_bool (live_probe c (as ! i))
        = lease_count c + of_bool (live_probe c a')"
    using count_update [OF i, of "live_probe c" a'] ok by (simp add: attempts_ok_def)
  with mv True have "length (filter (live_probe c') (as[i := a'])) = lease_count c'"
    by (simp add: moves_def live_probe_generation [OF True])
  moreover have "a_generation a' \<le> c_generation c"
    using mv ok i by (auto simp: moves_def attempts_ok_def)
  moreover have "leaseless c b \<longrightarrow> c_state c' = Closed" if "b \<in> set (as[i := a'])" for b
  proof -
    from that have "b = a' \<or> b \<in> set as" using set_update_subset_insert by fastforce
    with mv True ok show ?thesis
      unfolding moves_def attempts_ok_def leaseless_def by (auto split: if_splits)
  qed
  ultimately show ?thesis
    using ok True set_update_subset_insert [of as i a']
    unfolding attempts_ok_def leaseless_def by auto
next
  case False
  with mv have new: "c_generation c' = Suc (c_generation c)" "lease_count c' = 0"
    and gen: "a_generation a' = a_generation (as ! i)" by (auto simp: moves_def)
  have "a_generation b \<le> c_generation c" if "b \<in> set (as[i := a'])" for b
  proof -
    from that have "b = a' \<or> b \<in> set as" using set_update_subset_insert by fastforce
    with gen ok i show ?thesis by (auto simp: attempts_ok_def)
  qed
  then have old: "\<forall>b \<in> set (as[i := a']). a_generation b < c_generation c'"
    using new by (auto simp: less_Suc_eq_le)
  then have "filter (live_probe c') (as[i := a']) = []"
    by (auto simp: filter_empty_conv live_probe_def)
  with old new show ?thesis by (auto simp: attempts_ok_def)
qed

lemma on_attempt_inv:
  assumes f: "good_op f" and inv: "sys_inv s"
  shows "sys_inv (on_attempt i f (s\<lparr>s_steps := Suc (s_steps s)\<rparr>))"
proof (cases "i < length (s_attempts s)")
  case False
  then show ?thesis using inv by (auto simp: on_attempt_def sys_inv_def)
next
  case True
  let ?c = "s_circuit s" and ?a = "s_attempts s ! i"
  obtain a' c' where r: "f (?a, ?c) = (a', c')" by fastforce
  have ok: "circuit_ok ?c" using inv by (simp add: sys_inv_def)
  with f r have "circuit_ok c'" unfolding good_op_def by (metis snd_conv)
  moreover have "c_generation c' \<le> Suc (s_steps s) \<and> attempts_ok c' ((s_attempts s)[i := a'])"
    if "Suc (s_steps s) \<le> u64_max"
  proof -
    from inv that have g: "c_generation ?c \<le> s_steps s" and as: "attempts_ok ?c (s_attempts s)"
      by (simp_all add: sys_inv_def)
    have "may_act ?c ?a" using attempts_ok_may_act [OF as ok] True by simp
    with f ok g that r have mv: "moves ?c ?a c' a'" unfolding good_op_def
      by (metis fst_conv snd_conv Suc_le_lessD le_less_trans)
    then have "c_generation c' \<le> Suc (c_generation ?c)" by (auto simp: moves_def split: if_splits)
    with g attempts_ok_update [OF as True mv] show ?thesis by simp
  qed
  ultimately show ?thesis using True r by (simp add: on_attempt_def sys_inv_def)
qed

text \<open>Operations without an attempt: they keep state, lease and generation.\<close>

lemma attempts_ok_cong:
  assumes "c_state c' = c_state c" "c_half_open_inflight c' = c_half_open_inflight c"
    "c_generation c' = c_generation c"
  shows "attempts_ok c' as = attempts_ok c as"
  using assms by (simp add: attempts_ok_def lease_count_def live_probe_def cong: filter_cong)

lemma wait_secs_pos: "1 \<le> wait_secs r now"
  by (simp add: wait_secs_def le_nat_iff)

lemma begin_cases:
  obtains
    (admitted) "begin_attempt_in p acc tgt policy now c =
        (purge_old now c, Inr (new_attempt acc tgt policy False (purge_old now c)))"
      "c_state c = Closed"
  | (rejected) n where "begin_attempt_in p acc tgt policy now c = reject_with p now n (purge_old now c)"
      "1 \<le> n" "c_state c = Open \<and> is_some_and (\<lambda>r. r > now) (c_retry_at c)
         \<or> c_state c = HalfOpen \<and> c_half_open_inflight c > 0"
  | (probe) "begin_attempt_in p acc tgt policy now c =
        (take_lease (purge_old now c),
         Inr (new_attempt acc tgt policy True (take_lease (purge_old now c))))"
      "c_state c = Open \<and> \<not> is_some_and (\<lambda>r. r > now) (c_retry_at c)
         \<or> c_state c = HalfOpen \<and> c_half_open_inflight c = 0"
proof (cases "c_state c")
  case Closed
  then show thesis by (intro admitted) (simp_all add: begin_attempt_in_def Let_def)
next
  case Open
  show thesis
  proof (cases "is_some_and (\<lambda>r. r > now) (c_retry_at c)")
    case True
    with Open show thesis
      by (intro rejected [of "case c_retry_at c of Some r \<Rightarrow> wait_secs r now | None \<Rightarrow> 1"])
        (simp_all add: begin_attempt_in_def Let_def wait_secs_pos [simplified] split: option.split)
  next
    case False
    with Open show thesis by (intro probe) (simp_all add: begin_attempt_in_def Let_def)
  qed
next
  case HalfOpen
  then show thesis
    by (cases "c_half_open_inflight c > 0")
      (intro rejected [of 1] probe; simp add: begin_attempt_in_def Let_def)+
qed

lemma begin_inv:
  assumes "sys_inv s"
  shows "sys_inv (on_begin (begin_attempt_in p acc tgt policy now (s_circuit s))
           (s\<lparr>s_steps := Suc (s_steps s)\<rparr>))"
proof -
  let ?c = "s_circuit s"
  from assms have ok: "circuit_ok ?c" by (simp add: sys_inv_def)
  show ?thesis
  proof (cases rule: begin_cases [of p acc tgt policy now ?c])
    case admitted
    have "attempts_ok (purge_old now ?c)
            (s_attempts s @ [new_attempt acc tgt policy False (purge_old now ?c)])"
      if "attempts_ok ?c (s_attempts s)"
      using that admitted(2)
      by (auto simp: attempts_ok_def lease_count_def live_probe_def new_attempt_def cong: filter_cong)
    with assms ok show ?thesis
      by (auto simp: admitted(1) on_begin_def sys_inv_def circuit_ok_purge)
  next
    case (rejected n)
    have "attempts_ok (fst (reject_with p now n (purge_old now ?c))) (s_attempts s)
            = attempts_ok ?c (s_attempts s)"
      by (rule attempts_ok_cong) (simp_all add: reject_with_fields)
    moreover obtain r where "snd (reject_with p now n (purge_old now ?c) ::
        circuit \<times> (circuit_reject + provider_attempt)) = Inl r"
      using reject_with_fields(5) by blast
    ultimately show ?thesis
      using assms ok by (auto simp: rejected(1) on_begin_def sys_inv_def reject_with_fields
          circuit_ok_purge)
  next
    case probe
    let ?c' = "take_lease (purge_old now ?c)"
    have "circuit_ok ?c'"
      using ok circuit_ok_purge [OF ok, of now] probe(2)
      by (auto simp: circuit_ok_def take_lease_def)
    moreover have "attempts_ok ?c' (s_attempts s @ [new_attempt acc tgt policy True ?c'])"
      if as: "attempts_ok ?c (s_attempts s)"
    proof -
      have "lease_count ?c = 0" "c_state ?c \<noteq> Closed" using probe(2) by (auto simp: lease_count_def)
      moreover have "live_probe ?c' = live_probe ?c"
        by (rule live_probe_generation) (simp add: take_lease_def)
      ultimately show ?thesis
        using as by (auto simp: attempts_ok_def new_attempt_def take_lease_def lease_count_def
            live_probe_def)
    qed
    moreover have "c_generation ?c' = c_generation ?c" by (simp add: take_lease_def)
    ultimately show ?thesis
      using assms by (auto simp: probe(1) on_begin_def sys_inv_def)
  qed
qed

lemma sys_step_inv: "sys_inv s \<Longrightarrow> sys_inv (sys_step e s)"
proof (cases e)
  case (Check p now)
  have "attempts_ok (fst (check_available_in p now (s_circuit s))) (s_attempts s)
          = attempts_ok (s_circuit s) (s_attempts s)"
    by (rule attempts_ok_cong) (simp_all add: check_available_in_keeps)
  then show "sys_inv s \<Longrightarrow> ?thesis"
    by (auto simp: Check sys_step_def sys_inv_def check_available_in_keeps)
next
  case (Snapshot p now)
  have "attempts_ok (purge_old now (s_circuit s)) (s_attempts s)
          = attempts_ok (s_circuit s) (s_attempts s)"
    by (rule attempts_ok_cong) simp_all
  then show "sys_inv s \<Longrightarrow> ?thesis"
    by (auto simp: Snapshot sys_step_def sys_inv_def circuit_snapshot_of_def Let_def
        circuit_ok_purge)
qed (auto simp: sys_step_def intro: begin_inv on_attempt_inv good_mark good_success good_failure
    good_neutral good_drop)

interpretation circuits: keyed_component sys_initial sys_step sys_inv
proof unfold_locales
  show "sys_inv sys_initial"
    by (simp add: sys_inv_def sys_initial_def circuit_ok_default attempts_ok_def lease_count_def)
      (simp add: circuit_default_def)
  show "sys_inv s \<Longrightarrow> sys_inv (sys_step x s)" for s x by (rule sys_step_inv)
qed

lemma sys_run_inv: "sys_inv (sys_run es)"
  unfolding sys_run_def by (rule circuits.run_ops_invar [OF circuits.invar_initial])

lemma run_ops_steps: "s_steps (run_ops sys_step es s) = s_steps s + length es"
proof (induction es arbitrary: s)
  case Nil
  then show ?case by simp
next
  case (Cons e es)
  have "s_steps (sys_step e s) = Suc (s_steps s)"
    by (cases e) (simp_all add: sys_step_def on_attempt_def on_begin_def case_prod_beta Let_def)
  with Cons show ?case by simp
qed

lemma sys_run_ok:
  shows "circuit_ok (s_circuit (sys_run es))"
    and "length es \<le> u64_max \<Longrightarrow> attempts_ok (s_circuit (sys_run es)) (s_attempts (sys_run es))"
  using sys_run_inv [of es] run_ops_steps [of es sys_initial]
  by (simp_all add: sys_inv_def sys_run_def sys_initial_def)

text \<open>Evidence that has passed the correlation test names two different parties.\<close>

lemma distinct_two:
  assumes "2 \<le> length (remdups (map g xs))"
  shows "\<exists>x \<in> set xs. \<exists>y \<in> set xs. g x \<noteq> g y"
proof -
  have "2 \<le> card (g ` set xs)" using assms by (simp add: length_remdups_card_conv)
  then have "\<not> card (g ` set xs) \<le> Suc 0" by simp
  then obtain u v where "u \<in> g ` set xs" "v \<in> g ` set xs" "u \<noteq> v"
    using card_le_Suc0_iff_eq [of "g ` set xs"] by auto
  then show ?thesis by blast
qed

definition differ :: "correlation_policy \<Rightarrow> failure_evidence \<Rightarrow> failure_evidence \<Rightarrow> bool" where
  "differ policy e f = (case policy of DistinctAccounts \<Rightarrow> fe_account_id e \<noteq> fe_account_id f
     | AccountlessTargets \<Rightarrow> fe_target_id e \<noteq> fe_target_id f)"

lemma correlated_two: "correlated policy fs \<Longrightarrow> \<exists>e \<in> set fs. \<exists>f \<in> set fs. differ policy e f"
  using distinct_two [of fe_account_id fs] distinct_two [of fe_target_id fs]
  by (cases policy)
    (auto simp: correlated_def differ_def distinct_accounts_def distinct_targets_def
      MIN_DISTINCT_ACCOUNTS_def MIN_DISTINCT_TARGETS_def)

lemma push_failure_window:
  assumes "sorted (map fe_at (c_failures c))" and "e \<in> set (c_failures (push_failure now a c))"
  shows "now - secs 30 \<le> fe_at e"
proof -
  have "dropWhile (\<lambda>f. fe_at f < now - secs 30) (c_failures c)
        = filter (\<lambda>f. \<not> fe_at f < now - secs 30) (c_failures c)"
    by (rule dropWhile_filter_sorted [OF assms(1)]) simp
  with assms(2) show ?thesis
    by (auto simp: push_failure_def Let_def purge_old_failures secs_def dest!: in_set_dropD)
qed

section \<open>Properties\<close>

text \<open>
  C19. Exclusive half-open probing: in every run, however attempts on a provider interleave, at
  most one unresolved probe of the current generation exists, and it exists exactly while the
  half-open lease is taken.
\<close>

theorem exclusive_probe:
  assumes "length es \<le> u64_max"
  shows "length (filter (live_probe (s_circuit (sys_run es))) (s_attempts (sys_run es)))
      = (if c_state (s_circuit (sys_run es)) = HalfOpen
         then c_half_open_inflight (s_circuit (sys_run es)) else 0)
    \<and> c_half_open_inflight (s_circuit (sys_run es)) \<le> 1"
  using sys_run_ok(2) [OF assms] sys_run_ok(1) [of es]
  by (simp add: attempts_ok_def lease_count_def circuit_ok_def)

definition outage :: "circuit_event list" where
  "outage = [Begin ''p'' ''a1'' ''m'' DistinctAccounts 0, Begin ''p'' ''a2'' ''m'' DistinctAccounts 0,
     Failure 0 Timeout None 5, Failure 1 ServerError (Some 503) 9,
     Begin ''p'' ''a1'' ''m'' DistinctAccounts (secs 31), Begin ''p'' ''a2'' ''m'' DistinctAccounts (secs 31)]"

lemmas circuit_eval = begin_attempt_in_def new_attempt_def take_lease_def reject_with_def
  circuit_snapshot_of_def bump_rejects_def circuit_op_defs attempt_owns_state_def qualifies_def
  correlated_def distinct_accounts_def distinct_targets_def transition_default_def
  is_some_and_def circuit_default_def const_defs arith_defs

lemmas sys_eval = sys_run_def sys_initial_def sys_step_def on_begin_def on_attempt_def circuit_eval

theorem exclusive_probe_witness:
  "length (filter (live_probe (s_circuit (sys_run outage))) (s_attempts (sys_run outage))) = 1"
proof -
  have l: "length outage \<le> u64_max" by (simp add: outage_def u64_max_def)
  have "c_state (s_circuit (sys_run outage)) = HalfOpen"
    "c_half_open_inflight (s_circuit (sys_run outage)) = 1"
    by (simp_all add: outage_def sys_eval)
  then show ?thesis using exclusive_probe [OF l] by simp
qed

text \<open>
  Every rejection is justified, so a provider is never locked out for good: in any run, an
  attempt is refused only while the cooldown runs or while another attempt really holds the
  half-open lease, and the advertised wait is at least one second.
\<close>

theorem rejection_justified:
  assumes "length es \<le> u64_max" and "s = sys_run es"
    and "snd (begin_attempt_in p acc tgt policy now (s_circuit s)) = Inl rej"
  shows "1 \<le> rj_retry_after_secs rej \<and>
    ((\<exists>r. c_state (s_circuit s) = Open \<and> c_retry_at (s_circuit s) = Some r \<and> now < r)
     \<or> (\<exists>a \<in> set (s_attempts s). live_probe (s_circuit s) a))"
proof (cases rule: begin_cases [of p acc tgt policy now "s_circuit s"])
  case admitted
  with assms(3) show ?thesis by simp
next
  case (rejected n)
  with assms(3) have "rj_retry_after_secs rej = n"
    by (auto simp: reject_with_def Let_def case_prod_beta)
  moreover have "\<exists>a \<in> set (s_attempts s). live_probe (s_circuit s) a"
    if "c_state (s_circuit s) = HalfOpen" "c_half_open_inflight (s_circuit s) > 0"
    using sys_run_ok(2) [OF assms(1)] that assms(2)
    by (auto simp: attempts_ok_def lease_count_def simp flip: length_greater_0_conv
        dest: filter_empty_conv [THEN iffD2])
      (metis filter_empty_conv less_not_refl list.size(3))
  ultimately show ?thesis
    using rejected(2,3) by (auto simp: is_some_and_def split: option.splits)
next
  case probe
  with assms(3) show ?thesis by simp
qed

theorem rejection_justified_witness:
  "\<exists>rej. snd (begin_attempt_in ''p'' ''a'' ''m'' DistinctAccounts (secs 32) (s_circuit (sys_run outage))) = Inl rej
     \<and> 1 \<le> rj_retry_after_secs rej"
proof -
  have l: "length outage \<le> u64_max" by (simp add: outage_def u64_max_def)
  have "isl (snd (begin_attempt_in ''p'' ''a'' ''m'' DistinctAccounts (secs 32) (s_circuit (sys_run outage))))"
    by (simp add: outage_def sys_eval)
  then obtain rej where
    r: "snd (begin_attempt_in ''p'' ''a'' ''m'' DistinctAccounts (secs 32) (s_circuit (sys_run outage))) = Inl rej"
    by (auto simp: isl_def)
  show ?thesis using rejection_justified [OF l refl r] r by blast
qed

text \<open>
  Availability checks agree with admission: at one instant, \<^verbatim>\<open>check_available\<close> lets a provider
  through exactly when \<^verbatim>\<open>begin_attempt\<close> would start an attempt, and otherwise both advertise the
  same wait; checking takes no lease.
\<close>

theorem check_agrees_with_begin:
  "(case snd (check_available p now m) of Inr _ \<Rightarrow> None | Inl r \<Rightarrow> Some (rj_retry_after_secs r))
     = (case snd (begin_attempt_with_policy p acc tgt policy now m) of
          Inr _ \<Rightarrow> None | Inl r \<Rightarrow> Some (rj_retry_after_secs r))
   \<and> c_half_open_inflight (entry_or circuit_default (fst (check_available p now m)) p)
     = c_half_open_inflight (entry_or circuit_default m p)"
proof -
  let ?c = "entry_or circuit_default m p"
  have rej: "(case snd (reject_with p now n c :: circuit \<times> (circuit_reject + 'x)) of
      Inr _ \<Rightarrow> None | Inl r \<Rightarrow> Some (rj_retry_after_secs r)) = Some n" for n c
    using reject_with_fields(5) [of p now n c] by (metis (no_types, lifting) sum.case(1))
  have "(case snd (check_available_in p now ?c) of Inr _ \<Rightarrow> None | Inl r \<Rightarrow> Some (rj_retry_after_secs r))
     = (case snd (begin_attempt_in p acc tgt policy now ?c) of
          Inr _ \<Rightarrow> None | Inl r \<Rightarrow> Some (rj_retry_after_secs r))"
    by (cases "c_state ?c"; cases "c_retry_at ?c")
      (simp_all add: check_available_in_def begin_attempt_in_def Let_def is_some_and_def rej)
  then show ?thesis
    by (simp add: check_available_def begin_attempt_with_policy_def with_entry_result
        entry_or_with_entry check_available_in_keeps)
qed

text \<open>
  A closed circuit only opens on correlated evidence: the failure that opens it is of a
  provider-wide kind, and the evidence then holds two failures of different accounts (of
  different targets for account-less providers), all of them at most thirty seconds old.
\<close>

theorem opening_needs_correlation:
  assumes "c_state c = Closed" and "\<not> a_half_open_probe a" and "sorted (map fe_at (c_failures c))"
    and "finish_failure kind status now (a, c) = ((a', c'), tr)" and "tr_opened tr"
  shows "qualifies kind status \<and> c_state c' = Open \<and> c_retry_at c' = Some (now + secs 30)
    \<and> (\<exists>e \<in> set (c_failures c'). \<exists>f \<in> set (c_failures c').
          differ (a_correlation_policy a) e f \<and> now - secs 30 \<le> fe_at e \<and> now - secs 30 \<le> fe_at f)"
proof -
  have live: "\<not> a_finished a" and own: "attempt_owns_state a c" and q: "qualifies kind status"
    and cor: "correlated (a_correlation_policy a) (c_failures (push_failure now a c))"
    using assms by (auto simp: finish_failure_def transition_default_def Let_def split: if_splits)
  have "c' = (fst (open_circuit now (push_failure now a c)))
      \<lparr>c_generation := wrap_add64 (c_generation c) 1\<rparr>"
    using finish_failure_cases [OF live, of kind status now c] assms(4) own q cor by simp
  then show ?thesis
    using q correlated_two [OF cor] push_failure_window [OF assms(3)] by fastforce
qed

definition closed_with :: "failure_evidence list \<Rightarrow> circuit" where
  "closed_with fs = circuit_default\<lparr>c_failures := fs\<rparr>"

theorem opening_needs_correlation_witness:
  "\<exists>a' c' tr. finish_failure Timeout None (secs 40)
      (new_attempt ''a2'' ''m'' DistinctAccounts False circuit_default,
       closed_with [\<lparr>fe_at = secs 20, fe_account_id = ''a1'', fe_target_id = ''m''\<rparr>]) = ((a', c'), tr)
    \<and> tr_opened tr \<and> c_state c' = Open"
proof -
  let ?c = "closed_with [\<lparr>fe_at = secs 20, fe_account_id = ''a1'', fe_target_id = ''m''\<rparr>]"
  let ?a = "new_attempt ''a2'' ''m'' DistinctAccounts False circuit_default"
  obtain a' c' tr where r: "finish_failure Timeout None (secs 40) (?a, ?c) = ((a', c'), tr)"
    by (metis surj_pair)
  have t: "tr_opened (snd (finish_failure Timeout None (secs 40) (?a, ?c)))"
    by (simp add: closed_with_def circuit_eval)
  show ?thesis
    using opening_needs_correlation [OF _ _ _ r] t r
    by (simp add: closed_with_def circuit_default_def new_attempt_def)
qed

text \<open>
  An attempt of an older generation cannot touch the circuit any more: none of the calls
  that end it changes the circuit, and none reports that it opened or recovered anything.
\<close>

theorem stale_attempt_inert:
  assumes "a_generation a \<noteq> c_generation c"
  shows "snd (fst (mark_validated_success now (a, c))) = c \<and> snd (fst (finish_success now (a, c))) = c
    \<and> snd (fst (finish_failure kind status now (a, c))) = c
    \<and> snd (fst (finish_neutral now (a, c))) = c \<and> snd (drop_attempt now (a, c)) = c
    \<and> \<not> tr_opened (snd (finish_failure kind status now (a, c)))
    \<and> \<not> tr_recovered (snd (finish_success now (a, c)))"
  using assms
  by (auto simp: mark_validated_success_def finish_success_def finish_failure_def finish_neutral_def
      drop_attempt_def attempt_owns_state_def reopen_cases transition_default_def Let_def)

theorem stale_attempt_inert_witness:
  "snd (fst (finish_failure Timeout None 7
       (new_attempt ''a'' ''m'' DistinctAccounts True circuit_default, circuit_default\<lparr>c_generation := 1\<rparr>)))
     = circuit_default\<lparr>c_generation := 1\<rparr>"
  using stale_attempt_inert [of "new_attempt ''a'' ''m'' DistinctAccounts True circuit_default"
      "circuit_default\<lparr>c_generation := 1\<rparr>"]
  by (simp add: new_attempt_def circuit_default_def)

text \<open>
  Cooldown and recovery: after a failure opened the circuit, attempts are refused for
  thirty seconds and the next one is admitted as a half-open probe; if that probe succeeds the
  circuit is closed with no evidence left.
\<close>

theorem open_then_recover:
  assumes "finish_failure kind status t (a0, c0) = ((a1, c1), tr)" and "tr_opened tr"
  shows "(now < t + secs 30 \<longrightarrow> isl (snd (begin_attempt_in p acc tgt policy now c1)))
    \<and> (t + secs 30 \<le> now \<longrightarrow>
         (\<exists>c2 a2. begin_attempt_in p acc tgt policy now c1 = (c2, Inr a2) \<and> a_half_open_probe a2
            \<and> c_state c2 = HalfOpen
            \<and> c_state (snd (fst (finish_success now' (a2, c2)))) = Closed
            \<and> c_failures (snd (fst (finish_success now' (a2, c2)))) = []))"
proof -
  have live: "\<not> a_finished a0" and own: "attempt_owns_state a0 c0" and "qualifies kind status"
    using assms by (auto simp: finish_failure_def transition_default_def Let_def split: if_splits)
  then have "c1 = (fst (open_circuit t (push_failure t a0 c0)))
      \<lparr>c_generation := wrap_add64 (c_generation c0) 1\<rparr>"
    using finish_failure_cases [OF live, of kind status t c0] assms
    by (auto simp: finish_failure_def transition_default_def Let_def split: if_splits)
  then have o1: "c_state c1 = Open" "c_retry_at c1 = Some (t + secs 30)" by simp_all
  show ?thesis
  proof (cases rule: begin_cases [of p acc tgt policy now c1])
    case admitted
    with o1 show ?thesis by simp
  next
    case (rejected n)
    then show ?thesis
      using o1 reject_with_fields(5) [of p now n "purge_old now c1"]
      by (auto simp: is_some_and_def isl_def)
  next
    case probe
    then show ?thesis
      using o1 by (auto simp: is_some_and_def new_attempt_def take_lease_def finish_success_def
          recover_def Let_def)
  qed
qed

theorem open_then_recover_witness:
  "isl (snd (begin_attempt_in ''p'' ''x'' ''m'' DistinctAccounts (secs 60)
     (snd (fst (finish_failure Timeout None (secs 40)
        (new_attempt ''a2'' ''m'' DistinctAccounts False circuit_default,
         closed_with [\<lparr>fe_at = secs 20, fe_account_id = ''a1'', fe_target_id = ''m''\<rparr>]))))))"
proof -
  let ?ac = "(new_attempt ''a2'' ''m'' DistinctAccounts False circuit_default,
         closed_with [\<lparr>fe_at = secs 20, fe_account_id = ''a1'', fe_target_id = ''m''\<rparr>])"
  obtain a' c' tr where r: "finish_failure Timeout None (secs 40) ?ac = ((a', c'), tr)"
    by (metis surj_pair)
  have t: "tr_opened (snd (finish_failure Timeout None (secs 40) ?ac))"
    by (simp add: closed_with_def circuit_eval)
  show ?thesis
    using open_then_recover [OF r, of "secs 60"] t unfolding r by (simp add: secs_def)
qed

end
