(* ===== verification/Cost.thy ===== *)
theory Cost
  imports Core_Types
begin

text \<open>
  Cost computation from operator-supplied prices (\<^verbatim>\<open>src/src/cost.rs\<close>): the rendering of a
  USD amount and the price of one request. The theorems say when a cost is unknown, that the
  reported token breakdowns are a partition of the inclusive totals (no token is charged twice),
  and how the cost is bounded by the highest applicable rates.
\<close>

section \<open>Definitions\<close>

text \<open>Rust's \<^verbatim>\<open>{v:.N}\<close>: the exact value rounded to \<open>N\<close> decimals, ties to even.\<close>

definition round_half_even :: "f64 \<Rightarrow> int" where
  "round_half_even x =
     (let f = \<lfloor>x\<rfloor>; r = x - of_int f
      in if r < 1 / 2 then f else if r > 1 / 2 then f + 1 else if even f then f else f + 1)"

definition pad_left :: "nat \<Rightarrow> string \<Rightarrow> string" where
  "pad_left n s = replicate (n - length s) (CHR ''0'') @ s"

definition format_fixed :: "nat \<Rightarrow> f64 \<Rightarrow> string" where
  "format_fixed d v =
     (let n = nat (round_half_even (\<bar>v\<bar> * 10 ^ d))
      in (if v < 0 then ''-'' else '''') @ show_nat (n div 10 ^ d) @ ''.''
           @ pad_left d (show_nat (n mod 10 ^ d)))"

definition format_usd :: "f64 \<Rightarrow> string" where
  "format_usd v = (if v \<noteq> 0 \<and> \<bar>v\<bar> < 1 / 100 then format_fixed 6 v else format_fixed 2 v)"

text \<open>The price of a token class whose total is \<open>n\<close>: a missing base price is only harmless when
  no token was consumed.\<close>

definition base_price :: "f64 option \<Rightarrow> f64 \<Rightarrow> f64 option" where
  "base_price p n = (case p of Some x \<Rightarrow> Some x | None \<Rightarrow> if n = 0 then Some 0 else None)"

definition compute_cost :: "prices \<Rightarrow> token_usage \<Rightarrow> f64 option" where
  "compute_cost p u =
     (if \<not> is_configured p then None
      else
        let input = of_nat (unwrap_or (tu_input u) 0);
            output = of_nat (unwrap_or (tu_output u) 0);
            cached = min (of_nat (unwrap_or (tu_cached u) 0)) input;
            cache_write = min (of_nat (unwrap_or (tu_cache_write u) 0)) (input - cached);
            regular_input = input - cached - cache_write;
            thinking = min (of_nat (unwrap_or (tu_thinking u) 0)) output;
            regular_output = output - thinking
        in case base_price (input_per_1m p) input of
             None \<Rightarrow> None
           | Some input_price \<Rightarrow>
               let cached_price = unwrap_or (cached_per_1m p) input_price;
                   cache_write_price = unwrap_or (cache_write_per_1m p) input_price
               in case base_price (output_per_1m p) output of
                    None \<Rightarrow> None
                  | Some output_price \<Rightarrow>
                      let thinking_price = unwrap_or (thinking_per_1m p) output_price
                      in Some ((regular_input * input_price + cached * cached_price
                                + cache_write * cache_write_price
                                + regular_output * output_price
                                + thinking * thinking_price) / 1000000))"

text \<open>Specification side: the five token classes, and prices that are not negative.\<close>

definition nonneg_prices :: "prices \<Rightarrow> bool" where
  "nonneg_prices p =
     (\<forall>x \<in> {input_per_1m p, output_per_1m p, cached_per_1m p, cache_write_per_1m p,
           thinking_per_1m p}. case x of None \<Rightarrow> True | Some v \<Rightarrow> 0 \<le> v)"

definition top_rate :: "f64 \<Rightarrow> f64 option list \<Rightarrow> f64" where
  "top_rate base xs = foldl (\<lambda>a x. max a (unwrap_or x base)) base xs"

section \<open>Lemmas\<close>

lemma nonneg_pricesD:
  assumes "nonneg_prices p"
  shows "input_per_1m p = Some x \<Longrightarrow> 0 \<le> x" "output_per_1m p = Some x \<Longrightarrow> 0 \<le> x"
    "cached_per_1m p = Some x \<Longrightarrow> 0 \<le> x" "cache_write_per_1m p = Some x \<Longrightarrow> 0 \<le> x"
    "thinking_per_1m p = Some x \<Longrightarrow> 0 \<le> x"
  using assms by (auto simp: nonneg_prices_def)

lemma base_price_None: "base_price p n = None \<longleftrightarrow> p = None \<and> n \<noteq> 0"
  by (simp add: base_price_def split: option.split)

lemma top_rate2: "top_rate b [x, y] = max (max b (unwrap_or x b)) (unwrap_or y b)"
  by (simp add: top_rate_def)

lemma top_rate1: "top_rate b [x] = max b (unwrap_or x b)"
  by (simp add: top_rate_def)

text \<open>The five charged token classes, and the cost as their weighted sum.\<close>

definition charged :: "token_usage \<Rightarrow> f64 \<times> f64 \<times> f64 \<times> f64 \<times> f64" where
  "charged u =
     (let i = of_nat (unwrap_or (tu_input u) 0); out = of_nat (unwrap_or (tu_output u) 0);
          c = min (of_nat (unwrap_or (tu_cached u) 0)) i;
          w = min (of_nat (unwrap_or (tu_cache_write u) 0)) (i - c);
          t = min (of_nat (unwrap_or (tu_thinking u) 0)) out
      in (i - c - w, c, w, out - t, t))"

lemma charged_partition:
  assumes "charged u = (ri, c, w, ro, t)"
  shows "ri + c + w = of_nat (unwrap_or (tu_input u) 0)"
    and "ro + t = of_nat (unwrap_or (tu_output u) 0)"
    and "0 \<le> ri" "0 \<le> c" "0 \<le> w" "0 \<le> ro" "0 \<le> t"
  using assms by (auto simp: charged_def Let_def)

lemma compute_cost_SomeE:
  assumes "compute_cost p u = Some cost"
  obtains ip op' ri c w ro t where
    "base_price (input_per_1m p) (of_nat (unwrap_or (tu_input u) 0)) = Some ip"
    "base_price (output_per_1m p) (of_nat (unwrap_or (tu_output u) 0)) = Some op'"
    "charged u = (ri, c, w, ro, t)"
    "cost = (ri * ip + c * unwrap_or (cached_per_1m p) ip
       + w * unwrap_or (cache_write_per_1m p) ip
       + ro * op' + t * unwrap_or (thinking_per_1m p) op') / 1000000"
proof -
  from assms obtain ip op' where b:
    "base_price (input_per_1m p) (of_nat (unwrap_or (tu_input u) 0)) = Some ip"
    "base_price (output_per_1m p) (of_nat (unwrap_or (tu_output u) 0)) = Some op'"
    by (auto simp: compute_cost_def Let_def split: if_splits option.splits)
  show thesis
    by (rule that [OF b], simp add: charged_def Let_def)
      (use assms b in \<open>simp add: compute_cost_def Let_def split: if_splits\<close>)
qed

lemma split3_le:
  fixes a b c :: f64
  assumes "0 \<le> a" "0 \<le> b" "0 \<le> c" and "pa \<le> r" "pb \<le> r" "pc \<le> r"
  shows "a * pa + b * pb + c * pc \<le> (a + b + c) * r"
proof -
  have "a * pa \<le> a * r" "b * pb \<le> b * r" "c * pc \<le> c * r"
    using assms by (simp_all add: mult_left_mono)
  then show ?thesis by (simp add: algebra_simps)
qed

lemma compute_cost_upper:
  assumes "compute_cost p u = Some cost"
    and "base_price (input_per_1m p) (of_nat (unwrap_or (tu_input u) 0)) = Some ip"
    and "base_price (output_per_1m p) (of_nat (unwrap_or (tu_output u) 0)) = Some op'"
  shows "cost \<le> (of_nat (unwrap_or (tu_input u) 0) * top_rate ip [cached_per_1m p, cache_write_per_1m p]
            + of_nat (unwrap_or (tu_output u) 0) * top_rate op' [thinking_per_1m p]) / 1000000"
  using assms(1)
proof (rule compute_cost_SomeE)
  fix ip' op'' ri c w ro t
  assume b: "base_price (input_per_1m p) (of_nat (unwrap_or (tu_input u) 0)) = Some ip'"
    "base_price (output_per_1m p) (of_nat (unwrap_or (tu_output u) 0)) = Some op''"
    and ch: "charged u = (ri, c, w, ro, t)"
    and cost: "cost = (ri * ip' + c * unwrap_or (cached_per_1m p) ip'
       + w * unwrap_or (cache_write_per_1m p) ip'
       + ro * op'' + t * unwrap_or (thinking_per_1m p) op'') / 1000000"
  from b assms have [simp]: "ip' = ip" "op'' = op'" by simp_all
  note part = charged_partition [OF ch]
  have "ri * ip + c * unwrap_or (cached_per_1m p) ip + w * unwrap_or (cache_write_per_1m p) ip
        \<le> (ri + c + w) * top_rate ip [cached_per_1m p, cache_write_per_1m p]"
    unfolding top_rate2 by (intro split3_le part) simp_all
  moreover have "ro * op' + t * unwrap_or (thinking_per_1m p) op'
        \<le> (ro + t) * top_rate op' [thinking_per_1m p]"
    unfolding top_rate1
    using split3_le [of ro t 0 op' _ "unwrap_or (thinking_per_1m p) op'" op'] part by simp
  ultimately show ?thesis unfolding cost part(1,2) [symmetric] by simp
qed

lemma unwrap_or_nonneg: "0 \<le> d \<Longrightarrow> (\<And>v. x = Some v \<Longrightarrow> 0 \<le> v) \<Longrightarrow> (0::f64) \<le> unwrap_or x d"
  by (simp add: unwrap_or_def split: option.split)

lemma base_price_nonneg:
  "base_price x n = Some b \<Longrightarrow> (\<And>v. x = Some v \<Longrightarrow> 0 \<le> v) \<Longrightarrow> (0::f64) \<le> b"
  by (auto simp: base_price_def split: option.splits if_splits)

lemma compute_cost_nonneg:
  assumes "compute_cost p u = Some cost" and "nonneg_prices p"
  shows "0 \<le> cost"
  using assms(1)
proof (rule compute_cost_SomeE)
  fix ip op' ri c w ro t
  assume b: "base_price (input_per_1m p) (of_nat (unwrap_or (tu_input u) 0)) = Some ip"
    "base_price (output_per_1m p) (of_nat (unwrap_or (tu_output u) 0)) = Some op'"
    and ch: "charged u = (ri, c, w, ro, t)"
    and cost: "cost = (ri * ip + c * unwrap_or (cached_per_1m p) ip
       + w * unwrap_or (cache_write_per_1m p) ip
       + ro * op' + t * unwrap_or (thinking_per_1m p) op') / 1000000"
  note pos = nonneg_pricesD [OF assms(2)]
  have "0 \<le> ip" "0 \<le> op'" using b pos by (auto dest: base_price_nonneg)
  moreover from this have "0 \<le> unwrap_or (cached_per_1m p) ip"
    "0 \<le> unwrap_or (cache_write_per_1m p) ip" "0 \<le> unwrap_or (thinking_per_1m p) op'"
    using pos by (auto intro: unwrap_or_nonneg)
  ultimately show ?thesis
    unfolding cost using charged_partition [OF ch] by simp
qed

section \<open>Properties\<close>

text \<open>
  A cost is known exactly when a base price is configured and every token class that was
  consumed has one; an unpriced model never yields a cost of zero.
\<close>

theorem compute_cost_known_iff:
  "(\<exists>c. compute_cost p u = Some c) \<longleftrightarrow>
     is_configured p
     \<and> (unwrap_or (tu_input u) 0 = 0 \<or> (\<exists>x. input_per_1m p = Some x))
     \<and> (unwrap_or (tu_output u) 0 = 0 \<or> (\<exists>x. output_per_1m p = Some x))"
proof -
  let ?i = "base_price (input_per_1m p) (of_nat (unwrap_or (tu_input u) 0))"
  let ?o = "base_price (output_per_1m p) (of_nat (unwrap_or (tu_output u) 0))"
  have "compute_cost p u = None \<longleftrightarrow> \<not> is_configured p \<or> ?i = None \<or> ?o = None"
    by (cases ?i; cases ?o) (simp_all add: compute_cost_def Let_def)
  then show ?thesis unfolding not_None_eq [symmetric] by (auto simp: base_price_None)
qed

end
