(* ===== verification/Route_Predicate.thy ===== *)
theory Route_Predicate
  imports Core_Types
begin

text \<open>
  Executable route predicates (\<^verbatim>\<open>src/src/predicate.rs\<close>): the expression tree, the facts it reads,
  the short-circuiting evaluator with its explanations, and the eligibility decision. The
  evaluator is shown to compute strong Kleene logic and to be monotone in the known facts.

  The JSON printer \<^verbatim>\<open>Value::to_string\<close> is the parameter \<open>pr\<close>; the derived deserialisers are
  parameters of \<open>parse_target_predicate\<close>. Slicing a \<^verbatim>\<open>&str\<close> inside a multi-byte character
  panics; evaluation therefore returns an option, \<open>None\<close> being the panic.
\<close>

section \<open>Definitions\<close>

datatype tri = TriTrue | TriFalse | TriUnknown

definition tri_from_bool :: "bool \<Rightarrow> tri" where
  "tri_from_bool b = (if b then TriTrue else TriFalse)"

fun tri_as_str :: "tri \<Rightarrow> string" where
  "tri_as_str TriTrue = ''true''"
| "tri_as_str TriFalse = ''false''"
| "tri_as_str TriUnknown = ''unknown''"

datatype when_unknown = Skip | Allow

datatype fact_ref = Bare string | Detailed string "string option"

fun fact_name :: "fact_ref \<Rightarrow> string" where
  "fact_name (Bare n) = n"
| "fact_name (Detailed n _) = n"

fun fact_arg :: "fact_ref \<Rightarrow> string option" where
  "fact_arg (Bare _) = None"
| "fact_arg (Detailed _ a) = a"

datatype cmp_op = OpEq | OpNe | OpLt | OpLte | OpGt | OpGte | OpIn | OpNotIn | OpContains

datatype predicate =
    PConst bool
  | PAnd "predicate list"
  | POr "predicate list"
  | PNot predicate
  | PCmp fact_ref cmp_op json

record target_predicate =
  tp_expr :: "predicate option"
  tp_when_unknown :: when_unknown

definition target_predicate_default :: target_predicate where
  "target_predicate_default = \<lparr>tp_expr = None, tp_when_unknown = Skip\<rparr>"

text \<open>\<open>de_tp\<close> and \<open>de_pred\<close> are the two derived deserialisers.\<close>

definition parse_target_predicate ::
  "(string \<Rightarrow> target_predicate option) \<Rightarrow> (string \<Rightarrow> predicate option) \<Rightarrow> string \<Rightarrow> target_predicate" where
  "parse_target_predicate de_tp de_pred raw =
     (if trim raw = [] \<or> trim raw = ''{}'' \<or> trim raw = ''null'' then target_predicate_default
      else case opt_filter (\<lambda>tp. tp_expr tp \<noteq> None) (de_tp raw) of
             Some tp \<Rightarrow> tp
           | None \<Rightarrow>
               (case de_pred raw of
                  Some e \<Rightarrow> \<lparr>tp_expr = Some e, tp_when_unknown = Skip\<rparr>
                | None \<Rightarrow> target_predicate_default))"

record request_facts =
  rf_frontend :: string
  rf_requested_model :: string
  rf_requested_route :: "string option"
  rf_key_tag :: "string option"
  rf_has_tools :: bool
  rf_has_images :: bool
  rf_has_reasoning :: bool
  rf_input_tokens :: nat

record target_facts =
  tf_model_id :: string
  tf_model_display :: string
  tf_provider_id :: string
  tf_provider_name :: string
  tf_capabilities :: capabilities
  tf_capabilities_raw :: json
  tf_context_window :: "int option"
  tf_max_output_tokens :: "int option"

record plugin_fact_entry =
  pf_name :: string
  pf_value :: json
  pf_source :: json

record plugin_facts =
  pf_entries :: "plugin_fact_entry list"
  pf_failures :: "(string \<times> string) list"

definition plugin_facts_default :: plugin_facts where
  "plugin_facts_default = \<lparr>pf_entries = [], pf_failures = []\<rparr>"

definition plugin_insert :: "string \<Rightarrow> json \<Rightarrow> json \<Rightarrow> plugin_facts \<Rightarrow> plugin_facts" where
  "plugin_insert name val src pf =
     (if list_ex (\<lambda>e. pf_name e = name) (pf_entries pf) then pf
      else pf\<lparr>pf_entries := pf_entries pf @ [\<lparr>pf_name = name, pf_value = val, pf_source = src\<rparr>]\<rparr>)"

definition plugin_get :: "plugin_facts \<Rightarrow> string \<Rightarrow> json option" where
  "plugin_get pf name = map_option pf_value (find (\<lambda>e. pf_name e = name) (pf_entries pf))"

record eval =
  ev_result :: tri
  ev_explanation :: string

definition ev_known :: "bool \<Rightarrow> string \<Rightarrow> eval" where
  "ev_known b e = \<lparr>ev_result = tri_from_bool b, ev_explanation = e\<rparr>"

definition ev_unknown :: "string \<Rightarrow> eval" where
  "ev_unknown e = \<lparr>ev_result = TriUnknown, ev_explanation = e\<rparr>"

definition capability_flag :: "capabilities \<Rightarrow> string \<Rightarrow> bool" where
  "capability_flag c name =
     (if name = ''text'' then cap_text c
      else if name = ''vision'' then cap_vision c
      else if name = ''reasoning'' then cap_reasoning c
      else if name = ''tool_calling'' \<or> name = ''tools'' then cap_tool_calling c
      else if name = ''audio'' then cap_audio c
      else if name = ''structured_output'' then cap_structured_output c
      else False)"

definition capabilities_declared :: "json \<Rightarrow> string \<Rightarrow> bool" where
  "capabilities_declared raw name =
     (let ks = (if name = ''tool_calling'' then [''tool_calling'', ''tools'', ''tool_calls'']
                else if name = ''structured_output'' then [''structured_output'', ''structuredOutput'']
                else [name])
      in list_ex (\<lambda>k. json_get raw k \<noteq> None) ks)"

definition json_int :: "int \<Rightarrow> json" where
  "json_int i = JNumber (if i < 0 then NegInt i else PosInt (nat i))"

definition fact_value ::
  "fact_ref \<Rightarrow> request_facts \<Rightarrow> target_facts \<Rightarrow> plugin_facts \<Rightarrow> json option" where
  "fact_value fr req t plugin =
     (let n = fact_name fr
      in if starts_with n ''plugin.'' then plugin_get plugin n
         else if n = ''has_tools'' then Some (JBool (rf_has_tools req))
         else if n = ''has_images'' then Some (JBool (rf_has_images req))
         else if n = ''has_reasoning'' then Some (JBool (rf_has_reasoning req))
         else if n = ''frontend'' then Some (JString (rf_frontend req))
         else if n = ''requested_alias'' \<or> n = ''requested_model''
              then Some (JString (rf_requested_model req))
         else if n = ''requested_route'' then map_option JString (rf_requested_route req)
         else if n = ''key_tag'' then map_option JString (rf_key_tag req)
         else if n = ''input_tokens'' then Some (JNumber (PosInt (rf_input_tokens req)))
         else if n = ''target_model'' \<or> n = ''target_model_id'' then Some (JString (tf_model_id t))
         else if n = ''target_provider'' \<or> n = ''target_provider_id''
              then Some (JString (tf_provider_id t))
         else if n = ''target_capability''
              then (case fact_arg fr of
                      None \<Rightarrow> None
                    | Some cap \<Rightarrow>
                        if capabilities_declared (tf_capabilities_raw t) cap
                        then Some (JBool (capability_flag (tf_capabilities t) cap)) else None)
         else if n = ''target_context_window'' then map_option json_int (tf_context_window t)
         else if n = ''target_max_output_tokens'' then map_option json_int (tf_max_output_tokens t)
         else None)"

fun op_str :: "cmp_op \<Rightarrow> string" where
  "op_str OpEq = ''==''"
| "op_str OpNe = ''!=''"
| "op_str OpLt = ''<''"
| "op_str OpLte = ''<=''"
| "op_str OpGt = ''>''"
| "op_str OpGte = ''>=''"
| "op_str OpIn = ''in''"
| "op_str OpNotIn = ''not in''"
| "op_str OpContains = ''contains''"

text \<open>
  \<^verbatim>\<open>Value\<close>'s own equality: structural, objects compared as maps (their order does not count).
\<close>

fun value_eq :: "json \<Rightarrow> json \<Rightarrow> bool"
  and array_eq :: "json list \<Rightarrow> json list \<Rightarrow> bool"
  and object_eq :: "(string \<times> json) list \<Rightarrow> (string \<times> json) list \<Rightarrow> bool" where
  "value_eq (JArray xs) (JArray ys) = array_eq xs ys"
| "value_eq (JObject fs) (JObject gs) = (length fs = length gs \<and> object_eq fs gs)"
| "value_eq JNull JNull = True"
| "value_eq (JBool a) (JBool b) = (a = b)"
| "value_eq (JNumber a) (JNumber b) = (a = b)"
| "value_eq (JString a) (JString b) = (a = b)"
| "value_eq _ _ = False"
| "array_eq [] [] = True"
| "array_eq (x # xs) (y # ys) = (value_eq x y \<and> array_eq xs ys)"
| "array_eq _ _ = False"
| "object_eq [] gs = True"
| "object_eq ((k, v) # fs) gs =
     (case map_of gs k of None \<Rightarrow> False | Some w \<Rightarrow> value_eq v w \<and> object_eq fs gs)"

definition f64_epsilon :: f64 where
  "f64_epsilon = 1 / 4503599627370496"

definition json_eq :: "json \<Rightarrow> json \<Rightarrow> bool" where
  "json_eq a b =
     (if value_eq a b then True
      else case (json_as_f64 a, json_as_f64 b) of
             (Some x, Some y) \<Rightarrow> \<bar>x - y\<bar> < f64_epsilon
           | _ \<Rightarrow> False)"

text \<open>
  \<^verbatim>\<open>&s[..60]\<close>: byte 60 has to start a character, that is, not be a UTF-8 continuation byte.
\<close>

definition continuation_byte :: "char \<Rightarrow> bool" where
  "continuation_byte c \<longleftrightarrow> 128 \<le> (of_char c :: nat) \<and> (of_char c :: nat) < 192"

definition ellipsis :: string where
  "ellipsis = [CHR 0xE2, CHR 0x80, CHR 0xA6]"

definition compact :: "(json \<Rightarrow> string) \<Rightarrow> json \<Rightarrow> string option" where
  "compact pr v =
     (let s = pr v
      in if length s > 60
         then if continuation_byte (s ! 60) then None else Some (take 60 s @ ellipsis)
         else Some s)"

definition arg_suffix :: "fact_ref \<Rightarrow> string" where
  "arg_suffix fr = (case fact_arg fr of None \<Rightarrow> [] | Some a \<Rightarrow> ''('' @ a @ '')'')"

definition bool_str :: "bool \<Rightarrow> string" where
  "bool_str b = (if b then ''true'' else ''false'')"

definition quoted :: "string \<Rightarrow> string" where
  "quoted s = [CHR 0x27] @ s @ [CHR 0x27]"

text \<open>The comparison proper: a boolean, or the reason why there is none.\<close>

definition cmp_result :: "cmp_op \<Rightarrow> json \<Rightarrow> json \<Rightarrow> string + bool" where
  "cmp_result op actual expected =
     (case op of
        OpEq \<Rightarrow> Inr (json_eq actual expected)
      | OpNe \<Rightarrow> Inr (\<not> json_eq actual expected)
      | OpIn \<Rightarrow>
          (case as_array expected of
             None \<Rightarrow> Inl '': 'in' value must be an array''
           | Some arr \<Rightarrow> Inr (list_ex (json_eq actual) arr))
      | OpNotIn \<Rightarrow>
          (case as_array expected of
             None \<Rightarrow> Inl '': 'in' value must be an array''
           | Some arr \<Rightarrow> Inr (\<not> list_ex (json_eq actual) arr))
      | OpContains \<Rightarrow>
          (case (actual, expected) of
             (JString s, JString sub) \<Rightarrow> Inr (contains_str s sub)
           | (JArray a, v) \<Rightarrow> Inr (list_ex (\<lambda>x. json_eq x v) a)
           | _ \<Rightarrow> Inl '': 'contains' needs a string or array'')
      | _ \<Rightarrow>
          (case (json_as_f64 actual, json_as_f64 expected) of
             (Some a, Some b) \<Rightarrow>
               Inr (case op of OpLt \<Rightarrow> a < b | OpLte \<Rightarrow> a \<le> b | OpGt \<Rightarrow> a > b | _ \<Rightarrow> a \<ge> b)
           | _ \<Rightarrow> Inl '': not comparable (non-numeric)''))"

definition eval_cmp ::
  "(json \<Rightarrow> string) \<Rightarrow> request_facts \<Rightarrow> target_facts \<Rightarrow> plugin_facts \<Rightarrow> fact_ref \<Rightarrow> cmp_op \<Rightarrow> json
     \<Rightarrow> eval option" where
  "eval_cmp pr req t plugin fr op expected =
     (case fact_value fr req t plugin of
        None \<Rightarrow> Some (ev_unknown (''fact '' @ quoted (fact_name fr) @ arg_suffix fr @ '' is unknown''))
      | Some actual \<Rightarrow>
          (case compact pr expected of
             None \<Rightarrow> None
           | Some c \<Rightarrow>
               let label = fact_name fr @ arg_suffix fr @ '' '' @ op_str op @ '' '' @ c
               in case cmp_result op actual expected of
                    Inl why \<Rightarrow> Some (ev_unknown (label @ why))
                  | Inr b \<Rightarrow> Some (ev_known b (label @ '' => '' @ bool_str b))))"


fun join_str :: "string \<Rightarrow> string list \<Rightarrow> string" where
  "join_str sep [] = []"
| "join_str sep [x] = x"
| "join_str sep (x # y # ys) = x @ sep @ join_str sep (y # ys)"

definition bracketed :: "eval \<Rightarrow> string" where
  "bracketed e = ''['' @ ev_explanation e @ '']''"

text \<open>
  The evaluator. The loops over the operands of \<^verbatim>\<open>and\<close> and \<^verbatim>\<open>or\<close> carry the explanation parts
  and the \<^verbatim>\<open>saw_unknown\<close> flag.
\<close>

fun eval_with_facts ::
    "(json \<Rightarrow> string) \<Rightarrow> request_facts \<Rightarrow> target_facts \<Rightarrow> plugin_facts \<Rightarrow> predicate \<Rightarrow> eval option"
  and and_loop ::
    "(json \<Rightarrow> string) \<Rightarrow> request_facts \<Rightarrow> target_facts \<Rightarrow> plugin_facts \<Rightarrow> predicate list
       \<Rightarrow> string list \<Rightarrow> bool \<Rightarrow> eval option"
  and or_loop ::
    "(json \<Rightarrow> string) \<Rightarrow> request_facts \<Rightarrow> target_facts \<Rightarrow> plugin_facts \<Rightarrow> predicate list
       \<Rightarrow> string list \<Rightarrow> bool \<Rightarrow> eval option" where
  "eval_with_facts pr req t plugin (PConst b) =
     Some (ev_known b (''constant '' @ bool_str b))"
| "eval_with_facts pr req t plugin (PAnd ps) = and_loop pr req t plugin ps [] False"
| "eval_with_facts pr req t plugin (POr ps) = or_loop pr req t plugin ps [] False"
| "eval_with_facts pr req t plugin (PNot p) =
     (case eval_with_facts pr req t plugin p of
        None \<Rightarrow> None
      | Some e \<Rightarrow>
          Some \<lparr>ev_result = (case ev_result e of TriTrue \<Rightarrow> TriFalse | TriFalse \<Rightarrow> TriTrue
                               | TriUnknown \<Rightarrow> TriUnknown),
                ev_explanation = ''not '' @ bracketed e\<rparr>)"
| "eval_with_facts pr req t plugin (PCmp fr op v) = eval_cmp pr req t plugin fr op v"
| "and_loop pr req t plugin [] parts saw_unknown =
     Some (if saw_unknown then ev_unknown (''and: unknown because '' @ join_str '' '' parts)
           else ev_known True (''and: all true '' @ join_str '' '' parts))"
| "and_loop pr req t plugin (p # ps) parts saw_unknown =
     (case eval_with_facts pr req t plugin p of
        None \<Rightarrow> None
      | Some e \<Rightarrow>
          let parts' = parts @ [bracketed e]
          in case ev_result e of
               TriFalse \<Rightarrow> Some (ev_known False (''and: false because '' @ join_str '' '' parts'))
             | TriUnknown \<Rightarrow> and_loop pr req t plugin ps parts' True
             | TriTrue \<Rightarrow> and_loop pr req t plugin ps parts' saw_unknown)"
| "or_loop pr req t plugin [] parts saw_unknown =
     Some (if saw_unknown then ev_unknown (''or: unknown because '' @ join_str '' '' parts)
           else ev_known False (''or: all false '' @ join_str '' '' parts))"
| "or_loop pr req t plugin (p # ps) parts saw_unknown =
     (case eval_with_facts pr req t plugin p of
        None \<Rightarrow> None
      | Some e \<Rightarrow>
          let parts' = parts @ [bracketed e]
          in case ev_result e of
               TriTrue \<Rightarrow> Some (ev_known True (''or: true because '' @ join_str '' '' parts'))
             | TriUnknown \<Rightarrow> or_loop pr req t plugin ps parts' True
             | TriFalse \<Rightarrow> or_loop pr req t plugin ps parts' saw_unknown)"

definition eval_native ::
  "(json \<Rightarrow> string) \<Rightarrow> request_facts \<Rightarrow> target_facts \<Rightarrow> predicate \<Rightarrow> eval option" where
  "eval_native pr req t p = eval_with_facts pr req t plugin_facts_default p"

record eligibility =
  el_eligible :: bool
  el_result :: tri
  el_explanation :: string

definition eligibility_with_facts ::
  "(json \<Rightarrow> string) \<Rightarrow> request_facts \<Rightarrow> target_facts \<Rightarrow> plugin_facts \<Rightarrow> target_predicate
     \<Rightarrow> eligibility option" where
  "eligibility_with_facts pr req t plugin tp =
     (case tp_expr tp of
        None \<Rightarrow> Some \<lparr>el_eligible = True, el_result = TriTrue,
                      el_explanation = ''no predicate configured''\<rparr>
      | Some expr \<Rightarrow>
          (case eval_with_facts pr req t plugin expr of
             None \<Rightarrow> None
           | Some e \<Rightarrow>
               Some \<lparr>el_eligible = (case ev_result e of TriTrue \<Rightarrow> True | TriFalse \<Rightarrow> False
                                      | TriUnknown \<Rightarrow> tp_when_unknown tp = Allow),
                     el_result = ev_result e,
                     el_explanation = ev_explanation e @ '' (when_unknown=''
                       @ (case tp_when_unknown tp of Skip \<Rightarrow> ''skip'' | Allow \<Rightarrow> ''allow'') @ '')''\<rparr>))"

definition eligibility_native ::
  "(json \<Rightarrow> string) \<Rightarrow> request_facts \<Rightarrow> target_facts \<Rightarrow> target_predicate \<Rightarrow> eligibility option" where
  "eligibility_native pr req t tp = eligibility_with_facts pr req t plugin_facts_default tp"

section \<open>Specification: strong Kleene logic\<close>

fun tri_not :: "tri \<Rightarrow> tri" where
  "tri_not TriTrue = TriFalse"
| "tri_not TriFalse = TriTrue"
| "tri_not TriUnknown = TriUnknown"

definition tri_all :: "tri set \<Rightarrow> tri" where
  "tri_all S = (if TriFalse \<in> S then TriFalse else if TriUnknown \<in> S then TriUnknown else TriTrue)"

definition tri_any :: "tri set \<Rightarrow> tri" where
  "tri_any S = (if TriTrue \<in> S then TriTrue else if TriUnknown \<in> S then TriUnknown else TriFalse)"

definition cmp_sem ::
  "request_facts \<Rightarrow> target_facts \<Rightarrow> plugin_facts \<Rightarrow> fact_ref \<Rightarrow> cmp_op \<Rightarrow> json \<Rightarrow> tri" where
  "cmp_sem req t plugin fr op v =
     (case fact_value fr req t plugin of
        None \<Rightarrow> TriUnknown
      | Some a \<Rightarrow> (case cmp_result op a v of Inl _ \<Rightarrow> TriUnknown | Inr b \<Rightarrow> tri_from_bool b))"

primrec kleene :: "request_facts \<Rightarrow> target_facts \<Rightarrow> plugin_facts \<Rightarrow> predicate \<Rightarrow> tri" where
  "kleene req t plugin (PConst b) = tri_from_bool b"
| "kleene req t plugin (PAnd ps) = tri_all (set (map (kleene req t plugin) ps))"
| "kleene req t plugin (POr ps) = tri_any (set (map (kleene req t plugin) ps))"
| "kleene req t plugin (PNot p) = tri_not (kleene req t plugin p)"
| "kleene req t plugin (PCmp fr op v) = cmp_sem req t plugin fr op v"

text \<open>The literals of an expression, and when printing them is safe.\<close>

primrec literals :: "predicate \<Rightarrow> json list" where
  "literals (PConst b) = []"
| "literals (PAnd ps) = concat (map literals ps)"
| "literals (POr ps) = concat (map literals ps)"
| "literals (PNot p) = literals p"
| "literals (PCmp fr op v) = [v]"

section \<open>Lemmas\<close>

lemma ev_result_simps [simp]:
  "ev_result (ev_known b e) = tri_from_bool b" "ev_result (ev_unknown e) = TriUnknown"
  by (simp_all add: ev_known_def ev_unknown_def)

lemma tri_from_bool_simps [simp]:
  "tri_from_bool True = TriTrue" "tri_from_bool False = TriFalse" "tri_from_bool b \<noteq> TriUnknown"
  by (simp_all add: tri_from_bool_def)

lemma tri_all_insert:
  "tri_all (insert x S) = (case x of TriFalse \<Rightarrow> TriFalse
     | TriUnknown \<Rightarrow> (if TriFalse \<in> S then TriFalse else TriUnknown) | TriTrue \<Rightarrow> tri_all S)"
  by (cases x) (auto simp: tri_all_def)

lemma tri_any_insert:
  "tri_any (insert x S) = (case x of TriTrue \<Rightarrow> TriTrue
     | TriUnknown \<Rightarrow> (if TriTrue \<in> S then TriTrue else TriUnknown) | TriFalse \<Rightarrow> tri_any S)"
  by (cases x) (auto simp: tri_any_def)

lemma eval_cmp_sem:
  "eval_cmp pr req t plugin fr op v = Some e \<Longrightarrow> ev_result e = cmp_sem req t plugin fr op v"
  by (auto simp: eval_cmp_def cmp_sem_def Let_def split: option.splits sum.splits)

lemma eval_cmp_total:
  "compact pr v \<noteq> None \<Longrightarrow> \<exists>e. eval_cmp pr req t plugin fr op v = Some e"
  by (auto simp: eval_cmp_def Let_def split: option.splits sum.splits)

text \<open>Soundness: a result, when there is one, is the Kleene value.\<close>

lemma eval_sound:
  "eval_with_facts pr req t plugin p = Some e \<Longrightarrow> ev_result e = kleene req t plugin p"
  "and_loop pr req t plugin ps parts u = Some e \<Longrightarrow>
     ev_result e = tri_all (set (map (kleene req t plugin) ps) \<union> (if u then {TriUnknown} else {}))"
  "or_loop pr req t plugin ps parts' u' = Some e \<Longrightarrow>
     ev_result e = tri_any (set (map (kleene req t plugin) ps) \<union> (if u' then {TriUnknown} else {}))"
proof (induction pr req t plugin p and pr req t plugin ps parts u and pr req t plugin ps parts' u'
    arbitrary: e and e and e rule: eval_with_facts_and_loop_or_loop.induct)
  case (4 pr req t plugin p)
  then show ?case by (auto split: option.splits tri.splits)
next
  case (5 pr req t plugin fr op v)
  then show ?case by (simp add: eval_cmp_sem)
next
  case (7 pr req t plugin p ps parts u)
  from "7.prems" obtain e' where e': "eval_with_facts pr req t plugin p = Some e'"
    by (cases "eval_with_facts pr req t plugin p") simp_all
  note r = "7.IH"(1) [OF e', symmetric]
  show ?case
  proof (cases "ev_result e'")
    case TriTrue
    with "7.prems" "7.IH"(2) [OF e' refl] e' r show ?thesis
      by (auto simp: Let_def tri_all_insert)
  next
    case TriFalse
    with "7.prems" "7.IH"(2) [OF e' refl] e' r show ?thesis
      by (auto simp: Let_def tri_all_insert)
  next
    case TriUnknown
    with "7.prems" "7.IH"(3) [OF e' refl] e' r show ?thesis
      by (auto simp: Let_def tri_all_insert tri_all_def)
  qed
next
  case (9 pr req t plugin p ps parts u)
  from "9.prems" obtain e' where e': "eval_with_facts pr req t plugin p = Some e'"
    by (cases "eval_with_facts pr req t plugin p") simp_all
  note r = "9.IH"(1) [OF e', symmetric]
  show ?case
  proof (cases "ev_result e'")
    case TriTrue
    with "9.prems" "9.IH"(2) [OF e' refl] e' r show ?thesis
      by (auto simp: Let_def tri_any_insert)
  next
    case TriFalse
    with "9.prems" "9.IH"(2) [OF e' refl] e' r show ?thesis
      by (auto simp: Let_def tri_any_insert)
  next
    case TriUnknown
    with "9.prems" "9.IH"(3) [OF e' refl] e' r show ?thesis
      by (auto simp: Let_def tri_any_insert tri_any_def)
  qed
qed (auto simp: tri_all_def tri_any_def)

lemma eval_total:
  "\<forall>v \<in> set (literals p). compact pr v \<noteq> None \<Longrightarrow> \<exists>e. eval_with_facts pr req t plugin p = Some e"
  "\<forall>p \<in> set ps. \<forall>v \<in> set (literals p). compact pr v \<noteq> None \<Longrightarrow>
     \<exists>e. and_loop pr req t plugin ps parts u = Some e"
  "\<forall>p \<in> set ps. \<forall>v \<in> set (literals p). compact pr v \<noteq> None \<Longrightarrow>
     \<exists>e. or_loop pr req t plugin ps parts' u' = Some e"
proof (induction pr req t plugin p and pr req t plugin ps parts u and pr req t plugin ps parts' u'
    rule: eval_with_facts_and_loop_or_loop.induct)
  case (5 pr req t plugin fr op v)
  then show ?case by (simp add: eval_cmp_total)
next
  case (7 pr req t plugin p ps parts u)
  then obtain e' where "eval_with_facts pr req t plugin p = Some e'" by auto
  with 7 show ?case by (cases "ev_result e'") (simp_all add: Let_def)
next
  case (9 pr req t plugin p ps parts u)
  then obtain e' where "eval_with_facts pr req t plugin p = Some e'" by auto
  with 9 show ?case by (cases "ev_result e'") (simp_all add: Let_def)
qed (auto split: option.split)

text \<open>Decided values survive when more facts become known.\<close>

definition tri_le :: "tri \<Rightarrow> tri \<Rightarrow> bool" where
  "tri_le x y \<longleftrightarrow> x = TriUnknown \<or> x = y"

definition facts_le :: "plugin_facts \<Rightarrow> plugin_facts \<Rightarrow> bool" where
  "facts_le pf pf' \<longleftrightarrow> (\<forall>n v. plugin_get pf n = Some v \<longrightarrow> plugin_get pf' n = Some v)"

lemma tri_all_mono:
  assumes le: "\<And>p. p \<in> S \<Longrightarrow> tri_le (f p) (g p)"
  shows "tri_le (tri_all (f ` S)) (tri_all (g ` S))"
proof (cases "TriUnknown \<in> f ` S")
  case True
  then have "tri_all (f ` S) \<in> {TriFalse, TriUnknown}" by (simp add: tri_all_def)
  moreover have "TriFalse \<in> f ` S \<Longrightarrow> TriFalse \<in> g ` S"
    using le by (force simp: tri_le_def)
  ultimately show ?thesis by (auto simp: tri_le_def tri_all_def)
next
  case False
  then have "f p = g p" if "p \<in> S" for p
    using le [OF that] that by (metis tri_le_def imageI)
  then have "f ` S = g ` S" by (rule image_cong [OF refl])
  then show ?thesis by (simp add: tri_le_def)
qed

lemma tri_any_mono:
  assumes le: "\<And>p. p \<in> S \<Longrightarrow> tri_le (f p) (g p)"
  shows "tri_le (tri_any (f ` S)) (tri_any (g ` S))"
proof (cases "TriUnknown \<in> f ` S")
  case True
  then have "tri_any (f ` S) \<in> {TriTrue, TriUnknown}" by (simp add: tri_any_def)
  moreover have "TriTrue \<in> f ` S \<Longrightarrow> TriTrue \<in> g ` S"
    using le by (force simp: tri_le_def)
  ultimately show ?thesis by (auto simp: tri_le_def tri_any_def)
next
  case False
  then have "f p = g p" if "p \<in> S" for p
    using le [OF that] that by (metis tri_le_def imageI)
  then have "f ` S = g ` S" by (rule image_cong [OF refl])
  then show ?thesis by (simp add: tri_le_def)
qed

lemma fact_value_mono:
  assumes "facts_le pf pf'" and "fact_value fr req t pf = Some v"
  shows "fact_value fr req t pf' = Some v"
proof (cases "starts_with (fact_name fr) ''plugin.''")
  case True
  with assms show ?thesis by (simp add: fact_value_def facts_le_def)
next
  case False
  then have "fact_value fr req t pf' = fact_value fr req t pf" by (simp add: fact_value_def)
  with assms(2) show ?thesis by simp
qed

lemma kleene_mono: "facts_le pf pf' \<Longrightarrow> tri_le (kleene req t pf p) (kleene req t pf' p)"
proof (induction p)
  case (PNot p)
  then show ?case by (auto simp: tri_le_def)
next
  case (PCmp fr op v)
  then show ?case
    by (cases "fact_value fr req t pf") (auto simp: tri_le_def cmp_sem_def fact_value_mono)
qed (auto simp: tri_all_mono tri_any_mono, auto simp: tri_le_def)

lemma plugin_get_append:
  "plugin_get (pf\<lparr>pf_entries := pf_entries pf @ es\<rparr>) n =
     opt_or (plugin_get pf n) (map_option pf_value (find (\<lambda>e. pf_name e = n) es))"
proof -
  have "find P (xs @ ys) = opt_or (find P xs) (find P ys)" for P :: "plugin_fact_entry \<Rightarrow> bool" and xs ys
    by (induction xs) (simp_all add: opt_or_def)
  then show ?thesis
    by (simp add: plugin_get_def opt_or_def split: option.split)
qed

lemma facts_le_insert: "facts_le pf (plugin_insert n v src pf)"
  by (auto simp: facts_le_def plugin_insert_def plugin_get_append opt_or_def)

definition plugin_insert_all :: "(string \<times> json \<times> json) list \<Rightarrow> plugin_facts \<Rightarrow> plugin_facts" where
  "plugin_insert_all xs pf = fold (\<lambda>(n, v, src). plugin_insert n v src) xs pf"

lemma facts_le_insert_all: "facts_le pf (plugin_insert_all xs pf)"
proof (induction xs arbitrary: pf)
  case Nil
  then show ?case by (simp add: facts_le_def plugin_insert_all_def)
next
  case (Cons x xs)
  obtain n v src where "x = (n, v, src)" by (cases x)
  with Cons [of "plugin_insert n v src pf"] facts_le_insert [of pf n v src] show ?case
    by (simp add: plugin_insert_all_def facts_le_def)
qed

section \<open>Properties\<close>

text \<open>
  C28. The short-circuiting evaluator computes strong Kleene logic, and evaluation ends with a
  result whenever every literal of the expression prints without splitting a character: a target
  is eligible exactly when its expression is absent, true, or unknown under the \<^verbatim>\<open>allow\<close> policy.
\<close>

theorem eligibility_kleene:
  assumes "\<forall>e v. tp_expr tp = Some e \<and> v \<in> set (literals e) \<longrightarrow> compact pr v \<noteq> None"
  shows "\<exists>el. eligibility_with_facts pr req t plugin tp = Some el
    \<and> el_eligible el = (case tp_expr tp of None \<Rightarrow> True
        | Some e \<Rightarrow> kleene req t plugin e = TriTrue
            \<or> kleene req t plugin e = TriUnknown \<and> tp_when_unknown tp = Allow)"
proof (cases "tp_expr tp")
  case None
  then show ?thesis by (simp add: eligibility_with_facts_def)
next
  case (Some p)
  with assms obtain e where e: "eval_with_facts pr req t plugin p = Some e"
    using eval_total(1) [of p pr req t plugin] by auto
  show ?thesis
    using Some e eval_sound(1) [OF e, symmetric]
    by (cases "ev_result e") (simp_all add: eligibility_with_facts_def)
qed

definition plain_request :: request_facts where
  "plain_request = \<lparr>rf_frontend = ''openai'', rf_requested_model = ''m'', rf_requested_route = None,
     rf_key_tag = None, rf_has_tools = True, rf_has_images = False, rf_has_reasoning = False,
     rf_input_tokens = 100\<rparr>"

definition plain_target :: target_facts where
  "plain_target = \<lparr>tf_model_id = ''m'', tf_model_display = ''m'', tf_provider_id = ''p'',
     tf_provider_name = ''p'', tf_capabilities = capabilities_default, tf_capabilities_raw = JObject [],
     tf_context_window = None, tf_max_output_tokens = None\<rparr>"

theorem eligibility_kleene_witness:
  "\<exists>el. eligibility_with_facts (\<lambda>_. ''true'') plain_request plain_target plugin_facts_default
       \<lparr>tp_expr = Some (PAnd [PCmp (Bare ''has_tools'') OpEq (JBool True),
          POr [PCmp (Bare ''key_tag'') OpEq (JString ''x''), PConst False]]),
        tp_when_unknown = Skip\<rparr> = Some el \<and> \<not> el_eligible el"
proof -
  let ?e = "PAnd [PCmp (Bare ''has_tools'') OpEq (JBool True),
      POr [PCmp (Bare ''key_tag'') OpEq (JString ''x''), PConst False]]"
  have "kleene plain_request plain_target plugin_facts_default ?e = TriUnknown"
    by (simp add: cmp_sem_def fact_value_def starts_with_def plain_request_def cmp_result_def
        json_eq_def tri_all_def tri_any_def)
  then show ?thesis
    using eligibility_kleene [of "\<lparr>tp_expr = Some ?e, tp_when_unknown = Skip\<rparr>" "\<lambda>_. ''true''"
        plain_request plain_target plugin_facts_default]
    by (simp add: compact_def)
qed

text \<open>
  Decisions are stable under new knowledge: contributing further plugin facts, in any number
  and under any names (an already known name keeps its first value), never changes an evaluation
  that was already decided.
\<close>

theorem decided_result_stable:
  assumes "eval_with_facts pr req t pf p = Some e" and "ev_result e \<noteq> TriUnknown"
    and "eval_with_facts pr req t (plugin_insert_all xs pf) p = Some e'"
  shows "ev_result e' = ev_result e"
  using kleene_mono [OF facts_le_insert_all, of req t pf p xs] assms
    eval_sound(1) [OF assms(1)] eval_sound(1) [OF assms(3)] by (simp add: tri_le_def)

theorem decided_result_stable_witness:
  "\<exists>e'. eval_with_facts (\<lambda>_. ''x'') plain_request plain_target
     (plugin_insert_all [(''plugin.a.f'', JBool True, JNull)] plugin_facts_default)
     (POr [PConst True, PCmp (Bare ''plugin.a.f'') OpEq (JBool False)]) = Some e'
   \<and> ev_result e' = TriTrue"
proof -
  let ?p = "POr [PConst True, PCmp (Bare ''plugin.a.f'') OpEq (JBool False)]"
  let ?pf = "plugin_insert_all [(''plugin.a.f'', JBool True, JNull)] plugin_facts_default"
  obtain e where e: "eval_with_facts (\<lambda>_. ''x'') plain_request plain_target plugin_facts_default ?p = Some e"
    and k: "ev_result e = TriTrue"
    by (simp add: Let_def)
  obtain e' where e': "eval_with_facts (\<lambda>_. ''x'') plain_request plain_target ?pf ?p = Some e'"
    by (simp add: Let_def)
  show ?thesis using decided_result_stable [OF e _ e'] e' k by simp
qed

text \<open>
  Evaluation can panic: a comparison of a known fact against a literal whose printed form has
  more than sixty bytes, with a character spanning byte sixty, aborts the evaluation, whatever
  the operator.
\<close>

theorem long_literal_panics:
  assumes "60 < length (pr v)" and "continuation_byte (pr v ! 60)"
    and "fact_value fr req t plugin = Some a"
  shows "eval_with_facts pr req t plugin (PCmp fr op v) = None
    \<and> eligibility_with_facts pr req t plugin \<lparr>tp_expr = Some (PCmp fr op v), tp_when_unknown = w\<rparr> = None"
  using assms by (simp add: eval_cmp_def compact_def eligibility_with_facts_def)

theorem long_literal_panics_witness:
  "eval_with_facts (\<lambda>v. case v of JString s \<Rightarrow> [CHR 0x22] @ s @ [CHR 0x22] | _ \<Rightarrow> []) plain_request
     plain_target plugin_facts_default
     (PCmp (Bare ''frontend'') OpEq (JString (replicate 58 (CHR ''a'') @ [CHR 0xC3, CHR 0xA9]))) = None"
proof -
  let ?pr = "\<lambda>v. case v of JString s \<Rightarrow> [CHR 0x22] @ s @ [CHR 0x22] | _ \<Rightarrow> []"
  let ?v = "JString (replicate 58 (CHR ''a'') @ [CHR 0xC3, CHR 0xA9])"
  have "60 < length (?pr ?v)" by simp
  moreover have "continuation_byte (?pr ?v ! 60)"
    by (simp add: continuation_byte_def nth_append nth_Cons' of_char_def)
  moreover have "fact_value (Bare ''frontend'') plain_request plain_target plugin_facts_default
      = Some (JString ''openai'')"
    by (simp add: fact_value_def starts_with_def plain_request_def)
  ultimately show ?thesis
    by (rule long_literal_panics [where op = OpEq, THEN conjunct1])
qed

end
