(* ===== verification/Db_Rows.thy ===== *)
theory Db_Rows
  imports Route_Predicate
begin

text \<open>
  The configuration rows of \<^verbatim>\<open>src/src/db.rs\<close> and their typed accessors. A row keeps its JSON
  columns as text; the deserialisers, the JSON printer, the RFC 3339 clock format and the URL
  parser are third-party code and form the record \<open>codec\<close>, an argument of every accessor that
  uses one of them.
\<close>

section \<open>Definitions\<close>

record codec =
  de_strings :: "string \<Rightarrow> string list option"
  de_headers :: "string \<Rightarrow> (string \<times> string) list option"
  de_caps :: "string \<Rightarrow> capabilities option"
  de_prices :: "string \<Rightarrow> prices option"
  de_thinking :: "string \<Rightarrow> thinking_map option"
  de_value :: "string \<Rightarrow> json option"
  de_target_predicate :: "string \<Rightarrow> target_predicate option"
  de_predicate :: "string \<Rightarrow> predicate option"
  ser_value :: "json \<Rightarrow> string"
  parse_dt :: "string \<Rightarrow> nanos option"
  to_rfc3339 :: "nanos \<Rightarrow> string"
  url_host :: "string \<Rightarrow> string option"

record virtual_key_row =
  vk_id :: string
  vk_key_hash :: string
  vk_name :: string
  vk_owner :: string
  vk_tag :: string
  vk_allowed_models :: string
  vk_allowed_providers :: string
  vk_rpm_limit :: "int option"
  vk_tpm_limit :: "int option"
  vk_daily_budget :: "f64 option"
  vk_monthly_budget :: "f64 option"
  vk_expires_at :: "string option"
  vk_status :: string
  vk_allowed_ips :: string
  vk_body_logging :: int
  vk_created_at :: string
  vk_revoked_at :: "string option"

definition allowed_models :: "codec \<Rightarrow> virtual_key_row \<Rightarrow> string list" where
  "allowed_models cd k = unwrap_or (de_strings cd (vk_allowed_models k)) [''*'']"

definition allowed_providers :: "codec \<Rightarrow> virtual_key_row \<Rightarrow> string list" where
  "allowed_providers cd k = unwrap_or (de_strings cd (vk_allowed_providers k)) []"

definition allowed_ips :: "codec \<Rightarrow> virtual_key_row \<Rightarrow> string list" where
  "allowed_ips cd k = unwrap_or (de_strings cd (vk_allowed_ips k)) []"

definition permits_model :: "codec \<Rightarrow> virtual_key_row \<Rightarrow> string \<Rightarrow> bool" where
  "permits_model cd k model =
     (let allowed = allowed_models cd k
      in if list_ex (\<lambda>m. m = ''*'') allowed then True
         else list_ex (\<lambda>m. case strip_suffix ''*'' m of
                             Some prefix \<Rightarrow> starts_with model prefix
                           | None \<Rightarrow> m = model) allowed)"

record provider_row =
  pv_id :: string
  pv_name :: string
  pv_base_url :: string
  pv_wire_format :: string
  pv_auth_scheme :: string
  pv_custom_header_name :: "string option"
  pv_custom_param_name :: "string option"
  pv_extra_headers :: string
  pv_timeout_ms :: int
  pv_capability_mode :: string
  pv_models_path :: "string option"
  pv_rate_limit_rules :: string
  pv_enabled :: int
  pv_follow_redirects :: int
  pv_credential_hosts :: string
  pv_allow_insecure_tls :: int
  pv_created_at :: string
  pv_wire_plugin :: string
  pv_credential_plugin :: string
  pv_model_source_plugin :: string
  pv_credential_mode :: string
  pv_source_plugin_id :: "string option"
  pv_source_integration_id :: "string option"

definition provider_wire :: "provider_row \<Rightarrow> wire_format" where
  "provider_wire p = unwrap_or (wire_format_parse (pv_wire_format p)) Openai"

definition provider_auth :: "provider_row \<Rightarrow> auth_scheme" where
  "provider_auth p = unwrap_or (auth_scheme_parse (pv_auth_scheme p)) Bearer"

definition extra_headers_map :: "codec \<Rightarrow> provider_row \<Rightarrow> (string \<times> string) list" where
  "extra_headers_map cd p = unwrap_or (de_headers cd (pv_extra_headers p)) []"

definition provider_strict :: "provider_row \<Rightarrow> bool" where
  "provider_strict p = (pv_capability_mode p = ''strict'')"

definition follows_redirects :: "provider_row \<Rightarrow> bool" where
  "follows_redirects p = (pv_follow_redirects p \<noteq> 0)"

definition insecure_tls :: "provider_row \<Rightarrow> bool" where
  "insecure_tls p = (pv_allow_insecure_tls p \<noteq> 0)"

fun split_char :: "char \<Rightarrow> string \<Rightarrow> string list" where
  "split_char d [] = [[]]"
| "split_char d (c # cs) =
     (if c = d then [] # split_char d cs
      else case split_char d cs of [] \<Rightarrow> [[c]] | w # ws \<Rightarrow> (c # w) # ws)"

definition credential_hosts :: "provider_row \<Rightarrow> string list" where
  "credential_hosts p = filter (\<lambda>s. s \<noteq> []) (map trim (split_char (CHR '','') (pv_credential_hosts p)))"

definition base_host :: "codec \<Rightarrow> provider_row \<Rightarrow> string option" where
  "base_host cd p = url_host cd (pv_base_url p)"

definition ascii_lower :: "char \<Rightarrow> char" where
  "ascii_lower c =
     (let n = (of_char c :: nat) in if 65 \<le> n \<and> n \<le> 90 then char_of (n + 32) else c)"

definition to_ascii_lowercase :: "string \<Rightarrow> string" where
  "to_ascii_lowercase s = map ascii_lower s"

definition host_authorized :: "codec \<Rightarrow> provider_row \<Rightarrow> string \<Rightarrow> bool" where
  "host_authorized cd p host0 =
     (let host = to_ascii_lowercase host0
      in if is_some_and (\<lambda>b. to_ascii_lowercase b = host) (base_host cd p) then True
         else list_ex (\<lambda>h. to_ascii_lowercase h = host) (credential_hosts p))"

record account_row =
  ac_id :: string
  ac_provider_id :: string
  ac_label :: string
  ac_secret_enc :: string
  ac_key_mask :: string
  ac_status :: string
  ac_cooldown_until :: "string option"
  ac_quota_reset_at :: "string option"
  ac_quota_type :: string
  ac_quota_window_s :: "int option"
  ac_soft_quota_usd :: "f64 option"
  ac_priority :: int
  ac_weight :: int
  ac_last_error :: "string option"
  ac_last_probe_at :: "string option"
  ac_circuit_open_until :: "string option"
  ac_consecutive_failures :: int
  ac_created_at :: string

record model_row =
  md_id :: string
  md_provider_id :: string
  md_upstream_id :: string
  md_display_name :: string
  md_enabled :: int
  md_context_window :: "int option"
  md_max_output_tokens :: "int option"
  md_capabilities :: string
  md_prices :: string
  md_parameters :: string
  md_thinking_map :: string
  md_extra_request :: string
  md_discovery :: string
  md_created_at :: string
  md_opaque_state_plugin :: string

definition no_prices :: prices where
  "no_prices = \<lparr>input_per_1m = None, output_per_1m = None, cached_per_1m = None,
     cache_write_per_1m = None, thinking_per_1m = None\<rparr>"

definition model_caps :: "codec \<Rightarrow> model_row \<Rightarrow> capabilities" where
  "model_caps cd m = unwrap_or (de_caps cd (md_capabilities m)) capabilities_default"

definition model_prices :: "codec \<Rightarrow> model_row \<Rightarrow> prices" where
  "model_prices cd m = unwrap_or (de_prices cd (md_prices m)) no_prices"

definition extra_request_value :: "codec \<Rightarrow> model_row \<Rightarrow> json" where
  "extra_request_value cd m = unwrap_or (de_value cd (md_extra_request m)) JNull"

record alias_row =
  al_id :: string
  al_alias :: string
  al_target_type :: string
  al_target_id :: string
  al_description :: string
  al_created_at :: string

record route_row =
  rt_id :: string
  rt_name :: string
  rt_description :: string
  rt_strategy :: string
  rt_fallback_triggers :: string
  rt_continuity_policy :: string
  rt_portability_policy :: string
  rt_sticky_routing :: int
  rt_cache_affinity :: int
  rt_max_attempts :: "int option"
  rt_enabled :: int
  rt_created_at :: string

definition portability :: "route_row \<Rightarrow> string" where
  "portability r =
     (if rt_portability_policy r = ''reject'' then ''reject'' else ''strip_with_warning'')"

record route_target_row =
  tg_id :: string
  tg_route_id :: string
  tg_account_id :: "string option"
  tg_model_id :: string
  tg_priority :: int
  tg_weight :: int
  tg_param_overrides :: string
  tg_predicate :: string

section \<open>Lemmas\<close>

lemma strip_prefix_Some: "strip_prefix p s = Some r \<longleftrightarrow> s = p @ r"
  by (induction p s rule: strip_prefix.induct) auto

lemma strip_suffix_Some: "strip_suffix p s = Some r \<longleftrightarrow> s = r @ p"
proof -
  have "strip_suffix p s = Some r \<longleftrightarrow> strip_prefix (rev p) (rev s) = Some (rev r)"
    unfolding strip_suffix_def by auto
  also have "\<dots> \<longleftrightarrow> rev s = rev (r @ p)" by (simp add: strip_prefix_Some)
  finally show ?thesis by (simp only: rev_is_rev_conv)
qed

lemma starts_with_iff: "starts_with s p \<longleftrightarrow> (\<exists>r. s = p @ r)"
  by (simp add: starts_with_def strip_prefix_Some not_None_eq)

lemma of_char_bound: "(of_char (c :: char) :: nat) < 256"
  by (cases c) (simp add: of_char_def)

lemma ascii_lower_idem: "ascii_lower (ascii_lower c) = ascii_lower c"
proof -
  have "(of_char (char_of (of_char c + 32 :: nat)) :: nat) = of_char c + 32" if "(of_char c :: nat) \<le> 90"
    using that by simp
  then show ?thesis by (simp add: ascii_lower_def Let_def)
qed

lemma to_ascii_lowercase_idem [simp]: "to_ascii_lowercase (to_ascii_lowercase s) = to_ascii_lowercase s"
  by (simp add: to_ascii_lowercase_def ascii_lower_idem)

lemma split_char_not_Nil: "split_char d s \<noteq> []"
  by (cases s) (auto split: list.split)

section \<open>Properties\<close>

text \<open>
  A key admits a model name exactly when its allow list (every model, when the column does not
  parse) holds the wildcard, the name itself, or a pattern ending in a star whose stem begins the
  name.
\<close>

theorem permits_model_spec:
  "permits_model cd k model \<longleftrightarrow>
     (\<exists>m \<in> set (allowed_models cd k).
        m = model \<or> (\<exists>stem rest. m = stem @ ''*'' \<and> model = stem @ rest))"
proof -
  have "(case strip_suffix ''*'' m of Some prefix \<Rightarrow> starts_with model prefix | None \<Rightarrow> m = model)
     \<longleftrightarrow> m = model \<or> (\<exists>stem rest. m = stem @ ''*'' \<and> model = stem @ rest)" for m
  proof (cases "strip_suffix ''*'' m")
    case None
    then have "\<nexists>stem. m = stem @ ''*''" by (metis strip_suffix_Some option.distinct(1))
    with None show ?thesis by auto
  next
    case (Some stem)
    then have "m = stem @ ''*''" by (simp add: strip_suffix_Some)
    with Some show ?thesis by (auto simp: starts_with_iff)
  qed
  moreover have "permits_model cd k model" if "''*'' \<in> set (allowed_models cd k)"
    using that by (auto simp: permits_model_def Let_def list_ex_iff)
  ultimately show ?thesis
    by (auto simp: permits_model_def Let_def list_ex_iff)
      (metis append_Nil)
qed

text \<open>
  A credential is only sent to a host that equals, up to ASCII case, the host of the
  provider's base URL or one of its listed credential hosts; the decision does not depend on
  letter case.
\<close>

theorem host_authorized_iff:
  "host_authorized cd p host = (to_ascii_lowercase host \<in> to_ascii_lowercase `
      (set_option (base_host cd p) \<union> set (credential_hosts p)))
   \<and> host_authorized cd p (to_ascii_lowercase host) = host_authorized cd p host"
  by (auto simp: host_authorized_def Let_def is_some_and_def list_ex_iff split: option.split
      intro: rev_image_eqI)

end
