(* ===== verification/Config_Store.thy ===== *)
theory Config_Store
  imports Db_Rows "HOL-Library.List_Lexorder" "HOL-Library.Char_ord" "HOL-Library.Product_Lexorder"
begin

text \<open>
  The configuration tables and the statements of \<^verbatim>\<open>src/src/db.rs\<close> on them. A table is its list of
  rows in rowid order; a statement that violates a \<^verbatim>\<open>PRIMARY KEY\<close>, \<^verbatim>\<open>UNIQUE\<close> or
  \<^verbatim>\<open>REFERENCES\<close> clause of \<^verbatim>\<open>src/migrations/0001_init.sql\<close> fails and changes nothing
  (\<^verbatim>\<open>foreign_keys(true)\<close> is set on every connection). Fresh identifiers and the clock reading
  are arguments. The invariant is the schema's integrity, kept by every statement in any order.
\<close>

section \<open>Definitions\<close>

datatype db_error = UniqueFailed | ForeignKeyFailed

record config_db =
  db_virtual_keys :: "virtual_key_row list"
  db_providers :: "provider_row list"
  db_accounts :: "account_row list"
  db_models :: "model_row list"
  db_aliases :: "alias_row list"
  db_routes :: "route_row list"
  db_route_targets :: "route_target_row list"

definition empty_db :: config_db where
  "empty_db = \<lparr>db_virtual_keys = [], db_providers = [], db_accounts = [], db_models = [],
     db_aliases = [], db_routes = [], db_route_targets = []\<rparr>"

text \<open>\<^verbatim>\<open>UPDATE t SET \<dots> WHERE id = ?\<close>, \<^verbatim>\<open>DELETE FROM t WHERE \<dots>\<close> and
  \<^verbatim>\<open>SELECT * FROM t WHERE id = ?\<close>.\<close>

definition update_where :: "('r \<Rightarrow> 'k) \<Rightarrow> 'k \<Rightarrow> ('r \<Rightarrow> 'r) \<Rightarrow> 'r list \<Rightarrow> 'r list" where
  "update_where key v f rows = map (\<lambda>r. if key r = v then f r else r) rows"

definition delete_where :: "('r \<Rightarrow> 'k) \<Rightarrow> 'k \<Rightarrow> 'r list \<Rightarrow> 'r list" where
  "delete_where key v rows = filter (\<lambda>r. key r \<noteq> v) rows"

definition select_one :: "('r \<Rightarrow> 'k) \<Rightarrow> 'k \<Rightarrow> 'r list \<Rightarrow> 'r option" where
  "select_one key v rows = find (\<lambda>r. key r = v) rows"

subsection \<open>Virtual keys\<close>

definition insert_virtual_key :: "virtual_key_row \<Rightarrow> config_db \<Rightarrow> db_error + config_db" where
  "insert_virtual_key k db =
     (if vk_id k \<in> vk_id ` set (db_virtual_keys db)
         \<or> vk_key_hash k \<in> vk_key_hash ` set (db_virtual_keys db) then Inl UniqueFailed
      else Inr (db\<lparr>db_virtual_keys := db_virtual_keys db @ [k\<lparr>vk_revoked_at := None\<rparr>]\<rparr>))"

definition get_virtual_key_by_hash :: "string \<Rightarrow> config_db \<Rightarrow> virtual_key_row option" where
  "get_virtual_key_by_hash h db = select_one vk_key_hash h (db_virtual_keys db)"

definition get_virtual_key_by_id :: "string \<Rightarrow> config_db \<Rightarrow> virtual_key_row option" where
  "get_virtual_key_by_id i db = select_one vk_id i (db_virtual_keys db)"

definition set_virtual_key_status :: "string \<Rightarrow> string \<Rightarrow> string \<Rightarrow> config_db \<Rightarrow> config_db" where
  "set_virtual_key_status now_iso i status db =
     (let revoked_at = (if status = ''revoked'' then Some now_iso else None)
      in db\<lparr>db_virtual_keys := update_where vk_id i
              (\<lambda>k. k\<lparr>vk_status := status, vk_revoked_at := opt_or revoked_at (vk_revoked_at k)\<rparr>)
              (db_virtual_keys db)\<rparr>)"

definition delete_virtual_key :: "string \<Rightarrow> config_db \<Rightarrow> config_db" where
  "delete_virtual_key i db = db\<lparr>db_virtual_keys := delete_where vk_id i (db_virtual_keys db)\<rparr>"

subsection \<open>Providers\<close>

record new_provider =
  np_name :: string
  np_base_url :: string
  np_wire_format :: wire_format
  np_auth_scheme :: auth_scheme
  np_custom_header_name :: "string option"
  np_custom_param_name :: "string option"
  np_extra_headers :: json
  np_timeout_ms :: int
  np_capability_mode :: string
  np_models_path :: "string option"
  np_rate_limit_rules :: json
  np_follow_redirects :: bool
  np_credential_hosts :: string
  np_allow_insecure_tls :: bool
  np_wire_plugin :: string
  np_credential_plugin :: string
  np_model_source_plugin :: string
  np_credential_mode :: string
  np_source_plugin_id :: "string option"
  np_source_integration_id :: "string option"

definition bool_int :: "bool \<Rightarrow> int" where
  "bool_int b = (if b then 1 else 0)"

definition insert_provider ::
  "codec \<Rightarrow> string \<Rightarrow> string \<Rightarrow> new_provider \<Rightarrow> config_db \<Rightarrow> db_error + config_db" where
  "insert_provider cd i now_iso p db =
     (if i \<in> pv_id ` set (db_providers db) then Inl UniqueFailed
      else Inr (db\<lparr>db_providers := db_providers db @
        [\<lparr>pv_id = i, pv_name = np_name p, pv_base_url = np_base_url p,
          pv_wire_format = wire_format_as_str (np_wire_format p),
          pv_auth_scheme = auth_scheme_str (np_auth_scheme p),
          pv_custom_header_name = np_custom_header_name p,
          pv_custom_param_name = np_custom_param_name p,
          pv_extra_headers = ser_value cd (np_extra_headers p), pv_timeout_ms = np_timeout_ms p,
          pv_capability_mode = np_capability_mode p, pv_models_path = np_models_path p,
          pv_rate_limit_rules = ser_value cd (np_rate_limit_rules p), pv_enabled = 1,
          pv_follow_redirects = bool_int (np_follow_redirects p),
          pv_credential_hosts = np_credential_hosts p,
          pv_allow_insecure_tls = bool_int (np_allow_insecure_tls p), pv_created_at = now_iso,
          pv_wire_plugin = np_wire_plugin p, pv_credential_plugin = np_credential_plugin p,
          pv_model_source_plugin = np_model_source_plugin p,
          pv_credential_mode = np_credential_mode p, pv_source_plugin_id = np_source_plugin_id p,
          pv_source_integration_id = np_source_integration_id p\<rparr>]\<rparr>))"

definition get_provider :: "string \<Rightarrow> config_db \<Rightarrow> provider_row option" where
  "get_provider i db = select_one pv_id i (db_providers db)"

text \<open>The arguments of \<^verbatim>\<open>update_provider\<close> are the fields of \<^verbatim>\<open>NewProvider\<close> up to the
  plugin bindings; it leaves the credential semantics columns alone.\<close>

definition update_provider :: "codec \<Rightarrow> string \<Rightarrow> new_provider \<Rightarrow> config_db \<Rightarrow> config_db" where
  "update_provider cd i p db = db\<lparr>db_providers := update_where pv_id i
     (\<lambda>r. r\<lparr>pv_name := np_name p, pv_base_url := np_base_url p,
            pv_wire_format := wire_format_as_str (np_wire_format p),
            pv_auth_scheme := auth_scheme_str (np_auth_scheme p),
            pv_custom_header_name := np_custom_header_name p,
            pv_custom_param_name := np_custom_param_name p,
            pv_extra_headers := ser_value cd (np_extra_headers p), pv_timeout_ms := np_timeout_ms p,
            pv_capability_mode := np_capability_mode p, pv_models_path := np_models_path p,
            pv_rate_limit_rules := ser_value cd (np_rate_limit_rules p),
            pv_follow_redirects := bool_int (np_follow_redirects p),
            pv_credential_hosts := np_credential_hosts p,
            pv_allow_insecure_tls := bool_int (np_allow_insecure_tls p),
            pv_wire_plugin := np_wire_plugin p, pv_credential_plugin := np_credential_plugin p,
            pv_model_source_plugin := np_model_source_plugin p\<rparr>) (db_providers db)\<rparr>"

definition update_provider_credential_semantics ::
  "string \<Rightarrow> string \<Rightarrow> string option \<Rightarrow> string option \<Rightarrow> config_db \<Rightarrow> config_db" where
  "update_provider_credential_semantics i mode src_plugin src_integration db =
     db\<lparr>db_providers := update_where pv_id i
       (\<lambda>r. r\<lparr>pv_credential_mode := mode, pv_source_plugin_id := src_plugin,
              pv_source_integration_id := src_integration\<rparr>) (db_providers db)\<rparr>"

text \<open>Deleting cascades along the foreign keys.\<close>

definition drop_accounts :: "(account_row \<Rightarrow> bool) \<Rightarrow> config_db \<Rightarrow> config_db" where
  "drop_accounts P db =
     (let gone = ac_id ` set (filter P (db_accounts db))
      in db\<lparr>db_accounts := filter (\<lambda>a. \<not> P a) (db_accounts db),
            db_route_targets := filter (\<lambda>t. set_option (tg_account_id t) \<inter> gone = {})
              (db_route_targets db)\<rparr>)"

definition drop_models :: "(model_row \<Rightarrow> bool) \<Rightarrow> config_db \<Rightarrow> config_db" where
  "drop_models P db =
     (let gone = md_id ` set (filter P (db_models db))
      in db\<lparr>db_models := filter (\<lambda>m. \<not> P m) (db_models db),
            db_route_targets := filter (\<lambda>t. tg_model_id t \<notin> gone) (db_route_targets db)\<rparr>)"

definition delete_provider :: "string \<Rightarrow> config_db \<Rightarrow> config_db" where
  "delete_provider i db =
     drop_models (\<lambda>m. md_provider_id m = i) (drop_accounts (\<lambda>a. ac_provider_id a = i)
       (db\<lparr>db_providers := delete_where pv_id i (db_providers db)\<rparr>))"

subsection \<open>Accounts\<close>

definition insert_account ::
  "string \<Rightarrow> string \<Rightarrow> string \<Rightarrow> string \<Rightarrow> string \<Rightarrow> string \<Rightarrow> int \<Rightarrow> int \<Rightarrow> f64 option \<Rightarrow> string
     \<Rightarrow> config_db \<Rightarrow> db_error + config_db" where
  "insert_account i now_iso provider_id label secret_enc key_mask priority weight soft_quota_usd
       quota_type db =
     (if i \<in> ac_id ` set (db_accounts db) then Inl UniqueFailed
      else if provider_id \<notin> pv_id ` set (db_providers db) then Inl ForeignKeyFailed
      else Inr (db\<lparr>db_accounts := db_accounts db @
        [\<lparr>ac_id = i, ac_provider_id = provider_id, ac_label = label, ac_secret_enc = secret_enc,
          ac_key_mask = key_mask, ac_status = ''healthy'', ac_cooldown_until = None,
          ac_quota_reset_at = None, ac_quota_type = quota_type, ac_quota_window_s = None,
          ac_soft_quota_usd = soft_quota_usd, ac_priority = priority, ac_weight = weight,
          ac_last_error = None, ac_last_probe_at = None, ac_circuit_open_until = None,
          ac_consecutive_failures = 0, ac_created_at = now_iso\<rparr>]\<rparr>))"

definition get_account :: "string \<Rightarrow> config_db \<Rightarrow> account_row option" where
  "get_account i db = select_one ac_id i (db_accounts db)"

definition accounts_for_provider :: "string \<Rightarrow> config_db \<Rightarrow> account_row list" where
  "accounts_for_provider p db =
     sort_key ac_priority
       (filter (\<lambda>a. ac_provider_id a = p \<and> ac_status a \<noteq> ''disabled'') (db_accounts db))"

definition update_accounts_where ::
  "string \<Rightarrow> (account_row \<Rightarrow> account_row) \<Rightarrow> config_db \<Rightarrow> config_db" where
  "update_accounts_where i f db = db\<lparr>db_accounts := update_where ac_id i f (db_accounts db)\<rparr>"

definition update_account ::
  "string \<Rightarrow> string \<Rightarrow> string \<Rightarrow> int \<Rightarrow> int \<Rightarrow> f64 option \<Rightarrow> string \<Rightarrow> config_db \<Rightarrow> config_db" where
  "update_account i label status priority weight soft_quota_usd quota_type =
     update_accounts_where i
       (\<lambda>a. a\<lparr>ac_label := label, ac_status := status, ac_priority := priority, ac_weight := weight,
              ac_soft_quota_usd := soft_quota_usd, ac_quota_type := quota_type\<rparr>)"

definition set_account_status ::
  "string \<Rightarrow> string \<Rightarrow> string option \<Rightarrow> string option \<Rightarrow> string option \<Rightarrow> config_db \<Rightarrow> config_db" where
  "set_account_status i status cooldown_until quota_reset_at last_error =
     update_accounts_where i
       (\<lambda>a. let a' = a\<lparr>ac_status := status, ac_cooldown_until := cooldown_until,
                       ac_quota_reset_at := quota_reset_at, ac_last_error := last_error\<rparr>
            in if status = ''healthy''
               then a'\<lparr>ac_circuit_open_until := None, ac_consecutive_failures := 0\<rparr> else a')"

definition delete_account :: "string \<Rightarrow> config_db \<Rightarrow> config_db" where
  "delete_account i db = drop_accounts (\<lambda>a. ac_id a = i) db"

definition record_account_failure ::
  "codec \<Rightarrow> nanos \<Rightarrow> string \<Rightarrow> int \<Rightarrow> int \<Rightarrow> config_db \<Rightarrow> config_db \<times> int" where
  "record_account_failure cd now i circuit_threshold open_secs db =
     (let db1 = update_accounts_where i
                  (\<lambda>a. a\<lparr>ac_consecutive_failures := ac_consecutive_failures a + 1\<rparr>) db;
          n = (case get_account i db1 of Some a \<Rightarrow> ac_consecutive_failures a | None \<Rightarrow> 0)
      in if n \<ge> circuit_threshold
         then (update_accounts_where i
                 (\<lambda>a. a\<lparr>ac_circuit_open_until := Some (to_rfc3339 cd (now + secs open_secs))\<rparr>) db1, n)
         else (db1, n))"

definition reset_account_failures :: "string \<Rightarrow> config_db \<Rightarrow> config_db" where
  "reset_account_failures i = update_accounts_where i
     (\<lambda>a. a\<lparr>ac_consecutive_failures := 0, ac_circuit_open_until := None\<rparr>)"

definition touch_probe_at :: "codec \<Rightarrow> nanos \<Rightarrow> string \<Rightarrow> config_db \<Rightarrow> config_db" where
  "touch_probe_at cd now i = update_accounts_where i
     (\<lambda>a. a\<lparr>ac_last_probe_at := Some (to_rfc3339 cd now)\<rparr>)"

subsection \<open>Models\<close>

record new_model =
  nm_provider_id :: string
  nm_upstream_id :: string
  nm_display_name :: string
  nm_enabled :: bool
  nm_context_window :: "int option"
  nm_max_output_tokens :: "int option"
  nm_capabilities :: json
  nm_prices :: json
  nm_parameters :: json
  nm_thinking_map :: json
  nm_extra_request :: json
  nm_discovery :: json

definition insert_model ::
  "codec \<Rightarrow> string \<Rightarrow> string \<Rightarrow> new_model \<Rightarrow> config_db \<Rightarrow> db_error + config_db" where
  "insert_model cd i now_iso m db =
     (if i \<in> md_id ` set (db_models db)
         \<or> (nm_provider_id m, nm_upstream_id m)
              \<in> (\<lambda>r. (md_provider_id r, md_upstream_id r)) ` set (db_models db) then Inl UniqueFailed
      else if nm_provider_id m \<notin> pv_id ` set (db_providers db) then Inl ForeignKeyFailed
      else Inr (db\<lparr>db_models := db_models db @
        [\<lparr>md_id = i, md_provider_id = nm_provider_id m, md_upstream_id = nm_upstream_id m,
          md_display_name = nm_display_name m, md_enabled = bool_int (nm_enabled m),
          md_context_window = nm_context_window m, md_max_output_tokens = nm_max_output_tokens m,
          md_capabilities = ser_value cd (nm_capabilities m), md_prices = ser_value cd (nm_prices m),
          md_parameters = ser_value cd (nm_parameters m),
          md_thinking_map = ser_value cd (nm_thinking_map m),
          md_extra_request = ser_value cd (nm_extra_request m),
          md_discovery = ser_value cd (nm_discovery m), md_created_at = now_iso,
          md_opaque_state_plugin = ''''\<rparr>]\<rparr>))"

definition get_model :: "string \<Rightarrow> config_db \<Rightarrow> model_row option" where
  "get_model i db = select_one md_id i (db_models db)"

definition find_model_by_upstream :: "string \<Rightarrow> string \<Rightarrow> config_db \<Rightarrow> model_row option" where
  "find_model_by_upstream p u db =
     find (\<lambda>m. md_provider_id m = p \<and> md_upstream_id m = u) (db_models db)"

definition update_models_where :: "string \<Rightarrow> (model_row \<Rightarrow> model_row) \<Rightarrow> config_db \<Rightarrow> config_db" where
  "update_models_where i f db = db\<lparr>db_models := update_where md_id i f (db_models db)\<rparr>"

definition set_model_discovery :: "codec \<Rightarrow> string \<Rightarrow> json \<Rightarrow> config_db \<Rightarrow> config_db" where
  "set_model_discovery cd i d = update_models_where i (\<lambda>m. m\<lparr>md_discovery := ser_value cd d\<rparr>)"

definition set_model_opaque_state_plugin :: "string \<Rightarrow> string \<Rightarrow> config_db \<Rightarrow> config_db" where
  "set_model_opaque_state_plugin i plugin_id =
     update_models_where i (\<lambda>m. m\<lparr>md_opaque_state_plugin := plugin_id\<rparr>)"

definition update_model ::
  "codec \<Rightarrow> string \<Rightarrow> string \<Rightarrow> bool \<Rightarrow> int option \<Rightarrow> int option \<Rightarrow> json \<Rightarrow> json \<Rightarrow> json \<Rightarrow> json \<Rightarrow> json
     \<Rightarrow> config_db \<Rightarrow> config_db" where
  "update_model cd i display_name enabled context_window max_output_tokens caps prs params tmap extra =
     update_models_where i
       (\<lambda>m. m\<lparr>md_display_name := display_name, md_enabled := bool_int enabled,
              md_context_window := context_window, md_max_output_tokens := max_output_tokens,
              md_capabilities := ser_value cd caps, md_prices := ser_value cd prs,
              md_parameters := ser_value cd params, md_thinking_map := ser_value cd tmap,
              md_extra_request := ser_value cd extra\<rparr>)"

definition delete_model :: "string \<Rightarrow> config_db \<Rightarrow> config_db" where
  "delete_model i db = drop_models (\<lambda>m. md_id m = i) db"

subsection \<open>Aliases\<close>

definition get_alias :: "string \<Rightarrow> config_db \<Rightarrow> alias_row option" where
  "get_alias a db = select_one al_alias a (db_aliases db)"

definition upsert_alias ::
  "string \<Rightarrow> string \<Rightarrow> string \<Rightarrow> string \<Rightarrow> string \<Rightarrow> string \<Rightarrow> config_db
     \<Rightarrow> db_error + (config_db \<times> string)" where
  "upsert_alias i now_iso al target_type target_id description db =
     (case get_alias al db of
        Some existing \<Rightarrow>
          Inr (db\<lparr>db_aliases := update_where al_id (al_id existing)
                    (\<lambda>r. r\<lparr>al_target_type := target_type, al_target_id := target_id,
                           al_description := description\<rparr>) (db_aliases db)\<rparr>, al_id existing)
      | None \<Rightarrow>
          if i \<in> al_id ` set (db_aliases db) then Inl UniqueFailed
          else Inr (db\<lparr>db_aliases := db_aliases db @
                 [\<lparr>al_id = i, al_alias = al, al_target_type = target_type, al_target_id = target_id,
                   al_description = description, al_created_at = now_iso\<rparr>]\<rparr>, i))"

definition delete_alias :: "string \<Rightarrow> config_db \<Rightarrow> config_db" where
  "delete_alias i db = db\<lparr>db_aliases := delete_where al_id i (db_aliases db)\<rparr>"

subsection \<open>Routes and their targets\<close>

record new_route =
  nr_name :: string
  nr_description :: string
  nr_strategy :: string
  nr_fallback_triggers :: json
  nr_portability_policy :: string
  nr_sticky_routing :: bool
  nr_cache_affinity :: bool
  nr_max_attempts :: "int option"

definition insert_route ::
  "codec \<Rightarrow> string \<Rightarrow> string \<Rightarrow> new_route \<Rightarrow> config_db \<Rightarrow> db_error + config_db" where
  "insert_route cd i now_iso c db =
     (if i \<in> rt_id ` set (db_routes db) \<or> nr_name c \<in> rt_name ` set (db_routes db) then Inl UniqueFailed
      else Inr (db\<lparr>db_routes := db_routes db @
        [\<lparr>rt_id = i, rt_name = nr_name c, rt_description = nr_description c,
          rt_strategy = nr_strategy c, rt_fallback_triggers = ser_value cd (nr_fallback_triggers c),
          rt_continuity_policy = ''strip'', rt_portability_policy = nr_portability_policy c,
          rt_sticky_routing = bool_int (nr_sticky_routing c),
          rt_cache_affinity = bool_int (nr_cache_affinity c), rt_max_attempts = nr_max_attempts c,
          rt_enabled = 1, rt_created_at = now_iso\<rparr>]\<rparr>))"

definition update_route ::
  "codec \<Rightarrow> string \<Rightarrow> string \<Rightarrow> string \<Rightarrow> json \<Rightarrow> string \<Rightarrow> bool \<Rightarrow> bool \<Rightarrow> int option \<Rightarrow> config_db
     \<Rightarrow> config_db" where
  "update_route cd i description strategy triggers portability_policy sticky affinity max_attempts db =
     db\<lparr>db_routes := update_where rt_id i
       (\<lambda>r. r\<lparr>rt_description := description, rt_strategy := strategy,
              rt_fallback_triggers := ser_value cd triggers, rt_continuity_policy := ''strip'',
              rt_portability_policy := portability_policy, rt_sticky_routing := bool_int sticky,
              rt_cache_affinity := bool_int affinity, rt_max_attempts := max_attempts\<rparr>)
       (db_routes db)\<rparr>"

definition clear_route_targets :: "string \<Rightarrow> config_db \<Rightarrow> config_db" where
  "clear_route_targets route_id db =
     db\<lparr>db_route_targets := delete_where tg_route_id route_id (db_route_targets db)\<rparr>"

definition insert_route_target ::
  "string \<Rightarrow> string \<Rightarrow> string option \<Rightarrow> string \<Rightarrow> int \<Rightarrow> int \<Rightarrow> string \<Rightarrow> string \<Rightarrow> config_db
     \<Rightarrow> db_error + config_db" where
  "insert_route_target i route_id account_id model_id priority weight pred param_overrides db =
     (if i \<in> tg_id ` set (db_route_targets db) then Inl UniqueFailed
      else if route_id \<notin> rt_id ` set (db_routes db) \<or> model_id \<notin> md_id ` set (db_models db)
              \<or> \<not> set_option account_id \<subseteq> ac_id ` set (db_accounts db) then Inl ForeignKeyFailed
      else Inr (db\<lparr>db_route_targets := db_route_targets db @
        [\<lparr>tg_id = i, tg_route_id = route_id, tg_account_id = account_id, tg_model_id = model_id,
          tg_priority = priority, tg_weight = weight, tg_param_overrides = param_overrides,
          tg_predicate = pred\<rparr>]\<rparr>))"

definition delete_route :: "string \<Rightarrow> config_db \<Rightarrow> config_db" where
  "delete_route i db = db\<lparr>db_routes := delete_where rt_id i (db_routes db),
     db_route_targets := delete_where tg_route_id i (db_route_targets db)\<rparr>"

subsection \<open>The ordered listings the registry loads\<close>

definition list_virtual_keys :: "config_db \<Rightarrow> virtual_key_row list" where
  "list_virtual_keys db = rev (sort_key vk_created_at (rev (db_virtual_keys db)))"

definition list_providers :: "config_db \<Rightarrow> provider_row list" where
  "list_providers db = sort_key pv_created_at (db_providers db)"

definition list_accounts :: "config_db \<Rightarrow> account_row list" where
  "list_accounts db = sort_key (\<lambda>a. (ac_priority a, ac_created_at a)) (db_accounts db)"

definition list_models :: "config_db \<Rightarrow> model_row list" where
  "list_models db = sort_key md_created_at (db_models db)"

definition list_aliases :: "config_db \<Rightarrow> alias_row list" where
  "list_aliases db = sort_key al_alias (db_aliases db)"

definition list_routes :: "config_db \<Rightarrow> route_row list" where
  "list_routes db = sort_key rt_created_at (db_routes db)"

definition route_targets :: "string \<Rightarrow> config_db \<Rightarrow> route_target_row list" where
  "route_targets route_id db =
     sort_key (\<lambda>t. (tg_priority t, - tg_weight t))
       (filter (\<lambda>t. tg_route_id t = route_id) (db_route_targets db))"

section \<open>Schema integrity\<close>

definition unique_by :: "('r \<Rightarrow> 'k) \<Rightarrow> 'r list \<Rightarrow> bool" where
  "unique_by key rows = distinct (map key rows)"

text \<open>Every reference held by a row names a row of the parent table.\<close>

definition refs :: "('r \<Rightarrow> 'k set) \<Rightarrow> 'r list \<Rightarrow> ('p \<Rightarrow> 'k) \<Rightarrow> 'p list \<Rightarrow> bool" where
  "refs g rows key parents = (\<forall>r \<in> set rows. g r \<subseteq> key ` set parents)"

definition db_ok :: "config_db \<Rightarrow> bool" where
  "db_ok db \<longleftrightarrow>
     unique_by vk_id (db_virtual_keys db) \<and> unique_by vk_key_hash (db_virtual_keys db)
     \<and> unique_by pv_id (db_providers db) \<and> unique_by ac_id (db_accounts db)
     \<and> unique_by md_id (db_models db)
     \<and> unique_by (\<lambda>m. (md_provider_id m, md_upstream_id m)) (db_models db)
     \<and> unique_by al_id (db_aliases db) \<and> unique_by al_alias (db_aliases db)
     \<and> unique_by rt_id (db_routes db) \<and> unique_by rt_name (db_routes db)
     \<and> unique_by tg_id (db_route_targets db)
     \<and> refs (\<lambda>a. {ac_provider_id a}) (db_accounts db) pv_id (db_providers db)
     \<and> refs (\<lambda>m. {md_provider_id m}) (db_models db) pv_id (db_providers db)
     \<and> refs (\<lambda>t. {tg_route_id t}) (db_route_targets db) rt_id (db_routes db)
     \<and> refs (\<lambda>t. {tg_model_id t}) (db_route_targets db) md_id (db_models db)
     \<and> refs (\<lambda>t. set_option (tg_account_id t)) (db_route_targets db) ac_id (db_accounts db)"

text \<open>One statement of the application; a failed insert is no step.\<close>

inductive db_step :: "codec \<Rightarrow> config_db \<Rightarrow> config_db \<Rightarrow> bool" for cd where
  ins_key: "insert_virtual_key k db = Inr db' \<Longrightarrow> db_step cd db db'"
| key_status: "db_step cd db (set_virtual_key_status now_iso i st db)"
| del_key: "db_step cd db (delete_virtual_key i db)"
| ins_provider: "insert_provider cd i now_iso p db = Inr db' \<Longrightarrow> db_step cd db db'"
| upd_provider: "db_step cd db (update_provider cd i p db)"
| cred_provider: "db_step cd db (update_provider_credential_semantics i mode sp si db)"
| del_provider: "db_step cd db (delete_provider i db)"
| ins_account: "insert_account i now_iso pid lbl sec km prio w q qt db = Inr db' \<Longrightarrow> db_step cd db db'"
| upd_account: "db_step cd db (update_account i lbl st prio w q qt db)"
| status_account: "db_step cd db (set_account_status i st cu qr err db)"
| del_account: "db_step cd db (delete_account i db)"
| fail_account: "db_step cd db (fst (record_account_failure cd now i thr os db))"
| reset_account: "db_step cd db (reset_account_failures i db)"
| probe_account: "db_step cd db (touch_probe_at cd now i db)"
| ins_model: "insert_model cd i now_iso m db = Inr db' \<Longrightarrow> db_step cd db db'"
| disc_model: "db_step cd db (set_model_discovery cd i d db)"
| opaque_model: "db_step cd db (set_model_opaque_state_plugin i plug db)"
| upd_model: "db_step cd db (update_model cd i dn en cw mo caps prs params tmap extra db)"
| del_model: "db_step cd db (delete_model i db)"
| ups_alias: "upsert_alias i now_iso al tt ti desc db = Inr (db', i') \<Longrightarrow> db_step cd db db'"
| del_alias: "db_step cd db (delete_alias i db)"
| ins_route: "insert_route cd i now_iso c db = Inr db' \<Longrightarrow> db_step cd db db'"
| upd_route: "db_step cd db (update_route cd i desc strat trig pp st ca ma db)"
| clear_targets: "db_step cd db (clear_route_targets i db)"
| ins_target: "insert_route_target i rid aid mid prio w pred po db = Inr db' \<Longrightarrow> db_step cd db db'"
| del_route: "db_step cd db (delete_route i db)"

inductive reachable_db :: "codec \<Rightarrow> config_db \<Rightarrow> bool" for cd where
  start: "reachable_db cd empty_db"
| step: "reachable_db cd db \<Longrightarrow> db_step cd db db' \<Longrightarrow> reachable_db cd db'"

section \<open>Lemmas\<close>

lemma update_where_key:
  "(\<And>r. g (f r) = g r) \<Longrightarrow> map g (update_where key v f rows) = map g rows"
  by (simp add: update_where_def)

lemma update_where_image:
  "(\<And>r. g (f r) = g r) \<Longrightarrow> g ` set (update_where key v f rows) = g ` set rows"
  by (metis image_set update_where_key)

lemma unique_by_filter: "unique_by key rows \<Longrightarrow> unique_by key (filter P rows)"
  by (simp add: unique_by_def distinct_map_filter)

lemma unique_by_delete: "unique_by key rows \<Longrightarrow> unique_by key (delete_where key' v rows)"
  by (simp add: delete_where_def unique_by_filter)

lemma unique_by_snoc: "unique_by key (rows @ [r]) \<longleftrightarrow> unique_by key rows \<and> key r \<notin> key ` set rows"
  by (auto simp: unique_by_def)

lemma unique_by_Nil [simp]: "unique_by key []"
  by (simp add: unique_by_def)

lemma unique_by_update:
  "(\<And>r. g (f r) = g r) \<Longrightarrow> unique_by g (update_where key v f rows) = unique_by g rows"
  by (simp add: unique_by_def update_where_key)

lemma unique_by_inj: "unique_by key rows \<Longrightarrow> r \<in> set rows \<Longrightarrow> r' \<in> set rows \<Longrightarrow> key r = key r' \<Longrightarrow> r = r'"
  by (auto simp: unique_by_def distinct_map inj_on_def)

lemma select_one_unique:
  assumes "unique_by key rows"
  shows "select_one key v rows = Some r \<longleftrightarrow> r \<in> set rows \<and> key r = v"
proof -
  have sound: "select_one key v rows = Some x \<Longrightarrow> x \<in> set rows \<and> key x = v" for x
    by (auto simp: select_one_def find_Some_iff)
  show ?thesis
  proof
    assume r: "r \<in> set rows \<and> key r = v"
    then obtain x where x: "select_one key v rows = Some x"
      by (cases "select_one key v rows") (auto simp: select_one_def find_None_iff)
    then have "x = r" using sound [OF x] r unique_by_inj [OF assms] by metis
    with x show "select_one key v rows = Some r" by simp
  qed (rule sound)
qed

lemma select_one_cong:
  assumes "unique_by key xs" and "unique_by key ys"
    and "\<And>r. r \<in> set xs \<and> key r = v \<longleftrightarrow> r \<in> set ys \<and> key r = v"
  shows "select_one key v xs = select_one key v ys"
proof -
  have "select_one key v xs = Some r \<longleftrightarrow> select_one key v ys = Some r" for r
    using assms(3) by (simp add: select_one_unique assms(1,2))
  then show ?thesis by (cases "select_one key v ys") (metis not_None_eq, simp)
qed

lemma refs_Nil [simp]: "refs g [] key ps"
  by (simp add: refs_def)

lemma refs_snoc: "refs g (rows @ [r]) key ps \<longleftrightarrow> refs g rows key ps \<and> g r \<subseteq> key ` set ps"
  by (auto simp: refs_def)

lemma refs_parent_snoc: "refs g rows key ps \<Longrightarrow> refs g rows key (ps @ [p])"
  by (auto simp: refs_def)

lemma refs_alt: "refs g rows key ps = (\<forall>s \<in> g ` set rows. s \<subseteq> key ` set ps)"
  by (simp add: refs_def)

lemma refs_update:
  "(\<And>r. g (f r) = g r) \<Longrightarrow> refs g (update_where k v f rows) key ps = refs g rows key ps"
  by (simp only: refs_alt update_where_image)

lemma refs_parent_update:
  "(\<And>p. key (f p) = key p) \<Longrightarrow> refs g rows key (update_where k v f ps) = refs g rows key ps"
  by (simp add: refs_def update_where_image)

lemma refs_filter: "refs g rows key ps \<Longrightarrow> refs g (filter P rows) key ps"
  by (simp add: refs_def)

lemma refs_drop_parents:
  assumes "refs g rows key ps" and "\<forall>r \<in> set rows. g r \<inter> key ` set (filter P ps) = {}"
  shows "refs g rows key (filter (\<lambda>p. \<not> P p) ps)"
  unfolding refs_def
proof (intro ballI subsetI)
  fix r v
  assume r: "r \<in> set rows" and v: "v \<in> g r"
  then obtain p where "p \<in> set ps" "v = key p" using assms(1) unfolding refs_def by blast
  moreover have "\<not> P p" using calculation assms(2) r v by auto
  ultimately show "v \<in> key ` set (filter (\<lambda>p. \<not> P p) ps)" by simp
qed

lemmas integrity_simps = unique_by_snoc unique_by_update unique_by_filter unique_by_delete
  refs_snoc refs_parent_snoc refs_update refs_parent_update refs_filter

lemma db_ok_update_accounts:
  assumes "\<And>a. ac_id (f a) = ac_id a" "\<And>a. ac_provider_id (f a) = ac_provider_id a"
  shows "db_ok (update_accounts_where i f db) = db_ok db"
  by (simp add: db_ok_def update_accounts_where_def integrity_simps assms)

lemma db_ok_update_models:
  assumes "\<And>a. md_id (f a) = md_id a" "\<And>a. md_provider_id (f a) = md_provider_id a"
    and "\<And>a. md_upstream_id (f a) = md_upstream_id a"
  shows "db_ok (update_models_where i f db) = db_ok db"
  by (simp add: db_ok_def update_models_where_def integrity_simps assms)

lemma db_ok_drop_accounts: "db_ok db \<Longrightarrow> db_ok (drop_accounts P db)"
  unfolding db_ok_def drop_accounts_def Let_def
  by (simp add: integrity_simps, rule refs_drop_parents) (auto intro: refs_filter)

lemma db_ok_drop_models: "db_ok db \<Longrightarrow> db_ok (drop_models P db)"
  unfolding db_ok_def drop_models_def Let_def
  by (simp add: integrity_simps, rule refs_drop_parents) (auto intro: refs_filter)

lemma db_ok_delete_provider:
  assumes "db_ok db" shows "db_ok (delete_provider i db)"
proof -
  let ?db = "drop_models (\<lambda>m. md_provider_id m = i) (drop_accounts (\<lambda>a. ac_provider_id a = i) db)"
  have ok: "db_ok ?db" by (intro db_ok_drop_models db_ok_drop_accounts assms)
  have eq: "delete_provider i db
      = ?db\<lparr>db_providers := filter (\<lambda>p. \<not> pv_id p = i) (db_providers ?db)\<rparr>"
    by (simp add: delete_provider_def drop_models_def drop_accounts_def Let_def delete_where_def)
  have "refs (\<lambda>a. {ac_provider_id a}) (db_accounts ?db) pv_id (filter (\<lambda>p. \<not> pv_id p = i) (db_providers ?db))"
    by (rule refs_drop_parents) (use ok in \<open>auto simp: db_ok_def drop_models_def drop_accounts_def Let_def\<close>)
  moreover have "refs (\<lambda>m. {md_provider_id m}) (db_models ?db) pv_id (filter (\<lambda>p. \<not> pv_id p = i) (db_providers ?db))"
    by (rule refs_drop_parents) (use ok in \<open>auto simp: db_ok_def drop_models_def drop_accounts_def Let_def\<close>)
  ultimately show ?thesis
    using ok unfolding eq db_ok_def by (simp add: unique_by_filter)
qed

lemma db_ok_delete_route:
  assumes "db_ok db" shows "db_ok (delete_route i db)"
proof -
  have "refs (\<lambda>t. {tg_route_id t}) (delete_where tg_route_id i (db_route_targets db)) rt_id
      (filter (\<lambda>r. \<not> rt_id r = i) (db_routes db))"
    by (rule refs_drop_parents) (use assms in \<open>auto simp: db_ok_def delete_where_def intro: refs_filter\<close>)
  then show ?thesis
    using assms unfolding db_ok_def delete_route_def
    by (simp add: integrity_simps) (simp add: delete_where_def refs_filter unique_by_filter)
qed

lemma db_ok_step: "db_step cd db db' \<Longrightarrow> db_ok db \<Longrightarrow> db_ok db'"
proof (induction rule: db_step.induct)
  case (ins_key k db db')
  then show ?case by (auto simp: insert_virtual_key_def db_ok_def integrity_simps split: if_splits)
next
  case (key_status now_iso i st db)
  then show ?case
    by (simp add: set_virtual_key_status_def db_ok_def integrity_simps Let_def)
next
  case (del_key i db)
  then show ?case by (simp add: delete_virtual_key_def db_ok_def integrity_simps)
next
  case (ins_provider i now_iso p db db')
  then show ?case by (auto simp: insert_provider_def db_ok_def integrity_simps split: if_splits)
next
  case (upd_provider i p db)
  then show ?case by (simp add: update_provider_def db_ok_def integrity_simps)
next
  case (cred_provider i mode sp si db)
  then show ?case
    by (simp add: update_provider_credential_semantics_def db_ok_def integrity_simps)
next
  case (ins_account i now_iso pid lbl sec km prio w q qt db db')
  then show ?case by (auto simp: insert_account_def db_ok_def integrity_simps split: if_splits)
next
  case (del_account i db)
  then show ?case by (simp add: delete_account_def db_ok_drop_accounts)
next
  case (fail_account now i thr os db)
  then show ?case by (simp add: record_account_failure_def Let_def db_ok_update_accounts)
next
  case (ins_model i now_iso m db db')
  then show ?case by (auto simp: insert_model_def db_ok_def integrity_simps split: if_splits)
next
  case (del_model i db)
  then show ?case by (simp add: delete_model_def db_ok_drop_models)
next
  case (ups_alias i now_iso al tt ti desc db db' i')
  then show ?case
    by (auto simp: upsert_alias_def get_alias_def select_one_def find_None_iff db_ok_def integrity_simps
        split: option.splits if_splits)
next
  case (del_alias i db)
  then show ?case by (simp add: delete_alias_def db_ok_def integrity_simps)
next
  case (ins_route i now_iso c db db')
  then show ?case by (auto simp: insert_route_def db_ok_def integrity_simps split: if_splits)
next
  case (upd_route i desc strat trig pp st ca ma db)
  then show ?case by (simp add: update_route_def db_ok_def integrity_simps)
next
  case (clear_targets i db)
  then show ?case
    by (simp add: clear_route_targets_def db_ok_def delete_where_def integrity_simps)
next
  case (ins_target i rid aid mid prio w pred po db db')
  then show ?case by (auto simp: insert_route_target_def db_ok_def integrity_simps split: if_splits)
qed (simp_all add: db_ok_delete_provider db_ok_delete_route update_account_def set_account_status_def
    reset_account_failures_def touch_probe_at_def set_model_discovery_def
    set_model_opaque_state_plugin_def update_model_def db_ok_update_accounts db_ok_update_models Let_def)

lemma reachable_db_ok: "reachable_db cd db \<Longrightarrow> db_ok db"
proof (induction rule: reachable_db.induct)
  case start
  then show ?case by (simp add: db_ok_def empty_db_def)
next
  case (step db db')
  then show ?case by (blast intro: db_ok_step)
qed

section \<open>Properties\<close>

definition sample_route :: new_route where
  "sample_route = \<lparr>nr_name = ''r'', nr_description = [], nr_strategy = ''priority'',
     nr_fallback_triggers = JNull, nr_portability_policy = ''reject'', nr_sticky_routing = False,
     nr_cache_affinity = False, nr_max_attempts = None\<rparr>"

text \<open>
  Aliases round-trip: after an upsert the alias names exactly the given target, an existing
  alias keeps its identifier, and every other alias is found as before.
\<close>

theorem upsert_alias_get:
  assumes "db_ok db" and "upsert_alias i now_iso al tt ti desc db = Inr (db', i')"
  shows "(\<exists>r. get_alias al db' = Some r \<and> al_id r = i' \<and> al_target_type r = tt \<and> al_target_id r = ti)
    \<and> (\<forall>r. get_alias al db = Some r \<longrightarrow> i' = al_id r)
    \<and> (\<forall>b. b \<noteq> al \<longrightarrow> get_alias b db' = get_alias b db)"
proof (cases "get_alias al db")
  case None
  have app: "find P (xs @ ys) = opt_or (find P xs) (find P ys)" for P :: "alias_row \<Rightarrow> bool" and xs ys
    by (induction xs) (simp_all add: opt_or_def)
  show ?thesis
    using assms(2) None
    by (auto simp: upsert_alias_def get_alias_def select_one_def app split: if_splits)
next
  case (Some e)
  let ?f = "\<lambda>r. r\<lparr>al_target_type := tt, al_target_id := ti, al_description := desc\<rparr>"
  have db': "db_aliases db' = update_where al_id (al_id e) ?f (db_aliases db)" and i': "i' = al_id e"
    using assms(2) Some by (auto simp: upsert_alias_def)
  have uid: "unique_by al_id (db_aliases db)" and ual: "unique_by al_alias (db_aliases db)"
    using assms(1) by (simp_all add: db_ok_def)
  have e: "e \<in> set (db_aliases db)" "al_alias e = al"
    using Some by (simp_all add: get_alias_def select_one_unique [OF ual])
  have u': "unique_by al_alias (db_aliases db')" by (simp add: db' unique_by_update ual)
  have "?f e \<in> set (db_aliases db')" using e by (force simp: db' update_where_def)
  then have new: "get_alias al db' = Some (?f e)"
    using e by (simp add: get_alias_def select_one_unique [OF u'])
  have other: "get_alias b db' = get_alias b db" if "b \<noteq> al" for b
  proof -
    have "r \<in> set (db_aliases db') \<and> al_alias r = b \<longleftrightarrow> r \<in> set (db_aliases db) \<and> al_alias r = b" for r
    proof
      assume "r \<in> set (db_aliases db') \<and> al_alias r = b"
      then show "r \<in> set (db_aliases db) \<and> al_alias r = b"
        using that e by (auto simp: db' update_where_def split: if_splits)
          (metis unique_by_inj [OF uid])
    next
      assume r: "r \<in> set (db_aliases db) \<and> al_alias r = b"
      then have "al_id r \<noteq> al_id e" using that e unique_by_inj [OF uid] by metis
      with r show "r \<in> set (db_aliases db') \<and> al_alias r = b"
        by (force simp: db' update_where_def)
    qed
    then show ?thesis
      unfolding get_alias_def by (intro select_one_cong u' ual) auto
  qed
  show ?thesis using new other Some i' by simp
qed

theorem upsert_alias_get_witness:
  "\<exists>db' i' r. upsert_alias ''alias_1'' ''now'' ''gpt'' ''model'' ''m1'' [] empty_db = Inr (db', i')
     \<and> get_alias ''gpt'' db' = Some r \<and> al_target_id r = ''m1''"
proof -
  have ok: "db_ok empty_db" by (simp add: db_ok_def empty_db_def)
  obtain db' i' where u: "upsert_alias ''alias_1'' ''now'' ''gpt'' ''model'' ''m1'' [] empty_db = Inr (db', i')"
    by (simp add: upsert_alias_def get_alias_def select_one_def empty_db_def)
  show ?thesis using upsert_alias_get [OF ok u] u by blast
qed

end
