(* ===== verification/Registry.thy ===== *)
theory Registry
  imports Config_Store "HOL-Library.Multiset"
begin

text \<open>
  The runtime registry (\<^verbatim>\<open>src/src/registry.rs\<close>): the immutable snapshot built from the
  configuration tables, and the resolution of a client's model name against it.

  A \<^verbatim>\<open>HashMap\<close> is its list of entries in iteration order, with distinct keys. \<open>reload\<close> builds one such order, that of
  insertion. Rust leaves the order unspecified, so what depends on it is stated for every snapshot with the \<open>same_entries\<close>
  as a loaded one. The tables are read at one time: a write between the queries of one reload is not modelled, the
  application reloads after every write.
\<close>

section \<open>Definitions\<close>

type_synonym ('k, 'v) hash_map = "('k \<times> 'v) list"

fun hm_insert :: "'k \<Rightarrow> 'v \<Rightarrow> ('k, 'v) hash_map \<Rightarrow> ('k, 'v) hash_map" where
  "hm_insert k v [] = [(k, v)]"
| "hm_insert k v ((k', v') # m) = (if k = k' then (k, v) # m else (k', v') # hm_insert k v m)"

definition hm_remove :: "'k \<Rightarrow> ('k, 'v) hash_map \<Rightarrow> ('k, 'v) hash_map" where
  "hm_remove k m = filter (\<lambda>e. fst e \<noteq> k) m"

abbreviation hm_values :: "('k, 'v) hash_map \<Rightarrow> 'v list" where
  "hm_values m \<equiv> map snd m"

record snapshot =
  sn_providers :: "(string, provider_row) hash_map"
  sn_provider_order :: "string list"
  sn_accounts :: "(string, account_row) hash_map"
  sn_models :: "(string, model_row) hash_map"
  sn_model_by_upstream :: "(string \<times> string, string) hash_map"
  sn_aliases :: "(string, alias_row) hash_map"
  sn_routes :: "(string, route_row) hash_map"
  sn_route_targets :: "(string, route_target_row list) hash_map"

definition snapshot_default :: snapshot where
  "snapshot_default = \<lparr>sn_providers = [], sn_provider_order = [], sn_accounts = [], sn_models = [],
     sn_model_by_upstream = [], sn_aliases = [], sn_routes = [], sn_route_targets = []\<rparr>"

record resolved_target =
  rs_account :: account_row
  rs_model :: model_row
  rs_provider :: provider_row
  rs_route_target_id :: "string option"
  rs_priority :: int
  rs_weight :: int
  rs_predicate :: target_predicate
  rs_param_overrides :: json

datatype resolved =
    Single string string
      \<comment> \<open>provider\_id, model\_id\<close>
  | Route route_row "resolved_target list"

definition NOAUTH_LABEL :: string where
  "NOAUTH_LABEL = ''__kinetix_noauth__''"

definition account_allowed :: "snapshot \<Rightarrow> account_row \<Rightarrow> bool" where
  "account_allowed snap a =
     is_some_and (\<lambda>p. if pv_credential_mode p = ''none'' then ac_label a = NOAUTH_LABEL
                      else ac_label a \<noteq> NOAUTH_LABEL)
       (map_of (sn_providers snap) (ac_provider_id a))"

definition load_provider :: "provider_row \<Rightarrow> snapshot \<Rightarrow> snapshot" where
  "load_provider p snap =
     (if pv_enabled p = 0 then snap
      else snap\<lparr>sn_provider_order := sn_provider_order snap @ [pv_id p],
                sn_providers := hm_insert (pv_id p) p (sn_providers snap)\<rparr>)"

definition load_account :: "account_row \<Rightarrow> snapshot \<Rightarrow> snapshot" where
  "load_account a snap =
     (if account_allowed snap a
      then snap\<lparr>sn_accounts := hm_insert (ac_id a) a (sn_accounts snap)\<rparr> else snap)"

definition load_model :: "model_row \<Rightarrow> snapshot \<Rightarrow> snapshot" where
  "load_model m snap = snap\<lparr>
     sn_model_by_upstream :=
       hm_insert (md_provider_id m, md_upstream_id m) (md_id m) (sn_model_by_upstream snap),
     sn_models := hm_insert (md_id m) m (sn_models snap)\<rparr>"

definition load_alias :: "alias_row \<Rightarrow> snapshot \<Rightarrow> snapshot" where
  "load_alias a snap = snap\<lparr>sn_aliases := hm_insert (al_alias a) a (sn_aliases snap)\<rparr>"

definition load_route :: "config_db \<Rightarrow> route_row \<Rightarrow> snapshot \<Rightarrow> snapshot" where
  "load_route db r snap = snap\<lparr>
     sn_route_targets := hm_insert (rt_id r) (route_targets (rt_id r) db) (sn_route_targets snap),
     sn_routes := hm_insert (rt_id r) r (sn_routes snap)\<rparr>"

definition reload :: "config_db \<Rightarrow> snapshot" where
  "reload db =
     fold (load_route db) (list_routes db)
       (fold load_alias (list_aliases db)
         (fold load_model (list_models db)
           (fold load_account (list_accounts db)
             (fold load_provider (list_providers db) snapshot_default))))"

text \<open>The accounts a route target expands to.\<close>

definition target_accounts :: "snapshot \<Rightarrow> route_target_row \<Rightarrow> model_row \<Rightarrow> account_row list" where
  "target_accounts snap t model =
     (case tg_account_id t of
        Some aid \<Rightarrow>
          (case opt_filter (\<lambda>a. ac_provider_id a = md_provider_id model) (map_of (sn_accounts snap) aid) of
             Some a \<Rightarrow> [a] | None \<Rightarrow> [])
      | None \<Rightarrow> filter (\<lambda>a. ac_provider_id a = md_provider_id model) (hm_values (sn_accounts snap)))"

definition expand_target :: "codec \<Rightarrow> snapshot \<Rightarrow> route_target_row \<Rightarrow> resolved_target list" where
  "expand_target cd snap t =
     (case map_of (sn_models snap) (tg_model_id t) of
        None \<Rightarrow> []
      | Some model \<Rightarrow>
          if md_enabled model = 0 then []
          else
            (case map_of (sn_providers snap) (md_provider_id model) of
               None \<Rightarrow> []
             | Some provider \<Rightarrow>
                 map (\<lambda>a. \<lparr>rs_account = a, rs_model = model, rs_provider = provider,
                           rs_route_target_id = Some (tg_id t), rs_priority = tg_priority t,
                           rs_weight = tg_weight t,
                           rs_predicate = parse_target_predicate (de_target_predicate cd)
                             (de_predicate cd) (tg_predicate t),
                           rs_param_overrides = unwrap_or (de_value cd (tg_param_overrides t)) JNull\<rparr>)
                   (target_accounts snap t model)))"

definition build_route :: "codec \<Rightarrow> snapshot \<Rightarrow> string \<Rightarrow> resolved option" where
  "build_route cd snap route_id =
     (case map_of (sn_routes snap) route_id of
        None \<Rightarrow> None
      | Some route \<Rightarrow>
          if rt_enabled route = 0 then None
          else let targets = concat (map (expand_target cd snap)
                                (unwrap_or (map_of (sn_route_targets snap) route_id) []))
               in if targets = [] then None else Some (Route route targets))"

definition single_of :: "model_row \<Rightarrow> resolved" where
  "single_of m = Single (md_provider_id m) (md_id m)"

definition resolve_alias :: "codec \<Rightarrow> snapshot \<Rightarrow> string \<Rightarrow> resolved option" where
  "resolve_alias cd snap requested =
     (case map_of (sn_aliases snap) requested of
        None \<Rightarrow> None
      | Some a \<Rightarrow>
          if al_target_type a = ''route'' then build_route cd snap (al_target_id a)
          else map_option single_of
                 (opt_filter (\<lambda>m. md_enabled m \<noteq> 0) (map_of (sn_models snap) (al_target_id a))))"

definition resolve_route_name :: "codec \<Rightarrow> snapshot \<Rightarrow> string \<Rightarrow> resolved option" where
  "resolve_route_name cd snap requested =
     (case find (\<lambda>r. rt_name r = requested) (hm_values (sn_routes snap)) of
        None \<Rightarrow> None
      | Some r \<Rightarrow> build_route cd snap (rt_id r))"

definition resolve_provider_model :: "snapshot \<Rightarrow> string \<Rightarrow> resolved option" where
  "resolve_provider_model snap requested =
     (case split_once (CHR ''/'') requested of
        None \<Rightarrow> None
      | Some (prov_part, model_part) \<Rightarrow>
          (case find (\<lambda>p. pv_name p = prov_part \<or> pv_id p = prov_part) (hm_values (sn_providers snap)) of
             None \<Rightarrow> None
           | Some p \<Rightarrow>
               (case map_of (sn_model_by_upstream snap) (pv_id p, model_part) of
                  None \<Rightarrow> None
                | Some mid \<Rightarrow>
                    map_option single_of
                      (opt_filter (\<lambda>m. md_enabled m \<noteq> 0) (map_of (sn_models snap) mid)))))"

definition resolve_bare :: "snapshot \<Rightarrow> string \<Rightarrow> resolved option" where
  "resolve_bare snap requested =
     map_option single_of
       (find (\<lambda>m. md_upstream_id m = requested \<and> md_enabled m \<noteq> 0) (hm_values (sn_models snap)))"

definition resolve_in :: "codec \<Rightarrow> snapshot \<Rightarrow> string \<Rightarrow> resolved option" where
  "resolve_in cd snap requested =
     opt_or (resolve_alias cd snap requested)
       (opt_or (resolve_route_name cd snap requested)
         (opt_or (resolve_provider_model snap requested) (resolve_bare snap requested)))"

definition enabled_models :: "snapshot \<Rightarrow> model_row list" where
  "enabled_models snap = filter (\<lambda>m. md_enabled m \<noteq> 0) (hm_values (sn_models snap))"

definition routes_with_no_targets :: "snapshot \<Rightarrow> string list" where
  "routes_with_no_targets snap =
     map rt_name
       (filter (\<lambda>r. rt_enabled r \<noteq> 0
                  \<and> (case map_of (sn_route_targets snap) (rt_id r) of None \<Rightarrow> True | Some ts \<Rightarrow> ts = []))
          (hm_values (sn_routes snap)))"

section \<open>The snapshot invariant\<close>

text \<open>Keys are distinct and every entry sits under its own identifier; an account belongs to a
  loaded provider.\<close>

definition keyed_by :: "('v \<Rightarrow> 'k) \<Rightarrow> ('k, 'v) hash_map \<Rightarrow> bool" where
  "keyed_by key m \<longleftrightarrow> distinct (map fst m) \<and> (\<forall>(k, v) \<in> set m. k = key v)"

definition hm_all :: "('v \<Rightarrow> bool) \<Rightarrow> ('k, 'v) hash_map \<Rightarrow> bool" where
  "hm_all P m = (\<forall>(k, v) \<in> set m. P v)"

definition snapshot_ok :: "snapshot \<Rightarrow> bool" where
  "snapshot_ok snap \<longleftrightarrow>
     keyed_by pv_id (sn_providers snap) \<and> keyed_by ac_id (sn_accounts snap)
     \<and> keyed_by md_id (sn_models snap) \<and> keyed_by al_alias (sn_aliases snap)
     \<and> keyed_by rt_id (sn_routes snap) \<and> distinct (map fst (sn_model_by_upstream snap))
     \<and> hm_all (\<lambda>p. pv_enabled p \<noteq> 0) (sn_providers snap)
     \<and> hm_all (account_allowed snap) (sn_accounts snap)"

section \<open>Lemmas\<close>

lemma find_SomeD: "find P xs = Some x \<Longrightarrow> x \<in> set xs \<and> P x"
  by (auto simp: find_Some_iff)

lemma map_of_hm_insert: "map_of (hm_insert k v m) = (map_of m)(k \<mapsto> v)"
  by (induction k v m rule: hm_insert.induct) (auto simp: fun_eq_iff)

lemma hm_insert_fresh: "k \<notin> fst ` set m \<Longrightarrow> hm_insert k v m = m @ [(k, v)]"
  by (induction k v m rule: hm_insert.induct) auto

lemma keys_hm_insert: "set (map fst (hm_insert k v m)) = insert k (set (map fst m))"
  by (induction k v m rule: hm_insert.induct) auto

lemma distinct_hm_insert: "distinct (map fst m) \<Longrightarrow> distinct (map fst (hm_insert k v m))"
proof (induction k v m rule: hm_insert.induct)
  case (2 k v k' v' m)
  then show ?case using keys_hm_insert [of k v m] by auto
qed simp

lemma keyed_by_Nil [simp]: "keyed_by key []"
  by (simp add: keyed_by_def)

lemma set_hm_insert: "set (hm_insert k v m) \<subseteq> insert (k, v) (set m)"
  by (induction k v m rule: hm_insert.induct) auto

lemma keyed_by_hm_insert: "keyed_by key m \<Longrightarrow> keyed_by key (hm_insert (key v) v m)"
  unfolding keyed_by_def
  using set_hm_insert [of "key v" v m] distinct_hm_insert [of m "key v" v] by fast

lemma keyed_by_lookup:
  assumes "keyed_by key m"
  shows "map_of m k = Some v \<longleftrightarrow> v \<in> set (hm_values m) \<and> key v = k"
  using assms unfolding keyed_by_def by (force simp: map_of_eq_Some_iff)

lemma hm_all_Nil [simp]: "hm_all P []"
  by (simp add: hm_all_def)

lemma hm_all_insert: "hm_all P m \<Longrightarrow> P v \<Longrightarrow> hm_all P (hm_insert k v m)"
  using set_hm_insert [of k v m] by (fastforce simp: hm_all_def)

lemma hm_allD: "hm_all P m \<Longrightarrow> v \<in> set (hm_values m) \<Longrightarrow> P v"
  by (auto simp: hm_all_def)

lemma values_hm_insert: "v' \<in> set (hm_values (hm_insert k v m)) \<Longrightarrow> v' = v \<or> v' \<in> set (hm_values m)"
  using set_hm_insert [of k v m] by auto

text \<open>Loading keeps the invariant at every step.\<close>

lemma fold_inv: "P s \<Longrightarrow> (\<And>x s. P s \<Longrightarrow> P (f x s)) \<Longrightarrow> P (fold f xs s)"
  by (induction xs arbitrary: s) auto

lemmas load_defs = load_provider_def load_account_def load_model_def load_alias_def load_route_def

lemma account_allowed_keeps [simp]:
  "account_allowed (snap\<lparr>sn_accounts := x\<rparr>) = account_allowed snap"
  "account_allowed (snap\<lparr>sn_models := y\<rparr>) = account_allowed snap"
  "account_allowed (snap\<lparr>sn_model_by_upstream := z\<rparr>) = account_allowed snap"
  "account_allowed (snap\<lparr>sn_aliases := u\<rparr>) = account_allowed snap"
  "account_allowed (snap\<lparr>sn_routes := v\<rparr>) = account_allowed snap"
  "account_allowed (snap\<lparr>sn_route_targets := w\<rparr>) = account_allowed snap"
  by (simp_all add: account_allowed_def fun_eq_iff)

lemma load_account_ok: "snapshot_ok snap \<Longrightarrow> snapshot_ok (load_account a snap)"
  by (simp add: snapshot_ok_def load_account_def keyed_by_hm_insert hm_all_insert)

lemma load_other_ok:
  assumes "snapshot_ok snap"
  shows "snapshot_ok (load_model m snap)" "snapshot_ok (load_alias al snap)"
    "snapshot_ok (load_route db r snap)"
  using assms by (simp_all add: snapshot_ok_def load_defs keyed_by_hm_insert distinct_hm_insert)

lemma load_providers_ok:
  "snapshot_ok (fold load_provider ps snapshot_default)
     \<and> sn_accounts (fold load_provider ps snapshot_default) = []"
  by (rule fold_inv)
    (simp_all add: snapshot_ok_def snapshot_default_def load_provider_def keyed_by_hm_insert
      hm_all_insert)

lemma reload_snapshot_ok: "snapshot_ok (reload db)"
  unfolding reload_def
  by (intro fold_inv [where P = snapshot_ok] load_providers_ok [THEN conjunct1] load_account_ok
      load_other_ok)

text \<open>Which fields each load touches, and what a fold of inserts finds.\<close>

lemma fold_keeps: "(\<And>x s. g (f x s) = g s) \<Longrightarrow> g (fold f xs s) = g s"
  by (induction xs arbitrary: s) auto

lemma fold_lookup:
  assumes look: "\<And>x s. I s \<Longrightarrow> look (f x s) = (if P x then (look s)(key x \<mapsto> val x) else look s)"
    and inv: "\<And>x s. I s \<Longrightarrow> I (f x s)" and "I s" and "unique_by key xs"
  shows "look (fold f xs s) k =
     (case find (\<lambda>x. key x = k) xs of Some x \<Rightarrow> if P x then Some (val x) else look s k
                                    | None \<Rightarrow> look s k)"
  using assms(3,4)
proof (induction xs arbitrary: s)
  case Nil
  then show ?case by simp
next
  case (Cons x xs)
  then have u: "unique_by key xs" and nx: "key x \<notin> key ` set xs" by (simp_all add: unique_by_def)
  note IH = Cons.IH [OF inv [OF Cons.prems(1)] u] and l = look [OF Cons.prems(1)]
  show ?case
  proof (cases "key x = k")
    case True
    then have "find (\<lambda>x. key x = k) xs = None" using nx by (simp add: find_None_iff) (metis imageI)
    with IH True show ?thesis by (simp add: l)
  next
    case False
    with IH show ?thesis by (simp add: l split: option.split)
  qed
qed

lemma select_one_sort:
  assumes "unique_by key xs"
  shows "unique_by key (sort_key g xs)" and "select_one key v (sort_key g xs) = select_one key v xs"
proof -
  show u: "unique_by key (sort_key g xs)"
    using assms unfolding unique_by_def by (metis mset_map mset_sort mset_eq_imp_distinct_iff)
  show "select_one key v (sort_key g xs) = select_one key v xs"
    by (rule select_one_cong [OF u assms]) simp
qed

lemma find_eq_select: "find (\<lambda>x. key x = k) xs = select_one key k xs"
  by (simp add: select_one_def)

lemma opt_filter_case:
  "(case x of Some v \<Rightarrow> if P v then Some v else None | None \<Rightarrow> None) = opt_filter P x"
  by (simp add: opt_filter_def split: option.split)

lemma reload_providers:
  assumes "db_ok db"
  shows "map_of (sn_providers (reload db)) i = opt_filter (\<lambda>p. pv_enabled p \<noteq> 0) (get_provider i db)"
proof -
  have p: "sn_providers (reload db) = sn_providers (fold load_provider (list_providers db) snapshot_default)"
    unfolding reload_def by (simp add: fold_keeps [where g = sn_providers] load_defs)
  have u: "unique_by pv_id (list_providers db)"
    using assms by (simp add: list_providers_def db_ok_def select_one_sort)
  have "map_of (sn_providers (fold load_provider (list_providers db) snapshot_default)) i =
     (case find (\<lambda>x. pv_id x = i) (list_providers db) of
        Some x \<Rightarrow> if pv_enabled x \<noteq> 0 then Some x else map_of (sn_providers snapshot_default) i
      | None \<Rightarrow> map_of (sn_providers snapshot_default) i)"
    by (rule fold_lookup [where look = "\<lambda>s. map_of (sn_providers s)" and val = "\<lambda>a. a"
          and I = "\<lambda>_. True" and P = "\<lambda>p. pv_enabled p \<noteq> 0"])
      (simp_all add: load_provider_def map_of_hm_insert u)
  then show ?thesis
    using assms
    by (simp add: p find_eq_select list_providers_def select_one_sort db_ok_def get_provider_def
        opt_filter_def snapshot_default_def split: option.split)
qed

lemma reload_accounts:
  assumes "db_ok db"
  shows "map_of (sn_accounts (reload db)) i = opt_filter (account_allowed (reload db)) (get_account i db)"
proof -
  let ?s = "fold load_provider (list_providers db) snapshot_default"
  have p: "sn_providers (reload db) = sn_providers ?s"
    unfolding reload_def by (simp add: fold_keeps [where g = sn_providers] load_defs)
  have a: "sn_accounts (reload db) = sn_accounts (fold load_account (list_accounts db) ?s)"
    unfolding reload_def by (simp add: fold_keeps [where g = sn_accounts] load_defs)
  have u: "unique_by ac_id (list_accounts db)"
    using assms by (simp add: list_accounts_def db_ok_def select_one_sort)
  have al: "account_allowed t = account_allowed (reload db)" if "sn_providers t = sn_providers ?s" for t
    using that by (simp add: account_allowed_def p fun_eq_iff)
  have "map_of (sn_accounts (fold load_account (list_accounts db) ?s)) i =
     (case find (\<lambda>x. ac_id x = i) (list_accounts db) of
        Some x \<Rightarrow> if account_allowed (reload db) x then Some x else map_of (sn_accounts ?s) i
      | None \<Rightarrow> map_of (sn_accounts ?s) i)"
    by (rule fold_lookup [where look = "\<lambda>s. map_of (sn_accounts s)" and val = "\<lambda>a. a"
          and I = "\<lambda>t. sn_providers t = sn_providers ?s"])
      (simp_all add: load_account_def al map_of_hm_insert u)
  then show ?thesis
    using assms load_providers_ok [of "list_providers db"]
    by (simp add: a find_eq_select list_accounts_def select_one_sort db_ok_def get_account_def
        opt_filter_def split: option.split)
qed

lemma reload_models:
  assumes "db_ok db"
  shows "map_of (sn_models (reload db)) i = get_model i db"
    and "map_of (sn_model_by_upstream (reload db)) (p, u) = map_option md_id (find_model_by_upstream p u db)"
proof -
  let ?s = "fold load_account (list_accounts db) (fold load_provider (list_providers db) snapshot_default)"
  have m: "sn_models (reload db) = sn_models (fold load_model (list_models db) ?s)"
    "sn_model_by_upstream (reload db) = sn_model_by_upstream (fold load_model (list_models db) ?s)"
    unfolding reload_def
    by (simp_all add: fold_keeps [where g = sn_models] fold_keeps [where g = sn_model_by_upstream] load_defs)
  have e: "sn_models ?s = []" "sn_model_by_upstream ?s = []"
    by (simp_all add: fold_keeps [where g = sn_models] fold_keeps [where g = sn_model_by_upstream]
        load_defs snapshot_default_def)
  let ?up = "\<lambda>m. (md_provider_id m, md_upstream_id m)"
  have u: "unique_by md_id (db_models db)" "unique_by ?up (db_models db)"
    using assms by (simp_all add: db_ok_def)
  show "map_of (sn_models (reload db)) i = get_model i db"
    using fold_lookup [where look = "\<lambda>s. map_of (sn_models s)" and I = "\<lambda>_. True" and f = load_model
        and P = "\<lambda>_. True" and key = md_id and val = "\<lambda>m. m" and xs = "list_models db" and s = ?s and k = i]
    by (simp add: m e load_model_def map_of_hm_insert u select_one_sort find_eq_select list_models_def
        get_model_def split: option.split)
  have "find_model_by_upstream p u db = select_one ?up (p, u) (db_models db)"
    by (simp add: find_model_by_upstream_def select_one_def)
  then show "map_of (sn_model_by_upstream (reload db)) (p, u) = map_option md_id (find_model_by_upstream p u db)"
    using fold_lookup [where look = "\<lambda>s. map_of (sn_model_by_upstream s)" and I = "\<lambda>_. True" and f = load_model
        and P = "\<lambda>_. True" and key = ?up and val = md_id and xs = "list_models db" and s = ?s and k = "(p, u)"]
    unfolding find_eq_select
    by (simp add: m e load_model_def map_of_hm_insert u select_one_sort list_models_def split: option.split)
qed

lemma reload_aliases:
  assumes "db_ok db"
  shows "map_of (sn_aliases (reload db)) al = get_alias al db"
proof -
  let ?s = "fold load_model (list_models db) (fold load_account (list_accounts db)
     (fold load_provider (list_providers db) snapshot_default))"
  have "sn_aliases (reload db) = sn_aliases (fold load_alias (list_aliases db) ?s)"
    unfolding reload_def by (simp add: fold_keeps [where g = sn_aliases] load_defs)
  moreover have "sn_aliases ?s = []"
    by (simp add: fold_keeps [where g = sn_aliases] load_defs snapshot_default_def)
  moreover have "unique_by al_alias (db_aliases db)" using assms by (simp add: db_ok_def)
  ultimately show ?thesis
    using fold_lookup [where look = "\<lambda>s. map_of (sn_aliases s)" and I = "\<lambda>_. True" and f = load_alias
        and P = "\<lambda>_. True" and key = al_alias and val = "\<lambda>m. m" and xs = "list_aliases db" and s = ?s
        and k = al]
    by (simp add: load_alias_def map_of_hm_insert select_one_sort find_eq_select list_aliases_def
        get_alias_def split: option.split)
qed

lemma reload_routes:
  assumes "db_ok db"
  shows "map_of (sn_routes (reload db)) i = select_one rt_id i (db_routes db)"
    and "map_of (sn_route_targets (reload db)) i
      = map_option (\<lambda>_. route_targets i db) (select_one rt_id i (db_routes db))"
proof -
  let ?s = "fold load_alias (list_aliases db) (fold load_model (list_models db)
     (fold load_account (list_accounts db) (fold load_provider (list_providers db) snapshot_default)))"
  have e: "sn_routes ?s = []" "sn_route_targets ?s = []"
    by (simp_all add: fold_keeps [where g = sn_routes] fold_keeps [where g = sn_route_targets]
        load_defs snapshot_default_def)
  have u: "unique_by rt_id (db_routes db)" using assms by (simp add: db_ok_def)
  have id_of: "rt_id r = i" if "select_one rt_id i (db_routes db) = Some r" for r
    using that by (simp add: select_one_unique [OF u])
  show "map_of (sn_routes (reload db)) i = select_one rt_id i (db_routes db)"
    using fold_lookup [where look = "\<lambda>s. map_of (sn_routes s)" and I = "\<lambda>_. True" and f = "load_route db"
        and P = "\<lambda>_. True" and key = rt_id and val = "\<lambda>m. m" and xs = "list_routes db" and s = ?s and k = i]
    by (simp add: reload_def e load_route_def map_of_hm_insert u select_one_sort find_eq_select
        list_routes_def split: option.split)
  show "map_of (sn_route_targets (reload db)) i
      = map_option (\<lambda>_. route_targets i db) (select_one rt_id i (db_routes db))"
    using fold_lookup [where look = "\<lambda>s. map_of (sn_route_targets s)" and I = "\<lambda>_. True"
        and f = "load_route db" and P = "\<lambda>_. True" and key = rt_id
        and val = "\<lambda>r. route_targets (rt_id r) db" and xs = "list_routes db" and s = ?s and k = i]
    by (cases "select_one rt_id i (db_routes db)")
      (simp_all add: reload_def e load_route_def map_of_hm_insert u select_one_sort find_eq_select
        list_routes_def id_of)
qed

text \<open>What a resolved target promises.\<close>

definition target_sound :: "config_db \<Rightarrow> string \<Rightarrow> resolved_target \<Rightarrow> bool" where
  "target_sound db rid t \<longleftrightarrow>
     get_model (md_id (rs_model t)) db = Some (rs_model t) \<and> md_enabled (rs_model t) \<noteq> 0
     \<and> get_provider (md_provider_id (rs_model t)) db = Some (rs_provider t)
     \<and> pv_enabled (rs_provider t) \<noteq> 0
     \<and> get_account (ac_id (rs_account t)) db = Some (rs_account t)
     \<and> ac_provider_id (rs_account t) = md_provider_id (rs_model t)
     \<and> (ac_label (rs_account t) = NOAUTH_LABEL \<longleftrightarrow> pv_credential_mode (rs_provider t) = ''none'')
     \<and> (\<exists>g \<in> set (route_targets rid db). rs_route_target_id t = Some (tg_id g)
           \<and> tg_model_id g = md_id (rs_model t) \<and> set_option (tg_account_id g) \<subseteq> {ac_id (rs_account t)})"

lemma target_accounts_sound:
  assumes "keyed_by ac_id (sn_accounts snap)" and "a \<in> set (target_accounts snap g m)"
  shows "map_of (sn_accounts snap) (ac_id a) = Some a" "ac_provider_id a = md_provider_id m"
    "set_option (tg_account_id g) \<subseteq> {ac_id a}"
proof -
  have "map_of (sn_accounts snap) (ac_id a) = Some a \<and> ac_provider_id a = md_provider_id m
      \<and> set_option (tg_account_id g) \<subseteq> {ac_id a}"
  proof (cases "tg_account_id g")
    case None
    then have "a \<in> set (hm_values (sn_accounts snap))" "ac_provider_id a = md_provider_id m"
      using assms(2) by (auto simp: target_accounts_def)
    then show ?thesis using None keyed_by_lookup [OF assms(1)] by auto
  next
    case (Some aid)
    then have "map_of (sn_accounts snap) aid = Some a" "ac_provider_id a = md_provider_id m"
      using assms(2) by (auto simp: target_accounts_def opt_filter_def split: option.splits if_splits)
    then show ?thesis using Some keyed_by_lookup [OF assms(1)] by auto
  qed
  then show "map_of (sn_accounts snap) (ac_id a) = Some a" "ac_provider_id a = md_provider_id m"
    "set_option (tg_account_id g) \<subseteq> {ac_id a}" by auto
qed

lemma expand_target_sound:
  assumes ok: "db_ok db" and g: "g \<in> set (route_targets rid db)"
    and t: "t \<in> set (expand_target cd (reload db) g)"
  shows "target_sound db rid t"
proof -
  let ?s = "reload db"
  note expand = expand_target_def reload_models(1) [OF ok]
  obtain m where m: "get_model (tg_model_id g) db = Some m" "md_enabled m \<noteq> 0"
    using t by (cases "get_model (tg_model_id g) db") (auto simp: expand split: if_splits)
  obtain p where p: "map_of (sn_providers ?s) (md_provider_id m) = Some p"
    using t m by (cases "map_of (sn_providers ?s) (md_provider_id m)") (auto simp: expand)
  obtain a where a: "a \<in> set (target_accounts ?s g m)"
    and eq: "rs_account t = a" "rs_model t = m" "rs_provider t = p" "rs_route_target_id t = Some (tg_id g)"
    using t m p by (auto simp: expand)
  have p': "get_provider (md_provider_id m) db = Some p" "pv_enabled p \<noteq> 0"
    using p by (auto simp: reload_providers [OF ok] opt_filter_def split: option.splits if_splits)
  have "keyed_by ac_id (sn_accounts ?s)"
    using reload_snapshot_ok [of db] by (simp add: snapshot_ok_def)
  note a' = target_accounts_sound [OF this a]
  then have "get_account (ac_id a) db = Some a" "account_allowed ?s a"
    by (auto simp: reload_accounts [OF ok] opt_filter_def split: option.splits if_splits)
  moreover have "tg_model_id g = md_id m"
    using m(1) by (auto simp: get_model_def select_one_def find_Some_iff)
  ultimately show ?thesis
    using m p p' a' g eq
    by (auto simp: target_sound_def account_allowed_def is_some_and_def split: if_splits)
qed

lemma build_route_sound:
  assumes ok: "db_ok db" and "build_route cd (reload db) rid = Some res"
  shows "\<exists>r ts. res = Route r ts \<and> rt_id r = rid \<and> r \<in> set (db_routes db) \<and> rt_enabled r \<noteq> 0 \<and> ts \<noteq> []
    \<and> (\<forall>t \<in> set ts. target_sound db rid t)"
proof -
  let ?ts = "concat (map (expand_target cd (reload db)) (route_targets rid db))"
  obtain r where r: "select_one rt_id rid (db_routes db) = Some r" "rt_enabled r \<noteq> 0"
    using assms(2) by (auto simp: build_route_def reload_routes [OF ok] split: option.splits if_splits)
  then have "(if ?ts = [] then None else Some (Route r ?ts)) = Some res"
    using assms(2) unfolding build_route_def reload_routes [OF ok]
    by (simp only: option.simps unwrap_or_def Let_def if_False)
  then have ts: "res = Route r ?ts" "?ts \<noteq> []"
    by (cases "?ts = []"; simp del: concat_eq_Nil_conv)+
  have "unique_by rt_id (db_routes db)" using ok by (simp add: db_ok_def)
  with r have "r \<in> set (db_routes db)" "rt_id r = rid" by (simp_all add: select_one_unique)
  then show ?thesis
    using r(2) ts expand_target_sound [OF ok] by (auto simp del: concat_eq_Nil_conv)
qed

text \<open>Two snapshots with the same entries in different iteration orders.\<close>

definition same_entries :: "snapshot \<Rightarrow> snapshot \<Rightarrow> bool" where
  "same_entries s s' \<longleftrightarrow>
     mset (sn_providers s) = mset (sn_providers s') \<and> mset (sn_accounts s) = mset (sn_accounts s')
     \<and> mset (sn_models s) = mset (sn_models s')
     \<and> mset (sn_model_by_upstream s) = mset (sn_model_by_upstream s')
     \<and> mset (sn_aliases s) = mset (sn_aliases s') \<and> mset (sn_routes s) = mset (sn_routes s')
     \<and> map_of (sn_route_targets s) = map_of (sn_route_targets s')"

fun same_outcome :: "resolved option \<Rightarrow> resolved option \<Rightarrow> bool" where
  "same_outcome (Some (Route r ts)) (Some (Route r' ts')) = (r = r' \<and> mset ts = mset ts')"
| "same_outcome x y = (x = y)"

definition unambiguous :: "('a \<Rightarrow> bool) \<Rightarrow> 'a list \<Rightarrow> bool" where
  "unambiguous P xs \<longleftrightarrow> (\<forall>x \<in> set xs. \<forall>y \<in> set xs. P x \<longrightarrow> P y \<longrightarrow> x = y)"

lemma same_outcome_refl [simp]: "same_outcome x x"
  by (cases "(x, x)" rule: same_outcome.cases) auto

lemma same_outcome_None [simp]: "same_outcome x None = (x = None)" "same_outcome None x = (x = None)"
  by (cases x; auto)+

lemma same_outcome_or:
  assumes "same_outcome x x'" and "same_outcome y y'"
  shows "same_outcome (opt_or x y) (opt_or x' y')"
proof (cases x)
  case None
  with assms show ?thesis by (simp add: opt_or_def)
next
  case (Some v)
  with assms(1) obtain v' where "x' = Some v'" by (cases x') auto
  with Some assms(1) show ?thesis by (simp add: opt_or_def)
qed

lemma map_of_permuted:
  assumes "mset m = mset m'" and "distinct (map fst m)"
  shows "map_of m = map_of m'"
proof -
  have "distinct (map fst m')" using assms by (metis mset_map mset_eq_imp_distinct_iff)
  moreover have "set m = set m'" using assms(1) by (rule mset_eq_setD)
  ultimately show ?thesis using assms(2) by (simp only: map_of_inject_set)
qed

lemma find_permuted:
  assumes "set xs = set ys" and "unambiguous P xs"
  shows "find P xs = find P ys"
proof (cases "find P xs")
  case None
  then show ?thesis using assms(1) by (metis find_None_iff)
next
  case (Some x)
  then have x: "x \<in> set ys" "P x" using assms(1) by (auto simp: find_Some_iff)
  then obtain y where y: "find P ys = Some y" by (cases "find P ys") (auto simp: find_None_iff)
  then have "y \<in> set xs" "P y" using assms(1) by (auto simp: find_Some_iff)
  then have "x = y" using assms x unfolding unambiguous_def by metis
  with Some y show ?thesis by simp
qed

lemma mset_concat_cong:
  "(\<And>x. mset (f x) = mset (g x)) \<Longrightarrow> mset (concat (map f xs)) = mset (concat (map g xs))"
  by (induction xs) simp_all

lemma build_route_permuted:
  assumes ok: "snapshot_ok s" and same: "same_entries s s'"
  shows "same_outcome (build_route cd s rid) (build_route cd s' rid)"
proof -
  have look: "map_of (sn_models s') = map_of (sn_models s)" "map_of (sn_providers s') = map_of (sn_providers s)"
    "map_of (sn_accounts s') = map_of (sn_accounts s)" "map_of (sn_routes s') = map_of (sn_routes s)"
    "map_of (sn_route_targets s') = map_of (sn_route_targets s)"
    using ok same unfolding snapshot_ok_def same_entries_def keyed_by_def
    by (simp_all add: map_of_permuted)
  have "mset (hm_values (sn_accounts s)) = mset (hm_values (sn_accounts s'))"
    using same by (simp add: same_entries_def)
  then have "mset (target_accounts s t m) = mset (target_accounts s' t m)" for t m
    by (simp add: target_accounts_def look mset_filter split: option.split)
  then have "mset (expand_target cd s t) = mset (expand_target cd s' t)" for t
    by (simp add: expand_target_def look split: option.split)
  then have m: "mset (concat (map (expand_target cd s) ts)) = mset (concat (map (expand_target cd s') ts))" for ts
    by (rule mset_concat_cong)
  then have n: "concat (map (expand_target cd s) ts) = [] \<longleftrightarrow> concat (map (expand_target cd s') ts) = []" for ts
    by (metis mset_zero_iff)
  show ?thesis
    using m n by (simp add: build_route_def look Let_def split: option.split del: concat_eq_Nil_conv)
qed

section \<open>Properties\<close>

text \<open>
  C18. Resolution is sound against the stored configuration: in a snapshot loaded from a reachable
  database, whatever the iteration orders of its hash maps, a name resolves only to an enabled model, or to an enabled
  route with at least one target; every target combines an enabled model, its own enabled provider and an account of that
  provider that fits its credential mode, and a pinned target uses the pinned account.
\<close>

theorem resolve_sound:
  assumes "reachable_db cd db" and "same_entries (reload db) snap" and "resolve_in cd snap name = Some res"
  shows "case res of
      Single pid mid \<Rightarrow> \<exists>m. get_model mid db = Some m \<and> md_enabled m \<noteq> 0 \<and> md_provider_id m = pid
    | Route r ts \<Rightarrow> r \<in> set (db_routes db) \<and> rt_enabled r \<noteq> 0 \<and> ts \<noteq> []
        \<and> (\<forall>t \<in> set ts. target_sound db (rt_id r) t)"
proof -
  have ok: "db_ok db" using assms(1) by (rule reachable_db_ok)
  have models: "map_of (sn_models snap) = map_of (sn_models (reload db))"
    using reload_snapshot_ok [of db] assms(2) unfolding snapshot_ok_def same_entries_def keyed_by_def
    by (simp add: map_of_permuted)
  have route: "?thesis" if b: "build_route cd snap rid = Some res" for rid
  proof -
    have same: "same_outcome (build_route cd (reload db) rid) (Some res)"
      using build_route_permuted [OF reload_snapshot_ok assms(2), of cd rid] b by simp
    then obtain res0 where b0: "build_route cd (reload db) rid = Some res0" by (cases "build_route cd (reload db) rid") auto
    then obtain r ts where r: "res0 = Route r ts" "rt_id r = rid" "r \<in> set (db_routes db)" "rt_enabled r \<noteq> 0" "ts \<noteq> []"
        "\<forall>t \<in> set ts. target_sound db rid t"
      using build_route_sound [OF ok] by blast
    then obtain ts' where ts': "res = Route r ts'" "mset ts = mset ts'" using same b0 by (cases res) auto
    then have "set ts = set ts'" "ts' \<noteq> []" using r(5) by (auto dest: mset_eq_setD)
    then show ?thesis using r ts'(1) by simp
  qed
  have single: "?thesis" if i: "map_option single_of (opt_filter (\<lambda>m. md_enabled m \<noteq> 0) (map_of (sn_models snap) i)) = Some res" for i
  proof -
    obtain m where m: "get_model i db = Some m" "md_enabled m \<noteq> 0" "res = single_of m"
      using i by (auto simp: models reload_models(1) [OF ok] opt_filter_def split: option.splits if_splits)
    then have "md_id m = i" by (auto simp: get_model_def select_one_def find_Some_iff)
    with m show ?thesis by (simp add: single_of_def)
  qed
  have bare: "?thesis" if b: "resolve_bare snap name = Some res"
  proof -
    obtain m where m: "m \<in> set (hm_values (sn_models snap))" "md_enabled m \<noteq> 0" "res = single_of m"
      using b by (auto simp: resolve_bare_def dest!: find_SomeD)
    have "set (sn_models snap) = set (sn_models (reload db))"
      using assms(2) mset_eq_setD unfolding same_entries_def by metis
    then have "m \<in> set (hm_values (sn_models (reload db)))" using m(1) by simp
    moreover have "keyed_by md_id (sn_models (reload db))"
      using reload_snapshot_ok [of db] by (simp add: snapshot_ok_def)
    ultimately have "map_of (sn_models (reload db)) (md_id m) = Some m" by (simp add: keyed_by_lookup)
    then have "get_model (md_id m) db = Some m" by (simp add: reload_models(1) [OF ok])
    with m show ?thesis by (simp add: single_of_def)
  qed
  consider "resolve_alias cd snap name = Some res" | "resolve_route_name cd snap name = Some res"
    | "resolve_provider_model snap name = Some res" | "resolve_bare snap name = Some res"
    using assms(3) by (auto simp: resolve_in_def opt_or_def split: option.splits)
  then show ?thesis
  proof cases
    case 1
    then show ?thesis using route single by (auto simp: resolve_alias_def split: option.splits if_splits)
  next
    case 2
    then show ?thesis using route by (auto simp: resolve_route_name_def split: option.splits)
  next
    case 3
    then show ?thesis using single by (auto simp: resolve_provider_model_def split: option.splits)
  next
    case 4
    then show ?thesis by (rule bare)
  qed
qed

text \<open>A small configuration: one provider, one account, one model, one route with one target.\<close>

definition demo_provider :: "string \<Rightarrow> int \<Rightarrow> provider_row" where
  "demo_provider i en = \<lparr>pv_id = i, pv_name = i, pv_base_url = [], pv_wire_format = ''openai'',
     pv_auth_scheme = ''bearer'', pv_custom_header_name = None, pv_custom_param_name = None,
     pv_extra_headers = [], pv_timeout_ms = 1000, pv_capability_mode = ''permissive'',
     pv_models_path = None, pv_rate_limit_rules = [], pv_enabled = en, pv_follow_redirects = 0,
     pv_credential_hosts = [], pv_allow_insecure_tls = 0, pv_created_at = i, pv_wire_plugin = [],
     pv_credential_plugin = [], pv_model_source_plugin = [], pv_credential_mode = ''manual'',
     pv_source_plugin_id = None, pv_source_integration_id = None\<rparr>"

definition demo_model :: "string \<Rightarrow> string \<Rightarrow> int \<Rightarrow> model_row" where
  "demo_model i p en = \<lparr>md_id = i, md_provider_id = p, md_upstream_id = ''gpt'', md_display_name = i,
     md_enabled = en, md_context_window = None, md_max_output_tokens = None, md_capabilities = [],
     md_prices = [], md_parameters = [], md_thinking_map = [], md_extra_request = [],
     md_discovery = [], md_created_at = i, md_opaque_state_plugin = []\<rparr>"

definition demo_route :: route_row where
  "demo_route = \<lparr>rt_id = ''r1'', rt_name = ''fast'', rt_description = [], rt_strategy = ''priority'',
     rt_fallback_triggers = [], rt_continuity_policy = ''strip'', rt_portability_policy = ''reject'',
     rt_sticky_routing = 0, rt_cache_affinity = 0, rt_max_attempts = None, rt_enabled = 1,
     rt_created_at = []\<rparr>"

definition demo_target :: route_target_row where
  "demo_target = \<lparr>tg_id = ''t1'', tg_route_id = ''r1'', tg_account_id = None, tg_model_id = ''m1'',
     tg_priority = 1, tg_weight = 1, tg_param_overrides = [], tg_predicate = []\<rparr>"

lemmas demo_defs = demo_provider_def demo_model_def demo_route_def demo_target_def

theorem resolve_sound_witness:
  "\<exists>cd db. reachable_db cd db
     \<and> resolve_in cd (reload db) ''gpt'' = Some (Single ''p1'' ''model_1'')
     \<and> (\<exists>m. get_model ''model_1'' db = Some m \<and> md_enabled m \<noteq> 0)"
proof -
  obtain cd :: codec where True by blast
  define np :: new_provider where "np = \<lparr>np_name = ''p1'', np_base_url = [], np_wire_format = Openai,
    np_auth_scheme = Bearer, np_custom_header_name = None, np_custom_param_name = None,
    np_extra_headers = JNull, np_timeout_ms = 1, np_capability_mode = [], np_models_path = None,
    np_rate_limit_rules = JNull, np_follow_redirects = False, np_credential_hosts = [],
    np_allow_insecure_tls = False, np_wire_plugin = [], np_credential_plugin = [],
    np_model_source_plugin = [], np_credential_mode = ''manual'', np_source_plugin_id = None,
    np_source_integration_id = None\<rparr>"
  define nm :: new_model where "nm = \<lparr>nm_provider_id = ''p1'', nm_upstream_id = ''gpt'',
    nm_display_name = [], nm_enabled = True, nm_context_window = None, nm_max_output_tokens = None,
    nm_capabilities = JNull, nm_prices = JNull, nm_parameters = JNull, nm_thinking_map = JNull,
    nm_extra_request = JNull, nm_discovery = JNull\<rparr>"
  obtain db1 where i1: "insert_provider cd ''p1'' [] np empty_db = Inr db1"
    and d1: "map pv_id (db_providers db1) = [''p1'']" "db_accounts db1 = []" "db_models db1 = []"
      "db_aliases db1 = []" "db_routes db1 = []"
    by (simp add: insert_provider_def empty_db_def)
  obtain m where i2: "insert_model cd ''model_1'' [] nm db1 = Inr (db1\<lparr>db_models := [m]\<rparr>)"
    and m: "md_id m = ''model_1''" "md_provider_id m = ''p1''" "md_upstream_id m = ''gpt''" "md_enabled m = 1"
    using d1 by (simp add: insert_model_def nm_def bool_int_def image_set)
  let ?db = "db1\<lparr>db_models := [m]\<rparr>"
  have "reachable_db cd db1" by (rule reachable_db.step [OF reachable_db.start db_step.ins_provider [OF i1]])
  then have r: "reachable_db cd ?db" by (rule reachable_db.step [OF _ db_step.ins_model [OF i2]])
  have ok: "db_ok ?db" using r by (rule reachable_db_ok)
  have "sn_models (reload ?db) = [(''model_1'', m)]"
    unfolding reload_def
    by (simp add: list_routes_def list_aliases_def list_models_def list_accounts_def d1)
      (simp add: load_model_def fold_keeps [where g = sn_models] load_provider_def snapshot_default_def m)
  moreover have "sn_routes (reload ?db) = []" "sn_aliases (reload ?db) = []"
    unfolding reload_def
    by (simp_all add: list_routes_def list_aliases_def list_models_def list_accounts_def d1)
      (simp_all add: load_model_def fold_keeps [where g = sn_routes] fold_keeps [where g = sn_aliases]
        load_provider_def snapshot_default_def)
  ultimately have res: "resolve_in cd (reload ?db) ''gpt'' = Some (Single ''p1'' ''model_1'')"
    by (simp add: resolve_in_def resolve_alias_def resolve_route_name_def resolve_provider_model_def
        resolve_bare_def single_of_def opt_or_def m)
  have "same_entries (reload ?db) (reload ?db)" by (simp add: same_entries_def)
  then show ?thesis using resolve_sound [OF r _ res] r res by auto
qed

text \<open>
  C27. Loading is a faithful view of the tables: looking an identifier up in the loaded snapshot
  finds exactly the stored model, alias or route (with its targets), the stored provider if it is
  enabled, and the stored account if its provider is enabled and its kind fits the provider's
  credential mode.
\<close>

theorem reload_refines_store:
  assumes "reachable_db cd db"
  shows "map_of (sn_models (reload db)) i = get_model i db
    \<and> map_of (sn_aliases (reload db)) al = get_alias al db
    \<and> map_of (sn_routes (reload db)) rid = select_one rt_id rid (db_routes db)
    \<and> map_of (sn_route_targets (reload db)) rid
        = map_option (\<lambda>_. route_targets rid db) (select_one rt_id rid (db_routes db))
    \<and> map_of (sn_providers (reload db)) p = opt_filter (\<lambda>r. pv_enabled r \<noteq> 0) (get_provider p db)
    \<and> map_of (sn_accounts (reload db)) a = opt_filter (account_allowed (reload db)) (get_account a db)
    \<and> map_of (sn_model_by_upstream (reload db)) (p, u) = map_option md_id (find_model_by_upstream p u db)"
  using reachable_db_ok [OF assms]
  by (simp add: reload_models reload_aliases reload_routes reload_providers reload_accounts)

theorem reload_refines_store_witness:
  "\<exists>cd db. reachable_db cd db
     \<and> map_of (sn_routes (reload db)) ''route_1'' = select_one rt_id ''route_1'' (db_routes db)
     \<and> select_one rt_id ''route_1'' (db_routes db) \<noteq> None"
proof -
  obtain cd :: codec where True by blast
  obtain db where ins: "insert_route cd ''route_1'' ''now'' sample_route empty_db = Inr db"
    and one: "select_one rt_id ''route_1'' (db_routes db) \<noteq> None"
    by (simp add: insert_route_def empty_db_def select_one_def)
  have r: "reachable_db cd db"
    by (rule reachable_db.step [OF reachable_db.start db_step.ins_route [OF ins]])
  show ?thesis using reload_refines_store [OF r] r one by blast
qed

text \<open>
  Resolution does not depend on hash-map iteration order as long as the requested name is not
  ambiguous: for two snapshots with the same entries, both find nothing, or the same model, or the
  same route with the same targets up to order.
\<close>

theorem resolve_order_independent:
  assumes "snapshot_ok s" and "same_entries s s'"
    and "unambiguous (\<lambda>r. rt_name r = name) (hm_values (sn_routes s))"
    and "\<And>q. unambiguous (\<lambda>p. pv_name p = q \<or> pv_id p = q) (hm_values (sn_providers s))"
    and "unambiguous (\<lambda>m. md_upstream_id m = name \<and> md_enabled m \<noteq> 0) (hm_values (sn_models s))"
  shows "same_outcome (resolve_in cd s name) (resolve_in cd s' name)"
proof -
  have look: "map_of (sn_models s') = map_of (sn_models s)" "map_of (sn_aliases s') = map_of (sn_aliases s)"
    "map_of (sn_model_by_upstream s') = map_of (sn_model_by_upstream s)"
    using assms(1,2) unfolding snapshot_ok_def same_entries_def keyed_by_def
    by (simp_all add: map_of_permuted)
  have vals: "set (hm_values (sn_routes s)) = set (hm_values (sn_routes s'))"
    "set (hm_values (sn_providers s)) = set (hm_values (sn_providers s'))"
    "set (hm_values (sn_models s)) = set (hm_values (sn_models s'))"
    using assms(2) unfolding same_entries_def by (metis set_map mset_eq_setD)+
  note br = build_route_permuted [OF assms(1,2)]
  have "same_outcome (resolve_alias cd s name) (resolve_alias cd s' name)"
    using br by (simp add: resolve_alias_def look split: option.split)
  moreover have "same_outcome (resolve_route_name cd s name) (resolve_route_name cd s' name)"
    using br by (simp add: resolve_route_name_def find_permuted [OF vals(1) assms(3)] split: option.split)
  moreover have "resolve_provider_model s name = resolve_provider_model s' name"
    by (simp add: resolve_provider_model_def look find_permuted [OF vals(2) assms(4)]
        split: option.split prod.split)
  moreover have "resolve_bare s name = resolve_bare s' name"
    by (simp add: resolve_bare_def find_permuted [OF vals(3) assms(5)])
  ultimately show ?thesis
    unfolding resolve_in_def by (intro same_outcome_or) simp_all
qed

theorem resolve_order_independent_witness:
  "\<forall>cd. same_outcome
     (resolve_in cd (snapshot_default\<lparr>sn_models :=
        [(''a'', demo_model ''a'' ''p1'' 1), (''b'', demo_model ''b'' ''p2'' 0)]\<rparr>) ''gpt'')
     (resolve_in cd (snapshot_default\<lparr>sn_models :=
        [(''b'', demo_model ''b'' ''p2'' 0), (''a'', demo_model ''a'' ''p1'' 1)]\<rparr>) ''gpt'')"
  by (intro allI resolve_order_independent)
    (simp_all add: snapshot_ok_def same_entries_def snapshot_default_def keyed_by_def unambiguous_def demo_defs)

text \<open>
  A bare model id may resolve to a model of a disabled provider although an enabled provider
  serves the same id: the lookup checks the model's flag but not that its provider is loaded.
\<close>

theorem bare_id_of_disabled_provider:
  "\<exists>db. db_ok db \<and> resolve_in cd (reload db) ''gpt'' = Some (Single ''p1'' ''m1'')
     \<and> map_of (sn_providers (reload db)) ''p1'' = None
     \<and> (\<exists>p m. map_of (sn_providers (reload db)) ''p2'' = Some p \<and> get_model ''m2'' db = Some m
           \<and> md_provider_id m = ''p2'' \<and> md_upstream_id m = ''gpt'' \<and> md_enabled m = 1)"
proof -
  let ?db = "empty_db\<lparr>db_providers := [demo_provider ''p1'' 0, demo_provider ''p2'' 1],
    db_models := [demo_model ''m1'' ''p1'' 1, demo_model ''m2'' ''p2'' 1]\<rparr>"
  have ok: "db_ok ?db"
    by (simp add: db_ok_def empty_db_def unique_by_def refs_def demo_defs)
  have "sn_models (reload ?db) = [(''m1'', demo_model ''m1'' ''p1'' 1), (''m2'', demo_model ''m2'' ''p2'' 1)]"
    "sn_routes (reload ?db) = []" "sn_aliases (reload ?db) = []"
    by (simp_all add: reload_def empty_db_def list_routes_def list_aliases_def list_models_def
        list_accounts_def list_providers_def load_defs demo_defs snapshot_default_def)
  then have "resolve_in cd (reload ?db) ''gpt'' = Some (Single ''p1'' ''m1'')"
    by (simp add: resolve_in_def resolve_alias_def resolve_route_name_def resolve_provider_model_def
        resolve_bare_def single_of_def opt_or_def) (simp add: demo_defs)
  then show ?thesis
    using ok by (intro exI [of _ ?db])
      (simp add: reload_providers get_provider_def get_model_def select_one_def empty_db_def
        opt_filter_def demo_defs)
qed

text \<open>
  The startup diagnostic misses routes that cannot serve: an enabled route whose only target
  names a disabled model is not reported as having no targets, yet it never resolves.
\<close>

theorem no_targets_diagnostic_incomplete:
  "\<exists>snap. map_of (sn_routes snap) ''r1'' = Some demo_route \<and> rt_enabled demo_route \<noteq> 0
     \<and> build_route cd snap ''r1'' = None \<and> routes_with_no_targets snap = []"
  by (intro exI [of _ "snapshot_default\<lparr>sn_models := [(''m1'', demo_model ''m1'' ''p1'' 0)],
       sn_routes := [(''r1'', demo_route)], sn_route_targets := [(''r1'', [demo_target])]\<rparr>"])
    (simp add: build_route_def routes_with_no_targets_def expand_target_def unwrap_or_def demo_defs Let_def)

end
