(* ===== verification/Admission.thy ===== *)
theory Admission
  imports Cost Registry
begin

text \<open>
  Per-key request, token and budget admission (\<^verbatim>\<open>src/src/admission.rs\<close>): the ledger of a key with
  its minute window, its outstanding reservations and its daily and monthly spend; the operations
  that reserve, reconcile and cancel; the conservative estimate of a request. Each ledger
  operation runs under the key's lock, so it is one step.

  A wall-clock reading carries the calendar day and month that \<^verbatim>\<open>chrono\<close> gives for it. The
  monotonic clock is a separate argument. Rows read from the database when a ledger is first used
  are arguments of the seeding step.
\<close>

section \<open>Definitions\<close>

definition MINUTE_WINDOW :: nanos where [const_defs]: "MINUTE_WINDOW = secs 60"
definition DEFAULT_OUTPUT_RESERVATION :: nat where [const_defs]: "DEFAULT_OUTPUT_RESERVATION = 8192"

type_synonym month = "int \<times> nat"

record wall_clock =
  wc_stamp :: nanos
  wc_day :: int
  wc_month :: month

record minute_use =
  mu_at :: nanos
  mu_tokens :: nat

record active_reservation =
  ar_at :: nanos
  ar_tokens :: nat
  ar_cost :: "f64 option"
  ar_day :: int
  ar_month :: month

record key_ledger =
  kl_minute :: "minute_use list"
  kl_active :: "(nat, active_reservation) hash_map"
  kl_daily_day :: "int option"
  kl_daily_spend :: f64
  kl_monthly_key :: "month option"
  kl_monthly_spend :: f64

definition ledger_default :: key_ledger where
  "ledger_default = \<lparr>kl_minute = [], kl_active = [], kl_daily_day = None, kl_daily_spend = 0,
     kl_monthly_key = None, kl_monthly_spend = 0\<rparr>"

record admission_estimate =
  ae_tokens :: nat
  ae_cost :: "f64 option"

definition roll_periods :: "wall_clock \<Rightarrow> key_ledger \<Rightarrow> key_ledger" where
  "roll_periods w l0 =
     (let l = (if kl_daily_day l0 \<noteq> Some (wc_day w)
               then l0\<lparr>kl_daily_day := Some (wc_day w), kl_daily_spend := 0\<rparr> else l0)
      in if kl_monthly_key l \<noteq> Some (wc_month w)
         then l\<lparr>kl_monthly_key := Some (wc_month w), kl_monthly_spend := 0\<rparr> else l)"

definition prune :: "nanos \<Rightarrow> key_ledger \<Rightarrow> key_ledger" where
  "prune now l = l\<lparr>kl_minute := dropWhile (\<lambda>e. sat_since now (mu_at e) \<ge> MINUTE_WINDOW) (kl_minute l)\<rparr>"

text \<open>One iteration of the loop over the active reservations.\<close>

definition count_active ::
  "wall_clock \<Rightarrow> nanos \<Rightarrow> active_reservation \<Rightarrow> nat \<times> nat \<times> f64 \<times> f64 \<Rightarrow> nat \<times> nat \<times> f64 \<times> f64" where
  "count_active w now a acc =
     (case acc of (requests, tokens, daily, monthly) \<Rightarrow>
        let recent = (sat_since now (ar_at a) < MINUTE_WINDOW);
            requests' = (if recent then sat_add64 requests 1 else requests);
            tokens' = (if recent then sat_add64 tokens (ar_tokens a) else tokens)
        in case ar_cost a of
             None \<Rightarrow> (requests', tokens', daily, monthly)
           | Some cost \<Rightarrow>
               (requests', tokens', if ar_day a = wc_day w then daily + cost else daily,
                if ar_month a = wc_month w then monthly + cost else monthly))"

definition current_usage ::
  "wall_clock \<Rightarrow> nanos \<Rightarrow> key_ledger \<Rightarrow> key_ledger \<times> (nat \<times> nat \<times> f64 \<times> f64)" where
  "current_usage w now l0 =
     (let l = prune now (roll_periods w l0)
      in (l, fold (count_active w now) (hm_values (kl_active l))
               (length (kl_minute l), wrap_sum64 (map mu_tokens (kl_minute l)),
                kl_daily_spend l, kl_monthly_spend l)))"

text \<open>The four limits of a key, read with the filter that ignores values that are not positive.\<close>

definition rpm_of :: "virtual_key_row \<Rightarrow> nat option" where
  "rpm_of k = map_option nat (opt_filter (\<lambda>v. v > 0) (vk_rpm_limit k))"

definition tpm_of :: "virtual_key_row \<Rightarrow> nat option" where
  "tpm_of k = map_option nat (opt_filter (\<lambda>v. v > 0) (vk_tpm_limit k))"

definition daily_of :: "virtual_key_row \<Rightarrow> f64 option" where
  "daily_of k = opt_filter (\<lambda>v. v > 0) (vk_daily_budget k)"

definition monthly_of :: "virtual_key_row \<Rightarrow> f64 option" where
  "monthly_of k = opt_filter (\<lambda>v. v > 0) (vk_monthly_budget k)"

definition rpm_error :: "nat \<Rightarrow> proxy_error" where
  "rpm_error rpm =
     pe_rate_limited (''rate limit exceeded: '' @ show_nat rpm @ '' requests per minute'') (Some 60)"

definition check_current_ledger ::
  "virtual_key_row \<Rightarrow> wall_clock \<Rightarrow> nanos \<Rightarrow> key_ledger \<Rightarrow> key_ledger \<times> (proxy_error + unit)" where
  "check_current_ledger key w now l0 =
     (case current_usage w now l0 of (l, requests, tokens, daily, monthly) \<Rightarrow>
        (l,
         if is_some_and (\<lambda>rpm. requests \<ge> rpm) (rpm_of key)
         then Inl (rpm_error (the (rpm_of key)))
         else if is_some_and (\<lambda>tpm. tokens \<ge> tpm) (tpm_of key)
         then Inl (pe_rate_limited (''token rate limit exceeded: '' @ show_nat (the (tpm_of key))
                     @ '' tokens per minute'') (Some 60))
         else if is_some_and (\<lambda>limit. daily \<ge> limit) (daily_of key)
         then Inl (pe_budget_exceeded (''daily budget exceeded (USD '' @ format_usd daily @ '' of USD ''
                     @ format_usd (the (daily_of key)) @ ''); resets at 00:00 UTC''))
         else if is_some_and (\<lambda>limit. monthly \<ge> limit) (monthly_of key)
         then Inl (pe_budget_exceeded (''monthly budget exceeded (USD '' @ format_usd monthly
                     @ '' of USD '' @ format_usd (the (monthly_of key)) @ ''); resets on the 1st''))
         else Inr ()))"

definition would_exceed :: "f64 \<Rightarrow> f64 option \<Rightarrow> f64 option \<Rightarrow> bool" where
  "would_exceed spent cost limit = is_some_and (\<lambda>c. is_some_and (\<lambda>m. spent + c > m) limit) cost"

definition reserve_ledger ::
  "nat \<Rightarrow> virtual_key_row \<Rightarrow> admission_estimate \<Rightarrow> wall_clock \<Rightarrow> nanos \<Rightarrow> key_ledger
     \<Rightarrow> key_ledger \<times> (proxy_error + unit)" where
  "reserve_ledger i key est w now l0 =
     (case current_usage w now l0 of (l, requests, tokens, daily, monthly) \<Rightarrow>
        if is_some_and (\<lambda>rpm. sat_add64 requests 1 > rpm) (rpm_of key)
        then (l, Inl (rpm_error (the (rpm_of key))))
        else if is_some_and (\<lambda>tpm. sat_add64 tokens (ae_tokens est) > tpm) (tpm_of key)
        then (l, Inl (pe_rate_limited (''token rate limit exceeded: reserving ''
                   @ show_nat (ae_tokens est) @ '' tokens would exceed '' @ show_nat (the (tpm_of key))
                   @ '' tokens per minute'') (Some 60)))
        else if would_exceed daily (ae_cost est) (daily_of key)
        then (l, Inl (pe_budget_exceeded (''daily budget would be exceeded (USD '' @ format_usd daily
                   @ '' reserved/spent + USD '' @ format_usd (the (ae_cost est)) @ '' request > USD ''
                   @ format_usd (the (daily_of key)) @ ''); resets at 00:00 UTC'')))
        else if would_exceed monthly (ae_cost est) (monthly_of key)
        then (l, Inl (pe_budget_exceeded (''monthly budget would be exceeded (USD '' @ format_usd monthly
                   @ '' reserved/spent + USD '' @ format_usd (the (ae_cost est)) @ '' request > USD ''
                   @ format_usd (the (monthly_of key)) @ ''); resets on the 1st'')))
        else (l\<lparr>kl_active := hm_insert i
                  \<lparr>ar_at = now, ar_tokens = ae_tokens est, ar_cost = ae_cost est,
                   ar_day = wc_day w, ar_month = wc_month w\<rparr> (kl_active l)\<rparr>, Inr ()))"

definition settle :: "nanos \<Rightarrow> nat option \<Rightarrow> f64 option \<Rightarrow> active_reservation \<Rightarrow> key_ledger \<Rightarrow> key_ledger" where
  "settle now actual_tokens actual_cost a l0 =
     (let l = (if sat_since now (ar_at a) < MINUTE_WINDOW
               then l0\<lparr>kl_minute := kl_minute l0 @
                      [\<lparr>mu_at = ar_at a, mu_tokens = unwrap_or actual_tokens (ar_tokens a)\<rparr>]\<rparr>
               else l0)
      in case opt_or actual_cost (ar_cost a) of
           None \<Rightarrow> l
         | Some cost \<Rightarrow>
             let l' = (if kl_daily_day l = Some (ar_day a)
                       then l\<lparr>kl_daily_spend := kl_daily_spend l + cost\<rparr> else l)
             in if kl_monthly_key l' = Some (ar_month a)
                then l'\<lparr>kl_monthly_spend := kl_monthly_spend l' + cost\<rparr> else l')"

definition reconcile_ledger ::
  "nat \<Rightarrow> nat option \<Rightarrow> f64 option \<Rightarrow> wall_clock \<Rightarrow> nanos \<Rightarrow> key_ledger \<Rightarrow> key_ledger" where
  "reconcile_ledger i actual_tokens actual_cost w now l0 =
     (let l = prune now (roll_periods w l0)
      in case map_of (kl_active l) i of
           None \<Rightarrow> l
         | Some a \<Rightarrow>
             settle now actual_tokens actual_cost a (l\<lparr>kl_active := hm_remove i (kl_active l)\<rparr>))"

definition cancel_ledger :: "nat \<Rightarrow> key_ledger \<Rightarrow> key_ledger" where
  "cancel_ledger i l = l\<lparr>kl_active := hm_remove i (kl_active l)\<rparr>"

text \<open>\<^verbatim>\<open>AdmissionReservation::reconcile\<close>: the usage counts only when both sides are known.\<close>

definition reconcile_reservation ::
  "nat \<Rightarrow> token_usage \<Rightarrow> f64 option \<Rightarrow> wall_clock \<Rightarrow> nanos \<Rightarrow> key_ledger \<Rightarrow> key_ledger" where
  "reconcile_reservation i usage actual_cost w now l =
     (let actual_tokens = (case (tu_input usage, tu_output usage) of
                             (Some a, Some b) \<Rightarrow> Some (sat_add64 a b) | _ \<Rightarrow> None);
          cost = (if actual_tokens = None then None else actual_cost)
      in reconcile_ledger i actual_tokens cost w now l)"

text \<open>Seeding a key's ledger on first use. A listing is \<open>None\<close> when its query failed.\<close>

definition seed_entry :: "codec \<Rightarrow> wall_clock \<Rightarrow> nanos \<Rightarrow> string \<times> int \<Rightarrow> minute_use list" where
  "seed_entry cd w now row =
     (case parse_dt cd (fst row) of
        None \<Rightarrow> []
      | Some t0 \<Rightarrow>
          let age = min (max 0 (wc_stamp w - t0)) MINUTE_WINDOW
          in [\<lparr>mu_at = now - age, mu_tokens = nat (max 0 (snd row))\<rparr>])"

definition seed_ledger ::
  "codec \<Rightarrow> wall_clock \<Rightarrow> nanos \<Rightarrow> (string \<times> int) list option \<Rightarrow> f64 option \<Rightarrow> f64 option
     \<Rightarrow> key_ledger \<Rightarrow> key_ledger" where
  "seed_ledger cd w now minute daily monthly l0 =
     (let l1 = roll_periods w l0;
          l2 = (case minute of
                  None \<Rightarrow> l1
                | Some rows \<Rightarrow> l1\<lparr>kl_minute := kl_minute l1 @ concat (map (seed_entry cd w now) rows)\<rparr>);
          l3 = (case daily of None \<Rightarrow> l2 | Some s \<Rightarrow> l2\<lparr>kl_daily_spend := max s 0\<rparr>);
          l4 = (case monthly of None \<Rightarrow> l3 | Some s \<Rightarrow> l3\<lparr>kl_monthly_spend := max s 0\<rparr>)
      in prune now l4)"

record key_admission =
  ka_initialized :: bool
  ka_ledger :: key_ledger

definition key_admission_default :: key_admission where
  "key_admission_default = \<lparr>ka_initialized = False, ka_ledger = ledger_default\<rparr>"

definition ensure_initialized ::
  "codec \<Rightarrow> wall_clock \<Rightarrow> nanos \<Rightarrow> (string \<times> int) list option \<Rightarrow> f64 option \<Rightarrow> f64 option
     \<Rightarrow> key_admission \<Rightarrow> key_admission" where
  "ensure_initialized cd w now minute daily monthly ka =
     (if ka_initialized ka then ka
      else \<lparr>ka_initialized = True, ka_ledger = seed_ledger cd w now minute daily monthly (ka_ledger ka)\<rparr>)"

section \<open>The estimate\<close>

definition estimated_input_tokens :: "codec \<Rightarrow> internal_request \<Rightarrow> nat" where
  "estimated_input_tokens cd req =
     (let tool_chars = sum_list (map (\<lambda>t. length (tool_name t)
              + length (unwrap_or (tool_description t) []) + length (ser_value cd (tool_parameters t)) + 32)
            (rq_tools req))
      in max (sat_add64 (approx_input_tokens req) (div_ceil tool_chars 4)) 1)"

definition output_reservation :: "internal_request \<Rightarrow> model_row \<Rightarrow> nat" where
  "output_reservation req m =
     (let model_max = map_option nat (opt_filter (\<lambda>v. v > 0) (md_max_output_tokens m))
      in case (sp_max_tokens (rq_params req), model_max) of
           (Some requested, Some maximum) \<Rightarrow> min requested maximum
         | (Some requested, None) \<Rightarrow> requested
         | (None, Some maximum) \<Rightarrow> maximum
         | (None, None) \<Rightarrow> DEFAULT_OUTPUT_RESERVATION)"

definition conservative_cost :: "prices \<Rightarrow> nat \<Rightarrow> nat \<Rightarrow> f64 option" where
  "conservative_cost p inp out =
     (if \<not> is_configured p then None
      else case base_price (input_per_1m p) (of_nat inp) of
             None \<Rightarrow> None
           | Some input_base \<Rightarrow>
               let input_rate = max (max input_base (unwrap_or (cached_per_1m p) input_base))
                                  (unwrap_or (cache_write_per_1m p) input_base)
               in case base_price (output_per_1m p) (of_nat out) of
                    None \<Rightarrow> None
                  | Some output_base \<Rightarrow>
                      let output_rate = max output_base (unwrap_or (thinking_per_1m p) output_base)
                      in Some ((of_nat inp * input_rate + of_nat out * output_rate) / 1000000))"

definition forbidden :: "string \<Rightarrow> proxy_error" where
  "forbidden msg = pe_new E_Forbidden msg"

definition provider_allowed :: "string list \<Rightarrow> string \<Rightarrow> bool" where
  "provider_allowed allowed p \<longleftrightarrow> allowed = [] \<or> p \<in> set allowed"

text \<open>The distinct models of a route, in target order.\<close>

fun first_by_id :: "string list \<Rightarrow> model_row list \<Rightarrow> model_row list" where
  "first_by_id seen [] = []"
| "first_by_id seen (m # ms) =
     (if md_id m \<in> set seen then first_by_id seen ms else m # first_by_id (md_id m # seen) ms)"

definition estimate_models ::
  "codec \<Rightarrow> snapshot \<Rightarrow> virtual_key_row \<Rightarrow> internal_request \<Rightarrow> proxy_error + model_row list" where
  "estimate_models cd snap key req =
     (let allowed = allowed_providers cd key
      in case resolve_in cd snap (requested_model req) of
           None \<Rightarrow> Inl (pe_not_found (''model '' @ quoted (requested_model req)
                     @ '' is not configured. Use GET /v1/models to list available models.''))
         | Some (Single provider_id model_id) \<Rightarrow>
             if \<not> provider_allowed allowed provider_id
             then Inl (forbidden ''this key is not allowed to use the resolved provider'')
             else Inr (case map_of (sn_models snap) model_id of None \<Rightarrow> [] | Some m \<Rightarrow> [m])
         | Some (Route _ targets) \<Rightarrow>
             let ms = first_by_id [] (map rs_model
                        (filter (\<lambda>t. provider_allowed allowed (pv_id (rs_provider t))) targets))
             in if ms = []
                then Inl (forbidden ''this key is not allowed to use any provider in the resolved route'')
                else Inr ms)"

definition estimate_step ::
  "codec \<Rightarrow> internal_request \<Rightarrow> nat \<Rightarrow> model_row \<Rightarrow> nat \<times> f64 \<times> bool \<Rightarrow> nat \<times> f64 \<times> bool" where
  "estimate_step cd req inp m acc =
     (case acc of (tokens, max_cost, cost_known) \<Rightarrow>
        let out = output_reservation req m;
            tokens' = max tokens (sat_add64 inp out)
        in case conservative_cost (model_prices cd m) inp out of
             Some cost \<Rightarrow> (tokens', max max_cost cost, cost_known)
           | None \<Rightarrow> (tokens', max_cost, False))"

definition estimate_request ::
  "codec \<Rightarrow> snapshot \<Rightarrow> virtual_key_row \<Rightarrow> internal_request \<Rightarrow> proxy_error + admission_estimate" where
  "estimate_request cd snap key req =
     (case estimate_models cd snap key req of
        Inl e \<Rightarrow> Inl e
      | Inr models \<Rightarrow>
          let inp = estimated_input_tokens cd req
          in case fold (estimate_step cd req inp) models (0, 0, True) of
               (tokens, max_cost, cost_known) \<Rightarrow>
                 Inr \<lparr>ae_tokens = max tokens inp, ae_cost = (if cost_known then Some max_cost else None)\<rparr>)"

section \<open>The controller\<close>

record admission_controller =
  adm_keys :: "string \<rightharpoonup> key_admission"
  adm_next_id :: nat

definition on_ledger :: "(key_ledger \<Rightarrow> key_ledger \<times> 'r) \<Rightarrow> key_admission \<Rightarrow> key_admission \<times> 'r" where
  "on_ledger f ka = (case f (ka_ledger ka) of (l, r) \<Rightarrow> (ka\<lparr>ka_ledger := l\<rparr>, r))"

definition reserve_initialized ::
  "virtual_key_row \<Rightarrow> admission_estimate \<Rightarrow> wall_clock \<Rightarrow> nanos \<Rightarrow> admission_controller
     \<Rightarrow> admission_controller \<times> (proxy_error + nat)" where
  "reserve_initialized key est w now ctl =
     (let i = sat_add64 (adm_next_id ctl) 1;
          (m, r) = with_entry key_admission_default (vk_id key)
                     (on_ledger (reserve_ledger i key est w now)) (adm_keys ctl)
      in (ctl\<lparr>adm_keys := m, adm_next_id := wrap_add64 (adm_next_id ctl) 1\<rparr>,
          case r of Inl e \<Rightarrow> Inl e | Inr () \<Rightarrow> Inr i))"

definition initialize_key ::
  "codec \<Rightarrow> string \<Rightarrow> wall_clock \<Rightarrow> nanos \<Rightarrow> (string \<times> int) list option \<Rightarrow> f64 option \<Rightarrow> f64 option
     \<Rightarrow> admission_controller \<Rightarrow> admission_controller" where
  "initialize_key cd key_id w now minute daily monthly ctl =
     ctl\<lparr>adm_keys := fst (with_entry key_admission_default key_id
       (\<lambda>ka. (ensure_initialized cd w now minute daily monthly ka, ())) (adm_keys ctl))\<rparr>"

definition admission_reserve ::
  "codec \<Rightarrow> snapshot \<Rightarrow> virtual_key_row \<Rightarrow> internal_request \<Rightarrow> (string \<times> int) list option
     \<Rightarrow> f64 option \<Rightarrow> f64 option \<Rightarrow> wall_clock \<Rightarrow> nanos \<Rightarrow> admission_controller
     \<Rightarrow> admission_controller \<times> (proxy_error + nat)" where
  "admission_reserve cd snap key req minute daily monthly w now ctl =
     (case estimate_request cd snap key req of
        Inl e \<Rightarrow> (ctl, Inl e)
      | Inr est \<Rightarrow>
          reserve_initialized key est w now
            (initialize_key cd (vk_id key) w now minute daily monthly ctl))"

definition admission_check_current ::
  "codec \<Rightarrow> virtual_key_row \<Rightarrow> (string \<times> int) list option \<Rightarrow> f64 option \<Rightarrow> f64 option \<Rightarrow> wall_clock
     \<Rightarrow> nanos \<Rightarrow> admission_controller \<Rightarrow> admission_controller \<times> (proxy_error + unit)" where
  "admission_check_current cd key minute daily monthly w now ctl =
     (let ctl' = initialize_key cd (vk_id key) w now minute daily monthly ctl;
          (m, r) = with_entry key_admission_default (vk_id key)
                     (on_ledger (check_current_ledger key w now)) (adm_keys ctl')
      in (ctl'\<lparr>adm_keys := m\<rparr>, r))"

section \<open>Lemmas on the bookkeeping\<close>

definition cost_of :: "active_reservation \<Rightarrow> f64" where
  "cost_of a = unwrap_or (ar_cost a) 0"

text \<open>What is reserved for a period: \<open>per\<close> reads the period of a reservation.\<close>

definition reserved :: "(active_reservation \<Rightarrow> 'p) \<Rightarrow> 'p \<Rightarrow> (nat, active_reservation) hash_map \<Rightarrow> f64" where
  "reserved per q m = sum_list (map (\<lambda>e. if per (snd e) = q then cost_of (snd e) else 0) m)"

definition costs_nonneg :: "(nat, active_reservation) hash_map \<Rightarrow> bool" where
  "costs_nonneg m = hm_all (\<lambda>a. 0 \<le> cost_of a) m"

abbreviation rolled :: "wall_clock \<Rightarrow> nanos \<Rightarrow> key_ledger \<Rightarrow> key_ledger" where
  "rolled w now l \<equiv> prune now (roll_periods w l)"

lemma rolled_fields [simp]:
  "kl_active (rolled w now l) = kl_active l"
  "kl_daily_day (rolled w now l) = Some (wc_day w)"
  "kl_monthly_key (rolled w now l) = Some (wc_month w)"
  "kl_daily_spend (rolled w now l) = (if kl_daily_day l = Some (wc_day w) then kl_daily_spend l else 0)"
  "kl_monthly_spend (rolled w now l) = (if kl_monthly_key l = Some (wc_month w) then kl_monthly_spend l else 0)"
  "kl_minute (rolled w now l) = dropWhile (\<lambda>e. sat_since now (mu_at e) \<ge> MINUTE_WINDOW) (kl_minute l)"
  by (simp_all add: roll_periods_def prune_def Let_def)

lemma count_active_spend:
  "snd (snd (fold (count_active w now) (map snd m) (r, t, d, mo)))
     = (d + reserved ar_day (wc_day w) m, mo + reserved ar_month (wc_month w) m)"
proof (induction m arbitrary: r t d mo)
  case Nil
  then show ?case by (simp add: reserved_def)
next
  case (Cons e m)
  obtain r' t' d' mo' where s: "count_active w now (snd e) (r, t, d, mo) = (r', t', d', mo')"
    by (metis surj_pair)
  then have "d' = d + (if ar_day (snd e) = wc_day w then cost_of (snd e) else 0)"
    "mo' = mo + (if ar_month (snd e) = wc_month w then cost_of (snd e) else 0)"
    by (auto simp: count_active_def Let_def cost_of_def unwrap_or_def split: option.splits)
  with Cons s show ?case by (simp add: reserved_def)
qed

lemma count_active_recent:
  "fst (fold (count_active w now) (map snd m) (r, t, d, mo))
     = foldl (\<lambda>n _. sat_add64 n 1) r (filter (\<lambda>e. sat_since now (ar_at (snd e)) < MINUTE_WINDOW) m)"
proof (induction m arbitrary: r t d mo)
  case Nil
  then show ?case by simp
next
  case (Cons e m)
  obtain r' t' d' mo' where s: "count_active w now (snd e) (r, t, d, mo) = (r', t', d', mo')"
    by (metis surj_pair)
  then have "r' = (if sat_since now (ar_at (snd e)) < MINUTE_WINDOW then sat_add64 r 1 else r)"
    by (auto simp: count_active_def Let_def split: option.splits)
  with Cons s show ?case by simp
qed

lemma sat_count: "foldl (\<lambda>n _. sat_add64 n 1) r xs = (if xs = [] then r else min (r + length xs) u64_max)"
proof (induction xs arbitrary: r)
  case (Cons x xs)
  then show ?case by (auto simp: sat_add64_def)
qed simp

lemma reserved_nonneg: "costs_nonneg m \<Longrightarrow> 0 \<le> reserved per q m"
  unfolding costs_nonneg_def hm_all_def reserved_def
  by (intro sum_list_nonneg) (auto split: if_splits)

lemma reserved_insert_le:
  "costs_nonneg m \<Longrightarrow> reserved per q (hm_insert i a m) \<le> reserved per q m + (if per a = q then cost_of a else 0)"
proof (induction i a m rule: hm_insert.induct)
  case (2 k v k' v' m)
  then show ?case by (auto simp: reserved_def costs_nonneg_def hm_all_def)
qed (simp add: reserved_def)

lemma hm_remove_Cons: "hm_remove i (e # m) = (if fst e = i then hm_remove i m else e # hm_remove i m)"
  by (simp add: hm_remove_def)

lemma reserved_remove:
  assumes "distinct (map fst m)" and "map_of m i = Some a"
  shows "reserved per q m = reserved per q (hm_remove i m) + (if per a = q then cost_of a else 0)"
  using assms
proof (induction m)
  case (Cons e m)
  show ?case
  proof (cases "fst e = i")
    case True
    then have "hm_remove i m = m" using Cons.prems(1)
      by (simp add: hm_remove_def filter_id_conv) (metis imageI)
    with True Cons.prems show ?thesis by (simp add: reserved_def hm_remove_Cons)
  next
    case False
    with Cons show ?thesis by (simp add: reserved_def hm_remove_Cons)
  qed
qed simp

lemma reserved_remove_le: "costs_nonneg m \<Longrightarrow> reserved per q (hm_remove i m) \<le> reserved per q m"
  by (induction m) (auto simp: reserved_def hm_remove_Cons costs_nonneg_def hm_all_def hm_remove_def)

lemma costs_nonneg_remove: "costs_nonneg m \<Longrightarrow> costs_nonneg (hm_remove i m)"
  by (auto simp: costs_nonneg_def hm_all_def hm_remove_def)

lemma distinct_remove: "distinct (map fst m) \<Longrightarrow> distinct (map fst (hm_remove i m))"
  by (simp add: hm_remove_def distinct_map_filter)

lemma map_of_remove: "map_of (hm_remove i m) k = (if k = i then None else map_of m k)"
  by (induction m) (auto simp: hm_remove_def)

lemma current_usage_eq:
  "current_usage w now l =
     (rolled w now l, fold (count_active w now) (hm_values (kl_active l))
        (length (kl_minute (rolled w now l)), wrap_sum64 (map mu_tokens (kl_minute (rolled w now l))),
         kl_daily_spend (rolled w now l), kl_monthly_spend (rolled w now l)))"
  by (simp add: current_usage_def Let_def del: rolled_fields(4-6))

lemma current_usage_cases:
  obtains requests tokens where
    "current_usage w now l = (rolled w now l, requests, tokens,
       kl_daily_spend (rolled w now l) + reserved ar_day (wc_day w) (kl_active l),
       kl_monthly_spend (rolled w now l) + reserved ar_month (wc_month w) (kl_active l))"
    "requests = foldl (\<lambda>n _. sat_add64 n 1) (length (kl_minute (rolled w now l)))
       (filter (\<lambda>e. sat_since now (ar_at (snd e)) < MINUTE_WINDOW) (kl_active l))"
proof -
  let ?u = "fold (count_active w now) (hm_values (kl_active l))
        (length (kl_minute (rolled w now l)), wrap_sum64 (map mu_tokens (kl_minute (rolled w now l))),
         kl_daily_spend (rolled w now l), kl_monthly_spend (rolled w now l))"
  have "current_usage w now l = (rolled w now l, fst ?u, fst (snd ?u), snd (snd ?u))"
    by (simp only: current_usage_eq prod.collapse)
  then show ?thesis
    using that unfolding count_active_spend count_active_recent by blast
qed

definition reservation_of :: "admission_estimate \<Rightarrow> wall_clock \<Rightarrow> nanos \<Rightarrow> active_reservation" where
  "reservation_of est w now = \<lparr>ar_at = now, ar_tokens = ae_tokens est, ar_cost = ae_cost est,
     ar_day = wc_day w, ar_month = wc_month w\<rparr>"

text \<open>A chain of four guards, each ending in an error on the same state.\<close>

lemma guards_fail:
  "p1 \<or> p2 \<or> p3 \<or> p4 \<Longrightarrow> \<exists>e. (if p1 then (x, Inl a) else if p2 then (x, Inl b)
      else if p3 then (x, Inl c) else if p4 then (x, Inl d) else y) = (x, Inl e)"
  by auto

lemma guards_pass:
  "\<not> (p1 \<or> p2 \<or> p3 \<or> p4) \<Longrightarrow> (if p1 then (x, Inl a) else if p2 then (x, Inl b)
      else if p3 then (x, Inl c) else if p4 then (x, Inl d) else y) = y"
  by auto

text \<open>A reservation either leaves the pruned ledger, or passed all four checks.\<close>

lemma reserve_cases:
  obtains (rejected) e where "reserve_ledger i key est w now l = (rolled w now l, Inl e)"
  | (admitted) requests where
      "reserve_ledger i key est w now l = ((rolled w now l)\<lparr>kl_active :=
         hm_insert i (reservation_of est w now) (kl_active l)\<rparr>, Inr ())"
      "requests = foldl (\<lambda>n _. sat_add64 n 1) (length (kl_minute (rolled w now l)))
         (filter (\<lambda>e. sat_since now (ar_at (snd e)) < MINUTE_WINDOW) (kl_active l))"
      "\<not> is_some_and (\<lambda>rpm. sat_add64 requests 1 > rpm) (rpm_of key)"
      "\<not> would_exceed (kl_daily_spend (rolled w now l) + reserved ar_day (wc_day w) (kl_active l))
          (ae_cost est) (daily_of key)"
      "\<not> would_exceed (kl_monthly_spend (rolled w now l) + reserved ar_month (wc_month w) (kl_active l))
          (ae_cost est) (monthly_of key)"
proof -
  obtain requests tokens where
    c: "current_usage w now l = (rolled w now l, requests, tokens,
       kl_daily_spend (rolled w now l) + reserved ar_day (wc_day w) (kl_active l),
       kl_monthly_spend (rolled w now l) + reserved ar_month (wc_month w) (kl_active l))"
    and r: "requests = foldl (\<lambda>n _. sat_add64 n 1) (length (kl_minute (rolled w now l)))
       (filter (\<lambda>e. sat_since now (ar_at (snd e)) < MINUTE_WINDOW) (kl_active l))"
    by (rule current_usage_cases)
  let ?p1 = "is_some_and (\<lambda>rpm. sat_add64 requests 1 > rpm) (rpm_of key)"
  let ?p2 = "is_some_and (\<lambda>tpm. sat_add64 tokens (ae_tokens est) > tpm) (tpm_of key)"
  let ?p3 = "would_exceed (kl_daily_spend (rolled w now l) + reserved ar_day (wc_day w) (kl_active l))
     (ae_cost est) (daily_of key)"
  let ?p4 = "would_exceed (kl_monthly_spend (rolled w now l) + reserved ar_month (wc_month w) (kl_active l))
     (ae_cost est) (monthly_of key)"
  show ?thesis
  proof (cases "?p1 \<or> ?p2 \<or> ?p3 \<or> ?p4")
    case True
    then have "\<exists>e. reserve_ledger i key est w now l = (rolled w now l, Inl e)"
      unfolding reserve_ledger_def c prod.case by (rule guards_fail)
    then show ?thesis using rejected by blast
  next
    case False
    then have "reserve_ledger i key est w now l = ((rolled w now l)\<lparr>kl_active :=
         hm_insert i (reservation_of est w now) (kl_active l)\<rparr>, Inr ())"
      unfolding reserve_ledger_def c prod.case reservation_of_def rolled_fields(1) by (rule guards_pass)
    then show ?thesis using admitted [OF _ r] False by blast
  qed
qed

section \<open>Budget periods\<close>

text \<open>
  The exposure of a period: what was spent in it, while it is the running one, plus what is
  reserved for it.
\<close>

definition exposure ::
  "(active_reservation \<Rightarrow> 'p) \<Rightarrow> (key_ledger \<Rightarrow> 'p option) \<Rightarrow> (key_ledger \<Rightarrow> f64) \<Rightarrow> 'p \<Rightarrow> key_ledger \<Rightarrow> f64" where
  "exposure per cur spend q l = (if cur l = Some q then spend l else 0) + reserved per q (kl_active l)"

text \<open>What a reconciliation charges beyond the reservation. An unknown reservation counts as nothing.\<close>

definition overrun :: "key_ledger \<Rightarrow> nat \<Rightarrow> f64 option \<Rightarrow> f64" where
  "overrun l i cost =
     (case map_of (kl_active l) i of
        None \<Rightarrow> 0
      | Some a \<Rightarrow> max 0 (unwrap_or (opt_or cost (ar_cost a)) 0 - cost_of a))"

lemma overrun_nonneg: "0 \<le> overrun l i cost"
  by (simp add: overrun_def split: option.split)

definition capped ::
  "(active_reservation \<Rightarrow> 'p) \<Rightarrow> (key_ledger \<Rightarrow> 'p option) \<Rightarrow> (key_ledger \<Rightarrow> f64) \<Rightarrow> f64 \<Rightarrow> key_ledger \<Rightarrow> bool" where
  "capped per cur spend B l \<longleftrightarrow> (\<forall>q. exposure per cur spend q l \<le> B) \<and> 0 \<le> spend l
     \<and> costs_nonneg (kl_active l) \<and> distinct (map fst (kl_active l))"

text \<open>
  The interface of a budgeting period: what the ledger's operations promise about a period's
  counter. The client lemmas show that the exposure stays below every bound at least as large as
  the limit.
\<close>

locale budget_period =
  fixes per :: "active_reservation \<Rightarrow> 'p"
    and cur :: "key_ledger \<Rightarrow> 'p option"
    and spend :: "key_ledger \<Rightarrow> f64"
    and clock :: "wall_clock \<Rightarrow> 'p"
    and limit :: "virtual_key_row \<Rightarrow> f64 option"
  assumes active_irrelevant: "cur (l\<lparr>kl_active := m\<rparr>) = cur l" "spend (l\<lparr>kl_active := m\<rparr>) = spend l"
    and roll_cur: "cur (rolled w now l) = Some (clock w)"
    and roll_spend: "spend (rolled w now l) = (if cur l = Some (clock w) then spend l else 0)"
    and reserve_period: "per (reservation_of est w now) = clock w"
    and reserve_limit: "reserve_ledger i key est w now l = (l', Inr ()) \<Longrightarrow> ae_cost est = Some c \<Longrightarrow>
      limit key = Some L \<Longrightarrow> spend (rolled w now l) + reserved per (clock w) (kl_active l) + c \<le> L"
    and settle_cur: "cur (settle now tk ac a l) = cur l"
    and settle_spend: "spend (settle now tk ac a l) =
      spend l + (if cur l = Some (per a) then unwrap_or (opt_or ac (ar_cost a)) 0 else 0)"
    and settle_active: "kl_active (settle now tk ac a l) = kl_active l"
begin

lemma exposure_rolled:
  "exposure per cur spend q (rolled w now l) =
     (if q = clock w then if cur l = Some q then spend l else 0 else 0) + reserved per q (kl_active l)"
  by (simp add: exposure_def roll_cur roll_spend)

lemma capped_rolled:
  assumes "capped per cur spend B l" shows "capped per cur spend B (rolled w now l)"
proof -
  have "exposure per cur spend q (rolled w now l) \<le> exposure per cur spend q l" for q
    using assms unfolding exposure_rolled by (simp add: exposure_def capped_def)
  then show ?thesis
    using assms unfolding capped_def by (auto simp: roll_spend intro: order_trans)
qed

lemma capped_reserve:
  assumes cap: "capped per cur spend B l" and lim: "limit key = Some L" "L \<le> B"
    and cost: "\<And>c. ae_cost est = Some c \<Longrightarrow> 0 \<le> c"
  shows "capped per cur spend B (fst (reserve_ledger i key est w now l))"
proof (cases rule: reserve_cases [of i key est w now l])
  case (rejected e)
  with capped_rolled [OF cap] show ?thesis by simp
next
  case (admitted requests)
  let ?r = "rolled w now l" and ?a = "reservation_of est w now"
  have nn: "costs_nonneg (kl_active l)" and ds: "distinct (map fst (kl_active l))"
    using cap by (simp_all add: capped_def)
  define c where "c = unwrap_or (ae_cost est) 0"
  have ca: "cost_of ?a = c" by (simp add: cost_of_def reservation_of_def c_def)
  have c: "0 \<le> c" using cost by (cases "ae_cost est") (auto simp: c_def unwrap_or_def)
  have "exposure per cur spend q (?r\<lparr>kl_active := hm_insert i ?a (kl_active l)\<rparr>) \<le> B" for q
  proof -
    have "exposure per cur spend q (?r\<lparr>kl_active := hm_insert i ?a (kl_active l)\<rparr>)
        \<le> exposure per cur spend q ?r + (if clock w = q then c else 0)"
      using reserved_insert_le [OF nn, of per q i ?a]
      by (simp add: exposure_def active_irrelevant reserve_period ca split: if_splits)
    also have "\<dots> \<le> B"
    proof (cases "clock w = q \<and> ae_cost est \<noteq> None")
      case True
      then show ?thesis
        using reserve_limit [OF admitted(1) _ lim(1), of c] lim(2)
        by (auto simp: exposure_def roll_cur c_def unwrap_or_def)
    next
      case False
      then have "(if clock w = q then c else 0) = 0" by (auto simp: c_def unwrap_or_def)
      then show ?thesis using capped_rolled [OF cap, where w = w and now = now] by (simp add: capped_def)
    qed
    finally show ?thesis .
  qed
  moreover have "costs_nonneg (hm_insert i ?a (kl_active l))"
    using nn unfolding costs_nonneg_def by (rule hm_all_insert) (simp add: ca c)
  ultimately show ?thesis
    using capped_rolled [OF cap, where w = w and now = now] ds
    by (simp add: admitted(1) capped_def active_irrelevant distinct_hm_insert)
qed

lemma capped_remove:
  assumes "capped per cur spend B l"
  shows "capped per cur spend B (l\<lparr>kl_active := hm_remove i (kl_active l)\<rparr>)"
proof -
  have nn: "costs_nonneg (kl_active l)" using assms by (simp add: capped_def)
  have "exposure per cur spend q (l\<lparr>kl_active := hm_remove i (kl_active l)\<rparr>) \<le> exposure per cur spend q l" for q
    using reserved_remove_le [OF nn, of per q i] by (simp add: exposure_def active_irrelevant)
  then show ?thesis
    using assms unfolding capped_def
    by (auto simp: active_irrelevant costs_nonneg_remove distinct_remove intro: order_trans)
qed

text \<open>Reconciling moves exposure from reserved to spent, and adds what was charged beyond the reservation.\<close>

lemma capped_reconcile:
  assumes cap: "capped per cur spend B l"
    and nonneg: "\<And>c. ac = Some c \<Longrightarrow> 0 \<le> c"
  shows "capped per cur spend (B + overrun l i ac) (reconcile_ledger i tk ac w now l)"
proof -
  let ?r = "rolled w now l"
  have capr: "capped per cur spend B ?r" by (rule capped_rolled [OF cap])
  show ?thesis
  proof (cases "map_of (kl_active l) i")
    case None
    with capr show ?thesis by (simp add: reconcile_ledger_def Let_def overrun_def)
  next
    case (Some a)
    let ?r' = "?r\<lparr>kl_active := hm_remove i (kl_active l)\<rparr>"
    define paid where "paid = unwrap_or (opt_or ac (ar_cost a)) 0"
    have ds: "distinct (map fst (kl_active l))" and nn: "costs_nonneg (kl_active l)"
      using cap by (simp_all add: capped_def)
    have "0 \<le> cost_of a"
      using nn Some unfolding costs_nonneg_def hm_all_def by (auto dest: map_of_SomeD)
    then have paid: "0 \<le> paid" "paid \<le> cost_of a + overrun l i ac"
      using nonneg Some by (auto simp: paid_def cost_of_def opt_or_def unwrap_or_def overrun_def split: option.splits)
    have r'ok: "capped per cur spend B ?r'" using capped_remove [OF capr, of i] by simp
    have "exposure per cur spend q (settle now tk ac a ?r') \<le> exposure per cur spend q ?r + overrun l i ac" for q
      using reserved_remove [OF ds Some, of per q] paid overrun_nonneg [of l i ac]
      by (simp add: exposure_def settle_cur settle_spend settle_active active_irrelevant flip: paid_def)
    then have "exposure per cur spend q (settle now tk ac a ?r') \<le> B + overrun l i ac" for q
      using capr unfolding capped_def by (meson add_right_mono order_trans)
    moreover have "0 \<le> spend (settle now tk ac a ?r')"
      using r'ok paid by (simp add: settle_spend capped_def flip: paid_def)
    ultimately show ?thesis
      using r'ok Some by (simp add: reconcile_ledger_def Let_def capped_def settle_active)
  qed
qed

end

lemma settle_fields:
  "kl_active (settle now tk ac a l) = kl_active l"
  "kl_daily_day (settle now tk ac a l) = kl_daily_day l"
  "kl_monthly_key (settle now tk ac a l) = kl_monthly_key l"
  "kl_daily_spend (settle now tk ac a l) = kl_daily_spend l
     + (if kl_daily_day l = Some (ar_day a) then unwrap_or (opt_or ac (ar_cost a)) 0 else 0)"
  "kl_monthly_spend (settle now tk ac a l) = kl_monthly_spend l
     + (if kl_monthly_key l = Some (ar_month a) then unwrap_or (opt_or ac (ar_cost a)) 0 else 0)"
  by (simp_all add: settle_def Let_def unwrap_or_def split: option.split)

lemma reserve_within:
  assumes "reserve_ledger i key est w now l = (l', Inr ())" and "ae_cost est = Some c"
  shows "daily_of key = Some L \<Longrightarrow>
      kl_daily_spend (rolled w now l) + reserved ar_day (wc_day w) (kl_active l) + c \<le> L"
    and "monthly_of key = Some L' \<Longrightarrow>
      kl_monthly_spend (rolled w now l) + reserved ar_month (wc_month w) (kl_active l) + c \<le> L'"
  using assms by (cases rule: reserve_cases [of i key est w now l];
      simp add: would_exceed_def is_some_and_def del: rolled_fields)+

interpretation daily: budget_period ar_day kl_daily_day kl_daily_spend wc_day daily_of
proof unfold_locales
  fix i key est w now l l' c L
  assume "reserve_ledger i key est w now l = (l', Inr ())" "ae_cost est = Some c" "daily_of key = Some L"
  then show "kl_daily_spend (rolled w now l) + reserved ar_day (wc_day w) (kl_active l) + c \<le> L"
    by (rule reserve_within(1))
qed (simp_all add: settle_fields reservation_of_def)

interpretation monthly: budget_period ar_month kl_monthly_key kl_monthly_spend wc_month monthly_of
proof unfold_locales
  fix i key est w now l l' c L
  assume "reserve_ledger i key est w now l = (l', Inr ())" "ae_cost est = Some c" "monthly_of key = Some L"
  then show "kl_monthly_spend (rolled w now l) + reserved ar_month (wc_month w) (kl_active l) + c \<le> L"
    by (rule reserve_within(2))
qed (simp_all add: settle_fields reservation_of_def)

section \<open>Runs of a key's ledger\<close>

text \<open>
  What can happen to a key's ledger: reservations, with a known estimate or without one, checks, cancellations and
  reconciliations at any cost, in any order. \<open>e\<close> adds up what reconciliations charged beyond the reservation.
\<close>

inductive budget_run :: "virtual_key_row \<Rightarrow> key_ledger \<Rightarrow> key_ledger \<Rightarrow> f64 \<Rightarrow> bool" for key l0 where
  start: "budget_run key l0 l0 0"
| reserve: "budget_run key l0 l e \<Longrightarrow> (\<And>c. ae_cost est = Some c \<Longrightarrow> 0 \<le> c) \<Longrightarrow>
     budget_run key l0 (fst (reserve_ledger i key est w now l)) e"
| check: "budget_run key l0 l e \<Longrightarrow> budget_run key l0 (fst (check_current_ledger key w now l)) e"
| reconcile: "budget_run key l0 l e \<Longrightarrow> (\<And>c. cost = Some c \<Longrightarrow> 0 \<le> c) \<Longrightarrow>
     budget_run key l0 (reconcile_ledger i tk cost w now l) (e + overrun l i cost)"
| cancel: "budget_run key l0 l e \<Longrightarrow> budget_run key l0 (cancel_ledger i l) e"

lemma budget_run_overrun: "budget_run key l0 l e \<Longrightarrow> 0 \<le> e"
  by (induction rule: budget_run.induct) (auto intro: add_nonneg_nonneg overrun_nonneg)

lemma check_ledger_state: "fst (check_current_ledger key w now l) = rolled w now l"
  by (simp add: check_current_ledger_def current_usage_eq case_prod_beta)

lemma budget_run_capped:
  assumes "budget_run key l0 l e" and "kl_active l0 = []" and "0 \<le> kl_daily_spend l0" "0 \<le> kl_monthly_spend l0"
  shows "daily_of key = Some D \<Longrightarrow> capped ar_day kl_daily_day kl_daily_spend (max D (kl_daily_spend l0) + e) l"
    and "monthly_of key = Some M \<Longrightarrow>
      capped ar_month kl_monthly_key kl_monthly_spend (max M (kl_monthly_spend l0) + e) l"
proof -
  have pos: "daily_of key = Some D \<Longrightarrow> 0 < D" "monthly_of key = Some M \<Longrightarrow> 0 < M"
    by (auto simp: daily_of_def monthly_of_def opt_filter_def split: option.splits if_splits)
  have c0: "exposure per cur spend q l0 = (if cur l0 = Some q then spend l0 else 0)"
    for per :: "active_reservation \<Rightarrow> 'p" and cur spend q
    by (simp add: exposure_def reserved_def assms(2))
  have le: "x \<le> max x y + e'" if "budget_run key l0 l' e'" for x y :: f64 and l' e'
    using budget_run_overrun [OF that] by simp
  show "daily_of key = Some D \<Longrightarrow> capped ar_day kl_daily_day kl_daily_spend (max D (kl_daily_spend l0) + e) l"
    using assms(1)
  proof induction
    case start
    then show ?case using pos(1) assms by (auto simp: capped_def c0 costs_nonneg_def)
  next
    case (reserve l e est i w now)
    then show ?case using le by (intro daily.capped_reserve) auto
  next
    case (reconcile l e cost i tk w now)
    then show ?case unfolding add.assoc [symmetric] by (intro daily.capped_reconcile) auto
  qed (auto simp: check_ledger_state cancel_ledger_def intro: daily.capped_rolled daily.capped_remove)
  show "monthly_of key = Some M \<Longrightarrow>
      capped ar_month kl_monthly_key kl_monthly_spend (max M (kl_monthly_spend l0) + e) l"
    using assms(1)
  proof induction
    case start
    then show ?case using pos(2) assms by (auto simp: capped_def c0 costs_nonneg_def)
  next
    case (reserve l e est i w now)
    then show ?case using le by (intro monthly.capped_reserve) auto
  next
    case (reconcile l e cost i tk w now)
    then show ?case unfolding add.assoc [symmetric] by (intro monthly.capped_reconcile) auto
  qed (auto simp: check_ledger_state cancel_ledger_def intro: monthly.capped_rolled monthly.capped_remove)
qed

text \<open>
  The rate window. \<open>H\<close> is the history: the start times of all requests that were admitted and not
  cancelled. Clock readings do not go back, and a new reservation has a new identifier.
\<close>

abbreviation recent :: "nanos \<Rightarrow> nanos \<Rightarrow> bool" where
  "recent now t0 \<equiv> sat_since now t0 < MINUTE_WINDOW"

inductive window_run :: "virtual_key_row \<Rightarrow> nanos \<Rightarrow> key_ledger \<Rightarrow> nanos multiset \<Rightarrow> bool" for key where
  start: "kl_active l = [] \<Longrightarrow> window_run key t l {#}"
| admit: "window_run key t l H \<Longrightarrow> t \<le> now \<Longrightarrow> i \<notin> fst ` set (kl_active l) \<Longrightarrow>
     reserve_ledger i key est w now l = (l', Inr ()) \<Longrightarrow> window_run key now l' (add_mset now H)"
| refuse: "window_run key t l H \<Longrightarrow> t \<le> now \<Longrightarrow>
     reserve_ledger i key est w now l = (l', Inl e) \<Longrightarrow> window_run key now l' H"
| check: "window_run key t l H \<Longrightarrow> t \<le> now \<Longrightarrow>
     window_run key now (fst (check_current_ledger key w now l)) H"
| reconcile: "window_run key t l H \<Longrightarrow> t \<le> now \<Longrightarrow>
     window_run key now (reconcile_ledger i tk cost w now l) H"
| cancel: "window_run key t l H \<Longrightarrow> map_of (kl_active l) i = Some a \<Longrightarrow>
     window_run key t (cancel_ledger i l) (H - {#ar_at a#})"

definition tracked :: "key_ledger \<Rightarrow> nanos multiset" where
  "tracked l = mset (map (\<lambda>e. ar_at (snd e)) (kl_active l)) + mset (map mu_at (kl_minute l))"

definition window_inv :: "virtual_key_row \<Rightarrow> nanos \<Rightarrow> key_ledger \<Rightarrow> nanos multiset \<Rightarrow> bool" where
  "window_inv key t l H \<longleftrightarrow>
     filter_mset (recent t) H \<subseteq># filter_mset (recent t) (tracked l)
     \<and> distinct (map fst (kl_active l))
     \<and> (\<forall>rpm. rpm_of key = Some rpm \<and> rpm < u64_max \<longrightarrow> size (filter_mset (recent t) H) \<le> rpm)"

lemma recent_mono: "t \<le> now \<Longrightarrow> recent now x \<Longrightarrow> recent t x"
  by (auto simp: sat_since_def)

lemma filter_recent_again:
  "t \<le> now \<Longrightarrow> filter_mset (recent now) (filter_mset (recent t) M) = filter_mset (recent now) M"
  by (simp add: filter_filter_mset) (metis recent_mono)

lemma window_inv_later:
  assumes "window_inv key t l H" and "t \<le> now"
  shows "window_inv key now l H"
proof -
  have "filter_mset (recent now) (filter_mset (recent t) H)
      \<subseteq># filter_mset (recent now) (filter_mset (recent t) (tracked l))"
    by (rule multiset_filter_mono) (use assms(1) in \<open>simp only: window_inv_def\<close>)
  moreover have "size (filter_mset (recent now) H) \<le> size (filter_mset (recent t) H)"
    using size_filter_mset_lesseq [of "recent now" "filter_mset (recent t) H"]
    by (simp only: filter_recent_again [OF assms(2)])
  ultimately show ?thesis
    using assms unfolding window_inv_def filter_recent_again [OF assms(2)]
    by (auto intro: order_trans)
qed

lemma filter_dropWhile_expired:
  "filter_mset (recent now) (image_mset mu_at (mset (dropWhile (\<lambda>e. MINUTE_WINDOW \<le> sat_since now (mu_at e)) xs)))
     = filter_mset (recent now) (image_mset mu_at (mset xs))"
  by (induction xs) auto

lemma tracked_rolled:
  "filter_mset (recent now) (tracked (rolled w now l)) = filter_mset (recent now) (tracked l)"
  by (simp add: tracked_def filter_dropWhile_expired)

lemma window_inv_rolled: "window_inv key now l H \<Longrightarrow> window_inv key now (rolled w now l) H"
  unfolding window_inv_def tracked_rolled by simp

lemma mset_remove:
  "distinct (map fst m) \<Longrightarrow> map_of m i = Some a \<Longrightarrow>
     mset (map (\<lambda>e. g (snd e)) m) = add_mset (g a) (mset (map (\<lambda>e. g (snd e)) (hm_remove i m)))"
proof (induction m)
  case (Cons e m)
  show ?case
  proof (cases "fst e = i")
    case True
    then have "hm_remove i m = m" using Cons.prems(1)
      by (simp add: hm_remove_def filter_id_conv) (metis imageI)
    with True Cons.prems show ?thesis by (simp add: hm_remove_Cons)
  next
    case False
    with Cons show ?thesis by (simp add: hm_remove_Cons)
  qed
qed simp

lemma size_filter_map: "size (filter_mset P (mset (map g xs))) = length (filter (\<lambda>x. P (g x)) xs)"
  by (induction xs) auto

lemma window_inv_admit:
  assumes inv: "window_inv key now l H" and fresh: "i \<notin> fst ` set (kl_active l)"
    and ok: "reserve_ledger i key est w now l = (l', Inr ())"
  shows "window_inv key now l' (add_mset now H)"
proof (cases rule: reserve_cases [of i key est w now l])
  case (rejected e)
  with ok show ?thesis by simp
next
  case (admitted requests)
  let ?r = "rolled w now l" and ?a = "reservation_of est w now"
  let ?recent = "filter (\<lambda>e. recent now (ar_at (snd e))) (kl_active l)"
  have l': "l' = ?r\<lparr>kl_active := hm_insert i ?a (kl_active l)\<rparr>" using ok admitted(1) by simp
  have at: "ar_at ?a = now" by (simp add: reservation_of_def)
  have "tracked l' = add_mset now (tracked ?r)"
    by (simp add: tracked_def l' hm_insert_fresh [OF fresh] at)
  then have "filter_mset (recent now) (tracked l')
      = (if recent now now then add_mset now else id) (filter_mset (recent now) (tracked l))"
    by (simp add: tracked_rolled)
  then have sub: "filter_mset (recent now) (add_mset now H) \<subseteq># filter_mset (recent now) (tracked l')"
    using inv by (simp add: window_inv_def)
  have "size (filter_mset (recent now) (add_mset now H)) \<le> rpm"
    if rpm: "rpm_of key = Some rpm" "rpm < u64_max" for rpm
  proof -
    have "size (filter_mset (recent now) H) \<le> size (filter_mset (recent now) (tracked ?r))"
      using inv unfolding window_inv_def tracked_rolled by (simp add: size_mset_mono)
    also have "\<dots> \<le> length ?recent + length (kl_minute ?r)"
      unfolding tracked_def filter_union_mset size_union size_filter_map rolled_fields(1)
      by (intro add_mono length_filter_le order_refl)
    also have "Suc \<dots> \<le> rpm"
    proof -
      have le: "sat_add64 requests 1 \<le> rpm"
        using admitted(3) rpm(1) by (simp add: is_some_and_def)
      then have "Suc requests \<le> rpm" using rpm(2) by (simp add: sat_add64_le_iff)
      moreover have "length ?recent + length (kl_minute ?r) \<le> requests"
        using le rpm(2) \<open>Suc requests \<le> rpm\<close> unfolding admitted(2) sat_count
        by (simp split: if_split_asm)
      ultimately show ?thesis by simp
    qed
    finally show ?thesis by simp
  qed
  then show ?thesis
    using inv sub unfolding window_inv_def by (simp add: l' distinct_hm_insert)
qed

lemma settle_minute:
  "kl_minute (settle now tk ac a l) = kl_minute l
     @ (if recent now (ar_at a) then [\<lparr>mu_at = ar_at a, mu_tokens = unwrap_or tk (ar_tokens a)\<rparr>] else [])"
  by (simp add: settle_def Let_def split: option.split)

lemma window_inv_reconcile:
  assumes "window_inv key now l H"
  shows "window_inv key now (reconcile_ledger i tk ac w now l) H"
proof -
  let ?r = "rolled w now l"
  have inv: "window_inv key now ?r H" by (rule window_inv_rolled [OF assms])
  show ?thesis
  proof (cases "map_of (kl_active l) i")
    case None
    with inv show ?thesis by (simp add: reconcile_ledger_def Let_def)
  next
    case (Some a)
    let ?l' = "settle now tk ac a (?r\<lparr>kl_active := hm_remove i (kl_active l)\<rparr>)"
    have ds: "distinct (map fst (kl_active l))" using assms by (simp add: window_inv_def)
    have "filter_mset (recent now) (tracked ?l') = filter_mset (recent now) (tracked ?r)"
      using mset_remove [OF ds Some, of ar_at]
      by (simp add: tracked_def settle_fields(1) settle_minute)
    then have "window_inv key now ?l' H"
      using inv unfolding window_inv_def by (simp add: settle_fields(1) distinct_remove)
    with Some show ?thesis by (simp add: reconcile_ledger_def Let_def)
  qed
qed

lemma window_inv_cancel:
  assumes inv: "window_inv key t l H" and a: "map_of (kl_active l) i = Some a"
  shows "window_inv key t (cancel_ledger i l) (H - {#ar_at a#})"
proof -
  have ds: "distinct (map fst (kl_active l))" using inv by (simp add: window_inv_def)
  have "tracked l = add_mset (ar_at a) (tracked (cancel_ledger i l))"
    using mset_remove [OF ds a, of ar_at] by (simp add: tracked_def cancel_ledger_def)
  then have t: "tracked (cancel_ledger i l) = tracked l - {#ar_at a#}" by simp
  have "filter_mset (recent t) (H - {#ar_at a#}) \<subseteq># filter_mset (recent t) (tracked (cancel_ledger i l))"
    using inv unfolding t filter_diff_mset window_inv_def
    by (simp add: subseteq_mset_def diff_le_mono)
  moreover have "size (filter_mset (recent t) (H - {#ar_at a#})) \<le> size (filter_mset (recent t) H)"
    by (intro size_mset_mono multiset_filter_mono) simp
  ultimately show ?thesis
    using inv unfolding window_inv_def
    by (auto simp: cancel_ledger_def distinct_remove intro: order_trans)
qed

lemma window_run_inv: "window_run key t l H \<Longrightarrow> window_inv key t l H"
proof (induction rule: window_run.induct)
  case (start l t)
  then show ?case by (simp add: window_inv_def)
next
  case (admit t l H now i est w l')
  then show ?case by (blast intro: window_inv_admit window_inv_later)
next
  case (refuse t l H now i est w l' e)
  then have "l' = rolled w now l" by (cases rule: reserve_cases [of i key est w now l]) simp_all
  with refuse show ?case by (auto intro: window_inv_rolled window_inv_later)
next
  case (check t l H now w)
  then show ?case by (auto simp: check_ledger_state intro: window_inv_rolled window_inv_later)
next
  case (reconcile t l H now i tk cost w)
  then show ?case by (blast intro: window_inv_reconcile window_inv_later)
next
  case (cancel t l H i a)
  then show ?case by (blast intro: window_inv_cancel)
qed

section \<open>The estimate dominates the charge\<close>

lemma base_price_same:
  "base_price p n = Some x \<Longrightarrow> base_price p n' = Some y \<Longrightarrow> x = y"
  by (auto simp: base_price_def split: option.splits if_splits)

lemma top_rate_nonneg:
  "0 \<le> b \<Longrightarrow> 0 \<le> top_rate b [x]" "0 \<le> b \<Longrightarrow> 0 \<le> top_rate b [x, y]"
  by (auto simp: top_rate1 top_rate2 max_def)

lemma conservative_cost_SomeE:
  assumes "conservative_cost p inp out = Some c"
  obtains ip op' where "base_price (input_per_1m p) (of_nat inp) = Some ip"
    "base_price (output_per_1m p) (of_nat out) = Some op'"
    "c = (of_nat inp * top_rate ip [cached_per_1m p, cache_write_per_1m p]
          + of_nat out * top_rate op' [thinking_per_1m p]) / 1000000"
  using assms
  by (auto simp: conservative_cost_def Let_def top_rate1 top_rate2 split: if_splits option.splits)

lemma conservative_dominates:
  assumes cons: "conservative_cost p inp out = Some c" and act: "compute_cost p u = Some cost"
    and pos: "nonneg_prices p"
    and le: "unwrap_or (tu_input u) 0 \<le> inp" "unwrap_or (tu_output u) 0 \<le> out"
  shows "0 \<le> cost \<and> cost \<le> c"
proof -
  obtain ip op' where b: "base_price (input_per_1m p) (of_nat inp) = Some ip"
    "base_price (output_per_1m p) (of_nat out) = Some op'"
    and c: "c = (of_nat inp * top_rate ip [cached_per_1m p, cache_write_per_1m p]
          + of_nat out * top_rate op' [thinking_per_1m p]) / 1000000"
    using cons by (rule conservative_cost_SomeE)
  have nn: "0 \<le> ip" "0 \<le> op'"
    using b nonneg_pricesD [OF pos] by (auto dest: base_price_nonneg)
  obtain ip2 op2 where b2: "base_price (input_per_1m p) (of_nat (unwrap_or (tu_input u) 0)) = Some ip2"
    "base_price (output_per_1m p) (of_nat (unwrap_or (tu_output u) 0)) = Some op2"
    using act by (rule compute_cost_SomeE)
  have eq: "ip2 = ip" "op2 = op'" using b b2 base_price_same by blast+
  have "of_nat (unwrap_or (tu_input u) 0) * top_rate ip [cached_per_1m p, cache_write_per_1m p]
      \<le> of_nat inp * top_rate ip [cached_per_1m p, cache_write_per_1m p]"
    "of_nat (unwrap_or (tu_output u) 0) * top_rate op' [thinking_per_1m p]
      \<le> of_nat out * top_rate op' [thinking_per_1m p]"
    using le nn by (auto intro!: mult_right_mono top_rate_nonneg)
  then have "cost \<le> c"
    unfolding c by (intro order_trans [OF compute_cost_upper [OF act b2, unfolded eq]]
        divide_right_mono add_mono) simp_all
  with compute_cost_nonneg [OF act pos] show ?thesis by simp
qed

lemma estimate_fold:
  assumes "fold (estimate_step cd req inp) ms (t0, c0, k0) = (t, c, k)" and "m \<in> set ms"
  shows "sat_add64 inp (output_reservation req m) \<le> t"
    and "k \<Longrightarrow> \<exists>cm. conservative_cost (model_prices cd m) inp (output_reservation req m) = Some cm \<and> cm \<le> c"
proof -
  have mono: "t1 \<le> t2 \<and> c1 \<le> c2 \<and> (k2 \<longrightarrow> k1)"
    if "fold (estimate_step cd req inp) xs (t1, c1, k1) = (t2, c2, k2)" for xs t1 c1 k1 t2 c2 k2
    using that
  proof (induction xs arbitrary: t1 c1 k1)
    case (Cons x xs)
    obtain t' c' k' where s: "estimate_step cd req inp x (t1, c1, k1) = (t', c', k')"
      by (metis surj_pair)
    then have "t1 \<le> t' \<and> c1 \<le> c' \<and> (k' \<longrightarrow> k1)"
      by (auto simp: estimate_step_def Let_def split: option.splits)
    with Cons s show ?case by fastforce
  qed simp
  from assms(2) obtain xs ys where ms: "ms = xs @ m # ys" by (meson split_list)
  obtain t1 c1 k1 where f1: "fold (estimate_step cd req inp) xs (t0, c0, k0) = (t1, c1, k1)"
    by (metis surj_pair)
  obtain t2 c2 k2 where f2: "estimate_step cd req inp m (t1, c1, k1) = (t2, c2, k2)" by (metis surj_pair)
  have "fold (estimate_step cd req inp) ys (t2, c2, k2) = (t, c, k)"
    using assms(1) by (simp add: ms f1 f2)
  then have le: "t2 \<le> t" "c2 \<le> c" "k \<longrightarrow> k2" using mono by blast+
  show "sat_add64 inp (output_reservation req m) \<le> t"
    using f2 le(1) by (auto simp: estimate_step_def Let_def split: option.splits)
  show "\<exists>cm. conservative_cost (model_prices cd m) inp (output_reservation req m) = Some cm \<and> cm \<le> c" if k
    using f2 le that by (auto simp: estimate_step_def Let_def split: option.splits)
qed

section \<open>Properties\<close>

lemma seed_ledger_start:
  "kl_active (seed_ledger cd w now minute daily monthly l) = kl_active l"
  "0 \<le> kl_daily_spend l \<Longrightarrow> 0 \<le> kl_daily_spend (seed_ledger cd w now minute daily monthly l)"
  "0 \<le> kl_monthly_spend l \<Longrightarrow> 0 \<le> kl_monthly_spend (seed_ledger cd w now minute daily monthly l)"
  by (auto simp: seed_ledger_def Let_def prune_def roll_periods_def split: option.split)

text \<open>
  C4. Budget safety: from a freshly seeded ledger, through any interleaving of reservations, checks, cancellations and
  reconciliations, with estimates and charges that are not negative, what is spent plus what is reserved in the running
  day is at most the daily budget, or what was already spent when the ledger was seeded if that was more, plus \<open>e\<close>;
  and likewise for the month. \<open>e\<close> is the sum of what reconciled requests were charged beyond their reservation (all of
  the charge, if the estimate was unknown), and nothing else can take a key over its budget: concurrent requests whose
  charges stay within their reservations do not, because a reservation counts from the moment it is granted.
\<close>

theorem budget_safety:
  assumes "l0 = seed_ledger cd w now minute ds ms ledger_default" and "budget_run key l0 l e"
  shows "(\<forall>D d. daily_of key = Some D \<and> kl_daily_day l = Some d \<longrightarrow>
        kl_daily_spend l + reserved ar_day d (kl_active l) \<le> max D (kl_daily_spend l0) + e)
    \<and> (\<forall>M m. monthly_of key = Some M \<and> kl_monthly_key l = Some m \<longrightarrow>
        kl_monthly_spend l + reserved ar_month m (kl_active l) \<le> max M (kl_monthly_spend l0) + e)"
proof -
  have l0: "kl_active l0 = []" "0 \<le> kl_daily_spend l0" "0 \<le> kl_monthly_spend l0"
    unfolding assms(1) by (simp_all add: seed_ledger_start ledger_default_def)
  have day: "exposure ar_day kl_daily_day kl_daily_spend d l \<le> max D (kl_daily_spend l0) + e"
    if "daily_of key = Some D" for D d
    using budget_run_capped(1) [OF assms(2) l0 that] unfolding capped_def by blast
  have month: "exposure ar_month kl_monthly_key kl_monthly_spend m l \<le> max M (kl_monthly_spend l0) + e"
    if "monthly_of key = Some M" for M m
    using budget_run_capped(2) [OF assms(2) l0 that] unfolding capped_def by blast
  show ?thesis
  proof (intro conjI allI impI)
    fix D d assume "daily_of key = Some D \<and> kl_daily_day l = Some d"
    then show "kl_daily_spend l + reserved ar_day d (kl_active l) \<le> max D (kl_daily_spend l0) + e"
      using day [of D d] by (simp add: exposure_def)
  next
    fix M m assume "monthly_of key = Some M \<and> kl_monthly_key l = Some m"
    then show "kl_monthly_spend l + reserved ar_month m (kl_active l) \<le> max M (kl_monthly_spend l0) + e"
      using month [of M m] by (simp add: exposure_def)
  qed
qed

definition demo_key :: "int option \<Rightarrow> f64 option \<Rightarrow> virtual_key_row" where
  "demo_key rpm budget = \<lparr>vk_id = ''k'', vk_key_hash = ''h'', vk_name = ''n'', vk_owner = [],
     vk_tag = [], vk_allowed_models = [], vk_allowed_providers = [], vk_rpm_limit = rpm,
     vk_tpm_limit = None, vk_daily_budget = budget, vk_monthly_budget = None, vk_expires_at = None,
     vk_status = ''active'', vk_allowed_ips = [], vk_body_logging = 0, vk_created_at = [],
     vk_revoked_at = None\<rparr>"

definition demo_wall :: wall_clock where
  "demo_wall = \<lparr>wc_stamp = 0, wc_day = 0, wc_month = (1970, 1)\<rparr>"

lemmas limit_defs = rpm_of_def tpm_of_def daily_of_def monthly_of_def opt_filter_def demo_key_def

text \<open>Of a budget of ten, a request reserves four and is charged five, so one is overrun.\<close>

theorem budget_safety_witness:
  "\<exists>l0 l. budget_run (demo_key None (Some 10)) l0 l 1 \<and> kl_daily_day l = Some 0 \<and> kl_daily_spend l = 5
     \<and> kl_daily_spend l + reserved ar_day 0 (kl_active l) \<le> max 10 (kl_daily_spend l0) + 1"
proof -
  let ?key = "demo_key None (Some 10)" and ?est = "\<lparr>ae_tokens = 5, ae_cost = Some 4\<rparr>"
  obtain cd :: codec where True by blast
  define l0 where "l0 = seed_ledger cd demo_wall 0 (Some []) (Some 0) (Some 0) ledger_default"
  have l0: "l0 = \<lparr>kl_minute = [], kl_active = [], kl_daily_day = Some 0, kl_daily_spend = 0,
     kl_monthly_key = Some (1970, 1), kl_monthly_spend = 0\<rparr>"
    by (simp add: l0_def seed_ledger_def Let_def roll_periods_def prune_def ledger_default_def demo_wall_def)
  define l1 where "l1 = fst (reserve_ledger 1 ?key ?est demo_wall 0 l0)"
  define l2 where "l2 = reconcile_ledger 1 (Some 5) (Some 5) demo_wall 0 l1"
  have l1: "l1 = l0\<lparr>kl_active := [(1, \<lparr>ar_at = 0, ar_tokens = 5, ar_cost = Some 4, ar_day = 0, ar_month = (1970, 1)\<rparr>)]\<rparr>"
    by (simp add: l1_def reserve_ledger_def current_usage_def count_active_def Let_def l0 roll_periods_def prune_def
        demo_wall_def is_some_and_def limit_defs would_exceed_def wrap_sum64_def)
  have "overrun l1 1 (Some 5) = 1" by (simp add: overrun_def l1 l0 opt_or_def unwrap_or_def cost_of_def)
  moreover have "budget_run ?key l0 l1 0"
    unfolding l1_def by (rule budget_run.reserve [OF budget_run.start]) simp
  ultimately have run: "budget_run ?key l0 l2 1"
    using budget_run.reconcile [of ?key l0 l1 0 "Some 5" 1 "Some 5" demo_wall 0] by (simp add: l2_def)
  have l2: "kl_daily_day l2 = Some 0" "kl_daily_spend l2 = 5"
    by (simp_all add: l2_def l1 l0 reconcile_ledger_def settle_def roll_periods_def prune_def demo_wall_def hm_remove_def
        sat_since_def const_defs Let_def opt_or_def unwrap_or_def)
  have "kl_daily_spend l2 + reserved ar_day 0 (kl_active l2) \<le> max 10 (kl_daily_spend l0) + 1"
    using budget_safety [OF l0_def run] l2 by (simp add: limit_defs)
  then show ?thesis using run l2 by blast
qed

text \<open>
  C5. Rate safety: at any time, of the requests that were admitted and not cancelled, at most
  the key's requests-per-minute limit started within the last sixty seconds, however the
  reservations were reconciled.
\<close>

theorem rate_window_safety:
  assumes "window_run key t l H" and "rpm_of key = Some rpm" and "rpm < u64_max"
  shows "size {#x \<in># H. t - x < secs 60#} \<le> rpm"
proof -
  have "recent t x \<longleftrightarrow> t - x < secs 60" for x
    by (simp add: sat_since_def MINUTE_WINDOW_def secs_def)
  then show ?thesis
    using window_run_inv [OF assms(1)] assms(2,3) by (simp add: window_inv_def)
qed

lemmas ledger_eval = reserve_ledger_def reconcile_ledger_def current_usage_def count_active_def settle_def
  roll_periods_def prune_def ledger_default_def demo_wall_def is_some_and_def limit_defs would_exceed_def
  wrap_sum64_def sat_add64_def u64_max_def hm_remove_def sat_since_def const_defs Let_def opt_or_def
  unwrap_or_def

definition small_estimate :: admission_estimate where
  "small_estimate = \<lparr>ae_tokens = 5, ae_cost = None\<rparr>"

text \<open>Two requests start at 0 and 50 seconds; the later one is reconciled first.\<close>

definition led1 :: key_ledger where
  "led1 = \<lparr>kl_minute = [], kl_active = [(1, \<lparr>ar_at = 0, ar_tokens = 5, ar_cost = None, ar_day = 0,
     ar_month = (1970, 1)\<rparr>)], kl_daily_day = Some 0, kl_daily_spend = 0,
     kl_monthly_key = Some (1970, 1), kl_monthly_spend = 0\<rparr>"

definition led4 :: key_ledger where
  "led4 = \<lparr>kl_minute = [\<lparr>mu_at = secs 50, mu_tokens = 5\<rparr>, \<lparr>mu_at = 0, mu_tokens = 5\<rparr>],
     kl_active = [], kl_daily_day = Some 0, kl_daily_spend = 0,
     kl_monthly_key = Some (1970, 1), kl_monthly_spend = 0\<rparr>"

lemma out_of_order_run: "window_run (demo_key (Some 2) None) (secs 59) led4 {#secs 50, 0#}"
proof -
  let ?key = "demo_key (Some 2) None"
  have r0: "window_run ?key 0 ledger_default {#}"
    by (rule window_run.start) (simp add: ledger_default_def)
  have s1: "reserve_ledger 1 ?key small_estimate demo_wall 0 ledger_default = (led1, Inr ())"
    by (simp add: ledger_eval small_estimate_def led1_def)
  have r1: "window_run ?key 0 led1 {#0#}"
    by (rule window_run.admit [OF r0 _ _ s1]) (simp_all add: ledger_default_def)
  define led2 where "led2 = fst (reserve_ledger 2 ?key small_estimate demo_wall (secs 50) led1)"
  have s2: "reserve_ledger 2 ?key small_estimate demo_wall (secs 50) led1 = (led2, Inr ())"
    by (simp add: led2_def ledger_eval small_estimate_def led1_def)
  have r2: "window_run ?key (secs 50) led2 {#secs 50, 0#}"
    by (rule window_run.admit [OF r1 _ _ s2]) (simp_all add: led1_def secs_def)
  have "window_run ?key (secs 59)
      (reconcile_ledger 1 None None demo_wall (secs 59)
        (reconcile_ledger 2 None None demo_wall (secs 51) led2)) {#secs 50, 0#}"
    by (rule window_run.reconcile [OF window_run.reconcile [OF r2]]) (simp_all add: secs_def)
  moreover have "reconcile_ledger 1 None None demo_wall (secs 59)
        (reconcile_ledger 2 None None demo_wall (secs 51) led2) = led4"
    by (simp add: led2_def led4_def ledger_eval small_estimate_def led1_def)
  ultimately show ?thesis by simp
qed

theorem rate_window_safety_witness: "size {#x \<in># {#secs 50, 0#}. secs 59 - x < secs 60#} \<le> 2"
  using rate_window_safety [OF out_of_order_run, of 2]
  by (simp add: limit_defs u64_max_def)

text \<open>
  Reconciliations that finish out of order leave expired entries behind a younger one, where
  pruning from the front does not reach them: a key limited to two requests per minute is refused
  its next request although only one of its requests started within the last sixty seconds.
\<close>

theorem stale_minute_entry_blocks:
  "window_run (demo_key (Some 2) None) (secs 59) led4 {#secs 50, 0#}
   \<and> size {#x \<in># {#secs 50, 0#}. secs 105 - x < secs 60#} = 1
   \<and> snd (reserve_ledger 3 (demo_key (Some 2) None) small_estimate demo_wall (secs 105) led4)
       = Inl (rpm_error 2)"
  using out_of_order_run by (simp add: ledger_eval small_estimate_def led4_def)


definition demo_codec :: codec where
  "demo_codec = \<lparr>de_strings = (\<lambda>_. None), de_headers = (\<lambda>_. None), de_caps = (\<lambda>_. None),
     de_prices = (\<lambda>_. Some \<lparr>input_per_1m = Some 1, output_per_1m = Some 2, cached_per_1m = None,
       cache_write_per_1m = None, thinking_per_1m = None\<rparr>),
     de_thinking = (\<lambda>_. None), de_value = (\<lambda>_. None), de_target_predicate = (\<lambda>_. None),
     de_predicate = (\<lambda>_. None), ser_value = (\<lambda>_. []), parse_dt = (\<lambda>_. None),
     to_rfc3339 = (\<lambda>_. []), url_host = (\<lambda>_. None)\<rparr>"

definition demo_request :: internal_request where
  "demo_request = \<lparr>requested_model = ''gpt'', rq_system = [], rq_messages = [], rq_tools = [],
     rq_tool_choice = None, rq_tool_choice_name = None,
     rq_params = \<lparr>sp_temperature = None, sp_top_p = None, sp_top_k = None, sp_max_tokens = Some 100,
       sp_stop = [], sp_seed = None, sp_presence_penalty = None, sp_frequency_penalty = None\<rparr>,
     rq_stream = False, rq_include_usage = False, rq_thinking = None, rq_extra = [],
     rq_raw_body = None\<rparr>"

definition demo_snapshot :: snapshot where
  "demo_snapshot = snapshot_default\<lparr>sn_models := [(''m1'', demo_model ''m1'' ''p1'' 1)]\<rparr>"


end
