(* ===== verification/Key_Limits.thy ===== *)
theory Key_Limits
  imports Admission "HOL-Library.Word"
begin

text \<open>
  What is checked before a request is admitted: the per-IP abuse limiter
  (\<^verbatim>\<open>src/src/ratelimit.rs\<close>), the key's status, expiry and model policy, and its IP allowlist with
  CIDR matching (\<^verbatim>\<open>src/src/limits.rs\<close>). Addresses are words of 32 and 128 bits; the address and
  integer parsers of the standard library are written out.
\<close>

unbundle bit_operations_syntax

section \<open>Addresses\<close>

datatype ip_addr = V4 "32 word" | V6 "128 word"

definition digit_value :: "nat \<Rightarrow> char \<Rightarrow> nat option" where
  "digit_value radix c =
     (let n = (of_char c :: nat);
          d = (if 48 \<le> n \<and> n \<le> 57 then Some (n - 48)
               else if 97 \<le> n \<and> n \<le> 102 then Some (n - 87)
               else if 65 \<le> n \<and> n \<le> 70 then Some (n - 55) else None)
      in opt_filter (\<lambda>v. v < radix) d)"

fun span_digits :: "nat \<Rightarrow> string \<Rightarrow> nat list \<times> string" where
  "span_digits radix [] = ([], [])"
| "span_digits radix (c # cs) =
     (case digit_value radix c of
        None \<Rightarrow> ([], c # cs)
      | Some d \<Rightarrow> (case span_digits radix cs of (ds, rest) \<Rightarrow> (d # ds, rest)))"

definition number_of :: "nat \<Rightarrow> nat list \<Rightarrow> nat" where
  "number_of radix ds = foldl (\<lambda>a d. a * radix + d) 0 ds"

text \<open>\<^verbatim>\<open>read_number\<close> of the standard address parser: at most \<open>max_digits\<close> digits, a value of at
  most \<open>bound\<close>, and a leading zero only where it is allowed.\<close>

definition read_number :: "nat \<Rightarrow> nat \<Rightarrow> bool \<Rightarrow> nat \<Rightarrow> string \<Rightarrow> (nat \<times> string) option" where
  "read_number radix max_digits allow_zero bound s =
     (case span_digits radix s of (ds, rest) \<Rightarrow>
        if ds = [] \<or> length ds > max_digits \<or> number_of radix ds > bound
           \<or> (\<not> allow_zero \<and> hd ds = 0 \<and> length ds > 1) then None
        else Some (number_of radix ds, rest))"

definition read_char :: "char \<Rightarrow> string \<Rightarrow> string option" where
  "read_char c s = (case s of [] \<Rightarrow> None | x # xs \<Rightarrow> if x = c then Some xs else None)"

fun read_octets :: "nat \<Rightarrow> string \<Rightarrow> (nat list \<times> string) option" where
  "read_octets 0 s = Some ([], s)"
| "read_octets (Suc n) s =
     (case read_number 10 3 False 255 s of
        None \<Rightarrow> None
      | Some (v, r) \<Rightarrow>
          if n = 0 then Some ([v], r)
          else (case read_char (CHR ''.'') r of
                  None \<Rightarrow> None
                | Some r' \<Rightarrow> map_option (\<lambda>(vs, r''). (v # vs, r'')) (read_octets n r')))"

definition read_ipv4 :: "string \<Rightarrow> (nat \<times> string) option" where
  "read_ipv4 s = map_option (\<lambda>(vs, r). (number_of 256 vs, r)) (read_octets 4 s)"

text \<open>\<^verbatim>\<open>read_groups\<close>: up to \<open>n\<close> 16-bit groups separated by colons, the last two possibly as a
  dotted quad; the separator precedes every group but the first. The flag says that a quad ended
  the list.\<close>

fun read_groups :: "nat \<Rightarrow> bool \<Rightarrow> string \<Rightarrow> nat list \<times> bool \<times> string" where
  "read_groups 0 first s = ([], False, s)"
| "read_groups (Suc n) first s =
     (let sep = (if first then Some s else read_char (CHR '':'') s);
          quad = (if n > 0 then Option.bind sep read_ipv4 else None)
      in case quad of
           Some (v, r) \<Rightarrow> ([v div 65536, v mod 65536], True, r)
         | None \<Rightarrow>
             (case Option.bind sep (read_number 16 4 True 65535) of
                None \<Rightarrow> ([], False, s)
              | Some (v, r) \<Rightarrow>
                  (case read_groups n False r of (vs, q, r') \<Rightarrow> (v # vs, q, r'))))"

definition read_ipv6 :: "string \<Rightarrow> (nat \<times> string) option" where
  "read_ipv6 s =
     (case read_groups 8 True s of (h, quad, r) \<Rightarrow>
        if length h = 8 then Some (number_of 65536 h, r)
        else if quad then None
        else (case Option.bind (read_char (CHR '':'') r) (read_char (CHR '':'')) of
                None \<Rightarrow> None
              | Some r' \<Rightarrow>
                  (case read_groups (8 - (length h + 1)) True r' of (tail, _, r'') \<Rightarrow>
                     Some (number_of 65536 (h @ replicate (8 - length h - length tail) 0 @ tail), r''))))"

definition parse_ip :: "string \<Rightarrow> ip_addr option" where
  "parse_ip s =
     (case read_ipv4 s of
        Some (v, r) \<Rightarrow> if r = [] then Some (V4 (of_nat v)) else None
      | None \<Rightarrow>
          (case read_ipv6 s of
             Some (v, r) \<Rightarrow> if r = [] then Some (V6 (of_nat v)) else None
           | None \<Rightarrow> None))"

text \<open>\<^verbatim>\<open>str::parse::<u8>\<close>: an optional plus sign and at least one digit.\<close>

definition parse_u8 :: "string \<Rightarrow> nat option" where
  "parse_u8 s =
     (let body = (case s of c # cs \<Rightarrow> if c = CHR ''+'' then cs else s | [] \<Rightarrow> [])
      in case span_digits 10 body of (ds, rest) \<Rightarrow>
           if ds = [] \<or> rest \<noteq> [] \<or> number_of 10 ds > 255 then None else Some (number_of 10 ds))"

section \<open>Key policy and the IP allowlist\<close>

definition cidr_contains :: "ip_addr \<Rightarrow> nat \<Rightarrow> ip_addr \<Rightarrow> bool" where
  "cidr_contains net prefix ip =
     (case (net, ip) of
        (V4 n, V4 i) \<Rightarrow>
          if prefix > 32 then False
          else let mask = (if prefix = 0 then 0 else push_bit (32 - prefix) (- 1))
               in n AND mask = i AND mask
      | (V6 n, V6 i) \<Rightarrow>
          if prefix > 128 then False
          else let mask = (if prefix = 0 then 0 else push_bit (128 - prefix) (- 1))
               in n AND mask = i AND mask
      | _ \<Rightarrow> False)"

definition ip_matches :: "ip_addr \<Rightarrow> string \<Rightarrow> bool" where
  "ip_matches ip entry =
     (case split_once (CHR ''/'') entry of
        Some (net, prefix) \<Rightarrow>
          (case (parse_ip (trim net), parse_u8 (trim prefix)) of
             (Some n, Some p) \<Rightarrow> cidr_contains n p ip
           | _ \<Rightarrow> False)
      | None \<Rightarrow> is_some_and (\<lambda>e. e = ip) (parse_ip entry))"

definition ip_allowed :: "ip_addr \<Rightarrow> string list \<Rightarrow> bool" where
  "ip_allowed ip allow = list_ex (\<lambda>entry. ip_matches ip (trim entry)) allow"

text \<open>\<open>show_ip\<close> is the display form of an address, used in the message only.\<close>

definition enforce_ip ::
  "codec \<Rightarrow> (ip_addr \<Rightarrow> string) \<Rightarrow> virtual_key_row \<Rightarrow> ip_addr option \<Rightarrow> proxy_error + unit" where
  "enforce_ip cd show_ip key ip =
     (let allow = allowed_ips cd key
      in if allow = [] then Inr ()
         else case ip of
                Some a \<Rightarrow>
                  if ip_allowed a allow then Inr ()
                  else Inl (forbidden (''this virtual key is not permitted from '' @ show_ip a))
              | None \<Rightarrow>
                  Inl (forbidden ''this virtual key requires an IP allowlist match but no client IP could be determined''))"

text \<open>\<open>hdr\<close> gives the value of a header when it is present and visible ASCII.\<close>

definition client_ip :: "(string \<Rightarrow> string option) \<Rightarrow> ip_addr option" where
  "client_ip hdr =
     (case Option.bind (hdr ''cf-connecting-ip'') (\<lambda>v. parse_ip (trim v)) of
        Some ip \<Rightarrow> Some ip
      | None \<Rightarrow>
          (case Option.bind (hdr ''x-forwarded-for'') (\<lambda>v. parse_ip (trim (hd (split_char (CHR '','') v)))) of
             Some ip \<Rightarrow> Some ip
           | None \<Rightarrow> Option.bind (hdr ''x-real-ip'') (\<lambda>v. parse_ip (trim v))))"

definition validate_key :: "codec \<Rightarrow> nanos \<Rightarrow> virtual_key_row \<Rightarrow> string \<Rightarrow> proxy_error + unit" where
  "validate_key cd now key model =
     (if vk_status key = ''revoked'' then Inl (pe_unauthorized ''this virtual key has been revoked'')
      else if vk_status key = ''disabled'' then Inl (forbidden ''this virtual key is disabled'')
      else case opt_filter (\<lambda>e. e \<le> now) (Option.bind (vk_expires_at key) (parse_dt cd)) of
             Some e \<Rightarrow> Inl (pe_unauthorized (''this virtual key expired on '' @ to_rfc3339 cd e))
           | None \<Rightarrow>
               if \<not> permits_model cd key model
               then Inl (forbidden (''this key is not allowed to use model '' @ quoted model))
               else Inr ())"

definition limits_reserve ::
  "codec \<Rightarrow> snapshot \<Rightarrow> virtual_key_row \<Rightarrow> internal_request \<Rightarrow> (string \<times> int) list option
     \<Rightarrow> f64 option \<Rightarrow> f64 option \<Rightarrow> wall_clock \<Rightarrow> nanos \<Rightarrow> admission_controller
     \<Rightarrow> admission_controller \<times> (proxy_error + nat)" where
  "limits_reserve cd snap key req minute daily monthly w now ctl =
     (case validate_key cd (wc_stamp w) key (requested_model req) of
        Inl e \<Rightarrow> (ctl, Inl e)
      | Inr () \<Rightarrow> admission_reserve cd snap key req minute daily monthly w now ctl)"

section \<open>The per-IP limiter\<close>

definition MAX_ENTRIES :: nat where [const_defs]: "MAX_ENTRIES = 100000"

record ip_window =
  iw_started :: nanos
  iw_count :: nat

record ip_limiter =
  il_limit :: nat
  il_map :: "(string, ip_window) hash_map"
  il_limited :: nat

definition IP_WINDOW :: nanos where [const_defs]: "IP_WINDOW = secs 60"

definition ip_limiter_new :: "nat \<Rightarrow> ip_limiter" where
  "ip_limiter_new limit = \<lparr>il_limit = limit, il_map = [], il_limited = 0\<rparr>"

definition sweep :: "nanos \<Rightarrow> (string, ip_window) hash_map \<Rightarrow> (string, ip_window) hash_map" where
  "sweep now m = filter (\<lambda>e. sat_since now (iw_started (snd e)) < IP_WINDOW * 2) m"

text \<open>The entry a request of this address works on, after it has been counted.\<close>

definition bump_window :: "nanos \<Rightarrow> ip_window option \<Rightarrow> ip_window" where
  "bump_window now e =
     (let w = (case e of None \<Rightarrow> \<lparr>iw_started = now, iw_count = 0\<rparr> | Some w \<Rightarrow> w);
          w' = (if sat_since now (iw_started w) \<ge> IP_WINDOW
                then \<lparr>iw_started = now, iw_count = 0\<rparr> else w)
      in w'\<lparr>iw_count := wrap_add64 (iw_count w') 1\<rparr>)"

definition ip_check :: "nanos \<Rightarrow> string option \<Rightarrow> ip_limiter \<Rightarrow> ip_limiter \<times> (nat + unit)" where
  "ip_check now ip l =
     (if il_limit l = 0 then (l, Inr ())
      else case ip of
             None \<Rightarrow> (l, Inr ())
           | Some a \<Rightarrow>
               let m = (if length (il_map l) > MAX_ENTRIES then sweep now (il_map l) else il_map l);
                   w = bump_window now (map_of m a);
                   l' = l\<lparr>il_map := hm_insert a w m\<rparr>
               in if iw_count w > il_limit l
                  then (l'\<lparr>il_limited := wrap_add64 (il_limited l) 1\<rparr>,
                        Inl (max 1 (60 - nat (sat_since now (iw_started w) div 1000000000))))
                  else (l', Inr ()))"

section \<open>Lemmas\<close>

lemma masked_eq_iff:
  fixes a b :: "'a::len word"
  shows "a AND push_bit k (- 1) = b AND push_bit k (- 1) \<longleftrightarrow> drop_bit k a = drop_bit k b"
proof -
  have "a AND push_bit k (- 1) = b AND push_bit k (- 1) \<longleftrightarrow> (\<forall>n\<ge>k. n < LENGTH('a) \<longrightarrow> bit a n = bit b n)"
    by (auto simp: bit_eq_iff bit_simps)
  also have "\<dots> \<longleftrightarrow> drop_bit k a = drop_bit k b"
  proof
    assume "\<forall>n\<ge>k. n < LENGTH('a) \<longrightarrow> bit a n = bit b n"
    then have "bit a (k + n) = bit b (k + n)" for n
      by (cases "k + n < LENGTH('a)") (auto dest: bit_imp_le_length)
    then show "drop_bit k a = drop_bit k b" by (simp add: bit_eq_iff bit_drop_bit_eq)
  next
    assume e: "drop_bit k a = drop_bit k b"
    have "bit a (k + m) = bit b (k + m)" for m
      using arg_cong [OF e, of "\<lambda>w. bit w m"] by (simp add: bit_drop_bit_eq)
    then show "\<forall>n\<ge>k. n < LENGTH('a) \<longrightarrow> bit a n = bit b n" by (metis le_add_diff_inverse)
  qed
  finally show ?thesis .
qed

lemma masked_not_eq_iff:
  fixes a b :: "'a::len word"
  shows "a AND NOT (mask k) = b AND NOT (mask k) \<longleftrightarrow> drop_bit k a = drop_bit k b"
  using masked_eq_iff [of a k b] by simp

section \<open>Properties of the allowlist\<close>

text \<open>
  A CIDR range contains exactly the addresses of its own family that agree with the network in
  the prefix bits, that is, after dropping the host bits; an oversized prefix contains nothing,
  and the prefix zero contains the whole family.
\<close>

theorem cidr_contains_prefix:
  "cidr_contains (V4 n) p (V4 i) = (p \<le> 32 \<and> drop_bit (32 - p) n = drop_bit (32 - p) i)
   \<and> cidr_contains (V6 n') p (V6 i') = (p \<le> 128 \<and> drop_bit (128 - p) n' = drop_bit (128 - p) i')
   \<and> \<not> cidr_contains (V4 n) p (V6 i') \<and> \<not> cidr_contains (V6 n') p (V4 i)"
proof -
  have z: "drop_bit 32 w = (0 :: 32 word)" "drop_bit 128 w' = (0 :: 128 word)" for w w'
    by (simp_all add: bit_eq_iff bit_drop_bit_eq)
  show ?thesis
    by (auto simp: cidr_contains_def Let_def masked_not_eq_iff z)
qed

text \<open>
  The allowlist fails closed: a key with a non-empty list is only usable from a known address
  that matches one of its entries, and every refusal is a 403; a key with no list is usable from
  anywhere.
\<close>

theorem enforce_ip_spec:
  "enforce_ip cd show_ip key ip = Inr () \<longleftrightarrow>
     allowed_ips cd key = [] \<or>
     (\<exists>a. ip = Some a \<and> (\<exists>e \<in> set (allowed_ips cd key). ip_matches a (trim e)))"
  by (auto simp: enforce_ip_def Let_def ip_allowed_def list_ex_iff split: option.splits if_splits)

text \<open>
  An allowlist column that is not valid JSON switches the allowlist off: the key is then
  accepted from every address and from an unknown one.
\<close>

theorem malformed_allowlist_fails_open:
  assumes "de_strings cd (vk_allowed_ips key) = None"
  shows "enforce_ip cd show_ip key ip = Inr ()"
  using assms by (simp add: enforce_ip_def allowed_ips_def unwrap_or_def)

theorem malformed_allowlist_fails_open_witness:
  "enforce_ip demo_codec (\<lambda>_. []) (demo_key None None) None = Inr ()"
  by (rule malformed_allowlist_fails_open) (simp add: demo_codec_def)

section \<open>Properties of the limiter\<close>

text \<open>
  A run of \<open>n\<close> checks seen from one address: \<open>A\<close> collects the times at which it was let through.
  Clock readings do not go back; requests of other addresses interleave freely.
\<close>

inductive ip_run :: "nat \<Rightarrow> string \<Rightarrow> nat \<Rightarrow> nanos \<Rightarrow> ip_limiter \<Rightarrow> nanos list \<Rightarrow> bool" for limit a where
  start: "ip_run limit a 0 t (ip_limiter_new limit) []"
| pass: "ip_run limit a n t l A \<Longrightarrow> t \<le> now \<Longrightarrow> ip_check now (Some a) l = (l', Inr ()) \<Longrightarrow>
     ip_run limit a (Suc n) now l' (now # A)"
| refuse: "ip_run limit a n t l A \<Longrightarrow> t \<le> now \<Longrightarrow> ip_check now (Some a) l = (l', Inl r) \<Longrightarrow>
     ip_run limit a (Suc n) now l' A"
| other: "ip_run limit a n t l A \<Longrightarrow> t \<le> now \<Longrightarrow> ip \<noteq> Some a \<Longrightarrow>
     ip_run limit a (Suc n) now (fst (ip_check now ip l)) A"

text \<open>
  The window of an address and the passes it accounts for: the passes since the window started,
  and those of the minute before it.
\<close>

definition ip_inv :: "nat \<Rightarrow> nat \<Rightarrow> nanos \<Rightarrow> ip_window option \<Rightarrow> nanos list \<Rightarrow> bool" where
  "ip_inv limit n t e A \<longleftrightarrow> (\<forall>x \<in> set A. x \<le> t) \<and>
     (case e of
        None \<Rightarrow> (\<forall>x \<in> set A. x + IP_WINDOW \<le> t)
      | Some w \<Rightarrow> iw_started w \<le> t \<and> iw_count w \<le> n \<and> (\<forall>x \<in> set A. x < iw_started w + IP_WINDOW)
          \<and> length (filter (\<lambda>x. iw_started w \<le> x) A) \<le> min limit (iw_count w)
          \<and> length (filter (\<lambda>x. iw_started w - IP_WINDOW < x \<and> x < iw_started w) A) \<le> limit)"

lemma IP_WINDOW_pos: "0 < IP_WINDOW"
  by (simp add: IP_WINDOW_def secs_def)

lemma ip_inv_later: "ip_inv limit n t e A \<Longrightarrow> t \<le> now \<Longrightarrow> ip_inv limit n now e A"
  by (auto simp: ip_inv_def split: option.splits)

lemma ip_inv_swept:
  assumes "ip_inv limit n now (map_of m a) A" and "distinct (map fst m)"
  shows "ip_inv limit n now (map_of (sweep now m) a) A"
proof (cases "map_of (sweep now m) a = map_of m a")
  case False
  have ds: "distinct (map fst (sweep now m))"
    using assms(2) by (simp add: sweep_def distinct_map_filter)
  obtain w where w: "map_of m a = Some w"
  proof (cases "map_of m a")
    case None
    then have "map_of (sweep now m) a = None"
      unfolding sweep_def map_of_eq_None_iff by auto
    with None False show ?thesis by simp
  qed
  have "\<not> sat_since now (iw_started w) < IP_WINDOW * 2"
  proof
    assume "sat_since now (iw_started w) < IP_WINDOW * 2"
    then have "(a, w) \<in> set (sweep now m)" using map_of_SomeD [OF w] by (simp add: sweep_def)
    then show False using False w ds by (simp add: map_of_eq_Some_iff)
  qed
  then have old: "iw_started w + 2 * IP_WINDOW \<le> now"
    using IP_WINDOW_pos by (auto simp: sat_since_def)
  have gone: "map_of (sweep now m) a = None"
  proof (cases "map_of (sweep now m) a")
    case (Some w')
    then have "map_of m a = Some w'"
      using assms(2) map_of_SomeD [OF Some] by (simp add: sweep_def map_of_eq_Some_iff)
    with Some False show ?thesis by simp
  qed
  show ?thesis
    using assms(1) old unfolding gone by (fastforce simp: ip_inv_def w)
qed (use assms in simp)

lemma filter_none: "(\<And>x. x \<in> set A \<Longrightarrow> \<not> P x) \<Longrightarrow> length (filter P A) = 0"
  by (simp add: filter_empty_conv)

lemma filter_le_filter: "(\<And>x. x \<in> set A \<Longrightarrow> P x \<Longrightarrow> Q x) \<Longrightarrow> length (filter P A) \<le> length (filter Q A)"
  by (induction A) (auto simp: le_SucI)

lemma filter_split_le:
  "(\<And>x. x \<in> set A \<Longrightarrow> P x \<Longrightarrow> Q x \<or> R x) \<Longrightarrow> length (filter P A) \<le> length (filter Q A) + length (filter R A)"
  by (induction A) (auto simp: le_SucI)

text \<open>A window that starts now accounts for nothing yet, and the minute before it for at most the
  previous window.\<close>

lemma fresh_window:
  assumes "ip_inv limit n now e A"
    and "\<And>w. e = Some w \<Longrightarrow> iw_started w + IP_WINDOW \<le> now"
  shows "length (filter (\<lambda>x. now \<le> x) A) = 0"
    and "length (filter (\<lambda>x. now - IP_WINDOW < x \<and> x < now) A) \<le> limit"
    and "x \<in> set A \<Longrightarrow> x < now"
proof -
  have old: "x < now" if "x \<in> set A" for x
    using assms that IP_WINDOW_pos by (cases e) (fastforce simp: ip_inv_def)+
  then show "x \<in> set A \<Longrightarrow> x < now" .
  show "length (filter (\<lambda>x. now \<le> x) A) = 0"
    by (rule filter_none) (use old in force)
  show "length (filter (\<lambda>x. now - IP_WINDOW < x \<and> x < now) A) \<le> limit"
  proof (cases e)
    case None
    then have "length (filter (\<lambda>x. now - IP_WINDOW < x \<and> x < now) A) = 0"
      using assms(1) by (intro filter_none) (auto simp: ip_inv_def)
    then show ?thesis by simp
  next
    case (Some w)
    have "length (filter (\<lambda>x. now - IP_WINDOW < x \<and> x < now) A)
        \<le> length (filter (\<lambda>x. iw_started w \<le> x) A)"
      using assms(2) [OF Some] by (intro filter_le_filter) auto
    also have "\<dots> \<le> limit" using assms(1) by (simp add: ip_inv_def Some)
    finally show ?thesis .
  qed
qed

lemma bump_inv:
  assumes inv: "ip_inv limit n now e A" and n: "n < u64_max"
  defines "w \<equiv> bump_window now e"
  shows "ip_inv limit (Suc n) now (Some w) A"
    and "iw_count w \<le> limit \<Longrightarrow> ip_inv limit (Suc n) now (Some w) (now # A)"
proof -
  consider (live) w0 where "e = Some w0" "now < iw_started w0 + IP_WINDOW"
    | (fresh) "\<And>w. e = Some w \<Longrightarrow> iw_started w + IP_WINDOW \<le> now"
    by (cases e) force+
  then have "ip_inv limit (Suc n) now (Some w) A
      \<and> (iw_count w \<le> limit \<longrightarrow> ip_inv limit (Suc n) now (Some w) (now # A))"
  proof cases
    case live
    have i: "iw_started w0 \<le> now" "iw_count w0 \<le> n" using inv by (simp_all add: ip_inv_def live(1))
    then have "sat_since now (iw_started w0) < IP_WINDOW"
      using live(2) by (simp add: sat_since_def)
    then have w: "w = w0\<lparr>iw_count := Suc (iw_count w0)\<rparr>"
      using i(2) n by (simp add: w_def bump_window_def live(1) Let_def wrap_add64_exact)
    show ?thesis using inv live(2) i by (auto simp: ip_inv_def live(1) w)
  next
    case fresh
    have w: "w = \<lparr>iw_started = now, iw_count = 1\<rparr>"
      using fresh IP_WINDOW_pos
      by (cases e) (auto simp: w_def bump_window_def Let_def sat_since_def wrap_add64_def)
    have "x < now + IP_WINDOW" if "x \<in> set A" for x
      using fresh_window(3) [OF inv fresh] that IP_WINDOW_pos by fastforce
    then show ?thesis
      using fresh_window(1,2) [OF inv fresh] inv IP_WINDOW_pos by (auto simp: ip_inv_def w)
  qed
  then show "ip_inv limit (Suc n) now (Some w) A"
    "iw_count w \<le> limit \<Longrightarrow> ip_inv limit (Suc n) now (Some w) (now # A)" by blast+
qed

lemma ip_check_cases:
  assumes "il_limit l \<noteq> 0" and "distinct (map fst (il_map l))"
  obtains m where "m = il_map l \<or> m = sweep now (il_map l)" "distinct (map fst m)"
    "il_map (fst (ip_check now (Some a) l)) = hm_insert a (bump_window now (map_of m a)) m"
    "snd (ip_check now (Some a) l) = Inr () \<longleftrightarrow> iw_count (bump_window now (map_of m a)) \<le> il_limit l"
    "il_limit (fst (ip_check now (Some a) l)) = il_limit l"
proof -
  let ?m = "if length (il_map l) > MAX_ENTRIES then sweep now (il_map l) else il_map l"
  have "distinct (map fst ?m)" using assms(2) by (simp add: sweep_def distinct_map_filter)
  then show ?thesis
    using that [of ?m] assms(1) by (simp add: ip_check_def Let_def not_le)
qed

lemma ip_run_inv:
  assumes "ip_run limit a n t l A" and "0 < limit"
  shows "il_limit l = limit \<and> distinct (map fst (il_map l))
    \<and> (n \<le> u64_max \<longrightarrow> ip_inv limit n t (map_of (il_map l) a) A)"
  using assms(1)
proof induction
  case (start t)
  then show ?case by (simp add: ip_limiter_new_def ip_inv_def)
next
  case (pass n t l A now l')
  note ok = pass.IH and chk = pass.hyps
  obtain m where m: "m = il_map l \<or> m = sweep now (il_map l)" "distinct (map fst m)"
    "il_map l' = hm_insert a (bump_window now (map_of m a)) m" "il_limit l' = limit"
    "iw_count (bump_window now (map_of m a)) \<le> limit"
    using ip_check_cases [of l now a] ok chk(3) assms(2) by (metis fst_conv snd_conv not_less_zero)
  have "ip_inv limit n now (map_of m a) A" if "n \<le> u64_max"
    using ip_inv_later ip_inv_swept m(1) ok chk(2) that by metis
  then show ?case
    using m bump_inv(2) [of limit n now "map_of m a" A] by (simp add: map_of_hm_insert distinct_hm_insert)
next
  case (refuse n t l A now l' r)
  note ok = refuse.IH and chk = refuse.hyps
  obtain m where m: "m = il_map l \<or> m = sweep now (il_map l)" "distinct (map fst m)"
    "il_map l' = hm_insert a (bump_window now (map_of m a)) m" "il_limit l' = limit"
    using ip_check_cases [of l now a] ok chk(3) assms(2) by (metis fst_conv not_less_zero)
  have "ip_inv limit n now (map_of m a) A" if "n \<le> u64_max"
    using ip_inv_later ip_inv_swept m(1) ok chk(2) that by metis
  then show ?case
    using m bump_inv(1) [of limit n now "map_of m a" A] by (simp add: map_of_hm_insert distinct_hm_insert)
next
  case (other n t l A now ip)
  have mono: "ip_inv limit n now e A \<Longrightarrow> ip_inv limit (Suc n) now e A" for e
    by (auto simp: ip_inv_def split: option.splits)
  show ?case
  proof (cases ip)
    case None
    then show ?thesis
      using other ip_inv_later mono assms(2) by (auto simp: ip_check_def)
  next
    case (Some b)
    obtain m where m: "m = il_map l \<or> m = sweep now (il_map l)" "distinct (map fst m)"
      "il_map (fst (ip_check now (Some b) l)) = hm_insert b (bump_window now (map_of m b)) m"
      "il_limit (fst (ip_check now (Some b) l)) = limit"
      using ip_check_cases [of l now b] other.IH assms(2) by (metis not_less_zero)
    have "ip_inv limit n now (map_of m a) A" if "n \<le> u64_max"
      using ip_inv_later ip_inv_swept m(1) other.IH other.hyps(2) that by metis
    then have "Suc n \<le> u64_max \<longrightarrow> ip_inv limit (Suc n) now (map_of m a) A" using mono by simp
    with m(2-4) Some other.hyps(3) show ?thesis
      by (simp add: map_of_hm_insert distinct_hm_insert)
  qed
qed

text \<open>
  Fixed windows bound bursts: however checks of many addresses interleave and whatever is
  swept meanwhile, one address is let through at most twice the limit within any sixty seconds.
\<close>

theorem ip_limiter_burst_bound:
  assumes "ip_run limit a n t l A" and "0 < limit" and "n \<le> u64_max"
  shows "length (filter (\<lambda>x. t - secs 60 < x) A) \<le> 2 * limit"
proof -
  have inv: "ip_inv limit n t (map_of (il_map l) a) A" using ip_run_inv [OF assms(1,2)] assms(3) by blast
  show ?thesis
  proof (cases "map_of (il_map l) a")
    case None
    then have "length (filter (\<lambda>x. t - secs 60 < x) A) = 0"
      using inv by (intro filter_none) (auto simp: ip_inv_def IP_WINDOW_def)
    then show ?thesis by simp
  next
    case (Some w)
    have "length (filter (\<lambda>x. t - secs 60 < x) A) \<le> length (filter (\<lambda>x. iw_started w \<le> x) A)
        + length (filter (\<lambda>x. iw_started w - IP_WINDOW < x \<and> x < iw_started w) A)"
      using inv by (intro filter_split_le) (auto simp: ip_inv_def Some IP_WINDOW_def)
    also have "\<dots> \<le> limit + limit" using inv by (intro add_mono) (simp_all add: ip_inv_def Some)
    finally show ?thesis by simp
  qed
qed

theorem ip_limiter_burst_bound_witness:
  "\<exists>l. ip_run 1 ''x'' 1 0 l [0] \<and> length (filter (\<lambda>x. 0 - secs 60 < x) [0]) \<le> 2 * 1"
proof -
  let ?r = "ip_check 0 (Some ''x'') (ip_limiter_new 1)"
  have "?r = (fst ?r, Inr ())"
    by (simp add: ip_check_def ip_limiter_new_def bump_window_def sat_since_def const_defs Let_def wrap_add64_def)
  then have "ip_run 1 ''x'' (Suc 0) 0 (fst ?r) [0]"
    by (rule ip_run.pass [OF ip_run.start order_refl])
  then show ?thesis using ip_limiter_burst_bound [of 1 "''x''" 1 0 "fst ?r" "[0]"] by (auto simp: u64_max_def)
qed

text \<open>
  The cap on tracked addresses is not a bound: any number of distinct addresses checked at one
  instant is tracked, because sweeping only removes windows older than two minutes.
\<close>

definition flood :: "string list \<Rightarrow> ip_limiter \<Rightarrow> ip_limiter" where
  "flood ips l = fold (\<lambda>a s. fst (ip_check 0 (Some a) s)) ips l"

lemma ip_check_fresh:
  assumes "il_limit l \<noteq> 0" and "hm_all (\<lambda>w. iw_started w = 0) (il_map l)" and "a \<notin> fst ` set (il_map l)"
  shows "il_map (fst (ip_check 0 (Some a) l)) = il_map l @ [(a, \<lparr>iw_started = 0, iw_count = 1\<rparr>)]"
    and "il_limit (fst (ip_check 0 (Some a) l)) = il_limit l"
proof -
  have "sweep 0 (il_map l) = il_map l"
    using assms(2) by (auto simp: sweep_def hm_all_def filter_id_conv sat_since_def const_defs)
  moreover have "map_of (il_map l) a = None" using assms(3) by (simp add: map_of_eq_None_iff)
  ultimately show "il_map (fst (ip_check 0 (Some a) l)) = il_map l @ [(a, \<lparr>iw_started = 0, iw_count = 1\<rparr>)]"
    "il_limit (fst (ip_check 0 (Some a) l)) = il_limit l"
    using assms(1,3)
    by (simp_all add: ip_check_def Let_def bump_window_def hm_insert_fresh sat_since_def const_defs
        wrap_add64_def)
qed

theorem tracked_addresses_unbounded:
  assumes "distinct ips" and "0 < limit"
  shows "length (il_map (flood ips (ip_limiter_new limit))) = length ips"
proof -
  have "length (il_map (flood xs l)) = length (il_map l) + length xs"
    if "distinct xs" "set xs \<inter> fst ` set (il_map l) = {}" "il_limit l \<noteq> 0"
      "hm_all (\<lambda>w. iw_started w = 0) (il_map l)" for xs l
    using that
  proof (induction xs arbitrary: l)
    case (Cons a xs)
    let ?l = "fst (ip_check 0 (Some a) l)"
    have l: "il_map ?l = il_map l @ [(a, \<lparr>iw_started = 0, iw_count = 1\<rparr>)]" "il_limit ?l = il_limit l"
      using ip_check_fresh [of l a] Cons.prems by auto
    have "hm_all (\<lambda>w. iw_started w = 0) (il_map ?l)" using Cons.prems(4) by (simp add: l hm_all_def)
    then have "length (il_map (flood xs ?l)) = length (il_map ?l) + length xs"
      using Cons.prems by (intro Cons.IH) (auto simp: l)
    then show ?case by (simp add: flood_def l)
  qed (simp add: flood_def)
  from this [of ips "ip_limiter_new limit"] assms show ?thesis by (simp add: ip_limiter_new_def)
qed

theorem tracked_addresses_unbounded_witness:
  "length (il_map (flood (map (\<lambda>n. replicate n (CHR ''a'')) [0..<100002]) (ip_limiter_new 1))) = 100002
     \<and> MAX_ENTRIES < 100002"
proof -
  have "distinct (map (\<lambda>n. replicate n (CHR ''a'')) [0..<100002])"
    by (simp add: distinct_map inj_on_def replicate_eq_replicate)
  then have "length (il_map (flood (map (\<lambda>n. replicate n (CHR ''a'')) [0..<100002]) (ip_limiter_new 1)))
      = length (map (\<lambda>n. replicate n (CHR ''a'')) [0..<100002])"
    by (rule tracked_addresses_unbounded) simp
  then show ?thesis by (simp add: MAX_ENTRIES_def)
qed

end
