(* ===== verification/Upstream_Traffic.thy ===== *)
theory Upstream_Traffic
  imports Kinetix_Prelude
begin

text \<open>
  Adaptive upstream concurrency (\<^verbatim>\<open>src/src/upstream_traffic.rs\<close>): the controller of one
  provider/account/model target with its limit, its in-flight count and its moving averages, and
  the permits that hold a slot. A call runs under the controller's lock and is one step; waiting
  for a notification changes nothing, so an acquisition is its successful or last attempt. A
  target's run is a sequence of such steps over the controller and every permit granted by it.
\<close>

section \<open>Definitions\<close>

definition INITIAL_LIMIT :: f64 where [const_defs]: "INITIAL_LIMIT = 4"
definition MIN_LIMIT :: f64 where [const_defs]: "MIN_LIMIT = 1"
definition MAX_LIMIT :: f64 where [const_defs]: "MAX_LIMIT = 64"
definition GRADIENT_TOLERANCE :: f64 where [const_defs]: "GRADIENT_TOLERANCE = 3 / 2"
definition LIMIT_SMOOTHING :: f64 where [const_defs]: "LIMIT_SMOOTHING = 1 / 5"
definition QUEUE_ALLOWANCE_RATIO :: f64 where [const_defs]: "QUEUE_ALLOWANCE_RATIO = 1 / 5"
definition MAX_QUEUE_ALLOWANCE :: f64 where [const_defs]: "MAX_QUEUE_ALLOWANCE = 4"
definition LIMIT_UPDATE_INTERVAL :: nanos where [const_defs]: "LIMIT_UPDATE_INTERVAL = secs 1"
definition OVERLOAD_BACKOFF :: f64 where [const_defs]: "OVERLOAD_BACKOFF = 7 / 10"
definition TIMEOUT_BACKOFF :: f64 where [const_defs]: "TIMEOUT_BACKOFF = 4 / 5"
definition FAST_TAU :: nanos where [const_defs]: "FAST_TAU = secs 10"
definition SLOW_TAU :: nanos where [const_defs]: "SLOW_TAU = secs 120"
definition FAILURE_TAU :: nanos where [const_defs]: "FAILURE_TAU = secs 60"
definition FAILURE_DECAY_HORIZON :: nanos where [const_defs]: "FAILURE_DECAY_HORIZON = secs 300"
definition TTFT_STALE_HORIZON :: nanos where [const_defs]: "TTFT_STALE_HORIZON = secs 300"
definition F64_EPSILON :: f64 where [const_defs]: "F64_EPSILON = 1 / 4503599627370496"

record target_key =
  tk_provider_id :: string
  tk_account_id :: string
  tk_model_id :: string

datatype traffic_outcome = T_Success | T_Overload | T_Timeout | T_Error | T_Neutral | T_Cancelled

record traffic_snapshot =
  ts_estimated_limit :: nat
  ts_inflight :: nat
  ts_has_capacity :: bool
  ts_fast_ttft_ms :: "f64 option"
  ts_slow_ttft_ms :: "f64 option"
  ts_overload_ewma :: f64
  ts_error_ewma :: f64
  ts_ttft_samples :: nat
  ts_overload_observations :: nat
  ts_error_observations :: nat

record time_ewma =
  te_value :: "f64 option"
  te_updated_at :: "nanos option"

definition ewma_default :: time_ewma where
  "ewma_default = \<lparr>te_value = None, te_updated_at = None\<rparr>"

definition as_secs_f64 :: "nanos \<Rightarrow> f64" where
  "as_secs_f64 d = of_int d / 1000000000"

definition ewma_update :: "f64 \<Rightarrow> nanos \<Rightarrow> nanos \<Rightarrow> time_ewma \<Rightarrow> time_ewma" where
  "ewma_update sample tau now e =
     \<lparr>te_value = Some (case (te_value e, te_updated_at e) of
        (Some cur, Some previous) \<Rightarrow>
          let dt = as_secs_f64 (sat_since now previous);
              t = max (as_secs_f64 tau) F64_EPSILON;
              alpha = 1 - exp (- dt / t)
          in cur + alpha * (sample - cur)
      | _ \<Rightarrow> sample),
      te_updated_at = Some now\<rparr>"

definition ewma_value_or :: "f64 \<Rightarrow> time_ewma \<Rightarrow> f64" where
  "ewma_value_or d e = unwrap_or (te_value e) d"

definition update_failure :: "f64 \<Rightarrow> nanos \<Rightarrow> time_ewma \<Rightarrow> time_ewma" where
  "update_failure sample now e =
     (if is_some_and (\<lambda>u. sat_since now u \<ge> FAILURE_DECAY_HORIZON) (te_updated_at e)
      then \<lparr>te_value = Some sample, te_updated_at = Some now\<rparr>
      else ewma_update sample FAILURE_TAU now e)"

definition decayed_toward_zero :: "nanos \<Rightarrow> nanos \<Rightarrow> time_ewma \<Rightarrow> f64" where
  "decayed_toward_zero tau now e =
     (case te_value e of
        None \<Rightarrow> 0
      | Some v \<Rightarrow>
          (case te_updated_at e of
             None \<Rightarrow> v
           | Some u \<Rightarrow>
               let elapsed = sat_since now u
               in if elapsed \<ge> FAILURE_DECAY_HORIZON then 0
                  else v * exp (- as_secs_f64 elapsed / max (as_secs_f64 tau) F64_EPSILON)))"

record controller =
  tc_limit :: f64
  tc_inflight :: nat
  tc_fast_ttft :: time_ewma
  tc_slow_ttft :: time_ewma
  tc_overload :: time_ewma
  tc_error :: time_ewma
  tc_ttft_samples :: nat
  tc_overload_observations :: nat
  tc_error_observations :: nat
  tc_provisional_healthy :: "(nat \<times> nanos) list"
  tc_next_provisional_id :: nat
  tc_overload_failure_at :: "nanos option"
  tc_error_failure_at :: "nanos option"
  tc_last_limit_update :: "nanos option"
  tc_window_max_inflight :: nat

definition controller_default :: controller where
  "controller_default = \<lparr>tc_limit = INITIAL_LIMIT, tc_inflight = 0, tc_fast_ttft = ewma_default,
     tc_slow_ttft = ewma_default, tc_overload = ewma_default, tc_error = ewma_default,
     tc_ttft_samples = 0, tc_overload_observations = 0, tc_error_observations = 0,
     tc_provisional_healthy = [], tc_next_provisional_id = 0, tc_overload_failure_at = None,
     tc_error_failure_at = None, tc_last_limit_update = None, tc_window_max_inflight = 0\<rparr>"

definition capacity :: "controller \<Rightarrow> nat" where
  "capacity c = nat \<lfloor>clampf (of_int \<lfloor>tc_limit c\<rfloor>) MIN_LIMIT MAX_LIMIT\<rfloor>"

text \<open>
  The youngest provisional success, and whether it is younger than the last failure of a kind.
  The \<^verbatim>\<open>BTreeMap\<close> of provisional successes is its list of entries; only the maximum of
  its values is read.
\<close>

definition latest_provisional :: "controller \<Rightarrow> nanos option" where
  "latest_provisional c =
     (case map snd (tc_provisional_healthy c) of [] \<Rightarrow> None | p # ps \<Rightarrow> Some (fold max ps p))"

definition provisional_masks :: "controller \<Rightarrow> nanos option \<Rightarrow> bool" where
  "provisional_masks c failure_at =
     is_some_and (\<lambda>p. case failure_at of None \<Rightarrow> True | Some f \<Rightarrow> p > f) (latest_provisional c)"

definition traffic_snapshot_at :: "nanos \<Rightarrow> controller \<Rightarrow> traffic_snapshot" where
  "traffic_snapshot_at now c =
     (let ttft_recent = is_some_and (\<lambda>u. sat_since now u < TTFT_STALE_HORIZON) (te_updated_at (tc_fast_ttft c))
      in \<lparr>ts_estimated_limit = capacity c, ts_inflight = tc_inflight c,
          ts_has_capacity = (tc_inflight c < capacity c),
          ts_fast_ttft_ms = (if ttft_recent then te_value (tc_fast_ttft c) else None),
          ts_slow_ttft_ms = (if ttft_recent then te_value (tc_slow_ttft c) else None),
          ts_overload_ewma = (if provisional_masks c (tc_overload_failure_at c) then 0
                              else decayed_toward_zero FAILURE_TAU now (tc_overload c)),
          ts_error_ewma = (if provisional_masks c (tc_error_failure_at c) then 0
                           else decayed_toward_zero FAILURE_TAU now (tc_error c)),
          ts_ttft_samples = tc_ttft_samples c,
          ts_overload_observations = tc_overload_observations c,
          ts_error_observations = tc_error_observations c\<rparr>)"

definition release :: "controller \<Rightarrow> controller" where
  "release c = c\<lparr>tc_inflight := tc_inflight c - 1\<rparr>"

definition begin_provisional_healthy :: "nanos \<Rightarrow> controller \<Rightarrow> controller \<times> nat" where
  "begin_provisional_healthy now c =
     (let i = max (wrap_add64 (tc_next_provisional_id c) 1) 1
      in (c\<lparr>tc_next_provisional_id := i,
            tc_provisional_healthy := (i, now) # filter (\<lambda>e. fst e \<noteq> i) (tc_provisional_healthy c)\<rparr>, i))"

definition end_provisional_healthy :: "nat \<Rightarrow> controller \<Rightarrow> controller" where
  "end_provisional_healthy i c =
     c\<lparr>tc_provisional_healthy := filter (\<lambda>e. fst e \<noteq> i) (tc_provisional_healthy c)\<rparr>"

definition record_healthy :: "nanos \<Rightarrow> controller \<Rightarrow> controller" where
  "record_healthy now c = c\<lparr>tc_error := update_failure 0 now (tc_error c),
     tc_error_observations := sat_add64 (tc_error_observations c) 1,
     tc_overload := update_failure 0 now (tc_overload c),
     tc_overload_observations := sat_add64 (tc_overload_observations c) 1\<rparr>"

text \<open>The window's limit movement.\<close>

definition next_limit :: "f64 \<Rightarrow> controller \<Rightarrow> f64" where
  "next_limit sample_ms c =
     (let short = max (ewma_value_or sample_ms (tc_fast_ttft c)) F64_EPSILON;
          long = max (ewma_value_or sample_ms (tc_slow_ttft c)) F64_EPSILON;
          gradient = clampf (GRADIENT_TOLERANCE * long / short) (1 / 2) 1;
          queue_allowance = min (tc_limit c * QUEUE_ALLOWANCE_RATIO) MAX_QUEUE_ALLOWANCE;
          next = tc_limit c * gradient + queue_allowance
      in clampf (tc_limit c * (1 - LIMIT_SMOOTHING) + next * LIMIT_SMOOTHING) MIN_LIMIT MAX_LIMIT)"

definition forget_stale_ttft :: "nanos \<Rightarrow> controller \<Rightarrow> controller" where
  "forget_stale_ttft now c =
     (if is_some_and (\<lambda>u. sat_since now u \<ge> TTFT_STALE_HORIZON) (te_updated_at (tc_fast_ttft c))
      then c\<lparr>tc_fast_ttft := ewma_default, tc_slow_ttft := ewma_default,
             tc_last_limit_update := None, tc_window_max_inflight := 0\<rparr>
      else c)"

definition record_ttft :: "nat \<Rightarrow> nanos \<Rightarrow> nanos \<Rightarrow> controller \<Rightarrow> controller" where
  "record_ttft inflight_at_start ttft now c0 =
     (let sample_ms = as_secs_f64 ttft * 1000;
          c1 = forget_stale_ttft now c0;
          c = c1\<lparr>tc_fast_ttft := ewma_update sample_ms FAST_TAU now (tc_fast_ttft c1),
                 tc_slow_ttft := ewma_update sample_ms SLOW_TAU now (tc_slow_ttft c1),
                 tc_ttft_samples := sat_add64 (tc_ttft_samples c1) 1,
                 tc_window_max_inflight := max (tc_window_max_inflight c1) inflight_at_start\<rparr>
      in case tc_last_limit_update c of
           None \<Rightarrow> c\<lparr>tc_last_limit_update := Some now\<rparr>
         | Some last_update \<Rightarrow>
             if sat_since now last_update < LIMIT_UPDATE_INTERVAL then c
             else (if of_nat (tc_window_max_inflight c) * 2 \<ge> tc_limit c
                   then c\<lparr>tc_limit := next_limit sample_ms c\<rparr> else c)
                  \<lparr>tc_last_limit_update := Some now, tc_window_max_inflight := 0\<rparr>)"

definition record_error :: "nanos \<Rightarrow> controller \<Rightarrow> controller" where
  "record_error now c = c\<lparr>tc_error_failure_at := Some now, tc_error := update_failure 1 now (tc_error c),
     tc_error_observations := sat_add64 (tc_error_observations c) 1\<rparr>"

definition back_off :: "f64 \<Rightarrow> controller \<Rightarrow> controller" where
  "back_off f c = c\<lparr>tc_limit := clampf (tc_limit c * f) MIN_LIMIT MAX_LIMIT\<rparr>"

definition complete :: "nat \<Rightarrow> traffic_outcome \<Rightarrow> nanos \<Rightarrow> controller \<Rightarrow> controller" where
  "complete inflight_at_start outcome now c =
     release (case outcome of
        T_Success \<Rightarrow> record_healthy now c
      | T_Overload \<Rightarrow>
          back_off OVERLOAD_BACKOFF (record_error now
            (c\<lparr>tc_overload_failure_at := Some now, tc_overload := update_failure 1 now (tc_overload c),
               tc_overload_observations := sat_add64 (tc_overload_observations c) 1\<rparr>))
      | T_Timeout \<Rightarrow>
          let c' = record_error now c
          in if of_nat inflight_at_start * 2 \<ge> tc_limit c' then back_off TIMEOUT_BACKOFF c' else c'
      | T_Error \<Rightarrow> record_error now c
      | _ \<Rightarrow> c)"

record traffic_permit =
  pm_inflight_at_start :: nat
  pm_first_event_recorded :: bool
  pm_provisional_id :: nat
  pm_finished :: bool

definition try_acquire :: "nanos \<Rightarrow> controller \<Rightarrow> controller \<times> (traffic_snapshot + traffic_permit)" where
  "try_acquire now c =
     (if tc_inflight c < capacity c
      then let c' = c\<lparr>tc_inflight := tc_inflight c + 1\<rparr>
           in (c', Inr \<lparr>pm_inflight_at_start = tc_inflight c', pm_first_event_recorded = False,
                        pm_provisional_id = 0, pm_finished = False\<rparr>)
      else (c, Inl (traffic_snapshot_at now c)))"

definition mark_first_event ::
  "nanos \<Rightarrow> nanos \<Rightarrow> traffic_permit \<times> controller \<Rightarrow> traffic_permit \<times> controller" where
  "mark_first_event ttft now pc =
     (let (p, c) = pc
      in if pm_first_event_recorded p then pc
         else
           let p' = p\<lparr>pm_first_event_recorded := True\<rparr>
           in if pm_finished p then (p', c)
              else let (c', i) = begin_provisional_healthy now (record_ttft (pm_inflight_at_start p) ttft now c)
                   in (p'\<lparr>pm_provisional_id := i\<rparr>, c'))"

text \<open>Ending a permit: by an outcome, or by dropping it.\<close>

definition end_permit ::
  "(controller \<Rightarrow> controller) \<Rightarrow> traffic_permit \<times> controller \<Rightarrow> traffic_permit \<times> controller" where
  "end_permit f pc =
     (let (p, c) = pc
      in if pm_finished p then pc
         else (p\<lparr>pm_finished := True, pm_provisional_id := 0\<rparr>,
               f (if pm_provisional_id p \<noteq> 0 then end_provisional_healthy (pm_provisional_id p) c else c)))"

definition finish_permit ::
  "traffic_outcome \<Rightarrow> nanos \<Rightarrow> traffic_permit \<times> controller \<Rightarrow> traffic_permit \<times> controller" where
  "finish_permit outcome now pc = end_permit (complete (pm_inflight_at_start (fst pc)) outcome now) pc"

definition drop_permit :: "traffic_permit \<times> controller \<Rightarrow> traffic_permit \<times> controller" where
  "drop_permit pc = end_permit release pc"

type_synonym upstream_traffic = "target_key \<rightharpoonup> controller"

definition upstream_snapshot :: "target_key \<Rightarrow> nanos \<Rightarrow> upstream_traffic \<Rightarrow> traffic_snapshot" where
  "upstream_snapshot k now m = traffic_snapshot_at now (entry_or controller_default m k)"

definition upstream_try_acquire ::
  "target_key \<Rightarrow> nanos \<Rightarrow> upstream_traffic \<Rightarrow> upstream_traffic \<times> (traffic_snapshot + traffic_permit)" where
  "upstream_try_acquire k now m = with_entry controller_default k (try_acquire now) m"

section \<open>A target's run\<close>

record traffic_sys =
  y_controller :: controller
  y_permits :: "traffic_permit list"
  y_steps :: nat

datatype traffic_event =
    Acquire nanos
  | First_Event nat nanos nanos
  | Finish nat traffic_outcome nanos
  | Drop_Permit nat

definition traffic_initial :: traffic_sys where
  "traffic_initial = \<lparr>y_controller = controller_default, y_permits = [], y_steps = 0\<rparr>"

definition on_permit ::
  "nat \<Rightarrow> (traffic_permit \<times> controller \<Rightarrow> traffic_permit \<times> controller) \<Rightarrow> traffic_sys \<Rightarrow> traffic_sys" where
  "on_permit i f s =
     (if i < length (y_permits s)
      then let (p, c) = f (y_permits s ! i, y_controller s)
           in s\<lparr>y_controller := c, y_permits := (y_permits s)[i := p]\<rparr>
      else s)"

fun traffic_act :: "traffic_event \<Rightarrow> traffic_sys \<Rightarrow> traffic_sys" where
  "traffic_act (Acquire now) s =
     (case try_acquire now (y_controller s) of
        (c, Inl _) \<Rightarrow> s\<lparr>y_controller := c\<rparr>
      | (c, Inr p) \<Rightarrow> s\<lparr>y_controller := c, y_permits := y_permits s @ [p]\<rparr>)"
| "traffic_act (First_Event i ttft now) s = on_permit i (mark_first_event ttft now) s"
| "traffic_act (Finish i outcome now) s = on_permit i (finish_permit outcome now) s"
| "traffic_act (Drop_Permit i) s = on_permit i drop_permit s"

definition traffic_step :: "traffic_event \<Rightarrow> traffic_sys \<Rightarrow> traffic_sys" where
  "traffic_step e s = traffic_act e (s\<lparr>y_steps := Suc (y_steps s)\<rparr>)"

definition traffic_run :: "traffic_event list \<Rightarrow> traffic_sys" where
  "traffic_run es = run_ops traffic_step es traffic_initial"

section \<open>Lemmas on the controller\<close>

subsection \<open>Moving averages\<close>

definition unit_ewma :: "time_ewma \<Rightarrow> bool" where
  "unit_ewma e = (case te_value e of None \<Rightarrow> True | Some v \<Rightarrow> 0 \<le> v \<and> v \<le> 1)"

lemma unit_ewma_default [simp]: "unit_ewma ewma_default"
  by (simp add: unit_ewma_def ewma_default_def)

lemma as_secs_f64_nonneg: "0 \<le> d \<Longrightarrow> 0 \<le> as_secs_f64 d"
  by (simp add: as_secs_f64_def)

lemma decay_factor_unit: "0 \<le> d \<Longrightarrow> 0 < t \<Longrightarrow> 0 < exp (- (d::real) / t) \<and> exp (- d / t) \<le> 1"
  by simp

lemma convex_unit:
  assumes "0 \<le> (v::real)" "v \<le> 1" "0 \<le> s" "s \<le> 1" "0 \<le> a" "a \<le> 1"
  shows "0 \<le> v + a * (s - v) \<and> v + a * (s - v) \<le> 1"
proof -
  have eq: "v + a * (s - v) = (1 - a) * v + a * s" by (simp add: algebra_simps)
  have "0 \<le> (1 - a) * v" "0 \<le> a * s" using assms by simp_all
  moreover have "(1 - a) * v \<le> 1 - a" "a * s \<le> a"
    using assms by (simp_all add: mult_left_le)
  ultimately show ?thesis unfolding eq by linarith
qed

lemma unit_ewma_update:
  assumes "unit_ewma e" "0 \<le> s" "s \<le> 1"
  shows "unit_ewma (ewma_update s tau now e)"
proof (cases "te_value e")
  case None
  then show ?thesis using assms by (simp add: ewma_update_def unit_ewma_def)
next
  case (Some v)
  show ?thesis
  proof (cases "te_updated_at e")
    case None
    then show ?thesis using assms Some by (simp add: ewma_update_def unit_ewma_def)
  next
    case (Some u)
    define x where "x = exp (- as_secs_f64 (sat_since now u) / max (as_secs_f64 tau) F64_EPSILON)"
    have "0 < max (as_secs_f64 tau) F64_EPSILON" by (simp add: F64_EPSILON_def less_max_iff_disj)
    then have "0 < x" "x \<le> 1"
      unfolding x_def using decay_factor_unit [of "as_secs_f64 (sat_since now u)"]
      by (auto simp: as_secs_f64_nonneg sat_since_def)
    then show ?thesis
      using convex_unit [of v s "1 - x"] assms Some \<open>te_value e = Some v\<close>
      by (simp add: ewma_update_def unit_ewma_def Let_def x_def)
  qed
qed

lemma unit_update_failure:
  "unit_ewma e \<Longrightarrow> 0 \<le> s \<Longrightarrow> s \<le> 1 \<Longrightarrow> unit_ewma (update_failure s now e)"
  by (simp add: update_failure_def unit_ewma_update) (simp add: unit_ewma_def)

lemma unit_decayed:
  assumes "unit_ewma e"
  shows "0 \<le> decayed_toward_zero tau now e \<and> decayed_toward_zero tau now e \<le> 1"
proof (cases "te_value e")
  case None
  then show ?thesis by (simp add: decayed_toward_zero_def)
next
  case (Some v)
  have pos: "0 < max (as_secs_f64 tau) F64_EPSILON" by (simp add: F64_EPSILON_def less_max_iff_disj)
  have "0 \<le> v * x \<and> v * x \<le> 1" if "0 < x" "x \<le> 1" for x :: real
    using assms Some that by (simp add: unit_ewma_def mult_le_one)
  then show ?thesis
    using assms Some decay_factor_unit [OF _ pos]
    by (auto simp: decayed_toward_zero_def unit_ewma_def Let_def as_secs_f64_nonneg sat_since_def
        split: option.split)
qed

subsection \<open>The limit\<close>

definition limit_ok :: "controller \<Rightarrow> bool" where
  "limit_ok c \<longleftrightarrow> 1 \<le> tc_limit c \<and> tc_limit c \<le> 64"

lemma capacity_bounds: "1 \<le> capacity c \<and> capacity c \<le> 64"
  using clampf_bounds [of MIN_LIMIT MAX_LIMIT "of_int \<lfloor>tc_limit c\<rfloor>"]
  by (auto simp: capacity_def const_defs le_nat_iff le_floor_iff nat_le_iff floor_le_iff)

lemma capacity_floor: "limit_ok c \<Longrightarrow> capacity c = nat \<lfloor>tc_limit c\<rfloor>"
  by (auto simp: limit_ok_def capacity_def clampf_def const_defs le_floor_iff floor_le_iff)

lemma next_limit_bounds:
  assumes "limit_ok c"
  shows "1 \<le> next_limit s c" "next_limit s c \<le> 64"
    and "9 / 10 * tc_limit c \<le> next_limit s c" "next_limit s c \<le> tc_limit c + 4 / 5"
proof -
  define g where "g = clampf (GRADIENT_TOLERANCE * max (ewma_value_or s (tc_slow_ttft c)) F64_EPSILON
      / max (ewma_value_or s (tc_fast_ttft c)) F64_EPSILON) (1 / 2) 1"
  define q where "q = min (tc_limit c * QUEUE_ALLOWANCE_RATIO) MAX_QUEUE_ALLOWANCE"
  define r where "r = tc_limit c * (1 - LIMIT_SMOOTHING) + (tc_limit c * g + q) * LIMIT_SMOOTHING"
  have n: "next_limit s c = clampf r 1 64"
    by (simp add: next_limit_def Let_def g_def q_def r_def MIN_LIMIT_def MAX_LIMIT_def)
  have L: "1 \<le> tc_limit c" "tc_limit c \<le> 64" using assms by (simp_all add: limit_ok_def)
  have "1 / 2 \<le> g" "g \<le> 1" using clampf_bounds [of "1 / 2" 1] by (simp_all add: g_def)
  then have "tc_limit c * (1 / 2) \<le> tc_limit c * g" "tc_limit c * g \<le> tc_limit c * 1"
    using L by (intro mult_left_mono; simp)+
  moreover have "0 \<le> q" "q \<le> 4" using L by (simp_all add: q_def const_defs)
  moreover have "r = 4 / 5 * tc_limit c + 1 / 5 * (tc_limit c * g) + 1 / 5 * q"
    by (simp add: r_def const_defs algebra_simps)
  ultimately have "9 / 10 * tc_limit c \<le> r" "r \<le> tc_limit c + 4 / 5" by linarith+
  with L show "9 / 10 * tc_limit c \<le> next_limit s c" "next_limit s c \<le> tc_limit c + 4 / 5"
    by (auto simp: n clampf_def)
  show "1 \<le> next_limit s c" "next_limit s c \<le> 64"
    using clampf_bounds [of 1 64 r] by (simp_all add: n)
qed

lemma back_off_bounds:
  assumes "limit_ok c" "0 \<le> f" "f \<le> 1"
  shows "limit_ok (back_off f c)" "tc_limit (back_off f c) \<le> tc_limit c"
proof -
  define x where "x = tc_limit c * f"
  have "x \<le> tc_limit c" using assms by (simp add: limit_ok_def mult_left_le x_def)
  moreover have "tc_limit (back_off f c) = clampf x 1 64"
    by (simp add: back_off_def x_def MIN_LIMIT_def MAX_LIMIT_def)
  ultimately show "limit_ok (back_off f c)" "tc_limit (back_off f c) \<le> tc_limit c"
    using assms(1) by (auto simp: limit_ok_def clampf_def)
qed

subsection \<open>What each operation leaves alone\<close>

lemma record_ttft_frame [simp]:
  "tc_inflight (record_ttft n d now c) = tc_inflight c"
  "tc_overload (record_ttft n d now c) = tc_overload c"
  "tc_error (record_ttft n d now c) = tc_error c"
  "tc_provisional_healthy (record_ttft n d now c) = tc_provisional_healthy c"
  "tc_next_provisional_id (record_ttft n d now c) = tc_next_provisional_id c"
  by (simp_all add: record_ttft_def forget_stale_ttft_def Let_def split: option.split)

lemma back_off_frame [simp]:
  "tc_inflight (back_off f c) = tc_inflight c"
  "tc_overload (back_off f c) = tc_overload c"
  "tc_error (back_off f c) = tc_error c"
  "tc_provisional_healthy (back_off f c) = tc_provisional_healthy c"
  "tc_next_provisional_id (back_off f c) = tc_next_provisional_id c"
  "tc_last_limit_update (back_off f c) = tc_last_limit_update c"
  by (simp_all add: back_off_def)

lemma complete_frame [simp]:
  "tc_inflight (complete n r now c) = tc_inflight c - 1"
  "tc_provisional_healthy (complete n r now c) = tc_provisional_healthy c"
  "tc_next_provisional_id (complete n r now c) = tc_next_provisional_id c"
  "tc_last_limit_update (complete n r now c) = tc_last_limit_update c"
  by (cases r; simp add: complete_def release_def record_healthy_def record_error_def Let_def)+

lemma release_frame [simp]:
  "tc_inflight (release c) = tc_inflight c - 1"
  "tc_limit (release c) = tc_limit c"
  "tc_overload (release c) = tc_overload c"
  "tc_error (release c) = tc_error c"
  "tc_provisional_healthy (release c) = tc_provisional_healthy c"
  "tc_next_provisional_id (release c) = tc_next_provisional_id c"
  "tc_last_limit_update (release c) = tc_last_limit_update c"
  by (simp_all add: release_def)

lemma record_error_frame [simp]:
  "tc_limit (record_error now c) = tc_limit c"
  "tc_overload (record_error now c) = tc_overload c"
  by (simp_all add: record_error_def)

lemma end_provisional_frame [simp]:
  "tc_inflight (end_provisional_healthy i c) = tc_inflight c"
  "tc_limit (end_provisional_healthy i c) = tc_limit c"
  "tc_overload (end_provisional_healthy i c) = tc_overload c"
  "tc_error (end_provisional_healthy i c) = tc_error c"
  "tc_next_provisional_id (end_provisional_healthy i c) = tc_next_provisional_id c"
  "tc_last_limit_update (end_provisional_healthy i c) = tc_last_limit_update c"
  "tc_provisional_healthy (end_provisional_healthy i c) =
     filter (\<lambda>e. fst e \<noteq> i) (tc_provisional_healthy c)"
  by (simp_all add: end_provisional_healthy_def)

lemma begin_provisional_frame [simp]:
  "tc_inflight (fst (begin_provisional_healthy now c)) = tc_inflight c"
  "tc_limit (fst (begin_provisional_healthy now c)) = tc_limit c"
  "tc_overload (fst (begin_provisional_healthy now c)) = tc_overload c"
  "tc_error (fst (begin_provisional_healthy now c)) = tc_error c"
  "tc_last_limit_update (fst (begin_provisional_healthy now c)) = tc_last_limit_update c"
  by (simp_all add: begin_provisional_healthy_def Let_def)

subsection \<open>Invariant of a controller\<close>

definition controller_ok :: "controller \<Rightarrow> bool" where
  "controller_ok c \<longleftrightarrow> limit_ok c \<and> unit_ewma (tc_overload c) \<and> unit_ewma (tc_error c)"

lemma controller_ok_default: "controller_ok controller_default"
  by (simp add: controller_ok_def controller_default_def limit_ok_def INITIAL_LIMIT_def)

lemma limit_ok_record_ttft: "limit_ok c \<Longrightarrow> limit_ok (record_ttft n d now c)"
  using next_limit_bounds(1,2)
  by (auto simp: record_ttft_def forget_stale_ttft_def Let_def limit_ok_def split: option.split)

lemma controller_ok_record_ttft: "controller_ok c \<Longrightarrow> controller_ok (record_ttft n d now c)"
  by (simp add: controller_ok_def limit_ok_record_ttft)

lemma limit_complete:
  assumes "limit_ok c"
  shows "limit_ok (complete n r now c)" "tc_limit (complete n r now c) \<le> tc_limit c"
proof -
  have ok: "limit_ok c'" if "tc_limit c' = tc_limit c" for c' :: controller
    using assms that by (simp add: limit_ok_def)
  have "limit_ok (complete n r now c) \<and> tc_limit (complete n r now c) \<le> tc_limit c"
  proof (cases r)
    case T_Overload
    let ?c = "record_error now (c\<lparr>tc_overload_failure_at := Some now,
      tc_overload := update_failure 1 now (tc_overload c),
      tc_overload_observations := sat_add64 (tc_overload_observations c) 1\<rparr>)"
    show ?thesis
      using back_off_bounds [of ?c OVERLOAD_BACKOFF] ok [of ?c] T_Overload
      by (simp add: complete_def OVERLOAD_BACKOFF_def limit_ok_def)
  next
    case T_Timeout
    then show ?thesis
      using back_off_bounds [of "record_error now c" TIMEOUT_BACKOFF] ok [of "record_error now c"]
      by (simp add: complete_def TIMEOUT_BACKOFF_def limit_ok_def Let_def)
  qed (use assms in \<open>simp_all add: complete_def limit_ok_def record_healthy_def\<close>)
  then show "limit_ok (complete n r now c)" "tc_limit (complete n r now c) \<le> tc_limit c"
    by simp_all
qed

lemma controller_ok_complete: "controller_ok c \<Longrightarrow> controller_ok (complete n r now c)"
  using limit_complete(1) [of c n r now]
  by (cases r) (auto simp: controller_ok_def complete_def record_healthy_def record_error_def
      Let_def unit_update_failure)

section \<open>Invariant of a target's run\<close>

definition open_permits :: "traffic_sys \<Rightarrow> nat" where
  "open_permits s = length (filter (\<lambda>p. \<not> pm_finished p) (y_permits s))"

text \<open>
  A slot is held exactly by the permits that have not ended, and the controller's values stay in
  their ranges.
\<close>

definition slots_inv :: "traffic_sys \<Rightarrow> bool" where
  "slots_inv s \<longleftrightarrow> controller_ok (y_controller s) \<and> tc_inflight (y_controller s) = open_permits s \<and>
     tc_inflight (y_controller s) \<le> 64"

text \<open>
  The provisional successes recorded in the controller are those of the permits that hold one.
  Identifiers repeat only after the 64-bit counter has wrapped.
\<close>

definition permit_ok :: "nat \<Rightarrow> traffic_permit \<Rightarrow> bool" where
  "permit_ok n p \<longleftrightarrow> pm_provisional_id p \<le> n \<and>
     (pm_provisional_id p \<noteq> 0 \<longrightarrow> \<not> pm_finished p \<and> pm_first_event_recorded p)"

definition evidence_inv :: "nat \<Rightarrow> (nat \<times> nanos) list \<Rightarrow> traffic_permit list \<Rightarrow> bool" where
  "evidence_inv n prov ps \<longleftrightarrow>
     (\<forall>j < length ps. permit_ok n (ps ! j)) \<and>
     (\<forall>j < length ps. \<forall>k < length ps. pm_provisional_id (ps ! j) = pm_provisional_id (ps ! k) \<longrightarrow>
        pm_provisional_id (ps ! j) \<noteq> 0 \<longrightarrow> j = k) \<and>
     (\<forall>i. i \<in> fst ` set prov \<longleftrightarrow> i \<noteq> 0 \<and> (\<exists>j < length ps. pm_provisional_id (ps ! j) = i))"

definition traffic_inv :: "traffic_sys \<Rightarrow> bool" where
  "traffic_inv s \<longleftrightarrow> slots_inv s \<and> (y_steps s \<le> u64_max \<longrightarrow>
     tc_next_provisional_id (y_controller s) \<le> y_steps s \<and>
     evidence_inv (tc_next_provisional_id (y_controller s))
       (tc_provisional_healthy (y_controller s)) (y_permits s))"

subsection \<open>Slots\<close>

lemma slots_inv_update:
  assumes "slots_inv s" "i < length (y_permits s)" "controller_ok c"
    and "tc_inflight c + (if pm_finished p then 1 else 0) =
         tc_inflight (y_controller s) + (if pm_finished (y_permits s ! i) then 1 else 0)"
    and "pm_finished (y_permits s ! i) \<longrightarrow> pm_finished p"
  shows "slots_inv (s\<lparr>y_controller := c, y_permits := (y_permits s)[i := p]\<rparr>)"
proof -
  have "open_permits (s\<lparr>y_controller := c, y_permits := (y_permits s)[i := p]\<rparr>) = tc_inflight c"
    using assms length_filter_update [OF assms(2), of "\<lambda>p. \<not> pm_finished p" p]
    by (auto simp: open_permits_def slots_inv_def split: if_splits)
  with assms show ?thesis by (auto simp: slots_inv_def split: if_splits)
qed

lemma open_permits_pos:
  assumes "i < length (y_permits s)" "\<not> pm_finished (y_permits s ! i)"
  shows "0 < open_permits s"
proof -
  have "y_permits s ! i \<in> set (filter (\<lambda>p. \<not> pm_finished p) (y_permits s))" using assms by simp
  then show ?thesis unfolding open_permits_def by (metis length_pos_if_in_set)
qed

lemma slots_inv_end_permit:
  assumes "slots_inv s"
    and ok: "\<And>c. controller_ok c \<Longrightarrow> controller_ok (f c)"
    and fl: "\<And>c. tc_inflight (f c) = tc_inflight c - 1"
  shows "slots_inv (on_permit i (end_permit f) s)"
proof (cases "i < length (y_permits s) \<and> \<not> pm_finished (y_permits s ! i)")
  case True
  define c where "c = (if pm_provisional_id (y_permits s ! i) \<noteq> 0
    then end_provisional_healthy (pm_provisional_id (y_permits s ! i)) (y_controller s)
    else y_controller s)"
  have "controller_ok c" "tc_inflight c = tc_inflight (y_controller s)"
    using assms(1) by (simp_all add: c_def slots_inv_def controller_ok_def limit_ok_def)
  moreover have "0 < tc_inflight (y_controller s)"
    using True assms(1) open_permits_pos [of i s] by (simp add: slots_inv_def)
  ultimately have "slots_inv (s\<lparr>y_controller := f c, y_permits := (y_permits s)[i :=
      (y_permits s ! i)\<lparr>pm_finished := True, pm_provisional_id := 0\<rparr>]\<rparr>)"
    using True by (intro slots_inv_update assms(1)) (simp_all add: ok fl)
  then show ?thesis using True by (simp add: on_permit_def end_permit_def c_def)
next
  case False
  then show ?thesis using assms(1) by (auto simp: on_permit_def end_permit_def)
qed

lemma slots_inv_first_event:
  assumes "slots_inv s"
  shows "slots_inv (on_permit i (mark_first_event d now) s)"
proof (cases "i < length (y_permits s)")
  case True
  let ?p = "y_permits s ! i"
  let ?c = "fst (begin_provisional_healthy now (record_ttft (pm_inflight_at_start ?p) d now (y_controller s)))"
  have "controller_ok ?c" "tc_inflight ?c = tc_inflight (y_controller s)"
    using assms controller_ok_record_ttft [of "y_controller s"]
    by (simp_all add: slots_inv_def controller_ok_def limit_ok_def)
  then have "slots_inv (s\<lparr>y_controller := ?c, y_permits := (y_permits s)[i := p]\<rparr>)"
    if "pm_finished p = pm_finished ?p" for p
    using that True by (intro slots_inv_update assms) simp_all
  moreover have "slots_inv (s\<lparr>y_controller := y_controller s, y_permits := (y_permits s)[i := p]\<rparr>)"
    if "pm_finished p = pm_finished ?p" for p
    using that True assms by (intro slots_inv_update assms) (simp_all add: slots_inv_def)
  ultimately show ?thesis
    using True assms by (simp add: on_permit_def mark_first_event_def Let_def case_prod_beta)
qed (simp add: assms on_permit_def)

lemma slots_inv_acquire: "slots_inv s \<Longrightarrow> slots_inv (traffic_act (Acquire now) s)"
  using capacity_bounds [of "y_controller s"]
  by (auto simp: try_acquire_def slots_inv_def open_permits_def controller_ok_def limit_ok_def Let_def)

lemma slots_inv_act: "slots_inv s \<Longrightarrow> slots_inv (traffic_act e s)"
proof (cases e)
  case (Finish i r now)
  assume inv: "slots_inv s"
  have "on_permit i (finish_permit r now) s =
      on_permit i (end_permit (complete (pm_inflight_at_start (y_permits s ! i)) r now)) s"
    by (simp add: on_permit_def finish_permit_def)
  with Finish inv show ?thesis by (simp add: slots_inv_end_permit controller_ok_complete)
next
  case (Drop_Permit i)
  assume inv: "slots_inv s"
  have "slots_inv (on_permit i (end_permit release) s)"
    using inv by (rule slots_inv_end_permit) (simp_all add: controller_ok_def limit_ok_def)
  moreover have "on_permit i drop_permit s = on_permit i (end_permit release) s"
    by (simp add: on_permit_def drop_permit_def)
  ultimately show ?thesis using Drop_Permit by simp
qed (simp_all add: slots_inv_first_event slots_inv_acquire del: traffic_act.simps(1))

subsection \<open>Evidence of provisional successes\<close>

lemma evidence_inv_append:
  "evidence_inv n prov ps \<Longrightarrow> pm_provisional_id p = 0 \<Longrightarrow> evidence_inv n prov (ps @ [p])"
  by (auto simp: evidence_inv_def permit_ok_def nth_append less_Suc_eq)

lemma evidence_inv_keep:
  assumes "evidence_inv n prov ps" "i < length ps"
    and "pm_provisional_id p = pm_provisional_id (ps ! i)" "permit_ok n p"
  shows "evidence_inv n prov (ps[i := p])"
proof -
  have eq: "pm_provisional_id (ps[i := p] ! j) = pm_provisional_id (ps ! j)" if "j < length ps" for j
    using assms that by (simp add: nth_list_update)
  have "permit_ok n (ps[i := p] ! j)" if "j < length ps" for j
    using assms that by (simp add: nth_list_update evidence_inv_def)
  then show ?thesis using assms(1) by (auto simp: evidence_inv_def eq)
qed

lemma evidence_inv_end:
  assumes "evidence_inv n prov ps" "i < length ps" "pm_provisional_id p = 0"
  shows "evidence_inv n (filter (\<lambda>e. fst e \<noteq> pm_provisional_id (ps ! i)) prov) (ps[i := p])"
proof -
  have eq: "pm_provisional_id (ps[i := p] ! j) = (if j = i then 0 else pm_provisional_id (ps ! j))"
    if "j < length ps" for j
    using assms that by (simp add: nth_list_update)
  have "permit_ok n (ps[i := p] ! j)" if "j < length ps" for j
    using assms that by (simp add: nth_list_update evidence_inv_def permit_ok_def)
  moreover have "k \<in> fst ` set (filter (\<lambda>e. fst e \<noteq> m) prov) \<longleftrightarrow> k \<in> fst ` set prov \<and> k \<noteq> m"
    for k m by auto
  ultimately show ?thesis
    using assms(1,2) unfolding evidence_inv_def length_list_update
    by (auto simp: eq split: if_splits)
qed

lemma evidence_inv_begin:
  assumes "evidence_inv n prov ps" "i < length ps" "pm_provisional_id (ps ! i) = 0"
    and "pm_provisional_id p = Suc n" "\<not> pm_finished p" "pm_first_event_recorded p"
  shows "evidence_inv (Suc n) ((Suc n, now) # filter (\<lambda>e. fst e \<noteq> Suc n) prov) (ps[i := p])"
proof -
  have eq: "pm_provisional_id (ps[i := p] ! j) = (if j = i then Suc n else pm_provisional_id (ps ! j))"
    if "j < length ps" for j
    using assms that by (simp add: nth_list_update)
  have le: "pm_provisional_id (ps ! j) \<le> n" if "j < length ps" for j
    using assms(1) that by (simp add: evidence_inv_def permit_ok_def)
  then have ne: "pm_provisional_id (ps ! j) \<noteq> Suc n" if "j < length ps" for j
    using that by (metis not_less_eq_eq order_refl)
  have ok: "permit_ok (Suc n) (ps[i := p] ! j)" if "j < length ps" for j
    using assms that le_SucI [OF le [OF that]]
    by (auto simp: nth_list_update evidence_inv_def permit_ok_def)
  have fs: "k \<in> fst ` set ((m, now) # filter (\<lambda>e. fst e \<noteq> m) prov) \<longleftrightarrow> k = m \<or> k \<in> fst ` set prov"
    for k m by auto
  have inj: "\<forall>j < length ps. \<forall>k < length ps. pm_provisional_id (ps[i := p] ! j) =
      pm_provisional_id (ps[i := p] ! k) \<longrightarrow> pm_provisional_id (ps[i := p] ! j) \<noteq> 0 \<longrightarrow> j = k"
    using assms(1) ne by (auto simp: eq evidence_inv_def) (metis+)
  have ex: "(\<exists>j < length ps. pm_provisional_id (ps[i := p] ! j) = k) \<longleftrightarrow>
      k = Suc n \<or> (\<exists>j < length ps. j \<noteq> i \<and> pm_provisional_id (ps ! j) = k)" for k
    using assms(2) eq by metis
  have "k \<in> fst ` set prov \<longleftrightarrow> k \<noteq> 0 \<and> (\<exists>j < length ps. j \<noteq> i \<and> pm_provisional_id (ps ! j) = k)" for k
    using assms(1,3) unfolding evidence_inv_def by metis
  then have "(k = Suc n \<or> k \<in> fst ` set prov) \<longleftrightarrow>
      k \<noteq> 0 \<and> (\<exists>j < length ps. pm_provisional_id (ps[i := p] ! j) = k)" for k
    by (auto simp: ex)
  with ok inj show ?thesis unfolding evidence_inv_def length_list_update fs by simp
qed

text \<open>The evidence part of the invariant, on a controller and its permits.\<close>

definition evidence_of :: "controller \<Rightarrow> traffic_permit list \<Rightarrow> bool" where
  "evidence_of c ps = evidence_inv (tc_next_provisional_id c) (tc_provisional_healthy c) ps"

lemma evidence_of_end:
  assumes "evidence_of c ps" "i < length ps"
    and "\<And>c. tc_next_provisional_id (f c) = tc_next_provisional_id c"
    and "\<And>c. tc_provisional_healthy (f c) = tc_provisional_healthy c"
    and "end_permit f (ps ! i, c) = (p, c')"
  shows "evidence_of c' (ps[i := p])" "tc_next_provisional_id c' = tc_next_provisional_id c"
proof -
  have "evidence_of c' (ps[i := p]) \<and> tc_next_provisional_id c' = tc_next_provisional_id c"
  proof (cases "pm_finished (ps ! i)")
    case True
    then show ?thesis using assms by (auto simp: end_permit_def)
  next
    case False
    define q where "q = (ps ! i)\<lparr>pm_finished := True, pm_provisional_id := 0\<rparr>"
    note unfin = False
    show ?thesis
    proof (cases "pm_provisional_id (ps ! i) = 0")
      case True
      have "permit_ok (tc_next_provisional_id c) q" by (simp add: q_def permit_ok_def)
      then show ?thesis
        using evidence_inv_keep [of _ _ ps i q] unfin True assms
        by (auto simp: end_permit_def evidence_of_def q_def)
    next
      case False
      then show ?thesis
        using evidence_inv_end [of _ _ ps i q] unfin assms
        by (auto simp: end_permit_def evidence_of_def q_def)
    qed
  qed
  then show "evidence_of c' (ps[i := p])" "tc_next_provisional_id c' = tc_next_provisional_id c"
    by simp_all
qed

lemma evidence_of_first_event:
  assumes ev: "evidence_of c ps" and i: "i < length ps" and below: "tc_next_provisional_id c < u64_max"
    and r: "mark_first_event d now (ps ! i, c) = (p, c')"
  shows "evidence_of c' (ps[i := p])" "tc_next_provisional_id c' \<le> Suc (tc_next_provisional_id c)"
proof -
  let ?p = "ps ! i" and ?n = "tc_next_provisional_id c"
  have ok: "permit_ok ?n ?p" using ev i by (simp add: evidence_of_def evidence_inv_def)
  have "evidence_of c' (ps[i := p]) \<and> tc_next_provisional_id c' \<le> Suc ?n"
  proof (cases "pm_first_event_recorded ?p")
    case True
    then show ?thesis using r ev by (auto simp: mark_first_event_def)
  next
    case first: False
    then have zero: "pm_provisional_id ?p = 0" using ok by (simp add: permit_ok_def)
    show ?thesis
    proof (cases "pm_finished ?p")
      case True
      have "p = ?p\<lparr>pm_first_event_recorded := True\<rparr>" "c' = c"
        using r first True by (simp_all add: mark_first_event_def Let_def)
      then show ?thesis using ev i zero evidence_inv_keep [of _ _ ps i p]
        by (simp add: evidence_of_def permit_ok_def)
    next
      case False
      have "wrap_add64 ?n 1 = Suc ?n" using below by (simp add: wrap_add64_exact)
      then have "p = ?p\<lparr>pm_first_event_recorded := True, pm_provisional_id := Suc ?n\<rparr>"
        "tc_next_provisional_id c' = Suc ?n"
        "tc_provisional_healthy c' = (Suc ?n, now) # filter (\<lambda>e. fst e \<noteq> Suc ?n) (tc_provisional_healthy c)"
        using r first False
        by (auto simp: mark_first_event_def Let_def begin_provisional_healthy_def)
      then show ?thesis
        using evidence_inv_begin [of ?n _ ps i p now] ev i zero False by (simp add: evidence_of_def)
    qed
  qed
  then show "evidence_of c' (ps[i := p])" "tc_next_provisional_id c' \<le> Suc ?n" by simp_all
qed

lemma traffic_inv_alt:
  "traffic_inv s \<longleftrightarrow> slots_inv s \<and> (y_steps s \<le> u64_max \<longrightarrow>
     tc_next_provisional_id (y_controller s) \<le> y_steps s \<and> evidence_of (y_controller s) (y_permits s))"
  by (simp add: traffic_inv_def evidence_of_def)

lemma traffic_act_steps [simp]: "y_steps (traffic_act e s) = y_steps s"
  by (cases e) (auto simp: on_permit_def try_acquire_def Let_def split: prod.split)

lemma evidence_act_end:
  fixes i :: nat
  assumes "evidence_of (y_controller s) (y_permits s)"
    and "\<And>c. tc_next_provisional_id (f c) = tc_next_provisional_id c"
    and "\<And>c. tc_provisional_healthy (f c) = tc_provisional_healthy c"
  defines "s' \<equiv> on_permit i (end_permit f) s"
  shows "evidence_of (y_controller s') (y_permits s')"
    and "tc_next_provisional_id (y_controller s') = tc_next_provisional_id (y_controller s)"
proof -
  obtain p c' where "end_permit f (y_permits s ! i, y_controller s) = (p, c')" by fastforce
  then show "evidence_of (y_controller s') (y_permits s')"
    and "tc_next_provisional_id (y_controller s') = tc_next_provisional_id (y_controller s)"
    using evidence_of_end [OF assms(1) _ assms(2,3)] assms(1)
    by (auto simp: s'_def on_permit_def)
qed

lemma evidence_act:
  assumes ev: "evidence_of (y_controller s) (y_permits s)"
    and below: "tc_next_provisional_id (y_controller s) < u64_max"
  shows "evidence_of (y_controller (traffic_act e s)) (y_permits (traffic_act e s)) \<and>
    tc_next_provisional_id (y_controller (traffic_act e s)) \<le> Suc (tc_next_provisional_id (y_controller s))"
proof (cases e)
  case (Acquire now)
  then show ?thesis
    using ev by (auto simp: try_acquire_def Let_def evidence_of_def intro: evidence_inv_append)
next
  case (First_Event i d now)
  obtain p c' where m: "mark_first_event d now (y_permits s ! i, y_controller s) = (p, c')" by fastforce
  then show ?thesis
    using First_Event evidence_of_first_event [OF ev _ below m] ev by (auto simp: on_permit_def)
next
  case (Finish i r now)
  have "on_permit i (finish_permit r now) s =
      on_permit i (end_permit (complete (pm_inflight_at_start (y_permits s ! i)) r now)) s"
    by (simp add: on_permit_def finish_permit_def)
  with Finish show ?thesis by (simp add: evidence_act_end [OF ev])
next
  case (Drop_Permit i)
  have "on_permit i drop_permit s = on_permit i (end_permit release) s"
    by (simp add: on_permit_def drop_permit_def)
  with Drop_Permit show ?thesis by (simp add: evidence_act_end [OF ev])
qed

lemma traffic_inv_initial: "traffic_inv traffic_initial"
  by (simp add: traffic_inv_def slots_inv_def traffic_initial_def controller_ok_default
      open_permits_def evidence_inv_def) (simp add: controller_default_def)

lemma traffic_inv_step:
  assumes "traffic_inv s"
  shows "traffic_inv (traffic_step e s)"
proof -
  let ?s = "s\<lparr>y_steps := Suc (y_steps s)\<rparr>"
  have "slots_inv ?s" using assms by (simp add: traffic_inv_alt slots_inv_def open_permits_def)
  then have "slots_inv (traffic_act e ?s)" by (rule slots_inv_act)
  moreover have "evidence_of (y_controller (traffic_act e ?s)) (y_permits (traffic_act e ?s)) \<and>
      tc_next_provisional_id (y_controller (traffic_act e ?s)) \<le> Suc (y_steps s)"
    if "Suc (y_steps s) \<le> u64_max"
  proof -
    have "tc_next_provisional_id (y_controller s) \<le> y_steps s" "evidence_of (y_controller s) (y_permits s)"
      using assms that by (simp_all add: traffic_inv_alt)
    then show ?thesis using evidence_act [of ?s e] that by fastforce
  qed
  ultimately show ?thesis by (simp add: traffic_inv_alt traffic_step_def)
qed

interpretation traffic: keyed_component traffic_initial traffic_step traffic_inv
  by unfold_locales (simp_all add: traffic_inv_initial traffic_inv_step)

lemma traffic_run_inv: "traffic_inv (traffic_run es)"
  unfolding traffic_run_def by (rule traffic.run_ops_invar [OF traffic_inv_initial])

lemma traffic_run_steps: "y_steps (run_ops traffic_step es s) = y_steps s + length es"
  by (induction es arbitrary: s) (simp_all add: traffic_step_def)

section \<open>Growth of the limit\<close>

text \<open>
  Limit growth is paid for by elapsed windows: between \<open>t0\<close> and the last update there are that
  many full intervals, each worth at most the smoothed queue allowance.
\<close>

definition windows :: "nanos \<Rightarrow> nanos \<Rightarrow> int" where
  "windows a b = (b - a) div LIMIT_UPDATE_INTERVAL"

definition last_update_or :: "nanos \<Rightarrow> controller \<Rightarrow> nanos" where
  "last_update_or t0 c = unwrap_or (tc_last_limit_update c) t0"

definition growth_ok :: "nanos \<Rightarrow> nanos \<Rightarrow> controller \<Rightarrow> bool" where
  "growth_ok t0 now c \<longleftrightarrow> limit_ok c \<and> t0 \<le> last_update_or t0 c \<and> last_update_or t0 c \<le> now \<and>
     tc_limit c \<le> INITIAL_LIMIT + 4 / 5 * of_int (windows t0 (last_update_or t0 c))"

lemma windows_mono: "b \<le> b' \<Longrightarrow> windows a b \<le> windows a b'"
  by (simp add: windows_def const_defs zdiv_mono1)

lemma windows_step: "u + LIMIT_UPDATE_INTERVAL \<le> now \<Longrightarrow> windows a u + 1 \<le> windows a now"
  using windows_mono [of "u + LIMIT_UPDATE_INTERVAL" now a]
  by (simp add: windows_def const_defs)

lemma growth_mono: "growth_ok t0 now c \<Longrightarrow> now \<le> now' \<Longrightarrow> growth_ok t0 now' c"
  by (simp add: growth_ok_def)

lemma growth_same:
  "growth_ok t0 now c \<Longrightarrow> tc_last_limit_update c' = tc_last_limit_update c \<Longrightarrow> limit_ok c' \<Longrightarrow>
   tc_limit c' \<le> tc_limit c \<Longrightarrow> growth_ok t0 now c'"
  by (simp add: growth_ok_def last_update_or_def)

lemma growth_at_update:
  assumes "limit_ok c" "tc_last_limit_update c = Some now" "t0 \<le> now"
    and "tc_limit c \<le> INITIAL_LIMIT + 4 / 5 * of_int w" "w \<le> windows t0 now"
  shows "growth_ok t0 now c"
proof -
  have "(of_int w :: real) \<le> of_int (windows t0 now)" using assms(5) by simp
  then show ?thesis using assms by (simp add: growth_ok_def last_update_or_def unwrap_or_def)
qed

lemma record_ttft_cases:
  fixes n :: nat and d now :: nanos
  assumes "limit_ok c"
  defines "r \<equiv> record_ttft n d now c"
  shows "(tc_last_limit_update r = Some now \<and> tc_limit r = tc_limit c) \<or>
     (tc_last_limit_update r = tc_last_limit_update c \<and> tc_limit r = tc_limit c) \<or>
     (\<exists>u. tc_last_limit_update c = Some u \<and> LIMIT_UPDATE_INTERVAL \<le> sat_since now u \<and>
        tc_last_limit_update r = Some now \<and> tc_limit r \<le> tc_limit c + 4 / 5)"
proof -
  define c1 where "c1 = forget_stale_ttft now c"
  define c2 where "c2 = c1\<lparr>tc_fast_ttft := ewma_update (as_secs_f64 d * 1000) FAST_TAU now (tc_fast_ttft c1),
    tc_slow_ttft := ewma_update (as_secs_f64 d * 1000) SLOW_TAU now (tc_slow_ttft c1),
    tc_ttft_samples := sat_add64 (tc_ttft_samples c1) 1,
    tc_window_max_inflight := max (tc_window_max_inflight c1) n\<rparr>"
  have lim: "tc_limit c2 = tc_limit c" "limit_ok c2"
    using assms(1) by (simp_all add: c2_def c1_def forget_stale_ttft_def limit_ok_def)
  have last: "tc_last_limit_update c2 = None \<or> tc_last_limit_update c2 = tc_last_limit_update c"
    by (simp add: c2_def c1_def forget_stale_ttft_def)
  have r: "r = (case tc_last_limit_update c2 of
      None \<Rightarrow> c2\<lparr>tc_last_limit_update := Some now\<rparr>
    | Some u \<Rightarrow> if sat_since now u < LIMIT_UPDATE_INTERVAL then c2
        else (if of_nat (tc_window_max_inflight c2) * 2 \<ge> tc_limit c2
              then c2\<lparr>tc_limit := next_limit (as_secs_f64 d * 1000) c2\<rparr> else c2)
             \<lparr>tc_last_limit_update := Some now, tc_window_max_inflight := 0\<rparr>)"
    unfolding r_def record_ttft_def Let_def c2_def c1_def by simp
  show ?thesis
  proof (cases "tc_last_limit_update c2")
    case None
    then show ?thesis using lim by (simp add: r)
  next
    case (Some u)
    with last have "tc_last_limit_update c = Some u" by simp
    then show ?thesis
      using lim Some next_limit_bounds(4) [OF lim(2), of "as_secs_f64 d * 1000"] by (simp add: r)
  qed
qed

lemma growth_record_ttft:
  assumes g: "growth_ok t0 now c" and le: "now \<le> now'"
  shows "growth_ok t0 now' (record_ttft n d now' c)"
proof -
  let ?r = "record_ttft n d now' c"
  let ?w = "windows t0 (last_update_or t0 c)"
  have L: "limit_ok c" and b: "t0 \<le> last_update_or t0 c" "last_update_or t0 c \<le> now"
    and lim: "tc_limit c \<le> INITIAL_LIMIT + 4 / 5 * of_int ?w"
    using g by (simp_all add: growth_ok_def)
  have r: "limit_ok ?r" using L by (rule limit_ok_record_ttft)
  have w: "?w \<le> windows t0 now'" using b le by (intro windows_mono) simp
  consider (set) "tc_last_limit_update ?r = Some now'" "tc_limit ?r = tc_limit c"
    | (keep) "tc_last_limit_update ?r = tc_last_limit_update c" "tc_limit ?r = tc_limit c"
    | (move) u where "tc_last_limit_update c = Some u" "LIMIT_UPDATE_INTERVAL \<le> sat_since now' u"
        "tc_last_limit_update ?r = Some now'" "tc_limit ?r \<le> tc_limit c + 4 / 5"
    using record_ttft_cases [OF L] by metis
  then show ?thesis
  proof cases
    case set
    then show ?thesis using growth_at_update [OF r _ _ _ w] lim b le by simp
  next
    case keep
    then show ?thesis using growth_same [OF growth_mono [OF g le]] r by simp
  next
    case move
    then have "u + LIMIT_UPDATE_INTERVAL \<le> now'" by (simp add: sat_since_def const_defs max_def split: if_splits)
    then have "windows t0 u + 1 \<le> windows t0 now'" by (rule windows_step)
    moreover have "tc_limit ?r \<le> INITIAL_LIMIT + 4 / 5 * of_int (windows t0 u + 1)"
      using move lim by (simp add: last_update_or_def unwrap_or_def field_simps)
    moreover have "t0 \<le> now'" using b le by linarith
    ultimately show ?thesis by (intro growth_at_update [OF r move(3)])
  qed
qed

fun event_times :: "traffic_event list \<Rightarrow> nanos list" where
  "event_times [] = []"
| "event_times (Acquire now # es) = now # event_times es"
| "event_times (First_Event i ttft now # es) = now # event_times es"
| "event_times (Finish i outcome now # es) = now # event_times es"
| "event_times (Drop_Permit i # es) = event_times es"

lemma growth_end_permit:
  assumes g: "growth_ok t0 now (y_controller s)"
    and f: "\<And>c. limit_ok c \<Longrightarrow> limit_ok (f c)" "\<And>c. limit_ok c \<Longrightarrow> tc_limit (f c) \<le> tc_limit c"
      "\<And>c. tc_last_limit_update (f c) = tc_last_limit_update c"
  shows "growth_ok t0 now (y_controller (on_permit i (end_permit f) s))"
proof -
  have "growth_ok t0 now (f c)"
    if "tc_limit c = tc_limit (y_controller s)"
      "tc_last_limit_update c = tc_last_limit_update (y_controller s)" for c
  proof -
    have "limit_ok c" using g that by (simp add: growth_ok_def limit_ok_def)
    then show ?thesis using that f(1,3) f(2) [of c] by (intro growth_same [OF g]) simp_all
  qed
  then show ?thesis using g by (auto simp: on_permit_def end_permit_def)
qed

lemma growth_act:
  assumes g: "growth_ok t0 now (y_controller s)" and t: "\<forall>t \<in> set (event_times [e]). now \<le> t"
  shows "growth_ok t0 (last (now # event_times [e])) (y_controller (traffic_act e s))"
proof (cases e)
  case (Acquire now')
  then show ?thesis
    using growth_mono [OF g] t
    by (auto simp: try_acquire_def Let_def growth_ok_def last_update_or_def limit_ok_def)
next
  case (First_Event i d now')
  have le: "now \<le> now'" using t First_Event by simp
  have "growth_ok t0 now' (fst (begin_provisional_healthy now' (record_ttft n d now' (y_controller s))))" for n
    using growth_record_ttft [OF g le, of n d] g
    by (intro growth_same [OF growth_record_ttft [OF g le, of n d]]) (simp_all add: growth_ok_def limit_ok_def)
  then show ?thesis
    using First_Event growth_mono [OF g le]
    by (simp add: on_permit_def mark_first_event_def Let_def case_prod_beta)
next
  case (Finish i r now')
  have "on_permit i (finish_permit r now') s =
      on_permit i (end_permit (complete (pm_inflight_at_start (y_permits s ! i)) r now')) s"
    by (simp add: on_permit_def finish_permit_def)
  moreover have "growth_ok t0 now' (y_controller s)" using growth_mono [OF g] t Finish by simp
  ultimately show ?thesis using Finish by (simp add: growth_end_permit limit_complete)
next
  case (Drop_Permit i)
  have "on_permit i drop_permit s = on_permit i (end_permit release) s"
    by (simp add: on_permit_def drop_permit_def)
  moreover have "growth_ok t0 now (y_controller (on_permit i (end_permit release) s))"
    using g by (rule growth_end_permit) (simp_all add: limit_ok_def)
  ultimately show ?thesis using Drop_Permit by simp
qed

lemma event_times_Cons: "event_times (e # es) = event_times [e] @ event_times es"
  by (cases e) simp_all

lemma growth_run:
  assumes "growth_ok t0 now (y_controller s)" "sorted (now # event_times es)"
  shows "growth_ok t0 (last (now # event_times es)) (y_controller (run_ops traffic_step es s))"
  using assms
proof (induction es arbitrary: s now)
  case Nil
  then show ?case by simp
next
  case (Cons e es)
  let ?s = "s\<lparr>y_steps := Suc (y_steps s)\<rparr>"
  let ?now = "last (now # event_times [e])"
  have srt: "sorted (now # event_times [e] @ event_times es)"
    using Cons.prems(2) by (metis event_times_Cons)
  have "growth_ok t0 ?now (y_controller (traffic_step e s))"
    unfolding traffic_step_def using Cons.prems(1) srt by (intro growth_act) auto
  moreover have "sorted (?now # event_times es)"
    using srt by (cases e) auto
  ultimately have "growth_ok t0 (last (?now # event_times es)) (y_controller (run_ops traffic_step es (traffic_step e s)))"
    by (rule Cons.IH)
  moreover have "last (?now # event_times es) = last (now # event_times (e # es))"
    by (cases e) simp_all
  ultimately show ?case by simp
qed

section \<open>Properties\<close>

text \<open>
  Slots are never leaked or double-counted: in every interleaving of acquisitions, first
  events, outcomes and drops, the in-flight count is the number of permits that have not ended, it
  never exceeds 64, and an acquisition is refused exactly when that many permits use up the current
  limit, which is at least one; the advertised failure averages stay between zero and one.
\<close>

theorem permits_account_for_slots:
  fixes es now
  defines "s \<equiv> traffic_run es" and "c \<equiv> y_controller (traffic_run es)"
  shows "tc_inflight c = open_permits s \<and> open_permits s \<le> 64 \<and>
    1 \<le> tc_limit c \<and> tc_limit c \<le> 64 \<and>
    isl (snd (try_acquire now c)) = (int (open_permits s) \<ge> \<lfloor>tc_limit c\<rfloor>) \<and>
    ts_overload_ewma (traffic_snapshot_at now c) \<in> {0..1} \<and>
    ts_error_ewma (traffic_snapshot_at now c) \<in> {0..1}"
proof -
  have inv: "slots_inv s" using traffic_run_inv [of es] by (simp add: traffic_inv_def s_def)
  then have ok: "controller_ok c" "limit_ok c"
    by (simp_all add: slots_inv_def c_def s_def controller_ok_def)
  have "capacity c = nat \<lfloor>tc_limit c\<rfloor>" using ok(2) by (rule capacity_floor)
  moreover have "0 \<le> \<lfloor>tc_limit c\<rfloor>" using ok(2) by (simp add: limit_ok_def)
  ultimately have "isl (snd (try_acquire now c)) =
      (int (tc_inflight c) \<ge> \<lfloor>tc_limit c\<rfloor>)"
    by (auto simp: try_acquire_def Let_def)
  then show ?thesis
    using inv ok unit_decayed [of "tc_overload c"] unit_decayed [of "tc_error c"]
    by (auto simp: slots_inv_def c_def s_def limit_ok_def controller_ok_def traffic_snapshot_at_def Let_def)
qed

text \<open>
  A provisional success outlives neither its permit nor its request: until 2^64 operations have
  run on a target, the identifiers recorded as provisionally healthy are exactly those of permits
  whose first event was seen and which have not ended, so a failure average is only masked while
  such a permit is in flight.
\<close>

theorem provisional_evidence_is_live:
  assumes "length es \<le> u64_max"
  shows "fst ` set (tc_provisional_healthy (y_controller (traffic_run es))) =
      {pm_provisional_id p | p. p \<in> set (y_permits (traffic_run es)) \<and> \<not> pm_finished p \<and>
         pm_first_event_recorded p \<and> pm_provisional_id p \<noteq> 0} \<and>
    (provisional_masks (y_controller (traffic_run es)) failure_at \<longrightarrow>
      (\<exists>p \<in> set (y_permits (traffic_run es)). \<not> pm_finished p \<and> pm_first_event_recorded p))"
proof -
  define s where "s = traffic_run es"
  have "y_steps s = length es"
    unfolding s_def traffic_run_def by (simp add: traffic_run_steps) (simp add: traffic_initial_def)
  then have ev: "evidence_inv (tc_next_provisional_id (y_controller s))
      (tc_provisional_healthy (y_controller s)) (y_permits s)"
    using traffic_run_inv [of es] assms by (simp add: traffic_inv_def s_def)
  then have eq: "fst ` set (tc_provisional_healthy (y_controller s)) =
      {pm_provisional_id p | p. p \<in> set (y_permits s) \<and> \<not> pm_finished p \<and>
         pm_first_event_recorded p \<and> pm_provisional_id p \<noteq> 0}"
    unfolding evidence_inv_def permit_ok_def by (auto simp: set_eq_iff in_set_conv_nth)
  have "\<exists>p \<in> set (y_permits s). \<not> pm_finished p \<and> pm_first_event_recorded p"
    if "provisional_masks (y_controller s) failure_at"
  proof -
    have "tc_provisional_healthy (y_controller s) \<noteq> []"
      using that by (auto simp: provisional_masks_def latest_provisional_def is_some_and_def)
    then have "fst ` set (tc_provisional_healthy (y_controller s)) \<noteq> {}" by simp
    then show ?thesis unfolding eq by blast
  qed
  with eq show ?thesis by (simp add: s_def)
qed

theorem provisional_evidence_is_live_witness:
  "let es = [Acquire 0, First_Event 0 1000000 5, Acquire 6, Finish 0 T_Success 9] in
     length es \<le> u64_max \<and> tc_provisional_healthy (y_controller (traffic_run es)) = [] \<and>
     \<not> (\<exists>p \<in> set (y_permits (traffic_run es)). \<not> pm_finished p \<and> pm_first_event_recorded p \<and>
          pm_provisional_id p \<noteq> 0)"
proof -
  let ?es = "[Acquire 0, First_Event 0 1000000 5, Acquire 6, Finish 0 T_Success 9]"
  have "tc_provisional_healthy (y_controller (traffic_run ?es)) = []"
    by (simp add: traffic_run_def traffic_initial_def traffic_step_def try_acquire_def Let_def
        on_permit_def mark_first_event_def finish_permit_def end_permit_def
        begin_provisional_healthy_def controller_default_def wrap_add64_def capacity_def clampf_def
        const_defs)
  then show ?thesis
    using provisional_evidence_is_live [of ?es None] unfolding Let_def
    by (auto simp: u64_max_def)
qed

text \<open>
  Limit growth is window-clocked: whatever the traffic, if the clock readings of a run are
  monotone and lie between \<open>t0\<close> and \<open>t1\<close> then the limit has grown by at most 0.8 per full
  second, however many samples arrived.
\<close>

theorem limit_growth_window_clocked:
  assumes "sorted (event_times es)" "set (event_times es) \<subseteq> {t0..t1}" "t0 \<le> t1"
  shows "tc_limit (y_controller (traffic_run es)) \<le> INITIAL_LIMIT + 4 / 5 * of_int ((t1 - t0) div secs 1)"
proof -
  have "growth_ok t0 t0 (y_controller traffic_initial)"
    by (simp add: growth_ok_def traffic_initial_def limit_ok_def last_update_or_def unwrap_or_def
        controller_default_def windows_def INITIAL_LIMIT_def)
  then have g: "growth_ok t0 (last (t0 # event_times es)) (y_controller (traffic_run es))"
    unfolding traffic_run_def using assms by (intro growth_run) auto
  have "last (t0 # event_times es) \<in> set (t0 # event_times es)" by (rule last_in_set) simp
  then have "last (t0 # event_times es) \<le> t1" using assms(2,3) by auto
  then have "windows t0 (last_update_or t0 (y_controller (traffic_run es))) \<le> windows t0 t1"
    using g by (intro windows_mono) (simp add: growth_ok_def)
  then have "(of_int (windows t0 (last_update_or t0 (y_controller (traffic_run es)))) :: real) \<le> of_int (windows t0 t1)"
    by simp
  then show ?thesis using g by (simp add: growth_ok_def windows_def LIMIT_UPDATE_INTERVAL_def)
qed

theorem limit_growth_window_clocked_witness:
  "let es = [Acquire 0, First_Event 0 1000000 5, Acquire 6, First_Event 1 1000000 1000000005,
       Finish 0 T_Success 2000000000] in
     sorted (event_times es) \<and> set (event_times es) \<subseteq> {0..2500000000} \<and>
     tc_limit (y_controller (traffic_run es)) \<le> 28 / 5"
  using limit_growth_window_clocked [of "[Acquire 0, First_Event 0 1000000 5, Acquire 6,
    First_Event 1 1000000 1000000005, Finish 0 T_Success 2000000000]" 0 2500000000]
  unfolding Let_def by (simp add: const_defs)

end
