(* ===== verification/Secrets.thy ===== *)
theory Secrets
  imports Route_Predicate Sse
begin

text \<open>
  Secret handling (\<^verbatim>\<open>src/src/crypto.rs\<close>): encryption at rest under three derived keys,
  virtual-key generation, masking, and the redaction of text that is logged or stored with an
  account's last error. The block cipher, the hash, base64, hex and the random source are
  third-party code and form the record \<open>cipher_suite\<close>; AES-256-GCM reads a key and a twelve-byte
  nonce, a failed decryption is \<open>None\<close>.
\<close>

section \<open>Definitions\<close>

subsection \<open>Characters of a string\<close>

text \<open>\<^verbatim>\<open>str::chars\<close>: a character is the list of its UTF-8 bytes.\<close>

type_synonym uchar = string

function chars :: "string \<Rightarrow> uchar list" where
  "chars [] = []"
| "chars (c # cs) = (c # takeWhile continuation_byte cs) # chars (dropWhile continuation_byte cs)"
  by pat_completeness auto
termination
  by (relation "measure length") (simp_all add: less_Suc_eq_le length_dropWhile_le)

text \<open>\<^verbatim>\<open>char::is_whitespace\<close>: the code points with the property White_Space.\<close>

definition is_whitespace :: "uchar \<Rightarrow> bool" where
  "is_whitespace u = (case u of [c] \<Rightarrow> ascii_ws c | _ \<Rightarrow> u \<in> set wide_spaces)"

definition is_ascii_alphanumeric :: "uchar \<Rightarrow> bool" where
  "is_ascii_alphanumeric u =
     (case u of
        [c] \<Rightarrow> let n = (of_char c :: nat)
               in (48 \<le> n \<and> n \<le> 57) \<or> (65 \<le> n \<and> n \<le> 90) \<or> (97 \<le> n \<and> n \<le> 122)
      | _ \<Rightarrow> False)"

text \<open>\<^verbatim>\<open>str::split_inclusive\<close> and \<^verbatim>\<open>str::trim_matches\<close>.\<close>

fun split_inclusive :: "('a \<Rightarrow> bool) \<Rightarrow> 'a list \<Rightarrow> 'a list list" where
  "split_inclusive P [] = []"
| "split_inclusive P (c # cs) =
     (if P c then [c] # split_inclusive P cs
      else case split_inclusive P cs of [] \<Rightarrow> [[c]] | t # ts \<Rightarrow> (c # t) # ts)"

definition trim_matches :: "('a \<Rightarrow> bool) \<Rightarrow> 'a list \<Rightarrow> 'a list" where
  "trim_matches P s = rev (dropWhile P (rev (dropWhile P s)))"

subsection \<open>Redaction\<close>

definition token_delimiter :: "uchar \<Rightarrow> bool" where
  "token_delimiter u \<longleftrightarrow> is_whitespace u \<or> u \<in> {''\"'', [CHR 0x27], ''=''}"

definition token_edge :: "uchar \<Rightarrow> bool" where
  "token_edge u \<longleftrightarrow> is_whitespace u \<or> u \<in> {''\"'', [CHR 0x27], '','', ''{'', ''}'', ''=''}"

definition SECRET_PREFIXES :: "string list" where
  "SECRET_PREFIXES = [''sk-'', ''AIza'', ''AQ.'', ''gsk_'', ''sk-ant'', ''ya29.'']"

definition looks_like_secret :: "uchar list \<Rightarrow> bool" where
  "looks_like_secret s =
     (if list_ex (starts_with (concat s)) SECRET_PREFIXES \<and> length (concat s) > 12 then True
      else length (concat s) \<ge> 40 \<and> length (filter is_ascii_alphanumeric s) \<ge> 36)"

definition REDACTED :: "uchar list" where
  "REDACTED = map (\<lambda>c. [c]) ''[REDACTED]''"

definition redact_token :: "uchar list \<Rightarrow> uchar list" where
  "redact_token token =
     (if looks_like_secret (trim_matches token_edge token)
      then REDACTED @ (if token \<noteq> [] \<and> token_delimiter (last token) then [last token] else [])
      else token)"

definition redact :: "string \<Rightarrow> string" where
  "redact text = concat (concat (map redact_token (split_inclusive token_delimiter (chars text))))"

definition mask_secret :: "string \<Rightarrow> string" where
  "mask_secret secret =
     (let cs = chars secret
      in if length cs \<le> 10 then ''****''
         else concat (take 4 cs) @ ''...'' @ concat (drop (length cs - 4) cs))"

subsection \<open>Encryption at rest\<close>

record cipher_suite =
  cs_seal :: "string \<Rightarrow> string \<Rightarrow> string \<Rightarrow> string option"
  cs_open :: "string \<Rightarrow> string \<Rightarrow> string \<Rightarrow> string option"
  cs_sha256 :: "string \<Rightarrow> string"
  cs_b64_encode :: "string \<Rightarrow> string"
  cs_b64_decode :: "string \<Rightarrow> string option"
  cs_hex :: "string \<Rightarrow> string"

datatype crypto_error = EncryptionFailed | InvalidEncoding | CiphertextTooShort | DecryptionFailed | NotUtf8

record crypto =
  cr_cipher :: string
  cr_kv_cipher :: string
  cr_opaque_state_cipher :: string

definition crypto_new :: "cipher_suite \<Rightarrow> string \<Rightarrow> crypto" where
  "crypto_new cs master =
     \<lparr>cr_cipher = master,
      cr_kv_cipher = cs_sha256 cs (''kinetix-plugin-kv'' @ master),
      cr_opaque_state_cipher = cs_sha256 cs (''kinetix-opaque-provider-state'' @ master)\<rparr>"

definition encrypt_with :: "cipher_suite \<Rightarrow> string \<Rightarrow> string \<Rightarrow> string \<Rightarrow> crypto_error + string" where
  "encrypt_with cs key nonce plaintext =
     (case cs_seal cs key nonce plaintext of
        None \<Rightarrow> Inl EncryptionFailed
      | Some ct \<Rightarrow> Inr (cs_b64_encode cs (nonce @ ct)))"

text \<open>\<^verbatim>\<open>String::from_utf8\<close>: the lossy decoder leaves exactly well-formed input unchanged.\<close>

definition from_utf8 :: "string \<Rightarrow> string option" where
  "from_utf8 s = (if utf8_lossy s = s then Some s else None)"

definition decrypt_with :: "cipher_suite \<Rightarrow> string \<Rightarrow> string \<Rightarrow> crypto_error + string" where
  "decrypt_with cs key encoded =
     (case cs_b64_decode cs encoded of
        None \<Rightarrow> Inl InvalidEncoding
      | Some raw \<Rightarrow>
          if length raw < 12 then Inl CiphertextTooShort
          else case cs_open cs key (take 12 raw) (drop 12 raw) of
                 None \<Rightarrow> Inl DecryptionFailed
               | Some pt \<Rightarrow> (case from_utf8 pt of None \<Rightarrow> Inl NotUtf8 | Some s \<Rightarrow> Inr s))"

definition encrypt :: "cipher_suite \<Rightarrow> crypto \<Rightarrow> string \<Rightarrow> string \<Rightarrow> crypto_error + string" where
  "encrypt cs c nonce p = encrypt_with cs (cr_cipher c) nonce p"

definition decrypt :: "cipher_suite \<Rightarrow> crypto \<Rightarrow> string \<Rightarrow> crypto_error + string" where
  "decrypt cs c e = decrypt_with cs (cr_cipher c) e"

definition encrypt_kv :: "cipher_suite \<Rightarrow> crypto \<Rightarrow> string \<Rightarrow> string \<Rightarrow> crypto_error + string" where
  "encrypt_kv cs c nonce p = encrypt_with cs (cr_kv_cipher c) nonce p"

definition decrypt_kv :: "cipher_suite \<Rightarrow> crypto \<Rightarrow> string \<Rightarrow> crypto_error + string" where
  "decrypt_kv cs c e = decrypt_with cs (cr_kv_cipher c) e"

definition encrypt_opaque_state :: "cipher_suite \<Rightarrow> crypto \<Rightarrow> string \<Rightarrow> string \<Rightarrow> crypto_error + string" where
  "encrypt_opaque_state cs c nonce p = encrypt_with cs (cr_opaque_state_cipher c) nonce p"

definition decrypt_opaque_state :: "cipher_suite \<Rightarrow> crypto \<Rightarrow> string \<Rightarrow> crypto_error + string" where
  "decrypt_opaque_state cs c e = decrypt_with cs (cr_opaque_state_cipher c) e"

subsection \<open>Virtual keys\<close>

definition generate_virtual_key :: "cipher_suite \<Rightarrow> string \<Rightarrow> string" where
  "generate_virtual_key cs random24 = ''sk-kinetix-'' @ cs_hex cs random24"

definition hash_virtual_key :: "cipher_suite \<Rightarrow> string \<Rightarrow> string" where
  "hash_virtual_key cs key = cs_hex cs (cs_sha256 cs key)"

definition constant_time_eq :: "string \<Rightarrow> string \<Rightarrow> bool" where
  "constant_time_eq a b = (if length a \<noteq> length b then False else a = b)"

section \<open>Lemmas on tokens\<close>

lemma concat_chars: "concat (chars s) = s"
  by (induction s rule: chars.induct) simp_all

text \<open>A list of characters that is the character list of its own bytes.\<close>

definition uchar_ok :: "uchar \<Rightarrow> bool" where
  "uchar_ok u \<longleftrightarrow> u \<noteq> [] \<and> \<not> continuation_byte (hd u) \<and> (\<forall>c \<in> set (List.tl u). continuation_byte c)"

lemma span_none: "xs = [] \<or> \<not> P (hd xs) \<Longrightarrow> takeWhile P xs = [] \<and> dropWhile P xs = xs"
  by (cases xs) auto

lemma chars_concat: "\<forall>u \<in> set us. uchar_ok u \<Longrightarrow> chars (concat us) = us"
proof (induction us)
  case (Cons u us)
  obtain c cs where u: "u = c # cs" using Cons.prems by (cases u) (auto simp: uchar_ok_def)
  have cont: "\<forall>c \<in> set cs. continuation_byte c" using Cons.prems u by (simp add: uchar_ok_def)
  have "concat us = [] \<or> \<not> continuation_byte (hd (concat us))"
    using Cons.prems by (cases us) (auto simp: uchar_ok_def)
  then have "takeWhile continuation_byte (concat us) = []" "dropWhile continuation_byte (concat us) = concat us"
    using span_none [of "concat us" continuation_byte] by blast+
  then have "takeWhile continuation_byte (cs @ concat us) = cs"
      "dropWhile continuation_byte (cs @ concat us) = concat us"
    using cont by (simp_all add: takeWhile_append2 dropWhile_append2)
  then show ?case using Cons by (simp add: u)
qed simp

lemma chars_ok: "s = [] \<or> \<not> continuation_byte (hd s) \<Longrightarrow> \<forall>u \<in> set (chars s). uchar_ok u"
proof (induction s rule: chars.induct)
  case (2 c cs)
  let ?r = "dropWhile continuation_byte cs"
  have "?r = [] \<or> \<not> continuation_byte (hd ?r)" using hd_dropWhile [of continuation_byte cs] by blast
  then show ?case using 2 by (auto simp: uchar_ok_def dest: set_takeWhileD)
qed simp

text \<open>Token lists that splitting reproduces: a token ends at its first delimiter.\<close>

fun tokenized :: "('a \<Rightarrow> bool) \<Rightarrow> 'a list list \<Rightarrow> bool" where
  "tokenized P [] = True"
| "tokenized P [t] = (t \<noteq> [] \<and> (\<forall>c \<in> set (butlast t). \<not> P c))"
| "tokenized P (t # ts) = (t \<noteq> [] \<and> (\<forall>c \<in> set (butlast t). \<not> P c) \<and> P (last t) \<and> tokenized P ts)"

lemma tokenized_tail: "tokenized P (t # ts) \<Longrightarrow> tokenized P ts"
  by (cases ts) auto

lemma split_inclusive_tokenized: "tokenized P (split_inclusive P s)"
proof (induction s)
  case (Cons c cs)
  show ?case
  proof (cases "split_inclusive P cs")
    case (Cons t ts)
    with Cons.IH show ?thesis by (cases ts) auto
  qed simp
qed simp

lemma split_inclusive_token:
  "t \<noteq> [] \<Longrightarrow> \<forall>c \<in> set (butlast t). \<not> P c \<Longrightarrow> P (last t) \<Longrightarrow>
   split_inclusive P (t @ s) = t # split_inclusive P s"
proof (induction t)
  case (Cons c cs)
  then show ?case by (cases "cs = []") (auto split: if_splits)
qed simp

lemma split_inclusive_last:
  "t \<noteq> [] \<Longrightarrow> \<forall>c \<in> set (butlast t). \<not> P c \<Longrightarrow> split_inclusive P t = [t]"
proof (induction t)
  case (Cons c cs)
  then show ?case by (cases "cs = []") (auto split: if_splits)
qed simp

lemma split_inclusive_concat: "tokenized P ts \<Longrightarrow> split_inclusive P (concat ts) = ts"
  by (induction P ts rule: tokenized.induct)
    (simp_all add: split_inclusive_last split_inclusive_token del: concat.simps(2) add: concat.simps)

section \<open>Lemmas on redaction\<close>

lemma span_append_all:
  "\<forall>c \<in> set xs. \<not> P c \<Longrightarrow> xs \<noteq> [] \<Longrightarrow> dropWhile P (xs @ ys) = xs @ ys"
  by (cases xs) auto

lemma REDACTED_plain: "\<forall>u \<in> set REDACTED. \<not> token_edge u \<and> \<not> token_delimiter u \<and> uchar_ok u"
  by (simp add: REDACTED_def token_edge_def token_delimiter_def is_whitespace_def ascii_ws_def
      uchar_ok_def continuation_byte_def of_char_def)

lemma delimiter_is_edge: "token_delimiter u \<Longrightarrow> token_edge u"
  by (auto simp: token_delimiter_def token_edge_def)

lemma trim_REDACTED:
  assumes "ds = [] \<or> (\<exists>d. ds = [d] \<and> token_delimiter d)"
  shows "trim_matches token_edge (REDACTED @ ds) = REDACTED"
proof -
  have ne: "REDACTED \<noteq> []" "rev REDACTED \<noteq> []" by (simp_all add: REDACTED_def)
  have "dropWhile token_edge (REDACTED @ ds) = REDACTED @ ds"
    using REDACTED_plain ne by (intro span_append_all) auto
  moreover have "dropWhile token_edge (rev ds @ rev REDACTED) = rev REDACTED"
    using assms REDACTED_plain ne span_append_all [of "rev REDACTED" token_edge "[]"]
    by (auto simp: delimiter_is_edge)
  ultimately show ?thesis by (simp add: trim_matches_def)
qed

lemma REDACTED_no_secret: "\<not> looks_like_secret REDACTED"
  by (simp add: looks_like_secret_def REDACTED_def SECRET_PREFIXES_def starts_with_def)

text \<open>What is left of a token never looks like a secret, and is left alone the second time.\<close>

lemma redact_token_clean: "\<not> looks_like_secret (trim_matches token_edge (redact_token t))"
  by (auto simp: redact_token_def trim_REDACTED REDACTED_no_secret)

lemma redact_token_idem: "redact_token (redact_token t) = redact_token t"
  using redact_token_clean [of t] by (simp add: redact_token_def [of "redact_token t"])

lemma redact_token_shape:
  assumes "t \<noteq> []" "\<forall>c \<in> set (butlast t). \<not> token_delimiter c"
  shows "redact_token t \<noteq> []" "\<forall>c \<in> set (butlast (redact_token t)). \<not> token_delimiter c"
    and "token_delimiter (last t) \<Longrightarrow> token_delimiter (last (redact_token t))"
  using assms REDACTED_plain
  by (auto simp: redact_token_def butlast_append REDACTED_def dest: in_set_butlastD)

lemma tokenized_redact: "tokenized token_delimiter ts \<Longrightarrow> tokenized token_delimiter (map redact_token ts)"
proof (induction token_delimiter ts rule: tokenized.induct)
  case (3 t t' ts)
  then show ?case using redact_token_shape [of t] by simp
next
  case (2 t)
  then show ?case using redact_token_shape [of t] by simp
qed simp

lemma redact_token_chars: "\<forall>u \<in> set t. uchar_ok u \<Longrightarrow> \<forall>u \<in> set (redact_token t). uchar_ok u"
  using REDACTED_plain by (auto simp: redact_token_def)

lemma concat_split_inclusive: "concat (split_inclusive P s) = s"
  by (induction s) (auto split: list.split)

lemma redact_tokens:
  assumes "s = [] \<or> \<not> continuation_byte (hd s)"
  shows "split_inclusive token_delimiter (chars (redact s)) =
    map redact_token (split_inclusive token_delimiter (chars s))"
proof -
  let ?ts = "split_inclusive token_delimiter (chars s)"
  have "\<forall>t \<in> set ?ts. \<forall>u \<in> set t. uchar_ok u"
    using chars_ok [OF assms] concat_split_inclusive [of token_delimiter "chars s"]
    by (metis UN_I set_concat)
  then have "\<forall>u \<in> set (concat (map redact_token ?ts)). uchar_ok u"
    using redact_token_chars by fastforce
  then have "chars (redact s) = concat (map redact_token ?ts)"
    unfolding redact_def by (rule chars_concat)
  then show ?thesis
    by (simp add: split_inclusive_concat tokenized_redact split_inclusive_tokenized)
qed

section \<open>Properties\<close>

text \<open>
  C30. Redaction is complete for its own notion of a secret and stable: no token of redacted text
  looks like a secret any more, and redacting again changes nothing. (A Rust string starts with a
  character, so its first byte is no continuation byte.)
\<close>

theorem redact_removes_secrets:
  assumes "s = [] \<or> \<not> continuation_byte (hd s)"
  shows "(\<forall>t \<in> set (split_inclusive token_delimiter (chars (redact s))).
       \<not> looks_like_secret (trim_matches token_edge t)) \<and> redact (redact s) = redact s"
proof
  show "\<forall>t \<in> set (split_inclusive token_delimiter (chars (redact s))).
      \<not> looks_like_secret (trim_matches token_edge t)"
    by (simp add: redact_tokens [OF assms] redact_token_clean)
  show "redact (redact s) = redact s"
    unfolding redact_def [of "redact s"] redact_tokens [OF assms]
    by (simp add: redact_def redact_token_idem o_def)
qed

theorem redact_removes_secrets_witness:
  "let s = ''key=sk-0123456789abc ok'' in
     \<not> continuation_byte (hd s) \<and> redact s = ''key=[REDACTED] ok'' \<and> redact (redact s) = redact s"
proof -
  let ?s = "''key=sk-0123456789abc ok''"
  have "redact ?s = ''key=[REDACTED] ok''" by code_simp
  moreover have "\<not> continuation_byte (hd ?s)" by code_simp
  ultimately show ?thesis using redact_removes_secrets [of ?s] by simp
qed

text \<open>
  A stored secret is read back by the matching decryption and by no other: given a cipher that
  opens what it sealed and rejects other keys, distinct derived keys and a base64 codec that round
  trips, \<^verbatim>\<open>decrypt\<close> inverts \<^verbatim>\<open>encrypt\<close>, while the plugin and the
  continuation-state decryption fail on it.
\<close>

theorem crypto_domains_separated:
  assumes seal: "cs_seal cs (cr_cipher c) nonce p = Some ct"
    and opens: "cs_open cs (cr_cipher c) nonce ct = Some p"
    and authentic: "\<And>k. k \<noteq> cr_cipher c \<Longrightarrow> cs_open cs k nonce ct = None"
    and keys: "cr_kv_cipher c \<noteq> cr_cipher c" "cr_opaque_state_cipher c \<noteq> cr_cipher c"
    and b64: "cs_b64_decode cs (cs_b64_encode cs (nonce @ ct)) = Some (nonce @ ct)"
    and nonce: "length nonce = 12" and utf8: "utf8_lossy p = p"
  shows "\<exists>e. encrypt cs c nonce p = Inr e \<and> decrypt cs c e = Inr p \<and>
    decrypt_kv cs c e = Inl DecryptionFailed \<and> decrypt_opaque_state cs c e = Inl DecryptionFailed"
  using assms
  by (simp add: encrypt_def decrypt_def decrypt_kv_def decrypt_opaque_state_def encrypt_with_def
      decrypt_with_def from_utf8_def)

definition demo_suite :: cipher_suite where
  "demo_suite = \<lparr>cs_seal = (\<lambda>k n p. Some (k @ n @ p)),
     cs_open = (\<lambda>k n ct. if length k = 6 \<and> take 6 ct = k \<and> take (length n) (drop 6 ct) = n
        then Some (drop (6 + length n) ct) else None),
     cs_sha256 = rev, cs_b64_encode = (\<lambda>x. x), cs_b64_decode = Some, cs_hex = (\<lambda>x. x)\<rparr>"

theorem crypto_domains_separated_witness:
  "\<exists>e. encrypt demo_suite (crypto_new demo_suite ''master'') ''0123456789ab'' ''pw'' = Inr e \<and>
     decrypt demo_suite (crypto_new demo_suite ''master'') e = Inr ''pw'' \<and>
     decrypt_kv demo_suite (crypto_new demo_suite ''master'') e = Inl DecryptionFailed"
proof -
  have "utf8_lossy ''pw'' = ''pw''" by code_simp
  moreover have "cs_open demo_suite k ''0123456789ab'' ''master0123456789abpw'' = None"
    if "k \<noteq> ''master''" for k
    using that by (auto simp: demo_suite_def)
  ultimately show ?thesis
    using crypto_domains_separated [of demo_suite "crypto_new demo_suite ''master''" "''0123456789ab''" "''pw''"
      "''master0123456789abpw''"]
    by (auto simp: demo_suite_def crypto_new_def)
qed

end
