(* ===== verification/Trace_Recorder.thy ===== *)
theory Trace_Recorder
  imports Core_Types
begin

text \<open>
  Route traces and the flight recorder (\<^verbatim>\<open>src/src/trace.rs\<close>). A trace is an append-only
  list of steps with a commit state and an outcome; the recorder keeps a bounded number of events
  for a bounded number of requests, evicting the oldest request. Elapsed times are readings of the
  clock and arguments of the operations.
\<close>

section \<open>Definitions\<close>

subsection \<open>Route trace\<close>

record trace_step =
  st_stage :: string
  st_target :: "string option"
  st_eligible :: "bool option"
  st_predicate :: "string option"
  st_detail :: string
  st_resolved_transport :: "string option"
  st_elapsed_ms :: nat

record plugin_fact_trace =
  pft_fact :: string
  pft_value :: json
  pft_source :: json

record plugin_fact_failure_trace =
  pff_plugin :: string
  pff_result :: string

record route_trace =
  rt_request_id :: string
  rt_opaque_route_id :: string
  rt_requested_model :: string
  rt_route_id :: "string option"
  rt_route_name :: "string option"
  rt_final_target :: "string option"
  rt_commit_state :: string
  rt_outcome :: string
  rt_steps :: "trace_step list"
  rt_warnings :: "string list"
  rt_plugin_facts :: "plugin_fact_trace list"
  rt_plugin_fact_failures :: "plugin_fact_failure_trace list"

definition trace_new :: "string \<Rightarrow> string \<Rightarrow> string \<Rightarrow> route_trace" where
  "trace_new uuid request_id model_name =
     \<lparr>rt_request_id = request_id, rt_opaque_route_id = ''krt_'' @ uuid,
      rt_requested_model = model_name, rt_route_id = None, rt_route_name = None,
      rt_final_target = None, rt_commit_state = ''not_committed'', rt_outcome = ''failed'',
      rt_steps = [], rt_warnings = [], rt_plugin_facts = [], rt_plugin_fact_failures = []\<rparr>"

definition push_step :: "trace_step \<Rightarrow> route_trace \<Rightarrow> route_trace" where
  "push_step s t = t\<lparr>rt_steps := rt_steps t @ [s]\<rparr>"

definition plain_step :: "nat \<Rightarrow> string \<Rightarrow> string option \<Rightarrow> string \<Rightarrow> trace_step" where
  "plain_step ms stage target detail =
     \<lparr>st_stage = stage, st_target = target, st_eligible = None, st_predicate = None,
      st_detail = detail, st_resolved_transport = None, st_elapsed_ms = ms\<rparr>"

definition trace_add :: "nat \<Rightarrow> string \<Rightarrow> string option \<Rightarrow> string \<Rightarrow> route_trace \<Rightarrow> route_trace" where
  "trace_add ms stage target detail = push_step (plain_step ms stage target detail)"

definition resolved_transport :: "nat \<Rightarrow> string \<Rightarrow> string \<Rightarrow> route_trace \<Rightarrow> route_trace" where
  "resolved_transport ms target transport = push_step
     ((plain_step ms ''attempt'' (Some target) ''target execution profile resolved'')
        \<lparr>st_resolved_transport := Some transport\<rparr>)"

definition trace_candidate ::
  "nat \<Rightarrow> string \<Rightarrow> bool \<Rightarrow> string option \<Rightarrow> string \<Rightarrow> route_trace \<Rightarrow> route_trace" where
  "trace_candidate ms target eligible pred detail = push_step
     ((plain_step ms ''candidate'' (Some target) detail)
        \<lparr>st_eligible := Some eligible, st_predicate := pred\<rparr>)"

definition trace_warn :: "nat \<Rightarrow> string \<Rightarrow> route_trace \<Rightarrow> route_trace" where
  "trace_warn ms w t =
     (let t' = push_step (plain_step ms ''warning'' None w) t
      in t'\<lparr>rt_warnings := rt_warnings t' @ [w]\<rparr>)"

definition trace_commit :: "nat \<Rightarrow> route_trace \<Rightarrow> route_trace" where
  "trace_commit ms t =
     trace_add ms ''commit'' None ''first client bytes sent; no further retry''
       (t\<lparr>rt_commit_state := ''committed''\<rparr>)"

definition trace_finish :: "nat \<Rightarrow> string \<Rightarrow> route_trace \<Rightarrow> route_trace" where
  "trace_finish ms outcome t =
     trace_add ms ''result'' None (''outcome='' @ outcome) (t\<lparr>rt_outcome := outcome\<rparr>)"

text \<open>\<open>pr\<close> is the JSON printer.\<close>

definition trace_plugin_fact ::
  "(json \<Rightarrow> string) \<Rightarrow> nat \<Rightarrow> string \<Rightarrow> json \<Rightarrow> json \<Rightarrow> route_trace \<Rightarrow> route_trace" where
  "trace_plugin_fact pr ms name val src t =
     push_step (plain_step ms ''plugin_fact'' (Some name) (''= '' @ pr val))
       (t\<lparr>rt_plugin_facts := rt_plugin_facts t @ [\<lparr>pft_fact = name, pft_value = val, pft_source = src\<rparr>]\<rparr>)"

definition trace_plugin_fact_failure :: "nat \<Rightarrow> string \<Rightarrow> string \<Rightarrow> route_trace \<Rightarrow> route_trace" where
  "trace_plugin_fact_failure ms plugin_id reason t =
     push_step ((plain_step ms ''plugin_fact_failure'' (Some plugin_id) (''fact provider failed: '' @ reason))
         \<lparr>st_predicate := Some ''unknown''\<rparr>)
       (t\<lparr>rt_plugin_fact_failures := rt_plugin_fact_failures t @
            [\<lparr>pff_plugin = plugin_id, pff_result = ''unknown''\<rparr>]\<rparr>)"

subsection \<open>Flight recorder\<close>

record flight_event =
  fe_seq :: nat
  fe_elapsed_ms :: nat
  fe_event :: string
  fe_detail :: string

record flight_recorder =
  fl_order :: "string list"
  fl_by_request :: "string \<rightharpoonup> flight_event list"
  fl_seq :: nat
  fl_max_requests :: nat
  fl_max_events_per_request :: nat
  fl_dropped_requests :: nat
  fl_dropped_events :: nat

definition flight_new :: "nat \<Rightarrow> nat \<Rightarrow> flight_recorder" where
  "flight_new max_requests max_events =
     \<lparr>fl_order = [], fl_by_request = Map.empty, fl_seq = 0, fl_max_requests = max_requests,
      fl_max_events_per_request = max_events, fl_dropped_requests = 0, fl_dropped_events = 0\<rparr>"

definition flight_default :: flight_recorder where
  "flight_default = flight_new 512 128"

definition admit_request :: "string \<Rightarrow> flight_recorder \<Rightarrow> flight_recorder" where
  "admit_request q f =
     (if fl_by_request f q \<noteq> None then f
      else let f' = (if length (fl_order f) \<ge> fl_max_requests f
                     then case fl_order f of
                            [] \<Rightarrow> f
                          | oldest # rest \<Rightarrow>
                              f\<lparr>fl_order := rest, fl_by_request := (fl_by_request f)(oldest := None),
                                fl_dropped_requests := wrap_add64 (fl_dropped_requests f) 1\<rparr>
                     else f)
           in f'\<lparr>fl_order := fl_order f' @ [q]\<rparr>)"

definition flight_record :: "string \<times> nat \<times> string \<times> string \<Rightarrow> flight_recorder \<Rightarrow> flight_recorder" where
  "flight_record e f0 =
     (case e of (q, ms, event, detail) \<Rightarrow>
        let f1 = f0\<lparr>fl_seq := wrap_add64 (fl_seq f0) 1\<rparr>;
            f = admit_request q f1;
            entry = unwrap_or (fl_by_request f q) []
        in if length entry \<ge> fl_max_events_per_request f
           then f\<lparr>fl_by_request := (fl_by_request f)(q \<mapsto> entry),
                  fl_dropped_events := wrap_add64 (fl_dropped_events f) 1\<rparr>
           else f\<lparr>fl_by_request := (fl_by_request f)(q \<mapsto> entry @
                    [\<lparr>fe_seq = fl_seq f, fe_elapsed_ms = ms, fe_event = event, fe_detail = detail\<rparr>])\<rparr>)"

definition flight_events :: "string \<Rightarrow> flight_recorder \<Rightarrow> flight_event list" where
  "flight_events q f = unwrap_or (fl_by_request f q) []"

definition flight_request_count :: "flight_recorder \<Rightarrow> nat" where
  "flight_request_count f = length (fl_order f)"

definition flight_dropped_requests :: "flight_recorder \<Rightarrow> nat" where
  "flight_dropped_requests f = fl_dropped_requests f"

definition flight_dropped_events :: "flight_recorder \<Rightarrow> nat" where
  "flight_dropped_events f = fl_dropped_events f"

text \<open>A recording run, newest call first.\<close>

fun flight_run :: "nat \<Rightarrow> nat \<Rightarrow> (string \<times> nat \<times> string \<times> string) list \<Rightarrow> flight_recorder" where
  "flight_run m n [] = flight_new m n"
| "flight_run m n (e # es) = flight_record e (flight_run m n es)"

section \<open>The recorder's invariant\<close>

definition flight_inv :: "nat \<Rightarrow> nat \<Rightarrow> flight_recorder \<Rightarrow> bool" where
  "flight_inv m n f \<longleftrightarrow> fl_max_requests f = m \<and> fl_max_events_per_request f = n \<and>
     distinct (fl_order f) \<and> dom (fl_by_request f) = set (fl_order f) \<and>
     length (fl_order f) \<le> max 1 m \<and>
     (\<forall>q l. fl_by_request f q = Some l \<longrightarrow> length l \<le> n \<and> (\<forall>e \<in> set l. fe_seq e \<le> u64_max))"

lemma flight_inv_new: "flight_inv m n (flight_new m n)"
  by (simp add: flight_inv_def flight_new_def)

text \<open>After admission the request is listed; it has no entry yet when it is new.\<close>

definition admitted :: "nat \<Rightarrow> nat \<Rightarrow> string \<Rightarrow> flight_recorder \<Rightarrow> flight_recorder \<Rightarrow> bool" where
  "admitted m n q f g \<longleftrightarrow> fl_max_requests g = m \<and> fl_max_events_per_request g = n \<and>
     distinct (fl_order g) \<and> insert q (dom (fl_by_request g)) = set (fl_order g) \<and>
     length (fl_order g) \<le> max 1 m \<and> fl_by_request g q = fl_by_request f q \<and>
     (\<forall>q' l. fl_by_request g q' = Some l \<longrightarrow> fl_by_request f q' = Some l)"

lemma admit_request_inv:
  assumes inv: "flight_inv m n f"
  shows "admitted m n q f (admit_request q f)"
proof (cases "fl_by_request f q")
  case (Some l)
  then have "q \<in> dom (fl_by_request f)" by blast
  with Some inv show ?thesis
    by (simp add: admitted_def admit_request_def flight_inv_def insert_absorb)
next
  case None
  have "dom (fl_by_request f) = set (fl_order f)" using inv by (simp add: flight_inv_def)
  then have q: "q \<notin> set (fl_order f)" using None by blast
  show ?thesis
  proof (cases "length (fl_order f) < m \<or> fl_order f = []")
    case True
    then have "admit_request q f = f\<lparr>fl_order := fl_order f @ [q]\<rparr>"
      using None inv by (auto simp: admit_request_def Let_def flight_inv_def)
    with True q inv show ?thesis by (auto simp: admitted_def flight_inv_def)
  next
    case False
    then obtain x xs where order: "fl_order f = x # xs" by (cases "fl_order f") auto
    let ?g = "f\<lparr>fl_order := xs @ [q], fl_by_request := (fl_by_request f)(x := None),
      fl_dropped_requests := wrap_add64 (fl_dropped_requests f) 1\<rparr>"
    have "admit_request q f = ?g"
      using None inv False order by (simp add: admit_request_def Let_def flight_inv_def)
    moreover have "admitted m n q f ?g"
    proof -
      have "dom (fl_by_request f) = insert x (set xs)" "distinct (x # xs)" "length (x # xs) \<le> max 1 m"
        "fl_max_requests f = m" "fl_max_events_per_request f = n"
        using inv order by (auto simp: flight_inv_def)
      then show ?thesis using None q order by (auto simp: admitted_def split: if_splits)
    qed
    ultimately show ?thesis by simp
  qed
qed

lemma flight_record_inv:
  assumes "flight_inv m n f"
  shows "flight_inv m n (flight_record e f)"
proof -
  obtain q ms ev d where e: "e = (q, ms, ev, d)" by (cases e) auto
  define f1 where "f1 = f\<lparr>fl_seq := wrap_add64 (fl_seq f) 1\<rparr>"
  define g where "g = admit_request q f1"
  have f1: "flight_inv m n f1" using assms by (simp add: flight_inv_def f1_def)
  have adm: "admitted m n q f1 g" unfolding g_def by (rule admit_request_inv [OF f1])
  have sq: "fl_seq g \<le> u64_max"
    by (simp add: g_def admit_request_def f1_def Let_def split: list.split)
  have old: "length l \<le> n \<and> (\<forall>e \<in> set l. fe_seq e \<le> u64_max)"
    if "fl_by_request g q' = Some l" for q' l
  proof -
    have "fl_by_request f1 q' = Some l" using that adm by (simp add: admitted_def)
    then show ?thesis using f1 by (simp add: flight_inv_def)
  qed
  define entry where "entry = unwrap_or (fl_by_request g q) []"
  have entry: "length entry \<le> n" "\<forall>e \<in> set entry. fe_seq e \<le> u64_max"
    using old [of q] by (cases "fl_by_request g q"; simp add: entry_def unwrap_or_def)+
  have "flight_record e f = (if length entry \<ge> n
      then g\<lparr>fl_by_request := (fl_by_request g)(q \<mapsto> entry), fl_dropped_events := wrap_add64 (fl_dropped_events g) 1\<rparr>
      else g\<lparr>fl_by_request := (fl_by_request g)(q \<mapsto> entry @
             [\<lparr>fe_seq = fl_seq g, fe_elapsed_ms = ms, fe_event = ev, fe_detail = d\<rparr>])\<rparr>)"
    unfolding e flight_record_def Let_def prod.case f1_def [symmetric] g_def [symmetric]
      entry_def [symmetric]
    using adm by (simp add: admitted_def)
  moreover have put: "flight_inv m n (g\<lparr>fl_by_request := (fl_by_request g)(q \<mapsto> l), fl_dropped_events := k\<rparr>)"
    if "length l \<le> n" "\<forall>e \<in> set l. fe_seq e \<le> u64_max" for l k
    using that adm old by (simp add: flight_inv_def admitted_def)
  moreover have "flight_inv m n (g\<lparr>fl_by_request := (fl_by_request g)(q \<mapsto> l)\<rparr>)"
    if "length l \<le> n" "\<forall>e \<in> set l. fe_seq e \<le> u64_max" for l
    using put [OF that, of "fl_dropped_events g"] by simp
  ultimately show ?thesis using entry sq by (cases "n \<le> length entry") auto
qed

lemma flight_run_inv: "flight_inv m n (flight_run m n es)"
  by (induction es) (simp_all add: flight_inv_new flight_record_inv)

section \<open>What the recorder keeps\<close>

text \<open>The unbounded log of a request, as a specification.\<close>

fun full_log :: "string \<Rightarrow> (string \<times> nat \<times> string \<times> string) list \<Rightarrow> flight_event list" where
  "full_log q [] = []"
| "full_log q ((r, ms, event, detail) # es) =
     full_log q es @ (if r = q then [\<lparr>fe_seq = Suc (length es), fe_elapsed_ms = ms, fe_event = event,
                                      fe_detail = detail\<rparr>] else [])"

lemma admit_request_fits:
  assumes "fl_by_request f q = None \<Longrightarrow> length (fl_order f) < fl_max_requests f"
  shows "admit_request q f =
    (if fl_by_request f q = None then f\<lparr>fl_order := fl_order f @ [q]\<rparr> else f)"
  using assms by (auto simp: admit_request_def Let_def)

lemma take_snoc_cap: "length xs \<ge> n \<Longrightarrow> take n (xs @ ys) = take n xs" by simp

lemma flight_run_log:
  assumes "card (fst ` set es) \<le> m" "length es \<le> u64_max"
  shows "fl_seq (flight_run m n es) = length es \<and> set (fl_order (flight_run m n es)) = fst ` set es \<and>
    fl_dropped_requests (flight_run m n es) = 0 \<and>
    fl_by_request (flight_run m n es) =
      (\<lambda>q. if q \<in> fst ` set es then Some (take n (full_log q es)) else None)"
  using assms
proof (induction es)
  case Nil
  then show ?case by (simp add: flight_new_def fun_eq_iff)
next
  case (Cons e es)
  obtain q ms ev d where e: "e = (q, ms, ev, d)" by (cases e) auto
  define f where "f = flight_run m n es"
  have "card (fst ` set es) \<le> card (fst ` set (e # es))" by (intro card_mono) auto
  then have IH: "fl_seq f = length es" "set (fl_order f) = fst ` set es" "fl_dropped_requests f = 0"
    "fl_by_request f = (\<lambda>q. if q \<in> fst ` set es then Some (take n (full_log q es)) else None)"
    using Cons by (auto simp: f_def)
  have inv: "flight_inv m n f" unfolding f_def by (rule flight_run_inv)
  then have len: "length (fl_order f) = card (fst ` set es)"
    using IH(2) by (metis distinct_card flight_inv_def)
  have "length (fl_order f) < m" if "q \<notin> fst ` set es"
    using Cons.prems(1) that by (simp add: e len)
  then have adm: "admit_request q (f\<lparr>fl_seq := x\<rparr>) =
      (if q \<in> fst ` set es then f\<lparr>fl_seq := x\<rparr> else f\<lparr>fl_seq := x, fl_order := fl_order f @ [q]\<rparr>)" for x
    using inv by (subst admit_request_fits) (auto simp: IH flight_inv_def)
  have sq: "wrap_add64 (fl_seq f) 1 = Suc (length es)"
    using Cons.prems(2) by (simp add: IH(1) wrap_add64_exact)
  have n: "fl_max_events_per_request f = n" using inv by (simp add: flight_inv_def)
  have new: "full_log q es = []" if "q \<notin> fst ` set es"
    using that by (induction es) auto
  show ?case
  proof (cases "q \<in> fst ` set es")
    case True
    then show ?thesis
      using sq n IH by (auto simp: e f_def [symmetric] flight_record_def Let_def adm unwrap_or_def fun_eq_iff)
  next
    case False
    then show ?thesis
      using sq n IH new [OF False]
      by (auto simp: e f_def [symmetric] flight_record_def Let_def adm unwrap_or_def fun_eq_iff take_Cons')
  qed
qed

section \<open>Properties\<close>

text \<open>
  The flight recorder is bounded and its index is consistent after any sequence of calls:
  the listed requests are distinct, are exactly those with an entry and number at most the
  configured maximum (one when it is zero), and no request keeps more than its share of events.
\<close>

theorem flight_recorder_bounded:
  "distinct (fl_order (flight_run m n es)) \<and>
   dom (fl_by_request (flight_run m n es)) = set (fl_order (flight_run m n es)) \<and>
   flight_request_count (flight_run m n es) \<le> max 1 m \<and>
   length (flight_events q (flight_run m n es)) \<le> n"
  using flight_run_inv [of m n es]
  by (auto simp: flight_inv_def flight_request_count_def flight_events_def unwrap_or_def split: option.split)

text \<open>
  Below its bounds the recorder loses nothing: when the calls concern at most the maximal
  number of requests, every request's events are the first \<open>n\<close> of its calls in order, numbered
  by their position among all calls.
\<close>

theorem flight_recorder_faithful:
  assumes "card (fst ` set es) \<le> m" "length es \<le> u64_max"
  shows "flight_events q (flight_run m n es) = take n (full_log q es) \<and>
    flight_dropped_requests (flight_run m n es) = 0"
proof -
  have "full_log q es = []" if "q \<notin> fst ` set es"
    using that by (induction es) auto
  then show ?thesis
    using flight_run_log [OF assms]
    by (auto simp: flight_events_def unwrap_or_def flight_dropped_requests_def)
qed

theorem flight_recorder_faithful_witness:
  "flight_events ''a'' (flight_run 2 1 [(''a'', 7, ''y'', ''''), (''b'', 5, ''z'', ''''), (''a'', 3, ''x'', '''')]) =
     [\<lparr>fe_seq = 1, fe_elapsed_ms = 3, fe_event = ''x'', fe_detail = ''''\<rparr>]"
  using flight_recorder_faithful [of "[(''a'', 7, ''y'', ''''), (''b'', 5, ''z'', ''''), (''a'', 3, ''x'', '''')]"
      2 "''a''" 1]
  by (simp add: u64_max_def insert_commute)

end
