(* ===== verification/Tool_Stream.thy ===== *)
theory Tool_Stream
  imports Core_Types
begin

text \<open>
  Normalisation of tool-call events (\<^verbatim>\<open>ToolStreamState\<close> in \<^verbatim>\<open>src/src/pipeline.rs\<close>):
  upstreams number tool calls per chunk, repeat or omit identifiers and may send a continuation
  signature before the call it belongs to; the client sees canonical indexes, an identifier on every
  call and signatures on the call they precede. The two hash maps are partial functions.
\<close>

section \<open>Definitions\<close>

record tool_stream_state =
  ts_next_index :: nat
  ts_upstream_indexes :: "nat \<rightharpoonup> nat"
  ts_ids :: "string \<rightharpoonup> nat"
  ts_request_id :: string
  ts_pending_signature :: "string option"

definition tool_stream_new :: "string \<Rightarrow> tool_stream_state" where
  "tool_stream_new request_id =
     \<lparr>ts_next_index = 0, ts_upstream_indexes = Map.empty, ts_ids = Map.empty,
      ts_request_id = filter (\<lambda>c. c \<noteq> CHR ''-'' \<and> c \<noteq> CHR ''_'') request_id,
      ts_pending_signature = None\<rparr>"

definition wrap_add32 :: "nat \<Rightarrow> nat \<Rightarrow> nat" where
  [arith_defs]: "wrap_add32 a b = (a + b) mod 4294967296"

definition generated_id :: "tool_stream_state \<Rightarrow> nat \<Rightarrow> string" where
  "generated_id st canonical = ''call_'' @ ts_request_id st @ ''_'' @ show_nat canonical"

text \<open>The canonical index of a starting call: that of its identifier, or the next one.\<close>

definition canonical_index :: "string option \<Rightarrow> tool_stream_state \<Rightarrow> nat \<times> tool_stream_state" where
  "canonical_index i st =
     (case (case i of None \<Rightarrow> None | Some x \<Rightarrow> ts_ids st x) of
        Some c \<Rightarrow> (c, st)
      | None \<Rightarrow> (ts_next_index st, st\<lparr>ts_next_index := wrap_add32 (ts_next_index st) 1\<rparr>))"

definition start_call ::
  "nat \<Rightarrow> string option \<Rightarrow> string \<Rightarrow> string option \<Rightarrow> tool_stream_state \<Rightarrow> stream_event \<times> tool_stream_state" where
  "start_call index i name signature st0 =
     (let resolved = opt_or signature (ts_pending_signature st0);
          st1 = st0\<lparr>ts_pending_signature := None\<rparr>;
          (canonical, st2) = canonical_index i st1;
          st3 = st2\<lparr>ts_upstream_indexes := (ts_upstream_indexes st2)(index \<mapsto> canonical)\<rparr>
      in case opt_filter (\<lambda>x. x \<noteq> []) i of
           Some x \<Rightarrow>
             (ToolCallStart canonical (Some x) name resolved,
              st3\<lparr>ts_ids := (case ts_ids st3 x of None \<Rightarrow> (ts_ids st3)(x \<mapsto> canonical) | Some _ \<Rightarrow> ts_ids st3)\<rparr>)
         | None \<Rightarrow>
             let g = generated_id st3 canonical
             in (ToolCallStart canonical (Some g) name resolved, st3\<lparr>ts_ids := (ts_ids st3)(g \<mapsto> canonical)\<rparr>))"

fun normalize_event :: "stream_event \<Rightarrow> tool_stream_state \<Rightarrow> stream_event \<times> tool_stream_state" where
  "normalize_event (ThinkingDelta text signature) st =
     (ThinkingDelta text signature,
      st\<lparr>ts_pending_signature := (if text = [] \<and> signature \<noteq> None then signature else None)\<rparr>)"
| "normalize_event (TextDelta text) st = (TextDelta text, st\<lparr>ts_pending_signature := None\<rparr>)"
| "normalize_event (RefusalDelta text) st = (RefusalDelta text, st\<lparr>ts_pending_signature := None\<rparr>)"
| "normalize_event (ToolCallStart index i name signature) st = start_call index i name signature st"
| "normalize_event (ToolCallArgsDelta index args) st =
     (ToolCallArgsDelta (unwrap_or (ts_upstream_indexes st index) index) args, st)"
| "normalize_event (Finish reason) st = (Finish reason, st\<lparr>ts_pending_signature := None\<rparr>)"
| "normalize_event (Start r) st = (Start r, st)"
| "normalize_event (Usage u) st = (Usage u, st)"

fun normalize_events :: "stream_event list \<Rightarrow> tool_stream_state \<Rightarrow> stream_event list \<times> tool_stream_state" where
  "normalize_events [] st = ([], st)"
| "normalize_events (e # es) st =
     (let (e', st1) = normalize_event e st; (es', st2) = normalize_events es st1 in (e' # es', st2))"

section \<open>Lemmas\<close>

text \<open>Chunk boundaries do not matter: normalising chunk by chunk is normalising the whole stream.\<close>

lemma normalize_append:
  "normalize_events (es @ fs) st =
     (let (es', st1) = normalize_events es st; (fs', st2) = normalize_events fs st1 in (es' @ fs', st2))"
  by (induction es arbitrary: st) (auto simp: Let_def split: prod.splits)

lemma normalize_length: "length (fst (normalize_events es st)) = length es"
  by (induction es arbitrary: st) (simp_all add: Let_def case_prod_beta)

text \<open>The identifier table is a bijection onto the indexes given out so far.\<close>

definition ids_ok :: "tool_stream_state \<Rightarrow> bool" where
  "ids_ok st \<longleftrightarrow> inj_on (ts_ids st) (dom (ts_ids st)) \<and> ran (ts_ids st) = {..< ts_next_index st} \<and>
     ts_ids st [] = None"

text \<open>An identifier of the upstream that is not of the generated form.\<close>

definition foreign_id :: "string \<Rightarrow> string option \<Rightarrow> bool" where
  "foreign_id rid i \<longleftrightarrow> (\<forall>x n. i = Some x \<longrightarrow> x \<noteq> ''call_'' @ rid @ ''_'' @ show_nat n)"

fun start_ids :: "stream_event list \<Rightarrow> (nat \<times> string option) list" where
  "start_ids [] = []"
| "start_ids (ToolCallStart index i name signature # es) = (index, i) # start_ids es"
| "start_ids (_ # es) = start_ids es"

definition foreign_stream :: "string \<Rightarrow> stream_event list \<Rightarrow> bool" where
  "foreign_stream rid es = (\<forall>p \<in> set (start_ids es). foreign_id rid (snd p))"

text \<open>Identifiers in the table are the upstream's own, or generated for an index already given out.\<close>

definition ids_known :: "tool_stream_state \<Rightarrow> bool" where
  "ids_known st \<longleftrightarrow> (\<forall>n. ts_ids st (generated_id st n) \<noteq> None \<longrightarrow> n < ts_next_index st)"

lemma start_ids_append [simp]: "start_ids (es @ fs) = start_ids es @ start_ids fs"
  by (induction es rule: start_ids.induct) simp_all

lemma generated_id_inj: "generated_id st m = generated_id st n \<Longrightarrow> m = n"
  by (simp add: generated_id_def show_nat_inj)

text \<open>
  The table holds exactly the calls announced to the client, each identifier with one index, each
  index below the next one with one identifier.
\<close>

definition tool_inv :: "string \<Rightarrow> nat \<Rightarrow> stream_event list \<Rightarrow> tool_stream_state \<Rightarrow> bool" where
  "tool_inv rid k outs st \<longleftrightarrow> ts_request_id st = rid \<and> ids_ok st \<and> ids_known st \<and> ts_next_index st \<le> k \<and>
     (\<forall>c d. (c, d) \<in> set (start_ids outs) \<longleftrightarrow> (\<exists>x. d = Some x \<and> ts_ids st x = Some c))"

lemma tool_inv_new: "tool_inv (ts_request_id (tool_stream_new r)) 0 [] (tool_stream_new r)"
  by (simp add: tool_inv_def ids_ok_def ids_known_def tool_stream_new_def)

lemma tool_inv_fresh:
  assumes inv: "tool_inv rid k outs st" and k: "k < 4294967295"
    and x: "ts_ids st x = None" "x \<noteq> []" and g: "\<And>n. x = generated_id st n \<Longrightarrow> n = ts_next_index st"
    and st': "ts_request_id st' = rid" "ts_ids st' = (ts_ids st)(x \<mapsto> ts_next_index st)"
      "ts_next_index st' = wrap_add32 (ts_next_index st) 1"
  shows "tool_inv rid (Suc k) (outs @ [ToolCallStart (ts_next_index st) (Some x) name sig]) st'"
proof -
  have n: "ts_next_index st \<le> k" "ts_request_id st = rid" using inv by (simp_all add: tool_inv_def)
  then have nx: "ts_next_index st' = Suc (ts_next_index st)" using st'(3) k by (simp add: wrap_add32_def)
  have ok: "inj_on (ts_ids st) (dom (ts_ids st))" "ran (ts_ids st) = {..< ts_next_index st}" "ts_ids st [] = None"
    using inv by (simp_all add: tool_inv_def ids_ok_def)
  have notin: "ts_ids st y \<noteq> Some (ts_next_index st)" for y
    using ok(2) by (metis lessThan_iff less_irrefl ranI)
  have "inj_on (ts_ids st') (dom (ts_ids st'))"
    using ok(1) notin by (auto simp: st'(2) inj_on_def)
  moreover have "ran (ts_ids st') = {..< ts_next_index st'}"
    using ran_map_upd [of "ts_ids st" x "ts_next_index st"] x(1) ok(2) by (simp add: st'(2) nx lessThan_Suc)
  moreover have "ts_ids st' [] = None" using ok(3) x(2) by (simp add: st'(2))
  moreover have "ids_known st'"
  proof -
    have gen: "generated_id st' m = generated_id st m" for m by (simp add: generated_id_def st'(1) n(2))
    have "m < Suc (ts_next_index st)" if "ts_ids st' (generated_id st' m) \<noteq> None" for m
    proof (cases "generated_id st m = x")
      case True
      then show ?thesis using g [of m] by simp
    next
      case False
      then have "ts_ids st (generated_id st m) \<noteq> None" using that by (simp add: gen st'(2))
      then show ?thesis using inv by (simp add: tool_inv_def ids_known_def less_SucI)
    qed
    then show ?thesis by (simp add: ids_known_def nx)
  qed
  moreover have "\<forall>c d. (c, d) \<in> set (start_ids (outs @ [ToolCallStart (ts_next_index st) (Some x) name sig])) \<longleftrightarrow>
      (\<exists>y. d = Some y \<and> ts_ids st' y = Some c)"
    using inv x(1) by (auto simp: tool_inv_def st'(2))
  ultimately show ?thesis using n(1) by (simp add: tool_inv_def ids_ok_def st'(1) nx)
qed

lemma start_call_inv:
  fixes index :: nat and name :: string and signature :: "string option"
  assumes inv: "tool_inv rid k outs st" and k: "k < 4294967295" and i: "foreign_id rid i"
  defines "r \<equiv> start_call index i name signature st"
  shows "tool_inv rid (Suc k) (outs @ [fst r]) (snd r)"
proof -
  have ne: "ts_ids st [] = None" and rid: "ts_request_id st = rid"
    using inv by (simp_all add: tool_inv_def ids_ok_def)
  have fresh_gen: "ts_ids st (generated_id st (ts_next_index st)) = None"
    using inv by (auto simp: tool_inv_def ids_known_def)
  show ?thesis
  proof (cases "i = None \<or> i = Some []")
    case True
    let ?n = "ts_next_index st"
    let ?st' = "st\<lparr>ts_pending_signature := None, ts_next_index := wrap_add32 ?n 1,
      ts_upstream_indexes := (ts_upstream_indexes st)(index \<mapsto> ?n),
      ts_ids := (ts_ids st)(generated_id st ?n \<mapsto> ?n)\<rparr>"
    have "r = (ToolCallStart ?n (Some (generated_id st ?n)) name (opt_or signature (ts_pending_signature st)), ?st')"
      using True ne
      by (auto simp: r_def start_call_def canonical_index_def opt_filter_def Let_def generated_id_def)
    moreover have "tool_inv rid (Suc k) (outs @ [ToolCallStart ?n (Some (generated_id st ?n)) name
        (opt_or signature (ts_pending_signature st))]) ?st'"
      using rid generated_id_inj
      by (intro tool_inv_fresh [OF inv k fresh_gen]) (auto simp: generated_id_def dest: show_nat_inj)
    ultimately show ?thesis by simp
  next
    case False
    then obtain x where x: "i = Some x" "x \<noteq> []" by auto
    show ?thesis
    proof (cases "ts_ids st x")
      case None
      let ?n = "ts_next_index st"
      let ?st' = "st\<lparr>ts_pending_signature := None, ts_next_index := wrap_add32 ?n 1,
        ts_upstream_indexes := (ts_upstream_indexes st)(index \<mapsto> ?n), ts_ids := (ts_ids st)(x \<mapsto> ?n)\<rparr>"
      have "r = (ToolCallStart ?n (Some x) name (opt_or signature (ts_pending_signature st)), ?st')"
        using None x by (simp add: r_def start_call_def canonical_index_def opt_filter_def Let_def)
      moreover have "tool_inv rid (Suc k) (outs @ [ToolCallStart ?n (Some x) name
          (opt_or signature (ts_pending_signature st))]) ?st'"
        using rid i x by (intro tool_inv_fresh [OF inv k None]) (auto simp: generated_id_def foreign_id_def)
      ultimately show ?thesis by simp
    next
      case (Some c)
      let ?st' = "st\<lparr>ts_pending_signature := None,
        ts_upstream_indexes := (ts_upstream_indexes st)(index \<mapsto> c)\<rparr>"
      have "r = (ToolCallStart c (Some x) name (opt_or signature (ts_pending_signature st)), ?st')"
        using Some x by (simp add: r_def start_call_def canonical_index_def opt_filter_def Let_def)
      then show ?thesis
        using inv Some
        by (auto simp: tool_inv_def ids_ok_def ids_known_def generated_id_def)
    qed
  qed
qed

lemma normalize_event_inv:
  assumes "tool_inv rid k outs st" "k < 4294967295" "foreign_stream rid [e]"
  shows "tool_inv rid (Suc k) (outs @ [fst (normalize_event e st)]) (snd (normalize_event e st))"
proof (cases e)
  case (ToolCallStart index i name signature)
  then show ?thesis
    using assms start_call_inv [of rid k outs st i] by (simp add: foreign_stream_def)
qed (use assms(1) in \<open>auto simp: tool_inv_def ids_ok_def ids_known_def generated_id_def\<close>)

lemma normalize_events_inv:
  "foreign_stream (ts_request_id (tool_stream_new r)) es \<Longrightarrow> length es \<le> 4294967295 \<Longrightarrow>
   tool_inv (ts_request_id (tool_stream_new r)) (length es)
     (fst (normalize_events es (tool_stream_new r))) (snd (normalize_events es (tool_stream_new r)))"
proof (induction es rule: rev_induct)
  case Nil
  then show ?case using tool_inv_new by simp
next
  case (snoc e es)
  have "foreign_stream (ts_request_id (tool_stream_new r)) es"
      "foreign_stream (ts_request_id (tool_stream_new r)) [e]"
    using snoc.prems(1) by (auto simp: foreign_stream_def)
  then show ?case
    using snoc normalize_event_inv
    by (simp add: normalize_append Let_def case_prod_beta)
qed

text \<open>The canonical index of the most recent start of an upstream index.\<close>

fun route_start :: "nat \<Rightarrow> nat option \<Rightarrow> stream_event \<times> stream_event \<Rightarrow> nat option" where
  "route_start u old (ToolCallStart index i name signature, ToolCallStart c d name' signature') =
     (if index = u then Some c else old)"
| "route_start u old _ = old"

definition latest_start :: "nat \<Rightarrow> (stream_event \<times> stream_event) list \<Rightarrow> nat option" where
  "latest_start u ps = foldl (route_start u) None ps"

lemma route_event:
  "ts_upstream_indexes (snd (normalize_event e st)) u =
     route_start u (ts_upstream_indexes st u) (e, fst (normalize_event e st))"
proof (cases e)
  case (ToolCallStart index i name signature)
  then show ?thesis
    by (auto simp: start_call_def Let_def canonical_index_def split: option.split)
qed simp_all

lemma route_events:
  "ts_upstream_indexes (snd (normalize_events es (tool_stream_new r))) u =
     latest_start u (zip es (fst (normalize_events es (tool_stream_new r))))"
proof (induction es rule: rev_induct)
  case Nil
  then show ?case by (simp add: latest_start_def tool_stream_new_def)
next
  case (snoc e es)
  then show ?case
    by (simp add: normalize_append Let_def case_prod_beta route_event latest_start_def
        normalize_length)
qed

section \<open>Properties\<close>

text \<open>
  C26. Tool calls reach the client consistently numbered and named, for every stream of at most
  2^32 - 1 events whose upstream identifiers are not of the generated form: every announced call
  has a non-empty identifier, identifiers and canonical indexes correspond one to one, the indexes
  are dense from zero, and argument fragments carry the canonical index of the latest call started
  under their upstream index.
\<close>

theorem tool_calls_canonical:
  assumes "foreign_stream (ts_request_id (tool_stream_new r)) es" "length es \<le> 4294967295"
    and outs: "outs = fst (normalize_events es (tool_stream_new r))"
  shows "(\<forall>(c, d) \<in> set (start_ids outs). d \<noteq> None \<and> d \<noteq> Some []) \<and>
    (\<forall>(c, d) \<in> set (start_ids outs). \<forall>(c', d') \<in> set (start_ids outs). (c = c') = (d = d')) \<and>
    (\<exists>n. fst ` set (start_ids outs) = {..< n}) \<and>
    (\<forall>k < length es. \<forall>u args. es ! k = ToolCallArgsDelta u args \<longrightarrow>
       outs ! k = ToolCallArgsDelta (unwrap_or (latest_start u (zip (take k es) (take k outs))) u) args)"
proof (intro conjI)
  define st where "st = snd (normalize_events es (tool_stream_new r))"
  have inv: "tool_inv (ts_request_id (tool_stream_new r)) (length es) outs st"
    unfolding outs st_def by (rule normalize_events_inv [OF assms(1,2)])
  then have mem: "(c, d) \<in> set (start_ids outs) \<longleftrightarrow> (\<exists>x. d = Some x \<and> ts_ids st x = Some c)" for c d
    by (simp add: tool_inv_def)
  have ok: "inj_on (ts_ids st) (dom (ts_ids st))" "ran (ts_ids st) = {..< ts_next_index st}" "ts_ids st [] = None"
    using inv by (simp_all add: tool_inv_def ids_ok_def)
  show "\<forall>(c, d) \<in> set (start_ids outs). d \<noteq> None \<and> d \<noteq> Some []"
    using ok(3) by (auto simp: mem)
  show "\<forall>(c, d) \<in> set (start_ids outs). \<forall>(c', d') \<in> set (start_ids outs). (c = c') = (d = d')"
  proof -
    have "x = y" if "ts_ids st x = Some c" "ts_ids st y = Some c" for x y c
      using that by (intro inj_onD [OF ok(1)]) auto
    then show ?thesis by (auto simp: mem)
  qed
  have "fst ` set (start_ids outs) = {c. \<exists>d. (c, d) \<in> set (start_ids outs)}" by force
  also have "\<dots> = ran (ts_ids st)" by (simp only: mem ran_def) blast
  finally show "\<exists>n. fst ` set (start_ids outs) = {..< n}" using ok(2) by auto
  show "\<forall>k < length es. \<forall>u args. es ! k = ToolCallArgsDelta u args \<longrightarrow>
      outs ! k = ToolCallArgsDelta (unwrap_or (latest_start u (zip (take k es) (take k outs))) u) args"
  proof (intro allI impI)
    fix k u args assume k: "k < length es" and e: "es ! k = ToolCallArgsDelta u args"
    let ?pre = "normalize_events (take k es) (tool_stream_new r)"
    have es: "es = take k es @ es ! k # drop (Suc k) es" using k by (simp add: id_take_nth_drop)
    have len: "length (fst ?pre) = k" using k by (simp add: normalize_length)
    have "outs = fst ?pre @ fst (normalize_events (es ! k # drop (Suc k) es) (snd ?pre))"
      unfolding outs by (subst es) (simp add: normalize_append Let_def case_prod_beta)
    then have "take k outs = fst ?pre" "outs ! k = fst (normalize_event (es ! k) (snd ?pre))"
      using len by (simp_all add: nth_append Let_def case_prod_beta)
    then show "outs ! k = ToolCallArgsDelta (unwrap_or (latest_start u (zip (take k es) (take k outs))) u) args"
      using e by (simp add: route_events)
  qed
qed

theorem tool_calls_canonical_witness:
  "let es = [ThinkingDelta [] (Some ''sig''), ToolCallStart 0 None ''f'' None, ToolCallArgsDelta 0 ''{'',
             ToolCallStart 0 (Some ''x'') ''g'' None, ToolCallArgsDelta 0 ''}''];
       outs = fst (normalize_events es (tool_stream_new ''req-1''))
   in foreign_stream ''req1'' es \<and>
      outs = [ThinkingDelta [] (Some ''sig''), ToolCallStart 0 (Some ''call_req1_0'') ''f'' (Some ''sig''),
        ToolCallArgsDelta 0 ''{'', ToolCallStart 1 (Some ''x'') ''g'' None, ToolCallArgsDelta 1 ''}''] \<and>
      (\<exists>n. fst ` set (start_ids outs) = {..< n})"
proof -
  let ?es = "[ThinkingDelta [] (Some ''sig''), ToolCallStart 0 None ''f'' None, ToolCallArgsDelta 0 ''{'',
    ToolCallStart 0 (Some ''x'') ''g'' None, ToolCallArgsDelta 0 ''}'']"
  have f: "foreign_stream (ts_request_id (tool_stream_new ''req-1'')) ?es"
    by (simp add: foreign_stream_def foreign_id_def tool_stream_new_def)
  have s0: "show_nat 0 = ''0''" by code_simp
  have "fst (normalize_events ?es (tool_stream_new ''req-1'')) =
      [ThinkingDelta [] (Some ''sig''), ToolCallStart 0 (Some ''call_req1_0'') ''f'' (Some ''sig''),
        ToolCallArgsDelta 0 ''{'', ToolCallStart 1 (Some ''x'') ''g'' None, ToolCallArgsDelta 1 ''}'']"
    by (simp add: tool_stream_new_def start_call_def Let_def canonical_index_def opt_or_def opt_filter_def
        generated_id_def wrap_add32_def unwrap_or_def s0)
  moreover have "ts_request_id (tool_stream_new ''req-1'') = ''req1''" by (simp add: tool_stream_new_def)
  ultimately show ?thesis
    using tool_calls_canonical [OF f _ refl] f by (simp add: Let_def)
qed

end
