(* ===== verification/Account_Pool.thy ===== *)
theory Account_Pool
  imports Config_Store Secrets Trace_Recorder
begin

text \<open>
  Account health (\<^verbatim>\<open>src/src/pool.rs\<close>) and the account state a failed attempt leaves behind
  (\<^verbatim>\<open>handle_key_failure\<close> and its helpers in \<^verbatim>\<open>src/src/pipeline.rs\<close>). Health is
  computed from the account row and the clock; every change is a statement of the configuration
  store. Random draws are an argument: \<open>draw k n\<close> is the result of the \<open>k\<close>-th
  \<^verbatim>\<open>gen_range(0..n)\<close> of a call.
\<close>

section \<open>Definitions\<close>

subsection \<open>Effective status\<close>

datatype account_status = Healthy | Cooldown | Exhausted | Disabled | CircuitOpen

definition account_status_parse :: "string \<Rightarrow> account_status" where
  "account_status_parse s =
     (if s = ''cooldown'' then Cooldown
      else if s = ''exhausted'' then Exhausted
      else if s = ''disabled'' then Disabled
      else if s = ''circuit_open'' then CircuitOpen
      else Healthy)"

fun account_status_as_str :: "account_status \<Rightarrow> string" where
  "account_status_as_str Healthy = ''healthy''"
| "account_status_as_str Cooldown = ''cooldown''"
| "account_status_as_str Exhausted = ''exhausted''"
| "account_status_as_str Disabled = ''disabled''"
| "account_status_as_str CircuitOpen = ''circuit_open''"

text \<open>An optional timestamp column, read.\<close>

definition column_dt :: "codec \<Rightarrow> string option \<Rightarrow> nanos option" where
  "column_dt cd x = (case x of None \<Rightarrow> None | Some s \<Rightarrow> parse_dt cd s)"

definition circuit_status :: "account_row \<Rightarrow> account_status" where
  "circuit_status a =
     (if ac_circuit_open_until a \<noteq> None \<or> account_status_parse (ac_status a) = CircuitOpen
      then CircuitOpen else Healthy)"

definition effective_status :: "codec \<Rightarrow> nanos \<Rightarrow> account_row \<Rightarrow> account_status" where
  "effective_status cd now a =
     (case account_status_parse (ac_status a) of
        Disabled \<Rightarrow> Disabled
      | Cooldown \<Rightarrow>
          if is_some_and (\<lambda>until. until \<le> now) (column_dt cd (ac_cooldown_until a))
          then circuit_status a else Cooldown
      | Exhausted \<Rightarrow>
          if is_some_and (\<lambda>reset. reset \<le> now) (column_dt cd (ac_quota_reset_at a))
          then circuit_status a else Exhausted
      | _ \<Rightarrow> circuit_status a)"

definition HALF_OPEN_PROBE_SECS :: int where [const_defs]: "HALF_OPEN_PROBE_SECS = 5"
definition HALF_OPEN_PROBE_MIN_GAP_SECS :: int where [const_defs]: "HALF_OPEN_PROBE_MIN_GAP_SECS = 2"

definition should_probe :: "codec \<Rightarrow> nanos \<Rightarrow> account_row \<Rightarrow> bool" where
  "should_probe cd now a =
     (if account_status_parse (ac_status a) \<in> {Disabled, Cooldown, Exhausted} then False
      else case column_dt cd (ac_circuit_open_until a) of
             None \<Rightarrow> False
           | Some until \<Rightarrow>
               if now < until then False
               else case column_dt cd (ac_last_probe_at a) of
                      Some last_probe \<Rightarrow> now \<ge> last_probe + secs HALF_OPEN_PROBE_MIN_GAP_SECS
                    | None \<Rightarrow> True)"

definition is_available :: "codec \<Rightarrow> nanos \<Rightarrow> account_row \<Rightarrow> bool" where
  "is_available cd now a \<longleftrightarrow> effective_status cd now a = Healthy"

definition recovery_time :: "codec \<Rightarrow> account_row \<Rightarrow> nanos option" where
  "recovery_time cd a = opt_or
     (case account_status_parse (ac_status a) of
        Cooldown \<Rightarrow> column_dt cd (ac_cooldown_until a)
      | Exhausted \<Rightarrow> column_dt cd (ac_quota_reset_at a)
      | _ \<Rightarrow> None)
     (column_dt cd (ac_circuit_open_until a))"

fun soonest_from :: "codec \<Rightarrow> nanos option \<Rightarrow> account_row list \<Rightarrow> nanos option" where
  "soonest_from cd soonest [] = soonest"
| "soonest_from cd soonest (a # as) =
     soonest_from cd
       (case recovery_time cd a of
          None \<Rightarrow> soonest
        | Some t \<Rightarrow> (case soonest of
                      Some cur \<Rightarrow> if cur < t then Some cur else Some t
                    | None \<Rightarrow> Some t)) as"

definition soonest_recovery :: "codec \<Rightarrow> account_row list \<Rightarrow> nanos option" where
  "soonest_recovery cd accounts = soonest_from cd None accounts"

subsection \<open>Ordering accounts\<close>

definition wrap_i64 :: "int \<Rightarrow> int" where
  [arith_defs]: "wrap_i64 x = (x + 9223372036854775808) mod 18446744073709551616 - 9223372036854775808"

definition account_weight :: "account_row \<Rightarrow> int" where
  "account_weight a = max (ac_weight a) 1"

definition weight_total :: "account_row list \<Rightarrow> int" where
  "weight_total as = foldl (\<lambda>s a. wrap_i64 (s + account_weight a)) 0 as"

text \<open>The position at which the running weight passes the draw; the first one if it never does.\<close>

fun pick_offset :: "int \<Rightarrow> account_row list \<Rightarrow> nat option" where
  "pick_offset pick [] = None"
| "pick_offset pick (a # as) =
     (let p = pick - account_weight a
      in if p < 0 then Some 0 else map_option Suc (pick_offset p as))"

definition selected_offset :: "int \<Rightarrow> account_row list \<Rightarrow> nat" where
  "selected_offset pick as = unwrap_or (pick_offset pick as) 0"

definition swap_first :: "nat \<Rightarrow> 'a list \<Rightarrow> 'a list" where
  "swap_first j xs = (xs[0 := xs ! j])[j := xs ! 0]"

lemma length_swap_first [simp]: "length (swap_first j xs) = length xs"
  by (simp add: swap_first_def)

text \<open>
  One priority tier, sampled without replacement; \<open>None\<close> is the panic of a draw from an empty
  range, which happens when the 64-bit weight total wraps to zero or below.
\<close>

function order_tier :: "(nat \<Rightarrow> int \<Rightarrow> int) \<Rightarrow> nat \<Rightarrow> account_row list \<Rightarrow> account_row list option" where
  "order_tier draw k [] = Some []"
| "order_tier draw k (a # as) =
     (let tier = a # as; total = weight_total tier
      in if total \<le> 0 then None
         else case swap_first (selected_offset (draw k total) tier) tier of
                [] \<Rightarrow> None
              | x # rest \<Rightarrow> map_option ((#) x) (order_tier draw (Suc k) rest))"
  by pat_completeness auto
termination
proof (relation "measure (\<lambda>(draw, k, xs). length xs)", simp)
  fix draw :: "nat \<Rightarrow> int \<Rightarrow> int" and k tier total a as x rest
  assume "tier = a # as" "swap_first (selected_offset (draw k total) tier) tier = x # rest"
  then have "length (x # rest) = length (a # as)" by (metis length_swap_first)
  then show "((draw, Suc k, rest), draw, k, a # as) \<in> measure (\<lambda>(draw, k, xs). length xs)" by simp
qed

function order_tiers :: "(nat \<Rightarrow> int \<Rightarrow> int) \<Rightarrow> nat \<Rightarrow> account_row list \<Rightarrow> account_row list option" where
  "order_tiers draw k [] = Some []"
| "order_tiers draw k (a # as) =
     (let same = (\<lambda>b. ac_priority b = ac_priority a);
          tier = a # takeWhile same as;
          later = dropWhile same as
      in case order_tier draw k tier of
           None \<Rightarrow> None
         | Some xs \<Rightarrow> map_option ((@) xs) (order_tiers draw (k + length tier) later))"
  by pat_completeness auto
termination
  by (relation "measure (\<lambda>(draw, k, xs). length xs)") (simp_all add: less_Suc_eq_le length_dropWhile_le)

fun extract_first :: "('a \<Rightarrow> bool) \<Rightarrow> 'a list \<Rightarrow> ('a \<times> 'a list) option" where
  "extract_first P [] = None"
| "extract_first P (x # xs) =
     (if P x then Some (x, xs) else map_option (\<lambda>(y, ys). (y, x # ys)) (extract_first P xs))"

definition move_preferred :: "string option \<Rightarrow> account_row list \<Rightarrow> account_row list" where
  "move_preferred preferred as =
     (case preferred of
        None \<Rightarrow> as
      | Some p \<Rightarrow> (case extract_first (\<lambda>a. ac_id a = p) as of
                    None \<Rightarrow> as | Some (a, rest) \<Rightarrow> a # rest))"

definition order_accounts ::
  "(nat \<Rightarrow> int \<Rightarrow> int) \<Rightarrow> account_row list \<Rightarrow> string option \<Rightarrow> account_row list option" where
  "order_accounts draw accounts preferred =
     map_option (move_preferred preferred) (order_tiers draw 0 (sort_key ac_priority accounts))"

subsection \<open>State changes\<close>

definition pool_record_failure :: "codec \<Rightarrow> nanos \<Rightarrow> string \<Rightarrow> int \<Rightarrow> int \<Rightarrow> config_db \<Rightarrow> config_db \<times> int" where
  "pool_record_failure cd now i threshold open_secs db = record_account_failure cd now i threshold open_secs db"

definition clear_circuit :: "string \<Rightarrow> config_db \<Rightarrow> config_db" where
  "clear_circuit i db = reset_account_failures i db"

definition mark_rate_limited :: "codec \<Rightarrow> nanos \<Rightarrow> string \<Rightarrow> nat \<Rightarrow> string \<Rightarrow> config_db \<Rightarrow> config_db \<times> nanos" where
  "mark_rate_limited cd now i cooldown_secs err db =
     (let until = now + secs (int cooldown_secs)
      in (set_account_status i ''cooldown'' (Some (to_rfc3339 cd until)) None (Some (redact err)) db, until))"

definition mark_exhausted ::
  "codec \<Rightarrow> nanos \<Rightarrow> string \<Rightarrow> nanos option \<Rightarrow> int \<Rightarrow> string \<Rightarrow> config_db \<Rightarrow> config_db \<times> nanos" where
  "mark_exhausted cd now i reset_at default_window_secs err db =
     (let reset = unwrap_or reset_at (now + secs default_window_secs)
      in (set_account_status i ''exhausted'' None (Some (to_rfc3339 cd reset)) (Some (redact err)) db, reset))"

definition mark_healthy :: "string \<Rightarrow> config_db \<Rightarrow> config_db" where
  "mark_healthy i db = set_account_status i ''healthy'' None None None db"

definition clear_cooldown :: "string \<Rightarrow> config_db \<Rightarrow> config_db" where
  "clear_cooldown i db = set_account_status i ''healthy'' None None None db"

subsection \<open>Soft quotas\<close>

text \<open>The columns of a usage log row that the spend query reads, and the text order it compares by.\<close>

record usage_spend =
  us_serving_account_id :: "string option"
  us_ts :: string
  us_cost_usd :: "f64 option"

fun str_le :: "string \<Rightarrow> string \<Rightarrow> bool" where
  "str_le [] t = True"
| "str_le (c # cs) [] = False"
| "str_le (c # cs) (d # ds) =
     (let m = (of_char c :: nat); n = of_char d in m < n \<or> (m = n \<and> str_le cs ds))"

definition account_spend_since :: "usage_spend list \<Rightarrow> string \<Rightarrow> string \<Rightarrow> f64" where
  "account_spend_since logs i since =
     sum_list (map (\<lambda>u. unwrap_or (us_cost_usd u) 0)
       (filter (\<lambda>u. us_serving_account_id u = Some i \<and> str_le since (us_ts u)) logs))"

text \<open>The calendar is the date library's: midnight of the day and of the first of the month.\<close>

record calendar =
  cal_day_start :: "nanos \<Rightarrow> nanos"
  cal_month_start :: "nanos \<Rightarrow> nanos"

definition window_start :: "codec \<Rightarrow> calendar \<Rightarrow> nanos \<Rightarrow> string \<Rightarrow> int option \<Rightarrow> string" where
  "window_start cd cal now quota_type window_secs =
     to_rfc3339 cd
       (if quota_type = ''daily'' then cal_day_start cal now
        else if quota_type = ''monthly'' then cal_month_start cal now
        else if quota_type = ''rolling'' then now - secs (unwrap_or window_secs 86400)
        else now - secs 86400)"

definition soft_quota_reached ::
  "codec \<Rightarrow> calendar \<Rightarrow> nanos \<Rightarrow> usage_spend list \<Rightarrow> account_row \<Rightarrow> bool" where
  "soft_quota_reached cd cal now logs a =
     (case ac_soft_quota_usd a of
        None \<Rightarrow> False
      | Some limit \<Rightarrow>
          if limit \<le> 0 then False
          else account_spend_since logs (ac_id a)
                 (window_start cd cal now (ac_quota_type a) (ac_quota_window_s a)) \<ge> limit)"

subsection \<open>After a failed attempt\<close>

definition CIRCUIT_THRESHOLD :: int where [const_defs]: "CIRCUIT_THRESHOLD = 4"
definition CIRCUIT_OPEN_SECS :: int where [const_defs]: "CIRCUIT_OPEN_SECS = 30"

definition default_quota_window :: "account_row \<Rightarrow> int" where
  "default_quota_window a =
     (if ac_quota_type a = ''daily'' then 86400
      else if ac_quota_type a = ''monthly'' then 30 * 86400
      else if ac_quota_type a = ''rolling'' then unwrap_or (ac_quota_window_s a) 86400
      else 86400)"

text \<open>
  The store statement of a failure, the detail it is traced with, and whether the detail joins the
  fallback path. A statement that fails is ignored by the code and leaves the store as it is.
\<close>

fun failure_statement ::
  "codec \<Rightarrow> nanos \<Rightarrow> account_row \<Rightarrow> upstream_failure \<Rightarrow> failure_kind \<Rightarrow> config_db \<Rightarrow> config_db \<times> string \<times> bool" where
  "failure_statement cd now a f RateLimit db =
     (let cooldown = min (unwrap_or (uf_retry_after_secs f) 30) 3600
      in (fst (mark_rate_limited cd now (ac_id a) cooldown (uf_message f) db),
          ac_label a @ '':429(cooldown '' @ show_nat cooldown @ ''s)'', True))"
| "failure_statement cd now a f QuotaExhausted db =
     (fst (mark_exhausted cd now (ac_id a) (uf_quota_reset_at f) (default_quota_window a) (uf_message f) db),
      ac_label a @ '':quota_exhausted'', True)"
| "failure_statement cd now a f AuthError db =
     (set_account_status (ac_id a) ''disabled'' None None (Some (uf_message f)) db,
      ac_label a @ '':auth_error(disabled)'', True)"
| "failure_statement cd now a f ServerError db = (db, ac_label a @ '':transient(request-local)'', True)"
| "failure_statement cd now a f ConnectionError db = (db, ac_label a @ '':transient(request-local)'', True)"
| "failure_statement cd now a f Timeout db = (db, ac_label a @ '':transient(request-local)'', True)"
| "failure_statement cd now a f TargetError db = (db, ac_label a @ '':target_error'', True)"
| "failure_statement cd now a f BadRequest db = (db, ac_label a @ '':bad_request'', False)"

definition handle_key_failure ::
  "codec \<Rightarrow> nanos \<Rightarrow> nat \<Rightarrow> account_row \<Rightarrow> upstream_failure
    \<Rightarrow> config_db \<times> string list \<times> route_trace \<Rightarrow> config_db \<times> string list \<times> route_trace" where
  "handle_key_failure cd now ms a f s =
     (let (db, path, tr) = s;
          (db1, detail, on_path) = failure_statement cd now a f (uf_kind f) db;
          path1 = (if on_path then path @ [detail] else path);
          (db2, n) = (if is_account_scoped (uf_kind f)
                      then pool_record_failure cd now (ac_id a) CIRCUIT_THRESHOLD CIRCUIT_OPEN_SECS db1
                      else (db1, 0));
          tr1 = trace_add ms ''attempt'' (Some (ac_label a)) detail tr;
          tr2 = (if n \<ge> CIRCUIT_THRESHOLD
                 then trace_add ms ''skip'' None
                        (''circuit opened for account after '' @ show_int n @ '' consecutive failures'') tr1
                 else tr1)
      in (db2, path1, tr2))"

definition account_skip_detail :: "string \<Rightarrow> account_row \<Rightarrow> account_status \<Rightarrow> string" where
  "account_skip_detail model_name a status =
     ''model='' @ model_name @ '' skipped('' @ account_status_as_str status @ ''); effective_status='' @
     account_status_as_str status @
     (case status of
        Cooldown \<Rightarrow> (case ac_cooldown_until a of None \<Rightarrow> [] | Some u \<Rightarrow> ''; cooldown_until='' @ u)
      | Exhausted \<Rightarrow> (case ac_quota_reset_at a of None \<Rightarrow> [] | Some u \<Rightarrow> ''; quota_reset_at='' @ u)
      | CircuitOpen \<Rightarrow> ''; circuit_prevented_execution=true'' @
          (case ac_circuit_open_until a of None \<Rightarrow> [] | Some u \<Rightarrow> ''; circuit_open_until='' @ u)
      | _ \<Rightarrow> [])"

section \<open>Lemmas on ordering\<close>

lemma mset_swap_first: "j < length xs \<Longrightarrow> mset (swap_first j xs) = mset xs"
  using mset_swap [of j xs 0] by (cases xs) (simp_all add: swap_first_def del: list_update.simps)

lemma pick_offset_bound: "pick_offset p as = Some j \<Longrightarrow> j < length as"
  by (induction as arbitrary: p j) (auto simp: Let_def split: if_splits)

lemma selected_offset_bound: "as \<noteq> [] \<Longrightarrow> selected_offset p as < length as"
  using pick_offset_bound [of p as] by (cases "pick_offset p as") (auto simp: selected_offset_def unwrap_or_def)

lemma account_weight_pos: "1 \<le> account_weight a"
  by (simp add: account_weight_def)

definition I64_MAX :: int where [const_defs]: "I64_MAX = 9223372036854775807"

lemma wrap_i64_id: "- I64_MAX \<le> x \<Longrightarrow> x \<le> I64_MAX \<Longrightarrow> wrap_i64 x = x"
  by (simp add: wrap_i64_def I64_MAX_def)

definition weights :: "account_row list \<Rightarrow> int" where
  "weights as = sum_list (map account_weight as)"

lemma weights_simps [simp]:
  "weights [] = 0" "weights (a # as) = account_weight a + weights as"
  by (simp_all add: weights_def)

lemma weights_nonneg: "0 \<le> weights as"
proof (induction as)
  case (Cons a as)
  then show ?case using account_weight_pos [of a] by simp
qed simp

lemma weights_pos: "as \<noteq> [] \<Longrightarrow> 0 < weights as"
  using account_weight_pos [of "hd as"] weights_nonneg [of "tl as"] by (cases as) auto

lemma weight_total_from:
  "0 \<le> s \<Longrightarrow> s + weights as \<le> I64_MAX \<Longrightarrow>
   foldl (\<lambda>s a. wrap_i64 (s + account_weight a)) s as = s + weights as"
proof (induction as arbitrary: s)
  case (Cons a as)
  have "s + account_weight a \<le> I64_MAX" using Cons.prems weights_nonneg [of as] by simp
  then have "wrap_i64 (s + account_weight a) = s + account_weight a"
    using Cons.prems account_weight_pos [of a] by (intro wrap_i64_id) (simp_all add: I64_MAX_def)
  then show ?case using Cons account_weight_pos [of a] by simp
qed simp

lemma weight_total_exact: "weights as \<le> I64_MAX \<Longrightarrow> weight_total as = weights as"
  unfolding weight_total_def using weight_total_from [of 0 as] by simp

lemma weights_mset: "mset xs = mset ys \<Longrightarrow> weights xs = weights ys"
  unfolding weights_def by (metis mset_map sum_mset_sum_list)

lemma order_tier_total:
  "weights as \<le> I64_MAX \<Longrightarrow> \<exists>ys. order_tier draw k as = Some ys \<and> mset ys = mset as"
proof (induction draw k as rule: order_tier.induct)
  case (2 draw k a as)
  define tier where "tier = a # as"
  define j where "j = selected_offset (draw k (weight_total tier)) tier"
  have total: "weight_total tier = weights tier" "0 < weights tier"
    using 2(2) weights_pos [of tier] by (simp_all add: weight_total_exact tier_def)
  have "j < length tier" unfolding j_def by (rule selected_offset_bound) (simp add: tier_def)
  then have ms: "mset (swap_first j tier) = mset tier" by (rule mset_swap_first)
  then obtain x rest where sw: "swap_first j tier = x # rest"
    by (cases "swap_first j tier") (auto simp: tier_def)
  have "weights (x # rest) = weights tier" using ms unfolding sw by (rule weights_mset)
  then have "weights rest \<le> I64_MAX" using 2(2) account_weight_pos [of x] by (simp add: tier_def)
  then obtain ys where "order_tier draw (Suc k) rest = Some ys" "mset ys = mset rest"
    using 2(1) [of tier "weight_total tier" x rest] total sw by (auto simp: tier_def j_def)
  then have "order_tier draw k tier = Some (x # ys)" "mset (x # ys) = mset tier"
    using total sw ms by (simp_all add: tier_def Let_def j_def)
  then show ?case unfolding tier_def by blast
qed simp

text \<open>A tier keeps one priority, so tiers in order are sorted.\<close>

lemma takeWhile_dropWhile_weights:
  "weights (takeWhile P as) + weights (dropWhile P as) = weights as"
  by (induction as) auto

lemma order_tiers_total:
  "weights as \<le> I64_MAX \<Longrightarrow> sorted (map ac_priority as) \<Longrightarrow>
   \<exists>ys. order_tiers draw k as = Some ys \<and> mset ys = mset as \<and> sorted (map ac_priority ys)"
proof (induction draw k as rule: order_tiers.induct)
  case (2 draw k a as)
  define same where "same = (\<lambda>b :: account_row. ac_priority b = ac_priority a)"
  define tier where "tier = a # takeWhile same as"
  define later where "later = dropWhile same as"
  have split: "a # as = tier @ later" by (simp add: tier_def later_def)
  have "weights tier + weights later = weights (a # as)"
    using takeWhile_dropWhile_weights [of same as] by (simp add: tier_def later_def)
  then have w: "weights tier \<le> I64_MAX" "weights later \<le> I64_MAX"
    using "2.prems"(1) weights_nonneg [of tier] weights_nonneg [of later] by linarith+
  obtain xs where xs: "order_tier draw k tier = Some xs" "mset xs = mset tier"
    using order_tier_total [OF w(1)] by blast
  have later_sorted: "sorted (map ac_priority later)"
    using "2.prems"(2) unfolding split by (simp add: sorted_append)
  obtain zs where zs: "order_tiers draw (k + length tier) later = Some zs" "mset zs = mset later"
      "sorted (map ac_priority zs)"
    using "2.IH" [of same tier later xs] w(2) later_sorted xs(1)
    unfolding same_def tier_def later_def by blast
  have tier_prio: "ac_priority b = ac_priority a" if "b \<in> set xs" for b
  proof -
    have "b \<in> set tier" using that xs(2) by (metis set_mset_mset)
    then show ?thesis by (auto simp: tier_def same_def dest: set_takeWhileD)
  qed
  then have "sorted (map ac_priority xs)" by (simp add: sorted_iff_nth_mono)
  moreover have "ac_priority a \<le> ac_priority c" if "c \<in> set zs" for c
  proof -
    have "c \<in> set later" using that zs(2) by (metis set_mset_mset)
    then have "c \<in> set as" unfolding later_def by (rule set_dropWhileD)
    then show ?thesis using "2.prems"(2) by simp
  qed
  ultimately have "sorted (map ac_priority (xs @ zs))"
    using zs(3) tier_prio by (auto simp: sorted_append)
  moreover have "mset (xs @ zs) = mset (a # as)" using xs(2) zs(2) split by (metis mset_append)
  moreover have "order_tiers draw k (a # as) = Some (xs @ zs)"
    using xs(1) zs(1) unfolding same_def tier_def later_def by (simp add: Let_def)
  ultimately show ?case by blast
qed simp

lemma extract_first_Some:
  "extract_first P xs = Some (y, ys) \<Longrightarrow> P y \<and> (\<exists>us vs. xs = us @ y # vs \<and> ys = us @ vs)"
proof (induction xs arbitrary: y ys)
  case (Cons x xs)
  then show ?case by (auto split: if_splits) (metis append_Cons)+
qed simp

lemma extract_first_None: "extract_first P xs = None \<longleftrightarrow> (\<forall>x \<in> set xs. \<not> P x)"
  by (induction xs) auto

text \<open>The draws that select a position form an interval as long as its weight.\<close>

lemma pick_offset_interval:
  "0 \<le> d \<Longrightarrow> d < weights as \<Longrightarrow> j < length as \<Longrightarrow>
   selected_offset d as = j \<longleftrightarrow> weights (take j as) \<le> d \<and> d < weights (take (Suc j) as)"
proof (induction as arbitrary: d j)
  case (Cons a as)
  have w: "1 \<le> account_weight a" by (rule account_weight_pos)
  show ?case
  proof (cases "d < account_weight a")
    case True
    then show ?thesis
      using w weights_nonneg [of "take (j - 1) as"] Cons.prems weights_nonneg [of "take j as"]
      by (cases j) (auto simp: selected_offset_def unwrap_or_def)
  next
    case False
    then have d: "0 \<le> d - account_weight a" "d - account_weight a < weights as" using Cons.prems by auto
    then have ne: "as \<noteq> []" using weights_nonneg by auto
    have "pick_offset (d - account_weight a) as \<noteq> None"
      using d
    proof (induction as arbitrary: d)
      case (Cons b bs)
      then show ?case
        using Cons.IH [of "d - account_weight b"] by (auto simp: Let_def algebra_simps)
    qed simp
    then obtain i where i: "pick_offset (d - account_weight a) as = Some i" by blast
    have "selected_offset d (a # as) = Suc i" "selected_offset (d - account_weight a) as = i"
      using False i by (simp_all add: selected_offset_def unwrap_or_def)
    then show ?thesis
      using False w Cons.IH [OF d, of "j - 1"] Cons.prems
      by (cases j) (auto simp: algebra_simps)
  qed
qed simp

section \<open>Lemmas on account statements\<close>

lemma select_one_update:
  assumes "\<And>r. key (f r) = key r"
  shows "select_one key k (update_where key v f rows) =
    (if k = v then map_option f (select_one key k rows) else select_one key k rows)"
  using assms by (induction rows) (auto simp: select_one_def update_where_def)

lemma get_account_update:
  "(\<And>a. ac_id (f a) = ac_id a) \<Longrightarrow>
   get_account j (update_accounts_where i f db) =
     (if j = i then map_option f (get_account j db) else get_account j db)"
  by (simp add: get_account_def update_accounts_where_def select_one_update)

text \<open>What the statements do to one account row.\<close>

lemma get_account_set_status:
  "get_account j (set_account_status i status cu qr le db) =
     (if j = i then map_option (\<lambda>a. let a' = a\<lparr>ac_status := status, ac_cooldown_until := cu,
          ac_quota_reset_at := qr, ac_last_error := le\<rparr>
        in if status = ''healthy'' then a'\<lparr>ac_circuit_open_until := None, ac_consecutive_failures := 0\<rparr> else a')
        (get_account j db)
      else get_account j db)"
  unfolding set_account_status_def by (rule get_account_update) (simp add: Let_def)

lemma get_account_record_failure:
  "get_account j (fst (record_account_failure cd now i th sec db)) =
     (if j = i then map_option (\<lambda>a. let a' = a\<lparr>ac_consecutive_failures := ac_consecutive_failures a + 1\<rparr>
        in if ac_consecutive_failures a' \<ge> th
           then a'\<lparr>ac_circuit_open_until := Some (to_rfc3339 cd (now + secs sec))\<rparr> else a')
        (get_account j db)
      else get_account j db)"
  by (cases "get_account i db") (auto simp: record_account_failure_def Let_def get_account_update)

lemmas account_statement_simps = get_account_set_status get_account_record_failure
  pool_record_failure_def mark_rate_limited_def mark_exhausted_def

lemma handle_key_failure_db:
  "fst (handle_key_failure cd now ms a f (db, path, tr)) =
     (let db1 = fst (failure_statement cd now a f (uf_kind f) db)
      in if is_account_scoped (uf_kind f)
         then fst (record_account_failure cd now (ac_id a) CIRCUIT_THRESHOLD CIRCUIT_OPEN_SECS db1)
         else db1)"
  by (simp add: handle_key_failure_def pool_record_failure_def Let_def case_prod_beta)

lemma failure_statement_unscoped: "\<not> is_account_scoped k \<Longrightarrow> fst (failure_statement cd now a f k db) = db"
  by (cases k) (simp_all add: is_account_scoped_def)

lemma failure_statement_other:
  "j \<noteq> ac_id a \<Longrightarrow> get_account j (fst (failure_statement cd now a f k db)) = get_account j db"
  by (cases k) (simp_all add: account_statement_simps Let_def)

text \<open>An account-scoped failure leaves its account in one of the three states with their own recovery.\<close>

lemma failure_statement_scoped:
  assumes "is_account_scoped k" "get_account (ac_id a) db = Some row"
  obtains row' where "get_account (ac_id a) (fst (failure_statement cd now a f k db)) = Some row'"
    and "account_status_parse (ac_status row') \<in> {Cooldown, Exhausted, Disabled}"
    and "ac_consecutive_failures row' = ac_consecutive_failures row"
    and "ac_circuit_open_until row' = ac_circuit_open_until row"
  using assms
  by (cases k) (auto simp: is_account_scoped_def account_statement_simps Let_def account_status_parse_def)

lemma effective_status_circuit:
  "ac_circuit_open_until a \<noteq> None \<Longrightarrow> effective_status cd now a \<noteq> Healthy"
  by (auto simp: effective_status_def circuit_status_def split: account_status.split)

section \<open>Properties\<close>

definition demo_account :: "string \<Rightarrow> int \<Rightarrow> int \<Rightarrow> account_row" where
  "demo_account i priority weight =
     \<lparr>ac_id = i, ac_provider_id = ''p'', ac_label = ''l'', ac_secret_enc = [], ac_key_mask = [],
      ac_status = ''healthy'', ac_cooldown_until = None, ac_quota_reset_at = None,
      ac_quota_type = ''none'', ac_quota_window_s = None, ac_soft_quota_usd = None,
      ac_priority = priority, ac_weight = weight, ac_last_error = None, ac_last_probe_at = None,
      ac_circuit_open_until = None, ac_consecutive_failures = 0, ac_created_at = ''now''\<rparr>"

definition demo_clock :: codec where
  "demo_clock = \<lparr>de_strings = (\<lambda>_. None), de_headers = (\<lambda>_. None), de_caps = (\<lambda>_. None),
     de_prices = (\<lambda>_. None), de_thinking = (\<lambda>_. None), de_value = (\<lambda>_. None),
     de_target_predicate = (\<lambda>_. None), de_predicate = (\<lambda>_. None), ser_value = (\<lambda>_. []),
     parse_dt = (\<lambda>s. if s = ''t0'' then Some 0 else None), to_rfc3339 = (\<lambda>_. ''t0''),
     url_host = (\<lambda>_. None)\<rparr>"

text \<open>
  Ordering a pool keeps every account for fallback: while the weights sum within 64 bits, the
  call does not panic and returns a permutation of the accounts in which priorities never
  decrease, except that a preferred account of the pool is moved to the front.
\<close>

theorem order_accounts_permutes:
  assumes "weights accounts \<le> I64_MAX"
  shows "\<exists>ys. order_accounts draw accounts preferred = Some ys \<and> mset ys = mset accounts \<and>
    (case preferred of
       Some p \<Rightarrow> if p \<in> ac_id ` set accounts
                 then ac_id (hd ys) = p \<and> sorted (map ac_priority (tl ys))
                 else sorted (map ac_priority ys)
     | None \<Rightarrow> sorted (map ac_priority ys))"
proof -
  let ?s = "sort_key ac_priority accounts"
  have "weights ?s = weights accounts" by (rule weights_mset) simp
  then obtain zs where zs: "order_tiers draw 0 ?s = Some zs" "mset zs = mset accounts"
      "sorted (map ac_priority zs)"
    using assms order_tiers_total [of ?s draw 0] by auto
  have ord: "order_accounts draw accounts preferred = Some (move_preferred preferred zs)"
    using zs(1) by (simp add: order_accounts_def)
  show ?thesis
  proof (cases preferred)
    case None
    then show ?thesis using ord zs by (simp add: move_preferred_def)
  next
    case (Some p)
    have sets: "set zs = set accounts" using zs(2) by (metis set_mset_mset)
    show ?thesis
    proof (cases "extract_first (\<lambda>a. ac_id a = p) zs")
      case None
      then have "p \<notin> ac_id ` set accounts" using sets by (auto simp: extract_first_None)
      then show ?thesis using None Some ord zs by (simp add: move_preferred_def)
    next
      case (Some yr)
      obtain y rest where yr: "yr = (y, rest)" by (cases yr)
      obtain us vs where y: "ac_id y = p" and us: "zs = us @ y # vs" "rest = us @ vs"
        using extract_first_Some [of "\<lambda>a. ac_id a = p" zs y rest] Some yr by auto
      then have "p \<in> ac_id ` set accounts" using sets by force
      moreover have "sorted (map ac_priority rest)"
        using zs(3) us by (simp add: sorted_append)
      ultimately show ?thesis
        using Some yr y us zs(2) ord \<open>preferred = Some p\<close> by (simp add: move_preferred_def)
    qed
  qed
qed

theorem order_accounts_permutes_witness:
  "\<exists>ys. order_accounts (\<lambda>k n. 0) [demo_account ''b'' 2 1, demo_account ''a'' 1 5, demo_account ''c'' 3 0]
      (Some ''c'') = Some ys \<and> ac_id (hd ys) = ''c'' \<and> length ys = 3 \<and> sorted (map ac_priority (tl ys))"
proof -
  let ?as = "[demo_account ''b'' 2 1, demo_account ''a'' 1 5, demo_account ''c'' 3 0]"
  have "weights ?as \<le> I64_MAX" by (simp add: demo_account_def account_weight_def I64_MAX_def)
  then obtain ys where "order_accounts (\<lambda>k n. 0) ?as (Some ''c'') = Some ys" "mset ys = mset ?as"
      "ac_id (hd ys) = ''c''" "sorted (map ac_priority (tl ys))"
    using order_accounts_permutes [of ?as "\<lambda>k n. 0" "Some ''c''"] by (auto simp: demo_account_def)
  then show ?thesis by (metis length_Cons list.size(3) numeral_3_eq_3 size_mset)
qed

text \<open>
  Weighted choice is exact: of the equally likely draws for a tier, the number that put a given
  account first is its weight (at least one), so every account leads in proportion to its weight
  and none is starved.
\<close>

theorem weighted_choice_exact:
  assumes "weights tier \<le> I64_MAX" "j < length tier"
  shows "card {d. 0 \<le> d \<and> d < weight_total tier \<and> selected_offset d tier = j} =
    nat (max (ac_weight (tier ! j)) 1)"
proof -
  let ?lo = "weights (take j tier)" and ?hi = "weights (take (Suc j) tier)"
  have split: "weights (xs @ ys) = weights xs + weights ys" for xs ys
    by (simp add: weights_def)
  have hi: "?hi = ?lo + account_weight (tier ! j)"
    using assms(2) by (simp add: take_Suc_conv_app_nth split)
  have le: "?hi \<le> weights tier"
    using split [of "take (Suc j) tier" "drop (Suc j) tier"] weights_nonneg [of "drop (Suc j) tier"]
    by simp
  have "{d. 0 \<le> d \<and> d < weight_total tier \<and> selected_offset d tier = j} = {?lo ..< ?hi}"
    unfolding weight_total_exact [OF assms(1)]
    using pick_offset_interval [of _ tier j] assms(2) le weights_nonneg [of "take j tier"]
    by (auto; fastforce)
  then show ?thesis by (simp add: hi account_weight_def)
qed

theorem weighted_choice_exact_witness:
  "card {d. 0 \<le> d \<and> d < weight_total [demo_account ''l'' 1 1, demo_account ''h'' 1 9] \<and>
      selected_offset d [demo_account ''l'' 1 1, demo_account ''h'' 1 9] = 1} = 9"
  using weighted_choice_exact [of "[demo_account ''l'' 1 1, demo_account ''h'' 1 9]" 1]
  by (simp add: demo_account_def account_weight_def I64_MAX_def)

text \<open>
  A failure touches only its own account, and only when it is account-scoped: rate limits,
  quota exhaustion and rejected credentials; transient and target failures leave the store alone.
\<close>

theorem key_failure_isolated:
  "(get_account j (fst (handle_key_failure cd now ms a f (db, path, tr))) = get_account j db \<or> j = ac_id a)
   \<and> (is_account_scoped (uf_kind f) \<or> fst (handle_key_failure cd now ms a f (db, path, tr)) = db)"
  by (auto simp: handle_key_failure_db Let_def account_statement_simps failure_statement_other
      failure_statement_unscoped)

text \<open>
  Half-open probing selects only accounts whose circuit has opened and whose window has passed,
  never more often than the minimal gap; and an account that is probed is not otherwise available,
  so normal traffic and probes are disjoint.
\<close>

theorem should_probe_contract:
  assumes "should_probe cd now a"
  shows "effective_status cd now a = CircuitOpen \<and> \<not> is_available cd now a \<and>
    (\<exists>until. column_dt cd (ac_circuit_open_until a) = Some until \<and> until \<le> now) \<and>
    (\<forall>last_probe. column_dt cd (ac_last_probe_at a) = Some last_probe \<longrightarrow> last_probe + secs 2 \<le> now)"
proof -
  have st: "account_status_parse (ac_status a) = Healthy \<or> account_status_parse (ac_status a) = CircuitOpen"
    using assms by (cases "account_status_parse (ac_status a)") (simp_all add: should_probe_def)
  obtain until where u: "column_dt cd (ac_circuit_open_until a) = Some until" "until \<le> now"
    using assms by (auto simp: should_probe_def split: if_splits option.splits)
  then have "ac_circuit_open_until a \<noteq> None"
    by (cases "ac_circuit_open_until a") (simp_all add: column_dt_def)
  then have "effective_status cd now a = CircuitOpen"
    using st by (auto simp: effective_status_def circuit_status_def)
  then show ?thesis
    using u assms by (auto simp: is_available_def should_probe_def const_defs split: if_splits option.splits)
qed

theorem should_probe_contract_witness:
  "effective_status demo_clock 5 (demo_account ''a'' 1 1\<lparr>ac_circuit_open_until := Some ''t0''\<rparr>) = CircuitOpen"
  using should_probe_contract [of demo_clock 5 "demo_account ''a'' 1 1\<lparr>ac_circuit_open_until := Some ''t0''\<rparr>"]
  by (simp add: should_probe_def demo_account_def demo_clock_def account_status_parse_def column_dt_def)

text \<open>
  Counterexample to automatic recovery. The circuit of an account opens on its fourth
  consecutive account-scoped failure, but each of these also stores a status (cooldown, exhausted
  or disabled) that half-open probing refuses: the account is then neither available nor probed at
  any later time, until its status is changed from outside.
\<close>

theorem opened_circuit_never_probed:
  assumes "is_account_scoped (uf_kind f)" "get_account (ac_id a) db = Some row"
    and "ac_consecutive_failures row \<ge> 3"
    and "get_account (ac_id a) (fst (handle_key_failure cd now ms a f (db, path, tr))) = Some row'"
  shows "\<not> is_available cd later row' \<and> \<not> should_probe cd later row'"
proof -
  obtain r where r: "get_account (ac_id a) (fst (failure_statement cd now a f (uf_kind f) db)) = Some r"
      "account_status_parse (ac_status r) \<in> {Cooldown, Exhausted, Disabled}"
      "ac_consecutive_failures r = ac_consecutive_failures row"
    using failure_statement_scoped [OF assms(1,2)] by metis
  then have row': "row' = r\<lparr>ac_consecutive_failures := ac_consecutive_failures r + 1,
      ac_circuit_open_until := Some (to_rfc3339 cd (now + secs CIRCUIT_OPEN_SECS))\<rparr>"
    using assms(1,3,4) by (simp add: handle_key_failure_db Let_def get_account_record_failure CIRCUIT_THRESHOLD_def)
  have "effective_status cd later row' \<noteq> Healthy" by (rule effective_status_circuit) (simp add: row')
  moreover have "\<not> should_probe cd later row'" using r(2) by (auto simp: should_probe_def row')
  ultimately show ?thesis by (simp add: is_available_def)
qed

theorem opened_circuit_never_probed_witness:
  "\<exists>row'. get_account ''a'' (fst (handle_key_failure demo_clock 0 0 (demo_account ''a'' 1 1)
       \<lparr>uf_kind = RateLimit, uf_status = Some 429, uf_retry_after_secs = None, uf_message = ''slow down'',
        uf_quota_reset_at = None\<rparr>
       (empty_db\<lparr>db_accounts := [demo_account ''a'' 1 1\<lparr>ac_consecutive_failures := 3\<rparr>]\<rparr>, [],
        trace_new ''u'' ''r'' ''m''))) = Some row' \<and>
     \<not> is_available demo_clock (secs 100000) row' \<and> \<not> should_probe demo_clock (secs 100000) row'"
proof -
  let ?a = "demo_account ''a'' 1 1"
  let ?f = "\<lparr>uf_kind = RateLimit, uf_status = Some 429, uf_retry_after_secs = None,
    uf_message = ''slow down'', uf_quota_reset_at = None\<rparr>"
  let ?db = "empty_db\<lparr>db_accounts := [?a\<lparr>ac_consecutive_failures := 3\<rparr>]\<rparr>"
  let ?s = "(?db, [], trace_new ''u'' ''r'' ''m'')"
  have get: "get_account (ac_id ?a) ?db = Some (?a\<lparr>ac_consecutive_failures := 3\<rparr>)"
    by (simp add: get_account_def select_one_def demo_account_def)
  then obtain row' where "get_account (ac_id ?a) (fst (handle_key_failure demo_clock 0 0 ?a ?f ?s)) = Some row'"
    by (auto simp: handle_key_failure_db Let_def account_statement_simps is_account_scoped_def)
  then show ?thesis
    using opened_circuit_never_probed [of ?f ?a ?db "?a\<lparr>ac_consecutive_failures := 3\<rparr>" demo_clock 0 0 "[]"
        "trace_new ''u'' ''r'' ''m''" row' "secs 100000"] get
    by (auto simp: is_account_scoped_def demo_account_def)
qed

end
