(* ===== verification/Quota.thy ===== *)
theory Quota
  imports Db_Rows
begin

text \<open>
  Quota evidence (\<^verbatim>\<open>src/src/quota.rs\<close>): observations of the remaining quota of an account
  from headers, plugin probes and failures, kept in a table of the latest evidence and a table of
  the account-global evidence that adaptive routing may use; and the parsers of the header values.
  \<open>lib\<close> collects what the date library decides (instants out of its range), \<open>headers\<close> gives
  the text of a response header.
\<close>

section \<open>Definitions\<close>

subsection \<open>Parsed floating-point numbers\<close>

text \<open>
  \<^verbatim>\<open>str::parse::<f64>\<close>. A finite result is the exact value of the literal; a literal from
  \<open>2^1024 - 2^970\<close> on rounds to infinity.
\<close>

datatype f64x = Finite f64 | PosInf | NegInf | NaN

definition F64_OVERFLOW :: f64 where
  "F64_OVERFLOW = 2 ^ 1024 - 2 ^ 970"

definition scale10 :: "nat \<Rightarrow> int \<Rightarrow> f64" where
  "scale10 n e = (if e \<ge> 0 then of_nat n * 10 ^ nat e else of_nat n / 10 ^ nat (- e))"

definition signed_f64 :: "bool \<Rightarrow> f64 \<Rightarrow> f64x" where
  "signed_f64 neg x =
     (if x \<ge> F64_OVERFLOW then (if neg then NegInf else PosInf) else Finite (if neg then - x else x))"

definition parse_exponent :: "string \<Rightarrow> int option" where
  "parse_exponent s =
     (case s of
        [] \<Rightarrow> Some 0
      | c # cs \<Rightarrow>
          if c = CHR ''e'' \<or> c = CHR ''E'' then
            let (neg, ds) = (case cs of
                               x # xs \<Rightarrow> if x = CHR ''-'' then (True, xs)
                                         else if x = CHR ''+'' then (False, xs) else (False, cs)
                             | [] \<Rightarrow> (False, []))
            in if ds \<noteq> [] \<and> list_all is_digit ds
               then Some (if neg then - int (digits_value ds) else int (digits_value ds)) else None
          else None)"

definition parse_decimal :: "bool \<Rightarrow> string \<Rightarrow> f64x option" where
  "parse_decimal neg s =
     (let whole = takeWhile is_digit s;
          r1 = dropWhile is_digit s;
          (frac, r2) = (case r1 of
                          c # cs \<Rightarrow> if c = CHR ''.'' then (takeWhile is_digit cs, dropWhile is_digit cs)
                                    else ([], r1)
                        | [] \<Rightarrow> ([], []))
      in if whole = [] \<and> frac = [] then None
         else map_option (\<lambda>e. signed_f64 neg (scale10 (digits_value (whole @ frac)) (e - int (length frac))))
                (parse_exponent r2))"

definition parse_f64 :: "string \<Rightarrow> f64x option" where
  "parse_f64 s =
     (let (neg, r) = (case s of
                        c # cs \<Rightarrow> if c = CHR ''-'' then (True, cs)
                                  else if c = CHR ''+'' then (False, cs) else (False, s)
                      | [] \<Rightarrow> (False, []));
          l = to_ascii_lowercase r
      in if l = ''inf'' \<or> l = ''infinity'' then Some (if neg then NegInf else PosInf)
         else if l = ''nan'' then Some NaN
         else parse_decimal neg r)"

fun finite_part :: "f64x \<Rightarrow> f64 option" where
  "finite_part (Finite x) = Some x"
| "finite_part _ = None"

fun x_nonpos :: "f64x \<Rightarrow> bool" where
  "x_nonpos (Finite x) = (x \<le> 0)"
| "x_nonpos PosInf = False"
| "x_nonpos NegInf = True"
| "x_nonpos NaN = False"

fun x_above_one :: "f64x \<Rightarrow> bool" where
  "x_above_one (Finite x) = (x > 1)"
| "x_above_one PosInf = True"
| "x_above_one NegInf = False"
| "x_above_one NaN = False"

fun x_percent :: "f64x \<Rightarrow> f64x" where
  "x_percent (Finite x) = Finite (x / 100)"
| "x_percent y = y"

text \<open>The quotient of two values that are not \<open>\<le> 0\<close>, clamped to the unit interval.\<close>

fun x_fraction :: "f64x \<Rightarrow> f64x \<Rightarrow> f64x" where
  "x_fraction (Finite a) (Finite b) = Finite (clampf (a / b) 0 1)"
| "x_fraction (Finite a) PosInf = Finite 0"
| "x_fraction PosInf (Finite b) = Finite 1"
| "x_fraction _ _ = NaN"

subsection \<open>Snapshots\<close>

definition QUOTA_DEFAULT_MAX_AGE :: nat where [const_defs]: "QUOTA_DEFAULT_MAX_AGE = 300"

record quota_snapshot =
  qs_remaining_fraction :: "f64 option"
  qs_reset_at :: "nanos option"
  qs_observed_at :: nanos
  qs_source :: string
  qs_max_age_secs :: nat

definition is_fresh :: "nanos \<Rightarrow> quota_snapshot \<Rightarrow> bool" where
  "is_fresh now q =
     (if is_some_and (\<lambda>r. r \<le> now) (qs_reset_at q) then False
      else let age = now - qs_observed_at q
           in if age < 0 then True else age \<le> secs (int (qs_max_age_secs q)))"

definition preference :: "nanos \<Rightarrow> quota_snapshot \<Rightarrow> f64" where
  "preference now q =
     (if \<not> is_fresh now q then 0
      else case qs_remaining_fraction q of
             None \<Rightarrow> 0
           | Some remaining \<Rightarrow>
               let score = clampf remaining 0 1 - 1 / 2;
                   score' = (if score < 0
                             then case qs_reset_at q of
                                    None \<Rightarrow> score
                                  | Some reset_at \<Rightarrow>
                                      let s = max (num_seconds (reset_at - now)) 0
                                      in score + (if s \<le> 60 then 1 / 10 else if s \<le> 300 then 1 / 20 else 0)
                             else score)
               in clampf score' (- 1 / 2) (1 / 2))"

record quota_header_observation =
  qh_remaining_fraction :: f64x
  qh_reset_at :: "nanos option"

definition retry_after_secs :: "nanos \<Rightarrow> quota_header_observation \<Rightarrow> nat option" where
  "retry_after_secs now obs =
     (case qh_reset_at obs of
        None \<Rightarrow> None
      | Some r \<Rightarrow> let millis = num_milliseconds (r - now)
                  in if millis > 0 then Some ((nat millis + 999) div 1000) else None)"

record quota_plugin_observation =
  qp_remaining_fraction :: "f64 option"
  qp_reset_at :: "nanos option"
  qp_exhausted :: bool

subsection \<open>Value parsers\<close>

record clock_lib =
  cl_add :: "nanos \<Rightarrow> nanos \<Rightarrow> nanos option"
  cl_from_timestamp :: "int \<Rightarrow> nanos option"
  cl_from_timestamp_millis :: "int \<Rightarrow> nanos option"

definition parse_quota_state :: "string \<Rightarrow> f64x option" where
  "parse_quota_state v =
     (let normalized = to_ascii_lowercase (trim v)
      in if normalized \<in> {''exhausted'', ''empty'', ''depleted'', ''none''} then Some (Finite 0)
         else case strip_suffix ''%'' normalized of
                Some percent \<Rightarrow> map_option x_percent (parse_f64 (trim percent))
              | None \<Rightarrow> map_option (\<lambda>x. if x_above_one x then x_percent x else x) (parse_f64 normalized))"

definition header_f64 :: "(string \<Rightarrow> string option) \<Rightarrow> string \<Rightarrow> f64x option" where
  "header_f64 headers name = (case headers name of None \<Rightarrow> None | Some v \<Rightarrow> parse_f64 (trim v))"

definition I64_MAX_F64 :: f64 where "I64_MAX_F64 = 9223372036854775808"

definition f64_round :: "f64 \<Rightarrow> int" where
  "f64_round x = (if x \<ge> 0 then \<lfloor>x + 1 / 2\<rfloor> else \<lceil>x - 1 / 2\<rceil>)"

text \<open>The cast to \<^verbatim>\<open>i64\<close> saturates.\<close>

definition as_i64 :: "int \<Rightarrow> int" where
  "as_i64 x = max (- 9223372036854775808) (min x 9223372036854775807)"

definition reset_after_seconds :: "clock_lib \<Rightarrow> nanos \<Rightarrow> f64 \<Rightarrow> nanos option" where
  "reset_after_seconds lib now seconds =
     (let millis = seconds * 1000
      in if seconds \<ge> 0 \<and> millis \<le> I64_MAX_F64
         then cl_add lib now (as_i64 (f64_round millis) * 1000000) else None)"

text \<open>Countdowns such as \<open>60s\<close>, \<open>500ms\<close> and \<open>2m59.56s\<close>.\<close>

fun take_number :: "bool \<Rightarrow> string \<Rightarrow> string \<times> string" where
  "take_number decimal [] = ([], [])"
| "take_number decimal (c # cs) =
     (if is_digit c then map_prod ((#) c) id (take_number decimal cs)
      else if c = CHR ''.'' \<and> \<not> decimal then map_prod ((#) c) id (take_number True cs)
      else ([], c # cs))"

lemma take_number_length: "length (snd (take_number d s)) \<le> length s"
proof (induction d s rule: take_number.induct)
  case (2 d c cs)
  then show ?case by (auto simp: le_SucI)
qed simp

definition ascii_whitespace :: "char \<Rightarrow> bool" where
  "ascii_whitespace c = (c \<in> {CHR '' '', CHR 0x09, CHR 0x0A, CHR 0x0C, CHR 0x0D})"

definition duration_unit :: "string \<Rightarrow> (f64 \<times> string) option" where
  "duration_unit s =
     (if starts_with s ''ms'' then Some (1 / 1000, drop 2 s)
      else case s of
             [] \<Rightarrow> None
           | c # cs \<Rightarrow>
               if c = CHR ''s'' then Some (1, cs)
               else if c = CHR ''m'' then Some (60, cs)
               else if c = CHR ''h'' then Some (3600, cs)
               else None)"

lemma duration_unit_length: "duration_unit s = Some (u, r) \<Longrightarrow> length r < length s"
  by (cases s) (auto simp: duration_unit_def starts_with_def split: if_splits)

function parse_parts :: "f64 \<Rightarrow> nat \<Rightarrow> string \<Rightarrow> f64 option" where
  "parse_parts acc parts s =
     (let s1 = dropWhile ascii_whitespace s
      in if s1 = [] then (if parts > 0 then Some acc else None)
         else let (num, s2) = take_number False s1
              in case parse_f64 num of
                   Some (Finite amount) \<Rightarrow>
                     (case duration_unit (dropWhile ascii_whitespace s2) of
                        None \<Rightarrow> None
                      | Some (multiplier, s3) \<Rightarrow>
                          let acc' = acc + amount * multiplier
                          in if acc' \<ge> F64_OVERFLOW then None else parse_parts acc' (Suc parts) s3)
                 | _ \<Rightarrow> None)"
  by pat_completeness auto
termination
proof (relation "measure (\<lambda>(t, p, s). length s)", simp)
  fix acc :: f64 and parts s s1 x num s2 y amount pr multiplier s3 and acc' :: f64
  assume a: "s1 = dropWhile ascii_whitespace s" "x = take_number False s1" "(num, s2) = x"
    "duration_unit (dropWhile ascii_whitespace s2) = Some pr" "(multiplier, s3) = pr"
  have "length s3 < length (dropWhile ascii_whitespace s2)" using a(4,5) duration_unit_length by metis
  also have "\<dots> \<le> length s2" by (rule length_dropWhile_le)
  also have "\<dots> \<le> length s1" using a(2,3) take_number_length by (metis snd_conv)
  also have "\<dots> \<le> length s" using a(1) by (simp add: length_dropWhile_le)
  finally show "((acc', Suc parts, s3), acc, parts, s) \<in> measure (\<lambda>(t, p, s). length s)" by simp
qed

declare parse_parts.simps [simp del]

definition parse_reset_duration_secs :: "string \<Rightarrow> f64 option" where
  "parse_reset_duration_secs raw = parse_parts 0 0 (to_ascii_lowercase (trim raw))"

subsection \<open>The reset header\<close>

text \<open>One header value: \<open>None\<close> means that the next header is tried.\<close>

definition reset_value :: "codec \<Rightarrow> clock_lib \<Rightarrow> nanos \<Rightarrow> string \<Rightarrow> nanos option option" where
  "reset_value cd lib now raw0 =
     (let raw = trim raw0
      in case parse_dt cd raw of
           Some t \<Rightarrow> Some (Some t)
         | None \<Rightarrow>
             (case parse_f64 raw of
                Some (Finite v) \<Rightarrow>
                  if v \<ge> 0 \<and> v \<ge> 1000000000000 \<and> v \<le> I64_MAX_F64
                  then Some (cl_from_timestamp_millis lib (as_i64 \<lfloor>v\<rfloor>))
                  else if v \<ge> 1000000000 \<and> v \<le> I64_MAX_F64
                  then Some (cl_from_timestamp lib (as_i64 \<lfloor>v\<rfloor>))
                  else map_option Some (reset_after_seconds lib now v)
              | Some _ \<Rightarrow> None
              | None \<Rightarrow>
                  (case parse_reset_duration_secs raw of
                     Some seconds \<Rightarrow> map_option Some (reset_after_seconds lib now seconds)
                   | None \<Rightarrow> None)))"

fun first_reset ::
  "codec \<Rightarrow> clock_lib \<Rightarrow> nanos \<Rightarrow> (string \<Rightarrow> string option) \<Rightarrow> string list \<Rightarrow> nanos option" where
  "first_reset cd lib now headers [] = None"
| "first_reset cd lib now headers (name # names) =
     (case headers name of
        None \<Rightarrow> first_reset cd lib now headers names
      | Some raw \<Rightarrow> (case reset_value cd lib now raw of
                      Some r \<Rightarrow> r
                    | None \<Rightarrow> first_reset cd lib now headers names))"

definition parse_reset_header :: "codec \<Rightarrow> clock_lib \<Rightarrow> nanos \<Rightarrow> (string \<Rightarrow> string option) \<Rightarrow> nanos option" where
  "parse_reset_header cd lib now headers = first_reset cd lib now headers
     [''anthropic-ratelimit-requests-reset'', ''x-ratelimit-reset-requests'', ''x-ratelimit-reset'',
      ''ratelimit-reset'']"

subsection \<open>The registry\<close>

type_synonym quota_key = "string \<times> string"

record quota_registry =
  qr_inner :: "quota_key \<rightharpoonup> quota_snapshot"
  qr_account_global :: "quota_key \<rightharpoonup> quota_snapshot"

definition quota_empty :: quota_registry where
  "quota_empty = \<lparr>qr_inner = Map.empty, qr_account_global = Map.empty\<rparr>"

definition make_snapshot ::
  "nanos \<Rightarrow> f64x option \<Rightarrow> nanos option \<Rightarrow> string \<Rightarrow> nat \<Rightarrow> quota_snapshot" where
  "make_snapshot now remaining reset_at source max_age =
     \<lparr>qs_remaining_fraction = map_option (\<lambda>x. clampf x 0 1)
        (case remaining of None \<Rightarrow> None | Some x \<Rightarrow> finite_part x),
      qs_reset_at = reset_at, qs_observed_at = now, qs_source = source, qs_max_age_secs = max max_age 1\<rparr>"

definition observe ::
  "nanos \<Rightarrow> quota_key \<Rightarrow> f64x option \<Rightarrow> nanos option \<Rightarrow> string \<Rightarrow> nat \<Rightarrow> quota_registry \<Rightarrow> quota_registry" where
  "observe now key remaining reset_at source max_age q =
     q\<lparr>qr_inner := (qr_inner q)(key \<mapsto> make_snapshot now remaining reset_at source max_age)\<rparr>"

definition observe_account_global ::
  "nanos \<Rightarrow> quota_key \<Rightarrow> f64x option \<Rightarrow> nanos option \<Rightarrow> string \<Rightarrow> nat \<Rightarrow> quota_registry \<Rightarrow> quota_registry" where
  "observe_account_global now key remaining reset_at source max_age q =
     (let s = make_snapshot now remaining reset_at source max_age
      in q\<lparr>qr_inner := (qr_inner q)(key \<mapsto> s), qr_account_global := (qr_account_global q)(key \<mapsto> s)\<rparr>)"

definition observe_exhausted ::
  "nanos \<Rightarrow> quota_key \<Rightarrow> nanos option \<Rightarrow> string \<Rightarrow> quota_registry \<Rightarrow> quota_registry" where
  "observe_exhausted now key reset_at source q =
     observe_account_global now key (Some (Finite 0)) reset_at source QUOTA_DEFAULT_MAX_AGE q"

definition observe_plugin ::
  "codec \<Rightarrow> nanos \<Rightarrow> quota_key \<Rightarrow> string option \<Rightarrow> string option \<Rightarrow> quota_registry
    \<Rightarrow> quota_registry \<times> quota_plugin_observation option" where
  "observe_plugin cd now key quota_state reset_text q =
     (let reset_at = (case reset_text of None \<Rightarrow> None | Some v \<Rightarrow> parse_dt cd v);
          parsed = (case quota_state of None \<Rightarrow> None | Some v \<Rightarrow> parse_quota_state v);
          remaining = map_option (\<lambda>x. clampf x 0 1) (case parsed of None \<Rightarrow> None | Some x \<Rightarrow> finite_part x);
          exhausted = is_some_and (\<lambda>x. x \<le> 0) remaining
      in if quota_state \<noteq> None \<or> reset_at \<noteq> None
         then (observe_account_global now key (map_option Finite remaining) reset_at ''plugin_health_probe'' 45 q,
               Some \<lparr>qp_remaining_fraction = remaining, qp_reset_at = reset_at, qp_exhausted = exhausted\<rparr>)
         else (q, None))"

definition QUOTA_HEADER_PAIRS :: "(string \<times> string) list" where
  "QUOTA_HEADER_PAIRS =
     [(''anthropic-ratelimit-requests-remaining'', ''anthropic-ratelimit-requests-limit''),
      (''x-ratelimit-remaining-requests'', ''x-ratelimit-limit-requests''),
      (''x-ratelimit-remaining'', ''x-ratelimit-limit''),
      (''ratelimit-remaining'', ''ratelimit-limit'')]"

definition pair_fraction :: "(string \<Rightarrow> string option) \<Rightarrow> string \<times> string \<Rightarrow> f64x option" where
  "pair_fraction headers names =
     (case header_f64 headers (fst names) of
        None \<Rightarrow> None
      | Some remaining \<Rightarrow>
          if x_nonpos remaining then Some (Finite 0)
          else case header_f64 headers (snd names) of
                 None \<Rightarrow> None
               | Some limit \<Rightarrow> if x_nonpos limit then None else Some (x_fraction remaining limit))"

fun observe_pairs ::
  "codec \<Rightarrow> clock_lib \<Rightarrow> nanos \<Rightarrow> quota_key \<Rightarrow> (string \<Rightarrow> string option) \<Rightarrow> (string \<times> string) list
    \<Rightarrow> quota_registry \<Rightarrow> quota_registry \<times> quota_header_observation option" where
  "observe_pairs cd lib now key headers [] q = (q, None)"
| "observe_pairs cd lib now key headers (p # ps) q =
     (case pair_fraction headers p of
        None \<Rightarrow> observe_pairs cd lib now key headers ps q
      | Some fraction \<Rightarrow>
          let reset_at = parse_reset_header cd lib now headers
          in (observe now key (Some fraction) reset_at (''response_header:'' @ fst p) QUOTA_DEFAULT_MAX_AGE q,
              Some \<lparr>qh_remaining_fraction = fraction, qh_reset_at = reset_at\<rparr>))"

definition observe_headers ::
  "codec \<Rightarrow> clock_lib \<Rightarrow> nanos \<Rightarrow> quota_key \<Rightarrow> (string \<Rightarrow> string option) \<Rightarrow> quota_registry
    \<Rightarrow> quota_registry \<times> quota_header_observation option" where
  "observe_headers cd lib now key headers q = observe_pairs cd lib now key headers QUOTA_HEADER_PAIRS q"

definition quota_snapshot_of :: "nanos \<Rightarrow> quota_key \<Rightarrow> quota_registry \<Rightarrow> quota_snapshot option" where
  "quota_snapshot_of now key q = opt_filter (is_fresh now) (qr_inner q key)"

definition adaptive_snapshot :: "nanos \<Rightarrow> quota_key \<Rightarrow> quota_registry \<Rightarrow> quota_snapshot option" where
  "adaptive_snapshot now key q = opt_filter (is_fresh now) (qr_account_global q key)"

text \<open>The operator views list the table in the hash map's order, an argument.\<close>

definition observations :: "nanos \<Rightarrow> quota_key list \<Rightarrow> quota_registry \<Rightarrow> (quota_key \<times> quota_snapshot \<times> bool) list" where
  "observations now keys q =
     List.map_filter (\<lambda>k. map_option (\<lambda>s. (k, s, is_fresh now s)) (qr_inner q k)) keys"

definition snapshots :: "nanos \<Rightarrow> quota_key list \<Rightarrow> quota_registry \<Rightarrow> (quota_key \<times> quota_snapshot) list" where
  "snapshots now keys q =
     map (\<lambda>(k, s, f). (k, s)) (filter (\<lambda>(k, s, f). f) (observations now keys q))"

definition routing_observations ::
  "nanos \<Rightarrow> quota_key list \<Rightarrow> quota_registry \<Rightarrow> (quota_key \<times> quota_snapshot \<times> bool) list" where
  "routing_observations now keys q =
     List.map_filter (\<lambda>k. map_option (\<lambda>s. (k, s, is_fresh now s)) (qr_account_global q k)) keys"

subsection \<open>Runs\<close>

text \<open>Any interleaving of observations, newest last.\<close>

inductive quota_run :: "codec \<Rightarrow> clock_lib \<Rightarrow> quota_registry \<Rightarrow> bool" for cd lib where
  quota_start: "quota_run cd lib quota_empty"
| quota_headers: "quota_run cd lib q \<Longrightarrow> quota_run cd lib (fst (observe_headers cd lib now key headers q))"
| quota_plugin: "quota_run cd lib q \<Longrightarrow> quota_run cd lib (fst (observe_plugin cd now key st rs q))"
| quota_exhausted: "quota_run cd lib q \<Longrightarrow> quota_run cd lib (observe_exhausted now key reset_at source q)"

section \<open>Lemmas on the registry\<close>

definition snapshot_ok :: "quota_snapshot \<Rightarrow> bool" where
  "snapshot_ok s \<longleftrightarrow> (\<forall>x. qs_remaining_fraction s = Some x \<longrightarrow> 0 \<le> x \<and> x \<le> 1) \<and> 1 \<le> qs_max_age_secs s"

lemma snapshot_ok_make: "snapshot_ok (make_snapshot now r t src n)"
  using clampf_bounds [of 0 1] by (auto simp: snapshot_ok_def make_snapshot_def)

text \<open>Header evidence goes to the operator's table only.\<close>

lemma observe_pairs_global:
  "qr_account_global (fst (observe_pairs cd lib now key headers ps q)) = qr_account_global q"
  by (induction ps) (auto simp: observe_def Let_def split: option.split)

lemma observe_headers_global:
  "qr_account_global (fst (observe_headers cd lib now key headers q)) = qr_account_global q"
  by (simp add: observe_headers_def observe_pairs_global)

lemma global_sources:
  assumes "quota_run cd lib q" "qr_account_global q key = Some s"
  shows "snapshot_ok s"
  using assms
proof (induction arbitrary: key s)
  case (quota_plugin q now key' st rs)
  then show ?case
    by (auto simp: observe_plugin_def observe_account_global_def Let_def snapshot_ok_make split: if_splits)
next
  case (quota_exhausted q now key' reset_at source)
  then show ?case
    by (auto simp: observe_exhausted_def observe_account_global_def Let_def snapshot_ok_make split: if_splits)
qed (auto simp: quota_empty_def observe_headers_global)

lemma preference_bonus:
  assumes "0 \<le> x" "x \<le> 1" "qs_remaining_fraction s = Some x" "is_fresh now s"
  shows "x - 1 / 2 \<le> preference now s \<and> preference now s \<le> max (x - 1 / 2) (x - 2 / 5) \<and>
    preference now s \<le> 1 / 2"
  using assms by (auto simp: preference_def Let_def clampf_def split: option.split)

section \<open>Lemmas on countdown texts\<close>

lemma F64_OVERFLOW_large: "(18446744073709551616 :: real) \<le> F64_OVERFLOW"
proof -
  have "(2 :: real) ^ 1024 = 2 ^ 54 * 2 ^ 970" by (simp flip: power_add)
  moreover have "(2 :: real) ^ 54 * 2 ^ 970 - 2 ^ 970 \<ge> 2 ^ 970" by simp
  moreover have "(2 :: real) ^ 64 \<le> 2 ^ 970" by (intro power_increasing) simp_all
  moreover have "(2 :: real) ^ 64 = 18446744073709551616" by simp
  ultimately show ?thesis unfolding F64_OVERFLOW_def by linarith
qed

lemma digit_props:
  assumes "is_digit c"
  shows "c \<noteq> CHR ''-''" "c \<noteq> CHR ''+''" "ascii_lower c = c" "\<not> ascii_whitespace c" "\<not> ascii_ws c"
    "c \<noteq> CHR ''i''" "c \<noteq> CHR ''n''" "(of_char c :: nat) < 128"
  using assms
  by (auto simp: is_digit_def ascii_lower_def ascii_whitespace_def ascii_ws_def of_char_def Let_def)

lemma lower_digits: "list_all is_digit s \<Longrightarrow> to_ascii_lowercase s = s"
  by (induction s) (simp_all add: to_ascii_lowercase_def digit_props)

lemma takeWhile_digits:
  "list_all is_digit s \<Longrightarrow> takeWhile is_digit s = s" "list_all is_digit s \<Longrightarrow> dropWhile is_digit s = []"
  by (simp_all add: list_all_iff)

lemma parse_f64_show_nat:
  assumes "n \<le> u64_max"
  shows "parse_f64 (show_nat n) = Some (Finite (of_nat n))"
proof -
  obtain c cs where s: "show_nat n = c # cs" using show_nat_digits [of n] by (cases "show_nat n") auto
  have d: "list_all is_digit (show_nat n)" "is_digit c" using show_nat_digits [of n] s by simp_all
  have "(of_nat n :: real) < F64_OVERFLOW"
    using assms F64_OVERFLOW_large by (simp add: u64_max_def)
  moreover have "digits_value (c # cs) = n" using digits_value_show_nat [of n] s by simp
  ultimately have "parse_decimal False (show_nat n) = Some (Finite (of_nat n))"
    using d(1) s by (simp add: parse_decimal_def takeWhile_digits parse_exponent_def signed_f64_def
        scale10_def Let_def)
  then show ?thesis
    using d by (simp add: parse_f64_def s lower_digits digit_props)
qed

text \<open>A part of a countdown: a number and its unit.\<close>

datatype time_unit = Millis | Seconds | Minutes | Hours

fun unit_text :: "time_unit \<Rightarrow> string" where
  "unit_text Millis = ''ms''"
| "unit_text Seconds = ''s''"
| "unit_text Minutes = ''m''"
| "unit_text Hours = ''h''"

fun unit_secs :: "time_unit \<Rightarrow> f64" where
  "unit_secs Millis = 1 / 1000"
| "unit_secs Seconds = 1"
| "unit_secs Minutes = 60"
| "unit_secs Hours = 3600"

definition print_countdown :: "(nat \<times> time_unit) list \<Rightarrow> string" where
  "print_countdown ps = concat (map (\<lambda>(n, u). show_nat n @ unit_text u) ps)"

definition countdown_secs :: "(nat \<times> time_unit) list \<Rightarrow> f64" where
  "countdown_secs ps = sum_list (map (\<lambda>(n, u). of_nat n * unit_secs u) ps)"

lemma take_number_digits:
  assumes "list_all is_digit s" "r = [] \<or> (\<not> is_digit (hd r) \<and> hd r \<noteq> CHR ''.'')"
  shows "take_number d (s @ r) = (s, r)"
  using assms(1)
proof (induction s)
  case Nil
  then show ?case using assms(2) by (cases r) auto
qed simp

lemma unit_text_head: "\<exists>c cs. unit_text u = c # cs \<and> \<not> is_digit c \<and> c \<noteq> CHR ''.'' \<and> \<not> ascii_whitespace c"
  by (cases u) (simp_all add: is_digit_def ascii_whitespace_def of_char_def)

lemma duration_unit_text:
  assumes "r = [] \<or> is_digit (hd r)"
  shows "duration_unit (unit_text u @ r) = Some (unit_secs u, r)"
proof -
  have "hd r \<noteq> CHR ''s''" if "r \<noteq> []" using assms that by (auto simp: is_digit_def of_char_def)
  then show ?thesis by (cases u; cases r) (auto simp: duration_unit_def starts_with_def)
qed

lemma print_countdown_head: "print_countdown ps = [] \<or> is_digit (hd (print_countdown ps))"
proof (cases ps)
  case (Cons p ps')
  then show ?thesis
    using show_nat_digits [of "fst p"]
    by (cases "show_nat (fst p)") (auto simp: print_countdown_def split: prod.splits)
qed (simp add: print_countdown_def)

lemma unit_secs_nonneg: "0 \<le> unit_secs u"
  by (cases u) simp_all

lemma countdown_nonneg: "0 \<le> countdown_secs ps"
  unfolding countdown_secs_def by (rule sum_list_nonneg) (auto simp: unit_secs_nonneg)

lemma parse_parts_print:
  "\<forall>(n, u) \<in> set ps. n \<le> u64_max \<Longrightarrow> acc + countdown_secs ps < F64_OVERFLOW \<Longrightarrow>
   0 < k + length ps \<Longrightarrow> parse_parts acc k (print_countdown ps) = Some (acc + countdown_secs ps)"
proof (induction ps arbitrary: acc k)
  case Nil
  then show ?case by (subst parse_parts.simps) (simp add: print_countdown_def countdown_secs_def)
next
  case (Cons p ps)
  obtain n u where p: "p = (n, u)" by (cases p)
  let ?r = "print_countdown ps"
  have text_eq: "print_countdown (p # ps) = show_nat n @ unit_text u @ ?r"
    by (simp add: print_countdown_def p)
  obtain c cs where c: "show_nat n = c # cs" "is_digit c"
    using show_nat_digits [of n] by (cases "show_nat n") auto
  obtain d ds where d: "unit_text u = d # ds" "\<not> is_digit d" "d \<noteq> CHR ''.''" "\<not> ascii_whitespace d"
    using unit_text_head [of u] by blast
  have tn: "take_number False (show_nat n @ unit_text u @ ?r) = (show_nat n, unit_text u @ ?r)"
    using show_nat_digits [of n] d by (intro take_number_digits) auto
  have du: "duration_unit (unit_text u @ ?r) = Some (unit_secs u, ?r)"
    by (rule duration_unit_text) (rule print_countdown_head)
  have pf: "parse_f64 (show_nat n) = Some (Finite (of_nat n))"
    using Cons.prems(1) p by (intro parse_f64_show_nat) simp
  have total: "countdown_secs (p # ps) = of_nat n * unit_secs u + countdown_secs ps"
    by (simp add: countdown_secs_def p)
  have lt: "acc + of_nat n * unit_secs u < F64_OVERFLOW"
    using Cons.prems(2) total countdown_nonneg [of ps] by simp
  have "parse_parts acc k (show_nat n @ unit_text u @ ?r) =
      parse_parts (acc + of_nat n * unit_secs u) (Suc k) ?r"
    using tn du pf lt c d digit_props(4) [OF c(2)]
    by (subst parse_parts.simps) (simp add: Let_def)
  also have "\<dots> = Some (acc + of_nat n * unit_secs u + countdown_secs ps)"
    using Cons.prems total by (intro Cons.IH) auto
  finally show ?case by (simp add: text_eq total)
qed

lemma show_nat_chars: "\<forall>c \<in> set (show_nat n). is_digit c"
  using show_nat_digits [of n] by (simp add: list_all_iff)

lemma unit_text_chars: "\<forall>c \<in> set (unit_text u). ascii_lower c = c \<and> \<not> ascii_ws c \<and> (of_char c :: nat) < 128"
  by (cases u) (simp_all add: ascii_lower_def ascii_ws_def of_char_def)

lemma countdown_chars: "\<forall>c \<in> set (print_countdown ps). ascii_lower c = c \<and> \<not> ascii_ws c \<and> (of_char c :: nat) < 128"
  using show_nat_chars unit_text_chars digit_props(3,5,8)
  by (fastforce simp: print_countdown_def)

lemma lower_plain: "\<forall>c \<in> set s. ascii_lower c = c \<Longrightarrow> to_ascii_lowercase s = s"
  unfolding to_ascii_lowercase_def by (simp add: map_idI)

section \<open>Properties\<close>

text \<open>
  Only account-global evidence steers adaptive routing: in every run of observations, a response
  header never changes what adaptive routing reads, and what it reads is fresh (not older than
  its maximal age, its reset not yet passed), with a remaining fraction in the unit interval and a
  preference that deviates from the headroom above one half by at most the reset bonus.
\<close>

theorem adaptive_quota_evidence:
  assumes "quota_run cd lib q"
  shows "adaptive_snapshot t k (fst (observe_headers cd lib now key headers q)) = adaptive_snapshot t k q \<and>
    (\<forall>s. adaptive_snapshot t k q = Some s \<longrightarrow>
       t - qs_observed_at s \<le> secs (int (qs_max_age_secs s)) \<and>
       (\<forall>r. qs_reset_at s = Some r \<longrightarrow> t < r) \<and>
       (\<forall>x. qs_remaining_fraction s = Some x \<longrightarrow> 0 \<le> x \<and> x \<le> 1 \<and>
          x - 1 / 2 \<le> preference t s \<and> preference t s \<le> x - 2 / 5 \<and> preference t s \<le> 1 / 2) \<and>
       (qs_remaining_fraction s = None \<longrightarrow> preference t s = 0))"
proof (intro conjI allI impI)
  show "adaptive_snapshot t k (fst (observe_headers cd lib now key headers q)) = adaptive_snapshot t k q"
    by (simp add: adaptive_snapshot_def observe_headers_global)
  fix s assume "adaptive_snapshot t k q = Some s"
  then have s: "qr_account_global q k = Some s" and fresh: "is_fresh t s"
    by (auto simp: adaptive_snapshot_def opt_filter_def split: option.splits if_splits)
  have ok: "snapshot_ok s" by (rule global_sources [OF assms s])
  show "t - qs_observed_at s \<le> secs (int (qs_max_age_secs s))"
    using fresh by (auto simp: is_fresh_def Let_def secs_def split: if_splits)
  show "t < r" if "qs_reset_at s = Some r" for r
    using fresh that by (auto simp: is_fresh_def is_some_and_def split: if_splits)
  fix x assume x: "qs_remaining_fraction s = Some x"
  then show "0 \<le> x" "x \<le> 1" using ok by (simp_all add: snapshot_ok_def)
  with x fresh show "x - 1 / 2 \<le> preference t s" "preference t s \<le> x - 2 / 5" "preference t s \<le> 1 / 2"
    using preference_bonus [of x s t] by auto
qed (simp add: preference_def)

theorem adaptive_quota_evidence_witness:
  "\<forall>cd lib. let q = observe_exhausted 0 (''p'', ''a'') None ''upstream'' quota_empty;
       q' = fst (observe_headers cd lib 5 (''p'', ''a'') (\<lambda>n. Some ''7'') q)
   in quota_run cd lib q \<and> adaptive_snapshot 9 (''p'', ''a'') q' = adaptive_snapshot 9 (''p'', ''a'') q \<and>
      (\<exists>s. adaptive_snapshot 9 (''p'', ''a'') q = Some s \<and> preference 9 s \<le> - 2 / 5)"
proof (intro allI)
  fix cd lib
  let ?q = "observe_exhausted 0 (''p'', ''a'') None ''upstream'' quota_empty"
  have run: "quota_run cd lib ?q" by (intro quota_run.intros)
  let ?s = "make_snapshot 0 (Some (Finite 0)) None ''upstream'' QUOTA_DEFAULT_MAX_AGE"
  have "adaptive_snapshot 9 (''p'', ''a'') ?q = Some ?s"
    by (simp add: adaptive_snapshot_def observe_exhausted_def observe_account_global_def Let_def
        opt_filter_def is_fresh_def make_snapshot_def is_some_and_def const_defs)
  moreover have "qs_remaining_fraction ?s = Some 0" by (simp add: make_snapshot_def clampf_def)
  ultimately show "let q = ?q; q' = fst (observe_headers cd lib 5 (''p'', ''a'') (\<lambda>n. Some ''7'') q)
      in quota_run cd lib q \<and> adaptive_snapshot 9 (''p'', ''a'') q' = adaptive_snapshot 9 (''p'', ''a'') q \<and>
         (\<exists>s. adaptive_snapshot 9 (''p'', ''a'') q = Some s \<and> preference 9 s \<le> - 2 / 5)"
    using run adaptive_quota_evidence [OF run, of 9 "(''p'', ''a'')" 5 "(''p'', ''a'')" "\<lambda>n. Some ''7''"]
    by (auto simp: Let_def)
qed

text \<open>
  Countdown headers round trip: printing whole numbers of milliseconds, seconds, minutes and
  hours one after the other and parsing the text returns the sum in seconds, so \<open>m\<close> and \<open>ms\<close> are
  never confused; the empty countdown is rejected.
\<close>

theorem countdown_roundtrip:
  assumes "\<forall>(n, u) \<in> set ps. n \<le> u64_max" "countdown_secs ps < F64_OVERFLOW"
  shows "parse_reset_duration_secs (print_countdown ps) = (if ps = [] then None else Some (countdown_secs ps))"
proof -
  have plain: "to_ascii_lowercase (trim (print_countdown ps)) = print_countdown ps"
    using countdown_chars [of ps] by (simp add: trim_plain lower_plain)
  show ?thesis
  proof (cases ps)
    case Nil
    then show ?thesis unfolding parse_reset_duration_secs_def plain
      by (subst parse_parts.simps) (simp add: print_countdown_def)
  next
    case (Cons p ps')
    then show ?thesis unfolding parse_reset_duration_secs_def plain
      using parse_parts_print [OF assms(1), of 0 0] assms(2) by simp
  qed
qed

theorem countdown_roundtrip_witness:
  "parse_reset_duration_secs ''2m59s500ms'' = Some (179 + 1 / 2)"
proof -
  have "print_countdown [(2, Minutes), (59, Seconds), (500, Millis)] = ''2m59s500ms''"
    by code_simp
  moreover have "countdown_secs [(2, Minutes), (59, Seconds), (500, Millis)] = 179 + 1 / 2"
    by (simp add: countdown_secs_def)
  ultimately show ?thesis
    using countdown_roundtrip [of "[(2, Minutes), (59, Seconds), (500, Millis)]"] F64_OVERFLOW_large
    by (simp add: u64_max_def)
qed

end
