(* ===== verification/Target_Telemetry.thy ===== *)
theory Target_Telemetry
  imports Upstream_Traffic
begin

text \<open>
  Target telemetry (\<^verbatim>\<open>src/src/target_telemetry.rs\<close>): request handlers enqueue events without
  blocking, one worker folds them into minute buckets per provider, account and model and flushes
  the buckets into a table in one transaction, and summaries recombine the buckets of a window and
  read quantiles off fixed histograms.

  A struct of counters is a function from its field names; its \<^verbatim>\<open>u64\<close> counters are unbounded
  here (one event adds one, so a wrap needs 2^64 events in a bucket). The pending hash map is its
  list of entries, the table a map from the primary key to the counter columns. Whether a flush
  transaction commits is an argument of the step that runs it.
\<close>

section \<open>Definitions\<close>

definition QUEUE_CAPACITY :: nat where [const_defs]: "QUEUE_CAPACITY = 2048"
definition RETENTION_SECS :: int where [const_defs]: "RETENTION_SECS = 25 * 60 * 60"
definition HISTOGRAM_BUCKETS :: nat where [const_defs]: "HISTOGRAM_BUCKETS = 10"
definition PENDING_FLUSH_SIZE :: nat where [const_defs]: "PENDING_FLUSH_SIZE = 512"

definition TTFT_BOUNDS_MS :: "nat list" where
  "TTFT_BOUNDS_MS = [50, 100, 250, 500, 1000, 2500, 5000, 10000, 30000, 60000]"

definition DURATION_BOUNDS_MS :: "nat list" where
  "DURATION_BOUNDS_MS = [250, 500, 1000, 2500, 5000, 10000, 30000, 60000, 180000, 600000]"

datatype telemetry_outcome =
    TO_Success | TO_RateLimit | TO_QuotaExhausted | TO_ServerError | TO_ConnectionError | TO_Timeout
  | TO_AuthError | TO_TargetError | TO_BadRequest | TO_Cancelled | TO_AdaptiveSaturation
  | TO_ProviderCircuitReject

record telemetry_event =
  ev_target :: target_key
  ev_attempted :: bool
  ev_outcome :: telemetry_outcome
  ev_ttft_ms :: "nat option"
  ev_duration_ms :: "nat option"
  ev_fallback_attempt :: bool
  ev_caused_fallback :: bool
  ev_provider_circuit_open :: bool
  ev_provider_circuit_recovery :: bool
  ev_half_open_probe :: bool

definition event_attempt ::
  "target_key \<Rightarrow> telemetry_outcome \<Rightarrow> nat option \<Rightarrow> nat \<Rightarrow> bool \<Rightarrow> bool \<Rightarrow> telemetry_event" where
  "event_attempt target outcome ttft_ms duration_ms fallback_attempt caused_fallback =
     \<lparr>ev_target = target, ev_attempted = True, ev_outcome = outcome, ev_ttft_ms = ttft_ms,
      ev_duration_ms = Some duration_ms, ev_fallback_attempt = fallback_attempt,
      ev_caused_fallback = caused_fallback, ev_provider_circuit_open = False,
      ev_provider_circuit_recovery = False, ev_half_open_probe = False\<rparr>"

definition event_synthetic :: "target_key \<Rightarrow> telemetry_outcome \<Rightarrow> telemetry_event" where
  "event_synthetic target outcome =
     \<lparr>ev_target = target, ev_attempted = False, ev_outcome = outcome, ev_ttft_ms = None,
      ev_duration_ms = None, ev_fallback_attempt = False, ev_caused_fallback = False,
      ev_provider_circuit_open = False, ev_provider_circuit_recovery = False,
      ev_half_open_probe = False\<rparr>"

subsection \<open>Histograms\<close>

fun position :: "('a \<Rightarrow> bool) \<Rightarrow> 'a list \<Rightarrow> nat option" where
  "position P [] = None"
| "position P (x # xs) = (if P x then Some 0 else map_option Suc (position P xs))"

definition hist_bucket :: "nat \<Rightarrow> nat list \<Rightarrow> nat" where
  "hist_bucket v bounds = unwrap_or (position (\<lambda>b. v \<le> b) bounds) (length bounds - 1)"

fun quantile_scan :: "nat \<Rightarrow> nat \<Rightarrow> (nat \<times> nat) list \<Rightarrow> nat option" where
  "quantile_scan target seen [] = None"
| "quantile_scan target seen ((c, bound) # rest) =
     (let seen' = sat_add64 seen c
      in if seen' \<ge> target then Some bound else quantile_scan target seen' rest)"

definition quantile :: "nat list \<Rightarrow> nat list \<Rightarrow> f64 \<Rightarrow> nat option" where
  "quantile hist bounds q =
     (let total = wrap_sum64 hist
      in if total = 0 then None
         else let target = nat \<lceil>max (of_int \<lceil>of_nat total * q\<rceil>) (1 :: f64)\<rceil>
              in opt_or (quantile_scan target 0 (zip hist bounds))
                   (if bounds = [] then None else Some (last bounds)))"

subsection \<open>Aggregates\<close>

datatype counter =
    Attempts | Successes | Fallback_Failures | Rate_Limits | Quota_Exhausted | Auth_Errors
  | Target_Errors | Bad_Requests | Server_5xx | Connection_Errors | Timeouts | Cancellations
  | Fallbacks | Adaptive_Saturation | Provider_Circuit_Rejects | Provider_Circuit_Opens
  | Provider_Circuit_Recoveries | Half_Open_Probes
  | Ttft_Hist nat | Duration_Hist nat

type_synonym bucket_aggregate = "counter \<Rightarrow> nat"

definition agg_zero :: bucket_aggregate where
  "agg_zero = (\<lambda>_. 0)"

definition agg_plus :: "bucket_aggregate \<Rightarrow> bucket_aggregate \<Rightarrow> bucket_aggregate" where
  "agg_plus a b = (\<lambda>c. a c + b c)"

fun event_count :: "telemetry_event \<Rightarrow> bucket_aggregate" where
  "event_count e Attempts = of_bool (ev_attempted e)"
| "event_count e Successes = of_bool (ev_outcome e = TO_Success)"
| "event_count e Fallbacks = of_bool (ev_fallback_attempt e)"
| "event_count e Fallback_Failures = of_bool (ev_caused_fallback e)"
| "event_count e Rate_Limits = of_bool (ev_outcome e = TO_RateLimit)"
| "event_count e Quota_Exhausted = of_bool (ev_outcome e = TO_QuotaExhausted)"
| "event_count e Auth_Errors = of_bool (ev_outcome e = TO_AuthError)"
| "event_count e Target_Errors = of_bool (ev_outcome e = TO_TargetError)"
| "event_count e Bad_Requests = of_bool (ev_outcome e = TO_BadRequest)"
| "event_count e Server_5xx = of_bool (ev_outcome e = TO_ServerError)"
| "event_count e Connection_Errors = of_bool (ev_outcome e = TO_ConnectionError)"
| "event_count e Timeouts = of_bool (ev_outcome e = TO_Timeout)"
| "event_count e Cancellations = of_bool (ev_outcome e = TO_Cancelled)"
| "event_count e Adaptive_Saturation = of_bool (ev_outcome e = TO_AdaptiveSaturation)"
| "event_count e Provider_Circuit_Rejects = of_bool (ev_outcome e = TO_ProviderCircuitReject)"
| "event_count e Provider_Circuit_Opens = of_bool (ev_provider_circuit_open e)"
| "event_count e Provider_Circuit_Recoveries = of_bool (ev_provider_circuit_recovery e)"
| "event_count e Half_Open_Probes = of_bool (ev_half_open_probe e)"
| "event_count e (Ttft_Hist i) =
     of_bool (is_some_and (\<lambda>v. hist_bucket v TTFT_BOUNDS_MS = i) (ev_ttft_ms e))"
| "event_count e (Duration_Hist i) =
     of_bool (is_some_and (\<lambda>v. hist_bucket v DURATION_BOUNDS_MS = i) (ev_duration_ms e))"

definition aggregate_add :: "telemetry_event \<Rightarrow> bucket_aggregate \<Rightarrow> bucket_aggregate" where
  "aggregate_add e a = (\<lambda>c. a c + event_count e c)"

record bucket_key =
  bk_bucket_start :: int
  bk_scope :: string
  bk_provider_id :: string
  bk_account_id :: string
  bk_model_id :: string

definition dimensions :: "int \<Rightarrow> target_key \<Rightarrow> bucket_key list" where
  "dimensions start t = map (\<lambda>(scope, account, model).
       \<lparr>bk_bucket_start = start, bk_scope = scope, bk_provider_id = tk_provider_id t,
        bk_account_id = account, bk_model_id = model\<rparr>)
     [(''provider'', '''', ''''), (''account'', tk_account_id t, ''''),
      (''model'', tk_account_id t, tk_model_id t)]"

fun entry_update ::
  "'k \<Rightarrow> (bucket_aggregate \<Rightarrow> bucket_aggregate) \<Rightarrow> ('k \<times> bucket_aggregate) list
    \<Rightarrow> ('k \<times> bucket_aggregate) list" where
  "entry_update k f [] = [(k, f agg_zero)]"
| "entry_update k f ((k', a) # es) = (if k' = k then (k', f a) # es else (k', a) # entry_update k f es)"

definition bucket_start_of :: "int \<Rightarrow> int" where
  "bucket_start_of now = now - now mod 60"

definition add_event ::
  "int \<Rightarrow> telemetry_event \<Rightarrow> (bucket_key \<times> bucket_aggregate) list \<Rightarrow> (bucket_key \<times> bucket_aggregate) list" where
  "add_event now e pending =
     fold (\<lambda>k p. entry_update k (aggregate_add e) p) (dimensions (bucket_start_of now) (ev_target e)) pending"

subsection \<open>Flushing\<close>

type_synonym health_table = "bucket_key \<rightharpoonup> bucket_aggregate"

text \<open>\<^verbatim>\<open>INSERT ... ON CONFLICT DO UPDATE SET c = c + excluded.c\<close>, and the retention delete.\<close>

definition upsert_bucket :: "bucket_key \<times> bucket_aggregate \<Rightarrow> health_table \<Rightarrow> health_table" where
  "upsert_bucket e t =
     (case e of (k, a) \<Rightarrow>
        t(k \<mapsto> (case t k of None \<Rightarrow> a | Some old \<Rightarrow> agg_plus old a)))"

definition delete_older :: "int \<Rightarrow> health_table \<Rightarrow> health_table" where
  "delete_older cutoff t = (\<lambda>k. if bk_bucket_start k < cutoff then None else t k)"

record telemetry =
  tm_queue :: "telemetry_event list"
  tm_dropped_queue :: nat
  tm_dropped_persistence :: nat
  tm_pending :: "(bucket_key \<times> bucket_aggregate) list"
  tm_pending_events :: nat
  tm_table :: health_table

definition telemetry_new :: "health_table \<Rightarrow> telemetry" where
  "telemetry_new t = \<lparr>tm_queue = [], tm_dropped_queue = 0, tm_dropped_persistence = 0, tm_pending = [],
     tm_pending_events = 0, tm_table = t\<rparr>"

text \<open>\<open>flush\<close> drains the pending buckets before the transaction; a failed one leaves the table.\<close>

definition telemetry_flush :: "int \<Rightarrow> bool \<Rightarrow> telemetry \<Rightarrow> telemetry \<times> bool" where
  "telemetry_flush now commits s =
     (if tm_pending s = [] then (s, True)
      else if commits
           then (s\<lparr>tm_pending := [],
                   tm_table := delete_older (now - RETENTION_SECS)
                     (fold upsert_bucket (tm_pending s) (tm_table s))\<rparr>, True)
           else (s\<lparr>tm_pending := []\<rparr>, False))"

definition telemetry_record :: "telemetry_event \<Rightarrow> telemetry \<Rightarrow> telemetry" where
  "telemetry_record e s =
     (if length (tm_queue s) < QUEUE_CAPACITY then s\<lparr>tm_queue := tm_queue s @ [e]\<rparr>
      else s\<lparr>tm_dropped_queue := wrap_add64 (tm_dropped_queue s) 1\<rparr>)"

definition settle_flush :: "telemetry \<times> bool \<Rightarrow> telemetry" where
  "settle_flush r =
     (let (s, ok) = r;
          s' = (if ok then s
                else s\<lparr>tm_dropped_persistence := wrap_add64 (tm_dropped_persistence s) (tm_pending_events s)\<rparr>)
      in s'\<lparr>tm_pending_events := 0\<rparr>)"

text \<open>The worker takes an event, or its timer ticks.\<close>

definition worker_receive :: "int \<Rightarrow> int \<Rightarrow> bool \<Rightarrow> telemetry \<Rightarrow> telemetry" where
  "worker_receive now flush_now commits s =
     (case tm_queue s of
        [] \<Rightarrow> s
      | e # rest \<Rightarrow>
          let s1 = s\<lparr>tm_queue := rest, tm_pending := add_event now e (tm_pending s),
                     tm_pending_events := sat_add64 (tm_pending_events s) 1\<rparr>
          in if length (tm_pending s1) \<ge> PENDING_FLUSH_SIZE
             then settle_flush (telemetry_flush flush_now commits s1) else s1)"

definition worker_tick :: "int \<Rightarrow> bool \<Rightarrow> telemetry \<Rightarrow> telemetry" where
  "worker_tick now commits s =
     (if tm_pending s = [] then s else settle_flush (telemetry_flush now commits s))"

subsection \<open>Summaries\<close>

definition empty_to_none :: "string \<Rightarrow> string option" where
  "empty_to_none s = (if s = [] then None else Some s)"

record summary_key =
  sk_scope :: string
  sk_provider_id :: string
  sk_account_id :: "string option"
  sk_model_id :: "string option"

definition summary_key_of :: "bucket_key \<Rightarrow> summary_key" where
  "summary_key_of k = \<lparr>sk_scope = bk_scope k, sk_provider_id = bk_provider_id k,
     sk_account_id = empty_to_none (bk_account_id k), sk_model_id = empty_to_none (bk_model_id k)\<rparr>"

record telemetry_summary =
  sm_key :: summary_key
  sm_window_secs :: int
  sm_counts :: bucket_aggregate
  sm_success_rate :: "f64 option"
  sm_ttft_p50_ms :: "nat option"
  sm_ttft_p95_ms :: "nat option"
  sm_ttft_p99_ms :: "nat option"
  sm_duration_p50_ms :: "nat option"
  sm_duration_p95_ms :: "nat option"
  sm_duration_p99_ms :: "nat option"

definition hist_of :: "(nat \<Rightarrow> counter) \<Rightarrow> bucket_aggregate \<Rightarrow> nat list" where
  "hist_of cell a = map (\<lambda>i. a (cell i)) [0..<HISTOGRAM_BUCKETS]"

definition from_aggregate :: "summary_key \<Rightarrow> bucket_aggregate \<Rightarrow> int \<Rightarrow> telemetry_summary" where
  "from_aggregate k a window_secs =
     \<lparr>sm_key = k, sm_window_secs = window_secs, sm_counts = a,
      sm_success_rate = (let reliability_attempts = a Attempts - a Cancellations
        in if reliability_attempts > 0
           then Some (of_nat (a Successes) / of_nat reliability_attempts) else None),
      sm_ttft_p50_ms = quantile (hist_of Ttft_Hist a) TTFT_BOUNDS_MS (50 / 100),
      sm_ttft_p95_ms = quantile (hist_of Ttft_Hist a) TTFT_BOUNDS_MS (95 / 100),
      sm_ttft_p99_ms = quantile (hist_of Ttft_Hist a) TTFT_BOUNDS_MS (99 / 100),
      sm_duration_p50_ms = quantile (hist_of Duration_Hist a) DURATION_BOUNDS_MS (50 / 100),
      sm_duration_p95_ms = quantile (hist_of Duration_Hist a) DURATION_BOUNDS_MS (95 / 100),
      sm_duration_p99_ms = quantile (hist_of Duration_Hist a) DURATION_BOUNDS_MS (99 / 100)\<rparr>"

text \<open>
  The rows of the window in the query's order are an argument; the summaries come out in the order
  in which the rows first name their keys, which is the order of the query.
\<close>

definition combine_rows ::
  "(bucket_key \<times> bucket_aggregate) list \<Rightarrow> (summary_key \<times> bucket_aggregate) list" where
  "combine_rows rows = fold (\<lambda>(k, a) acc. entry_update (summary_key_of k) (\<lambda>old. agg_plus old a) acc) rows []"

definition summaries :: "(bucket_key \<times> bucket_aggregate) list \<Rightarrow> int \<Rightarrow> int \<Rightarrow> telemetry_summary list" where
  "summaries table_rows now window_secs =
     (let cutoff = now - max window_secs 1;
          rows = filter (\<lambda>(k, a). bk_bucket_start k \<ge> cutoff) table_rows
      in map (\<lambda>(k, a). from_aggregate k a window_secs) (combine_rows rows))"

section \<open>Specification of the buckets\<close>

definition entries_at :: "'k \<Rightarrow> ('k \<times> bucket_aggregate) list \<Rightarrow> bucket_aggregate" where
  "entries_at k es = unwrap_or (map_of es k) agg_zero"

definition table_at :: "bucket_key \<Rightarrow> health_table \<Rightarrow> bucket_aggregate" where
  "table_at k t = unwrap_or (t k) agg_zero"

text \<open>What a list of timed events contributes to a bucket.\<close>

definition contributes :: "bucket_key \<Rightarrow> int \<times> telemetry_event \<Rightarrow> bool" where
  "contributes k te = (k \<in> set (dimensions (bucket_start_of (fst te)) (ev_target (snd te))))"

definition count_events :: "bucket_key \<Rightarrow> (int \<times> telemetry_event) list \<Rightarrow> counter \<Rightarrow> nat" where
  "count_events k evs c = sum_list (map (\<lambda>te. event_count (snd te) c) (filter (contributes k) evs))"

lemma count_events_simps [simp]:
  "count_events k [] c = 0"
  "count_events k (xs @ ys) c = count_events k xs c + count_events k ys c"
  "count_events k [te] c = (if contributes k te then event_count (snd te) c else 0)"
  by (simp_all add: count_events_def)

lemma entries_at_Nil [simp]: "entries_at k [] = agg_zero"
  by (simp add: entries_at_def unwrap_or_def)

lemma entries_at_update:
  "entries_at k' (entry_update k f es) = (if k' = k then f (entries_at k es) else entries_at k' es)"
  by (induction es) (auto simp: entries_at_def unwrap_or_def)

lemma keys_update:
  "map fst (entry_update k f es) = (if k \<in> fst ` set es then map fst es else map fst es @ [k])"
  by (induction es) (auto simp: image_iff, force)

lemma distinct_keys_update: "distinct (map fst es) \<Longrightarrow> distinct (map fst (entry_update k f es))"
  by (simp add: keys_update)

lemma entry_update_nonempty: "entry_update k f es \<noteq> []"
  by (cases es) (auto split: if_splits)

lemma fold_entry_update:
  "distinct ks \<Longrightarrow>
   entries_at k (fold (\<lambda>k p. entry_update k f p) ks es) =
     (if k \<in> set ks then f (entries_at k es) else entries_at k es)"
  by (induction ks arbitrary: es) (auto simp: entries_at_update)

lemma fold_entry_distinct:
  "distinct (map fst es) \<Longrightarrow> distinct (map fst (fold (\<lambda>k p. entry_update k f p) ks es))"
  by (induction ks arbitrary: es) (auto simp: distinct_keys_update)

lemma dimensions_distinct: "distinct (dimensions start t)"
  by (simp add: dimensions_def)

lemma add_event_at:
  "entries_at k (add_event now e p) c = entries_at k p c + count_events k [(now, e)] c"
  by (simp add: add_event_def fold_entry_update dimensions_distinct aggregate_add_def contributes_def)

lemma add_event_distinct: "distinct (map fst p) \<Longrightarrow> distinct (map fst (add_event now e p))"
  by (simp add: add_event_def fold_entry_distinct)

lemma add_event_nonempty: "add_event now e p \<noteq> []"
  by (simp add: add_event_def dimensions_def entry_update_nonempty)

lemma fold_upsert_at:
  "distinct (map fst es) \<Longrightarrow>
   table_at k (fold upsert_bucket es t) = agg_plus (table_at k t) (entries_at k es)"
proof (induction es arbitrary: t)
  case Nil
  then show ?case by (simp add: agg_plus_def agg_zero_def)
next
  case (Cons e es)
  obtain k' a where e: "e = (k', a)" by (cases e)
  have up: "table_at k (upsert_bucket e t) = (if k = k' then agg_plus (table_at k t) a else table_at k t)"
    by (auto simp: table_at_def upsert_bucket_def e unwrap_or_def agg_plus_def agg_zero_def split: option.split)
  have "entries_at k' es = agg_zero"
    using Cons.prems by (auto simp: e entries_at_def unwrap_or_def map_of_eq_None_iff split: option.split)
      (metis image_eqI fst_conv map_of_SomeD)
  then show ?case
    using Cons up by (auto simp: e entries_at_def unwrap_or_def agg_plus_def agg_zero_def fun_eq_iff)
qed

lemma table_at_delete: "cutoff \<le> bk_bucket_start k \<Longrightarrow> table_at k (delete_older cutoff t) = table_at k t"
  by (simp add: table_at_def delete_older_def)

section \<open>Runs\<close>

text \<open>
  A run of the recorder and its worker, with the number of recorded events and the histories of the
  events that are pending, persisted and lost, and the times of the committed flushes.
\<close>

inductive telemetry_run ::
  "telemetry \<Rightarrow> nat \<Rightarrow> (int \<times> telemetry_event) list \<Rightarrow> (int \<times> telemetry_event) list
    \<Rightarrow> (int \<times> telemetry_event) list \<Rightarrow> int list \<Rightarrow> bool" where
  run_start: "telemetry_run (telemetry_new Map.empty) 0 [] [] [] []"
| run_record: "telemetry_run s n pend pers lost hs \<Longrightarrow>
    telemetry_run (telemetry_record e s) (Suc n) pend pers lost hs"
| run_collect: "telemetry_run s n pend pers lost hs \<Longrightarrow> tm_queue s = e # rest \<Longrightarrow>
    tm_pending (worker_receive now fnow ok s) \<noteq> [] \<Longrightarrow>
    telemetry_run (worker_receive now fnow ok s) n (pend @ [(now, e)]) pers lost hs"
| run_collect_flush: "telemetry_run s n pend pers lost hs \<Longrightarrow> tm_queue s = e # rest \<Longrightarrow>
    tm_pending (worker_receive now fnow ok s) = [] \<Longrightarrow>
    telemetry_run (worker_receive now fnow ok s) n []
      (if ok then pers @ pend @ [(now, e)] else pers) (if ok then lost else lost @ pend @ [(now, e)])
      (if ok then fnow # hs else hs)"
| run_tick: "telemetry_run s n pend pers lost hs \<Longrightarrow>
    telemetry_run (worker_tick now ok s) n [] (if ok then pers @ pend else pers)
      (if ok then lost else lost @ pend) (if ok then now # hs else hs)"

definition buckets_inv ::
  "telemetry \<Rightarrow> (int \<times> telemetry_event) list \<Rightarrow> (int \<times> telemetry_event) list \<Rightarrow> int list \<Rightarrow> bool" where
  "buckets_inv s pend pers hs \<longleftrightarrow> distinct (map fst (tm_pending s)) \<and>
     (tm_pending s = [] \<longrightarrow> pend = []) \<and>
     (\<forall>k c. entries_at k (tm_pending s) c = count_events k pend c) \<and>
     (\<forall>k c. (\<forall>h \<in> set hs. h - RETENTION_SECS \<le> bk_bucket_start k) \<longrightarrow>
        table_at k (tm_table s) c = count_events k pers c)"

definition totals_inv ::
  "telemetry \<Rightarrow> nat \<Rightarrow> (int \<times> telemetry_event) list \<Rightarrow> (int \<times> telemetry_event) list
    \<Rightarrow> (int \<times> telemetry_event) list \<Rightarrow> bool" where
  "totals_inv s n pend pers lost \<longleftrightarrow> length (tm_queue s) \<le> QUEUE_CAPACITY \<and>
     (n \<le> u64_max \<longrightarrow> tm_pending_events s = length pend \<and> tm_dropped_persistence s = length lost \<and>
        n = length (tm_queue s) + tm_dropped_queue s + length pend + length pers + length lost)"

text \<open>A flush that runs moves the pending events to the table or loses them, as a whole.\<close>

lemma flush_buckets:
  assumes "buckets_inv s pend pers hs" "tm_pending s \<noteq> []"
  shows "buckets_inv (settle_flush (telemetry_flush now ok s)) []
    (if ok then pers @ pend else pers) (if ok then now # hs else hs)"
proof (cases ok)
  case True
  let ?t = "fold upsert_bucket (tm_pending s) (tm_table s)"
  have "table_at k ?t c = count_events k (pers @ pend) c"
    if "\<forall>h \<in> set hs. h - RETENTION_SECS \<le> bk_bucket_start k" for k c
    using assms(1) that by (simp add: buckets_inv_def fold_upsert_at agg_plus_def)
  then show ?thesis
    using assms True
    by (simp add: buckets_inv_def settle_flush_def telemetry_flush_def Let_def table_at_delete agg_zero_def)
next
  case False
  then show ?thesis
    using assms by (simp add: buckets_inv_def settle_flush_def telemetry_flush_def Let_def agg_zero_def)
qed

lemma flush_totals:
  assumes "totals_inv s n pend pers lost" "tm_pending s \<noteq> []"
  shows "totals_inv (settle_flush (telemetry_flush now ok s)) n []
    (if ok then pers @ pend else pers) (if ok then lost else lost @ pend)"
  using assms
  by (auto simp: totals_inv_def settle_flush_def telemetry_flush_def Let_def wrap_add64_exact)

lemma record_inv:
  assumes "totals_inv s n pend pers lost"
  shows "totals_inv (telemetry_record e s) (Suc n) pend pers lost"
proof -
  have "wrap_add64 (tm_dropped_queue s) 1 = Suc (tm_dropped_queue s)" if "Suc n \<le> u64_max"
    using assms that by (intro trans [OF wrap_add64_exact]) (auto simp: totals_inv_def)
  then show ?thesis using assms by (auto simp: totals_inv_def telemetry_record_def)
qed

definition take_event :: "int \<Rightarrow> telemetry_event \<Rightarrow> telemetry_event list \<Rightarrow> telemetry \<Rightarrow> telemetry" where
  "take_event now e rest s = s\<lparr>tm_queue := rest, tm_pending := add_event now e (tm_pending s),
     tm_pending_events := sat_add64 (tm_pending_events s) 1\<rparr>"

lemma worker_receive_cases:
  assumes "tm_queue s = e # rest"
  shows "worker_receive now fnow ok s = take_event now e rest s \<or>
    worker_receive now fnow ok s = settle_flush (telemetry_flush fnow ok (take_event now e rest s))"
  using assms by (simp add: worker_receive_def take_event_def Let_def)

lemma flush_empties: "tm_pending (settle_flush (telemetry_flush now ok s)) = []"
  by (simp add: settle_flush_def telemetry_flush_def Let_def)

lemma take_event_inv:
  assumes "buckets_inv s pend pers hs" "totals_inv s n pend pers lost" "tm_queue s = e # rest"
  shows "buckets_inv (take_event now e rest s) (pend @ [(now, e)]) pers hs"
    and "totals_inv (take_event now e rest s) n (pend @ [(now, e)]) pers lost"
    and "tm_pending (take_event now e rest s) \<noteq> []"
  using assms
  by (auto simp: buckets_inv_def totals_inv_def take_event_def add_event_at add_event_distinct
      add_event_nonempty sat_add64_def)

lemma telemetry_run_inv:
  "telemetry_run s n pend pers lost hs \<Longrightarrow> buckets_inv s pend pers hs \<and> totals_inv s n pend pers lost"
proof (induction rule: telemetry_run.induct)
  case run_start
  then show ?case
    by (simp add: buckets_inv_def totals_inv_def telemetry_new_def agg_zero_def table_at_def unwrap_or_def)
next
  case (run_record s n pend pers lost hs e)
  then show ?case
    using record_inv by (auto simp: buckets_inv_def telemetry_record_def)
next
  case (run_collect s n pend pers lost hs e rest now fnow ok)
  then have "worker_receive now fnow ok s = take_event now e rest s"
    using worker_receive_cases [OF run_collect(2), of now fnow ok] flush_empties by metis
  then show ?case
    using take_event_inv(1,2) [of s pend pers hs n lost e rest now] run_collect by simp
next
  case (run_collect_flush s n pend pers lost hs e rest now fnow ok)
  let ?s = "take_event now e rest s"
  have inv: "buckets_inv ?s (pend @ [(now, e)]) pers hs" "totals_inv ?s n (pend @ [(now, e)]) pers lost"
      "tm_pending ?s \<noteq> []"
    using run_collect_flush take_event_inv by auto
  then have "worker_receive now fnow ok s = settle_flush (telemetry_flush fnow ok ?s)"
    using worker_receive_cases [OF run_collect_flush(2), of now fnow ok] run_collect_flush(3) by metis
  then show ?case using flush_buckets [OF inv(1,3)] flush_totals [OF inv(2,3)] by simp
next
  case (run_tick s n pend pers lost hs now ok)
  show ?case
  proof (cases "tm_pending s = []")
    case True
    then have "pend = []" using run_tick by (simp add: buckets_inv_def)
    then show ?thesis using True run_tick by (auto simp: worker_tick_def buckets_inv_def)
  next
    case False
    then show ?thesis
      using run_tick flush_buckets flush_totals by (simp add: worker_tick_def)
  qed
qed

section \<open>Lemmas on quantiles\<close>

definition sample_hist :: "nat list \<Rightarrow> nat list \<Rightarrow> nat list" where
  "sample_hist bounds xs = map (\<lambda>i. length (filter (\<lambda>v. hist_bucket v bounds = i) xs)) [0..<length bounds]"

lemma position_bound: "position P xs = Some i \<Longrightarrow> i < length xs"
  by (induction xs arbitrary: i) (auto split: if_splits)

lemma position_mono:
  assumes "\<And>x. Q x \<Longrightarrow> P x" "position Q xs = Some j"
  shows "\<exists>i \<le> j. position P xs = Some i"
  using assms(2)
proof (induction xs arbitrary: j)
  case (Cons x xs)
  show ?case
  proof (cases "Q x")
    case True
    then show ?thesis using Cons.prems assms(1) by simp
  next
    case False
    then obtain k where "j = Suc k" "position Q xs = Some k" using Cons.prems by auto
    then show ?thesis using Cons.IH [of k] by auto
  qed
qed simp

lemma hist_bucket_bound: "bounds \<noteq> [] \<Longrightarrow> hist_bucket v bounds < length bounds"
  using position_bound [of "\<lambda>b. v \<le> b" bounds]
  by (cases "position (\<lambda>b. v \<le> b) bounds") (auto simp: hist_bucket_def unwrap_or_def)

lemma hist_bucket_mono:
  assumes "v \<le> w" "bounds \<noteq> []"
  shows "hist_bucket v bounds \<le> hist_bucket w bounds"
proof (cases "position (\<lambda>b. w \<le> b) bounds")
  case None
  then have "hist_bucket w bounds = length bounds - 1" by (simp add: hist_bucket_def unwrap_or_def)
  then show ?thesis using hist_bucket_bound [OF assms(2), of v] by simp
next
  case (Some j)
  then obtain i where "i \<le> j" "position (\<lambda>b. v \<le> b) bounds = Some i"
    using position_mono [of "\<lambda>b. w \<le> b" "\<lambda>b. v \<le> b" bounds j] assms(1) by auto
  with Some show ?thesis by (simp add: hist_bucket_def unwrap_or_def)
qed

lemma length_filter_disjoint:
  "(\<And>x. \<not> (P x \<and> Q x)) \<Longrightarrow>
   length (filter (\<lambda>x. P x \<or> Q x) xs) = length (filter P xs) + length (filter Q xs)"
  by (induction xs) auto

lemma sample_hist_prefix:
  "j \<le> length bounds \<Longrightarrow>
   sum_list (take j (sample_hist bounds xs)) = length (filter (\<lambda>v. hist_bucket v bounds < j) xs)"
proof (induction j)
  case (Suc j)
  have "length (filter (\<lambda>v. hist_bucket v bounds < Suc j) xs) =
      length (filter (\<lambda>v. hist_bucket v bounds < j \<or> hist_bucket v bounds = j) xs)"
    by (simp add: less_Suc_eq)
  also have "\<dots> = length (filter (\<lambda>v. hist_bucket v bounds < j) xs) +
      length (filter (\<lambda>v. hist_bucket v bounds = j) xs)"
    by (rule length_filter_disjoint) auto
  finally show ?case
    using Suc by (simp add: take_Suc_conv_app_nth sample_hist_def)
qed simp

lemma sample_hist_total: "bounds \<noteq> [] \<Longrightarrow> sum_list (sample_hist bounds xs) = length xs"
  using sample_hist_prefix [of "length bounds" bounds xs] hist_bucket_bound [of bounds]
  by (simp add: sample_hist_def)

lemma quantile_scan_first:
  assumes "length h = length b" "seen + sum_list h \<le> u64_max" "j < length h"
    and "t \<le> seen + sum_list (take (Suc j) h)"
    and "\<And>i. i < j \<Longrightarrow> seen + sum_list (take (Suc i) h) < t"
  shows "quantile_scan t seen (zip h b) = Some (b ! j)"
  using assms
proof (induction h arbitrary: b seen j)
  case (Cons c h)
  obtain d b' where b: "b = d # b'" using Cons.prems(1) by (cases b) auto
  have sat: "sat_add64 seen c = seen + c" using Cons.prems(2) by (intro sat_add64_exact) simp
  show ?case
  proof (cases j)
    case 0
    then show ?thesis using Cons.prems(4) sat b by (simp add: Let_def)
  next
    case (Suc k)
    have "seen + c < t" using Cons.prems(5) [of 0] Suc by simp
    moreover have "quantile_scan t (seen + c) (zip h b') = Some (b' ! k)"
    proof (rule Cons.IH)
      show "seen + c + sum_list (take (Suc i) h) < t" if "i < k" for i
        using Cons.prems(5) [of "Suc i"] that Suc by (simp add: add.assoc)
    qed (use Cons.prems Suc b in \<open>auto simp: add.assoc\<close>)
    ultimately show ?thesis using sat b Suc by (simp add: Let_def)
  qed
qed simp

text \<open>Counting below an order statistic.\<close>

lemma order_statistic_counts:
  assumes "k < length xs" "\<And>v w. v \<le> w \<Longrightarrow> (f :: nat \<Rightarrow> nat) v \<le> f w"
  defines "v \<equiv> sort xs ! k"
  shows "Suc k \<le> length (filter (\<lambda>w. f w \<le> f v) xs)"
    and "i < f v \<Longrightarrow> length (filter (\<lambda>w. f w \<le> i) xs) \<le> k"
proof -
  let ?ys = "sort xs"
  have len: "length (filter P xs) = length (filter P ?ys)" for P
    by (metis filter_sort length_sort)
  have le: "w \<le> v" if "w \<in> set (take (Suc k) ?ys)" for w
  proof -
    obtain a where "a < Suc k" "a < length ?ys" "w = ?ys ! a"
      using \<open>w \<in> set (take (Suc k) ?ys)\<close> by (auto simp: in_set_conv_nth)
    then have "?ys ! a \<le> ?ys ! k" using assms(1) by (intro sorted_nth_mono) auto
    then show ?thesis unfolding v_def using \<open>w = ?ys ! a\<close> by simp
  qed
  have ge: "v \<le> w" if "w \<in> set (drop k ?ys)" for w
  proof -
    obtain a where "a < length ?ys - k" "w = ?ys ! (k + a)"
      using \<open>w \<in> set (drop k ?ys)\<close> assms(1) by (auto simp: in_set_conv_nth)
    then have "?ys ! k \<le> ?ys ! (k + a)" by (intro sorted_nth_mono) auto
    then show ?thesis unfolding v_def using \<open>w = ?ys ! (k + a)\<close> by simp
  qed
  have "filter (\<lambda>w. f w \<le> f v) (take (Suc k) ?ys) = take (Suc k) ?ys"
    using le assms(2) by (auto simp: filter_id_conv)
  then have "Suc k \<le> length (filter (\<lambda>w. f w \<le> f v) (take (Suc k) ?ys))" using assms(1) by simp
  also have "\<dots> \<le> length (filter (\<lambda>w. f w \<le> f v) (take (Suc k) ?ys @ drop (Suc k) ?ys))"
    by (simp only: filter_append length_append)
  finally show "Suc k \<le> length (filter (\<lambda>w. f w \<le> f v) xs)" by (simp add: len)
  show "length (filter (\<lambda>w. f w \<le> i) xs) \<le> k" if i: "i < f v"
  proof -
    have "filter (\<lambda>w. f w \<le> i) (drop k ?ys) = []"
      using ge assms(2) i by (fastforce simp: filter_empty_conv)
    then have "filter (\<lambda>w. f w \<le> i) ?ys = filter (\<lambda>w. f w \<le> i) (take k ?ys)"
      by (metis append_Nil2 append_take_drop_id filter_append)
    then have "length (filter (\<lambda>w. f w \<le> i) ?ys) \<le> length (take k ?ys)"
      by (simp only:) (rule length_filter_le)
    then show ?thesis by (simp add: len)
  qed
qed

section \<open>Properties\<close>

text \<open>
  C22. No telemetry event is lost silently or counted twice: in every run, the recorded events are
  those in the bounded queue, pending, persisted, or counted by one of the two drop counters; and
  every bucket of the table that retention has not removed holds exactly the counts and histograms
  of the persisted events of its minute and dimension.
\<close>

theorem telemetry_conserves_events:
  assumes "telemetry_run s n pend pers lost hs" "n \<le> u64_max"
  shows "n = length (tm_queue s) + tm_dropped_queue s + tm_dropped_persistence s + tm_pending_events s
      + length pers \<and> length (tm_queue s) \<le> QUEUE_CAPACITY \<and>
    ((\<forall>h \<in> set hs. h - RETENTION_SECS \<le> bk_bucket_start k) \<longrightarrow>
      table_at k (tm_table s) c = count_events k pers c)"
  using telemetry_run_inv [OF assms(1)] assms(2) by (auto simp: totals_inv_def buckets_inv_def)

theorem telemetry_conserves_events_witness:
  "let e = event_attempt \<lparr>tk_provider_id = ''p'', tk_account_id = ''a'', tk_model_id = ''m''\<rparr> TO_Success
             (Some 80) 900 False False;
       s = worker_tick 70 True (worker_receive 65 65 True
             (telemetry_record e (telemetry_new Map.empty)))
   in telemetry_run s 1 [] [(65, e)] [] [70] \<and>
      table_at \<lparr>bk_bucket_start = 60, bk_scope = ''account'', bk_provider_id = ''p'', bk_account_id = ''a'',
        bk_model_id = ''''\<rparr> (tm_table s) (Ttft_Hist 1) = 1"
proof -
  let ?t = "\<lparr>tk_provider_id = ''p'', tk_account_id = ''a'', tk_model_id = ''m''\<rparr>"
  let ?e = "event_attempt ?t TO_Success (Some 80) 900 False False"
  let ?s1 = "telemetry_record ?e (telemetry_new Map.empty)"
  let ?s2 = "worker_receive 65 65 True ?s1"
  let ?k = "\<lparr>bk_bucket_start = 60, bk_scope = ''account'', bk_provider_id = ''p'', bk_account_id = ''a'',
    bk_model_id = ''''\<rparr>"
  have q: "tm_queue ?s1 = [?e]" by (simp add: telemetry_record_def telemetry_new_def QUEUE_CAPACITY_def)
  have "tm_pending ?s2 = add_event 65 ?e []"
    by (simp add: worker_receive_def telemetry_record_def telemetry_new_def const_defs Let_def
        add_event_def dimensions_def)
  then have "telemetry_run ?s2 1 [(65, ?e)] [] [] []"
    using run_collect [OF run_record [OF run_start] q, of 65 65 True] add_event_nonempty by simp
  then have run: "telemetry_run (worker_tick 70 True ?s2) 1 [] [(65, ?e)] [] [70]"
    using run_tick [of ?s2 1 "[(65, ?e)]" "[]" "[]" "[]" 70 True] by simp
  have "count_events ?k [(65, ?e)] (Ttft_Hist 1) = 1"
    by (simp add: contributes_def dimensions_def bucket_start_of_def event_attempt_def is_some_and_def
        hist_bucket_def TTFT_BOUNDS_MS_def unwrap_or_def)
  then show ?thesis
    using run telemetry_conserves_events [OF run, of ?k "Ttft_Hist 1"]
    by (simp add: Let_def u64_max_def RETENTION_SECS_def)
qed

text \<open>
  The reported percentile is the true one, rounded up to its histogram bucket: for any samples,
  \<^verbatim>\<open>quantile\<close> on their histogram returns the bound of the bucket that holds the sample of rank
  \<open>\<lceil>q n\<rceil>\<close> in sorted order.
\<close>

theorem quantile_is_order_statistic:
  assumes "xs \<noteq> []" "bounds \<noteq> []" "length xs \<le> u64_max" "0 < q" "q \<le> 1"
  shows "quantile (sample_hist bounds xs) bounds q =
    Some (bounds ! hist_bucket (sort xs ! (nat \<lceil>of_nat (length xs) * q\<rceil> - 1)) bounds)"
proof -
  let ?n = "length xs" and ?h = "sample_hist bounds xs"
  define t where "t = nat \<lceil>of_nat ?n * q\<rceil>"
  have n: "0 < ?n" using assms(1) by simp
  have pos: "0 < \<lceil>of_nat ?n * q\<rceil>" using n assms(4) by simp
  have "of_nat ?n * q \<le> of_nat ?n" using assms(5) by (simp add: mult_left_le)
  then have "\<lceil>of_nat ?n * q\<rceil> \<le> int ?n" by (simp add: ceiling_le_iff)
  then have t: "1 \<le> t" "t \<le> ?n" using pos unfolding t_def by linarith+
  have tgt: "nat \<lceil>max (of_int \<lceil>of_nat ?n * q\<rceil>) (1 :: real)\<rceil> = t"
  proof -
    have "(1 :: real) \<le> of_int \<lceil>of_nat ?n * q\<rceil>" using pos by linarith
    then show ?thesis unfolding t_def by (simp only: max_absorb1 ceiling_of_int)
  qed
  have total: "wrap_sum64 ?h = ?n"
    using assms(2,3) by (simp add: wrap_sum64_exact sample_hist_total)
  define v where "v = sort xs ! (t - 1)"
  define j where "j = hist_bucket v bounds"
  have j: "j < length bounds" unfolding j_def by (rule hist_bucket_bound [OF assms(2)])
  have prefix: "sum_list (take (Suc i) ?h) = length (filter (\<lambda>w. hist_bucket w bounds \<le> i) xs)"
    if "i < length bounds" for i
    using sample_hist_prefix [of "Suc i" bounds xs] that by (simp add: less_Suc_eq_le)
  have mono: "hist_bucket a bounds \<le> hist_bucket b bounds" if "a \<le> b" for a b
    using that by (rule hist_bucket_mono [OF _ assms(2)])
  note stat = order_statistic_counts [of "t - 1" xs "\<lambda>v. hist_bucket v bounds", folded v_def j_def]
  have "quantile_scan t 0 (zip ?h bounds) = Some (bounds ! j)"
  proof (rule quantile_scan_first)
    show "0 + sum_list ?h \<le> u64_max" using assms(2,3) by (simp add: sample_hist_total)
    show "j < length ?h" using j by (simp add: sample_hist_def)
    show "t \<le> 0 + sum_list (take (Suc j) ?h)" using stat(1) t mono prefix [OF j] by simp
    show "0 + sum_list (take (Suc i) ?h) < t" if "i < j" for i
    proof -
      have "t - 1 < length xs" using t by linarith
      then have "length (filter (\<lambda>w. hist_bucket w bounds \<le> i) xs) \<le> t - 1"
        using stat(2) mono that by blast
      then show ?thesis using t prefix [of i] that j by linarith
    qed
  qed (simp add: sample_hist_def)
  then show ?thesis
    using n tgt by (simp add: quantile_def Let_def total opt_or_def v_def j_def t_def)
qed

theorem quantile_is_order_statistic_witness:
  "quantile (sample_hist TTFT_BOUNDS_MS [300, 20, 700]) TTFT_BOUNDS_MS (1 / 2) = Some 500"
proof -
  have "nat \<lceil>of_nat (length [300 :: nat, 20, 700]) * (1 / 2 :: real)\<rceil> - 1 = 1"
    by (simp add: ceiling_divide_eq_div_numeral)
  moreover have "sort [300 :: nat, 20, 700] ! 1 = 300" by simp
  moreover have "hist_bucket 300 TTFT_BOUNDS_MS = 3"
    by (simp add: hist_bucket_def TTFT_BOUNDS_MS_def unwrap_or_def)
  moreover have "TTFT_BOUNDS_MS ! 3 = 500" "TTFT_BOUNDS_MS \<noteq> []" by (simp_all add: TTFT_BOUNDS_MS_def)
  moreover have "length [300 :: nat, 20, 700] \<le> u64_max" by (simp add: u64_max_def)
  ultimately show ?thesis
    using quantile_is_order_statistic [of "[300, 20, 700]" TTFT_BOUNDS_MS "1 / 2"]
    by (simp only:) simp
qed

end
