(* ===== verification/Route_Policy.thy ===== *)
theory Route_Policy
  imports Registry Account_Pool Quota Target_Telemetry
begin

text \<open>
  Policy functions of the request pipeline (\<^verbatim>\<open>src/src/pipeline.rs\<close>): classification of upstream
  failures by the provider's rules, which failures a route may fall back on, the outcome reported
  to traffic control and telemetry, the error shown to the client, parameter overrides of a route
  target, and the handling of provider continuation state when a conversation moves to a target
  that cannot carry it. Parsing and printing JSON is the \<open>codec\<close>'s.
\<close>

section \<open>Definitions\<close>

subsection \<open>JSON helpers\<close>

text \<open>
  \<^verbatim>\<open>Map::insert\<close> keeps the position of an existing key; \<^verbatim>\<open>Map::remove\<close> puts the last
  entry in the place of the removed one; \<^verbatim>\<open>Value::pointer\<close> on a path of object keys.
\<close>

fun obj_insert :: "string \<Rightarrow> json \<Rightarrow> (string \<times> json) list \<Rightarrow> (string \<times> json) list" where
  "obj_insert k v [] = [(k, v)]"
| "obj_insert k v ((k', v') # fs) = (if k' = k then (k, v) # fs else (k', v') # obj_insert k v fs)"

definition obj_remove :: "string \<Rightarrow> (string \<times> json) list \<Rightarrow> (string \<times> json) list" where
  "obj_remove k fs =
     (case position (\<lambda>f. fst f = k) fs of
        None \<Rightarrow> fs
      | Some i \<Rightarrow> if i = length fs - 1 then butlast fs else (butlast fs)[i := last fs])"

fun json_path :: "string list \<Rightarrow> json \<Rightarrow> json option" where
  "json_path [] v = Some v"
| "json_path (k # ks) v = (case json_get v k of None \<Rightarrow> None | Some w \<Rightarrow> json_path ks w)"

fun json_as_i64 :: "json \<Rightarrow> int option" where
  "json_as_i64 (JNumber (PosInt n)) = (if int n \<le> I64_MAX then Some (int n) else None)"
| "json_as_i64 (JNumber (NegInt i)) = Some i"
| "json_as_i64 _ = None"

subsection \<open>Phases\<close>

definition STICKY_TTL :: nanos where [const_defs]: "STICKY_TTL = secs 1800"
definition MAX_PRE_COMMIT_DEADLINE :: nanos where [const_defs]: "MAX_PRE_COMMIT_DEADLINE = secs 30"

definition provider_phase_timeout :: "provider_row \<Rightarrow> nanos" where
  "provider_phase_timeout p = max (pv_timeout_ms p) 1 * 1000000"

definition timeout_failure :: "string \<Rightarrow> upstream_failure" where
  "timeout_failure message = \<lparr>uf_kind = Timeout, uf_status = None, uf_retry_after_secs = None,
     uf_message = message, uf_quota_reset_at = None\<rparr>"

definition phase_budget :: "nanos \<Rightarrow> nanos \<Rightarrow> nanos \<Rightarrow> (nanos \<times> nanos) option" where
  "phase_budget now deadline provider_timeout =
     (let remaining = sat_since deadline now
      in if remaining = 0 then None
         else let budget = min remaining provider_timeout in Some (now + budget, budget))"

definition cache_status_from_usage :: "token_usage \<Rightarrow> string" where
  "cache_status_from_usage u =
     (if unwrap_or (tu_cached u) 0 > 0 then ''hit''
      else if unwrap_or (tu_cache_write u) 0 > 0 then ''miss'' else ''bypass'')"

fun is_semantic_event :: "stream_event \<Rightarrow> bool" where
  "is_semantic_event (Start _) = False"
| "is_semantic_event (Usage _) = False"
| "is_semantic_event _ = True"

fun is_finish :: "stream_event \<Rightarrow> bool" where
  "is_finish (stream_event.Finish _) = True"
| "is_finish _ = False"

definition payload_is_terminal :: "codec \<Rightarrow> string \<Rightarrow> stream_event list \<Rightarrow> bool" where
  "payload_is_terminal cd data events =
     (if trim data = ''[DONE]'' then True
      else if list_ex is_finish events then True
      else case de_value cd data of
             None \<Rightarrow> False
           | Some v \<Rightarrow> (case json_get v ''type'' of None \<Rightarrow> False | Some t \<Rightarrow> as_str t = Some ''message_stop''))"

subsection \<open>Keys of a target\<close>

definition pipeline_target_key :: "route_row \<Rightarrow> resolved_target \<Rightarrow> string" where
  "pipeline_target_key r t = rt_id r @ ''|'' @ ac_id (rs_account t) @ ''|'' @ md_id (rs_model t)"

definition traffic_key :: "resolved_target \<Rightarrow> target_key" where
  "traffic_key t = \<lparr>tk_provider_id = pv_id (rs_provider t), tk_account_id = ac_id (rs_account t),
     tk_model_id = md_id (rs_model t)\<rparr>"

definition provider_correlation_target_id :: "resolved_target \<Rightarrow> string" where
  "provider_correlation_target_id t = md_id (rs_model t)"

subsection \<open>Failure classification\<close>

fun traffic_outcome_for_failure :: "failure_kind \<Rightarrow> traffic_outcome" where
  "traffic_outcome_for_failure RateLimit = T_Overload"
| "traffic_outcome_for_failure Timeout = T_Timeout"
| "traffic_outcome_for_failure ServerError = T_Error"
| "traffic_outcome_for_failure ConnectionError = T_Error"
| "traffic_outcome_for_failure QuotaExhausted = T_Neutral"
| "traffic_outcome_for_failure AuthError = T_Neutral"
| "traffic_outcome_for_failure TargetError = T_Neutral"
| "traffic_outcome_for_failure BadRequest = T_Neutral"

fun telemetry_outcome_for_failure :: "failure_kind \<Rightarrow> telemetry_outcome" where
  "telemetry_outcome_for_failure RateLimit = TO_RateLimit"
| "telemetry_outcome_for_failure QuotaExhausted = TO_QuotaExhausted"
| "telemetry_outcome_for_failure ServerError = TO_ServerError"
| "telemetry_outcome_for_failure ConnectionError = TO_ConnectionError"
| "telemetry_outcome_for_failure Timeout = TO_Timeout"
| "telemetry_outcome_for_failure AuthError = TO_AuthError"
| "telemetry_outcome_for_failure TargetError = TO_TargetError"
| "telemetry_outcome_for_failure BadRequest = TO_BadRequest"

definition trigger_enabled :: "json \<Rightarrow> string \<Rightarrow> bool" where
  "trigger_enabled triggers name =
     (case json_get triggers name of None \<Rightarrow> True | Some v \<Rightarrow> unwrap_or (as_bool v) True)"

definition route_allows_fallback :: "codec \<Rightarrow> route_row option \<Rightarrow> failure_kind \<Rightarrow> bool" where
  "route_allows_fallback cd route kind =
     (if \<not> is_retryable kind then False
      else case route of
             None \<Rightarrow> kind \<noteq> TargetError
           | Some r \<Rightarrow>
               let triggers = unwrap_or (de_value cd (rt_fallback_triggers r)) (JObject [])
               in case kind of
                    RateLimit \<Rightarrow> trigger_enabled triggers ''on429''
                  | QuotaExhausted \<Rightarrow> trigger_enabled triggers ''onQuota''
                  | ServerError \<Rightarrow> trigger_enabled triggers ''on5xx''
                  | ConnectionError \<Rightarrow> trigger_enabled triggers ''on5xx''
                  | Timeout \<Rightarrow> trigger_enabled triggers ''onTimeout''
                  | AuthError \<Rightarrow> True
                  | TargetError \<Rightarrow> True
                  | BadRequest \<Rightarrow> False)"

definition obj_array :: "(string \<times> json) list \<Rightarrow> string \<Rightarrow> json list option" where
  "obj_array obj k = (case map_of obj k of None \<Rightarrow> None | Some v \<Rightarrow> as_array v)"

text \<open>A selector of a rule: \<open>None\<close> when it is absent, else whether it accepts.\<close>

definition rule_selectors :: "(string \<times> json) list \<Rightarrow> nat \<Rightarrow> string \<Rightarrow> string \<Rightarrow> bool option list" where
  "rule_selectors obj status code message =
     [map_option (list_ex (\<lambda>v. as_u64 v = Some status)) (obj_array obj ''statuses''),
      map_option (\<lambda>single. single = status)
        (case map_of obj ''status'' of None \<Rightarrow> None | Some v \<Rightarrow> as_u64 v),
      map_option (\<lambda>codes. list_ex (\<lambda>c. to_ascii_lowercase c = to_ascii_lowercase (to_ascii_lowercase code))
          (List.map_filter as_str codes)) (obj_array obj ''codes''),
      map_option (\<lambda>needles. list_ex (\<lambda>n. contains_str (to_ascii_lowercase message) (to_ascii_lowercase n))
          (List.map_filter as_str needles)) (obj_array obj ''message_contains'')]"

definition failure_rule_matches :: "json \<Rightarrow> nat \<Rightarrow> string \<Rightarrow> string \<Rightarrow> bool" where
  "failure_rule_matches rule status code message =
     (case as_object rule of
        None \<Rightarrow> False
      | Some obj \<Rightarrow>
          let sels = rule_selectors obj status code message
          in list_all (\<lambda>s. s \<noteq> Some False) sels \<and> list_ex (\<lambda>s. s \<noteq> None) sels)"

definition RULE_ORDER :: "(string \<times> failure_kind) list" where
  "RULE_ORDER = [(''auth'', AuthError), (''quota'', QuotaExhausted), (''rate_limit'', RateLimit),
     (''target'', TargetError), (''bad_request'', BadRequest)]"

definition error_code :: "json \<Rightarrow> string" where
  "error_code parsed =
     (case opt_or (json_path [''error'', ''code''] parsed)
             (opt_or (json_path [''error'', ''status''] parsed)
               (opt_or (json_path [''error'', ''type''] parsed)
                 (opt_or (json_get parsed ''code'') (json_get parsed ''type'')))) of
        None \<Rightarrow> [] | Some v \<Rightarrow> unwrap_or (as_str v) [])"

definition error_message :: "json \<Rightarrow> string \<Rightarrow> string" where
  "error_message parsed fallback =
     (case opt_or (json_path [''error'', ''message''] parsed) (json_get parsed ''message'') of
        None \<Rightarrow> fallback | Some v \<Rightarrow> unwrap_or (as_str v) fallback)"

definition apply_provider_failure_rules ::
  "codec \<Rightarrow> provider_row \<Rightarrow> nat \<Rightarrow> string \<Rightarrow> upstream_failure \<Rightarrow> upstream_failure" where
  "apply_provider_failure_rules cd p status body failure =
     (case as_object (unwrap_or (de_value cd (pv_rate_limit_rules p)) (JObject [])) of
        None \<Rightarrow> failure
      | Some obj \<Rightarrow>
          if obj = [] then failure
          else let parsed = unwrap_or (de_value cd body) JNull;
                   code = error_code parsed;
                   message = error_message parsed (uf_message failure)
               in case find (\<lambda>(name, kind). is_some_and (\<lambda>rule. failure_rule_matches rule status code message)
                              (map_of obj name)) RULE_ORDER of
                    None \<Rightarrow> failure
                  | Some (name, kind) \<Rightarrow> failure\<lparr>uf_kind := kind\<rparr>)"

definition apply_header_reset_to_rate_limit ::
  "nanos \<Rightarrow> upstream_failure \<Rightarrow> quota_header_observation option \<Rightarrow> upstream_failure" where
  "apply_header_reset_to_rate_limit now f quota =
     (if uf_kind f = RateLimit \<and> uf_retry_after_secs f = None
      then f\<lparr>uf_retry_after_secs := (case quota of None \<Rightarrow> None | Some obs \<Rightarrow> retry_after_secs now obs)\<rparr>
      else f)"

definition failure_to_error :: "upstream_failure \<Rightarrow> resolved_target \<Rightarrow> proxy_error" where
  "failure_to_error f t =
     (case uf_kind f of
        RateLimit \<Rightarrow> pe_rate_limited (uf_message f) (uf_retry_after_secs f)
      | QuotaExhausted \<Rightarrow> pe_rate_limited (uf_message f) (uf_retry_after_secs f)
      | BadRequest \<Rightarrow> pe_bad_request (uf_message f)
      | AuthError \<Rightarrow> pe_upstream
          (''upstream authentication failed for provider '' @ [CHR 0x27] @ pv_name (rs_provider t) @ [CHR 0x27])
      | TargetError \<Rightarrow>
          if uf_status f = Some 403 then pe_new E_Forbidden (uf_message f)
          else if uf_status f = Some 404 then pe_not_found (uf_message f)
          else pe_upstream (uf_message f)
      | Timeout \<Rightarrow> pe_upstream ''upstream request timed out''
      | ConnectionError \<Rightarrow> pe_upstream (uf_message f)
      | ServerError \<Rightarrow> pe_upstream (uf_message f))"

subsection \<open>Parameter overrides of a route target\<close>

fun stop_override :: "json \<Rightarrow> string list option" where
  "stop_override (JString v) = Some [v]"
| "stop_override (JArray vs) = Some (List.map_filter as_str vs)"
| "stop_override JNull = Some []"
| "stop_override _ = None"

definition map_params :: "(sampling_params \<Rightarrow> sampling_params) \<Rightarrow> internal_request \<Rightarrow> internal_request" where
  "map_params f req = req\<lparr>rq_params := f (rq_params req)\<rparr>"

definition apply_override :: "string \<Rightarrow> json \<Rightarrow> internal_request \<Rightarrow> proxy_error + internal_request" where
  "apply_override k v req =
     (if k = ''temperature'' then Inr (map_params (\<lambda>p. p\<lparr>sp_temperature := json_as_f64 v\<rparr>) req)
      else if k = ''top_p'' then Inr (map_params (\<lambda>p. p\<lparr>sp_top_p := json_as_f64 v\<rparr>) req)
      else if k = ''top_k'' then Inr (map_params (\<lambda>p. p\<lparr>sp_top_k := json_as_f64 v\<rparr>) req)
      else if k \<in> {''max_tokens'', ''max_completion_tokens'', ''max_output_tokens''}
      then Inr (map_params (\<lambda>p. p\<lparr>sp_max_tokens := opt_filter (\<lambda>n. n \<le> u32_max) (as_u64 v)\<rparr>) req)
      else if k = ''seed'' then Inr (map_params (\<lambda>p. p\<lparr>sp_seed := json_as_i64 v\<rparr>) req)
      else if k = ''presence_penalty'' then Inr (map_params (\<lambda>p. p\<lparr>sp_presence_penalty := json_as_f64 v\<rparr>) req)
      else if k = ''frequency_penalty'' then Inr (map_params (\<lambda>p. p\<lparr>sp_frequency_penalty := json_as_f64 v\<rparr>) req)
      else if k = ''stop''
      then (case stop_override v of
              None \<Rightarrow> Inl (pe_bad_request (''route target override '' @ [CHR 0x27] @ ''stop'' @ [CHR 0x27] @
                             '' must be a string or array''))
            | Some ss \<Rightarrow> Inr (map_params (\<lambda>p. p\<lparr>sp_stop := ss\<rparr>) req))
      else Inr (req\<lparr>rq_extra := obj_insert k v (rq_extra req)\<rparr>))"

fun apply_overrides :: "(string \<times> json) list \<Rightarrow> internal_request \<Rightarrow> proxy_error + internal_request" where
  "apply_overrides [] req = Inr req"
| "apply_overrides ((k, v) # rest) req =
     (case apply_override k v req of Inl e \<Rightarrow> Inl e | Inr r \<Rightarrow> apply_overrides rest r)"

definition override_raw ::
  "codec \<Rightarrow> (string \<times> json) list \<Rightarrow> internal_request \<Rightarrow> proxy_error + internal_request" where
  "override_raw cd obj req =
     (case rq_raw_body req of
        None \<Rightarrow> Inr req
      | Some raw \<Rightarrow>
          (case de_value cd raw of
             None \<Rightarrow> Inl (pe_bad_request ''client request body is not valid JSON'')
           | Some parsed \<Rightarrow>
               (case as_object parsed of
                  None \<Rightarrow> Inl (pe_bad_request ''client request body must be a JSON object'')
                | Some raw_obj \<Rightarrow>
                    Inr (req\<lparr>rq_raw_body :=
                      Some (ser_value cd (JObject (fold (\<lambda>(k, v). obj_insert k v) obj raw_obj)))\<rparr>))))"

definition apply_target_overrides ::
  "codec \<Rightarrow> json \<Rightarrow> internal_request \<Rightarrow> proxy_error + internal_request" where
  "apply_target_overrides cd overrides req =
     (case as_object overrides of
        None \<Rightarrow> if overrides = JNull then Inr req
                else Inl (pe_internal ''route target param_overrides must be a JSON object'')
      | Some obj \<Rightarrow>
          if obj = [] then Inr req
          else (case apply_overrides obj req of Inl e \<Rightarrow> Inl e | Inr r \<Rightarrow> override_raw cd obj r))"

subsection \<open>Continuation state\<close>

fun opaque_part :: "part \<Rightarrow> bool" where
  "opaque_part (Thinking _ _) = True"
| "opaque_part (ToolCall _ _ _ (Some _)) = True"
| "opaque_part _ = False"

definition request_has_opaque_state :: "internal_request \<Rightarrow> bool" where
  "request_has_opaque_state req = list_ex (\<lambda>m. list_ex opaque_part (msg_parts m)) (rq_messages req)"

fun map_object :: "((string \<times> json) list \<Rightarrow> (string \<times> json) list) \<Rightarrow> json \<Rightarrow> json" where
  "map_object f (JObject fs) = JObject (f fs)"
| "map_object f v = v"

definition update_field :: "string \<Rightarrow> (json \<Rightarrow> json) \<Rightarrow> json \<Rightarrow> json" where
  "update_field k f = map_object (map (\<lambda>(k', v). (k', if k' = k then f v else v)))"

fun map_array :: "(json list \<Rightarrow> json list) \<Rightarrow> json \<Rightarrow> json" where
  "map_array f (JArray xs) = JArray (f xs)"
| "map_array f v = v"

definition is_thinking_json :: "json \<Rightarrow> bool" where
  "is_thinking_json p = (case json_get p ''type'' of None \<Rightarrow> False | Some t \<Rightarrow> as_str t = Some ''thinking'')"

definition strip_raw_part :: "json \<Rightarrow> json" where
  "strip_raw_part = map_object (\<lambda>fs. obj_remove ''thoughtSignature'' (obj_remove ''signature'' fs))"

definition strip_raw_parts :: "json list \<Rightarrow> json list" where
  "strip_raw_parts ps = map strip_raw_part (filter (\<lambda>p. \<not> is_thinking_json p) ps)"

definition strip_raw_message :: "json \<Rightarrow> json" where
  "strip_raw_message m =
     update_field ''content'' (map_array strip_raw_parts)
       (map_object (\<lambda>fs. let fs1 = obj_remove ''reasoning_signature'' (obj_remove ''reasoning_content'' fs)
                          in if is_some_and (\<lambda>v. as_str v \<noteq> None) (map_of fs1 ''reasoning'')
                             then obj_remove ''reasoning'' fs1 else fs1) m)"

definition strip_opaque_raw_body :: "codec \<Rightarrow> internal_request \<Rightarrow> internal_request" where
  "strip_opaque_raw_body cd req =
     (case rq_raw_body req of
        None \<Rightarrow> req
      | Some raw \<Rightarrow>
          (case de_value cd raw of
             None \<Rightarrow> req\<lparr>rq_raw_body := None\<rparr>
           | Some v \<Rightarrow>
               (case (case json_get v ''messages'' of None \<Rightarrow> None | Some ms \<Rightarrow> as_array ms) of
                  None \<Rightarrow> req
                | Some _ \<Rightarrow> req\<lparr>rq_raw_body :=
                    Some (ser_value cd (update_field ''messages'' (map_array (map strip_raw_message)) v))\<rparr>)))"

record opaque_report =
  or_restored :: nat
  or_incompatible :: nat
  or_incompatible_ids :: "string list"
  or_unavailable :: nat
  or_restorations :: "(string \<times> string) list"

definition known_state :: "opaque_report \<Rightarrow> bool" where
  "known_state r \<longleftrightarrow> or_restored r + or_incompatible r + or_unavailable r > 0"

definition nonportable :: "opaque_report \<Rightarrow> bool" where
  "nonportable r \<longleftrightarrow> or_incompatible r > 0"

fun hydrate_part :: "string \<times> string \<Rightarrow> part \<Rightarrow> part" where
  "hydrate_part (tid, sig) (ToolCall (Some i) name args slot) =
     (if i = tid \<and> slot = None then ToolCall (Some i) name args (Some sig)
      else ToolCall (Some i) name args slot)"
| "hydrate_part _ p = p"

definition map_request_parts :: "(part list \<Rightarrow> part list) \<Rightarrow> internal_request \<Rightarrow> internal_request" where
  "map_request_parts f req =
     req\<lparr>rq_messages := map (\<lambda>m. m\<lparr>msg_parts := f (msg_parts m)\<rparr>) (rq_messages req)\<rparr>"

definition hydrate_opaque_state :: "opaque_report \<Rightarrow> internal_request \<Rightarrow> internal_request" where
  "hydrate_opaque_state r req =
     fold (\<lambda>rest q. map_request_parts (map (hydrate_part rest)) q) (or_restorations r) req"

fun is_thinking_part :: "part \<Rightarrow> bool" where
  "is_thinking_part (Thinking _ _) = True"
| "is_thinking_part _ = False"

definition incompatible_call :: "opaque_report \<Rightarrow> string option \<Rightarrow> bool" where
  "incompatible_call r i = is_some_and (\<lambda>x. x \<in> set (or_incompatible_ids r)) i"

fun strip_part :: "opaque_report \<Rightarrow> string option \<Rightarrow> part \<Rightarrow> part" where
  "strip_part r placeholder (ToolCall i name args sig) =
     ToolCall i name args (if incompatible_call r i then placeholder else None)"
| "strip_part r placeholder p = p"

fun placed_part :: "opaque_report \<Rightarrow> string option \<Rightarrow> part \<Rightarrow> nat" where
  "placed_part r placeholder (ToolCall i name args sig) =
     of_bool (incompatible_call r i \<and> placeholder \<noteq> None)"
| "placed_part r placeholder p = 0"

definition strip_nonportable_state ::
  "codec \<Rightarrow> opaque_report \<Rightarrow> string option \<Rightarrow> internal_request \<Rightarrow> internal_request \<times> nat" where
  "strip_nonportable_state cd r placeholder req =
     (strip_opaque_raw_body cd
        (map_request_parts (\<lambda>ps. map (strip_part r placeholder) (filter (\<lambda>p. \<not> is_thinking_part p) ps)) req),
      sum_list (map (\<lambda>m. sum_list (map (placed_part r placeholder) (msg_parts m))) (rq_messages req)))"

definition portability_warning :: "resolved_target \<Rightarrow> nat \<Rightarrow> string" where
  "portability_warning t placed =
     (if placed > 0
      then ''non-portable provider continuation state was replaced with the provider'' @ [CHR 0x27] @
           ''s documented placeholder for fallback to '' @ [CHR 0x27] @ md_display_name (rs_model t) @ [CHR 0x27]
      else ''non-portable provider continuation state was omitted for fallback to '' @ [CHR 0x27] @
           md_display_name (rs_model t) @ [CHR 0x27])"

definition apply_portability ::
  "codec \<Rightarrow> nat \<Rightarrow> route_row \<Rightarrow> resolved_target \<Rightarrow> bool \<Rightarrow> opaque_report \<Rightarrow> string option
    \<Rightarrow> internal_request \<times> route_trace \<Rightarrow> proxy_error + internal_request \<times> route_trace" where
  "apply_portability cd ms route t inline_opaque r placeholder s =
     (let (req, tr) = s
      in if \<not> inline_opaque \<and> \<not> nonportable r then Inr s
         else if portability route = ''reject''
         then Inl (pe_unsupported (''route '' @ [CHR 0x27] @ rt_name route @ [CHR 0x27] @
                '' forbids fallback because the conversation contains non-portable provider continuation state for target '' @
                [CHR 0x27] @ md_display_name (rs_model t) @ [CHR 0x27]))
         else let (req', placed) = strip_nonportable_state cd r placeholder req
              in Inr (req', trace_warn ms (portability_warning t placed) tr))"

section \<open>Lemmas\<close>

subsection \<open>Objects\<close>

lemma map_of_obj_insert [simp]: "map_of (obj_insert k v fs) k' = (if k' = k then Some v else map_of fs k')"
  by (induction k v fs rule: obj_insert.induct) auto

lemma map_of_insert_all:
  "distinct (map fst obj) \<Longrightarrow>
   map_of (fold (\<lambda>(k, v). obj_insert k v) obj fs) k = opt_or (map_of obj k) (map_of fs k)"
proof (induction obj arbitrary: fs)
  case (Cons e obj)
  obtain k' v' where e: "e = (k', v')" by (cases e)
  have "k' \<notin> dom (map_of obj)" using Cons.prems e by (auto simp: dom_map_of_conv_image_fst)
  then show ?case using Cons e by (auto simp: opt_or_def split: option.splits)
qed (simp add: opt_or_def)

subsection \<open>Failure rules\<close>

lemma unconstrained_rule_never_matches:
  assumes "map_of obj ''statuses'' = None" "map_of obj ''status'' = None"
    "map_of obj ''codes'' = None" "map_of obj ''message_contains'' = None"
  shows "\<not> failure_rule_matches (JObject obj) status code message"
  using assms by (simp add: failure_rule_matches_def rule_selectors_def obj_array_def)

lemma apply_rules_first:
  fixes body :: string
  assumes "as_object (unwrap_or (de_value cd (pv_rate_limit_rules p)) (JObject [])) = Some obj"
  defines "parsed \<equiv> unwrap_or (de_value cd body) JNull"
  shows "apply_provider_failure_rules cd p status body f =
     (case find (\<lambda>(name, kind). is_some_and
              (\<lambda>rule. failure_rule_matches rule status (error_code parsed) (error_message parsed (uf_message f)))
              (map_of obj name)) RULE_ORDER of
        None \<Rightarrow> f | Some (name, kind) \<Rightarrow> f\<lparr>uf_kind := kind\<rparr>)"
proof (cases "obj = []")
  case True
  then show ?thesis using assms by (simp add: apply_provider_failure_rules_def RULE_ORDER_def is_some_and_def)
next
  case False
  then show ?thesis using assms by (simp add: apply_provider_failure_rules_def Let_def)
qed

subsection \<open>Stripping continuation state\<close>

lemma strip_raw_keeps_messages [simp]: "rq_messages (strip_opaque_raw_body cd req) = rq_messages req"
  by (simp add: strip_opaque_raw_body_def split: option.splits)

lemma strip_part_thinking [simp]: "is_thinking_part (strip_part r ph p) = is_thinking_part p"
  by (cases p) auto

lemma strip_part_signature:
  "strip_part r ph p = ToolCall i name args (Some sig) \<Longrightarrow> incompatible_call r i \<and> ph = Some sig"
  by (cases p) (auto split: if_splits)

lemma stripped_messages:
  "rq_messages (fst (strip_nonportable_state cd r ph req)) =
   map (\<lambda>m. m\<lparr>msg_parts := map (strip_part r ph) (filter (\<lambda>p. \<not> is_thinking_part p) (msg_parts m))\<rparr>) (rq_messages req)"
  by (simp add: strip_nonportable_state_def map_request_parts_def)

text \<open>Serialised objects: \<^verbatim>\<open>Map::remove\<close> removes the key and nothing else.\<close>

definition wf_obj :: "json \<Rightarrow> bool" where
  "wf_obj v = (case as_object v of None \<Rightarrow> True | Some fs \<Rightarrow> distinct (map fst fs))"

lemma position_none: "position P xs = None \<longleftrightarrow> (\<forall>x\<in>set xs. \<not> P x)"
  by (induction P xs rule: position.induct) auto

lemma position_first: "\<forall>y\<in>set ys. \<not> P y \<Longrightarrow> P x \<Longrightarrow> position P (ys @ x # zs) = Some (length ys)"
  by (induction ys) auto

lemma mset_obj_remove:
  assumes "distinct (map fst fs)"
  shows "mset (obj_remove k fs) = filter_mset (\<lambda>e. fst e \<noteq> k) (mset fs)"
proof (cases "k \<in> fst ` set fs")
  case False
  then have "filter (\<lambda>e. fst e \<noteq> k) fs = fs" by (auto intro!: filter_True)
  moreover have "position (\<lambda>f. fst f = k) fs = None" using False by (auto simp: position_none)
  ultimately show ?thesis by (simp add: obj_remove_def flip: mset_filter)
next
  case True
  then obtain ys v zs where fs: "fs = ys @ (k, v) # zs"
    by (metis (no_types, opaque_lifting) imageE split_list surj_pair fst_conv)
  have ks: "k \<notin> fst ` set ys" "k \<notin> fst ` set zs" using assms fs by auto
  have keep: "filter (\<lambda>e. fst e \<noteq> k) ys = ys" "filter (\<lambda>e. fst e \<noteq> k) zs = zs"
    using ks by (auto intro!: filter_True)
  have pos: "position (\<lambda>f. fst f = k) fs = Some (length ys)" using ks(1) unfolding fs by (intro position_first) auto
  have rhs: "filter_mset (\<lambda>e. fst e \<noteq> k) (mset fs) = mset ys + mset zs"
    using keep by (simp add: fs flip: mset_filter)
  show ?thesis
  proof (cases zs rule: rev_cases)
    case Nil
    then show ?thesis using pos fs rhs by (simp add: obj_remove_def butlast_append)
  next
    case (snoc zs' z)
    then have "obj_remove k fs = ys @ z # zs'" using pos fs by (simp add: obj_remove_def butlast_append)
    then show ?thesis using rhs snoc by simp
  qed
qed

lemma set_obj_remove: "distinct (map fst fs) \<Longrightarrow> set (obj_remove k fs) = {e \<in> set fs. fst e \<noteq> k}"
  using arg_cong [OF mset_obj_remove [of fs k], of set_mset] by auto

lemma distinct_obj_remove:
  assumes "distinct (map fst fs)"
  shows "distinct (map fst (obj_remove k fs))"
proof -
  have "mset (map fst (obj_remove k fs)) = mset (map fst (filter (\<lambda>e. fst e \<noteq> k) fs))"
    using mset_obj_remove [OF assms] by (metis mset_filter mset_map)
  moreover have "distinct (map fst (filter (\<lambda>e. fst e \<noteq> k) fs))" using assms distinct_map_filter by blast
  ultimately show ?thesis using mset_eq_imp_distinct_iff by blast
qed

lemma map_of_obj_remove:
  assumes "distinct (map fst fs)"
  shows "map_of (obj_remove k fs) k' = (if k' = k then None else map_of fs k')"
proof (cases "map_of (obj_remove k fs) k'")
  case None
  then have "k' \<notin> fst ` set (obj_remove k fs)" by (simp add: map_of_eq_None_iff)
  then have "k' \<noteq> k \<longrightarrow> k' \<notin> fst ` set fs" by (auto simp: set_obj_remove [OF assms])
  then have "k' \<noteq> k \<longrightarrow> map_of fs k' = None" by (simp add: map_of_eq_None_iff)
  then show ?thesis using None by simp
next
  case (Some v)
  then have "(k', v) \<in> set (obj_remove k fs)" by (rule map_of_SomeD)
  then show ?thesis using Some assms by (auto simp: set_obj_remove)
qed

lemma strip_raw_part_clean:
  assumes "wf_obj p"
  shows "json_get (strip_raw_part p) ''signature'' = None"
    and "json_get (strip_raw_part p) ''thoughtSignature'' = None"
    and "is_thinking_json (strip_raw_part p) = is_thinking_json p"
  using assms
  by (cases p; simp add: wf_obj_def strip_raw_part_def is_thinking_json_def map_of_obj_remove distinct_obj_remove)+

lemma map_of_map_values: "map_of (map (\<lambda>(k', v). (k', if k' = k then f v else v)) fs) k =
   map_option f (map_of fs k)"
  by (induction fs) auto

lemma map_of_map_other: "k' \<noteq> k \<Longrightarrow>
   map_of (map (\<lambda>(k', v). (k', if k' = k then f v else v)) fs) k' = map_of fs k'"
  by (induction fs) auto

lemma json_get_update_field:
  "json_get (update_field k f v) k' = (if k' = k then map_option f (json_get v k) else json_get v k')"
  by (cases v) (simp_all add: update_field_def map_of_map_values map_of_map_other)

text \<open>A message of the client's body that carries no provider state.\<close>

definition raw_message_clean :: "json \<Rightarrow> bool" where
  "raw_message_clean m \<longleftrightarrow>
     json_get m ''reasoning_content'' = None \<and> json_get m ''reasoning_signature'' = None \<and>
     (\<forall>s. json_get m ''reasoning'' \<noteq> Some (JString s)) \<and>
     (\<forall>ps. json_get m ''content'' = Some (JArray ps) \<longrightarrow>
        (\<forall>p\<in>set ps. \<not> is_thinking_json p \<and> json_get p ''signature'' = None
           \<and> json_get p ''thoughtSignature'' = None))"

definition raw_message_wf :: "json \<Rightarrow> bool" where
  "raw_message_wf m \<longleftrightarrow> wf_obj m \<and>
     (\<forall>ps. json_get m ''content'' = Some (JArray ps) \<longrightarrow> (\<forall>p\<in>set ps. wf_obj p))"

lemma as_str_some: "as_str v = Some s \<longleftrightarrow> v = JString s"
  by (cases v) auto

lemma map_array_JArray: "map_array f v = JArray ps \<Longrightarrow> \<exists>qs. v = JArray qs \<and> ps = f qs"
  by (cases v) auto

lemma strip_raw_message_clean:
  assumes "raw_message_wf m"
  shows "raw_message_clean (strip_raw_message m)"
proof (cases m)
  case (JObject fs)
  have d: "distinct (map fst fs)" using assms JObject by (simp add: raw_message_wf_def wf_obj_def)
  define fs1 where "fs1 = obj_remove ''reasoning_signature'' (obj_remove ''reasoning_content'' fs)"
  define fs2 where "fs2 = (if is_some_and (\<lambda>v. as_str v \<noteq> None) (map_of fs1 ''reasoning'')
                           then obj_remove ''reasoning'' fs1 else fs1)"
  have d1: "distinct (map fst fs1)" by (simp add: fs1_def d distinct_obj_remove)
  have get1: "map_of fs1 k = (if k = ''reasoning_signature'' \<or> k = ''reasoning_content'' then None else map_of fs k)" for k
    by (simp add: fs1_def d distinct_obj_remove map_of_obj_remove)
  have get2: "k \<noteq> ''reasoning'' \<Longrightarrow> map_of fs2 k = map_of fs1 k" for k
    by (simp add: fs2_def d1 map_of_obj_remove)
  have no_reasoning: "map_of fs2 ''reasoning'' \<noteq> Some (JString s)" for s
    by (cases "map_of fs1 ''reasoning''") (auto simp: fs2_def d1 map_of_obj_remove is_some_and_def)
  have eq: "strip_raw_message m = update_field ''content'' (map_array strip_raw_parts) (JObject fs2)"
    by (simp add: strip_raw_message_def JObject fs2_def fs1_def Let_def)
  have "\<not> is_thinking_json p \<and> json_get p ''signature'' = None \<and> json_get p ''thoughtSignature'' = None"
    if got: "json_get (strip_raw_message m) ''content'' = Some (JArray ps)" and p: "p \<in> set ps" for ps p
  proof -
    obtain v where v: "map_of fs ''content'' = Some v" "map_array strip_raw_parts v = JArray ps"
      using got by (auto simp: eq json_get_update_field get1 get2)
    obtain qs where qs: "v = JArray qs" "ps = strip_raw_parts qs" using map_array_JArray [OF v(2)] by blast
    then obtain q where q: "q \<in> set qs" "\<not> is_thinking_json q" "p = strip_raw_part q"
      using p by (auto simp: strip_raw_parts_def)
    have "wf_obj q" using assms v(1) qs(1) q(1) JObject by (simp add: raw_message_wf_def)
    then show ?thesis using q strip_raw_part_clean by simp
  qed
  then show ?thesis
    by (simp add: raw_message_clean_def eq json_get_update_field get1 get2 no_reasoning del: json_get.simps)
       (simp add: get1 get2 no_reasoning)
qed (auto simp: strip_raw_message_def update_field_def raw_message_clean_def)

subsection \<open>Properties\<close>

text \<open>What is left of a part that is not dropped.\<close>

definition part_stripped :: "opaque_report \<Rightarrow> string option \<Rightarrow> part \<Rightarrow> part \<Rightarrow> bool" where
  "part_stripped r placeholder p p' \<longleftrightarrow> \<not> is_thinking_part p \<and>
     (case p of
        ToolCall i name args sig \<Rightarrow> p' = ToolCall i name args (if incompatible_call r i then placeholder else None)
      | _ \<Rightarrow> p' = p)"

lemma part_stripped_strip: "\<not> is_thinking_part p \<Longrightarrow> part_stripped r ph p (strip_part r ph p)"
  by (cases p) (auto simp: part_stripped_def split: if_splits)

text \<open>
  What is left of the client's own body: of a part everything but its signatures, of a message everything but its
  reasoning and its thinking parts, of the body everything but that. A body that does not parse is dropped, and one whose
  messages are no list is left alone.
\<close>

definition raw_part_stripped :: "json \<Rightarrow> json \<Rightarrow> bool" where
  "raw_part_stripped p p' \<longleftrightarrow> (\<forall>k. k \<notin> {''signature'', ''thoughtSignature''} \<longrightarrow> json_get p' k = json_get p k)"

definition raw_message_stripped :: "json \<Rightarrow> json \<Rightarrow> bool" where
  "raw_message_stripped m m' \<longleftrightarrow> raw_message_clean m' \<and>
     (\<forall>k. k \<notin> {''content'', ''reasoning'', ''reasoning_content'', ''reasoning_signature''} \<longrightarrow> json_get m' k = json_get m k) \<and>
     (case json_get m ''content'' of
        Some (JArray ps) \<Rightarrow> \<exists>ps'. json_get m' ''content'' = Some (JArray ps') \<and>
          list_all2 raw_part_stripped (filter (\<lambda>p. \<not> is_thinking_json p) ps) ps'
      | c \<Rightarrow> json_get m' ''content'' = c)"

definition raw_body_stripped_to :: "codec \<Rightarrow> string option \<Rightarrow> string option \<Rightarrow> bool" where
  "raw_body_stripped_to cd raw raw' \<longleftrightarrow>
     (case Option.bind raw (de_value cd) of
        None \<Rightarrow> raw' = None
      | Some v \<Rightarrow>
          (case json_get v ''messages'' of
             Some (JArray ms) \<Rightarrow> \<exists>v' ms'. raw' = Some (ser_value cd v') \<and> json_get v' ''messages'' = Some (JArray ms') \<and>
               list_all2 (\<lambda>m m'. raw_message_wf m \<longrightarrow> raw_message_stripped m m') ms ms' \<and>
               (\<forall>k. k \<noteq> ''messages'' \<longrightarrow> json_get v' k = json_get v k)
           | _ \<Rightarrow> raw' = raw))"

lemma strip_raw_part_keeps: "wf_obj p \<Longrightarrow> raw_part_stripped p (strip_raw_part p)"
  by (cases p) (simp_all add: raw_part_stripped_def wf_obj_def strip_raw_part_def map_of_obj_remove distinct_obj_remove)

lemma strip_raw_message_keeps:
  assumes "raw_message_wf m"
  shows "raw_message_stripped m (strip_raw_message m)"
proof (cases m)
  case (JObject fs)
  have d: "distinct (map fst fs)" using assms JObject by (simp add: raw_message_wf_def wf_obj_def)
  define fs1 where "fs1 = obj_remove ''reasoning_signature'' (obj_remove ''reasoning_content'' fs)"
  define fs2 where "fs2 = (if is_some_and (\<lambda>v. as_str v \<noteq> None) (map_of fs1 ''reasoning'')
                           then obj_remove ''reasoning'' fs1 else fs1)"
  have d1: "distinct (map fst fs1)" by (simp add: fs1_def d distinct_obj_remove)
  have get: "k \<notin> {''reasoning'', ''reasoning_signature'', ''reasoning_content''} \<Longrightarrow> map_of fs2 k = map_of fs k" for k
    by (simp add: fs2_def fs1_def d d1 [unfolded fs1_def] distinct_obj_remove map_of_obj_remove)
  have eq: "strip_raw_message m = update_field ''content'' (map_array strip_raw_parts) (JObject fs2)"
    by (simp add: strip_raw_message_def JObject fs2_def fs1_def Let_def)
  have content: "json_get (strip_raw_message m) ''content'' = map_option (map_array strip_raw_parts) (map_of fs ''content'')"
    by (simp add: eq json_get_update_field get)
  have others: "json_get (strip_raw_message m) k = json_get m k"
    if "k \<notin> {''content'', ''reasoning'', ''reasoning_content'', ''reasoning_signature''}" for k
    using that unfolding eq by (simp add: json_get_update_field get JObject)
  have "list_all2 raw_part_stripped (filter (\<lambda>p. \<not> is_thinking_json p) ps) (strip_raw_parts ps)"
    if "map_of fs ''content'' = Some (JArray ps)" for ps
  proof -
    have "\<forall>p \<in> set ps. wf_obj p" using assms that JObject by (simp add: raw_message_wf_def)
    then show ?thesis by (simp add: strip_raw_parts_def list_all2_map2 list_all2_same strip_raw_part_keeps)
  qed
  then show ?thesis
    unfolding raw_message_stripped_def content using strip_raw_message_clean [OF assms] others
    by (auto simp: JObject split: option.split json.split)
qed (use assms strip_raw_message_clean [OF assms] in
      \<open>auto simp: raw_message_stripped_def strip_raw_message_def update_field_def\<close>)

lemma strip_raw_body:
  "strip_opaque_raw_body cd req = req\<lparr>rq_raw_body := rq_raw_body (strip_opaque_raw_body cd req)\<rparr>"
  "raw_body_stripped_to cd (rq_raw_body req) (rq_raw_body (strip_opaque_raw_body cd req))"
proof -
  show "strip_opaque_raw_body cd req = req\<lparr>rq_raw_body := rq_raw_body (strip_opaque_raw_body cd req)\<rparr>"
    by (simp add: strip_opaque_raw_body_def split: option.split)
  show "raw_body_stripped_to cd (rq_raw_body req) (rq_raw_body (strip_opaque_raw_body cd req))"
  proof (cases "Option.bind (rq_raw_body req) (de_value cd)")
    case None
    then show ?thesis by (auto simp: raw_body_stripped_to_def strip_opaque_raw_body_def bind_eq_None_conv split: option.split)
  next
    case (Some v)
    then obtain raw where raw: "rq_raw_body req = Some raw" "de_value cd raw = Some v" by (auto simp: bind_eq_Some_conv)
    show ?thesis
    proof (cases "\<exists>ms. json_get v ''messages'' = Some (JArray ms)")
      case True
      then obtain ms where ms: "json_get v ''messages'' = Some (JArray ms)" by blast
      let ?v = "update_field ''messages'' (map_array (map strip_raw_message)) v"
      have "rq_raw_body (strip_opaque_raw_body cd req) = Some (ser_value cd ?v)"
        using raw ms by (simp add: strip_opaque_raw_body_def)
      moreover have "json_get ?v ''messages'' = Some (JArray (map strip_raw_message ms))"
        using ms by (simp add: json_get_update_field)
      moreover have "list_all2 (\<lambda>m m'. raw_message_wf m \<longrightarrow> raw_message_stripped m m') ms (map strip_raw_message ms)"
        by (simp add: list_all2_map2 list_all2_same strip_raw_message_keeps)
      moreover have "\<forall>k. k \<noteq> ''messages'' \<longrightarrow> json_get ?v k = json_get v k" by (simp add: json_get_update_field)
      ultimately show ?thesis unfolding raw_body_stripped_to_def Some ms option.case json.case by blast
    next
      case False
      then have "rq_raw_body (strip_opaque_raw_body cd req) = rq_raw_body req"
        using raw by (cases "json_get v ''messages''"; cases "the (json_get v ''messages'')") (auto simp: strip_opaque_raw_body_def)
      then show ?thesis
        unfolding raw_body_stripped_to_def Some option.case using False by (auto split: option.split json.split)
    qed
  qed
qed

text \<open>
  C20. Provider continuation state is never carried silently to a target that cannot read it. When a conversation has such
  state, either the route refuses the fallback, or the request sent on has no thinking part and no signature at all except
  the provider's documented placeholder on the tool calls whose state was found incompatible, every other part is as the
  client sent it and in its order, and exactly one warning is added to the route trace. The body that same-format
  passthrough would send is stripped as well, of thinking parts, reasoning and signatures in every message without
  duplicate keys, and of nothing else (one that does not parse is dropped, one without a list of messages is kept).
  Everything else of the request is unchanged, and a conversation without such state is passed on as it is.
\<close>
theorem portability_never_silent:
  assumes "apply_portability cd ms route t inline_opaque r placeholder (req, tr) = Inr (req', tr')"
  shows "(\<not> inline_opaque \<and> \<not> nonportable r \<and> req' = req \<and> tr' = tr) \<or>
    ((inline_opaque \<or> nonportable r) \<and> portability route \<noteq> ''reject'' \<and>
     (\<exists>w. rt_warnings tr' = rt_warnings tr @ [w]) \<and>
     list_all2 (\<lambda>m m'. msg_role m' = msg_role m \<and>
         list_all2 (part_stripped r placeholder) (filter (\<lambda>p. \<not> is_thinking_part p) (msg_parts m)) (msg_parts m'))
       (rq_messages req) (rq_messages req') \<and>
     req' = req\<lparr>rq_messages := rq_messages req', rq_raw_body := rq_raw_body req'\<rparr> \<and>
     raw_body_stripped_to cd (rq_raw_body req) (rq_raw_body req'))"
proof (cases "\<not> inline_opaque \<and> \<not> nonportable r")
  case True
  then show ?thesis using assms by (simp add: apply_portability_def)
next
  case False
  then have np: "portability route \<noteq> ''reject''"
    using assms by (auto simp: apply_portability_def)
  then have eqs: "req' = fst (strip_nonportable_state cd r placeholder req)"
      "\<exists>w. tr' = trace_warn ms w tr"
    using assms False by (auto simp: apply_portability_def Let_def split: prod.splits if_splits)
  have "list_all2 (\<lambda>m m'. msg_role m' = msg_role m \<and>
         list_all2 (part_stripped r placeholder) (filter (\<lambda>p. \<not> is_thinking_part p) (msg_parts m)) (msg_parts m'))
       (rq_messages req) (rq_messages req')"
    unfolding eqs(1) stripped_messages by (simp add: list_all2_map2 list_all2_same part_stripped_strip)
  moreover have "req' = req\<lparr>rq_messages := rq_messages req', rq_raw_body := rq_raw_body req'\<rparr>"
  proof -
    have "strip_opaque_raw_body cd (q\<lparr>rq_messages := ms\<rparr>) =
        q\<lparr>rq_messages := ms, rq_raw_body := rq_raw_body (strip_opaque_raw_body cd (q\<lparr>rq_messages := ms\<rparr>))\<rparr>" for q ms
      by (rule strip_raw_body(1))
    then show ?thesis unfolding eqs(1) strip_nonportable_state_def map_request_parts_def fst_conv strip_raw_keeps_messages
      by simp
  qed
  moreover have "raw_body_stripped_to cd (rq_raw_body req) (rq_raw_body req')"
    using strip_raw_body(2) [of cd "map_request_parts f req" for f]
    by (simp add: eqs(1) strip_nonportable_state_def map_request_parts_def)
  ultimately show ?thesis using False np eqs(2) by (auto simp: trace_warn_def push_step_def Let_def)
qed

text \<open>A target and a request for the concrete runs.\<close>

definition demo_resolved :: resolved_target where
  "demo_resolved = \<lparr>rs_account = demo_account ''a'' 1 1, rs_model = demo_model ''m1'' ''p1'' 1,
     rs_provider = demo_provider ''p1'' 1, rs_route_target_id = None, rs_priority = 0, rs_weight = 1,
     rs_predicate = target_predicate_default, rs_param_overrides = JNull\<rparr>"

definition demo_request :: "part list \<Rightarrow> string option \<Rightarrow> internal_request" where
  "demo_request ps raw = \<lparr>requested_model = ''m'', rq_system = [],
     rq_messages = [\<lparr>msg_role = Assistant, msg_parts = ps\<rparr>], rq_tools = [], rq_tool_choice = None,
     rq_tool_choice_name = None,
     rq_params = \<lparr>sp_temperature = None, sp_top_p = None, sp_top_k = None, sp_max_tokens = None,
       sp_stop = [], sp_seed = None, sp_presence_penalty = None, sp_frequency_penalty = None\<rparr>,
     rq_stream = False, rq_include_usage = False, rq_thinking = None, rq_extra = [], rq_raw_body = raw\<rparr>"

theorem portability_never_silent_witness:
  "\<exists>req' tr'. \<forall>cd.
     apply_portability cd 0 (demo_route\<lparr>rt_portability_policy := ''strip''\<rparr>) demo_resolved True
       \<lparr>or_restored = 0, or_incompatible = 1, or_incompatible_ids = [''c1''], or_unavailable = 0, or_restorations = []\<rparr>
       (Some ''skip'') (demo_request [Thinking ''t'' None, ToolCall (Some ''c1'') ''f'' ''{}'' (Some ''sig'')] None,
         trace_new ''u'' ''r'' ''m'') = Inr (req', tr')
     \<and> map msg_parts (rq_messages req') = [[ToolCall (Some ''c1'') ''f'' ''{}'' (Some ''skip'')]]
     \<and> (\<exists>w. rt_warnings tr' = [w])"
proof -
  let ?r = "\<lparr>or_restored = 0, or_incompatible = 1, or_incompatible_ids = [''c1''], or_unavailable = 0, or_restorations = []\<rparr>"
  let ?route = "demo_route\<lparr>rt_portability_policy := ''strip''\<rparr>"
  let ?req = "demo_request [Thinking ''t'' None, ToolCall (Some ''c1'') ''f'' ''{}'' (Some ''sig'')] None"
  let ?tr = "trace_new ''u'' ''r'' ''m''"
  let ?req' = "demo_request [ToolCall (Some ''c1'') ''f'' ''{}'' (Some ''skip'')] None"
  let ?tr' = "trace_warn 0 (portability_warning demo_resolved 1) ?tr"
  have run: "apply_portability cd 0 ?route demo_resolved True ?r (Some ''skip'') (?req, ?tr) = Inr (?req', ?tr')" for cd
    unfolding apply_portability_def strip_nonportable_state_def
    by (simp add: portability_def demo_route_def map_request_parts_def strip_opaque_raw_body_def
        demo_request_def incompatible_call_def is_some_and_def)
  have "\<exists>w. rt_warnings ?tr' = rt_warnings ?tr @ [w]"
    using portability_never_silent [OF run [of undefined]] by simp
  then have "\<exists>w. rt_warnings ?tr' = [w]" by (simp add: trace_new_def)
  then show ?thesis using run by (intro exI [of _ ?req'] exI [of _ ?tr']) (simp add: demo_request_def)
qed

text \<open>
  The body that same-format passthrough would send is stripped as well: in every message of
  it no thinking part, no reasoning text and no signature is left, the number of messages and every
  other field of the body are kept.
\<close>
theorem raw_body_stripped:
  assumes "rq_raw_body req = Some raw" "de_value cd raw = Some v"
    and "json_get v ''messages'' = Some (JArray ms)"
    and "\<forall>m\<in>set ms. raw_message_wf m"
  shows "\<exists>v' ms'. rq_raw_body (fst (strip_nonportable_state cd r placeholder req)) = Some (ser_value cd v')
    \<and> json_get v' ''messages'' = Some (JArray ms') \<and> length ms' = length ms
    \<and> (\<forall>m\<in>set ms'. raw_message_clean m)
    \<and> (\<forall>k. k \<noteq> ''messages'' \<longrightarrow> json_get v' k = json_get v k)"
proof (intro exI conjI)
  let ?v = "update_field ''messages'' (map_array (map strip_raw_message)) v"
  show "rq_raw_body (fst (strip_nonportable_state cd r placeholder req)) = Some (ser_value cd ?v)"
    using assms by (simp add: strip_nonportable_state_def map_request_parts_def strip_opaque_raw_body_def)
  show "json_get ?v ''messages'' = Some (JArray (map strip_raw_message ms))"
    using assms(3) by (simp add: json_get_update_field)
  show "\<forall>m\<in>set (map strip_raw_message ms). raw_message_clean m"
    using assms(4) strip_raw_message_clean by auto
qed (simp_all add: json_get_update_field)

theorem raw_body_stripped_witness:
  "\<exists>v' ms'. rq_raw_body (fst (strip_nonportable_state
        (demo_clock\<lparr>de_value := \<lambda>_. Some (JObject [(''messages'', JArray [JObject [(''reasoning_content'', JNull)]])])\<rparr>)
        \<lparr>or_restored = 0, or_incompatible = 1, or_incompatible_ids = [], or_unavailable = 0, or_restorations = []\<rparr>
        None (demo_request [] (Some ''{}'')))) = Some (ser_value demo_clock v')
    \<and> json_get v' ''messages'' = Some (JArray ms') \<and> length ms' = 1 \<and> (\<forall>m\<in>set ms'. raw_message_clean m)"
  using raw_body_stripped [of "demo_request [] (Some ''{}'')" "''{}''"
      "demo_clock\<lparr>de_value := \<lambda>_. Some (JObject [(''messages'', JArray [JObject [(''reasoning_content'', JNull)]])])\<rparr>"
      "JObject [(''messages'', JArray [JObject [(''reasoning_content'', JNull)]])]" "[JObject [(''reasoning_content'', JNull)]]"
      "\<lparr>or_restored = 0, or_incompatible = 1, or_incompatible_ids = [], or_unavailable = 0, or_restorations = []\<rparr>" None]
  by (auto simp: demo_request_def raw_message_wf_def wf_obj_def)

text \<open>
  The provider's classification rules change the kind of a failure and nothing else. Among
  the kinds that have a rule the order authentication, quota, rate limit, target, bad request
  decides; a kind applies when its rule accepts the status, code and message of the response, and
  no rule leaves the adapter's own classification.
\<close>
theorem failure_rules_first_match:
  assumes "as_object (unwrap_or (de_value cd (pv_rate_limit_rules p)) (JObject [])) = Some rules"
    and "hit = (\<lambda>name. is_some_and (\<lambda>rule. failure_rule_matches rule status
            (error_code (unwrap_or (de_value cd body) JNull))
            (error_message (unwrap_or (de_value cd body) JNull) (uf_message f))) (map_of rules name))"
  shows "apply_provider_failure_rules cd p status body f = f\<lparr>uf_kind :=
      (if hit ''auth'' then AuthError else if hit ''quota'' then QuotaExhausted
       else if hit ''rate_limit'' then RateLimit else if hit ''target'' then TargetError
       else if hit ''bad_request'' then BadRequest else uf_kind f)\<rparr>"
  using apply_rules_first [OF assms(1), of status body f] by (simp add: assms(2) RULE_ORDER_def)

theorem failure_rules_first_match_witness:
  "uf_kind (apply_provider_failure_rules
      (demo_clock\<lparr>de_value := \<lambda>_. Some (JObject [(''quota'', JObject [(''status'', JNumber (PosInt 402))])])\<rparr>)
      (demo_provider ''p1'' 1) 402 [] (timeout_failure [])) = QuotaExhausted"
proof -
  let ?rules = "[(''quota'', JObject [(''status'', JNumber (PosInt 402))])]"
  let ?cd = "demo_clock\<lparr>de_value := \<lambda>_. Some (JObject ?rules)\<rparr>"
  have "as_object (unwrap_or (de_value ?cd (pv_rate_limit_rules (demo_provider ''p1'' 1))) (JObject [])) = Some ?rules"
    by (simp add: unwrap_or_def)
  note first = failure_rules_first_match [OF this refl, of 402 "[]" "timeout_failure []"]
  show ?thesis
    unfolding first
    by (simp add: is_some_and_def failure_rule_matches_def rule_selectors_def obj_array_def del: not_None_eq)
qed

lemma map_params_raw [simp]: "rq_raw_body (map_params f r) = rq_raw_body r"
  by (simp add: map_params_def)

lemma pred_sum_if: "pred_sum P Q x \<Longrightarrow> pred_sum P Q y \<Longrightarrow> pred_sum P Q (if c then x else y)"
  by simp

lemma apply_override_keeps_raw: "pred_sum (\<lambda>_. True) (\<lambda>r'. rq_raw_body r' = rq_raw_body r) (apply_override k v r)"
  unfolding apply_override_def by (intro pred_sum_if) (simp_all split: option.splits)

text \<open>
  Target overrides reach the passthrough body: after a successful application every overridden
  key of the body has the override's value and every other key is kept.
\<close>
lemma overrides_reach_raw_body:
  assumes "apply_target_overrides cd (JObject obj) req = Inr req'" "obj \<noteq> []" "distinct (map fst obj)"
    and "rq_raw_body req = Some raw"
  shows "\<exists>fs fs'. de_value cd raw = Some (JObject fs) \<and> rq_raw_body req' = Some (ser_value cd (JObject fs'))
     \<and> (\<forall>k. map_of fs' k = opt_or (map_of obj k) (map_of fs k))"
proof -
  have keep1: "apply_override k v r = Inr r' \<Longrightarrow> rq_raw_body r' = rq_raw_body r" for k v r r'
    using apply_override_keeps_raw [of r k v] by simp
  have keep: "apply_overrides os r = Inr r' \<Longrightarrow> rq_raw_body r' = rq_raw_body r" for os r r'
    by (induction os r rule: apply_overrides.induct) (auto dest: keep1 split: sum.splits)
  obtain r where r: "apply_overrides obj req = Inr r" "override_raw cd obj r = Inr req'"
    using assms(1,2) by (auto simp: apply_target_overrides_def split: sum.splits)
  have "rq_raw_body r = Some raw" using keep [OF r(1)] assms(4) by simp
  then obtain fs where "de_value cd raw = Some (JObject fs)"
      "req' = r\<lparr>rq_raw_body := Some (ser_value cd (JObject (fold (\<lambda>(k, v). obj_insert k v) obj fs)))\<rparr>"
    using r(2) by (auto simp: override_raw_def split: option.splits elim: as_object.elims)
  then show ?thesis using map_of_insert_all [OF assms(3), of fs] by auto
qed

end
