(* ===== verification/Route_Ordering.thy ===== *)
theory Route_Ordering
  imports Route_Policy Provider_Circuit
begin

text \<open>
  Ordering of a route's targets (\<^verbatim>\<open>src/src/pipeline.rs\<close>): candidates are grouped by logical
  target, each group's accounts are ordered by the account pool, and the strategy of the route
  orders the groups. One pass reads quota and traffic evidence once, so its comparator is fixed.
  A failed \<^verbatim>\<open>expect\<close> is \<open>None\<close>; random draws, the wall clock and the monotonic clock are
  arguments.
\<close>

section \<open>Definitions\<close>

subsection \<open>Comparison and stable sorting\<close>

datatype ordering = Less | Equal | Greater

definition cmp :: "'a::linorder \<Rightarrow> 'a \<Rightarrow> ordering" where
  "cmp a b = (if a < b then Less else if a = b then Equal else Greater)"

fun then_with :: "ordering \<Rightarrow> ordering \<Rightarrow> ordering" where
  "then_with Equal b = b"
| "then_with a b = a"

text \<open>\<^verbatim>\<open>slice::sort_by\<close> is stable; a comparison may panic.\<close>

fun insert_by :: "('a \<Rightarrow> 'a \<Rightarrow> ordering option) \<Rightarrow> 'a \<Rightarrow> 'a list \<Rightarrow> 'a list option" where
  "insert_by c x [] = Some [x]"
| "insert_by c x (y # ys) =
     (case c x y of
        None \<Rightarrow> None
      | Some Greater \<Rightarrow> map_option ((#) y) (insert_by c x ys)
      | Some _ \<Rightarrow> Some (x # y # ys))"

fun sort_by :: "('a \<Rightarrow> 'a \<Rightarrow> ordering option) \<Rightarrow> 'a list \<Rightarrow> 'a list option" where
  "sort_by c [] = Some []"
| "sort_by c (x # xs) = (case sort_by c xs of None \<Rightarrow> None | Some ys \<Rightarrow> insert_by c x ys)"

subsection \<open>Adaptive scores\<close>

definition adaptive_candidate_key :: "resolved_target \<Rightarrow> string" where
  "adaptive_candidate_key t =
     unwrap_or (rs_route_target_id t) ''direct'' @ ''|'' @ pv_id (rs_provider t) @ ''|'' @
     ac_id (rs_account t) @ ''|'' @ md_id (rs_model t)"

definition snapshot_traffic_targets ::
  "upstream_traffic \<Rightarrow> nanos \<Rightarrow> resolved_target list \<Rightarrow> target_key \<rightharpoonup> traffic_snapshot" where
  "snapshot_traffic_targets traffic inst targets =
     fold (\<lambda>t m. if m (traffic_key t) = None
                 then m(traffic_key t \<mapsto> upstream_snapshot (traffic_key t) inst traffic) else m)
       targets Map.empty"

record adaptive_sort_score =
  as_has_capacity :: bool
  as_overload_ewma :: f64
  as_error_ewma :: f64
  as_quota_preference :: f64
  as_ttft_ms :: f64
  as_priority :: int
  as_route_target_id :: string
  as_account_id :: string
  as_model_id :: string

definition median_observed_ttft ::
  "resolved_target list \<Rightarrow> (target_key \<rightharpoonup> traffic_snapshot) \<Rightarrow> f64 option" where
  "median_observed_ttft targets snaps =
     (let observed = filter (\<lambda>s. ts_ttft_samples s > 0)
            (List.map_filter (\<lambda>t. snaps (traffic_key t)) targets);
          values = sort (List.map_filter ts_fast_ttft_ms observed);
          mid = length values div 2
      in if values = [] then None
         else if length values mod 2 = 0
         then Some (values ! (mid - 1) + (values ! mid - values ! (mid - 1)) / 2)
         else Some (values ! mid))"

definition adaptive_score ::
  "nanos \<Rightarrow> f64 \<Rightarrow> (string \<rightharpoonup> quota_snapshot) \<Rightarrow> resolved_target \<Rightarrow> traffic_snapshot \<Rightarrow> adaptive_sort_score" where
  "adaptive_score wall neutral_ttft quota t s =
     \<lparr>as_has_capacity = ts_has_capacity s, as_overload_ewma = ts_overload_ewma s,
      as_error_ewma = ts_error_ewma s,
      as_quota_preference =
        (case quota (adaptive_candidate_key t) of None \<Rightarrow> 0 | Some q \<Rightarrow> preference wall q),
      as_ttft_ms = (if ts_ttft_samples s > 0 then unwrap_or (ts_fast_ttft_ms s) neutral_ttft else neutral_ttft),
      as_priority = rs_priority t, as_route_target_id = unwrap_or (rs_route_target_id t) [],
      as_account_id = ac_id (rs_account t), as_model_id = md_id (rs_model t)\<rparr>"

fun build_scores ::
  "(resolved_target \<Rightarrow> traffic_snapshot \<Rightarrow> adaptive_sort_score) \<Rightarrow> (target_key \<rightharpoonup> traffic_snapshot)
    \<Rightarrow> resolved_target list \<Rightarrow> (string \<rightharpoonup> adaptive_sort_score) \<Rightarrow> (string \<rightharpoonup> adaptive_sort_score) option" where
  "build_scores score snaps [] m = Some m"
| "build_scores score snaps (t # ts) m =
     (case snaps (traffic_key t) of
        None \<Rightarrow> None
      | Some s \<Rightarrow> build_scores score snaps ts (m(adaptive_candidate_key t \<mapsto> score t s)))"

definition build_adaptive_scores_with_quota ::
  "nanos \<Rightarrow> resolved_target list \<Rightarrow> (target_key \<rightharpoonup> traffic_snapshot) \<Rightarrow> (string \<rightharpoonup> quota_snapshot)
    \<Rightarrow> (string \<rightharpoonup> adaptive_sort_score) option" where
  "build_adaptive_scores_with_quota wall targets snaps quota =
     build_scores (adaptive_score wall (unwrap_or (median_observed_ttft targets snaps) 0) quota) snaps targets Map.empty"

definition compare_scores :: "adaptive_sort_score \<Rightarrow> adaptive_sort_score \<Rightarrow> ordering" where
  "compare_scores a b =
     then_with (cmp (as_has_capacity b) (as_has_capacity a))
    (then_with (cmp (as_quota_preference b) (as_quota_preference a))
    (then_with (cmp (as_overload_ewma a) (as_overload_ewma b))
    (then_with (cmp (as_error_ewma a) (as_error_ewma b))
    (then_with (cmp (as_ttft_ms a) (as_ttft_ms b))
    (then_with (cmp (as_priority a) (as_priority b))
    (then_with (cmp (as_route_target_id a) (as_route_target_id b))
    (then_with (cmp (as_account_id a) (as_account_id b))
    (cmp (as_model_id a) (as_model_id b)))))))))"

definition compare_adaptive_targets ::
  "(string \<rightharpoonup> adaptive_sort_score) \<Rightarrow> resolved_target \<Rightarrow> resolved_target \<Rightarrow> ordering option" where
  "compare_adaptive_targets scores a b =
     (case (scores (adaptive_candidate_key a), scores (adaptive_candidate_key b)) of
        (Some x, Some y) \<Rightarrow> Some (compare_scores x y)
      | _ \<Rightarrow> None)"

subsection \<open>Groups\<close>

fun take_targets :: "(string \<rightharpoonup> resolved_target) \<Rightarrow> account_row list \<Rightarrow> resolved_target list" where
  "take_targets m [] = []"
| "take_targets m (a # as) =
     (case m (ac_id a) of
        None \<Rightarrow> take_targets m as
      | Some t \<Rightarrow> t # take_targets (m(ac_id a := None)) as)"

definition order_route_account_candidates ::
  "(nat \<Rightarrow> int \<Rightarrow> int) \<Rightarrow> resolved_target list \<Rightarrow> resolved_target list option" where
  "order_route_account_candidates draw targets =
     map_option (take_targets (map_of (rev (map (\<lambda>t. (ac_id (rs_account t), t)) targets))))
       (order_accounts draw (map rs_account targets) None)"

definition adaptive_account_dispatchable :: "codec \<Rightarrow> nanos \<Rightarrow> resolved_target \<Rightarrow> bool" where
  "adaptive_account_dispatchable cd wall t =
     (let status = effective_status cd wall (rs_account t)
      in status = Healthy \<or> (status = CircuitOpen \<and> should_probe cd wall (rs_account t)))"

definition group_key :: "resolved_target \<Rightarrow> string" where
  "group_key t = unwrap_or (rs_route_target_id t) (''account:'' @ ac_id (rs_account t))"

fun push_group ::
  "string \<Rightarrow> resolved_target \<Rightarrow> (string \<times> resolved_target list) list \<Rightarrow> (string \<times> resolved_target list) list" where
  "push_group k t [] = [(k, [t])]"
| "push_group k t ((k', ts) # gs) = (if k' = k then (k', ts @ [t]) # gs else (k', ts) # push_group k t gs)"

definition group_targets :: "resolved_target list \<Rightarrow> resolved_target list list" where
  "group_targets targets = map snd (fold (\<lambda>t. push_group (group_key t) t) targets [])"

fun order_groups ::
  "(nat \<Rightarrow> nat \<Rightarrow> int \<Rightarrow> int) \<Rightarrow> nat \<Rightarrow> resolved_target list list \<Rightarrow> resolved_target list list option" where
  "order_groups draws i [] = Some []"
| "order_groups draws i (g # gs) =
     (case order_route_account_candidates (draws i) g of
        None \<Rightarrow> None
      | Some g' \<Rightarrow> map_option ((#) g') (order_groups draws (Suc i) gs))"
subsection \<open>Strategies\<close>

text \<open>The parts of \<^verbatim>\<open>AppState\<close> an ordering pass reads, and the columns of a usage log row it counts.\<close>

record usage_count =
  uc_key_id :: "string option"
  uc_serving_account_id :: "string option"
  uc_input_tokens :: "int option"
  uc_output_tokens :: "int option"

definition totals_by :: "(usage_count \<Rightarrow> string option) \<Rightarrow> usage_count list \<Rightarrow> string \<rightharpoonup> int \<times> int" where
  "totals_by col rows k =
     (let mine = filter (\<lambda>r. col r = Some k) rows
      in if mine = [] then None
         else Some (int (length mine),
                sum_list (map (\<lambda>r. unwrap_or (uc_input_tokens r) 0 + unwrap_or (uc_output_tokens r) 0) mine)))"

definition lifetime_totals ::
  "usage_count list \<Rightarrow> (string \<rightharpoonup> int \<times> int) \<times> (string \<rightharpoonup> int \<times> int)" where
  "lifetime_totals rows = (totals_by uc_key_id rows, totals_by uc_serving_account_id rows)"

record order_state =
  os_quota :: quota_registry
  os_traffic :: upstream_traffic
  os_usage :: "usage_count list option"
    \<comment> \<open>\<open>None\<close>: the query failed\<close>
  os_rr_counters :: "string \<rightharpoonup> nat"

definition U64_MODULUS :: nat where "U64_MODULUS = 2 ^ 64"

definition rr_next :: "string \<Rightarrow> order_state \<Rightarrow> nat \<times> order_state" where
  "rr_next route_id s =
     (let n = unwrap_or (os_rr_counters s route_id) 0
      in (n, s\<lparr>os_rr_counters := (os_rr_counters s)(route_id \<mapsto> (n + 1) mod U64_MODULUS)\<rparr>))"

definition round_robin :: "nat \<Rightarrow> 'a list \<Rightarrow> 'a list" where
  "round_robin n groups = (if groups = [] then groups else rotate (n mod length groups) groups)"

definition group_weight :: "resolved_target list \<Rightarrow> int" where
  "group_weight g = (case g of [] \<Rightarrow> 1 | t # _ \<Rightarrow> max (rs_weight t) 1)"

definition group_weight_total :: "resolved_target list list \<Rightarrow> int" where
  "group_weight_total gs =
     foldl (\<lambda>s g. wrap_i64 (s + group_weight g)) 0 (filter (\<lambda>g. g \<noteq> []) gs)"

fun weighted_index :: "int \<Rightarrow> resolved_target list list \<Rightarrow> nat option" where
  "weighted_index pick [] = None"
| "weighted_index pick (g # gs) =
     (let p = pick - group_weight g in if p < 0 then Some 0 else map_option Suc (weighted_index p gs))"

definition weighted :: "(int \<Rightarrow> int) \<Rightarrow> resolved_target list list \<Rightarrow> resolved_target list list" where
  "weighted pick groups =
     (let total = group_weight_total groups
      in if total > 0 then rotate (unwrap_or (weighted_index (pick total) groups) 0) groups else groups)"

fun sort_groups ::
  "(string \<rightharpoonup> adaptive_sort_score) \<Rightarrow> (resolved_target \<Rightarrow> bool) \<Rightarrow> resolved_target list list
    \<Rightarrow> resolved_target list list option" where
  "sort_groups scores disp [] = Some []"
| "sort_groups scores disp (g # gs) =
     (case sort_by (compare_adaptive_targets scores) (filter disp g) of
        None \<Rightarrow> None
      | Some d \<Rightarrow> map_option ((#) (d @ filter (\<lambda>t. \<not> disp t) g)) (sort_groups scores disp gs))"

definition first_priority :: "resolved_target list \<Rightarrow> int" where
  "first_priority g = (case g of [] \<Rightarrow> I64_MAX | t # _ \<Rightarrow> rs_priority t)"

definition compare_groups ::
  "(string \<rightharpoonup> adaptive_sort_score) \<Rightarrow> (resolved_target \<Rightarrow> bool)
    \<Rightarrow> resolved_target list \<Rightarrow> resolved_target list \<Rightarrow> ordering option" where
  "compare_groups scores disp a b =
     (case (find disp a, find disp b) of
        (Some x, Some y) \<Rightarrow> compare_adaptive_targets scores x y
      | (Some _, None) \<Rightarrow> Some Less
      | (None, Some _) \<Rightarrow> Some Greater
      | (None, None) \<Rightarrow> Some (cmp (first_priority a) (first_priority b)))"

definition adaptive ::
  "(string \<rightharpoonup> adaptive_sort_score) \<Rightarrow> (resolved_target \<Rightarrow> bool) \<Rightarrow> resolved_target list list
    \<Rightarrow> resolved_target list list option" where
  "adaptive scores disp groups =
     (case sort_groups scores disp groups of
        None \<Rightarrow> None
      | Some gs \<Rightarrow> sort_by (compare_groups scores disp) gs)"

definition least_requests :: "(string \<rightharpoonup> int \<times> int) \<Rightarrow> resolved_target list \<Rightarrow> int" where
  "least_requests by_account g =
     (let counts = map (\<lambda>t. case by_account (ac_id (rs_account t)) of None \<Rightarrow> 0 | Some (n, _) \<Rightarrow> n) g
      in if counts = [] then 0 else min_list counts)"

definition least_used :: "usage_count list option \<Rightarrow> resolved_target list list \<Rightarrow> resolved_target list list" where
  "least_used usage groups =
     (let by_account = (case usage of None \<Rightarrow> Map.empty | Some rows \<Rightarrow> snd (lifetime_totals rows))
      in sort_key (\<lambda>g. (least_requests by_account g, first_priority g)) groups)"

text \<open>The evidence of one adaptive pass: dispatchable keys, quota evidence and scores.\<close>

definition dispatchable_keys :: "codec \<Rightarrow> nanos \<Rightarrow> resolved_target list \<Rightarrow> string set" where
  "dispatchable_keys cd wall targets =
     adaptive_candidate_key ` set (filter (adaptive_account_dispatchable cd wall) targets)"

definition quota_evidence ::
  "nanos \<Rightarrow> quota_registry \<Rightarrow> resolved_target list \<Rightarrow> string \<rightharpoonup> quota_snapshot option" where
  "quota_evidence wall quota dispatchable =
     map_of (rev (map (\<lambda>t. (adaptive_candidate_key t,
       adaptive_snapshot wall (pv_id (rs_provider t), ac_id (rs_account t)) quota)) dispatchable))"

definition adaptive_quota :: "(string \<rightharpoonup> quota_snapshot option) \<Rightarrow> string \<rightharpoonup> quota_snapshot" where
  "adaptive_quota evidence k = (case evidence k of None \<Rightarrow> None | Some snap \<Rightarrow> snap)"

definition adaptive_scores ::
  "nanos \<Rightarrow> nanos \<Rightarrow> order_state \<Rightarrow> resolved_target list \<Rightarrow> (string \<rightharpoonup> adaptive_sort_score) option" where
  "adaptive_scores wall inst s dispatchable =
     build_adaptive_scores_with_quota wall dispatchable
       (snapshot_traffic_targets (os_traffic s) inst dispatchable)
       (adaptive_quota (quota_evidence wall (os_quota s) dispatchable))"

record ordered_route_targets =
  ot_targets :: "resolved_target list"
  ot_quota_evidence :: "string \<rightharpoonup> quota_snapshot option"

definition order_adaptive ::
  "codec \<Rightarrow> nanos \<Rightarrow> nanos \<Rightarrow> order_state \<Rightarrow> resolved_target list \<Rightarrow> resolved_target list list
    \<Rightarrow> ordered_route_targets option" where
  "order_adaptive cd wall inst s targets groups =
     (let keys = dispatchable_keys cd wall targets;
          disp = (\<lambda>t. adaptive_candidate_key t \<in> keys);
          dispatchable = filter disp targets
      in case adaptive_scores wall inst s dispatchable of
           None \<Rightarrow> None
         | Some scores \<Rightarrow>
             map_option (\<lambda>gs. \<lparr>ot_targets = concat gs,
                 ot_quota_evidence = quota_evidence wall (os_quota s) dispatchable\<rparr>)
               (adaptive scores disp groups))"

definition order_route_targets ::
  "codec \<Rightarrow> nanos \<Rightarrow> nanos \<Rightarrow> (nat \<Rightarrow> nat \<Rightarrow> int \<Rightarrow> int) \<Rightarrow> (int \<Rightarrow> int) \<Rightarrow> route_row
    \<Rightarrow> resolved_target list \<Rightarrow> order_state \<Rightarrow> (ordered_route_targets \<times> order_state) option" where
  "order_route_targets cd wall inst draws pick route targets s =
     (case order_groups draws 0 (group_targets targets) of
        None \<Rightarrow> None
      | Some groups \<Rightarrow>
          let plain = (\<lambda>gs. \<lparr>ot_targets = concat gs, ot_quota_evidence = Map.empty\<rparr>)
          in if rt_strategy route = ''round-robin''
             then let (n, s') = rr_next (rt_id route) s in Some (plain (round_robin n groups), s')
             else if rt_strategy route = ''weighted'' then Some (plain (weighted pick groups), s)
             else if rt_strategy route = ''adaptive''
             then map_option (\<lambda>ot. (ot, s)) (order_adaptive cd wall inst s targets groups)
             else if rt_strategy route = ''least-used'' then Some (plain (least_used (os_usage s) groups), s)
             else Some (plain (sort_key first_priority groups), s))"

subsection \<open>Accounts of a direct target, and what an attempt reports\<close>

definition select_accounts ::
  "codec \<Rightarrow> nanos \<Rightarrow> (nat \<Rightarrow> int \<Rightarrow> int) \<Rightarrow> snapshot \<Rightarrow> string \<Rightarrow> string option \<Rightarrow> account_row list option" where
  "select_accounts cd wall draw snap provider_id preferred =
     (let accounts = filter (\<lambda>a. ac_provider_id a = provider_id) (map snd (sn_accounts snap));
          available = filter (\<lambda>a. effective_status cd wall a = Healthy) accounts
      in order_accounts draw (if available = [] then accounts else available) preferred)"

definition trace_provider_circuit_transition ::
  "nat \<Rightarrow> string \<Rightarrow> circuit_transition \<Rightarrow> route_trace \<Rightarrow> route_trace" where
  "trace_provider_circuit_transition ms provider_name tr trace =
     (if tr_opened tr
      then trace_add ms ''provider_circuit'' (Some provider_name)
             ''provider circuit opened after a qualifying failure'' trace
      else trace)"

definition record_target_telemetry ::
  "nat \<Rightarrow> resolved_target \<Rightarrow> telemetry_outcome \<Rightarrow> nat \<Rightarrow> nat option \<Rightarrow> bool \<Rightarrow> bool \<Rightarrow> circuit_transition
    \<Rightarrow> route_trace \<times> telemetry \<Rightarrow> route_trace \<times> telemetry" where
  "record_target_telemetry ms t outcome elapsed_ms ttft_ms fallback_attempt caused_fallback circuit s =
     (trace_provider_circuit_transition ms (pv_name (rs_provider t)) circuit (fst s),
      telemetry_record
        ((event_attempt (traffic_key t) outcome ttft_ms elapsed_ms fallback_attempt caused_fallback)
           \<lparr>ev_provider_circuit_open := tr_opened circuit,
            ev_provider_circuit_recovery := tr_recovered circuit,
            ev_half_open_probe := tr_half_open_probe circuit\<rparr>)
        (snd s))"

section \<open>Lemmas\<close>

subsection \<open>Comparators\<close>

lemma cmp_simps [simp]:
  "cmp a b = Less \<longleftrightarrow> a < b" "cmp a b = Equal \<longleftrightarrow> a = b" "cmp a b = Greater \<longleftrightarrow> b < a"
  for a b :: "'a::linorder"
  by (auto simp: cmp_def)

lemma cmp_pair: "cmp (a, b) (c, d) = then_with (cmp a c) (cmp b d)"
  for a c :: "'a::linorder" and b d :: "'b::linorder"
  by (auto simp: cmp_def)

lemma cmp_neg: "cmp y x = cmp (- x) (- y)"
  for x y :: real
  by (simp add: cmp_def)

lemma cmp_not: "cmp b a = cmp (\<not> a) (\<not> b)"
  by (cases a; cases b) (simp_all add: cmp_def)

lemma insert_by_key:
  fixes f :: "'a \<Rightarrow> 'b::linorder"
  assumes "\<And>y. y \<in> set ys \<Longrightarrow> c x y = Some (cmp (f x) (f y))"
  shows "insert_by c x ys = Some (insort_key f x ys)"
  using assms
proof (induction ys)
  case (Cons y ys)
  then show ?case by (auto simp: cmp_def)
qed simp

text \<open>A stable sort by a comparator that never panics and agrees with a key is the sort by that key.\<close>

lemma sort_by_key:
  fixes f :: "'a \<Rightarrow> 'b::linorder"
  assumes "\<And>x y. x \<in> set xs \<Longrightarrow> y \<in> set xs \<Longrightarrow> c x y = Some (cmp (f x) (f y))"
  shows "sort_by c xs = Some (sort_key f xs)"
  using assms
proof (induction xs)
  case (Cons x xs)
  then have "sort_by c xs = Some (sort_key f xs)" by simp
  moreover have "insert_by c x (sort_key f xs) = Some (insort_key f x (sort_key f xs))"
    using Cons.prems by (intro insert_by_key) simp
  ultimately show ?case by simp
qed simp

type_synonym score_key =
  "bool \<times> real \<times> real \<times> real \<times> real \<times> int \<times> string \<times> string \<times> string"

definition score_key :: "adaptive_sort_score \<Rightarrow> score_key" where
  "score_key a = (\<not> as_has_capacity a, - as_quota_preference a, as_overload_ewma a, as_error_ewma a,
     as_ttft_ms a, as_priority a, as_route_target_id a, as_account_id a, as_model_id a)"

lemma compare_scores_key: "compare_scores a b = cmp (score_key a) (score_key b)"
  unfolding compare_scores_def score_key_def cmp_pair
  by (simp only: cmp_not [of "as_has_capacity b" "as_has_capacity a"]
      cmp_neg [of "as_quota_preference b" "as_quota_preference a"])

subsection \<open>Scores exist for every dispatchable candidate\<close>

lemma snapshot_traffic_targets_eq:
  "snapshot_traffic_targets traffic inst targets k =
     (if k \<in> traffic_key ` set targets then Some (upstream_snapshot k inst traffic) else None)"
proof -
  have "fold (\<lambda>t m. if m (traffic_key t) = None
                 then m(traffic_key t \<mapsto> upstream_snapshot (traffic_key t) inst traffic) else m) targets m k =
     (if m k \<noteq> None then m k else if k \<in> traffic_key ` set targets then Some (upstream_snapshot k inst traffic) else None)" for m
    by (induction targets arbitrary: m) auto
  then show ?thesis by (simp add: snapshot_traffic_targets_def)
qed

lemma build_scores_total:
  assumes "\<And>t. t \<in> set ts \<Longrightarrow> \<exists>s. snaps (traffic_key t) = Some s"
  shows "\<exists>m'. build_scores score snaps ts m = Some m' \<and>
    (\<forall>k. k \<notin> adaptive_candidate_key ` set ts \<longrightarrow> m' k = m k) \<and>
    (\<forall>t\<in>set ts. \<exists>u\<in>set ts. \<exists>s. adaptive_candidate_key u = adaptive_candidate_key t \<and>
        snaps (traffic_key u) = Some s \<and> m' (adaptive_candidate_key t) = Some (score u s))"
  using assms
proof (induction ts arbitrary: m)
  case (Cons t ts)
  obtain s where s: "snaps (traffic_key t) = Some s" using Cons.prems by auto
  obtain m' where m': "build_scores score snaps ts (m(adaptive_candidate_key t \<mapsto> score t s)) = Some m'"
      "\<And>k. k \<notin> adaptive_candidate_key ` set ts \<Longrightarrow> m' k = (m(adaptive_candidate_key t \<mapsto> score t s)) k"
      "\<And>u. u \<in> set ts \<Longrightarrow> \<exists>v\<in>set ts. \<exists>s. adaptive_candidate_key v = adaptive_candidate_key u \<and>
        snaps (traffic_key v) = Some s \<and> m' (adaptive_candidate_key u) = Some (score v s)"
    using Cons.IH [of "m(adaptive_candidate_key t \<mapsto> score t s)"] Cons.prems
    by (metis list.set_intros(2))
  have "\<exists>u\<in>set (t # ts). \<exists>s. adaptive_candidate_key u = adaptive_candidate_key t \<and>
        snaps (traffic_key u) = Some s \<and> m' (adaptive_candidate_key t) = Some (score u s)"
  proof (cases "adaptive_candidate_key t \<in> adaptive_candidate_key ` set ts")
    case True
    then obtain u where "u \<in> set ts" "adaptive_candidate_key u = adaptive_candidate_key t" by auto
    then show ?thesis using m'(3) [of u] by auto
  next
    case False
    then show ?thesis using m'(2) s by auto
  qed
  then show ?case using m' s by auto
qed simp

lemma adaptive_scores_total:
  "\<exists>scores. adaptive_scores wall inst s ts = Some scores \<and>
     (\<forall>t\<in>set ts. scores (adaptive_candidate_key t) \<noteq> None)"
proof -
  obtain m' where "adaptive_scores wall inst s ts = Some m'"
      "\<forall>t\<in>set ts. \<exists>u\<in>set ts. \<exists>v. m' (adaptive_candidate_key t) = Some v"
    using build_scores_total [of ts "snapshot_traffic_targets (os_traffic s) inst ts"]
    unfolding adaptive_scores_def build_adaptive_scores_with_quota_def
    by (fastforce simp: snapshot_traffic_targets_eq)
  then show ?thesis by auto
qed

subsection \<open>Groups\<close>

lemma take_targets_map:
  assumes "distinct (map ac_id as)" "\<And>a. a \<in> set as \<Longrightarrow> m (ac_id a) = Some (h a)"
  shows "take_targets m as = map h as"
  using assms
proof (induction as arbitrary: m)
  case (Cons a as)
  have "(m(ac_id a := None)) (ac_id b) = Some (h b)" if "b \<in> set as" for b
    using that Cons.prems by (auto simp: image_iff)
  then have "take_targets (m(ac_id a := None)) as = map h as" using Cons by simp
  then show ?case using Cons.prems(2) [of a] by simp
qed simp

lemma order_accounts_none:
  assumes "weights accounts \<le> I64_MAX"
  shows "\<exists>ys. order_accounts draw accounts None = Some ys \<and> mset ys = mset accounts"
proof -
  have "weights (sort_key ac_priority accounts) = weights accounts" by (rule weights_mset) simp
  then show ?thesis
    using assms order_tiers_total [of "sort_key ac_priority accounts" draw 0]
    by (auto simp: order_accounts_def move_preferred_def)
qed

lemma order_candidates_permute:
  assumes "distinct (map (\<lambda>t. ac_id (rs_account t)) g)" "weights (map rs_account g) \<le> I64_MAX"
  shows "\<exists>g'. order_route_account_candidates draw g = Some g' \<and> mset g' = mset g"
proof -
  define m where "m = map_of (rev (map (\<lambda>t. (ac_id (rs_account t), t)) g))"
  have m: "m (ac_id (rs_account t)) = Some t" if "t \<in> set g" for t
    unfolding m_def using that assms(1)
    by (intro map_of_is_SomeI) (auto simp: comp_def rev_map [symmetric])
  obtain as where as: "order_accounts draw (map rs_account g) None = Some as" "mset as = mset (map rs_account g)"
    using order_accounts_none [OF assms(2)] by blast
  have "mset (map ac_id as) = mset (map (\<lambda>t. ac_id (rs_account t)) g)"
    using as(2) by (simp add: image_mset.compositionality comp_def)
  then have "distinct (map ac_id as)" using assms(1) mset_eq_imp_distinct_iff by blast
  moreover have "m (ac_id a) = Some (the (m (ac_id a)))" if "a \<in> set as" for a
  proof -
    have "a \<in> set (map rs_account g)" using that as(2) by (metis set_mset_mset)
    then show ?thesis using m by auto
  qed
  ultimately have "take_targets m as = map (\<lambda>a. the (m (ac_id a))) as" by (intro take_targets_map)
  then have "mset (take_targets m as) = image_mset (\<lambda>a. the (m (ac_id a))) (mset (map rs_account g))"
    using as(2) by simp
  also have "\<dots> = image_mset (\<lambda>t. t) (mset g)"
    unfolding mset_map image_mset.compositionality comp_def by (rule image_mset_cong) (simp add: m)
  finally show ?thesis using as(1) by (simp add: order_route_account_candidates_def m_def)
qed

lemma order_groups_permute:
  assumes "\<And>g. g \<in> set gs \<Longrightarrow> distinct (map (\<lambda>t. ac_id (rs_account t)) g) \<and> weights (map rs_account g) \<le> I64_MAX"
  shows "\<exists>hs. order_groups draws i gs = Some hs \<and> map mset hs = map mset gs"
  using assms
proof (induction gs arbitrary: i)
  case (Cons g gs)
  obtain g' where "order_route_account_candidates (draws i) g = Some g'" "mset g' = mset g"
    using order_candidates_permute [of g "draws i"] Cons.prems by auto
  moreover obtain hs where "order_groups draws (Suc i) gs = Some hs" "map mset hs = map mset gs"
    using Cons.IH [of "Suc i"] Cons.prems by auto
  ultimately show ?case by auto
qed simp

lemma push_group_keys: "distinct (map fst gs) \<Longrightarrow> distinct (map fst (push_group k t gs)) \<and>
    fst ` set (push_group k t gs) = insert k (fst ` set gs)"
  by (induction k t gs rule: push_group.induct) auto

lemma map_of_push_group: "map_of (push_group k t gs) k' =
   (if k' = k then Some (unwrap_or (map_of gs k) [] @ [t]) else map_of gs k')"
  by (induction k t gs rule: push_group.induct) (auto simp: unwrap_or_def)

lemma mset_push_group: "mset (concat (map snd (push_group k t gs))) = add_mset t (mset (concat (map snd gs)))"
  by (induction k t gs rule: push_group.induct) auto

text \<open>Groups are the targets of one key, in the order they were listed; none is empty.\<close>

lemma grouping:
  defines "G \<equiv> \<lambda>ts. fold (\<lambda>t. push_group (group_key t) t) ts []"
  shows "distinct (map fst (G ts))" "mset (concat (map snd (G ts))) = mset ts"
    and "map_of (G ts) k = (let g = filter (\<lambda>t. group_key t = k) ts in if g = [] then None else Some g)"
proof (induction ts rule: rev_induct)
  case (snoc t ts)
  { case 1 then show ?case using snoc(1) by (simp add: G_def push_group_keys)
  next
    case 2 then show ?case using snoc(2) by (simp add: G_def mset_push_group)
  next
    case 3 then show ?case using snoc(3) by (auto simp: G_def map_of_push_group Let_def unwrap_or_def) }
qed (simp_all add: G_def)

lemma group_targets_member:
  assumes "g \<in> set (group_targets ts)"
  shows "\<exists>k. g = filter (\<lambda>t. group_key t = k) ts \<and> g \<noteq> []"
proof -
  obtain k where "(k, g) \<in> set (fold (\<lambda>t. push_group (group_key t) t) ts [])"
    using assms by (auto simp: group_targets_def)
  then have "map_of (fold (\<lambda>t. push_group (group_key t) t) ts []) k = Some g"
    using grouping(1) [of ts] by simp
  then show ?thesis using grouping(3) [of ts k] by (auto simp: Let_def split: if_splits)
qed

lemma mset_group_targets: "mset (concat (group_targets ts)) = mset ts"
  using grouping(2) [of ts] by (simp add: group_targets_def)

lemma weights_filter_le: "weights (map rs_account (filter P ts)) \<le> weights (map rs_account ts)"
proof (induction ts)
  case (Cons t ts)
  then show ?case using account_weight_pos [of "rs_account t"] by simp
qed simp

lemma distinct_group:
  assumes "distinct (map (\<lambda>t. (group_key t, ac_id (rs_account t))) ts)"
  shows "distinct (map (\<lambda>t. ac_id (rs_account t)) (filter (\<lambda>t. group_key t = k) ts))"
  using assms by (induction ts) (auto simp: image_iff)

lemma ordered_groups_exist:
  assumes "distinct (map (\<lambda>t. (group_key t, ac_id (rs_account t))) ts)"
    and "weights (map rs_account ts) \<le> I64_MAX"
  shows "\<exists>hs. order_groups draws i (group_targets ts) = Some hs \<and> map mset hs = map mset (group_targets ts)"
proof (rule order_groups_permute)
  fix g assume "g \<in> set (group_targets ts)"
  then obtain k where "g = filter (\<lambda>t. group_key t = k) ts" using group_targets_member by blast
  then show "distinct (map (\<lambda>t. ac_id (rs_account t)) g) \<and> weights (map rs_account g) \<le> I64_MAX"
    using distinct_group [OF assms(1)] weights_filter_le [of "\<lambda>t. group_key t = k" ts] assms(2) by auto
qed

subsection \<open>What every strategy keeps\<close>

text \<open>A strategy may reorder the groups and the members of a group, and nothing else.\<close>

locale arrangement =
  fixes arrange :: "'a list list \<Rightarrow> 'a list list"
  assumes keeps: "mset (map mset (arrange gs)) = mset (map mset gs)"
begin

lemma keeps_members: "mset (concat (arrange gs)) = mset (concat gs)"
proof -
  have "mset (concat xs) = sum_mset (mset (map mset xs))" for xs :: "'a list list"
    unfolding mset_concat by (rule sum_mset_sum_list [symmetric])
  then show ?thesis by (simp only: keeps)
qed

lemma keeps_groups: "map mset hs = map mset gs \<Longrightarrow> mset (map mset (arrange hs)) = mset (map mset gs)"
  by (simp add: keeps del: mset_map)

end

lemma mset_rotate: "mset (rotate n xs) = mset xs"
  by (simp add: rotate_drop_take) (metis append_take_drop_id mset_append union_commute)

lemma mset_map_eq: "mset xs = mset ys \<Longrightarrow> mset (map f xs) = mset (map f ys)"
  by simp

text \<open>The adaptive strategy as two sorts by key.\<close>

definition target_rank :: "(string \<rightharpoonup> adaptive_sort_score) \<Rightarrow> resolved_target \<Rightarrow> score_key" where
  "target_rank scores t = score_key (the (scores (adaptive_candidate_key t)))"

definition group_rank ::
  "(string \<rightharpoonup> adaptive_sort_score) \<Rightarrow> (resolved_target \<Rightarrow> bool) \<Rightarrow> resolved_target list
    \<Rightarrow> bool \<times> score_key \<times> int" where
  "group_rank scores disp g =
     (case find disp g of
        Some t \<Rightarrow> (False, target_rank scores t, 0)
      | None \<Rightarrow> (True, (False, 0, 0, 0, 0, 0, [], [], []), first_priority g))"

definition sort_group ::
  "(string \<rightharpoonup> adaptive_sort_score) \<Rightarrow> (resolved_target \<Rightarrow> bool) \<Rightarrow> resolved_target list \<Rightarrow> resolved_target list" where
  "sort_group scores disp g = sort_key (target_rank scores) (filter disp g) @ filter (\<lambda>t. \<not> disp t) g"

definition adaptive_groups ::
  "(string \<rightharpoonup> adaptive_sort_score) \<Rightarrow> (resolved_target \<Rightarrow> bool) \<Rightarrow> resolved_target list list
    \<Rightarrow> resolved_target list list" where
  "adaptive_groups scores disp gs = sort_key (group_rank scores disp) (map (sort_group scores disp) gs)"

lemma compare_targets_rank:
  assumes "scores (adaptive_candidate_key a) \<noteq> None" "scores (adaptive_candidate_key b) \<noteq> None"
  shows "compare_adaptive_targets scores a b = Some (cmp (target_rank scores a) (target_rank scores b))"
  using assms by (auto simp: compare_adaptive_targets_def compare_scores_key target_rank_def)

lemma mset_sort_group: "mset (sort_group scores disp g) = mset g"
  by (simp add: sort_group_def)

lemma find_in: "find P xs = Some x \<Longrightarrow> x \<in> set xs \<and> P x"
  by (metis find_Some_iff nth_mem)

lemma compare_groups_rank:
  assumes "\<And>t. t \<in> set a \<union> set b \<Longrightarrow> disp t \<Longrightarrow> scores (adaptive_candidate_key t) \<noteq> None"
  shows "compare_groups scores disp a b = Some (cmp (group_rank scores disp a) (group_rank scores disp b))"
proof (cases "find disp a"; cases "find disp b")
  fix x y assume xy: "find disp a = Some x" "find disp b = Some y"
  then have "scores (adaptive_candidate_key x) \<noteq> None" "scores (adaptive_candidate_key y) \<noteq> None"
    using assms [of x] assms [of y] find_in [OF xy(1)] find_in [OF xy(2)] by simp_all
  then show ?thesis
    using xy by (simp add: compare_groups_def group_rank_def compare_targets_rank cmp_pair)
       (cases "cmp (target_rank scores x) (target_rank scores y)"; simp add: cmp_def)
qed (auto simp: compare_groups_def group_rank_def cmp_def)

lemma sort_groups_eq:
  assumes "\<And>g t. g \<in> set gs \<Longrightarrow> t \<in> set g \<Longrightarrow> disp t \<Longrightarrow> scores (adaptive_candidate_key t) \<noteq> None"
  shows "sort_groups scores disp gs = Some (map (sort_group scores disp) gs)"
  using assms
proof (induction gs)
  case (Cons g gs)
  have "sort_by (compare_adaptive_targets scores) (filter disp g) = Some (sort_key (target_rank scores) (filter disp g))"
    using Cons.prems by (intro sort_by_key compare_targets_rank) auto
  moreover have "sort_groups scores disp gs = Some (map (sort_group scores disp) gs)"
    using Cons.prems by (intro Cons.IH) (auto simp del: not_None_eq)
  ultimately show ?case by (simp add: sort_group_def)
qed simp

lemma adaptive_eq:
  assumes "\<And>g t. g \<in> set gs \<Longrightarrow> t \<in> set g \<Longrightarrow> disp t \<Longrightarrow> scores (adaptive_candidate_key t) \<noteq> None"
  shows "adaptive scores disp gs = Some (adaptive_groups scores disp gs)"
proof -
  have sets: "set (sort_group scores disp g) = set g" for g
    by (metis mset_sort_group set_mset_mset)
  have "sort_by (compare_groups scores disp) (map (sort_group scores disp) gs) =
      Some (sort_key (group_rank scores disp) (map (sort_group scores disp) gs))"
    using assms by (intro sort_by_key compare_groups_rank) (auto simp: sets)
  moreover have "sort_groups scores disp gs = Some (map (sort_group scores disp) gs)"
    using assms by (intro sort_groups_eq)
  ultimately show ?thesis by (simp add: adaptive_def adaptive_groups_def)
qed

interpretation rr: arrangement "round_robin n" for n
  by unfold_locales (simp add: round_robin_def mset_rotate flip: rotate_map)

interpretation wt: arrangement "weighted pick" for pick
  by unfold_locales (simp add: weighted_def Let_def mset_rotate)

interpretation least: arrangement "least_used usage" for usage
  by unfold_locales (simp add: least_used_def Let_def)

interpretation prio: arrangement "sort_key first_priority"
  by unfold_locales simp

interpretation adapt: arrangement "adaptive_groups scores disp" for scores disp
  by unfold_locales (simp add: adaptive_groups_def image_mset.compositionality comp_def mset_sort_group)

subsection \<open>An ordering pass\<close>

lemma order_adaptive_eq:
  fixes cd wall inst s targets
  defines "disp \<equiv> \<lambda>t. adaptive_candidate_key t \<in> dispatchable_keys cd wall targets"
  assumes "mset (concat gs) = mset targets"
  shows "\<exists>scores. adaptive_scores wall inst s (filter disp targets) = Some scores \<and>
    (\<forall>t\<in>set targets. disp t \<longrightarrow> scores (adaptive_candidate_key t) \<noteq> None) \<and>
    order_adaptive cd wall inst s targets gs =
      Some \<lparr>ot_targets = concat (adaptive_groups scores disp gs),
        ot_quota_evidence = quota_evidence wall (os_quota s) (filter disp targets)\<rparr>"
proof -
  obtain scores where sc: "adaptive_scores wall inst s (filter disp targets) = Some scores"
      "\<forall>t\<in>set (filter disp targets). scores (adaptive_candidate_key t) \<noteq> None"
    using adaptive_scores_total by blast
  have "set (concat gs) = set targets" using assms(2) by (metis set_mset_mset)
  then have "adaptive scores disp gs = Some (adaptive_groups scores disp gs)"
    using sc(2) by (intro adaptive_eq) auto
  then show ?thesis using sc by (auto simp: order_adaptive_def Let_def disp_def)
qed

lemma mset_concat_groups:
  assumes "mset (map mset hs) = mset (map mset (group_targets ts))"
  shows "mset (concat hs) = mset ts"
proof -
  have "mset (concat xs) = sum_mset (mset (map mset xs))" for xs :: "resolved_target list list"
    unfolding mset_concat by (rule sum_mset_sum_list [symmetric])
  then show ?thesis using assms mset_group_targets [of ts] by metis
qed

text \<open>The first of two ranked targets has capacity when the second has.\<close>

lemma rank_prefers_capacity:
  assumes "score_key a \<le> score_key b"
  shows "(as_has_capacity b \<longrightarrow> as_has_capacity a) \<and> compare_scores a b \<noteq> Greater"
  using assms by (auto simp: score_key_def compare_scores_key less_le_not_le)

lemma sort_group_shape:
  assumes "\<And>t. t \<in> set g \<Longrightarrow> disp t \<Longrightarrow> scores (adaptive_candidate_key t) \<noteq> None"
  shows "\<exists>d u. sort_group scores disp g = d @ u \<and> (\<forall>t\<in>set d. disp t) \<and> (\<forall>t\<in>set u. \<not> disp t) \<and>
     sorted_wrt (\<lambda>x y. compare_adaptive_targets scores x y \<in> {Some Less, Some Equal}) d"
proof (intro exI conjI)
  let ?d = "sort_key (target_rank scores) (filter disp g)"
  have "sorted_wrt (\<lambda>x y. target_rank scores x \<le> target_rank scores y) ?d"
    using sorted_sort_key [of "target_rank scores"] by (simp add: sorted_map)
  then show "sorted_wrt (\<lambda>x y. compare_adaptive_targets scores x y \<in> {Some Less, Some Equal}) ?d"
  proof (rule sorted_wrt_mono_rel [rotated])
    fix x y assume "x \<in> set ?d" "y \<in> set ?d" "target_rank scores x \<le> target_rank scores y"
    moreover from this have "compare_adaptive_targets scores x y = Some (cmp (target_rank scores x) (target_rank scores y))"
      using assms by (intro compare_targets_rank) auto
    ultimately show "compare_adaptive_targets scores x y \<in> {Some Less, Some Equal}" by (auto simp: cmp_def)
  qed
qed (auto simp: sort_group_def)

lemma group_rank_le:
  assumes "group_rank scores disp g \<le> group_rank scores disp h" "find disp h = Some y"
  shows "\<exists>x. find disp g = Some x \<and> target_rank scores x \<le> target_rank scores y"
  using assms by (cases "find disp g") (auto simp: group_rank_def)

lemma order_route_targets_total:
  assumes "distinct (map (\<lambda>t. (group_key t, ac_id (rs_account t))) targets)"
    and "weights (map rs_account targets) \<le> I64_MAX"
  shows "\<exists>ot s' hs. order_route_targets cd wall inst draws pick route targets s = Some (ot, s') \<and>
    ot_targets ot = concat hs \<and> mset (map mset hs) = mset (map mset (group_targets targets)) \<and>
    mset (ot_targets ot) = mset targets"
proof -
  obtain gs where gs: "order_groups draws 0 (group_targets targets) = Some gs"
      "map mset gs = map mset (group_targets targets)"
    using ordered_groups_exist [OF assms] by blast
  have members: "mset (concat gs) = mset targets" by (rule mset_concat_groups) (simp only: gs(2))
  obtain scores disp ev where ad: "order_adaptive cd wall inst s targets gs =
      Some \<lparr>ot_targets = concat (adaptive_groups scores disp gs), ot_quota_evidence = ev\<rparr>"
    using order_adaptive_eq [OF members] by blast
  obtain n s' where n: "rr_next (rt_id route) s = (n, s')" by (cases "rr_next (rt_id route) s")
  have "\<exists>ot s' hs. order_route_targets cd wall inst draws pick route targets s = Some (ot, s') \<and>
      ot_targets ot = concat hs \<and> mset (map mset hs) = mset (map mset (group_targets targets))"
    using gs(1) n ad rr.keeps_groups [OF gs(2), of n] wt.keeps_groups [OF gs(2), of pick]
      adapt.keeps_groups [OF gs(2), of scores disp] least.keeps_groups [OF gs(2), of "os_usage s"]
      prio.keeps_groups [OF gs(2)]
    unfolding order_route_targets_def by (auto simp del: mset_map)
  then show ?thesis using mset_concat_groups by metis
qed

subsection \<open>Properties\<close>

text \<open>
  C6. Ordering a route loses no fallback. Whatever the strategy, the draws and the telemetry, an
  ordering pass over candidates that are distinct within their logical target, and whose account
  weights sum within 64 bits, does not panic; its result is the concatenation of the logical
  targets in some order, each with exactly its own accounts in some order: every candidate
  occurs exactly once and the accounts of a logical target stay together.
\<close>
theorem route_order_complete:
  assumes "distinct (map (\<lambda>t. (group_key t, ac_id (rs_account t))) targets)"
    and "weights (map rs_account targets) \<le> I64_MAX"
  shows "\<exists>ot s' hs. order_route_targets cd wall inst draws pick route targets s = Some (ot, s') \<and>
    ot_targets ot = concat hs \<and> mset (map mset hs) = mset (map mset (group_targets targets)) \<and>
    mset (ot_targets ot) = mset targets"
  using assms by (rule order_route_targets_total)

text \<open>Two accounts of one logical target, for the concrete runs.\<close>

definition demo_pair :: "resolved_target list" where
  "demo_pair = map (\<lambda>i. demo_resolved\<lparr>rs_account := demo_account i 1 1, rs_route_target_id := Some ''t''\<rparr>) [''a'', ''b'']"

definition demo_order_state :: order_state where
  "demo_order_state = \<lparr>os_quota = quota_empty, os_traffic = Map.empty, os_usage = None, os_rr_counters = Map.empty\<rparr>"

lemma demo_pair_ok:
  "distinct (map (\<lambda>t. (group_key t, ac_id (rs_account t))) demo_pair)"
  "weights (map rs_account demo_pair) \<le> I64_MAX"
  by (simp_all add: demo_pair_def demo_account_def account_weight_def I64_MAX_def)

theorem route_order_complete_witness:
  "\<exists>ot s'. order_route_targets demo_clock 0 0 (\<lambda>_ _ _. 0) (\<lambda>_. 0) (demo_route\<lparr>rt_strategy := ''weighted''\<rparr>)
      demo_pair demo_order_state = Some (ot, s') \<and> length (ot_targets ot) = 2"
proof -
  obtain ot s' where "order_route_targets demo_clock 0 0 (\<lambda>_ _ _. 0) (\<lambda>_. 0) (demo_route\<lparr>rt_strategy := ''weighted''\<rparr>)
      demo_pair demo_order_state = Some (ot, s')" "mset (ot_targets ot) = mset demo_pair"
    using route_order_complete [OF demo_pair_ok, of demo_clock 0 0 "\<lambda>_ _ _. 0" "\<lambda>_. 0"
        "demo_route\<lparr>rt_strategy := ''weighted''\<rparr>" demo_order_state] by blast
  moreover from this have "length (ot_targets ot) = length demo_pair" by (metis size_mset)
  ultimately show ?thesis by (simp add: demo_pair_def)
qed

text \<open>
  The adaptive strategy uses only dispatchable accounts as evidence and puts the best first.
  Every candidate it compares has a score; within a logical target the dispatchable accounts come
  first, in the comparator's order. A logical target with a dispatchable account is never behind
  one without, and of two with one, the earlier one's leading account compares not worse; in
  particular it has free capacity whenever the later one's has.
\<close>
theorem adaptive_prefers_capacity:
  assumes "distinct (map (\<lambda>t. (group_key t, ac_id (rs_account t))) targets)"
    and "weights (map rs_account targets) \<le> I64_MAX"
    and "rt_strategy route = ''adaptive''"
    and "disp = (\<lambda>t. adaptive_candidate_key t \<in> dispatchable_keys cd wall targets)"
    and "order_route_targets cd wall inst draws pick route targets s = Some (ot, s')"
  shows "\<exists>scores hs. adaptive_scores wall inst s (filter disp targets) = Some scores \<and> ot_targets ot = concat hs \<and>
    (\<forall>g\<in>set hs. \<exists>d u. g = d @ u \<and> (\<forall>t\<in>set d. disp t) \<and> (\<forall>t\<in>set u. \<not> disp t) \<and>
       sorted_wrt (\<lambda>x y. compare_adaptive_targets scores x y \<in> {Some Less, Some Equal}) d) \<and>
    sorted_wrt (\<lambda>g h. \<forall>y. find disp h = Some y \<longrightarrow>
       (\<exists>x a b. find disp g = Some x \<and> scores (adaptive_candidate_key x) = Some a \<and>
          scores (adaptive_candidate_key y) = Some b \<and>
          (as_has_capacity b \<longrightarrow> as_has_capacity a) \<and> compare_scores a b \<noteq> Greater)) hs"
proof -
  obtain gs where gs: "order_groups draws 0 (group_targets targets) = Some gs"
      "map mset gs = map mset (group_targets targets)"
    using ordered_groups_exist [OF assms(1,2)] by blast
  have members: "mset (concat gs) = mset targets" by (rule mset_concat_groups) (simp only: gs(2))
  obtain scores where sc: "adaptive_scores wall inst s (filter disp targets) = Some scores"
      "\<forall>t\<in>set targets. disp t \<longrightarrow> scores (adaptive_candidate_key t) \<noteq> None"
      "ot_targets ot = concat (adaptive_groups scores disp gs)"
    using order_adaptive_eq [OF members, where cd = cd and wall = wall and inst = inst and s = s] assms(3-5) gs(1)
    by (auto simp: order_route_targets_def)
  let ?hs = "adaptive_groups scores disp gs"
  have "set (concat ?hs) = set targets" using members adapt.keeps_members [of scores disp gs] by (metis set_mset_mset)
  then have known: "scores (adaptive_candidate_key t) \<noteq> None" if "g \<in> set ?hs" "t \<in> set g" "disp t" for g t
    using that sc(2) by auto
  have shape: "\<exists>d u. g = d @ u \<and> (\<forall>t\<in>set d. disp t) \<and> (\<forall>t\<in>set u. \<not> disp t) \<and>
       sorted_wrt (\<lambda>x y. compare_adaptive_targets scores x y \<in> {Some Less, Some Equal}) d" if g: "g \<in> set ?hs" for g
  proof -
    obtain g0 where g0: "g = sort_group scores disp g0" using g by (auto simp: adaptive_groups_def)
    then have "set g0 = set g" by (metis mset_sort_group set_mset_mset)
    then show ?thesis using sort_group_shape [of g0 disp scores] known [OF g] g0 by blast
  qed
  have "sorted_wrt (\<lambda>g h. group_rank scores disp g \<le> group_rank scores disp h) ?hs"
    unfolding adaptive_groups_def using sorted_sort_key [of "group_rank scores disp"] by (simp only: sorted_map)
  then have "sorted_wrt (\<lambda>g h. \<forall>y. find disp h = Some y \<longrightarrow>
       (\<exists>x a b. find disp g = Some x \<and> scores (adaptive_candidate_key x) = Some a \<and>
          scores (adaptive_candidate_key y) = Some b \<and>
          (as_has_capacity b \<longrightarrow> as_has_capacity a) \<and> compare_scores a b \<noteq> Greater)) ?hs"
  proof (rule sorted_wrt_mono_rel [rotated], intro allI impI)
    fix g h y assume gh: "g \<in> set ?hs" "h \<in> set ?hs" "group_rank scores disp g \<le> group_rank scores disp h"
      and y: "find disp h = Some y"
    obtain x where x: "find disp g = Some x" "target_rank scores x \<le> target_rank scores y"
      using group_rank_le [OF gh(3) y] by blast
    obtain a b where "scores (adaptive_candidate_key x) = Some a" "scores (adaptive_candidate_key y) = Some b"
      using known [OF gh(1)] known [OF gh(2)] find_in [OF x(1)] find_in [OF y] by blast
    then show "\<exists>x a b. find disp g = Some x \<and> scores (adaptive_candidate_key x) = Some a \<and>
          scores (adaptive_candidate_key y) = Some b \<and>
          (as_has_capacity b \<longrightarrow> as_has_capacity a) \<and> compare_scores a b \<noteq> Greater"
      using x rank_prefers_capacity [of a b] by (auto simp: target_rank_def)
  qed
  then show ?thesis using sc shape by blast
qed

theorem adaptive_prefers_capacity_witness:
  "\<exists>ot s'. order_route_targets demo_clock 0 0 (\<lambda>_ _ _. 0) (\<lambda>_. 0) (demo_route\<lparr>rt_strategy := ''adaptive''\<rparr>)
      demo_pair demo_order_state = Some (ot, s') \<and>
    (\<exists>scores. adaptive_scores 0 0 demo_order_state demo_pair = Some scores)"
proof -
  let ?disp = "\<lambda>t. adaptive_candidate_key t \<in> dispatchable_keys demo_clock 0 demo_pair"
  let ?run = "order_route_targets demo_clock 0 0 (\<lambda>_ _ _. 0) (\<lambda>_. 0) (demo_route\<lparr>rt_strategy := ''adaptive''\<rparr>)
      demo_pair demo_order_state"
  obtain ot s' where run: "?run = Some (ot, s')"
    using order_route_targets_total [OF demo_pair_ok] by metis
  have all: "filter ?disp demo_pair = demo_pair"
    by (simp add: dispatchable_keys_def demo_pair_def adaptive_account_dispatchable_def effective_status_def
        demo_account_def account_status_parse_def circuit_status_def Let_def)
  show ?thesis
    using adaptive_prefers_capacity [OF demo_pair_ok _ refl run] run all by auto
qed

text \<open>The groups that lead consecutive round-robin passes of a route.\<close>

fun rr_leads :: "string \<Rightarrow> 'a list \<Rightarrow> nat \<Rightarrow> order_state \<Rightarrow> 'a list" where
  "rr_leads r gs 0 s = []"
| "rr_leads r gs (Suc k) s = (let (n, s') = rr_next r s in hd (round_robin n gs) # rr_leads r gs k s')"

lemma hd_round_robin: "gs \<noteq> [] \<Longrightarrow> hd (round_robin n gs) = gs ! (n mod length gs)"
  by (simp add: round_robin_def hd_rotate_conv_nth)

lemma rr_leads_nth:
  assumes "gs \<noteq> []" "unwrap_or (os_rr_counters s r) 0 + k \<le> U64_MODULUS"
  shows "rr_leads r gs k s = map (\<lambda>i. gs ! ((unwrap_or (os_rr_counters s r) 0 + i) mod length gs)) [0..<k]"
  using assms(2)
proof (induction k arbitrary: s)
  case (Suc k)
  let ?c = "unwrap_or (os_rr_counters s r) 0"
  obtain s' where s': "rr_next r s = (?c, s')" by (simp add: rr_next_def Let_def)
  show ?case
  proof (cases "k = 0")
    case True
    then show ?thesis using s' hd_round_robin [OF assms(1), of ?c] by simp
  next
    case False
    then have "unwrap_or (os_rr_counters s' r) 0 = Suc ?c"
      using s' Suc.prems by (auto simp: rr_next_def Let_def unwrap_or_def)
    then have "rr_leads r gs k s' = map (\<lambda>i. gs ! ((Suc ?c + i) mod length gs)) [0..<k]"
      using Suc by simp
    moreover have "[0..<Suc k] = 0 # map Suc [0..<k]" by (simp add: map_Suc_upt upt_conv_Cons)
    ultimately show ?thesis using s' hd_round_robin [OF assms(1), of ?c] by (simp add: comp_def del: upt_Suc)
  qed
qed simp

text \<open>
  Round robin is fair: over as many consecutive passes of a route as it has logical targets, every
  logical target leads exactly once, until the 64-bit counter wraps.
\<close>
theorem round_robin_fair:
  assumes "gs \<noteq> []" "unwrap_or (os_rr_counters s r) 0 + length gs \<le> U64_MODULUS"
  shows "mset (rr_leads r gs (length gs) s) = mset gs"
proof -
  have "rr_leads r gs (length gs) s = rotate (unwrap_or (os_rr_counters s r) 0) gs"
    unfolding rr_leads_nth [OF assms] by (intro nth_equalityI) (simp_all add: nth_rotate add.commute)
  then show ?thesis by (simp add: mset_rotate)
qed

theorem round_robin_fair_witness:
  "mset (rr_leads ''r'' [''x'', ''y'', ''z''] 3 demo_order_state) = {#''x'', ''y'', ''z''#}"
  using round_robin_fair [of "[''x'', ''y'', ''z'']" demo_order_state "''r''"]
  by (simp add: demo_order_state_def unwrap_or_def U64_MODULUS_def numeral_3_eq_3 del: rr_leads.simps)

end
