(* ===== verification/Opaque_State.thy ===== *)
theory Opaque_State
  imports Route_Policy
begin

text \<open>
  Provider continuation state (\<^verbatim>\<open>src/src/opaque_state.rs\<close> and its use in
  \<^verbatim>\<open>src/src/pipeline.rs\<close>): signatures that a provider attaches to tool calls are kept under the
  identifier the client saw, in a bounded cache and, through a bounded queue and a worker, encrypted
  in a table; a later request of the same client gets a signature back only for the target that
  produced it and the same tool and session. Each operation is an atomic step. The monotonic clock
  \<open>now\<close>, the wall clock \<open>wall\<close>, nonces and whether a statement succeeds are arguments.
\<close>

section \<open>Definitions\<close>

datatype opaque_state_kind = GeminiThoughtSignature

fun kind_as_str :: "opaque_state_kind \<Rightarrow> string" where
  "kind_as_str GeminiThoughtSignature = ''gemini_thought_signature''"

record opaque_state_target =
  ost_kind :: opaque_state_kind
  ost_provider_id :: string
  ost_family :: string
  ost_producer :: string
  ost_model_id :: string

type_synonym opaque_client_scope = string

definition scope_for_key :: "string \<Rightarrow> opaque_client_scope" where
  "scope_for_key key_id = key_id"

definition scope_internal :: opaque_client_scope where
  "scope_internal = ''internal''"

datatype opaque_lookup_result =
    Missing | Compatible string | Incompatible | SessionMismatch | ToolNameMismatch | Unavailable

subsection \<open>Hashes\<close>

definition sha256_hex :: "cipher_suite \<Rightarrow> string \<Rightarrow> string" where
  "sha256_hex cs s = cs_hex cs (cs_sha256 cs s)"

definition scope_hash :: "cipher_suite \<Rightarrow> opaque_client_scope \<Rightarrow> string" where
  "scope_hash cs scope = sha256_hex cs scope"

definition tool_call_hash :: "cipher_suite \<Rightarrow> opaque_client_scope \<Rightarrow> string \<Rightarrow> string" where
  "tool_call_hash cs scope tool_call_id = sha256_hex cs (scope @ [CHR 0x00] @ tool_call_id)"

definition session_hash :: "cipher_suite \<Rightarrow> string \<Rightarrow> string" where
  "session_hash cs session = sha256_hex cs session"

definition tool_name_hash :: "cipher_suite \<Rightarrow> string \<Rightarrow> string" where
  "tool_name_hash cs name = sha256_hex cs name"

subsection \<open>State\<close>

definition MEMORY_TTL :: nanos where [const_defs]: "MEMORY_TTL = secs 3600"
definition PERSISTENT_TTL :: nanos where [const_defs]: "PERSISTENT_TTL = secs 86400"
definition MAX_MEMORY_ROWS :: nat where [const_defs]: "MAX_MEMORY_ROWS = 2048"
definition MAX_DB_ROWS :: nat where [const_defs]: "MAX_DB_ROWS = 10000"
definition PRUNE_EVERY_N_WRITES :: nat where [const_defs]: "PRUNE_EVERY_N_WRITES = 100"
definition DURABILITY_QUEUE_CAPACITY :: nat where [const_defs]: "DURABILITY_QUEUE_CAPACITY = 4096"

record opaque_cache_key =
  ck_kind :: string
  ck_scope_hash :: string
  ck_tool_call_hash :: string
  ck_provider_id :: string
  ck_family :: string
  ck_producer :: string
  ck_model_id :: string

record cached_opaque_state =
  co_signature :: string
  co_session_hash :: "string option"
  co_tool_name_hash :: string
  co_expires_at :: nanos

datatype opaque_counter =
    Capture_Stored | Capture_Replaced | Capture_Dropped | Capture_Storage_Error
  | Lookup_Hit | Lookup_Miss | Lookup_Expired | Lookup_Incompatible | Lookup_Session_Mismatch
  | Lookup_Tool_Name_Mismatch | Lookup_Decrypt_Error

text \<open>A queued write; its key is the cache key, whose model is the column \<open>origin_model\<close>.\<close>

record durability_write =
  dw_key :: opaque_cache_key
  dw_session_hash :: string
  dw_tool_name_hash :: string
  dw_signature :: string

text \<open>A row of the table \<^verbatim>\<open>opaque_provider_state\<close>, with its primary key.\<close>

record opaque_row =
  op_key :: opaque_cache_key
  op_session_hash :: string
  op_tool_name_hash :: string
  op_value_enc :: string
  op_created_at :: string
  op_expires_at :: string

record opaque_store =
  os_cache :: "opaque_cache_key \<rightharpoonup> cached_opaque_state"
  os_order :: "opaque_cache_key list"
  os_counters :: "opaque_counter \<Rightarrow> nat"
  os_durability :: "durability_write list"
  os_rows :: "opaque_row list"
  os_writes :: nat
  os_max_memory_rows :: nat

definition store_new :: "opaque_row list \<Rightarrow> opaque_store" where
  "store_new rows = \<lparr>os_cache = Map.empty, os_order = [], os_counters = (\<lambda>_. 0), os_durability = [],
     os_rows = rows, os_writes = 0, os_max_memory_rows = MAX_MEMORY_ROWS\<rparr>"

definition bump :: "opaque_counter \<Rightarrow> opaque_store \<Rightarrow> opaque_store" where
  "bump c s = s\<lparr>os_counters := (os_counters s)(c := wrap_add64 (os_counters s c) 1)\<rparr>"

definition opaque_metrics :: "opaque_store \<Rightarrow> (opaque_counter \<Rightarrow> nat) \<times> nat" where
  "opaque_metrics s = (os_counters s, card (dom (os_cache s)))"

subsection \<open>Capture\<close>

definition cache_key :: "opaque_state_target \<Rightarrow> string \<Rightarrow> string \<Rightarrow> opaque_cache_key" where
  "cache_key t scope_h call_h = \<lparr>ck_kind = kind_as_str (ost_kind t), ck_scope_hash = scope_h,
     ck_tool_call_hash = call_h, ck_provider_id = ost_provider_id t, ck_family = ost_family t,
     ck_producer = ost_producer t, ck_model_id = ost_model_id t\<rparr>"

definition touch_order :: "opaque_cache_key \<Rightarrow> opaque_store \<Rightarrow> opaque_store" where
  "touch_order k s =
     (let order = filter (\<lambda>e. e \<noteq> k) (os_order s) @ [k];
          over = length order - os_max_memory_rows s
      in s\<lparr>os_order := drop over order,
           os_cache := (os_cache s) |` (- set (take over order))\<rparr>)"

definition cache_insert ::
  "opaque_cache_key \<Rightarrow> cached_opaque_state \<Rightarrow> opaque_store \<Rightarrow> opaque_store" where
  "cache_insert k e s = touch_order k (s\<lparr>os_cache := (os_cache s)(k \<mapsto> e)\<rparr>)"

definition enqueue_write :: "durability_write \<Rightarrow> opaque_store \<Rightarrow> opaque_store" where
  "enqueue_write w s =
     (if length (os_durability s) < DURABILITY_QUEUE_CAPACITY
      then s\<lparr>os_durability := os_durability s @ [w]\<rparr> else bump Capture_Dropped s)"

definition capture_tool_signature ::
  "cipher_suite \<Rightarrow> nanos \<Rightarrow> opaque_client_scope \<Rightarrow> opaque_state_target \<Rightarrow> string option \<Rightarrow> string \<Rightarrow> string
    \<Rightarrow> string \<Rightarrow> opaque_store \<Rightarrow> opaque_store" where
  "capture_tool_signature cs now scope t session tool_call_id name signature s0 =
     (if signature = [] \<or> tool_call_id = [] then s0
      else let sess = map_option (session_hash cs) session;
               name_h = tool_name_hash cs name;
               k = cache_key t (scope_hash cs scope) (tool_call_hash cs scope tool_call_id);
               replaced = is_some_and (\<lambda>e. co_signature e \<noteq> signature) (os_cache s0 k);
               s1 = cache_insert k \<lparr>co_signature = signature, co_session_hash = sess,
                      co_tool_name_hash = name_h, co_expires_at = now + MEMORY_TTL\<rparr> s0;
               s2 = (if replaced then bump Capture_Replaced s1 else s1)
           in enqueue_write \<lparr>dw_key = k, dw_session_hash = unwrap_or sess [], dw_tool_name_hash = name_h,
                dw_signature = signature\<rparr> s2)"

subsection \<open>Durability worker\<close>

definition upsert_row :: "opaque_row \<Rightarrow> opaque_row list \<Rightarrow> opaque_row list" where
  "upsert_row r rows =
     (if op_key r \<in> op_key ` set rows then map (\<lambda>x. if op_key x = op_key r then r else x) rows else rows @ [r])"

definition persist_opaque_state ::
  "cipher_suite \<Rightarrow> crypto \<Rightarrow> codec \<Rightarrow> nanos \<Rightarrow> string \<Rightarrow> bool \<Rightarrow> durability_write \<Rightarrow> opaque_store \<Rightarrow> opaque_store" where
  "persist_opaque_state cs c cd wall nonce ok w s =
     (case encrypt_opaque_state cs c nonce (dw_signature w) of
        Inl _ \<Rightarrow> bump Capture_Storage_Error s
      | Inr enc \<Rightarrow>
          if ok
          then bump Capture_Stored (s\<lparr>os_rows := upsert_row
                 \<lparr>op_key = dw_key w, op_session_hash = dw_session_hash w,
                  op_tool_name_hash = dw_tool_name_hash w, op_value_enc = enc,
                  op_created_at = to_rfc3339 cd wall,
                  op_expires_at = to_rfc3339 cd (wall + PERSISTENT_TTL)\<rparr> (os_rows s)\<rparr>)
          else bump Capture_Storage_Error s)"

definition prune_rows :: "codec \<Rightarrow> nanos \<Rightarrow> opaque_row list \<Rightarrow> opaque_row list" where
  "prune_rows cd wall rows =
     (let live = filter (\<lambda>r. \<not> op_expires_at r < to_rfc3339 cd wall) rows
      in if length live > MAX_DB_ROWS
         then let oldest = take (length live - MAX_DB_ROWS) (sort_key op_created_at live)
              in filter (\<lambda>r. r \<notin> set oldest) live
         else live)"

definition durability_step ::
  "cipher_suite \<Rightarrow> crypto \<Rightarrow> codec \<Rightarrow> nanos \<Rightarrow> string \<Rightarrow> bool \<Rightarrow> opaque_store \<Rightarrow> opaque_store" where
  "durability_step cs c cd wall nonce ok s =
     (case os_durability s of
        [] \<Rightarrow> s
      | w # rest \<Rightarrow>
          let s1 = persist_opaque_state cs c cd wall nonce ok w (s\<lparr>os_durability := rest\<rparr>);
              n = wrap_add64 (os_writes s1) 1;
              s2 = s1\<lparr>os_writes := n\<rparr>
          in if n mod PRUNE_EVERY_N_WRITES = 0 then s2\<lparr>os_rows := prune_rows cd wall (os_rows s2)\<rparr> else s2)"
subsection \<open>Lookup\<close>

definition opt_text :: "string \<Rightarrow> string option" where
  "opt_text s = (if s = [] then None else Some s)"

definition fetch_rows :: "codec \<Rightarrow> nanos \<Rightarrow> string \<Rightarrow> string \<Rightarrow> opaque_row list \<Rightarrow> opaque_row list" where
  "fetch_rows cd wall scope_h call_h rows =
     filter (\<lambda>r. op_expires_at r \<ge> to_rfc3339 cd wall)
       (rev (sort_key op_created_at
          (rev (filter (\<lambda>r. ck_scope_hash (op_key r) = scope_h \<and> ck_tool_call_hash (op_key r) = call_h) rows))))"

definition row_matches :: "opaque_state_target \<Rightarrow> opaque_row \<Rightarrow> bool" where
  "row_matches t r \<longleftrightarrow> ck_kind (op_key r) = kind_as_str (ost_kind t) \<and>
     ck_provider_id (op_key r) = ost_provider_id t \<and> ck_family (op_key r) = ost_family t \<and>
     ck_producer (op_key r) = ost_producer t \<and> ck_model_id (op_key r) = ost_model_id t"

text \<open>Both sides carry a session and the two differ.\<close>

definition session_conflict :: "cipher_suite \<Rightarrow> string option \<Rightarrow> string option \<Rightarrow> bool" where
  "session_conflict cs stored session =
     (case (stored, session) of (Some h, Some x) \<Rightarrow> h \<noteq> session_hash cs x | _ \<Rightarrow> False)"

definition identity_mismatch ::
  "cipher_suite \<Rightarrow> opaque_row \<Rightarrow> string option \<Rightarrow> string \<Rightarrow> opaque_store \<Rightarrow> (opaque_lookup_result \<times> opaque_store) option" where
  "identity_mismatch cs r session name s =
     (if op_tool_name_hash r \<noteq> tool_name_hash cs name
      then Some (ToolNameMismatch, bump Lookup_Tool_Name_Mismatch s)
      else if session_conflict cs (opt_text (op_session_hash r)) session
      then Some (SessionMismatch, bump Lookup_Session_Mismatch s)
      else None)"

definition evaluate_cached ::
  "cipher_suite \<Rightarrow> cached_opaque_state \<Rightarrow> string option \<Rightarrow> string \<Rightarrow> opaque_store \<Rightarrow> opaque_lookup_result \<times> opaque_store" where
  "evaluate_cached cs e session name s =
     (if co_tool_name_hash e \<noteq> tool_name_hash cs name
      then (ToolNameMismatch, bump Lookup_Tool_Name_Mismatch s)
      else if session_conflict cs (co_session_hash e) session
      then (SessionMismatch, bump Lookup_Session_Mismatch s)
      else (Compatible (co_signature e), bump Lookup_Hit s))"

definition restore_row ::
  "cipher_suite \<Rightarrow> crypto \<Rightarrow> nanos \<Rightarrow> opaque_row \<Rightarrow> opaque_state_target \<Rightarrow> string \<Rightarrow> string \<Rightarrow> opaque_store
    \<Rightarrow> opaque_lookup_result \<times> opaque_store" where
  "restore_row cs c now r t scope_h call_h s =
     (case decrypt_opaque_state cs c (op_value_enc r) of
        Inl _ \<Rightarrow> (Unavailable, bump Lookup_Decrypt_Error s)
      | Inr signature \<Rightarrow>
          (Compatible signature,
           bump Lookup_Hit (cache_insert (cache_key t scope_h call_h)
             \<lparr>co_signature = signature, co_session_hash = opt_text (op_session_hash r),
              co_tool_name_hash = op_tool_name_hash r, co_expires_at = now + MEMORY_TTL\<rparr> s)))"

definition resolve_rows ::
  "cipher_suite \<Rightarrow> crypto \<Rightarrow> codec \<Rightarrow> nanos \<Rightarrow> nanos \<Rightarrow> string \<Rightarrow> string \<Rightarrow> opaque_state_target option
    \<Rightarrow> string option \<Rightarrow> string \<Rightarrow> opaque_store \<Rightarrow> opaque_lookup_result \<times> opaque_store" where
  "resolve_rows cs c cd now wall scope_h call_h capability session name s =
     (let rows = fetch_rows cd wall scope_h call_h (os_rows s)
      in if rows = [] then (Missing, bump Lookup_Miss s)
         else case (case capability of None \<Rightarrow> None
                    | Some t \<Rightarrow> map_option (Pair t) (find (row_matches t) rows)) of
           Some (t, r) \<Rightarrow>
             (case identity_mismatch cs r session name s of
                Some m \<Rightarrow> m
              | None \<Rightarrow> restore_row cs c now r t scope_h call_h s)
         | None \<Rightarrow>
             let identity_rows = filter (\<lambda>r. op_tool_name_hash r = tool_name_hash cs name) rows;
                 session_rows = filter (\<lambda>r. \<not> session_conflict cs (opt_text (op_session_hash r)) session) identity_rows
             in if identity_rows = [] then (ToolNameMismatch, bump Lookup_Tool_Name_Mismatch s)
                else if session_rows = [] then (SessionMismatch, bump Lookup_Session_Mismatch s)
                else (Incompatible, bump Lookup_Incompatible s))"

definition resolve_tool_signature ::
  "cipher_suite \<Rightarrow> crypto \<Rightarrow> codec \<Rightarrow> nanos \<Rightarrow> nanos \<Rightarrow> opaque_client_scope \<Rightarrow> opaque_state_target option
    \<Rightarrow> string option \<Rightarrow> string \<Rightarrow> string \<Rightarrow> opaque_store \<Rightarrow> opaque_lookup_result \<times> opaque_store" where
  "resolve_tool_signature cs c cd now wall scope capability session tool_call_id name s =
     (let scope_h = scope_hash cs scope;
          call_h = tool_call_hash cs scope tool_call_id;
          from_rows = resolve_rows cs c cd now wall scope_h call_h capability session name
      in case capability of
           None \<Rightarrow> from_rows s
         | Some t \<Rightarrow>
             let k = cache_key t scope_h call_h
             in case os_cache s k of
                  None \<Rightarrow> from_rows s
                | Some e \<Rightarrow>
                    if co_expires_at e < now
                    then from_rows (bump Lookup_Expired (s\<lparr>os_cache := (os_cache s)(k := None)\<rparr>))
                    else evaluate_cached cs e session name s)"

subsection \<open>Use by the pipeline\<close>

definition report_default :: opaque_report where
  "report_default = \<lparr>or_restored = 0, or_incompatible = 0, or_incompatible_ids = [], or_unavailable = 0,
     or_restorations = []\<rparr>"

fun unsigned_call :: "part \<Rightarrow> (string \<times> string) option" where
  "unsigned_call (ToolCall (Some i) name _ None) = Some (i, name)"
| "unsigned_call _ = None"

definition unsigned_calls :: "internal_request \<Rightarrow> (string \<times> string) list" where
  "unsigned_calls req = List.map_filter unsigned_call (concat (map msg_parts (rq_messages req)))"

definition client_scope :: "string option \<Rightarrow> opaque_client_scope" where
  "client_scope key_id = (case key_id of Some k \<Rightarrow> scope_for_key k | None \<Rightarrow> scope_internal)"

text \<open>The lookups of one request, each with its clock readings.\<close>

fun resolve_calls ::
  "(string \<Rightarrow> string \<Rightarrow> opaque_store \<Rightarrow> opaque_lookup_result \<times> opaque_store) \<Rightarrow> (string \<times> string) list
    \<Rightarrow> opaque_report \<Rightarrow> opaque_store \<Rightarrow> (proxy_error + opaque_report) \<times> opaque_store" where
  "resolve_calls look [] r s = (Inr r, s)"
| "resolve_calls look ((i, name) # calls) r s =
     (case look i name s of
        (Compatible signature, s') \<Rightarrow> resolve_calls look calls
          (r\<lparr>or_restored := or_restored r + 1, or_restorations := or_restorations r @ [(i, signature)]\<rparr>) s'
      | (Incompatible, s') \<Rightarrow> resolve_calls look calls
          (r\<lparr>or_incompatible := or_incompatible r + 1, or_incompatible_ids := or_incompatible_ids r @ [i]\<rparr>) s'
      | (Unavailable, s') \<Rightarrow> resolve_calls look calls (r\<lparr>or_unavailable := or_unavailable r + 1\<rparr>) s'
      | (ToolNameMismatch, s') \<Rightarrow>
          (Inl (pe_bad_request (''tool call id '' @ [CHR 0x27] @ i @ [CHR 0x27] @
             '' was reused with a different tool name'')), s')
      | (SessionMismatch, s') \<Rightarrow> resolve_calls look calls r s'
      | (Missing, s') \<Rightarrow> resolve_calls look calls r s')"

definition resolve_opaque_state ::
  "cipher_suite \<Rightarrow> crypto \<Rightarrow> codec \<Rightarrow> nanos \<Rightarrow> nanos \<Rightarrow> internal_request \<Rightarrow> string option \<Rightarrow> string option
    \<Rightarrow> opaque_state_target option \<Rightarrow> opaque_store \<Rightarrow> (proxy_error + opaque_report) \<times> opaque_store" where
  "resolve_opaque_state cs c cd now wall req key_id session capability s =
     (if unsigned_calls req = [] then (Inr report_default, s)
      else resolve_calls (\<lambda>i name. resolve_tool_signature cs c cd now wall (client_scope key_id) capability session i name)
             (unsigned_calls req) report_default s)"

fun capture_event ::
  "cipher_suite \<Rightarrow> nanos \<Rightarrow> opaque_client_scope \<Rightarrow> opaque_state_target \<Rightarrow> string option \<Rightarrow> stream_event
    \<Rightarrow> opaque_store \<Rightarrow> opaque_store" where
  "capture_event cs now scope t session (ToolCallStart index (Some i) name (Some signature)) s =
     capture_tool_signature cs now scope t session i name signature s"
| "capture_event cs now scope t session e s = s"

definition capture_opaque_state ::
  "cipher_suite \<Rightarrow> nanos \<Rightarrow> opaque_client_scope \<Rightarrow> opaque_state_target \<Rightarrow> string option \<Rightarrow> stream_event list
    \<Rightarrow> opaque_store \<Rightarrow> opaque_store" where
  "capture_opaque_state cs now scope t session events = fold (capture_event cs now scope t session) events"

section \<open>Runs\<close>

record capture =
  cap_scope :: opaque_client_scope
  cap_target :: opaque_state_target
  cap_session :: "string option"
  cap_id :: string
  cap_name :: string
  cap_signature :: string

definition perform_capture :: "cipher_suite \<Rightarrow> nanos \<Rightarrow> capture \<Rightarrow> opaque_store \<Rightarrow> opaque_store" where
  "perform_capture cs now p = capture_tool_signature cs now (cap_scope p) (cap_target p) (cap_session p)
     (cap_id p) (cap_name p) (cap_signature p)"

text \<open>
  Any interleaving of captures, worker steps and lookups, from an empty store; the list records the captures. A restart
  loses the cache and the queue and keeps the rows.
\<close>

inductive opaque_run :: "cipher_suite \<Rightarrow> crypto \<Rightarrow> codec \<Rightarrow> capture list \<Rightarrow> opaque_store \<Rightarrow> bool"
  for cs c cd where
  run_start: "opaque_run cs c cd [] (store_new [])"
| run_capture: "opaque_run cs c cd caps s \<Longrightarrow> opaque_run cs c cd (caps @ [p]) (perform_capture cs now p s)"
| run_worker: "opaque_run cs c cd caps s \<Longrightarrow> length nonce = 12 \<Longrightarrow>
    opaque_run cs c cd caps (durability_step cs c cd wall nonce ok s)"
| run_lookup: "opaque_run cs c cd caps s \<Longrightarrow>
    opaque_run cs c cd caps (snd (resolve_tool_signature cs c cd now wall scope cap session i name s))"
| run_restart: "opaque_run cs c cd caps s \<Longrightarrow> opaque_run cs c cd caps (store_new (os_rows s))"

text \<open>
  What is relied on of the cryptography: a sealed message is opened by the same key and nonce, base64 round
  trips, and hashes are not empty and do not collide.
\<close>

definition sound_suite :: "cipher_suite \<Rightarrow> bool" where
  "sound_suite cs \<longleftrightarrow> (\<forall>k n p ct. cs_seal cs k n p = Some ct \<longrightarrow> cs_open cs k n ct = Some p) \<and>
     (\<forall>x. cs_b64_decode cs (cs_b64_encode cs x) = Some x) \<and>
     inj (sha256_hex cs) \<and> (\<forall>x. sha256_hex cs x \<noteq> [])"

section \<open>Lemmas\<close>

lemma bump_frame [simp]:
  "os_cache (bump x s) = os_cache s" "os_order (bump x s) = os_order s"
  "os_durability (bump x s) = os_durability s" "os_rows (bump x s) = os_rows s"
  "os_max_memory_rows (bump x s) = os_max_memory_rows s" "os_writes (bump x s) = os_writes s"
  by (simp_all add: bump_def)

lemma touch_order_frame [simp]:
  "os_durability (touch_order k s) = os_durability s" "os_rows (touch_order k s) = os_rows s"
  "os_max_memory_rows (touch_order k s) = os_max_memory_rows s"
  by (simp_all add: touch_order_def Let_def)

lemma cache_insert_frame [simp]:
  "os_durability (cache_insert k e s) = os_durability s" "os_rows (cache_insert k e s) = os_rows s"
  "os_max_memory_rows (cache_insert k e s) = os_max_memory_rows s"
  by (simp_all add: cache_insert_def)

lemma cache_insert_lookup: "os_cache (cache_insert k e s) k' = Some x \<Longrightarrow> (k' = k \<and> x = e) \<or> os_cache s k' = Some x"
  by (auto simp: cache_insert_def touch_order_def Let_def restrict_map_def split: if_splits)

lemma cache_insert_same:
  assumes "os_max_memory_rows s \<ge> 1"
  shows "os_cache (cache_insert k e s) k = Some e"
proof -
  let ?front = "filter (\<lambda>x. x \<noteq> k) (os_order s)"
  have "take (length (?front @ [k]) - os_max_memory_rows s) (?front @ [k]) =
      take (length (?front @ [k]) - os_max_memory_rows s) ?front"
    using assms by simp
  then have "k \<notin> set (take (length (?front @ [k]) - os_max_memory_rows s) (?front @ [k]))"
    by (auto dest: in_set_takeD)
  then show ?thesis by (simp add: cache_insert_def touch_order_def Let_def)
qed

lemma enqueue_frame [simp]:
  "os_cache (enqueue_write w s) = os_cache s" "os_rows (enqueue_write w s) = os_rows s"
  "os_order (enqueue_write w s) = os_order s" "os_max_memory_rows (enqueue_write w s) = os_max_memory_rows s"
  by (simp_all add: enqueue_write_def)

lemma enqueue_queue: "set (os_durability (enqueue_write w s)) \<subseteq> insert w (set (os_durability s))"
  by (auto simp: enqueue_write_def)

subsection \<open>The cache is bounded\<close>

definition order_inv :: "opaque_store \<Rightarrow> bool" where
  "order_inv s \<longleftrightarrow> distinct (os_order s) \<and> length (os_order s) \<le> os_max_memory_rows s \<and>
     dom (os_cache s) \<subseteq> set (os_order s)"

lemma order_inv_touch:
  assumes "distinct (os_order s)" "dom (os_cache s) \<subseteq> insert k (set (os_order s))"
  shows "order_inv (touch_order k s)"
proof -
  define ks where "ks = filter (\<lambda>e. e \<noteq> k) (os_order s) @ [k]"
  define n where "n = length ks - os_max_memory_rows s"
  have "distinct ks" "set ks = insert k (set (os_order s))" using assms(1) by (auto simp: ks_def)
  moreover have "touch_order k s = s\<lparr>os_order := drop n ks, os_cache := os_cache s |` (- set (take n ks))\<rparr>"
    by (simp add: touch_order_def Let_def ks_def n_def)
  moreover have "set ks = set (take n ks) \<union> set (drop n ks)" by (metis append_take_drop_id set_append)
  moreover have "length (drop n ks) \<le> os_max_memory_rows s" by (simp add: n_def)
  ultimately show ?thesis using assms(2) by (auto simp: order_inv_def)
qed

lemma order_inv_insert: "order_inv s \<Longrightarrow> order_inv (cache_insert k e s)"
  unfolding cache_insert_def by (rule order_inv_touch) (auto simp: order_inv_def)

lemma order_inv_cong:
  "os_order s' = os_order s \<Longrightarrow> os_cache s' = os_cache s \<Longrightarrow> os_max_memory_rows s' = os_max_memory_rows s \<Longrightarrow>
   order_inv s' = order_inv s"
  by (simp add: order_inv_def)

lemma order_inv_capture: "order_inv s \<Longrightarrow> order_inv (perform_capture cs now p s)"
  by (auto simp: perform_capture_def capture_tool_signature_def Let_def order_inv_cong [OF enqueue_frame(3,1,4)]
      order_inv_cong [OF bump_frame(2,1,5)] intro: order_inv_insert)

lemma persist_frame [simp]:
  "os_cache (persist_opaque_state cs c cd wall nonce ok w s) = os_cache s"
  "os_order (persist_opaque_state cs c cd wall nonce ok w s) = os_order s"
  "os_durability (persist_opaque_state cs c cd wall nonce ok w s) = os_durability s"
  "os_max_memory_rows (persist_opaque_state cs c cd wall nonce ok w s) = os_max_memory_rows s"
  by (simp_all add: persist_opaque_state_def split: sum.splits)

lemma durability_frame [simp]:
  "os_cache (durability_step cs c cd wall nonce ok s) = os_cache s"
  "os_order (durability_step cs c cd wall nonce ok s) = os_order s"
  "os_max_memory_rows (durability_step cs c cd wall nonce ok s) = os_max_memory_rows s"
  by (simp_all add: durability_step_def Let_def split: list.splits)

text \<open>A lookup leaves queue, table and bound alone, and changes the cache by an expiry and an insertion at most.\<close>

lemma resolve_rows_cases:
  "resolve_rows cs c cd now wall sh ch cap session name s = (res, s') \<Longrightarrow>
   (\<exists>x. s' = bump x s \<and> (\<forall>sig. res \<noteq> Compatible sig)) \<or>
   (\<exists>t r sig x. cap = Some t \<and> r \<in> set (os_rows s) \<and> op_key r = cache_key t sh ch \<and>
      op_tool_name_hash r = tool_name_hash cs name \<and>
      \<not> session_conflict cs (opt_text (op_session_hash r)) session \<and>
      decrypt_opaque_state cs c (op_value_enc r) = Inr sig \<and> res = Compatible sig \<and>
      s' = bump x (cache_insert (cache_key t sh ch)
             \<lparr>co_signature = sig, co_session_hash = opt_text (op_session_hash r),
              co_tool_name_hash = op_tool_name_hash r, co_expires_at = now + MEMORY_TTL\<rparr> s))"
proof -
  assume run: "resolve_rows cs c cd now wall sh ch cap session name s = (res, s')"
  define rows where "rows = fetch_rows cd wall sh ch (os_rows s)"
  show ?thesis
  proof (cases "case cap of None \<Rightarrow> None | Some t \<Rightarrow> map_option (Pair t) (find (row_matches t) rows)")
    case None
    then show ?thesis using run unfolding resolve_rows_def rows_def [symmetric] Let_def
      by (auto split: if_splits)
  next
    case (Some tr)
    then obtain t r where tr: "cap = Some t" "find (row_matches t) rows = Some r" "tr = (t, r)"
      by (auto split: option.splits)
    then have r: "r \<in> set rows" "row_matches t r" by (metis find_Some_iff nth_mem)+
    then have mem: "r \<in> set (os_rows s)" "ck_scope_hash (op_key r) = sh" "ck_tool_call_hash (op_key r) = ch"
      by (auto simp: rows_def fetch_rows_def)
    have key: "op_key r = cache_key t sh ch"
      using r(2) mem by (simp add: row_matches_def cache_key_def)
    have ne: "rows \<noteq> []" using r(1) by auto
    have out: "(case identity_mismatch cs r session name s of Some m \<Rightarrow> m
           | None \<Rightarrow> restore_row cs c now r t sh ch s) = (res, s')"
      using run ne Some unfolding resolve_rows_def rows_def [symmetric] Let_def by (simp add: tr)
    show ?thesis
    proof (cases "identity_mismatch cs r session name s")
      case None
      then have ids: "op_tool_name_hash r = tool_name_hash cs name"
          "\<not> session_conflict cs (opt_text (op_session_hash r)) session"
        by (auto simp: identity_mismatch_def split: if_splits)
      show ?thesis
      proof (cases "decrypt_opaque_state cs c (op_value_enc r)")
        case (Inl e)
        then show ?thesis using out None by (auto simp: restore_row_def)
      next
        case (Inr sig)
        then have "res = Compatible sig" "s' = bump Lookup_Hit (cache_insert (cache_key t sh ch)
             \<lparr>co_signature = sig, co_session_hash = opt_text (op_session_hash r),
              co_tool_name_hash = op_tool_name_hash r, co_expires_at = now + MEMORY_TTL\<rparr> s)"
          using out None by (simp_all add: restore_row_def)
        then show ?thesis using tr(1) mem(1) key ids Inr by blast
      qed
    next
      case (Some m)
      then show ?thesis using out by (auto simp: identity_mismatch_def split: if_splits)
    qed
  qed
qed

text \<open>The same for a whole lookup: it answers from the cache, or from the table after an expiry.\<close>

lemma resolve_cases:
  assumes "resolve_tool_signature cs c cd now wall scope cap session i name s = (res, s')"
  defines "sh \<equiv> scope_hash cs scope" and "ch \<equiv> tool_call_hash cs scope i"
  obtains (cached) t e x where "cap = Some t" "os_cache s (cache_key t sh ch) = Some e" "s' = bump x s"
      "\<And>sig. res = Compatible sig \<Longrightarrow> sig = co_signature e \<and> co_tool_name_hash e = tool_name_hash cs name
         \<and> \<not> session_conflict cs (co_session_hash e) session"
  | (rows) s1 where "resolve_rows cs c cd now wall sh ch cap session name s1 = (res, s')"
      "s1 = s \<or> (\<exists>k. s1 = bump Lookup_Expired (s\<lparr>os_cache := (os_cache s)(k := None)\<rparr>))"
proof (cases cap)
  case None
  then show ?thesis using assms by (intro rows [of s]) (simp_all add: resolve_tool_signature_def)
next
  case (Some t)
  let ?k = "cache_key t sh ch"
  show ?thesis
  proof (cases "os_cache s ?k")
    case None
    then show ?thesis using assms Some by (intro rows [of s]) (simp_all add: resolve_tool_signature_def Let_def)
  next
    case e: (Some e)
    show ?thesis
    proof (cases "co_expires_at e < now")
      case True
      then show ?thesis using assms Some e
        by (intro rows [of "bump Lookup_Expired (s\<lparr>os_cache := (os_cache s)(?k := None)\<rparr>)"])
           (auto simp: resolve_tool_signature_def Let_def)
    next
      case False
      then have ev: "evaluate_cached cs e session name s = (res, s')"
        using assms Some e by (simp add: resolve_tool_signature_def Let_def)
      then obtain x where "s' = bump x s" by (auto simp: evaluate_cached_def split: if_splits)
      then show ?thesis using Some e ev
        by (intro cached [of t e x]) (auto simp: evaluate_cached_def split: if_splits)
    qed
  qed
qed

lemma resolve_rows_state:
  assumes "resolve_rows cs c cd now wall sh ch cap session name s = (res, s')"
  obtains x where "s' = bump x s" | x k e where "s' = bump x (cache_insert k e s)"
  using resolve_rows_cases [OF assms] by blast

lemma order_inv_expire: "order_inv s \<Longrightarrow> order_inv (bump x (s\<lparr>os_cache := (os_cache s)(k := None)\<rparr>))"
  by (simp add: order_inv_def) blast

lemma lookup_keeps:
  assumes "order_inv s"
  shows "order_inv (snd (resolve_tool_signature cs c cd now wall scope cap session i name s))"
    and "os_max_memory_rows (snd (resolve_tool_signature cs c cd now wall scope cap session i name s)) = os_max_memory_rows s"
proof -
  obtain res s' where r: "resolve_tool_signature cs c cd now wall scope cap session i name s = (res, s')" by fastforce
  then have "order_inv s' \<and> os_max_memory_rows s' = os_max_memory_rows s"
  proof (cases rule: resolve_cases)
    case (cached t e x)
    then show ?thesis using assms by (simp add: order_inv_cong [OF bump_frame(2,1,5)])
  next
    case (rows s1)
    then have "order_inv s1" "os_max_memory_rows s1 = os_max_memory_rows s"
      using assms by (auto intro: order_inv_expire)
    with rows(1) show ?thesis
      by (cases rule: resolve_rows_state)
         (simp_all add: order_inv_cong [OF bump_frame(2,1,5)] order_inv_insert)
  qed
  then show "order_inv (snd (resolve_tool_signature cs c cd now wall scope cap session i name s))"
    and "os_max_memory_rows (snd (resolve_tool_signature cs c cd now wall scope cap session i name s)) = os_max_memory_rows s"
    using r by simp_all
qed

lemma run_order_inv: "opaque_run cs c cd caps s \<Longrightarrow> order_inv s \<and> os_max_memory_rows s = MAX_MEMORY_ROWS"
proof (induction rule: opaque_run.induct)
  case (run_capture caps s p now)
  then show ?case
    by (simp add: order_inv_capture) (simp add: perform_capture_def capture_tool_signature_def Let_def)
next
  case (run_worker caps s nonce wall ok)
  then show ?case by (simp add: order_inv_cong [OF durability_frame(2,1,3)])
next
  case (run_lookup caps s now wall scope cap session i name)
  then show ?case by (simp add: lookup_keeps)
qed (simp_all add: order_inv_def store_new_def)

subsection \<open>Every stored value comes from a capture\<close>

definition backed ::
  "cipher_suite \<Rightarrow> capture list \<Rightarrow> opaque_cache_key \<Rightarrow> string option \<Rightarrow> string \<Rightarrow> string \<Rightarrow> bool" where
  "backed cs caps k sess name_h sig \<longleftrightarrow>
     (\<exists>p\<in>set caps. k = cache_key (cap_target p) (scope_hash cs (cap_scope p)) (tool_call_hash cs (cap_scope p) (cap_id p)) \<and>
        sess = map_option (session_hash cs) (cap_session p) \<and> name_h = tool_name_hash cs (cap_name p) \<and>
        sig = cap_signature p)"

definition row_backed :: "cipher_suite \<Rightarrow> crypto \<Rightarrow> capture list \<Rightarrow> opaque_row \<Rightarrow> bool" where
  "row_backed cs c caps r \<longleftrightarrow>
     (\<exists>sig nonce. length nonce = 12 \<and> encrypt_opaque_state cs c nonce sig = Inr (op_value_enc r) \<and>
        backed cs caps (op_key r) (opt_text (op_session_hash r)) (op_tool_name_hash r) sig)"

definition provenance :: "cipher_suite \<Rightarrow> crypto \<Rightarrow> capture list \<Rightarrow> opaque_store \<Rightarrow> bool" where
  "provenance cs c caps s \<longleftrightarrow>
     (\<forall>k e. os_cache s k = Some e \<longrightarrow> backed cs caps k (co_session_hash e) (co_tool_name_hash e) (co_signature e)) \<and>
     (\<forall>w\<in>set (os_durability s). backed cs caps (dw_key w) (opt_text (dw_session_hash w)) (dw_tool_name_hash w) (dw_signature w)) \<and>
     (\<forall>r\<in>set (os_rows s). row_backed cs c caps r)"

lemma backed_mono: "backed cs caps k sess h sig \<Longrightarrow> backed cs (caps @ qs) k sess h sig"
  by (auto simp: backed_def)

lemma provenance_mono: "provenance cs c caps s \<Longrightarrow> provenance cs c (caps @ qs) s"
  unfolding provenance_def row_backed_def by (meson backed_mono)

lemma provenance_insert:
  "provenance cs c caps s \<Longrightarrow> backed cs caps k (co_session_hash e) (co_tool_name_hash e) (co_signature e) \<Longrightarrow>
   provenance cs c caps (cache_insert k e s)"
  unfolding provenance_def by (auto dest: cache_insert_lookup)

lemma provenance_bump [simp]: "provenance cs c caps (bump x s) = provenance cs c caps s"
  by (simp add: provenance_def)

lemma decrypt_encrypted:
  assumes "sound_suite cs" "length nonce = 12" "encrypt_opaque_state cs c nonce p = Inr e"
    and "decrypt_opaque_state cs c e = Inr q"
  shows "q = p"
  using assms
  by (auto simp: sound_suite_def encrypt_opaque_state_def encrypt_with_def decrypt_opaque_state_def
      decrypt_with_def from_utf8_def split: option.splits if_splits)

lemma provenance_capture:
  assumes "sound_suite cs" "provenance cs c caps s"
  shows "provenance cs c (caps @ [p]) (perform_capture cs now p s)"
proof -
  let ?sess = "map_option (session_hash cs) (cap_session p)"
  have otext: "opt_text (unwrap_or ?sess []) = ?sess"
    using assms(1) by (cases "cap_session p") (simp_all add: opt_text_def unwrap_or_def session_hash_def sound_suite_def)
  have new: "backed cs (caps @ [p]) (cache_key (cap_target p) (scope_hash cs (cap_scope p))
      (tool_call_hash cs (cap_scope p) (cap_id p))) ?sess (tool_name_hash cs (cap_name p)) (cap_signature p)"
    by (auto simp: backed_def)
  have enq: "provenance cs c (caps @ [p]) (enqueue_write w s1)"
    if "provenance cs c (caps @ [p]) s1"
      "backed cs (caps @ [p]) (dw_key w) (opt_text (dw_session_hash w)) (dw_tool_name_hash w) (dw_signature w)" for w s1
    using that enqueue_queue [of w s1] unfolding provenance_def by auto
  show ?thesis
    unfolding perform_capture_def capture_tool_signature_def Let_def
    using provenance_mono [OF assms(2), of "[p]"] new otext by (auto intro!: enq provenance_insert)
qed

lemma set_upsert_row: "set (upsert_row r rows) \<subseteq> insert r (set rows)"
  by (auto simp: upsert_row_def)

lemma set_prune_rows: "set (prune_rows cd wall rows) \<subseteq> set rows"
  by (auto simp: prune_rows_def Let_def)

lemma provenance_worker:
  assumes "provenance cs c caps s" "length nonce = 12"
  shows "provenance cs c caps (durability_step cs c cd wall nonce ok s)"
proof (cases "os_durability s")
  case Nil
  then show ?thesis using assms by (simp add: durability_step_def)
next
  case (Cons w rest)
  let ?s1 = "persist_opaque_state cs c cd wall nonce ok w (s\<lparr>os_durability := rest\<rparr>)"
  have w: "backed cs caps (dw_key w) (opt_text (dw_session_hash w)) (dw_tool_name_hash w) (dw_signature w)"
    using assms(1) Cons by (simp add: provenance_def)
  have base: "provenance cs c caps (s\<lparr>os_durability := rest\<rparr>)" using assms(1) Cons by (simp add: provenance_def)
  have "provenance cs c caps ?s1"
  proof (cases "encrypt_opaque_state cs c nonce (dw_signature w)")
    case (Inl e)
    then show ?thesis using base by (simp add: persist_opaque_state_def)
  next
    case (Inr enc)
    define r where "r = \<lparr>op_key = dw_key w, op_session_hash = dw_session_hash w,
      op_tool_name_hash = dw_tool_name_hash w, op_value_enc = enc, op_created_at = to_rfc3339 cd wall,
      op_expires_at = to_rfc3339 cd (wall + PERSISTENT_TTL)\<rparr>"
    have "row_backed cs c caps r" using w Inr assms(2) by (auto simp: row_backed_def r_def)
    then have "\<forall>x\<in>set (upsert_row r (os_rows s)). row_backed cs c caps x"
      using assms(1) set_upsert_row [of r "os_rows s"] unfolding provenance_def by blast
    then have "provenance cs c caps (s\<lparr>os_durability := rest, os_rows := upsert_row r (os_rows s)\<rparr>)"
      using base by (simp add: provenance_def)
    then show ?thesis using base Inr by (simp add: persist_opaque_state_def r_def)
  qed
  then show ?thesis
    using Cons set_prune_rows [of cd wall "os_rows ?s1"]
    unfolding durability_step_def provenance_def Let_def by auto
qed

lemma provenance_lookup:
  assumes "sound_suite cs" "provenance cs c caps s"
    and "resolve_tool_signature cs c cd now wall scope cap session i name s = (res, s')"
  shows "provenance cs c caps s'" and
    "res = Compatible sig \<Longrightarrow> \<exists>t sess. cap = Some t \<and> \<not> session_conflict cs sess session \<and>
       backed cs caps (cache_key t (scope_hash cs scope) (tool_call_hash cs scope i)) sess (tool_name_hash cs name) sig"
proof -
  let ?goal = "provenance cs c caps s' \<and> (res = Compatible sig \<longrightarrow> (\<exists>t sess. cap = Some t \<and>
       \<not> session_conflict cs sess session \<and>
       backed cs caps (cache_key t (scope_hash cs scope) (tool_call_hash cs scope i)) sess (tool_name_hash cs name) sig))"
  have ?goal
    using assms(3)
  proof (cases rule: resolve_cases)
    case (cached t e x)
    then have "backed cs caps (cache_key t (scope_hash cs scope) (tool_call_hash cs scope i)) (co_session_hash e)
        (co_tool_name_hash e) (co_signature e)"
      using assms(2) by (simp add: provenance_def)
    then show ?thesis using cached assms(2) by fastforce
  next
    case (rows s1)
    then have s1: "provenance cs c caps s1" using assms(2) by (auto simp: provenance_def split: if_splits)
    show ?thesis
      using resolve_rows_cases [OF rows(1)]
    proof (elim disjE exE conjE)
      fix x assume "s' = bump x s1" "\<forall>sig. res \<noteq> Compatible sig"
      then show ?thesis using s1 by simp
    next
      fix t r sig' x
      let ?k = "cache_key t (scope_hash cs scope) (tool_call_hash cs scope i)"
      assume a: "cap = Some t" "r \<in> set (os_rows s1)" "op_key r = ?k"
        "op_tool_name_hash r = tool_name_hash cs name"
        "\<not> session_conflict cs (opt_text (op_session_hash r)) session"
        "decrypt_opaque_state cs c (op_value_enc r) = Inr sig'" "res = Compatible sig'"
        "s' = bump x (cache_insert ?k \<lparr>co_signature = sig', co_session_hash = opt_text (op_session_hash r),
              co_tool_name_hash = op_tool_name_hash r, co_expires_at = now + MEMORY_TTL\<rparr> s1)"
      have "row_backed cs c caps r" using s1 a(2) by (simp add: provenance_def)
      then have b: "backed cs caps ?k (opt_text (op_session_hash r)) (op_tool_name_hash r) sig'"
        using decrypt_encrypted [OF assms(1) _ _ a(6)] a(3) by (auto simp: row_backed_def)
      then show ?thesis using a(1,4,5,7,8) s1 by (auto intro!: provenance_insert)
    qed
  qed
  then show "provenance cs c caps s'" and
    "res = Compatible sig \<Longrightarrow> \<exists>t sess. cap = Some t \<and> \<not> session_conflict cs sess session \<and>
       backed cs caps (cache_key t (scope_hash cs scope) (tool_call_hash cs scope i)) sess (tool_name_hash cs name) sig"
    by auto
qed

lemma run_provenance:
  assumes "sound_suite cs"
  shows "opaque_run cs c cd caps s \<Longrightarrow> provenance cs c caps s"
proof (induction rule: opaque_run.induct)
  case (run_lookup caps s now wall scope cap session i name)
  then show ?case using provenance_lookup(1) [OF assms] by (metis prod.collapse)
next
  case run_start
  show ?case by (simp add: provenance_def store_new_def)
next
  case (run_restart caps s)
  then show ?case by (simp add: provenance_def store_new_def)
qed (simp_all add: provenance_capture [OF assms] provenance_worker)

lemma cache_key_inj: "cache_key t sh ch = cache_key t' sh' ch' \<longleftrightarrow> t = t' \<and> sh = sh' \<and> ch = ch'"
proof -
  have "ost_kind t = ost_kind t'" by (metis (full_types) opaque_state_kind.exhaust)
  then show ?thesis by (cases t; cases t') (auto simp: cache_key_def)
qed

subsection \<open>Properties\<close>

text \<open>
  C15. Continuation state never crosses conversations. In every interleaving of captures, worker steps,
  lookups and restarts, a lookup that returns a signature returns one that was captured for the same client scope,
  tool-call identifier, tool name and producing target (provider, family, producer and model), and not
  for another session; a target without the capability gets none. This holds of a cipher that opens
  what it sealed and of hashes without collisions.
\<close>
theorem opaque_state_isolated:
  assumes "sound_suite cs" "opaque_run cs c cd caps s"
    and "fst (resolve_tool_signature cs c cd now wall scope cap session i name s) = Compatible sig"
  shows "\<exists>p\<in>set caps. cap = Some (cap_target p) \<and> cap_scope p = scope \<and> cap_id p = i \<and> cap_name p = name \<and>
    cap_signature p = sig \<and> (cap_session p = None \<or> session = None \<or> cap_session p = session)"
proof -
  obtain s' where "resolve_tool_signature cs c cd now wall scope cap session i name s = (Compatible sig, s')"
    using assms(3) by (metis prod.collapse)
  from provenance_lookup(2) [OF assms(1) run_provenance [OF assms(1,2)] this refl]
  obtain t sess where t: "cap = Some t" "\<not> session_conflict cs sess session"
      "backed cs caps (cache_key t (scope_hash cs scope) (tool_call_hash cs scope i)) sess (tool_name_hash cs name) sig"
    by blast
  then obtain p where p: "p \<in> set caps" "cap_target p = t" "scope_hash cs (cap_scope p) = scope_hash cs scope"
      "tool_call_hash cs (cap_scope p) (cap_id p) = tool_call_hash cs scope i"
      "sess = map_option (session_hash cs) (cap_session p)" "tool_name_hash cs (cap_name p) = tool_name_hash cs name"
      "cap_signature p = sig"
    by (auto simp: backed_def cache_key_inj)
  have inj: "sha256_hex cs x = sha256_hex cs y \<longleftrightarrow> x = y" for x y
    using assms(1) by (auto simp: sound_suite_def dest: injD)
  have "cap_scope p = scope" using p(3) by (simp add: scope_hash_def inj)
  moreover have "cap_id p = i" using p(4) calculation by (simp add: tool_call_hash_def inj)
  moreover have "cap_name p = name" using p(6) by (simp add: tool_name_hash_def inj)
  moreover have "cap_session p = None \<or> session = None \<or> cap_session p = session"
    using t(2) p(5) by (cases "cap_session p"; cases session) (auto simp: session_conflict_def session_hash_def inj)
  ultimately show ?thesis using p t(1) by blast
qed

definition demo_sound_suite :: cipher_suite where
  "demo_sound_suite = \<lparr>cs_seal = (\<lambda>k n p. Some p), cs_open = (\<lambda>k n ct. Some ct), cs_sha256 = (\<lambda>x. x),
     cs_b64_encode = (\<lambda>x. x), cs_b64_decode = Some, cs_hex = (\<lambda>x. ''h'' @ x)\<rparr>"

definition demo_ost :: opaque_state_target where
  "demo_ost = \<lparr>ost_kind = GeminiThoughtSignature, ost_provider_id = ''p'', ost_family = ''gemini'',
     ost_producer = ''native:gemini:v1'', ost_model_id = ''m''\<rparr>"

definition demo_capture :: capture where
  "demo_capture = \<lparr>cap_scope = ''key'', cap_target = demo_ost, cap_session = None, cap_id = ''call_1'',
     cap_name = ''f'', cap_signature = ''sig''\<rparr>"

definition demo_crypto :: crypto where
  "demo_crypto = crypto_new demo_sound_suite ''k''"

lemma demo_suite_sound: "sound_suite demo_sound_suite"
  by (auto simp: sound_suite_def demo_sound_suite_def sha256_hex_def inj_def)

text \<open>
  A captured signature is found by the next request of the conversation: the lookup right after a
  capture, within the cache's hour and for the same target, tool and session, returns the captured
  value.
\<close>
lemma capture_then_resolve:
  assumes "signature \<noteq> []" "i \<noteq> []" "os_max_memory_rows s \<ge> 1" "later \<le> now + MEMORY_TTL"
  shows "fst (resolve_tool_signature cs c cd later wall scope (Some t) session i name
     (capture_tool_signature cs now scope t session i name signature s)) = Compatible signature"
proof -
  let ?k = "cache_key t (scope_hash cs scope) (tool_call_hash cs scope i)"
  have "os_cache (capture_tool_signature cs now scope t session i name signature s) ?k =
      Some \<lparr>co_signature = signature, co_session_hash = map_option (session_hash cs) session,
        co_tool_name_hash = tool_name_hash cs name, co_expires_at = now + MEMORY_TTL\<rparr>"
    using assms(1,2) cache_insert_same [OF assms(3)] by (simp add: capture_tool_signature_def Let_def)
  then show ?thesis
    using assms(4)
    by (simp add: resolve_tool_signature_def Let_def evaluate_cached_def session_conflict_def split: option.splits)
qed

theorem opaque_state_isolated_witness:
  "\<exists>s. opaque_run demo_sound_suite demo_crypto demo_clock [demo_capture] s \<and>
     (\<exists>p\<in>set [demo_capture]. Some demo_ost = Some (cap_target p) \<and> cap_scope p = ''key'' \<and> cap_signature p = ''sig'')"
proof -
  let ?init = "store_new []"
  let ?s = "perform_capture demo_sound_suite 0 demo_capture ?init"
  have run: "opaque_run demo_sound_suite demo_crypto demo_clock [demo_capture] ?s"
    using run_capture [OF run_start] by fastforce
  have "fst (resolve_tool_signature demo_sound_suite demo_crypto demo_clock 0 0 ''key'' (Some demo_ost) None ''call_1'' ''f'' ?s)
      = Compatible ''sig''"
    unfolding perform_capture_def
    using capture_then_resolve [of "''sig''" "''call_1''" ?init 0 0]
    by (simp add: demo_capture_def store_new_def MAX_MEMORY_ROWS_def MEMORY_TTL_def secs_def)
  from opaque_state_isolated [OF demo_suite_sound run this] show ?thesis using run by auto
qed

text \<open>
  The signature cache is bounded in every run: it holds at most 2048 entries, each with exactly
  one eviction slot, so that evicting a slot never removes an entry written later.
\<close>
theorem opaque_cache_bounded:
  assumes "opaque_run cs c cd caps s"
  shows "card (dom (os_cache s)) \<le> 2048 \<and> distinct (os_order s) \<and> dom (os_cache s) \<subseteq> set (os_order s)"
proof -
  have inv: "order_inv s" "os_max_memory_rows s = MAX_MEMORY_ROWS" using run_order_inv [OF assms] by simp_all
  then have "card (dom (os_cache s)) \<le> card (set (os_order s))"
    by (intro card_mono) (simp_all add: order_inv_def)
  also have "\<dots> \<le> 2048" using inv by (simp add: order_inv_def distinct_card MAX_MEMORY_ROWS_def)
  finally show ?thesis using inv by (simp add: order_inv_def)
qed

theorem opaque_cache_bounded_witness:
  "\<exists>s. opaque_run demo_sound_suite demo_crypto demo_clock [demo_capture] s \<and> card (dom (os_cache s)) \<le> 2048"
proof -
  have "opaque_run demo_sound_suite demo_crypto demo_clock [demo_capture]
      (perform_capture demo_sound_suite 0 demo_capture (store_new []))"
    using run_capture [OF run_start] by fastforce
  then show ?thesis using opaque_cache_bounded by blast
qed

end
