(* ===== verification/Ip_Text.thy ===== *)
theory Ip_Text
  imports Key_Limits
begin

text \<open>
  The display form of addresses and socket addresses in the standard library (\<^verbatim>\<open>Display\<close> of
  \<^verbatim>\<open>Ipv4Addr\<close>, \<^verbatim>\<open>Ipv6Addr\<close> and \<^verbatim>\<open>SocketAddr\<close>), which the provider transport uses as a part of the key
  of its client cache, and that two addresses with the same text are the same address. A scope
  identifier of an IPv6 socket address is not part of the model.
\<close>

section \<open>Joining and splitting\<close>

fun join_with :: "string \<Rightarrow> string list \<Rightarrow> string" where
  "join_with sep [] = []"
| "join_with sep [x] = x"
| "join_with sep (x # y # ys) = x @ sep @ join_with sep (y # ys)"

lemma split_char_free: "d \<notin> set x \<Longrightarrow> split_char d x = [x]"
  by (induction x) auto

lemma split_char_nonempty [simp]: "split_char d s \<noteq> []"
  by (induction s) (auto split: list.splits)

lemma split_char_append: "split_char d (a @ d # b) = split_char d a @ split_char d b"
proof (induction a)
  case (Cons c a)
  then show ?case by (cases "split_char d a") (use split_char_nonempty [of d a] in auto)
qed simp

lemma split_join:
  "xs \<noteq> [] \<Longrightarrow> \<forall>x \<in> set xs. d \<notin> set x \<Longrightarrow> split_char d (join_with [d] xs) = xs"
proof (induction xs rule: induct_list012)
  case (3 x y zs)
  then show ?case by (simp add: split_char_append split_char_free)
qed (simp_all add: split_char_free)

lemma set_join_with: "set (join_with sep xs) \<subseteq> set sep \<union> \<Union> (set ` set xs)"
  by (induction sep xs rule: join_with.induct) auto

lemma append_first_sep:
  assumes "a @ c # b = a' @ c # b'" "c \<notin> set a" "c \<notin> set a'"
  shows "a = a' \<and> b = b'"
proof -
  have tw: "takeWhile (\<lambda>x. x \<noteq> c) (p @ c # q) = p" if "c \<notin> set p" for p q
    using that by (induction p) auto
  have "a = a'" using arg_cong [OF assms(1), of "takeWhile (\<lambda>x. x \<noteq> c)"] tw [OF assms(2)] tw [OF assms(3)] by simp
  then show ?thesis using assms(1) by simp
qed

lemma append_last_sep:
  assumes "a @ c # b = a' @ c # b'" "c \<notin> set b" "c \<notin> set b'"
  shows "a = a' \<and> b = b'"
  using append_first_sep [of "rev b" c "rev a" "rev b'" "rev a'"] arg_cong [OF assms(1), of rev] assms(2,3)
  by simp

section \<open>Display forms\<close>

definition hex_char :: "nat \<Rightarrow> char" where
  "hex_char d = char_of (if d < 10 then 48 + d else 87 + d)"

fun show_hex :: "nat \<Rightarrow> string" where
  "show_hex n = (if n < 16 then [hex_char n] else show_hex (n div 16) @ [hex_char (n mod 16)])"

declare show_hex.simps [simp del]

definition octet :: "nat \<Rightarrow> 32 word \<Rightarrow> nat" where
  "octet i w = unat w div 256 ^ (3 - i) mod 256"

definition show_v4 :: "32 word \<Rightarrow> string" where
  "show_v4 w = join_with ''.'' (map (\<lambda>i. show_nat (octet i w)) [0..<4])"

definition segments :: "128 word \<Rightarrow> 16 word list" where
  "segments w = map (\<lambda>i. ucast (drop_bit (16 * (7 - i)) w)) [0..<8]"

definition to_ipv4_mapped :: "128 word \<Rightarrow> 32 word option" where
  "to_ipv4_mapped w = (if unat w div 2 ^ 32 = 65535 then Some (of_nat (unat w mod 2 ^ 32)) else None)"

text \<open>The first longest run of zero groups, as its start and length.\<close>

fun zero_run :: "nat \<Rightarrow> nat \<times> nat \<Rightarrow> nat \<times> nat \<Rightarrow> 16 word list \<Rightarrow> nat \<times> nat" where
  "zero_run i longest current [] = longest"
| "zero_run i longest current (x # xs) =
     (if x = 0
      then let cur = (if snd current = 0 then i else fst current, snd current + 1)
           in zero_run (i + 1) (if snd cur > snd longest then cur else longest) cur xs
      else zero_run (i + 1) longest (0, 0) xs)"

definition fmt_subslice :: "16 word list \<Rightarrow> string" where
  "fmt_subslice chunk = join_with '':'' (map (\<lambda>g. show_hex (unat g)) chunk)"

definition show_segments :: "16 word list \<Rightarrow> string" where
  "show_segments gs =
     (case zero_run 0 (0, 0) (0, 0) gs of (start, len) \<Rightarrow>
        if len > 1 then fmt_subslice (take start gs) @ ''::'' @ fmt_subslice (drop (start + len) gs)
        else fmt_subslice gs)"

definition show_v6 :: "128 word \<Rightarrow> string" where
  "show_v6 w =
     (case to_ipv4_mapped w of
        Some v4 \<Rightarrow> ''::ffff:'' @ show_v4 v4
      | None \<Rightarrow> show_segments (segments w))"

definition show_ip :: "ip_addr \<Rightarrow> string" where
  "show_ip ip = (case ip of V4 w \<Rightarrow> show_v4 w | V6 w \<Rightarrow> show_v6 w)"

record socket_addr =
  sa_ip :: ip_addr
  sa_port :: nat

definition show_socket :: "socket_addr \<Rightarrow> string" where
  "show_socket a =
     (case sa_ip a of
        V4 w \<Rightarrow> show_v4 w @ '':'' @ show_nat (sa_port a)
      | V6 w \<Rightarrow> ''['' @ show_v6 w @ '']:'' @ show_nat (sa_port a))"

section \<open>Characters of the display forms\<close>

lemma hex_char_value: "d < 16 \<Longrightarrow> digit_value 16 (hex_char d) = Some d"
  by (auto simp: digit_value_def hex_char_def opt_filter_def Let_def)

lemma show_hex_chars: "c \<in> set (show_hex n) \<Longrightarrow> digit_value 16 c \<noteq> None"
proof (induction n rule: show_hex.induct)
  case (1 n)
  then show ?case
    by (subst (asm) (2) show_hex.simps) (auto simp: hex_char_value split: if_splits)
qed

lemma show_hex_nonempty [simp]: "show_hex n \<noteq> []"
  by (subst show_hex.simps) simp

lemma show_hex_inj: "show_hex m = show_hex n \<Longrightarrow> m = n"
proof (induction m arbitrary: n rule: show_hex.induct)
  case (1 m)
  have h: "a = b" if "hex_char a = hex_char b" "a < 16" "b < 16" for a b
    using hex_char_value [OF that(2)] hex_char_value [OF that(3)] that(1) by (metis option.inject)
  consider "m < 16" "n < 16" | "m < 16" "\<not> n < 16" | "\<not> m < 16" "n < 16" | "\<not> m < 16" "\<not> n < 16" by blast
  then show ?case
  proof cases
    case small: 1
    then show ?thesis using "1.prems" h [of m n] by (simp add: show_hex.simps [of m] show_hex.simps [of n])
  next
    case 2
    then show ?thesis using "1.prems" by (simp add: show_hex.simps [of m] show_hex.simps [of n] Cons_eq_append_conv)
  next
    case 3
    then show ?thesis using "1.prems" by (simp add: show_hex.simps [of m] show_hex.simps [of n] append_eq_Cons_conv)
  next
    case 4
    then have "show_hex (m div 16) @ [hex_char (m mod 16)] = show_hex (n div 16) @ [hex_char (n mod 16)]"
      using "1.prems" by (simp add: show_hex.simps [of m] show_hex.simps [of n])
    then have "show_hex (m div 16) = show_hex (n div 16)" "hex_char (m mod 16) = hex_char (n mod 16)" by simp_all
    then have "m div 16 = n div 16" "m mod 16 = n mod 16" using "1.IH" 4 h by simp_all
    then show ?thesis by (metis div_mult_mod_eq)
  qed
qed

lemma show_nat_only_digits: "c \<in> set (show_nat n) \<Longrightarrow> is_digit c"
  using show_nat_digits [of n] by (simp add: list_all_iff)

lemma colon_free: "CHR '':'' \<notin> set (show_nat n)"
  using show_nat_only_digits [of "CHR '':''" n] by (auto simp: is_digit_def)

lemma fmt_subslice_chars: "c \<in> set (fmt_subslice gs) \<Longrightarrow> c = CHR '':'' \<or> digit_value 16 c \<noteq> None"
  using set_join_with [of "'':''" "map (\<lambda>g. show_hex (unat g)) gs"] show_hex_chars
  by (auto simp: fmt_subslice_def)

lemma show_segments_chars: "c \<in> set (show_segments gs) \<Longrightarrow> c = CHR '':'' \<or> digit_value 16 c \<noteq> None"
  by (auto simp: show_segments_def split: prod.splits if_splits dest!: fmt_subslice_chars)

lemma show_v4_chars: "c \<in> set (show_v4 w) \<Longrightarrow> c = CHR ''.'' \<or> is_digit c"
  using set_join_with [of "''.''" "map (\<lambda>i. show_nat (octet i w)) [0..<4]"] show_nat_only_digits
  by (fastforce simp: show_v4_def)

lemma dot_in_show_v4: "CHR ''.'' \<in> set (show_v4 w)"
  by (simp add: show_v4_def upt_rec)

section \<open>The display form determines the address\<close>

text \<open>A run of zero groups inside a list.\<close>

definition zeros_at :: "16 word list \<Rightarrow> nat \<times> nat \<Rightarrow> bool" where
  "zeros_at gs r \<longleftrightarrow> fst r + snd r \<le> length gs \<and> (\<forall>k < snd r. gs ! (fst r + k) = 0)"

lemma zero_run_zeros:
  "zeros_at (pre @ xs) longest \<Longrightarrow> zeros_at (pre @ xs) current \<Longrightarrow>
   snd current = 0 \<or> fst current + snd current = length pre \<Longrightarrow>
   zeros_at (pre @ xs) (zero_run (length pre) longest current xs)"
proof (induction xs arbitrary: pre longest current)
  case (Cons x xs)
  let ?cur = "(if snd current = 0 then length pre else fst current, snd current + 1)"
  have *: "zeros_at (pre @ x # xs) (0, 0)" by (simp add: zeros_at_def)
  have cur: "zeros_at (pre @ x # xs) ?cur" if "x = 0"
    using Cons.prems(2,3) that by (auto simp: zeros_at_def less_Suc_eq)
  have IH: "zeros_at (pre @ x # xs) (zero_run (Suc (length pre)) l c xs)"
    if "zeros_at (pre @ x # xs) l" "zeros_at (pre @ x # xs) c"
      "snd c = 0 \<or> fst c + snd c = Suc (length pre)" for l c
    using Cons.IH [of "pre @ [x]" l c] that by simp
  show ?case
  proof (cases "x = 0")
    case True
    have "zeros_at (pre @ x # xs) (zero_run (Suc (length pre)) (if snd ?cur > snd longest then ?cur else longest) ?cur xs)"
      by (rule IH) (use True cur Cons.prems(1,3) in \<open>auto split: if_splits\<close>)
    then show ?thesis using True by (simp only: zero_run.simps Let_def if_True Suc_eq_plus1 simp_thms)
  next
    case False
    then show ?thesis using IH [OF Cons.prems(1) *] by simp
  qed
qed simp

lemma zeros_at_split:
  assumes "zeros_at gs (s, n)"
  shows "gs = take s gs @ replicate n 0 @ drop (s + n) gs"
proof -
  have "take n (drop s gs) = replicate n 0"
    using assms by (intro nth_equalityI) (auto simp: zeros_at_def)
  then show ?thesis by (metis append_take_drop_id drop_drop add.commute)
qed

text \<open>The tokens of a printed list of groups.\<close>

definition group_texts :: "16 word list \<Rightarrow> string list" where
  "group_texts gs = map (\<lambda>g. show_hex (unat g)) gs"

lemma group_texts_inj: "group_texts a = group_texts b \<Longrightarrow> a = b"
proof -
  have "inj (\<lambda>g :: 16 word. show_hex (unat g))" by (rule injI) (auto dest!: show_hex_inj simp: word_unat_eq_iff)
  then show "group_texts a = group_texts b \<Longrightarrow> a = b" by (simp add: group_texts_def inj_map_eq_map)
qed

lemma split_fmt_subslice:
  "split_char (CHR '':'') (fmt_subslice gs) = (if gs = [] then [[]] else group_texts gs)"
proof -
  have "CHR '':'' \<notin> set (show_hex n)" for n
    using show_hex_chars [of "CHR '':''" n] by (auto simp: digit_value_def opt_filter_def)
  then show ?thesis
    using split_join [of "group_texts gs" "CHR '':''"] by (auto simp: fmt_subslice_def group_texts_def)
qed

lemma takeWhile_texts: "takeWhile (\<lambda>t. t \<noteq> []) (group_texts gs @ xs) = group_texts gs @ takeWhile (\<lambda>t. t \<noteq> []) xs"
  by (induction gs) (auto simp: group_texts_def)

lemma takeWhile_texts_rev:
  "takeWhile (\<lambda>t. t \<noteq> []) (rev (group_texts gs) @ xs) = rev (group_texts gs) @ takeWhile (\<lambda>t. t \<noteq> []) xs"
  by (simp add: group_texts_def takeWhile_append)

text \<open>The groups before and after the elision.\<close>

definition elided :: "16 word list \<Rightarrow> 16 word list \<times> 16 word list" where
  "elided gs = (case zero_run 0 (0, 0) (0, 0) gs of (s, n) \<Rightarrow> if n > 1 then (take s gs, drop (s + n) gs) else (gs, gs))"

lemma tokens_show_segments:
  assumes "gs \<noteq> []"
  shows "takeWhile (\<lambda>t. t \<noteq> []) (split_char (CHR '':'') (show_segments gs)) = group_texts (fst (elided gs))
    \<and> takeWhile (\<lambda>t. t \<noteq> []) (rev (split_char (CHR '':'') (show_segments gs))) = rev (group_texts (snd (elided gs)))"
proof -
  obtain s n where r: "zero_run 0 (0, 0) (0, 0) gs = (s, n)" by force
  have two: "split_char (CHR '':'') (a @ ''::'' @ b) = split_char (CHR '':'') a @ [] # split_char (CHR '':'') b" for a b
    using split_char_append [of "CHR '':''" a "CHR '':'' # b"] by simp
  have nil: "group_texts [] = []" by (simp add: group_texts_def)
  show ?thesis
    using assms takeWhile_texts [of _ "[]"] takeWhile_texts_rev [of _ "[]"]
    by (auto simp: show_segments_def elided_def r two [simplified] split_fmt_subslice takeWhile_texts takeWhile_texts_rev nil)
qed

lemma elided_restores:
  assumes "elided gs = elided hs" "length gs = length hs"
  shows "gs = hs"
proof -
  obtain s n where r: "zero_run 0 (0, 0) (0, 0) gs = (s, n)" by force
  obtain s' n' where r': "zero_run 0 (0, 0) (0, 0) hs = (s', n')" by force
  have z: "zeros_at gs (s, n)" "zeros_at hs (s', n')"
    using zero_run_zeros [of "[]" gs "(0, 0)" "(0, 0)"] zero_run_zeros [of "[]" hs "(0, 0)" "(0, 0)"] r r'
    by (auto simp: zeros_at_def)
  have len: "s + n \<le> length gs" "s' + n' \<le> length gs" using z assms(2) by (auto simp: zeros_at_def)
  show ?thesis
  proof (cases "n > 1 \<and> n' > 1")
    case True
    then have eq: "take s gs = take s' hs" "drop (s + n) gs = drop (s' + n') hs"
      using assms(1) by (auto simp: elided_def r r')
    have "length (take s gs) = length (take s' hs)" "length (drop (s + n) gs) = length (drop (s' + n') hs)"
      by (simp_all only: eq)
    then have "s = s'" "n = n'" using len assms(2) by simp_all
    then show ?thesis using eq zeros_at_split [OF z(1)] zeros_at_split [OF z(2)] by metis
  next
    case False
    then show ?thesis
      using assms len arg_cong [OF assms(1), of "\<lambda>p. length (fst p)"]
      by (auto simp: elided_def r r' split: if_splits)
  qed
qed

lemma show_segments_inj:
  assumes "show_segments gs = show_segments hs" "length gs = length hs" "gs \<noteq> []"
  shows "gs = hs"
proof (rule elided_restores [OF _ assms(2)])
  have "hs \<noteq> []" using assms(2,3) by auto
  then show "elided gs = elided hs"
    using tokens_show_segments [OF assms(3)] tokens_show_segments [of hs] assms(1)
    by (metis group_texts_inj prod_eqI rev_rev_ident)
qed

lemma octets_restore: "unat w = octet 0 w * 256 ^ 3 + octet 1 w * 256 ^ 2 + octet 2 w * 256 + octet 3 w"
proof -
  have lt: "unat w < 4294967296" using unsigned_less [of w] by simp
  define n where "n = unat w"
  have d: "n div 65536 = n div 256 div 256" "n div 16777216 = n div 65536 div 256"
    by (simp_all flip: div_mult2_eq)
  have "n div 16777216 < 256" using lt by (simp add: n_def less_mult_imp_div_less)
  then have top: "n div 16777216 mod 256 = n div 16777216" by simp
  have "n = n div 256 * 256 + n mod 256" "n div 256 = n div 65536 * 256 + n div 256 mod 256"
    "n div 65536 = n div 16777216 * 256 + n div 65536 mod 256"
    using div_mult_mod_eq [of n 256] div_mult_mod_eq [of "n div 256" 256] div_mult_mod_eq [of "n div 65536" 256]
    unfolding d(2) d(1) by simp_all
  then have "n = n div 16777216 * 16777216 + n div 65536 mod 256 * 65536 + n div 256 mod 256 * 256 + n mod 256"
    by linarith
  then show ?thesis unfolding octet_def n_def [symmetric] using top by simp
qed

lemma show_v4_inj: "show_v4 a = show_v4 b \<Longrightarrow> a = b"
proof -
  assume eq: "show_v4 a = show_v4 b"
  have tokens: "split_char (CHR ''.'') (show_v4 w) = map (\<lambda>i. show_nat (octet i w)) [0..<4]" for w
    unfolding show_v4_def by (rule split_join) (auto simp: is_digit_def dest!: show_nat_only_digits)
  have "map (\<lambda>i. show_nat (octet i a)) [0..<4] = map (\<lambda>i. show_nat (octet i b)) [0..<4]"
    using tokens [of a] tokens [of b] eq by simp
  then have "octet i a = octet i b" if "i < 4" for i
    using that by (auto simp: map_eq_conv intro!: show_nat_inj)
  then have "unat a = unat b" by (subst (1 2) octets_restore) simp
  then show "a = b" by (simp add: word_unat_eq_iff)
qed

lemma segments_inj: "segments a = segments b \<Longrightarrow> a = b"
proof (rule bit_word_eqI)
  fix n assume eq: "segments a = segments b" and n: "n < LENGTH(128)"
  have "ucast (drop_bit (16 * (n div 16)) a) = (ucast (drop_bit (16 * (n div 16)) b) :: 16 word)"
  proof -
    have "7 - n div 16 < 8" "7 - (7 - n div 16) = n div 16" using n by auto
    then show ?thesis using arg_cong [OF eq, of "\<lambda>xs. xs ! (7 - n div 16)"] by (simp add: segments_def)
  qed
  from arg_cong [OF this, of "\<lambda>w. bit w (n mod 16)"] show "bit a n = bit b n"
    by (simp add: bit_simps)
qed

lemma mapped_inj: "to_ipv4_mapped a = Some v \<Longrightarrow> to_ipv4_mapped b = Some v \<Longrightarrow> a = b"
proof -
  assume a: "to_ipv4_mapped a = Some v" and b: "to_ipv4_mapped b = Some v"
  have v: "unat v = unat w mod 2 ^ 32 \<and> unat w div 2 ^ 32 = 65535" if "to_ipv4_mapped w = Some v" for w
    using that by (auto simp: to_ipv4_mapped_def unat_of_nat split: if_splits)
  have "unat a = unat b" using v [OF a] v [OF b] by (metis div_mult_mod_eq)
  then show "a = b" by (simp add: word_unat_eq_iff)
qed

lemma show_v6_inj: "show_v6 a = show_v6 b \<Longrightarrow> a = b"
proof -
  assume eq: "show_v6 a = show_v6 b"
  have dot: "to_ipv4_mapped w = None \<longleftrightarrow> CHR ''.'' \<notin> set (show_v6 w)" for w
    using dot_in_show_v4 show_segments_chars [of "CHR ''.''" "segments w"]
    by (auto simp: show_v6_def digit_value_def opt_filter_def split: option.splits)
  show "a = b"
  proof (cases "to_ipv4_mapped a")
    case None
    then have "to_ipv4_mapped b = None" using dot [of a] dot [of b] eq by simp
    then have "show_segments (segments a) = show_segments (segments b)" using eq None by (simp add: show_v6_def)
    then have "segments a = segments b" by (rule show_segments_inj) (auto simp: segments_def)
    then show ?thesis by (rule segments_inj)
  next
    case (Some v)
    then obtain v' where b: "to_ipv4_mapped b = Some v'" using dot [of a] dot [of b] eq by auto
    then have "v = v'" using eq Some by (auto simp: show_v6_def intro: show_v4_inj)
    then show ?thesis using mapped_inj Some b by blast
  qed
qed

lemma show_socket_inj: "show_socket a = show_socket b \<Longrightarrow> a = b"
proof -
  assume eq: "show_socket a = show_socket b"
  define head where "head s = (case sa_ip s of V4 w \<Rightarrow> show_v4 w | V6 w \<Rightarrow> ''['' @ show_v6 w @ '']'')" for s :: socket_addr
  have split: "show_socket s = head s @ CHR '':'' # show_nat (sa_port s)" for s
    by (simp add: show_socket_def head_def split: ip_addr.splits)
  have eq2: "head a = head b" "show_nat (sa_port a) = show_nat (sa_port b)"
    using append_last_sep [of "head a" "CHR '':''" "show_nat (sa_port a)" "head b" "show_nat (sa_port b)"]
      eq colon_free split [of a] split [of b] by simp_all
  have v4: "CHR ''['' \<notin> set (show_v4 w)" for w using show_v4_chars [of "CHR ''[''" w] by (auto simp: is_digit_def)
  have "sa_ip a = sa_ip b"
  proof (cases "sa_ip a"; cases "sa_ip b")
    fix w v assume "sa_ip a = V4 w" "sa_ip b = V6 v"
    then show ?thesis using eq2(1) v4 [of w] by (auto simp: head_def)
  next
    fix w v assume "sa_ip a = V6 w" "sa_ip b = V4 v"
    then have "show_v4 v = CHR ''['' # show_v6 w @ '']''" using eq2(1) by (simp add: head_def)
    then show ?thesis using v4 [of v] by simp
  qed (use eq2(1) in \<open>auto simp: head_def intro: show_v4_inj show_v6_inj\<close>)
  then show "a = b" using show_nat_inj [OF eq2(2)] by (simp add: socket_addr.equality)
qed

text \<open>The characters the cache key uses as separators do not occur in the text of an address.\<close>

lemma show_socket_plain: "c \<in> {CHR '','', CHR ''|''} \<Longrightarrow> c \<notin> set (show_socket a)"
  by (auto simp: show_socket_def show_v6_def is_digit_def digit_value_def opt_filter_def
        split: ip_addr.splits option.splits dest!: show_v4_chars show_nat_only_digits show_segments_chars)

end
