(* ===== verification/Outbound.thy ===== *)
theory Outbound
  imports Ip_Text Route_Policy
begin

text \<open>
  The provider transport (\<^verbatim>\<open>src/src/outbound.rs\<close>) and the destination policy it applies
  (\<^verbatim>\<open>src/src/net.rs\<close>): every hop resolves the destination, validates the whole answer, connects with
  a client pinned to the validated addresses, and attaches credentials only when the host is bound to
  the provider; redirects are followed explicitly and a transient gateway error of a stream is retried
  once. A URL is the parsed value of the \<^verbatim>\<open>url\<close> crate. Name resolution and the peer
  are fields of \<open>outbound_env\<close>, the adapter's authentication headers and the joining of URLs fields of
  \<open>outbound_lib\<close>. What is sent is recorded in a trace.
\<close>

section \<open>Destination policy\<close>

text \<open>The predicates of \<^verbatim>\<open>std::net::Ipv4Addr\<close>.\<close>

definition v4_is_loopback :: "32 word \<Rightarrow> bool" where "v4_is_loopback w \<longleftrightarrow> octet 0 w = 127"
definition v4_is_private :: "32 word \<Rightarrow> bool" where
  "v4_is_private w \<longleftrightarrow> octet 0 w = 10 \<or> (octet 0 w = 172 \<and> 16 \<le> octet 1 w \<and> octet 1 w \<le> 31) \<or>
     (octet 0 w = 192 \<and> octet 1 w = 168)"
definition v4_is_link_local :: "32 word \<Rightarrow> bool" where
  "v4_is_link_local w \<longleftrightarrow> octet 0 w = 169 \<and> octet 1 w = 254"
definition v4_is_multicast :: "32 word \<Rightarrow> bool" where
  "v4_is_multicast w \<longleftrightarrow> 224 \<le> octet 0 w \<and> octet 0 w \<le> 239"

definition blocked_v4 :: "32 word \<Rightarrow> bool" where
  "blocked_v4 w =
     (let shared_address_space = (octet 0 w = 100 \<and> 64 \<le> octet 1 w \<and> octet 1 w \<le> 127);
          benchmarking = (octet 0 w = 198 \<and> octet 1 w \<in> {18, 19})
      in v4_is_loopback w \<or> v4_is_private w \<or> v4_is_link_local w \<or> w = 0 \<or> w = - 1 \<or> v4_is_multicast w
         \<or> octet 0 w = 0 \<or> shared_address_space \<or> benchmarking)"

definition is_blocked_ip :: "ip_addr \<Rightarrow> bool" where
  "is_blocked_ip ip =
     (case ip of
        V4 v4 \<Rightarrow> blocked_v4 v4
      | V6 v6 \<Rightarrow>
          (case to_ipv4_mapped v6 of
             Some mapped \<Rightarrow> blocked_v4 mapped
           | None \<Rightarrow>
               let first = (ucast (drop_bit 112 v6) :: 16 word);
                   unique_local = (first AND 0xfe00 = 0xfc00);
                   link_local = (first AND 0xffc0 = 0xfe80)
               in v6 = 1 \<or> v6 = 0 \<or> drop_bit 8 first = 0xff \<or> unique_local \<or> link_local))"

definition ends_with :: "string \<Rightarrow> string \<Rightarrow> bool" where
  "ends_with s suffix \<longleftrightarrow> strip_suffix suffix s \<noteq> None"

definition is_blocked_host :: "string \<Rightarrow> bool" where
  "is_blocked_host host =
     (let lower = to_ascii_lowercase (trim host)
      in if lower = [] then True
         else if lower = ''localhost'' \<or> ends_with lower ''.localhost'' \<or> ends_with lower ''.internal'' then True
         else if lower = ''metadata.google.internal'' then True
         else case parse_ip lower of Some ip \<Rightarrow> is_blocked_ip ip | None \<Rightarrow> False)"

section \<open>Resolution\<close>

definition MAX_REDIRECTS :: nat where [const_defs]: "MAX_REDIRECTS = 5"
definition MAX_PINNED_CLIENTS :: nat where [const_defs]: "MAX_PINNED_CLIENTS = 256"
definition MAX_TRANSIENT_GATEWAY_RETRIES :: nat where [const_defs]: "MAX_TRANSIENT_GATEWAY_RETRIES = 1"

record url =
  u_scheme :: string
  u_username :: string
  u_password :: "string option"
  u_host_str :: "string option"
  u_port_or_default :: "nat option"
  u_text :: string

record resolved_destination =
  rd_host :: string
  rd_port :: nat
  rd_addrs :: "socket_addr list"

record outbound_error =
  oe_message :: string
  oe_timeout :: bool
  oe_adapter_failure :: "upstream_failure option"

definition denied :: "string \<Rightarrow> outbound_error" where
  "denied msg = \<lparr>oe_message = msg, oe_timeout = False, oe_adapter_failure = None\<rparr>"

record transport_error =
  te_is_timeout :: bool
  te_is_connect :: bool
  te_text :: string

definition transport :: "transport_error \<Rightarrow> outbound_error" where
  "transport e = \<lparr>oe_message =
       (if te_is_timeout e then ''upstream request timed out''
        else if te_is_connect e then ''connection to upstream failed''
        else ''upstream request failed: '' @ redact (te_text e)),
     oe_timeout = te_is_timeout e, oe_adapter_failure = None\<rparr>"

definition adapter_error :: "upstream_failure \<Rightarrow> outbound_error" where
  "adapter_error f = \<lparr>oe_message = uf_message f, oe_timeout = (uf_kind f = Timeout), oe_adapter_failure = Some f\<rparr>"

definition addr_rank :: "socket_addr \<Rightarrow> bool \<times> nat \<times> nat" where
  "addr_rank a = (case sa_ip a of V4 w \<Rightarrow> (False, unat w, sa_port a) | V6 w \<Rightarrow> (True, unat w, sa_port a))"

definition validate_destination_addrs ::
  "string \<Rightarrow> socket_addr list \<Rightarrow> bool \<Rightarrow> outbound_error + socket_addr list" where
  "validate_destination_addrs host addrs allow_private =
     (if addrs = [] then Inl (denied (''DNS resolution for '' @ quoted host @ '' returned no addresses''))
      else if allow_private then Inr addrs
      else case find (\<lambda>a. is_blocked_ip (sa_ip a)) addrs of
             Some b \<Rightarrow> Inl (denied (''host '' @ quoted host @ '' resolves to a blocked private/reserved address ('' @
                          show_ip (sa_ip b) @ '')''))
           | None \<Rightarrow> Inr addrs)"

definition lookup_addrs ::
  "(string \<Rightarrow> nat \<Rightarrow> string + socket_addr list) \<Rightarrow> string \<Rightarrow> nat \<Rightarrow> outbound_error + socket_addr list" where
  "lookup_addrs dns host port =
     (case parse_ip host of
        Some ip \<Rightarrow> Inr [\<lparr>sa_ip = ip, sa_port = port\<rparr>]
      | None \<Rightarrow>
          (case dns host port of
             Inl e \<Rightarrow> Inl (denied (''DNS resolution for '' @ quoted host @ '' failed: '' @ e))
           | Inr addrs \<Rightarrow> Inr addrs))"

definition resolve_destination ::
  "(string \<Rightarrow> nat \<Rightarrow> string + socket_addr list) \<Rightarrow> url \<Rightarrow> bool \<Rightarrow> bool
    \<Rightarrow> outbound_error + resolved_destination" where
  "resolve_destination dns u allow_private allow_insecure_tls =
     (if u_username u \<noteq> [] \<or> u_password u \<noteq> None
      then Inl (denied ''upstream URLs may not contain userinfo'')
      else if u_scheme u \<noteq> ''https'' \<and> \<not> allow_insecure_tls
      then Inl (denied (''plain-HTTP upstream '' @ quoted (u_text u) @ '' refused: TLS is mandatory''))
      else if u_scheme u \<notin> {''http'', ''https''}
      then Inl (denied (''unsupported upstream URL scheme '' @ quoted (u_scheme u)))
      else case u_host_str u of
             None \<Rightarrow> Inl (denied ''upstream URL has no host'')
           | Some h \<Rightarrow>
               let host = to_ascii_lowercase h
               in if \<not> allow_private \<and> is_blocked_host host
                  then Inl (denied (''upstream host '' @ quoted host @ '' is blocked by SSRF policy''))
                  else case u_port_or_default u of
                         None \<Rightarrow> Inl (denied ''upstream URL has no usable port'')
                       | Some port \<Rightarrow>
                           (case lookup_addrs dns host port of
                              Inl e \<Rightarrow> Inl e
                            | Inr found \<Rightarrow>
                                (case validate_destination_addrs host
                                        (remdups_adj (sort_key addr_rank found)) allow_private of
                                   Inl e \<Rightarrow> Inl e
                                 | Inr addrs \<Rightarrow> Inr \<lparr>rd_host = host, rd_port = port, rd_addrs = addrs\<rparr>)))"

section \<open>Pinned clients\<close>

text \<open>A client connects to \<open>pc_addrs\<close>, and to nothing else, for the host \<open>pc_host\<close>.\<close>

record pinned_client =
  pc_host :: string
  pc_addrs :: "socket_addr list"
  pc_insecure_tls :: bool

definition show_bool :: "bool \<Rightarrow> string" where
  "show_bool b = (if b then ''true'' else ''false'')"

definition client_key :: "resolved_destination \<Rightarrow> bool \<Rightarrow> string" where
  "client_key d insecure =
     rd_host d @ '':'' @ show_nat (rd_port d) @ ''|'' @ show_bool insecure @ ''|'' @
     join_with '','' (sort (map show_socket (rd_addrs d)))"

type_synonym client_cache = "(string, pinned_client) hash_map"

text \<open>\<open>failure\<close>: the error of the client library when it cannot build the client.\<close>

definition get_pinned_client ::
  "string option \<Rightarrow> resolved_destination \<Rightarrow> bool \<Rightarrow> client_cache
    \<Rightarrow> (outbound_error + pinned_client) \<times> client_cache" where
  "get_pinned_client failure d insecure cache =
     (let key = client_key d insecure
      in case map_of cache key of
           Some client \<Rightarrow> (Inr client, cache)
         | None \<Rightarrow>
             case failure of Some e \<Rightarrow> (Inl (denied (''building pinned upstream client failed: '' @ e)), cache)
             | None \<Rightarrow> let client = \<lparr>pc_host = rd_host d, pc_addrs = rd_addrs d, pc_insecure_tls = insecure\<rparr>;
                      cache' = (if length cache \<ge> MAX_PINNED_CLIENTS then [] else cache)
                  in (Inr client, hm_insert key client cache'))"

section \<open>Sending\<close>

datatype http_method = GET | POST | Other_Method string

record provider_request =
  pq_method :: http_method
  pq_url :: url
  pq_json_body :: "json option"
  pq_accept_event_stream :: bool
  pq_request_id :: "string option"
  pq_headers :: "(string \<times> string) list"

text \<open>
  One message to the peer: the client it goes through, and the headers in the groups the code adds them. The
  credentials are the adapter's authentication headers, the provider's and the client's extra headers.
\<close>

record sent_request =
  sr_client :: pinned_client
  sr_method :: http_method
  sr_url :: url
  sr_body :: "json option"
  sr_accept_event_stream :: bool
  sr_request_id :: "string option"
  sr_credentials :: "(string \<times> string) list option"

text \<open>A \<^verbatim>\<open>Location\<close> header may be absent, not text, or text.\<close>

datatype location = No_Location | Bad_Location | Location string

record response =
  rp_status :: nat
  rp_location :: location

record outbound_env =
  ev_dns :: "string \<Rightarrow> nat \<Rightarrow> string + socket_addr list"
  ev_build_error :: "string option"
  ev_peer :: "sent_request \<Rightarrow> transport_error + response"

record outbound_lib =
  ol_codec :: codec
  ol_join :: "url \<Rightarrow> string \<Rightarrow> string + url"
  ol_auth :: "url \<Rightarrow> upstream_failure + (string \<times> string) list"

definition credentials_authorized :: "outbound_lib \<Rightarrow> provider_row \<Rightarrow> url \<Rightarrow> bool" where
  "credentials_authorized lib p u =
     (case u_host_str u of None \<Rightarrow> False | Some host \<Rightarrow> host_authorized (ol_codec lib) p host)"

definition redirected_method :: "nat \<Rightarrow> http_method \<Rightarrow> http_method \<times> bool" where
  "redirected_method status method =
     (if status = 303 \<or> ((status = 301 \<or> status = 302) \<and> method = POST) then (GET, False) else (method, True))"

definition is_redirection :: "nat \<Rightarrow> bool" where
  "is_redirection status \<longleftrightarrow> 300 \<le> status \<and> status < 400"

definition request_credentials ::
  "outbound_lib \<Rightarrow> provider_row \<Rightarrow> provider_request \<Rightarrow> url \<Rightarrow> outbound_error + (string \<times> string) list option" where
  "request_credentials lib p rq u =
     (if credentials_authorized lib p u
      then (case ol_auth lib u of
              Inl f \<Rightarrow> Inl (adapter_error f)
            | Inr hs \<Rightarrow> Inr (Some (hs @ extra_headers_map (ol_codec lib) p @ pq_headers rq)))
      else Inr None)"

text \<open>One hop up to the response: the messages sent so far are a list, newest last.\<close>

definition send_hop ::
  "outbound_lib \<Rightarrow> outbound_env \<Rightarrow> bool \<Rightarrow> bool \<Rightarrow> provider_row \<Rightarrow> provider_request \<Rightarrow> url \<Rightarrow> http_method
    \<Rightarrow> json option \<Rightarrow> client_cache \<times> sent_request list \<Rightarrow> (outbound_error + response) \<times> client_cache \<times> sent_request list" where
  "send_hop lib e allow_private insecure p rq u method body s =
     (case resolve_destination (ev_dns e) u allow_private insecure of
        Inl err \<Rightarrow> (Inl err, s)
      | Inr d \<Rightarrow>
          (case get_pinned_client (ev_build_error e) d insecure (fst s) of
             (Inl err, cache) \<Rightarrow> (Inl err, cache, snd s)
           | (Inr client, cache) \<Rightarrow>
               (case request_credentials lib p rq u of
                  Inl err \<Rightarrow> (Inl err, cache, snd s)
                | Inr creds \<Rightarrow>
                    let m = \<lparr>sr_client = client, sr_method = method, sr_url = u, sr_body = body,
                             sr_accept_event_stream = pq_accept_event_stream rq,
                             sr_request_id = pq_request_id rq, sr_credentials = creds\<rparr>
                    in ((case ev_peer e m of Inl t \<Rightarrow> Inl (transport t) | Inr r \<Rightarrow> Inr r), cache, snd s @ [m]))))"

fun send_hops ::
  "outbound_lib \<Rightarrow> (nat \<Rightarrow> outbound_env) \<Rightarrow> bool \<Rightarrow> bool \<Rightarrow> provider_row \<Rightarrow> provider_request \<Rightarrow> nat \<Rightarrow> url \<Rightarrow> http_method
    \<Rightarrow> json option \<Rightarrow> client_cache \<times> sent_request list \<Rightarrow> (outbound_error + response) \<times> client_cache \<times> sent_request list" where
  "send_hops lib env allow_private insecure p rq left u method body s =
     (case send_hop lib (env left) allow_private insecure p rq u method body s of
        (Inl err, s') \<Rightarrow> (Inl err, s')
      | (Inr r, s') \<Rightarrow>
          if \<not> is_redirection (rp_status r) \<or> \<not> follows_redirects p then (Inr r, s')
          else (case left of
                  0 \<Rightarrow> (Inl (denied ''upstream redirect limit exceeded (5)''), s')
                | Suc left' \<Rightarrow>
                    (case rp_location r of
                       No_Location \<Rightarrow> (Inr r, s')
                     | Bad_Location \<Rightarrow> (Inl (denied ''upstream redirect has invalid Location header''), s')
                     | Location loc \<Rightarrow>
                         (case ol_join lib u loc of
                            Inl msg \<Rightarrow> (Inl (denied (''invalid upstream redirect target: '' @ msg)), s')
                          | Inr v \<Rightarrow>
                              let (method', keep) = redirected_method (rp_status r) method
                              in send_hops lib env allow_private insecure p rq left' v method'
                                   (if keep then body else None) s'))))"

definition send_provider_request_once ::
  "outbound_lib \<Rightarrow> (nat \<Rightarrow> outbound_env) \<Rightarrow> bool \<Rightarrow> bool \<Rightarrow> provider_row \<Rightarrow> provider_request
    \<Rightarrow> client_cache \<times> sent_request list \<Rightarrow> (outbound_error + response) \<times> client_cache \<times> sent_request list" where
  "send_provider_request_once lib env allow_private allow_insecure_global p rq s =
     (if \<not> credentials_authorized lib p (pq_url rq)
      then (Inl (denied (''credential host binding: '' @ quoted (unwrap_or (u_host_str (pq_url rq)) ''<missing>'') @
              '' is not an authorized host for provider '' @ quoted (pv_name p))), s)
      else send_hops lib env allow_private (allow_insecure_global \<or> insecure_tls p) p rq MAX_REDIRECTS
             (pq_url rq) (pq_method rq) (pq_json_body rq) s)"

definition should_retry_transient_gateway :: "bool \<Rightarrow> nat \<Rightarrow> nat \<Rightarrow> bool" where
  "should_retry_transient_gateway accept_event_stream status retries_done \<longleftrightarrow>
     accept_event_stream \<and> retries_done < MAX_TRANSIENT_GATEWAY_RETRIES \<and> status \<in> {502, 503, 504}"

function send_from ::
  "outbound_lib \<Rightarrow> (nat \<Rightarrow> nat \<Rightarrow> outbound_env) \<Rightarrow> bool \<Rightarrow> bool \<Rightarrow> provider_row \<Rightarrow> provider_request \<Rightarrow> nat
    \<Rightarrow> client_cache \<times> sent_request list \<Rightarrow> (outbound_error + response) \<times> client_cache \<times> sent_request list" where
  "send_from lib env allow_private allow_insecure_global p rq retries_done s =
     (case send_provider_request_once lib (env retries_done) allow_private allow_insecure_global p rq s of
        (Inl err, s') \<Rightarrow> (Inl err, s')
      | (Inr r, s') \<Rightarrow>
          if should_retry_transient_gateway (pq_accept_event_stream rq) (rp_status r) retries_done
          then send_from lib env allow_private allow_insecure_global p rq (Suc retries_done) s'
          else (Inr r, s'))"
  by pat_completeness auto
termination
  by (relation "measure (\<lambda>(lib, env, ap, ig, p, rq, n, s). MAX_TRANSIENT_GATEWAY_RETRIES - n)")
     (auto simp: should_retry_transient_gateway_def)

declare send_from.simps [simp del] send_hops.simps [simp del]

definition send_provider_request ::
  "outbound_lib \<Rightarrow> (nat \<Rightarrow> nat \<Rightarrow> outbound_env) \<Rightarrow> bool \<Rightarrow> bool \<Rightarrow> provider_row \<Rightarrow> provider_request
    \<Rightarrow> client_cache \<times> sent_request list \<Rightarrow> (outbound_error + response) \<times> client_cache \<times> sent_request list" where
  "send_provider_request lib env allow_private allow_insecure_global p rq s =
     send_from lib env allow_private allow_insecure_global p rq 0 s"

section \<open>The key of the client cache\<close>

lemma client_key_inj:
  assumes "client_key d i = client_key d' i'" "rd_addrs d \<noteq> []" "rd_addrs d' \<noteq> []"
  shows "rd_host d = rd_host d' \<and> rd_port d = rd_port d' \<and> i = i' \<and> set (rd_addrs d) = set (rd_addrs d')"
proof -
  define joined where "joined r = join_with '','' (sort (map show_socket (rd_addrs r)))" for r :: resolved_destination
  define place where "place r = rd_host r @ CHR '':'' # show_nat (rd_port r)" for r :: resolved_destination
  have key: "client_key r b = (place r @ CHR ''|'' # show_bool b) @ CHR ''|'' # joined r" for r b
    by (simp add: client_key_def place_def joined_def)
  have plain: "CHR ''|'' \<notin> set (show_socket a)" "CHR '','' \<notin> set (show_socket a)" for a
    by (rule show_socket_plain, simp)+
  have j: "CHR ''|'' \<notin> set (joined r)" for r
    using set_join_with [of "'',''" "sort (map show_socket (rd_addrs r))"] plain(1) by (auto simp: joined_def)
  have b: "CHR ''|'' \<notin> set (show_bool b)" for b by (simp add: show_bool_def)
  have outer: "place d @ CHR ''|'' # show_bool i = place d' @ CHR ''|'' # show_bool i'" "joined d = joined d'"
    using append_last_sep [OF assms(1) [unfolded key] j j] by simp_all
  have inner: "place d = place d'" "show_bool i = show_bool i'"
    using append_last_sep [OF outer(1) b b] by simp_all
  have place: "rd_host d = rd_host d'" "show_nat (rd_port d) = show_nat (rd_port d')"
    using append_last_sep [OF inner(1) [unfolded place_def] colon_free colon_free] by simp_all
  have nonempty: "sort xs = [] \<longleftrightarrow> xs = []" for xs :: "string list" by (metis length_sort length_0_conv)
  have tokens: "split_char (CHR '','') (joined r) = sort (map show_socket (rd_addrs r))" if "rd_addrs r \<noteq> []" for r
    unfolding joined_def by (rule split_join) (use that plain(2) in \<open>auto simp: nonempty\<close>)
  have "sort (map show_socket (rd_addrs d)) = sort (map show_socket (rd_addrs d'))"
    using tokens [OF assms(2)] tokens [OF assms(3)] outer(2) by metis
  then have "show_socket ` set (rd_addrs d) = show_socket ` set (rd_addrs d')" by (metis set_map set_sort)
  moreover have "inj show_socket" by (rule injI) (rule show_socket_inj)
  ultimately have "set (rd_addrs d) = set (rd_addrs d')" by (simp add: inj_image_eq_iff)
  then show ?thesis using inner(2) place(1) show_nat_inj [OF place(2)] by (auto simp: show_bool_def split: if_splits)
qed

text \<open>Every cached client is filed under the key of the destination it is pinned to.\<close>

definition filed_ok :: "string \<times> pinned_client \<Rightarrow> bool" where
  "filed_ok e \<longleftrightarrow> (\<exists>d. fst e = client_key d (pc_insecure_tls (snd e)) \<and> pc_host (snd e) = rd_host d \<and>
     pc_addrs (snd e) = rd_addrs d \<and> rd_addrs d \<noteq> [])"

definition cache_ok :: "client_cache \<Rightarrow> bool" where
  "cache_ok cache \<longleftrightarrow> length cache \<le> MAX_PINNED_CLIENTS \<and> list_all filed_ok cache"

lemma get_pinned_client_sound:
  assumes "cache_ok cache" "rd_addrs d \<noteq> []" "get_pinned_client failure d insecure cache = (r, cache')"
  shows "cache_ok cache' \<and>
    (\<forall>c. r = Inr c \<longrightarrow> pc_host c = rd_host d \<and> set (pc_addrs c) = set (rd_addrs d) \<and> pc_insecure_tls c = insecure)"
proof (cases "map_of cache (client_key d insecure)")
  case (Some c)
  then have "filed_ok (client_key d insecure, c)"
    using assms(1) map_of_SomeD by (fastforce simp: cache_ok_def list_all_iff)
  then obtain d' where d': "client_key d insecure = client_key d' (pc_insecure_tls c)" "pc_host c = rd_host d'"
    "pc_addrs c = rd_addrs d'" "rd_addrs d' \<noteq> []"
    by (auto simp: filed_ok_def)
  have "r = Inr c" "cache' = cache" using assms(3) Some by (simp_all add: get_pinned_client_def)
  then show ?thesis using client_key_inj [OF d'(1) assms(2) d'(4)] d'(2,3) assms(1) by force
next
  case None
  let ?c = "\<lparr>pc_host = rd_host d, pc_addrs = rd_addrs d, pc_insecure_tls = insecure\<rparr>"
  define old where "old = (if length cache \<ge> MAX_PINNED_CLIENTS then [] else cache)"
  have "hm_insert (client_key d insecure) ?c old = old @ [(client_key d insecure, ?c)]"
    using None by (intro hm_insert_fresh) (auto simp: map_of_eq_None_iff old_def)
  moreover have "length old < MAX_PINNED_CLIENTS" "list_all filed_ok old"
    using assms(1) by (auto simp: MAX_PINNED_CLIENTS_def old_def cache_ok_def)
  moreover have "filed_ok (client_key d insecure, ?c)"
    unfolding filed_ok_def by (rule exI [of _ d]) (simp add: assms(2))
  ultimately have "cache_ok (hm_insert (client_key d insecure) ?c old)" by (simp add: cache_ok_def)
  then show ?thesis using assms None by (auto simp: get_pinned_client_def Let_def old_def [symmetric] split: option.splits)
qed

section \<open>What may be sent\<close>

text \<open>The policy every message obeys; \<open>dns\<close> is the resolver at the time of its hop.\<close>

definition message_ok ::
  "outbound_lib \<Rightarrow> bool \<Rightarrow> bool \<Rightarrow> provider_row \<Rightarrow> (string \<Rightarrow> nat \<Rightarrow> string + socket_addr list) \<Rightarrow> sent_request \<Rightarrow> bool" where
  "message_ok lib allow_private insecure p dns m \<longleftrightarrow>
     u_username (sr_url m) = [] \<and> u_password (sr_url m) = None \<and>
     u_scheme (sr_url m) \<in> {''http'', ''https''} \<and> (\<not> insecure \<longrightarrow> u_scheme (sr_url m) = ''https'') \<and>
     pc_insecure_tls (sr_client m) = insecure \<and>
     (sr_credentials m \<noteq> None \<longrightarrow> credentials_authorized lib p (sr_url m)) \<and>
     (\<exists>h port found. u_host_str (sr_url m) = Some h \<and> pc_host (sr_client m) = to_ascii_lowercase h \<and>
        u_port_or_default (sr_url m) = Some port \<and> lookup_addrs dns (to_ascii_lowercase h) port = Inr found \<and>
        set (pc_addrs (sr_client m)) = set found \<and> found \<noteq> [] \<and>
        (\<not> allow_private \<longrightarrow> \<not> is_blocked_host (to_ascii_lowercase h) \<and>
           (\<forall>a \<in> set found. \<not> is_blocked_ip (sa_ip a))))"

lemma resolve_destination_sound:
  assumes "resolve_destination dns u allow_private insecure = Inr d"
  shows "u_username u = [] \<and> u_password u = None \<and> u_scheme u \<in> {''http'', ''https''} \<and>
     (\<not> insecure \<longrightarrow> u_scheme u = ''https'') \<and> rd_addrs d \<noteq> [] \<and>
     (\<exists>h port found. u_host_str u = Some h \<and> rd_host d = to_ascii_lowercase h \<and> u_port_or_default u = Some port \<and>
        lookup_addrs dns (to_ascii_lowercase h) port = Inr found \<and> set (rd_addrs d) = set found \<and> found \<noteq> [] \<and>
        (\<not> allow_private \<longrightarrow> \<not> is_blocked_host (to_ascii_lowercase h) \<and>
           (\<forall>a \<in> set found. \<not> is_blocked_ip (sa_ip a))))"
proof -
  have valid: "addrs = raw \<and> raw \<noteq> [] \<and> (\<not> allow_private \<longrightarrow> (\<forall>a \<in> set raw. \<not> is_blocked_ip (sa_ip a)))"
    if "validate_destination_addrs host raw allow_private = Inr addrs" for host raw addrs
    using that by (auto simp: validate_destination_addrs_def find_None_iff split: if_splits option.splits)
  show ?thesis
    using assms unfolding resolve_destination_def Let_def
    by (auto split: if_splits option.splits sum.splits dest!: valid)
qed

lemma request_credentials_sound:
  "request_credentials lib p rq u = Inr (Some hs) \<Longrightarrow> credentials_authorized lib p u"
  by (simp add: request_credentials_def split: if_splits)

text \<open>One hop adds at most one message, and it is allowed.\<close>

lemma send_hop_sound:
  assumes "cache_ok (fst s)" "send_hop lib e allow_private insecure p rq u method body s = (r, s')"
  shows "cache_ok (fst s') \<and> (\<exists>ms. snd s' = snd s @ ms \<and> length ms \<le> 1 \<and>
    (\<forall>m \<in> set ms. message_ok lib allow_private insecure p (ev_dns e) m))"
proof (cases "resolve_destination (ev_dns e) u allow_private insecure")
  case (Inl err)
  then show ?thesis using assms by (auto simp: send_hop_def)
next
  case (Inr d)
  note res = resolve_destination_sound [OF Inr]
  obtain c cache where pin: "get_pinned_client (ev_build_error e) d insecure (fst s) = (c, cache)" by force
  note ok = get_pinned_client_sound [OF assms(1) conjunct1 [OF conjunct2 [OF conjunct2 [OF conjunct2 [OF conjunct2 [OF res]]]]] pin]
  show ?thesis
  proof (cases "\<exists>client creds. c = Inr client \<and> request_credentials lib p rq u = Inr creds")
    case False
    then show ?thesis using assms(2) ok by (auto simp: send_hop_def Inr pin split: sum.splits)
  next
    case True
    then obtain client creds where c: "c = Inr client" and creds: "request_credentials lib p rq u = Inr creds" by auto
    let ?m = "\<lparr>sr_client = client, sr_method = method, sr_url = u, sr_body = body,
      sr_accept_event_stream = pq_accept_event_stream rq, sr_request_id = pq_request_id rq, sr_credentials = creds\<rparr>"
    have "message_ok lib allow_private insecure p (ev_dns e) ?m"
      using res ok request_credentials_sound [of lib p rq u] creds unfolding message_ok_def c by auto
    then show ?thesis using assms(2) ok by (auto simp: send_hop_def Inr pin c creds Let_def)
  qed
qed

text \<open>A run from one state of cache and trace to another: at most \<open>n\<close> allowed messages are added.\<close>

definition sends ::
  "outbound_lib \<Rightarrow> bool \<Rightarrow> bool \<Rightarrow> provider_row \<Rightarrow> (outbound_env \<Rightarrow> bool) \<Rightarrow> nat
    \<Rightarrow> client_cache \<times> sent_request list \<Rightarrow> client_cache \<times> sent_request list \<Rightarrow> bool" where
  "sends lib allow_private insecure p during n s s' \<longleftrightarrow> cache_ok (fst s') \<and> (\<exists>ms. snd s' = snd s @ ms \<and> length ms \<le> n \<and>
     (\<forall>m \<in> set ms. \<exists>e. during e \<and> message_ok lib allow_private insecure p (ev_dns e) m))"

lemma sends_refl: "cache_ok (fst s) \<Longrightarrow> sends lib ap ins p D n s s"
  by (auto simp: sends_def)

lemma sends_trans:
  "sends lib ap ins p D n s s' \<Longrightarrow> sends lib ap ins p D k s' s'' \<Longrightarrow> sends lib ap ins p D (n + k) s s''"
  unfolding sends_def by (elim conjE exE) (auto intro!: add_mono exI [of _ "_ @ _"])

lemma sends_cache: "sends lib ap ins p D n s s' \<Longrightarrow> cache_ok (fst s')"
  by (simp add: sends_def)

lemma sends_mono: "sends lib ap ins p D n s s' \<Longrightarrow> n \<le> k \<Longrightarrow> sends lib ap ins p D k s s'"
  by (fastforce simp: sends_def)

lemma send_hops_sound:
  "cache_ok (fst s) \<Longrightarrow> (\<And>i. D (env i)) \<Longrightarrow>
   send_hops lib env ap ins p rq left u meth body s = (r, s') \<Longrightarrow> sends lib ap ins p D (Suc left) s s'"
proof (induction left arbitrary: u meth body s r s')
  case (0 u meth body s r s')
  obtain r1 s1 where hop: "send_hop lib (env 0) ap ins p rq u meth body s = (r1, s1)" using prod.exhaust by blast
  have "s' = s1" using "0.prems"(3) hop by (subst (asm) send_hops.simps) (auto split: sum.splits if_splits)
  then show ?case using send_hop_sound [OF "0.prems"(1) hop] "0.prems"(2) unfolding sends_def by fastforce
next
  case (Suc left u meth body s r s')
  obtain r1 s1 where hop: "send_hop lib (env (Suc left)) ap ins p rq u meth body s = (r1, s1)" using prod.exhaust by blast
  have one: "sends lib ap ins p D 1 s s1"
    using send_hop_sound [OF Suc.prems(1) hop] Suc.prems(2) unfolding sends_def by fastforce
  consider "s' = s1" | v meth' body' where "send_hops lib env ap ins p rq left v meth' body' s1 = (r, s')"
    using Suc.prems(3) hop
    by (subst (asm) send_hops.simps) (auto simp: Let_def split: sum.splits if_splits location.splits prod.splits)
  then show ?case
  proof cases
    case 1
    then show ?thesis using one sends_mono [of lib ap ins p D 1 s s1] by simp
  next
    case 2
    then have "sends lib ap ins p D (Suc left) s1 s'" using Suc.IH sends_cache [OF one] Suc.prems(2) by blast
    then show ?thesis using sends_trans [OF one] by simp
  qed
qed

lemma send_once_sound:
  assumes "cache_ok (fst s)" "\<And>i. D (env i)" "send_provider_request_once lib env ap ig p rq s = (r, s')"
  shows "sends lib ap (ig \<or> insecure_tls p) p D (Suc MAX_REDIRECTS) s s'"
  using assms(3) send_hops_sound [of s D env, OF assms(1,2)] sends_refl [OF assms(1)]
  by (auto simp: send_provider_request_once_def split: if_splits)

lemma send_from_sound:
  "cache_ok (fst s) \<Longrightarrow> (\<And>i j. D (env i j)) \<Longrightarrow> n \<le> MAX_TRANSIENT_GATEWAY_RETRIES \<Longrightarrow>
   send_from lib env ap ig p rq n s = (r, s') \<Longrightarrow>
   sends lib ap (ig \<or> insecure_tls p) p D (Suc (MAX_TRANSIENT_GATEWAY_RETRIES - n) * Suc MAX_REDIRECTS) s s'"
proof (induction lib env ap ig p rq n s arbitrary: r s' rule: send_from.induct)
  case (1 lib env ap ig p rq n s)
  obtain r1 s1 where once: "send_provider_request_once lib (env n) ap ig p rq s = (r1, s1)" using prod.exhaust by blast
  have one: "sends lib ap (ig \<or> insecure_tls p) p D (Suc MAX_REDIRECTS) s s1"
    using send_once_sound [OF "1.prems"(1) _ once] "1.prems"(2) by blast
  show ?case
  proof (cases "\<exists>rp. r1 = Inr rp \<and> should_retry_transient_gateway (pq_accept_event_stream rq) (rp_status rp) n")
    case False
    then have "s' = s1" using "1.prems"(4) once by (subst (asm) send_from.simps) (auto split: sum.splits if_splits)
    then show ?thesis using sends_mono [OF one] by simp
  next
    case True
    then obtain rp where rp: "r1 = Inr rp" "should_retry_transient_gateway (pq_accept_event_stream rq) (rp_status rp) n"
      by auto
    then have lt: "n < MAX_TRANSIENT_GATEWAY_RETRIES" by (simp add: should_retry_transient_gateway_def)
    have "send_from lib env ap ig p rq (Suc n) s1 = (r, s')"
      using "1.prems"(4) once rp by (subst (asm) send_from.simps) simp
    then have "sends lib ap (ig \<or> insecure_tls p) p D
        (Suc (MAX_TRANSIENT_GATEWAY_RETRIES - Suc n) * Suc MAX_REDIRECTS) s1 s'"
      using "1.IH" [OF once [symmetric] rp] sends_cache [OF one] "1.prems"(2) lt by auto
    moreover have "Suc MAX_REDIRECTS + Suc (MAX_TRANSIENT_GATEWAY_RETRIES - Suc n) * Suc MAX_REDIRECTS
        = Suc (MAX_TRANSIENT_GATEWAY_RETRIES - n) * Suc MAX_REDIRECTS"
      by (metis Suc_diff_Suc lt mult_Suc)
    ultimately show ?thesis using sends_trans [OF one] by metis
  qed
qed

section \<open>Properties\<close>

text \<open>
  C7. No message leaves the transport outside the policy, however names resolve and peers redirect. Starting
  from a well-filed client cache, a request sends at most twelve messages (six hops, one retry). Each goes to
  an \<^verbatim>\<open>http(s)\<close> URL without userinfo, over TLS unless insecure transport is allowed; its client is pinned to
  exactly the addresses its host resolved to for that hop (cached clients included), none of them in a blocked
  range unless private destinations are allowed; credentials go only to hosts bound to the provider, and
  nothing at all is sent when the first host is not one. The cache stays well-filed and bounded.
\<close>

theorem outbound_hops_safe:
  assumes "cache_ok cache"
    and "send_provider_request lib env allow_private allow_insecure_global p rq (cache, []) = (r, cache', sent)"
  shows "cache_ok cache' \<and> length sent \<le> 12 \<and>
    (\<forall>m \<in> set sent. \<exists>i j. message_ok lib allow_private (allow_insecure_global \<or> insecure_tls p) p (ev_dns (env i j)) m) \<and>
    (\<not> credentials_authorized lib p (pq_url rq) \<longrightarrow> sent = [] \<and> isl r)"
proof -
  have "sends lib allow_private (allow_insecure_global \<or> insecure_tls p) p (\<lambda>e. \<exists>i j. e = env i j) 12 (cache, []) (cache', sent)"
    using send_from_sound [of "(cache, [])" "\<lambda>e. \<exists>i j. e = env i j" env 0 lib allow_private allow_insecure_global p rq r
        "(cache', sent)"] assms
    by (fastforce simp: send_provider_request_def const_defs)
  moreover have "sent = [] \<and> isl r" if "\<not> credentials_authorized lib p (pq_url rq)"
    using assms(2) that
    by (auto simp: send_provider_request_def send_from.simps [of _ _ _ _ _ _ 0] send_provider_request_once_def)
  ultimately show ?thesis by (auto simp: sends_def) metis
qed

definition demo_url :: "string \<Rightarrow> url" where
  "demo_url h = \<lparr>u_scheme = ''https'', u_username = [], u_password = None, u_host_str = Some h,
     u_port_or_default = Some 443, u_text = h\<rparr>"

definition demo_lib :: outbound_lib where
  "demo_lib = \<lparr>ol_codec = demo_codec, ol_join = (\<lambda>_ loc. Inr (demo_url loc)),
     ol_auth = (\<lambda>_. Inr [(''authorization'', ''Bearer k'')])\<rparr>"

text \<open>The host \<open>x\<close> is bound to the provider and redirects to \<open>y\<close>, which is not.\<close>

definition demo_env :: outbound_env where
  "demo_env = \<lparr>ev_dns = (\<lambda>_ port. Inr [\<lparr>sa_ip = V4 0x08080808, sa_port = port\<rparr>]), ev_build_error = None,
     ev_peer = (\<lambda>m. Inr (if u_host_str (sr_url m) = Some ''x'' then \<lparr>rp_status = 302, rp_location = Location ''y''\<rparr>
        else \<lparr>rp_status = 200, rp_location = No_Location\<rparr>))\<rparr>"

definition demo_bound :: provider_row where
  "demo_bound = (demo_provider ''p'' 1)\<lparr>pv_credential_hosts := ''x'', pv_follow_redirects := 1\<rparr>"

definition demo_post :: provider_request where
  "demo_post = \<lparr>pq_method = POST, pq_url = demo_url ''x'', pq_json_body = Some JNull, pq_accept_event_stream = True,
     pq_request_id = None, pq_headers = []\<rparr>"

lemma demo_hosts:
  "credentials_authorized demo_lib demo_bound (demo_url ''x'')" "\<not> credentials_authorized demo_lib demo_bound (demo_url ''y'')"
  "insecure_tls demo_bound \<longleftrightarrow> False" "follows_redirects demo_bound"
  by (code_simp)+

lemma demo_names: "parse_ip ''x'' = None" "parse_ip ''y'' = None" "\<not> is_blocked_host ''x''" "\<not> is_blocked_host ''y''"
  "to_ascii_lowercase ''x'' = ''x''" "to_ascii_lowercase ''y'' = ''y''"
proof -
  show p: "parse_ip ''x'' = None" "parse_ip ''y'' = None"
    by (simp_all add: parse_ip_def read_ipv4_def read_ipv6_def read_octets.simps(2) [of 3, simplified]
        read_groups.simps(2) [of 7, simplified] read_number_def digit_value_def opt_filter_def read_char_def)
  show l: "to_ascii_lowercase ''x'' = ''x''" "to_ascii_lowercase ''y'' = ''y''" by code_simp+
  have "trim ''x'' = ''x''" "trim ''y'' = ''y''" by code_simp+
  then show "\<not> is_blocked_host ''x''" "\<not> is_blocked_host ''y''"
    by (simp_all add: is_blocked_host_def p l ends_with_def strip_suffix_def)
qed

lemma demo_public: "\<not> is_blocked_ip (V4 0x08080808)"
  by (simp add: is_blocked_ip_def blocked_v4_def octet_def v4_is_loopback_def v4_is_private_def v4_is_link_local_def
      v4_is_multicast_def)

lemma demo_resolve:
  assumes "h = ''x'' \<or> h = ''y''"
  shows "resolve_destination (ev_dns demo_env) (demo_url h) False False =
     Inr \<lparr>rd_host = h, rd_port = 443, rd_addrs = [\<lparr>sa_ip = V4 0x08080808, sa_port = 443\<rparr>]\<rparr>"
  using assms
  by (auto simp: resolve_destination_def demo_url_def demo_env_def lookup_addrs_def validate_destination_addrs_def
      demo_names demo_public)

definition demo_client :: "string \<Rightarrow> pinned_client" where
  "demo_client h = \<lparr>pc_host = h, pc_addrs = [\<lparr>sa_ip = V4 0x08080808, sa_port = 443\<rparr>], pc_insecure_tls = False\<rparr>"

definition demo_key_of :: "string \<Rightarrow> string" where
  "demo_key_of h =
     client_key \<lparr>rd_host = h, rd_port = 443, rd_addrs = [\<lparr>sa_ip = V4 0x08080808, sa_port = 443\<rparr>]\<rparr> False"

lemma demo_hop:
  assumes "h = ''x'' \<or> h = ''y''" "map_of cache (demo_key_of h) = None" "length cache < 2"
  shows "send_hop demo_lib demo_env False False demo_bound demo_post (demo_url h) method body (cache, sent) =
    (Inr (if h = ''x'' then \<lparr>rp_status = 302, rp_location = Location ''y''\<rparr> else \<lparr>rp_status = 200, rp_location = No_Location\<rparr>),
     cache @ [(demo_key_of h, demo_client h)], sent @ [\<lparr>sr_client = demo_client h, sr_method = method, sr_url = demo_url h, sr_body = body,
       sr_accept_event_stream = True, sr_request_id = None,
       sr_credentials = (if h = ''x'' then Some [(''authorization'', ''Bearer k'')] else None)\<rparr>])"
proof -
  have lib: "ev_build_error demo_env = None" "ol_auth demo_lib u = Inr [(''authorization'', ''Bearer k'')]"
    "extra_headers_map (ol_codec demo_lib) demo_bound = []" "pq_headers demo_post = []"
    "pq_accept_event_stream demo_post" "pq_request_id demo_post = None" "u_host_str (demo_url k) = Some k"
    "ev_peer demo_env m = Inr (if u_host_str (sr_url m) = Some ''x'' then \<lparr>rp_status = 302, rp_location = Location ''y''\<rparr>
        else \<lparr>rp_status = 200, rp_location = No_Location\<rparr>)" for u k m
    by (simp_all add: demo_env_def demo_lib_def demo_post_def demo_url_def extra_headers_map_def demo_codec_def unwrap_or_def)
  have ins: "hm_insert (demo_key_of h) (demo_client h) cache = cache @ [(demo_key_of h, demo_client h)]"
    using assms(2) by (intro hm_insert_fresh) (simp add: map_of_eq_None_iff)
  have pin: "get_pinned_client None \<lparr>rd_host = h, rd_port = 443, rd_addrs = [\<lparr>sa_ip = V4 0x08080808, sa_port = 443\<rparr>]\<rparr>
      False cache = (Inr (demo_client h), cache @ [(demo_key_of h, demo_client h)])"
    using assms(2,3) ins
    by (simp add: get_pinned_client_def demo_key_of_def [symmetric] demo_client_def [symmetric] Let_def const_defs)
  show ?thesis
    using assms(1) demo_hosts
    by (auto simp: send_hop_def demo_resolve [OF assms(1)] pin request_credentials_def Let_def lib)
qed

lemma demo_run:
  "send_provider_request demo_lib (\<lambda>_ _. demo_env) False False demo_bound demo_post ([], []) =
    (Inr \<lparr>rp_status = 200, rp_location = No_Location\<rparr>,
     [(demo_key_of ''x'', demo_client ''x''), (demo_key_of ''y'', demo_client ''y'')],
     [\<lparr>sr_client = demo_client ''x'', sr_method = POST, sr_url = demo_url ''x'', sr_body = Some JNull,
        sr_accept_event_stream = True, sr_request_id = None, sr_credentials = Some [(''authorization'', ''Bearer k'')]\<rparr>,
      \<lparr>sr_client = demo_client ''y'', sr_method = GET, sr_url = demo_url ''y'', sr_body = None,
        sr_accept_event_stream = True, sr_request_id = None, sr_credentials = None\<rparr>])"
proof -
  have k: "demo_key_of ''x'' \<noteq> demo_key_of ''y''"
    using client_key_inj [of "\<lparr>rd_host = ''x'', rd_port = 443, rd_addrs = [\<lparr>sa_ip = V4 0x08080808, sa_port = 443\<rparr>]\<rparr>" False
        "\<lparr>rd_host = ''y'', rd_port = 443, rd_addrs = [\<lparr>sa_ip = V4 0x08080808, sa_port = 443\<rparr>]\<rparr>" False]
    by (auto simp: demo_key_of_def)
  have rq: "pq_url demo_post = demo_url ''x''" "pq_method demo_post = POST" "pq_json_body demo_post = Some JNull"
    "ol_join demo_lib u ''y'' = Inr (demo_url ''y'')" for u
    by (simp_all add: demo_post_def demo_lib_def)
  note hops = send_hops.simps [of demo_lib "\<lambda>_. demo_env" False False demo_bound demo_post]
  show ?thesis
    using demo_hosts k rq
    by (simp add: send_provider_request_def send_from.simps [of _ _ _ _ _ _ 0] send_provider_request_once_def MAX_REDIRECTS_def
        should_retry_transient_gateway_def hops [of 5] hops [of 4] demo_hop is_redirection_def redirected_method_def)
qed

theorem outbound_hops_safe_witness:
  "\<exists>r cache' sent. send_provider_request demo_lib (\<lambda>_ _. demo_env) False False demo_bound demo_post ([], []) = (r, cache', sent)
     \<and> cache_ok cache' \<and> map sr_credentials sent = [Some [(''authorization'', ''Bearer k'')], None]
     \<and> list_all (message_ok demo_lib False False demo_bound (ev_dns demo_env)) sent"
  using outbound_hops_safe [OF _ demo_run] demo_run demo_hosts(3)
  by (fastforce simp: cache_ok_def list_all_iff)

text \<open>The ranges the policy documents: an IPv4 network as its 32-bit value and prefix length.\<close>

definition blocked_ranges_v4 :: "(32 word \<times> nat) list" where
  "blocked_ranges_v4 =
     [(0x7f000000, 8), (0x0a000000, 8), (0xac100000, 12), (0xc0a80000, 16), (0xa9fe0000, 16), (0, 8),
      (0xffffffff, 32), (0xe0000000, 4), (0x64400000, 10), (0xc6120000, 15)]"

definition blocked_ranges_v6 :: "(128 word \<times> nat) list" where
  "blocked_ranges_v6 =
     [(0, 128), (1, 128), (push_bit 120 0xff, 8), (push_bit 120 0xfc, 7), (push_bit 112 0xfe80, 10)]"

lemma unat_drop_bit: "unat (drop_bit k (w :: 'a::len word)) = unat w div 2 ^ k"
  using unat_drop_bit_eq [of k w] by (simp only: drop_bit_eq_div)

lemma same_prefix: "drop_bit k (a :: 'a::len word) = drop_bit k b \<longleftrightarrow> unat a div 2 ^ k = unat b div 2 ^ k"
  unfolding word_unat_eq_iff unat_drop_bit ..

lemma cidr_v4:
  assumes "0 < p" "p \<le> 32"
  shows "cidr_contains (V4 n) p (V4 w) \<longleftrightarrow> unat w div 2 ^ (32 - p) = unat n div 2 ^ (32 - p)"
  using assms by (auto simp: cidr_contains_def Let_def masked_not_eq_iff same_prefix)

lemma cidr_v6:
  assumes "0 < p" "p \<le> 128"
  shows "cidr_contains (V6 n) p (V6 w) \<longleftrightarrow> unat w div 2 ^ (128 - p) = unat n div 2 ^ (128 - p)"
  using assms by (auto simp: cidr_contains_def Let_def masked_not_eq_iff same_prefix)

lemma div_range: "0 < k \<Longrightarrow> (x::nat) div k = q \<longleftrightarrow> q * k \<le> x \<and> x < q * k + k"
  by (metis add.commute div_nat_eqI dividend_less_times_div mult.commute mult_Suc_right times_div_less_eq_dividend)

lemma octet_pair_range:
  assumes "x = 256 * a + b" "b < (256::nat)" "h \<le> 256"
  shows "256 * A + l \<le> x \<and> x < 256 * A + h \<longleftrightarrow> a = A \<and> l \<le> b \<and> b < h"
  using assms by (cases a A rule: linorder_cases) auto

text \<open>What the ranges with a prefix of more than eight bits say of the first two octets.\<close>

lemma range_octets:
  assumes "x = 256 * a + b" "b < (256::nat)"
  shows "x div 16 = 2753 \<longleftrightarrow> a = 172 \<and> 16 \<le> b \<and> b < 32"
    and "x = 49320 \<longleftrightarrow> a = 192 \<and> b = 168"
    and "x = 43518 \<longleftrightarrow> a = 169 \<and> b = 254"
    and "x div 64 = 401 \<longleftrightarrow> a = 100 \<and> 64 \<le> b \<and> b < 128"
    and "x div 2 = 25353 \<longleftrightarrow> a = 198 \<and> 18 \<le> b \<and> b < 20"
    and "x div 4096 = 14 \<longleftrightarrow> 224 \<le> a \<and> a < 240"
proof -
  note r = octet_pair_range [OF assms, symmetric]
  show "x div 16 = 2753 \<longleftrightarrow> a = 172 \<and> 16 \<le> b \<and> b < 32" by (subst r) (simp_all only: div_range, simp_all)
  show "x = 49320 \<longleftrightarrow> a = 192 \<and> b = 168" using r [of 169 192 168] by (simp add: le_less_Suc_eq) linarith
  show "x = 43518 \<longleftrightarrow> a = 169 \<and> b = 254" using r [of 255 169 254] by (simp add: le_less_Suc_eq) linarith
  show "x div 64 = 401 \<longleftrightarrow> a = 100 \<and> 64 \<le> b \<and> b < 128" by (subst r) (simp_all only: div_range, simp_all)
  show "x div 2 = 25353 \<longleftrightarrow> a = 198 \<and> 18 \<le> b \<and> b < 20" by (subst r) (simp_all only: div_range, simp_all)
  show "x div 4096 = 14 \<longleftrightarrow> 224 \<le> a \<and> a < 240" by (subst div_range, simp) (use assms in linarith)
qed

lemma blocked_v4_ranges: "blocked_v4 w \<longleftrightarrow> list_ex (\<lambda>(n, p). cidr_contains (V4 n) p (V4 w)) blocked_ranges_v4"
proof -
  define x where "x = unat w div 65536"
  have lt: "unat w < 4294967296" using unsigned_less [of w] by simp
  have d: "unat w div 16777216 = x div 256" "unat w div 1048576 = x div 16" "unat w div 268435456 = x div 4096"
    "unat w div 4194304 = x div 64" "unat w div 131072 = x div 2"
    by (simp_all add: x_def flip: div_mult2_eq)
  have x: "x < 65536" using lt by (simp add: x_def less_mult_imp_div_less)
  have o: "octet 0 w = x div 256" "octet 1 w = x mod 256"
    using x by (simp_all add: octet_def d x_def [symmetric] less_mult_imp_div_less)
  have "unat (- 1 :: 32 word) = 4294967295" by (simp add: unsigned_minus_1_eq_mask mask_eq_exp_minus_1)
  then have all: "w = - 1 \<longleftrightarrow> unat w = 4294967295" "w = 0 \<longrightarrow> x div 256 = 0"
    by (auto simp: word_unat_eq_iff x_def)
  have "list_ex (\<lambda>(n, p). cidr_contains (V4 n) p (V4 w)) blocked_ranges_v4 \<longleftrightarrow>
     x div 256 \<in> {127, 10, 0} \<or> x div 16 = 2753 \<or> x = 49320 \<or> x = 43518 \<or> w = - 1 \<or> x div 4096 = 14
       \<or> x div 64 = 401 \<or> x div 2 = 25353"
    by (auto simp: blocked_ranges_v4_def cidr_v4 d all x_def [symmetric])
  also have "\<dots> \<longleftrightarrow> blocked_v4 w"
  proof -
    define a b where "a = x div 256" and "b = x mod 256"
    have ab: "x = 256 * a + b" "b < 256" by (simp_all add: a_def b_def)
    have le: "b < 32 \<longleftrightarrow> b \<le> 31" "b < 128 \<longleftrightarrow> b \<le> 127" "a < 240 \<longleftrightarrow> a \<le> 239" "18 \<le> b \<and> b < 20 \<longleftrightarrow> b \<in> {18, 19}"
      by auto
    show ?thesis
      using all(2)
      unfolding range_octets [OF ab] le blocked_v4_def v4_is_loopback_def v4_is_private_def v4_is_link_local_def
        v4_is_multicast_def o Let_def a_def [symmetric] b_def [symmetric] by blast
  qed
  finally show ?thesis by simp
qed

lemma blocked_v6_ranges:
  assumes "to_ipv4_mapped w = None"
  shows "is_blocked_ip (V6 w) \<longleftrightarrow> list_ex (\<lambda>(n, p). cidr_contains (V6 n) p (V6 w)) blocked_ranges_v6"
proof -
  define first :: "16 word" where "first = ucast (drop_bit 112 w)"
  have lt: "unat w div 2 ^ 112 < 65536" using unsigned_less [where 'a = nat, of w] by (simp add: less_mult_imp_div_less)
  have u: "unat first = unat w div 2 ^ 112"
    using lt by (simp add: first_def unsigned_ucast_eq unat_drop_bit take_bit_eq_mod)
  have masked: "first AND push_bit k (- 1) = n \<longleftrightarrow> unat w div 2 ^ (112 + k) = unat n div 2 ^ k"
    if "n AND push_bit k (- 1) = n" for k :: nat and n :: "16 word"
    using masked_eq_iff [of first k n] that same_prefix [of k first n] by (simp add: u power_add div_mult2_eq)
  have masks: "NOT (mask 9) = (0xfe00 :: 16 word)" "NOT (mask 6) = (0xffc0 :: 16 word)" by code_simp+
  have "first AND 0xfe00 = 0xfc00 \<longleftrightarrow> unat w div 2 ^ 121 = 126" "first AND 0xffc0 = 0xfe80 \<longleftrightarrow> unat w div 2 ^ 118 = 1018"
    using masked [where k = 9 and n = "0xfc00"] masked [where k = 6 and n = "0xfe80"] by (simp_all add: masks)
  moreover have "drop_bit 8 first = 0xff \<longleftrightarrow> unat w div 2 ^ 120 = 255"
    unfolding word_unat_eq_iff unat_drop_bit u by (simp flip: div_mult2_eq)
  ultimately show ?thesis
    using assms by (auto simp: is_blocked_ip_def blocked_ranges_v6_def cidr_v6 Let_def first_def [symmetric] word_unat_eq_iff)
qed

text \<open>
  The destination policy blocks exactly the ranges it documents: an IPv4 address is blocked when it lies in one
  of the ten listed networks (loopback, the three private ones, link-local, \<^verbatim>\<open>0/8\<close>, broadcast, multicast,
  carrier-grade NAT, benchmarking), an IPv6 address that maps an IPv4 one when that address is, and any other
  IPv6 address when it is unspecified, loopback, multicast, unique-local or link-local.
\<close>

theorem is_blocked_ip_ranges:
  "is_blocked_ip a =
     (case a of
        V4 w \<Rightarrow> list_ex (\<lambda>(n, p). cidr_contains (V4 n) p (V4 w)) blocked_ranges_v4
      | V6 v \<Rightarrow> (case to_ipv4_mapped v of
          Some m \<Rightarrow> list_ex (\<lambda>(n, p). cidr_contains (V4 n) p (V4 m)) blocked_ranges_v4
        | None \<Rightarrow> list_ex (\<lambda>(n, p). cidr_contains (V6 n) p (V6 v)) blocked_ranges_v6))"
  using blocked_v4_ranges blocked_v6_ranges by (auto simp: is_blocked_ip_def split: option.split ip_addr.split)

end
