(* ===== verification/Execution_Profile.thy ===== *)
theory Execution_Profile
  imports Route_Policy
begin

text \<open>
  The decision how a target is executed (\<^verbatim>\<open>src/src/adapters/mod.rs\<close>): the transport, the reasoning
  capability normalised from discovery metadata, the thinking map derived from it, the capability
  flags and the parameter table, together with the strict parser of versioned plugin metadata. Hash
  maps keyed by level are partial functions, or lists where they are iterated. Typed deserialisation
  of JSON values is written out from the field attributes; \<^verbatim>\<open>Option\<close> fields may be absent or null, and
  structures that deny unknown fields reject them; the positional array form of a structure is left out.
\<close>

section \<open>Transports\<close>

record plugin_ref =
  pr_plugin_id :: string
  pr_capability :: string

definition plugin_ref_parse :: "string \<Rightarrow> plugin_ref option" where
  "plugin_ref_parse s =
     (case strip_prefix ''plugin:'' s of
        None \<Rightarrow> None
      | Some rest \<Rightarrow>
          (case split_once (CHR ''/'') rest of
             None \<Rightarrow> None
           | Some (i, capability) \<Rightarrow>
               if i = [] \<or> capability = [] then None
               else Some \<lparr>pr_plugin_id = i, pr_capability = capability\<rparr>))"

definition to_string_ref :: "plugin_ref \<Rightarrow> string" where
  "to_string_ref r = ''plugin:'' @ pr_plugin_id r @ ''/'' @ pr_capability r"

definition wire_plugin_ref :: "provider_row \<Rightarrow> plugin_ref option" where
  "wire_plugin_ref p = plugin_ref_parse (pv_wire_plugin p)"

datatype target_transport = OpenAiChat | OpenAiResponses | AnthropicT | GeminiT | PluginT string

definition transport_parse :: "string \<Rightarrow> target_transport option" where
  "transport_parse v =
     (if v = ''openai'' then Some OpenAiChat
      else if v = ''openai-responses'' then Some OpenAiResponses
      else if v = ''anthropic'' then Some AnthropicT
      else if v = ''gemini'' then Some GeminiT
      else map_option (\<lambda>r. PluginT (to_string_ref r)) (plugin_ref_parse v))"

fun transport_as_str :: "target_transport \<Rightarrow> string" where
  "transport_as_str OpenAiChat = ''openai''"
| "transport_as_str OpenAiResponses = ''openai-responses''"
| "transport_as_str AnthropicT = ''anthropic''"
| "transport_as_str GeminiT = ''gemini''"
| "transport_as_str (PluginT reference) = reference"

definition no_binding :: proxy_error where
  "no_binding = pe_unsupported ''plugin transport requires a valid provider adapter binding''"

definition bad_wire :: "provider_row \<Rightarrow> proxy_error" where
  "bad_wire p = pe_unsupported (''unsupported provider wire format '' @ quoted (pv_wire_format p))"

definition default_for_provider :: "provider_row \<Rightarrow> proxy_error + target_transport" where
  "default_for_provider p =
     (case wire_plugin_ref p of
        Some r \<Rightarrow> Inr (PluginT (to_string_ref r))
      | None \<Rightarrow>
          (case wire_format_parse (pv_wire_format p) of
             None \<Rightarrow> Inl (bad_wire p)
           | Some Openai \<Rightarrow> Inr OpenAiChat
           | Some Anthropic \<Rightarrow> Inr AnthropicT
           | Some Gemini \<Rightarrow> Inr GeminiT
           | Some Plugin \<Rightarrow> Inl no_binding))"

fun provider_wire_format :: "target_transport \<Rightarrow> wire_format option" where
  "provider_wire_format OpenAiChat = Some Openai"
| "provider_wire_format OpenAiResponses = Some Openai"
| "provider_wire_format AnthropicT = Some Anthropic"
| "provider_wire_format GeminiT = Some Gemini"
| "provider_wire_format (PluginT _) = None"

text \<open>The value of a field that is present and not null.\<close>

definition non_null :: "json \<Rightarrow> string \<Rightarrow> json option" where
  "non_null v k = opt_filter (\<lambda>x. x \<noteq> JNull) (json_get v k)"

definition discovered_transport :: "json \<Rightarrow> proxy_error + string option" where
  "discovered_transport discovery =
     (let format_of = (\<lambda>t msg. case json_get t ''format'' of None \<Rightarrow> Inl (pe_unsupported msg) | Some f \<Rightarrow> Inr (Some f));
          observed =
            (case non_null discovery ''transport'' of
               Some t \<Rightarrow> format_of t ''discovered model transport metadata is missing its format''
             | None \<Rightarrow>
                 (case Option.bind (non_null discovery ''raw_metadata'') (\<lambda>m. json_get m ''transport'') of
                    None \<Rightarrow> Inr None
                  | Some JNull \<Rightarrow> Inr None
                  | Some t \<Rightarrow> format_of t ''raw discovered transport metadata is missing its format''))
      in case observed of
           Inl e \<Rightarrow> Inl e
         | Inr None \<Rightarrow> Inr None
         | Inr (Some v) \<Rightarrow>
             (case as_str v of
                None \<Rightarrow> Inl (pe_unsupported ''discovered model transport format must be a string'')
              | Some s \<Rightarrow> Inr (Some s)))"

section \<open>Reasoning capability\<close>

datatype reasoning_mode = RToggle | RLevel | RManualBudget | RAdaptive

record reasoning_capability =
  rc_mode :: "reasoning_mode option"
  rc_levels :: "string list"
  rc_default :: "string option"
  rc_can_disable :: bool
  rc_upstream_format :: string
  rc_upstream_levels :: "string \<rightharpoonup> string"

record capability_flags =
  cf_text :: "bool option"
  cf_reasoning :: "bool option"
  cf_vision :: "bool option"
  cf_tool_calling :: "bool option"
  cf_structured_output :: "bool option"

definition canonical_level :: "string \<Rightarrow> string option" where
  "canonical_level raw =
     (let s = to_ascii_lowercase (trim raw)
      in if s \<in> {''off'', ''none'', ''disabled''} then Some ''off''
         else if s \<in> {''minimal'', ''low'', ''medium'', ''high''} then Some s
         else if s \<in> {''xhigh'', ''x-high'', ''x_high'', ''extra_high''} then Some ''xhigh''
         else if s = ''max'' then Some ''max''
         else None)"

fun collect_levels ::
  "json list \<Rightarrow> string list \<times> (string \<rightharpoonup> string) \<Rightarrow> string list \<times> (string \<rightharpoonup> string)" where
  "collect_levels [] acc = acc"
| "collect_levels (v # vs) (levels, up) =
     (case as_str v of
        None \<Rightarrow> collect_levels vs (levels, up)
      | Some raw \<Rightarrow>
          (case canonical_level raw of
             None \<Rightarrow> collect_levels vs (levels, up)
           | Some l \<Rightarrow>
               if l \<in> set levels then collect_levels vs (levels, up)
               else collect_levels vs (levels @ [l], up(l \<mapsto> raw))))"

definition canonical_reasoning_levels :: "json \<Rightarrow> string list \<times> (string \<rightharpoonup> string)" where
  "canonical_reasoning_levels v =
     (case v of JArray vs \<Rightarrow> collect_levels vs ([], Map.empty) | _ \<Rightarrow> ([], Map.empty))"

definition reasoning_capability_of ::
  "string list \<times> (string \<rightharpoonup> string) \<Rightarrow> reasoning_mode \<Rightarrow> string \<Rightarrow> bool option \<Rightarrow> reasoning_capability option" where
  "reasoning_capability_of ls mode fmt can_disable =
     (if fst ls = [] then None
      else Some \<lparr>rc_mode = Some mode, rc_levels = fst ls, rc_default = None,
             rc_can_disable = unwrap_or can_disable (''off'' \<in> set (fst ls)),
             rc_upstream_format = fmt, rc_upstream_levels = snd ls\<rparr>)"

definition has_key :: "json \<Rightarrow> string \<Rightarrow> bool" where
  "has_key v k \<longleftrightarrow> json_get v k \<noteq> None"

definition declares_reasoning :: "json \<Rightarrow> bool" where
  "declares_reasoning v \<longleftrightarrow> has_key v ''supported'' \<or> has_key v ''mode'' \<or> has_key v ''levels''"

text \<open>The JSON pointers of the provider-native shapes, with the dialect each stands for.\<close>

definition NATIVE_SHAPES :: "(string list \<times> string) list" where
  "NATIVE_SHAPES =
     [([''supportedThinkingEfforts''], ''provider_supported_thinking_efforts''),
      ([''reasoning'', ''supported_efforts''], ''provider_reasoning_supported_efforts''),
      ([''supported_reasoning_levels''], ''provider_supported_reasoning_levels''),
      ([''thinking'', ''levels''], ''provider_thinking_levels''),
      ([''capabilities'', ''effort_tiers''], ''provider_effort_tiers'')]"

definition reasoning_metadata_declared :: "json \<Rightarrow> bool" where
  "reasoning_metadata_declared metadata =
     (if has_key metadata ''reasoning_capability'' then True
      else if is_some_and (\<lambda>v. as_bool v \<noteq> None) (json_get metadata ''reasoning'') then True
      else if is_some_and declares_reasoning (json_get metadata ''reasoning'') then True
      else list_ex (\<lambda>(ptr, _). json_path ptr metadata \<noteq> None) NATIVE_SHAPES)"

fun explicit_levels :: "string list \<Rightarrow> (string \<times> json) list \<Rightarrow> (string \<rightharpoonup> string) \<Rightarrow> (string \<rightharpoonup> string)" where
  "explicit_levels levels [] up = up"
| "explicit_levels levels ((canonical, v) # fs) up =
     explicit_levels levels fs
       (if canonical \<in> set levels
        then (case as_str v of Some u \<Rightarrow> up(canonical \<mapsto> u) | None \<Rightarrow> up) else up)"

definition normalized_mode :: "json \<Rightarrow> string list \<Rightarrow> reasoning_mode option option" where
  "normalized_mode v levels =
     (case Option.bind (json_get v ''mode'') as_str of
        Some m \<Rightarrow>
          if m = ''toggle'' then Some (Some RToggle)
          else if m = ''level'' then Some (Some RLevel)
          else if m = ''manual_budget'' then Some (Some RManualBudget)
          else if m = ''adaptive'' then Some (Some RAdaptive)
          else None
      | None \<Rightarrow> Some (if levels = [] then None else Some RLevel))"

definition normalized_capability :: "json \<Rightarrow> reasoning_capability option" where
  "normalized_capability v =
     (if Option.bind (json_get v ''supported'') as_bool = Some False then None
      else let (levels, up) = canonical_reasoning_levels (unwrap_or (json_get v ''levels'') JNull)
           in case normalized_mode v levels of
                None \<Rightarrow> None
              | Some mode \<Rightarrow>
                  if mode = Some RToggle \<and> levels \<noteq> [] then None
                  else if mode \<in> {Some RLevel, Some RManualBudget, Some RAdaptive} \<and> levels = [] then None
                  else let fmt = unwrap_or (Option.bind (json_get v ''upstream_format'') as_str) ''provider_declared'';
                           up1 = (if fmt \<in> {''openai_effort'', ''responses_effort''} \<and> ''off'' \<in> set levels
                                  then up(''off'' \<mapsto> ''none'') else up);
                           up2 = (case Option.bind (json_get v ''upstream_levels'') as_object of
                                    Some fs \<Rightarrow> explicit_levels levels fs up1
                                  | None \<Rightarrow> up1)
                       in Some \<lparr>rc_mode = mode, rc_levels = levels, rc_default = None,
                            rc_can_disable = unwrap_or (Option.bind (json_get v ''can_disable'') as_bool) (''off'' \<in> set levels),
                            rc_upstream_format = fmt, rc_upstream_levels = up2\<rparr>)"

fun native_capability :: "(string list \<times> string) list \<Rightarrow> json \<Rightarrow> reasoning_capability option" where
  "native_capability [] metadata = None"
| "native_capability ((ptr, fmt) # shapes) metadata =
     (case json_path ptr metadata of
        None \<Rightarrow> native_capability shapes metadata
      | Some v \<Rightarrow> reasoning_capability_of (canonical_reasoning_levels v) RLevel fmt None)"

definition normalize_reasoning_capability :: "json \<Rightarrow> reasoning_capability option" where
  "normalize_reasoning_capability metadata =
     (case opt_or (json_get metadata ''reasoning_capability'')
             (opt_filter declares_reasoning (json_get metadata ''reasoning'')) of
        Some v \<Rightarrow> normalized_capability v
      | None \<Rightarrow> native_capability NATIVE_SHAPES metadata)"

section \<open>Thinking maps\<close>

definition level_table :: "reasoning_capability \<Rightarrow> (string \<times> json) list" where
  "level_table c = map (\<lambda>l. (l, JString (unwrap_or (rc_upstream_levels c l) l))) (rc_levels c)"

definition level_map :: "(string \<times> json) list \<Rightarrow> string \<Rightarrow> thinking_map" where
  "level_map levels level_field =
     \<lparr>tm_levels = levels, tm_mode = Some Level, tm_budget_field = None, tm_level_field = Some level_field\<rparr>"

definition OPENAI_DIALECTS :: "string set" where
  "OPENAI_DIALECTS = {''openai_effort'', ''responses_effort'', ''provider_supported_thinking_efforts'',
     ''provider_reasoning_supported_efforts'', ''provider_supported_reasoning_levels''}"

definition transport_level_field :: "target_transport \<Rightarrow> string \<Rightarrow> string option" where
  "transport_level_field t fmt =
     (if t = OpenAiChat \<and> fmt \<in> OPENAI_DIALECTS then Some ''reasoning_effort''
      else if t = OpenAiResponses \<and> fmt \<in> OPENAI_DIALECTS then Some ''reasoning.effort''
      else if t = GeminiT \<and> fmt = ''gemini_thinking_level'' then Some ''thinkingConfig.thinkingLevel''
      else None)"

definition thinking_map_for_transport :: "reasoning_capability \<Rightarrow> target_transport \<Rightarrow> thinking_map option" where
  "thinking_map_for_transport c t =
     (if rc_mode c \<noteq> Some RLevel then None
      else map_option (level_map (level_table c)) (transport_level_field t (rc_upstream_format c)))"

definition with_off :: "reasoning_capability \<Rightarrow> (string \<times> json) list \<Rightarrow> (string \<times> json) list" where
  "with_off c levels =
     (if rc_can_disable c \<and> rc_upstream_format c = ''openai_effort'' \<and> map_of levels ''off'' = None
      then levels @ [(''off'', JString ''none'')] else levels)"

definition thinking_map_for_reasoning :: "reasoning_capability \<Rightarrow> thinking_map option" where
  "thinking_map_for_reasoning c =
     (if rc_mode c \<noteq> Some RLevel then None
      else if rc_upstream_format c = ''openai_effort''
      then Some (level_map (with_off c (level_table c)) ''reasoning_effort'') else None)"

definition thinking_map_for_reasoning_with_wire :: "reasoning_capability \<Rightarrow> wire_format \<Rightarrow> thinking_map option" where
  "thinking_map_for_reasoning_with_wire c wire =
     (if rc_mode c \<noteq> Some RLevel then None
      else map_option (level_map (with_off c (level_table c)))
        (if wire = Openai \<and> rc_upstream_format c \<in> {''openai_effort'', ''provider_supported_thinking_efforts'',
              ''provider_supported_reasoning_levels''} then Some ''reasoning_effort''
         else if wire = Gemini \<and> rc_upstream_format c = ''gemini_thinking_level'' then Some ''thinkingConfig.thinkingLevel''
         else None))"

section \<open>Versioned plugin metadata\<close>

definition de_struct :: "string list \<Rightarrow> json \<Rightarrow> (string \<times> json) list option" where
  "de_struct allowed v = opt_filter (\<lambda>fs. list_all (\<lambda>f. fst f \<in> set allowed) fs) (as_object v)"

definition de_opt :: "(json \<Rightarrow> 'a option) \<Rightarrow> (string \<times> json) list \<Rightarrow> string \<Rightarrow> 'a option option" where
  "de_opt parse fs k =
     (case map_of fs k of None \<Rightarrow> Some None | Some JNull \<Rightarrow> Some None | Some v \<Rightarrow> map_option Some (parse v))"

definition de_req :: "(json \<Rightarrow> 'a option) \<Rightarrow> (string \<times> json) list \<Rightarrow> string \<Rightarrow> 'a option" where
  "de_req parse fs k = Option.bind (map_of fs k) parse"

definition de_u32 :: "json \<Rightarrow> nat option" where
  "de_u32 v = opt_filter (\<lambda>n. n \<le> u32_max) (as_u64 v)"

definition de_support :: "string \<Rightarrow> json \<Rightarrow> bool option" where
  "de_support field v = Option.bind (de_struct [field] v) (\<lambda>fs. de_req as_bool fs field)"

definition de_transport_format :: "json \<Rightarrow> string option" where
  "de_transport_format v = Option.bind (de_struct [''format''] v) (\<lambda>fs. de_req as_str fs ''format'')"

datatype plugin_reasoning_mode = P_Toggle | P_Level
datatype plugin_reasoning_level = P_Minimal | P_Low | P_Medium | P_High | P_XHigh | P_Max

fun plugin_level_as_str :: "plugin_reasoning_level \<Rightarrow> string" where
  "plugin_level_as_str P_Minimal = ''minimal''"
| "plugin_level_as_str P_Low = ''low''"
| "plugin_level_as_str P_Medium = ''medium''"
| "plugin_level_as_str P_High = ''high''"
| "plugin_level_as_str P_XHigh = ''xhigh''"
| "plugin_level_as_str P_Max = ''max''"

definition de_plugin_level :: "json \<Rightarrow> plugin_reasoning_level option" where
  "de_plugin_level v =
     (case as_str v of
        None \<Rightarrow> None
      | Some s \<Rightarrow> find (\<lambda>l. plugin_level_as_str l = s) [P_Minimal, P_Low, P_Medium, P_High, P_XHigh, P_Max])"

definition de_plugin_mode :: "json \<Rightarrow> plugin_reasoning_mode option" where
  "de_plugin_mode v =
     (case as_str v of
        None \<Rightarrow> None
      | Some s \<Rightarrow> if s = ''toggle'' then Some P_Toggle else if s = ''level'' then Some P_Level else None)"

fun de_list :: "(json \<Rightarrow> 'a option) \<Rightarrow> json list \<Rightarrow> 'a list option" where
  "de_list parse [] = Some []"
| "de_list parse (v # vs) =
     (case parse v of None \<Rightarrow> None | Some x \<Rightarrow> map_option (Cons x) (de_list parse vs))"

fun de_vec :: "(json \<Rightarrow> 'a option) \<Rightarrow> json \<Rightarrow> 'a list option" where
  "de_vec parse (JArray vs) = de_list parse vs"
| "de_vec parse _ = None"

record plugin_reasoning =
  pg_supported :: bool
  pg_mode :: "plugin_reasoning_mode option"
  pg_levels :: "plugin_reasoning_level list option"
  pg_default :: "plugin_reasoning_level option"
  pg_can_disable :: "bool option"

definition de_plugin_reasoning :: "json \<Rightarrow> plugin_reasoning option" where
  "de_plugin_reasoning v =
     (case de_struct [''supported'', ''mode'', ''levels'', ''default'', ''can_disable''] v of
        None \<Rightarrow> None
      | Some fs \<Rightarrow>
          (case (de_req as_bool fs ''supported'', de_opt de_plugin_mode fs ''mode'',
                 de_opt (de_vec de_plugin_level) fs ''levels'', de_opt de_plugin_level fs ''default'',
                 de_opt as_bool fs ''can_disable'') of
             (Some s, Some m, Some ls, Some d, Some c) \<Rightarrow>
               Some \<lparr>pg_supported = s, pg_mode = m, pg_levels = ls, pg_default = d, pg_can_disable = c\<rparr>
           | _ \<Rightarrow> None))"

definition plugin_reasoning_valid :: "plugin_reasoning \<Rightarrow> bool" where
  "plugin_reasoning_valid r =
     (if \<not> pg_supported r
      then pg_mode r = None \<and> pg_levels r = None \<and> pg_default r = None \<and> pg_can_disable r = None
      else case pg_mode r of
             None \<Rightarrow> pg_levels r = None \<and> pg_default r = None
           | Some P_Toggle \<Rightarrow> pg_levels r = None \<and> pg_default r = None
           | Some P_Level \<Rightarrow>
               (case pg_levels r of
                  None \<Rightarrow> False
                | Some ls \<Rightarrow> ls \<noteq> [] \<and> distinct ls \<and>
                    (case pg_default r of None \<Rightarrow> True | Some d \<Rightarrow> d \<in> set ls)))"

definition valid_identifier :: "string \<Rightarrow> bool" where
  "valid_identifier s \<longleftrightarrow> s \<noteq> [] \<and> length s \<le> 64 \<and>
     list_all (\<lambda>c. let n = (of_char c :: nat) in (48 \<le> n \<and> n \<le> 57) \<or> (65 \<le> n \<and> n \<le> 90) \<or> (97 \<le> n \<and> n \<le> 122)
        \<or> c \<in> {CHR ''-'', CHR ''_'', CHR ''.''}) s"

text \<open>Control characters: those of ASCII, and \<^verbatim>\<open>U+0080\<close> to \<^verbatim>\<open>U+009F\<close> in their two-byte encoding.\<close>

fun has_control :: "string \<Rightarrow> bool" where
  "has_control [] = False"
| "has_control (c # cs) =
     ((of_char c :: nat) < 32 \<or> (of_char c :: nat) = 127
      \<or> ((of_char c :: nat) = 194 \<and> (case cs of [] \<Rightarrow> False | d # _ \<Rightarrow> 128 \<le> (of_char d :: nat) \<and> (of_char d :: nat) \<le> 159))
      \<or> has_control cs)"

datatype variant_kind = ReasoningTier | ProviderAlias | ThinkingVariant

definition de_variant_kind :: "json \<Rightarrow> variant_kind option" where
  "de_variant_kind v =
     (case as_str v of
        None \<Rightarrow> None
      | Some s \<Rightarrow> if s = ''reasoning_tier'' then Some ReasoningTier
          else if s = ''provider_alias'' then Some ProviderAlias
          else if s = ''thinking_variant'' then Some ThinkingVariant else None)"

record provider_variant =
  va_kind :: variant_kind
  va_id :: string
  va_reasoning_level :: "plugin_reasoning_level option"
  va_fixed :: bool

definition de_provider_variant :: "json \<Rightarrow> provider_variant option" where
  "de_provider_variant v =
     (case de_struct [''kind'', ''id'', ''reasoning_level'', ''fixed''] v of
        None \<Rightarrow> None
      | Some fs \<Rightarrow>
          (case (de_req de_variant_kind fs ''kind'', de_req as_str fs ''id'',
                 de_opt de_plugin_level fs ''reasoning_level'', de_req as_bool fs ''fixed'') of
             (Some k, Some i, Some l, Some f) \<Rightarrow>
               Some \<lparr>va_kind = k, va_id = i, va_reasoning_level = l, va_fixed = f\<rparr>
           | _ \<Rightarrow> None))"

definition provider_variant_valid :: "provider_variant \<Rightarrow> bool" where
  "provider_variant_valid x =
     (if trim (va_id x) = [] \<or> has_control (va_id x) then False
      else if va_reasoning_level x \<noteq> None \<and> va_kind x \<noteq> ReasoningTier then False
      else True)"

record model_identity =
  mi_canonical_model_id :: string
  mi_variant :: "provider_variant option"

definition de_model_identity :: "json \<Rightarrow> model_identity option" where
  "de_model_identity v =
     (case de_struct [''canonical_model_id'', ''variant''] v of
        None \<Rightarrow> None
      | Some fs \<Rightarrow>
          (case (de_req as_str fs ''canonical_model_id'', de_opt de_provider_variant fs ''variant'') of
             (Some c, Some x) \<Rightarrow> Some \<lparr>mi_canonical_model_id = c, mi_variant = x\<rparr>
           | _ \<Rightarrow> None))"

definition model_identity_valid :: "model_identity \<Rightarrow> bool" where
  "model_identity_valid m =
     (let canonical = trim (mi_canonical_model_id m)
      in if canonical = [] \<or> CHR ''/'' \<notin> set canonical \<or> has_control canonical then False
         else case mi_variant m of None \<Rightarrow> True | Some x \<Rightarrow> provider_variant_valid x)"

datatype placeholder_strategy = Gemini3SkipValidator

record opaque_capability =
  oc_family :: string
  oc_encoding_version :: nat
  oc_placeholder_strategy :: "placeholder_strategy option"

definition de_opaque_capability :: "json \<Rightarrow> opaque_capability option" where
  "de_opaque_capability v =
     (case de_struct [''kind'', ''family'', ''encoding_version'', ''placeholder_strategy''] v of
        None \<Rightarrow> None
      | Some fs \<Rightarrow>
          (case (de_req as_str fs ''kind'', de_req as_str fs ''family'', de_req de_u32 fs ''encoding_version'',
                 de_opt (\<lambda>w. if as_str w = Some ''gemini3_skip_validator'' then Some Gemini3SkipValidator else None)
                   fs ''placeholder_strategy'') of
             (Some k, Some f, Some n, Some p) \<Rightarrow>
               if k = ''gemini_thought_signature''
               then Some \<lparr>oc_family = f, oc_encoding_version = n, oc_placeholder_strategy = p\<rparr> else None
           | _ \<Rightarrow> None))"

definition opaque_capability_valid :: "opaque_capability \<Rightarrow> bool" where
  "opaque_capability_valid c \<longleftrightarrow> valid_identifier (oc_family c) \<and> oc_encoding_version c \<noteq> 0"

definition parse_plugin_opaque_state_capability :: "json \<Rightarrow> opaque_capability option" where
  "parse_plugin_opaque_state_capability v = opt_filter opaque_capability_valid (de_opaque_capability v)"

text \<open>The two schema versions share a structure; version one has no identity and no opaque state.\<close>

record model_capabilities =
  mc_schema_version :: nat
  mc_transport :: "string option"
  mc_text :: "bool option"
  mc_reasoning :: "plugin_reasoning option"
  mc_tools :: "bool option"
  mc_vision :: "bool option"
  mc_structured_output :: "bool option"
  mc_identity :: "model_identity option"
  mc_opaque_state :: "opaque_capability option"

definition V1_FIELDS :: "string list" where
  "V1_FIELDS = [''schema_version'', ''transport'', ''text'', ''reasoning'', ''tools'', ''vision'',
     ''structured_output'', ''prices'', ''modalities'']"

definition de_model_capabilities :: "string list \<Rightarrow> json \<Rightarrow> model_capabilities option" where
  "de_model_capabilities allowed v =
     (case de_struct allowed v of
        None \<Rightarrow> None
      | Some fs \<Rightarrow>
          (case (de_req de_u32 fs ''schema_version'', de_opt de_transport_format fs ''transport'',
                 de_opt (de_support ''supported'') fs ''text'', de_opt de_plugin_reasoning fs ''reasoning'',
                 de_opt (de_support ''supported'') fs ''tools'', de_opt (de_support ''input'') fs ''vision'',
                 de_opt (de_support ''supported'') fs ''structured_output'', de_opt de_model_identity fs ''identity'',
                 de_opt de_opaque_capability fs ''opaque_state'') of
             (Some n, Some t, Some x, Some r, Some tools, Some vis, Some so, Some i, Some os) \<Rightarrow>
               Some \<lparr>mc_schema_version = n, mc_transport = t, mc_text = x, mc_reasoning = r, mc_tools = tools,
                 mc_vision = vis, mc_structured_output = so, mc_identity = i, mc_opaque_state = os\<rparr>
           | _ \<Rightarrow> None))"

definition shared_valid :: "nat \<Rightarrow> model_capabilities \<Rightarrow> bool" where
  "shared_valid version m =
     (if mc_schema_version m \<noteq> version then False
      else if is_some_and (\<lambda>f. trim f = []) (mc_transport m) then False
      else case mc_reasoning m of None \<Rightarrow> True | Some r \<Rightarrow> plugin_reasoning_valid r)"

definition parse_model_capabilities_v1 :: "json \<Rightarrow> model_capabilities option" where
  "parse_model_capabilities_v1 v = opt_filter (shared_valid 1) (de_model_capabilities V1_FIELDS v)"

definition parse_model_capabilities_v2 :: "json \<Rightarrow> model_capabilities option" where
  "parse_model_capabilities_v2 v =
     opt_filter (\<lambda>m. shared_valid 2 m \<and> (case mc_identity m of None \<Rightarrow> True | Some i \<Rightarrow> model_identity_valid i)
        \<and> (case mc_opaque_state m of None \<Rightarrow> True | Some c \<Rightarrow> opaque_capability_valid c))
       (de_model_capabilities (V1_FIELDS @ [''identity'', ''opaque_state'']) v)"

definition plugin_schema_version :: "json \<Rightarrow> nat option" where
  "plugin_schema_version v = Option.bind (json_get v ''schema_version'') as_u64"

text \<open>Dispatch on the schema version.\<close>

definition plugin_capabilities :: "json \<Rightarrow> model_capabilities option" where
  "plugin_capabilities v =
     (case plugin_schema_version v of
        None \<Rightarrow> None
      | Some n \<Rightarrow> if n = 1 then parse_model_capabilities_v1 v else if n = 2 then parse_model_capabilities_v2 v else None)"

definition flags_of :: "model_capabilities \<Rightarrow> capability_flags" where
  "flags_of m = \<lparr>cf_text = mc_text m, cf_reasoning = map_option pg_supported (mc_reasoning m),
     cf_vision = mc_vision m, cf_tool_calling = mc_tools m, cf_structured_output = mc_structured_output m\<rparr>"

definition plugin_capability_flags :: "json \<Rightarrow> capability_flags option" where
  "plugin_capability_flags v = map_option flags_of (plugin_capabilities v)"

definition plugin_reasoning_support :: "json \<Rightarrow> bool option" where
  "plugin_reasoning_support v = Option.bind (plugin_capabilities v) (\<lambda>m. map_option pg_supported (mc_reasoning m))"

definition normalize_plugin_reasoning_fields :: "string option \<Rightarrow> plugin_reasoning \<Rightarrow> reasoning_capability option" where
  "normalize_plugin_reasoning_fields transport r =
     (if \<not> pg_supported r then None
      else let levels = map plugin_level_as_str (unwrap_or (pg_levels r) [])
           in Some \<lparr>rc_mode = map_option (\<lambda>m. case m of P_Toggle \<Rightarrow> RToggle | P_Level \<Rightarrow> RLevel) (pg_mode r),
                rc_levels = levels, rc_default = map_option plugin_level_as_str (pg_default r),
                rc_can_disable = unwrap_or (pg_can_disable r) False,
                rc_upstream_format =
                  (if transport = Some ''openai'' then ''openai_effort''
                   else if transport = Some ''openai-responses'' then ''responses_effort''
                   else if transport = Some ''gemini'' then ''gemini_thinking_level''
                   else ''provider_declared''),
                rc_upstream_levels = (\<lambda>l. if l \<in> set levels then Some l else None)\<rparr>)"

definition normalize_plugin_reasoning_capability :: "json \<Rightarrow> reasoning_capability option" where
  "normalize_plugin_reasoning_capability v =
     Option.bind (plugin_capabilities v)
       (\<lambda>m. Option.bind (mc_reasoning m) (normalize_plugin_reasoning_fields (mc_transport m)))"

definition plugin_identity_hint :: "json \<Rightarrow> string option" where
  "plugin_identity_hint v =
     Option.bind (parse_model_capabilities_v2 v) (\<lambda>m. map_option mi_canonical_model_id (mc_identity m))"

section \<open>Parameters\<close>

datatype param_policy = PDrop | PClamp | PReject | PForward

record param_spec =
  ps_supported :: bool
  ps_min :: "f64 option"
  ps_max :: "f64 option"
  ps_default :: "f64 option"
  ps_policy :: param_policy

definition de_param_policy :: "json \<Rightarrow> param_policy option" where
  "de_param_policy v =
     (case as_str v of
        None \<Rightarrow> None
      | Some s \<Rightarrow> if s = ''drop'' then Some PDrop else if s = ''clamp'' then Some PClamp
          else if s = ''reject'' then Some PReject else if s = ''forward'' then Some PForward else None)"

definition de_param_spec :: "json \<Rightarrow> param_spec option" where
  "de_param_spec v =
     (case as_object v of
        None \<Rightarrow> None
      | Some fs \<Rightarrow>
          (case (de_req as_bool fs ''supported'', de_opt json_as_f64 fs ''min'', de_opt json_as_f64 fs ''max'', de_opt json_as_f64 fs ''default'',
                 (case map_of fs ''policy'' of None \<Rightarrow> Some PForward | Some w \<Rightarrow> de_param_policy w)) of
             (Some s, Some lo, Some hi, Some d, Some p) \<Rightarrow>
               Some \<lparr>ps_supported = s, ps_min = lo, ps_max = hi, ps_default = d, ps_policy = p\<rparr>
           | _ \<Rightarrow> None))"

fun de_params :: "(string \<times> json) list \<Rightarrow> (string \<times> param_spec) list option" where
  "de_params [] = Some []"
| "de_params ((k, v) # fs) =
     (case de_param_spec v of None \<Rightarrow> None | Some p \<Rightarrow> map_option (Cons (k, p)) (de_params fs))"

definition model_params :: "codec \<Rightarrow> model_row \<Rightarrow> (string \<times> param_spec) list" where
  "model_params cd m =
     unwrap_or (Option.bind (Option.bind (de_value cd (md_parameters m)) as_object) de_params) []"

section \<open>The execution profile\<close>

record execution_profile =
  ep_transport :: target_transport
  ep_reasoning :: "reasoning_capability option"
  ep_parameters :: "(string \<times> param_spec) list"
  ep_capabilities :: capability_flags
  ep_thinking_map :: thinking_map

definition configured_transport :: "json \<Rightarrow> proxy_error + string option" where
  "configured_transport discovery =
     (case json_get discovery ''configured_transport'' of
        None \<Rightarrow> Inr None
      | Some JNull \<Rightarrow> Inr None
      | Some v \<Rightarrow>
          (case as_str v of
             None \<Rightarrow> Inl (pe_unsupported ''configured model transport must be a string'')
           | Some s \<Rightarrow> Inr (Some s)))"

definition unknown_configured :: "string \<Rightarrow> proxy_error" where
  "unknown_configured c = pe_unsupported (''unknown configured model transport '' @ quoted c)"

definition select_transport ::
  "provider_row \<Rightarrow> string option \<Rightarrow> string option \<Rightarrow> proxy_error + target_transport" where
  "select_transport p configured observed =
     (case wire_plugin_ref p of
        Some r \<Rightarrow>
          let bound = PluginT (to_string_ref r)
          in (case configured of
                None \<Rightarrow> Inr bound
              | Some c \<Rightarrow>
                  (case transport_parse c of
                     None \<Rightarrow> Inl (unknown_configured c)
                   | Some parsed \<Rightarrow>
                       if parsed \<noteq> bound
                       then Inl (pe_unsupported (''model transport override conflicts with the provider'' @ [CHR 0x27] @
                              ''s explicit plugin adapter''))
                       else Inr bound))
      | None \<Rightarrow>
          (case configured of
             Some c \<Rightarrow> (case transport_parse c of None \<Rightarrow> Inl (unknown_configured c) | Some t \<Rightarrow> Inr t)
           | None \<Rightarrow>
               (case observed of
                  Some s \<Rightarrow>
                    (case transport_parse s of
                       None \<Rightarrow> Inl (pe_unsupported (''unsupported discovered model transport '' @ quoted s))
                     | Some t \<Rightarrow> Inr t)
                | None \<Rightarrow> default_for_provider p)))"

definition map_configured :: "thinking_map \<Rightarrow> bool" where
  "map_configured tm \<longleftrightarrow> tm_levels tm \<noteq> [] \<or> tm_mode tm \<noteq> None \<or> tm_budget_field tm \<noteq> None \<or> tm_level_field tm \<noteq> None"

definition empty_map :: thinking_map where
  "empty_map = \<lparr>tm_levels = [], tm_mode = None, tm_budget_field = None, tm_level_field = None\<rparr>"

definition profile_thinking_map ::
  "codec \<Rightarrow> model_row \<Rightarrow> json \<Rightarrow> reasoning_capability option \<Rightarrow> target_transport \<Rightarrow> thinking_map" where
  "profile_thinking_map cd m discovery reasoning t =
     (let admin = unwrap_or (de_thinking cd (md_thinking_map m)) empty_map
      in if map_configured admin then admin
         else unwrap_or
                (opt_or (opt_filter map_configured
                          (Option.bind (json_get discovery ''thinking_map'') (\<lambda>v. de_thinking cd (ser_value cd v))))
                  (Option.bind reasoning (\<lambda>c. thinking_map_for_transport c t)))
                empty_map)"

definition profile_capability :: "json option \<Rightarrow> json \<Rightarrow> string \<Rightarrow> bool option" where
  "profile_capability discovered configured name =
     (case Option.bind discovered (\<lambda>v. json_get v name) of
        Some v \<Rightarrow> as_bool v
      | None \<Rightarrow> Option.bind (json_get configured name) as_bool)"

definition resolve_execution_profile :: "codec \<Rightarrow> provider_row \<Rightarrow> model_row \<Rightarrow> proxy_error + execution_profile" where
  "resolve_execution_profile cd p m =
     (let discovery = unwrap_or (de_value cd (md_discovery m)) (JObject [])
      in case wire_format_parse (pv_wire_format p) of
           None \<Rightarrow> Inl (bad_wire p)
         | Some wire \<Rightarrow>
             (case configured_transport discovery of
                Inl e \<Rightarrow> Inl e
              | Inr configured \<Rightarrow>
                  (case discovered_transport discovery of
                     Inl e \<Rightarrow> Inl e
                   | Inr observed \<Rightarrow>
                       (case select_transport p configured observed of
                          Inl e \<Rightarrow> Inl e
                        | Inr t \<Rightarrow>
                            if wire_plugin_ref p = None \<and> wire = Plugin then Inl no_binding
                            else
                              let reasoning = normalize_reasoning_capability discovery;
                                  configured_caps = unwrap_or (de_value cd (md_capabilities m)) (JObject []);
                                  cap = profile_capability (json_get discovery ''capabilities'') configured_caps
                              in Inr \<lparr>ep_transport = t, ep_reasoning = reasoning, ep_parameters = model_params cd m,
                                   ep_capabilities = \<lparr>cf_text = cap ''text'', cf_reasoning = cap ''reasoning'',
                                     cf_vision = cap ''vision'', cf_tool_calling = cap ''tool_calling'',
                                     cf_structured_output = cap ''structured_output''\<rparr>,
                                   ep_thinking_map = profile_thinking_map cd m discovery reasoning t\<rparr>))))"

section \<open>Adapters of a transport\<close>

text \<open>The four built-in adapters, and those a plugin registered under a reference or its bare identifier.\<close>

datatype adapter_id = OpenAi_Adapter | Responses_Adapter | Anthropic_Adapter | Gemini_Adapter | Plugin_Adapter nat

type_synonym plugin_adapters = "string \<rightharpoonup> adapter_id"

definition for_transport :: "plugin_adapters \<Rightarrow> target_transport \<Rightarrow> proxy_error + adapter_id" where
  "for_transport reg t =
     (case t of
        OpenAiChat \<Rightarrow> Inr OpenAi_Adapter
      | OpenAiResponses \<Rightarrow> Inr Responses_Adapter
      | AnthropicT \<Rightarrow> Inr Anthropic_Adapter
      | GeminiT \<Rightarrow> Inr Gemini_Adapter
      | PluginT reference \<Rightarrow>
          (case opt_or (reg reference) (Option.bind (plugin_ref_parse reference) (\<lambda>r. reg (pr_plugin_id r))) of
             Some a \<Rightarrow> Inr a
           | None \<Rightarrow> Inl (pe_unsupported (''configured plugin adapter '' @ quoted reference @ '' is unavailable''))))"

definition register_plugin :: "string \<Rightarrow> adapter_id \<Rightarrow> plugin_adapters \<Rightarrow> plugin_adapters" where
  "register_plugin reference a reg = reg(reference \<mapsto> a)"

definition unregister_plugin :: "string \<Rightarrow> plugin_adapters \<Rightarrow> plugin_adapters" where
  "unregister_plugin i reg =
     (\<lambda>k. if k \<noteq> i \<and> \<not> starts_with k (''plugin:'' @ i @ ''/'') then reg k else None)"

section \<open>Lemmas\<close>

definition CANONICAL_LEVELS :: "string set" where
  "CANONICAL_LEVELS = {''off'', ''minimal'', ''low'', ''medium'', ''high'', ''xhigh'', ''max''}"

lemma canonical_level_in: "canonical_level raw = Some l \<Longrightarrow> l \<in> CANONICAL_LEVELS"
  by (auto simp: canonical_level_def CANONICAL_LEVELS_def Let_def split: if_splits)

text \<open>What the level collector maintains: canonical levels without repetition, each with a spelling of its own.\<close>

definition levels_ok :: "string list \<times> (string \<rightharpoonup> string) \<Rightarrow> bool" where
  "levels_ok ls \<longleftrightarrow> distinct (fst ls) \<and> set (fst ls) \<subseteq> CANONICAL_LEVELS \<and> dom (snd ls) = set (fst ls) \<and>
     (\<forall>l raw. snd ls l = Some raw \<longrightarrow> canonical_level raw = Some l)"

lemma levels_ok_collect: "levels_ok acc \<Longrightarrow> levels_ok (collect_levels vs acc)"
proof (induction vs acc rule: collect_levels.induct)
  case (2 v vs levels up)
  have step: "levels_ok (levels @ [l], up(l \<mapsto> raw))" if "canonical_level raw = Some l" "l \<notin> set levels" for l raw
    using "2.prems" that canonical_level_in by (auto simp: levels_ok_def)
  show ?case using 2 step by (auto split: option.splits)
qed simp

lemma canonical_levels_ok: "levels_ok (canonical_reasoning_levels v)"
  by (auto simp: canonical_reasoning_levels_def levels_ok_def intro!: levels_ok_collect [unfolded levels_ok_def]
      split: json.splits)

lemma explicit_levels_dom:
  "dom (explicit_levels levels fs up) \<subseteq> dom up \<union> set levels"
  by (induction levels fs up rule: explicit_levels.induct) (fastforce split: option.splits if_splits)+

lemma plugin_ref_parse_inverse: "plugin_ref_parse s = Some r \<Longrightarrow> to_string_ref r = s"
proof -
  assume a: "plugin_ref_parse s = Some r"
  have pre: "strip_prefix p t = Some u \<Longrightarrow> t = p @ u" for p t u
    by (induction p t rule: strip_prefix.induct) (auto split: if_splits)
  have once: "split_once c t = Some (x, y) \<Longrightarrow> t = x @ c # y" for c t x y
    by (induction c t arbitrary: x y rule: split_once.induct) (auto split: if_splits option.splits)
  from a show ?thesis
    by (auto simp: plugin_ref_parse_def to_string_ref_def dest!: pre once split: option.splits if_splits)
qed

lemma transport_parse_inverse: "transport_parse s = Some t \<Longrightarrow> transport_as_str t = s"
  by (auto simp: transport_parse_def plugin_ref_parse_inverse split: if_splits)

lemma level_table_lookup: "map_of (level_table c) l = (if l \<in> set (rc_levels c) then Some (JString (unwrap_or (rc_upstream_levels c l) l)) else None)"
proof -
  have "map_of (map (\<lambda>l. (l, f l)) ls) l = (if l \<in> set ls then Some (f l) else None)" for f :: "string \<Rightarrow> json" and ls
    by (induction ls) auto
  then show ?thesis by (simp add: level_table_def)
qed

lemma normalized_levels_ok:
  assumes "normalize_reasoning_capability metadata = Some c"
  shows "distinct (rc_levels c) \<and> set (rc_levels c) \<subseteq> CANONICAL_LEVELS"
proof -
  have ok: "distinct (fst (canonical_reasoning_levels v)) \<and> set (fst (canonical_reasoning_levels v)) \<subseteq> CANONICAL_LEVELS" for v
    using canonical_levels_ok [of v] by (simp add: levels_ok_def)
  have normal: "rc_levels d = fst (canonical_reasoning_levels (unwrap_or (json_get v ''levels'') JNull))"
    if "normalized_capability v = Some d" for v d
    using that by (cases "canonical_reasoning_levels (unwrap_or (json_get v ''levels'') JNull)")
      (auto simp: normalized_capability_def Let_def split: if_splits option.splits)
  have native: "native_capability shapes metadata = Some d \<Longrightarrow> \<exists>w. rc_levels d = fst (canonical_reasoning_levels w)" for shapes d
    by (induction shapes metadata rule: native_capability.induct)
       (auto simp: reasoning_capability_of_def split: option.splits if_splits)
  have "\<exists>w. rc_levels c = fst (canonical_reasoning_levels w)"
    using assms native [of NATIVE_SHAPES c] normal [of _ c]
    by (auto simp: normalize_reasoning_capability_def split: option.splits)
  then show ?thesis using ok by metis
qed

section \<open>Properties\<close>

text \<open>
  The transport of a target is the one that is declared, or the target is not executed: the profile's transport
  is spelled exactly as the provider's plugin binding, otherwise the model's configured transport, otherwise the
  discovered one, otherwise the provider's wire format. A binding is never overridden, and a declaration that is
  malformed or unknown is an error, never a reason to use the next source.
\<close>

theorem transport_as_declared:
  assumes "resolve_execution_profile cd p m = Inr prof"
  defines "discovery \<equiv> unwrap_or (de_value cd (md_discovery m)) (JObject [])"
  shows "\<exists>configured observed. configured_transport discovery = Inr configured \<and>
     discovered_transport discovery = Inr observed \<and>
     (if wire_plugin_ref p \<noteq> None
      then transport_as_str (ep_transport prof) = pv_wire_plugin p \<and> configured \<in> {None, Some (pv_wire_plugin p)}
      else transport_as_str (ep_transport prof) = unwrap_or configured (unwrap_or observed (pv_wire_format p)) \<and>
        pv_wire_format p \<noteq> ''plugin'')"
proof -
  obtain configured observed t wire where c: "configured_transport discovery = Inr configured"
    and o: "discovered_transport discovery = Inr observed" and t: "select_transport p configured observed = Inr t"
    and prof: "ep_transport prof = t" and wire: "wire_format_parse (pv_wire_format p) = Some wire"
    and bound: "wire_plugin_ref p = None \<longrightarrow> wire \<noteq> Plugin"
    using assms unfolding resolve_execution_profile_def Let_def
    by (auto split: option.splits sum.splits if_splits)
  have dflt: "default_for_provider p = Inr t \<Longrightarrow> wire_plugin_ref p = None \<Longrightarrow> transport_as_str t = pv_wire_format p"
    using wire wire_format_parse_sound [OF wire]
    by (auto simp: default_for_provider_def split: wire_format.splits)
  have "pv_wire_format p \<noteq> ''plugin''" if "wire_plugin_ref p = None"
    using bound that wire by (auto simp: wire_format_parse_def)
  moreover have "if wire_plugin_ref p \<noteq> None then transport_as_str t = pv_wire_plugin p \<and> configured \<in> {None, Some (pv_wire_plugin p)}
      else transport_as_str t = unwrap_or configured (unwrap_or observed (pv_wire_format p))"
    using t dflt plugin_ref_parse_inverse [of "pv_wire_plugin p"]
    by (auto dest!: transport_parse_inverse simp: select_transport_def wire_plugin_ref_def Let_def unwrap_or_def split: option.splits if_splits)
  ultimately show ?thesis using c o prof by auto
qed

text \<open>
  A thinking map derived from discovery makes exactly the discovered levels executable: the levels are canonical
  and without repetition, each is sent as a string, and no other level is accepted.
\<close>

theorem derived_levels_executable:
  assumes "normalize_reasoning_capability metadata = Some c" "thinking_map_for_transport c t = Some tm"
  shows "distinct (map fst (tm_levels tm)) \<and> set (map fst (tm_levels tm)) \<subseteq> CANONICAL_LEVELS \<and>
     (level_is_executable tm l \<longleftrightarrow> l \<in> set (rc_levels c)) \<and>
     (level_is_executable tm l \<longrightarrow> (\<exists>s. map_of (tm_levels tm) l = Some (JString s)))"
proof -
  obtain field where f: "transport_level_field t (rc_upstream_format c) = Some field" "tm = level_map (level_table c) field"
    using assms(2) by (auto simp: thinking_map_for_transport_def split: if_splits)
  have "trim ''reasoning_effort'' \<noteq> []" "trim ''reasoning.effort'' \<noteq> []" "trim ''thinkingConfig.thinkingLevel'' \<noteq> []"
    by code_simp+
  then have "trim field \<noteq> []" using f(1) unfolding transport_level_field_def by (metis option.inject option.distinct(1))
  then have "level_is_executable tm l \<longleftrightarrow> l \<in> set (rc_levels c)"
    by (auto simp: f(2) level_map_def level_is_executable_def level_table_lookup scalar_field_def uses_level_field_def is_some_and_def)
  moreover have "map fst (tm_levels tm) = rc_levels c" by (simp add: f(2) level_map_def level_table_def comp_def)
  ultimately show ?thesis
    using normalized_levels_ok [OF assms(1)] by (simp add: f(2) level_map_def level_table_lookup)
qed

text \<open>A model whose discovery names a transport and two reasoning levels.\<close>

definition demo_discovery :: json where
  "demo_discovery = JObject [(''transport'', JObject [(''format'', JString ''openai-responses'')]),
     (''reasoning_capability'', JObject [(''levels'', JArray [JString ''Low'', JString ''none'']),
        (''upstream_format'', JString ''responses_effort'')])]"

definition demo_profile_codec :: codec where
  "demo_profile_codec = demo_clock\<lparr>de_value := (\<lambda>s. if s = ''d'' then Some demo_discovery else None)\<rparr>"

definition demo_capability :: reasoning_capability where
  "demo_capability = \<lparr>rc_mode = Some RLevel, rc_levels = [''low'', ''off''], rc_default = None, rc_can_disable = True,
     rc_upstream_format = ''responses_effort'', rc_upstream_levels = [''low'' \<mapsto> ''Low'', ''off'' \<mapsto> ''none'']\<rparr>"

lemma demo_levels: "canonical_level ''Low'' = Some ''low''" "canonical_level ''none'' = Some ''off''"
  by code_simp+

lemma demo_normalized: "normalize_reasoning_capability demo_discovery = Some demo_capability"
  by (simp add: normalize_reasoning_capability_def demo_discovery_def opt_or_def normalized_capability_def
      canonical_reasoning_levels_def demo_levels normalized_mode_def Let_def unwrap_or_def demo_capability_def)

theorem transport_as_declared_witness:
  "\<exists>prof. resolve_execution_profile demo_profile_codec (demo_provider ''p'' 1) ((demo_model ''m'' ''p'' 1)\<lparr>md_discovery := ''d''\<rparr>) = Inr prof
     \<and> transport_as_str (ep_transport prof) = ''openai-responses''"
proof -
  let ?m = "(demo_model ''m'' ''p'' 1)\<lparr>md_discovery := ''d''\<rparr>"
  have d: "configured_transport demo_discovery = Inr None" "discovered_transport demo_discovery = Inr (Some ''openai-responses'')"
    by (simp_all add: configured_transport_def discovered_transport_def demo_discovery_def non_null_def opt_filter_def Let_def)
  have p: "wire_plugin_ref (demo_provider ''p'' 1) = None"
    by (simp add: wire_plugin_ref_def demo_provider_def plugin_ref_parse_def)
  have v: "de_value demo_profile_codec ''d'' = Some demo_discovery" by (simp add: demo_profile_codec_def)
  have w: "wire_format_parse (pv_wire_format (demo_provider ''p'' 1)) = Some Openai"
    by (simp add: demo_provider_def wire_format_parse_def)
  have "\<exists>prof. resolve_execution_profile demo_profile_codec (demo_provider ''p'' 1) ?m = Inr prof"
    using p by (simp add: resolve_execution_profile_def v d unwrap_or_def select_transport_def transport_parse_def Let_def w)
  then obtain prof where r: "resolve_execution_profile demo_profile_codec (demo_provider ''p'' 1) ?m = Inr prof" ..
  show ?thesis using transport_as_declared [OF r] r d p by (auto simp: v unwrap_or_def)
qed

theorem derived_levels_executable_witness:
  "\<exists>tm. thinking_map_for_transport demo_capability OpenAiResponses = Some tm \<and>
     level_is_executable tm ''low'' \<and> \<not> level_is_executable tm ''high''"
proof -
  let ?tm = "level_map (level_table demo_capability) ''reasoning.effort''"
  have tm: "thinking_map_for_transport demo_capability OpenAiResponses = Some ?tm"
    by (simp add: thinking_map_for_transport_def demo_capability_def transport_level_field_def OPENAI_DIALECTS_def)
  show ?thesis
    using derived_levels_executable [OF demo_normalized tm, of "''low''"] derived_levels_executable [OF demo_normalized tm, of "''high''"] tm
    by (auto simp: demo_capability_def)
qed

end
