(* ===== verification/Request_Checks.thy ===== *)
theory Request_Checks
  imports Execution_Profile
begin

text \<open>
  What is checked and rewritten before a target is sent a request: same-format passthrough
  (\<^verbatim>\<open>src/src/passthrough.rs\<close>), the shared part of the frontends that decides what cannot be translated
  (\<^verbatim>\<open>src/src/frontends/mod.rs\<close>), and the parameter, thinking and capability checks and the error
  translation of \<^verbatim>\<open>src/src/pipeline.rs\<close>. \<open>show_f64\<close> is the decimal display of a number, used in messages.
\<close>

section \<open>Passthrough\<close>

datatype frontend_format = OpenAiF | AnthropicF | OpenAiResponsesF

fun format_as_str :: "frontend_format \<Rightarrow> string" where
  "format_as_str OpenAiF = ''openai''"
| "format_as_str AnthropicF = ''anthropic''"
| "format_as_str OpenAiResponsesF = ''openai-responses''"

fun is_passthrough :: "frontend_format \<Rightarrow> wire_format \<Rightarrow> bool" where
  "is_passthrough OpenAiF outbound \<longleftrightarrow> outbound = Openai"
| "is_passthrough AnthropicF outbound \<longleftrightarrow> outbound = Anthropic"
| "is_passthrough OpenAiResponsesF outbound \<longleftrightarrow> False"

definition is_transport_passthrough :: "frontend_format \<Rightarrow> target_transport \<Rightarrow> bool" where
  "is_transport_passthrough inbound transport =
     (case transport of
        OpenAiResponses \<Rightarrow> inbound = OpenAiResponsesF
      | PluginT _ \<Rightarrow> False
      | _ \<Rightarrow> is_some_and (is_passthrough inbound) (provider_wire_format transport))"

definition force_include_usage :: "(string \<times> json) list \<Rightarrow> (string \<times> json) list" where
  "force_include_usage obj =
     (let opts = (case map_of obj ''stream_options'' of Some (JObject fs) \<Rightarrow> fs | _ \<Rightarrow> [])
      in obj_insert ''stream_options'' (JObject (obj_insert ''include_usage'' (JBool True) opts)) obj)"

definition rewrite_model ::
  "codec \<Rightarrow> string \<Rightarrow> string \<Rightarrow> bool \<Rightarrow> bool \<Rightarrow> wire_format \<Rightarrow> string option" where
  "rewrite_model cd raw upstream_id force_stream force_usage wire =
     (case Option.bind (de_value cd raw) as_object of
        None \<Rightarrow> None
      | Some obj \<Rightarrow>
          let o1 = obj_insert ''model'' (JString upstream_id) obj;
              o2 = (if force_stream then obj_insert ''stream'' (JBool True) o1 else o1);
              o3 = (if force_usage \<and> wire = Openai then force_include_usage o2 else o2)
          in Some (ser_value cd (JObject o3)))"

definition rewrite_responses_model :: "codec \<Rightarrow> string \<Rightarrow> string \<Rightarrow> bool \<Rightarrow> string option" where
  "rewrite_responses_model cd raw upstream_id force_stream =
     (case Option.bind (de_value cd raw) as_object of
        None \<Rightarrow> None
      | Some obj \<Rightarrow>
          let o1 = obj_insert ''model'' (JString upstream_id) obj;
              o2 = (if force_stream then obj_insert ''stream'' (JBool True) o1 else o1)
          in Some (ser_value cd (JObject (obj_insert ''store'' (JBool False) o2))))"

section \<open>What cannot be translated\<close>

definition TRANSLATION_ISSUES_KEY :: string where "TRANSLATION_ISSUES_KEY = ''__kinetix_translation_issues''"

definition attach_translation_issues :: "string list \<Rightarrow> (string \<times> json) list \<Rightarrow> (string \<times> json) list" where
  "attach_translation_issues issues extra =
     (if issues = [] then extra else obj_insert TRANSLATION_ISSUES_KEY (JArray (map JString issues)) extra)"

fun call_name :: "part \<Rightarrow> (string \<times> string) option" where
  "call_name (ToolCall (Some i) name _ _) = Some (i, name)"
| "call_name _ = None"

definition note_calls :: "part list \<Rightarrow> (string \<rightharpoonup> string) \<Rightarrow> (string \<rightharpoonup> string)" where
  "note_calls parts names = fold (\<lambda>(i, n) m. m(i \<mapsto> n)) (List.map_filter call_name parts) names"

fun resolve_part :: "nat \<Rightarrow> (string \<rightharpoonup> string) \<Rightarrow> part \<Rightarrow> part \<times> string list" where
  "resolve_part k names (ToolResult call_id None content is_error) =
     (case names call_id of
        Some n \<Rightarrow> (ToolResult call_id (Some n) content is_error, [])
      | None \<Rightarrow>
          (ToolResult call_id None content is_error,
           [if call_id = [] then ''messages['' @ show_nat k @ ''] tool result is missing tool-call identity''
            else ''messages['' @ show_nat k @ ''] tool result references unknown tool call id '' @ quoted call_id]))"
| "resolve_part k names p = (p, [])"

fun resolve_from :: "nat \<Rightarrow> (string \<rightharpoonup> string) \<Rightarrow> message list \<Rightarrow> message list \<times> string list" where
  "resolve_from k names [] = ([], [])"
| "resolve_from k names (m # ms) =
     (let names' = note_calls (msg_parts m) names;
          done = map (resolve_part k names') (msg_parts m);
          (ms', issues) = resolve_from (Suc k) names' ms
      in (m\<lparr>msg_parts := map fst done\<rparr> # ms', concat (map snd done) @ issues))"

definition resolve_tool_result_names :: "message list \<Rightarrow> message list \<times> string list" where
  "resolve_tool_result_names ms = resolve_from 0 Map.empty ms"

definition has_schema :: "json \<Rightarrow> bool" where
  "has_schema rf \<longleftrightarrow> is_some_and (\<lambda>v. v \<noteq> JNull) (json_get rf ''json_schema'')
     \<or> Option.bind (json_get rf ''type'') as_str = Some ''json_schema''"

definition translation_unsupported :: "(string \<times> json) list \<Rightarrow> string option" where
  "translation_unsupported extra =
     (let issue = Option.bind (Option.bind (map_of extra TRANSLATION_ISSUES_KEY)
                    (\<lambda>v. case v of JArray (x # _) \<Rightarrow> Some x | _ \<Rightarrow> None)) as_str;
          present = (\<lambda>k. map_of extra k \<noteq> None)
      in case issue of
           Some i \<Rightarrow> Some (''unsupported nested content cannot be translated safely: '' @ i)
         | None \<Rightarrow>
             if is_some_and (\<lambda>n. n > 1) (Option.bind (map_of extra ''n'') as_u64)
             then Some (quoted ''n'' @ '' (multiple completions) is not supported on a translating path; remove it or route to a same-format provider'')
             else if present ''logprobs'' \<or> present ''top_logprobs''
             then Some (quoted ''logprobs'' @ ''/'' @ quoted ''top_logprobs'' @ '' are not supported on a translating path'')
             else if is_some_and has_schema (map_of extra ''response_format'')
             then Some (quoted ''response_format.json_schema'' @ '' is not enforceable on a translating path'')
             else if present ''modalities'' \<or> present ''audio''
             then Some (quoted ''modalities'' @ ''/'' @ quoted ''audio'' @ '' output are not supported on a translating path'')
             else if present ''prediction''
             then Some (quoted ''prediction'' @ '' is not supported on a translating path'')
             else None)"

section \<open>Parameters, thinking and capabilities\<close>

definition profile_satisfies_needs :: "capability_flags \<Rightarrow> capability_needs \<Rightarrow> bool" where
  "profile_satisfies_needs c needs \<longleftrightarrow>
     (\<not> need_vision needs \<or> cf_vision c \<noteq> Some False) \<and> (\<not> need_tools needs \<or> cf_tool_calling c \<noteq> Some False)
     \<and> (\<not> need_reasoning needs \<or> cf_reasoning c \<noteq> Some False)"

definition target_profile_supports_request :: "codec \<Rightarrow> resolved_target \<Rightarrow> capability_needs \<Rightarrow> bool" where
  "target_profile_supports_request cd t needs =
     (case resolve_execution_profile cd (rs_provider t) (rs_model t) of
        Inl _ \<Rightarrow> False
      | Inr prof \<Rightarrow> \<not> provider_strict (rs_provider t) \<or> profile_satisfies_needs (ep_capabilities prof) needs)"

definition check_param ::
  "(f64 \<Rightarrow> string) \<Rightarrow> string \<Rightarrow> param_spec option \<Rightarrow> string \<Rightarrow> f64 option \<Rightarrow> proxy_error option" where
  "check_param show_f64 model spec name value =
     (case (value, spec) of
        (Some v, Some s) \<Rightarrow>
          if \<not> ps_supported s \<and> ps_policy s = PReject
          then Some (pe_unsupported (''parameter '' @ quoted name @ '' is not supported by model '' @ quoted model))
          else if ps_policy s = PReject
          then (case opt_filter (\<lambda>lo. v < lo) (ps_min s) of
                  Some lo \<Rightarrow> Some (pe_bad_request (''parameter '' @ quoted name @ '' below minimum '' @ show_f64 lo))
                | None \<Rightarrow>
                    (case opt_filter (\<lambda>hi. v > hi) (ps_max s) of
                       Some hi \<Rightarrow> Some (pe_bad_request (''parameter '' @ quoted name @ '' above maximum '' @ show_f64 hi))
                     | None \<Rightarrow> None))
          else None
      | _ \<Rightarrow> None)"

definition check_param_policy ::
  "(f64 \<Rightarrow> string) \<Rightarrow> resolved_target \<Rightarrow> execution_profile \<Rightarrow> internal_request \<Rightarrow> proxy_error + unit" where
  "check_param_policy show_f64 t prof req =
     (let check = (\<lambda>name value. check_param show_f64 (md_display_name (rs_model t)) (map_of (ep_parameters prof) name) name value);
          ps = rq_params req
      in case List.map_filter (\<lambda>(name, value). check name value)
                [(''temperature'', sp_temperature ps), (''top_p'', sp_top_p ps), (''top_k'', sp_top_k ps)] of
           [] \<Rightarrow> Inr ()
         | e # _ \<Rightarrow> Inl e)"

text \<open>\<open>handles\<close>: whether the adapter translates thinking levels itself.\<close>

definition check_resolved_thinking_translation ::
  "bool \<Rightarrow> resolved_target \<Rightarrow> execution_profile \<Rightarrow> internal_request \<Rightarrow> proxy_error + unit" where
  "check_resolved_thinking_translation handles t prof req =
     (case rq_thinking req of
        None \<Rightarrow> Inr ()
      | Some level \<Rightarrow>
          if handles then Inr ()
          else let tm = ep_thinking_map prof; key = thinking_as_key level
               in if level = TL_Default \<and> is_adaptive tm then Inr ()
                  else if level = TL_Off \<and> ep_transport prof = AnthropicT \<and> is_adaptive tm
                          \<and> anthropic_adaptive_off_is_executable tm then Inr ()
                  else if level_is_executable tm key then Inr ()
                  else Inl (pe_unsupported (''thinking level '' @ quoted key @ '' has no executable mapping for model '' @
                         quoted (md_display_name (rs_model t)) @ '' on transport '' @ quoted (transport_as_str (ep_transport prof)))))"

section \<open>Anthropic errors\<close>

definition safe_anthropic_error_body :: "codec \<Rightarrow> string \<Rightarrow> json option" where
  "safe_anthropic_error_body cd body =
     (case de_value cd body of
        None \<Rightarrow> None
      | Some parsed \<Rightarrow>
          if Option.bind (json_get parsed ''type'') as_str \<noteq> Some ''error'' then None
          else case Option.bind (json_get parsed ''error'') as_object of
                 None \<Rightarrow> None
               | Some err \<Rightarrow>
                   (case (Option.bind (map_of err ''type'') as_str, Option.bind (map_of err ''message'') as_str) of
                      (Some ty, Some msg) \<Rightarrow>
                        let out = [(''type'', JString ''error''),
                                   (''error'', JObject [(''type'', JString ty), (''message'', JString (redact msg))])]
                        in Some (JObject
                             (case opt_filter (\<lambda>s. s \<noteq> [] \<and> length s \<le> 256) (Option.bind (json_get parsed ''request_id'') as_str) of
                                Some r \<Rightarrow> obj_insert ''request_id'' (JString r) out
                              | None \<Rightarrow> out))
                    | _ \<Rightarrow> None))"

text \<open>A header value that is not text is \<open>None\<close>.\<close>

definition allowed_error_header :: "string \<Rightarrow> bool" where
  "allowed_error_header name \<longleftrightarrow> name \<in> {''retry-after'', ''retry-after-ms'', ''x-should-retry'', ''request-id''}
     \<or> starts_with name ''anthropic-ratelimit-''"

definition anthropic_error_headers :: "(string \<times> string option) list \<Rightarrow> (string \<times> string) list" where
  "anthropic_error_headers hs =
     List.map_filter (\<lambda>(name, value). if allowed_error_header name then map_option (Pair name) value else None) hs"

definition preserve_anthropic_error ::
  "codec \<Rightarrow> frontend_format \<Rightarrow> string \<Rightarrow> upstream_failure \<Rightarrow> nat \<Rightarrow> (string \<times> string option) list \<Rightarrow> string option
    \<Rightarrow> proxy_error \<Rightarrow> proxy_error" where
  "preserve_anthropic_error cd format adapter_wire f status headers body e =
     (if format \<noteq> AnthropicF \<or> adapter_wire \<noteq> ''anthropic'' \<or> uf_kind f = AuthError then e
      else let e1 = e\<lparr>pe_http_status_override := Some status, pe_headers := pe_headers e @ anthropic_error_headers headers\<rparr>
           in case Option.bind body (safe_anthropic_error_body cd) of
                Some b \<Rightarrow> e1\<lparr>pe_body_override := Some b\<rparr>
              | None \<Rightarrow> e1)"

section \<open>Lemmas\<close>

lemma keys_obj_insert: "map fst (obj_insert k v fs) = (if k \<in> fst ` set fs then map fst fs else map fst fs @ [k])"
  by (induction k v fs rule: obj_insert.induct) auto

lemma note_calls_dom:
  "note_calls parts names i = Some n \<Longrightarrow> names i = Some n \<or> (\<exists>p \<in> set parts. call_name p = Some (i, n))"
proof -
  have "fold (\<lambda>(i, n) m. m(i \<mapsto> n)) xs names i = Some n \<Longrightarrow> names i = Some n \<or> (i, n) \<in> set xs" for xs names
    by (induction xs arbitrary: names) (fastforce split: if_splits)+
  then show "note_calls parts names i = Some n \<Longrightarrow> ?thesis"
    by (fastforce simp: note_calls_def List.map_filter_def)
qed

text \<open>The name of a tool result, and the name of the same result after resolution.\<close>

fun result_name :: "part \<Rightarrow> (string \<times> string option) option" where
  "result_name (ToolResult i n _ _) = Some (i, n)"
| "result_name _ = None"

text \<open>\<open>p'\<close> is \<open>p\<close>, or \<open>p\<close> with the name of a call among \<open>calls\<close> filled in.\<close>

definition filled :: "(string \<times> string) set \<Rightarrow> part \<Rightarrow> part \<Rightarrow> bool" where
  "filled calls p p' \<longleftrightarrow> p' = p \<or>
     (\<exists>i n c e. p = ToolResult i None c e \<and> p' = ToolResult i (Some n) c e \<and> (i, n) \<in> calls)"

definition calls_of :: "message list \<Rightarrow> (string \<times> string) set" where
  "calls_of ms = {x. \<exists>m \<in> set ms. \<exists>p \<in> set (msg_parts m). call_name p = Some x}"

lemma filled_mono: "filled A p p' \<Longrightarrow> A \<subseteq> B \<Longrightarrow> filled B p p'"
  by (auto simp: filled_def)

lemma resolve_part_filled:
  "(\<And>i n. names i = Some n \<Longrightarrow> (i, n) \<in> calls) \<Longrightarrow> filled calls p (fst (resolve_part k names p))"
  by (cases "(k, names, p)" rule: resolve_part.cases) (auto simp: filled_def split: option.splits)

lemma resolve_part_named: "snd (resolve_part k names p) = [] \<Longrightarrow> result_name (fst (resolve_part k names p)) \<noteq> Some (i, None)"
  by (cases "(k, names, p)" rule: resolve_part.cases) (auto split: option.splits)

lemma resolve_from_sound:
  assumes "resolve_from k names ms = (ms', issues)" "\<And>i n. names i = Some n \<Longrightarrow> (i, n) \<in> calls" "calls_of ms \<subseteq> calls"
  shows "list_all2 (\<lambda>m m'. msg_role m' = msg_role m \<and> list_all2 (filled calls) (msg_parts m) (msg_parts m')) ms ms' \<and>
    (issues = [] \<longrightarrow> (\<forall>m' \<in> set ms'. \<forall>p \<in> set (msg_parts m'). \<forall>i. result_name p \<noteq> Some (i, None)))"
  using assms
proof (induction ms arbitrary: k names ms' issues)
  case (Cons m ms)
  let ?names = "note_calls (msg_parts m) names"
  obtain rest iss where r: "resolve_from (Suc k) ?names ms = (rest, iss)" by force
  have known: "(i, n) \<in> calls" if "?names i = Some n" for i n
    using note_calls_dom [OF that] Cons.prems(2,3) by (auto simp: calls_of_def)
  have sub: "calls_of ms \<subseteq> calls" using Cons.prems(3) by (auto simp: calls_of_def)
  have IH: "list_all2 (\<lambda>m m'. msg_role m' = msg_role m \<and> list_all2 (filled calls) (msg_parts m) (msg_parts m')) ms rest \<and>
      (iss = [] \<longrightarrow> (\<forall>m' \<in> set rest. \<forall>p \<in> set (msg_parts m'). \<forall>i. result_name p \<noteq> Some (i, None)))"
    using Cons.IH [OF r known sub] .
  have here: "filled calls p (fst (resolve_part k ?names p))" for p
    using resolve_part_filled [of ?names calls p k] known by blast
  have "list_all2 (filled calls) (msg_parts m) (map fst (map (resolve_part k ?names) (msg_parts m)))"
    using here by (simp add: list_all2_conv_all_nth)
  then show ?case
    using Cons.prems(1) IH resolve_part_named by (auto simp: Let_def r)
qed (simp add: calls_of_def)

section \<open>Properties\<close>

text \<open>
  Passthrough rewrites nothing but what it must: the forwarded body is the client's object with the model replaced
  by the upstream one, and every field other than \<^verbatim>\<open>model\<close>, \<^verbatim>\<open>stream\<close> and \<^verbatim>\<open>stream_options\<close> keeps its value; of an
  object of stream options every field but \<^verbatim>\<open>include_usage\<close> is kept, and existing fields keep their order. A body
  that is no JSON object is not forwarded.
\<close>

theorem rewrite_model_preserves:
  assumes "rewrite_model cd raw upstream force_stream force_usage wire = Some s"
  shows "\<exists>obj obj'. de_value cd raw = Some (JObject obj) \<and> s = ser_value cd (JObject obj') \<and>
     map_of obj' ''model'' = Some (JString upstream) \<and>
     (\<forall>k. k \<notin> {''model'', ''stream'', ''stream_options''} \<longrightarrow> map_of obj' k = map_of obj k) \<and>
     (\<forall>fs k. map_of obj ''stream_options'' = Some (JObject fs) \<and> k \<noteq> ''include_usage'' \<longrightarrow>
        (\<exists>fs'. map_of obj' ''stream_options'' = Some (JObject fs') \<and> map_of fs' k = map_of fs k)) \<and>
     take (length obj) (map fst obj') = map fst obj"
proof -
  obtain obj where obj: "de_value cd raw = Some (JObject obj)"
    using assms by (cases "de_value cd raw") (auto simp: rewrite_model_def split: option.splits elim!: as_object.elims)
  have keys: "take (length obj) (map fst (obj_insert k v fs)) = map fst obj" if "take (length obj) (map fst fs) = map fst obj" for k v fs
  proof -
    have "length obj \<le> length fs" using arg_cong [OF that, of length] by simp
    then show ?thesis using that by (auto simp: keys_obj_insert)
  qed
  define o2 where "o2 = (if force_stream then obj_insert ''stream'' (JBool True) (obj_insert ''model'' (JString upstream) obj)
     else obj_insert ''model'' (JString upstream) obj)"
  have o2: "map_of o2 ''model'' = Some (JString upstream)" "\<And>k. k \<notin> {''model'', ''stream''} \<Longrightarrow> map_of o2 k = map_of obj k"
    "take (length obj) (map fst o2) = map fst obj"
    using keys by (auto simp: o2_def)
  show ?thesis
  proof (cases "force_usage \<and> wire = Openai")
    case False
    then have "s = ser_value cd (JObject o2)"
      using assms obj by (auto simp: rewrite_model_def Let_def o2_def split: if_splits)
    then show ?thesis
      by - (rule exI [of _ obj], rule exI [of _ o2], simp add: obj o2)
  next
    case True
    then have "s = ser_value cd (JObject (force_include_usage o2))"
      using assms obj by (auto simp: rewrite_model_def Let_def o2_def split: if_splits)
    moreover have "take (length obj) (map fst (force_include_usage o2)) = map fst obj"
      using keys o2(3) by (simp add: force_include_usage_def Let_def)
    moreover have usage: "map_of (force_include_usage o2) k = (if k = ''stream_options'' then Some (JObject (obj_insert ''include_usage''
        (JBool True) (case map_of obj ''stream_options'' of Some (JObject fs) \<Rightarrow> fs | _ \<Rightarrow> []))) else map_of o2 k)" for k
      using o2(2) [of "''stream_options''"] by (simp add: force_include_usage_def Let_def)
    moreover have "map_of (obj_insert ''include_usage'' v fs) k = map_of fs k" if "k \<noteq> ''include_usage''" for v fs k
      using that by simp
    ultimately show ?thesis
      using o2(1,2) by - (rule exI [of _ obj], rule exI [of _ "force_include_usage o2"], simp add: obj)
  qed
qed

text \<open>
  Tool results keep their identity or the request is not translated: resolution changes nothing but the missing names
  of tool results, fills them with the name a call of the conversation gave that identifier, and either every result
  ends up named, or an issue is recorded that makes every translating path refuse the request.
\<close>

theorem tool_results_resolved:
  assumes "resolve_tool_result_names ms = (ms', issues)"
  shows "list_all2 (\<lambda>m m'. msg_role m' = msg_role m \<and> list_all2 (filled (calls_of ms)) (msg_parts m) (msg_parts m')) ms ms' \<and>
    (if issues = [] then \<forall>m' \<in> set ms'. \<forall>p \<in> set (msg_parts m'). \<forall>i. result_name p \<noteq> Some (i, None)
     else translation_unsupported (attach_translation_issues issues extra) \<noteq> None)"
  using resolve_from_sound [of 0 Map.empty ms ms' issues "calls_of ms"] assms
  by (cases issues) (auto simp: resolve_tool_result_names_def translation_unsupported_def attach_translation_issues_def Let_def)

definition demo_turns :: "message list" where
  "demo_turns = [\<lparr>msg_role = Assistant, msg_parts = [ToolCall (Some ''c1'') ''read'' ''{}'' None]\<rparr>,
     \<lparr>msg_role = Tool, msg_parts = [ToolResult ''c1'' None ''ok'' False, ToolResult ''c2'' None ''ok'' False]\<rparr>]"

theorem tool_results_resolved_witness:
  "\<exists>ms' issues. resolve_tool_result_names demo_turns = (ms', issues) \<and> issues \<noteq> [] \<and>
     msg_parts (ms' ! 1) ! 0 = ToolResult ''c1'' (Some ''read'') ''ok'' False \<and>
     translation_unsupported (attach_translation_issues issues []) \<noteq> None"
proof -
  obtain ms' issues where r: "resolve_tool_result_names demo_turns = (ms', issues)" by force
  then have "issues \<noteq> []" "msg_parts (ms' ! 1) ! 0 = ToolResult ''c1'' (Some ''read'') ''ok'' False"
    by (auto simp: resolve_tool_result_names_def demo_turns_def note_calls_def List.map_filter_def Let_def)
  then show ?thesis using tool_results_resolved [OF r, of "[]"] r by auto
qed

theorem rewrite_model_preserves_witness:
  "\<exists>obj'. rewrite_model (demo_clock\<lparr>de_value := (\<lambda>_. Some (JObject [(''model'', JString ''a''), (''seed'', JNull)]))\<rparr>)
       ''x'' ''b'' True True Openai = Some (ser_value demo_clock (JObject obj')) \<and>
     map_of obj' ''model'' = Some (JString ''b'') \<and> map_of obj' ''seed'' = Some JNull"
proof -
  let ?cd = "demo_clock\<lparr>de_value := (\<lambda>_. Some (JObject [(''model'', JString ''a''), (''seed'', JNull)]))\<rparr>"
  obtain s where s: "rewrite_model ?cd ''x'' ''b'' True True Openai = Some s" by (simp add: rewrite_model_def Let_def)
  from rewrite_model_preserves [OF s] obtain obj obj' where
    o: "de_value ?cd ''x'' = Some (JObject obj)" "s = ser_value ?cd (JObject obj')" "map_of obj' ''model'' = Some (JString ''b'')"
    and k: "\<forall>k. k \<notin> {''model'', ''stream'', ''stream_options''} \<longrightarrow> map_of obj' k = map_of obj k"
    by blast
  have "map_of obj' ''seed'' = map_of obj ''seed''" using k by simp
  with o(1) have "map_of obj' ''seed'' = Some JNull" by auto
  with o(2,3) s show ?thesis by - (rule exI [of _ obj'], simp)
qed

end
