(* ===== verification/Live_Requests.thy ===== *)
theory Live_Requests
  imports Route_Policy "HOL-Library.Product_Lexorder"
begin

text \<open>
  The view of requests in flight (\<^verbatim>\<open>src/src/live.rs\<close>): a map from request identifiers to their progress, and the
  order of their arrival, by which the oldest are evicted. The map is its list of entries in iteration order.
\<close>

definition FINISHED_TAIL :: nat where [const_defs]: "FINISHED_TAIL = 64"

record live_request =
  lr_request_id :: string
  lr_key_name :: "string option"
  lr_frontend :: string
  lr_requested_model :: string
  lr_route_name :: "string option"
  lr_phase :: string
  lr_commit_state :: string
  lr_fallback_hops :: nat
  lr_retry_count :: nat
  lr_input_tokens :: "nat option"
  lr_output_tokens :: "nat option"
  lr_status :: string
  lr_latency_ms :: nat
  lr_ttft_ms :: "int option"
  lr_started_ms_ago :: nat
  lr_finished :: bool

record live_requests =
  lv_live :: "(string, live_request) hash_map"
  lv_order :: "string list"
  lv_max_live :: nat
  lv_dropped :: nat

definition live_new :: "nat \<Rightarrow> live_requests" where
  "live_new max_live = \<lparr>lv_live = [], lv_order = [], lv_max_live = max_live, lv_dropped = 0\<rparr>"

fun evict :: "nat \<Rightarrow> live_requests \<Rightarrow> live_requests" where
  "evict 0 l = l"
| "evict (Suc n) l =
     (case lv_order l of
        [] \<Rightarrow> l
      | old # rest \<Rightarrow>
          evict n (l\<lparr>lv_order := rest, lv_live := hm_remove old (lv_live l),
            lv_dropped := (if map_of (lv_live l) old \<noteq> None then wrap_add64 (lv_dropped l) 1 else lv_dropped l)\<rparr>))"

definition live_start ::
  "string \<Rightarrow> string \<Rightarrow> string \<Rightarrow> string option \<Rightarrow> string option \<Rightarrow> live_requests \<Rightarrow> live_requests" where
  "live_start i frontend model key_name route_name l =
     (let entry = \<lparr>lr_request_id = i, lr_key_name = key_name, lr_frontend = frontend, lr_requested_model = model,
            lr_route_name = route_name, lr_phase = ''selecting'', lr_commit_state = ''not_committed'', lr_fallback_hops = 0,
            lr_retry_count = 0, lr_input_tokens = None, lr_output_tokens = None, lr_status = ''in_flight'',
            lr_latency_ms = 0, lr_ttft_ms = None, lr_started_ms_ago = 0, lr_finished = False\<rparr>;
          l1 = l\<lparr>lv_live := hm_insert i entry (lv_live l), lv_order := lv_order l @ [i]\<rparr>
      in evict (length (lv_order l1) - lv_max_live l1) l1)"

definition live_with :: "string \<Rightarrow> (live_request \<Rightarrow> live_request) \<Rightarrow> live_requests \<Rightarrow> live_requests" where
  "live_with i f l = l\<lparr>lv_live := map (\<lambda>(k, r). (k, if k = i then f r else r)) (lv_live l)\<rparr>"

definition mark_committed :: "string \<Rightarrow> live_requests \<Rightarrow> live_requests" where
  "mark_committed i = live_with i (\<lambda>r. r\<lparr>lr_phase := ''committed'', lr_commit_state := ''committed''\<rparr>)"

definition mark_streaming :: "string \<Rightarrow> live_requests \<Rightarrow> live_requests" where
  "mark_streaming i = live_with i (\<lambda>r. if lr_phase r = ''selecting'' then r\<lparr>lr_phase := ''streaming''\<rparr> else r)"

definition set_ttft :: "string \<Rightarrow> int \<Rightarrow> live_requests \<Rightarrow> live_requests" where
  "set_ttft i t = live_with i (\<lambda>r. r\<lparr>lr_ttft_ms := Some t\<rparr>)"

definition set_fallback_hops :: "string \<Rightarrow> nat \<Rightarrow> nat \<Rightarrow> live_requests \<Rightarrow> live_requests" where
  "set_fallback_hops i hops retries = live_with i (\<lambda>r. r\<lparr>lr_fallback_hops := hops, lr_retry_count := retries\<rparr>)"

text \<open>The trim of a finish does not count what it removes.\<close>

definition live_finish ::
  "string \<Rightarrow> string \<Rightarrow> nat \<Rightarrow> nat option \<Rightarrow> nat option \<Rightarrow> live_requests \<Rightarrow> live_requests" where
  "live_finish i status latency input output l =
     (let l1 = live_with i (\<lambda>r. r\<lparr>lr_phase := ''done'', lr_finished := True, lr_status := status, lr_latency_ms := latency,
                 lr_input_tokens := input, lr_output_tokens := output\<rparr>) l
      in (evict (length (lv_order l1) - (lv_max_live l1 + FINISHED_TAIL)) l1)\<lparr>lv_dropped := lv_dropped l1\<rparr>)"

definition last_position :: "string \<Rightarrow> string list \<Rightarrow> nat" where
  "last_position i order = (case position (\<lambda>k. k = i) (rev order) of
     Some n \<Rightarrow> length order - 1 - n | None \<Rightarrow> u64_max)"

definition live_snapshot :: "nat \<Rightarrow> live_requests \<Rightarrow> live_request list" where
  "live_snapshot now_ms l =
     sort_key (\<lambda>r. (lr_finished r, - int (last_position (lr_request_id r) (lv_order l))))
       (map (\<lambda>(_, r). r\<lparr>lr_started_ms_ago := now_ms\<rparr>) (lv_live l))"

definition live_count :: "live_requests \<Rightarrow> nat" where
  "live_count l = length (filter (\<lambda>(_, r). \<not> lr_finished r) (lv_live l))"

section \<open>Invariant\<close>

text \<open>Every entry has its place in the order, so the bound on the order bounds the map.\<close>

definition live_inv :: "live_requests \<Rightarrow> bool" where
  "live_inv l \<longleftrightarrow> distinct (map fst (lv_live l)) \<and> fst ` set (lv_live l) \<subseteq> set (lv_order l) \<and>
     length (lv_order l) \<le> lv_max_live l"

lemma evict_max [simp]: "lv_max_live (evict n l) = lv_max_live l"
  by (induction n l rule: evict.induct) (auto split: list.splits)

lemma evict_order: "lv_order (evict n l) = drop n (lv_order l)"
  by (induction n l rule: evict.induct) (auto split: list.splits)

lemma evict_keeps:
  "distinct (map fst (lv_live l)) \<Longrightarrow> fst ` set (lv_live l) \<subseteq> set (lv_order l) \<Longrightarrow>
   distinct (map fst (lv_live (evict n l))) \<and> fst ` set (lv_live (evict n l)) \<subseteq> set (lv_order (evict n l))"
proof (induction n l rule: evict.induct)
  case (2 n l)
  show ?case
  proof (cases "lv_order l")
    case (Cons old rest)
    have "distinct (map fst (hm_remove old (lv_live l)))" using 2(2) by (simp add: hm_remove_def distinct_map_filter)
    moreover have "fst ` set (hm_remove old (lv_live l)) \<subseteq> set rest" using 2(3) Cons by (auto simp: hm_remove_def)
    ultimately show ?thesis using 2(1) [OF Cons] Cons by simp
  qed (use 2 in simp)
qed simp

lemma live_with_frame [simp]:
  "map fst (lv_live (live_with i f l)) = map fst (lv_live l)" "lv_order (live_with i f l) = lv_order l"
  "lv_max_live (live_with i f l) = lv_max_live l" "lv_dropped (live_with i f l) = lv_dropped l"
  by (simp_all add: live_with_def comp_def case_prod_beta)

lemma live_inv_with: "live_inv l \<Longrightarrow> live_inv (live_with i f l)"
  unfolding live_inv_def by (metis live_with_frame(1,2,3) set_map)

definition live_entered :: "string \<Rightarrow> live_request \<Rightarrow> live_requests \<Rightarrow> live_requests" where
  "live_entered i r l = l\<lparr>lv_live := hm_insert i r (lv_live l), lv_order := lv_order l @ [i]\<rparr>"

lemma live_start_entered:
  "\<exists>r. lr_finished r = False \<and> live_start i fe m k rn l =
     evict (length (lv_order l) + 1 - lv_max_live l) (live_entered i r l)"
  by (rule exI [of _ "\<lparr>lr_request_id = i, lr_key_name = k, lr_frontend = fe, lr_requested_model = m,
            lr_route_name = rn, lr_phase = ''selecting'', lr_commit_state = ''not_committed'', lr_fallback_hops = 0,
            lr_retry_count = 0, lr_input_tokens = None, lr_output_tokens = None, lr_status = ''in_flight'',
            lr_latency_ms = 0, lr_ttft_ms = None, lr_started_ms_ago = 0, lr_finished = False\<rparr>"])
     (simp add: live_start_def live_entered_def Let_def)

lemma live_entered_frame [simp]:
  "lv_order (live_entered i r l) = lv_order l @ [i]" "lv_max_live (live_entered i r l) = lv_max_live l"
  "fst ` set (lv_live (live_entered i r l)) = insert i (fst ` set (lv_live l))"
  using keys_hm_insert [of i r "lv_live l"] by (simp_all add: live_entered_def)

lemma live_inv_start: "live_inv l \<Longrightarrow> live_inv (live_start i fe m k rn l)"
proof -
  assume inv: "live_inv l"
  obtain r where r: "live_start i fe m k rn l = evict (length (lv_order l) + 1 - lv_max_live l) (live_entered i r l)"
    using live_start_entered by blast
  have "distinct (map fst (lv_live (live_entered i r l)))"
    using inv by (simp add: live_entered_def live_inv_def distinct_hm_insert)
  moreover have "fst ` set (lv_live (live_entered i r l)) \<subseteq> set (lv_order (live_entered i r l))"
    using inv by (auto simp: live_inv_def)
  ultimately have "distinct (map fst (lv_live (live_start i fe m k rn l))) \<and>
    fst ` set (lv_live (live_start i fe m k rn l)) \<subseteq> set (lv_order (live_start i fe m k rn l))"
    unfolding r by (rule evict_keeps)
  then show "live_inv (live_start i fe m k rn l)" by (simp add: live_inv_def r evict_order del: drop_append)
qed

lemma live_inv_finish: "live_inv l \<Longrightarrow> live_inv (live_finish i s lat inp out l)"
proof -
  assume inv: "live_inv l"
  define l1 where "l1 = live_with i (\<lambda>r. r\<lparr>lr_phase := ''done'', lr_finished := True, lr_status := s, lr_latency_ms := lat,
                 lr_input_tokens := inp, lr_output_tokens := out\<rparr>) l"
  have "live_inv l1" using inv by (simp add: l1_def live_inv_with)
  moreover then have "length (lv_order l1) - (lv_max_live l1 + FINISHED_TAIL) = 0" by (simp add: live_inv_def)
  ultimately show "live_inv (live_finish i s lat inp out l)"
    by (simp add: live_finish_def Let_def l1_def [symmetric] live_inv_def)
qed

text \<open>What callers do to the view, and a run of it.\<close>

datatype live_op =
    LStart string string string "string option" "string option"
  | LCommitted string
  | LStreaming string
  | LTtft string int
  | LHops string nat nat
  | LFinish string string nat "nat option" "nat option"

fun live_apply :: "live_op \<Rightarrow> live_requests \<Rightarrow> live_requests" where
  "live_apply (LStart i fe m k r) l = live_start i fe m k r l"
| "live_apply (LCommitted i) l = mark_committed i l"
| "live_apply (LStreaming i) l = mark_streaming i l"
| "live_apply (LTtft i t) l = set_ttft i t l"
| "live_apply (LHops i h r) l = set_fallback_hops i h r l"
| "live_apply (LFinish i s lat inp out) l = live_finish i s lat inp out l"

definition live_run :: "nat \<Rightarrow> live_op list \<Rightarrow> live_requests" where
  "live_run max_live ops = fold live_apply ops (live_new max_live)"

definition started :: "live_op list \<Rightarrow> string list" where
  "started ops = concat (map (\<lambda>op. case op of LStart i fe m k r \<Rightarrow> [i] | _ \<Rightarrow> []) ops)"

lemma started_simps [simp]:
  "started [] = []" "started (ops @ [op]) = started ops @ (case op of LStart i fe m k r \<Rightarrow> [i] | _ \<Rightarrow> [])"
  by (simp_all add: started_def)

lemma live_run_simps [simp]:
  "live_run n [] = live_new n" "live_run n (ops @ [op]) = live_apply op (live_run n ops)"
  by (simp_all add: live_run_def)

lemmas live_updates = mark_committed_def mark_streaming_def set_ttft_def set_fallback_hops_def

lemma live_inv_apply: "live_inv l \<Longrightarrow> live_inv (live_apply op l)"
  by (cases op) (simp_all add: live_updates live_inv_start live_inv_with live_inv_finish)

lemma live_apply_max [simp]: "lv_max_live (live_apply op l) = lv_max_live l"
  by (cases op) (simp_all add: live_updates live_finish_def live_start_def Let_def)

lemma live_inv_run: "live_inv (live_run n ops) \<and> lv_max_live (live_run n ops) = n"
  by (induction ops rule: rev_induct) (simp_all add: live_inv_apply, simp add: live_new_def live_inv_def)

text \<open>As long as identifiers are fresh, the map holds exactly the entries of the order.\<close>

definition live_tight :: "live_requests \<Rightarrow> bool" where
  "live_tight l \<longleftrightarrow> distinct (lv_order l) \<and> fst ` set (lv_live l) = set (lv_order l)"

lemma evict_tight: "live_tight l \<Longrightarrow> live_tight (evict n l)"
proof (induction n l rule: evict.induct)
  case (2 n l)
  show ?case
  proof (cases "lv_order l")
    case (Cons old rest)
    have "fst ` set (hm_remove old (lv_live l)) = fst ` set (lv_live l) - {old}" by (auto simp: hm_remove_def)
    then have "fst ` set (hm_remove old (lv_live l)) = set rest" using 2(2) Cons by (auto simp: live_tight_def)
    moreover have "distinct rest" using 2(2) Cons by (simp add: live_tight_def)
    ultimately show ?thesis using 2(1) [OF Cons] Cons by (simp add: live_tight_def)
  qed (use 2 in simp)
qed simp

lemma live_with_tight: "live_tight l \<Longrightarrow> live_tight (live_with i f l)"
  unfolding live_tight_def by (metis live_with_frame(1,2) set_map)

lemma live_finish_inv: "live_inv l \<Longrightarrow> \<exists>f. live_finish i s lat inp out l = live_with i f l"
  by (auto simp: live_finish_def Let_def live_inv_def live_with_def)

lemma live_apply_window:
  assumes "live_inv l" "live_tight l" "\<And>i fe m k r. op = LStart i fe m k r \<Longrightarrow> i \<notin> set (lv_order l)"
  shows "live_tight (live_apply op l) \<and> lv_order (live_apply op l) =
    (case op of LStart i fe m k r \<Rightarrow> drop (length (lv_order l) + 1 - lv_max_live l) (lv_order l @ [i]) | _ \<Rightarrow> lv_order l)"
proof (cases op)
  case (LStart i fe m k rn)
  obtain r where r: "live_start i fe m k rn l = evict (length (lv_order l) + 1 - lv_max_live l) (live_entered i r l)"
    using live_start_entered by blast
  have "live_tight (live_entered i r l)" using assms(2) assms(3) [OF LStart] by (simp add: live_tight_def)
  then show ?thesis using LStart by (simp add: r evict_tight evict_order)
next
  case (LFinish i s lat inp out)
  obtain f where "live_finish i s lat inp out l = live_with i f l" using live_finish_inv [OF assms(1)] by blast
  with LFinish show ?thesis by (simp add: assms(2) live_with_tight)
qed (use assms(2) in \<open>simp_all add: live_updates live_with_tight\<close>)

lemma window_snoc:
  "drop (length (drop (length xs - n) xs) + 1 - n) (drop (length xs - n) xs @ [i]) = drop (length xs + 1 - n) (xs @ [i])"
  by (cases "n \<le> length xs") (auto simp: Suc_diff_le)

lemma live_run_window:
  "distinct (started ops) \<Longrightarrow>
   live_tight (live_run n ops) \<and> lv_order (live_run n ops) = drop (length (started ops) - n) (started ops)"
proof (induction ops rule: rev_induct)
  case (snoc op ops)
  then have IH: "live_tight (live_run n ops)" "lv_order (live_run n ops) = drop (length (started ops) - n) (started ops)"
    by simp_all
  have fresh: "i \<notin> set (lv_order (live_run n ops))" if "op = LStart i fe m k r" for i fe m k r
    using snoc.prems that IH(2) by (auto dest: in_set_dropD)
  have step: "live_tight (live_apply op (live_run n ops)) \<and> lv_order (live_apply op (live_run n ops)) =
    (case op of LStart i fe m k r \<Rightarrow> drop (length (lv_order (live_run n ops)) + 1 - n) (lv_order (live_run n ops) @ [i])
     | _ \<Rightarrow> lv_order (live_run n ops))"
    using live_apply_window [OF live_inv_run [THEN conjunct1] IH(1)] fresh live_inv_run [of n ops] by metis
  show ?case
  proof (cases op)
    case (LStart i fe m k r)
    then show ?thesis using step window_snoc [of "started ops" n i] by (simp add: IH(2) del: drop_append)
  qed (use step IH(2) in simp_all)
qed (simp add: live_tight_def live_new_def)

text \<open>
  The view of requests in flight is a sliding window over the requests started: whatever the calls, it never holds
  more entries than its capacity, and as long as request identifiers are not reused it holds exactly the last
  \<^verbatim>\<open>max_live\<close> requests started, so a request leaves the view only by being pushed out by newer ones.
\<close>

theorem live_view_window:
  "length (lv_live (live_run n ops)) \<le> n \<and>
   (distinct (started ops) \<longrightarrow> fst ` set (lv_live (live_run n ops)) = set (drop (length (started ops) - n) (started ops)))"
proof -
  have inv: "distinct (map fst (lv_live (live_run n ops)))" "fst ` set (lv_live (live_run n ops)) \<subseteq> set (lv_order (live_run n ops))"
    "length (lv_order (live_run n ops)) \<le> n"
    using live_inv_run [of n ops] by (auto simp: live_inv_def)
  have "length (lv_live (live_run n ops)) = card (fst ` set (lv_live (live_run n ops)))"
    using distinct_card [OF inv(1)] by simp
  also have "\<dots> \<le> length (lv_order (live_run n ops))"
    using card_mono [OF _ inv(2)] card_length [of "lv_order (live_run n ops)"] by (simp add: le_trans)
  finally show ?thesis using inv(3) live_run_window [of ops n] by (auto simp: live_tight_def)
qed

theorem live_view_window_witness:
  "fst ` set (lv_live (live_run 2 [LStart ''a'' [] [] None None, LStart ''b'' [] [] None None,
     LFinish ''b'' ''ok'' 5 None None, LStart ''c'' [] [] None None])) = {''b'', ''c''}"
proof -
  let ?ops = "[LStart ''a'' [] [] None None, LStart ''b'' [] [] None None,
     LFinish ''b'' ''ok'' 5 None None, LStart ''c'' [] [] None None]"
  have s: "started ?ops = [''a'', ''b'', ''c'']" by (simp add: started_def)
  then show ?thesis using live_view_window [of 2 ?ops] by simp
qed

end
