(* ===== verification/OpenAI_Frontend.thy ===== *)
theory OpenAI_Frontend
  imports Request_Checks Sse Route_Predicate
begin

text \<open>
  The OpenAI Chat Completions frontend (\<^verbatim>\<open>src/src/frontends/openai.rs\<close>, and the OpenAI part of
  \<^verbatim>\<open>src/src/frontends/mod.rs\<close>): decoding of a client body into the internal request, encoding of internal events into
  the frames of the client's stream, and the aggregation of events into one body. Printing of JSON is \<open>ser_value\<close> of the
  codec.
\<close>

section \<open>Shared by the frontends\<close>

abbreviation get_str :: "json \<Rightarrow> string \<Rightarrow> string option" where
  "get_str v k \<equiv> Option.bind (json_get v k) as_str"

abbreviation field_str :: "(string \<times> json) list \<Rightarrow> string \<Rightarrow> string option" where
  "field_str obj k \<equiv> Option.bind (map_of obj k) as_str"

abbreviation jnat :: "nat \<Rightarrow> json" where
  "jnat n \<equiv> JNumber (PosInt n)"

definition as_u32 :: "nat \<Rightarrow> nat" where
  "as_u32 n = n mod 2 ^ 32"

text \<open>What an encoder knows of the response; the fields echoed by the Responses API.\<close>

record responses_fields =
  rsf_parallel_tool_calls :: bool
  rsf_tool_choice :: json
  rsf_tools :: "json list"

definition responses_fields_default :: responses_fields where
  "responses_fields_default = \<lparr>rsf_parallel_tool_calls = True, rsf_tool_choice = JString ''auto'', rsf_tools = []\<rparr>"

record encoder_ctx =
  ec_model_name :: string
  ec_request_id :: string
  ec_created :: int
  ec_responses :: responses_fields

definition sse_frame :: "string option \<Rightarrow> string \<Rightarrow> string" where
  "sse_frame event data =
     (case event of Some ev \<Rightarrow> ''event: '' @ ev @ [LF] | None \<Rightarrow> []) @
     concat (map (\<lambda>line. ''data: '' @ line @ [LF]) (split_char LF data)) @ [LF]"

definition sse_comment :: "string \<Rightarrow> string" where
  "sse_comment words = '': '' @ words @ [LF, LF]"

definition compact_id :: "string \<Rightarrow> string" where
  "compact_id = filter (\<lambda>c. c \<noteq> CHR ''-'' \<and> c \<noteq> CHR ''_'')"

section \<open>Decoding\<close>

definition openai_content_as_text :: "json option \<Rightarrow> string option" where
  "openai_content_as_text content =
     (case content of
        Some (JString s) \<Rightarrow> Some s
      | Some (JArray parts) \<Rightarrow>
          Some (concat (map (\<lambda>p. if get_str p ''type'' = Some ''text'' then unwrap_or (get_str p ''text'') [] else []) parts))
      | _ \<Rightarrow> None)"

definition parse_data_url :: "string \<Rightarrow> (string \<times> string) option" where
  "parse_data_url url =
     Option.bind (strip_prefix ''data:'' url) (\<lambda>rest.
       map_option (\<lambda>(meta, data). (unwrap_or (strip_suffix '';base64'' meta) meta, data)) (split_once CHR '','' rest))"

definition image_url_of :: "json \<Rightarrow> string option" where
  "image_url_of p =
     opt_or (Option.bind (json_path [''image_url'', ''url''] p) as_str) (opt_or (get_str p ''image_url'') (get_str p ''url''))"

definition openai_part :: "json \<Rightarrow> part option" where
  "openai_part p =
     (let kind = unwrap_or (get_str p ''type'') []
      in if kind \<in> {''text'', ''input_text'', ''output_text''} then map_option Text (get_str p ''text'')
         else if kind \<in> {''image_url'', ''input_image''}
         then map_option (\<lambda>url. Image (case parse_data_url url of Some (mime, data) \<Rightarrow> Base64 mime data | None \<Rightarrow> Url url))
                (image_url_of p)
         else None)"

definition openai_content_parts :: "json option \<Rightarrow> part list" where
  "openai_content_parts content =
     (case content of
        Some (JString s) \<Rightarrow> if s = [] then [] else [Text s]
      | Some (JArray parts) \<Rightarrow> List.map_filter openai_part parts
      | _ \<Rightarrow> [])"

definition openai_reasoning :: "json \<Rightarrow> part list" where
  "openai_reasoning m =
     (case Option.bind (opt_or (json_get m ''reasoning_content'') (json_get m ''reasoning'')) as_str of
        None \<Rightarrow> []
      | Some r \<Rightarrow> if r = [] then [] else [Thinking r (get_str m ''reasoning_signature'')])"

definition openai_tool_call :: "codec \<Rightarrow> json \<Rightarrow> part option" where
  "openai_tool_call cd tc =
     (let func = json_get tc ''function'';
          name = unwrap_or (Option.bind func (\<lambda>f. get_str f ''name'')) [];
          args = (case Option.bind func (\<lambda>f. json_get f ''arguments'') of
                    None \<Rightarrow> ''{}'' | Some (JString s) \<Rightarrow> s | Some other \<Rightarrow> ser_value cd other)
      in if name = [] then None else Some (ToolCall (get_str tc ''id'') name args None))"

definition openai_tool_calls :: "codec \<Rightarrow> json \<Rightarrow> part list" where
  "openai_tool_calls cd m =
     (case Option.bind (json_get m ''tool_calls'') as_array of
        None \<Rightarrow> [] | Some tcs \<Rightarrow> List.map_filter (openai_tool_call cd) tcs)"

text \<open>One client message: the system texts and the messages it adds.\<close>

definition openai_message :: "codec \<Rightarrow> json \<Rightarrow> string list \<times> message list" where
  "openai_message cd m =
     (let role = unwrap_or (get_str m ''role'') ''user''; content = json_get m ''content''
      in if role = ''system'' \<or> role = ''developer''
         then (case openai_content_as_text content of Some t \<Rightarrow> if t = [] then [] else [t] | None \<Rightarrow> [], [])
         else if role = ''user'' then ([], [\<lparr>msg_role = User, msg_parts = openai_content_parts content\<rparr>])
         else if role = ''assistant''
         then ([], [\<lparr>msg_role = Assistant,
                msg_parts = openai_content_parts content @ openai_reasoning m @ openai_tool_calls cd m\<rparr>])
         else if role = ''tool'' \<or> role = ''function''
         then ([], [\<lparr>msg_role = Tool,
                msg_parts = [ToolResult (unwrap_or (get_str m ''tool_call_id'') []) (get_str m ''name'')
                  (unwrap_or (openai_content_as_text content) []) False]\<rparr>])
         else ([], []))"

definition openai_tool :: "json \<Rightarrow> tool_def option" where
  "openai_tool t =
     (let func = unwrap_or (json_get t ''function'') t
      in map_option (\<lambda>name. \<lparr>tool_name = name, tool_description = get_str func ''description'',
           tool_parameters = unwrap_or (json_get func ''parameters'') (JObject []),
           tool_defer_loading = Option.bind (opt_or (json_get t ''defer_loading'') (json_get func ''defer_loading'')) as_bool\<rparr>)
           (get_str func ''name''))"

definition openai_tools :: "json option \<Rightarrow> tool_def list" where
  "openai_tools tools =
     (case Option.bind tools as_array of None \<Rightarrow> [] | Some arr \<Rightarrow> List.map_filter openai_tool arr)"

definition openai_tool_choice :: "json option \<Rightarrow> tool_choice option \<times> string option" where
  "openai_tool_choice tc =
     (case tc of
        Some (JString s) \<Rightarrow>
          (Some (if s = ''none'' then TC_None else if s = ''required'' then TC_Required else TC_Auto), None)
      | Some (JObject obj) \<Rightarrow>
          (Some TC_Specific, Option.bind (map_of obj ''function'') (\<lambda>f. get_str f ''name''))
      | _ \<Rightarrow> (Some TC_Auto, None))"

definition map_reasoning_effort :: "string \<Rightarrow> thinking_level option" where
  "map_reasoning_effort s =
     (if s = ''none'' \<or> s = ''off'' then Some TL_Off
      else if s = ''minimal'' then Some TL_Minimal
      else if s = ''low'' then Some TL_Low
      else if s = ''medium'' then Some TL_Medium
      else if s = ''high'' then Some TL_High
      else if s = ''xhigh'' then Some TL_XHigh
      else if s = ''max'' then Some TL_Max
      else None)"

text \<open>Nested content that translation would lose.\<close>

definition openai_content_issues :: "string \<Rightarrow> json option \<Rightarrow> bool \<Rightarrow> string list" where
  "openai_content_issues path content text_only =
     (case content of
        Some (JArray parts) \<Rightarrow>
          concat (map (\<lambda>(i, p).
            let kind = unwrap_or (get_str p ''type'') [];
                part_path = path @ ''['' @ show_nat i @ '']'';
                is_text = (kind \<in> {''text'', ''input_text'', ''output_text''});
                is_img = (kind \<in> {''image_url'', ''input_image''})
            in if text_only \<and> \<not> is_text
               then [part_path @ '' type '' @ quoted kind @ '' cannot be represented in this message role during translation'']
               else if \<not> is_text \<and> \<not> is_img
               then [part_path @ '' type '' @ quoted kind @ '' has no canonical cross-format representation'']
               else if is_img \<and> image_url_of p = None
               then [part_path @ '' image is missing a translatable URL'']
               else []) (enumerate 0 parts))
      | _ \<Rightarrow> [])"

definition openai_message_issues :: "nat \<Rightarrow> json \<Rightarrow> string list" where
  "openai_message_issues i m =
     (let role = unwrap_or (get_str m ''role'') ''user''; at_i = ''messages['' @ show_nat i @ '']''
      in (if role \<in> {''system'', ''developer'', ''user'', ''assistant'', ''tool'', ''function''} then []
          else [at_i @ '' has unsupported role '' @ quoted role]) @
         openai_content_issues (at_i @ ''.content'') (json_get m ''content'')
           (role \<in> {''system'', ''developer'', ''tool'', ''function''}) @
         List.map_filter (\<lambda>field. if is_some_and (\<lambda>v. v \<noteq> JNull) (json_get m field)
            then Some (at_i @ ''.'' @ field @ '' has no canonical cross-format representation'') else None)
           [''audio'', ''function_call'', ''refusal'', ''reasoning_details''])"

definition openai_tool_issues :: "nat \<Rightarrow> json \<Rightarrow> string list" where
  "openai_tool_issues i t =
     (let kind = unwrap_or (get_str t ''type'') ''function''
      in if kind = ''function'' then []
         else [''tools['' @ show_nat i @ ''] type '' @ quoted kind @ '' has no canonical cross-format representation''])"

definition openai_nested_issues :: "(string \<times> json) list \<Rightarrow> string list" where
  "openai_nested_issues obj =
     (case Option.bind (map_of obj ''messages'') as_array of
        None \<Rightarrow> [] | Some ms \<Rightarrow> concat (map (\<lambda>(i, m). openai_message_issues i m) (enumerate 0 ms))) @
     (case Option.bind (map_of obj ''tools'') as_array of
        None \<Rightarrow> [] | Some ts \<Rightarrow> concat (map (\<lambda>(i, t). openai_tool_issues i t) (enumerate 0 ts)))"

definition OPENAI_KNOWN :: "string list" where
  "OPENAI_KNOWN = [''model'', ''messages'', ''stream'', ''stream_options'', ''temperature'', ''top_p'', ''top_k'',
     ''max_tokens'', ''max_completion_tokens'', ''stop'', ''seed'', ''presence_penalty'', ''frequency_penalty'',
     ''tools'', ''tool_choice'', ''reasoning_effort'']"

definition openai_stop :: "json option \<Rightarrow> string list" where
  "openai_stop stop =
     (case stop of Some (JString s) \<Rightarrow> [s] | Some (JArray xs) \<Rightarrow> List.map_filter as_str xs | _ \<Rightarrow> [])"

definition openai_params :: "(string \<times> json) list \<Rightarrow> sampling_params" where
  "openai_params obj =
     \<lparr>sp_temperature = Option.bind (map_of obj ''temperature'') json_as_f64,
      sp_top_p = Option.bind (map_of obj ''top_p'') json_as_f64,
      sp_top_k = Option.bind (map_of obj ''top_k'') json_as_f64,
      sp_max_tokens = map_option as_u32
        (Option.bind (opt_or (map_of obj ''max_tokens'') (map_of obj ''max_completion_tokens'')) as_u64),
      sp_stop = openai_stop (map_of obj ''stop''),
      sp_seed = Option.bind (map_of obj ''seed'') json_as_i64,
      sp_presence_penalty = Option.bind (map_of obj ''presence_penalty'') json_as_f64,
      sp_frequency_penalty = Option.bind (map_of obj ''frequency_penalty'') json_as_f64\<rparr>"

definition openai_decode_request :: "codec \<Rightarrow> json \<Rightarrow> proxy_error + internal_request" where
  "openai_decode_request cd body =
     (case as_object body of
        None \<Rightarrow> Inl (pe_bad_request ''request body must be a JSON object'')
      | Some obj \<Rightarrow>
     (case field_str obj ''model'' of
        None \<Rightarrow> Inl (pe_bad_request (''missing required field '' @ quoted ''model''))
      | Some model \<Rightarrow>
     (case Option.bind (map_of obj ''messages'') as_array of
        None \<Rightarrow> Inl (pe_bad_request (''missing required field '' @ quoted ''messages''))
      | Some messages \<Rightarrow>
          let decoded = map (openai_message cd) messages;
              (ms, unresolved) = resolve_tool_result_names (concat (map snd decoded));
              (tc, tc_name) = openai_tool_choice (map_of obj ''tool_choice'');
              extra = filter (\<lambda>(k, _). k \<notin> set OPENAI_KNOWN) obj
          in Inr \<lparr>requested_model = model, rq_system = concat (map fst decoded), rq_messages = ms,
               rq_tools = openai_tools (map_of obj ''tools''), rq_tool_choice = tc, rq_tool_choice_name = tc_name,
               rq_params = openai_params obj,
               rq_stream = unwrap_or (Option.bind (map_of obj ''stream'') as_bool) False,
               rq_include_usage = unwrap_or (Option.bind (Option.bind (map_of obj ''stream_options'')
                  (\<lambda>v. json_get v ''include_usage'')) as_bool) False,
               rq_thinking = Option.bind (field_str obj ''reasoning_effort'') map_reasoning_effort,
               rq_extra = attach_translation_issues (openai_nested_issues obj @ unresolved) extra,
               rq_raw_body = None\<rparr>)))"

section \<open>Encoding\<close>

record openai_encoder =
  oe_ctx :: encoder_ctx
  oe_include_usage :: bool
  oe_role_sent :: bool
  oe_finish_sent :: bool
  oe_usage :: "token_usage option"
  oe_id :: string
  oe_tool_started :: "nat set"

definition openai_encoder_new :: "encoder_ctx \<Rightarrow> openai_encoder" where
  "openai_encoder_new ctx = \<lparr>oe_ctx = ctx, oe_include_usage = True, oe_role_sent = False, oe_finish_sent = False,
     oe_usage = None, oe_id = ''chatcmpl-'' @ compact_id (ec_request_id ctx), oe_tool_started = {}\<rparr>"

definition openai_envelope :: "openai_encoder \<Rightarrow> (string \<times> json) list \<Rightarrow> json" where
  "openai_envelope e rest = JObject ([(''id'', JString (oe_id e)), (''object'', JString ''chat.completion.chunk''),
     (''created'', json_int (ec_created (oe_ctx e))), (''model'', JString (ec_model_name (oe_ctx e)))] @ rest)"

definition openai_chunk :: "openai_encoder \<Rightarrow> json \<Rightarrow> string option \<Rightarrow> json" where
  "openai_chunk e delta finish =
     openai_envelope e [(''choices'', JArray [JObject [(''index'', jnat 0), (''delta'', delta),
       (''finish_reason'', case finish of Some r \<Rightarrow> JString r | None \<Rightarrow> JNull)]])]"

definition openai_usage_object :: "token_usage \<Rightarrow> json" where
  "openai_usage_object u =
     (let input = unwrap_or (tu_input u) 0; output = unwrap_or (tu_output u) 0
      in JObject ([(''prompt_tokens'', jnat input), (''completion_tokens'', jnat output),
           (''total_tokens'', jnat (wrap_add64 input output))] @
           (case tu_cached u of Some c \<Rightarrow> [(''prompt_tokens_details'', JObject [(''cached_tokens'', jnat c)])] | None \<Rightarrow> []) @
           (case tu_thinking u of Some t \<Rightarrow> [(''completion_tokens_details'', JObject [(''reasoning_tokens'', jnat t)])] | None \<Rightarrow> [])))"

definition openai_usage_chunk :: "openai_encoder \<Rightarrow> token_usage \<Rightarrow> json" where
  "openai_usage_chunk e u = openai_envelope e [(''choices'', JArray []), (''usage'', openai_usage_object u)]"

text \<open>The frames of a call, as the JSON values they carry, before printing; the role is announced once.\<close>

definition openai_ensure_role :: "openai_encoder \<Rightarrow> json list \<times> openai_encoder" where
  "openai_ensure_role e =
     (if oe_role_sent e then ([], e)
      else ([openai_chunk e (JObject [(''role'', JString ''assistant''), (''content'', JString [])]) None],
            e\<lparr>oe_role_sent := True\<rparr>))"

definition openai_tool_delta :: "(string \<times> json) list \<Rightarrow> json" where
  "openai_tool_delta call = JObject [(''tool_calls'', JArray [JObject call])]"

definition openai_usage_frames :: "openai_encoder \<Rightarrow> json list" where
  "openai_usage_frames e =
     (if oe_include_usage e then (case oe_usage e of Some u \<Rightarrow> [openai_usage_chunk e u] | None \<Rightarrow> []) else [])"

fun openai_encode :: "stream_event \<Rightarrow> openai_encoder \<Rightarrow> json list \<times> openai_encoder" where
  "openai_encode (Start _) e = ([], e)"
| "openai_encode (TextDelta t) e =
     (let (r, e') = openai_ensure_role e in (r @ [openai_chunk e' (JObject [(''content'', JString t)]) None], e'))"
| "openai_encode (RefusalDelta t) e =
     (let (r, e') = openai_ensure_role e in (r @ [openai_chunk e' (JObject [(''content'', JString t)]) None], e'))"
| "openai_encode (ThinkingDelta t _) e =
     (let (r, e') = openai_ensure_role e
      in (r @ (if t = [] then [] else [openai_chunk e' (JObject [(''reasoning_content'', JString t)]) None]), e'))"
| "openai_encode (ToolCallStart index i name _) e =
     (let (r, e') = openai_ensure_role e
      in (r @ [openai_chunk e' (openai_tool_delta [(''index'', jnat index),
             (''id'', JString (unwrap_or i (''call_'' @ oe_id e' @ ''_'' @ show_nat index))), (''type'', JString ''function''),
             (''function'', JObject [(''name'', JString name), (''arguments'', JString [])])]) None],
          e'\<lparr>oe_tool_started := insert index (oe_tool_started e')\<rparr>))"
| "openai_encode (ToolCallArgsDelta index args) e =
     (let (r, e') = openai_ensure_role e
      in (r @ [openai_chunk e' (openai_tool_delta [(''index'', jnat index),
             (''function'', JObject [(''arguments'', JString args)])]) None], e'))"
| "openai_encode (Usage u) e = ([], e\<lparr>oe_usage := Some u\<rparr>)"
| "openai_encode (stream_event.Finish f) e =
     (let e' = e\<lparr>oe_finish_sent := True\<rparr>
      in (openai_chunk e' (JObject []) (Some (finish_as_str f)) # openai_usage_frames e', e'))"

definition DONE_FRAME :: string where
  "DONE_FRAME = ''data: [DONE]'' @ [LF, LF]"

definition openai_frames :: "codec \<Rightarrow> json list \<Rightarrow> string list" where
  "openai_frames cd = map (\<lambda>v. sse_frame None (ser_value cd v))"

definition openai_closing :: "openai_encoder \<Rightarrow> json list \<times> openai_encoder" where
  "openai_closing e =
     (if oe_finish_sent e then ([], e)
      else let (r, e') = openai_ensure_role e
           in (r @ openai_chunk e' (JObject []) (Some ''stop'') # openai_usage_frames e', e'))"

definition openai_finalize :: "codec \<Rightarrow> openai_encoder \<Rightarrow> string list \<times> openai_encoder" where
  "openai_finalize cd e = (let (vs, e') = openai_closing e in (openai_frames cd vs @ [DONE_FRAME], e'))"

definition stream_error_object :: "string \<Rightarrow> json" where
  "stream_error_object message = JObject [(''error'', JObject [(''message'', JString message),
     (''type'', JString ''upstream_error''), (''code'', JString ''stream_error'')])]"

definition openai_error_frame :: "codec \<Rightarrow> string \<Rightarrow> openai_encoder \<Rightarrow> string list" where
  "openai_error_frame cd message e =
     openai_frames cd [stream_error_object message, openai_chunk e (JObject []) (Some ''error'')] @ [DONE_FRAME]"

section \<open>Aggregation\<close>

fun append_args :: "nat \<Rightarrow> string \<Rightarrow> (nat \<times> string \<times> string \<times> string) list \<Rightarrow> (nat \<times> string \<times> string \<times> string) list" where
  "append_args index args [] = []"
| "append_args index args ((i, cid, name, acc) # cs) =
     (if i = index then (i, cid, name, acc @ args) # cs else (i, cid, name, acc) # append_args index args cs)"

record openai_answer =
  oa_text :: string
  oa_reasoning :: string
  oa_calls :: "(nat \<times> string \<times> string \<times> string) list"
  oa_finish :: finish_reason

definition openai_answer_empty :: openai_answer where
  "openai_answer_empty = \<lparr>oa_text = [], oa_reasoning = [], oa_calls = [], oa_finish = Stop\<rparr>"

fun openai_collect :: "string \<Rightarrow> stream_event \<Rightarrow> openai_answer \<Rightarrow> openai_answer" where
  "openai_collect rid (TextDelta t) a = a\<lparr>oa_text := oa_text a @ t\<rparr>"
| "openai_collect rid (RefusalDelta t) a = a\<lparr>oa_text := oa_text a @ t\<rparr>"
| "openai_collect rid (ThinkingDelta t _) a = a\<lparr>oa_reasoning := oa_reasoning a @ t\<rparr>"
| "openai_collect rid (ToolCallStart index i name _) a =
     a\<lparr>oa_calls := oa_calls a @ [(index, unwrap_or i (''call_'' @ rid @ ''_'' @ show_nat index), name, [])]\<rparr>"
| "openai_collect rid (ToolCallArgsDelta index args) a = a\<lparr>oa_calls := append_args index args (oa_calls a)\<rparr>"
| "openai_collect rid (stream_event.Finish f) a = a\<lparr>oa_finish := f\<rparr>"
| "openai_collect rid _ a = a"

definition openai_call_object :: "nat \<times> string \<times> string \<times> string \<Rightarrow> json" where
  "openai_call_object c = (case c of (_, cid, name, args) \<Rightarrow>
     JObject [(''id'', JString cid), (''type'', JString ''function''),
       (''function'', JObject [(''name'', JString name), (''arguments'', JString (if args = [] then ''{}'' else args))])])"

definition openai_answer_message :: "openai_answer \<Rightarrow> json" where
  "openai_answer_message a =
     JObject ([(''role'', JString ''assistant''), (''content'', if oa_text a = [] then JNull else JString (oa_text a))] @
       (if oa_reasoning a = [] then [] else [(''reasoning_content'', JString (oa_reasoning a))]) @
       (if oa_calls a = [] then [] else [(''tool_calls'', JArray (map openai_call_object (oa_calls a)))]))"

definition openai_aggregate :: "int \<Rightarrow> string \<Rightarrow> string \<Rightarrow> stream_event list \<Rightarrow> token_usage \<Rightarrow> json" where
  "openai_aggregate created model_name rid events u =
     (let a = fold (openai_collect rid) events openai_answer_empty
      in JObject [(''id'', JString (''chatcmpl-'' @ compact_id rid)), (''object'', JString ''chat.completion''),
           (''created'', json_int created), (''model'', JString model_name),
           (''choices'', JArray [JObject [(''index'', jnat 0), (''message'', openai_answer_message a),
              (''finish_reason'', JString (finish_as_str (oa_finish a)))]]),
           (''usage'', openai_usage_object u)])"

end
