(* ===== verification/Anthropic_Frontend.thy ===== *)
theory Anthropic_Frontend
  imports OpenAI_Frontend
begin

text \<open>
  The Anthropic Messages frontend (\<^verbatim>\<open>src/src/frontends/anthropic.rs\<close>, and the Anthropic part of
  \<^verbatim>\<open>src/src/frontends/mod.rs\<close>): decoding, the streaming encoder with its content blocks, and aggregation. The
  streaming protocol a client follows is an acceptor of frames; the encoder is shown to satisfy it.
\<close>

section \<open>Decoding\<close>

definition get_path_str :: "string list \<Rightarrow> json \<Rightarrow> string option" where
  "get_path_str ks v = Option.bind (json_path ks v) as_str"

definition anthropic_image :: "json \<Rightarrow> part option" where
  "anthropic_image b =
     (let stype = unwrap_or (get_path_str [''source'', ''type''] b) []
      in if stype = ''base64''
         then Some (Image (Base64 (unwrap_or (get_path_str [''source'', ''media_type''] b) ''image/png'')
                                  (unwrap_or (get_path_str [''source'', ''data''] b) [])))
         else if stype = ''url'' then map_option (\<lambda>u. Image (Url u)) (get_path_str [''source'', ''url''] b)
         else None)"

definition anthropic_tool_use :: "codec \<Rightarrow> json \<Rightarrow> part option" where
  "anthropic_tool_use cd b =
     (let name = unwrap_or (get_str b ''name'') [];
          args = (case json_get b ''input'' of Some v \<Rightarrow> ser_value cd v | None \<Rightarrow> ''{}'')
      in if name = [] then None else Some (ToolCall (get_str b ''id'') name args None))"

definition anthropic_tool_result :: "json \<Rightarrow> part" where
  "anthropic_tool_result b =
     ToolResult (unwrap_or (get_str b ''tool_use_id'') []) None
       (case json_get b ''content'' of
          Some (JString s) \<Rightarrow> s
        | Some (JArray xs) \<Rightarrow> concat (List.map_filter (\<lambda>x. get_str x ''text'') xs)
        | _ \<Rightarrow> [])
       (unwrap_or (Option.bind (json_get b ''is_error'') as_bool) False)"

definition anthropic_block :: "codec \<Rightarrow> json \<Rightarrow> part option" where
  "anthropic_block cd b =
     (let kind = unwrap_or (get_str b ''type'') []
      in if kind = ''text'' then map_option Text (get_str b ''text'')
         else if kind = ''image'' then anthropic_image b
         else if kind = ''tool_use'' then anthropic_tool_use cd b
         else if kind = ''tool_result'' then Some (anthropic_tool_result b)
         else if kind = ''thinking'' then Some (Thinking (unwrap_or (get_str b ''thinking'') []) (get_str b ''signature''))
         else None)"

definition anthropic_content :: "codec \<Rightarrow> json option \<Rightarrow> part list" where
  "anthropic_content cd content =
     (case content of
        Some (JString s) \<Rightarrow> [Text s]
      | Some (JArray blocks) \<Rightarrow> List.map_filter (anthropic_block cd) blocks
      | _ \<Rightarrow> [])"

definition anthropic_message :: "codec \<Rightarrow> json \<Rightarrow> message option" where
  "anthropic_message cd m =
     (let role = (if get_str m ''role'' = Some ''assistant'' then Assistant else User);
          parts = anthropic_content cd (json_get m ''content'')
      in if parts = [] then None else Some \<lparr>msg_role = role, msg_parts = parts\<rparr>)"

definition anthropic_system :: "json option \<Rightarrow> string list" where
  "anthropic_system s =
     (case s of
        Some (JString t) \<Rightarrow> [t]
      | Some (JArray blocks) \<Rightarrow>
          List.map_filter (\<lambda>b. if get_str b ''type'' = Some ''text'' then get_str b ''text'' else None) blocks
      | _ \<Rightarrow> [])"

definition anthropic_tool :: "json \<Rightarrow> tool_def option" where
  "anthropic_tool t =
     map_option (\<lambda>name. \<lparr>tool_name = name, tool_description = get_str t ''description'',
       tool_parameters = unwrap_or (json_get t ''input_schema'')
         (JObject [(''type'', JString ''object''), (''properties'', JObject [])]),
       tool_defer_loading = Option.bind (json_get t ''defer_loading'') as_bool\<rparr>) (get_str t ''name'')"

definition anthropic_tools :: "json option \<Rightarrow> tool_def list" where
  "anthropic_tools tools =
     (case Option.bind tools as_array of None \<Rightarrow> [] | Some xs \<Rightarrow> List.map_filter anthropic_tool xs)"

definition anthropic_tool_choice :: "json option \<Rightarrow> tool_choice option \<times> string option" where
  "anthropic_tool_choice tc =
     (case tc of
        Some (JObject obj) \<Rightarrow>
          (let t = field_str obj ''type''
           in if t = Some ''any'' then (Some TC_Required, None)
              else if t = Some ''none'' then (Some TC_None, None)
              else if t = Some ''tool'' then (Some TC_Specific, field_str obj ''name'')
              else (Some TC_Auto, None))
      | _ \<Rightarrow> (Some TC_Auto, None))"

definition anthropic_effort :: "string \<Rightarrow> proxy_error + thinking_level" where
  "anthropic_effort effort =
     (if effort = ''low'' then Inr TL_Low
      else if effort = ''medium'' then Inr TL_Medium
      else if effort = ''high'' then Inr TL_High
      else if effort = ''xhigh'' then Inr TL_XHigh
      else if effort = ''max'' then Inr TL_Max
      else Inl (pe_bad_request (''unsupported Anthropic output_config.effort '' @ quoted effort)))"

definition budget_level :: "nat \<Rightarrow> thinking_level" where
  "budget_level budget =
     (if budget = 0 then TL_Off else if budget \<le> 2048 then TL_Low else if budget \<le> 8192 then TL_Medium else TL_High)"

definition anthropic_thinking :: "thinking_level option \<Rightarrow> json option \<Rightarrow> thinking_level option" where
  "anthropic_thinking effort thinking =
     (case thinking of
        None \<Rightarrow> None
      | Some t \<Rightarrow>
          let kind = unwrap_or (get_str t ''type'') []
          in if kind = ''disabled'' then Some TL_Off
             else if kind = ''adaptive'' then Some (unwrap_or effort TL_Default)
             else if kind = ''enabled''
             then Some (budget_level (unwrap_or (Option.bind (json_get t ''budget_tokens'') as_u64) 0))
             else None)"

definition anthropic_system_issues :: "json option \<Rightarrow> string list" where
  "anthropic_system_issues s =
     (case s of
        Some (JArray blocks) \<Rightarrow>
          concat (map (\<lambda>(i, b). let kind = unwrap_or (get_str b ''type'') []
            in if kind = ''text'' then []
               else [''system['' @ show_nat i @ ''] type '' @ quoted kind @ '' has no canonical cross-format representation''])
            (enumerate 0 blocks))
      | _ \<Rightarrow> [])"

definition anthropic_block_issues :: "string \<Rightarrow> json \<Rightarrow> string list" where
  "anthropic_block_issues path b =
     (let kind = unwrap_or (get_str b ''type'') []
      in if kind \<in> {''text'', ''tool_use'', ''thinking''} then []
         else if kind = ''image''
         then let stype = unwrap_or (get_path_str [''source'', ''type''] b) []
              in if stype = ''base64'' \<or> stype = ''url'' then []
                 else [path @ '' image source type '' @ quoted stype @ '' is not translatable'']
         else if kind = ''tool_result''
         then (case json_get b ''content'' of
                 Some (JArray rs) \<Rightarrow>
                   concat (map (\<lambda>(i, r). let rt = unwrap_or (get_str r ''type'') []
                     in if rt = ''text'' then []
                        else [path @ ''.content['' @ show_nat i @ ''] type '' @ quoted rt @
                              '' would be dropped during translation'']) (enumerate 0 rs))
               | _ \<Rightarrow> [])
         else [path @ '' type '' @ quoted kind @ '' has no canonical cross-format representation''])"

definition anthropic_message_issues :: "nat \<Rightarrow> json \<Rightarrow> string list" where
  "anthropic_message_issues i m =
     (let role = unwrap_or (get_str m ''role'') ''user''; at_i = ''messages['' @ show_nat i @ '']''
      in (if role = ''user'' \<or> role = ''assistant'' then [] else [at_i @ '' has unsupported role '' @ quoted role]) @
         (case json_get m ''content'' of
            Some (JArray blocks) \<Rightarrow>
              concat (map (\<lambda>(j, b). anthropic_block_issues (at_i @ ''.content['' @ show_nat j @ '']'') b) (enumerate 0 blocks))
          | Some (JString _) \<Rightarrow> []
          | None \<Rightarrow> []
          | Some _ \<Rightarrow> [at_i @ ''.content has unsupported nested structure'']))"

definition output_config_issues :: "(string \<times> json) list \<Rightarrow> string list" where
  "output_config_issues obj =
     (case map_of obj ''output_config'' of
        None \<Rightarrow> []
      | Some oc \<Rightarrow>
          (case as_object oc of
             None \<Rightarrow> [''output_config has unsupported nested structure for cross-format translation'']
           | Some config \<Rightarrow>
               let adaptive = Option.bind (map_of obj ''thinking'') (\<lambda>t. get_str t ''type'') = Some ''adaptive''
               in List.map_filter (\<lambda>(k, _). if k \<noteq> ''effort'' \<or> \<not> adaptive
                    then Some (''output_config.'' @ k @ '' has no canonical cross-format representation'') else None) config))"

definition anthropic_tool_issues :: "nat \<Rightarrow> json \<Rightarrow> string list" where
  "anthropic_tool_issues i t =
     (case get_str t ''type'' of
        Some kind \<Rightarrow> if kind = ''custom'' then []
          else [''tools['' @ show_nat i @ ''] server-tool type '' @ quoted kind @ '' has no canonical cross-format representation'']
      | None \<Rightarrow> [])"

definition anthropic_nested_issues :: "(string \<times> json) list \<Rightarrow> string list" where
  "anthropic_nested_issues obj =
     anthropic_system_issues (map_of obj ''system'') @
     (case Option.bind (map_of obj ''messages'') as_array of
        None \<Rightarrow> [] | Some ms \<Rightarrow> concat (map (\<lambda>(i, m). anthropic_message_issues i m) (enumerate 0 ms))) @
     output_config_issues obj @
     (case Option.bind (map_of obj ''tools'') as_array of
        None \<Rightarrow> [] | Some ts \<Rightarrow> concat (map (\<lambda>(i, t). anthropic_tool_issues i t) (enumerate 0 ts)))"

definition ANTHROPIC_KNOWN :: "string list" where
  "ANTHROPIC_KNOWN = [''model'', ''messages'', ''system'', ''stream'', ''temperature'', ''top_p'', ''top_k'', ''max_tokens'',
     ''stop_sequences'', ''output_config'', ''tools'', ''tool_choice'', ''thinking'']"

definition anthropic_params :: "(string \<times> json) list \<Rightarrow> sampling_params" where
  "anthropic_params obj =
     \<lparr>sp_temperature = Option.bind (map_of obj ''temperature'') json_as_f64,
      sp_top_p = Option.bind (map_of obj ''top_p'') json_as_f64,
      sp_top_k = Option.bind (map_of obj ''top_k'') json_as_f64,
      sp_max_tokens = map_option as_u32 (Option.bind (map_of obj ''max_tokens'') as_u64),
      sp_stop = (case Option.bind (map_of obj ''stop_sequences'') as_array of Some xs \<Rightarrow> List.map_filter as_str xs | None \<Rightarrow> []),
      sp_seed = None, sp_presence_penalty = None, sp_frequency_penalty = None\<rparr>"

definition anthropic_decode_request :: "codec \<Rightarrow> json \<Rightarrow> proxy_error + internal_request" where
  "anthropic_decode_request cd body =
     (case as_object body of
        None \<Rightarrow> Inl (pe_bad_request ''request body must be a JSON object'')
      | Some obj \<Rightarrow>
     (case field_str obj ''model'' of
        None \<Rightarrow> Inl (pe_bad_request (''missing required field '' @ quoted ''model''))
      | Some model \<Rightarrow>
     (case Option.bind (map_of obj ''messages'') as_array of
        None \<Rightarrow> Inl (pe_bad_request (''missing required field '' @ quoted ''messages''))
      | Some messages \<Rightarrow>
     (case (case Option.bind (map_of obj ''output_config'') (\<lambda>c. get_str c ''effort'') of
              None \<Rightarrow> Inr None | Some s \<Rightarrow> map_sum (\<lambda>x. x) Some (anthropic_effort s)) of
        Inl err \<Rightarrow> Inl err
      | Inr effort \<Rightarrow>
          let (ms, unresolved) = resolve_tool_result_names (List.map_filter (anthropic_message cd) messages);
              (tc, tc_name) = anthropic_tool_choice (map_of obj ''tool_choice'');
              extra = filter (\<lambda>(k, _). k \<notin> set ANTHROPIC_KNOWN) obj
          in Inr \<lparr>requested_model = model, rq_system = anthropic_system (map_of obj ''system''), rq_messages = ms,
               rq_tools = anthropic_tools (map_of obj ''tools''), rq_tool_choice = tc, rq_tool_choice_name = tc_name,
               rq_params = anthropic_params obj,
               rq_stream = unwrap_or (Option.bind (map_of obj ''stream'') as_bool) False, rq_include_usage = False,
               rq_thinking = anthropic_thinking effort (map_of obj ''thinking''),
               rq_extra = attach_translation_issues (anthropic_nested_issues obj @ unresolved) extra,
               rq_raw_body = None\<rparr>))))"

section \<open>Encoding\<close>

datatype block_state = TextBlock | ThinkingBlock

record anthropic_encoder =
  an_ctx :: encoder_ctx
  an_started :: bool
  an_next_index :: nat
  an_open_block :: "(nat \<times> block_state) option"
  an_tool_blocks :: "nat \<rightharpoonup> nat \<times> string \<times> string"
  an_usage :: token_usage
  an_finish :: "finish_reason option"
  an_stop_reason_sent :: bool

definition anthropic_encoder_new :: "encoder_ctx \<Rightarrow> anthropic_encoder" where
  "anthropic_encoder_new ctx = \<lparr>an_ctx = ctx, an_started = False, an_next_index = 0, an_open_block = None,
     an_tool_blocks = Map.empty, an_usage = usage_default, an_finish = None, an_stop_reason_sent = False\<rparr>"

text \<open>A frame is the name of its event and the value it carries.\<close>

type_synonym named_frame = "string \<times> json"

definition message_start_frame :: "anthropic_encoder \<Rightarrow> named_frame" where
  "message_start_frame e =
     (''message_start'', JObject [(''type'', JString ''message_start''),
        (''message'', JObject [(''id'', JString (''msg_'' @ compact_id (ec_request_id (an_ctx e)))), (''type'', JString ''message''),
           (''role'', JString ''assistant''), (''model'', JString (ec_model_name (an_ctx e))), (''content'', JArray []),
           (''stop_reason'', JNull), (''stop_sequence'', JNull),
           (''usage'', JObject [(''input_tokens'', jnat 0), (''output_tokens'', jnat 0)])])])"

definition emit_start :: "anthropic_encoder \<Rightarrow> named_frame list \<times> anthropic_encoder" where
  "emit_start e = (if an_started e then ([], e) else ([message_start_frame e], e\<lparr>an_started := True\<rparr>))"

definition block_stop_frame :: "nat \<Rightarrow> named_frame" where
  "block_stop_frame i = (''content_block_stop'', JObject [(''type'', JString ''content_block_stop''), (''index'', jnat i)])"

definition block_start_frame :: "nat \<Rightarrow> json \<Rightarrow> named_frame" where
  "block_start_frame i block = (''content_block_start'',
     JObject [(''type'', JString ''content_block_start''), (''index'', jnat i), (''content_block'', block)])"

definition block_delta_frame :: "nat \<Rightarrow> (string \<times> json) list \<Rightarrow> named_frame" where
  "block_delta_frame i delta = (''content_block_delta'',
     JObject [(''type'', JString ''content_block_delta''), (''index'', jnat i), (''delta'', JObject delta)])"

definition close_open_block :: "anthropic_encoder \<Rightarrow> named_frame list \<times> anthropic_encoder" where
  "close_open_block e =
     (case an_open_block e of
        Some (i, _) \<Rightarrow> ([block_stop_frame i], e\<lparr>an_open_block := None\<rparr>)
      | None \<Rightarrow> ([], e))"

text \<open>Closing what is open and opening a block: its index, and the state the encoder remembers it in.\<close>

definition open_new_block :: "json \<Rightarrow> block_state \<Rightarrow> anthropic_encoder \<Rightarrow> named_frame list \<times> nat \<times> anthropic_encoder" where
  "open_new_block block st e =
     (let (closed, e1) = close_open_block e; i = an_next_index e1
      in (closed @ [block_start_frame i block], i, e1\<lparr>an_next_index := Suc i, an_open_block := Some (i, st)\<rparr>))"

definition open_text_block :: "anthropic_encoder \<Rightarrow> named_frame list \<times> anthropic_encoder" where
  "open_text_block e =
     (case an_open_block e of
        Some (_, TextBlock) \<Rightarrow> ([], e)
      | _ \<Rightarrow> (case open_new_block (JObject [(''type'', JString ''text''), (''text'', JString [])]) TextBlock e of
                (fs, _, e') \<Rightarrow> (fs, e')))"

definition open_thinking_block :: "anthropic_encoder \<Rightarrow> named_frame list \<times> anthropic_encoder" where
  "open_thinking_block e =
     (case an_open_block e of
        Some (_, ThinkingBlock) \<Rightarrow> ([], e)
      | _ \<Rightarrow> (case open_new_block (JObject [(''type'', JString ''thinking''), (''thinking'', JString []), (''signature'', JString [])])
                      ThinkingBlock e of
                (fs, _, e') \<Rightarrow> (fs, e')))"

text \<open>A tool block is remembered as an open text block, as the code does.\<close>

definition open_tool_block :: "nat \<Rightarrow> string \<Rightarrow> string \<Rightarrow> anthropic_encoder \<Rightarrow> named_frame list \<times> anthropic_encoder" where
  "open_tool_block index i name e =
     (case open_new_block (JObject [(''type'', JString ''tool_use''), (''id'', JString i), (''name'', JString name),
             (''input'', JObject [])]) TextBlock e of
        (fs, block, e') \<Rightarrow> (fs, e'\<lparr>an_tool_blocks := (an_tool_blocks e')(index \<mapsto> (block, i, name))\<rparr>))"

definition open_index :: "anthropic_encoder \<Rightarrow> nat" where
  "open_index e = unwrap_or (map_option fst (an_open_block e)) 0"

definition encode_text :: "string \<Rightarrow> anthropic_encoder \<Rightarrow> named_frame list \<times> anthropic_encoder" where
  "encode_text t e =
     (let (s, e1) = emit_start e; (b, e2) = open_text_block e1
      in (s @ b @ [block_delta_frame (open_index e2) [(''type'', JString ''text_delta''), (''text'', JString t)]], e2))"

fun anthropic_encode :: "stream_event \<Rightarrow> anthropic_encoder \<Rightarrow> named_frame list \<times> anthropic_encoder" where
  "anthropic_encode (Start _) e = emit_start e"
| "anthropic_encode (TextDelta t) e = encode_text t e"
| "anthropic_encode (RefusalDelta t) e = encode_text t e"
| "anthropic_encode (ThinkingDelta t sig) e =
     (let (s, e1) = emit_start e; (b, e2) = open_thinking_block e1; i = open_index e2
      in (s @ b @
          (if t = [] then [] else [block_delta_frame i [(''type'', JString ''thinking_delta''), (''thinking'', JString t)]]) @
          (case sig of
             Some g \<Rightarrow> if g = [] then []
               else [block_delta_frame i [(''type'', JString ''signature_delta''), (''signature'', JString g)]]
           | None \<Rightarrow> []), e2))"
| "anthropic_encode (ToolCallStart index i name _) e =
     (let (s, e1) = emit_start e;
          (b, e2) = open_tool_block index (unwrap_or i (''toolu_'' @ ec_request_id (an_ctx e) @ ''_'' @ show_nat index)) name e1
      in (s @ b, e2))"
| "anthropic_encode (ToolCallArgsDelta index args) e =
     (let block = unwrap_or (opt_or (map_option fst (an_tool_blocks e index)) (map_option fst (an_open_block e))) 0
      in ([block_delta_frame block [(''type'', JString ''input_json_delta''), (''partial_json'', JString args)]], e))"
| "anthropic_encode (Usage u) e = ([], e\<lparr>an_usage := merge_usage (an_usage e) u\<rparr>)"
| "anthropic_encode (stream_event.Finish f) e = ([], e\<lparr>an_finish := Some f\<rparr>)"

definition anthropic_stop_reason :: "finish_reason option \<Rightarrow> string" where
  "anthropic_stop_reason f =
     (case f of Some Length \<Rightarrow> ''max_tokens'' | Some ToolCalls \<Rightarrow> ''tool_use'' | _ \<Rightarrow> ''end_turn'')"

definition anthropic_finalize :: "anthropic_encoder \<Rightarrow> named_frame list \<times> anthropic_encoder" where
  "anthropic_finalize e =
     (let (s, e1) = emit_start e; (c, e2) = close_open_block e1;
          d = (if an_stop_reason_sent e2 then []
               else [(''message_delta'', JObject [(''type'', JString ''message_delta''),
                       (''delta'', JObject [(''stop_reason'', JString (anthropic_stop_reason (an_finish e2))), (''stop_sequence'', JNull)]),
                       (''usage'', JObject [(''output_tokens'', jnat (unwrap_or (tu_output (an_usage e2)) 0))])])])
      in (s @ c @ d @ [(''message_stop'', JObject [(''type'', JString ''message_stop'')])], e2\<lparr>an_stop_reason_sent := True\<rparr>))"

definition anthropic_error_frame :: "string \<Rightarrow> named_frame list" where
  "anthropic_error_frame message =
     [(''error'', JObject [(''type'', JString ''error''),
        (''error'', JObject [(''type'', JString ''api_error''), (''message'', JString message)])])]"

definition named_frames :: "codec \<Rightarrow> named_frame list \<Rightarrow> string list" where
  "named_frames cd = map (\<lambda>(name, v). sse_frame (Some name) (ser_value cd v))"

section \<open>Aggregation\<close>

record anthropic_answer =
  aa_blocks :: "json list"
  aa_tool :: "(nat \<times> string \<times> string \<times> string) option"
  aa_finish :: finish_reason

definition anthropic_answer_empty :: anthropic_answer where
  "anthropic_answer_empty = \<lparr>aa_blocks = [], aa_tool = None, aa_finish = Stop\<rparr>"

definition push_tool :: "codec \<Rightarrow> anthropic_answer \<Rightarrow> anthropic_answer" where
  "push_tool cd a =
     (case aa_tool a of
        None \<Rightarrow> a
      | Some (_, i, name, args) \<Rightarrow>
          a\<lparr>aa_tool := None,
            aa_blocks := aa_blocks a @ [JObject [(''type'', JString ''tool_use''), (''id'', JString i), (''name'', JString name),
              (''input'', unwrap_or (de_value cd args) (JObject []))]]\<rparr>)"

definition add_block :: "(string \<times> json) list \<Rightarrow> anthropic_answer \<Rightarrow> anthropic_answer" where
  "add_block fs a = a\<lparr>aa_blocks := aa_blocks a @ [JObject fs]\<rparr>"

fun anthropic_collect :: "codec \<Rightarrow> string \<Rightarrow> stream_event \<Rightarrow> anthropic_answer \<Rightarrow> anthropic_answer" where
  "anthropic_collect cd rid (TextDelta t) a = add_block [(''type'', JString ''text''), (''text'', JString t)] (push_tool cd a)"
| "anthropic_collect cd rid (RefusalDelta t) a = add_block [(''type'', JString ''text''), (''text'', JString t)] (push_tool cd a)"
| "anthropic_collect cd rid (ThinkingDelta t sig) a =
     add_block [(''type'', JString ''thinking''), (''thinking'', JString t), (''signature'', JString (unwrap_or sig []))] a"
| "anthropic_collect cd rid (ToolCallStart index i name _) a =
     (push_tool cd a)\<lparr>aa_tool := Some (index, unwrap_or i (''toolu_'' @ rid @ ''_'' @ show_nat index), name, [])\<rparr>"
| "anthropic_collect cd rid (ToolCallArgsDelta _ args) a =
     (case aa_tool a of
        Some (index, i, name, acc) \<Rightarrow> a\<lparr>aa_tool := Some (index, i, name, acc @ args)\<rparr>
      | None \<Rightarrow> a)"
| "anthropic_collect cd rid (stream_event.Finish f) a = a\<lparr>aa_finish := f\<rparr>"
| "anthropic_collect cd rid _ a = a"

definition anthropic_usage_object :: "token_usage \<Rightarrow> json" where
  "anthropic_usage_object u =
     (let ordinary = unwrap_or (tu_input u) 0 - unwrap_or (tu_cached u) 0 - unwrap_or (tu_cache_write u) 0
      in JObject ([(''input_tokens'', jnat ordinary), (''output_tokens'', jnat (unwrap_or (tu_output u) 0))] @
           (case tu_cached u of Some c \<Rightarrow> [(''cache_read_input_tokens'', jnat c)] | None \<Rightarrow> []) @
           (case tu_cache_write u of Some c \<Rightarrow> [(''cache_creation_input_tokens'', jnat c)] | None \<Rightarrow> [])))"

definition anthropic_aggregate ::
  "codec \<Rightarrow> string \<Rightarrow> string \<Rightarrow> stream_event list \<Rightarrow> token_usage \<Rightarrow> json" where
  "anthropic_aggregate cd model_name rid events u =
     (let a = push_tool cd (fold (anthropic_collect cd rid) events anthropic_answer_empty)
      in JObject [(''id'', JString (''msg_'' @ compact_id rid)), (''type'', JString ''message''), (''role'', JString ''assistant''),
           (''model'', JString model_name), (''content'', JArray (aa_blocks a)),
           (''stop_reason'', JString (anthropic_stop_reason (Some (aa_finish a)))), (''stop_sequence'', JNull),
           (''usage'', anthropic_usage_object u)])"

section \<open>The streaming protocol\<close>

text \<open>
  The client's side: one \<open>message_start\<close>, then content blocks numbered from 0, one open at a time, each receiving only
  the deltas of its type, then a \<open>message_delta\<close> and \<open>message_stop\<close>.
\<close>

datatype client_state =
    Unstarted
  | Between nat
  | In_Block nat string
  | Closing
  | Ended

definition delta_fits :: "string \<Rightarrow> string \<Rightarrow> bool" where
  "delta_fits block delta \<longleftrightarrow>
     (block, delta) \<in> {(''text'', ''text_delta''), (''thinking'', ''thinking_delta''), (''thinking'', ''signature_delta''),
       (''tool_use'', ''input_json_delta'')}"

definition frame_index :: "json \<Rightarrow> nat option" where
  "frame_index v = Option.bind (json_get v ''index'') as_u64"

definition client_step :: "named_frame \<Rightarrow> client_state \<Rightarrow> client_state option" where
  "client_step frame st =
     (case frame of (name, v) \<Rightarrow>
      if get_str v ''type'' \<noteq> Some name then None
      else case st of
        Unstarted \<Rightarrow> if name = ''message_start'' then Some (Between 0) else None
      | Between n \<Rightarrow>
          if name = ''content_block_start'' \<and> frame_index v = Some n
          then map_option (In_Block n) (get_path_str [''content_block'', ''type''] v)
          else if name = ''message_delta'' then Some Closing else None
      | In_Block n block \<Rightarrow>
          if name = ''content_block_delta'' \<and> frame_index v = Some n
             \<and> is_some_and (delta_fits block) (get_path_str [''delta'', ''type''] v) then Some (In_Block n block)
          else if name = ''content_block_stop'' \<and> frame_index v = Some n then Some (Between (Suc n)) else None
      | Closing \<Rightarrow> if name = ''message_stop'' then Some Ended else None
      | Ended \<Rightarrow> None)"

fun client_run :: "named_frame list \<Rightarrow> client_state \<Rightarrow> client_state option" where
  "client_run [] st = Some st"
| "client_run (f # fs) st = Option.bind (client_step f st) (client_run fs)"

fun anthropic_run :: "stream_event list \<Rightarrow> anthropic_encoder \<Rightarrow> named_frame list \<times> anthropic_encoder" where
  "anthropic_run [] e = ([], e)"
| "anthropic_run (ev # evs) e =
     (let (fs, e1) = anthropic_encode ev e; (gs, e2) = anthropic_run evs e1 in (fs @ gs, e2))"

definition anthropic_stream :: "encoder_ctx \<Rightarrow> stream_event list \<Rightarrow> named_frame list" where
  "anthropic_stream ctx evs =
     (let (fs, e) = anthropic_run evs (anthropic_encoder_new ctx) in fs @ fst (anthropic_finalize e))"

text \<open>
  Streams whose tool calls are not interleaved: the arguments of a call come while it is the last thing begun, and text
  does not follow a call directly.
\<close>

datatype last_begun = Nothing | Words | Thoughts | Call nat

fun in_sequence :: "last_begun \<Rightarrow> stream_event list \<Rightarrow> bool" where
  "in_sequence k [] \<longleftrightarrow> True"
| "in_sequence k (TextDelta _ # evs) \<longleftrightarrow> (\<forall>i. k \<noteq> Call i) \<and> in_sequence Words evs"
| "in_sequence k (RefusalDelta _ # evs) \<longleftrightarrow> (\<forall>i. k \<noteq> Call i) \<and> in_sequence Words evs"
| "in_sequence k (ThinkingDelta _ _ # evs) \<longleftrightarrow> in_sequence Thoughts evs"
| "in_sequence k (ToolCallStart i _ _ _ # evs) \<longleftrightarrow> in_sequence (Call i) evs"
| "in_sequence k (ToolCallArgsDelta i _ # evs) \<longleftrightarrow> k = Call i \<and> in_sequence k evs"
| "in_sequence k (_ # evs) \<longleftrightarrow> in_sequence k evs"

lemma client_run_append: "client_run (fs @ gs) st = Option.bind (client_run fs st) (client_run gs)"
  by (induction fs arbitrary: st) (auto split: bind_split)

text \<open>What is open in the encoder, and where its client is.\<close>

definition follows :: "last_begun \<Rightarrow> anthropic_encoder \<Rightarrow> client_state \<Rightarrow> bool" where
  "follows k e st \<longleftrightarrow> \<not> an_stop_reason_sent e \<and>
     (if \<not> an_started e then st = Unstarted \<and> k = Nothing \<and> an_open_block e = None \<and> an_next_index e = 0
      else case an_open_block e of
             None \<Rightarrow> k = Nothing \<and> st = Between (an_next_index e)
           | Some (i, b) \<Rightarrow> an_next_index e = Suc i \<and>
               (case k of
                  Nothing \<Rightarrow> False
                | Words \<Rightarrow> b = TextBlock \<and> st = In_Block i ''text''
                | Thoughts \<Rightarrow> b = ThinkingBlock \<and> st = In_Block i ''thinking''
                | Call j \<Rightarrow> b = TextBlock \<and> st = In_Block i ''tool_use'' \<and> map_option fst (an_tool_blocks e j) = Some i))"

lemmas frame_defs = client_step_def frame_index_def get_path_str_def block_start_frame_def block_stop_frame_def
  block_delta_frame_def delta_fits_def is_some_and_def

lemma start_follows:
  assumes "follows k e st" "emit_start e = (fs, e1)"
  shows "\<exists>st1. client_run fs st = Some st1 \<and> follows k e1 st1 \<and> an_started e1 \<and> an_tool_blocks e1 = an_tool_blocks e"
  using assms by (auto simp: emit_start_def follows_def message_start_frame_def client_step_def split: if_splits)

lemma stop_accepted: "client_step (block_stop_frame i) (In_Block i b) = Some (Between (Suc i))"
  by (simp add: client_step_def block_stop_frame_def frame_index_def)

lemma close_follows:
  assumes "follows k e st" "an_started e" "close_open_block e = (fs, e')"
  shows "client_run fs st = Some (Between (an_next_index e)) \<and> \<not> an_stop_reason_sent e'"
proof (cases "an_open_block e")
  case (Some x)
  then show ?thesis using assms stop_accepted
    by (cases x) (auto simp: follows_def close_open_block_def split: last_begun.splits)
qed (use assms in \<open>auto simp: follows_def close_open_block_def\<close>)

lemma start_accepted:
  "map_of fs ''type'' = Some (JString t) \<Longrightarrow> client_step (block_start_frame n (JObject fs)) (Between n) = Some (In_Block n t)"
  by (simp add: client_step_def block_start_frame_def frame_index_def get_path_str_def)

lemma open_new_follows:
  assumes "follows k e st" "an_started e" "open_new_block (JObject fs) b e = (gs, i, e1)" "map_of fs ''type'' = Some (JString t)"
  shows "client_run gs st = Some (In_Block i t) \<and> an_open_block e1 = Some (i, b) \<and> an_next_index e1 = Suc i \<and> an_started e1
     \<and> \<not> an_stop_reason_sent e1"
proof -
  obtain c e0 where c: "close_open_block e = (c, e0)" using prod.exhaust by blast
  have "an_next_index e0 = an_next_index e" "an_started e0" using c assms(2) by (auto simp: close_open_block_def split: option.splits)
  then show ?thesis
    using assms(3,4) close_follows [OF assms(1,2) c] by (auto simp: open_new_block_def c Let_def client_run_append start_accepted)
qed

lemma text_open_follows:
  assumes "follows k e st" "an_started e" "\<forall>i. k \<noteq> Call i" "open_text_block e = (fs, e1)"
  shows "\<exists>i. client_run fs st = Some (In_Block i ''text'') \<and> follows Words e1 (In_Block i ''text'') \<and> open_index e1 = i"
proof (cases "an_open_block e")
  case None
  obtain i where i: "open_new_block (JObject [(''type'', JString ''text''), (''text'', JString [])]) TextBlock e = (fs, i, e1)"
    using assms(4) None by (auto simp: open_text_block_def split: prod.splits)
  show ?thesis using open_new_follows [OF assms(1,2) i] by (auto simp: follows_def open_index_def unwrap_or_def)
next
  case (Some x)
  obtain i b where x: "x = (i, b)" using prod.exhaust by blast
  show ?thesis
  proof (cases b)
    case TextBlock
    then have "fs = []" "e1 = e" "k = Words" "st = In_Block i ''text''" using assms Some x
      by (auto simp: open_text_block_def follows_def split: last_begun.splits)
    then show ?thesis using assms(1) Some x by (simp add: open_index_def unwrap_or_def)
  next
    case ThinkingBlock
    obtain j where i: "open_new_block (JObject [(''type'', JString ''text''), (''text'', JString [])]) TextBlock e = (fs, j, e1)"
      using assms(4) Some x ThinkingBlock by (auto simp: open_text_block_def split: prod.splits)
    show ?thesis using open_new_follows [OF assms(1,2) i] by (auto simp: follows_def open_index_def unwrap_or_def)
  qed
qed

lemma thinking_open_follows:
  assumes "follows k e st" "an_started e" "open_thinking_block e = (fs, e1)"
  shows "\<exists>i. client_run fs st = Some (In_Block i ''thinking'') \<and> follows Thoughts e1 (In_Block i ''thinking'') \<and> open_index e1 = i"
proof (cases "\<exists>i. an_open_block e = Some (i, ThinkingBlock)")
  case True
  then obtain i where o: "an_open_block e = Some (i, ThinkingBlock)" by blast
  then have "fs = []" "e1 = e" "k = Thoughts" "st = In_Block i ''thinking''" using assms
    by (auto simp: open_thinking_block_def follows_def split: last_begun.splits)
  then show ?thesis using assms(1) o by (simp add: open_index_def unwrap_or_def)
next
  case False
  obtain j where j: "open_new_block (JObject [(''type'', JString ''thinking''), (''thinking'', JString []), (''signature'', JString [])])
      ThinkingBlock e = (fs, j, e1)"
    using assms(3) False by (auto simp: open_thinking_block_def split: prod.splits option.splits block_state.splits)
  show ?thesis using open_new_follows [OF assms(1,2) j] by (auto simp: follows_def open_index_def unwrap_or_def)
qed

lemma tool_open_follows:
  assumes "follows k e st" "an_started e" "open_tool_block index i name e = (fs, e1)"
  shows "\<exists>st1. client_run fs st = Some st1 \<and> follows (Call index) e1 st1"
proof -
  obtain b e2 where o: "open_new_block (JObject [(''type'', JString ''tool_use''), (''id'', JString i), (''name'', JString name),
             (''input'', JObject [])]) TextBlock e = (fs, b, e2)" and e1: "e1 = e2\<lparr>an_tool_blocks := (an_tool_blocks e2)(index \<mapsto> (b, i, name))\<rparr>"
    using assms(3) by (auto simp: open_tool_block_def split: prod.splits)
  show ?thesis using open_new_follows [OF assms(1,2) o] e1 by (auto simp: follows_def)
qed

lemma delta_accepted: "delta_fits b d \<Longrightarrow> client_step (block_delta_frame i ((''type'', JString d) # fs)) (In_Block i b) = Some (In_Block i b)"
  by (simp add: client_step_def block_delta_frame_def frame_index_def get_path_str_def is_some_and_def)

lemma fits [simp]:
  "delta_fits ''text'' ''text_delta''" "delta_fits ''thinking'' ''thinking_delta''" "delta_fits ''thinking'' ''signature_delta''"
  "delta_fits ''tool_use'' ''input_json_delta''"
  by (simp_all add: delta_fits_def)

lemma encode_text_follows:
  assumes "follows k e st" "\<forall>i. k \<noteq> Call i" "encode_text t e = (fs, e')"
  shows "\<exists>st'. client_run fs st = Some st' \<and> follows Words e' st'"
proof -
  obtain s e1 where s: "emit_start e = (s, e1)" using prod.exhaust by blast
  obtain b e2 where b: "open_text_block e1 = (b, e2)" using prod.exhaust by blast
  obtain st1 where st1: "client_run s st = Some st1" "follows k e1 st1" "an_started e1" using start_follows [OF assms(1) s] by blast
  obtain i where i: "client_run b st1 = Some (In_Block i ''text'')" "follows Words e2 (In_Block i ''text'')" "open_index e2 = i"
    using text_open_follows [OF st1(2,3) assms(2) b] by blast
  then show ?thesis using assms(3) st1(1) by (auto simp: encode_text_def s b client_run_append delta_accepted)
qed

lemma call_follows:
  assumes "follows k e st" "anthropic_encode (ToolCallStart index i name sig) e = (fs, e')"
  shows "\<exists>st'. client_run fs st = Some st' \<and> follows (Call index) e' st'"
proof -
  obtain s e1 where s: "emit_start e = (s, e1)" using prod.exhaust by blast
  obtain st1 where st1: "client_run s st = Some st1" "follows k e1 st1" "an_started e1" using start_follows [OF assms(1) s] by blast
  obtain b e2 where b: "open_tool_block index (unwrap_or i (''toolu_'' @ ec_request_id (an_ctx e) @ ''_'' @ show_nat index)) name e1 = (b, e2)"
    using prod.exhaust by blast
  then have "fs = s @ b" "e' = e2" using assms(2) s by auto
  then show ?thesis using tool_open_follows [OF st1(2,3) b] st1(1) by (auto simp: client_run_append)
qed

lemma follows_other:
  "follows k (e\<lparr>an_usage := u\<rparr>) st = follows k e st" "follows k (e\<lparr>an_finish := f\<rparr>) st = follows k e st"
  by (cases "an_open_block e"; cases k; simp add: follows_def case_prod_beta)+

lemma encode_follows:
  assumes "follows k e st" "in_sequence k (ev # evs)" "anthropic_encode ev e = (fs, e')"
  shows "\<exists>k' st'. client_run fs st = Some st' \<and> follows k' e' st' \<and> in_sequence k' evs"
proof (cases ev)
  case (Start x)
  then show ?thesis using assms start_follows [OF assms(1)] by auto
next
  case (TextDelta t)
  then have "\<forall>i. k \<noteq> Call i" "encode_text t e = (fs, e')" "in_sequence Words evs" using assms by auto
  then show ?thesis using encode_text_follows [OF assms(1)] by blast
next
  case (RefusalDelta t)
  then have "\<forall>i. k \<noteq> Call i" "encode_text t e = (fs, e')" "in_sequence Words evs" using assms by auto
  then show ?thesis using encode_text_follows [OF assms(1)] by blast
next
  case (ThinkingDelta t sig)
  obtain s e1 where s: "emit_start e = (s, e1)" using prod.exhaust by blast
  obtain b e2 where b: "open_thinking_block e1 = (b, e2)" using prod.exhaust by blast
  obtain st1 where st1: "client_run s st = Some st1" "follows k e1 st1" "an_started e1" using start_follows [OF assms(1) s] by blast
  obtain i where i: "client_run b st1 = Some (In_Block i ''thinking'')" "follows Thoughts e2 (In_Block i ''thinking'')" "open_index e2 = i"
    using thinking_open_follows [OF st1(2,3) b] by blast
  have "client_run fs st = Some (In_Block i ''thinking'')" "e' = e2"
    using assms(3) ThinkingDelta st1(1) i by (auto simp: s b client_run_append delta_accepted Let_def split: option.split)
  then show ?thesis using i(2) assms(2) ThinkingDelta by auto
next
  case (ToolCallStart index i name sig)
  then have "anthropic_encode (ToolCallStart index i name sig) e = (fs, e')" "in_sequence (Call index) evs"
    using assms(2,3) by simp_all
  then show ?thesis using call_follows [OF assms(1)] by blast
next
  case (ToolCallArgsDelta index args)
  then have k: "k = Call index" using assms(2) by simp
  then obtain i where "st = In_Block i ''tool_use''" "map_option fst (an_tool_blocks e index) = Some i"
    using assms(1) by (auto simp: follows_def split: if_splits option.splits)
  then show ?thesis
    using assms ToolCallArgsDelta by (auto simp: opt_or_def unwrap_or_def delta_accepted)
next
  case (Usage u)
  then have "fs = []" "e' = e\<lparr>an_usage := merge_usage (an_usage e) u\<rparr>" "in_sequence k evs" using assms by auto
  then show ?thesis using assms(1) follows_other by auto
next
  case (Finish f)
  then have "fs = []" "e' = e\<lparr>an_finish := Some f\<rparr>" "in_sequence k evs" using assms by auto
  then show ?thesis using assms(1) follows_other by auto
qed

lemma run_follows:
  "follows k e st \<Longrightarrow> in_sequence k evs \<Longrightarrow> anthropic_run evs e = (fs, e') \<Longrightarrow>
   \<exists>k' st'. client_run fs st = Some st' \<and> follows k' e' st'"
proof (induction evs arbitrary: k e st fs)
  case (Cons ev evs)
  obtain gs e1 where g: "anthropic_encode ev e = (gs, e1)" using prod.exhaust by blast
  obtain hs e2 where h: "anthropic_run evs e1 = (hs, e2)" using prod.exhaust by blast
  have fs: "fs = gs @ hs" "e' = e2" using Cons.prems(3) g h by auto
  obtain k1 st1 where 1: "client_run gs st = Some st1" "follows k1 e1 st1" "in_sequence k1 evs"
    using encode_follows [OF Cons.prems(1,2) g] by blast
  show ?case using Cons.IH [OF 1(2,3)] h fs 1(1) by (auto simp: client_run_append)
qed auto

lemma finalize_follows:
  assumes "follows k e st" "anthropic_finalize e = (fs, e')"
  shows "client_run fs st = Some Ended"
proof -
  obtain s e1 where s: "emit_start e = (s, e1)" using prod.exhaust by blast
  obtain st1 where st1: "client_run s st = Some st1" "follows k e1 st1" "an_started e1" using start_follows [OF assms(1) s] by blast
  obtain c e2 where c: "close_open_block e1 = (c, e2)" using prod.exhaust by blast
  have "client_run c st1 = Some (Between (an_next_index e1))" "\<not> an_stop_reason_sent e2"
    using close_follows [OF st1(2,3) c] by simp_all
  then show ?thesis
    using assms(2) st1(1) by (auto simp: anthropic_finalize_def s c Let_def client_run_append client_step_def)
qed

text \<open>
  C13. The stream of the Anthropic encoder follows the protocol. For every sequence of events in which the arguments of a
  tool call come while the call is the last thing begun and text does not directly follow a call, the client accepts every
  frame and ends after \<open>message_stop\<close>: one start, blocks numbered from 0 and never overlapping, each with deltas of its
  own type only.
\<close>
theorem anthropic_stream_wellformed:
  assumes "in_sequence Nothing evs"
  shows "client_run (anthropic_stream ctx evs) Unstarted = Some Ended"
proof -
  have init: "follows Nothing (anthropic_encoder_new ctx) Unstarted" by (simp add: follows_def anthropic_encoder_new_def)
  obtain fs e where r: "anthropic_run evs (anthropic_encoder_new ctx) = (fs, e)" using prod.exhaust by blast
  obtain gs e' where g: "anthropic_finalize e = (gs, e')" using prod.exhaust by blast
  obtain k st where "client_run fs Unstarted = Some st" "follows k e st" using run_follows [OF init assms r] by blast
  then show ?thesis using finalize_follows [OF _ g] by (auto simp: anthropic_stream_def r g client_run_append)
qed

theorem anthropic_stream_wellformed_witness:
  "\<exists>ctx. client_run (anthropic_stream ctx [Start None, ThinkingDelta ''t'' (Some ''s''), TextDelta ''a'',
      ToolCallStart 0 (Some ''c'') ''f'' None, ToolCallArgsDelta 0 ''{}'', Usage usage_default, stream_event.Finish ToolCalls])
      Unstarted = Some Ended"
  using anthropic_stream_wellformed [of "[Start None, ThinkingDelta ''t'' (Some ''s''), TextDelta ''a'',
      ToolCallStart 0 (Some ''c'') ''f'' None, ToolCallArgsDelta 0 ''{}'', Usage usage_default, stream_event.Finish ToolCalls]"]
  by auto

lemma in_sequence_prefix: "in_sequence k (xs @ ys) \<Longrightarrow> in_sequence k xs"
  by (induction k xs rule: in_sequence.induct) auto

lemma anthropic_run_append:
  "anthropic_run (xs @ ys) e = (let (fs, e1) = anthropic_run xs e; (gs, e2) = anthropic_run ys e1 in (fs @ gs, e2))"
  by (induction xs arbitrary: e) (auto simp: Let_def split: prod.splits)

lemma text_rejected:
  assumes "follows (Call index) e st"
  shows "client_run (fst (encode_text t e)) st = None"
proof -
  obtain i where o: "an_started e" "an_open_block e = Some (i, TextBlock)" "st = In_Block i ''tool_use''"
    using assms by (auto simp: follows_def split: if_splits option.splits)
  have "client_step (block_delta_frame i [(''type'', JString ''text_delta''), (''text'', JString t)]) (In_Block i ''tool_use'') = None"
    by (simp add: frame_defs)
  then show ?thesis using o
    by (simp add: encode_text_def emit_start_def open_text_block_def open_index_def unwrap_or_def)
qed

text \<open>
  C34. Text right after a tool call goes into the call's block. The encoder remembers the block of a tool call as a text
  block, so a text delta that follows a call, at any point of a stream that was in sequence so far, is sent to that block
  and a client that follows the protocol rejects the stream.
\<close>
theorem text_after_tool_misplaced:
  assumes "in_sequence Nothing (evs @ [ToolCallStart index i name sig])"
  shows "client_run (anthropic_stream ctx (evs @ [ToolCallStart index i name sig, TextDelta t])) Unstarted = None"
proof -
  have init: "follows Nothing (anthropic_encoder_new ctx) Unstarted" by (simp add: follows_def anthropic_encoder_new_def)
  obtain fs e where r: "anthropic_run evs (anthropic_encoder_new ctx) = (fs, e)" using prod.exhaust by blast
  obtain gs e1 where g: "anthropic_encode (ToolCallStart index i name sig) e = (gs, e1)" using prod.exhaust by blast
  obtain k st where st: "client_run fs Unstarted = Some st" "follows k e st"
    using run_follows [OF init in_sequence_prefix [OF assms] r] by blast
  obtain st1 where st1: "client_run gs st = Some st1" "follows (Call index) e1 st1"
    using call_follows [OF st(2) g] by blast
  have "client_run (fst (encode_text t e1)) st1 = None" using st1(2) by (rule text_rejected)
  moreover have "anthropic_run (evs @ [ToolCallStart index i name sig, TextDelta t]) (anthropic_encoder_new ctx) =
      (fs @ gs @ fst (encode_text t e1), snd (encode_text t e1))"
    using g by (simp add: anthropic_run_append r split: prod.split)
  ultimately show ?thesis
    using st(1) st1(1) by (simp add: anthropic_stream_def client_run_append)
qed

theorem text_after_tool_misplaced_witness:
  "\<exists>ctx. client_run (anthropic_stream ctx [TextDelta ''a'', ToolCallStart 0 None ''f'' None, TextDelta ''b'']) Unstarted = None"
  using text_after_tool_misplaced [of "[TextDelta ''a'']" 0 None "''f''" None _ "''b''"] by auto

end
