(* ===== verification/Upstream_Response.thy ===== *)
theory Upstream_Response
  imports Request_Checks Sse Outbound Opaque_State
begin

text \<open>
  The exchange with one upstream (\<^verbatim>\<open>src/src/pipeline.rs\<close>): the adapter interface, the body of the request, the send,
  and the validation of a successful response before anything is committed to the client. An adapter is the record of
  its operations; the body of a response is the list of its chunks, an error being the last it yields.
\<close>

section \<open>Adapters\<close>

record upstream_context =
  uc_provider :: provider_row
  uc_model :: model_row
  uc_account_id :: "string option"
  uc_credential :: string

type_synonym headers = "(string \<times> string option) list"

record adapter =
  ad_wire_format :: string
  ad_build_url :: "upstream_context \<Rightarrow> proxy_error + string"
  ad_handles_thinking_translation :: bool
  ad_supports_count_tokens :: bool
  ad_count_tokens_url :: "upstream_context \<Rightarrow> proxy_error + string option"
  ad_apply_auth :: "upstream_context \<Rightarrow> url \<Rightarrow> upstream_failure + (string \<times> string) list"
  ad_build_body :: "upstream_context \<Rightarrow> internal_request \<Rightarrow> upstream_failure + json"
  ad_normalize_passthrough_body :: "upstream_context \<Rightarrow> internal_request \<Rightarrow> json \<Rightarrow> upstream_failure + json"
  ad_classify_error :: "nat \<Rightarrow> string \<Rightarrow> headers \<Rightarrow> upstream_failure"
  ad_parse_stream_chunk :: "string \<Rightarrow> upstream_failure + stream_event list"
  ad_parse_full_response :: "json \<Rightarrow> upstream_failure + stream_event list"
  ad_opaque_state_target :: "model_row \<Rightarrow> opaque_state_target option"
  ad_opaque_state_placeholder :: "model_row \<Rightarrow> string option"

text \<open>A header that is absent or not text reads as none; the first value counts.\<close>

definition header_text :: "headers \<Rightarrow> string \<Rightarrow> string option" where
  "header_text hs name = Option.bind (map_of hs name) (\<lambda>v. v)"

section \<open>Request\<close>

definition build_upstream_body ::
  "codec \<Rightarrow> adapter \<Rightarrow> upstream_context \<Rightarrow> internal_request \<Rightarrow> bool \<Rightarrow> upstream_failure + json" where
  "build_upstream_body cd ad ctx req use_passthrough =
     (if \<not> use_passthrough then ad_build_body ad ctx req
      else let raw = unwrap_or (rq_raw_body req) ''{}'';
               rewritten = (if ad_wire_format ad = ''openai-responses''
                            then rewrite_responses_model cd raw (md_upstream_id (uc_model ctx)) (\<not> rq_stream req)
                            else rewrite_model cd raw (md_upstream_id (uc_model ctx)) (\<not> rq_stream req) True
                                   (provider_wire (uc_provider ctx)))
           in case rewritten of
                None \<Rightarrow> ad_build_body ad ctx req
              | Some text \<Rightarrow> ad_normalize_passthrough_body ad ctx req (unwrap_or (de_value cd text) JNull))"

definition failure_of :: "failure_kind \<Rightarrow> nat option \<Rightarrow> string \<Rightarrow> upstream_failure" where
  "failure_of kind status msg = \<lparr>uf_kind = kind, uf_status = status, uf_retry_after_secs = None, uf_message = msg,
     uf_quota_reset_at = None\<rparr>"

definition outbound_failure :: "outbound_error \<Rightarrow> upstream_failure" where
  "outbound_failure e =
     (case oe_adapter_failure e of
        Some f \<Rightarrow> f
      | None \<Rightarrow> failure_of (if oe_timeout e then Timeout else ConnectionError) None (oe_message e))"

text \<open>The settings of the process and the libraries behind a send.\<close>

record send_config =
  sc_codec :: codec
  sc_allow_private_upstreams :: bool
  sc_allow_insecure_tls :: bool
  sc_parse_url :: "string \<Rightarrow> string + url"
  sc_join_url :: "url \<Rightarrow> string \<Rightarrow> string + url"

definition send_lib :: "send_config \<Rightarrow> adapter \<Rightarrow> upstream_context \<Rightarrow> outbound_lib" where
  "send_lib sc ad ctx = \<lparr>ol_codec = sc_codec sc, ol_join = sc_join_url sc, ol_auth = ad_apply_auth ad ctx\<rparr>"

definition upstream_request :: "adapter \<Rightarrow> url \<Rightarrow> json \<Rightarrow> string \<Rightarrow> (string \<times> string) list \<Rightarrow> provider_request" where
  "upstream_request ad u body request_id protocol_headers =
     \<lparr>pq_method = POST, pq_url = u, pq_json_body = Some body, pq_accept_event_stream = True,
      pq_request_id = Some request_id,
      pq_headers = (if ad_wire_format ad = ''anthropic'' then protocol_headers else [])\<rparr>"

type_synonym outbound_state = "client_cache \<times> sent_request list"

definition send_upstream ::
  "send_config \<Rightarrow> (nat \<Rightarrow> nat \<Rightarrow> outbound_env) \<Rightarrow> adapter \<Rightarrow> upstream_context \<Rightarrow> internal_request \<Rightarrow> bool \<Rightarrow> string
    \<Rightarrow> (string \<times> string) list \<Rightarrow> outbound_state \<Rightarrow> (upstream_failure + response) \<times> outbound_state" where
  "send_upstream sc env ad ctx req use_passthrough request_id protocol_headers s =
     (case ad_build_url ad ctx of
        Inl e \<Rightarrow> (Inl (failure_of BadRequest None (pe_message e)), s)
      | Inr text \<Rightarrow>
          (case sc_parse_url sc text of
             Inl e \<Rightarrow> (Inl (failure_of BadRequest None (''invalid upstream URL: '' @ e)), s)
           | Inr u \<Rightarrow>
               (case build_upstream_body (sc_codec sc) ad ctx req use_passthrough of
                  Inl f \<Rightarrow> (Inl f, s)
                | Inr body \<Rightarrow>
                    (case send_provider_request (send_lib sc ad ctx) env (sc_allow_private_upstreams sc)
                            (sc_allow_insecure_tls sc) (uc_provider ctx)
                            (upstream_request ad u body request_id protocol_headers) s of
                       (Inl e, s') \<Rightarrow> (Inl (outbound_failure e), s')
                     | (Inr r, s') \<Rightarrow> (Inr r, s')))))"

section \<open>Validation of a successful response\<close>

definition MAX_FULL_RESPONSE_BYTES :: nat where [const_defs]: "MAX_FULL_RESPONSE_BYTES = 8 * 1024 * 1024"

type_synonym body = "(transport_error + string) list"

record prepared_upstream =
  pr_stream :: "body option"
  pr_prefetched :: "string list"
  pr_full_events :: "stream_event list option"
  pr_precommit_usage :: token_usage
  pr_is_sse :: bool

definition classify_reqwest :: "transport_error \<Rightarrow> string" where
  "classify_reqwest e =
     (if te_is_timeout e then ''timeout'' else if te_is_connect e then ''connect error'' else redact (te_text e))"

definition body_failure :: "nat option \<Rightarrow> transport_error \<Rightarrow> upstream_failure" where
  "body_failure status e = failure_of (if te_is_timeout e then Timeout else ConnectionError) status (classify_reqwest e)"

definition payload_error_failure :: "codec \<Rightarrow> adapter \<Rightarrow> string \<Rightarrow> upstream_failure option" where
  "payload_error_failure cd ad text =
     (case de_value cd text of
        None \<Rightarrow> None
      | Some v \<Rightarrow>
          if json_get v ''error'' \<noteq> None \<or> Option.bind (json_get v ''type'') as_str = Some ''error''
          then Some (ad_classify_error ad 502 text [])
          else None)"

definition merge_usages :: "stream_event list \<Rightarrow> token_usage \<Rightarrow> token_usage" where
  "merge_usages events u = fold (\<lambda>e u. case e of Usage v \<Rightarrow> merge_usage u v | _ \<Rightarrow> u) events u"

text \<open>The frames of one chunk: the usage seen, and whether a model event was among them.\<close>

fun prepare_frames ::
  "codec \<Rightarrow> adapter \<Rightarrow> string list \<Rightarrow> token_usage \<Rightarrow> upstream_failure + token_usage \<times> bool" where
  "prepare_frames cd ad [] u = Inr (u, False)"
| "prepare_frames cd ad (frame # frames) u =
     (case extract_data frame of
        None \<Rightarrow> prepare_frames cd ad frames u
      | Some data \<Rightarrow>
          (case payload_error_failure cd ad data of
             Some f \<Rightarrow> Inl f
           | None \<Rightarrow>
               if trim data = ''[DONE]''
               then Inl (failure_of ServerError (Some 502) ''upstream SSE ended before any model event'')
               else (case ad_parse_stream_chunk ad data of
                       Inl f \<Rightarrow> Inl f
                     | Inr events \<Rightarrow>
                         let u' = merge_usages events u
                         in if list_ex is_semantic_event events then Inr (u', True)
                            else prepare_frames cd ad frames u')))"

fun prepare_stream ::
  "codec \<Rightarrow> adapter \<Rightarrow> sse_framer \<Rightarrow> string list \<Rightarrow> token_usage \<Rightarrow> body \<Rightarrow> upstream_failure + prepared_upstream" where
  "prepare_stream cd ad f prefetched u [] =
     Inl (failure_of ServerError (Some 502)
       (if pending_bytes f > 0 then ''upstream SSE ended with an incomplete frame''
        else ''upstream SSE ended before any model event''))"
| "prepare_stream cd ad f prefetched u (Inl e # rest) = Inl (body_failure None e)"
| "prepare_stream cd ad f prefetched u (Inr bytes # rest) =
     (case push f bytes of
        (f', Inl e) \<Rightarrow> Inl (failure_of ServerError (Some 502) (frame_error_display e))
      | (f', Inr frames) \<Rightarrow>
          (case prepare_frames cd ad frames u of
             Inl failure \<Rightarrow> Inl failure
           | Inr (u', True) \<Rightarrow>
               Inr \<lparr>pr_stream = Some rest, pr_prefetched = prefetched @ [bytes], pr_full_events = None,
                    pr_precommit_usage = u', pr_is_sse = True\<rparr>
           | Inr (u', False) \<Rightarrow> prepare_stream cd ad f' (prefetched @ [bytes]) u' rest))"

fun collect_body :: "body \<Rightarrow> transport_error + string" where
  "collect_body [] = Inr []"
| "collect_body (Inl e # rest) = Inl e"
| "collect_body (Inr bytes # rest) = (case collect_body rest of Inl e \<Rightarrow> Inl e | Inr tl_bytes \<Rightarrow> Inr (bytes @ tl_bytes))"

definition is_event_stream :: "headers \<Rightarrow> bool" where
  "is_event_stream hs \<longleftrightarrow>
     trim (takeWhile (\<lambda>c. c \<noteq> CHR '';'') (to_ascii_lowercase (unwrap_or (header_text hs ''content-type'') [])))
       = ''text/event-stream''"

definition too_large :: upstream_failure where
  "too_large = failure_of ServerError (Some 502) ''upstream JSON response exceeds size limit''"

text \<open>\<open>json_error\<close>: the parser's message about a text that is no JSON.\<close>

definition prepare_full ::
  "codec \<Rightarrow> (string \<Rightarrow> string) \<Rightarrow> adapter \<Rightarrow> nat option \<Rightarrow> body \<Rightarrow> upstream_failure + prepared_upstream" where
  "prepare_full cd json_error ad content_length body =
     (if is_some_and (\<lambda>n. n > MAX_FULL_RESPONSE_BYTES) content_length then Inl too_large
      else case collect_body body of
             Inl e \<Rightarrow> Inl (body_failure None e)
           | Inr bytes \<Rightarrow>
               if length bytes > MAX_FULL_RESPONSE_BYTES then Inl too_large
               else (case payload_error_failure cd ad (utf8_lossy bytes) of
                       Some f \<Rightarrow> Inl f
                     | None \<Rightarrow>
                         (case de_value cd bytes of
                            None \<Rightarrow> Inl (failure_of ServerError (Some 502)
                                      (''invalid upstream JSON response: '' @ json_error bytes))
                          | Some v \<Rightarrow>
                              (case ad_parse_full_response ad v of
                                 Inl f \<Rightarrow> Inl f
                               | Inr events \<Rightarrow>
                                   if \<not> list_ex is_semantic_event events
                                   then Inl (failure_of ServerError (Some 502)
                                          ''upstream JSON response contained no model result'')
                                   else Inr \<lparr>pr_stream = None, pr_prefetched = [], pr_full_events = Some events,
                                             pr_precommit_usage = merge_usages events usage_default,
                                             pr_is_sse = False\<rparr>))))"

definition prepare_success_response ::
  "codec \<Rightarrow> (string \<Rightarrow> string) \<Rightarrow> adapter \<Rightarrow> headers \<Rightarrow> nat option \<Rightarrow> body \<Rightarrow> upstream_failure + prepared_upstream" where
  "prepare_success_response cd json_error ad hs content_length body =
     (if is_event_stream hs then prepare_stream cd ad framer_default [] usage_default body
      else prepare_full cd json_error ad content_length body)"

definition extract_upstream_request_id :: "headers \<Rightarrow> string option" where
  "extract_upstream_request_id hs =
     Option.bind (opt_or (map_of hs ''x-request-id'') (map_of hs ''request-id'')) (\<lambda>v. v)"

section \<open>Lemmas\<close>

text \<open>
  A frame the validation reads as model events, and a frame it passes over: comments, starts and usage reports.
\<close>

definition model_frame :: "codec \<Rightarrow> adapter \<Rightarrow> string \<Rightarrow> stream_event list \<Rightarrow> bool" where
  "model_frame cd ad frame events \<longleftrightarrow>
     (\<exists>data. extract_data frame = Some data \<and> payload_error_failure cd ad data = None \<and> trim data \<noteq> ''[DONE]'' \<and>
        ad_parse_stream_chunk ad data = Inr events)"

definition quiet_frame :: "codec \<Rightarrow> adapter \<Rightarrow> string \<Rightarrow> bool" where
  "quiet_frame cd ad frame \<longleftrightarrow>
     extract_data frame = None \<or> (\<exists>events. model_frame cd ad frame events \<and> \<not> list_ex is_semantic_event events)"

definition frames_reach_model :: "codec \<Rightarrow> adapter \<Rightarrow> string list \<Rightarrow> bool" where
  "frames_reach_model cd ad frames \<longleftrightarrow>
     (\<exists>pre frame post events. frames = pre @ frame # post \<and> (\<forall>q \<in> set pre. quiet_frame cd ad q) \<and>
        model_frame cd ad frame events \<and> list_ex is_semantic_event events)"

lemma frames_reach_model_Cons:
  "quiet_frame cd ad q \<Longrightarrow> frames_reach_model cd ad frames \<Longrightarrow> frames_reach_model cd ad (q # frames)"
  unfolding frames_reach_model_def by (metis append_Cons set_ConsD)

lemma frames_reach_model_append:
  "\<forall>q \<in> set pre. quiet_frame cd ad q \<Longrightarrow> frames_reach_model cd ad frames \<Longrightarrow> frames_reach_model cd ad (pre @ frames)"
  by (induction pre) (simp_all add: frames_reach_model_Cons)

lemma prepare_frames_sound:
  "prepare_frames cd ad frames u = Inr (u', found) \<Longrightarrow>
   (if found then frames_reach_model cd ad frames else \<forall>q \<in> set frames. quiet_frame cd ad q)"
proof (induction frames arbitrary: u)
  case (Cons frame frames)
  show ?case
  proof (cases "extract_data frame")
    case None
    then have "quiet_frame cd ad frame" by (simp add: quiet_frame_def)
    then show ?thesis using Cons None by (auto simp: frames_reach_model_Cons split: if_splits)
  next
    case (Some data)
    then obtain events where e: "payload_error_failure cd ad data = None" "trim data \<noteq> ''[DONE]''"
        "ad_parse_stream_chunk ad data = Inr events"
      using Cons.prems by (auto split: option.splits sum.splits if_splits)
    then have m: "model_frame cd ad frame events" using Some by (auto simp: model_frame_def)
    show ?thesis
    proof (cases "list_ex is_semantic_event events")
      case True
      then have "frames_reach_model cd ad (frame # frames)"
        unfolding frames_reach_model_def using m True
        by - (rule exI [of _ "[]"], rule exI [of _ frame], rule exI [of _ frames], rule exI [of _ events], simp)
      then show ?thesis using Cons.prems Some e True by (auto simp: Let_def)
    next
      case False
      then have "quiet_frame cd ad frame" using m by (auto simp: quiet_frame_def)
      then show ?thesis using Cons Some e False by (auto simp: Let_def frames_reach_model_Cons split: if_splits)
    qed
  qed
qed (auto split: if_splits)

lemma prepare_stream_sound:
  "prepare_stream cd ad f prefetched u body = Inr p \<Longrightarrow>
   \<exists>cs rest f' frames. pr_is_sse p \<and> pr_prefetched p = prefetched @ cs \<and> body = map Inr cs @ rest \<and>
     pr_stream p = Some rest \<and> push_all f cs = (f', Inr frames) \<and> frames_reach_model cd ad frames"
proof (induction cd ad f prefetched u body rule: prepare_stream.induct)
  case (3 cd ad f prefetched u bytes rest)
  obtain f1 frames where p: "push f bytes = (f1, Inr frames)"
    using "3.prems" by (auto split: prod.splits sum.splits)
  obtain u1 found where fr: "prepare_frames cd ad frames u = Inr (u1, found)"
    using "3.prems" p by (auto split: sum.splits prod.splits)
  show ?case
  proof (cases found)
    case True
    then have "frames_reach_model cd ad frames" using prepare_frames_sound [OF fr] by simp
    then show ?thesis using "3.prems" p fr True
      by (intro exI [of _ "[bytes]"]) (auto split: prod.splits)
  next
    case False
    then have q: "\<forall>q \<in> set frames. quiet_frame cd ad q" using prepare_frames_sound [OF fr] by simp
    have "prepare_stream cd ad f1 (prefetched @ [bytes]) u1 rest = Inr p" using "3.prems" p fr False by simp
    from "3.IH" [OF p [symmetric] refl fr refl _ this] obtain cs rest' f' frames' where
      h: "pr_is_sse p" "pr_prefetched p = (prefetched @ [bytes]) @ cs" "rest = map Inr cs @ rest'"
        "pr_stream p = Some rest'" "push_all f1 cs = (f', Inr frames')" "frames_reach_model cd ad frames'"
      using False by blast
    then show ?thesis using p frames_reach_model_append [OF q h(6)]
      by (intro exI [of _ "bytes # cs"]) auto
  qed
qed auto

text \<open>
  C17. Nothing reaches the client before the upstream has produced a model event, and nothing read to find it is lost:
  a response is accepted only when it carries such an event, preceded by nothing but comments, starts and usage
  reports. The chunks of a stream read up to then are kept, with the unread rest they make up the body, and a new
  framer reads the event from them again; a full response is at most eight megabytes.
\<close>

theorem commit_needs_model_event:
  assumes "prepare_success_response cd json_error ad hs content_length body = Inr p"
  shows "if pr_is_sse p
    then \<exists>rest f frames. body = map Inr (pr_prefetched p) @ rest \<and> pr_stream p = Some rest \<and>
       push_all framer_default (pr_prefetched p) = (f, Inr frames) \<and> frames_reach_model cd ad frames
    else \<exists>bytes v events. collect_body body = Inr bytes \<and> length bytes \<le> 8 * 1024 * 1024 \<and> de_value cd bytes = Some v \<and>
       ad_parse_full_response ad v = Inr events \<and> list_ex is_semantic_event events \<and> pr_full_events p = Some events \<and>
       pr_stream p = None \<and> pr_prefetched p = []"
proof (cases "is_event_stream hs")
  case True
  then have "prepare_stream cd ad framer_default [] usage_default body = Inr p"
    using assms by (simp add: prepare_success_response_def)
  from prepare_stream_sound [OF this] show ?thesis by auto
next
  case False
  then have "prepare_full cd json_error ad content_length body = Inr p"
    using assms by (simp add: prepare_success_response_def)
  then show ?thesis
    by (auto simp: prepare_full_def MAX_FULL_RESPONSE_BYTES_def split: if_splits sum.splits option.splits)
qed

definition demo_adapter :: adapter where
  "demo_adapter = \<lparr>ad_wire_format = ''openai'', ad_build_url = (\<lambda>_. Inr ''u''), ad_handles_thinking_translation = False,
     ad_supports_count_tokens = False, ad_count_tokens_url = (\<lambda>_. Inr None), ad_apply_auth = (\<lambda>_ _. Inr []),
     ad_build_body = (\<lambda>_ _. Inr JNull), ad_normalize_passthrough_body = (\<lambda>_ _ v. Inr v),
     ad_classify_error = (\<lambda>status _ _. failure_of ServerError (Some status) ''error''),
     ad_parse_stream_chunk = (\<lambda>d. Inr (if d = ''x'' then [TextDelta d] else [])),
     ad_parse_full_response = (\<lambda>_. Inr []), ad_opaque_state_target = (\<lambda>_. None),
     ad_opaque_state_placeholder = (\<lambda>_. None)\<rparr>"

lemma push_demo:
  "\<exists>f. push framer_default (''data: s'' @ [LF, LF] @ ''data: x'' @ [LF, LF]) = (f, Inr [''data: s'', ''data: x''])"
proof -
  let ?b = "''data: s'' @ [LF, LF] @ ''data: x'' @ [LF, LF]"
  have split: "split_raw ?b = ([''data: s'', ''data: x''], [])" "render [''data: s'', ''data: x''] = [''data: s'', ''data: x'']"
    by code_simp+
  have idle: "framer_idle framer_default" by (simp add: framer_default_def framer_idle_init)
  obtain f r where p: "push framer_default ?b = (f, r)" by (cases "push framer_default ?b")
  have "r = Inr [''data: s'', ''data: x'']"
    using push_spec [OF idle, of ?b] p split
    by (simp add: framer_default_def with_max_frame_bytes_def framer_spec_def DEFAULT_MAX_FRAME_BYTES_def split: sum.splits)
  with p show ?thesis by blast
qed

lemma prepare_demo:
  "prepare_frames (demo_codec\<lparr>de_value := (\<lambda>_. None)\<rparr>) demo_adapter [''data: s'', ''data: x''] usage_default
     = Inr (usage_default, True)"
proof -
  have d: "extract_data ''data: s'' = Some ''s''" "extract_data ''data: x'' = Some ''x''"
    "trim ''s'' \<noteq> ''[DONE]''" "trim ''x'' \<noteq> ''[DONE]''"
    by code_simp+
  show ?thesis by (simp add: d payload_error_failure_def demo_adapter_def merge_usages_def)
qed

theorem commit_needs_model_event_witness:
  "\<exists>p. prepare_success_response (demo_codec\<lparr>de_value := (\<lambda>_. None)\<rparr>) (\<lambda>_. []) demo_adapter
         [(''content-type'', Some ''Text/Event-Stream; charset=utf-8'')] None
         [Inr (''data: s'' @ [LF, LF] @ ''data: x'' @ [LF, LF]), Inr ''rest''] = Inr p \<and>
     length (pr_prefetched p) = 1 \<and> pr_stream p = Some [Inr ''rest'']"
proof -
  let ?body = "[Inr (''data: s'' @ [LF, LF] @ ''data: x'' @ [LF, LF]), Inr ''rest'']"
  let ?cd = "demo_codec\<lparr>de_value := (\<lambda>_. None)\<rparr>"
  let ?hs = "[(''content-type'', Some ''Text/Event-Stream; charset=utf-8'')]"
  have sse: "is_event_stream ?hs" by code_simp
  obtain f where f: "push framer_default (''data: s'' @ [LF, LF] @ ''data: x'' @ [LF, LF]) = (f, Inr [''data: s'', ''data: x''])"
    using push_demo by blast
  obtain p where p: "prepare_success_response ?cd (\<lambda>_. []) demo_adapter ?hs None ?body = Inr p"
    "pr_is_sse p" "length (pr_prefetched p) = 1"
    by (simp only: prepare_success_response_def sse if_True prepare_stream.simps f prepare_demo prod.case sum.case bool.case) simp
  from commit_needs_model_event [OF p(1)] p(2) obtain rest where
    "?body = map Inr (pr_prefetched p) @ rest" "pr_stream p = Some rest" by auto
  moreover from this(1) p(3) have "rest = drop 1 ?body"
    by (metis append_eq_conv_conj length_map)
  ultimately show ?thesis using p by auto
qed

end
