(* ===== verification/OpenAI_Adapter.thy ===== *)
theory OpenAI_Adapter
  imports OpenAI_Frontend Upstream_Response
begin

text \<open>
  The OpenAI Chat Completions adapter (\<^verbatim>\<open>src/src/adapters/openai.rs\<close>): the upstream body of an internal request, the
  classification of error responses, and the events of a response. As an instance of \<open>adapter\<close> it is what the attempt loop
  runs against.
\<close>

section \<open>The request body\<close>

fun text_of :: "part \<Rightarrow> string" where
  "text_of (Text t) = t"
| "text_of _ = []"

definition joined_text :: "part list \<Rightarrow> string" where
  "joined_text ps = concat (map text_of ps)"

fun openai_content_item :: "part \<Rightarrow> json option" where
  "openai_content_item (Text t) = Some (JObject [(''type'', JString ''text''), (''text'', JString t)])"
| "openai_content_item (Image (Base64 mime data)) =
     Some (JObject [(''type'', JString ''image_url''),
       (''image_url'', JObject [(''url'', JString (''data:'' @ mime @ '';base64,'' @ data))])])"
| "openai_content_item (Image (Url url)) =
     Some (JObject [(''type'', JString ''image_url''), (''image_url'', JObject [(''url'', JString url)])])"
| "openai_content_item _ = None"

definition openai_content_value :: "part list \<Rightarrow> json" where
  "openai_content_value ps =
     (if \<not> list_ex is_image ps then JString (joined_text ps) else JArray (List.map_filter openai_content_item ps))"

fun openai_call_item :: "part \<Rightarrow> json option" where
  "openai_call_item (ToolCall i name args _) =
     Some (JObject [(''id'', JString (unwrap_or i (''call_'' @ name))), (''type'', JString ''function''),
       (''function'', JObject [(''name'', JString name), (''arguments'', JString args)])])"
| "openai_call_item _ = None"

fun openai_result_item :: "part \<Rightarrow> json option" where
  "openai_result_item (ToolResult call_id _ content _) =
     Some (JObject [(''role'', JString ''tool''), (''tool_call_id'', JString call_id), (''content'', JString content)])"
| "openai_result_item _ = None"

definition openai_wire_message :: "message \<Rightarrow> json list" where
  "openai_wire_message m =
     (case msg_role m of
        Assistant \<Rightarrow>
          let content = joined_text (msg_parts m); calls = List.map_filter openai_call_item (msg_parts m)
          in [JObject ([(''role'', JString ''assistant''), (''content'', if content \<noteq> [] then JString content else JNull)] @
                (if calls = [] then [] else [(''tool_calls'', JArray calls)]))]
      | Tool \<Rightarrow> List.map_filter openai_result_item (msg_parts m)
      | _ \<Rightarrow> [JObject [(''role'', JString ''user''), (''content'', openai_content_value (msg_parts m))]])"

definition openai_build_messages :: "internal_request \<Rightarrow> json list" where
  "openai_build_messages req =
     map (\<lambda>s. JObject [(''role'', JString ''system''), (''content'', JString s)]) (rq_system req) @
     concat (map openai_wire_message (rq_messages req))"

definition openai_tool_item :: "tool_def \<Rightarrow> json" where
  "openai_tool_item t =
     JObject [(''type'', JString ''function''),
       (''function'', JObject [(''name'', JString (tool_name t)),
          (''description'', JString (unwrap_or (tool_description t) [])),
          (''parameters'', if tool_parameters t = JNull
             then JObject [(''type'', JString ''object''), (''properties'', JObject [])] else tool_parameters t)])]"

definition openai_build_tools :: "internal_request \<Rightarrow> json option" where
  "openai_build_tools req = (if rq_tools req = [] then None else Some (JArray (map openai_tool_item (rq_tools req))))"

definition openai_build_tool_choice :: "internal_request \<Rightarrow> json option" where
  "openai_build_tool_choice req =
     (case rq_tool_choice req of
        Some TC_None \<Rightarrow> Some (JString ''none'')
      | Some TC_Required \<Rightarrow> Some (JString ''required'')
      | Some TC_Specific \<Rightarrow> Some (JObject [(''type'', JString ''function''),
          (''function'', JObject [(''name'', JString (unwrap_or (rq_tool_choice_name req) []))])])
      | _ \<Rightarrow> None)"

fun insert_dotted_rec :: "string list \<Rightarrow> json \<Rightarrow> (string \<times> json) list \<Rightarrow> (string \<times> json) list" where
  "insert_dotted_rec [] v obj = obj"
| "insert_dotted_rec [k] v obj = obj_insert k v obj"
| "insert_dotted_rec (k # k' # ks) v obj =
     obj_insert k (JObject (insert_dotted_rec (k' # ks) v (case map_of obj k of Some (JObject fs) \<Rightarrow> fs | _ \<Rightarrow> []))) obj"

definition insert_dotted :: "string \<Rightarrow> json \<Rightarrow> (string \<times> json) list \<Rightarrow> (string \<times> json) list" where
  "insert_dotted path v obj = insert_dotted_rec (split_char CHR ''.'' path) v obj"

definition model_thinking :: "codec \<Rightarrow> model_row \<Rightarrow> thinking_map" where
  "model_thinking cd m = unwrap_or (de_thinking cd (md_thinking_map m)) empty_map"

definition openai_thinking ::
  "codec \<Rightarrow> upstream_context \<Rightarrow> internal_request \<Rightarrow> (string \<times> json) list \<Rightarrow> (string \<times> json) list" where
  "openai_thinking cd ctx req body =
     (let mapping = model_thinking cd (uc_model ctx)
      in case Option.bind (rq_thinking req) (\<lambda>level. map_of (tm_levels mapping) (thinking_as_key level)) of
           None \<Rightarrow> body
         | Some (JObject fs) \<Rightarrow> fold (\<lambda>(path, v). insert_dotted path v) fs body
         | Some value \<Rightarrow> (case scalar_field mapping of Some field \<Rightarrow> insert_dotted field value body | None \<Rightarrow> body))"

text \<open>A sampling parameter within its configured bounds, or its configured default.\<close>

definition openai_param ::
  "(string \<times> param_spec) list \<Rightarrow> string \<times> f64 option \<Rightarrow> (string \<times> json) list \<Rightarrow> (string \<times> json) list" where
  "openai_param specs p body =
     (case p of (key, value) \<Rightarrow>
      case (value, map_of specs key) of
        (Some v, Some s) \<Rightarrow>
          if \<not> ps_supported s then body
          else let v1 = (case ps_min s of Some lo \<Rightarrow> max v lo | None \<Rightarrow> v);
                   v2 = (case ps_max s of Some hi \<Rightarrow> min v1 hi | None \<Rightarrow> v1)
               in obj_insert key (JNumber (Float v2)) body
      | (Some v, None) \<Rightarrow> obj_insert key (JNumber (Float v)) body
      | (None, Some s) \<Rightarrow>
          (case ps_default s of
             Some d \<Rightarrow> if ps_supported s then obj_insert key (JNumber (Float d)) body else body
           | None \<Rightarrow> body)
      | (None, None) \<Rightarrow> body)"

definition insert_some :: "string \<Rightarrow> json option \<Rightarrow> (string \<times> json) list \<Rightarrow> (string \<times> json) list" where
  "insert_some k v body = (case v of Some w \<Rightarrow> obj_insert k w body | None \<Rightarrow> body)"

definition insert_absent :: "string \<Rightarrow> json \<Rightarrow> (string \<times> json) list \<Rightarrow> (string \<times> json) list" where
  "insert_absent k v body = (if map_of body k = None then body @ [(k, v)] else body)"

definition capped_tokens :: "model_row \<Rightarrow> nat \<Rightarrow> json" where
  "capped_tokens m n = json_int (case md_max_output_tokens m of Some limit \<Rightarrow> min (int n) limit | None \<Rightarrow> int n)"

definition merge_extra :: "codec \<Rightarrow> model_row \<Rightarrow> (string \<times> json) list \<Rightarrow> (string \<times> json) list" where
  "merge_extra cd m body =
     (case extra_request_value cd m of JObject fs \<Rightarrow> fold (\<lambda>(k, v). insert_absent k v) fs body | _ \<Rightarrow> body)"

definition openai_fixed_fields :: "upstream_context \<Rightarrow> internal_request \<Rightarrow> (string \<times> json) list" where
  "openai_fixed_fields ctx req =
     [(''model'', JString (md_upstream_id (uc_model ctx))), (''messages'', JArray (openai_build_messages req)),
      (''stream'', JBool True), (''stream_options'', JObject [(''include_usage'', JBool True)])]"

definition openai_option_fields ::
  "codec \<Rightarrow> upstream_context \<Rightarrow> internal_request \<Rightarrow> (string \<times> json) list \<Rightarrow> (string \<times> json) list" where
  "openai_option_fields cd ctx req body =
     (let ps = rq_params req; specs = model_params cd (uc_model ctx);
          b1 = fold (openai_param specs)
                 [(''temperature'', sp_temperature ps), (''top_p'', sp_top_p ps), (''top_k'', sp_top_k ps)] body;
          b2 = insert_some ''max_tokens'' (map_option (capped_tokens (uc_model ctx)) (sp_max_tokens ps)) b1;
          b3 = insert_some ''stop'' (if sp_stop ps = [] then None else Some (JArray (map JString (sp_stop ps)))) b2;
          b4 = insert_some ''seed'' (map_option json_int (sp_seed ps)) b3;
          b5 = insert_some ''presence_penalty'' (map_option (\<lambda>p. JNumber (Float p)) (sp_presence_penalty ps)) b4;
          b6 = insert_some ''frequency_penalty'' (map_option (\<lambda>p. JNumber (Float p)) (sp_frequency_penalty ps)) b5;
          b7 = (case field_str (rq_extra req) ''prompt_cache_key'' of
                  Some key \<Rightarrow> insert_absent ''prompt_cache_key'' (JString key) b6 | None \<Rightarrow> b6);
          b8 = insert_some ''tools'' (openai_build_tools req) b7
      in insert_some ''tool_choice'' (openai_build_tool_choice req) b8)"

definition openai_build_body :: "codec \<Rightarrow> upstream_context \<Rightarrow> internal_request \<Rightarrow> upstream_failure + json" where
  "openai_build_body cd ctx req =
     Inr (JObject (merge_extra cd (uc_model ctx)
       (openai_thinking cd ctx req (openai_option_fields cd ctx req (openai_fixed_fields ctx req)))))"

text \<open>Passthrough keeps the caller's spelling of the token limit.\<close>

definition token_limit_field :: "nat \<Rightarrow> (string \<times> json) list \<Rightarrow> string" where
  "token_limit_field requested body =
     (if Option.bind (map_of body ''max_completion_tokens'') as_u64 = Some requested then ''max_completion_tokens''
      else if Option.bind (map_of body ''max_tokens'') as_u64 = Some requested then ''max_tokens''
      else if map_of body ''max_completion_tokens'' \<noteq> None then ''max_completion_tokens''
      else ''max_tokens'')"

definition openai_normalize_passthrough ::
  "upstream_context \<Rightarrow> internal_request \<Rightarrow> json \<Rightarrow> upstream_failure + json" where
  "openai_normalize_passthrough ctx req body =
     (case body of
        JObject fs \<Rightarrow>
          (case sp_max_tokens (rq_params req) of
             None \<Rightarrow> Inr body
           | Some n \<Rightarrow>
               let field = token_limit_field n fs;
                   fs' = obj_remove ''max_output_tokens'' (obj_remove ''max_completion_tokens'' (obj_remove ''max_tokens'' fs))
               in Inr (JObject (obj_insert field (capped_tokens (uc_model ctx) n) fs')))
      | _ \<Rightarrow> Inl (failure_of BadRequest None ''OpenAI passthrough body must be a JSON object''))"

section \<open>Sending\<close>

definition trim_end_char :: "char \<Rightarrow> string \<Rightarrow> string" where
  "trim_end_char c s = rev (dropWhile (\<lambda>x. x = c) (rev s))"

definition openai_build_url :: "upstream_context \<Rightarrow> proxy_error + string" where
  "openai_build_url ctx = Inr (trim_end_char CHR ''/'' (pv_base_url (uc_provider ctx)) @ ''/chat/completions'')"

text \<open>The credentials a request carries; a query parameter is written with a leading question mark.\<close>

definition openai_apply_auth :: "upstream_context \<Rightarrow> url \<Rightarrow> upstream_failure + (string \<times> string) list" where
  "openai_apply_auth ctx u =
     Inr (case provider_auth (uc_provider ctx) of
        Bearer \<Rightarrow> [(''authorization'', ''Bearer '' @ uc_credential ctx)]
      | CustomHeader \<Rightarrow>
          let name = unwrap_or (pv_custom_header_name (uc_provider ctx)) ''authorization''
          in [(name, if to_ascii_lowercase name = ''authorization'' then ''Bearer '' @ uc_credential ctx else uc_credential ctx)]
      | QueryParam \<Rightarrow> [(''?'' @ unwrap_or (pv_custom_param_name (uc_provider ctx)) ''key'', uc_credential ctx)])"

section \<open>Errors\<close>

definition parse_u64 :: "string \<Rightarrow> nat option" where
  "parse_u64 s =
     (let ds = (case s of c # cs \<Rightarrow> if c = CHR ''+'' then cs else s | [] \<Rightarrow> [])
      in if ds = [] \<or> \<not> list_all is_digit ds \<or> digits_value ds > u64_max then None else Some (digits_value ds))"

definition retry_after_header :: "headers \<Rightarrow> nat option" where
  "retry_after_header hs = Option.bind (header_text hs ''retry-after'') (\<lambda>v. parse_u64 (trim v))"

record error_text =
  et_message :: string
  et_code :: string
  et_type :: string

definition openai_error_text :: "codec \<Rightarrow> string \<Rightarrow> error_text" where
  "openai_error_text cd body =
     (let parsed = unwrap_or (de_value cd body) JNull
      in \<lparr>et_message = unwrap_or (opt_or (Option.bind (json_path [''error'', ''message''] parsed) as_str) (get_str parsed ''message'')) [],
          et_code = unwrap_or (Option.bind (opt_or (json_path [''error'', ''code''] parsed) (json_get parsed ''code'')) as_str) [],
          et_type = to_ascii_lowercase (unwrap_or (Option.bind (json_path [''error'', ''type''] parsed) as_str) [])\<rparr>)"

definition openai_credential_error :: "nat \<Rightarrow> error_text \<Rightarrow> bool" where
  "openai_credential_error status et \<longleftrightarrow>
     (let msg = to_ascii_lowercase (et_message et); code = to_ascii_lowercase (et_code et)
      in status = 401 \<or> contains_str code ''invalid_api_key'' \<or> contains_str code ''invalid_auth''
         \<or> contains_str (et_type et) ''authentication'' \<or> contains_str msg ''invalid api key''
         \<or> contains_str msg ''incorrect api key'' \<or> contains_str msg ''authentication token'')"

definition openai_quota_exhausted :: "error_text \<Rightarrow> bool" where
  "openai_quota_exhausted et \<longleftrightarrow>
     (let msg = to_ascii_lowercase (et_message et); code = to_ascii_lowercase (et_code et)
      in contains_str code ''insufficient_quota'' \<or> contains_str code ''insufficient_credit''
         \<or> contains_str code ''credit_insufficient'' \<or> contains_str msg ''insufficient balance''
         \<or> contains_str msg ''credit insufficient'' \<or> contains_str msg ''insufficient credit''
         \<or> (contains_str msg ''balance='' \<and> contains_str msg ''required=''))"

definition openai_failure_kind :: "nat \<Rightarrow> error_text \<Rightarrow> failure_kind" where
  "openai_failure_kind status et =
     (if status = 400 \<or> status = 422 then if openai_quota_exhausted et then QuotaExhausted else BadRequest
      else if status = 401 then AuthError
      else if status = 403 \<and> openai_credential_error status et then AuthError
      else if status = 403 \<or> status = 404 then TargetError
      else if status = 429
      then if openai_quota_exhausted et \<or> contains_str (to_ascii_lowercase (et_message et)) ''quota''
           then QuotaExhausted else RateLimit
      else ServerError)"

definition failure_message :: "nat \<Rightarrow> string \<Rightarrow> string" where
  "failure_message status message = (if message = [] then ''upstream returned HTTP '' @ show_nat status else redact message)"

definition openai_classify_error :: "codec \<Rightarrow> nat \<Rightarrow> string \<Rightarrow> headers \<Rightarrow> upstream_failure" where
  "openai_classify_error cd status body hs =
     (let et = openai_error_text cd body
      in \<lparr>uf_kind = openai_failure_kind status et, uf_status = Some status, uf_retry_after_secs = retry_after_header hs,
          uf_message = failure_message status (et_message et), uf_quota_reset_at = None\<rparr>)"

section \<open>Events\<close>

definition nonempty_str :: "json option \<Rightarrow> string option" where
  "nonempty_str v = opt_filter (\<lambda>s. s \<noteq> []) (Option.bind v as_str)"

definition list_of_option :: "'a option \<Rightarrow> 'a list" where
  "list_of_option x = (case x of Some y \<Rightarrow> [y] | None \<Rightarrow> [])"

definition openai_call_events :: "json \<Rightarrow> stream_event list" where
  "openai_call_events tc =
     (let index = as_u32 (unwrap_or (Option.bind (json_get tc ''index'') as_u64) 0);
          func = json_get tc ''function''
      in list_of_option (map_option (\<lambda>name. ToolCallStart index (get_str tc ''id'') name None)
           (nonempty_str (Option.bind func (\<lambda>f. json_get f ''name'')))) @
         list_of_option (map_option (ToolCallArgsDelta index)
           (nonempty_str (Option.bind func (\<lambda>f. json_get f ''arguments'')))))"

definition openai_delta_events :: "json \<Rightarrow> stream_event list" where
  "openai_delta_events delta =
     list_of_option (map_option TextDelta (nonempty_str (json_get delta ''content''))) @
     list_of_option (map_option (\<lambda>r. ThinkingDelta r None)
       (nonempty_str (opt_or (json_get delta ''reasoning_content'') (json_get delta ''reasoning'')))) @
     (case Option.bind (json_get delta ''tool_calls'') as_array of
        Some tcs \<Rightarrow> concat (map openai_call_events tcs) | None \<Rightarrow> [])"

definition openai_finish_reason :: "string \<Rightarrow> finish_reason" where
  "openai_finish_reason r =
     (if r = ''stop'' then Stop
      else if r = ''length'' then Length
      else if r = ''tool_calls'' \<or> r = ''function_call'' then ToolCalls
      else if r = ''content_filter'' then ContentFilter
      else OtherReason r)"

definition openai_choice_events :: "json \<Rightarrow> stream_event list" where
  "openai_choice_events choice =
     (case opt_or (json_get choice ''delta'') (json_get choice ''message'') of
        Some delta \<Rightarrow> openai_delta_events delta | None \<Rightarrow> []) @
     list_of_option (map_option (\<lambda>r. stream_event.Finish (openai_finish_reason r)) (get_str choice ''finish_reason''))"

definition openai_usage :: "json \<Rightarrow> token_usage" where
  "openai_usage u =
     \<lparr>tu_input = Option.bind (json_get u ''prompt_tokens'') as_u64,
      tu_output = Option.bind (json_get u ''completion_tokens'') as_u64,
      tu_cached = Option.bind (json_path [''prompt_tokens_details'', ''cached_tokens''] u) as_u64,
      tu_cache_write = Option.bind (json_path [''prompt_tokens_details'', ''cache_write_tokens''] u) as_u64,
      tu_thinking = Option.bind (json_path [''completion_tokens_details'', ''reasoning_tokens''] u) as_u64\<rparr>"

definition openai_events :: "json \<Rightarrow> stream_event list" where
  "openai_events v =
     (case Option.bind (json_get v ''choices'') as_array of
        Some choices \<Rightarrow> concat (map openai_choice_events choices) | None \<Rightarrow> []) @
     (case json_get v ''usage'' of
        Some u \<Rightarrow> if u = JNull then [] else [Usage (openai_usage u)] | None \<Rightarrow> [])"

definition openai_parse_stream_chunk :: "codec \<Rightarrow> (string \<Rightarrow> string) \<Rightarrow> string \<Rightarrow> upstream_failure + stream_event list" where
  "openai_parse_stream_chunk cd json_error data =
     (if trim data = ''[DONE]'' then Inr []
      else case de_value cd data of
             None \<Rightarrow> Inl (failure_of ServerError None (''invalid upstream chunk: '' @ json_error data))
           | Some v \<Rightarrow> Inr (openai_events v))"

section \<open>The adapter\<close>

definition openai_adapter :: "codec \<Rightarrow> (string \<Rightarrow> string) \<Rightarrow> adapter" where
  "openai_adapter cd json_error =
     \<lparr>ad_wire_format = ''openai'', ad_build_url = openai_build_url, ad_handles_thinking_translation = False,
      ad_supports_count_tokens = False, ad_count_tokens_url = (\<lambda>_. Inr None), ad_apply_auth = openai_apply_auth,
      ad_build_body = openai_build_body cd, ad_normalize_passthrough_body = openai_normalize_passthrough,
      ad_classify_error = openai_classify_error cd, ad_parse_stream_chunk = openai_parse_stream_chunk cd json_error,
      ad_parse_full_response = (\<lambda>v. Inr (openai_events v)), ad_opaque_state_target = (\<lambda>_. None),
      ad_opaque_state_placeholder = (\<lambda>_. None)\<rparr>"

record discovered_model =
  dm_id :: string
  dm_display_name :: "string option"
  dm_context_window :: "int option"
  dm_max_output_tokens :: "int option"

definition openai_parse_model_list :: "json \<Rightarrow> discovered_model list" where
  "openai_parse_model_list body =
     (case Option.bind (json_get body ''data'') as_array of
        None \<Rightarrow> []
      | Some xs \<Rightarrow> List.map_filter (\<lambda>m. map_option (\<lambda>i. \<lparr>dm_id = i, dm_display_name = None,
          dm_context_window = Option.bind (json_get m ''context_window'') json_as_i64,
          dm_max_output_tokens = Option.bind (json_get m ''max_output_tokens'') json_as_i64\<rparr>) (get_str m ''id'')) xs)"

section \<open>Lookups in a built body\<close>

lemma map_of_insert_some: "k \<noteq> key \<Longrightarrow> map_of (insert_some key v body) k = map_of body k"
  by (simp add: insert_some_def split: option.split)

lemma map_of_insert_absent: "map_of body k = Some x \<Longrightarrow> map_of (insert_absent key v body) k = Some x"
  by (auto simp: insert_absent_def)

lemma map_of_merge_extra: "map_of body k = Some x \<Longrightarrow> map_of (merge_extra cd m body) k = Some x"
proof -
  have "map_of body k = Some x \<Longrightarrow> map_of (fold (\<lambda>(k, v). insert_absent k v) fs body) k = Some x" for fs body
    by (induction fs arbitrary: body) (auto simp: map_of_insert_absent)
  then show "map_of body k = Some x \<Longrightarrow> ?thesis" by (simp add: merge_extra_def split: json.split)
qed

end
