(* ===== verification/Anthropic_Adapter.thy ===== *)
theory Anthropic_Adapter
  imports Anthropic_Frontend OpenAI_Adapter
begin

text \<open>
  The Anthropic Messages adapter (\<^verbatim>\<open>src/src/adapters/anthropic.rs\<close>): the upstream body of an internal request with its
  thinking mapping, the delay an error response asks for, the classification of errors, and the events of a response. The
  dotted insertion and the merging of extra fields are those of \<open>OpenAI_Adapter\<close>, whose code is the same. The RFC 2822
  parser is a parameter, and so is the time at which the adapter reads the clock.
\<close>

section \<open>The request body\<close>

definition is_claude_code_oauth :: "upstream_context \<Rightarrow> bool" where
  "is_claude_code_oauth ctx \<longleftrightarrow>
     starts_with (uc_credential ctx) ''sk-ant-oat'' \<or> contains_str (pv_credential_plugin (uc_provider ctx)) ''claude-code''"

definition CACHE_CONTROL :: json where
  "CACHE_CONTROL = JObject [(''type'', JString ''ephemeral''), (''ttl'', JString ''1h'')]"

definition cacheable_tool :: "json \<Rightarrow> bool" where
  "cacheable_tool tool \<longleftrightarrow> Option.bind (json_get tool ''defer_loading'') as_bool \<noteq> Some True"

text \<open>The mark goes to the first cacheable tool of a list that is read from its end.\<close>

fun mark_cacheable :: "json list \<Rightarrow> json list" where
  "mark_cacheable [] = []"
| "mark_cacheable (t # ts) =
     (if cacheable_tool t
      then (case t of JObject fs \<Rightarrow> JObject (obj_insert ''cache_control'' CACHE_CONTROL fs) | _ \<Rightarrow> t) # ts
      else t # mark_cacheable ts)"

definition mark_last_cacheable_tool :: "json \<Rightarrow> json" where
  "mark_last_cacheable_tool tools =
     (case tools of JArray ts \<Rightarrow> JArray (rev (mark_cacheable (rev ts))) | _ \<Rightarrow> tools)"

fun anthropic_part_block :: "codec \<Rightarrow> part \<Rightarrow> json option" where
  "anthropic_part_block cd (Text t) = Some (JObject [(''type'', JString ''text''), (''text'', JString t)])"
| "anthropic_part_block cd (Thinking t sig) =
     map_option (\<lambda>s. JObject [(''type'', JString ''thinking''), (''thinking'', JString t), (''signature'', JString s)]) sig"
| "anthropic_part_block cd (Image (Base64 mime data)) =
     Some (JObject [(''type'', JString ''image''),
       (''source'', JObject [(''type'', JString ''base64''), (''media_type'', JString mime), (''data'', JString data)])])"
| "anthropic_part_block cd (Image (Url url)) =
     Some (JObject [(''type'', JString ''image''), (''source'', JObject [(''type'', JString ''url''), (''url'', JString url)])])"
| "anthropic_part_block cd (ToolCall i name args _) =
     Some (JObject [(''type'', JString ''tool_use''), (''id'', JString (unwrap_or i (''toolu_'' @ name))),
       (''name'', JString name), (''input'', unwrap_or (de_value cd args) (JObject []))])"
| "anthropic_part_block cd (ToolResult call_id _ content is_error) =
     Some (JObject [(''type'', JString ''tool_result''), (''tool_use_id'', JString call_id), (''content'', JString content),
       (''is_error'', JBool is_error)])"

definition content_blocks :: "codec \<Rightarrow> part list \<Rightarrow> json list" where
  "content_blocks cd ps = List.map_filter (anthropic_part_block cd) ps"

definition anthropic_wire_message :: "codec \<Rightarrow> message \<Rightarrow> json option" where
  "anthropic_wire_message cd m =
     (if msg_role m = System then None
      else let blocks = content_blocks cd (msg_parts m)
           in if blocks = [] then None
              else Some (JObject [(''role'', JString (if msg_role m = Assistant then ''assistant'' else ''user'')),
                     (''content'', JArray blocks)]))"

definition anthropic_build_messages :: "codec \<Rightarrow> internal_request \<Rightarrow> json list" where
  "anthropic_build_messages cd req = List.map_filter (anthropic_wire_message cd) (rq_messages req)"

definition anthropic_tool_item :: "tool_def \<Rightarrow> json" where
  "anthropic_tool_item t =
     JObject ([(''name'', JString (tool_name t)), (''description'', JString (unwrap_or (tool_description t) [])),
       (''input_schema'', if tool_parameters t = JNull
          then JObject [(''type'', JString ''object''), (''properties'', JObject [])] else tool_parameters t)] @
       (case tool_defer_loading t of Some d \<Rightarrow> [(''defer_loading'', JBool d)] | None \<Rightarrow> []))"

definition anthropic_build_tools :: "internal_request \<Rightarrow> json option" where
  "anthropic_build_tools req = (if rq_tools req = [] then None else Some (JArray (map anthropic_tool_item (rq_tools req))))"

definition anthropic_build_tool_choice :: "internal_request \<Rightarrow> json option" where
  "anthropic_build_tool_choice req =
     (case rq_tool_choice req of
        Some TC_None \<Rightarrow> Some (JObject [(''type'', JString ''none'')])
      | Some TC_Required \<Rightarrow> Some (JObject [(''type'', JString ''any'')])
      | Some TC_Specific \<Rightarrow> Some (JObject [(''type'', JString ''tool''),
          (''name'', JString (unwrap_or (rq_tool_choice_name req) []))])
      | _ \<Rightarrow> None)"

subsection \<open>Thinking\<close>

definition insert_fields :: "(string \<times> json) list \<Rightarrow> (string \<times> json) list \<Rightarrow> (string \<times> json) list" where
  "insert_fields fs body = fold (\<lambda>(path, v). insert_dotted path v) fs body"

definition insert_level :: "thinking_map \<Rightarrow> string \<Rightarrow> (string \<times> json) list \<Rightarrow> (string \<times> json) list" where
  "insert_level tmap key body =
     (case map_of (tm_levels tmap) key of
        Some (JObject fs) \<Rightarrow> insert_fields fs body
      | Some v \<Rightarrow> (case scalar_field tmap of Some field \<Rightarrow> insert_dotted field v body | None \<Rightarrow> body)
      | None \<Rightarrow> body)"

definition drop_budget :: "(string \<times> json) list \<Rightarrow> (string \<times> json) list" where
  "drop_budget body =
     (case map_of body ''thinking'' of
        Some (JObject th) \<Rightarrow> obj_insert ''thinking'' (JObject (obj_remove ''budget_tokens'' th)) body
      | _ \<Rightarrow> body)"

definition manual_thinking :: "thinking_map \<Rightarrow> string \<Rightarrow> (string \<times> json) list \<Rightarrow> (string \<times> json) list" where
  "manual_thinking tmap key body =
     (case map_of (tm_levels tmap) key of
        None \<Rightarrow> body
      | Some (JObject fs) \<Rightarrow> obj_insert ''thinking'' (JObject fs) body
      | Some v \<Rightarrow>
          (case scalar_field tmap of
             None \<Rightarrow> body
           | Some field \<Rightarrow>
               let b1 = insert_dotted field v body
               in if field = ''thinking.budget_tokens'' then insert_dotted ''thinking.type'' (JString ''enabled'') b1 else b1))"

definition apply_thinking_map ::
  "codec \<Rightarrow> upstream_context \<Rightarrow> internal_request \<Rightarrow> (string \<times> json) list \<Rightarrow> (string \<times> json) list" where
  "apply_thinking_map cd ctx req body =
     (case rq_thinking req of
        None \<Rightarrow> body
      | Some level \<Rightarrow>
          let tmap = model_thinking cd (uc_model ctx); key = thinking_as_key level
          in if is_adaptive tmap
             then if level = TL_Off then drop_budget (insert_level tmap key body)
                  else drop_budget (insert_dotted ''thinking.type'' (JString ''adaptive'')
                         (if level = TL_Default then body else insert_level tmap key body))
             else manual_thinking tmap key body)"

subsection \<open>The system prompt and the whole body\<close>

definition BILLING_HEADER :: string where
  "BILLING_HEADER = ''x-anthropic-billing-header: cc_version=1.18.31; cc_entrypoint=cli; cch=00000;''"

definition SENTINEL :: string where
  "SENTINEL = ''You are Claude Code, Anthropic'' @ [CHR 0x27] @ ''s official CLI for Claude.''"

definition system_texts :: "message \<Rightarrow> string list" where
  "system_texts m =
     (if msg_role m = System
      then List.map_filter (\<lambda>p. case p of Text t \<Rightarrow> if trim t = [] then None else Some t | _ \<Rightarrow> None) (msg_parts m)
      else [])"

definition claude_code_system :: "string list \<Rightarrow> string list" where
  "claude_code_system system =
     (let s1 = (if list_ex (\<lambda>s. contains_str s ''x-anthropic-billing-header:'') system then system
                else BILLING_HEADER # system)
      in if list_ex (\<lambda>s. contains_str s ''You are Claude Code'') s1 then s1
         else case s1 of [] \<Rightarrow> [SENTINEL] | s # ss \<Rightarrow> s # SENTINEL # ss)"

definition anthropic_system_of :: "upstream_context \<Rightarrow> internal_request \<Rightarrow> string list" where
  "anthropic_system_of ctx req =
     (let system = rq_system req @ concat (map system_texts (rq_messages req))
      in if is_claude_code_oauth ctx then claude_code_system system else system)"

definition system_block :: "nat \<Rightarrow> nat \<times> string \<Rightarrow> json" where
  "system_block last_index = (\<lambda>(i, s). JObject ([(''type'', JString ''text''), (''text'', JString s)] @
     (if i = last_index then [(''cache_control'', CACHE_CONTROL)] else [])))"

definition system_value :: "upstream_context \<Rightarrow> string list \<Rightarrow> json option" where
  "system_value ctx system =
     (if system = [] then None
      else if is_claude_code_oauth ctx then Some (JArray (map (system_block (length system - 1)) (enumerate 0 system)))
      else Some (JString (join_with [LF, LF] system)))"

definition anthropic_max_tokens :: "upstream_context \<Rightarrow> internal_request \<Rightarrow> int" where
  "anthropic_max_tokens ctx req =
     unwrap_or (opt_or (map_option int (sp_max_tokens (rq_params req))) (md_max_output_tokens (uc_model ctx))) 4096"

definition supported_param :: "(string \<times> param_spec) list \<Rightarrow> string \<Rightarrow> f64 option \<Rightarrow> json option" where
  "supported_param specs key v =
     opt_filter (\<lambda>_. unwrap_or (map_option ps_supported (map_of specs key)) True) (map_option (\<lambda>x. JNumber (Float x)) v)"

definition anthropic_fields :: "codec \<Rightarrow> upstream_context \<Rightarrow> internal_request \<Rightarrow> (string \<times> json) list" where
  "anthropic_fields cd ctx req =
     (let ps = rq_params req; specs = model_params cd (uc_model ctx);
          b0 = [(''model'', JString (md_upstream_id (uc_model ctx))), (''stream'', JBool True)];
          b1 = insert_some ''system'' (system_value ctx (anthropic_system_of ctx req)) b0;
          b2 = obj_insert ''messages'' (JArray (anthropic_build_messages cd req)) b1;
          b3 = obj_insert ''max_tokens'' (json_int (anthropic_max_tokens ctx req)) b2;
          b4 = insert_some ''temperature'' (supported_param specs ''temperature'' (sp_temperature ps)) b3;
          b5 = insert_some ''top_p'' (supported_param specs ''top_p'' (sp_top_p ps)) b4;
          b6 = insert_some ''top_k'' (supported_param specs ''top_k'' (sp_top_k ps)) b5;
          b7 = insert_some ''stop_sequences'' (if sp_stop ps = [] then None else Some (JArray (map JString (sp_stop ps)))) b6;
          b8 = insert_some ''tools''
                 (map_option (if is_claude_code_oauth ctx then mark_last_cacheable_tool else (\<lambda>t. t)) (anthropic_build_tools req)) b7
      in insert_some ''tool_choice'' (anthropic_build_tool_choice req) b8)"

definition anthropic_build_body :: "codec \<Rightarrow> upstream_context \<Rightarrow> internal_request \<Rightarrow> upstream_failure + json" where
  "anthropic_build_body cd ctx req =
     Inr (JObject (merge_extra cd (uc_model ctx) (apply_thinking_map cd ctx req (anthropic_fields cd ctx req))))"

definition replace_max_tokens :: "nat option \<Rightarrow> (string \<times> json) list \<Rightarrow> (string \<times> json) list" where
  "replace_max_tokens requested fs =
     (case requested of
        None \<Rightarrow> fs
      | Some n \<Rightarrow> obj_insert ''max_tokens'' (jnat n)
          (obj_remove ''max_output_tokens'' (obj_remove ''max_completion_tokens'' (obj_remove ''max_tokens'' fs))))"

definition anthropic_normalize_passthrough ::
  "codec \<Rightarrow> upstream_context \<Rightarrow> internal_request \<Rightarrow> json \<Rightarrow> upstream_failure + json" where
  "anthropic_normalize_passthrough cd ctx req body =
     (case body of
        JObject fs \<Rightarrow>
          let fs1 = replace_max_tokens (sp_max_tokens (rq_params req)) fs; tmap = model_thinking cd (uc_model ctx)
          in if \<not> is_adaptive tmap then Inr (JObject fs1)
             else if rq_thinking req = Some TL_Off \<and> \<not> anthropic_adaptive_off_is_executable tmap
             then Inl (failure_of BadRequest None (''thinking level '' @ quoted ''off'' @
                    '' has no executable mapping for model '' @ quoted (md_display_name (uc_model ctx))))
             else Inr (JObject (apply_thinking_map cd ctx req fs1))
      | _ \<Rightarrow> Inr body)"

section \<open>Sending\<close>

definition anthropic_build_url :: "upstream_context \<Rightarrow> proxy_error + string" where
  "anthropic_build_url ctx = Inr (trim_end_char CHR ''/'' (pv_base_url (uc_provider ctx)) @ ''/messages'')"

definition anthropic_count_tokens_url :: "upstream_context \<Rightarrow> proxy_error + string option" where
  "anthropic_count_tokens_url ctx =
     Inr (Some (trim_end_char CHR ''/'' (pv_base_url (uc_provider ctx)) @ ''/messages/count_tokens''))"

definition anthropic_apply_auth :: "upstream_context \<Rightarrow> url \<Rightarrow> upstream_failure + (string \<times> string) list" where
  "anthropic_apply_auth ctx u =
     Inr ((if is_claude_code_oauth ctx then [(''user-agent'', ''claude-cli/1.18.31 (external, cli)'')] else []) @
       (case provider_auth (uc_provider ctx) of
          Bearer \<Rightarrow> [(''authorization'', ''Bearer '' @ uc_credential ctx)]
        | CustomHeader \<Rightarrow> [(unwrap_or (pv_custom_header_name (uc_provider ctx)) ''x-api-key'', uc_credential ctx)]
        | QueryParam \<Rightarrow> [(''?'' @ unwrap_or (pv_custom_param_name (uc_provider ctx)) ''key'', uc_credential ctx)]))"

section \<open>Errors\<close>

definition ceil_secs :: "f64 \<Rightarrow> nat" where
  "ceil_secs x = max (min (nat \<lceil>x\<rceil>) u64_max) 1"

fun nonneg_part :: "f64x option \<Rightarrow> f64 option" where
  "nonneg_part (Some (Finite x)) = (if x \<ge> 0 then Some x else None)"
| "nonneg_part _ = None"

definition secs_until :: "nanos \<Rightarrow> nanos \<Rightarrow> nat" where
  "secs_until now dt = nat (max (num_seconds (dt - now)) 1)"

definition RESET_HEADERS :: "string list" where
  "RESET_HEADERS = [''anthropic-ratelimit-unified-reset'', ''anthropic-ratelimit-requests-reset'',
     ''anthropic-ratelimit-tokens-reset'', ''anthropic-ratelimit-input-tokens-reset'',
     ''anthropic-ratelimit-output-tokens-reset'']"

definition min_list_option :: "nat list \<Rightarrow> nat option" where
  "min_list_option xs = (if xs = [] then None else Some (Min (set xs)))"

definition anthropic_reset_delay :: "codec \<Rightarrow> nanos \<Rightarrow> headers \<Rightarrow> nat option" where
  "anthropic_reset_delay cd now hs =
     min_list_option (map (secs_until now) (filter (\<lambda>dt. dt > now)
       (List.map_filter (\<lambda>name. Option.bind (header_text hs name) (\<lambda>v. parse_dt cd (trim v))) RESET_HEADERS)))"

definition retry_after_ms :: "headers \<Rightarrow> nat option" where
  "retry_after_ms hs =
     map_option (\<lambda>ms. ceil_secs (ms / 1000))
       (nonneg_part (Option.bind (header_text hs ''retry-after-ms'') (\<lambda>v. parse_f64 (trim v))))"

text \<open>\<open>Retry-After\<close> as a number of seconds, or as a date that is still to come.\<close>

definition retry_after_value :: "(string \<Rightarrow> nanos option) \<Rightarrow> nanos \<Rightarrow> string \<Rightarrow> nat option" where
  "retry_after_value rfc2822 now v =
     (case nonneg_part (parse_f64 v) of
        Some x \<Rightarrow> Some (ceil_secs x)
      | None \<Rightarrow> map_option (secs_until now) (opt_filter (\<lambda>dt. dt > now) (rfc2822 v)))"

definition anthropic_retry_delay :: "codec \<Rightarrow> (string \<Rightarrow> nanos option) \<Rightarrow> nanos \<Rightarrow> headers \<Rightarrow> nat option" where
  "anthropic_retry_delay cd rfc2822 now hs =
     opt_or (retry_after_ms hs)
       (opt_or (Option.bind (header_text hs ''retry-after'') (\<lambda>v. retry_after_value rfc2822 now (trim v)))
          (anthropic_reset_delay cd now hs))"

definition anthropic_failure_kind :: "nat \<Rightarrow> string \<Rightarrow> string \<Rightarrow> failure_kind" where
  "anthropic_failure_kind status etype lower =
     (let credential_error = (status = 401 \<or> contains_str etype ''authentication'' \<or> contains_str lower ''invalid api key''
            \<or> contains_str lower ''invalid x-api-key'' \<or> contains_str lower ''authentication token'')
      in if status = 400 \<or> status = 422 then BadRequest
         else if status = 401 then AuthError
         else if status = 403 \<and> credential_error then AuthError
         else if status = 403 \<or> status = 404 then TargetError
         else if status = 429
         then if contains_str lower ''quota'' \<or> contains_str lower ''credit'' then QuotaExhausted else RateLimit
         else ServerError)"

definition anthropic_classify_error ::
  "codec \<Rightarrow> (string \<Rightarrow> nanos option) \<Rightarrow> nanos \<Rightarrow> nat \<Rightarrow> string \<Rightarrow> headers \<Rightarrow> upstream_failure" where
  "anthropic_classify_error cd rfc2822 now status body hs =
     (let parsed = unwrap_or (de_value cd body) JNull;
          message = unwrap_or (get_path_str [''error'', ''message''] parsed) [];
          etype = to_ascii_lowercase (unwrap_or (get_path_str [''error'', ''type''] parsed) [])
      in \<lparr>uf_kind = anthropic_failure_kind status etype (to_ascii_lowercase message), uf_status = Some status,
          uf_retry_after_secs = anthropic_retry_delay cd rfc2822 now hs,
          uf_message = failure_message status message, uf_quota_reset_at = None\<rparr>)"

section \<open>Events\<close>

definition map_anthropic_stop_reason :: "string \<Rightarrow> finish_reason" where
  "map_anthropic_stop_reason r =
     (if r = ''end_turn'' \<or> r = ''stop_sequence'' then Stop
      else if r = ''max_tokens'' \<or> r = ''model_context_window_exceeded'' then Length
      else if r = ''tool_use'' then ToolCalls
      else OtherReason r)"

definition parse_anthropic_usage :: "json \<Rightarrow> token_usage" where
  "parse_anthropic_usage u =
     (let ordinary = Option.bind (json_get u ''input_tokens'') as_u64;
          cached = Option.bind (json_get u ''cache_read_input_tokens'') as_u64;
          cache_write = Option.bind (json_get u ''cache_creation_input_tokens'') as_u64
      in \<lparr>tu_input = (if ordinary \<noteq> None \<or> cached \<noteq> None \<or> cache_write \<noteq> None
                      then Some (sat_add64 (sat_add64 (unwrap_or ordinary 0) (unwrap_or cached 0)) (unwrap_or cache_write 0))
                      else None),
          tu_output = Option.bind (json_get u ''output_tokens'') as_u64,
          tu_cached = cached, tu_cache_write = cache_write, tu_thinking = None\<rparr>)"

definition chunk_index :: "json \<Rightarrow> nat" where
  "chunk_index v = as_u32 (unwrap_or (Option.bind (json_get v ''index'') as_u64) 0)"

definition anthropic_delta_events :: "json \<Rightarrow> stream_event list" where
  "anthropic_delta_events v =
     (let delta = unwrap_or (json_get v ''delta'') JNull; kind = unwrap_or (get_str delta ''type'') []
      in list_of_option
        (if kind = ''text_delta'' then map_option TextDelta (get_str delta ''text'')
         else if kind = ''thinking_delta'' then map_option (\<lambda>t. ThinkingDelta t None) (get_str delta ''thinking'')
         else if kind = ''signature_delta'' then map_option (\<lambda>s. ThinkingDelta [] (Some s)) (get_str delta ''signature'')
         else if kind = ''input_json_delta'' then map_option (ToolCallArgsDelta (chunk_index v)) (get_str delta ''partial_json'')
         else None))"

definition tool_start_event :: "nat \<Rightarrow> json \<Rightarrow> stream_event" where
  "tool_start_event index block = ToolCallStart index (get_str block ''id'') (unwrap_or (get_str block ''name'') ''tool'') None"

definition anthropic_start_events :: "json \<Rightarrow> stream_event list" where
  "anthropic_start_events v =
     (case json_get v ''content_block'' of
        None \<Rightarrow> []
      | Some block \<Rightarrow> if get_str block ''type'' = Some ''tool_use'' then [tool_start_event (chunk_index v) block] else [])"

definition usage_events :: "json option \<Rightarrow> stream_event list" where
  "usage_events u = list_of_option (map_option (\<lambda>x. Usage (parse_anthropic_usage x)) u)"

definition stop_events :: "string option \<Rightarrow> stream_event list" where
  "stop_events r = list_of_option (map_option (\<lambda>x. stream_event.Finish (map_anthropic_stop_reason x)) r)"

definition anthropic_events :: "json \<Rightarrow> stream_event list" where
  "anthropic_events v =
     (let kind = unwrap_or (get_str v ''type'') []
      in if kind = ''content_block_delta'' then anthropic_delta_events v
         else if kind = ''content_block_start'' then anthropic_start_events v
         else if kind = ''message_delta''
         then usage_events (json_get v ''usage'') @ stop_events (get_path_str [''delta'', ''stop_reason''] v)
         else if kind = ''message_start'' then usage_events (json_path [''message'', ''usage''] v)
         else [])"

definition anthropic_parse_stream_chunk ::
  "codec \<Rightarrow> (string \<Rightarrow> string) \<Rightarrow> string \<Rightarrow> upstream_failure + stream_event list" where
  "anthropic_parse_stream_chunk cd json_error data =
     (case de_value cd data of
        None \<Rightarrow> Inl (failure_of ServerError None (''invalid upstream chunk: '' @ json_error data))
      | Some v \<Rightarrow> Inr (anthropic_events v))"

text \<open>The blocks of a complete response; tool calls are numbered among themselves.\<close>

fun anthropic_block_events :: "codec \<Rightarrow> nat \<Rightarrow> json list \<Rightarrow> stream_event list" where
  "anthropic_block_events cd idx [] = []"
| "anthropic_block_events cd idx (b # bs) =
     (let kind = unwrap_or (get_str b ''type'') []
      in if kind = ''text'' then list_of_option (map_option TextDelta (get_str b ''text'')) @ anthropic_block_events cd idx bs
         else if kind = ''thinking''
         then list_of_option (map_option (\<lambda>t. ThinkingDelta t (get_str b ''signature'')) (get_str b ''thinking'')) @
              anthropic_block_events cd idx bs
         else if kind = ''tool_use''
         then tool_start_event idx b #
              ToolCallArgsDelta idx (ser_value cd (unwrap_or (json_get b ''input'') (JObject []))) #
              anthropic_block_events cd (as_u32 (idx + 1)) bs
         else anthropic_block_events cd idx bs)"

definition anthropic_parse_full :: "codec \<Rightarrow> json \<Rightarrow> stream_event list" where
  "anthropic_parse_full cd body =
     (case Option.bind (json_get body ''content'') as_array of Some bs \<Rightarrow> anthropic_block_events cd 0 bs | None \<Rightarrow> []) @
     usage_events (json_get body ''usage'') @ stop_events (get_str body ''stop_reason'')"

definition anthropic_parse_model_list :: "json \<Rightarrow> discovered_model list" where
  "anthropic_parse_model_list body =
     (case Option.bind (json_get body ''data'') as_array of
        None \<Rightarrow> []
      | Some xs \<Rightarrow> List.map_filter (\<lambda>m. map_option (\<lambda>i. \<lparr>dm_id = i, dm_display_name = get_str m ''display_name'',
          dm_context_window = None, dm_max_output_tokens = None\<rparr>) (get_str m ''id'')) xs)"

section \<open>The adapter\<close>

definition anthropic_adapter ::
  "codec \<Rightarrow> (string \<Rightarrow> string) \<Rightarrow> (string \<Rightarrow> nanos option) \<Rightarrow> nanos \<Rightarrow> adapter" where
  "anthropic_adapter cd json_error rfc2822 now =
     \<lparr>ad_wire_format = ''anthropic'', ad_build_url = anthropic_build_url, ad_handles_thinking_translation = False,
      ad_supports_count_tokens = True, ad_count_tokens_url = anthropic_count_tokens_url, ad_apply_auth = anthropic_apply_auth,
      ad_build_body = anthropic_build_body cd, ad_normalize_passthrough_body = anthropic_normalize_passthrough cd,
      ad_classify_error = anthropic_classify_error cd rfc2822 now,
      ad_parse_stream_chunk = anthropic_parse_stream_chunk cd json_error,
      ad_parse_full_response = (\<lambda>v. Inr (anthropic_parse_full cd v)), ad_opaque_state_target = (\<lambda>_. None),
      ad_opaque_state_placeholder = (\<lambda>_. None)\<rparr>"

section \<open>Adaptive thinking\<close>

text \<open>Maps have no duplicate keys, at any depth.\<close>

fun unique_keys :: "json \<Rightarrow> bool" where
  "unique_keys (JObject fs) \<longleftrightarrow> distinct (map fst fs) \<and> (\<forall>f \<in> set fs. unique_keys (snd f))"
| "unique_keys (JArray vs) \<longleftrightarrow> (\<forall>v \<in> set vs. unique_keys v)"
| "unique_keys _ \<longleftrightarrow> True"

lemma set_obj_insert: "set (obj_insert k v fs) \<subseteq> insert (k, v) (set fs)"
  by (induction fs) (auto split: if_splits)

lemma unique_obj_insert:
  "unique_keys (JObject fs) \<Longrightarrow> unique_keys v \<Longrightarrow> unique_keys (JObject (obj_insert k v fs))"
proof -
  assume u: "unique_keys (JObject fs)" "unique_keys v"
  have "distinct (map fst (obj_insert k v fs))" using u(1) by (auto simp: keys_obj_insert)
  moreover have "unique_keys (snd f)" if "f \<in> set (obj_insert k v fs)" for f
    using that u set_obj_insert [of k v fs] by fastforce
  ultimately show "unique_keys (JObject (obj_insert k v fs))" by simp
qed

lemma unique_field: "unique_keys (JObject fs) \<Longrightarrow> map_of fs k = Some v \<Longrightarrow> unique_keys v"
  using map_of_SomeD [of fs k v] by (simp only: unique_keys.simps(1)) (metis snd_conv)

lemma unique_dotted_rec:
  "unique_keys (JObject fs) \<Longrightarrow> unique_keys v \<Longrightarrow> unique_keys (JObject (insert_dotted_rec ks v fs))"
proof (induction ks v fs rule: insert_dotted_rec.induct)
  case (3 k k' ks v obj)
  let ?inner = "case map_of obj k of Some (JObject gs) \<Rightarrow> gs | _ \<Rightarrow> []"
  have "unique_keys (JObject ?inner)"
  proof (cases "map_of obj k")
    case (Some w)
    show ?thesis using unique_field [OF 3(2) Some] by (cases w) (simp_all add: Some)
  qed simp
  then show ?case using unique_obj_insert [OF 3(2) 3(1)] 3(3) by simp
qed (simp_all add: unique_obj_insert del: unique_keys.simps)

text \<open>What a body says of thinking has unique keys.\<close>

definition tidy_thinking :: "(string \<times> json) list \<Rightarrow> bool" where
  "tidy_thinking fs \<longleftrightarrow> (case map_of fs ''thinking'' of None \<Rightarrow> True | Some v \<Rightarrow> unique_keys v)"

lemma tidy_dotted:
  assumes "tidy_thinking fs" "unique_keys v"
  shows "tidy_thinking (insert_dotted path v fs)"
proof -
  have "tidy_thinking (insert_dotted_rec ks v fs)" for ks
  proof (cases ks)
    case (Cons k ks')
    show ?thesis
    proof (cases ks')
      case (Cons k' ks'')
      let ?inner = "case map_of fs k of Some (JObject gs) \<Rightarrow> gs | _ \<Rightarrow> []"
      have "unique_keys (JObject ?inner)" if "k = ''thinking''"
      proof (cases "map_of fs k")
        case (Some w)
        then show ?thesis using assms(1) that by (cases w) (auto simp: tidy_thinking_def)
      qed simp
      then have "k = ''thinking'' \<Longrightarrow> unique_keys (JObject (insert_dotted_rec (k' # ks'') v ?inner))"
        using assms(2) unique_dotted_rec by blast
      then show ?thesis using \<open>ks = k # ks'\<close> Cons assms(1)
        by (cases "k = ''thinking''") (simp_all add: tidy_thinking_def del: unique_keys.simps)
    qed (use Cons assms in \<open>simp add: tidy_thinking_def\<close>)
  qed (use assms in simp)
  then show ?thesis by (simp add: insert_dotted_def)
qed

lemma tidy_fields:
  "tidy_thinking fs \<Longrightarrow> \<forall>f \<in> set gs. unique_keys (snd f) \<Longrightarrow> tidy_thinking (insert_fields gs fs)"
  by (induction gs arbitrary: fs) (auto simp: insert_fields_def tidy_dotted)

definition unique_levels :: "thinking_map \<Rightarrow> bool" where
  "unique_levels tmap \<longleftrightarrow> list_all (\<lambda>l. unique_keys (snd l)) (tm_levels tmap)"

lemma tidy_level:
  assumes "unique_levels tmap" "tidy_thinking fs"
  shows "tidy_thinking (insert_level tmap key fs)"
proof (cases "map_of (tm_levels tmap) key")
  case (Some v)
  then have v: "unique_keys v" using assms(1) map_of_SomeD by (fastforce simp: unique_levels_def list_all_iff)
  show ?thesis
  proof (cases "\<exists>gs. v = JObject gs")
    case True
    then obtain gs where gs: "v = JObject gs" by blast
    then have "tidy_thinking (insert_fields gs fs)" using v by (intro tidy_fields [OF assms(2)]) simp
    then show ?thesis using Some gs by (simp add: insert_level_def)
  next
    case False
    then have "insert_level tmap key fs =
        (case scalar_field tmap of Some field \<Rightarrow> insert_dotted field v fs | None \<Rightarrow> fs)"
      using Some by (cases v) (auto simp: insert_level_def)
    then show ?thesis using assms(2) tidy_dotted [OF assms(2) v] by (auto split: option.split)
  qed
qed (use assms in \<open>simp add: insert_level_def\<close>)

definition thinking_says :: "string \<Rightarrow> (string \<times> json) list \<Rightarrow> json option" where
  "thinking_says k body = json_path [''thinking'', k] (JObject body)"

lemma split_thinking_type: "split_char CHR ''.'' ''thinking.type'' = [''thinking'', ''type'']"
  by code_simp

lemma dotted_type:
  "\<exists>th. map_of (insert_dotted ''thinking.type'' v fs) ''thinking'' = Some (JObject th) \<and> map_of th ''type'' = Some v"
  by (simp add: insert_dotted_def split_thinking_type)

lemma dropped_budget:
  assumes "tidy_thinking fs"
  shows "thinking_says ''budget_tokens'' (drop_budget fs) = None"
    and "k \<noteq> ''budget_tokens'' \<Longrightarrow> thinking_says k (drop_budget fs) = thinking_says k fs"
proof -
  consider th where "map_of fs ''thinking'' = Some (JObject th)" "distinct (map fst th)"
    | "drop_budget fs = fs" "\<And>k. thinking_says k fs = None"
  proof (cases "map_of fs ''thinking''")
    case (Some w)
    show ?thesis using that assms Some
      by (cases w) (simp_all add: drop_budget_def thinking_says_def tidy_thinking_def)
  qed (use that in \<open>simp add: drop_budget_def thinking_says_def\<close>)
  note cases = this
  show "thinking_says ''budget_tokens'' (drop_budget fs) = None"
    by (rule cases) (simp_all add: thinking_says_def drop_budget_def map_of_obj_remove)
  show "k \<noteq> ''budget_tokens'' \<Longrightarrow> thinking_says k (drop_budget fs) = thinking_says k fs"
    by (rule cases) (simp_all add: thinking_says_def drop_budget_def map_of_obj_remove)
qed

lemma adaptive_applied:
  assumes "is_adaptive (model_thinking cd (uc_model ctx))" "unique_levels (model_thinking cd (uc_model ctx))"
    and "rq_thinking req = Some level" "tidy_thinking fs"
  shows "thinking_says ''budget_tokens'' (apply_thinking_map cd ctx req fs) = None"
    and "level \<noteq> TL_Off \<Longrightarrow> thinking_says ''type'' (apply_thinking_map cd ctx req fs) = Some (JString ''adaptive'')"
proof -
  let ?t = "model_thinking cd (uc_model ctx)"
  let ?b = "if level = TL_Default then fs else insert_level ?t (thinking_as_key level) fs"
  have lv: "tidy_thinking (insert_level ?t (thinking_as_key level) fs)" by (rule tidy_level [OF assms(2,4)])
  then have d: "tidy_thinking (insert_dotted ''thinking.type'' (JString ''adaptive'') ?b)"
    using assms(4) by (intro tidy_dotted) simp_all
  show "thinking_says ''budget_tokens'' (apply_thinking_map cd ctx req fs) = None"
    using dropped_budget(1) [OF lv] dropped_budget(1) [OF d] assms(1,3)
    by (cases "level = TL_Off") (simp_all only: apply_thinking_map_def Let_def option.case if_True if_False refl)
  obtain th where "map_of (insert_dotted ''thinking.type'' (JString ''adaptive'') ?b) ''thinking'' = Some (JObject th)"
      "map_of th ''type'' = Some (JString ''adaptive'')"
    using dotted_type by blast
  then have "thinking_says ''type'' (insert_dotted ''thinking.type'' (JString ''adaptive'') ?b) = Some (JString ''adaptive'')"
    by (simp add: thinking_says_def)
  then show "level \<noteq> TL_Off \<Longrightarrow> thinking_says ''type'' (apply_thinking_map cd ctx req fs) = Some (JString ''adaptive'')"
    using dropped_budget(2) [OF d, of "''type''"] assms(1,3) by (simp add: apply_thinking_map_def Let_def)
qed

lemma fields_say_nothing: "map_of (anthropic_fields cd ctx req) ''thinking'' = None"
  by (simp add: anthropic_fields_def map_of_insert_some Let_def)

lemma tidy_replaced:
  assumes "unique_keys (JObject raw)"
  shows "tidy_thinking (replace_max_tokens n raw)"
proof -
  have d: "distinct (map fst raw)" "\<forall>v. map_of raw ''thinking'' = Some v \<longrightarrow> unique_keys v"
    using assms unique_field [OF assms] by auto
  have "map_of (replace_max_tokens n raw) ''thinking'' = map_of raw ''thinking''"
    using d(1) by (simp add: replace_max_tokens_def map_of_obj_remove distinct_obj_remove split: option.split)
  then show ?thesis using d(2) by (simp add: tidy_thinking_def split: option.split)
qed

text \<open>
  C23. Adaptive thinking is never sent with a budget. For a model whose thinking map is adaptive and a request that asks
  for a level other than off, the body the adapter builds says \<open>adaptive\<close> and has no \<open>budget_tokens\<close>, whatever the levels
  of the map and the extra fields of the model insert; and a passthrough body is rewritten the same way, whatever budget
  the client put in it.
\<close>
theorem adaptive_carries_no_budget:
  assumes "is_adaptive (model_thinking cd (uc_model ctx))" and "unique_levels (model_thinking cd (uc_model ctx))"
    and "rq_thinking req = Some level" and "level \<noteq> TL_Off" and "unique_keys (JObject raw)"
  shows "(\<exists>body. anthropic_build_body cd ctx req = Inr (JObject body) \<and>
      thinking_says ''type'' body = Some (JString ''adaptive'') \<and> thinking_says ''budget_tokens'' body = None) \<and>
    (\<exists>body. anthropic_normalize_passthrough cd ctx req (JObject raw) = Inr (JObject body) \<and>
      thinking_says ''type'' body = Some (JString ''adaptive'') \<and> thinking_says ''budget_tokens'' body = None)"
proof
  let ?b = "apply_thinking_map cd ctx req (anthropic_fields cd ctx req)"
  note built = adaptive_applied [OF assms(1-3), of "anthropic_fields cd ctx req"]
  have b: "thinking_says ''type'' ?b = Some (JString ''adaptive'')" "thinking_says ''budget_tokens'' ?b = None"
    using built assms(4) fields_say_nothing by (simp_all add: tidy_thinking_def)
  then obtain th where "map_of ?b ''thinking'' = Some th" by (auto simp: thinking_says_def split: option.splits)
  then have same: "thinking_says k (merge_extra cd (uc_model ctx) ?b) = thinking_says k ?b" for k
    using map_of_merge_extra [of ?b "''thinking''" th] by (simp add: thinking_says_def)
  then show "\<exists>body. anthropic_build_body cd ctx req = Inr (JObject body) \<and>
      thinking_says ''type'' body = Some (JString ''adaptive'') \<and> thinking_says ''budget_tokens'' body = None"
    using b by (simp add: anthropic_build_body_def)
  note rewritten = adaptive_applied [OF assms(1-3) tidy_replaced [OF assms(5)]]
  show "\<exists>body. anthropic_normalize_passthrough cd ctx req (JObject raw) = Inr (JObject body) \<and>
      thinking_says ''type'' body = Some (JString ''adaptive'') \<and> thinking_says ''budget_tokens'' body = None"
    using rewritten assms(1,3,4) by (simp add: anthropic_normalize_passthrough_def Let_def)
qed

definition adaptive_map :: thinking_map where
  "adaptive_map = \<lparr>tm_levels = [(''high'', JObject [(''thinking.budget_tokens'', jnat 9), (''effort'', JString ''high'')])],
     tm_mode = Some Adaptive, tm_budget_field = None, tm_level_field = None\<rparr>"

theorem adaptive_carries_no_budget_witness:
  "\<exists>cd ctx req body. rq_thinking req = Some TL_High \<and> is_adaptive (model_thinking cd (uc_model ctx)) \<and>
     anthropic_normalize_passthrough cd ctx req
       (JObject [(''thinking'', JObject [(''type'', JString ''enabled''), (''budget_tokens'', jnat 5)])]) = Inr (JObject body) \<and>
     thinking_says ''type'' body = Some (JString ''adaptive'') \<and> thinking_says ''budget_tokens'' body = None"
proof -
  let ?cd = "demo_codec\<lparr>de_thinking := (\<lambda>_. Some adaptive_map)\<rparr>"
  let ?ctx = "\<lparr>uc_provider = demo_provider ''p'' 1, uc_model = demo_model ''m1'' ''p'' 1, uc_account_id = None, uc_credential = ''k''\<rparr>"
  let ?req = "Admission.demo_request\<lparr>rq_thinking := Some TL_High\<rparr>"
  let ?raw = "[(''thinking'', JObject [(''type'', JString ''enabled''), (''budget_tokens'', jnat 5)])]"
  have m: "model_thinking ?cd (uc_model ?ctx) = adaptive_map" by (simp add: model_thinking_def unwrap_or_def)
  have a: "is_adaptive (model_thinking ?cd (uc_model ?ctx))" "unique_levels (model_thinking ?cd (uc_model ?ctx))"
    unfolding m by (simp_all add: adaptive_map_def is_adaptive_def unique_levels_def)
  have r: "rq_thinking ?req = Some TL_High" "TL_High \<noteq> TL_Off" "unique_keys (JObject ?raw)" by simp_all
  from adaptive_carries_no_budget [OF a r] a(1) r(1) show ?thesis by blast
qed

end
