(* ===== verification/Chat_Roundtrip.thy ===== *)
theory Chat_Roundtrip
  imports OpenAI_Adapter
begin

text \<open>
  The two ends of the OpenAI wire format against each other: what the encoder of \<^verbatim>\<open>src/src/frontends/openai.rs\<close> writes is
  what the adapter of \<^verbatim>\<open>src/src/adapters/openai.rs\<close> reads, through the framer of \<^verbatim>\<open>src/src/sse.rs\<close>; and a request the
  adapter builds is what the frontend decodes. The views say what the format cannot carry.
\<close>

section \<open>Streams\<close>

fun openai_run :: "stream_event list \<Rightarrow> openai_encoder \<Rightarrow> json list \<times> openai_encoder" where
  "openai_run [] e = ([], e)"
| "openai_run (ev # evs) e =
     (let (vs, e1) = openai_encode ev e; (ws, e2) = openai_run evs e1 in (vs @ ws, e2))"

text \<open>The values a stream carries, and its bytes: encoded event by event, then finalized.\<close>

definition openai_values :: "encoder_ctx \<Rightarrow> bool \<Rightarrow> stream_event list \<Rightarrow> json list" where
  "openai_values ctx include evs =
     (let (vs, e) = openai_run evs ((openai_encoder_new ctx)\<lparr>oe_include_usage := include\<rparr>) in vs @ fst (openai_closing e))"

definition openai_stream :: "codec \<Rightarrow> encoder_ctx \<Rightarrow> bool \<Rightarrow> stream_event list \<Rightarrow> string list" where
  "openai_stream cd ctx include evs =
     (let (vs, e) = openai_run evs ((openai_encoder_new ctx)\<lparr>oe_include_usage := include\<rparr>)
      in openai_frames cd vs @ fst (openai_finalize cd e))"

text \<open>
  The view of a client: empty deltas vanish, a refusal is text, signatures are lost, missing tool-call ids are made up,
  usage is shown once, when the stream finishes, and only what was known by then.
\<close>

definition wire_usage :: "token_usage \<Rightarrow> token_usage" where
  "wire_usage u = u\<lparr>tu_input := Some (unwrap_or (tu_input u) 0), tu_output := Some (unwrap_or (tu_output u) 0),
     tu_cache_write := None\<rparr>"

definition usage_view :: "bool \<Rightarrow> token_usage option \<Rightarrow> stream_event list" where
  "usage_view include u = (if include then list_of_option (map_option (\<lambda>x. Usage (wire_usage x)) u) else [])"

fun chat_view :: "string \<Rightarrow> bool \<Rightarrow> token_usage option \<Rightarrow> bool \<Rightarrow> stream_event list \<Rightarrow> stream_event list" where
  "chat_view cid inc u fin [] = (if fin then [] else stream_event.Finish Stop # usage_view inc u)"
| "chat_view cid inc u fin (Start _ # evs) = chat_view cid inc u fin evs"
| "chat_view cid inc u fin (TextDelta t # evs) = (if t = [] then [] else [TextDelta t]) @ chat_view cid inc u fin evs"
| "chat_view cid inc u fin (RefusalDelta t # evs) = (if t = [] then [] else [TextDelta t]) @ chat_view cid inc u fin evs"
| "chat_view cid inc u fin (ThinkingDelta t _ # evs) =
     (if t = [] then [] else [ThinkingDelta t None]) @ chat_view cid inc u fin evs"
| "chat_view cid inc u fin (ToolCallStart index i name _ # evs) =
     (if name = [] then []
      else [ToolCallStart (as_u32 index) (Some (unwrap_or i (''call_'' @ cid @ ''_'' @ show_nat index))) name None]) @
     chat_view cid inc u fin evs"
| "chat_view cid inc u fin (ToolCallArgsDelta index args # evs) =
     (if args = [] then [] else [ToolCallArgsDelta (as_u32 index) args]) @ chat_view cid inc u fin evs"
| "chat_view cid inc u fin (Usage v # evs) = chat_view cid inc (Some v) fin evs"
| "chat_view cid inc u fin (stream_event.Finish f # evs) =
     stream_event.Finish (openai_finish_reason (finish_as_str f)) # usage_view inc u @ chat_view cid inc u True evs"

lemmas event_defs = openai_events_def openai_choice_events_def openai_delta_events_def openai_call_events_def
  nonempty_str_def list_of_option_def opt_filter_def opt_or_def unwrap_or_def

lemma events_chunk:
  "openai_events (openai_chunk e delta None) = openai_delta_events delta"
  "openai_events (openai_chunk e (JObject []) (Some r)) = [stream_event.Finish (openai_finish_reason r)]"
  by (simp_all add: openai_chunk_def openai_envelope_def openai_events_def openai_choice_events_def list_of_option_def
      opt_or_def openai_delta_events_def nonempty_str_def opt_filter_def)

lemma events_usage_chunk: "openai_events (openai_usage_chunk e u) = [Usage (wire_usage u)]"
  by (cases "tu_cached u"; cases "tu_thinking u")
     (simp_all add: openai_usage_chunk_def openai_envelope_def openai_events_def openai_usage_object_def openai_usage_def
      wire_usage_def Let_def)

lemma events_usage_frames:
  "concat (map openai_events (openai_usage_frames e)) = usage_view (oe_include_usage e) (oe_usage e)"
  by (simp add: openai_usage_frames_def usage_view_def list_of_option_def events_usage_chunk split: option.split)

lemma delta_events:
  "openai_delta_events (JObject [(''role'', JString ''assistant''), (''content'', JString [])]) = []"
  "openai_delta_events (JObject [(''content'', JString t)]) = (if t = [] then [] else [TextDelta t])"
  "openai_delta_events (JObject [(''reasoning_content'', JString t)]) = (if t = [] then [] else [ThinkingDelta t None])"
  "openai_delta_events (openai_tool_delta call) = openai_call_events (JObject call)"
  by (simp_all add: openai_delta_events_def nonempty_str_def list_of_option_def opt_filter_def opt_or_def openai_tool_delta_def)

lemma call_events:
  "openai_call_events (JObject [(''index'', jnat index), (''id'', JString i), (''type'', JString ''function''),
     (''function'', JObject [(''name'', JString name), (''arguments'', JString [])])]) =
   (if name = [] then [] else [ToolCallStart (as_u32 index) (Some i) name None])"
  "openai_call_events (JObject [(''index'', jnat index), (''function'', JObject [(''arguments'', JString args)])]) =
   (if args = [] then [] else [ToolCallArgsDelta (as_u32 index) args])"
  by (simp_all add: openai_call_events_def nonempty_str_def list_of_option_def opt_filter_def unwrap_or_def Let_def)

lemma ensure_role_events:
  assumes "openai_ensure_role e = (vs, e')"
  shows "concat (map openai_events vs) = []" "oe_include_usage e' = oe_include_usage e" "oe_usage e' = oe_usage e"
    "oe_id e' = oe_id e" "oe_finish_sent e' = oe_finish_sent e"
  using assms by (auto simp: openai_ensure_role_def events_chunk delta_events split: if_splits)

text \<open>The view continued from an encoder.\<close>

abbreviation view_from :: "openai_encoder \<Rightarrow> stream_event list \<Rightarrow> stream_event list" where
  "view_from e \<equiv> chat_view (oe_id e) (oe_include_usage e) (oe_usage e) (oe_finish_sent e)"

lemma encode_step:
  assumes "openai_encode ev e = (vs, e')"
  shows "view_from e (ev # evs) = concat (map openai_events vs) @ view_from e' evs"
proof -
  obtain r e1 where r: "openai_ensure_role e = (r, e1)" using prod.exhaust by blast
  note role = ensure_role_events [OF r]
  show ?thesis
    using assms role
    by (cases ev) (auto simp: Let_def r events_chunk delta_events call_events events_usage_frames)
qed

lemma closing_events: "concat (map openai_events (fst (openai_closing e))) = view_from e []"
proof -
  obtain r e1 where r: "openai_ensure_role e = (r, e1)" using prod.exhaust by blast
  note role = ensure_role_events [OF r]
  show ?thesis using role by (simp add: openai_closing_def r events_chunk events_usage_frames openai_finish_reason_def)
qed

lemma run_events:
  "openai_run evs e = (vs, e') \<Longrightarrow> view_from e evs = concat (map openai_events vs) @ view_from e' []"
proof (induction evs arbitrary: e vs)
  case (Cons ev evs)
  obtain us e1 where 1: "openai_encode ev e = (us, e1)" using prod.exhaust by blast
  obtain ws e2 where 2: "openai_run evs e1 = (ws, e2)" using prod.exhaust by blast
  then have "vs = us @ ws" "e' = e2" using Cons.prems 1 by (auto simp: Let_def)
  then show ?case using encode_step [OF 1] Cons.IH 2 by simp
qed simp

lemma values_view:
  "concat (map openai_events (openai_values ctx include evs)) =
   chat_view (''chatcmpl-'' @ compact_id (ec_request_id ctx)) include None False evs"
proof -
  let ?e = "(openai_encoder_new ctx)\<lparr>oe_include_usage := include\<rparr>"
  obtain vs e where "openai_run evs ?e = (vs, e)" using prod.exhaust by blast
  from run_events [OF this] this show ?thesis
    by (simp add: openai_values_def closing_events openai_encoder_new_def)
qed

lemma stream_values: "openai_stream cd ctx include evs = openai_frames cd (openai_values ctx include evs) @ [DONE_FRAME]"
  by (simp add: openai_stream_def openai_values_def openai_finalize_def openai_frames_def Let_def split: prod.split)

section \<open>Bytes\<close>

text \<open>What \<^verbatim>\<open>serde_json\<close>'s compact printing guarantees: one line of valid UTF-8 that parses back.\<close>

definition prints :: "codec \<Rightarrow> json \<Rightarrow> bool" where
  "prints cd v \<longleftrightarrow> de_value cd (ser_value cd v) = Some v \<and> LF \<notin> set (ser_value cd v) \<and> CR \<notin> set (ser_value cd v)
     \<and> utf8_lossy (''data: '' @ ser_value cd v) = ''data: '' @ ser_value cd v"

lemma find_from_line:
  assumes "LF \<notin> set x" "CR \<notin> set x"
  shows "find_from (x @ LF # LF # rest) 0 = Some (length x, 2)"
proof -
  have "delim_at (x @ LF # LF # rest) k = None" if "k < length x" for k
  proof -
    have "x ! k \<noteq> LF" "x ! k \<noteq> CR" using that assms nth_mem by metis+
    then show ?thesis using that by (simp add: delim_at_def nth_append)
  qed
  then show ?thesis by (simp add: find_from_Some_iff delim_at_def nth_append)
qed

lemma split_raw_line:
  assumes "LF \<notin> set x" "CR \<notin> set x"
  shows "split_raw (x @ LF # LF # rest) = (x # fst (split_raw rest), snd (split_raw rest))"
  using split_raw_Some [OF find_from_line [OF assms]] by simp

lemma split_raw_frames:
  "\<forall>x \<in> set xs. LF \<notin> set x \<and> CR \<notin> set x \<Longrightarrow> split_raw (concat (map (\<lambda>x. x @ [LF, LF]) xs)) = (xs, [])"
  by (induction xs) (simp_all add: split_raw_line split_raw_Nil)

lemma split_char_none: "c \<notin> set s \<Longrightarrow> split_char c s = [s]"
  by (induction s) auto

lemma sse_frame_line: "LF \<notin> set d \<Longrightarrow> sse_frame None d = (''data: '' @ d) @ [LF, LF]"
  by (simp add: sse_frame_def split_char_none)

lemma normalize_crlf_none: "CR \<notin> set s \<Longrightarrow> normalize_crlf s = s"
  by (induction s rule: normalize_crlf.induct) auto

lemma lines_aux_line: "LF \<notin> set s \<Longrightarrow> CR \<notin> set s \<Longrightarrow> s @ acc \<noteq> [] \<Longrightarrow> lines_aux acc s = [rev acc @ s]"
  by (induction s arbitrary: acc) (auto split: list.split)

lemma extract_line:
  assumes "LF \<notin> set d" "CR \<notin> set d"
  shows "extract_data (''data: '' @ d) = Some d"
proof -
  have "str_lines (''data: '' @ d) = [''data: '' @ d]"
    using lines_aux_line [of "''data: '' @ d" "[]"] assms by (simp add: str_lines_def)
  then show ?thesis by (simp add: extract_data_def data_step_def unwrap_or_def)
qed

lemma render_lines:
  "\<forall>x \<in> set xs. x \<noteq> [] \<and> CR \<notin> set x \<and> utf8_lossy x = x \<Longrightarrow> render xs = xs"
  by (induction xs) (simp_all add: render_def emit_def normalize_crlf_none)

definition chat_lines :: "codec \<Rightarrow> json list \<Rightarrow> string list" where
  "chat_lines cd vs = map (\<lambda>v. ''data: '' @ ser_value cd v) vs @ [''data: [DONE]'']"

lemma stream_lines:
  assumes "\<forall>v \<in> set vs. prints cd v"
  shows "concat (openai_frames cd vs @ [DONE_FRAME]) = concat (map (\<lambda>x. x @ [LF, LF]) (chat_lines cd vs))"
proof -
  have "map (\<lambda>v. sse_frame None (ser_value cd v)) vs = map (\<lambda>v. (''data: '' @ ser_value cd v) @ [LF, LF]) vs"
    using assms by (auto simp: sse_frame_line prints_def)
  moreover have "DONE_FRAME = ''data: [DONE]'' @ [LF, LF]" by (rule DONE_FRAME_def)
  ultimately show ?thesis by (simp only: openai_frames_def chat_lines_def map_append map_map o_def list.map)
qed

lemma framed_lines:
  assumes "\<forall>v \<in> set vs. prints cd v"
    and "concat chunks = concat (map (\<lambda>x. x @ [LF, LF]) (chat_lines cd vs))"
    and "push_all (with_max_frame_bytes n) chunks = (f, Inr fs)"
  shows "fs = chat_lines cd vs" "fr_buffer f = []"
proof -
  have idle: "fr_buffer (with_max_frame_bytes n) = []" by (simp add: with_max_frame_bytes_def)
  have feed: "fs = render (fst (split_raw (concat chunks)))" "fr_buffer f = snd (split_raw (concat chunks))"
    using push_all_feed [OF framer_idle_init assms(3)] raw_split.feed_chunks_concat [OF split_raw_Nil, of chunks] idle
    by simp_all
  have lines: "\<forall>x \<in> set (chat_lines cd vs). x \<noteq> [] \<and> LF \<notin> set x \<and> CR \<notin> set x \<and> utf8_lossy x = x"
  proof -
    have "utf8_lossy ''data: [DONE]'' = ''data: [DONE]''" by code_simp
    then show ?thesis using assms(1) by (auto simp: chat_lines_def prints_def)
  qed
  then have "split_raw (concat chunks) = (chat_lines cd vs, [])" unfolding assms(2) by (intro split_raw_frames) blast
  then show "fs = chat_lines cd vs" "fr_buffer f = []" using feed render_lines lines by auto
qed

lemma parse_lines:
  assumes "\<forall>v \<in> set vs. prints cd v" and "\<forall>s. trim s = ''[DONE]'' \<longrightarrow> de_value cd s = None"
  shows "map (\<lambda>fr. map_option (openai_parse_stream_chunk cd je) (extract_data fr)) (chat_lines cd vs) =
    map (\<lambda>g. Some (Inr g)) (map openai_events vs @ [[]])"
proof -
  have "openai_parse_stream_chunk cd je (ser_value cd v) = Inr (openai_events v)" if "prints cd v" for v
    using that assms(2) by (auto simp: openai_parse_stream_chunk_def prints_def)
  moreover have "extract_data (''data: '' @ ser_value cd v) = Some (ser_value cd v)" if "prints cd v" for v
    using that by (intro extract_line) (simp_all add: prints_def)
  moreover have "extract_data ''data: [DONE]'' = Some ''[DONE]''" using extract_line [of "''[DONE]''"] by simp
  moreover have "trim ''[DONE]'' = ''[DONE]''" by code_simp
  ultimately show ?thesis using assms(1) by (auto simp: chat_lines_def openai_parse_stream_chunk_def)
qed

text \<open>
  C11. What the OpenAI encoder streams is what an OpenAI adapter reads. However the bytes of a finished stream are cut
  into chunks, a framer that accepts them ends with an empty buffer, every frame parses, and the events of the frames are
  the view of the encoded events: nothing is reordered, merged, repeated or invented.
\<close>
theorem chat_stream_roundtrip:
  assumes "\<forall>v \<in> set (openai_values ctx include evs). prints cd v"
    and "\<forall>s. trim s = ''[DONE]'' \<longrightarrow> de_value cd s = None"
    and "concat chunks = concat (openai_stream cd ctx include evs)"
    and "push_all (with_max_frame_bytes n) chunks = (f, Inr fs)"
  shows "fr_buffer f = [] \<and> (\<exists>groups.
     map (\<lambda>fr. map_option (openai_parse_stream_chunk cd je) (extract_data fr)) fs = map (\<lambda>g. Some (Inr g)) groups \<and>
     concat groups = chat_view (''chatcmpl-'' @ compact_id (ec_request_id ctx)) include None False evs)"
proof -
  let ?vs = "openai_values ctx include evs"
  have "concat chunks = concat (map (\<lambda>x. x @ [LF, LF]) (chat_lines cd ?vs))"
    using assms(1,3) stream_lines [of ?vs cd] by (simp add: stream_values del: concat_append)
  from framed_lines [OF assms(1) this assms(4)]
  have fs: "fs = chat_lines cd ?vs" "fr_buffer f = []" by auto
  have "map (\<lambda>fr. map_option (openai_parse_stream_chunk cd je) (extract_data fr)) fs =
      map (\<lambda>g. Some (Inr g)) (map openai_events ?vs @ [[]])"
    unfolding fs(1) by (rule parse_lines [OF assms(1,2)])
  moreover have "concat (map openai_events ?vs @ [[]]) =
      chat_view (''chatcmpl-'' @ compact_id (ec_request_id ctx)) include None False evs"
    using values_view by simp
  ultimately show ?thesis using fs(2) by blast
qed

section \<open>Late usage\<close>

lemma choice_events_no_usage: "Usage w \<notin> set (openai_choice_events c)"
proof -
  have "Usage w \<notin> set (openai_call_events tc)" for tc
    by (auto simp: openai_call_events_def list_of_option_def Let_def split: option.splits)
  then show ?thesis
    by (auto simp: openai_choice_events_def openai_delta_events_def list_of_option_def split: option.splits)
qed

lemma late_usage_unseen:
  "\<forall>w. Usage w \<notin> set xs \<Longrightarrow> fin \<or> (\<exists>f. stream_event.Finish f \<in> set xs) \<Longrightarrow>
   Usage w \<notin> set (chat_view cid inc None fin (xs @ [Usage u]))"
proof (induction xs arbitrary: fin)
  case (Cons x xs)
  then show ?case by (cases x) (auto simp: usage_view_def list_of_option_def)
qed simp

text \<open>
  C33. Usage that comes after the finish is not shown. In the adapter's own order the usage of a complete body follows the
  finish of its choices, and the encoder shows usage only together with the finish: whenever a body has both, the usage is
  among its events but not in the stream, even if the client asked for it.
\<close>
theorem late_usage_dropped:
  assumes "json_get v ''choices'' = Some (JArray cs)" and "c \<in> set cs" and "get_str c ''finish_reason'' = Some r"
    and "json_get v ''usage'' = Some u" and "u \<noteq> JNull"
  shows "Usage (openai_usage u) \<in> set (openai_events v) \<and>
     (\<forall>w. Usage w \<notin> set (concat (map openai_events (openai_values ctx True (openai_events v)))))"
proof -
  let ?xs = "concat (map openai_choice_events cs)"
  have ev: "openai_events v = ?xs @ [Usage (openai_usage u)]" using assms by (simp add: openai_events_def)
  have "stream_event.Finish (openai_finish_reason r) \<in> set (openai_choice_events c)"
    using assms(3) by (simp add: openai_choice_events_def list_of_option_def)
  then have "\<exists>f. stream_event.Finish f \<in> set ?xs" using assms(2) by auto
  moreover have "\<forall>w. Usage w \<notin> set ?xs" using choice_events_no_usage by auto
  ultimately show ?thesis using late_usage_unseen [of ?xs False] by (simp only: values_view ev) simp
qed

theorem late_usage_dropped_witness:
  "\<exists>v ctx. Usage (openai_usage (JObject [(''prompt_tokens'', jnat 7)])) \<in> set (openai_events v) \<and>
     (\<forall>w. Usage w \<notin> set (concat (map openai_events (openai_values ctx True (openai_events v)))))"
proof -
  let ?c = "JObject [(''message'', JObject [(''content'', JString ''hi'')]), (''finish_reason'', JString ''stop'')]"
  let ?v = "JObject [(''choices'', JArray [?c]), (''usage'', JObject [(''prompt_tokens'', jnat 7)])]"
  let ?ctx = "\<lparr>ec_model_name = ''m'', ec_request_id = ''r'', ec_created = 0, ec_responses = responses_fields_default\<rparr>"
  show ?thesis
    using late_usage_dropped [of ?v "[?c]" ?c "''stop''" "JObject [(''prompt_tokens'', jnat 7)]" ?ctx] by fastforce
qed

section \<open>Requests\<close>

text \<open>
  What a message becomes on the wire and back: the text of a message without images is one part, an assistant's thinking is
  lost and its text goes before its calls, each tool result is a message of its own.
\<close>

fun call_view :: "part \<Rightarrow> part option" where
  "call_view (ToolCall i name args _) =
     (if name = [] then None else Some (ToolCall (Some (unwrap_or i (''call_'' @ name))) name args None))"
| "call_view _ = None"

fun result_view :: "part \<Rightarrow> message option" where
  "result_view (ToolResult call_id _ content _) =
     Some \<lparr>msg_role = Tool, msg_parts = [ToolResult call_id None content False]\<rparr>"
| "result_view _ = None"

fun picture_view :: "part \<Rightarrow> part option" where
  "picture_view (Text t) = Some (Text t)"
| "picture_view (Image d) = Some (Image d)"
| "picture_view _ = None"

definition text_view :: "part list \<Rightarrow> part list" where
  "text_view ps = (if joined_text ps = [] then [] else [Text (joined_text ps)])"

definition chat_message :: "message \<Rightarrow> message list" where
  "chat_message m =
     (case msg_role m of
        Assistant \<Rightarrow> [\<lparr>msg_role = Assistant, msg_parts = text_view (msg_parts m) @ List.map_filter call_view (msg_parts m)\<rparr>]
      | Tool \<Rightarrow> List.map_filter result_view (msg_parts m)
      | _ \<Rightarrow> [\<lparr>msg_role = User, msg_parts = (if list_ex is_image (msg_parts m)
                 then List.map_filter picture_view (msg_parts m) else text_view (msg_parts m))\<rparr>])"

definition tool_view :: "tool_def \<Rightarrow> tool_def" where
  "tool_view t = t\<lparr>tool_description := Some (unwrap_or (tool_description t) []),
     tool_parameters := (if tool_parameters t = JNull
        then JObject [(''type'', JString ''object''), (''properties'', JObject [])] else tool_parameters t),
     tool_defer_loading := None\<rparr>"

text \<open>Images the wire keeps apart: a media type without a comma, a link that is not itself a data URL.\<close>

fun image_fits :: "part \<Rightarrow> bool" where
  "image_fits (Image (Base64 mime data)) \<longleftrightarrow> CHR '','' \<notin> set mime"
| "image_fits (Image (Url url)) \<longleftrightarrow> parse_data_url url = None"
| "image_fits _ \<longleftrightarrow> True"

lemma strip_prefix_self [simp]: "strip_prefix p (p @ s) = Some s"
  by (induction p) auto

lemma split_once_first: "c \<notin> set a \<Longrightarrow> split_once c (a @ c # b) = Some (a, b)"
  by (induction a) auto

lemma parse_built_url: "CHR '','' \<notin> set mime \<Longrightarrow> parse_data_url (''data:'' @ mime @ '';base64,'' @ data) = Some (mime, data)"
proof -
  assume m: "CHR '','' \<notin> set mime"
  have "split_once CHR '','' ((mime @ '';base64'') @ CHR '','' # data) = Some (mime @ '';base64'', data)"
    using m by (intro split_once_first) auto
  moreover have "strip_suffix '';base64'' (mime @ '';base64'') = Some mime"
    using strip_prefix_self [of "rev '';base64''" "rev mime"] by (simp add: strip_suffix_def)
  moreover have "strip_prefix ''data:'' (''data:'' @ x) = Some x" for x by (rule strip_prefix_self)
  ultimately show ?thesis by (simp add: parse_data_url_def unwrap_or_def)
qed

lemma map_filter_cong2:
  "(\<And>x. x \<in> set xs \<Longrightarrow> Option.bind (f x) g = h x) \<Longrightarrow> List.map_filter g (List.map_filter f xs) = List.map_filter h xs"
proof (induction xs)
  case (Cons x xs)
  have "List.map_filter g (List.map_filter f xs) = List.map_filter h xs" using Cons by simp
  then show ?case using Cons.prems [of x] by (cases "f x") (auto simp: List.map_filter_simps split: option.splits)
qed (simp add: List.map_filter_simps)

lemma part_of_item: "image_fits p \<Longrightarrow> Option.bind (openai_content_item p) openai_part = picture_view p"
proof (cases p)
  case (Image d)
  then show "image_fits p \<Longrightarrow> ?thesis"
    using parse_built_url
    by (cases d) (simp_all add: openai_part_def image_url_of_def opt_or_def unwrap_or_def Let_def)
qed (simp_all add: openai_part_def unwrap_or_def Let_def)

lemma content_parts_value:
  assumes "\<forall>p \<in> set ps. image_fits p"
  shows "openai_content_parts (Some (openai_content_value ps)) =
    (if list_ex is_image ps then List.map_filter picture_view ps else text_view ps)"
  using assms by (auto simp: openai_content_parts_def openai_content_value_def text_view_def part_of_item intro!: map_filter_cong2)

lemma call_of_item: "Option.bind (openai_call_item p) (openai_tool_call cd) = call_view p"
  by (cases p) (simp_all add: openai_tool_call_def unwrap_or_def Let_def)

lemma message_of_result:
  "Option.bind (openai_result_item p) (\<lambda>v. Some (openai_message cd v)) = map_option (\<lambda>m. ([], [m])) (result_view p)"
  by (cases p) (simp_all add: openai_message_def openai_content_as_text_def unwrap_or_def Let_def)

lemma map_filter_map2: "map f (List.map_filter g xs) = List.map_filter (\<lambda>x. map_option f (g x)) xs"
  by (induction xs) (simp_all add: List.map_filter_simps split: option.split)

lemma decode_assistant:
  "openai_content_parts (Some (if joined_text ps \<noteq> [] then JString (joined_text ps) else JNull)) = text_view ps"
  by (simp add: openai_content_parts_def text_view_def)

lemma decode_wire_message:
  assumes "\<forall>p \<in> set (msg_parts m). image_fits p"
  shows "map (openai_message cd) (openai_wire_message m) = map (\<lambda>x. ([], [x])) (chat_message m)"
proof (cases "msg_role m")
  case Assistant
  have calls: "List.map_filter (openai_tool_call cd) (List.map_filter openai_call_item (msg_parts m)) =
      List.map_filter call_view (msg_parts m)"
    by (intro map_filter_cong2 call_of_item)
  have none: "List.map_filter openai_call_item ps = [] \<Longrightarrow> List.map_filter call_view ps = []" for ps
    by (induction ps) (auto simp: List.map_filter_simps split: option.splits elim: openai_call_item.elims)
  show ?thesis
    using Assistant calls none [of "msg_parts m"] decode_assistant [of "msg_parts m"]
    by (auto simp: openai_wire_message_def chat_message_def openai_message_def openai_reasoning_def openai_tool_calls_def
        unwrap_or_def opt_or_def Let_def)
next
  case Tool
  have "map (openai_message cd) (List.map_filter openai_result_item ps) = map (\<lambda>x. ([], [x])) (List.map_filter result_view ps)" for ps
    unfolding map_filter_map2
  proof (induction ps)
    case (Cons p ps)
    then show ?case using message_of_result [of p cd]
      by (cases "openai_result_item p"; cases "result_view p") (auto simp: List.map_filter_simps)
  qed (simp add: List.map_filter_simps)
  then show ?thesis using Tool by (simp add: openai_wire_message_def chat_message_def)
qed (use assms content_parts_value [of "msg_parts m"] in
      \<open>simp_all add: openai_wire_message_def chat_message_def openai_message_def unwrap_or_def Let_def\<close>)

lemma decode_messages:
  assumes "\<forall>m \<in> set (rq_messages req). \<forall>p \<in> set (msg_parts m). image_fits p"
  shows "concat (map fst (map (openai_message cd) (openai_build_messages req))) = filter (\<lambda>s. s \<noteq> []) (rq_system req)"
    "concat (map snd (map (openai_message cd) (openai_build_messages req))) = concat (map chat_message (rq_messages req))"
proof -
  have sys: "map (openai_message cd) (map (\<lambda>s. JObject [(''role'', JString ''system''), (''content'', JString s)]) ss) =
      map (\<lambda>s. (if s = [] then [] else [s], [])) ss" for ss
    by (simp add: openai_message_def openai_content_as_text_def unwrap_or_def)
  have pick: "concat (map fst (map (\<lambda>s. (if s = [] then [] else [s], [] :: message list)) ss)) = filter (\<lambda>s. s \<noteq> []) ss"
    "concat (map snd (map (\<lambda>s. (if s = [] then [] else [s], [] :: message list)) ss)) = []" for ss :: "string list"
    by (induction ss) auto
  have msgs: "map (openai_message cd) (concat (map openai_wire_message ms)) = map (\<lambda>x. ([], [x])) (concat (map chat_message ms))"
    if "\<forall>m \<in> set ms. \<forall>p \<in> set (msg_parts m). image_fits p" for ms
    using that by (induction ms) (simp_all add: decode_wire_message)
  have lift: "concat (map fst (map (\<lambda>x. ([] :: string list, [x])) xs)) = []" "concat (map snd (map (\<lambda>x. ([] :: string list, [x])) xs)) = xs"
    for xs :: "message list" by (induction xs) auto
  show "concat (map fst (map (openai_message cd) (openai_build_messages req))) = filter (\<lambda>s. s \<noteq> []) (rq_system req)"
    "concat (map snd (map (openai_message cd) (openai_build_messages req))) = concat (map chat_message (rq_messages req))"
    unfolding openai_build_messages_def map_append concat_append sys msgs [OF assms] pick lift by simp_all
qed

text \<open>Optional fields and an administrator's extra fields do not replace what is always there.\<close>

lemma map_of_param: "map_of (openai_param specs (key, v) body) k = map_of body k" if "k \<noteq> key"
  using that by (auto simp: openai_param_def Let_def split: option.split)

lemma map_of_option_fields:
  assumes "map_of body k = Some x" "k \<notin> {''temperature'', ''top_p'', ''top_k'', ''max_tokens'', ''stop'', ''seed'',
    ''presence_penalty'', ''frequency_penalty'', ''tools'', ''tool_choice''}"
  shows "map_of (openai_option_fields cd ctx req body) k = Some x"
proof -
  have key: "map_of (case field_str (rq_extra req) ''prompt_cache_key'' of
      Some key \<Rightarrow> insert_absent ''prompt_cache_key'' (JString key) b | None \<Rightarrow> b) k = Some x" if "map_of b k = Some x" for b
    using that by (simp add: map_of_insert_absent split: option.split)
  show ?thesis
    unfolding openai_option_fields_def Let_def
    using assms by (simp add: map_of_insert_some map_of_param key)
qed

lemma map_of_tools:
  assumes "rq_tools req \<noteq> []"
  shows "map_of (openai_option_fields cd ctx req body) ''tools'' = Some (JArray (map openai_tool_item (rq_tools req)))"
proof -
  have "map_of (insert_some ''tools'' (Some v) b) ''tools'' = Some v" for v b by (simp add: insert_some_def)
  then show ?thesis using assms by (simp add: openai_option_fields_def Let_def map_of_insert_some openai_build_tools_def)
qed

lemma tool_of_item: "openai_tool (openai_tool_item t) = Some (tool_view t)"
  by (simp add: openai_tool_def openai_tool_item_def tool_view_def unwrap_or_def opt_or_def Let_def)

text \<open>
  What the adapter sends of a sampling parameter: the request's value within the bounds the model's profile configures, or
  the configured default, unless the model does not support the parameter.
\<close>

definition sent_param :: "(string \<times> param_spec) list \<Rightarrow> string \<Rightarrow> f64 option \<Rightarrow> f64 option" where
  "sent_param specs key value =
     (case map_of specs key of
        None \<Rightarrow> value
      | Some s \<Rightarrow>
          if \<not> ps_supported s then None
          else case value of
                 None \<Rightarrow> ps_default s
               | Some v \<Rightarrow>
                   let v1 = (case ps_min s of Some lo \<Rightarrow> max v lo | None \<Rightarrow> v)
                   in Some (case ps_max s of Some hi \<Rightarrow> min v1 hi | None \<Rightarrow> v1))"

definition sent_limit :: "model_row \<Rightarrow> nat \<Rightarrow> nat option" where
  "sent_limit m n =
     (let k = (case md_max_output_tokens m of Some limit \<Rightarrow> min (int n) limit | None \<Rightarrow> int n)
      in if k < 0 then None else Some (nat k))"

text \<open>The request a client decodes from the body the adapter builds for a model without extra fields.\<close>

definition chat_request_view :: "codec \<Rightarrow> upstream_context \<Rightarrow> internal_request \<Rightarrow> internal_request" where
  "chat_request_view cd ctx req =
     (let specs = model_params cd (uc_model ctx); ps = rq_params req;
          (ms, unresolved) = resolve_tool_result_names (concat (map chat_message (rq_messages req)))
      in \<lparr>requested_model = md_upstream_id (uc_model ctx), rq_system = filter (\<lambda>s. s \<noteq> []) (rq_system req), rq_messages = ms,
          rq_tools = map tool_view (rq_tools req),
          rq_tool_choice = Some (unwrap_or (rq_tool_choice req) TC_Auto),
          rq_tool_choice_name =
            (if rq_tool_choice req = Some TC_Specific then Some (unwrap_or (rq_tool_choice_name req) []) else None),
          rq_params = ps\<lparr>sp_temperature := sent_param specs ''temperature'' (sp_temperature ps),
            sp_top_p := sent_param specs ''top_p'' (sp_top_p ps), sp_top_k := sent_param specs ''top_k'' (sp_top_k ps),
            sp_max_tokens := Option.bind (sp_max_tokens ps) (sent_limit (uc_model ctx))\<rparr>,
          rq_stream = True, rq_include_usage = True, rq_thinking = None,
          rq_extra = attach_translation_issues unresolved
            (case field_str (rq_extra req) ''prompt_cache_key'' of
               Some key \<Rightarrow> [(''prompt_cache_key'', JString key)] | None \<Rightarrow> []),
          rq_raw_body = None\<rparr>)"

lemma openai_param_sent:
  "openai_param specs (k, v) body = insert_some k (map_option (\<lambda>x. JNumber (Float x)) (sent_param specs k v)) body"
  by (auto simp: openai_param_def sent_param_def insert_some_def Let_def split: option.split)

lemma map_of_insert_some_at: "map_of (insert_some k v b) k' = (if k' = k \<and> v \<noteq> None then v else map_of b k')"
  by (auto simp: insert_some_def split: option.split)

lemma filter_insert_some: "\<not> P k \<Longrightarrow> filter (\<lambda>(k, _). P k) (insert_some k v b) = filter (\<lambda>(k, _). P k) b"
proof -
  have "\<not> P k \<Longrightarrow> filter (\<lambda>(k, _). P k) (obj_insert k w b) = filter (\<lambda>(k, _). P k) b" for w
    by (induction k w b rule: obj_insert.induct) auto
  then show "\<not> P k \<Longrightarrow> ?thesis" by (auto simp: insert_some_def split: option.split)
qed

text \<open>What the adapter writes is representable, so the decoder finds no issue with it.\<close>

lemma enumerate_quiet: "(\<And>i v. v \<in> set xs \<Longrightarrow> f (i, v) = []) \<Longrightarrow> concat (map f (enumerate n xs)) = []"
  by (induction xs arbitrary: n) auto

lemma built_item:
  assumes "v \<in> set (List.map_filter openai_content_item ps)"
  obtains (words) t where "v = JObject [(''type'', JString ''text''), (''text'', JString t)]"
  | (picture) u where "v = JObject [(''type'', JString ''image_url''), (''image_url'', JObject [(''url'', JString u)])]"
proof -
  obtain p where "openai_content_item p = Some v" using assms by (auto simp: List.map_filter_def)
  then show thesis using words picture by (cases p rule: openai_content_item.cases) auto
qed

lemma built_content_issues: "openai_content_issues path (Some (openai_content_value ps)) False = []"
proof (cases "list_ex is_image ps")
  case True
  show ?thesis
    unfolding openai_content_value_def openai_content_issues_def if_not_P [OF not_not [THEN iffD2, OF True]] option.case json.case
  proof (rule enumerate_quiet, goal_cases)
    case (1 i v)
    then show ?case by (cases rule: built_item) (simp_all add: image_url_of_def opt_or_def unwrap_or_def)
  qed
qed (simp add: openai_content_value_def openai_content_issues_def)

lemma text_no_issues [simp]:
  "openai_content_issues path (Some (JString s)) b = []" "openai_content_issues path (Some JNull) b = []"
  by (simp_all add: openai_content_issues_def)

lemma built_message_issues: "v \<in> set (openai_wire_message m) \<Longrightarrow> openai_message_issues i v = []"
proof (cases "msg_role m")
  case Tool
  assume "v \<in> set (openai_wire_message m)"
  then obtain p where "openai_result_item p = Some v" using Tool by (auto simp: openai_wire_message_def List.map_filter_def)
  then show ?thesis
    by (cases p) (auto simp: openai_message_issues_def unwrap_or_def is_some_and_def List.map_filter_simps Let_def)
qed (auto simp: openai_wire_message_def openai_message_issues_def built_content_issues unwrap_or_def is_some_and_def
      List.map_filter_simps Let_def)

lemma built_issues:
  "concat (map (\<lambda>(i, m). openai_message_issues i m) (enumerate 0 (openai_build_messages req))) = []"
  "concat (map (\<lambda>(i, t). openai_tool_issues i t) (enumerate 0 (map openai_tool_item ts))) = []"
proof -
  have "openai_message_issues i v = []" if "v \<in> set (openai_build_messages req)" for i v
  proof -
    note built = that
    consider (system) t where "v = JObject [(''role'', JString ''system''), (''content'', JString t)]"
      | (turn) m where "v \<in> set (openai_wire_message m)"
      using built by (auto simp: openai_build_messages_def)
    then show ?thesis
    proof cases
      case system
      then show ?thesis
        by (simp add: openai_message_issues_def unwrap_or_def is_some_and_def List.map_filter_simps Let_def)
    qed (rule built_message_issues)
  qed
  then show "concat (map (\<lambda>(i, m). openai_message_issues i m) (enumerate 0 (openai_build_messages req))) = []"
    by (intro enumerate_quiet) simp
  have "openai_tool_issues i (openai_tool_item t) = []" for i t
    by (simp add: openai_tool_issues_def openai_tool_item_def unwrap_or_def)
  then show "concat (map (\<lambda>(i, t). openai_tool_issues i t) (enumerate 0 (map openai_tool_item ts))) = []"
    by (intro enumerate_quiet) auto
qed

text \<open>The options a body without extra fields says, read back.\<close>

lemma option_fields:
  fixes cd ctx req
  defines "obj \<equiv> openai_option_fields cd ctx req (openai_fixed_fields ctx req)" and "ps \<equiv> rq_params req"
    and "specs \<equiv> model_params cd (uc_model ctx)"
  shows "map_of obj ''temperature'' = map_option (\<lambda>x. JNumber (Float x)) (sent_param specs ''temperature'' (sp_temperature ps))"
    "map_of obj ''top_p'' = map_option (\<lambda>x. JNumber (Float x)) (sent_param specs ''top_p'' (sp_top_p ps))"
    "map_of obj ''top_k'' = map_option (\<lambda>x. JNumber (Float x)) (sent_param specs ''top_k'' (sp_top_k ps))"
    "map_of obj ''max_tokens'' = map_option (capped_tokens (uc_model ctx)) (sp_max_tokens ps)"
    "map_of obj ''max_completion_tokens'' = None"
    "map_of obj ''stop'' = (if sp_stop ps = [] then None else Some (JArray (map JString (sp_stop ps))))"
    "map_of obj ''seed'' = map_option json_int (sp_seed ps)"
    "map_of obj ''presence_penalty'' = map_option (\<lambda>p. JNumber (Float p)) (sp_presence_penalty ps)"
    "map_of obj ''frequency_penalty'' = map_option (\<lambda>p. JNumber (Float p)) (sp_frequency_penalty ps)"
    "map_of obj ''tools'' = openai_build_tools req"
    "map_of obj ''tool_choice'' = openai_build_tool_choice req"
    "map_of obj ''reasoning_effort'' = None"
    "filter (\<lambda>(k, _). k \<notin> set OPENAI_KNOWN) obj = (case field_str (rq_extra req) ''prompt_cache_key'' of
       Some key \<Rightarrow> [(''prompt_cache_key'', JString key)] | None \<Rightarrow> [])"
proof -
  have key: "map_of (case c of Some key \<Rightarrow> insert_absent ''prompt_cache_key'' (JString key) b | None \<Rightarrow> b) k = map_of b k"
    if "k \<noteq> ''prompt_cache_key''" for c b k
    using that by (simp add: insert_absent_def map_add_def split: option.split)
  note at_key = obj_def openai_option_fields_def Let_def openai_param_sent map_of_insert_some_at key openai_fixed_fields_def
    fold_simps ps_def [symmetric] specs_def [symmetric]
  show "map_of obj ''temperature'' = map_option (\<lambda>x. JNumber (Float x)) (sent_param specs ''temperature'' (sp_temperature ps))"
    by (simp add: at_key)
  show "map_of obj ''top_p'' = map_option (\<lambda>x. JNumber (Float x)) (sent_param specs ''top_p'' (sp_top_p ps))" by (simp add: at_key)
  show "map_of obj ''top_k'' = map_option (\<lambda>x. JNumber (Float x)) (sent_param specs ''top_k'' (sp_top_k ps))" by (simp add: at_key)
  show "map_of obj ''max_tokens'' = map_option (capped_tokens (uc_model ctx)) (sp_max_tokens ps)" by (simp add: at_key)
  show "map_of obj ''max_completion_tokens'' = None" by (simp add: at_key)
  show "map_of obj ''stop'' = (if sp_stop ps = [] then None else Some (JArray (map JString (sp_stop ps))))" by (simp add: at_key)
  show "map_of obj ''seed'' = map_option json_int (sp_seed ps)" by (simp add: at_key)
  show "map_of obj ''presence_penalty'' = map_option (\<lambda>p. JNumber (Float p)) (sp_presence_penalty ps)" by (simp add: at_key)
  show "map_of obj ''frequency_penalty'' = map_option (\<lambda>p. JNumber (Float p)) (sp_frequency_penalty ps)" by (simp add: at_key)
  show "map_of obj ''tools'' = openai_build_tools req" by (simp add: at_key)
  show "map_of obj ''tool_choice'' = openai_build_tool_choice req" by (simp add: at_key)
  show "map_of obj ''reasoning_effort'' = None" by (simp add: at_key)
  have known: "k \<in> set OPENAI_KNOWN \<Longrightarrow>
      filter (\<lambda>(k, _). k \<notin> set OPENAI_KNOWN) (insert_some k v b) = filter (\<lambda>(k, _). k \<notin> set OPENAI_KNOWN) b" for k v b
    by (rule filter_insert_some) simp
  have keys: "''temperature'' \<in> set OPENAI_KNOWN" "''top_p'' \<in> set OPENAI_KNOWN" "''top_k'' \<in> set OPENAI_KNOWN"
    "''max_tokens'' \<in> set OPENAI_KNOWN" "''stop'' \<in> set OPENAI_KNOWN" "''seed'' \<in> set OPENAI_KNOWN"
    "''presence_penalty'' \<in> set OPENAI_KNOWN" "''frequency_penalty'' \<in> set OPENAI_KNOWN" "''tools'' \<in> set OPENAI_KNOWN"
    "''tool_choice'' \<in> set OPENAI_KNOWN" "''prompt_cache_key'' \<notin> set OPENAI_KNOWN"
    by (simp_all add: OPENAI_KNOWN_def)
  have fixed: "filter (\<lambda>(k, _). k \<notin> set OPENAI_KNOWN) (openai_fixed_fields ctx req) = []"
    by (simp add: openai_fixed_fields_def OPENAI_KNOWN_def)
  have absent: "filter (\<lambda>(k, _). k \<notin> set OPENAI_KNOWN) (insert_absent ''prompt_cache_key'' v b) =
      filter (\<lambda>(k, _). k \<notin> set OPENAI_KNOWN) b @ [(''prompt_cache_key'', v)]" if "map_of b ''prompt_cache_key'' = None" for v b
    using that keys(11) by (simp add: insert_absent_def)
  have none: "map_of (insert_some ''frequency_penalty'' f (insert_some ''presence_penalty'' e (insert_some ''seed'' d
      (insert_some ''stop'' c (insert_some ''max_tokens'' b (insert_some ''top_k'' k (insert_some ''top_p'' p
        (insert_some ''temperature'' t (openai_fixed_fields ctx req))))))))) ''prompt_cache_key'' = None" for f e d c b k p t
    by (simp add: map_of_insert_some_at openai_fixed_fields_def)
  show "filter (\<lambda>(k, _). k \<notin> set OPENAI_KNOWN) obj = (case field_str (rq_extra req) ''prompt_cache_key'' of
       Some key \<Rightarrow> [(''prompt_cache_key'', JString key)] | None \<Rightarrow> [])"
    unfolding obj_def openai_option_fields_def Let_def openai_param_sent fold_simps known [OF keys(9)] known [OF keys(10)]
    by (cases "field_str (rq_extra req) ''prompt_cache_key''")
      (simp_all only: option.case known [OF keys(1)] known [OF keys(2)] known [OF keys(3)] known [OF keys(4)] known [OF keys(5)]
        known [OF keys(6)] known [OF keys(7)] known [OF keys(8)] fixed absent [OF none] append_Nil)
qed

lemma options_read:
  fixes cd ctx req
  defines "obj \<equiv> openai_option_fields cd ctx req (openai_fixed_fields ctx req)" and "ps \<equiv> rq_params req"
    and "specs \<equiv> model_params cd (uc_model ctx)"
  assumes "\<forall>n. sp_max_tokens ps = Some n \<longrightarrow> n < 2 ^ 32" and "\<forall>i. sp_seed ps = Some i \<longrightarrow> i \<le> I64_MAX"
  shows "openai_params obj = ps\<lparr>sp_temperature := sent_param specs ''temperature'' (sp_temperature ps),
      sp_top_p := sent_param specs ''top_p'' (sp_top_p ps), sp_top_k := sent_param specs ''top_k'' (sp_top_k ps),
      sp_max_tokens := Option.bind (sp_max_tokens ps) (sent_limit (uc_model ctx))\<rparr>"
    "openai_tool_choice (map_of obj ''tool_choice'') = (Some (unwrap_or (rq_tool_choice req) TC_Auto),
      if rq_tool_choice req = Some TC_Specific then Some (unwrap_or (rq_tool_choice_name req) []) else None)"
proof -
  note opts = option_fields [where cd = cd and ctx = ctx and req = req, folded obj_def ps_def specs_def]
  have float: "Option.bind (map_option (\<lambda>x. JNumber (Float x)) v) json_as_f64 = v" for v by (cases v) simp_all
  have seed: "Option.bind (map_option json_int (sp_seed ps)) json_as_i64 = sp_seed ps"
    using assms(5) by (cases "sp_seed ps") (auto simp: json_int_def)
  have limit: "map_option as_u32 (Option.bind (opt_or (map_option (capped_tokens (uc_model ctx)) (sp_max_tokens ps)) None) as_u64) =
      Option.bind (sp_max_tokens ps) (sent_limit (uc_model ctx))"
  proof (cases "sp_max_tokens ps")
    case (Some n)
    then have "nat (min (int n) k) < 2 ^ 32" "n < 2 ^ 32" for k using assms(4) by (auto simp: min_def nat_less_iff)
    then show ?thesis
      using Some by (auto simp: capped_tokens_def json_int_def sent_limit_def as_u32_def opt_or_def Let_def split: option.splits)
  qed (simp add: opt_or_def)
  have stop: "openai_stop (if sp_stop ps = [] then None else Some (JArray (map JString (sp_stop ps)))) = sp_stop ps"
  proof -
    have "List.map_filter as_str (map JString xs) = xs" for xs by (induction xs) (simp_all add: List.map_filter_simps)
    then show ?thesis by (simp add: openai_stop_def)
  qed
  show "openai_params obj = ps\<lparr>sp_temperature := sent_param specs ''temperature'' (sp_temperature ps),
      sp_top_p := sent_param specs ''top_p'' (sp_top_p ps), sp_top_k := sent_param specs ''top_k'' (sp_top_k ps),
      sp_max_tokens := Option.bind (sp_max_tokens ps) (sent_limit (uc_model ctx))\<rparr>"
    unfolding openai_params_def opts float seed limit stop by simp
  show "openai_tool_choice (map_of obj ''tool_choice'') = (Some (unwrap_or (rq_tool_choice req) TC_Auto),
      if rq_tool_choice req = Some TC_Specific then Some (unwrap_or (rq_tool_choice_name req) []) else None)"
    unfolding opts
    by (auto simp: openai_build_tool_choice_def openai_tool_choice_def unwrap_or_def split: option.split tool_choice.split)
qed

text \<open>
  C14. A request the OpenAI adapter builds is decoded again by the OpenAI frontend to the same request. For a request
  without a thinking level, and images whose form the wire keeps apart, decoding the built body succeeds, and whatever
  fields the model's administrator adds, the model is the upstream's, the system texts are the non-empty ones, the
  messages are the views of the messages with the names of tool results resolved, the tools are the views of the tools, and
  the body asks for a stream with usage. For a model without such added fields, and a token limit and a seed of the source's
  types, the decoded request as a whole is the view: it has the sampling parameters as the model's profile lets them
  through, the token limit capped at the model's, and the stop texts, seed, penalties, tool choice and cache key sent.
\<close>
theorem chat_request_roundtrip:
  assumes "rq_thinking req = None" and "\<forall>m \<in> set (rq_messages req). \<forall>p \<in> set (msg_parts m). image_fits p"
  shows "\<exists>body req'. openai_build_body cd ctx req = Inr body \<and> openai_decode_request cd body = Inr req' \<and>
     requested_model req' = md_upstream_id (uc_model ctx) \<and>
     rq_system req' = filter (\<lambda>s. s \<noteq> []) (rq_system req) \<and>
     rq_messages req' = fst (resolve_tool_result_names (concat (map chat_message (rq_messages req)))) \<and>
     (rq_tools req \<noteq> [] \<longrightarrow> rq_tools req' = map tool_view (rq_tools req)) \<and>
     rq_stream req' \<and> rq_include_usage req' \<and>
     (extra_request_value cd (uc_model ctx) \<in> {JNull, JObject []} \<and>
      (\<forall>n. sp_max_tokens (rq_params req) = Some n \<longrightarrow> n < 2 ^ 32) \<and>
      (\<forall>i. sp_seed (rq_params req) = Some i \<longrightarrow> i \<le> I64_MAX) \<longrightarrow> req' = chat_request_view cd ctx req)"
proof -
  define base where "base = openai_option_fields cd ctx req (openai_fixed_fields ctx req)"
  define obj where "obj = merge_extra cd (uc_model ctx) base"
  have body: "openai_build_body cd ctx req = Inr (JObject obj)"
    using assms(1) by (simp add: openai_build_body_def openai_thinking_def obj_def base_def)
  have field: "map_of obj k = Some v" if "map_of (openai_fixed_fields ctx req) k = Some v"
      "k \<in> {''model'', ''messages'', ''stream'', ''stream_options''}" for k v
    unfolding obj_def base_def by (intro map_of_merge_extra map_of_option_fields) (use that in auto)
  have fixed: "map_of obj ''model'' = Some (JString (md_upstream_id (uc_model ctx)))"
      "map_of obj ''messages'' = Some (JArray (openai_build_messages req))" "map_of obj ''stream'' = Some (JBool True)"
      "map_of obj ''stream_options'' = Some (JObject [(''include_usage'', JBool True)])"
    by (rule field; simp add: openai_fixed_fields_def)+
  have tool_items: "openai_tools (Some (JArray (map openai_tool_item ts))) = map tool_view ts" for ts
    by (induction ts) (simp_all add: openai_tools_def List.map_filter_simps tool_of_item)
  have tools: "openai_tools (map_of obj ''tools'') = map tool_view (rq_tools req)" if "rq_tools req \<noteq> []"
    using map_of_merge_extra [OF map_of_tools [OF that]] tool_items by (simp add: obj_def base_def)
  obtain ms unresolved where res: "resolve_tool_result_names (concat (map chat_message (rq_messages req))) = (ms, unresolved)"
    using prod.exhaust by blast
  obtain tc name where choice: "openai_tool_choice (map_of obj ''tool_choice'') = (tc, name)" using prod.exhaust by blast
  obtain req' where req': "openai_decode_request cd (JObject obj) = Inr req'"
    and whole: "req' = \<lparr>requested_model = md_upstream_id (uc_model ctx), rq_system = filter (\<lambda>s. s \<noteq> []) (rq_system req),
      rq_messages = ms, rq_tools = openai_tools (map_of obj ''tools''), rq_tool_choice = tc, rq_tool_choice_name = name,
      rq_params = openai_params obj, rq_stream = True, rq_include_usage = True,
      rq_thinking = Option.bind (field_str obj ''reasoning_effort'') map_reasoning_effort,
      rq_extra = attach_translation_issues (openai_nested_issues obj @ unresolved)
        (filter (\<lambda>(k, _). k \<notin> set OPENAI_KNOWN) obj), rq_raw_body = None\<rparr>"
    by (simp add: openai_decode_request_def fixed decode_messages [OF assms(2)] res choice Let_def unwrap_or_def del: map_map)
  have "req' = chat_request_view cd ctx req"
    if "extra_request_value cd (uc_model ctx) \<in> {JNull, JObject []}" "\<forall>n. sp_max_tokens (rq_params req) = Some n \<longrightarrow> n < 2 ^ 32"
      "\<forall>i. sp_seed (rq_params req) = Some i \<longrightarrow> i \<le> I64_MAX"
  proof -
    have plain: "obj = openai_option_fields cd ctx req (openai_fixed_fields ctx req)"
      using that(1) by (auto simp: obj_def base_def merge_extra_def)
    note opts = option_fields [of cd ctx req, folded plain] and vals = options_read [OF that(2,3), of cd ctx, folded plain]
    have t: "openai_tools (map_of obj ''tools'') = map tool_view (rq_tools req)"
      using tools opts(10) by (cases "rq_tools req = []") (simp_all add: openai_build_tools_def openai_tools_def)
    have n: "openai_nested_issues obj = []"
      using built_issues opts(10) by (simp add: openai_nested_issues_def fixed openai_build_tools_def)
    have r: "field_str obj ''reasoning_effort'' = None" using opts(12) by simp
    show ?thesis
      unfolding whole chat_request_view_def Let_def res prod.case t n r vals(1) opts(13)
      using vals(2) choice by simp
  qed
  then show ?thesis unfolding body using req' whole tools res by auto
qed

theorem chat_request_roundtrip_witness:
  "\<exists>body req'. openai_build_body demo_codec (\<lparr>uc_provider = demo_provider ''p'' 1, uc_model = demo_model ''m1'' ''p'' 1,
       uc_account_id = None, uc_credential = ''k''\<rparr>)
       (Route_Policy.demo_request [Text ''a'', Thinking ''t'' None, ToolCall (Some ''c1'') ''f'' ''{}'' None] None) = Inr body \<and>
     openai_decode_request demo_codec body = Inr req' \<and> requested_model req' = ''gpt'' \<and>
     rq_messages req' = [\<lparr>msg_role = Assistant, msg_parts = [Text ''a'', ToolCall (Some ''c1'') ''f'' ''{}'' None]\<rparr>]"
proof -
  let ?ctx = "\<lparr>uc_provider = demo_provider ''p'' 1, uc_model = demo_model ''m1'' ''p'' 1, uc_account_id = None, uc_credential = ''k''\<rparr>"
  let ?req = "Route_Policy.demo_request [Text ''a'', Thinking ''t'' None, ToolCall (Some ''c1'') ''f'' ''{}'' None] None"
  have hyp: "rq_thinking ?req = None" "\<forall>m \<in> set (rq_messages ?req). \<forall>p \<in> set (msg_parts m). image_fits p"
    by (simp_all add: Route_Policy.demo_request_def)
  have "fst (resolve_tool_result_names (concat (map chat_message (rq_messages ?req)))) =
      [\<lparr>msg_role = Assistant, msg_parts = [Text ''a'', ToolCall (Some ''c1'') ''f'' ''{}'' None]\<rparr>]"
    by (simp add: Route_Policy.demo_request_def chat_message_def text_view_def joined_text_def List.map_filter_simps
        resolve_tool_result_names_def unwrap_or_def Let_def)
  moreover have "md_upstream_id (uc_model ?ctx) = ''gpt''" by (simp add: demo_model_def)
  ultimately show ?thesis using chat_request_roundtrip [OF hyp, of demo_codec ?ctx] by auto
qed

text \<open>A codec for one text delta, and the concrete stream.\<close>

definition demo_encoder_ctx :: encoder_ctx where
  "demo_encoder_ctx = \<lparr>ec_model_name = ''m'', ec_request_id = ''r'', ec_created = 0, ec_responses = responses_fields_default\<rparr>"

definition demo_values :: "json list" where
  "demo_values = openai_values demo_encoder_ctx False [TextDelta ''x'', stream_event.Finish Stop]"

definition demo_printer :: codec where
  "demo_printer = demo_codec\<lparr>ser_value := (\<lambda>v. if v = demo_values ! 0 then ''0'' else if v = demo_values ! 1 then ''1'' else ''2''),
     de_value := (\<lambda>s. if s = ''0'' then Some (demo_values ! 0) else if s = ''1'' then Some (demo_values ! 1)
        else if s = ''2'' then Some (demo_values ! 2) else None)\<rparr>"

lemma demo_values_three: "\<exists>a b c. demo_values = [a, b, c]"
  by (simp add: demo_values_def openai_values_def openai_encoder_new_def openai_ensure_role_def openai_usage_frames_def
      openai_closing_def Let_def)

lemma demo_prints: "\<forall>v \<in> set demo_values. prints demo_printer v"
proof -
  obtain a b c where v: "demo_values = [a, b, c]" using demo_values_three by blast
  have "utf8_lossy ''data: 0'' = ''data: 0''" "utf8_lossy ''data: 1'' = ''data: 1''" "utf8_lossy ''data: 2'' = ''data: 2''"
    by code_simp+
  then show ?thesis by (auto simp: prints_def demo_printer_def v)
qed

lemma demo_lines:
  "concat (openai_stream demo_printer demo_encoder_ctx False [TextDelta ''x'', stream_event.Finish Stop]) =
   concat (map (\<lambda>x. x @ [LF, LF]) (chat_lines demo_printer demo_values))"
  using stream_lines [OF demo_prints] by (simp add: stream_values demo_values_def del: concat_append)

lemma demo_printed: "\<exists>x y z. chat_lines demo_printer demo_values = [''data: '' @ x, ''data: '' @ y, ''data: '' @ z, ''data: [DONE]''] \<and>
    {x, y, z} \<subseteq> {''0'', ''1'', ''2''}"
proof -
  obtain a b c where v: "demo_values = [a, b, c]" using demo_values_three by blast
  show ?thesis by (auto simp: chat_lines_def demo_printer_def v)
qed

theorem chat_stream_roundtrip_witness:
  "\<exists>chunks f fs groups. length chunks = 2 \<and> push_all (with_max_frame_bytes 20) chunks = (f, Inr fs) \<and>
     map (\<lambda>fr. map_option (openai_parse_stream_chunk demo_printer (\<lambda>_. [])) (extract_data fr)) fs =
       map (\<lambda>g. Some (Inr g)) groups \<and> concat groups = [TextDelta ''x'', stream_event.Finish Stop]"
proof -
  obtain x y z where l: "chat_lines demo_printer demo_values = [''data: '' @ x, ''data: '' @ y, ''data: '' @ z, ''data: [DONE]'']"
    "{x, y, z} \<subseteq> {''0'', ''1'', ''2''}" using demo_printed by blast
  let ?chunks = "[''data: '' @ x @ [LF], [LF] @ ''data: '' @ y @ [LF, LF] @ ''data: '' @ z @ [LF, LF] @ ''data: [DONE]'' @ [LF, LF]]"
  have c: "concat ?chunks = concat (openai_stream demo_printer demo_encoder_ctx False [TextDelta ''x'', stream_event.Finish Stop])"
    unfolding demo_lines l(1) by simp
  obtain f r where p: "push_all (with_max_frame_bytes 20) ?chunks = (f, r)" using prod.exhaust by blast
  have idle: "framer_idle (with_max_frame_bytes 20)" by (rule framer_idle_init)
  obtain fs where fs: "r = Inr fs"
  proof -
    have "\<not> isl (snd (push_all (with_max_frame_bytes 20)
        [''data: '' @ x @ [LF], [LF] @ ''data: '' @ y @ [LF, LF] @ ''data: '' @ z @ [LF, LF] @ ''data: [DONE]'' @ [LF, LF]]))"
      using l(2) by auto code_simp+
    then show ?thesis using that p by (cases r) auto
  qed
  have sentinel: "\<forall>s. trim s = ''[DONE]'' \<longrightarrow> de_value demo_printer s = None"
  proof -
    have "trim ''0'' \<noteq> ''[DONE]''" "trim ''1'' \<noteq> ''[DONE]''" "trim ''2'' \<noteq> ''[DONE]''" by code_simp+
    then show ?thesis by (auto simp: demo_printer_def)
  qed
  have vals: "\<forall>v \<in> set (openai_values demo_encoder_ctx False [TextDelta ''x'', stream_event.Finish Stop]). prints demo_printer v"
    using demo_prints by (simp add: demo_values_def)
  from chat_stream_roundtrip [OF vals sentinel c p [unfolded fs], of "\<lambda>_. []"] obtain groups where
    "map (\<lambda>fr. map_option (openai_parse_stream_chunk demo_printer (\<lambda>_. [])) (extract_data fr)) fs = map (\<lambda>g. Some (Inr g)) groups"
    "concat groups = [TextDelta ''x'', stream_event.Finish Stop]"
    by (auto simp: usage_view_def openai_finish_reason_def)
  then show ?thesis using p fs by (intro exI [of _ ?chunks]) auto
qed

section \<open>Streamed and aggregated answers\<close>

fun settled_event :: "stream_event \<Rightarrow> bool" where
  "settled_event (ToolCallStart index i name _) \<longleftrightarrow> index < 2 ^ 32 \<and> i \<noteq> None \<and> name \<noteq> []"
| "settled_event (ToolCallArgsDelta index _) \<longleftrightarrow> index < 2 ^ 32"
| "settled_event (stream_event.Finish f) \<longleftrightarrow> f \<noteq> OtherReason ''function_call''"
| "settled_event _ \<longleftrightarrow> True"

definition same_answer :: "openai_answer \<Rightarrow> openai_answer \<Rightarrow> bool" where
  "same_answer a b \<longleftrightarrow> oa_text a = oa_text b \<and> oa_reasoning a = oa_reasoning b \<and> oa_calls a = oa_calls b \<and>
     finish_as_str (oa_finish a) = finish_as_str (oa_finish b)"

lemma append_no_args [simp]: "append_args index [] cs = cs"
  by (induction cs) auto

lemma fold_usage_view [simp]: "fold (openai_collect rid) (usage_view inc u) a = a"
  by (simp add: usage_view_def list_of_option_def split: option.split)

lemma finish_round: "f \<noteq> OtherReason ''function_call'' \<Longrightarrow> finish_as_str (openai_finish_reason (finish_as_str f)) = finish_as_str f"
  by (cases f) (auto simp: openai_finish_reason_def)

lemma collect_view:
  "\<forall>ev \<in> set evs. settled_event ev \<Longrightarrow> same_answer a b \<Longrightarrow> (\<not> fin \<longrightarrow> oa_finish b = Stop) \<Longrightarrow>
   same_answer (fold (openai_collect rid) (chat_view cid inc u fin evs) a) (fold (openai_collect rid) evs b)"
proof (induction evs arbitrary: a b u fin)
  case Nil
  then show ?case by (auto simp: same_answer_def)
next
  case (Cons ev evs)
  have ok: "\<forall>ev \<in> set evs. settled_event ev" "settled_event ev" using Cons.prems(1) by auto
  note IH = Cons.IH [OF ok(1)]
  have step: "same_answer (a\<lparr>oa_text := oa_text a @ t\<rparr>) (b\<lparr>oa_text := oa_text b @ t\<rparr>)"
    "same_answer (a\<lparr>oa_reasoning := oa_reasoning a @ t\<rparr>) (b\<lparr>oa_reasoning := oa_reasoning b @ t\<rparr>)" for t
    using Cons.prems(2) by (simp_all add: same_answer_def)
  have skip: "same_answer a (b\<lparr>oa_text := oa_text b\<rparr>)" "same_answer a (b\<lparr>oa_reasoning := oa_reasoning b\<rparr>)"
    using Cons.prems(2) by (simp_all add: same_answer_def)
  show ?case
  proof (cases ev)
    case (ToolCallStart index i name sig)
    then have "same_answer (openai_collect rid (ToolCallStart index i name None) a) (openai_collect rid ev b)"
      using Cons.prems(2) by (simp add: same_answer_def)
    then show ?thesis using ToolCallStart ok(2) Cons.prems(3) by (auto simp: as_u32_def unwrap_or_def intro!: IH)
  next
    case (ToolCallArgsDelta index args)
    then have "same_answer (openai_collect rid (ToolCallArgsDelta index args) a) (openai_collect rid ev b)"
      using Cons.prems(2) by (simp add: same_answer_def)
    then show ?thesis using ToolCallArgsDelta ok(2) Cons.prems(2,3) by (auto simp: as_u32_def intro!: IH)
  next
    case (Finish f)
    then have "same_answer (openai_collect rid (stream_event.Finish (openai_finish_reason (finish_as_str f))) a) (openai_collect rid ev b)"
      using Cons.prems(2) ok(2) finish_round by (simp add: same_answer_def)
    then show ?thesis using Finish by (auto intro!: IH)
  qed (use Cons.prems step skip in \<open>auto intro!: IH\<close>)
qed

lemma same_answer_body:
  assumes "same_answer (fold (openai_collect rid) xs openai_answer_empty) (fold (openai_collect rid) ys openai_answer_empty)"
  shows "openai_aggregate created model_name rid xs u = openai_aggregate created model_name rid ys u"
  using assms by (simp add: openai_aggregate_def same_answer_def openai_answer_message_def Let_def)

text \<open>Usage the stream can show: one report at most, before the stream finishes.\<close>

fun usage_timely :: "bool \<Rightarrow> stream_event list \<Rightarrow> bool" where
  "usage_timely over [] \<longleftrightarrow> True"
| "usage_timely over (Usage _ # evs) \<longleftrightarrow> \<not> over \<and> usage_timely True evs"
| "usage_timely over (stream_event.Finish _ # evs) \<longleftrightarrow> usage_timely True evs"
| "usage_timely over (_ # evs) \<longleftrightarrow> usage_timely over evs"

lemma merge_usages_simps [simp]:
  "merge_usages [] u = u" "merge_usages (Usage v # evs) u = merge_usages evs (merge_usage u v)"
  "merge_usages (stream_event.Finish f # evs) u = merge_usages evs u" "merge_usages (TextDelta t # evs) u = merge_usages evs u"
  "merge_usages (ThinkingDelta t sig # evs) u = merge_usages evs u" "merge_usages (RefusalDelta t # evs) u = merge_usages evs u"
  "merge_usages (ToolCallStart index i name sig # evs) u = merge_usages evs u"
  "merge_usages (ToolCallArgsDelta index args # evs) u = merge_usages evs u" "merge_usages (Start a # evs) u = merge_usages evs u"
  by (simp_all add: merge_usages_def)

lemma merge_wire_again [simp]: "merge_usage (merge_usage w (wire_usage v)) (wire_usage v) = merge_usage w (wire_usage v)"
  by (cases v) (simp add: merge_usage_def wire_usage_def Let_def)

lemma merge_no_usage: "usage_timely True evs \<Longrightarrow> merge_usages evs w = w"
  by (induction "True" evs rule: usage_timely.induct) auto

lemma merge_view_none: "usage_timely True evs \<Longrightarrow> merge_usages (chat_view cid True None fin evs) w = w"
  by (induction cid True "None :: token_usage option" fin evs rule: chat_view.induct) (auto simp: usage_view_def list_of_option_def)

lemma merge_view_some:
  "usage_timely True evs \<Longrightarrow> (fin \<longrightarrow> merge_usage w (wire_usage v) = w) \<Longrightarrow>
   merge_usages (chat_view cid True (Some v) fin evs) w = merge_usage w (wire_usage v)"
proof (induction evs arbitrary: fin w)
  case (Cons ev evs)
  then show ?case by (cases ev) (auto simp: usage_view_def list_of_option_def)
qed (auto simp: usage_view_def list_of_option_def)

lemma wire_usage_object: "openai_usage_object (merge_usage usage_default (wire_usage v)) = openai_usage_object (merge_usage usage_default v)"
  by (cases v) (simp add: openai_usage_object_def merge_usage_def wire_usage_def usage_default_def unwrap_or_def Let_def)

lemma usage_of_view:
  "usage_timely False evs \<Longrightarrow>
   openai_usage_object (merge_usages (chat_view cid True None False evs) usage_default) =
   openai_usage_object (merge_usages evs usage_default)"
proof (induction evs)
  case (Cons ev evs)
  then show ?case
    by (cases ev) (auto simp: merge_view_some merge_view_none merge_no_usage wire_usage_object usage_view_def list_of_option_def)
qed (simp add: usage_view_def list_of_option_def)

text \<open>
  C31. A client that collects the stream has the body it would have got without streaming. For events whose tool calls
  have an identity and a name, and whose finish is not the legacy \<open>function_call\<close>, aggregating the events read back from
  the stream gives the same body as aggregating the events themselves, at the same usage. The usage too is the same, when
  the client asked for it and the events report it at most once and before they finish: then each side aggregates with the
  usage it has seen itself.
\<close>
theorem streamed_equals_aggregated:
  assumes "\<forall>ev \<in> set evs. settled_event ev"
  shows "openai_aggregate created model_name rid (concat (map openai_events (openai_values ctx include evs))) u =
      openai_aggregate created model_name rid evs u \<and>
    (usage_timely False evs \<longrightarrow>
       (let read = concat (map openai_events (openai_values ctx True evs))
        in openai_aggregate created model_name rid read (merge_usages read usage_default) =
           openai_aggregate created model_name rid evs (merge_usages evs usage_default)))"
proof -
  have body: "openai_aggregate created model_name rid (concat (map openai_events (openai_values ctx inc evs))) w =
      openai_aggregate created model_name rid evs w" for inc w
    unfolding values_view
    by (intro same_answer_body collect_view assms) (simp_all add: same_answer_def openai_answer_empty_def)
  have usage: "openai_aggregate created model_name rid xs v = openai_aggregate created model_name rid xs w"
    if "openai_usage_object v = openai_usage_object w" for xs v w
    using that by (simp add: openai_aggregate_def Let_def)
  have "openai_aggregate created model_name rid read (merge_usages read usage_default) =
      openai_aggregate created model_name rid evs (merge_usages evs usage_default)"
    if "usage_timely False evs" and read: "read = concat (map openai_events (openai_values ctx True evs))" for read
  proof -
    have "openai_usage_object (merge_usages read usage_default) = openai_usage_object (merge_usages evs usage_default)"
      unfolding read values_view by (rule usage_of_view [OF that(1)])
    then have "openai_aggregate created model_name rid read (merge_usages read usage_default) =
        openai_aggregate created model_name rid read (merge_usages evs usage_default)" by (rule usage)
    then show ?thesis unfolding read body .
  qed
  then show ?thesis using body by (simp only: Let_def) blast
qed

theorem streamed_equals_aggregated_witness:
  "let evs = [ThinkingDelta ''t'' None, TextDelta ''a'', ToolCallStart 0 (Some ''c'') ''f'' (Some ''sig''),
       ToolCallArgsDelta 0 ''{}'', Usage (usage_default\<lparr>tu_input := Some 3\<rparr>), stream_event.Finish ToolCalls];
     read = concat (map openai_events (openai_values demo_encoder_ctx True evs))
   in openai_aggregate 0 ''m'' ''r'' read (merge_usages read usage_default) =
      openai_aggregate 0 ''m'' ''r'' evs (usage_default\<lparr>tu_input := Some 3\<rparr>)"
proof -
  let ?evs = "[ThinkingDelta ''t'' None, TextDelta ''a'', ToolCallStart 0 (Some ''c'') ''f'' (Some ''sig''),
       ToolCallArgsDelta 0 ''{}'', Usage (usage_default\<lparr>tu_input := Some 3\<rparr>), stream_event.Finish ToolCalls]"
  have "\<forall>ev \<in> set ?evs. settled_event ev" "usage_timely False ?evs" by simp_all
  moreover have "merge_usages ?evs usage_default = usage_default\<lparr>tu_input := Some 3\<rparr>"
    by (simp add: merge_usage_def usage_default_def)
  ultimately show ?thesis
    using streamed_equals_aggregated [of ?evs 0 "''m''" "''r''" demo_encoder_ctx True usage_default] by (simp only: Let_def)
qed

end
