(* ===== verification/Anthropic_Roundtrip.thy ===== *)
theory Anthropic_Roundtrip
  imports Anthropic_Adapter Chat_Roundtrip
begin

text \<open>
  The two ends of the Anthropic wire format against each other: what the encoder of
  \<^verbatim>\<open>src/src/frontends/anthropic.rs\<close> writes is what the adapter of \<^verbatim>\<open>src/src/adapters/anthropic.rs\<close> reads, through the
  framer of \<^verbatim>\<open>src/src/sse.rs\<close>.
\<close>

section \<open>Streams\<close>

text \<open>
  The view of a client: a refusal is text, empty thinking vanishes and a signature comes as an event of its own, tool calls
  are known by the number of their content block. \<open>n\<close> is the number of the next block and \<open>k\<close> what the last one holds.
\<close>

fun anthropic_view :: "string \<Rightarrow> nat \<Rightarrow> last_begun \<Rightarrow> stream_event list \<Rightarrow> stream_event list" where
  "anthropic_view rid n k [] = []"
| "anthropic_view rid n k (TextDelta t # evs) = TextDelta t # anthropic_view rid (if k = Words then n else Suc n) Words evs"
| "anthropic_view rid n k (RefusalDelta t # evs) = TextDelta t # anthropic_view rid (if k = Words then n else Suc n) Words evs"
| "anthropic_view rid n k (ThinkingDelta t sig # evs) =
     (if t = [] then [] else [ThinkingDelta t None]) @
     (case sig of Some g \<Rightarrow> if g = [] then [] else [ThinkingDelta [] (Some g)] | None \<Rightarrow> []) @
     anthropic_view rid (if k = Thoughts then n else Suc n) Thoughts evs"
| "anthropic_view rid n k (ToolCallStart i c name _ # evs) =
     ToolCallStart (as_u32 n) (Some (unwrap_or c (''toolu_'' @ rid @ ''_'' @ show_nat i))) name None #
     anthropic_view rid (Suc n) (Call i) evs"
| "anthropic_view rid n k (ToolCallArgsDelta _ args # evs) = ToolCallArgsDelta (as_u32 (n - 1)) args # anthropic_view rid n k evs"
| "anthropic_view rid n k (_ # evs) = anthropic_view rid n k evs"

definition stream_usage :: "stream_event list \<Rightarrow> token_usage \<Rightarrow> token_usage" where
  "stream_usage evs u = fold (\<lambda>ev u. case ev of Usage v \<Rightarrow> merge_usage u v | _ \<Rightarrow> u) evs u"

definition stream_finish :: "stream_event list \<Rightarrow> finish_reason option \<Rightarrow> finish_reason option" where
  "stream_finish evs f = fold (\<lambda>ev f. case ev of stream_event.Finish g \<Rightarrow> Some g | _ \<Rightarrow> f) evs f"

text \<open>What the stream says of tokens: nothing at first, then the output alone.\<close>

definition start_usage :: token_usage where
  "start_usage = \<lparr>tu_input = Some 0, tu_output = Some 0, tu_cached = None, tu_cache_write = None, tu_thinking = None\<rparr>"

definition end_usage :: "token_usage \<Rightarrow> token_usage" where
  "end_usage u = usage_default\<lparr>tu_output := Some (unwrap_or (tu_output u) 0)\<rparr>"

definition frame_events :: "named_frame list \<Rightarrow> stream_event list" where
  "frame_events fs = concat (map (\<lambda>f. anthropic_events (snd f)) fs)"

lemma frame_events_append [simp]:
  "frame_events [] = []" "frame_events (f # fs) = anthropic_events (snd f) @ frame_events fs"
  "frame_events (fs @ gs) = frame_events fs @ frame_events gs"
  by (simp_all add: frame_events_def)

lemmas read_defs = anthropic_events_def anthropic_delta_events_def anthropic_start_events_def usage_events_def
  stop_events_def chunk_index_def tool_start_event_def list_of_option_def get_path_str_def unwrap_or_def Let_def

lemma start_events: "anthropic_events (snd (message_start_frame e)) = [Usage start_usage]"
  by (simp add: message_start_frame_def read_defs parse_anthropic_usage_def start_usage_def sat_add64_def)

lemma block_events:
  "anthropic_events (snd (block_stop_frame i)) = []"
  "anthropic_events (snd (block_start_frame i (JObject ((''type'', JString ''text'') # fs)))) = []"
  "anthropic_events (snd (block_start_frame i (JObject ((''type'', JString ''thinking'') # fs)))) = []"
  "anthropic_events (snd (block_start_frame i (JObject [(''type'', JString ''tool_use''), (''id'', JString c), (''name'', JString name),
     (''input'', JObject [])]))) = [ToolCallStart (as_u32 i) (Some c) name None]"
  by (simp_all add: block_stop_frame_def block_start_frame_def read_defs)

lemma delta_frame_events:
  "anthropic_events (snd (block_delta_frame i [(''type'', JString ''text_delta''), (''text'', JString t)])) = [TextDelta t]"
  "anthropic_events (snd (block_delta_frame i [(''type'', JString ''thinking_delta''), (''thinking'', JString t)])) =
     [ThinkingDelta t None]"
  "anthropic_events (snd (block_delta_frame i [(''type'', JString ''signature_delta''), (''signature'', JString g)])) =
     [ThinkingDelta [] (Some g)]"
  "anthropic_events (snd (block_delta_frame i [(''type'', JString ''input_json_delta''), (''partial_json'', JString args)])) =
     [ToolCallArgsDelta (as_u32 i) args]"
  by (simp_all add: block_delta_frame_def read_defs)

lemmas frames_read = start_events block_events delta_frame_events

text \<open>The encoder has begun \<open>n\<close> blocks, the last of which holds what \<open>k\<close> says.\<close>

definition has_begun :: "nat \<Rightarrow> last_begun \<Rightarrow> anthropic_encoder \<Rightarrow> bool" where
  "has_begun n k e \<longleftrightarrow> an_next_index e = n \<and> \<not> an_stop_reason_sent e \<and> (k \<noteq> Nothing \<longrightarrow> an_started e) \<and>
     (case k of
        Nothing \<Rightarrow> an_open_block e = None
      | Words \<Rightarrow> an_open_block e = Some (n - 1, TextBlock)
      | Thoughts \<Rightarrow> an_open_block e = Some (n - 1, ThinkingBlock)
      | Call j \<Rightarrow> an_open_block e = Some (n - 1, TextBlock) \<and> map_option fst (an_tool_blocks e j) = Some (n - 1))"

definition unstarted :: "anthropic_encoder \<Rightarrow> stream_event list" where
  "unstarted e = (if an_started e then [] else [Usage start_usage])"

lemma emit_start_events:
  assumes "emit_start e = (fs, e1)" "has_begun n k e"
  shows "frame_events fs = unstarted e" "has_begun n k e1" "an_started e1" "an_ctx e1 = an_ctx e" "an_usage e1 = an_usage e"
    "an_finish e1 = an_finish e"
  using assms by (auto simp: emit_start_def unstarted_def start_events has_begun_def split: if_splits last_begun.splits)

lemma close_events:
  assumes "close_open_block e = (fs, e1)"
  shows "frame_events fs = []" "e1 = e\<lparr>an_open_block := None\<rparr>"
  using assms by (auto simp: close_open_block_def block_events split: option.splits)

lemma open_new_events:
  assumes "open_new_block block st e = (fs, i, e1)"
  shows "frame_events fs = anthropic_events (snd (block_start_frame (an_next_index e) block))" "i = an_next_index e"
    "e1 = e\<lparr>an_open_block := Some (i, st), an_next_index := Suc i\<rparr>"
proof -
  obtain c e0 where c: "close_open_block e = (c, e0)" using prod.exhaust by blast
  show "frame_events fs = anthropic_events (snd (block_start_frame (an_next_index e) block))" "i = an_next_index e"
    "e1 = e\<lparr>an_open_block := Some (i, st), an_next_index := Suc i\<rparr>"
    using assms close_events [OF c] by (auto simp: open_new_block_def c Let_def)
qed

lemma text_opened:
  assumes "open_text_block e = (fs, e1)" "has_begun n k e" "an_started e" "\<forall>i. k \<noteq> Call i"
  shows "frame_events fs = []" "has_begun (if k = Words then n else Suc n) Words e1" "unstarted e1 = []"
    "an_ctx e1 = an_ctx e" "an_usage e1 = an_usage e" "an_finish e1 = an_finish e"
proof -
  let ?new = "open_new_block (JObject [(''type'', JString ''text''), (''text'', JString [])]) TextBlock e"
  obtain gs i e2 where new: "?new = (gs, i, e2)" using prod_cases3 by blast
  note opened = open_new_events [OF new]
  have "k = Words \<and> fs = [] \<and> e1 = e \<or> k \<noteq> Words \<and> fs = gs \<and> e1 = e2"
    using assms(1,2,4) new by (cases k) (auto simp: open_text_block_def has_begun_def)
  then show "frame_events fs = []" "has_begun (if k = Words then n else Suc n) Words e1" "unstarted e1 = []"
    "an_ctx e1 = an_ctx e" "an_usage e1 = an_usage e" "an_finish e1 = an_finish e"
    using opened assms(2,3) by (auto simp: block_events has_begun_def unstarted_def)
qed

lemma thinking_opened:
  assumes "open_thinking_block e = (fs, e1)" "has_begun n k e" "an_started e"
  shows "frame_events fs = []" "has_begun (if k = Thoughts then n else Suc n) Thoughts e1" "unstarted e1 = []"
    "an_ctx e1 = an_ctx e" "an_usage e1 = an_usage e" "an_finish e1 = an_finish e"
proof -
  let ?new = "open_new_block (JObject [(''type'', JString ''thinking''), (''thinking'', JString []), (''signature'', JString [])])
    ThinkingBlock e"
  obtain gs i e2 where new: "?new = (gs, i, e2)" using prod_cases3 by blast
  note opened = open_new_events [OF new]
  have "k = Thoughts \<and> fs = [] \<and> e1 = e \<or> k \<noteq> Thoughts \<and> fs = gs \<and> e1 = e2"
    using assms(1,2) new by (cases k) (auto simp: open_thinking_block_def has_begun_def)
  then show "frame_events fs = []" "has_begun (if k = Thoughts then n else Suc n) Thoughts e1" "unstarted e1 = []"
    "an_ctx e1 = an_ctx e" "an_usage e1 = an_usage e" "an_finish e1 = an_finish e"
    using opened assms(2,3) by (auto simp: block_events has_begun_def unstarted_def)
qed

lemma tool_opened:
  assumes "open_tool_block index c name e = (fs, e1)" "has_begun n k e" "an_started e"
  shows "frame_events fs = [ToolCallStart (as_u32 n) (Some c) name None]" "has_begun (Suc n) (Call index) e1" "unstarted e1 = []"
    "an_ctx e1 = an_ctx e" "an_usage e1 = an_usage e" "an_finish e1 = an_finish e"
proof -
  obtain gs i e2 where new: "open_new_block (JObject [(''type'', JString ''tool_use''), (''id'', JString c),
      (''name'', JString name), (''input'', JObject [])]) TextBlock e = (gs, i, e2)" using prod_cases3 by blast
  note opened = open_new_events [OF new]
  have "fs = gs" "e1 = e2\<lparr>an_tool_blocks := (an_tool_blocks e2)(index \<mapsto> (i, c, name))\<rparr>"
    using assms(1) new by (auto simp: open_tool_block_def)
  then show "frame_events fs = [ToolCallStart (as_u32 n) (Some c) name None]" "has_begun (Suc n) (Call index) e1"
    "unstarted e1 = []" "an_ctx e1 = an_ctx e" "an_usage e1 = an_usage e" "an_finish e1 = an_finish e"
    using opened assms(2,3) by (simp_all add: block_events has_begun_def unstarted_def)
qed

lemma encode_text_read:
  assumes "encode_text t e = (fs, e')" "has_begun n k e" "\<forall>i. k \<noteq> Call i"
  shows "frame_events fs = unstarted e @ [TextDelta t]" "has_begun (if k = Words then n else Suc n) Words e'"
    "unstarted e' = []" "an_ctx e' = an_ctx e" "an_usage e' = an_usage e" "an_finish e' = an_finish e"
proof -
  obtain s e1 where s: "emit_start e = (s, e1)" using prod.exhaust by blast
  obtain b e2 where b: "open_text_block e1 = (b, e2)" using prod.exhaust by blast
  note started = emit_start_events [OF s assms(2)]
  note opened = text_opened [OF b started(2,3) assms(3)]
  have "fs = s @ b @ [block_delta_frame (open_index e2) [(''type'', JString ''text_delta''), (''text'', JString t)]]" "e' = e2"
    using assms(1) s b by (auto simp: encode_text_def)
  then show "frame_events fs = unstarted e @ [TextDelta t]" "has_begun (if k = Words then n else Suc n) Words e'"
    "unstarted e' = []" "an_ctx e' = an_ctx e" "an_usage e' = an_usage e" "an_finish e' = an_finish e"
    using started opened by (simp_all add: delta_frame_events)
qed

text \<open>One step of the encoder: what it writes, and what is still to be read.\<close>

definition reads_on :: "string \<Rightarrow> nat \<Rightarrow> last_begun \<Rightarrow> anthropic_encoder \<Rightarrow> stream_event \<Rightarrow> stream_event list \<Rightarrow>
    named_frame list \<Rightarrow> anthropic_encoder \<Rightarrow> bool" where
  "reads_on rid n k e ev evs fs e' \<longleftrightarrow> an_ctx e' = an_ctx e \<and>
     an_usage e' = stream_usage [ev] (an_usage e) \<and> an_finish e' = stream_finish [ev] (an_finish e) \<and>
     (\<exists>n' k'. has_begun n' k' e' \<and> in_sequence k' evs \<and>
       unstarted e @ anthropic_view rid n k (ev # evs) = frame_events fs @ unstarted e' @ anthropic_view rid n' k' evs)"

lemma reads_onI:
  assumes "has_begun n' k' e'" "in_sequence k' evs" "an_ctx e' = an_ctx e"
    "an_usage e' = stream_usage [ev] (an_usage e)" "an_finish e' = stream_finish [ev] (an_finish e)"
    "unstarted e @ anthropic_view rid n k (ev # evs) = frame_events fs @ unstarted e' @ anthropic_view rid n' k' evs"
  shows "reads_on rid n k e ev evs fs e'"
  using assms unfolding reads_on_def by blast

lemma encode_reads:
  assumes "anthropic_encode ev e = (fs, e')" "has_begun n k e" "in_sequence k (ev # evs)"
  shows "reads_on (ec_request_id (an_ctx e)) n k e ev evs fs e'"
proof (cases ev)
  case (Start y)
  then have "emit_start e = (fs, e')" using assms(1) by simp
  note started = emit_start_events [OF this assms(2)]
  show ?thesis by (rule reads_onI [OF started(2)])
      (use started assms(3) Start in \<open>simp_all add: stream_usage_def stream_finish_def unstarted_def\<close>)
next
  case (TextDelta t)
  then have "encode_text t e = (fs, e')" "\<forall>i. k \<noteq> Call i" using assms by auto
  note said = encode_text_read [OF this(1) assms(2) this(2)]
  show ?thesis by (rule reads_onI [OF said(2)])
      (use said assms(3) TextDelta in \<open>simp_all add: stream_usage_def stream_finish_def\<close>)
next
  case (RefusalDelta t)
  then have "encode_text t e = (fs, e')" "\<forall>i. k \<noteq> Call i" using assms by auto
  note said = encode_text_read [OF this(1) assms(2) this(2)]
  show ?thesis by (rule reads_onI [OF said(2)])
      (use said assms(3) RefusalDelta in \<open>simp_all add: stream_usage_def stream_finish_def\<close>)
next
  case (ThinkingDelta t sig)
  obtain s e1 where s: "emit_start e = (s, e1)" using prod.exhaust by blast
  obtain b e2 where b: "open_thinking_block e1 = (b, e2)" using prod.exhaust by blast
  note started = emit_start_events [OF s assms(2)]
  note opened = thinking_opened [OF b started(2,3)]
  have "e' = e2" "frame_events fs = unstarted e @ (if t = [] then [] else [ThinkingDelta t None]) @
      (case sig of Some g \<Rightarrow> if g = [] then [] else [ThinkingDelta [] (Some g)] | None \<Rightarrow> [])"
    using assms(1) ThinkingDelta s b started(1) opened(1)
    by (auto simp: Let_def delta_frame_events split: option.splits if_splits)
  note written = this
  show ?thesis by (rule reads_onI [OF opened(2) [folded written(1)]])
      (use opened started assms(3) ThinkingDelta written in \<open>simp_all add: stream_usage_def stream_finish_def\<close>)
next
  case (ToolCallStart index c name x)
  obtain s e1 where s: "emit_start e = (s, e1)" using prod.exhaust by blast
  let ?id = "unwrap_or c (''toolu_'' @ ec_request_id (an_ctx e) @ ''_'' @ show_nat index)"
  obtain b e2 where b: "open_tool_block index ?id name e1 = (b, e2)" using prod.exhaust by blast
  note started = emit_start_events [OF s assms(2)]
  note opened = tool_opened [OF b started(2,3)]
  have "e' = e2" "fs = s @ b" using assms(1) ToolCallStart s b by (auto simp: Let_def)
  note written = this
  show ?thesis by (rule reads_onI [OF opened(2) [folded written(1)]])
      (use opened started assms(3) ToolCallStart written in \<open>simp_all add: stream_usage_def stream_finish_def\<close>)
next
  case (ToolCallArgsDelta index args)
  then have k: "k = Call index" using assms(3) by simp
  then obtain i c name where "an_tool_blocks e index = Some (i, c, name)" "i = n - 1"
    using assms(2) by (auto simp: has_begun_def)
  then have "fs = [block_delta_frame (n - 1) [(''type'', JString ''input_json_delta''), (''partial_json'', JString args)]]" "e' = e"
    using assms(1) ToolCallArgsDelta by (auto simp: opt_or_def unwrap_or_def)
  note written = this
  have started: "unstarted e = []" using assms(2) k by (simp add: has_begun_def unstarted_def)
  show ?thesis by (rule reads_onI [OF assms(2) [folded written(2)]])
      (use started assms(3) ToolCallArgsDelta written k in
        \<open>auto simp: stream_usage_def stream_finish_def delta_frame_events\<close>)
next
  case (Usage u)
  then have written: "fs = []" "e' = e\<lparr>an_usage := merge_usage (an_usage e) u\<rparr>" using assms(1) by auto
  then have "has_begun n k e'" using assms(2) by (cases k) (simp_all add: has_begun_def)
  then show ?thesis by (rule reads_onI)
      (use assms(3) Usage written in \<open>simp_all add: stream_usage_def stream_finish_def unstarted_def\<close>)
next
  case (Finish f)
  then have written: "fs = []" "e' = e\<lparr>an_finish := Some f\<rparr>" using assms(1) by auto
  then have "has_begun n k e'" using assms(2) by (cases k) (simp_all add: has_begun_def)
  then show ?thesis by (rule reads_onI)
      (use assms(3) Finish written in \<open>simp_all add: stream_usage_def stream_finish_def unstarted_def\<close>)
qed

lemma run_reads:
  assumes "anthropic_run evs e = (fs, e')" "has_begun n k e" "in_sequence k evs"
  shows "unstarted e @ anthropic_view (ec_request_id (an_ctx e)) n k evs = frame_events fs @ unstarted e' \<and>
    (\<exists>n' k'. has_begun n' k' e') \<and> an_usage e' = stream_usage evs (an_usage e) \<and> an_finish e' = stream_finish evs (an_finish e)"
  using assms
proof (induction evs arbitrary: e fs n k)
  case Nil
  then show ?case by (auto simp: stream_usage_def stream_finish_def)
next
  case (Cons ev evs)
  obtain gs e1 where g: "anthropic_encode ev e = (gs, e1)" using prod.exhaust by blast
  obtain hs e2 where h: "anthropic_run evs e1 = (hs, e2)" using prod.exhaust by blast
  have fs: "fs = gs @ hs" "e' = e2" using Cons.prems(1) g h by auto
  obtain n' k' where step: "has_begun n' k' e1" "in_sequence k' evs" "an_ctx e1 = an_ctx e"
      "an_usage e1 = stream_usage [ev] (an_usage e)" "an_finish e1 = stream_finish [ev] (an_finish e)"
      "unstarted e @ anthropic_view (ec_request_id (an_ctx e)) n k (ev # evs) =
       frame_events gs @ unstarted e1 @ anthropic_view (ec_request_id (an_ctx e)) n' k' evs"
    using encode_reads [OF g Cons.prems(2,3)] by (auto simp: reads_on_def)
  have "stream_usage (ev # evs) u = stream_usage evs (stream_usage [ev] u)"
    "stream_finish (ev # evs) f = stream_finish evs (stream_finish [ev] f)" for u f
    by (simp_all add: stream_usage_def stream_finish_def)
  then show ?case using Cons.IH [OF h [folded fs(2)] step(1,2)] step fs by simp
qed

lemma finalize_reads:
  assumes "anthropic_finalize e = (fs, e')" "has_begun n k e"
  shows "frame_events fs = unstarted e @
    [Usage (end_usage (an_usage e)), stream_event.Finish (map_anthropic_stop_reason (anthropic_stop_reason (an_finish e)))]"
proof -
  obtain s e1 where s: "emit_start e = (s, e1)" using prod.exhaust by blast
  obtain c e2 where c: "close_open_block e1 = (c, e2)" using prod.exhaust by blast
  note started = emit_start_events [OF s assms(2)]
  note closed = close_events [OF c]
  have "\<not> an_stop_reason_sent e2" using started(2) closed(2) by (simp add: has_begun_def)
  then show ?thesis using assms(1) started closed
    by (auto simp: anthropic_finalize_def s c read_defs parse_anthropic_usage_def end_usage_def usage_default_def)
qed

lemma stream_reads:
  assumes "in_sequence Nothing evs"
  shows "frame_events (anthropic_stream ctx evs) = Usage start_usage # anthropic_view (ec_request_id ctx) 0 Nothing evs @
    [Usage (end_usage (stream_usage evs usage_default)),
     stream_event.Finish (map_anthropic_stop_reason (anthropic_stop_reason (stream_finish evs None)))]"
proof -
  let ?e = "anthropic_encoder_new ctx"
  obtain fs e where r: "anthropic_run evs ?e = (fs, e)" using prod.exhaust by blast
  obtain gs e' where f: "anthropic_finalize e = (gs, e')" using prod.exhaust by blast
  have "has_begun 0 Nothing ?e" by (simp add: has_begun_def anthropic_encoder_new_def)
  from run_reads [OF r this assms] obtain n k where run:
    "unstarted ?e @ anthropic_view (ec_request_id (an_ctx ?e)) 0 Nothing evs = frame_events fs @ unstarted e"
    "has_begun n k e" "an_usage e = stream_usage evs (an_usage ?e)" "an_finish e = stream_finish evs (an_finish ?e)"
    by blast
  have new: "unstarted ?e = [Usage start_usage]" "an_ctx ?e = ctx" "an_usage ?e = usage_default" "an_finish ?e = None"
    by (simp_all add: unstarted_def anthropic_encoder_new_def)
  have "frame_events (anthropic_stream ctx evs) = (frame_events fs @ unstarted e) @
      [Usage (end_usage (an_usage e)), stream_event.Finish (map_anthropic_stop_reason (anthropic_stop_reason (an_finish e)))]"
    using finalize_reads [OF f run(2)] by (simp add: anthropic_stream_def r f)
  then show ?thesis using run(1,3,4) new by (simp flip: run(1))
qed

section \<open>Bytes\<close>

text \<open>A frame without the blank line that ends it.\<close>

definition named_body :: "codec \<Rightarrow> named_frame \<Rightarrow> string" where
  "named_body cd f = (''event: '' @ fst f) @ LF # (''data: '' @ ser_value cd (snd f))"

text \<open>The name and the value of a frame each print on one line, and the value is read back.\<close>

definition one_line :: "string \<Rightarrow> bool" where
  "one_line s \<longleftrightarrow> LF \<notin> set s \<and> CR \<notin> set s"

definition prints_named :: "codec \<Rightarrow> named_frame \<Rightarrow> bool" where
  "prints_named cd f \<longleftrightarrow> one_line (fst f) \<and> one_line (ser_value cd (snd f)) \<and>
     de_value cd (ser_value cd (snd f)) = Some (snd f) \<and> utf8_lossy (named_body cd f) = named_body cd f"

lemma named_frames_body:
  assumes "\<forall>f \<in> set frames. prints_named cd f"
  shows "named_frames cd frames = map (\<lambda>f. named_body cd f @ [LF, LF]) frames"
proof -
  have "sse_frame (Some name) (ser_value cd v) = named_body cd (name, v) @ [LF, LF]" if "prints_named cd (name, v)" for name v
    using that by (simp add: sse_frame_def named_body_def prints_named_def one_line_def split_char_none)
  then show ?thesis using assms by (fastforce simp: named_frames_def)
qed

text \<open>No frame ends inside two lines.\<close>

lemma find_from_lines:
  assumes "one_line a" "one_line b" "b \<noteq> []" "x = a @ LF # b"
  shows "find_from (x @ LF # LF # rest) 0 = Some (length x, 2)"
proof -
  have "delim_at (x @ LF # LF # rest) k = None" if k: "k < length x" for k
  proof -
    have "x ! k \<noteq> CR" using assms(1,2,4) k nth_mem [OF k] by (auto simp: one_line_def)
    moreover have "x ! k \<noteq> LF \<or> x ! Suc k \<noteq> LF \<and> Suc k < length x"
    proof (cases "k = length a")
      case True
      then show ?thesis using assms(2-4) by (cases b) (auto simp: nth_append one_line_def)
    next
      case False
      then have "x ! k \<in> set a \<union> set b" using k assms(4) by (auto simp: nth_append nth_Cons split: nat.split)
      then show ?thesis using assms(1,2) by (auto simp: one_line_def)
    qed
    ultimately show ?thesis using k by (auto simp: delim_at_def nth_append simp del: append_assoc)
  qed
  then show ?thesis by (simp add: find_from_Some_iff delim_at_def nth_append)
qed

lemma split_raw_lines:
  assumes "one_line a" "one_line b" "b \<noteq> []" "x = a @ LF # b"
  shows "split_raw (x @ LF # LF # rest) = (x # fst (split_raw rest), snd (split_raw rest))"
  using split_raw_Some [OF find_from_lines [OF assms]] by simp

lemma split_raw_named:
  "\<forall>f \<in> set frames. prints_named cd f \<Longrightarrow>
   split_raw (concat (map (\<lambda>f. named_body cd f @ [LF, LF]) frames)) = (map (named_body cd) frames, [])"
proof (induction frames)
  case (Cons f frames)
  have "one_line (''event: '' @ fst f)" "one_line (''data: '' @ ser_value cd (snd f))"
    using Cons.prems by (simp_all add: prints_named_def one_line_def)
  from split_raw_lines [OF this _ named_body_def [of cd f]] Cons show ?case by simp
qed (simp add: split_raw_Nil)

lemma extract_named:
  assumes "prints_named cd f"
  shows "extract_data (named_body cd f) = Some (ser_value cd (snd f))"
proof -
  have one: "one_line (''event: '' @ fst f)" "one_line (''data: '' @ ser_value cd (snd f))"
    using assms by (simp_all add: prints_named_def one_line_def)
  have "lines_aux acc (a @ LF # b) = (rev acc @ a) # lines_aux [] b" if "one_line a" "rev acc @ a \<noteq> [] \<longrightarrow> last (rev acc @ a) \<noteq> CR"
    for acc a b using that
  proof (induction a arbitrary: acc)
    case Nil
    then show ?case by (cases acc) (auto simp: strip_cr_def)
  next
    case (Cons c a)
    then show ?case by (auto simp: one_line_def)
  qed
  note split = this
  have "last (''event: '' @ fst f) \<in> set (''event: '' @ fst f)" by (rule last_in_set) simp
  then have "last (''event: '' @ fst f) \<noteq> CR" using one(1) by (metis one_line_def)
  then have "str_lines (named_body cd f) = (''event: '' @ fst f) # lines_aux [] (''data: '' @ ser_value cd (snd f))"
    unfolding str_lines_def named_body_def using split [OF one(1), of "[]"] by simp
  also have "lines_aux [] (''data: '' @ ser_value cd (snd f)) = [''data: '' @ ser_value cd (snd f)]"
    using lines_aux_line [of "''data: '' @ ser_value cd (snd f)" "[]"] one(2) by (simp add: one_line_def)
  finally have "str_lines (named_body cd f) = [''event: '' @ fst f, ''data: '' @ ser_value cd (snd f)]" .
  then show ?thesis by (simp add: extract_data_def data_step_def unwrap_or_def)
qed

lemma framed_named:
  assumes "\<forall>f \<in> set frames. prints_named cd f"
    and "concat chunks = concat (named_frames cd frames)"
    and "push_all (with_max_frame_bytes n) chunks = (f, Inr fs)"
  shows "fs = map (named_body cd) frames" "fr_buffer f = []"
proof -
  have idle: "fr_buffer (with_max_frame_bytes n) = []" by (simp add: with_max_frame_bytes_def)
  have feed: "fs = render (fst (split_raw (concat chunks)))" "fr_buffer f = snd (split_raw (concat chunks))"
    using push_all_feed [OF framer_idle_init assms(3)] raw_split.feed_chunks_concat [OF split_raw_Nil, of chunks] idle
    by simp_all
  have "split_raw (concat chunks) = (map (named_body cd) frames, [])"
    unfolding assms(2) named_frames_body [OF assms(1)] by (rule split_raw_named [OF assms(1)])
  moreover have "render (map (named_body cd) frames) = map (named_body cd) frames"
    using assms(1) by (intro render_lines) (auto simp: prints_named_def named_body_def one_line_def)
  ultimately show "fs = map (named_body cd) frames" "fr_buffer f = []" using feed by simp_all
qed

text \<open>
  C12. What the Anthropic encoder streams is what an Anthropic adapter reads. For a stream whose tool calls are not
  interleaved, however its bytes are cut into chunks, a framer that accepts them ends with an empty buffer, every frame
  parses, and the events of the frames are the view of the encoded events between a first usage report of no tokens and
  a last one that counts the output alone, followed by the finish reason: texts, thoughts, signatures and the arguments
  of each call arrive in order, and every argument delta names the block of its call.
\<close>
theorem anthropic_stream_roundtrip:
  assumes "in_sequence Nothing evs"
    and "\<forall>fr \<in> set (anthropic_stream ctx evs). prints_named cd fr"
    and "concat chunks = concat (named_frames cd (anthropic_stream ctx evs))"
    and "push_all (with_max_frame_bytes n) chunks = (f, Inr fs)"
  shows "fr_buffer f = [] \<and> (\<exists>groups.
     map (\<lambda>fr. map_option (anthropic_parse_stream_chunk cd je) (extract_data fr)) fs = map (\<lambda>g. Some (Inr g)) groups \<and>
     concat groups = Usage start_usage # anthropic_view (ec_request_id ctx) 0 Nothing evs @
       [Usage (end_usage (stream_usage evs usage_default)),
        stream_event.Finish (map_anthropic_stop_reason (anthropic_stop_reason (stream_finish evs None)))])"
proof -
  let ?frames = "anthropic_stream ctx evs"
  note framed = framed_named [OF assms(2,3,4)]
  have "map_option (anthropic_parse_stream_chunk cd je) (extract_data (named_body cd fr)) = Some (Inr (anthropic_events (snd fr)))"
    if "fr \<in> set ?frames" for fr
    using that assms(2) extract_named [of cd fr] by (auto simp: anthropic_parse_stream_chunk_def prints_named_def)
  then have "map (\<lambda>fr. map_option (anthropic_parse_stream_chunk cd je) (extract_data fr)) fs =
      map (\<lambda>g. Some (Inr g)) (map (\<lambda>fr. anthropic_events (snd fr)) ?frames)"
    by (simp add: framed(1))
  then show ?thesis using framed(2) stream_reads [OF assms(1), of ctx] unfolding frame_events_def by blast
qed

text \<open>A codec that numbers the values of one stream, and the stream of one tool call.\<close>

definition demo_call :: "stream_event list" where
  "demo_call = [ToolCallStart 3 (Some ''c'') ''f'' None, ToolCallArgsDelta 3 ''1'', stream_event.Finish ToolCalls]"

definition demo_frames :: "named_frame list" where
  "demo_frames = anthropic_stream demo_encoder_ctx demo_call"

definition demo_named_printer :: codec where
  "demo_named_printer = demo_codec\<lparr>
     ser_value := (\<lambda>v. show_nat (unwrap_or (position (\<lambda>f. snd f = v) demo_frames) 0)),
     de_value := (\<lambda>s. if digits_value s < length demo_frames then Some (snd (demo_frames ! digits_value s)) else None)\<rparr>"

lemma demo_frame_names: "map fst demo_frames =
    [''message_start'', ''content_block_start'', ''content_block_delta'', ''content_block_stop'', ''message_delta'', ''message_stop'']"
  by (simp add: demo_frames_def demo_call_def anthropic_stream_def anthropic_encoder_new_def emit_start_def open_tool_block_def
      open_new_block_def close_open_block_def anthropic_finalize_def message_start_frame_def block_start_frame_def
      block_delta_frame_def block_stop_frame_def Let_def)

lemma ascii_lossy: "\<forall>c \<in> set s. of_char c < (128 :: nat) \<Longrightarrow> utf8_lossy s = s"
  by (induction s) (simp_all add: utf8_class_def)

lemma position_true: "position P xs = Some i \<Longrightarrow> P (xs ! i)"
  by (induction xs arbitrary: i) (auto split: if_splits)

lemma digits_one_line: "one_line (show_nat n)" "\<forall>c \<in> set (show_nat n). of_char c < (128 :: nat)"
  using show_nat_digits [of n] by (auto simp: one_line_def is_digit_def list_all_iff)

lemma demo_ser:
  assumes "f \<in> set demo_frames"
  obtains i where "i < 6" "ser_value demo_named_printer (snd f) = show_nat i" "demo_frames ! i \<in> set demo_frames"
    "snd (demo_frames ! i) = snd f"
proof -
  have six: "length demo_frames = 6" using arg_cong [OF demo_frame_names, of length] by simp
  have "position (\<lambda>g. snd g = snd f) demo_frames \<noteq> None" unfolding position_none using assms by blast
  then obtain i where i: "position (\<lambda>g. snd g = snd f) demo_frames = Some i" by blast
  show ?thesis
    by (rule that [of i]) (use position_bound [OF i] position_true [OF i] six i in
        \<open>simp_all add: demo_named_printer_def unwrap_or_def\<close>)
qed

lemma demo_name:
  assumes "f \<in> set demo_frames"
  shows "one_line (fst f)" "\<forall>c \<in> set (fst f). of_char c < (128 :: nat)" "length (fst f) \<le> 20"
proof -
  have "fst f \<in> set (map fst demo_frames)" using assms by simp
  then show "one_line (fst f)" "\<forall>c \<in> set (fst f). of_char c < (128 :: nat)" "length (fst f) \<le> 20"
    unfolding demo_frame_names by (auto simp: one_line_def)
qed

lemma demo_prints_named: "\<forall>f \<in> set demo_frames. prints_named demo_named_printer f"
proof
  fix f assume f: "f \<in> set demo_frames"
  obtain i where i: "i < 6" "ser_value demo_named_printer (snd f) = show_nat i" "snd (demo_frames ! i) = snd f"
    using demo_ser [OF f] by blast
  have six: "length demo_frames = 6" using arg_cong [OF demo_frame_names, of length] by simp
  have "utf8_lossy (named_body demo_named_printer f) = named_body demo_named_printer f"
    using demo_name(2) [OF f] digits_one_line(2) [of i] by (intro ascii_lossy) (auto simp: named_body_def i(2))
  moreover have "de_value demo_named_printer (show_nat i) = Some (snd f)"
    using i(1,3) six by (simp add: demo_named_printer_def digits_value_show_nat)
  ultimately show "prints_named demo_named_printer f"
    using demo_name(1) [OF f] digits_one_line(1) by (simp add: prints_named_def i(2))
qed

lemma demo_short: "f \<in> set demo_frames \<Longrightarrow> length (named_body demo_named_printer f) + 3 \<le> 50"
proof -
  assume f: "f \<in> set demo_frames"
  obtain i where i: "i < 6" "ser_value demo_named_printer (snd f) = show_nat i" using demo_ser [OF f] by blast
  then have "length (show_nat i) = 1" by (simp add: show_nat.simps)
  then show ?thesis using demo_name(3) [OF f] by (simp add: named_body_def i(2))
qed

theorem anthropic_stream_roundtrip_witness:
  "\<exists>chunks f fs groups. length chunks = 2 \<and> push_all (with_max_frame_bytes 50) chunks = (f, Inr fs) \<and>
     map (\<lambda>fr. map_option (anthropic_parse_stream_chunk demo_named_printer (\<lambda>_. [])) (extract_data fr)) fs =
       map (\<lambda>g. Some (Inr g)) groups \<and>
     concat groups = [Usage start_usage, ToolCallStart 0 (Some ''c'') ''f'' None, ToolCallArgsDelta 0 ''1'',
       Usage (end_usage usage_default), stream_event.Finish ToolCalls]"
proof -
  let ?bytes = "concat (named_frames demo_named_printer demo_frames)"
  let ?chunks = "[take 20 ?bytes, drop 20 ?bytes]"
  have c: "concat ?chunks = concat (named_frames demo_named_printer (anthropic_stream demo_encoder_ctx demo_call))"
    by (simp add: demo_frames_def)
  have split: "split_raw ?bytes = (map (named_body demo_named_printer) demo_frames, [])"
    unfolding named_frames_body [OF demo_prints_named] by (rule split_raw_named [OF demo_prints_named])
  have "concat ?chunks = ?bytes" by simp
  moreover have "fr_buffer (with_max_frame_bytes 50) = []" "fr_max_frame_bytes (with_max_frame_bytes 50) = 50"
    by (simp_all add: with_max_frame_bytes_def)
  ultimately obtain f fs where p: "push_all (with_max_frame_bytes 50) ?chunks = (f, Inr fs)"
    using push_all_succeeds [OF framer_idle_init, of 50 50 ?chunks] split demo_short by (auto simp del: concat.simps)
  have order: "in_sequence Nothing demo_call" by (simp add: demo_call_def)
  from anthropic_stream_roundtrip [OF order demo_prints_named [unfolded demo_frames_def] c p, of "\<lambda>_. []"] obtain groups where
    "map (\<lambda>fr. map_option (anthropic_parse_stream_chunk demo_named_printer (\<lambda>_. [])) (extract_data fr)) fs =
       map (\<lambda>g. Some (Inr g)) groups"
    "concat groups = [Usage start_usage, ToolCallStart 0 (Some ''c'') ''f'' None, ToolCallArgsDelta 0 ''1'',
       Usage (end_usage usage_default), stream_event.Finish ToolCalls]"
    by (auto simp: demo_call_def as_u32_def stream_usage_def stream_finish_def anthropic_stop_reason_def
        map_anthropic_stop_reason_def unwrap_or_def)
  then show ?thesis using p by (intro exI [of _ ?chunks]) auto
qed

end
