(* ===== verification/Gemini_Schema.thy ===== *)
theory Gemini_Schema
  imports OpenAI_Adapter
begin

text \<open>
  The normalisation of tool schemas in the Gemini adapter (\<^verbatim>\<open>src/src/adapters/gemini.rs\<close>): which JSON Schema keywords are
  kept, rewritten, dropped or refused, and the merging of \<open>allOf\<close> branches. \<open>None\<close> is a panic, \<open>Inl\<close> the refusal of the
  request. A map has no duplicate keys, so the value of \<open>allOf\<close> and of \<open>const\<close> that the loop remembers is looked up in the
  map once the loop is done.
\<close>

section \<open>Results\<close>

type_synonym 'a checked = "(upstream_failure + 'a) option"

definition checked_bind :: "'a checked \<Rightarrow> ('a \<Rightarrow> 'b checked) \<Rightarrow> 'b checked" where
  "checked_bind x f = (case x of None \<Rightarrow> None | Some (Inl err) \<Rightarrow> Some (Inl err) | Some (Inr v) \<Rightarrow> f v)"

lemma checked_bind_simps [simp]:
  "checked_bind None f = None" "checked_bind (Some (Inl err)) f = Some (Inl err)" "checked_bind (Some (Inr v)) f = f v"
  by (simp_all add: checked_bind_def)

lemma checked_bind_Inr: "checked_bind x f = Some (Inr w) \<longleftrightarrow> (\<exists>v. x = Some (Inr v) \<and> f v = Some (Inr w))"
  by (auto simp: checked_bind_def split: option.splits sum.splits)

lemma checked_bind_cong [fundef_cong]:
  "x = x' \<Longrightarrow> (\<And>v. x' = Some (Inr v) \<Longrightarrow> f v = f' v) \<Longrightarrow> checked_bind x f = checked_bind x' f'"
  by (auto simp: checked_bind_def split: option.splits sum.splits)

abbreviation accept :: "'a \<Rightarrow> 'a checked" where
  "accept v \<equiv> Some (Inr v)"

definition schema_error :: "string \<Rightarrow> string \<Rightarrow> upstream_failure" where
  "schema_error path message = failure_of BadRequest None (''Gemini tool schema at '' @ path @ '': '' @ message)"

definition refuse :: "string \<Rightarrow> string \<Rightarrow> 'a checked" where
  "refuse path message = Some (Inl (schema_error path message))"

lemma refuse_not_accepted [simp]: "refuse path message \<noteq> Some (Inr v)" "refuse path message \<noteq> None"
  by (simp_all add: refuse_def)

definition sub_path :: "string \<Rightarrow> string \<Rightarrow> string" where
  "sub_path path key = path @ ''.'' @ key"

definition at_index :: "string \<Rightarrow> nat \<Rightarrow> string" where
  "at_index path i = path @ ''['' @ show_nat i @ '']''"

section \<open>Merging\<close>

lemma size_field: "map_of fs k = Some v \<Longrightarrow> size v < size (JObject fs)"
  by (induction fs) (auto split: if_splits)

lemma size_entry: "(k, v) \<in> set fs \<Longrightarrow> size v < size (JObject fs)"
  by (induction fs) auto

lemma size_snd: "f \<in> set fs \<Longrightarrow> size (snd f) < size (JObject fs)"
  using size_entry [of "fst f" "snd f" fs] by simp

lemma size_element: "v \<in> set vs \<Longrightarrow> size v < size (JArray vs)"
  by (induction vs) auto

fun merge_entries :: "string \<Rightarrow> (string \<times> json) list \<Rightarrow> (string \<times> json) list \<Rightarrow> (string \<times> json) list checked" where
  "merge_entries path [] target = accept target"
| "merge_entries path ((name, schema) # rest) target =
     (case map_of target name of
        Some previous \<Rightarrow>
          if value_eq previous schema then merge_entries path rest target
          else refuse (sub_path path name) ''conflicting allOf schemas cannot be represented safely''
      | None \<Rightarrow> merge_entries path rest (target @ [(name, schema)]))"

definition merge_items :: "json list \<Rightarrow> json list \<Rightarrow> json list" where
  "merge_items source target = fold (\<lambda>x ys. if list_ex (\<lambda>y. value_eq y x) ys then ys else ys @ [x]) source target"

definition merge_schema_key :: "string \<Rightarrow> string \<times> json \<Rightarrow> (string \<times> json) list \<Rightarrow> (string \<times> json) list checked" where
  "merge_schema_key path entry target =
     (case entry of (key, value) \<Rightarrow>
      if key = ''properties'' \<or> key = ''$defs'' then
        (case value of
           JObject source \<Rightarrow>
             (case unwrap_or (map_of target key) (JObject []) of
                JObject present \<Rightarrow>
                  checked_bind (merge_entries (sub_path path key) source present) (\<lambda>m. accept (obj_insert key (JObject m) target))
              | _ \<Rightarrow> None)
         | _ \<Rightarrow> refuse (sub_path path key) ''must be an object'')
      else if key = ''required'' then
        (case value of
           JArray source \<Rightarrow>
             (case unwrap_or (map_of target key) (JArray []) of
                JArray present \<Rightarrow> accept (obj_insert key (JArray (merge_items source present)) target)
              | _ \<Rightarrow> None)
         | _ \<Rightarrow> refuse (sub_path path key) ''must be an array'')
      else if key = ''title'' \<or> key = ''description'' then accept (insert_absent key value target)
      else case map_of target key of
             Some previous \<Rightarrow>
               if value_eq previous value then accept target
               else refuse (sub_path path key) ''conflicting allOf constraints cannot be represented safely''
           | None \<Rightarrow> accept (obj_insert key value target))"

fun merge_schema_maps :: "string \<Rightarrow> (string \<times> json) list \<Rightarrow> (string \<times> json) list \<Rightarrow> (string \<times> json) list checked" where
  "merge_schema_maps path [] target = accept target"
| "merge_schema_maps path (entry # rest) target =
     checked_bind (merge_schema_key path entry target) (merge_schema_maps path rest)"

fun merge_branches :: "string \<Rightarrow> nat \<Rightarrow> json list \<Rightarrow> (string \<times> json) list \<Rightarrow> (string \<times> json) list checked" where
  "merge_branches path i [] merged = accept merged"
| "merge_branches path i (JObject fs # branches) merged =
     checked_bind (merge_schema_maps (at_index path i) fs merged) (merge_branches path (Suc i) branches)"
| "merge_branches path i (_ # branches) merged = refuse (at_index path i) ''allOf branch must be an object schema''"

definition NULL_TYPE :: json where
  "NULL_TYPE = JObject [(''type'', JString ''null'')]"

definition add_nullable_type :: "string \<Rightarrow> (string \<times> json) list \<Rightarrow> (string \<times> json) list checked" where
  "add_nullable_type path schema =
     (case map_of schema ''type'' of
        Some (JString s) \<Rightarrow>
          accept (if s \<noteq> ''null'' then obj_insert ''type'' (JArray [JString s, JString ''null'']) schema else schema)
      | Some (JArray types) \<Rightarrow>
          accept (if list_ex (\<lambda>v. as_str v = Some ''null'') types then schema
                  else obj_insert ''type'' (JArray (types @ [JString ''null''])) schema)
      | Some _ \<Rightarrow> refuse path ''nullable requires a string or array type''
      | None \<Rightarrow>
          (case map_of schema ''anyOf'' of
             Some (JArray branches) \<Rightarrow>
               accept (if list_ex (\<lambda>b. get_str b ''type'' = Some ''null'') branches then schema
                       else obj_insert ''anyOf'' (JArray (branches @ [NULL_TYPE])) schema)
           | _ \<Rightarrow> refuse path ''nullable without type or anyOf cannot be normalized safely''))"

section \<open>Normalising a schema\<close>

definition DROPPED_KEYS :: "string list" where
  "DROPPED_KEYS = [''$schema'', ''$comment'', ''strict'', ''default'', ''examples'', ''example'', ''deprecated'', ''readOnly'',
     ''writeOnly'']"

definition KEPT_KEYS :: "string list" where
  "KEPT_KEYS = [''$id'', ''$anchor'', ''type'', ''format'', ''title'', ''description'', ''enum'', ''minLength'', ''maxLength'',
     ''minItems'', ''maxItems'', ''minimum'', ''maximum'', ''pattern'', ''minProperties'', ''maxProperties'', ''required'',
     ''propertyOrdering'']"

text \<open>The object under construction and whether the schema is nullable.\<close>

type_synonym schema_acc = "(string \<times> json) list \<times> bool"

definition put :: "string \<Rightarrow> json \<Rightarrow> schema_acc \<Rightarrow> schema_acc" where
  "put key value acc = (obj_insert key value (fst acc), snd acc)"

definition local_ref :: "string \<Rightarrow> string" where
  "local_ref r = (case strip_prefix ''#/definitions/'' r of Some suffix \<Rightarrow> ''#/$defs/'' @ suffix | None \<Rightarrow> r)"

definition apply_const :: "string \<Rightarrow> json option \<Rightarrow> (string \<times> json) list \<Rightarrow> (string \<times> json) list checked" where
  "apply_const path const out =
     (case const of
        None \<Rightarrow> accept out
      | Some value \<Rightarrow>
          if (case map_of out ''enum'' of Some (JArray xs) \<Rightarrow> \<not> list_ex (\<lambda>x. value_eq x value) xs | _ \<Rightarrow> False)
          then refuse (sub_path path ''const'') ''const conflicts with enum''
          else accept (obj_insert ''enum'' (JArray [value]) out))"

definition check_ref :: "string \<Rightarrow> (string \<times> json) list \<Rightarrow> (string \<times> json) list checked" where
  "check_ref path out =
     (if map_of out ''$ref'' \<noteq> None \<and> list_ex (\<lambda>f. \<not> starts_with (fst f) ''$'') out
      then refuse path ''$ref cannot be combined with non-$ sibling constraints'' else accept out)"

definition plain_key :: "string \<Rightarrow> string \<Rightarrow> json \<Rightarrow> schema_acc \<Rightarrow> schema_acc checked" where
  "plain_key path key value acc =
     (if key \<in> set DROPPED_KEYS \<or> key = ''allOf'' \<or> key = ''const'' then accept acc
      else if key = ''$ref'' then
        (case value of JString r \<Rightarrow> accept (put ''$ref'' (JString (local_ref r)) acc)
         | _ \<Rightarrow> refuse (sub_path path ''$ref'') ''must be a string'')
      else if key = ''nullable'' then
        (case value of JBool b \<Rightarrow> accept (fst acc, b) | _ \<Rightarrow> refuse (sub_path path ''nullable'') ''must be a boolean'')
      else if key \<in> set KEPT_KEYS then accept (put key value acc)
      else refuse (sub_path path key) (''unsupported JSON Schema keyword '' @ quoted key))"

function (sequential)
  sanitize_node :: "string \<Rightarrow> json \<Rightarrow> json checked" and
  sanitize_keys :: "string \<Rightarrow> (string \<times> json) list \<Rightarrow> schema_acc \<Rightarrow> schema_acc checked" and
  sanitize_key :: "string \<Rightarrow> string \<Rightarrow> json \<Rightarrow> schema_acc \<Rightarrow> schema_acc checked" and
  sanitize_named :: "string \<Rightarrow> (string \<times> json) list \<Rightarrow> (string \<times> json) list \<Rightarrow> (string \<times> json) list checked" and
  sanitize_list :: "string \<Rightarrow> nat \<Rightarrow> json list \<Rightarrow> json list checked" where
  "sanitize_node path (JObject fs) =
     checked_bind (sanitize_keys path fs ([], False)) (\<lambda>acc.
     checked_bind (apply_const path (map_of fs ''const'') (fst acc)) (\<lambda>out.
     checked_bind
       (case map_of fs ''allOf'' of
          None \<Rightarrow> accept out
        | Some (JArray branches) \<Rightarrow>
            checked_bind (sanitize_list (sub_path path ''allOf'') 0 branches) (\<lambda>bs.
            checked_bind (merge_branches (sub_path path ''allOf'') 0 bs []) (\<lambda>merged. merge_schema_maps path merged out))
        | Some _ \<Rightarrow> refuse (sub_path path ''allOf'') ''expected an array of schemas'') (\<lambda>out.
     checked_bind (if snd acc then add_nullable_type path out else accept out) (\<lambda>out.
     checked_bind (check_ref path out) (\<lambda>out. accept (JObject out))))))"
| "sanitize_node path _ = refuse path ''schema nodes must be JSON objects''"
| "sanitize_keys path [] acc = accept acc"
| "sanitize_keys path ((key, value) # fs) acc = checked_bind (sanitize_key path key value acc) (sanitize_keys path fs)"
| "sanitize_key path key value acc =
     (if key = ''definitions'' \<or> key = ''$defs'' then
        (case value of
           JObject gs \<Rightarrow>
             checked_bind (sanitize_named (sub_path path key) gs []) (\<lambda>defs.
             checked_bind (merge_schema_maps path [(''$defs'', JObject defs)] (fst acc)) (\<lambda>out. accept (out, snd acc)))
         | _ \<Rightarrow> refuse (sub_path path key) ''must be an object'')
      else if key = ''properties'' then
        (case value of
           JObject gs \<Rightarrow> checked_bind (sanitize_named (sub_path path key) gs []) (\<lambda>ps. accept (put key (JObject ps) acc))
         | _ \<Rightarrow> refuse (sub_path path key) ''must be an object'')
      else if key = ''items'' then
        (case value of
           JArray xs \<Rightarrow> checked_bind (sanitize_list (sub_path path key) 0 xs) (\<lambda>ys. accept (put ''prefixItems'' (JArray ys) acc))
         | _ \<Rightarrow> checked_bind (sanitize_node (sub_path path key) value) (\<lambda>v. accept (put key v acc)))
      else if key = ''prefixItems'' \<or> key = ''anyOf'' then
        (case value of
           JArray xs \<Rightarrow> checked_bind (sanitize_list (sub_path path key) 0 xs) (\<lambda>ys. accept (put key (JArray ys) acc))
         | _ \<Rightarrow> refuse (sub_path path key) ''expected an array of schemas'')
      else if key = ''oneOf'' then
        if map_of (fst acc) ''anyOf'' \<noteq> None
        then refuse (sub_path path key) ''cannot combine oneOf and anyOf safely''
        else (case value of
           JArray xs \<Rightarrow> checked_bind (sanitize_list (sub_path path key) 0 xs) (\<lambda>ys. accept (put ''anyOf'' (JArray ys) acc))
         | _ \<Rightarrow> refuse (sub_path path key) ''expected an array of schemas'')
      else if key = ''additionalProperties'' then
        (case value of
           JBool b \<Rightarrow> accept (put key value acc)
         | JObject _ \<Rightarrow> checked_bind (sanitize_node (sub_path path key) value) (\<lambda>v. accept (put key v acc))
         | _ \<Rightarrow> refuse (sub_path path key) ''must be a boolean or schema object'')
      else plain_key path key value acc)"
| "sanitize_named path [] target = accept target"
| "sanitize_named path ((name, schema) # rest) target =
     checked_bind (sanitize_node (sub_path path name) schema) (\<lambda>s. sanitize_named path rest (obj_insert name s target))"
| "sanitize_list path i [] = accept []"
| "sanitize_list path i (schema # rest) =
     checked_bind (sanitize_node (at_index path i) schema) (\<lambda>s.
     checked_bind (sanitize_list path (Suc i) rest) (\<lambda>ss. accept (s # ss)))"
  by pat_completeness auto

termination
  by (relation "measure (\<lambda>x. case x of
        Inl (Inl (_, v)) \<Rightarrow> 3 * size v + 2
      | Inl (Inr (_, fs, _)) \<Rightarrow> 3 * size (JObject fs) + 1
      | Inr (Inl (_, _, v, _)) \<Rightarrow> 3 * size v + 3
      | Inr (Inr (Inl (_, fs, _))) \<Rightarrow> 3 * size (JObject fs)
      | Inr (Inr (Inr (_, _, xs))) \<Rightarrow> 3 * size (JArray xs))")
    (auto dest: size_field)

declare sanitize_node.simps(1) [simp del] sanitize_key.simps [simp del]

definition sanitize_schema :: "string \<Rightarrow> json \<Rightarrow> json checked" where
  "sanitize_schema root_path schema = sanitize_node root_path schema"

section \<open>What is sent\<close>

text \<open>
  The schemas the upstream accepts: the keywords of its list at every schema position, and no reference beside a
  constraint.
\<close>

definition ref_alone :: "(string \<times> json) list \<Rightarrow> bool" where
  "ref_alone fs \<longleftrightarrow> (map_of fs ''$ref'' \<noteq> None \<longrightarrow> list_all (\<lambda>f. starts_with (fst f) ''$'') fs)"

function (sequential) gemini_schema :: "json \<Rightarrow> bool" and gemini_field :: "string \<Rightarrow> json \<Rightarrow> bool" where
  "gemini_schema (JObject fs) \<longleftrightarrow> ref_alone fs \<and> distinct (map fst fs) \<and> (\<forall>f \<in> set fs. gemini_field (fst f) (snd f))"
| "gemini_schema _ \<longleftrightarrow> False"
| "gemini_field key value \<longleftrightarrow>
     (if key = ''$defs'' \<or> key = ''properties''
      then (case value of JObject gs \<Rightarrow> distinct (map fst gs) \<and> (\<forall>g \<in> set gs. gemini_schema (snd g)) | _ \<Rightarrow> False)
      else if key = ''items'' then gemini_schema value
      else if key = ''prefixItems'' \<or> key = ''anyOf''
      then (case value of JArray xs \<Rightarrow> \<forall>x \<in> set xs. gemini_schema x | _ \<Rightarrow> False)
      else if key = ''additionalProperties'' then (case value of JBool _ \<Rightarrow> True | _ \<Rightarrow> gemini_schema value)
      else if key = ''$ref'' then (case value of JString r \<Rightarrow> local_ref r = r | _ \<Rightarrow> False)
      else key \<in> set KEPT_KEYS)"
  by pat_completeness auto

termination
proof (relation "measure (\<lambda>x. case x of Inl v \<Rightarrow> 2 * size v | Inr (_, v) \<Rightarrow> 2 * size v + 1)")
  fix f :: "string \<times> json" and fs assume "f \<in> set fs"
  from size_snd [OF this]
  show "(Inr (fst f, snd f), Inl (JObject fs)) \<in> measure (\<lambda>x. case x of Inl v \<Rightarrow> 2 * size v | Inr (_, v) \<Rightarrow> 2 * size v + 1)"
    by (simp add: split_beta del: json.size)
next
  fix g :: "string \<times> json" and gs v key assume "v = JObject gs" "g \<in> set gs"
  from size_snd [OF this(2)] this(1)
  show "(Inl (snd g), Inr (key, v)) \<in> measure (\<lambda>x. case x of Inl v \<Rightarrow> 2 * size v | Inr (_, v) \<Rightarrow> 2 * size v + 1)"
    by (simp add: split_beta del: json.size)
next
  fix x xs v key assume "v = JArray xs" "x \<in> set xs"
  from size_element [OF this(2)] this(1)
  show "(Inl x, Inr (key, v)) \<in> measure (\<lambda>x. case x of Inl v \<Rightarrow> 2 * size v | Inr (_, v) \<Rightarrow> 2 * size v + 1)"
    by (simp del: json.size)
qed simp_all

definition fields_ok :: "(string \<times> json) list \<Rightarrow> bool" where
  "fields_ok fs \<longleftrightarrow> distinct (map fst fs) \<and> (\<forall>f \<in> set fs. gemini_field (fst f) (snd f))"

definition named_ok :: "(string \<times> json) list \<Rightarrow> bool" where
  "named_ok gs \<longleftrightarrow> distinct (map fst gs) \<and> (\<forall>g \<in> set gs. gemini_schema (snd g))"

declare gemini_field.simps [simp del] gemini_schema.simps(1) [simp del]

lemma gemini_object: "gemini_schema (JObject fs) \<longleftrightarrow> ref_alone fs \<and> fields_ok fs"
  by (simp add: fields_ok_def gemini_schema.simps(1))

lemma field_named:
  assumes "key = ''$defs'' \<or> key = ''properties''"
  shows "gemini_field key v \<longleftrightarrow> (\<exists>gs. v = JObject gs \<and> named_ok gs)"
  unfolding gemini_field.simps [of key v] if_P [OF assms] by (cases v) (simp_all add: named_ok_def)

lemma field_array_at:
  "gemini_field ''prefixItems'' v \<longleftrightarrow> (\<exists>xs. v = JArray xs \<and> (\<forall>x \<in> set xs. gemini_schema x))"
  "gemini_field ''anyOf'' v \<longleftrightarrow> (\<exists>xs. v = JArray xs \<and> (\<forall>x \<in> set xs. gemini_schema x))"
  by (cases v; simp add: gemini_field.simps)+

lemma field_array:
  "key = ''prefixItems'' \<or> key = ''anyOf'' \<Longrightarrow> gemini_field key v \<longleftrightarrow> (\<exists>xs. v = JArray xs \<and> (\<forall>x \<in> set xs. gemini_schema x))"
  using field_array_at by (elim disjE) simp_all

lemma kept_not_nested:
  "list_all (\<lambda>k. k \<notin> set [''$defs'', ''properties'', ''items'', ''prefixItems'', ''anyOf'', ''additionalProperties'', ''$ref'']) KEPT_KEYS"
  by code_simp

lemma field_kept: "key \<in> set KEPT_KEYS \<Longrightarrow> gemini_field key v"
proof -
  assume k: "key \<in> set KEPT_KEYS"
  then have "key \<notin> set [''$defs'', ''properties'', ''items'', ''prefixItems'', ''anyOf'', ''additionalProperties'', ''$ref'']"
    using kept_not_nested unfolding list_all_iff by blast
  then show ?thesis using k by (simp add: gemini_field.simps)
qed

lemma field_ref: "gemini_field ''$ref'' v \<longleftrightarrow> (\<exists>r. v = JString r \<and> local_ref r = r)"
  by (cases v) (simp_all add: gemini_field.simps)

lemma local_ref_stable: "local_ref (local_ref r) = local_ref r"
  by (simp add: local_ref_def split: option.split)

lemma field_items: "gemini_field ''items'' v \<longleftrightarrow> gemini_schema v"
  by (simp add: gemini_field.simps)

lemma field_additional: "gemini_field ''additionalProperties'' v \<longleftrightarrow> (\<exists>b. v = JBool b) \<or> gemini_schema v"
  by (cases v) (simp_all add: gemini_field.simps)

lemma fields_Nil [simp]: "fields_ok []"
  by (simp add: fields_ok_def)

lemma fields_lookup: "fields_ok fs \<Longrightarrow> map_of fs k = Some v \<Longrightarrow> gemini_field k v"
  using map_of_SomeD [of fs k v] unfolding fields_ok_def by fastforce

lemma distinct_insert: "distinct (map fst fs) \<Longrightarrow> distinct (map fst (obj_insert k v fs))"
  by (auto simp: keys_obj_insert)

lemma ball_insert: "\<forall>f \<in> set fs. P f \<Longrightarrow> P (k, v) \<Longrightarrow> \<forall>f \<in> set (obj_insert k v fs). P f"
proof (induction fs)
  case (Cons f fs)
  then show ?case by (cases f; cases "fst f = k") simp_all
qed simp

lemma fields_insert: "fields_ok fs \<Longrightarrow> gemini_field k v \<Longrightarrow> fields_ok (obj_insert k v fs)"
  unfolding fields_ok_def using distinct_insert ball_insert [of fs "\<lambda>f. gemini_field (fst f) (snd f)"] by simp

lemma named_insert: "named_ok gs \<Longrightarrow> gemini_schema v \<Longrightarrow> named_ok (obj_insert k v gs)"
  unfolding named_ok_def using distinct_insert ball_insert [of gs "\<lambda>g. gemini_schema (snd g)"] by simp

lemma fields_absent: "fields_ok fs \<Longrightarrow> gemini_field k v \<Longrightarrow> fields_ok (insert_absent k v fs)"
  by (cases "map_of fs k") (auto simp: insert_absent_def fields_ok_def map_of_eq_None_iff)

lemma entries_merged:
  "merge_entries path source target = accept m \<Longrightarrow> \<forall>g \<in> set source. gemini_schema (snd g) \<Longrightarrow> named_ok target \<Longrightarrow> named_ok m"
  by (induction path source target rule: merge_entries.induct)
     (auto simp: named_ok_def map_of_eq_None_iff split: option.splits if_splits)

lemma key_merged:
  assumes "merge_schema_key path (key, v) target = accept m" "gemini_field key v" "fields_ok target"
  shows "fields_ok m"
proof -
  consider (named) "key = ''properties'' \<or> key = ''$defs''" | (req) "key = ''required''"
    | (words) "key = ''title'' \<or> key = ''description''"
    | (other) "key \<notin> {''properties'', ''$defs'', ''required'', ''title'', ''description''}" by auto
  then show ?thesis
  proof cases
    case named
    then obtain source present mm where s: "v = JObject source" "\<forall>g \<in> set source. gemini_schema (snd g)"
        "unwrap_or (map_of target key) (JObject []) = JObject present"
        "merge_entries (sub_path path key) source present = accept mm" "m = obj_insert key (JObject mm) target"
      using assms(1,2) field_named [of key v]
      by (auto simp: merge_schema_key_def checked_bind_Inr named_ok_def split: json.splits)
    have "named_ok present"
    proof (cases "map_of target key")
      case (Some w)
      then show ?thesis using s(3) fields_lookup [OF assms(3) Some] field_named [of key w] named by (auto simp: unwrap_or_def)
    qed (use s(3) in \<open>simp add: unwrap_or_def named_ok_def\<close>)
    then have "gemini_field key (JObject mm)" using entries_merged [OF s(4)] s(2) field_named [of key "JObject mm"] named by auto
    then show ?thesis using fields_insert [OF assms(3)] s(5) by simp
  next
    case req
    then show ?thesis using assms(1,3) field_kept [of key]
      by (auto simp: merge_schema_key_def KEPT_KEYS_def split: json.splits intro!: fields_insert)
  next
    case words
    then show ?thesis using assms
      by (auto simp: merge_schema_key_def intro: fields_absent)
  next
    case other
    then show ?thesis using assms by (auto simp: merge_schema_key_def split: option.splits if_splits intro: fields_insert)
  qed
qed

lemma maps_merged:
  "merge_schema_maps path fs target = accept m \<Longrightarrow> \<forall>f \<in> set fs. gemini_field (fst f) (snd f) \<Longrightarrow> fields_ok target \<Longrightarrow>
   fields_ok m"
proof (induction path fs target rule: merge_schema_maps.induct)
  case (2 path entry rest target)
  obtain t where t: "merge_schema_key path entry target = accept t" "merge_schema_maps path rest t = accept m"
    using 2(2) by (auto simp: checked_bind_Inr)
  then have "fields_ok t" using key_merged [of path "fst entry" "snd entry"] 2(3,4) by simp
  then show ?case using 2(1) [OF t(1) t(2)] 2(3) by simp
qed simp

lemma branches_merged:
  "merge_branches path i bs merged = accept m \<Longrightarrow> \<forall>b \<in> set bs. gemini_schema b \<Longrightarrow> fields_ok merged \<Longrightarrow> fields_ok m"
proof (induction path i bs merged rule: merge_branches.induct)
  case (2 path i fs branches merged)
  obtain t where t: "merge_schema_maps (at_index path i) fs merged = accept t" "merge_branches path (Suc i) branches t = accept m"
    using 2(2) by (auto simp: checked_bind_Inr)
  have "fields_ok fs" using 2(3) by (simp add: gemini_object)
  then have "fields_ok t" using maps_merged [OF t(1) _ 2(4)] by (simp add: fields_ok_def)
  then show ?case using 2(1) [OF t] 2(3) by simp
qed simp_all

lemma nullable_ok:
  assumes "add_nullable_type path fs = accept m" "fields_ok fs"
  shows "fields_ok m"
proof -
  have "gemini_field ''type'' v" for v by (rule field_kept) (simp add: KEPT_KEYS_def)
  moreover have "gemini_field ''anyOf'' (JArray (bs @ [NULL_TYPE]))" if "map_of fs ''anyOf'' = Some (JArray bs)" for bs
  proof -
    have "gemini_schema NULL_TYPE" by (simp add: NULL_TYPE_def gemini_object ref_alone_def fields_ok_def field_kept KEPT_KEYS_def)
    then show ?thesis using fields_lookup [OF assms(2) that] by (auto simp: field_array)
  qed
  ultimately show ?thesis using assms
    by (auto simp: add_nullable_type_def split: option.splits json.splits if_splits intro!: fields_insert)
qed

lemma const_ok: "apply_const path c fs = accept m \<Longrightarrow> fields_ok fs \<Longrightarrow> fields_ok m"
  by (auto simp: apply_const_def KEPT_KEYS_def split: option.splits if_splits intro!: fields_insert field_kept)

lemma ref_checked: "check_ref path fs = accept m \<Longrightarrow> m = fs \<and> ref_alone m"
  by (auto simp: check_ref_def ref_alone_def list_ex_iff list_all_iff split: if_splits)

lemma plain_key_ok: "plain_key path key v acc = accept acc' \<Longrightarrow> fields_ok (fst acc) \<Longrightarrow> fields_ok (fst acc')"
  by (auto simp: plain_key_def put_def field_ref local_ref_stable split: if_splits json.splits intro!: fields_insert)
     (simp add: field_kept)

lemma put_ok: "fields_ok (fst acc) \<Longrightarrow> gemini_field k v \<Longrightarrow> fields_ok (fst (put k v acc))"
  by (simp add: put_def fields_insert)

lemma defs_merged:
  assumes "merge_schema_maps path [(''$defs'', JObject defs)] fs = accept m" "named_ok defs" "fields_ok fs"
  shows "fields_ok m"
  using maps_merged [OF assms(1) _ assms(3)] assms(2) by (simp add: field_named)

text \<open>One equation per keyword that is not simply kept or dropped.\<close>

lemma sanitize_defs:
  "key = ''definitions'' \<or> key = ''$defs'' \<Longrightarrow> sanitize_key path key v acc =
     (case v of
        JObject gs \<Rightarrow>
          checked_bind (sanitize_named (sub_path path key) gs []) (\<lambda>defs.
          checked_bind (merge_schema_maps path [(''$defs'', JObject defs)] (fst acc)) (\<lambda>out. accept (out, snd acc)))
      | _ \<Rightarrow> refuse (sub_path path key) ''must be an object'')"
  by (simp only: sanitize_key.simps if_True)

lemma sanitize_properties:
  "sanitize_key path ''properties'' v acc =
     (case v of
        JObject gs \<Rightarrow>
          checked_bind (sanitize_named (sub_path path ''properties'') gs []) (\<lambda>ps. accept (put ''properties'' (JObject ps) acc))
      | _ \<Rightarrow> refuse (sub_path path ''properties'') ''must be an object'')"
  by (simp add: sanitize_key.simps)

lemma sanitize_items:
  "sanitize_key path ''items'' v acc =
     (case v of
        JArray xs \<Rightarrow>
          checked_bind (sanitize_list (sub_path path ''items'') 0 xs) (\<lambda>ys. accept (put ''prefixItems'' (JArray ys) acc))
      | _ \<Rightarrow> checked_bind (sanitize_node (sub_path path ''items'') v) (\<lambda>w. accept (put ''items'' w acc)))"
  by (simp add: sanitize_key.simps)

lemma sanitize_arrays:
  "key = ''prefixItems'' \<or> key = ''anyOf'' \<Longrightarrow> sanitize_key path key v acc =
     (case v of
        JArray xs \<Rightarrow> checked_bind (sanitize_list (sub_path path key) 0 xs) (\<lambda>ys. accept (put key (JArray ys) acc))
      | _ \<Rightarrow> refuse (sub_path path key) ''expected an array of schemas'')"
  by (auto simp: sanitize_key.simps)

lemma sanitize_one_of:
  "sanitize_key path ''oneOf'' v acc =
     (if map_of (fst acc) ''anyOf'' \<noteq> None
      then refuse (sub_path path ''oneOf'') ''cannot combine oneOf and anyOf safely''
      else (case v of
         JArray xs \<Rightarrow>
           checked_bind (sanitize_list (sub_path path ''oneOf'') 0 xs) (\<lambda>ys. accept (put ''anyOf'' (JArray ys) acc))
       | _ \<Rightarrow> refuse (sub_path path ''oneOf'') ''expected an array of schemas''))"
  by (simp add: sanitize_key.simps)

lemma sanitize_additional:
  "sanitize_key path ''additionalProperties'' v acc =
     (case v of
        JBool b \<Rightarrow> accept (put ''additionalProperties'' v acc)
      | JObject _ \<Rightarrow>
          checked_bind (sanitize_node (sub_path path ''additionalProperties'') v) (\<lambda>w. accept (put ''additionalProperties'' w acc))
      | _ \<Rightarrow> refuse (sub_path path ''additionalProperties'') ''must be a boolean or schema object'')"
  by (simp add: sanitize_key.simps)

definition NESTING_KEYS :: "string set" where
  "NESTING_KEYS = {''definitions'', ''$defs'', ''properties'', ''items'', ''prefixItems'', ''anyOf'', ''oneOf'', ''additionalProperties''}"

lemma nesting_cases:
  assumes "key \<in> NESTING_KEYS"
  obtains "key = ''definitions''" | "key = ''$defs''" | "key = ''properties''" | "key = ''items''" | "key = ''prefixItems''"
    | "key = ''anyOf''" | "key = ''oneOf''" | "key = ''additionalProperties''"
  using assms unfolding NESTING_KEYS_def by (elim insertE emptyE)

lemma sanitize_plain: "key \<notin> NESTING_KEYS \<Longrightarrow> sanitize_key path key v acc = plain_key path key v acc"
  by (simp add: sanitize_key.simps NESTING_KEYS_def)

text \<open>The values nested in \<open>v\<close>, and \<open>v\<close> itself, are normalised to what the upstream accepts.\<close>

definition nested_ok :: "nat \<Rightarrow> bool" where
  "nested_ok n \<longleftrightarrow> (\<forall>u p w. size u \<le> n \<longrightarrow> sanitize_node p u = accept w \<longrightarrow> gemini_schema w)"

lemma nested_okD: "nested_ok n \<Longrightarrow> size u \<le> n \<Longrightarrow> sanitize_node p u = accept w \<Longrightarrow> gemini_schema w"
  unfolding nested_ok_def by blast

lemma nested_less: "nested_ok n \<Longrightarrow> m \<le> n \<Longrightarrow> nested_ok m"
  unfolding nested_ok_def using order_trans by blast

lemma named_sanitized:
  "sanitize_named path gs target = accept named \<Longrightarrow> nested_ok (size (JObject gs)) \<Longrightarrow> named_ok target \<Longrightarrow> named_ok named"
proof (induction gs arbitrary: target)
  case (Cons g gs)
  obtain name schema where g: "g = (name, schema)" by (cases g)
  then obtain s where s: "sanitize_node (sub_path path name) schema = accept s"
      "sanitize_named path gs (obj_insert name s target) = accept named"
    using Cons.prems(1) by (auto simp: checked_bind_Inr)
  have "gemini_schema s" using nested_okD [OF Cons.prems(2) _ s(1)] by (simp add: g)
  then show ?case using Cons.IH [OF s(2)] nested_less [OF Cons.prems(2)] named_insert [OF Cons.prems(3)] by simp
qed simp

lemma named_start [simp]: "named_ok []"
  by (simp add: named_ok_def)

lemma list_sanitized:
  "sanitize_list path i xs = accept ys \<Longrightarrow> nested_ok (size (JArray xs)) \<Longrightarrow> \<forall>y \<in> set ys. gemini_schema y"
proof (induction xs arbitrary: i ys)
  case (Cons x xs)
  obtain s ss where s: "sanitize_node (at_index path i) x = accept s" "sanitize_list path (Suc i) xs = accept ss" "ys = s # ss"
    using Cons.prems(1) by (auto simp: checked_bind_Inr)
  have "gemini_schema s" using nested_okD [OF Cons.prems(2) _ s(1)] by simp
  moreover have "\<forall>y \<in> set ss. gemini_schema y" using Cons.IH [OF s(2)] nested_less [OF Cons.prems(2)] by simp
  ultimately show ?case using s(3) by simp
qed simp

lemma key_sanitized:
  assumes "sanitize_key path key v acc = accept acc'" "fields_ok (fst acc)" "nested_ok (size v)"
  shows "fields_ok (fst acc')"
proof -
  have node: "sanitize_node p v = accept w \<Longrightarrow> gemini_schema w" for p w
    by (rule nested_okD [OF assms(3) order_refl])
  consider (plain) "key \<notin> NESTING_KEYS" | (defs) "key = ''definitions'' \<or> key = ''$defs''" | (props) "key = ''properties''"
    | (items) "key = ''items''" | (arrays) "key = ''prefixItems'' \<or> key = ''anyOf''" | (one) "key = ''oneOf''"
    | (extra) "key = ''additionalProperties''"
  proof (cases "key \<in> NESTING_KEYS")
    case True
    then show ?thesis by (rule nesting_cases) (rule that, simp only: simp_thms)+
  qed (rule that(1))
  then show ?thesis
  proof cases
    case plain
    then show ?thesis using assms(1,2) plain_key_ok by (simp add: sanitize_plain)
  next
    case defs
    then obtain gs named m where d: "v = JObject gs" "sanitize_named (sub_path path key) gs [] = accept named"
        "merge_schema_maps path [(''$defs'', JObject named)] (fst acc) = accept m" "acc' = (m, snd acc)"
      using assms(1) unfolding sanitize_defs [OF defs]
      by (cases v) (auto simp: checked_bind_Inr simp del: merge_schema_maps.simps)
    show ?thesis using defs_merged [OF d(3) named_sanitized [OF d(2)] assms(2)] assms(3) d(1,4) by simp
  next
    case props
    then obtain gs named where d: "v = JObject gs" "sanitize_named (sub_path path key) gs [] = accept named"
        "acc' = put key (JObject named) acc"
      using assms(1) by (cases v) (auto simp: checked_bind_Inr sanitize_properties)
    show ?thesis using named_sanitized [OF d(2)] assms(2,3) d(1,3) props by (simp add: put_ok field_named)
  next
    case items
    then consider xs ys where "v = JArray xs" "sanitize_list (sub_path path key) 0 xs = accept ys"
        "acc' = put ''prefixItems'' (JArray ys) acc" | w where "sanitize_node (sub_path path key) v = accept w" "acc' = put key w acc"
      using assms(1) by (cases v) (auto simp: checked_bind_Inr sanitize_items)
    then show ?thesis
    proof cases
      case (1 xs ys)
      then show ?thesis using list_sanitized [OF 1(2)] assms(2,3) by (simp add: put_ok field_array)
    next
      case (2 w)
      then show ?thesis using node [OF 2(1)] assms(2) items by (simp add: put_ok field_items)
    qed
  next
    case arrays
    then obtain xs ys where d: "v = JArray xs" "sanitize_list (sub_path path key) 0 xs = accept ys" "acc' = put key (JArray ys) acc"
      using assms(1) unfolding sanitize_arrays [OF arrays] by (cases v) (auto simp: checked_bind_Inr)
    show ?thesis using list_sanitized [OF d(2)] assms(2,3) d(1,3) field_array [OF arrays] by (simp add: put_ok)
  next
    case one
    then obtain xs ys where d: "v = JArray xs" "sanitize_list (sub_path path key) 0 xs = accept ys"
        "acc' = put ''anyOf'' (JArray ys) acc"
      using assms(1) by (cases v) (auto simp: checked_bind_Inr sanitize_one_of split: if_splits)
    show ?thesis using list_sanitized [OF d(2)] assms(2,3) d(1,3) by (simp add: put_ok field_array)
  next
    case extra
    then consider b where "v = JBool b" "acc' = put key v acc"
      | w where "sanitize_node (sub_path path key) v = accept w" "acc' = put key w acc"
      using assms(1) by (cases v) (auto simp: checked_bind_Inr sanitize_additional)
    then show ?thesis using node assms(2) extra by cases (auto simp: put_ok field_additional)
  qed
qed

lemma keys_sanitized:
  "sanitize_keys path fs acc = accept acc' \<Longrightarrow> fields_ok (fst acc) \<Longrightarrow> nested_ok (size (JObject fs) - 1) \<Longrightarrow> fields_ok (fst acc')"
proof (induction fs arbitrary: acc)
  case (Cons f fs)
  obtain key v where f: "f = (key, v)" by (cases f)
  then obtain acc1 where s: "sanitize_key path key v acc = accept acc1" "sanitize_keys path fs acc1 = accept acc'"
    using Cons.prems(1) by (auto simp: checked_bind_Inr)
  have "nested_ok (size v)" "nested_ok (size (JObject fs) - 1)" using nested_less [OF Cons.prems(3)] by (simp_all add: f)
  then show ?case using Cons.IH [OF s(2)] key_sanitized [OF s(1) Cons.prems(2)] by blast
qed simp

lemma sanitized: "sanitize_node path v = accept w \<Longrightarrow> gemini_schema w"
proof (induction "size v" arbitrary: path v w rule: less_induct)
  case less
  obtain fs where v: "v = JObject fs" using less.prems by (cases v) auto
  have nested: "nested_ok (size v - 1)"
  proof -
    have "size u < size v" if "size u \<le> size v - 1" for u using that by (simp add: v)
    then show ?thesis using less.hyps unfolding nested_ok_def by blast
  qed
  obtain acc out1 out2 out3 out4 where
    s: "sanitize_keys path fs ([], False) = accept acc" "apply_const path (map_of fs ''const'') (fst acc) = accept out1"
      "(case map_of fs ''allOf'' of
        None \<Rightarrow> accept out1
      | Some (JArray branches) \<Rightarrow>
          checked_bind (sanitize_list (sub_path path ''allOf'') 0 branches) (\<lambda>bs.
          checked_bind (merge_branches (sub_path path ''allOf'') 0 bs []) (\<lambda>merged. merge_schema_maps path merged out1))
      | Some _ \<Rightarrow> refuse (sub_path path ''allOf'') ''expected an array of schemas'') = accept out2"
      "(if snd acc then add_nullable_type path out2 else accept out2) = accept out3" "check_ref path out3 = accept out4"
      "w = JObject out4"
    using less.prems unfolding v sanitize_node.simps(1) checked_bind_Inr by blast
  have 1: "fields_ok out1" using keys_sanitized [OF s(1)] nested const_ok [OF s(2)] by (simp add: v)
  have 2: "fields_ok out2"
  proof (cases "map_of fs ''allOf''")
    case (Some b)
    then obtain branches bs merged where b: "b = JArray branches" "sanitize_list (sub_path path ''allOf'') 0 branches = accept bs"
        "merge_branches (sub_path path ''allOf'') 0 bs [] = accept merged" "merge_schema_maps path merged out1 = accept out2"
      using s(3) by (cases b) (auto simp: checked_bind_Inr)
    have "nested_ok (size (JArray branches))" using nested_less [OF nested] size_field [OF Some] by (simp add: v b(1))
    from branches_merged [OF b(3) list_sanitized [OF b(2) this]] show ?thesis using maps_merged [OF b(4) _ 1]
      by (simp add: fields_ok_def)
  qed (use s(3) 1 in simp)
  have "fields_ok out3" using s(4) 2 nullable_ok by (cases "snd acc") auto
  then show ?case using ref_checked [OF s(5)] s(6) by (auto simp: gemini_object)
qed

section \<open>Normalising twice\<close>

lemma insert_new: "map_of fs k = None \<Longrightarrow> obj_insert k v fs = fs @ [(k, v)]"
  by (induction fs) (auto split: if_splits)

lemma put_new: "map_of out k = None \<Longrightarrow> put k v (out, b) = (out @ [(k, v)], b)"
  by (simp add: put_def insert_new)

definition nested_fixed :: "nat \<Rightarrow> bool" where
  "nested_fixed n \<longleftrightarrow> (\<forall>u p. size u \<le> n \<longrightarrow> gemini_schema u \<longrightarrow> sanitize_node p u = accept u)"

lemma nested_fixedD: "nested_fixed n \<Longrightarrow> size u \<le> n \<Longrightarrow> gemini_schema u \<Longrightarrow> sanitize_node p u = accept u"
  unfolding nested_fixed_def by blast

lemma nested_fixed_less: "nested_fixed n \<Longrightarrow> m \<le> n \<Longrightarrow> nested_fixed m"
  unfolding nested_fixed_def using order_trans by blast

lemma named_fixed:
  "named_ok gs \<Longrightarrow> nested_fixed (size (JObject gs)) \<Longrightarrow> \<forall>g \<in> set gs. map_of target (fst g) = None \<Longrightarrow>
   sanitize_named path gs target = accept (target @ gs)"
proof (induction gs arbitrary: target)
  case (Cons g gs)
  obtain name schema where g: "g = (name, schema)" by (cases g)
  have "gemini_schema schema" using Cons.prems(1) by (simp add: named_ok_def g)
  from nested_fixedD [OF Cons.prems(2) _ this] have "sanitize_node (sub_path path name) schema = accept schema" by (simp add: g)
  moreover have "map_of (target @ [(name, schema)]) (fst h) = None" if "h \<in> set gs" for h
  proof -
    have "fst h \<noteq> name" using Cons.prems(1) that by (auto simp: named_ok_def g)
    then show ?thesis using Cons.prems(3) that by (simp add: map_add_def)
  qed
  moreover have "named_ok gs" using Cons.prems(1) by (simp add: named_ok_def)
  ultimately show ?case
    using Cons.IH [of "target @ [(name, schema)]"] nested_fixed_less [OF Cons.prems(2)] Cons.prems(3) by (simp add: g insert_new)
qed simp

lemma list_fixed:
  "\<forall>x \<in> set xs. gemini_schema x \<Longrightarrow> nested_fixed (size (JArray xs)) \<Longrightarrow> sanitize_list path i xs = accept xs"
proof (induction xs arbitrary: i)
  case (Cons x xs)
  then have "sanitize_node (at_index path i) x = accept x" using nested_fixedD [OF Cons.prems(2)] by simp
  then show ?case using Cons.IH nested_fixed_less [OF Cons.prems(2)] Cons.prems(1) by simp
qed simp

lemma entries_copied:
  "distinct (map fst gs) \<Longrightarrow> \<forall>g \<in> set gs. map_of target (fst g) = None \<Longrightarrow> merge_entries path gs target = accept (target @ gs)"
proof (induction gs arbitrary: target)
  case (Cons g gs)
  have "map_of (target @ [g]) (fst h) = None" if "h \<in> set gs" for h
    using Cons.prems that by (cases g) (force simp: map_add_def)
  then show ?case using Cons.IH [of "target @ [g]"] Cons.prems by (cases g) simp
qed simp

lemma kept_plain:
  "list_all (\<lambda>k. k \<notin> set DROPPED_KEYS \<and> k \<notin> set [''allOf'', ''const'', ''$ref'', ''nullable'', ''definitions'', ''oneOf'']) KEPT_KEYS"
  by code_simp

lemma kept_key:
  assumes "key \<in> set KEPT_KEYS"
  shows "sanitize_key path key v acc = accept (put key v acc)"
proof -
  have "key \<notin> set [''$defs'', ''properties'', ''items'', ''prefixItems'', ''anyOf'', ''additionalProperties'', ''$ref'']"
      "key \<notin> set DROPPED_KEYS \<and> key \<notin> set [''allOf'', ''const'', ''$ref'', ''nullable'', ''definitions'', ''oneOf'']"
    using assms kept_not_nested kept_plain unfolding list_all_iff by blast+
  then have "key \<notin> NESTING_KEYS" "plain_key path key v acc = accept (put key v acc)"
    using assms by (simp_all add: NESTING_KEYS_def plain_key_def)
  then show ?thesis by (simp add: sanitize_plain)
qed

lemma ref_key: "sanitize_key path ''$ref'' (JString r) acc = accept (put ''$ref'' (JString (local_ref r)) acc)"
proof -
  have "''$ref'' \<notin> set DROPPED_KEYS" by code_simp
  then have "plain_key path ''$ref'' (JString r) acc = accept (put ''$ref'' (JString (local_ref r)) acc)"
    by (simp add: plain_key_def)
  moreover have "''$ref'' \<notin> NESTING_KEYS" by (simp add: NESTING_KEYS_def)
  ultimately show ?thesis by (simp add: sanitize_plain)
qed

lemma field_cases:
  assumes "gemini_field key v"
  obtains "key = ''$defs'' \<or> key = ''properties''" | "key = ''items''" | "key = ''prefixItems'' \<or> key = ''anyOf''"
    | "key = ''additionalProperties''" | "key = ''$ref''" | "key \<in> set KEPT_KEYS"
  using assms unfolding gemini_field.simps [of key v] by (simp split: if_splits)

lemma key_fixed:
  assumes "gemini_field key v" "map_of out key = None" "nested_fixed (size v)"
  shows "sanitize_key path key v (out, b) = accept (out @ [(key, v)], b)"
proof -
  have node: "gemini_schema v \<Longrightarrow> sanitize_node p v = accept v" for p by (rule nested_fixedD [OF assms(3) order_refl])
  show ?thesis
  proof (rule field_cases [OF assms(1)])
    assume key: "key = ''$defs'' \<or> key = ''properties''"
    then obtain gs where gs: "v = JObject gs" "named_ok gs" using assms(1) field_named by blast
    have named: "sanitize_named p gs [] = accept gs" for p using named_fixed [OF gs(2), of "[]"] assms(3) gs(1) by simp
    have "merge_entries p gs [] = accept gs" for p using entries_copied [of gs "[]"] gs(2) by (simp add: named_ok_def)
    then show ?thesis using key named assms(2) gs(1)
      by (elim disjE) (simp_all add: sanitize_defs sanitize_properties put_new insert_new merge_schema_key_def unwrap_or_def)
  next
    assume key: "key = ''items''"
    then have v: "gemini_schema v" using assms(1) field_items by simp
    then obtain fs where fs: "v = JObject fs" by (cases v) auto
    show ?thesis using node [OF v] key assms(2) by (simp add: sanitize_items fs put_new)
  next
    assume key: "key = ''prefixItems'' \<or> key = ''anyOf''"
    then obtain xs where xs: "v = JArray xs" "\<forall>x \<in> set xs. gemini_schema x" using assms(1) field_array by blast
    show ?thesis unfolding sanitize_arrays [OF key] using list_fixed [OF xs(2)] assms(2,3) by (simp add: xs(1) put_new)
  next
    assume key: "key = ''additionalProperties''"
    then consider b where "v = JBool b" | "gemini_schema v" using assms(1) field_additional by auto
    then show ?thesis
    proof cases
      case 2
      then obtain fs where fs: "v = JObject fs" by (cases v) auto
      show ?thesis using node [OF 2] key assms(2) by (simp add: sanitize_additional fs put_new)
    qed (use key assms(2) in \<open>simp add: sanitize_additional put_new\<close>)
  next
    assume key: "key = ''$ref''"
    then obtain r where "v = JString r" "local_ref r = r" using assms(1) field_ref by auto
    then show ?thesis using key assms(2) by (simp add: ref_key put_new)
  next
    assume "key \<in> set KEPT_KEYS"
    then show ?thesis using assms(2) by (simp add: kept_key put_new)
  qed
qed

lemma keys_fixed:
  "fields_ok fs \<Longrightarrow> \<forall>f \<in> set fs. map_of out (fst f) = None \<Longrightarrow> nested_fixed (size (JObject fs) - 1) \<Longrightarrow>
   sanitize_keys path fs (out, b) = accept (out @ fs, b)"
proof (induction fs arbitrary: out)
  case (Cons f fs)
  obtain key v where f: "f = (key, v)" by (cases f)
  have "nested_fixed (size v)" "nested_fixed (size (JObject fs) - 1)" using nested_fixed_less [OF Cons.prems(3)] by (simp_all add: f)
  moreover have "gemini_field key v" "fields_ok fs" using Cons.prems(1) by (simp_all add: fields_ok_def f)
  moreover have "map_of (out @ [(key, v)]) (fst h) = None" if "h \<in> set fs" for h
    using Cons.prems(1,2) that by (force simp: fields_ok_def f map_add_def)
  ultimately show ?case using Cons.IH [of "out @ [(key, v)]"] key_fixed [of key v out path b] Cons.prems(2) by (simp add: f)
qed simp

lemma field_absent: "fields_ok fs \<Longrightarrow> \<not> gemini_field k JNull \<Longrightarrow> \<forall>v. \<not> gemini_field k v \<Longrightarrow> map_of fs k = None"
  using fields_lookup [of fs k] by (cases "map_of fs k") auto

lemma schema_fixed: "gemini_schema w \<Longrightarrow> sanitize_node path w = accept w"
proof (induction "size w" arbitrary: path w rule: less_induct)
  case less
  obtain fs where w: "w = JObject fs" using less.prems by (cases w) auto
  have ok: "fields_ok fs" "ref_alone fs" using less.prems by (simp_all add: w gemini_object)
  have "nested_fixed (size w - 1)"
  proof -
    have "size u < size w" if "size u \<le> size w - 1" for u using that by (simp add: w)
    then show ?thesis using less.hyps unfolding nested_fixed_def by blast
  qed
  then have keys: "sanitize_keys path fs ([], False) = accept (fs, False)" using keys_fixed [OF ok(1), of "[]"] by (simp add: w)
  have "''const'' \<notin> set KEPT_KEYS" "''allOf'' \<notin> set KEPT_KEYS" by code_simp+
  then have "\<not> gemini_field ''const'' v" "\<not> gemini_field ''allOf'' v" for v by (simp_all add: gemini_field.simps)
  then have "map_of fs ''const'' = None" "map_of fs ''allOf'' = None"
    using fields_lookup [OF ok(1)] by (metis option.exhaust)+
  moreover have "check_ref path fs = accept fs" using ok(2) by (auto simp: check_ref_def ref_alone_def list_ex_iff list_all_iff)
  ultimately show ?case by (simp add: w sanitize_node.simps(1) keys apply_const_def)
qed

text \<open>
  C25. A tool schema that is accepted is sent in the dialect of the upstream: at every schema position only the listed
  keywords, no duplicate key, a reference beside no constraint and never to \<open>#/definitions/\<close>; and normalising it again
  changes nothing. Everything else is refused, whatever \<open>allOf\<close> merges in.
\<close>
theorem schema_normal_form:
  assumes "sanitize_schema path schema = accept w"
  shows "gemini_schema w \<and> sanitize_schema path' w = accept w"
  using sanitized schema_fixed assms unfolding sanitize_schema_def by blast

text \<open>
  A schema can panic the request. \<open>required\<close> is copied without a look at its type, and merging the list of an
  \<open>allOf\<close> branch into a value that is no list fails an \<^verbatim>\<open>expect\<close>, at any path and whatever the branch requires.
\<close>
theorem malformed_required_panics:
  assumes "\<forall>xs. v \<noteq> JArray xs"
  shows "sanitize_schema path (JObject [(''required'', v), (''allOf'', JArray [JObject [(''required'', JArray names)]])]) = None"
proof -
  have r: "sanitize_key p ''required'' u acc = accept (put ''required'' u acc)" for p u acc
    by (rule kept_key) (simp add: KEPT_KEYS_def)
  have a: "sanitize_key p ''allOf'' u acc = accept acc" for p u acc
    by (simp add: sanitize_plain NESTING_KEYS_def plain_key_def)
  show ?thesis using assms
    by (cases v) (simp_all add: sanitize_schema_def sanitize_node.simps(1) r a put_def apply_const_def check_ref_def
        merge_schema_key_def unwrap_or_def)
qed

text \<open>
  The branches of a \<open>oneOf\<close> can vanish. Beside an \<open>anyOf\<close> that comes first it is refused, as the two cannot be
  combined; when it comes first it is overwritten, and the schema is sent as if it had no \<open>oneOf\<close>.
\<close>
theorem one_of_overwritten:
  assumes "sanitize_list (sub_path path ''oneOf'') 0 xs = accept xs'"
    and "sanitize_list (sub_path path ''anyOf'') 0 ys = accept ys'"
  shows "sanitize_schema path (JObject [(''oneOf'', JArray xs), (''anyOf'', JArray ys)]) =
      sanitize_schema path (JObject [(''anyOf'', JArray ys)]) \<and>
    sanitize_schema path (JObject [(''anyOf'', JArray ys), (''oneOf'', JArray xs)]) =
      refuse (sub_path path ''oneOf'') ''cannot combine oneOf and anyOf safely''"
  using assms by (simp add: sanitize_schema_def sanitize_node.simps(1) sanitize_one_of sanitize_arrays put_def refuse_def)

definition demo_schema :: json where
  "demo_schema = JObject [(''strict'', JBool True), (''type'', JString ''object''),
     (''properties'', JObject [(''a'', JObject [(''$ref'', JString ''#/definitions/x'')])])]"

definition demo_normalized :: json where
  "demo_normalized = JObject [(''type'', JString ''object''),
     (''properties'', JObject [(''a'', JObject [(''$ref'', JString ''#/$defs/x'')])])]"

lemma demo_accepted: "sanitize_schema ''t'' demo_schema = accept demo_normalized"
  by code_simp

theorem schema_normal_form_witness:
  "gemini_schema demo_normalized \<and> sanitize_schema ''u'' demo_normalized = accept demo_normalized \<and> demo_normalized \<noteq> demo_schema"
  using schema_normal_form [OF demo_accepted, of "''u''"] by (simp add: demo_normalized_def demo_schema_def)

theorem malformed_required_panics_witness:
  "sanitize_schema ''t'' (JObject [(''required'', JBool True), (''allOf'', JArray [JObject [(''required'', JArray [JString ''a''])]])]) = None"
  by (rule malformed_required_panics) simp

theorem one_of_overwritten_witness:
  "sanitize_schema ''t'' (JObject [(''oneOf'', JArray [JObject [(''type'', JString ''string'')]]), (''anyOf'', JArray [])]) =
     accept (JObject [(''anyOf'', JArray [])])"
proof -
  have "sanitize_list (sub_path ''t'' ''oneOf'') 0 [JObject [(''type'', JString ''string'')]] =
      accept [JObject [(''type'', JString ''string'')]]"
    "sanitize_list (sub_path ''t'' ''anyOf'') 0 [] = accept []"
    "sanitize_schema ''t'' (JObject [(''anyOf'', JArray [])]) = accept (JObject [(''anyOf'', JArray [])])"
    by code_simp+
  then show ?thesis using one_of_overwritten by metis
qed

end
