(* ===== verification/Gemini_Adapter.thy ===== *)
theory Gemini_Adapter
  imports Gemini_Schema Chat_Roundtrip Opaque_State
begin

text \<open>
  The Gemini adapter (\<^verbatim>\<open>src/src/adapters/gemini.rs\<close>): the \<^verbatim>\<open>generateContent\<close> body of an internal request, authentication,
  the classification of errors, and the events of a chunk. A body is \<open>None\<close> where the schema of a tool panics. The
  RFC 2822 parser, Unicode lower-casing and the time at which the clock is read are parameters.
\<close>

section \<open>The request body\<close>

fun gemini_role :: "role \<Rightarrow> string" where
  "gemini_role Assistant = ''model''"
| "gemini_role _ = ''user''"

definition with_signature :: "string option \<Rightarrow> (string \<times> json) list \<Rightarrow> json" where
  "with_signature sig fs = JObject (fs @ (case sig of Some s \<Rightarrow> [(''thoughtSignature'', JString s)] | None \<Rightarrow> []))"

fun gemini_part :: "codec \<Rightarrow> part \<Rightarrow> json option" where
  "gemini_part cd (Text t) = Some (JObject [(''text'', JString t)])"
| "gemini_part cd (Thinking t sig) =
     (if t = [] \<and> sig = None then None else Some (with_signature sig [(''text'', JString t), (''thought'', JBool True)]))"
| "gemini_part cd (Image (Base64 mime data)) =
     Some (JObject [(''inlineData'', JObject [(''mimeType'', JString mime), (''data'', JString data)])])"
| "gemini_part cd (Image (Url url)) = Some (JObject [(''fileData'', JObject [(''fileUri'', JString url)])])"
| "gemini_part cd (ToolCall _ name args sig) =
     Some (with_signature sig [(''functionCall'',
       JObject [(''name'', JString name), (''args'', unwrap_or (de_value cd args) (JObject []))])])"
| "gemini_part cd (ToolResult _ name content is_error) =
     Some (JObject [(''functionResponse'', JObject [(''name'', JString (unwrap_or name ''tool'')),
       (''response'',
          if is_error then JObject [(''error'', JString content)]
          else case de_value cd content of Some (JObject fs) \<Rightarrow> JObject fs | _ \<Rightarrow> JObject [(''result'', JString content)])])])"

definition encode_parts :: "codec \<Rightarrow> part list \<Rightarrow> json list" where
  "encode_parts cd ps = List.map_filter (gemini_part cd) ps"

definition gemini_content :: "codec \<Rightarrow> message \<Rightarrow> json option" where
  "gemini_content cd m =
     (let parts = encode_parts cd (msg_parts m)
      in if parts = [] then None
         else Some (JObject [(''role'', JString (gemini_role (msg_role m))), (''parts'', JArray parts)]))"

definition gemini_contents :: "codec \<Rightarrow> internal_request \<Rightarrow> json list" where
  "gemini_contents cd req = List.map_filter (gemini_content cd) (rq_messages req)"

definition apply_param_spec :: "param_spec option \<Rightarrow> f64 \<Rightarrow> f64 \<times> bool" where
  "apply_param_spec spec v =
     (case spec of
        None \<Rightarrow> (v, True)
      | Some s \<Rightarrow>
          if \<not> ps_supported s then (v, False)
          else let v1 = (case ps_min s of Some lo \<Rightarrow> if v < lo then lo else v | None \<Rightarrow> v);
                   v2 = (case ps_max s of Some hi \<Rightarrow> if v1 > hi then hi else v1 | None \<Rightarrow> v1)
               in (v2, True))"

definition put_number ::
  "(string \<times> param_spec) list \<Rightarrow> string \<times> string \<times> f64 option \<Rightarrow> (string \<times> json) list \<Rightarrow> (string \<times> json) list" where
  "put_number specs entry cfg =
     (case entry of (policy_key, wire_key, client_val) \<Rightarrow>
      let spec = map_of specs policy_key
      in case client_val of
           Some v \<Rightarrow>
             (case apply_param_spec spec v of (x, keep) \<Rightarrow> if keep then obj_insert wire_key (JNumber (Float x)) cfg else cfg)
         | None \<Rightarrow>
             (case Option.bind spec (\<lambda>s. if ps_supported s then ps_default s else None) of
                Some d \<Rightarrow> obj_insert wire_key (JNumber (Float d)) cfg | None \<Rightarrow> cfg))"

definition gemini_generation_config :: "codec \<Rightarrow> upstream_context \<Rightarrow> internal_request \<Rightarrow> (string \<times> json) list" where
  "gemini_generation_config cd ctx req =
     (let ps = rq_params req; specs = model_params cd (uc_model ctx);
          c1 = fold (put_number specs)
                 [(''temperature'', ''temperature'', sp_temperature ps), (''top_p'', ''topP'', sp_top_p ps),
                  (''top_k'', ''topK'', sp_top_k ps)] [];
          c2 = insert_some ''maxOutputTokens'' (map_option (capped_tokens (uc_model ctx)) (sp_max_tokens ps)) c1;
          c3 = insert_some ''stopSequences'' (if sp_stop ps = [] then None else Some (JArray (map JString (sp_stop ps)))) c2;
          c4 = insert_some ''seed'' (map_option json_int (sp_seed ps)) c3
      in openai_thinking cd ctx req c4)"

definition gemini_declaration :: "tool_def \<Rightarrow> json checked" where
  "gemini_declaration t =
     (let base = (''name'', JString (tool_name t)) #
            (case tool_description t of Some d \<Rightarrow> [(''description'', JString d)] | None \<Rightarrow> [])
      in if tool_parameters t = JNull then accept (JObject base)
         else checked_bind (sanitize_schema (''tool '' @ quoted (tool_name t)) (tool_parameters t))
                (\<lambda>s. accept (JObject (base @ [(''parametersJsonSchema'', s)]))))"

fun gemini_declarations :: "tool_def list \<Rightarrow> json list checked" where
  "gemini_declarations [] = accept []"
| "gemini_declarations (t # ts) =
     checked_bind (gemini_declaration t) (\<lambda>d. checked_bind (gemini_declarations ts) (\<lambda>ds. accept (d # ds)))"

definition gemini_build_tools :: "internal_request \<Rightarrow> json option checked" where
  "gemini_build_tools req =
     (if rq_tools req = [] then accept None
      else checked_bind (gemini_declarations (rq_tools req))
             (\<lambda>ds. accept (Some (JArray [JObject [(''functionDeclarations'', JArray ds)]]))))"

definition gemini_tool_mode :: "internal_request \<Rightarrow> string option" where
  "gemini_tool_mode req =
     (case rq_tool_choice req of
        Some TC_None \<Rightarrow> Some ''NONE''
      | Some TC_Required \<Rightarrow> Some ''ANY''
      | Some TC_Specific \<Rightarrow> Some ''ANY''
      | _ \<Rightarrow> if rq_tools req = [] then None else Some ''AUTO'')"

definition gemini_tool_config :: "internal_request \<Rightarrow> json option" where
  "gemini_tool_config req =
     map_option (\<lambda>m. JObject [(''functionCallingConfig'', JObject ((''mode'', JString m) #
       (case rq_tool_choice_name req of Some name \<Rightarrow> [(''allowedFunctionNames'', JArray [JString name])] | None \<Rightarrow> [])))])
       (gemini_tool_mode req)"

text \<open>An extra field is added where it is absent, and its entries where both are objects.\<close>

definition gemini_merge_field :: "string \<times> json \<Rightarrow> (string \<times> json) list \<Rightarrow> (string \<times> json) list" where
  "gemini_merge_field entry body =
     (case entry of (k, v) \<Rightarrow>
      case map_of body k of
        None \<Rightarrow> body @ [(k, v)]
      | Some existing \<Rightarrow>
          (case (existing, v) of
             (JObject fs, JObject gs) \<Rightarrow> obj_insert k (JObject (fold (\<lambda>(k2, v2). insert_absent k2 v2) gs fs)) body
           | _ \<Rightarrow> body))"

definition gemini_merge_extra :: "json \<Rightarrow> (string \<times> json) list \<Rightarrow> (string \<times> json) list" where
  "gemini_merge_extra extra body = (case extra of JObject fs \<Rightarrow> fold gemini_merge_field fs body | _ \<Rightarrow> body)"

definition gemini_build_body :: "codec \<Rightarrow> upstream_context \<Rightarrow> internal_request \<Rightarrow> json checked" where
  "gemini_build_body cd ctx req =
     (let b1 = (if rq_system req = [] then []
                else [(''systemInstruction'',
                       JObject [(''parts'', JArray [JObject [(''text'', JString (join_with [LF, LF] (rq_system req)))]])])]);
          b2 = obj_insert ''contents'' (JArray (gemini_contents cd req)) b1;
          cfg = gemini_generation_config cd ctx req;
          b3 = insert_some ''generationConfig'' (if cfg = [] then None else Some (JObject cfg)) b2
      in checked_bind (gemini_build_tools req) (\<lambda>tools.
         accept (JObject (gemini_merge_extra (extra_request_value cd (uc_model ctx))
           (insert_some ''toolConfig'' (gemini_tool_config req) (insert_some ''tools'' tools b3))))))"

section \<open>Sending\<close>

definition gemini_build_url :: "upstream_context \<Rightarrow> proxy_error + string" where
  "gemini_build_url ctx =
     Inr (trim_end_char CHR ''/'' (pv_base_url (uc_provider ctx)) @ ''/models/'' @ md_upstream_id (uc_model ctx) @
       '':streamGenerateContent?alt=sse'')"

definition gemini_apply_auth :: "upstream_context \<Rightarrow> url \<Rightarrow> upstream_failure + (string \<times> string) list" where
  "gemini_apply_auth ctx u =
     Inr (case provider_auth (uc_provider ctx) of
        Bearer \<Rightarrow> [(''authorization'', ''Bearer '' @ uc_credential ctx)]
      | CustomHeader \<Rightarrow> [(unwrap_or (pv_custom_header_name (uc_provider ctx)) ''x-goog-api-key'', uc_credential ctx)]
      | QueryParam \<Rightarrow> [(''?'' @ unwrap_or (pv_custom_param_name (uc_provider ctx)) ''key'', uc_credential ctx)])"

section \<open>Errors\<close>

text \<open>A rounded-up number of seconds, by a saturating cast.\<close>

fun ceil_u64 :: "f64x \<Rightarrow> nat" where
  "ceil_u64 (Finite x) = min (nat \<lceil>x\<rceil>) u64_max"
| "ceil_u64 PosInf = u64_max"
| "ceil_u64 _ = 0"

definition gemini_retry_after :: "(string \<Rightarrow> nanos option) \<Rightarrow> nanos \<Rightarrow> string \<Rightarrow> nat option" where
  "gemini_retry_after rfc2822 now value =
     (case parse_u64 (trim value) of
        Some n \<Rightarrow> Some n
      | None \<Rightarrow> map_option (\<lambda>dt. nat (max (num_seconds (dt - now)) 0)) (rfc2822 value))"

fun first_retry_delay :: "json list \<Rightarrow> nat option" where
  "first_retry_delay [] = None"
| "first_retry_delay (d # ds) =
     (case get_str d ''retryDelay'' of
        Some delay \<Rightarrow> map_option ceil_u64 (parse_f64 (trim_end_char CHR ''s'' delay))
      | None \<Rightarrow> first_retry_delay ds)"

definition gemini_retry_delay :: "json \<Rightarrow> nat option" where
  "gemini_retry_delay v = Option.bind (Option.bind (json_path [''error'', ''details''] v) as_array) first_retry_delay"

definition classify_429 :: "(string \<Rightarrow> string) \<Rightarrow> string \<Rightarrow> string \<Rightarrow> failure_kind" where
  "classify_429 lower_case status message =
     (let lower = lower_case message;
          quota_like = (contains_str lower ''quota'' \<or> contains_str lower ''exceeded your current quota''
             \<or> contains_str lower ''billing'' \<or> status = ''RESOURCE_EXHAUSTED'' \<and> contains_str lower ''free_tier'')
      in if quota_like \<and> (contains_str lower ''per_day'' \<or> contains_str lower ''per day'' \<or> contains_str lower ''free_tier'')
         then QuotaExhausted
         else if contains_str lower ''rate limit'' \<or> contains_str lower ''requests per minute'' then RateLimit
         else if quota_like then QuotaExhausted
         else RateLimit)"

definition gemini_credential_error :: "nat \<Rightarrow> string \<Rightarrow> string \<Rightarrow> bool" where
  "gemini_credential_error status gstatus lower \<longleftrightarrow>
     status = 401 \<or> gstatus = ''UNAUTHENTICATED'' \<or> contains_str lower ''api key not valid''
     \<or> contains_str lower ''invalid api key'' \<or> contains_str lower ''invalid authentication credentials''"

definition gemini_failure_kind ::
  "(string \<Rightarrow> string) \<Rightarrow> nat \<Rightarrow> string \<Rightarrow> string \<Rightarrow> nat option \<Rightarrow> failure_kind" where
  "gemini_failure_kind lower_case status gstatus message retry_after =
     (let credential = gemini_credential_error status gstatus (to_ascii_lowercase message)
      in if status = 400 \<and> credential then AuthError
         else if status = 400 \<or> status = 422 then BadRequest
         else if status = 401 then AuthError
         else if status = 403 \<and> credential then AuthError
         else if status = 403 \<or> status = 404 then TargetError
         else if status = 429
         then if is_some_and (\<lambda>s. s \<le> 90) retry_after then RateLimit else classify_429 lower_case gstatus message
         else ServerError)"

definition gemini_classify_error ::
  "codec \<Rightarrow> (string \<Rightarrow> string) \<Rightarrow> (string \<Rightarrow> nanos option) \<Rightarrow> nanos \<Rightarrow> nat \<Rightarrow> string \<Rightarrow> headers \<Rightarrow> upstream_failure" where
  "gemini_classify_error cd lower_case rfc2822 now status body hs =
     (let parsed = unwrap_or (de_value cd body) JNull;
          message = unwrap_or (Option.bind (json_path [''error'', ''message''] parsed) as_str) [];
          gstatus = unwrap_or (Option.bind (json_path [''error'', ''status''] parsed) as_str) [];
          retry_after = opt_or (Option.bind (header_text hs ''retry-after'') (gemini_retry_after rfc2822 now))
                          (gemini_retry_delay parsed)
      in \<lparr>uf_kind = gemini_failure_kind lower_case status gstatus message retry_after, uf_status = Some status,
          uf_retry_after_secs = retry_after, uf_message = failure_message status message, uf_quota_reset_at = None\<rparr>)"

section \<open>Events\<close>

definition map_finish :: "string \<Rightarrow> finish_reason" where
  "map_finish r =
     (if r = ''STOP'' then Stop
      else if r = ''MAX_TOKENS'' then Length
      else if r \<in> {''SAFETY'', ''RECITATION'', ''BLOCKLIST'', ''PROHIBITED_CONTENT'', ''SPII''} then ContentFilter
      else OtherReason r)"

definition gemini_words :: "json \<Rightarrow> stream_event list" where
  "gemini_words part =
     (let t = unwrap_or (get_str part ''text'') []; sig = get_str part ''thoughtSignature'';
          is_thought = unwrap_or (Option.bind (json_get part ''thought'') as_bool) False
      in if is_thought \<and> (t \<noteq> [] \<or> sig \<noteq> None) then [ThinkingDelta t sig]
         else if t \<noteq> [] then [TextDelta t] else [])"

definition gemini_call :: "codec \<Rightarrow> nat \<Rightarrow> json \<Rightarrow> stream_event list" where
  "gemini_call cd index part =
     (case json_get part ''functionCall'' of
        None \<Rightarrow> []
      | Some fc \<Rightarrow>
          [ToolCallStart index (get_str fc ''id'') (unwrap_or (get_str fc ''name'') ''tool'') (get_str part ''thoughtSignature''),
           ToolCallArgsDelta index (ser_value cd (unwrap_or (json_get fc ''args'') (JObject [])))])"

text \<open>Tool calls are numbered through all the candidates of a chunk.\<close>

fun gemini_parts_events :: "codec \<Rightarrow> nat \<Rightarrow> json list \<Rightarrow> stream_event list \<times> nat" where
  "gemini_parts_events cd index [] = ([], index)"
| "gemini_parts_events cd index (part # parts) =
     (let next = (if json_get part ''functionCall'' = None then index else as_u32 (index + 1));
          (evs, last) = gemini_parts_events cd next parts
      in (gemini_words part @ gemini_call cd index part @ evs, last))"

definition candidate_parts :: "json \<Rightarrow> json list" where
  "candidate_parts cand = unwrap_or (Option.bind (json_path [''content'', ''parts''] cand) as_array) []"

fun gemini_candidates_events :: "codec \<Rightarrow> nat \<Rightarrow> json list \<Rightarrow> stream_event list" where
  "gemini_candidates_events cd index [] = []"
| "gemini_candidates_events cd index (cand # cands) =
     (let (evs, next) = gemini_parts_events cd index (candidate_parts cand) in evs @ gemini_candidates_events cd next cands)"

definition gemini_finishes :: "json list \<Rightarrow> stream_event list" where
  "gemini_finishes cands = List.map_filter (\<lambda>c. map_option (\<lambda>r. stream_event.Finish (map_finish r)) (get_str c ''finishReason'')) cands"

definition gemini_usage :: "json \<Rightarrow> token_usage" where
  "gemini_usage u =
     (let candidates = Option.bind (json_get u ''candidatesTokenCount'') as_u64;
          thinking = Option.bind (json_get u ''thoughtsTokenCount'') as_u64
      in \<lparr>tu_input = Option.bind (json_get u ''promptTokenCount'') as_u64,
          tu_output = (case (candidates, thinking) of
             (Some c, Some t) \<Rightarrow> Some (sat_add64 c t) | (Some c, None) \<Rightarrow> Some c | (None, t) \<Rightarrow> t),
          tu_cached = Option.bind (json_get u ''cachedContentTokenCount'') as_u64, tu_cache_write = None,
          tu_thinking = thinking\<rparr>)"

definition events_from_gemini :: "codec \<Rightarrow> json \<Rightarrow> stream_event list" where
  "events_from_gemini cd v =
     (let cands = unwrap_or (Option.bind (json_get v ''candidates'') as_array) []
      in gemini_candidates_events cd 0 cands @
         list_of_option (map_option (\<lambda>u. Usage (gemini_usage u)) (json_get v ''usageMetadata'')) @
         gemini_finishes cands)"

definition gemini_parse_stream_chunk ::
  "codec \<Rightarrow> (string \<Rightarrow> string) \<Rightarrow> string \<Rightarrow> upstream_failure + stream_event list" where
  "gemini_parse_stream_chunk cd json_error data =
     (case de_value cd data of
        None \<Rightarrow> Inl (failure_of ServerError None (''invalid upstream chunk: '' @ json_error data))
      | Some v \<Rightarrow> Inr (events_from_gemini cd v))"

definition gemini_parse_model :: "json \<Rightarrow> discovered_model option" where
  "gemini_parse_model m =
     (case get_str m ''name'' of
        None \<Rightarrow> None
      | Some name \<Rightarrow>
          let actions = (case Option.bind (json_get m ''supportedGenerationMethods'') as_array of
                Some xs \<Rightarrow> List.map_filter as_str xs | None \<Rightarrow> [])
          in if actions \<noteq> [] \<and> \<not> list_ex (\<lambda>x. contains_str x ''generateContent'') actions then None
             else Some \<lparr>dm_id = unwrap_or (strip_prefix ''models/'' name) name, dm_display_name = get_str m ''displayName'',
                    dm_context_window = Option.bind (json_get m ''inputTokenLimit'') json_as_i64,
                    dm_max_output_tokens = Option.bind (json_get m ''outputTokenLimit'') json_as_i64\<rparr>)"

definition gemini_parse_model_list :: "json \<Rightarrow> discovered_model list" where
  "gemini_parse_model_list body =
     (case Option.bind (json_get body ''models'') as_array of
        Some xs \<Rightarrow> List.map_filter gemini_parse_model xs | None \<Rightarrow> [])"

section \<open>Opaque state\<close>

definition GEMINI_PLACEHOLDER_THOUGHT_SIGNATURE :: string where
  "GEMINI_PLACEHOLDER_THOUGHT_SIGNATURE = ''skip_thought_signature_validator''"

text \<open>What follows the last occurrence of a pattern.\<close>

fun after_last :: "string \<Rightarrow> string \<Rightarrow> string option" where
  "after_last pat [] = None"
| "after_last pat (c # cs) = (case after_last pat cs of Some r \<Rightarrow> Some r | None \<Rightarrow> strip_prefix pat (c # cs))"

definition is_gemini_three :: "string \<Rightarrow> bool" where
  "is_gemini_three upstream_id \<longleftrightarrow>
     (case after_last ''gemini-'' upstream_id of
        None \<Rightarrow> False
      | Some rest \<Rightarrow> let major = takeWhile is_digit rest in major \<noteq> [] \<and> digits_value major = 3)"

definition gemini_placeholder :: "model_row \<Rightarrow> string option" where
  "gemini_placeholder m = (if is_gemini_three (md_upstream_id m) then Some GEMINI_PLACEHOLDER_THOUGHT_SIGNATURE else None)"

text \<open>Signatures are kept per model: another model is another target.\<close>

definition gemini_opaque_state_target :: "model_row \<Rightarrow> opaque_state_target" where
  "gemini_opaque_state_target m = \<lparr>ost_kind = GeminiThoughtSignature, ost_provider_id = md_provider_id m,
     ost_family = ''gemini'', ost_producer = ''native:gemini:v1'', ost_model_id = md_upstream_id m\<rparr>"

section \<open>A message of the history, read as an answer\<close>

text \<open>What a part says, read back: an image or a tool result is not an answer, and a call has lost its identifier.\<close>

definition call_args :: "codec \<Rightarrow> string \<Rightarrow> string" where
  "call_args cd args = ser_value cd (unwrap_or (de_value cd args) (JObject []))"

fun answer_view :: "codec \<Rightarrow> nat \<Rightarrow> part list \<Rightarrow> stream_event list" where
  "answer_view cd index [] = []"
| "answer_view cd index (Text t # ps) = (if t = [] then [] else [TextDelta t]) @ answer_view cd index ps"
| "answer_view cd index (Thinking t sig # ps) =
     (if t = [] \<and> sig = None then [] else [ThinkingDelta t sig]) @ answer_view cd index ps"
| "answer_view cd index (ToolCall _ name args sig # ps) =
     [ToolCallStart index None name sig, ToolCallArgsDelta index (call_args cd args)] @
     answer_view cd (as_u32 (index + 1)) ps"
| "answer_view cd index (_ # ps) = answer_view cd index ps"

lemma with_signature_fields [simp]:
  "k \<noteq> ''thoughtSignature'' \<Longrightarrow> json_get (with_signature sig fs) k = map_of fs k"
  "map_of fs ''thoughtSignature'' = None \<Longrightarrow> get_str (with_signature sig fs) ''thoughtSignature'' = sig"
  by (auto simp: with_signature_def map_add_def split: option.split)

lemma parts_view: "fst (gemini_parts_events cd index (encode_parts cd ps)) = answer_view cd index ps"
proof (induction ps arbitrary: index)
  case (Cons p ps)
  show ?case
  proof (cases "(cd, p)" rule: gemini_part.cases)
    case (2 cd' t sig)
    then show ?thesis using Cons.IH
      by (cases "t = [] \<and> sig = None")
        (auto simp: encode_parts_def List.map_filter_simps gemini_words_def gemini_call_def unwrap_or_def Let_def split_beta)
  qed (use Cons.IH in \<open>auto simp: encode_parts_def List.map_filter_simps gemini_words_def gemini_call_def unwrap_or_def
        call_args_def Let_def split_beta\<close>)
qed (simp add: encode_parts_def List.map_filter_simps)

text \<open>
  C24. An assistant's message is sent to Gemini without loss of what the model said and signed. Read back as a candidate, the
  content written for it gives, in order, its texts, its thinking with the signatures, and its calls with their names,
  signatures and parsed arguments, numbered from zero; identifiers of calls are not sent. Followed by the usage and the
  finish of the candidate, and by nothing after that.
\<close>
theorem gemini_history_roundtrip:
  assumes "gemini_content cd m = Some c" and "msg_role m = Assistant"
  shows "get_str c ''role'' = Some ''model'' \<and>
    events_from_gemini cd (JObject ([(''candidates'', JArray [JObject [(''content'', c), (''finishReason'', JString ''STOP'')]])] @
        (case u of Some x \<Rightarrow> [(''usageMetadata'', x)] | None \<Rightarrow> []))) =
      answer_view cd 0 (msg_parts m) @ list_of_option (map_option (\<lambda>x. Usage (gemini_usage x)) u) @ [stream_event.Finish Stop]"
proof -
  have c: "c = JObject [(''role'', JString ''model''), (''parts'', JArray (encode_parts cd (msg_parts m)))]"
    using assms by (auto simp: gemini_content_def Let_def split: if_splits)
  show ?thesis
    using parts_view [of cd 0 "msg_parts m"]
    by (cases u) (simp_all add: c events_from_gemini_def unwrap_or_def candidate_parts_def gemini_finishes_def map_finish_def
      list_of_option_def List.map_filter_simps Let_def split_beta)
qed

theorem gemini_history_roundtrip_witness:
  "\<exists>c. gemini_content demo_codec \<lparr>msg_role = Assistant,
       msg_parts = [Thinking ''t'' (Some ''s1''), Text ''a'', ToolCall (Some ''c1'') ''f'' ''{}'' (Some ''s2'')]\<rparr> = Some c \<and>
     events_from_gemini demo_codec (JObject [(''candidates'',
         JArray [JObject [(''content'', c), (''finishReason'', JString ''STOP'')]])]) =
       [ThinkingDelta ''t'' (Some ''s1''), TextDelta ''a'', ToolCallStart 0 None ''f'' (Some ''s2''),
        ToolCallArgsDelta 0 (call_args demo_codec ''{}''), stream_event.Finish Stop]"
proof -
  let ?m = "\<lparr>msg_role = Assistant,
       msg_parts = [Thinking ''t'' (Some ''s1''), Text ''a'', ToolCall (Some ''c1'') ''f'' ''{}'' (Some ''s2'')]\<rparr>"
  have "gemini_content demo_codec ?m \<noteq> None"
    by (simp add: gemini_content_def encode_parts_def List.map_filter_simps Let_def)
  then obtain c where c: "gemini_content demo_codec ?m = Some c" by blast
  show ?thesis using gemini_history_roundtrip [OF c, of None] c by (simp add: list_of_option_def)
qed

section \<open>Usage reaches a chat client\<close>

lemma content_plain:
  "ev \<in> set (fst (gemini_parts_events cd index ps)) \<Longrightarrow> (\<forall>f. ev \<noteq> stream_event.Finish f) \<and> (\<forall>u. ev \<noteq> Usage u)"
proof (induction ps arbitrary: index)
  case (Cons p ps)
  then show ?case by (auto simp: gemini_words_def gemini_call_def Let_def split_beta split: if_splits option.splits)
qed simp

lemma candidates_plain:
  "ev \<in> set (gemini_candidates_events cd index cs) \<Longrightarrow> (\<forall>f. ev \<noteq> stream_event.Finish f) \<and> (\<forall>u. ev \<noteq> Usage u)"
proof (induction cs arbitrary: index)
  case (Cons c cs)
  then show ?case using content_plain [of ev cd index "candidate_parts c"] by (auto simp: case_prod_beta Let_def)
qed simp

lemma timely_usage_shown:
  assumes "\<forall>ev \<in> set xs. (\<forall>f. ev \<noteq> stream_event.Finish f) \<and> (\<forall>u. ev \<noteq> Usage u)" and "\<forall>ev \<in> set ys. \<forall>u. ev \<noteq> Usage u"
  shows "Usage (wire_usage v) \<in> set (chat_view cid True u0 False (xs @ Usage v # ys))"
proof -
  have "Usage (wire_usage v) \<in> set (chat_view cid True (Some v) False ys)"
    using assms(2)
  proof (induction ys)
    case (Cons y ys)
    then show ?case by (cases y) (auto simp: usage_view_def list_of_option_def)
  qed (simp add: usage_view_def list_of_option_def)
  then show ?thesis using assms(1)
  proof (induction xs)
    case (Cons x xs)
    then show ?case by (cases x) auto
  qed simp
qed

text \<open>
  The comment of \<^verbatim>\<open>events_from_gemini\<close> is right: since usage comes before the finishes of a chunk, a chat client that asked
  for it is shown the usage of every chunk that has some, which the order of the OpenAI adapter loses.
\<close>
theorem gemini_usage_shown:
  assumes "json_get v ''usageMetadata'' = Some u"
  shows "Usage (wire_usage (gemini_usage u)) \<in> set (concat (map openai_events (openai_values ctx True (events_from_gemini cd v))))"
proof -
  let ?cands = "unwrap_or (Option.bind (json_get v ''candidates'') as_array) []"
  have evs: "events_from_gemini cd v = gemini_candidates_events cd 0 ?cands @ Usage (gemini_usage u) # gemini_finishes ?cands"
    using assms by (simp add: events_from_gemini_def list_of_option_def Let_def)
  have "\<forall>ev \<in> set (gemini_finishes ?cands). \<forall>w. ev \<noteq> Usage w"
    by (auto simp: gemini_finishes_def List.map_filter_def)
  then show ?thesis unfolding values_view evs using candidates_plain by (intro timely_usage_shown) blast+
qed

end
