(* ===== verification/Attempt_Loop.thy ===== *)
theory Attempt_Loop
  imports Upstream_Response Route_Ordering Live_Requests Trace_Recorder
begin

text \<open>
  The attempt loop of a request (\<^verbatim>\<open>src/src/pipeline.rs\<close>, \<open>run\<close>): the shared state of the process, what one request
  fixes before its loop, what the outside supplies to one iteration, and the iteration itself, in the phases of the
  code. A phase either hands a value to the next one or ends the iteration.
\<close>

section \<open>State\<close>

record app_state =
  ap_db :: config_db
  ap_snapshot :: snapshot
  ap_circuits :: provider_circuits
  ap_traffic :: upstream_traffic
  ap_quota :: quota_registry
  ap_telemetry :: telemetry
  ap_flight :: flight_recorder
  ap_live :: live_requests
  ap_opaque :: opaque_store
  ap_outbound :: outbound_state
  ap_sticky :: "string \<rightharpoonup> string \<times> nanos"
  ap_rr_counters :: "string \<rightharpoonup> nat"
  ap_total_requests :: nat
  ap_route_skips :: nat
  ap_route_fallbacks :: nat
  ap_failures_pre_commit :: nat
  ap_route_traces :: "route_trace list"

record credential_error =
  ce_code :: string
  ce_message :: string
  ce_retryable :: bool
  ce_retry_after_secs :: "nat option"

definition invalid_credential :: "credential_error \<Rightarrow> bool" where
  "invalid_credential e \<longleftrightarrow> \<not> ce_retryable e \<and> ce_code e \<in> {''credential_expired'', ''unauthorized'', ''auth_error''}"

text \<open>The libraries and the parts of the process that do not change while a request runs.\<close>

record request_env =
  re_codec :: codec
  re_cipher :: cipher_suite
  re_crypto :: crypto
  re_calendar :: calendar
  re_clock :: clock_lib
  re_send :: send_config
  re_json_error :: "string \<Rightarrow> string"
  re_show_f64 :: "f64 \<Rightarrow> string"
  re_ser_thinking :: "thinking_map \<Rightarrow> string"
  re_plugin_adapters :: plugin_adapters
  re_adapter :: "adapter_id \<Rightarrow> adapter"

text \<open>What a request fixes before its attempts.\<close>

record request_ctx =
  rx_request_id :: string
  rx_format :: frontend_format
  rx_key_id :: "string option"
  rx_request :: internal_request
  rx_allow_fallback :: bool
  rx_session :: "string option"
  rx_protocol_headers :: "(string \<times> string) list"
  rx_route :: "route_row option"
  rx_max_attempts :: nat
  rx_deadline :: nanos
  rx_session_origin_key :: "string option"
  rx_session_origin_provider :: "string option"

text \<open>
  What one iteration gets from outside: its readings of the clocks, in their order (the instant, the wall clock, and
  the elapsed milliseconds of the request and its trace), what other tasks do to the shared state while it waits, the
  answers of the database, the credential strategy and the upstream, and whether a timer ran out first.
\<close>

record attempt_env =
  ae_inst :: "nat \<Rightarrow> nanos"
  ae_wall :: "nat \<Rightarrow> nanos"
  ae_ms :: "nat \<Rightarrow> nat"
  ae_others :: "nat \<Rightarrow> app_state \<Rightarrow> app_state"
  ae_spend :: "usage_spend list option"
  ae_credential :: "credential_error + string"
  ae_disable_error :: bool
  ae_reload_error :: bool
  ae_outbound :: "nat \<Rightarrow> nat \<Rightarrow> outbound_env"
  ae_send_timeout :: bool
  ae_headers :: headers
  ae_content_length :: "nat option"
  ae_body :: body
  ae_body_timeout :: bool
  ae_rotation :: "credential_error + bool"

record loop_state =
  ls_app :: app_state
  ls_path :: "string list"
  ls_trace :: route_trace
  ls_last_error :: "proxy_error option"
  ls_all_accounts :: "account_row list"
  ls_attempts_done :: nat
  ls_previous_provider :: "string option"
  ls_skip_logical :: "string option"
  ls_auth_retried :: "string set"
  ls_sends :: "resolved_target list"
    \<comment> \<open>the targets sent to so far: the history of the loop, read by no step\<close>

text \<open>The validated attempt that is handed to the response drivers.\<close>

record attempt =
  at_target :: resolved_target
  at_upstream_request_id :: "string option"
  at_prepared :: prepared_upstream
  at_idle_timeout :: nanos
  at_adapter :: adapter
  at_passthrough :: bool
  at_traffic_permit :: "traffic_permit option"
  at_provider_attempt :: provider_attempt
  at_circuit_transition :: "circuit_transition option"
  at_attempt_started :: nanos
  at_request :: internal_request
  at_retries :: nat

datatype step =
    Next_Target
  | Same_Target
  | Stop_Loop
  | Failed proxy_error
  | Answered attempt

type_synonym 'a phase = "(step + 'a) \<times> loop_state"

definition phase_bind :: "'a phase \<Rightarrow> ('a \<Rightarrow> loop_state \<Rightarrow> 'b phase) \<Rightarrow> 'b phase" where
  "phase_bind p f = (case p of (Inl s, l) \<Rightarrow> (Inl s, l) | (Inr x, l) \<Rightarrow> f x l)"

section \<open>Bookkeeping\<close>

definition on_app :: "(app_state \<Rightarrow> app_state) \<Rightarrow> loop_state \<Rightarrow> loop_state" where
  "on_app f l = l\<lparr>ls_app := f (ls_app l)\<rparr>"

definition on_trace :: "(route_trace \<Rightarrow> route_trace) \<Rightarrow> loop_state \<Rightarrow> loop_state" where
  "on_trace f l = l\<lparr>ls_trace := f (ls_trace l)\<rparr>"

definition push_path :: "string \<Rightarrow> loop_state \<Rightarrow> loop_state" where
  "push_path detail l = l\<lparr>ls_path := ls_path l @ [detail]\<rparr>"

definition record_skip :: "loop_state \<Rightarrow> loop_state" where
  "record_skip = on_app (\<lambda>a. a\<lparr>ap_route_skips := wrap_add64 (ap_route_skips a) 1\<rparr>)"

definition record_flight :: "request_ctx \<Rightarrow> nat \<Rightarrow> string \<Rightarrow> string \<Rightarrow> loop_state \<Rightarrow> loop_state" where
  "record_flight rx ms event detail =
     on_app (\<lambda>a. a\<lparr>ap_flight := flight_record (rx_request_id rx, ms, event, detail) (ap_flight a)\<rparr>)"

definition record_telemetry :: "telemetry_event \<Rightarrow> loop_state \<Rightarrow> loop_state" where
  "record_telemetry e = on_app (\<lambda>a. a\<lparr>ap_telemetry := telemetry_record e (ap_telemetry a)\<rparr>)"

definition set_last_error :: "proxy_error \<Rightarrow> loop_state \<Rightarrow> loop_state" where
  "set_last_error e l = l\<lparr>ls_last_error := Some e\<rparr>"

text \<open>Ending a request with an error: the trace's outcome, the live view, and the stored trace.\<close>

definition close_request :: "request_ctx \<Rightarrow> nat \<Rightarrow> string \<Rightarrow> nat \<Rightarrow> loop_state \<Rightarrow> loop_state" where
  "close_request rx ms outcome latency l =
     (let l1 = on_trace (trace_finish ms outcome) l
      in on_app (\<lambda>a. a\<lparr>ap_live := live_finish (rx_request_id rx) outcome latency None None (ap_live a),
                       ap_route_traces := ap_route_traces a @ [ls_trace l1]\<rparr>) l1)"

definition skip_step :: "nat \<Rightarrow> string \<Rightarrow> string \<Rightarrow> loop_state \<Rightarrow> loop_state" where
  "skip_step ms target detail = on_trace (trace_add ms ''skip'' (Some target) detail)"

abbreviation label_of :: "resolved_target \<Rightarrow> string" where
  "label_of t \<equiv> ac_label (rs_account t)"

abbreviation model_name_of :: "resolved_target \<Rightarrow> string" where
  "model_name_of t \<equiv> md_display_name (rs_model t)"

text \<open>Ending a permit or a provider attempt works on the table entry it belongs to.\<close>

definition end_traffic ::
  "target_key \<Rightarrow> (traffic_permit \<times> controller \<Rightarrow> traffic_permit \<times> controller) \<Rightarrow> traffic_permit option
    \<Rightarrow> loop_state \<Rightarrow> traffic_permit option \<times> loop_state" where
  "end_traffic k f permit l =
     (case permit of
        None \<Rightarrow> (None, l)
      | Some p \<Rightarrow>
          let (m, p') = with_entry controller_default k (\<lambda>c. let (p', c') = f (p, c) in (c', p')) (ap_traffic (ls_app l))
          in (Some p', on_app (\<lambda>a. a\<lparr>ap_traffic := m\<rparr>) l))"

definition release_permit :: "resolved_target \<Rightarrow> traffic_permit option \<Rightarrow> loop_state \<Rightarrow> loop_state" where
  "release_permit t permit l = snd (end_traffic (traffic_key t) drop_permit permit l)"

definition finish_traffic ::
  "resolved_target \<Rightarrow> failure_kind \<Rightarrow> nanos \<Rightarrow> traffic_permit option \<Rightarrow> loop_state \<Rightarrow> loop_state" where
  "finish_traffic t kind now permit l =
     snd (end_traffic (traffic_key t) (finish_permit (traffic_outcome_for_failure kind) now) permit l)"

definition end_circuit ::
  "string \<Rightarrow> (provider_attempt \<times> circuit \<Rightarrow> (provider_attempt \<times> circuit) \<times> circuit_transition) \<Rightarrow> provider_attempt
    \<Rightarrow> loop_state \<Rightarrow> (provider_attempt \<times> circuit_transition) \<times> loop_state" where
  "end_circuit provider_id f pa l =
     (let (m, r) = with_entry circuit_default provider_id
                     (\<lambda>c. let ((pa', c'), tr) = f (pa, c) in (c', (pa', tr))) (ap_circuits (ls_app l))
      in (r, on_app (\<lambda>a. a\<lparr>ap_circuits := m\<rparr>) l))"

definition record_provider_circuit_reject ::
  "nat \<Rightarrow> resolved_target \<Rightarrow> circuit_reject \<Rightarrow> loop_state \<Rightarrow> proxy_error \<times> loop_state" where
  "record_provider_circuit_reject ms t rj l =
     (pe_all_unavailable (''provider '' @ quoted (pv_name (rs_provider t)) @ '' temporarily unavailable'')
        (Some (rj_retry_after_secs rj)),
      record_telemetry (event_synthetic (traffic_key t) TO_ProviderCircuitReject)
        (record_skip (push_path (label_of t @ '':provider_circuit_open'')
          (skip_step ms (label_of t) (''provider_circuit_open: retry in '' @ show_nat (rj_retry_after_secs rj) @ ''s'') l))))"

section \<open>Phases before the send\<close>

text \<open>A logical target whose own failure was seen is passed over; then the limits, then the account's health.\<close>

definition admit_target :: "request_env \<Rightarrow> request_ctx \<Rightarrow> attempt_env \<Rightarrow> resolved_target \<Rightarrow> loop_state \<Rightarrow> bool phase" where
  "admit_target re rx e t l =
     (if ls_skip_logical l \<noteq> None \<and> ls_skip_logical l = rs_route_target_id t
      then (Inl Next_Target, skip_step (ae_ms e 0) (label_of t) ''same logical target skipped after target-local failure'' l)
      else if ls_attempts_done l \<ge> rx_max_attempts rx \<or> ae_inst e 0 \<ge> rx_deadline rx
      then (Inl Stop_Loop,
            if ae_inst e 1 \<ge> rx_deadline rx
            then on_trace (trace_add (ae_ms e 0) ''skip'' None ''pre-commit deadline exceeded'') l else l)
      else let l1 = l\<lparr>ls_all_accounts := ls_all_accounts l @ [rs_account t]\<rparr>;
               status = effective_status (re_codec re) (ae_wall e 0) (rs_account t)
           in if status = Healthy then (Inr False, l1)
              else if should_probe (re_codec re) (ae_wall e 1) (rs_account t)
              then (Inr True, on_trace (trace_add (ae_ms e 0) ''candidate'' (Some (label_of t))
                      (''half-open recovery probe ('' @ account_status_as_str status @ '')'')) l1)
              else let why = account_skip_detail (model_name_of t) (rs_account t) status
                   in (Inl Next_Target,
                       record_skip (skip_step (ae_ms e 0) (label_of t) why (push_path (label_of t @ '':'' @ why) l1))))"

definition check_soft_quota :: "request_env \<Rightarrow> request_ctx \<Rightarrow> attempt_env \<Rightarrow> resolved_target \<Rightarrow> loop_state \<Rightarrow> unit phase" where
  "check_soft_quota re rx e t l =
     (case ae_spend e of
        None \<Rightarrow> (Inr (), l)
      | Some logs \<Rightarrow>
          if \<not> soft_quota_reached (re_codec re) (re_calendar re) (ae_wall e 2) logs (rs_account t) then (Inr (), l)
          else let l1 = on_app (\<lambda>a. a\<lparr>ap_db := fst (mark_exhausted (re_codec re) (ae_wall e 3) (ac_id (rs_account t)) None
                              (default_quota_window (rs_account t)) ''soft quota reached'' (ap_db a))\<rparr>) l;
                   l2 = record_skip (skip_step (ae_ms e 1) (label_of t)
                          (''model='' @ model_name_of t @ '' soft quota reached'')
                          (push_path (label_of t @ '':soft_quota'') l1))
               in if \<not> rx_allow_fallback rx \<or> \<not> route_allows_fallback (re_codec re) (rx_route rx) QuotaExhausted
                  then (Inl (Failed (pe_rate_limited ''account soft quota reached'' None)),
                        close_request rx (ae_ms e 1) ''failed'' (ae_ms e 1) l2)
                  else (Inl Next_Target, l2))"

text \<open>The target's execution profile, its adapter, and the capabilities of a strict provider.\<close>

definition skip_with :: "nat \<Rightarrow> resolved_target \<Rightarrow> string \<Rightarrow> proxy_error \<Rightarrow> loop_state \<Rightarrow> 'a phase" where
  "skip_with ms t detail err l =
     (Inl Next_Target, set_last_error err (skip_step ms (model_name_of t) detail l))"

definition select_adapter ::
  "request_env \<Rightarrow> request_ctx \<Rightarrow> attempt_env \<Rightarrow> resolved_target \<Rightarrow> loop_state \<Rightarrow> (execution_profile \<times> adapter) phase" where
  "select_adapter re rx e t l =
     (case resolve_execution_profile (re_codec re) (rs_provider t) (rs_model t) of
        Inl err \<Rightarrow> skip_with (ae_ms e 2) t (''invalid execution profile: '' @ pe_message err) err l
      | Inr prof \<Rightarrow>
          let l1 = on_trace (resolved_transport (ae_ms e 2) (model_name_of t) (transport_as_str (ep_transport prof))) l
          in case for_transport (re_plugin_adapters re) (ep_transport prof) of
               Inl err \<Rightarrow> skip_with (ae_ms e 2) t (''resolved adapter unavailable: '' @ pe_message err) err l1
             | Inr i \<Rightarrow>
                 if provider_strict (rs_provider t)
                    \<and> \<not> profile_satisfies_needs (ep_capabilities prof) (request_needs (rx_request rx))
                 then skip_with (ae_ms e 2) t ''resolved target capabilities do not satisfy the request''
                        (pe_unsupported ''resolved target capabilities do not satisfy the request'') l1
                 else (Inr (prof, re_adapter re i), l1))"

definition check_circuit :: "attempt_env \<Rightarrow> resolved_target \<Rightarrow> loop_state \<Rightarrow> unit phase" where
  "check_circuit e t l =
     (let (m, r) = check_available (pv_id (rs_provider t)) (ae_wall e 4) (ap_circuits (ls_app l));
          l1 = on_app (\<lambda>a. a\<lparr>ap_circuits := m\<rparr>) l
      in case r of
           Inr _ \<Rightarrow> (Inr (), l1)
         | Inl rj \<Rightarrow> let (err, l2) = record_provider_circuit_reject (ae_ms e 3) t rj l1
                    in (Inl Next_Target, set_last_error err l2))"

definition correlation_policy_of :: "resolved_target \<Rightarrow> correlation_policy" where
  "correlation_policy_of t =
     (if pv_credential_mode (rs_provider t) = ''none'' then AccountlessTargets else DistinctAccounts)"

text \<open>
  The credential. An error that confirms an invalid credential disables the account and reloads the registry; where
  the statement fails nothing changes, and where the reload fails the registry still offers the account. (The renewal
  schedule that is forgotten with it is not modelled.)
\<close>

definition disable_invalid_credential ::
  "attempt_env \<Rightarrow> account_row \<Rightarrow> credential_error \<Rightarrow> string \<Rightarrow> app_state \<Rightarrow> (unit + bool) \<times> app_state" where
  "disable_invalid_credential e a err context_text s =
     (if \<not> invalid_credential err then (Inr False, s)
      else if ae_disable_error e then (Inl (), s)
      else let db = set_account_status (ac_id a) ''disabled'' None None
                      (Some (context_text @ '': '' @ ce_message err)) (ap_db s)
           in if ae_reload_error e then (Inl (), s\<lparr>ap_db := db\<rparr>)
              else (Inr True, s\<lparr>ap_db := db, ap_snapshot := reload db\<rparr>))"

definition get_credential :: "attempt_env \<Rightarrow> resolved_target \<Rightarrow> loop_state \<Rightarrow> string phase" where
  "get_credential e t l =
     (let l1 = on_app (ae_others e 0) l
      in case ae_credential e of
           Inr secret \<Rightarrow> (Inr secret, l1)
         | Inl err \<Rightarrow>
             let l2 = set_last_error (pe_internal ''credential unavailable'') l1;
                 (r, app) = disable_invalid_credential e (rs_account t) err ''request credential resolution'' (ls_app l2);
                 l3 = l2\<lparr>ls_app := app\<rparr>;
                 detail = label_of t @ '':credential_invalid(disabled)''
             in (Inl Next_Target,
                 case r of
                   Inr True \<Rightarrow> skip_step (ae_ms e 4) (label_of t) detail (push_path detail l3)
                 | Inr False \<Rightarrow> skip_step (ae_ms e 4) (label_of t) ''credential unavailable'' l3
                 | Inl _ \<Rightarrow> skip_step (ae_ms e 4) (label_of t) ''credential invalid; account disable failed'' l3))"

text \<open>
  The request view of one target: continuation state is looked up, stripped or placed where the target cannot carry
  it, and restored where it can; then the target's overrides. An error here leaves the function at once.
\<close>

definition crosses_provider :: "request_ctx \<Rightarrow> resolved_target \<Rightarrow> loop_state \<Rightarrow> bool" where
  "crosses_provider rx t l =
     is_some_and (\<lambda>p. p \<noteq> pv_id (rs_provider t))
       (opt_or (ls_previous_provider l)
          (if ls_attempts_done l = 0 then rx_session_origin_provider rx else None))"

definition settle_portability ::
  "request_env \<Rightarrow> request_ctx \<Rightarrow> attempt_env \<Rightarrow> resolved_target \<Rightarrow> adapter \<Rightarrow> opaque_report \<Rightarrow> internal_request
    \<Rightarrow> loop_state \<Rightarrow> internal_request phase" where
  "settle_portability re rx e t ad report req l =
     (let inline_opaque = request_has_opaque_state req;
          placeholder = ad_opaque_state_placeholder ad (rs_model t)
      in case rx_route rx of
           Some route \<Rightarrow>
             (case apply_portability (re_codec re) (ae_ms e 5) route t inline_opaque report placeholder
                     (req, ls_trace l) of
                Inl err \<Rightarrow> (Inl (Failed err), l)
              | Inr (req', tr) \<Rightarrow> (Inr req', l\<lparr>ls_trace := tr\<rparr>))
         | None \<Rightarrow>
             if placeholder \<noteq> None \<and> nonportable report \<and> \<not> inline_opaque
             then let (req', placed) = strip_nonportable_state (re_codec re) report placeholder req
                  in (Inr req', on_trace (trace_warn (ae_ms e 5) (portability_warning t placed)) l)
             else if inline_opaque \<or> nonportable report
             then (Inl (Failed (pe_unsupported
                    ''non-portable provider continuation state cannot be sent to a direct cross-format target'')), l)
             else (Inr req, l))"

definition report_opaque :: "request_ctx \<Rightarrow> attempt_env \<Rightarrow> resolved_target \<Rightarrow> opaque_report \<Rightarrow> loop_state \<Rightarrow> loop_state" where
  "report_opaque rx e t report l =
     (if \<not> known_state report then l
      else let l1 = record_flight rx (ae_ms e 6) ''opaque_state_lookup''
                      (''restored='' @ show_nat (or_restored report) @ '' incompatible='' @
                       show_nat (or_incompatible report) @ '' unavailable='' @ show_nat (or_unavailable report)) l
           in if or_restored report > 0
              then on_trace (trace_add (ae_ms e 6) ''candidate'' (Some (model_name_of t))
                     (''restored '' @ show_nat (or_restored report) @ '' opaque provider continuation signature(s)'')) l1
              else l1)"

definition prepare_request ::
  "request_env \<Rightarrow> request_ctx \<Rightarrow> attempt_env \<Rightarrow> resolved_target \<Rightarrow> execution_profile \<times> adapter \<Rightarrow> loop_state
    \<Rightarrow> internal_request phase" where
  "prepare_request re rx e t pa l =
     (let (prof, ad) = pa;
          req = rx_request rx;
          l0 = on_app (ae_others e 1) l;
          (r, store) = resolve_opaque_state (re_cipher re) (re_crypto re) (re_codec re) (ae_inst e 2) (ae_wall e 5) req
                         (rx_key_id rx) (rx_session rx) (ad_opaque_state_target ad (rs_model t)) (ap_opaque (ls_app l0));
          l1 = on_app (\<lambda>a. a\<lparr>ap_opaque := store\<rparr>) l0
      in case r of
           Inl err \<Rightarrow> (Inl (Failed err), l1)
         | Inr report \<Rightarrow>
             phase_bind
               (if crosses_provider rx t l \<or> \<not> is_transport_passthrough (rx_format rx) (ep_transport prof)
                   \<or> nonportable report
                then settle_portability re rx e t ad report req l1 else (Inr req, l1))
               (\<lambda>req2 l2.
                  let l3 = report_opaque rx e t report l2
                  in case apply_target_overrides (re_codec re) (rs_param_overrides t)
                            (hydrate_opaque_state report req2) of
                       Inl err \<Rightarrow> (Inl (Failed err), l3)
                     | Inr req3 \<Rightarrow>
                         (Inr req3,
                          if is_some_and (\<lambda>fs. fs \<noteq> []) (as_object (rs_param_overrides t))
                          then on_trace (trace_add (ae_ms e 7) ''candidate'' (Some (label_of t))
                                 ''applied target parameter overrides'') l3
                          else l3)))"

text \<open>Checks of the request against the target; a failure ends the request. The value: whether it is passed through.\<close>

definition reject_request :: "request_ctx \<Rightarrow> attempt_env \<Rightarrow> proxy_error \<Rightarrow> loop_state \<Rightarrow> 'a phase" where
  "reject_request rx e err l = (Inl (Failed err), close_request rx (ae_ms e 8) ''rejected'' 0 l)"

definition check_request ::
  "request_env \<Rightarrow> request_ctx \<Rightarrow> attempt_env \<Rightarrow> resolved_target \<Rightarrow> execution_profile \<times> adapter \<Rightarrow> internal_request
    \<Rightarrow> loop_state \<Rightarrow> bool phase" where
  "check_request re rx e t pa req l =
     (let (prof, ad) = pa;
          passthrough = (rq_raw_body req \<noteq> None \<and> is_transport_passthrough (rx_format rx) (ep_transport prof))
      in case check_param_policy (re_show_f64 re) t prof req of
           Inl err \<Rightarrow> reject_request rx e err l
         | Inr _ \<Rightarrow>
             if passthrough then (Inr True, l)
             else case translation_unsupported (rq_extra req) of
                    Some msg \<Rightarrow> reject_request rx e
                      (pe_unsupported (''request uses a feature that cannot be translated: '' @ msg)) l
                  | None \<Rightarrow>
                      (case check_resolved_thinking_translation (ad_handles_thinking_translation ad) t prof req of
                         Inl err \<Rightarrow> reject_request rx e err l
                       | Inr _ \<Rightarrow> (Inr False, l)))"

text \<open>
  Between attempts the loop sleeps; the readings that follow are taken after it. An adaptive route then takes a slot
  of the target, waiting for it only where the session is bound to the target: the answer is that of the last try.
\<close>

definition BACKOFF_BASE_MS :: nat where [const_defs]: "BACKOFF_BASE_MS = 100"
definition BACKOFF_CAP_MS :: nat where [const_defs]: "BACKOFF_CAP_MS = 1000"

definition backoff_ms :: "nat \<Rightarrow> nat option" where
  "backoff_ms attempts_done =
     (if attempts_done = 0 then None
      else Some (min (min (BACKOFF_BASE_MS * 2 ^ min (attempts_done - 1) 4) u64_max) BACKOFF_CAP_MS))"

definition is_adaptive_route :: "request_ctx \<Rightarrow> bool" where
  "is_adaptive_route rx = is_some_and (\<lambda>r. rt_strategy r = ''adaptive'') (rx_route rx)"

definition acquire_wait :: "request_ctx \<Rightarrow> resolved_target \<Rightarrow> nanos" where
  "acquire_wait rx t =
     (if is_some_and (\<lambda>r. (rt_cache_affinity r \<noteq> 0 \<or> rt_sticky_routing r \<noteq> 0)
                          \<and> rx_session_origin_key rx = Some (pipeline_target_key r t)) (rx_route rx)
      then 300 * 1000000 else 0)"

definition acquire_permit ::
  "request_ctx \<Rightarrow> attempt_env \<Rightarrow> resolved_target \<Rightarrow> loop_state \<Rightarrow> traffic_permit option phase" where
  "acquire_permit rx e t l =
     (let l0 = on_app (ae_others e 2) l
      in if \<not> is_adaptive_route rx then (Inr None, l0)
      else let (m, r) = upstream_try_acquire (traffic_key t) (ae_inst e 3) (ap_traffic (ls_app l0));
               l1 = on_app (\<lambda>a. a\<lparr>ap_traffic := m\<rparr>) l0
           in case r of
                Inr permit \<Rightarrow> (Inr (Some permit), l1)
              | Inl snap \<Rightarrow>
                  let detail = ''adaptive-concurrency: saturated (inflight='' @ show_nat (ts_inflight snap) @ '', limit='' @
                        show_nat (ts_estimated_limit snap) @ '')''
                  in (Inl Next_Target,
                      set_last_error (pe_all_unavailable detail None)
                        (record_telemetry (event_synthetic (traffic_key t) TO_AdaptiveSaturation)
                          (record_skip (push_path (label_of t @ '':adaptive_saturated'')
                            (skip_step (ae_ms e 9) (label_of t) detail l1))))))"

text \<open>The time left, then the provider's circuit: what is given up drops the slot. The value: the deadline of the phase.\<close>

definition reserve_attempt ::
  "request_ctx \<Rightarrow> attempt_env \<Rightarrow> resolved_target \<Rightarrow> traffic_permit option \<Rightarrow> loop_state
    \<Rightarrow> (provider_attempt \<times> nanos) phase" where
  "reserve_attempt rx e t permit l =
     (case phase_budget (ae_inst e 4) (rx_deadline rx) (provider_phase_timeout (rs_provider t)) of
        None \<Rightarrow> (Inl Stop_Loop, release_permit t permit
                   (on_trace (trace_add (ae_ms e 10) ''skip'' None ''pre-commit deadline exceeded'') l))
      | Some (phase_deadline, budget) \<Rightarrow>
          let (m, r) = begin_attempt_with_policy (pv_id (rs_provider t)) (ac_id (rs_account t))
                         (provider_correlation_target_id t) (correlation_policy_of t) (ae_wall e 6) (ap_circuits (ls_app l));
              l1 = on_app (\<lambda>a. a\<lparr>ap_circuits := m\<rparr>) l
          in case r of
               Inr pa \<Rightarrow> (Inr (pa, phase_deadline), l1)
             | Inl rj \<Rightarrow> let (err, l2) = record_provider_circuit_reject (ae_ms e 10) t rj l1
                        in (Inl Next_Target, release_permit t permit (set_last_error err l2)))"

section \<open>The attempt\<close>

definition upstream_ctx :: "request_env \<Rightarrow> resolved_target \<Rightarrow> execution_profile \<Rightarrow> string \<Rightarrow> upstream_context" where
  "upstream_ctx re t prof credential =
     \<lparr>uc_provider = rs_provider t,
      uc_model = (rs_model t)\<lparr>md_thinking_map := re_ser_thinking re (ep_thinking_map prof)\<rparr>,
      uc_account_id = Some (ac_id (rs_account t)), uc_credential = credential\<rparr>"

text \<open>
  Sending: the attempt is counted and shown, an account probe is noted, and the request goes out under its time budget.
  A send that runs out of time counts as sent: its messages may have reached the peer.
\<close>

definition begin_dispatch ::
  "request_env \<Rightarrow> request_ctx \<Rightarrow> attempt_env \<Rightarrow> resolved_target \<Rightarrow> execution_profile \<Rightarrow> bool \<Rightarrow> bool
    \<Rightarrow> loop_state \<Rightarrow> loop_state" where
  "begin_dispatch re rx e t prof probing passthrough l =
     (let n = ls_attempts_done l;
          l1 = l\<lparr>ls_attempts_done := Suc n, ls_previous_provider := Some (pv_id (rs_provider t)),
                 ls_sends := ls_sends l @ [t]\<rparr>;
          l2 = on_app (\<lambda>a. a\<lparr>ap_live := set_fallback_hops (rx_request_id rx) n n (ap_live a)\<rparr>) l1;
          l3 = record_flight rx (ae_ms e 11) ''upstream_connect''
                 (md_upstream_id (rs_model t) @ '' via '' @ transport_as_str (ep_transport prof) @
                  (if passthrough then '' (passthrough)'' else [])) l2
      in if probing
         then on_app (\<lambda>a. a\<lparr>ap_db := touch_probe_at (re_codec re) (ae_wall e 7) (ac_id (rs_account t)) (ap_db a)\<rparr>) l3
         else l3)"

definition dispatch ::
  "request_env \<Rightarrow> request_ctx \<Rightarrow> attempt_env \<Rightarrow> adapter \<Rightarrow> upstream_context \<Rightarrow> internal_request \<Rightarrow> bool \<Rightarrow> loop_state
    \<Rightarrow> (upstream_failure + response) \<times> loop_state" where
  "dispatch re rx e ad ctx req passthrough l =
     (let (r, out) = send_upstream (re_send re) (ae_outbound e) ad ctx req passthrough (rx_request_id rx)
                       (rx_protocol_headers rx) (ap_outbound (ls_app l));
          l1 = on_app (ae_others e 3) (on_app (\<lambda>a. a\<lparr>ap_outbound := out\<rparr>) l)
      in (if ae_send_timeout e then Inl (timeout_failure ''upstream timed out before response headers'') else r, l1))"

section \<open>The outcome of an attempt\<close>

fun failure_kind_debug :: "failure_kind \<Rightarrow> string" where
  "failure_kind_debug RateLimit = ''RateLimit''"
| "failure_kind_debug QuotaExhausted = ''QuotaExhausted''"
| "failure_kind_debug AuthError = ''AuthError''"
| "failure_kind_debug TargetError = ''TargetError''"
| "failure_kind_debug ServerError = ''ServerError''"
| "failure_kind_debug ConnectionError = ''ConnectionError''"
| "failure_kind_debug Timeout = ''Timeout''"
| "failure_kind_debug BadRequest = ''BadRequest''"

definition attempt_elapsed :: "attempt_env \<Rightarrow> nat \<Rightarrow> nat" where
  "attempt_elapsed e i = nat (sat_since (ae_inst e i) (ae_inst e 5) div 1000000)"

definition can_fallback :: "request_env \<Rightarrow> request_ctx \<Rightarrow> failure_kind \<Rightarrow> bool" where
  "can_fallback re rx kind \<longleftrightarrow> rx_allow_fallback rx \<and> route_allows_fallback (re_codec re) (rx_route rx) kind"

definition fail_account ::
  "request_env \<Rightarrow> attempt_env \<Rightarrow> resolved_target \<Rightarrow> upstream_failure \<Rightarrow> loop_state \<Rightarrow> loop_state" where
  "fail_account re e t f l =
     (let (db, path, tr) = handle_key_failure (re_codec re) (ae_wall e 8) (ae_ms e 12) (rs_account t) f
                             (ap_db (ls_app l), ls_path l, ls_trace l)
      in on_app (\<lambda>a. a\<lparr>ap_db := db\<rparr>) (l\<lparr>ls_path := path, ls_trace := tr\<rparr>))"

definition observe_failure_quota :: "attempt_env \<Rightarrow> resolved_target \<Rightarrow> upstream_failure \<Rightarrow> loop_state \<Rightarrow> loop_state" where
  "observe_failure_quota e t f l =
     (if uf_kind f = QuotaExhausted
      then on_app (\<lambda>a. a\<lparr>ap_quota := observe_exhausted (ae_wall e 9) (pv_id (rs_provider t), ac_id (rs_account t))
                            (uf_quota_reset_at f) ''upstream_error'' (ap_quota a)\<rparr>) l
      else l)"

definition fail_circuit ::
  "attempt_env \<Rightarrow> resolved_target \<Rightarrow> upstream_failure \<Rightarrow> provider_attempt \<Rightarrow> loop_state \<Rightarrow> circuit_transition \<times> loop_state" where
  "fail_circuit e t f pa l =
     (let ((_, tr), l') = end_circuit (pv_id (rs_provider t)) (finish_failure (uf_kind f) (uf_status f) (ae_wall e 10)) pa l
      in (tr, l'))"

definition note_failure ::
  "attempt_env \<Rightarrow> resolved_target \<Rightarrow> failure_kind \<Rightarrow> bool \<Rightarrow> circuit_transition \<Rightarrow> loop_state \<Rightarrow> loop_state" where
  "note_failure e t kind fallback transition l =
     (let (tr, tm) = record_target_telemetry (ae_ms e 13) t (telemetry_outcome_for_failure kind) (attempt_elapsed e 6) None
                       (ls_attempts_done l > 1) fallback transition (ls_trace l, ap_telemetry (ls_app l))
      in on_app (\<lambda>a. a\<lparr>ap_telemetry := tm\<rparr>) (l\<lparr>ls_trace := tr\<rparr>))"

text \<open>After a failure the loop goes on where a fallback is allowed, and otherwise the request fails with it.\<close>

definition conclude ::
  "request_ctx \<Rightarrow> attempt_env \<Rightarrow> resolved_target \<Rightarrow> bool \<Rightarrow> string \<Rightarrow> proxy_error \<Rightarrow> loop_state \<Rightarrow> step \<times> loop_state" where
  "conclude rx e t fallback detail err l =
     (if \<not> fallback
      then (Failed err, close_request rx (ae_ms e 14) ''failed'' (ae_ms e 14)
              (on_trace (trace_add (ae_ms e 14) ''attempt'' (Some (label_of t)) detail) l))
      else (Next_Target, set_last_error err l))"

definition mark_logical :: "resolved_target \<Rightarrow> upstream_failure \<Rightarrow> bool \<Rightarrow> loop_state \<Rightarrow> loop_state" where
  "mark_logical t f fallback l =
     (if fallback \<and> uf_kind f = TargetError then l\<lparr>ls_skip_logical := rs_route_target_id t\<rparr> else l)"

text \<open>The send failed.\<close>

definition connect_failed ::
  "request_env \<Rightarrow> request_ctx \<Rightarrow> attempt_env \<Rightarrow> resolved_target \<Rightarrow> traffic_permit option \<Rightarrow> provider_attempt
    \<Rightarrow> upstream_failure \<Rightarrow> loop_state \<Rightarrow> step \<times> loop_state" where
  "connect_failed re rx e t permit pa f l =
     (let l1 = observe_failure_quota e t f (finish_traffic t (uf_kind f) (ae_inst e 7) permit l);
          (transition, l2) = fail_circuit e t f pa l1;
          l3 = fail_account re e t f
                 (record_flight rx (ae_ms e 12) ''upstream_connect_failed'' (failure_kind_debug (uf_kind f)) l2);
          fb = can_fallback re rx (uf_kind f);
          l4 = note_failure e t (uf_kind f) fb transition l3
      in conclude rx e t fb (''fallback disabled for '' @ failure_kind_debug (uf_kind f)) (failure_to_error f t) l4)"

text \<open>The response was a success, but nothing in it was a model's answer.\<close>

definition response_invalid ::
  "request_env \<Rightarrow> request_ctx \<Rightarrow> attempt_env \<Rightarrow> resolved_target \<Rightarrow> traffic_permit option \<Rightarrow> provider_attempt
    \<Rightarrow> upstream_failure \<Rightarrow> loop_state \<Rightarrow> step \<times> loop_state" where
  "response_invalid re rx e t permit pa f l =
     (let l1 = record_flight rx (ae_ms e 12) ''upstream_precommit_invalid'' (uf_message f)
                 (finish_traffic t (uf_kind f) (ae_inst e 7) permit l);
          l2 = observe_failure_quota e t f (fail_account re e t f l1);
          fb = can_fallback re rx (uf_kind f);
          (transition, l3) = fail_circuit e t f pa l2;
          l4 = mark_logical t f fb (note_failure e t (uf_kind f) fb transition l3)
      in conclude rx e t fb (''HTTP 2xx invalid before commit; fallback disabled for '' @ failure_kind_debug (uf_kind f))
           (failure_to_error f t) l4)"

text \<open>The response was validated: the account's failures are cleared and the attempt is handed on.\<close>

definition response_valid ::
  "request_env \<Rightarrow> request_ctx \<Rightarrow> attempt_env \<Rightarrow> resolved_target \<Rightarrow> adapter \<Rightarrow> internal_request \<Rightarrow> bool
    \<Rightarrow> traffic_permit option \<Rightarrow> provider_attempt \<Rightarrow> prepared_upstream \<Rightarrow> loop_state \<Rightarrow> step \<times> loop_state" where
  "response_valid re rx e t ad req passthrough permit pa p l =
     (let n = ls_attempts_done l;
          (permit', l1) = (if pr_is_sse p then end_traffic (traffic_key t) (mark_first_event
                             (sat_since (ae_inst e 8) (ae_inst e 5)) (ae_inst e 8)) permit l else (permit, l));
          l2 = (if n > 1 then on_app (\<lambda>a. a\<lparr>ap_route_fallbacks := wrap_add64 (ap_route_fallbacks a) 1\<rparr>) l1 else l1);
          l3 = on_trace (\<lambda>tr. (trace_add (ae_ms e 13) ''attempt'' (Some (label_of t))
                   (''HTTP 2xx validated (attempt '' @ show_nat n @ '')'') tr)
                     \<lparr>rt_final_target := Some (model_name_of t @ '' @ '' @ label_of t)\<rparr>)
                 (push_path (label_of t @ '':validated'') l2);
          l4 = record_flight rx (ae_ms e 13) ''upstream_validated'' (if pr_is_sse p then ''sse'' else ''json'') l3;
          l5 = on_app (\<lambda>a. a\<lparr>ap_db := clear_circuit (ac_id (rs_account t)) (ap_db a)\<rparr>) l4;
          (r, l6) = (if a_half_open_probe pa
                     then (let ((pa', tr), l') = end_circuit (pv_id (rs_provider t)) (mark_validated_success (ae_wall e 10)) pa l5
                           in ((pa', Some tr), l'))
                     else ((pa, None), l5))
      in (Answered \<lparr>at_target = t, at_upstream_request_id = extract_upstream_request_id (ae_headers e), at_prepared = p,
            at_idle_timeout = provider_phase_timeout (rs_provider t), at_adapter = ad,
            at_passthrough = (passthrough \<and> pr_is_sse p), at_traffic_permit = permit',
            at_provider_attempt = fst r, at_circuit_transition = snd r, at_attempt_started = ae_inst e 5,
            at_request = req, at_retries = n - 1\<rparr>, l6))"

text \<open>The response was an error: its body is read in the time left, and the adapter and the provider's rules classify it.\<close>

definition classify_response ::
  "request_env \<Rightarrow> attempt_env \<Rightarrow> resolved_target \<Rightarrow> adapter \<Rightarrow> nanos \<Rightarrow> nat \<Rightarrow> upstream_failure \<times> string option" where
  "classify_response re e t ad phase_deadline status =
     (let late = timeout_failure ''upstream timed out while reading error response''
      in if sat_since phase_deadline (ae_inst e 8) = 0 \<or> ae_body_timeout e then (late, None)
         else case collect_body (ae_body e) of
                Inl err \<Rightarrow> (body_failure (Some status) err, None)
              | Inr bytes \<Rightarrow>
                  let text = utf8_lossy bytes
                  in (apply_provider_failure_rules (re_codec re) (rs_provider t) status text
                        (ad_classify_error ad status text (ae_headers e)), Some text))"

definition credential_plugin_ref :: "provider_row \<Rightarrow> plugin_ref option" where
  "credential_plugin_ref p = plugin_ref_parse (pv_credential_plugin p)"

definition rotate_credential :: "attempt_env \<Rightarrow> provider_row \<Rightarrow> credential_error + bool" where
  "rotate_credential e p = (case credential_plugin_ref p of None \<Rightarrow> Inr False | Some _ \<Rightarrow> ae_rotation e)"

text \<open>
  After an authentication error the credential of the account is renewed once per request: a renewal retries the same
  target and does not count as an attempt, a failing one cools the account down. The value: whether the error is to be
  handled as any other.
\<close>

definition retry_rotated ::
  "request_ctx \<Rightarrow> attempt_env \<Rightarrow> resolved_target \<Rightarrow> failure_kind \<Rightarrow> circuit_transition \<Rightarrow> loop_state \<Rightarrow> loop_state" where
  "retry_rotated rx e t kind transition l =
     (let l1 = note_failure e t kind False transition l;
          l2 = l1\<lparr>ls_auth_retried := insert (ac_id (rs_account t)) (ls_auth_retried l1),
                  ls_attempts_done := ls_attempts_done l1 - 1\<rparr>
      in record_flight rx (ae_ms e 14) ''credential_rotated_retry'' (label_of t)
           (on_trace (trace_add (ae_ms e 14) ''attempt'' (Some (label_of t))
              ''auth failed; refreshed plugin credential and retrying same target'') l2))"

definition rotation_failed ::
  "request_env \<Rightarrow> request_ctx \<Rightarrow> attempt_env \<Rightarrow> resolved_target \<Rightarrow> failure_kind \<Rightarrow> circuit_transition \<Rightarrow> credential_error
    \<Rightarrow> loop_state \<Rightarrow> step \<times> loop_state" where
  "rotation_failed re rx e t kind transition err l =
     (let cooldown = min (unwrap_or (ce_retry_after_secs err) (if ce_retryable err then 5 else 30)) 3600;
          l1 = on_app (\<lambda>a. let db = fst (mark_rate_limited (re_codec re) (ae_wall e 11) (ac_id (rs_account t)) cooldown
                              (''credential refresh failed: '' @ ce_message err) (ap_db a))
                           in a\<lparr>ap_db := db, ap_snapshot := reload db\<rparr>) l;
          detail = label_of t @ '':credential_refresh(cooldown '' @ show_nat cooldown @ ''s)'';
          l2 = on_trace (trace_add (ae_ms e 14) ''attempt'' (Some (label_of t)) detail) (push_path detail l1);
          refresh_error = pe_all_unavailable ''credential refresh temporarily unavailable'' (Some cooldown);
          fb = can_fallback re rx AuthError;
          l3 = note_failure e t kind fb transition l2
      in if \<not> fb then (Failed refresh_error, close_request rx (ae_ms e 14) ''failed'' (ae_ms e 14) l3)
         else (Next_Target, set_last_error refresh_error l3))"

definition after_auth_error ::
  "request_env \<Rightarrow> request_ctx \<Rightarrow> attempt_env \<Rightarrow> resolved_target \<Rightarrow> failure_kind \<Rightarrow> circuit_transition \<Rightarrow> loop_state
    \<Rightarrow> unit phase" where
  "after_auth_error re rx e t kind transition l =
     (if kind \<noteq> AuthError \<or> ac_id (rs_account t) \<in> ls_auth_retried l then (Inr (), l)
      else let l0 = on_app (ae_others e 4) l
           in case rotate_credential e (rs_provider t) of
                Inr True \<Rightarrow> (Inl Same_Target, retry_rotated rx e t kind transition l0)
              | Inr False \<Rightarrow> (Inr (), l0)
              | Inl err \<Rightarrow>
                  if invalid_credential err then (Inr (), l0)
                  else let (s, l1) = rotation_failed re rx e t kind transition err l0 in (Inl s, l1))"

definition response_error ::
  "request_env \<Rightarrow> request_ctx \<Rightarrow> attempt_env \<Rightarrow> resolved_target \<Rightarrow> adapter \<Rightarrow> traffic_permit option \<Rightarrow> provider_attempt
    \<Rightarrow> nanos \<Rightarrow> nat \<Rightarrow> quota_header_observation option \<Rightarrow> loop_state \<Rightarrow> step \<times> loop_state" where
  "response_error re rx e t ad permit pa phase_deadline status observation l =
     (let (f0, error_body) = classify_response re e t ad phase_deadline status;
          f = apply_header_reset_to_rate_limit (ae_wall e 12) f0 observation;
          l1 = observe_failure_quota e t f (finish_traffic t (uf_kind f) (ae_inst e 7) permit l);
          (transition, l2) = fail_circuit e t f pa l1;
          l3 = record_flight rx (ae_ms e 12) ''upstream_error''
                 (''HTTP '' @ show_nat status @ '' '' @ failure_kind_debug (uf_kind f)) l2
      in case after_auth_error re rx e t (uf_kind f) transition l3 of
           (Inl s, l4) \<Rightarrow> (s, l4)
         | (Inr _, l4) \<Rightarrow>
             let l5 = fail_account re e t f l4;
                 err = preserve_anthropic_error (re_codec re) (rx_format rx) (ad_wire_format ad) f status (ae_headers e)
                         error_body (failure_to_error f t);
                 fb = can_fallback re rx (uf_kind f);
                 l6 = mark_logical t f fb (note_failure e t (uf_kind f) fb transition l5)
             in conclude rx e t fb
                  (''HTTP '' @ show_nat status @ ''; fallback disabled for '' @ failure_kind_debug (uf_kind f)) err l6)"

definition handle_response ::
  "request_env \<Rightarrow> request_ctx \<Rightarrow> attempt_env \<Rightarrow> resolved_target \<Rightarrow> adapter \<Rightarrow> internal_request \<Rightarrow> bool
    \<Rightarrow> traffic_permit option \<Rightarrow> provider_attempt \<Rightarrow> nanos \<Rightarrow> response \<Rightarrow> loop_state \<Rightarrow> step \<times> loop_state" where
  "handle_response re rx e t ad req passthrough permit pa phase_deadline r l =
     (let (q, observation) = observe_headers (re_codec re) (re_clock re) (ae_wall e 13)
                               (pv_id (rs_provider t), ac_id (rs_account t)) (header_text (ae_headers e)) (ap_quota (ls_app l));
          l1 = on_app (\<lambda>a. a\<lparr>ap_quota := q\<rparr>) l
      in if 200 \<le> rp_status r \<and> rp_status r < 300
         then let late = timeout_failure ''upstream timed out before first valid event'';
                  prepared = (if sat_since phase_deadline (ae_inst e 8) = 0 \<or> ae_body_timeout e then Inl late
                              else prepare_success_response (re_codec re) (re_json_error re) ad (ae_headers e)
                                     (ae_content_length e) (ae_body e))
              in case prepared of
                   Inl f \<Rightarrow> response_invalid re rx e t permit pa f l1
                 | Inr p \<Rightarrow> response_valid re rx e t ad req passthrough permit pa p l1
         else response_error re rx e t ad permit pa phase_deadline (rp_status r) observation l1)"

section \<open>The loop\<close>

definition send_attempt ::
  "request_env \<Rightarrow> request_ctx \<Rightarrow> attempt_env \<Rightarrow> resolved_target \<Rightarrow> execution_profile \<times> adapter \<Rightarrow> string \<Rightarrow> internal_request
    \<Rightarrow> bool \<Rightarrow> bool \<Rightarrow> traffic_permit option \<Rightarrow> provider_attempt \<times> nanos \<Rightarrow> loop_state \<Rightarrow> step \<times> loop_state" where
  "send_attempt re rx e t pa credential req probing passthrough permit slot l =
     (let l1 = begin_dispatch re rx e t (fst pa) probing passthrough l;
          (r, l2) = dispatch re rx e (snd pa) (upstream_ctx re t (fst pa) credential) req passthrough l1
      in case r of
           Inl f \<Rightarrow> connect_failed re rx e t permit (fst slot) f l2
         | Inr resp \<Rightarrow>
             handle_response re rx e t (snd pa) req passthrough permit (fst slot) (snd slot) resp l2)"

text \<open>One iteration: the phases before the send, then the send.\<close>

definition before_send ::
  "request_env \<Rightarrow> request_ctx \<Rightarrow> attempt_env \<Rightarrow> resolved_target \<Rightarrow> loop_state
    \<Rightarrow> ((execution_profile \<times> adapter) \<times> string \<times> internal_request \<times> bool \<times> bool \<times> traffic_permit option \<times> provider_attempt \<times> nanos) phase" where
  "before_send re rx e t l =
     phase_bind (admit_target re rx e t l) (\<lambda>probing l.
     phase_bind (check_soft_quota re rx e t l) (\<lambda>_ l.
     phase_bind (select_adapter re rx e t l) (\<lambda>pa l.
     phase_bind (check_circuit e t l) (\<lambda>_ l.
     phase_bind (get_credential e t l) (\<lambda>credential l.
     phase_bind (prepare_request re rx e t pa l) (\<lambda>req l.
     phase_bind (check_request re rx e t pa req l) (\<lambda>passthrough l.
     phase_bind (acquire_permit rx e t l) (\<lambda>permit l.
     phase_bind (reserve_attempt rx e t permit l) (\<lambda>slot l.
       (Inr (pa, credential, req, probing, passthrough, permit, slot), l))))))))))"

definition attempt_target ::
  "request_env \<Rightarrow> request_ctx \<Rightarrow> attempt_env \<Rightarrow> resolved_target \<Rightarrow> loop_state \<Rightarrow> step \<times> loop_state" where
  "attempt_target re rx e t l =
     (case before_send re rx e t l of
        (Inl s, l') \<Rightarrow> (s, l')
      | (Inr (pa, credential, req, probing, passthrough, permit, slot), l') \<Rightarrow>
          send_attempt re rx e t pa credential req probing passthrough permit slot l')"

section \<open>What the loop keeps\<close>

text \<open>The part of the state that decides how the loop goes on; every bookkeeping step leaves it alone.\<close>

definition core :: "loop_state \<Rightarrow> nat \<times> string option \<times> string option \<times> string set \<times> resolved_target list" where
  "core l = (ls_attempts_done l, ls_previous_provider l, ls_skip_logical l, ls_auth_retried l, ls_sends l)"

lemma core_eqD:
  "core l' = core l \<Longrightarrow> ls_attempts_done l' = ls_attempts_done l \<and> ls_previous_provider l' = ls_previous_provider l \<and>
   ls_skip_logical l' = ls_skip_logical l \<and> ls_auth_retried l' = ls_auth_retried l \<and> ls_sends l' = ls_sends l"
  by (simp add: core_def)

lemma core_bookkeeping [simp]:
  "core (on_app f l) = core l" "core (on_trace g l) = core l" "core (push_path s l) = core l"
  "core (record_skip l) = core l" "core (record_flight rx ms ev d l) = core l" "core (record_telemetry te l) = core l"
  "core (set_last_error err l) = core l" "core (close_request rx ms out lat l) = core l"
  "core (skip_step ms tg d l) = core l"
  by (simp_all add: core_def on_app_def on_trace_def push_path_def record_skip_def record_flight_def record_telemetry_def
      set_last_error_def close_request_def skip_step_def Let_def)

lemma core_fields [simp]:
  "core (l\<lparr>ls_app := a\<rparr>) = core l" "core (l\<lparr>ls_trace := tr\<rparr>) = core l" "core (l\<lparr>ls_path := ps\<rparr>) = core l"
  "core (l\<lparr>ls_all_accounts := xs\<rparr>) = core l"
  by (simp_all add: core_def)

lemma core_end_traffic [simp]: "core (snd (end_traffic k f permit l)) = core l"
  by (simp add: end_traffic_def case_prod_beta Let_def split: option.split)

lemma core_releases [simp]:
  "core (release_permit t permit l) = core l" "core (finish_traffic t kind now permit l) = core l"
  by (simp_all add: release_permit_def finish_traffic_def)

lemma core_end_circuit [simp]: "core (snd (end_circuit p f pa l)) = core l"
  by (simp add: end_circuit_def case_prod_beta Let_def)

lemma core_reject [simp]: "core (snd (record_provider_circuit_reject ms t rj l)) = core l"
  by (simp add: record_provider_circuit_reject_def)

text \<open>A phase that keeps the core and ends the iteration only by going on, stopping or failing.\<close>

definition quiet_step :: "step \<Rightarrow> bool" where
  "quiet_step s \<longleftrightarrow> (case s of Same_Target \<Rightarrow> False | Answered _ \<Rightarrow> False | _ \<Rightarrow> True)"

lemma quiet_step_simps [simp]:
  "quiet_step Next_Target" "quiet_step Stop_Loop" "quiet_step (Failed err)" "\<not> quiet_step Same_Target" "\<not> quiet_step (Answered ans)"
  by (simp_all add: quiet_step_def)

definition quiet_phase :: "loop_state \<Rightarrow> 'a phase \<Rightarrow> bool" where
  "quiet_phase l p \<longleftrightarrow> core (snd p) = core l \<and> (case fst p of Inl s \<Rightarrow> quiet_step s | Inr _ \<Rightarrow> True)"

lemma quiet_phase_simps [simp]:
  "quiet_phase l (Inr x, l') \<longleftrightarrow> core l' = core l" "quiet_phase l (Inl s, l') \<longleftrightarrow> core l' = core l \<and> quiet_step s"
  by (auto simp: quiet_phase_def)

lemma quiet_phase_bind:
  "quiet_phase l p \<Longrightarrow> (\<And>x l'. p = (Inr x, l') \<Longrightarrow> core l' = core l \<Longrightarrow> quiet_phase l' (f x l')) \<Longrightarrow> quiet_phase l (phase_bind p f)"
  by (cases p) (auto simp: quiet_phase_def phase_bind_def split: sum.splits)

lemma quiet_admit: "core l' = core l \<Longrightarrow> quiet_phase l (admit_target re rx e t l')"
  by (simp add: admit_target_def Let_def)

lemma quiet_soft_quota: "core l' = core l \<Longrightarrow> quiet_phase l (check_soft_quota re rx e t l')"
  by (simp add: check_soft_quota_def Let_def split: option.split)

lemma quiet_skip_with: "core l' = core l \<Longrightarrow> quiet_phase l (skip_with ms t detail err l')"
  by (simp add: skip_with_def)

lemma quiet_select: "core l' = core l \<Longrightarrow> quiet_phase l (select_adapter re rx e t l')"
  by (simp add: select_adapter_def Let_def quiet_skip_with split: sum.split)

lemma quiet_circuit: "core l' = core l \<Longrightarrow> quiet_phase l (check_circuit e t l')"
proof -
  assume c: "core l' = core l"
  obtain m r where m: "check_available (pv_id (rs_provider t)) (ae_wall e 4) (ap_circuits (ls_app l')) = (m, r)"
    using prod.exhaust by blast
  show ?thesis
  proof (cases r)
    case (Inl rj)
    obtain err l2 where r: "record_provider_circuit_reject (ae_ms e 3) t rj (on_app (\<lambda>a. a\<lparr>ap_circuits := m\<rparr>) l') = (err, l2)"
      using prod.exhaust by blast
    then have "core l2 = core l" using core_reject [of "ae_ms e 3" t rj "on_app (\<lambda>a. a\<lparr>ap_circuits := m\<rparr>) l'"] c by simp
    then show ?thesis by (simp add: check_circuit_def m Inl r)
  qed (simp add: check_circuit_def m c)
qed

lemma quiet_credential: "core l' = core l \<Longrightarrow> quiet_phase l (get_credential e t l')"
proof -
  assume c: "core l' = core l"
  show ?thesis
  proof (cases "ae_credential e")
    case (Inl err)
    define l2 where "l2 = set_last_error (pe_internal ''credential unavailable'') (on_app (ae_others e 0) l')"
    obtain r app where d: "disable_invalid_credential e (rs_account t) err ''request credential resolution'' (ls_app l2) = (r, app)"
      using prod.exhaust by blast
    have "core l2 = core l" using c by (simp add: l2_def)
    then show ?thesis
      unfolding get_credential_def Let_def Inl sum.case l2_def [symmetric] d prod.case
      by (simp split: sum.split bool.split)
  qed (simp add: get_credential_def c)
qed

lemma quiet_portability: "core l' = core l \<Longrightarrow> quiet_phase l (settle_portability re rx e t ad report req l')"
  by (simp add: settle_portability_def Let_def split: sum.split option.split prod.split)

lemma core_report [simp]: "core (report_opaque rx e t report l) = core l"
  by (simp add: report_opaque_def Let_def)

lemma quiet_prepare: "core l' = core l \<Longrightarrow> quiet_phase l (prepare_request re rx e t pa l')"
proof -
  assume c: "core l' = core l"
  obtain prof ad where pa: "pa = (prof, ad)" using prod.exhaust by blast
  obtain r store where r: "resolve_opaque_state (re_cipher re) (re_crypto re) (re_codec re) (ae_inst e 2) (ae_wall e 5)
     (rx_request rx) (rx_key_id rx) (rx_session rx) (ad_opaque_state_target ad (rs_model t))
     (ap_opaque (ls_app (on_app (ae_others e 1) l'))) = (r, store)"
    using prod.exhaust by blast
  show ?thesis
    unfolding prepare_request_def Let_def pa prod.case r
    by (cases r) (auto simp: c Let_def quiet_portability split: sum.split intro!: quiet_phase_bind)
qed

lemma quiet_check: "core l' = core l \<Longrightarrow> quiet_phase l (check_request re rx e t pa req l')"
  by (cases pa) (simp add: check_request_def reject_request_def Let_def split: sum.split option.split)

lemma quiet_acquire: "core l' = core l \<Longrightarrow> quiet_phase l (acquire_permit rx e t l')"
  by (simp add: acquire_permit_def Let_def split: sum.split prod.split)

lemma quiet_reserve: "core l' = core l \<Longrightarrow> quiet_phase l (reserve_attempt rx e t permit l')"
proof -
  assume c: "core l' = core l"
  show ?thesis
  proof (cases "phase_budget (ae_inst e 4) (rx_deadline rx) (provider_phase_timeout (rs_provider t))")
    case (Some b)
    obtain m r where m: "begin_attempt_with_policy (pv_id (rs_provider t)) (ac_id (rs_account t))
        (provider_correlation_target_id t) (correlation_policy_of t) (ae_wall e 6) (ap_circuits (ls_app l')) = (m, r)"
      using prod.exhaust by blast
    show ?thesis
    proof (cases r)
      case (Inl rj)
      obtain err l2 where r: "record_provider_circuit_reject (ae_ms e 10) t rj (on_app (\<lambda>a. a\<lparr>ap_circuits := m\<rparr>) l') = (err, l2)"
        using prod.exhaust by blast
      then have "core l2 = core l" using core_reject [of "ae_ms e 10" t rj "on_app (\<lambda>a. a\<lparr>ap_circuits := m\<rparr>) l'"] c by simp
      then show ?thesis by (cases b) (simp add: reserve_attempt_def Some m Inl r)
    qed (cases b, simp add: reserve_attempt_def Some m c)
  qed (simp add: reserve_attempt_def c)
qed

text \<open>The counters of the loop, the part a failed attempt may not touch otherwise.\<close>

definition tally :: "loop_state \<Rightarrow> nat \<times> string set \<times> resolved_target list" where
  "tally l = (ls_attempts_done l, ls_auth_retried l, ls_sends l)"

lemma tally_core: "core l' = core l \<Longrightarrow> tally l' = tally l"
  by (simp add: core_def tally_def)

lemma tally_bookkeeping [simp]:
  "tally (on_app f l) = tally l" "tally (on_trace g l) = tally l" "tally (record_flight rx ms ev d l) = tally l"
  "tally (set_last_error err l) = tally l" "tally (close_request rx ms out lat l) = tally l" "tally (push_path d l) = tally l"
  "tally (finish_traffic t kind now permit l) = tally l" "tally (mark_logical t uf fb l) = tally l"
  by (rule tally_core, simp)+ (simp add: mark_logical_def tally_def)

lemma tally_fail_account [simp]: "tally (fail_account re e t f l) = tally l"
  by (simp add: fail_account_def tally_def on_app_def split: prod.split)

lemma tally_quota [simp]: "tally (observe_failure_quota e t f l) = tally l"
  by (simp add: observe_failure_quota_def)

lemma tally_fail_circuit: "fail_circuit e t f pa l = (tr, l') \<Longrightarrow> tally l' = tally l"
proof -
  assume "fail_circuit e t f pa l = (tr, l')"
  then have "l' = snd (end_circuit (pv_id (rs_provider t)) (finish_failure (uf_kind f) (uf_status f) (ae_wall e 10)) pa l)"
    by (auto simp: fail_circuit_def Let_def split: prod.splits)
  then show ?thesis by (simp only: tally_core [OF core_end_circuit])
qed

lemma tally_note_failure [simp]: "tally (note_failure e t kind fb tr l) = tally l"
  by (simp add: note_failure_def tally_def on_app_def split: prod.split)

lemma conclude_result:
  "conclude rx e t fb detail err l = (s, l') \<Longrightarrow>
   tally l' = tally l \<and> (s = Next_Target \<and> fb \<or> (\<exists>err. s = Failed err) \<and> \<not> fb)"
  by (auto simp: conclude_def split: if_splits)

text \<open>What an attempt that was sent leads to.\<close>

definition attempt_result ::
  "request_env \<Rightarrow> request_ctx \<Rightarrow> resolved_target \<Rightarrow> loop_state \<Rightarrow> step \<Rightarrow> loop_state \<Rightarrow> bool" where
  "attempt_result re rx t l s l' \<longleftrightarrow>
     (case s of
        Same_Target \<Rightarrow> ac_id (rs_account t) \<notin> ls_auth_retried l \<and>
          tally l' = (ls_attempts_done l - 1, insert (ac_id (rs_account t)) (ls_auth_retried l), ls_sends l)
      | Stop_Loop \<Rightarrow> False
      | Next_Target \<Rightarrow> tally l' = tally l \<and> (\<exists>kind. can_fallback re rx kind)
      | Failed _ \<Rightarrow> tally l' = tally l
      | Answered a \<Rightarrow> tally l' = tally l \<and> at_target a = t)"

lemma attempt_result_tally: "tally l1 = tally l \<Longrightarrow> attempt_result re rx t l1 s l' \<Longrightarrow> attempt_result re rx t l s l'"
  by (simp add: attempt_result_def tally_def split: step.splits)

lemma conclude_attempt:
  "conclude rx e t (can_fallback re rx kind) detail err l1 = (s, l') \<Longrightarrow> tally l1 = tally l \<Longrightarrow> attempt_result re rx t l s l'"
  using conclude_result [of rx e t "can_fallback re rx kind" detail err l1 s l'] by (auto simp: attempt_result_def)

lemma connect_failed_result:
  "connect_failed re rx e t permit pa f l = (s, l') \<Longrightarrow> attempt_result re rx t l s l'"
  unfolding connect_failed_def Let_def
  by (split prod.splits) (erule conclude_attempt, drule tally_fail_circuit, simp)

lemma response_invalid_result:
  "response_invalid re rx e t permit pa f l = (s, l') \<Longrightarrow> attempt_result re rx t l s l'"
  unfolding response_invalid_def Let_def
  by (split prod.splits) (erule conclude_attempt, drule tally_fail_circuit, simp)

lemma response_valid_result:
  "response_valid re rx e t ad req pt permit pa p l = (s, l') \<Longrightarrow> attempt_result re rx t l s l' \<and> (\<exists>ans. s = Answered ans)"
proof -
  assume r: "response_valid re rx e t ad req pt permit pa p l = (s, l')"
  obtain permit' l1 where p: "(if pr_is_sse p then end_traffic (traffic_key t) (mark_first_event
      (sat_since (ae_inst e 8) (ae_inst e 5)) (ae_inst e 8)) permit l else (permit, l)) = (permit', l1)"
    using prod.exhaust by blast
  have "l1 = l \<or> (\<exists>f. l1 = snd (end_traffic (traffic_key t) f permit l))" using p by (metis prod.inject snd_conv)
  then have l1: "tally l1 = tally l" using tally_core [OF core_end_traffic] by auto
  have c: "tally (snd (end_circuit a b c d)) = tally d" for a b c d by (rule tally_core) simp
  have "tally l' = tally l1 \<and> (\<exists>ans. s = Answered ans \<and> at_target ans = t)"
    using r unfolding response_valid_def p prod.case Let_def
    by (auto simp: c dest!: arg_cong [of "end_circuit _ _ _ _" _ snd] split: prod.splits if_splits)
  then show ?thesis using l1 by (auto simp: attempt_result_def)
qed

lemma rotation_failed_result:
  "rotation_failed re rx e t kind tr err l1 = (s, l') \<Longrightarrow> tally l1 = tally l \<Longrightarrow> attempt_result re rx t l s l'"
  by (auto simp: rotation_failed_def Let_def attempt_result_def split: if_splits)

lemma after_auth_error_result:
  assumes "after_auth_error re rx e t kind tr l1 = (r, l')" "tally l1 = tally l"
  shows "case r of Inr _ \<Rightarrow> tally l' = tally l | Inl s \<Rightarrow> attempt_result re rx t l s l'"
proof (cases "kind \<noteq> AuthError \<or> ac_id (rs_account t) \<in> ls_auth_retried l1")
  case True
  then show ?thesis using assms by (auto simp: after_auth_error_def)
next
  case False
  let ?l0 = "on_app (ae_others e 4) l1"
  have auth: "ac_id (rs_account t) \<notin> ls_auth_retried l" using False assms(2) by (simp add: tally_def)
  note step = assms(1) [unfolded after_auth_error_def if_not_P [OF False] Let_def]
  show ?thesis
  proof (cases "rotate_credential e (rs_provider t)")
    case (Inl err)
    obtain s l2 where rf: "rotation_failed re rx e t kind tr err ?l0 = (s, l2)" using prod.exhaust by blast
    then show ?thesis using step Inl assms(2) rotation_failed_result [OF rf, of l] by (auto split: if_splits)
  next
    case (Inr rotated)
    define n where "n = note_failure e t kind False tr ?l0"
    have n: "tally n = tally l" using assms(2) by (simp add: n_def)
    have "tally (retry_rotated rx e t kind tr ?l0)
        = (ls_attempts_done n - 1, insert (ac_id (rs_account t)) (ls_auth_retried n), ls_sends n)"
      unfolding retry_rotated_def Let_def n_def [symmetric] tally_bookkeeping by (simp add: tally_def)
    with n have "tally (retry_rotated rx e t kind tr ?l0)
        = (ls_attempts_done l - 1, insert (ac_id (rs_account t)) (ls_auth_retried l), ls_sends l)"
      by (simp add: tally_def)
    then show ?thesis using step Inr assms(2) auth by (cases rotated) (auto simp: attempt_result_def)
  qed
qed

lemma response_error_result:
  assumes "response_error re rx e t ad permit pa dl status obs l = (s, l')"
  shows "attempt_result re rx t l s l'"
proof -
  obtain f0 eb where c: "classify_response re e t ad dl status = (f0, eb)" using prod.exhaust by blast
  define f where "f = apply_header_reset_to_rate_limit (ae_wall e 12) f0 obs"
  define l1 where "l1 = observe_failure_quota e t f (finish_traffic t (uf_kind f) (ae_inst e 7) permit l)"
  obtain tr l2 where fc: "fail_circuit e t f pa l1 = (tr, l2)" using prod.exhaust by blast
  define l3 where "l3 = record_flight rx (ae_ms e 12) ''upstream_error''
                 (''HTTP '' @ show_nat status @ '' '' @ failure_kind_debug (uf_kind f)) l2"
  obtain r l4 where aa: "after_auth_error re rx e t (uf_kind f) tr l3 = (r, l4)" using prod.exhaust by blast
  have l3: "tally l3 = tally l" using tally_fail_circuit [OF fc] by (simp add: l1_def l3_def)
  note step = assms [unfolded response_error_def Let_def c prod.case f_def [symmetric] l1_def [symmetric] fc l3_def [symmetric] aa]
  show ?thesis
  proof (cases r)
    case (Inl s0)
    then show ?thesis using step after_auth_error_result [OF aa l3] by simp
  next
    case (Inr u)
    then have "tally l4 = tally l" using after_auth_error_result [OF aa l3] by simp
    then show ?thesis using step Inr by - (simp, erule conclude_attempt, simp)
  qed
qed

lemma handle_response_result:
  "handle_response re rx e t ad req pt permit pa dl r l = (s, l') \<Longrightarrow> attempt_result re rx t l s l'"
  unfolding handle_response_def Let_def
  by (auto split: prod.splits if_splits sum.splits
      dest!: response_invalid_result response_valid_result response_error_result elim!: attempt_result_tally [rotated])

lemma begin_dispatch_tally:
  "tally (begin_dispatch re rx e t prof probing pt l) = (Suc (ls_attempts_done l), ls_auth_retried l, ls_sends l @ [t])"
  by (simp add: begin_dispatch_def Let_def) (simp add: tally_def)

lemma send_attempt_result:
  assumes "send_attempt re rx e t pa cred req probing pt permit slot l = (s, l')"
  shows "\<exists>l1. tally l1 = (Suc (ls_attempts_done l), ls_auth_retried l, ls_sends l @ [t]) \<and> attempt_result re rx t l1 s l'"
proof -
  let ?l1 = "begin_dispatch re rx e t (fst pa) probing pt l"
  obtain r l2 where d: "dispatch re rx e (snd pa) (upstream_ctx re t (fst pa) cred) req pt ?l1 = (r, l2)"
    using prod.exhaust by blast
  have "tally l2 = tally ?l1" using d by (auto simp: dispatch_def Let_def split: prod.splits)
  then have l2: "tally l2 = (Suc (ls_attempts_done l), ls_auth_retried l, ls_sends l @ [t])"
    by (simp add: begin_dispatch_tally)
  have "attempt_result re rx t l2 s l'"
    using assms d by (cases r) (auto simp: send_attempt_def Let_def dest: connect_failed_result handle_response_result)
  with l2 show ?thesis by blast
qed

text \<open>
  One iteration: either it ends before a send and changes no counter, or it sends to its target, within the limit,
  and goes on as an attempt does.
\<close>

lemma bind_Inl: "phase_bind p f = (Inl s, l') \<Longrightarrow>
    p = (Inl s, l') \<or> (\<exists>x l1. p = (Inr x, l1) \<and> f x l1 = (Inl s, l'))"
  by (auto simp: phase_bind_def split: prod.splits sum.splits)

lemma bind_Inr: "phase_bind p f = (Inr y, l') \<Longrightarrow> \<exists>x l1. p = (Inr x, l1) \<and> f x l1 = (Inr y, l')"
  by (auto simp: phase_bind_def split: prod.splits sum.splits)

lemma quiet_before_send: "quiet_phase l (before_send re rx e t l)"
  unfolding before_send_def
  by (intro quiet_phase_bind quiet_admit quiet_soft_quota quiet_select quiet_circuit quiet_credential quiet_prepare
      quiet_check quiet_acquire quiet_reserve) simp_all

lemma before_send_admits:
  "before_send re rx e t l = (Inr x, l') \<Longrightarrow> ls_attempts_done l < rx_max_attempts rx"
  unfolding before_send_def
  by (drule bind_Inr) (auto simp: admit_target_def Let_def split: if_splits)

lemma attempt_target_result:
  assumes "attempt_target re rx e t l = (s, l')"
  shows "tally l' = tally l \<and> quiet_step s \<or>
    ls_attempts_done l < rx_max_attempts rx \<and>
    (\<exists>l1. tally l1 = (Suc (ls_attempts_done l), ls_auth_retried l, ls_sends l @ [t]) \<and> attempt_result re rx t l1 s l')"
proof -
  obtain r l0 where b: "before_send re rx e t l = (r, l0)" using prod.exhaust by blast
  have c: "core l0 = core l" "case r of Inl s \<Rightarrow> quiet_step s | Inr _ \<Rightarrow> True"
    using quiet_before_send [of l re rx e t] by (simp_all add: b quiet_phase_def)
  show ?thesis
  proof (cases r)
    case (Inl s0)
    then show ?thesis using assms b c tally_core [OF c(1)] by (auto simp: attempt_target_def)
  next
    case (Inr x)
    obtain pa cred req probing pt permit slot where x: "x = (pa, cred, req, probing, pt, permit, slot)"
      by (metis surj_pair)
    have "send_attempt re rx e t pa cred req probing pt permit slot l0 = (s, l')"
      using assms b Inr x by (simp add: attempt_target_def)
    from send_attempt_result [OF this] show ?thesis
      using before_send_admits [OF b [unfolded Inr]] core_eqD [OF c(1)] by auto
  qed
qed

section \<open>The loop over the candidates\<close>

text \<open>
  The queue of candidates: an iteration goes on with the next one or, after a renewed credential, with the same one.
  \<open>None\<close>: every candidate was used up, or time or attempts ran out.
\<close>

lemma attempt_target_retried:
  "attempt_target re rx e t l = (s, l') \<Longrightarrow>
   (case s of Same_Target \<Rightarrow> ac_id (rs_account t) \<notin> ls_auth_retried l \<and>
                ls_auth_retried l' = insert (ac_id (rs_account t)) (ls_auth_retried l)
    | _ \<Rightarrow> ls_auth_retried l' = ls_auth_retried l)"
  by (drule attempt_target_result) (auto simp: attempt_result_def tally_def quiet_step_def split: step.splits)

function attempt_loop ::
  "request_env \<Rightarrow> request_ctx \<Rightarrow> (nat \<Rightarrow> attempt_env) \<Rightarrow> nat \<Rightarrow> resolved_target list \<Rightarrow> loop_state
    \<Rightarrow> (proxy_error + attempt) option \<times> loop_state" where
  "attempt_loop re rx env i [] l = (None, l)"
| "attempt_loop re rx env i (t # ts) l =
     (case attempt_target re rx (env i) t l of
        (Next_Target, l') \<Rightarrow> attempt_loop re rx env (Suc i) ts l'
      | (Same_Target, l') \<Rightarrow> attempt_loop re rx env (Suc i) (t # ts) l'
      | (Stop_Loop, l') \<Rightarrow> (None, l')
      | (Failed err, l') \<Rightarrow> (Some (Inl err), l')
      | (Answered a, l') \<Rightarrow> (Some (Inr a), l'))"
  by pat_completeness auto

definition account_ids :: "resolved_target list \<Rightarrow> string set" where
  "account_ids ts = (\<lambda>t. ac_id (rs_account t)) ` set ts"

lemma account_ids_simps [simp]:
  "account_ids [] = {}" "account_ids (t # ts) = insert (ac_id (rs_account t)) (account_ids ts)" "finite (account_ids ts)"
  by (simp_all add: account_ids_def)

text \<open>Every iteration uses up a candidate or an account's one renewal.\<close>

definition iterations_left :: "resolved_target list \<Rightarrow> loop_state \<Rightarrow> nat" where
  "iterations_left ts l = length ts + card (account_ids ts - ls_auth_retried l)"

lemma iterations_left_next:
  "attempt_target re rx e t l = (Next_Target, l') \<Longrightarrow> iterations_left ts l' < iterations_left (t # ts) l"
  using attempt_target_retried [of re rx e t l Next_Target l']
  by (auto simp: iterations_left_def intro!: le_imp_less_Suc add_mono card_mono)

lemma iterations_left_same:
  assumes "attempt_target re rx e t l = (Same_Target, l')"
  shows "iterations_left (t # ts) l' < iterations_left (t # ts) l"
proof -
  have "ac_id (rs_account t) \<notin> ls_auth_retried l"
    "ls_auth_retried l' = insert (ac_id (rs_account t)) (ls_auth_retried l)"
    using attempt_target_retried [OF assms] by simp_all
  then have "account_ids (t # ts) - ls_auth_retried l' \<subset> account_ids (t # ts) - ls_auth_retried l" by auto
  then show ?thesis by (simp add: iterations_left_def psubset_card_mono)
qed

termination attempt_loop
  by (relation "measure (\<lambda>(re, rx, env, i, ts, l). iterations_left ts l)")
     (simp_all add: iterations_left_next iterations_left_same)

declare attempt_loop.simps(2) [simp del]

text \<open>
  The loop reads its surroundings a bounded number of times: what would be supplied to later iterations is never asked for.
\<close>

lemma attempt_loop_reads:
  "(\<And>j. i \<le> j \<Longrightarrow> j < i + iterations_left ts l \<Longrightarrow> env j = env' j) \<Longrightarrow>
   attempt_loop re rx env i ts l = attempt_loop re rx env' i ts l"
proof (induction re rx env i ts l rule: attempt_loop.induct)
  case (2 re rx env i t ts l)
  have pos: "0 < iterations_left (t # ts) l" by (simp add: iterations_left_def)
  then have e: "env i = env' i" using 2(3) [of i] by simp
  obtain s l' where a: "attempt_target re rx (env i) t l = (s, l')" using prod.exhaust by blast
  have step: "(\<And>j. Suc i \<le> j \<Longrightarrow> j < Suc i + iterations_left us l' \<Longrightarrow> env j = env' j)"
    if "iterations_left us l' < iterations_left (t # ts) l" for us
    using 2(3) that by simp
  show ?case
  proof (cases s)
    case Next_Target
    then have "attempt_loop re rx env (Suc i) ts l' = attempt_loop re rx env' (Suc i) ts l'"
      using 2(1) [OF a [symmetric]] step iterations_left_next a by blast
    then show ?thesis using a e Next_Target by (simp add: attempt_loop.simps(2))
  next
    case Same_Target
    then have "attempt_loop re rx env (Suc i) (t # ts) l' = attempt_loop re rx env' (Suc i) (t # ts) l'"
      using 2(2) [OF a [symmetric]] step iterations_left_same a by blast
    then show ?thesis using a e Same_Target by (simp add: attempt_loop.simps(2))
  qed (use a e in \<open>simp_all add: attempt_loop.simps(2)\<close>)
qed simp

text \<open>How often each candidate is sent to, in the order of the candidates.\<close>

definition sends_in_order :: "resolved_target list \<Rightarrow> nat list \<Rightarrow> resolved_target list" where
  "sends_in_order ts ks = concat (map2 (\<lambda>t k. replicate k t) ts ks)"

lemma sends_in_order_simps [simp]:
  "sends_in_order [] ks = []" "sends_in_order (t # ts) (k # ks) = replicate k t @ sends_in_order ts ks"
  by (simp_all add: sends_in_order_def)

definition send_limit :: "string set \<Rightarrow> resolved_target \<Rightarrow> nat" where
  "send_limit retried t = (if ac_id (rs_account t) \<in> retried then 1 else 2)"

definition counts_ok :: "string set \<Rightarrow> resolved_target list \<Rightarrow> nat list \<Rightarrow> bool" where
  "counts_ok retried ts ks \<longleftrightarrow> list_all2 (\<lambda>t k. k \<le> send_limit retried t) ts ks"

lemma counts_ok_zero: "counts_ok retried ts (replicate (length ts) 0)"
  by (simp add: counts_ok_def list_all2_conv_all_nth)

lemma sends_zero: "sends_in_order ts (replicate (length ts) 0) = []"
  by (induction ts) simp_all

lemma counts_ok_mono: "retried \<subseteq> retried' \<Longrightarrow> counts_ok retried' ts ks \<Longrightarrow> counts_ok retried ts ks"
  unfolding counts_ok_def by (erule list_all2_mono) (auto simp: send_limit_def split: if_splits)

text \<open>What a run of the loop adds to the state it starts from.\<close>

definition loop_run ::
  "request_ctx \<Rightarrow> resolved_target list \<Rightarrow> loop_state \<Rightarrow> (proxy_error + attempt) option \<Rightarrow> loop_state \<Rightarrow> bool" where
  "loop_run rx ts l r l' \<longleftrightarrow>
     (\<exists>ks. counts_ok (ls_auth_retried l) ts ks \<and> ls_sends l' = ls_sends l @ sends_in_order ts ks \<and>
        ls_auth_retried l \<subseteq> ls_auth_retried l' \<and> ls_auth_retried l' \<subseteq> ls_auth_retried l \<union> account_ids ts \<and>
        sum_list ks + ls_attempts_done l = ls_attempts_done l' + card (ls_auth_retried l' - ls_auth_retried l) \<and>
        (case r of Some (Inr a) \<Rightarrow> ls_sends l' \<noteq> [] \<and> last (ls_sends l') = at_target a | _ \<Rightarrow> True) \<and>
        ls_attempts_done l' \<le> max (ls_attempts_done l) (if rx_allow_fallback rx then rx_max_attempts rx else 1))"

lemma loop_run_unsent:
  assumes "tally l' = tally l"
  shows "loop_run rx ts l None l'" "loop_run rx ts l (Some (Inl err)) l'"
  using assms counts_ok_zero sends_zero
  by (auto simp: loop_run_def tally_def sum_list_replicate intro!: exI [of _ "replicate (length ts) 0"])

lemma loop_run_skip: "tally l1 = tally l \<Longrightarrow> loop_run rx ts l1 r l' \<Longrightarrow> loop_run rx (t # ts) l r l'"
proof -
  assume t: "tally l1 = tally l" and run: "loop_run rx ts l1 r l'"
  then obtain ks where "counts_ok (ls_auth_retried l) ts ks" "ls_sends l' = ls_sends l @ sends_in_order ts ks"
    "sum_list ks + ls_attempts_done l = ls_attempts_done l' + card (ls_auth_retried l' - ls_auth_retried l)"
    by (auto simp: loop_run_def tally_def)
  then show ?thesis using t run unfolding loop_run_def
    by (intro exI [of _ "0 # ks"]) (auto simp: counts_ok_def tally_def)
qed

lemma loop_run_sent:
  assumes "tally l1 = (Suc (ls_attempts_done l), ls_auth_retried l, ls_sends l @ [t])" "loop_run rx ts l1 r l'"
    and "ls_attempts_done l < (if rx_allow_fallback rx then rx_max_attempts rx else 1)"
  shows "loop_run rx (t # ts) l r l'"
proof -
  obtain ks where k: "counts_ok (ls_auth_retried l) ts ks" "ls_sends l' = (ls_sends l @ [t]) @ sends_in_order ts ks"
    "sum_list ks + Suc (ls_attempts_done l) = ls_attempts_done l' + card (ls_auth_retried l' - ls_auth_retried l)"
    using assms(1,2) by (auto simp: loop_run_def tally_def)
  have "ls_attempts_done l' \<le> (if rx_allow_fallback rx then rx_max_attempts rx else 1)"
    using assms by (auto simp: loop_run_def tally_def split: if_splits)
  then show ?thesis using assms(1,2) k unfolding loop_run_def
    by (intro exI [of _ "1 # ks"]) (auto simp: counts_ok_def tally_def send_limit_def)
qed

lemma loop_run_again:
  assumes "tally l1 = (ls_attempts_done l, insert (ac_id (rs_account t)) (ls_auth_retried l), ls_sends l @ [t])"
    and "ac_id (rs_account t) \<notin> ls_auth_retried l" "loop_run rx (t # ts) l1 r l'"
  shows "loop_run rx (t # ts) l r l'"
proof -
  let ?a = "ac_id (rs_account t)" and ?R = "ls_auth_retried l" and ?R' = "ls_auth_retried l'"
  obtain ks where k: "counts_ok (insert ?a ?R) (t # ts) ks" "ls_sends l' = (ls_sends l @ [t]) @ sends_in_order (t # ts) ks"
    "insert ?a ?R \<subseteq> ?R'" "?R' \<subseteq> insert ?a ?R \<union> account_ids (t # ts)"
    "sum_list ks + ls_attempts_done l = ls_attempts_done l' + card (?R' - insert ?a ?R)"
    "case r of Some (Inr a) \<Rightarrow> ls_sends l' \<noteq> [] \<and> last (ls_sends l') = at_target a | _ \<Rightarrow> True"
    "ls_attempts_done l' \<le> max (ls_attempts_done l) (if rx_allow_fallback rx then rx_max_attempts rx else 1)"
    using assms(1,3) by (auto simp: loop_run_def tally_def)
  obtain n ks' where ks: "ks = n # ks'" "n \<le> 1" "counts_ok (insert ?a ?R) ts ks'"
    using k(1) by (auto simp: counts_ok_def send_limit_def list_all2_Cons1)
  have ok: "counts_ok ?R (t # ts) (Suc n # ks')"
    using ks counts_ok_mono [OF subset_insertI ks(3)] assms(2) by (simp add: counts_ok_def send_limit_def)
  have "?R' - insert ?a ?R = (?R' - ?R) - {?a}" by auto
  moreover have "finite (?R' - ?R)" using k(4) by (rule_tac finite_subset [of _ "account_ids (t # ts)"]) auto
  moreover have "?a \<in> ?R' - ?R" using k(3) assms(2) by auto
  ultimately have "card (?R' - ?R) = Suc (card (?R' - insert ?a ?R))" by (metis card.remove)
  then show ?thesis using k ks(1) ok unfolding loop_run_def
    by (intro exI [of _ "Suc n # ks'"]) (auto simp: replicate_append_same)
qed

lemma attempt_loop_step:
  assumes "attempt_target re rx (env i) t l = (s, l1)"
  shows "attempt_loop re rx env i (t # ts) l =
    (case s of
       Next_Target \<Rightarrow> attempt_loop re rx env (Suc i) ts l1
     | Same_Target \<Rightarrow> attempt_loop re rx env (Suc i) (t # ts) l1
     | Stop_Loop \<Rightarrow> (None, l1)
     | Failed err \<Rightarrow> (Some (Inl err), l1)
     | Answered a \<Rightarrow> (Some (Inr a), l1))"
  by (subst attempt_loop.simps(2)) (simp add: assms split: step.split)

lemma attempt_loop_run:
  "attempt_loop re rx env i ts l = (r, l') \<Longrightarrow> rx_allow_fallback rx \<or> ls_attempts_done l = 0 \<Longrightarrow> loop_run rx ts l r l'"
proof (induction re rx env i ts l arbitrary: r l' rule: attempt_loop.induct)
  case (1 re rx env i l)
  then show ?case using loop_run_unsent(1) [of l l rx "[]"] by simp
next
  case (2 re rx env i t ts l)
  obtain s l1 where a: "attempt_target re rx (env i) t l = (s, l1)" using prod.exhaust by blast
  note loop = trans [OF attempt_loop_step [where env = env and i = i, OF a, symmetric] 2(3)]
  consider (quiet) "tally l1 = tally l" "quiet_step s"
    | (sent) l0 where "ls_attempts_done l < rx_max_attempts rx"
      "tally l0 = (Suc (ls_attempts_done l), ls_auth_retried l, ls_sends l @ [t])" "attempt_result re rx t l0 s l1"
    using attempt_target_result [OF a] by blast
  then show ?case
  proof cases
    case quiet
    show ?thesis
    proof (cases s)
      case Next_Target
      then have "loop_run rx ts l1 r l'" using 2(1) [OF a [symmetric]] loop quiet 2(4) by (simp add: tally_def)
      then show ?thesis by (rule loop_run_skip [OF quiet(1)])
    qed (use quiet loop in \<open>auto intro: loop_run_unsent\<close>)
  next
    case sent
    have lim: "ls_attempts_done l < (if rx_allow_fallback rx then rx_max_attempts rx else 1)"
      using sent(1) 2(4) by auto
    show ?thesis
    proof (cases s)
      case Next_Target
      then have t: "tally l1 = tally l0" and fb: "rx_allow_fallback rx"
        using sent(3) by (auto simp: attempt_result_def can_fallback_def)
      have "loop_run rx ts l1 r l'" using 2(1) [OF a [symmetric] Next_Target] loop Next_Target fb by simp
      then show ?thesis using loop_run_sent [OF t [unfolded sent(2)]] lim by blast
    next
      case Same_Target
      have t: "tally l1 = (ls_attempts_done l, insert (ac_id (rs_account t)) (ls_auth_retried l), ls_sends l @ [t])"
        and new: "ac_id (rs_account t) \<notin> ls_auth_retried l"
        using sent(2,3) Same_Target by (auto simp: attempt_result_def tally_def)
      have "loop_run rx (t # ts) l1 r l'"
        using 2(2) [OF a [symmetric] Same_Target] loop Same_Target t 2(4) by (auto simp: tally_def)
      then show ?thesis by (rule loop_run_again [OF t new])
    next
      case (Failed err)
      then have "tally l1 = tally l0" using sent(3) by (simp add: attempt_result_def)
      then have "loop_run rx ts l1 (Some (Inl err)) l1" by (intro loop_run_unsent) simp
      then show ?thesis using loop_run_sent [of l1 l t rx ts _ l'] lim sent(2) \<open>tally l1 = tally l0\<close> loop Failed by simp
    next
      case (Answered ans)
      then have t: "tally l1 = tally l0" and tg: "at_target ans = t" using sent(3) by (simp_all add: attempt_result_def)
      have "loop_run rx ts l1 (Some (Inr ans)) l1"
        using loop_run_unsent(1) [of l1 l1 rx ts] t tg sent(2) by (auto simp: loop_run_def tally_def)
      then show ?thesis using loop_run_sent [of l1 l t rx ts _ l'] lim sent(2) t loop Answered by simp
    qed (use sent(3) in \<open>simp add: attempt_result_def\<close>)
  qed
qed

end
