(* ===== verification/Responses_Frontend.thy ===== *)
theory Responses_Frontend
  imports OpenAI_Frontend
begin

text \<open>
  The OpenAI Responses frontend (\<^verbatim>\<open>src/src/frontends/responses.rs\<close>): the validation of the supported subset, decoding,
  the streaming encoder with its numbered events, and the aggregated response object. A check of the request is the
  error it finds, and the checks of a group are tried in the order of the code.
\<close>

section \<open>The supported subset\<close>

fun first_error :: "'e option list \<Rightarrow> 'e option" where
  "first_error [] = None"
| "first_error (e # es) = (case e of None \<Rightarrow> first_error es | Some x \<Rightarrow> Some x)"

definition reject_when :: "bool \<Rightarrow> proxy_error \<Rightarrow> proxy_error option" where
  "reject_when c e = (if c then Some e else None)"

fun is_boolean :: "json \<Rightarrow> bool" where
  "is_boolean (JBool _) \<longleftrightarrow> True"
| "is_boolean _ \<longleftrightarrow> False"

fun is_string :: "json \<Rightarrow> bool" where
  "is_string (JString _) \<longleftrightarrow> True"
| "is_string _ \<longleftrightarrow> False"

fun is_number :: "json \<Rightarrow> bool" where
  "is_number (JNumber _) \<longleftrightarrow> True"
| "is_number _ \<longleftrightarrow> False"

abbreviation api_field :: "string \<Rightarrow> string \<Rightarrow> string" where
  "api_field key rest \<equiv> ''Responses API '' @ quoted key @ rest"

definition RESPONSES_SUPPORTED :: "string list" where
  "RESPONSES_SUPPORTED = [''model'', ''input'', ''instructions'', ''tools'', ''tool_choice'', ''temperature'', ''top_p'',
     ''top_k'', ''max_output_tokens'', ''max_tokens'', ''presence_penalty'', ''frequency_penalty'', ''stream'',
     ''reasoning'', ''reasoning_effort'', ''prompt_cache_key'', ''store'', ''background'', ''text'', ''stream_options'',
     ''truncation'', ''parallel_tool_calls'', ''metadata'', ''include'']"

definition check_fields :: "(string \<times> json) list \<Rightarrow> proxy_error option" where
  "check_fields obj =
     first_error (map (\<lambda>(key, _). reject_when (key \<notin> set RESPONSES_SUPPORTED)
       (pe_unsupported (''Responses API field '' @ quoted key @ '' is not supported by Kinetix'' @ [CHR 0x27] @
          ''s translated subset''))) obj)"

definition check_types :: "(string \<times> json) list \<Rightarrow> proxy_error option" where
  "check_types obj =
     (let wrong = (\<lambda>ok key what. reject_when (is_some_and (\<lambda>v. \<not> ok v) (map_of obj key))
            (pe_bad_request (api_field key what)))
      in first_error
        ([wrong is_boolean ''stream'' '' must be boolean'', wrong is_string ''prompt_cache_key'' '' must be a string''] @
         map (\<lambda>key. wrong is_boolean key '' must be boolean'') [''store'', ''background''] @
         map (\<lambda>key. wrong is_number key '' must be numeric'')
           [''temperature'', ''top_p'', ''top_k'', ''presence_penalty'', ''frequency_penalty''] @
         map (\<lambda>key. wrong (\<lambda>v. as_u64 v \<noteq> None) key '' must be a non-negative integer'')
           [''max_output_tokens'', ''max_tokens'']))"

definition check_unsupported :: "(string \<times> json) list \<Rightarrow> proxy_error option" where
  "check_unsupported obj = first_error
     [reject_when (Option.bind (map_of obj ''store'') as_bool = Some True)
        (pe_unsupported (api_field ''store: true'' '' is unsupported; Kinetix does not persist response objects'')),
      reject_when (Option.bind (map_of obj ''background'') as_bool = Some True)
        (pe_unsupported ''Responses API background mode is unsupported''),
      reject_when (map_of obj ''parallel_tool_calls'' \<noteq> None)
        (pe_unsupported (api_field ''parallel_tool_calls'' '' is not enforceable on translated upstreams'')),
      reject_when (map_of obj ''metadata'' \<noteq> None)
        (pe_unsupported ''Responses API response metadata storage is unsupported''),
      (case map_of obj ''include'' of
         None \<Rightarrow> None
       | Some inc \<Rightarrow> (case as_array inc of
           None \<Rightarrow> Some (pe_bad_request (api_field ''include'' '' must be an array''))
         | Some items \<Rightarrow> reject_when (items \<noteq> []) (pe_unsupported (api_field ''include'' '' expansions are unsupported'')))),
      reject_when (is_some_and (\<lambda>t. t \<noteq> ''disabled'') (field_str obj ''truncation''))
        (pe_unsupported (''Responses API automatic truncation is unsupported; only '' @ quoted ''disabled'' @ '' is accepted''))]"

definition only_key :: "string \<Rightarrow> (string \<Rightarrow> string) \<Rightarrow> (string \<times> json) list \<Rightarrow> proxy_error option" where
  "only_key allowed what fs = first_error (map (\<lambda>(key, _). reject_when (key \<noteq> allowed) (pe_unsupported (what key))) fs)"

definition check_format :: "json \<Rightarrow> proxy_error option" where
  "check_format v =
     (case as_object v of
        None \<Rightarrow> Some (pe_bad_request (api_field ''text.format'' '' must be an object''))
      | Some fs \<Rightarrow> first_error
          [only_key ''type'' (\<lambda>key. ''Responses API text.format.'' @ key @ '' is unsupported'') fs,
           reject_when (unwrap_or (field_str fs ''type'') ''text'' \<noteq> ''text'')
             (pe_unsupported ''Responses API structured text.format is unsupported on translated upstreams'')])"

definition check_text :: "json \<Rightarrow> proxy_error option" where
  "check_text v =
     (case as_object v of
        None \<Rightarrow> Some (pe_bad_request (api_field ''text'' '' must be an object''))
      | Some fs \<Rightarrow> first_error
          [only_key ''format'' (\<lambda>key. ''Responses API text.'' @ key @ '' is unsupported'') fs,
           Option.bind (map_of fs ''format'') check_format])"

definition check_stream_options :: "json \<Rightarrow> proxy_error option" where
  "check_stream_options v =
     (case as_object v of
        None \<Rightarrow> Some (pe_bad_request (api_field ''stream_options'' '' must be an object''))
      | Some fs \<Rightarrow> first_error (map (\<lambda>(key, x).
          if key = ''include_obfuscation''
          then reject_when (as_bool x \<noteq> Some False) (pe_unsupported ''Responses API stream obfuscation is unsupported'')
          else Some (pe_unsupported (''Responses API stream_options.'' @ key @ '' is unsupported''))) fs))"

definition check_effort :: "string \<Rightarrow> json \<Rightarrow> proxy_error option" where
  "check_effort field v =
     (case as_str v of
        None \<Rightarrow> Some (pe_bad_request (''Responses API '' @ field @ '' must be a string''))
      | Some effort \<Rightarrow> reject_when (map_reasoning_effort effort = None)
          (pe_unsupported (''Responses API reasoning effort '' @ quoted effort @ '' is unsupported'')))"

definition check_reasoning :: "json \<Rightarrow> proxy_error option" where
  "check_reasoning v =
     (case as_object v of
        None \<Rightarrow> Some (pe_bad_request (api_field ''reasoning'' '' must be an object''))
      | Some fs \<Rightarrow> first_error
          [only_key ''effort'' (\<lambda>key. ''Responses API reasoning.'' @ key @
             '' is unsupported; only reasoning.effort is translated'') fs,
           Option.bind (map_of fs ''effort'') (check_effort ''reasoning.effort'')])"

definition check_tool_choice :: "json \<Rightarrow> proxy_error option" where
  "check_tool_choice v =
     (let bad = pe_unsupported ''Responses API tool_choice supports only auto/none/required or a named function''
      in case v of
           JString s \<Rightarrow> reject_when (s \<notin> {''auto'', ''none'', ''required''}) bad
         | JObject fs \<Rightarrow> reject_when (\<not> (field_str fs ''type'' = Some ''function'' \<and>
             is_some_and (\<lambda>n. n \<noteq> []) (field_str fs ''name'') \<and> list_all (\<lambda>(key, _). key = ''type'' \<or> key = ''name'') fs)) bad
         | JNull \<Rightarrow> None
         | _ \<Rightarrow> Some bad)"

text \<open>Nested content. The inspection of message content and the decoding of parts and tools are those of the chat frontend.\<close>

definition responses_content_issues :: "string \<Rightarrow> json option \<Rightarrow> bool \<Rightarrow> string list" where
  "responses_content_issues = openai_content_issues"

definition responses_item_issues :: "nat \<Rightarrow> json \<Rightarrow> string list" where
  "responses_item_issues i item =
     (let kind = unwrap_or (get_str item ''type'') []; at_i = ''input['' @ show_nat i @ '']''
      in if kind \<in> {''function_call'', ''function_call_output''} then []
         else if kind \<in> {[], ''message''}
         then let role = unwrap_or (get_str item ''role'') ''user''
              in (if role \<in> {''system'', ''developer'', ''user'', ''assistant'', ''tool''} then []
                  else [at_i @ '' has unsupported role '' @ quoted role]) @
                 responses_content_issues (at_i @ ''.content'') (json_get item ''content'')
                   (role \<in> {''system'', ''developer'', ''tool''})
         else [at_i @ '' type '' @ quoted kind @ '' has no canonical cross-format representation''])"

definition object_keys :: "json \<Rightarrow> string list" where
  "object_keys v = (case as_object v of None \<Rightarrow> [] | Some fs \<Rightarrow> map fst fs)"

definition responses_tool_issues :: "nat \<Rightarrow> json \<Rightarrow> string list" where
  "responses_tool_issues i t =
     (let kind = unwrap_or (get_str t ''type'') ''function''; at_i = ''tools['' @ show_nat i @ '']'';
          odd = (\<lambda>key. at_i @ ''.'' @ key @ '' has unsupported function-tool semantics'');
          func = unwrap_or (json_get t ''function'') t
      in if kind \<noteq> ''function'' then [at_i @ '' type '' @ quoted kind @ '' has no canonical cross-format representation'']
         else (if json_get t ''function'' \<noteq> None
               then map odd (filter (\<lambda>key. key \<notin> {''type'', ''function''}) (object_keys t)) else []) @
              (if Option.bind (json_get func ''strict'') as_bool = Some True
               then [at_i @ ''.strict=true cannot be enforced on translated upstreams''] else []) @
              map odd (filter (\<lambda>key. key \<notin> {''type'', ''name'', ''description'', ''parameters'', ''strict'', ''function''})
                (object_keys func)))"

definition responses_nested_issues :: "(string \<times> json) list \<Rightarrow> string list" where
  "responses_nested_issues obj =
     (if is_some_and (\<lambda>v. \<not> is_string v) (map_of obj ''instructions'')
      then [''instructions has a non-text structure that cannot be translated''] else []) @
     (case Option.bind (map_of obj ''input'') as_array of
        None \<Rightarrow> [] | Some items \<Rightarrow> concat (map (\<lambda>(i, item). responses_item_issues i item) (enumerate 0 items))) @
     (case Option.bind (map_of obj ''tools'') as_array of
        None \<Rightarrow> [] | Some ts \<Rightarrow> concat (map (\<lambda>(i, t). responses_tool_issues i t) (enumerate 0 ts)))"

definition validate_supported_subset :: "(string \<times> json) list \<Rightarrow> proxy_error option" where
  "validate_supported_subset obj = first_error
     [check_fields obj, check_types obj, check_unsupported obj,
      Option.bind (map_of obj ''text'') check_text,
      Option.bind (map_of obj ''stream_options'') check_stream_options,
      Option.bind (map_of obj ''reasoning'') check_reasoning,
      Option.bind (map_of obj ''reasoning_effort'') (check_effort ''reasoning_effort''),
      Option.bind (map_of obj ''tool_choice'') check_tool_choice,
      (case responses_nested_issues obj of
         [] \<Rightarrow> None
       | issue # _ \<Rightarrow> Some (pe_unsupported (''Responses API content is outside Kinetix'' @ [CHR 0x27] @
           ''s translated subset: '' @ issue)))]"

section \<open>Decoding\<close>

definition responses_content_as_text :: "json option \<Rightarrow> string option" where
  "responses_content_as_text content =
     (case content of
        Some (JString s) \<Rightarrow> Some s
      | Some (JArray parts) \<Rightarrow> Some (concat (map (\<lambda>p. unwrap_or (get_str p ''text'') []) parts))
      | _ \<Rightarrow> None)"

definition responses_content_parts :: "json option \<Rightarrow> part list" where
  "responses_content_parts = openai_content_parts"

definition responses_tools :: "json option \<Rightarrow> tool_def list" where
  "responses_tools = openai_tools"

definition responses_tool_choice :: "json option \<Rightarrow> tool_choice option \<times> string option" where
  "responses_tool_choice tc =
     (case tc of
        Some (JString s) \<Rightarrow>
          (Some (if s = ''none'' then TC_None else if s = ''required'' then TC_Required else TC_Auto), None)
      | Some (JObject obj) \<Rightarrow>
          (Some TC_Specific,
           Option.bind (opt_or (map_of obj ''name'') (Option.bind (map_of obj ''function'') (\<lambda>f. json_get f ''name''))) as_str)
      | _ \<Rightarrow> (Some TC_Auto, None))"

abbreviation nonempty :: "string option \<Rightarrow> string option" where
  "nonempty \<equiv> opt_filter (\<lambda>s. s \<noteq> [])"

definition printed_or :: "codec \<Rightarrow> string \<Rightarrow> json option \<Rightarrow> string" where
  "printed_or cd missing v = (case v of None \<Rightarrow> missing | Some (JString s) \<Rightarrow> s | Some other \<Rightarrow> ser_value cd other)"

definition responses_function_call :: "codec \<Rightarrow> json \<Rightarrow> proxy_error + message" where
  "responses_function_call cd item =
     (case nonempty (Option.bind (opt_or (json_get item ''call_id'') (json_get item ''id'')) as_str) of
        None \<Rightarrow> Inl (pe_bad_request ''Responses function_call requires a non-empty call_id'')
      | Some call_id \<Rightarrow>
          (case nonempty (get_str item ''name'') of
             None \<Rightarrow> Inl (pe_bad_request ''Responses function_call requires a non-empty name'')
           | Some name \<Rightarrow> Inr \<lparr>msg_role = Assistant, msg_parts = [ToolCall (Some call_id) name
               (printed_or cd ''{}'' (json_get item ''arguments'')) None]\<rparr>))"

definition responses_call_output :: "codec \<Rightarrow> json \<Rightarrow> proxy_error + message" where
  "responses_call_output cd item =
     (case nonempty (get_str item ''call_id'') of
        None \<Rightarrow> Inl (pe_bad_request ''Responses function_call_output requires a non-empty call_id'')
      | Some call_id \<Rightarrow> Inr \<lparr>msg_role = Tool,
          msg_parts = [ToolResult call_id None (printed_or cd [] (json_get item ''output'')) False]\<rparr>)"

definition responses_message :: "codec \<Rightarrow> json \<Rightarrow> string list \<times> message list" where
  "responses_message cd item =
     (let role = unwrap_or (get_str item ''role'') ''user''; content = json_get item ''content''
      in if role = ''system'' \<or> role = ''developer''
         then (case responses_content_as_text content of Some t \<Rightarrow> if t = [] then [] else [t] | None \<Rightarrow> [], [])
         else if role = ''user'' then ([], [\<lparr>msg_role = User, msg_parts = responses_content_parts content\<rparr>])
         else if role = ''assistant''
         then ([], [\<lparr>msg_role = Assistant, msg_parts = responses_content_parts content @ openai_tool_calls cd item\<rparr>])
         else if role = ''tool''
         then ([], [\<lparr>msg_role = Tool,
                msg_parts = [ToolResult (unwrap_or (Option.bind (opt_or (json_get item ''tool_call_id'')
                  (json_get item ''call_id'')) as_str) []) None (unwrap_or (responses_content_as_text content) []) False]\<rparr>])
         else ([], []))"

text \<open>One input item: the system texts and messages it adds, or the error that refuses the request.\<close>

definition decode_input_item :: "codec \<Rightarrow> json \<Rightarrow> proxy_error + string list \<times> message list" where
  "decode_input_item cd item =
     (let kind = unwrap_or (get_str item ''type'') []; one = map_sum id (\<lambda>m. ([], [m]))
      in if kind = ''function_call'' then one (responses_function_call cd item)
         else if kind = ''function_call_output'' then one (responses_call_output cd item)
         else Inr (responses_message cd item))"

fun decode_input_items :: "codec \<Rightarrow> json list \<Rightarrow> proxy_error + string list \<times> message list" where
  "decode_input_items cd [] = Inr ([], [])"
| "decode_input_items cd (item # items) =
     (case decode_input_item cd item of
        Inl e \<Rightarrow> Inl e
      | Inr (s, ms) \<Rightarrow>
          (case decode_input_items cd items of
             Inl e \<Rightarrow> Inl e
           | Inr (s', ms') \<Rightarrow> Inr (s @ s', ms @ ms')))"

definition decode_input :: "codec \<Rightarrow> json option \<Rightarrow> proxy_error + string list \<times> message list" where
  "decode_input cd input =
     (case input of
        None \<Rightarrow> Inr ([], [])
      | Some (JString t) \<Rightarrow> Inr ([], if t = [] then [] else [\<lparr>msg_role = User, msg_parts = [Text t]\<rparr>])
      | Some (JArray items) \<Rightarrow> decode_input_items cd items
      | _ \<Rightarrow> Inl (pe_bad_request (quoted ''input'' @ '' must be either a string or an array of items'')))"

definition responses_params :: "(string \<times> json) list \<Rightarrow> sampling_params" where
  "responses_params obj =
     \<lparr>sp_temperature = Option.bind (map_of obj ''temperature'') json_as_f64,
      sp_top_p = Option.bind (map_of obj ''top_p'') json_as_f64,
      sp_top_k = Option.bind (map_of obj ''top_k'') json_as_f64,
      sp_max_tokens = map_option as_u32
        (Option.bind (opt_or (map_of obj ''max_output_tokens'') (map_of obj ''max_tokens'')) as_u64),
      sp_stop = [], sp_seed = None,
      sp_presence_penalty = Option.bind (map_of obj ''presence_penalty'') json_as_f64,
      sp_frequency_penalty = Option.bind (map_of obj ''frequency_penalty'') json_as_f64\<rparr>"

definition responses_instructions :: "(string \<times> json) list \<Rightarrow> string list" where
  "responses_instructions obj =
     (case field_str obj ''instructions'' of Some inst \<Rightarrow> if trim inst = [] then [] else [inst] | None \<Rightarrow> [])"

definition responses_decode_request :: "codec \<Rightarrow> json \<Rightarrow> proxy_error + internal_request" where
  "responses_decode_request cd body =
     (case as_object body of
        None \<Rightarrow> Inl (pe_bad_request ''request body must be a JSON object'')
      | Some obj \<Rightarrow>
     (case validate_supported_subset obj of
        Some e \<Rightarrow> Inl e
      | None \<Rightarrow>
     (case field_str obj ''model'' of
        None \<Rightarrow> Inl (pe_bad_request (''missing required field '' @ quoted ''model''))
      | Some model \<Rightarrow>
     (case decode_input cd (map_of obj ''input'') of
        Inl e \<Rightarrow> Inl e
      | Inr (system, messages) \<Rightarrow>
          let (tc, tc_name) = responses_tool_choice (map_of obj ''tool_choice'');
              (ms, unresolved) = resolve_tool_result_names messages
          in (case unresolved of
                issue # _ \<Rightarrow> Inl (pe_unsupported (''Responses API tool-call state is not translatable: '' @ issue))
              | [] \<Rightarrow> Inr \<lparr>requested_model = model, rq_system = responses_instructions obj @ system, rq_messages = ms,
                  rq_tools = responses_tools (map_of obj ''tools''), rq_tool_choice = tc, rq_tool_choice_name = tc_name,
                  rq_params = responses_params obj,
                  rq_stream = unwrap_or (Option.bind (map_of obj ''stream'') as_bool) False,
                  rq_include_usage = False,
                  rq_thinking = Option.bind (opt_or (Option.bind (map_of obj ''reasoning'') (\<lambda>r. get_str r ''effort''))
                     (field_str obj ''reasoning_effort'')) map_reasoning_effort,
                  rq_extra = (case map_of obj ''prompt_cache_key'' of Some v \<Rightarrow> [(''prompt_cache_key'', v)] | None \<Rightarrow> []),
                  rq_raw_body = Some (ser_value cd body)\<rparr>)))))"

text \<open>What the response echoes of the request.\<close>

definition response_fields_from_request :: "internal_request \<Rightarrow> proxy_error + responses_fields" where
  "response_fields_from_request req =
     (let echo = (\<lambda>tc. Inr \<lparr>rsf_parallel_tool_calls = True, rsf_tool_choice = tc,
            rsf_tools = map (\<lambda>t. JObject ([(''type'', JString ''function''), (''name'', JString (tool_name t)),
              (''parameters'', tool_parameters t)] @
              (case tool_description t of Some d \<Rightarrow> [(''description'', JString d)] | None \<Rightarrow> []))) (rq_tools req)\<rparr>)
      in case unwrap_or (rq_tool_choice req) TC_Auto of
           TC_Auto \<Rightarrow> echo (JString ''auto'')
         | TC_None \<Rightarrow> echo (JString ''none'')
         | TC_Required \<Rightarrow> echo (JString ''required'')
         | TC_Specific \<Rightarrow>
             (case nonempty (rq_tool_choice_name req) of
                None \<Rightarrow> Inl (pe_bad_request ''named Responses tool_choice is missing its function name'')
              | Some name \<Rightarrow> echo (JObject [(''type'', JString ''function''), (''name'', JString name)])))"

section \<open>Terminal states\<close>

datatype terminal_failure = UnsupportedProviderReason | UnstreamableRefusal

datatype responses_terminal = T_Completed | T_Incomplete string | T_Refusal | T_Failed terminal_failure

fun terminal_of :: "finish_reason \<Rightarrow> responses_terminal" where
  "terminal_of Length = T_Incomplete ''max_output_tokens''"
| "terminal_of ContentFilter = T_Incomplete ''content_filter''"
| "terminal_of (OtherReason r) =
     (if r = ''refusal'' then T_Refusal
      else if r = ''steered'' then T_Incomplete ''steered''
      else T_Failed UnsupportedProviderReason)"
| "terminal_of Stop = T_Completed"
| "terminal_of ToolCalls = T_Completed"

definition stream_failure :: "finish_reason \<Rightarrow> bool \<Rightarrow> terminal_failure option" where
  "stream_failure f has_typed_refusal =
     (case terminal_of f of
        T_Failed x \<Rightarrow> Some x
      | T_Refusal \<Rightarrow> if has_typed_refusal then None else Some UnstreamableRefusal
      | _ \<Rightarrow> None)"

definition incomplete_reason :: "finish_reason \<Rightarrow> string option" where
  "incomplete_reason f = (case terminal_of f of T_Incomplete r \<Rightarrow> Some r | _ \<Rightarrow> None)"

definition response_status :: "finish_reason \<Rightarrow> string" where
  "response_status f = (if incomplete_reason f \<noteq> None then ''incomplete'' else ''completed'')"

definition json_or_null :: "json option \<Rightarrow> json" where
  "json_or_null v = unwrap_or v JNull"

definition response_object ::
  "responses_fields \<Rightarrow> string \<Rightarrow> int \<Rightarrow> string \<Rightarrow> string \<Rightarrow> json option \<Rightarrow> json option \<Rightarrow> json list \<Rightarrow> json \<Rightarrow> json" where
  "response_object fs i created model status error incomplete outs u =
     JObject [(''id'', JString i), (''object'', JString ''response''), (''created_at'', json_int created),
       (''model'', JString model), (''status'', JString status), (''error'', json_or_null error),
       (''incomplete_details'', json_or_null incomplete), (''output'', JArray outs), (''usage'', u),
       (''parallel_tool_calls'', JBool (rsf_parallel_tool_calls fs)), (''tool_choice'', rsf_tool_choice fs),
       (''tools'', JArray (rsf_tools fs))]"

definition failed_response :: "responses_fields \<Rightarrow> string \<Rightarrow> int \<Rightarrow> string \<Rightarrow> string \<Rightarrow> json" where
  "failed_response fs i created model message =
     response_object fs i created model ''failed''
       (Some (JObject [(''message'', JString message), (''code'', JString ''server_error'')])) None [] JNull"

fun terminal_message :: "terminal_failure \<Rightarrow> string" where
  "terminal_message UnsupportedProviderReason =
     ''The upstream response used a terminal reason that cannot be represented by the Responses API.''"
| "terminal_message UnstreamableRefusal =
     ''The upstream refusal cannot be represented as typed refusal content on this streaming path.''"

definition responses_usage :: "token_usage option \<Rightarrow> json" where
  "responses_usage u =
     (let get = (\<lambda>f. unwrap_or (Option.bind u f) 0); i = get tu_input; out = get tu_output
      in JObject [(''total_tokens'', jnat (sat_add64 i out)), (''input_tokens'', jnat i),
           (''input_tokens_details'', JObject [(''cached_tokens'', jnat (get tu_cached)),
              (''cache_write_tokens'', jnat (get tu_cache_write))]),
           (''output_tokens'', jnat out),
           (''output_tokens_details'', JObject [(''reasoning_tokens'', jnat (get tu_thinking))])])"

section \<open>Encoding\<close>

record active_tool =
  tl_index :: nat
  tl_call_id :: string
  tl_name :: string
  tl_arguments :: string
  tl_output_index :: nat

record responses_encoder =
  rsp_ctx :: encoder_ctx
  rsp_response_id :: string
  rsp_seq :: nat
  rsp_created_sent :: bool
  rsp_active_text_item :: bool
  rsp_text_item_id :: string
  rsp_text :: string
  rsp_refusal :: string
  rsp_message_is_refusal :: bool
  rsp_active_tools :: "active_tool list"
  rsp_finish_sent :: bool
  rsp_usage :: "token_usage option"

definition responses_encoder_new :: "encoder_ctx \<Rightarrow> responses_encoder" where
  "responses_encoder_new ctx =
     \<lparr>rsp_ctx = ctx, rsp_response_id = ''resp_'' @ compact_id (ec_request_id ctx), rsp_seq = 0, rsp_created_sent = False,
      rsp_active_text_item = False, rsp_text_item_id = ''msg_'' @ compact_id (ec_request_id ctx) @ ''_0'', rsp_text = [],
      rsp_refusal = [], rsp_message_is_refusal = False, rsp_active_tools = [], rsp_finish_sent = False, rsp_usage = None\<rparr>"

type_synonym event_frame = "string \<times> (string \<times> json) list"

text \<open>Events are numbered as they are sent; the type and the number are the last fields of their object.\<close>

fun number_frames :: "event_frame list \<Rightarrow> responses_encoder \<Rightarrow> event_frame list \<times> responses_encoder" where
  "number_frames [] e = ([], e)"
| "number_frames ((name, fs) # evs) e =
     (let (rest, e') = number_frames evs (e\<lparr>rsp_seq := rsp_seq e + 1\<rparr>)
      in ((name, fs @ [(''type'', JString name), (''sequence_number'', jnat (rsp_seq e))]) # rest, e'))"

definition own_response ::
  "responses_encoder \<Rightarrow> string \<Rightarrow> json option \<Rightarrow> json list \<Rightarrow> json \<Rightarrow> json" where
  "own_response e status incomplete outs u =
     response_object (ec_responses (rsp_ctx e)) (rsp_response_id e) (ec_created (rsp_ctx e)) (ec_model_name (rsp_ctx e))
       status None incomplete outs u"

definition own_failure :: "responses_encoder \<Rightarrow> string \<Rightarrow> json" where
  "own_failure e message =
     failed_response (ec_responses (rsp_ctx e)) (rsp_response_id e) (ec_created (rsp_ctx e)) (ec_model_name (rsp_ctx e)) message"

definition ensure_created :: "responses_encoder \<Rightarrow> event_frame list \<times> responses_encoder" where
  "ensure_created e =
     (if rsp_created_sent e then ([], e)
      else let r = [(''response'', own_response e ''in_progress'' None [] JNull)]
           in number_frames [(''response.created'', r), (''response.in_progress'', r)] (e\<lparr>rsp_created_sent := True\<rparr>))"

definition message_part :: "bool \<Rightarrow> string \<Rightarrow> json" where
  "message_part refusal s =
     (if refusal then JObject [(''type'', JString ''refusal''), (''refusal'', JString s)]
      else JObject [(''type'', JString ''output_text''), (''text'', JString s), (''annotations'', JArray [])])"

definition message_item :: "string \<Rightarrow> string \<Rightarrow> json list \<Rightarrow> json" where
  "message_item i status content =
     JObject [(''id'', JString i), (''type'', JString ''message''), (''role'', JString ''assistant''),
       (''status'', JString status), (''content'', JArray content)]"

definition item_fields :: "responses_encoder \<Rightarrow> nat \<Rightarrow> json \<Rightarrow> (string \<times> json) list" where
  "item_fields e output_index item =
     [(''response_id'', JString (rsp_response_id e)), (''output_index'', jnat output_index), (''item'', item)]"

definition part_fields :: "responses_encoder \<Rightarrow> (string \<times> json) list \<Rightarrow> (string \<times> json) list" where
  "part_fields e extra_fields =
     [(''response_id'', JString (rsp_response_id e)), (''output_index'', jnat 0), (''content_index'', jnat 0),
      (''item_id'', JString (rsp_text_item_id e))] @ extra_fields"

definition ensure_message_item :: "bool \<Rightarrow> responses_encoder \<Rightarrow> event_frame list \<times> responses_encoder" where
  "ensure_message_item refusal e =
     (if rsp_active_text_item e then ([], e)
      else number_frames
             [(''response.output_item.added'', item_fields e 0 (message_item (rsp_text_item_id e) ''in_progress'' [])),
              (''response.content_part.added'', part_fields e [(''part'', message_part refusal [])])]
             (e\<lparr>rsp_active_text_item := True, rsp_message_is_refusal := refusal\<rparr>))"

definition close_text_item :: "string \<Rightarrow> responses_encoder \<Rightarrow> event_frame list \<times> responses_encoder" where
  "close_text_item status e =
     (if \<not> rsp_active_text_item e then ([], e)
      else let refusal = rsp_message_is_refusal e;
               part = message_part refusal (if refusal then rsp_refusal e else rsp_text e)
           in number_frames
                [(if refusal then (''response.refusal.done'', part_fields e [(''refusal'', JString (rsp_refusal e))])
                  else (''response.output_text.done'',
                    part_fields e [(''text'', JString (rsp_text e)), (''logprobs'', JArray [])])),
                 (''response.content_part.done'', part_fields e [(''part'', part)]),
                 (''response.output_item.done'', item_fields e 0 (message_item (rsp_text_item_id e) status [part]))]
                (e\<lparr>rsp_active_text_item := False\<rparr>))"

definition call_item :: "string \<Rightarrow> string \<Rightarrow> string \<Rightarrow> string \<Rightarrow> json" where
  "call_item i name args status =
     JObject [(''id'', JString i), (''type'', JString ''function_call''), (''call_id'', JString i), (''name'', JString name),
       (''arguments'', JString args), (''status'', JString status)]"

definition call_fields :: "responses_encoder \<Rightarrow> nat \<Rightarrow> string \<Rightarrow> (string \<times> json) list \<Rightarrow> (string \<times> json) list" where
  "call_fields e output_index i extra_fields =
     [(''response_id'', JString (rsp_response_id e)), (''output_index'', jnat output_index), (''item_id'', JString i),
      (''call_id'', JString i)] @ extra_fields"

text \<open>The first tool of an index takes the arguments.\<close>

fun grow_tool :: "nat \<Rightarrow> string \<Rightarrow> active_tool list \<Rightarrow> active_tool list \<times> active_tool option" where
  "grow_tool index args [] = ([], None)"
| "grow_tool index args (t # ts) =
     (if tl_index t = index then (t\<lparr>tl_arguments := tl_arguments t @ args\<rparr> # ts, Some t)
      else let (ts', r) = grow_tool index args ts in (t # ts', r))"

definition response_output :: "finish_reason \<Rightarrow> responses_encoder \<Rightarrow> json list" where
  "response_output f e =
     (let status = response_status f; none = (rsp_active_tools e = [])
      in (if rsp_text e \<noteq> [] \<or> rsp_refusal e \<noteq> [] \<or> none
          then [message_item (rsp_text_item_id e) status
                 ((if rsp_text e \<noteq> [] \<or> rsp_refusal e = [] \<and> none then [message_part False (rsp_text e)] else []) @
                  (if rsp_refusal e \<noteq> [] then [message_part True (rsp_refusal e)] else []))]
          else []) @
         map (\<lambda>t. call_item (tl_call_id t) (tl_name t) (tl_arguments t) status) (rsp_active_tools e))"

definition build_response_object :: "finish_reason \<Rightarrow> responses_encoder \<Rightarrow> json" where
  "build_response_object f e =
     (case stream_failure f (rsp_refusal e \<noteq> []) of
        Some x \<Rightarrow> own_failure e (terminal_message x)
      | None \<Rightarrow> own_response e (response_status f)
          (map_option (\<lambda>r. JObject [(''reason'', JString r)]) (incomplete_reason f)) (response_output f e)
          (responses_usage (rsp_usage e)))"

definition encode_finish :: "finish_reason \<Rightarrow> responses_encoder \<Rightarrow> event_frame list \<times> responses_encoder" where
  "encode_finish f e0 =
     (let e = e0\<lparr>rsp_finish_sent := True\<rparr>
      in case stream_failure f (rsp_refusal e \<noteq> []) of
           Some x \<Rightarrow>
             (let (c, e1) = ensure_created e;
                  (fs, e2) = number_frames [(''response.failed'', [(''response'', own_failure e1 (terminal_message x))])] e1
              in (c @ fs, e2))
         | None \<Rightarrow>
             (let status = response_status f;
                  (c, e1) = close_text_item status e;
                  (ts, e2) = number_frames (concat (map (\<lambda>t.
                      [(''response.function_call_arguments.done'', call_fields e1 (tl_output_index t) (tl_call_id t)
                          [(''name'', JString (tl_name t)), (''arguments'', JString (tl_arguments t))]),
                       (''response.output_item.done'', item_fields e1 (tl_output_index t)
                          (call_item (tl_call_id t) (tl_name t) (tl_arguments t) status))]) (rsp_active_tools e1))) e1;
                  (fs, e3) = number_frames [(if incomplete_reason f \<noteq> None then ''response.incomplete'' else ''response.completed'',
                      [(''response'', build_response_object f e2)])] e2
              in (c @ ts @ fs, e3)))"

definition start_tool :: "nat \<Rightarrow> string option \<Rightarrow> string \<Rightarrow> responses_encoder \<Rightarrow> event_frame list \<times> responses_encoder" where
  "start_tool index i name e0 =
     (let (c, e1) = ensure_created e0;
          (d, e) = close_text_item ''completed'' e1;
          call_id = unwrap_or i (''call_'' @ rsp_response_id e @ ''_'' @ show_nat index);
          n = length (rsp_active_tools e);
          output_index = (if rsp_text e = [] \<and> rsp_refusal e = [] then n else 1 + n);
          (fs, e') = number_frames
            [(''response.output_item.added'', item_fields e output_index (call_item call_id name [] ''in_progress''))]
            (e\<lparr>rsp_active_tools := rsp_active_tools e @ [\<lparr>tl_index = index, tl_call_id = call_id, tl_name = name,
               tl_arguments = [], tl_output_index = output_index\<rparr>]\<rparr>)
      in (c @ d @ fs, e'))"

definition message_delta ::
  "bool \<Rightarrow> string \<Rightarrow> (string \<times> json) list \<Rightarrow> responses_encoder \<Rightarrow> event_frame list \<times> responses_encoder" where
  "message_delta refusal name extra_fields e0 =
     (let (c, e1) = ensure_created e0; (d, e2) = ensure_message_item refusal e1;
          (fs, e3) = number_frames [(name, part_fields e2 extra_fields)] e2
      in (c @ d @ fs, e3))"

fun responses_encode :: "stream_event \<Rightarrow> responses_encoder \<Rightarrow> event_frame list \<times> responses_encoder" where
  "responses_encode (Start _) e = ensure_created e"
| "responses_encode (TextDelta t) e =
     (let (fs, e') = message_delta False ''response.output_text.delta''
            [(''delta'', JString t), (''logprobs'', JArray [])] e
      in (fs, e'\<lparr>rsp_text := rsp_text e' @ t\<rparr>))"
| "responses_encode (RefusalDelta t) e =
     (let (fs, e') = message_delta True ''response.refusal.delta'' [(''delta'', JString t)] e
      in (fs, e'\<lparr>rsp_refusal := rsp_refusal e' @ t\<rparr>))"
| "responses_encode (ThinkingDelta _ _) e = ([], e)"
| "responses_encode (ToolCallStart index i name _) e = start_tool index i name e"
| "responses_encode (ToolCallArgsDelta index args) e0 =
     (let (c, e) = ensure_created e0; (ts, r) = grow_tool index args (rsp_active_tools e)
      in case r of
           None \<Rightarrow> (c, e)
         | Some t \<Rightarrow>
             (let (fs, e') = number_frames [(''response.function_call_arguments.delta'',
                    call_fields e (tl_output_index t) (tl_call_id t) [(''delta'', JString args)])]
                    (e\<lparr>rsp_active_tools := ts\<rparr>)
              in (c @ fs, e')))"
| "responses_encode (Usage u) e = ([], e\<lparr>rsp_usage := Some u\<rparr>)"
| "responses_encode (stream_event.Finish f) e = encode_finish f e"

definition responses_finalize :: "responses_encoder \<Rightarrow> event_frame list \<times> responses_encoder" where
  "responses_finalize e = (if rsp_finish_sent e then ([], e) else responses_encode (stream_event.Finish Stop) e)"

definition responses_error_frame :: "string \<Rightarrow> responses_encoder \<Rightarrow> event_frame list \<times> responses_encoder" where
  "responses_error_frame message e = number_frames [(''response.failed'', [(''response'', own_failure e message)])] e"

definition event_frames :: "codec \<Rightarrow> event_frame list \<Rightarrow> string list" where
  "event_frames cd = map (\<lambda>(name, fs). sse_frame (Some name) (ser_value cd (JObject fs)))"

section \<open>Aggregation\<close>

record responses_answer =
  ra_text :: string
  ra_refusal :: string
  ra_finish :: finish_reason
  ra_calls :: "(nat \<times> string \<times> string \<times> string) list"

definition responses_answer_empty :: responses_answer where
  "responses_answer_empty = \<lparr>ra_text = [], ra_refusal = [], ra_finish = Stop, ra_calls = []\<rparr>"

fun responses_collect :: "string \<Rightarrow> stream_event \<Rightarrow> responses_answer \<Rightarrow> responses_answer" where
  "responses_collect rid (TextDelta t) a = a\<lparr>ra_text := ra_text a @ t\<rparr>"
| "responses_collect rid (RefusalDelta t) a = a\<lparr>ra_refusal := ra_refusal a @ t\<rparr>"
| "responses_collect rid (stream_event.Finish f) a = a\<lparr>ra_finish := f\<rparr>"
| "responses_collect rid (ToolCallStart index i name _) a =
     a\<lparr>ra_calls := ra_calls a @ [(index, unwrap_or i (''call_'' @ rid @ ''_'' @ show_nat index), name, [])]\<rparr>"
| "responses_collect rid (ToolCallArgsDelta index args) a = a\<lparr>ra_calls := append_args index args (ra_calls a)\<rparr>"
| "responses_collect rid _ a = a"

definition answer_output :: "string \<Rightarrow> string \<Rightarrow> string \<Rightarrow> string \<Rightarrow> (nat \<times> string \<times> string \<times> string) list \<Rightarrow> json list" where
  "answer_output i status t refusal calls =
     (if t \<noteq> [] \<or> refusal \<noteq> [] \<or> calls = []
      then [message_item i status
             ((if t \<noteq> [] \<or> refusal = [] then [message_part False t] else []) @
              (if refusal \<noteq> [] then [message_part True refusal] else []))]
      else []) @
     map (\<lambda>(_, c, name, args). call_item c name (if args = [] then ''{}'' else args) status) calls"

definition aggregate_responses ::
  "int \<Rightarrow> string \<Rightarrow> string \<Rightarrow> stream_event list \<Rightarrow> token_usage \<Rightarrow> responses_fields \<Rightarrow> json" where
  "aggregate_responses created model rid events u echoed =
     (let a = fold (responses_collect rid) events responses_answer_empty;
          response_id = ''resp_'' @ compact_id rid; f = ra_finish a
      in case terminal_of f of
           T_Failed x \<Rightarrow> failed_response echoed response_id created model (terminal_message x)
         | terminal \<Rightarrow>
             (let (t, refusal) = (if terminal = T_Refusal then ([], ra_refusal a @ ra_text a) else (ra_text a, ra_refusal a))
              in response_object echoed response_id created model (response_status f) None
                   (map_option (\<lambda>r. JObject [(''reason'', JString r)]) (incomplete_reason f))
                   (answer_output (''msg_'' @ compact_id rid @ ''_0'') (response_status f) t refusal (ra_calls a))
                   (responses_usage (Some u))))"

section \<open>The events of a stream\<close>

fun responses_run :: "stream_event list \<Rightarrow> responses_encoder \<Rightarrow> event_frame list \<times> responses_encoder" where
  "responses_run [] e = ([], e)"
| "responses_run (ev # evs) e =
     (let (fs, e1) = responses_encode ev e; (gs, e2) = responses_run evs e1 in (fs @ gs, e2))"

text \<open>A stream ends with the terminator, or with an error that interrupts it.\<close>

definition responses_stream :: "encoder_ctx \<Rightarrow> stream_event list \<Rightarrow> string option \<Rightarrow> event_frame list" where
  "responses_stream ctx evs err =
     (let (fs, e) = responses_run evs (responses_encoder_new ctx)
      in fs @ fst (case err of None \<Rightarrow> responses_finalize e | Some message \<Rightarrow> responses_error_frame message e))"

declare number_frames.simps [simp del]

definition stamped :: "responses_encoder \<Rightarrow> event_frame list \<times> responses_encoder \<Rightarrow> bool" where
  "stamped e r \<longleftrightarrow> rsp_seq (snd r) = rsp_seq e + length (fst r) \<and>
     map (last \<circ> snd) (fst r) = map (\<lambda>i. (''sequence_number'', jnat i)) [rsp_seq e..<rsp_seq (snd r)]"

lemma stamped_number:
  "rsp_seq e1 = rsp_seq e \<Longrightarrow> stamped e (number_frames evs e1)"
proof (induction evs arbitrary: e e1)
  case Nil
  then show ?case by (simp add: stamped_def number_frames.simps)
next
  case (Cons ev evs)
  obtain name fs where ev: "ev = (name, fs)" by fastforce
  let ?e = "e1\<lparr>rsp_seq := Suc (rsp_seq e1)\<rparr>"
  obtain gs e2 where g: "number_frames evs ?e = (gs, e2)" by fastforce
  have s: "stamped ?e (gs, e2)" using Cons.IH [of ?e ?e] g by simp
  then have "[rsp_seq e1..<rsp_seq e2] = rsp_seq e1 # [Suc (rsp_seq e1)..<rsp_seq e2]"
    by (simp add: stamped_def upt_conv_Cons del: upt_Suc)
  then show ?case using s Cons.prems [symmetric] by (simp add: ev g stamped_def number_frames.simps)
qed

lemma stamped_nothing: "rsp_seq e1 = rsp_seq e \<Longrightarrow> stamped e ([], e1)"
  by (simp add: stamped_def)

lemma stamped_append:
  assumes "stamped e (fs, e1)" and "stamped e1 (gs, e2)"
  shows "stamped e (fs @ gs, e2)"
proof -
  have "[rsp_seq e..<rsp_seq e2] = [rsp_seq e..<rsp_seq e1] @ [rsp_seq e1..<rsp_seq e2]"
    using assms by (simp add: stamped_def flip: upt_add_eq_append)
  then show ?thesis using assms by (simp add: stamped_def)
qed

lemma stamped_from: "stamped e1 r \<Longrightarrow> rsp_seq e1 = rsp_seq e \<Longrightarrow> stamped e r"
  by (simp add: stamped_def)

lemma stamped_then:
  "stamped e (a @ b, e1) \<Longrightarrow> stamped e1 r \<Longrightarrow> stamped e (case r of (fs, e2) \<Rightarrow> (a @ b @ fs, e2))"
  using stamped_append by (fastforce split: prod.split)

lemma stamped_update:
  "stamped e r \<Longrightarrow> (\<And>e1. rsp_seq (f e1) = rsp_seq e1) \<Longrightarrow> stamped e (case r of (fs, e1) \<Rightarrow> (fs, f e1))"
  by (cases r) (simp add: stamped_def)

lemma stamped_created: "stamped e (ensure_created e)"
  by (simp add: ensure_created_def stamped_nothing stamped_number Let_def)

lemma stamped_item: "stamped e (ensure_message_item r e)"
  by (simp add: ensure_message_item_def stamped_nothing stamped_number)

lemma stamped_close: "stamped e (close_text_item st e)"
  by (simp add: close_text_item_def stamped_nothing stamped_number Let_def)

lemma stamped_delta: "stamped e (message_delta r name xs e)"
proof -
  obtain c e1 where 1: "ensure_created e = (c, e1)" by fastforce
  obtain d e2 where 2: "ensure_message_item r e1 = (d, e2)" by fastforce
  obtain f e3 where 3: "number_frames [(name, part_fields e2 xs)] e2 = (f, e3)" by fastforce
  have "stamped e (c @ d @ f, e3)"
    using stamped_created [of e] stamped_item [of e1 r] stamped_number [of e2 e2] 1 2 3
    by (metis stamped_append)
  then show ?thesis using 3 by (simp add: message_delta_def 1 2)
qed

lemma stamped_start: "stamped e (start_tool index i name e)"
proof -
  obtain c e1 where 1: "ensure_created e = (c, e1)" by fastforce
  obtain d e2 where 2: "close_text_item ''completed'' e1 = (d, e2)" by fastforce
  have s: "stamped e (c @ d, e2)"
    using stamped_created [of e] stamped_close [of e1 "''completed''"] 1 2 by (metis stamped_append)
  obtain r where r: "start_tool index i name e = (case r of (f, e') \<Rightarrow> (c @ d @ f, e'))" and n: "stamped e2 r"
    by (simp add: start_tool_def 1 2 Let_def stamped_number)
  obtain f e' where f: "r = (f, e')" by fastforce
  then have "stamped e ((c @ d) @ f, e')" using stamped_append [OF s] n by simp
  then show ?thesis by (simp add: r f)
qed

lemma stamped_finish: "stamped e (encode_finish f e)"
proof (cases "stream_failure f (rsp_refusal e \<noteq> [])")
  case None
  let ?e = "e\<lparr>rsp_finish_sent := True\<rparr>" and ?st = "response_status f"
  obtain c e1 where 1: "close_text_item ?st ?e = (c, e1)" by fastforce
  obtain evs e2 ts where 2: "number_frames evs e1 = (ts, e2)"
    and evs: "evs = concat (map (\<lambda>t.
                      [(''response.function_call_arguments.done'', call_fields e1 (tl_output_index t) (tl_call_id t)
                          [(''name'', JString (tl_name t)), (''arguments'', JString (tl_arguments t))]),
                       (''response.output_item.done'', item_fields e1 (tl_output_index t)
                          (call_item (tl_call_id t) (tl_name t) (tl_arguments t) ?st))]) (rsp_active_tools e1))" by fastforce
  have "stamped e (c, e1)" using stamped_close [of ?e ?st] 1 stamped_from [of ?e _ e] by simp
  then have "stamped e (c @ ts, e2)" using stamped_append stamped_number [of e1 e1 evs] 2 by metis
  then show ?thesis
    using None stamped_then [OF _ stamped_number [OF refl]] by (simp add: encode_finish_def Let_def 1 2 [unfolded evs])
next
  case (Some x)
  let ?e = "e\<lparr>rsp_finish_sent := True\<rparr>"
  obtain c e1 where 1: "ensure_created ?e = (c, e1)" by fastforce
  obtain xs gs e2 where 2: "number_frames xs e1 = (gs, e2)"
    and xs: "xs = [(''response.failed'', [(''response'', own_failure e1 (terminal_message x))])]" by fastforce
  have "stamped e (c, e1)" using stamped_created [of ?e] 1 stamped_from [of ?e _ e] by simp
  then have "stamped e (c @ gs, e2)" using stamped_append stamped_number [of e1 e1 xs] 2 by metis
  then show ?thesis using Some by (simp add: encode_finish_def Let_def 1 2 [unfolded xs])
qed

lemma stamped_args: "stamped e (responses_encode (ToolCallArgsDelta index args) e)"
proof -
  obtain c e1 where 1: "ensure_created e = (c, e1)" by fastforce
  obtain ts r where 2: "grow_tool index args (rsp_active_tools e1) = (ts, r)" by fastforce
  have s: "stamped e (c, e1)" using stamped_created [of e] 1 by simp
  show ?thesis
  proof (cases r)
    case None
    then show ?thesis using s by (simp add: 1 2)
  next
    case (Some t)
    obtain xs gs e2 where 3: "number_frames xs (e1\<lparr>rsp_active_tools := ts\<rparr>) = (gs, e2)"
      and xs: "xs = [(''response.function_call_arguments.delta'',
                    call_fields e1 (tl_output_index t) (tl_call_id t) [(''delta'', JString args)])]" by fastforce
    have "stamped e1 (gs, e2)" using stamped_number [of "e1\<lparr>rsp_active_tools := ts\<rparr>" e1 xs] 3 by simp
    then show ?thesis using s Some by (simp add: 1 2 3 [unfolded xs] stamped_append)
  qed
qed

lemma stamped_encode: "stamped e (responses_encode ev e)"
proof (cases ev)
  case (TextDelta t)
  then show ?thesis
    using stamped_update [OF stamped_delta [of e False], of "\<lambda>e1. e1\<lparr>rsp_text := rsp_text e1 @ t\<rparr>"] by simp
next
  case (RefusalDelta t)
  then show ?thesis
    using stamped_update [OF stamped_delta [of e True], of "\<lambda>e1. e1\<lparr>rsp_refusal := rsp_refusal e1 @ t\<rparr>"] by simp
next
  case (ToolCallArgsDelta index args)
  then show ?thesis using stamped_args by simp
qed (simp_all add: stamped_created stamped_start stamped_finish stamped_nothing)

lemma stamped_run: "stamped e (responses_run evs e)"
proof (induction evs arbitrary: e)
  case (Cons ev evs)
  obtain fs e1 gs e2 where 1: "responses_encode ev e = (fs, e1)" and 2: "responses_run evs e1 = (gs, e2)" by fastforce
  then show ?case using stamped_append [of e fs e1 gs e2] stamped_encode [of e ev] Cons.IH [of e1] by simp
qed (simp add: stamped_nothing)

lemma stamped_finalize: "stamped e (responses_finalize e)"
  by (simp add: responses_finalize_def stamped_nothing stamped_finish)

lemma stamped_error: "stamped e (responses_error_frame message e)"
  by (simp add: responses_error_frame_def stamped_number)

text \<open>
  C38. The events of a Responses stream are numbered consecutively from 0, whatever the model sent and whether the stream
  was completed or interrupted.
\<close>
theorem responses_events_numbered:
  "map (last \<circ> snd) (responses_stream ctx evs err) =
     map (\<lambda>i. (''sequence_number'', jnat i)) [0..<length (responses_stream ctx evs err)]"
proof -
  let ?e = "responses_encoder_new ctx"
  obtain fs e1 where 1: "responses_run evs ?e = (fs, e1)" by fastforce
  obtain gs e2 where 2: "(case err of None \<Rightarrow> responses_finalize e1 | Some m \<Rightarrow> responses_error_frame m e1) = (gs, e2)"
    by fastforce
  have "stamped e1 (gs, e2)" using stamped_finalize [of e1] stamped_error 2 by (cases err) (simp_all, metis)
  then have "stamped ?e (fs @ gs, e2)" using stamped_run [of ?e evs] 1 stamped_append by metis
  then show ?thesis using 1 2 by (simp add: responses_stream_def stamped_def responses_encoder_new_def)
qed

text \<open>The item an event announces: its place in the output, and its type.\<close>

definition announced :: "event_frame \<Rightarrow> (json option \<times> string option) option" where
  "announced ev =
     (if fst ev = ''response.output_item.added''
      then Some (map_of (snd ev) ''output_index'', Option.bind (map_of (snd ev) ''item'') (\<lambda>v. get_str v ''type''))
      else None)"

text \<open>
  The message item always claims the first place of the output, and a tool call the next free one: an answer that
  calls a tool and then speaks announces both items at place 0.
\<close>
theorem tool_then_text_collides:
  "List.map_filter announced (responses_stream ctx [ToolCallStart k i name sig, TextDelta t] None) =
     [(Some (jnat 0), Some ''function_call''), (Some (jnat 0), Some ''message'')]"
  by (simp add: responses_stream_def responses_encoder_new_def start_tool_def ensure_created_def close_text_item_def
      number_frames.simps message_delta_def ensure_message_item_def responses_finalize_def encode_finish_def Let_def
      stream_failure_def incomplete_reason_def announced_def map_filter_simps item_fields_def part_fields_def call_fields_def
      call_item_def message_item_def)

end
