(* ===== verification/Client_Relay.thy ===== *)
theory Client_Relay
  imports Attempt_Loop Tool_Stream Anthropic_Frontend Responses_Frontend
begin

text \<open>
  Relaying a validated answer to the client (\<^verbatim>\<open>src/src/pipeline.rs\<close>, \<open>drive_stream\<close> and \<open>drive_stream_passthrough\<close>, with the
  \<open>Encoder\<close> of \<^verbatim>\<open>src/src/frontends/mod.rs\<close>). A driver loops over \<open>select!\<close>: each round is one poll, which says which branch
  was taken and what the clocks and the disconnect flag read; the readings within a round coincide. The client takes a
  number of sends and then goes away.
\<close>

section \<open>Encoders\<close>

datatype encoder =
    Enc_OpenAi openai_encoder
  | Enc_Anthropic anthropic_encoder
  | Enc_Responses responses_encoder

fun encoder_new :: "frontend_format \<Rightarrow> encoder_ctx \<Rightarrow> encoder" where
  "encoder_new OpenAiF ctx = Enc_OpenAi (openai_encoder_new ctx)"
| "encoder_new AnthropicF ctx = Enc_Anthropic (anthropic_encoder_new ctx)"
| "encoder_new OpenAiResponsesF ctx = Enc_Responses (responses_encoder_new ctx)"

fun set_include_usage :: "bool \<Rightarrow> encoder \<Rightarrow> encoder" where
  "set_include_usage v (Enc_OpenAi e) = Enc_OpenAi (e\<lparr>oe_include_usage := v\<rparr>)"
| "set_include_usage v e = e"

fun encoder_encode :: "codec \<Rightarrow> stream_event \<Rightarrow> encoder \<Rightarrow> string list \<times> encoder" where
  "encoder_encode cd ev (Enc_OpenAi e) = map_prod (openai_frames cd) Enc_OpenAi (openai_encode ev e)"
| "encoder_encode cd ev (Enc_Anthropic e) = map_prod (named_frames cd) Enc_Anthropic (anthropic_encode ev e)"
| "encoder_encode cd ev (Enc_Responses e) = map_prod (event_frames cd) Enc_Responses (responses_encode ev e)"

fun encoder_finalize :: "codec \<Rightarrow> encoder \<Rightarrow> string list \<times> encoder" where
  "encoder_finalize cd (Enc_OpenAi e) = map_prod id Enc_OpenAi (openai_finalize cd e)"
| "encoder_finalize cd (Enc_Anthropic e) = map_prod (named_frames cd) Enc_Anthropic (anthropic_finalize e)"
| "encoder_finalize cd (Enc_Responses e) = map_prod (event_frames cd) Enc_Responses (responses_finalize e)"

fun encoder_error_frame :: "codec \<Rightarrow> string \<Rightarrow> encoder \<Rightarrow> string list \<times> encoder" where
  "encoder_error_frame cd message (Enc_OpenAi e) = (openai_error_frame cd message e, Enc_OpenAi e)"
| "encoder_error_frame cd message (Enc_Anthropic e) = (named_frames cd (anthropic_error_frame message), Enc_Anthropic e)"
| "encoder_error_frame cd message (Enc_Responses e) =
     map_prod (event_frames cd) Enc_Responses (responses_error_frame message e)"

definition aggregate_with_responses_fields ::
  "codec \<Rightarrow> int \<Rightarrow> frontend_format \<Rightarrow> string \<Rightarrow> string \<Rightarrow> stream_event list \<Rightarrow> token_usage \<Rightarrow> responses_fields \<Rightarrow> json" where
  "aggregate_with_responses_fields cd created format model rid events u echoed =
     (case format of
        OpenAiF \<Rightarrow> openai_aggregate created model rid events u
      | AnthropicF \<Rightarrow> anthropic_aggregate cd model rid events u
      | OpenAiResponsesF \<Rightarrow> aggregate_responses created model rid events u echoed)"

section \<open>State\<close>

record relay_env =
  rv_codec :: codec
  rv_cipher :: cipher_suite
  rv_format :: frontend_format
  rv_request_id :: string
  rv_include_usage :: bool
  rv_adapter :: adapter
  rv_is_sse :: bool
  rv_key_id :: "string option"
  rv_session :: "string option"
  rv_opaque_target :: "opaque_state_target option"

text \<open>
  The state of a driver: its local variables, the shared state it changes, and the client: the sends it still takes
  and those it took.
\<close>

record relay =
  rl_app :: app_state
  rl_cancellations :: nat
  rl_cancel_ms_total :: nat
  rl_failures_post_commit :: nat
  rl_trace :: route_trace
  rl_encoder :: encoder
  rl_tools :: tool_stream_state
  rl_framer :: sse_framer
  rl_pending :: "string list"
  rl_events :: "stream_event list"
  rl_usage :: token_usage
  rl_ttft :: "int option"
  rl_committed :: bool
  rl_saw_reasoning :: bool
  rl_saw_tool :: bool
  rl_terminal :: bool
  rl_room :: nat
  rl_sent :: "string list"

datatype pick = Notified bool | Keepalive_Tick | Idle_Elapsed | Upstream_Ready

record poll =
  pl_gone :: bool
  pl_pick :: pick
  pl_ms :: nat
  pl_now :: nanos
  pl_signal_ms :: nat

text \<open>How a stream ended: the status, its code, the message, and the provider's failure if it was one.\<close>

record stream_end =
  so_status :: string
  so_code :: int
  so_error :: "string option"
  so_failure :: "(failure_kind \<times> nat option) option"

definition stream_success :: stream_end where
  "stream_success = \<lparr>so_status = ''success'', so_code = 200, so_error = None, so_failure = None\<rparr>"

definition client_gone :: stream_end where
  "client_gone = \<lparr>so_status = ''client_disconnect'', so_code = 499, so_error = None, so_failure = None\<rparr>"

definition stream_error :: "int \<Rightarrow> string \<Rightarrow> (failure_kind \<times> nat option) option \<Rightarrow> stream_end" where
  "stream_error code message failure =
     \<lparr>so_status = ''stream_error'', so_code = code, so_error = Some message, so_failure = failure\<rparr>"

definition relay_app :: "(app_state \<Rightarrow> app_state) \<Rightarrow> relay \<Rightarrow> relay" where
  "relay_app f r = r\<lparr>rl_app := f (rl_app r)\<rparr>"

definition relay_flight :: "relay_env \<Rightarrow> nat \<Rightarrow> string \<Rightarrow> string \<Rightarrow> relay \<Rightarrow> relay" where
  "relay_flight rv ms event detail =
     relay_app (\<lambda>a. a\<lparr>ap_flight := flight_record (rv_request_id rv, ms, event, detail) (ap_flight a)\<rparr>)"

definition record_cancel :: "relay_env \<Rightarrow> poll \<Rightarrow> relay \<Rightarrow> relay" where
  "record_cancel rv p r =
     relay_flight rv (pl_ms p) ''cancellation_issued''
       (''client disconnected; signal latency '' @ show_nat (pl_signal_ms p) @ ''ms'')
       (r\<lparr>rl_cancellations := wrap_add64 (rl_cancellations r) 1,
          rl_cancel_ms_total := wrap_add64 (rl_cancel_ms_total r) (pl_signal_ms p)\<rparr>)"

section \<open>Sending\<close>

definition send_one :: "string \<Rightarrow> relay \<Rightarrow> bool \<times> relay" where
  "send_one frame r =
     (if rl_room r = 0 then (False, r)
      else (True, r\<lparr>rl_room := rl_room r - 1, rl_sent := rl_sent r @ [frame]\<rparr>))"

fun send_all :: "string list \<Rightarrow> relay \<Rightarrow> bool \<times> relay" where
  "send_all [] r = (True, r)"
| "send_all (frame # frames) r = (case send_one frame r of (True, r') \<Rightarrow> send_all frames r' | (False, r') \<Rightarrow> (False, r'))"

text \<open>Sends whose failure is ignored.\<close>

definition send_anyway :: "string list \<Rightarrow> relay \<Rightarrow> relay" where
  "send_anyway frames r = fold (\<lambda>frame r'. snd (send_one frame r')) frames r"

text \<open>The first frame sent commits the request.\<close>

definition commit_relay :: "relay_env \<Rightarrow> nat \<Rightarrow> string \<Rightarrow> relay \<Rightarrow> relay" where
  "commit_relay rv ms detail r =
     relay_flight rv ms ''commit'' detail
       (relay_app (\<lambda>a. a\<lparr>ap_live := mark_committed (rv_request_id rv) (ap_live a)\<rparr>)
         (r\<lparr>rl_committed := True, rl_trace := trace_commit ms (rl_trace r)\<rparr>))"

definition send_frames :: "relay_env \<Rightarrow> nat \<Rightarrow> string list \<Rightarrow> relay \<Rightarrow> bool \<times> relay" where
  "send_frames rv ms frames r =
     send_all frames (if frames = [] \<or> rl_committed r then r else commit_relay rv ms ''first client bytes'' r)"

definition announce_failure :: "relay_env \<Rightarrow> string \<Rightarrow> relay \<Rightarrow> relay" where
  "announce_failure rv message r =
     (let (frames, enc) = encoder_error_frame (rv_codec rv) message (rl_encoder r)
      in send_anyway frames (r\<lparr>rl_encoder := enc\<rparr>))"

section \<open>Translated events\<close>

definition note_kind :: "relay_env \<Rightarrow> nat \<Rightarrow> stream_event \<Rightarrow> relay \<Rightarrow> relay" where
  "note_kind rv ms ev r =
     (case ev of
        ThinkingDelta _ _ \<Rightarrow>
          if rl_saw_reasoning r then r
          else relay_flight rv ms ''reasoning_event'' ''first thinking delta'' (r\<lparr>rl_saw_reasoning := True\<rparr>)
      | ToolCallStart _ _ _ _ \<Rightarrow>
          if rl_saw_tool r then r
          else relay_flight rv ms ''tool_call_event'' ''first tool call'' (r\<lparr>rl_saw_tool := True\<rparr>)
      | _ \<Rightarrow> r)"

definition note_event :: "relay_env \<Rightarrow> nat \<Rightarrow> stream_event \<Rightarrow> relay \<Rightarrow> relay" where
  "note_event rv ms ev r =
     note_kind rv ms ev (case ev of Usage u \<Rightarrow> r\<lparr>rl_usage := merge_usage (rl_usage r) u\<rparr> | _ \<Rightarrow> r)"

definition mark_ttft :: "relay_env \<Rightarrow> nat \<Rightarrow> relay \<Rightarrow> relay" where
  "mark_ttft rv ms r =
     relay_app (\<lambda>a. a\<lparr>ap_live := mark_streaming (rv_request_id rv) (set_ttft (rv_request_id rv) (int ms) (ap_live a))\<rparr>)
       (r\<lparr>rl_ttft := Some (int ms)\<rparr>)"

definition mark_frames :: "relay_env \<Rightarrow> nat \<Rightarrow> bool \<Rightarrow> string list \<Rightarrow> relay \<Rightarrow> bool \<times> relay" where
  "mark_frames rv ms marked frames r =
     (if frames = [] then (marked, r)
      else if rv_is_sse rv \<and> rl_ttft r = None
      then (marked, relay_flight rv ms ''upstream_first_frame'' ''first upstream model event'' (mark_ttft rv ms r))
      else if \<not> rv_is_sse rv \<and> \<not> marked
      then (True, relay_app (\<lambda>a. a\<lparr>ap_live := mark_streaming (rv_request_id rv) (ap_live a)\<rparr>) r)
      else (marked, r))"

fun emit_events :: "relay_env \<Rightarrow> nat \<Rightarrow> bool \<Rightarrow> stream_event list \<Rightarrow> relay \<Rightarrow> bool \<times> relay" where
  "emit_events rv ms marked [] r = (True, r)"
| "emit_events rv ms marked (ev # evs) r =
     (let r1 = note_event rv ms ev r;
          (frames, enc) = encoder_encode (rv_codec rv) ev (rl_encoder r1);
          (marked', r2) = mark_frames rv ms marked frames (r1\<lparr>rl_encoder := enc\<rparr>)
      in case send_frames rv ms frames r2 of
           (True, r3) \<Rightarrow> emit_events rv ms marked' evs r3
         | (False, r3) \<Rightarrow> (False, r3))"

definition capture_events :: "relay_env \<Rightarrow> nanos \<Rightarrow> stream_event list \<Rightarrow> app_state \<Rightarrow> app_state" where
  "capture_events rv now evs a =
     (case rv_opaque_target rv of
        None \<Rightarrow> a
      | Some t \<Rightarrow> a\<lparr>ap_opaque := capture_opaque_state (rv_cipher rv) now (client_scope (rv_key_id rv)) t (rv_session rv) evs
                       (ap_opaque a)\<rparr>)"

text \<open>Events of one payload: normalised, captured, and sent; a client that is gone ends the stream.\<close>

definition normalize_captured :: "relay_env \<Rightarrow> nanos \<Rightarrow> stream_event list \<Rightarrow> relay \<Rightarrow> stream_event list \<times> relay" where
  "normalize_captured rv now events r =
     (let (evs, ts) = normalize_events events (rl_tools r)
      in (evs, relay_app (capture_events rv now evs) (r\<lparr>rl_tools := ts\<rparr>)))"

definition relay_events :: "relay_env \<Rightarrow> poll \<Rightarrow> stream_event list \<Rightarrow> relay \<Rightarrow> stream_end option \<times> relay" where
  "relay_events rv p events r =
     (let (evs, r1) = normalize_captured rv (pl_now p) events r
      in case emit_events rv (pl_ms p) False evs r1 of
           (True, r2) \<Rightarrow> (None, r2)
         | (False, r2) \<Rightarrow> (Some client_gone, record_cancel rv p r2))"

text \<open>
  The frames of one chunk, for the drivers that translate: what becomes of a failure's message and of a payload's
  events are the arguments.
\<close>

fun walk_frames ::
  "relay_env \<Rightarrow> (string \<Rightarrow> relay \<Rightarrow> relay) \<Rightarrow> (stream_event list \<Rightarrow> relay \<Rightarrow> stream_end option \<times> relay)
    \<Rightarrow> string list \<Rightarrow> relay \<Rightarrow> stream_end option \<times> relay" where
  "walk_frames rv fail handle [] r = (None, r)"
| "walk_frames rv fail handle (frame # frames) r =
     (case extract_data frame of
        None \<Rightarrow> walk_frames rv fail handle frames r
      | Some data \<Rightarrow>
          if trim data = ''[DONE]'' then walk_frames rv fail handle frames (r\<lparr>rl_terminal := True\<rparr>)
          else (case payload_error_failure (rv_codec rv) (rv_adapter rv) data of
             Some f \<Rightarrow> (Some (stream_error 502 (uf_message f) (Some (uf_kind f, uf_status f))), fail (uf_message f) r)
           | None \<Rightarrow>
               (case ad_parse_stream_chunk (rv_adapter rv) data of
                  Inl f \<Rightarrow> (Some (stream_error 502 (uf_message f) None), fail (uf_message f) r)
                | Inr events \<Rightarrow>
                    (case handle events (if payload_is_terminal (rv_codec rv) data events
                                         then r\<lparr>rl_terminal := True\<rparr> else r) of
                       (Some o', r') \<Rightarrow> (Some o', r')
                     | (None, r') \<Rightarrow> walk_frames rv fail handle frames r'))))"

definition push_chunk ::
  "(string list \<Rightarrow> relay \<Rightarrow> stream_end option \<times> relay) \<Rightarrow> string \<Rightarrow> relay \<Rightarrow> stream_end option \<times> relay" where
  "push_chunk walk bytes r =
     (case push (rl_framer r) bytes of
        (f, Inl e) \<Rightarrow> (Some (stream_error 502 (frame_error_display e) None), r\<lparr>rl_framer := f\<rparr>)
      | (f, Inr frames) \<Rightarrow> walk frames (r\<lparr>rl_framer := f\<rparr>))"

definition body_error :: "transport_error \<Rightarrow> stream_end" where
  "body_error e = stream_error 502 (classify_reqwest e) (Some (if te_is_timeout e then Timeout else ConnectionError, None))"

definition idle_timeout :: stream_end where
  "idle_timeout = stream_error 504 ''upstream stream idle timeout'' (Some (Timeout, None))"

definition keepalive_frame :: string where
  "keepalive_frame = sse_comment ''keepalive''"

section \<open>The driver\<close>

text \<open>
  The select loop, given what a chunk does and whether the keepalive branch is enabled: a schedule of polls that runs out
  leaves the driver running.
\<close>

fun select_loop ::
  "relay_env \<Rightarrow> (relay \<Rightarrow> bool) \<Rightarrow> (poll \<Rightarrow> string \<Rightarrow> relay \<Rightarrow> stream_end option \<times> relay)
    \<Rightarrow> poll list \<Rightarrow> body \<Rightarrow> relay \<Rightarrow> (stream_end \<times> relay) option" where
  "select_loop rv tick chunk [] body r = None"
| "select_loop rv tick chunk (p # ps) body r =
     (if pl_gone p then Some (client_gone, record_cancel rv p r)
      else case pl_pick p of
        Notified gone \<Rightarrow>
          if gone then Some (client_gone, record_cancel rv p r) else select_loop rv tick chunk ps body r
      | Keepalive_Tick \<Rightarrow>
          if \<not> tick r then select_loop rv tick chunk ps body r
          else (case send_one keepalive_frame r of
                  (True, r') \<Rightarrow> select_loop rv tick chunk ps body r'
                | (False, r') \<Rightarrow> Some (client_gone, record_cancel rv p r'))
      | Idle_Elapsed \<Rightarrow> Some (idle_timeout, r)
      | Upstream_Ready \<Rightarrow>
          (case body of
             [] \<Rightarrow> Some (stream_success, r)
           | Inl e # _ \<Rightarrow> Some (body_error e, r)
           | Inr bytes # rest \<Rightarrow>
               (case chunk p bytes r of
                  (Some o', r') \<Rightarrow> Some (o', r')
                | (None, r') \<Rightarrow> select_loop rv tick chunk ps rest r')))"

text \<open>A stream that seems complete but stopped within a frame, or before a terminal event, was cut short.\<close>

definition check_complete :: "relay \<Rightarrow> stream_end \<Rightarrow> stream_end" where
  "check_complete r o' =
     (if so_status o' = ''success'' \<and> pending_bytes (rl_framer r) > 0
      then (stream_error 502 ''upstream SSE ended with an incomplete frame'' None)\<lparr>so_failure := so_failure o'\<rparr>
      else if so_status o' = ''success'' \<and> \<not> rl_terminal r
      then (stream_error 502 ''upstream SSE ended before a terminal event'' None)\<lparr>so_failure := so_failure o'\<rparr>
      else o')"

definition count_post_commit :: "relay \<Rightarrow> relay" where
  "count_post_commit r =
     (if rl_committed r then r\<lparr>rl_failures_post_commit := wrap_add64 (rl_failures_post_commit r) 1\<rparr> else r)"

definition end_message :: "stream_end \<Rightarrow> string" where
  "end_message o' = unwrap_or (so_error o') ''upstream stream interrupted''"

definition send_terminator :: "relay_env \<Rightarrow> poll \<Rightarrow> stream_end \<Rightarrow> relay \<Rightarrow> stream_end \<times> relay" where
  "send_terminator rv p o' r =
     (let (frames, enc) = encoder_finalize (rv_codec rv) (rl_encoder r)
      in case send_all frames (r\<lparr>rl_encoder := enc\<rparr>) of
           (True, r') \<Rightarrow> (o', r')
         | (False, r') \<Rightarrow> (o'\<lparr>so_status := ''client_disconnect'', so_code := 499\<rparr>, record_cancel rv p r'))"

definition close_stream :: "relay_env \<Rightarrow> poll \<Rightarrow> stream_end \<times> relay \<Rightarrow> stream_end \<times> relay" where
  "close_stream rv p x =
     (let (o0, r) = x; o' = check_complete r o0
      in if so_status o' = ''stream_error'' then (o', announce_failure rv (end_message o') (count_post_commit r))
         else if so_status o' = ''success'' then send_terminator rv p o' r
         else (o', r))"

definition relay_chunk :: "relay_env \<Rightarrow> poll \<Rightarrow> string \<Rightarrow> relay \<Rightarrow> stream_end option \<times> relay" where
  "relay_chunk rv p = push_chunk (walk_frames rv (announce_failure rv) (relay_events rv p))"

text \<open>
  \<open>drive_stream\<close> up to its settlement. A complete JSON answer is sent at once; a stream starts with the chunks that the
  validation read ahead. The last poll supplies the readings after the loop.
\<close>

definition drive_full :: "relay_env \<Rightarrow> poll \<Rightarrow> stream_event list \<Rightarrow> relay \<Rightarrow> stream_end \<times> relay" where
  "drive_full rv p events r =
     (case relay_events rv p events r of
        (Some o', r') \<Rightarrow> (o', r')
      | (None, r') \<Rightarrow> send_terminator rv p stream_success r')"

definition relay_start :: "relay_env \<Rightarrow> encoder_ctx \<Rightarrow> app_state \<Rightarrow> route_trace \<Rightarrow> nat \<Rightarrow> relay" where
  "relay_start rv ctx a tr room =
     \<lparr>rl_app = a, rl_cancellations = 0, rl_cancel_ms_total = 0, rl_failures_post_commit = 0, rl_trace = tr,
      rl_encoder = set_include_usage (rv_include_usage rv) (encoder_new (rv_format rv) ctx),
      rl_tools = tool_stream_new (rv_request_id rv), rl_framer = framer_default, rl_pending = [], rl_events = [],
      rl_usage = usage_default, rl_ttft = None, rl_committed = False, rl_saw_reasoning = False, rl_saw_tool = False,
      rl_terminal = False, rl_room = room, rl_sent = []\<rparr>"

definition upstream_chunks :: "prepared_upstream \<Rightarrow> body" where
  "upstream_chunks pr = map Inr (pr_prefetched pr) @ unwrap_or (pr_stream pr) []"

definition drive_stream ::
  "relay_env \<Rightarrow> poll list \<Rightarrow> poll \<Rightarrow> prepared_upstream \<Rightarrow> relay \<Rightarrow> (stream_end \<times> relay) option" where
  "drive_stream rv polls p pr r =
     (case pr_full_events pr of
        Some events \<Rightarrow> Some (drive_full rv p events r)
      | None \<Rightarrow> map_option (close_stream rv p)
          (select_loop rv (\<lambda>_. True) (relay_chunk rv) polls (upstream_chunks pr) r))"

section \<open>Passthrough\<close>

definition usage_only :: "stream_event list \<Rightarrow> bool" where
  "usage_only events \<longleftrightarrow> events \<noteq> [] \<and> list_all (\<lambda>e. case e of Usage _ \<Rightarrow> True | _ \<Rightarrow> False) events"

definition raw_frame :: "string \<Rightarrow> string" where
  "raw_frame frame = frame @ [LF, LF]"

text \<open>Frames wait until one of them carries a model event; then all of them go out, and the later ones directly.\<close>

definition forward_frame :: "relay_env \<Rightarrow> poll \<Rightarrow> bool \<Rightarrow> string \<Rightarrow> relay \<Rightarrow> stream_end option \<times> relay" where
  "forward_frame rv p semantic frame r =
     (let leave = (\<lambda>x. case x of (True, r') \<Rightarrow> (None, r') | (False, r') \<Rightarrow> (Some client_gone, record_cancel rv p r'))
      in if rl_committed r then leave (send_one (raw_frame frame) r)
         else let r1 = r\<lparr>rl_pending := rl_pending r @ [frame]\<rparr>
              in if \<not> semantic then (None, r1)
                 else let r2 = relay_flight rv (pl_ms p) ''commit'' ''first validated passthrough event''
                            (mark_ttft rv (pl_ms p)
                              (relay_app (\<lambda>a. a\<lparr>ap_live := mark_committed (rv_request_id rv) (ap_live a)\<rparr>)
                                (r1\<lparr>rl_committed := True, rl_trace := trace_commit (pl_ms p) (rl_trace r1)\<rparr>)))
                      in leave (send_all (map raw_frame (rl_pending r2)) (r2\<lparr>rl_pending := []\<rparr>)))"

fun pass_frames :: "relay_env \<Rightarrow> poll \<Rightarrow> string list \<Rightarrow> relay \<Rightarrow> stream_end option \<times> relay" where
  "pass_frames rv p [] r = (None, r)"
| "pass_frames rv p (frame # frames) r =
     (let go = (\<lambda>semantic r1. case forward_frame rv p semantic frame r1 of
                  (Some o', r') \<Rightarrow> (Some o', r')
                | (None, r') \<Rightarrow> pass_frames rv p frames r')
      in case extract_data frame of
           None \<Rightarrow> go False r
         | Some data \<Rightarrow>
             if trim data = ''[DONE]'' then go False (r\<lparr>rl_terminal := True\<rparr>)
             else (case payload_error_failure (rv_codec rv) (rv_adapter rv) data of
                Some f \<Rightarrow> (Some (stream_error 502 (uf_message f) (Some (uf_kind f, uf_status f))), r)
              | None \<Rightarrow>
                  (case ad_parse_stream_chunk (rv_adapter rv) data of
                     Inl f \<Rightarrow> (Some (stream_error 502 (uf_message f) None), r)
                   | Inr events \<Rightarrow>
                       let r1 = fold (note_event rv (pl_ms p)) events
                                  (if payload_is_terminal (rv_codec rv) data events then r\<lparr>rl_terminal := True\<rparr> else r)
                       in if rv_format rv = OpenAiF \<and> \<not> rv_include_usage rv \<and> usage_only events
                          then pass_frames rv p frames r1
                          else go (list_ex is_semantic_event events) r1)))"

definition pass_chunk :: "relay_env \<Rightarrow> poll \<Rightarrow> string \<Rightarrow> relay \<Rightarrow> stream_end option \<times> relay" where
  "pass_chunk rv p = push_chunk (pass_frames rv p)"

definition passthrough_error :: "relay_env \<Rightarrow> encoder_ctx \<Rightarrow> string \<Rightarrow> string list" where
  "passthrough_error rv ctx message =
     (if rv_format rv = OpenAiF
      then [sse_frame None (ser_value (rv_codec rv) (stream_error_object message)), DONE_FRAME]
      else fst (encoder_error_frame (rv_codec rv) message (encoder_new (rv_format rv) ctx)))"

definition close_passthrough :: "relay_env \<Rightarrow> encoder_ctx \<Rightarrow> stream_end \<times> relay \<Rightarrow> stream_end \<times> relay" where
  "close_passthrough rv ctx x =
     (let (o0, r) = x; o' = check_complete r o0
      in (o', if so_status o' = ''stream_error'' \<and> rl_committed r
              then send_anyway (passthrough_error rv ctx (end_message o')) (count_post_commit r) else r))"

definition drive_stream_passthrough ::
  "relay_env \<Rightarrow> encoder_ctx \<Rightarrow> poll list \<Rightarrow> prepared_upstream \<Rightarrow> relay \<Rightarrow> (stream_end \<times> relay) option" where
  "drive_stream_passthrough rv ctx polls pr r =
     map_option (close_passthrough rv ctx) (select_loop rv rl_committed (pass_chunk rv) polls (upstream_chunks pr) r)"

section \<open>What the client is sent\<close>

text \<open>
  The specification: the payloads of a run of frames, read to the end, give events and say whether one was terminal;
  the events, normalised and encoded, and the terminator are the answer. Comments carry nothing.
\<close>

fun read_frames :: "codec \<Rightarrow> adapter \<Rightarrow> string list \<Rightarrow> (stream_event list \<times> bool) option" where
  "read_frames cd ad [] = Some ([], False)"
| "read_frames cd ad (frame # frames) =
     (case extract_data frame of
        None \<Rightarrow> read_frames cd ad frames
      | Some data \<Rightarrow>
          if trim data = ''[DONE]'' then map_option (\<lambda>(evs, _). (evs, True)) (read_frames cd ad frames)
          else if payload_error_failure cd ad data \<noteq> None then None
          else (case ad_parse_stream_chunk ad data of
                  Inl _ \<Rightarrow> None
                | Inr events \<Rightarrow>
                    map_option (\<lambda>(evs, t). (events @ evs, payload_is_terminal cd data events \<or> t)) (read_frames cd ad frames)))"

fun encode_events :: "codec \<Rightarrow> stream_event list \<Rightarrow> encoder \<Rightarrow> string list \<times> encoder" where
  "encode_events cd [] e = ([], e)"
| "encode_events cd (ev # evs) e =
     (let (fs, e1) = encoder_encode cd ev e; (gs, e2) = encode_events cd evs e1 in (fs @ gs, e2))"

definition is_comment :: "string \<Rightarrow> bool" where
  "is_comment frame \<longleftrightarrow> take 1 frame = '':''"

definition data_sent :: "relay \<Rightarrow> string list" where
  "data_sent r = filter (\<lambda>frame. \<not> is_comment frame) (rl_sent r)"

definition translated_answer :: "codec \<Rightarrow> encoder \<Rightarrow> tool_stream_state \<Rightarrow> stream_event list \<Rightarrow> string list" where
  "translated_answer cd enc ts evs =
     (let (fs, e) = encode_events cd (fst (normalize_events evs ts)) enc in fs @ fst (encoder_finalize cd e))"

lemma split_never_empty: "split_char c s \<noteq> []"
  by (induction s) (auto split: list.splits)

lemma sse_frame_data: "\<not> is_comment (sse_frame ev d)"
proof -
  obtain x xs where "split_char LF d = x # xs" using split_never_empty by (metis neq_Nil_conv)
  then show ?thesis by (cases ev) (simp_all add: is_comment_def sse_frame_def)
qed

lemma done_frame_data: "\<not> is_comment DONE_FRAME"
  by (simp add: is_comment_def DONE_FRAME_def)

lemma keepalive_comment: "is_comment keepalive_frame"
  by (simp add: is_comment_def keepalive_frame_def sse_comment_def)

lemma frames_data:
  "\<forall>f \<in> set (openai_frames cd vs). \<not> is_comment f"
  "\<forall>f \<in> set (named_frames cd ns). \<not> is_comment f"
  "\<forall>f \<in> set (event_frames cd es). \<not> is_comment f"
  by (auto simp: openai_frames_def named_frames_def event_frames_def sse_frame_data)

lemma encoded_data: "encoder_encode cd ev e = (fs, e') \<Longrightarrow> \<forall>f \<in> set fs. \<not> is_comment f"
  using frames_data by (cases e) (fastforce simp: map_prod_def split: prod.splits)+

lemma finalized_data: "encoder_finalize cd e = (fs, e') \<Longrightarrow> \<forall>f \<in> set fs. \<not> is_comment f"
  using frames_data
  by (cases e) (fastforce simp: map_prod_def openai_finalize_def done_frame_data Let_def split: prod.splits)+

lemma encode_events_append:
  "encode_events cd (xs @ ys) e =
     (let (fs, e1) = encode_events cd xs e; (gs, e2) = encode_events cd ys e1 in (fs @ gs, e2))"
  by (induction xs arbitrary: e) (simp_all add: Let_def split: prod.splits)

section \<open>Lemmas\<close>

lemma relay_app_fields [simp]:
  "rl_encoder (relay_app f r) = rl_encoder r" "rl_tools (relay_app f r) = rl_tools r"
  "rl_framer (relay_app f r) = rl_framer r" "rl_terminal (relay_app f r) = rl_terminal r"
  "rl_sent (relay_app f r) = rl_sent r" "rl_room (relay_app f r) = rl_room r"
  "rl_committed (relay_app f r) = rl_committed r" "rl_pending (relay_app f r) = rl_pending r"
  "rl_usage (relay_app f r) = rl_usage r" "rl_app (relay_app f r) = f (rl_app r)"
  by (simp_all add: relay_app_def)

text \<open>The part of the state that decides the answer; the bookkeeping leaves it alone.\<close>

definition same_answer_state :: "relay \<Rightarrow> relay \<Rightarrow> bool" where
  "same_answer_state r r' \<longleftrightarrow> rl_encoder r' = rl_encoder r \<and> rl_tools r' = rl_tools r \<and> rl_framer r' = rl_framer r \<and>
     rl_terminal r' = rl_terminal r \<and> rl_sent r' = rl_sent r \<and> rl_room r' = rl_room r \<and> rl_pending r' = rl_pending r"

lemma bookkeeping_state:
  "same_answer_state r (note_kind rv ms ev r)" "same_answer_state r (note_event rv ms ev r)"
  "same_answer_state r (mark_ttft rv ms r)" "same_answer_state r (snd (mark_frames rv ms marked fs r))"
  "same_answer_state r (commit_relay rv ms d r)" "same_answer_state r (relay_flight rv ms e d r)"
  by (auto simp: same_answer_state_def note_kind_def note_event_def mark_ttft_def mark_frames_def commit_relay_def
      relay_flight_def split: stream_event.split)

lemma bookkeeping_usage [simp]:
  "rl_usage (note_kind rv ms ev r) = rl_usage r" "rl_usage (mark_ttft rv ms r) = rl_usage r"
  "rl_usage (snd (mark_frames rv ms marked fs r)) = rl_usage r" "rl_usage (commit_relay rv ms d r) = rl_usage r"
  "rl_usage (relay_flight rv ms e d r) = rl_usage r"
  by (auto simp: note_kind_def mark_ttft_def mark_frames_def commit_relay_def relay_flight_def split: stream_event.split)

lemma note_event_usage: "rl_usage (note_event rv ms ev r) = merge_usages [ev] (rl_usage r)"
  by (simp add: note_event_def merge_usages_def split: stream_event.split)

lemma merge_usages_Cons: "merge_usages (ev # evs) u = merge_usages evs (merge_usages [ev] u)"
  by (simp add: merge_usages_def)

lemma merge_usages_append: "merge_usages (xs @ ys) u = merge_usages ys (merge_usages xs u)"
  by (simp add: merge_usages_def)

lemma merge_usages_normalize: "merge_usages (fst (normalize_events evs ts)) u = merge_usages evs u"
proof (induction evs arbitrary: ts u)
  case (Cons ev evs)
  obtain ev' ts1 where e: "normalize_event ev ts = (ev', ts1)" by fastforce
  then have "merge_usages [ev'] u = merge_usages [ev] u"
    by (cases ev) (auto simp: merge_usages_def start_call_def Let_def split: prod.splits option.splits)
  note same = this
  obtain evs' ts2 where n: "normalize_events evs ts1 = (evs', ts2)" by fastforce
  have "merge_usages (ev' # evs') u = merge_usages evs' (merge_usages [ev] u)"
    using merge_usages_Cons [of ev' evs' u] same by simp
  also have "\<dots> = merge_usages evs (merge_usages [ev] u)" using Cons.IH [of ts1 "merge_usages [ev] u"] n by simp
  also have "\<dots> = merge_usages (ev # evs) u" by (rule merge_usages_Cons [symmetric])
  finally show ?case by (simp add: e n)
qed simp

lemma send_all_sent:
  "send_all fs r = (True, r') \<Longrightarrow> rl_sent r' = rl_sent r @ fs \<and> rl_encoder r' = rl_encoder r \<and> rl_tools r' = rl_tools r \<and>
     rl_framer r' = rl_framer r \<and> rl_terminal r' = rl_terminal r \<and> rl_pending r' = rl_pending r \<and>
     rl_committed r' = rl_committed r \<and> rl_usage r' = rl_usage r"
  by (induction fs arbitrary: r) (fastforce simp: send_one_def split: if_splits prod.splits bool.splits)+

lemma send_frames_sent:
  "send_frames rv ms fs r = (True, r') \<Longrightarrow> rl_sent r' = rl_sent r @ fs \<and> rl_encoder r' = rl_encoder r \<and>
     rl_tools r' = rl_tools r \<and> rl_framer r' = rl_framer r \<and> rl_terminal r' = rl_terminal r \<and> rl_usage r' = rl_usage r"
  unfolding send_frames_def
  by (drule send_all_sent) (use bookkeeping_state(5) in \<open>auto simp: same_answer_state_def split: if_splits\<close>)

lemma data_append: "\<forall>f \<in> set fs. \<not> is_comment f \<Longrightarrow> rl_sent r' = rl_sent r @ fs \<Longrightarrow> data_sent r' = data_sent r @ fs"
  by (simp add: data_sent_def)

lemma emit_events_sent:
  assumes "emit_events rv ms marked evs r = (True, r')"
    and "encode_events (rv_codec rv) evs (rl_encoder r) = (fs, e)"
  shows "data_sent r' = data_sent r @ fs \<and> rl_encoder r' = e \<and> rl_tools r' = rl_tools r \<and>
     rl_framer r' = rl_framer r \<and> rl_terminal r' = rl_terminal r \<and> rl_usage r' = merge_usages evs (rl_usage r)"
  using assms
proof (induction evs arbitrary: marked r fs)
  case (Cons ev evs)
  let ?r1 = "note_event rv ms ev r"
  have n: "same_answer_state r ?r1" using bookkeeping_state by blast
  obtain gs e1 where g: "encoder_encode (rv_codec rv) ev (rl_encoder ?r1) = (gs, e1)" by fastforce
  obtain m r2 where m: "mark_frames rv ms marked gs (?r1\<lparr>rl_encoder := e1\<rparr>) = (m, r2)" by fastforce
  have k: "same_answer_state (?r1\<lparr>rl_encoder := e1\<rparr>) r2" using bookkeeping_state(4) m by (metis snd_conv)
  obtain r3 where s: "send_frames rv ms gs r2 = (True, r3)" and e: "emit_events rv ms m evs r3 = (True, r')"
    using Cons.prems(1) g m by (auto simp: Let_def split: prod.splits bool.splits)
  obtain hs where h: "encode_events (rv_codec rv) evs e1 = (hs, e)" "fs = gs @ hs"
    using Cons.prems(2) g n by (auto simp: same_answer_state_def Let_def split: prod.splits)
  have "rl_sent r3 = rl_sent r @ gs" "rl_encoder r3 = e1" "rl_tools r3 = rl_tools r" "rl_framer r3 = rl_framer r"
    "rl_terminal r3 = rl_terminal r"
    using send_frames_sent [OF s] k n by (auto simp: same_answer_state_def)
  moreover have "rl_usage r3 = merge_usages [ev] (rl_usage r)"
    using send_frames_sent [OF s] bookkeeping_usage(3) [of rv ms marked gs "?r1\<lparr>rl_encoder := e1\<rparr>"] m
    by (simp add: note_event_usage)
  ultimately show ?case
    using Cons.IH [OF e, of hs] h data_append [OF encoded_data [OF g], of r3 r]
    by (simp flip: merge_usages_Cons)
qed (simp add: merge_usages_def)

text \<open>From one state to another: the events read in between were sent, and a terminal one was noted.\<close>

definition answered :: "relay_env \<Rightarrow> stream_event list \<Rightarrow> bool \<Rightarrow> relay \<Rightarrow> relay \<Rightarrow> bool" where
  "answered rv evs t r r' \<longleftrightarrow>
     (let (nevs, ts) = normalize_events evs (rl_tools r); (fs, e) = encode_events (rv_codec rv) nevs (rl_encoder r)
      in data_sent r' = data_sent r @ fs \<and> rl_encoder r' = e \<and> rl_tools r' = ts \<and>
         (rl_terminal r' \<longleftrightarrow> rl_terminal r \<or> t) \<and> rl_usage r' = merge_usages evs (rl_usage r))"

lemma answered_trans:
  assumes "answered rv xs t r r1" and "answered rv ys u r1 r2"
  shows "answered rv (xs @ ys) (t \<or> u) r r2"
  using assms
  by (auto simp: answered_def normalize_append encode_events_append merge_usages_append Let_def split: prod.splits)

lemma answered_nothing: "data_sent r' = data_sent r \<Longrightarrow> rl_encoder r' = rl_encoder r \<Longrightarrow> rl_tools r' = rl_tools r \<Longrightarrow>
    (rl_terminal r' \<longleftrightarrow> rl_terminal r \<or> t) \<Longrightarrow> rl_usage r' = rl_usage r \<Longrightarrow> answered rv [] t r r'"
  by (simp add: answered_def merge_usages_def)

lemma relay_events_answered:
  assumes "relay_events rv p events r = (None, r')"
  shows "answered rv events False r r' \<and> rl_framer r' = rl_framer r"
proof -
  obtain nevs ts where n: "normalize_events events (rl_tools r) = (nevs, ts)" by fastforce
  let ?r = "relay_app (capture_events rv (pl_now p) nevs) (r\<lparr>rl_tools := ts\<rparr>)"
  have e: "emit_events rv (pl_ms p) False nevs ?r = (True, r')"
    using assms n by (auto simp: relay_events_def normalize_captured_def split: prod.splits bool.splits)
  obtain fs enc where f: "encode_events (rv_codec rv) nevs (rl_encoder r) = (fs, enc)" by fastforce
  have "data_sent ?r = data_sent r" by (simp add: data_sent_def)
  then show ?thesis using emit_events_sent [OF e, of fs enc] n f merge_usages_normalize [of events "rl_tools r"]
    by (simp add: answered_def)
qed

lemma relay_events_gone: "relay_events rv p events r = (Some o', r') \<Longrightarrow> o' = client_gone"
  by (auto simp: relay_events_def Let_def split: prod.splits bool.splits)

lemma end_status [simp]:
  "so_status (stream_error c m f) = ''stream_error''" "so_status client_gone = ''client_disconnect''"
  "so_status stream_success = ''success''"
  by (simp_all add: stream_error_def client_gone_def stream_success_def)

lemma walk_frames_fails:
  assumes "\<And>events r o' r'. handle events r = (Some o', r') \<Longrightarrow> so_status o' \<noteq> ''success''"
  shows "walk_frames rv fail handle frames r = (Some o', r') \<Longrightarrow> so_status o' \<noteq> ''success''"
proof (induction frames arbitrary: r)
  case (Cons frame frames)
  show ?case
  proof (cases "extract_data frame")
    case (Some data)
    then show ?thesis
      using Cons assms by (cases "trim data = ''[DONE]''") (fastforce split: option.splits sum.splits prod.splits)+
  qed (use Cons in simp)
qed simp

text \<open>
  A loop that ends well read its whole body: what the handler of a chunk and the keepalives do is carried along.
\<close>

lemma select_loop_reads:
  assumes "select_loop rv tick chunk ps body r = Some (o', r')" and "so_status o' = ''success''"
    and fails: "\<And>p b r o' r'. chunk p b r = (Some o', r') \<Longrightarrow> so_status o' \<noteq> ''success''"
    and halt: "\<And>r. Q [] r r"
    and step: "\<And>p b bs r r1 r2. chunk p b r = (None, r1) \<Longrightarrow> Q bs r1 r2 \<Longrightarrow> Q (b # bs) r r2"
    and tick: "\<And>bs r r1 r2. send_one keepalive_frame r = (True, r1) \<Longrightarrow> Q bs r1 r2 \<Longrightarrow> Q bs r r2"
  shows "o' = stream_success \<and> (\<exists>bs. body = map Inr bs \<and> Q bs r r')"
  using assms(1)
proof (induction ps arbitrary: body r)
  case Nil
  then show ?case by simp
next
  case (Cons p ps)
  have ok: "\<not> pl_gone p" using Cons.prems assms(2) by (auto simp: client_gone_def)
  show ?case
  proof (cases "pl_pick p")
    case (Notified gone)
    then show ?thesis using Cons assms(2) ok by (auto simp: client_gone_def split: if_splits)
  next
    case Keepalive_Tick
    then show ?thesis
      using Cons assms(2) ok tick by (fastforce simp: client_gone_def split: if_splits prod.splits bool.splits)
  next
    case Idle_Elapsed
    then show ?thesis using Cons.prems assms(2) ok by (auto simp: idle_timeout_def stream_error_def)
  next
    case Upstream_Ready
    show ?thesis
    proof (cases body)
      case Nil
      then show ?thesis using Cons.prems Upstream_Ready ok halt by auto
    next
      case (Cons x rest)
      show ?thesis
      proof (cases x)
        case (Inl e)
        then show ?thesis
          using Cons.prems Upstream_Ready ok Cons assms(2) by (auto simp: body_error_def stream_error_def)
      next
        case (Inr bytes)
        obtain r1 where 1: "chunk p bytes r = (None, r1)" and 2: "select_loop rv tick chunk ps rest r1 = Some (o', r')"
          using Cons.prems Upstream_Ready ok \<open>body = x # rest\<close> Inr assms(2) fails
          by (auto split: prod.splits option.splits)
        then obtain bs where "o' = stream_success" "rest = map Inr bs" "Q bs r1 r'" using Cons.IH [OF 2] by blast
        then show ?thesis using step [OF 1] \<open>body = x # rest\<close> Inr by (intro conjI exI [of _ "bytes # bs"]) auto
      qed
    qed
  qed
qed

lemma push_chunk_None:
  assumes "push_chunk walk b r = (None, r')"
  obtains f frames where "push (rl_framer r) b = (f, Inr frames)" "walk frames (r\<lparr>rl_framer := f\<rparr>) = (None, r')"
  using assms by (auto simp: push_chunk_def split: prod.splits sum.splits)

lemma push_chunk_fails:
  assumes "\<And>frames r o' r'. walk frames r = (Some o', r') \<Longrightarrow> so_status o' \<noteq> ''success''"
  shows "push_chunk walk b r = (Some o', r') \<Longrightarrow> so_status o' \<noteq> ''success''"
  using assms by (auto simp: push_chunk_def split: prod.splits sum.splits)

lemma read_frames_append:
  "read_frames cd ad (xs @ ys) =
     (case read_frames cd ad xs of
        None \<Rightarrow> None
      | Some (evs, t) \<Rightarrow> map_option (\<lambda>(evs', t'). (evs @ evs', t \<or> t')) (read_frames cd ad ys))"
proof (induction xs)
  case Nil
  then show ?case by (cases "read_frames cd ad ys") auto
next
  case (Cons x xs)
  show ?case
  proof (cases "extract_data x")
    case (Some d)
    then show ?thesis using Cons
      by (cases "trim d = ''[DONE]''"; cases "ad_parse_stream_chunk ad d"; cases "read_frames cd ad xs"; cases "read_frames cd ad ys")
         auto
  qed (use Cons in simp)
qed

lemma send_one_room: "send_one f r = (True, r') \<Longrightarrow> r' = r\<lparr>rl_room := rl_room r - 1, rl_sent := rl_sent r @ [f]\<rparr>"
  by (simp add: send_one_def split: if_splits)

section \<open>Reading a stream\<close>

text \<open>
  What a driver that walks the frames of a stream promises: from one state to another it has told the events read in
  between, and a terminal one was noted; the framer and the keepalives make no difference to that.
\<close>

locale event_reader =
  fixes rv :: relay_env
    and fail :: "string \<Rightarrow> relay \<Rightarrow> relay"
    and handle :: "poll \<Rightarrow> stream_event list \<Rightarrow> relay \<Rightarrow> stream_end option \<times> relay"
    and told :: "stream_event list \<Rightarrow> bool \<Rightarrow> relay \<Rightarrow> relay \<Rightarrow> bool"
  assumes told_nothing: "told [] False r r"
    and told_terminal: "told [] True r (r\<lparr>rl_terminal := True\<rparr>)"
    and told_trans: "told xs t r r1 \<Longrightarrow> told ys u r1 r2 \<Longrightarrow> told (xs @ ys) (t \<or> u) r r2"
    and told_framer: "told xs t (r\<lparr>rl_framer := f\<rparr>) r1 \<Longrightarrow> told xs t r r1"
    and told_keepalive: "send_one keepalive_frame r = (True, r1) \<Longrightarrow> told xs t r1 r2 \<Longrightarrow> told xs t r r2"
    and told_handled: "handle p events r = (None, r1) \<Longrightarrow> told events False r r1"
    and handled_framer: "handle p events r = (None, r1) \<Longrightarrow> rl_framer r1 = rl_framer r"
    and handled_end: "handle p events r = (Some o', r1) \<Longrightarrow> so_status o' \<noteq> ''success''"
begin

lemma walk_told:
  assumes "walk_frames rv fail (handle p) frames r = (None, r')"
  shows "rl_framer r' = rl_framer r \<and>
    (\<exists>evs t. read_frames (rv_codec rv) (rv_adapter rv) frames = Some (evs, t) \<and> told evs t r r')"
  using assms
proof (induction frames arbitrary: r)
  case Nil
  then show ?case using told_nothing [of r] by (auto intro!: exI [of _ False])
next
  case (Cons frame frames)
  show ?case
  proof (cases "extract_data frame")
    case None
    then have "walk_frames rv fail (handle p) frames r = (None, r')" using Cons.prems by simp
    then show ?thesis using Cons.IH None by simp
  next
    case (Some data)
    note data = Some
    show ?thesis
    proof (cases "trim data = ''[DONE]''")
      case True
      then obtain evs t where "rl_framer r' = rl_framer r"
        "read_frames (rv_codec rv) (rv_adapter rv) frames = Some (evs, t)" "told evs t (r\<lparr>rl_terminal := True\<rparr>) r'"
        using Cons.IH [of "r\<lparr>rl_terminal := True\<rparr>"] Cons.prems data by auto
      then show ?thesis using told_trans [OF told_terminal [of r], of evs t r'] True data by auto
    next
      case False
      have pe: "payload_error_failure (rv_codec rv) (rv_adapter rv) data = None"
        using Cons.prems data False by (cases "payload_error_failure (rv_codec rv) (rv_adapter rv) data") simp_all
      obtain events where ev: "ad_parse_stream_chunk (rv_adapter rv) data = Inr events"
        using Cons.prems data False pe by (cases "ad_parse_stream_chunk (rv_adapter rv) data") simp_all
      define d where "d = payload_is_terminal (rv_codec rv) data events"
      define r0 where "r0 = (if d then r\<lparr>rl_terminal := True\<rparr> else r)"
      obtain x r1 where x: "handle p events r0 = (x, r1)" by fastforce
      then have 1: "handle p events r0 = (None, r1)" and 2: "walk_frames rv fail (handle p) frames r1 = (None, r')"
        using Cons.prems data False ev pe by (cases x; simp add: d_def r0_def)+
      have a0: "told [] d r r0" using told_nothing told_terminal by (simp add: r0_def)
      have a1: "rl_framer r1 = rl_framer r" using handled_framer [OF 1] by (simp add: r0_def)
      obtain evs t where a2: "read_frames (rv_codec rv) (rv_adapter rv) frames = Some (evs, t)" "told evs t r1 r'"
        "rl_framer r' = rl_framer r1" using Cons.IH [OF 2] by blast
      have "told (events @ evs) (d \<or> t) r r'" using told_trans [OF a0 told_trans [OF told_handled [OF 1] a2(2)]] by simp
      then show ?thesis using data False ev pe a1 a2 by (simp add: d_def)
    qed
  qed
qed

definition read_through :: "string list \<Rightarrow> relay \<Rightarrow> relay \<Rightarrow> bool" where
  "read_through bs r r' \<longleftrightarrow>
     (\<exists>frames evs t. push_all (rl_framer r) bs = (rl_framer r', Inr frames) \<and>
        read_frames (rv_codec rv) (rv_adapter rv) frames = Some (evs, t) \<and> told evs t r r')"

lemma read_through_step:
  assumes "push_chunk (walk_frames rv fail (handle p)) b r = (None, r1)" and "read_through bs r1 r2"
  shows "read_through (b # bs) r r2"
proof -
  obtain f frames where 1: "push (rl_framer r) b = (f, Inr frames)"
    and 2: "walk_frames rv fail (handle p) frames (r\<lparr>rl_framer := f\<rparr>) = (None, r1)"
    using assms(1) by (auto elim: push_chunk_None)
  obtain evs t where 3: "rl_framer r1 = f" "read_frames (rv_codec rv) (rv_adapter rv) frames = Some (evs, t)"
    "told evs t r r1" using walk_told [OF 2] told_framer by fastforce
  obtain gs evs' t' where 5: "push_all (rl_framer r1) bs = (rl_framer r2, Inr gs)"
    "read_frames (rv_codec rv) (rv_adapter rv) gs = Some (evs', t')" "told evs' t' r1 r2"
    using assms(2) by (auto simp: read_through_def)
  show ?thesis
    unfolding read_through_def using 1 3 5 told_trans [OF 3(3) 5(3)]
    by (intro exI [of _ "frames @ gs"] exI [of _ "evs @ evs'"] exI [of _ "t \<or> t'"]) (simp add: read_frames_append)
qed

lemma read_through_tick:
  assumes "send_one keepalive_frame r = (True, r1)" and "read_through bs r1 r2"
  shows "read_through bs r r2"
proof -
  have "rl_framer r1 = rl_framer r" using send_one_room [OF assms(1)] by simp
  then show ?thesis using assms(2) told_keepalive [OF assms(1)] unfolding read_through_def by fastforce
qed

lemma loop_reads:
  assumes "select_loop rv tick (\<lambda>p. push_chunk (walk_frames rv fail (handle p))) ps body r = Some (o', r')"
    and "so_status o' = ''success''"
  shows "o' = stream_success \<and> (\<exists>bs. body = map Inr bs \<and> read_through bs r r')"
proof (rule select_loop_reads [OF assms])
  show "push_chunk (walk_frames rv fail (handle p)) b r = (Some o', r') \<Longrightarrow> so_status o' \<noteq> ''success''" for p b r o' r'
    by (rule push_chunk_fails [OF walk_frames_fails]) (auto dest: handled_end)
  show "read_through [] r r" for r using told_nothing by (auto simp: read_through_def)
qed (fact read_through_step, fact read_through_tick)

end

interpretation relayed: event_reader rv "announce_failure rv" "relay_events rv" "answered rv" for rv
proof
  show "answered rv [] False r r" for r by (simp add: answered_nothing)
  show "answered rv [] True r (r\<lparr>rl_terminal := True\<rparr>)" for r by (simp add: answered_nothing data_sent_def)
  show "answered rv (xs @ ys) (t \<or> u) r r2" if "answered rv xs t r r1" "answered rv ys u r1 r2" for xs t r r1 ys u r2
    using that by (rule answered_trans)
  show "answered rv xs t r r1" if "answered rv xs t (r\<lparr>rl_framer := f\<rparr>) r1" for xs t r f r1
    using that by (simp add: answered_def data_sent_def)
  show "answered rv xs t r r2" if "send_one keepalive_frame r = (True, r1)" "answered rv xs t r1 r2" for xs t r r1 r2
    using that(2) send_one_room [OF that(1)] keepalive_comment by (simp add: answered_def data_sent_def)
  show "answered rv events False r r1" "rl_framer r1 = rl_framer r" if "relay_events rv p events r = (None, r1)"
    for p events r r1 using relay_events_answered [OF that] by simp_all
  show "so_status o' \<noteq> ''success''" if "relay_events rv p events r = (Some o', r1)" for p events r o' r1
    using relay_events_gone [OF that] by simp
qed

lemma chunks_split:
  assumes "push_all framer_default bs = (f, Inr frames)"
  shows "frames = render (fst (split_raw (concat bs)))" "fr_buffer f = snd (split_raw (concat bs))"
proof -
  have "fr_buffer framer_default = []" by (simp add: framer_default_def with_max_frame_bytes_def)
  then show "frames = render (fst (split_raw (concat bs)))" "fr_buffer f = snd (split_raw (concat bs))"
    using push_all_feed [OF _ assms] framer_idle_init raw_split.feed_chunks_concat [OF split_raw_Nil, of bs]
    by (simp_all add: framer_default_def)
qed

lemma relay_loop_reads:
  assumes "select_loop rv tick (relay_chunk rv) ps body r = Some (o', r')" and "so_status o' = ''success''"
  shows "o' = stream_success \<and> (\<exists>bs. body = map Inr bs \<and> relayed.read_through rv bs r r')"
proof -
  have "relay_chunk rv = (\<lambda>p. push_chunk (walk_frames rv (announce_failure rv) (relay_events rv p)))"
    by (rule ext) (simp add: relay_chunk_def)
  then show ?thesis using relayed.loop_reads assms by simp
qed

lemma check_complete_success:
  assumes "so_status (check_complete r o') = ''success''"
  shows "check_complete r o' = o'" "fr_buffer (rl_framer r) = []" "rl_terminal r"
  using assms by (auto simp: check_complete_def pending_bytes_def stream_error_def split: if_splits)

lemma send_terminator_sent:
  assumes "send_terminator rv p o' r = (o1, r')" and "so_status o1 = ''success''"
  shows "data_sent r' = data_sent r @ fst (encoder_finalize (rv_codec rv) (rl_encoder r))" "rl_usage r' = rl_usage r"
proof -
  obtain frames enc where f: "encoder_finalize (rv_codec rv) (rl_encoder r) = (frames, enc)" by fastforce
  then have "send_all frames (r\<lparr>rl_encoder := enc\<rparr>) = (True, r')"
    using assms by (auto simp: send_terminator_def split: prod.splits bool.splits)
  then show "data_sent r' = data_sent r @ fst (encoder_finalize (rv_codec rv) (rl_encoder r))" "rl_usage r' = rl_usage r"
    using send_all_sent data_append [OF finalized_data [OF f]] f by fastforce+
qed

lemma success_translated:
  assumes "drive_stream rv polls p pr (relay_start rv ctx a tr room) = Some (o', r')"
    and "so_status o' = ''success''" and "pr_full_events pr = None"
  shows "\<exists>bs evs. upstream_chunks pr = map Inr bs \<and> snd (split_raw (concat bs)) = [] \<and>
    read_frames (rv_codec rv) (rv_adapter rv) (render (fst (split_raw (concat bs)))) = Some (evs, True) \<and>
    data_sent r' = translated_answer (rv_codec rv) (set_include_usage (rv_include_usage rv) (encoder_new (rv_format rv) ctx))
      (tool_stream_new (rv_request_id rv)) evs \<and>
    rl_usage r' = merge_usages evs usage_default"
proof -
  let ?r = "relay_start rv ctx a tr room"
  obtain o1 r1 where 1: "select_loop rv (\<lambda>_. True) (relay_chunk rv) polls (upstream_chunks pr) ?r = Some (o1, r1)"
    and 2: "close_stream rv p (o1, r1) = (o', r')" using assms(1,3) by (auto simp: drive_stream_def)
  have s: "so_status (check_complete r1 o1) = ''success''" and t: "send_terminator rv p (check_complete r1 o1) r1 = (o', r')"
    using 2 assms(2) by (auto simp: close_stream_def Let_def split: if_splits)
  note c = check_complete_success [OF s]
  obtain bs where bs: "upstream_chunks pr = map Inr bs" "relayed.read_through rv bs ?r r1"
    using relay_loop_reads [OF 1] s c(1) by metis
  then obtain frames evs u where f: "push_all framer_default bs = (rl_framer r1, Inr frames)"
    "read_frames (rv_codec rv) (rv_adapter rv) frames = Some (evs, u)" "answered rv evs u ?r r1"
    by (auto simp: relayed.read_through_def relay_start_def)
  have "u" using f(3) c(3) by (auto simp: answered_def relay_start_def split: prod.splits)
  moreover have "data_sent r' = translated_answer (rv_codec rv)
      (set_include_usage (rv_include_usage rv) (encoder_new (rv_format rv) ctx)) (tool_stream_new (rv_request_id rv)) evs"
    and "rl_usage r' = merge_usages evs usage_default"
    using send_terminator_sent [OF t assms(2)] f(3)
    by (auto simp: answered_def relay_start_def translated_answer_def data_sent_def split: prod.splits)
  ultimately show ?thesis using bs(1) chunks_split [OF f(1)] c(2) f(2) by auto
qed

text \<open>
  C8. A streamed answer that ends in success is the translation of the whole upstream stream: every chunk was read, no
  frame was left incomplete, no payload was an error or unreadable, a terminal event was seen, and what the client was
  sent besides comments is exactly the encoding of the normalised events followed by the terminator, however the stream
  was cut into chunks and whatever else the driver's rounds were. The usage recorded is that of the events.
\<close>
theorem relay_translates:
  assumes "drive_stream rv polls p pr (relay_start rv ctx a tr room) = Some (o', r')"
    and "so_status o' = ''success''" and "pr_full_events pr = None"
  shows "\<exists>bs evs. upstream_chunks pr = map Inr bs \<and> snd (split_raw (concat bs)) = [] \<and>
    read_frames (rv_codec rv) (rv_adapter rv) (render (fst (split_raw (concat bs)))) = Some (evs, True) \<and>
    data_sent r' = translated_answer (rv_codec rv) (set_include_usage (rv_include_usage rv) (encoder_new (rv_format rv) ctx))
      (tool_stream_new (rv_request_id rv)) evs \<and>
    rl_usage r' = merge_usages evs usage_default"
  using assms by (rule success_translated)

section \<open>Passthrough\<close>

text \<open>The frames a passed-through stream keeps: all but reports of usage that the client did not ask for.\<close>

definition usage_report :: "relay_env \<Rightarrow> string \<Rightarrow> bool" where
  "usage_report rv frame \<longleftrightarrow> rv_format rv = OpenAiF \<and> \<not> rv_include_usage rv \<and>
     (case extract_data frame of
        None \<Rightarrow> False
      | Some data \<Rightarrow> trim data \<noteq> ''[DONE]'' \<and>
          (case ad_parse_stream_chunk (rv_adapter rv) data of Inl _ \<Rightarrow> False | Inr events \<Rightarrow> usage_only events))"

definition kept_frames :: "relay_env \<Rightarrow> string list \<Rightarrow> string list" where
  "kept_frames rv frames = map raw_frame (filter (\<lambda>f. \<not> usage_report rv f) frames)"

definition not_keepalive :: "string list \<Rightarrow> string list" where
  "not_keepalive = filter (\<lambda>f. f \<noteq> keepalive_frame)"

text \<open>What was sent and what still waits.\<close>

definition outflow :: "relay \<Rightarrow> string list" where
  "outflow r = not_keepalive (rl_sent r @ (if rl_committed r then [] else map raw_frame (rl_pending r)))"

definition forwarded :: "relay_env \<Rightarrow> string list \<Rightarrow> stream_event list \<Rightarrow> bool \<Rightarrow> relay \<Rightarrow> relay \<Rightarrow> bool" where
  "forwarded rv frames evs t r r' \<longleftrightarrow> outflow r' = outflow r @ not_keepalive frames \<and>
     rl_usage r' = merge_usages evs (rl_usage r) \<and> (rl_terminal r' \<longleftrightarrow> rl_terminal r \<or> t)"

lemma forwarded_trans:
  "forwarded rv xs evs t r r1 \<Longrightarrow> forwarded rv ys evs' u r1 r2 \<Longrightarrow> forwarded rv (xs @ ys) (evs @ evs') (t \<or> u) r r2"
  by (auto simp: forwarded_def not_keepalive_def merge_usages_append)

lemma forward_frame_flow:
  assumes "forward_frame rv p semantic frame r = (None, r')"
  shows "forwarded rv [raw_frame frame] [] False r r' \<and> rl_framer r' = rl_framer r"
proof (cases "rl_committed r")
  case True
  then have "send_one (raw_frame frame) r = (True, r')"
    using assms by (auto simp: forward_frame_def Let_def split: prod.splits bool.splits)
  then show ?thesis
    using True send_one_room by (fastforce simp: forwarded_def outflow_def not_keepalive_def merge_usages_def)
next
  case False
  show ?thesis
  proof (cases semantic)
    case True
    define r2 where "r2 = relay_flight rv (pl_ms p) ''commit'' ''first validated passthrough event''
        (mark_ttft rv (pl_ms p) (relay_app (\<lambda>a. a\<lparr>ap_live := mark_committed (rv_request_id rv) (ap_live a)\<rparr>)
          (r\<lparr>rl_pending := rl_pending r @ [frame], rl_committed := True, rl_trace := trace_commit (pl_ms p) (rl_trace r)\<rparr>)))"
    have r2: "rl_pending r2 = rl_pending r @ [frame]" "rl_committed r2" "rl_sent r2 = rl_sent r" "rl_usage r2 = rl_usage r"
      "rl_terminal r2 = rl_terminal r" "rl_framer r2 = rl_framer r"
      by (simp_all add: r2_def relay_flight_def mark_ttft_def)
    have "send_all (map raw_frame (rl_pending r2)) (r2\<lparr>rl_pending := []\<rparr>) = (True, r')"
      using assms False True by (auto simp: forward_frame_def Let_def r2_def split: prod.splits bool.splits)
    from send_all_sent [OF this] show ?thesis
      using False r2 by (simp add: forwarded_def outflow_def not_keepalive_def merge_usages_def)
  next
    case F: False
    then have "r' = r\<lparr>rl_pending := rl_pending r @ [frame]\<rparr>" using assms False by (simp add: forward_frame_def Let_def)
    then show ?thesis using False by (simp add: forwarded_def outflow_def not_keepalive_def merge_usages_def)
  qed
qed

lemma forward_frame_gone: "forward_frame rv p semantic frame r = (Some o', r') \<Longrightarrow> o' = client_gone"
  by (auto simp: forward_frame_def Let_def split: if_splits prod.splits bool.splits)

lemma note_events_flow:
  "outflow (fold (note_event rv ms) evs r) = outflow r" "rl_usage (fold (note_event rv ms) evs r) = merge_usages evs (rl_usage r)"
  "rl_terminal (fold (note_event rv ms) evs r) = rl_terminal r" "rl_framer (fold (note_event rv ms) evs r) = rl_framer r"
proof -
  have c: "rl_committed (note_event rv ms ev r) = rl_committed r" for ev and r :: relay
    by (simp add: note_event_def note_kind_def relay_flight_def split: stream_event.split)
  have 1: "outflow (note_event rv ms ev r) = outflow r" "rl_terminal (note_event rv ms ev r) = rl_terminal r"
    "rl_framer (note_event rv ms ev r) = rl_framer r" for ev and r :: relay
    using bookkeeping_state(2) [of r rv ms ev] c by (simp_all add: outflow_def same_answer_state_def)
  show "outflow (fold (note_event rv ms) evs r) = outflow r" by (induction evs arbitrary: r) (simp_all add: 1)
  show "rl_usage (fold (note_event rv ms) evs r) = merge_usages evs (rl_usage r)"
    by (induction evs arbitrary: r) (simp_all add: note_event_usage merge_usages_Cons flip: merge_usages_Cons, simp add: merge_usages_def)
  show "rl_terminal (fold (note_event rv ms) evs r) = rl_terminal r" by (induction evs arbitrary: r) (simp_all add: 1)
  show "rl_framer (fold (note_event rv ms) evs r) = rl_framer r" by (induction evs arbitrary: r) (simp_all add: 1)
qed

lemma kept_frames_Cons:
  "kept_frames rv (f # fs) = (if usage_report rv f then [] else [raw_frame f]) @ kept_frames rv fs"
  by (simp add: kept_frames_def)

lemma pass_frames_forwarded:
  assumes "pass_frames rv p frames r = (None, r')"
  shows "rl_framer r' = rl_framer r \<and>
    (\<exists>evs t. read_frames (rv_codec rv) (rv_adapter rv) frames = Some (evs, t) \<and>
       forwarded rv (kept_frames rv frames) evs t r r')"
  using assms
proof (induction frames arbitrary: r)
  case Nil
  then show ?case by (auto simp: forwarded_def kept_frames_def not_keepalive_def merge_usages_def)
next
  case (Cons frame frames)
  have go: "rl_framer r' = rl_framer r1 \<and> (\<exists>evs t. read_frames (rv_codec rv) (rv_adapter rv) frames = Some (evs, t) \<and>
       forwarded rv (raw_frame frame # kept_frames rv frames) evs t r1 r')"
    if "(case forward_frame rv p semantic frame r1 of (Some o', r') \<Rightarrow> (Some o', r') | (None, r') \<Rightarrow> pass_frames rv p frames r')
          = (None, r')" for semantic r1
  proof -
    obtain x r2 where x: "forward_frame rv p semantic frame r1 = (x, r2)" by fastforce
    then have 2: "forward_frame rv p semantic frame r1 = (None, r2)" "pass_frames rv p frames r2 = (None, r')"
      using that by (cases x; simp)+
    obtain evs t where "rl_framer r' = rl_framer r2" "read_frames (rv_codec rv) (rv_adapter rv) frames = Some (evs, t)"
      "forwarded rv (kept_frames rv frames) evs t r2 r'" using Cons.IH [OF 2(2)] by blast
    then show ?thesis
      using forward_frame_flow [OF 2(1)] forwarded_trans [of rv "[raw_frame frame]" "[]" False r1 r2 _ evs t r'] by auto
  qed
  show ?case
  proof (cases "extract_data frame")
    case None
    then show ?thesis using go [of False r] Cons.prems by (auto simp: kept_frames_Cons usage_report_def Let_def)
  next
    case (Some data)
    note data = Some
    show ?thesis
    proof (cases "trim data = ''[DONE]''")
      case True
      then show ?thesis
        using go [of False "r\<lparr>rl_terminal := True\<rparr>"] Cons.prems data
        by (auto simp: kept_frames_Cons usage_report_def Let_def forwarded_def outflow_def)
    next
      case False
      have pe: "payload_error_failure (rv_codec rv) (rv_adapter rv) data = None"
        using Cons.prems data False
        by (cases "payload_error_failure (rv_codec rv) (rv_adapter rv) data") (simp_all add: Let_def)
      obtain events where ev: "ad_parse_stream_chunk (rv_adapter rv) data = Inr events"
        using Cons.prems data False pe by (cases "ad_parse_stream_chunk (rv_adapter rv) data") (simp_all add: Let_def)
      define d where "d = payload_is_terminal (rv_codec rv) data events"
      define r1 where "r1 = fold (note_event rv (pl_ms p)) events (if d then r\<lparr>rl_terminal := True\<rparr> else r)"
      have f1: "forwarded rv [] events d r r1" "rl_framer r1 = rl_framer r"
        using note_events_flow [of rv "pl_ms p" events]
        by (auto simp: r1_def forwarded_def outflow_def not_keepalive_def)
      have u: "usage_report rv frame \<longleftrightarrow> rv_format rv = OpenAiF \<and> \<not> rv_include_usage rv \<and> usage_only events"
        using data False ev by (simp add: usage_report_def)
      obtain evs t where 2: "rl_framer r' = rl_framer r1" "read_frames (rv_codec rv) (rv_adapter rv) frames = Some (evs, t)"
        "forwarded rv (kept_frames rv (frame # frames)) evs t r1 r'"
      proof (cases "usage_report rv frame")
        case True
        then have "pass_frames rv p frames r1 = (None, r')"
          using Cons.prems data False pe ev u by (simp add: Let_def d_def r1_def)
        then show thesis using Cons.IH True that by (fastforce simp: kept_frames_Cons)
      next
        case F: False
        then show thesis
          using go [of "list_ex is_semantic_event events" r1] Cons.prems data False pe ev u that
          by (auto simp: Let_def d_def r1_def kept_frames_Cons)
      qed
      then show ?thesis
        using forwarded_trans [OF f1(1) 2(3)] f1(2) data False pe ev by (simp add: d_def)
    qed
  qed
qed

lemma pass_frames_fails: "pass_frames rv p frames r = (Some o', r') \<Longrightarrow> so_status o' \<noteq> ''success''"
proof (induction frames arbitrary: r)
  case (Cons frame frames)
  have go: "so_status o' \<noteq> ''success''"
    if "(case forward_frame rv p semantic frame r1 of (Some o', r') \<Rightarrow> (Some o', r') | (None, r') \<Rightarrow> pass_frames rv p frames r')
          = (Some o', r')" for semantic r1
    using that Cons.IH by (auto dest!: forward_frame_gone split: prod.splits option.splits)
  show ?case
  proof (cases "extract_data frame")
    case (Some data)
    then show ?thesis
      using Cons go
      by (cases "trim data = ''[DONE]''"; cases "payload_error_failure (rv_codec rv) (rv_adapter rv) data";
          cases "ad_parse_stream_chunk (rv_adapter rv) data") (auto simp: Let_def split: if_splits)
  qed (use Cons.prems go in \<open>auto simp: Let_def\<close>)
qed simp

definition passed_through :: "relay_env \<Rightarrow> string list \<Rightarrow> relay \<Rightarrow> relay \<Rightarrow> bool" where
  "passed_through rv bs r r' \<longleftrightarrow>
     (\<exists>frames evs t. push_all (rl_framer r) bs = (rl_framer r', Inr frames) \<and>
        read_frames (rv_codec rv) (rv_adapter rv) frames = Some (evs, t) \<and>
        forwarded rv (kept_frames rv frames) evs t r r')"

lemma passed_through_step:
  assumes "pass_chunk rv p b r = (None, r1)" and "passed_through rv bs r1 r2"
  shows "passed_through rv (b # bs) r r2"
proof -
  obtain f frames where 1: "push (rl_framer r) b = (f, Inr frames)"
    and 2: "pass_frames rv p frames (r\<lparr>rl_framer := f\<rparr>) = (None, r1)"
    using assms(1) by (auto simp: pass_chunk_def elim: push_chunk_None)
  obtain evs t where 3: "rl_framer r1 = f" "read_frames (rv_codec rv) (rv_adapter rv) frames = Some (evs, t)"
    "forwarded rv (kept_frames rv frames) evs t (r\<lparr>rl_framer := f\<rparr>) r1" using pass_frames_forwarded [OF 2] by auto
  then have 4: "forwarded rv (kept_frames rv frames) evs t r r1" by (simp add: forwarded_def outflow_def)
  obtain gs evs' t' where 5: "push_all (rl_framer r1) bs = (rl_framer r2, Inr gs)"
    "read_frames (rv_codec rv) (rv_adapter rv) gs = Some (evs', t')" "forwarded rv (kept_frames rv gs) evs' t' r1 r2"
    using assms(2) by (auto simp: passed_through_def)
  have "kept_frames rv (frames @ gs) = kept_frames rv frames @ kept_frames rv gs" by (simp add: kept_frames_def)
  then show ?thesis
    unfolding passed_through_def using 1 3 5 forwarded_trans [OF 4 5(3)]
    by (intro exI [of _ "frames @ gs"] exI [of _ "evs @ evs'"] exI [of _ "t \<or> t'"]) (simp add: read_frames_append)
qed

lemma passed_through_tick:
  assumes "send_one keepalive_frame r = (True, r1)" and "passed_through rv bs r1 r2"
  shows "passed_through rv bs r r2"
proof -
  have r1: "r1 = r\<lparr>rl_room := rl_room r - 1, rl_sent := rl_sent r @ [keepalive_frame]\<rparr>" by (rule send_one_room [OF assms(1)])
  then have "outflow r1 = outflow r" by (simp add: outflow_def not_keepalive_def)
  then show ?thesis using assms(2) r1 by (simp add: passed_through_def forwarded_def)
qed

text \<open>
  C10. A passed-through answer that ends in success reaches the client byte for byte: frame by frame, the whole upstream
  stream, less the reports of usage the client did not ask for, with nothing but keepalives in between. Its usage is
  recorded all the same.
\<close>
theorem passthrough_faithful:
  assumes "drive_stream_passthrough rv ctx polls pr (relay_start rv ctx a tr room) = Some (o', r')"
    and "so_status o' = ''success''" and "rl_committed r'"
  shows "\<exists>bs evs. upstream_chunks pr = map Inr bs \<and> snd (split_raw (concat bs)) = [] \<and>
    read_frames (rv_codec rv) (rv_adapter rv) (render (fst (split_raw (concat bs)))) = Some (evs, True) \<and>
    not_keepalive (rl_sent r') = not_keepalive (kept_frames rv (render (fst (split_raw (concat bs))))) \<and>
    rl_usage r' = merge_usages evs usage_default"
proof -
  let ?r = "relay_start rv ctx a tr room"
  obtain o1 r1 where 1: "select_loop rv rl_committed (pass_chunk rv) polls (upstream_chunks pr) ?r = Some (o1, r1)"
    and 2: "close_passthrough rv ctx (o1, r1) = (o', r')" using assms(1) by (auto simp: drive_stream_passthrough_def)
  have s: "so_status (check_complete r1 o1) = ''success''" and r': "r' = r1"
    using 2 assms(2) by (auto simp: close_passthrough_def Let_def split: if_splits)
  note c = check_complete_success [OF s]
  have "o1 = stream_success \<and> (\<exists>bs. upstream_chunks pr = map Inr bs \<and> passed_through rv bs ?r r1)"
  proof (rule select_loop_reads [OF 1])
    show "so_status o1 = ''success''" using s c(1) by simp
    show "pass_chunk rv p b r = (Some o', r') \<Longrightarrow> so_status o' \<noteq> ''success''" for p b r o' r'
      unfolding pass_chunk_def by (rule push_chunk_fails [OF pass_frames_fails])
    show "passed_through rv [] r r" for r
      by (auto simp: passed_through_def forwarded_def kept_frames_def not_keepalive_def merge_usages_def)
  qed (fact passed_through_step, fact passed_through_tick)
  then obtain bs frames evs u where bs: "upstream_chunks pr = map Inr bs" and f: "push_all framer_default bs = (rl_framer r1, Inr frames)"
    "read_frames (rv_codec rv) (rv_adapter rv) frames = Some (evs, u)" "forwarded rv (kept_frames rv frames) evs u ?r r1"
    by (auto simp: passed_through_def relay_start_def)
  have "u" "rl_usage r1 = merge_usages evs usage_default"
    "not_keepalive (rl_sent r1) = not_keepalive (kept_frames rv frames)"
    using f(3) c(3) assms(3) r' by (auto simp: forwarded_def relay_start_def outflow_def not_keepalive_def)
  then show ?thesis using bs chunks_split [OF f(1)] c(2) f(2) r' by auto
qed

section \<open>Delivery\<close>

text \<open>The number of frames that events become, and what the driver does while the client has room for them.\<close>

definition frames_of :: "relay_env \<Rightarrow> stream_event list \<Rightarrow> relay \<Rightarrow> nat" where
  "frames_of rv evs r = length (fst (encode_events (rv_codec rv) (fst (normalize_events evs (rl_tools r))) (rl_encoder r)))"

lemma frames_of_append: "answered rv xs t r r1 \<Longrightarrow> frames_of rv (xs @ ys) r = frames_of rv xs r + frames_of rv ys r1"
  by (auto simp: frames_of_def answered_def normalize_append encode_events_append Let_def split: prod.splits)

lemma frames_of_prefix: "frames_of rv xs r \<le> frames_of rv (xs @ ys) r"
  by (simp add: frames_of_def normalize_append encode_events_append Let_def split: prod.split)

lemma send_all_room: "length fs \<le> rl_room r \<Longrightarrow> \<exists>r'. send_all fs r = (True, r') \<and> rl_room r' = rl_room r - length fs"
proof (induction fs arbitrary: r)
  case (Cons f fs)
  then show ?case using Cons.IH [of "r\<lparr>rl_room := rl_room r - 1, rl_sent := rl_sent r @ [f]\<rparr>"] by (auto simp: send_one_def)
qed simp

lemma send_frames_room:
  assumes "length fs \<le> rl_room r"
  shows "\<exists>r'. send_frames rv ms fs r = (True, r') \<and> rl_room r' = rl_room r - length fs"
proof -
  let ?r = "if fs = [] \<or> rl_committed r then r else commit_relay rv ms ''first client bytes'' r"
  have "rl_room ?r = rl_room r" using bookkeeping_state(5) [of r rv ms] by (simp add: same_answer_state_def)
  then show ?thesis unfolding send_frames_def using send_all_room [of fs ?r] assms by simp
qed

lemma emit_events_room:
  "encode_events (rv_codec rv) evs (rl_encoder r) = (fs, e) \<Longrightarrow> length fs \<le> rl_room r \<Longrightarrow>
   \<exists>r'. emit_events rv ms marked evs r = (True, r') \<and> rl_room r' = rl_room r - length fs"
proof (induction evs arbitrary: marked r fs)
  case (Cons ev evs)
  let ?r1 = "note_event rv ms ev r"
  have n: "same_answer_state r ?r1" using bookkeeping_state by blast
  obtain gs e1 where g: "encoder_encode (rv_codec rv) ev (rl_encoder ?r1) = (gs, e1)" by fastforce
  obtain m r2 where m: "mark_frames rv ms marked gs (?r1\<lparr>rl_encoder := e1\<rparr>) = (m, r2)" by fastforce
  have k: "same_answer_state (?r1\<lparr>rl_encoder := e1\<rparr>) r2" using bookkeeping_state(4) m by (metis snd_conv)
  obtain hs where h: "encode_events (rv_codec rv) evs e1 = (hs, e)" "fs = gs @ hs"
    using Cons.prems(1) g n by (auto simp: same_answer_state_def Let_def split: prod.splits)
  have room: "rl_room r2 = rl_room r" "rl_encoder r2 = e1" using k n by (auto simp: same_answer_state_def)
  obtain r3 where 3: "send_frames rv ms gs r2 = (True, r3)" "rl_room r3 = rl_room r - length gs"
    using send_frames_room [of gs r2 rv ms] Cons.prems(2) h(2) room by auto
  then have "encode_events (rv_codec rv) evs (rl_encoder r3) = (hs, e)" using send_frames_sent [OF 3(1)] room h by simp
  moreover have "length hs \<le> rl_room r3" using Cons.prems(2) h(2) 3(2) by simp
  ultimately obtain r4 where "emit_events rv ms m evs r3 = (True, r4)" "rl_room r4 = rl_room r3 - length hs"
    using Cons.IH [of r3 hs m] by auto
  then show ?case using g m 3 h(2) by (simp add: Let_def)
qed simp

lemma relay_events_room:
  assumes "frames_of rv events r \<le> rl_room r"
  shows "\<exists>r'. relay_events rv p events r = (None, r') \<and> rl_room r' = rl_room r - frames_of rv events r"
proof -
  obtain nevs ts where n: "normalize_events events (rl_tools r) = (nevs, ts)" by fastforce
  obtain fs e where f: "encode_events (rv_codec rv) nevs (rl_encoder r) = (fs, e)" by fastforce
  let ?r = "relay_app (capture_events rv (pl_now p) nevs) (r\<lparr>rl_tools := ts\<rparr>)"
  obtain r' where "emit_events rv (pl_ms p) False nevs ?r = (True, r')" "rl_room r' = rl_room r - length fs"
    using emit_events_room [of rv nevs ?r fs e] assms n f by (auto simp: frames_of_def)
  then show ?thesis using n f by (simp add: relay_events_def normalize_captured_def frames_of_def)
qed

lemma walk_frames_room:
  assumes "read_frames (rv_codec rv) (rv_adapter rv) frames = Some (evs, t)" and "frames_of rv evs r \<le> rl_room r"
  shows "\<exists>r'. walk_frames rv fail (relay_events rv p) frames r = (None, r') \<and> rl_room r' = rl_room r - frames_of rv evs r"
  using assms
proof (induction frames arbitrary: evs t r)
  case Nil
  then show ?case by (simp add: frames_of_def)
next
  case (Cons frame frames)
  show ?case
  proof (cases "extract_data frame")
    case None
    then have "read_frames (rv_codec rv) (rv_adapter rv) frames = Some (evs, t)" using Cons.prems(1) by simp
    then show ?thesis using Cons.IH Cons.prems(2) None by simp
  next
    case (Some data)
    note data = Some
    show ?thesis
    proof (cases "trim data = ''[DONE]''")
      case True
      then obtain u where "read_frames (rv_codec rv) (rv_adapter rv) frames = Some (evs, u)"
        using Cons.prems(1) data by auto
      then show ?thesis
        using Cons.IH [of evs u "r\<lparr>rl_terminal := True\<rparr>"] Cons.prems(2) True data by (simp add: frames_of_def)
    next
      case False
      have pe: "payload_error_failure (rv_codec rv) (rv_adapter rv) data = None"
        using Cons.prems(1) data False by (simp split: if_splits)
      obtain events where ev: "ad_parse_stream_chunk (rv_adapter rv) data = Inr events"
        using Cons.prems(1) data False pe by (cases "ad_parse_stream_chunk (rv_adapter rv) data") simp_all
      obtain more t' where m: "read_frames (rv_codec rv) (rv_adapter rv) frames = Some (more, t')" "evs = events @ more"
        using Cons.prems(1) data False pe ev by auto
      define r0 where "r0 = (if payload_is_terminal (rv_codec rv) data events then r\<lparr>rl_terminal := True\<rparr> else r)"
      have r0: "frames_of rv x r0 = frames_of rv x r" "rl_room r0 = rl_room r" for x by (simp_all add: r0_def frames_of_def)
      obtain r1 where 1: "relay_events rv p events r0 = (None, r1)" "rl_room r1 = rl_room r0 - frames_of rv events r0"
        using relay_events_room [of rv events r0] Cons.prems(2) r0 frames_of_prefix [of rv events r more] m(2) by fastforce
      have "frames_of rv evs r = frames_of rv events r0 + frames_of rv more r1"
        using frames_of_append relay_events_answered [OF 1(1)] m(2) r0 by metis
      moreover from this have "frames_of rv more r1 \<le> rl_room r1" using 1(2) r0 Cons.prems(2) by simp
      ultimately obtain r2 where "walk_frames rv fail (relay_events rv p) frames r1 = (None, r2)"
        "rl_room r2 = rl_room r1 - frames_of rv more r1"
        using Cons.IH [OF m(1), of r1] by auto
      then show ?thesis
        using data False pe ev 1 r0 \<open>frames_of rv evs r = _ + frames_of rv more r1\<close> by (simp add: r0_def)
    qed
  qed
qed

text \<open>A round that does not end the driver by itself, and the rounds that turn to the upstream.\<close>

definition quiet_poll :: "poll \<Rightarrow> bool" where
  "quiet_poll p \<longleftrightarrow> \<not> pl_gone p \<and> (case pl_pick p of Notified gone \<Rightarrow> \<not> gone | Idle_Elapsed \<Rightarrow> False | _ \<Rightarrow> True)"

definition upstream_polls :: "poll list \<Rightarrow> nat" where
  "upstream_polls ps = length (filter (\<lambda>p. pl_pick p = Upstream_Ready) ps)"

lemma select_loop_delivers:
  assumes "\<forall>p \<in> set ps. quiet_poll p" and "length bs < upstream_polls ps"
    and "push_all (rl_framer r) bs = (f, Inr frames)"
    and "read_frames (rv_codec rv) (rv_adapter rv) frames = Some (evs, t)"
    and "frames_of rv evs r + length ps \<le> rl_room r"
  shows "\<exists>r'. select_loop rv (\<lambda>_. True) (relay_chunk rv) ps (map Inr bs) r = Some (stream_success, r') \<and>
    rl_room r \<le> rl_room r' + frames_of rv evs r + length ps"
  using assms
proof (induction ps arbitrary: bs r frames evs t)
  case Nil
  then show ?case by (simp add: upstream_polls_def)
next
  case (Cons p ps)
  have q: "\<not> pl_gone p" "\<forall>p \<in> set ps. quiet_poll p" using Cons.prems(1) by (auto simp: quiet_poll_def)
  show ?case
  proof (cases "pl_pick p")
    case (Notified gone)
    then have "\<not> gone" "length bs < upstream_polls ps" using Cons.prems(1,2) by (auto simp: quiet_poll_def upstream_polls_def)
    moreover have "frames_of rv evs r + length ps \<le> rl_room r" using Cons.prems(5) by simp
    ultimately obtain r' where "select_loop rv (\<lambda>_. True) (relay_chunk rv) ps (map Inr bs) r = Some (stream_success, r')"
      "rl_room r \<le> rl_room r' + frames_of rv evs r + length ps"
      using Cons.IH [OF q(2) _ Cons.prems(3,4)] by blast
    then show ?thesis using Notified \<open>\<not> gone\<close> q(1) by auto
  next
    case Keepalive_Tick
    define r1 where "r1 = r\<lparr>rl_room := rl_room r - 1, rl_sent := rl_sent r @ [keepalive_frame]\<rparr>"
    have s: "send_one keepalive_frame r = (True, r1)" using Cons.prems(5) by (simp add: send_one_def r1_def)
    have "length bs < upstream_polls ps" using Cons.prems(2) Keepalive_Tick by (simp add: upstream_polls_def)
    moreover have "frames_of rv evs r1 = frames_of rv evs r" "rl_framer r1 = rl_framer r" "Suc (rl_room r1) = rl_room r"
      using Cons.prems(5) by (auto simp: frames_of_def r1_def)
    moreover have "frames_of rv evs r1 + length ps \<le> rl_room r1" using calculation Cons.prems(5) by simp
    ultimately obtain r' where "select_loop rv (\<lambda>_. True) (relay_chunk rv) ps (map Inr bs) r1 = Some (stream_success, r')"
      "rl_room r1 \<le> rl_room r' + frames_of rv evs r1 + length ps"
      using Cons.IH [OF q(2) _ _ Cons.prems(4), of bs r1] Cons.prems(3) by auto
    then show ?thesis using Keepalive_Tick q(1) s \<open>frames_of rv evs r1 = _\<close> \<open>Suc _ = _\<close> by auto
  next
    case Idle_Elapsed
    then show ?thesis using Cons.prems(1) by (simp add: quiet_poll_def)
  next
    case Upstream_Ready
    show ?thesis
    proof (cases bs)
      case Nil
      then show ?thesis using Upstream_Ready q(1) by simp
    next
      case (Cons b rest)
      obtain f1 fs1 fs2 where 1: "push (rl_framer r) b = (f1, Inr fs1)" "push_all f1 rest = (f, Inr fs2)" "frames = fs1 @ fs2"
        using Cons.prems(3) \<open>bs = b # rest\<close> by (auto split: prod.splits sum.splits)
      obtain ev1 t1 ev2 t2 where 2: "read_frames (rv_codec rv) (rv_adapter rv) fs1 = Some (ev1, t1)"
        "read_frames (rv_codec rv) (rv_adapter rv) fs2 = Some (ev2, t2)" "evs = ev1 @ ev2"
        using Cons.prems(4) 1(3) by (auto simp: read_frames_append split: option.splits prod.splits)
      let ?r = "r\<lparr>rl_framer := f1\<rparr>"
      have fr: "frames_of rv x ?r = frames_of rv x r" for x by (simp add: frames_of_def)
      obtain r1 where 3: "walk_frames rv (announce_failure rv) (relay_events rv p) fs1 ?r = (None, r1)"
        "rl_room r1 = rl_room r - frames_of rv ev1 r"
        using walk_frames_room [OF 2(1), of ?r] Cons.prems(5) frames_of_prefix [of rv ev1 r ev2] 2(3) fr by fastforce
      have 4: "rl_framer r1 = f1" "answered rv ev1 t1 ?r r1" using relayed.walk_told [OF 3(1)] 2(1) by auto
      then have 5: "frames_of rv evs r = frames_of rv ev1 r + frames_of rv ev2 r1"
        using frames_of_append [of rv ev1 t1 ?r r1 ev2] 2(3) fr by simp
      have "length rest < upstream_polls ps"
        using Cons.prems(2) Upstream_Ready \<open>bs = b # rest\<close> by (simp add: upstream_polls_def)
      moreover have "frames_of rv ev2 r1 + length ps \<le> rl_room r1" using 3(2) 5 Cons.prems(5) by simp
      ultimately obtain r' where 6: "select_loop rv (\<lambda>_. True) (relay_chunk rv) ps (map Inr rest) r1 = Some (stream_success, r')"
        "rl_room r1 \<le> rl_room r' + frames_of rv ev2 r1 + length ps"
        using Cons.IH [OF q(2), of rest r1 fs2 ev2 t2] 1(2) 2(2) 4(1) by auto
      have "relay_chunk rv p b r = (None, r1)" using 1(1) 3(1) by (simp add: relay_chunk_def push_chunk_def)
      then show ?thesis using 6 3(2) 5 Upstream_Ready q(1) \<open>bs = b # rest\<close> by auto
    qed
  qed
qed

lemma stays_delivered:
  assumes "pr_full_events pr = None" and "upstream_chunks pr = map Inr bs"
    and "push_all framer_default bs = (f, Inr frames)" and "fr_buffer f = []"
    and "read_frames (rv_codec rv) (rv_adapter rv) frames = Some (evs, True)"
    and "\<forall>q \<in> set polls. quiet_poll q" and "length bs < upstream_polls polls"
    and "length (translated_answer (rv_codec rv) (set_include_usage (rv_include_usage rv) (encoder_new (rv_format rv) ctx))
      (tool_stream_new (rv_request_id rv)) evs) + length polls \<le> room"
  shows "\<exists>r'. drive_stream rv polls p pr (relay_start rv ctx a tr room) = Some (stream_success, r') \<and>
    data_sent r' = translated_answer (rv_codec rv) (set_include_usage (rv_include_usage rv) (encoder_new (rv_format rv) ctx))
      (tool_stream_new (rv_request_id rv)) evs \<and>
    rl_usage r' = merge_usages evs usage_default"
proof -
  let ?r = "relay_start rv ctx a tr room"
  obtain nevs ts where nn: "normalize_events evs (tool_stream_new (rv_request_id rv)) = (nevs, ts)" by fastforce
  obtain fs e where e: "encode_events (rv_codec rv) nevs
      (set_include_usage (rv_include_usage rv) (encoder_new (rv_format rv) ctx)) = (fs, e)" by fastforce
  with nn have n: "frames_of rv evs ?r = length fs" "rl_room ?r = room" "rl_framer ?r = framer_default"
    by (simp_all add: frames_of_def relay_start_def)
  have room: "length fs + length (fst (encoder_finalize (rv_codec rv) e)) + length polls \<le> room"
    using assms(8) nn e by (simp add: translated_answer_def)
  obtain r1 where 1: "select_loop rv (\<lambda>_. True) (relay_chunk rv) polls (map Inr bs) ?r = Some (stream_success, r1)"
    and r1: "room \<le> rl_room r1 + length fs + length polls"
    using select_loop_delivers [OF assms(6,7), of ?r f frames rv evs True] assms(3,5) n room by auto
  obtain bs' where bs': "map Inr bs = map (Inr :: string \<Rightarrow> transport_error + string) bs'" "relayed.read_through rv bs' ?r r1"
    using relay_loop_reads [OF 1] by auto
  then have "bs' = bs" by (metis inj_Inr inj_map_eq_map)
  then have "rl_framer r1 = f" "rl_terminal r1" "rl_encoder r1 = e"
    using bs'(2) assms(3,5) nn e by (auto simp: relayed.read_through_def answered_def relay_start_def)
  then have c: "check_complete r1 stream_success = stream_success"
    using assms(4) by (simp add: check_complete_def pending_bytes_def)
  obtain gs e' where g: "encoder_finalize (rv_codec rv) e = (gs, e')" by fastforce
  obtain r2 where "send_all gs (r1\<lparr>rl_encoder := e'\<rparr>) = (True, r2)"
    using send_all_room [of gs "r1\<lparr>rl_encoder := e'\<rparr>"] room r1 g by auto
  then have "close_stream rv p (stream_success, r1) = (stream_success, r2)"
    using c g \<open>rl_encoder r1 = e\<close> by (simp add: close_stream_def send_terminator_def)
  then have d: "drive_stream rv polls p pr ?r = Some (stream_success, r2)"
    using 1 assms(1,2) by (simp add: drive_stream_def)
  have ok: "so_status stream_success = ''success''" by simp
  obtain cs evs' where t: "upstream_chunks pr = map Inr cs"
      "read_frames (rv_codec rv) (rv_adapter rv) (render (fst (split_raw (concat cs)))) = Some (evs', True)"
      "data_sent r2 = translated_answer (rv_codec rv) (set_include_usage (rv_include_usage rv) (encoder_new (rv_format rv) ctx))
        (tool_stream_new (rv_request_id rv)) evs'" "rl_usage r2 = merge_usages evs' usage_default"
    using success_translated [OF d ok assms(1)] by blast
  have "cs = bs" using t(1) assms(2) by (metis inj_Inr inj_map_eq_map)
  then have "evs' = evs" using t(2) assms(5) chunks_split(1) [OF assms(3)] by simp
  then show ?thesis using d t(3,4) by blast
qed

text \<open>
  C35. Delivery: a complete upstream stream that the framer accepts and the adapter reads, with a terminal event, is
  relayed to its end and reported as a success, for every client that stays to take the answer and the keepalives, as
  soon as the driver has turned to the upstream once more than there are chunks. What the client was sent by then, besides
  comments, is the encoding of all the events that were read, followed by the terminator, and their usage is recorded.
\<close>
theorem relay_delivers:
  assumes "pr_full_events pr = None" and "upstream_chunks pr = map Inr bs"
    and "push_all framer_default bs = (f, Inr frames)" and "fr_buffer f = []"
    and "read_frames (rv_codec rv) (rv_adapter rv) frames = Some (evs, True)"
    and "\<forall>q \<in> set polls. quiet_poll q" and "length bs < upstream_polls polls"
    and "length (translated_answer (rv_codec rv) (set_include_usage (rv_include_usage rv) (encoder_new (rv_format rv) ctx))
      (tool_stream_new (rv_request_id rv)) evs) + length polls \<le> room"
  shows "\<exists>r'. drive_stream rv polls p pr (relay_start rv ctx a tr room) = Some (stream_success, r') \<and>
    data_sent r' = translated_answer (rv_codec rv) (set_include_usage (rv_include_usage rv) (encoder_new (rv_format rv) ctx))
      (tool_stream_new (rv_request_id rv)) evs \<and>
    rl_usage r' = merge_usages evs usage_default"
  using assms by (rule stays_delivered)

text \<open>
  C36. A driver ends: it goes on only while it has not turned to the upstream more often than there are chunks, whatever
  else its rounds are.
\<close>
theorem relay_ends:
  assumes "length (upstream_chunks pr) < upstream_polls polls"
  shows "drive_stream rv polls p pr r \<noteq> None \<and> drive_stream_passthrough rv ctx polls pr r \<noteq> None"
proof -
  have "select_loop rv tick chunk ps body r \<noteq> None" if "length body < upstream_polls ps" for tick chunk ps body r
    using that
  proof (induction ps arbitrary: body r)
    case (Cons p ps)
    show ?case
    proof (cases "pl_pick p = Upstream_Ready \<and> body \<noteq> []")
      case True
      then obtain x rest where b: "body = x # rest" by (cases body) auto
      then have "length rest < upstream_polls ps" using Cons.prems True by (simp add: upstream_polls_def)
      then show ?thesis using True b Cons.IH by (cases x) (auto split: prod.split option.split)
    next
      case False
      then have "pl_pick p \<noteq> Upstream_Ready \<Longrightarrow> length body < upstream_polls ps"
        using Cons.prems by (simp add: upstream_polls_def)
      then show ?thesis
        using False Cons.IH by (cases "pl_pick p") (auto split: prod.split bool.split simp del: not_None_eq)
    qed
  qed (simp add: upstream_polls_def)
  then show ?thesis
    using assms by (simp add: drive_stream_def drive_stream_passthrough_def del: not_None_eq split: option.split)
qed

text \<open>
  C37. A payload that carries an error is announced twice: once where it is met and once more after the loop, so a chat
  client receives two error objects and two terminators.
\<close>
theorem failure_announced_twice:
  assumes "pr_full_events pr = None" and "upstream_chunks pr = Inr bytes # rest"
    and "\<not> pl_gone q" and "pl_pick q = Upstream_Ready"
    and "push (rl_framer r) bytes = (f, Inr (frame # frames))" and "extract_data frame = Some data"
    and "trim data \<noteq> ''[DONE]''" and "payload_error_failure (rv_codec rv) (rv_adapter rv) data = Some fl"
    and "rl_encoder r = Enc_OpenAi e" and "6 \<le> rl_room r"
  shows "\<exists>o' r'. drive_stream rv (q # polls) p pr r = Some (o', r') \<and> so_status o' = ''stream_error'' \<and>
    rl_sent r' = rl_sent r @ openai_error_frame (rv_codec rv) (uf_message fl) e @ openai_error_frame (rv_codec rv) (uf_message fl) e"
proof -
  let ?o = "stream_error 502 (uf_message fl) (Some (uf_kind fl, uf_status fl))"
  have anyway: "send_anyway (openai_error_frame (rv_codec rv) m e) s =
      s\<lparr>rl_room := rl_room s - 3, rl_sent := rl_sent s @ openai_error_frame (rv_codec rv) m e\<rparr>" if "3 \<le> rl_room s" for m s
    using that by (simp add: send_anyway_def send_one_def openai_error_frame_def openai_frames_def)
  have told: "announce_failure rv m s = s\<lparr>rl_encoder := Enc_OpenAi e, rl_room := rl_room s - 3,
      rl_sent := rl_sent s @ openai_error_frame (rv_codec rv) m e\<rparr>" if "rl_encoder s = Enc_OpenAi e" "3 \<le> rl_room s" for m s
    using that by (simp add: announce_failure_def anyway)
  define r1 where "r1 = announce_failure rv (uf_message fl) (r\<lparr>rl_framer := f\<rparr>)"
  have "relay_chunk rv q bytes r = (Some ?o, r1)"
    using assms by (simp add: relay_chunk_def push_chunk_def r1_def)
  then have "select_loop rv (\<lambda>_. True) (relay_chunk rv) (q # polls) (upstream_chunks pr) r = Some (?o, r1)"
    using assms by simp
  moreover have r1: "rl_encoder r1 = Enc_OpenAi e" "3 \<le> rl_room r1"
    "rl_sent r1 = rl_sent r @ openai_error_frame (rv_codec rv) (uf_message fl) e"
    using assms told by (simp_all add: r1_def)
  have "rl_sent (snd (close_stream rv p (?o, r1))) = rl_sent r1 @ openai_error_frame (rv_codec rv) (uf_message fl) e"
    using r1 told by (simp add: close_stream_def check_complete_def end_message_def count_post_commit_def stream_error_def
        unwrap_or_def Let_def)
  moreover have "so_status (fst (close_stream rv p (?o, r1))) = ''stream_error''"
    by (simp add: close_stream_def check_complete_def Let_def)
  ultimately show ?thesis
    using assms(1) r1(3) by (cases "close_stream rv p (?o, r1)") (simp add: drive_stream_def)
qed

section \<open>Concrete runs\<close>

text \<open>A stream of one chunk: a payload without events, a word, and the end.\<close>

definition demo_relay_codec :: codec where
  "demo_relay_codec = demo_codec\<lparr>de_value := (\<lambda>_. None), ser_value := (\<lambda>_. ''v'')\<rparr>"

definition demo_relay_env :: relay_env where
  "demo_relay_env = \<lparr>rv_codec = demo_relay_codec, rv_cipher = demo_sound_suite,
     rv_format = OpenAiF, rv_request_id = ''r'', rv_include_usage = False, rv_adapter = demo_adapter, rv_is_sse = True,
     rv_key_id = None, rv_session = None, rv_opaque_target = None\<rparr>"

definition demo_relay_ctx :: encoder_ctx where
  "demo_relay_ctx = \<lparr>ec_model_name = ''m'', ec_request_id = ''r'', ec_created = 0, ec_responses = responses_fields_default\<rparr>"

definition demo_relay_app :: app_state where
  "demo_relay_app = \<lparr>ap_db = empty_db, ap_snapshot = snapshot_default, ap_circuits = Map.empty, ap_traffic = Map.empty,
     ap_quota = quota_empty, ap_telemetry = telemetry_new Map.empty, ap_flight = flight_default, ap_live = live_new 4,
     ap_opaque = store_new [], ap_outbound = ([], []), ap_sticky = Map.empty, ap_rr_counters = Map.empty,
     ap_total_requests = 0, ap_route_skips = 0, ap_route_fallbacks = 0, ap_failures_pre_commit = 0, ap_route_traces = []\<rparr>"

definition demo_chunk :: string where
  "demo_chunk = ''data: s'' @ [LF, LF] @ ''data: x'' @ [LF, LF] @ ''data: [DONE]'' @ [LF, LF]"

definition demo_prepared :: "string \<Rightarrow> prepared_upstream" where
  "demo_prepared chunk = \<lparr>pr_stream = Some [], pr_prefetched = [chunk], pr_full_events = None,
     pr_precommit_usage = usage_default, pr_is_sse = True\<rparr>"

definition demo_poll :: "pick \<Rightarrow> poll" where
  "demo_poll x = \<lparr>pl_gone = False, pl_pick = x, pl_ms = 0, pl_now = 0, pl_signal_ms = 0\<rparr>"

abbreviation demo_polls :: "poll list" where
  "demo_polls \<equiv> [demo_poll Keepalive_Tick, demo_poll Upstream_Ready, demo_poll (Notified False), demo_poll Upstream_Ready]"

abbreviation demo_relay :: relay where
  "demo_relay \<equiv> relay_start demo_relay_env demo_relay_ctx demo_relay_app (trace_new ''r'' ''o'' ''m'') 100"

lemma push_whole:
  assumes "split_raw b = (rs, [])" and "\<forall>r \<in> set rs. length r \<le> 100"
  shows "\<exists>f. push framer_default b = (f, Inr (render rs)) \<and> fr_buffer f = []"
proof -
  have idle: "framer_idle framer_default" by (simp add: framer_default_def framer_idle_init)
  have buf: "fr_buffer framer_default = []" by (simp add: framer_default_def with_max_frame_bytes_def)
  have "\<forall>r \<in> set (fst (split_raw b)). length r \<le> fr_max_frame_bytes framer_default"
    using assms by (fastforce simp: framer_default_def with_max_frame_bytes_def DEFAULT_MAX_FRAME_BYTES_def)
  then have "framer_spec (fr_max_frame_bytes framer_default) b = Inr (render rs, [])"
    using framer_spec_ok [of b "fr_max_frame_bytes framer_default"] assms(1) by simp
  then have "push framer_default b = (framer_default\<lparr>fr_buffer := [], fr_scan_from := 0\<rparr>, Inr (render rs))"
    using push_spec [OF idle, of b] buf by simp
  then show ?thesis by simp
qed

lemma demo_pushed: "\<exists>f. push framer_default demo_chunk = (f, Inr [''data: s'', ''data: x'', ''data: [DONE]'']) \<and> fr_buffer f = []"
proof -
  have "split_raw demo_chunk = ([''data: s'', ''data: x'', ''data: [DONE]''], [])"
    "render [''data: s'', ''data: x'', ''data: [DONE]''] = [''data: s'', ''data: x'', ''data: [DONE]'']" by code_simp+
  then show ?thesis using push_whole [of demo_chunk] by fastforce
qed

lemma demo_read: "read_frames (rv_codec demo_relay_env) (rv_adapter demo_relay_env) [''data: s'', ''data: x'', ''data: [DONE]''] =
    Some ([TextDelta ''x''], True)"
proof -
  have d: "extract_data ''data: s'' = Some ''s''" "extract_data ''data: x'' = Some ''x''" "extract_data ''data: [DONE]'' = Some ''[DONE]''"
    "trim ''s'' \<noteq> ''[DONE]''" "trim ''x'' \<noteq> ''[DONE]''" "trim ''[DONE]'' = ''[DONE]''"
    by code_simp+
  show ?thesis by (simp add: d payload_error_failure_def demo_adapter_def demo_relay_env_def demo_relay_codec_def)
qed

lemma demo_translated:
  "length (translated_answer (rv_codec demo_relay_env)
     (set_include_usage (rv_include_usage demo_relay_env) (encoder_new (rv_format demo_relay_env) demo_relay_ctx))
     (tool_stream_new (rv_request_id demo_relay_env)) [TextDelta ''x'']) = 4"
  by (simp add: translated_answer_def demo_relay_env_def demo_relay_ctx_def openai_encoder_new_def openai_ensure_role_def
      openai_finalize_def openai_closing_def openai_frames_def openai_usage_frames_def Let_def)

lemma demo_quiet: "\<forall>q \<in> set demo_polls. quiet_poll q" "upstream_polls demo_polls = 2"
  by (simp_all add: quiet_poll_def upstream_polls_def demo_poll_def)

lemma demo_chunks: "upstream_chunks (demo_prepared c) = map Inr [c]" "pr_full_events (demo_prepared c) = None"
  by (simp_all add: upstream_chunks_def demo_prepared_def unwrap_or_def)

lemma demo_push_all: "\<exists>f. push_all framer_default [demo_chunk] = (f, Inr [''data: s'', ''data: x'', ''data: [DONE]'']) \<and> fr_buffer f = []"
  using demo_pushed by fastforce

theorem relay_delivers_witness:
  "\<exists>r'. drive_stream demo_relay_env demo_polls (demo_poll Upstream_Ready) (demo_prepared demo_chunk) demo_relay =
     Some (stream_success, r') \<and> length (data_sent r') = 4"
proof -
  obtain f where f: "push_all framer_default [demo_chunk] = (f, Inr [''data: s'', ''data: x'', ''data: [DONE]''])"
    "fr_buffer f = []" using demo_push_all by blast
  have "length [demo_chunk] < upstream_polls demo_polls" by (simp add: demo_quiet(2))
  then obtain r' where "drive_stream demo_relay_env demo_polls (demo_poll Upstream_Ready) (demo_prepared demo_chunk) demo_relay =
      Some (stream_success, r')"
    "data_sent r' = translated_answer (rv_codec demo_relay_env)
      (set_include_usage (rv_include_usage demo_relay_env) (encoder_new (rv_format demo_relay_env) demo_relay_ctx))
      (tool_stream_new (rv_request_id demo_relay_env)) [TextDelta ''x'']"
    using relay_delivers [OF demo_chunks(2) demo_chunks(1) f demo_read demo_quiet(1), of demo_relay_ctx 100] demo_translated
    by simp blast
  then show ?thesis using demo_translated by auto
qed

theorem relay_translates_witness:
  "\<exists>o' r' bs. drive_stream demo_relay_env demo_polls (demo_poll Upstream_Ready) (demo_prepared demo_chunk) demo_relay = Some (o', r') \<and>
     so_status o' = ''success'' \<and> upstream_chunks (demo_prepared demo_chunk) = map Inr bs \<and> snd (split_raw (concat bs)) = []"
proof -
  obtain f where f: "push_all framer_default [demo_chunk] = (f, Inr [''data: s'', ''data: x'', ''data: [DONE]''])"
    "fr_buffer f = []" using demo_push_all by blast
  obtain r' where r: "drive_stream demo_relay_env demo_polls (demo_poll Upstream_Ready) (demo_prepared demo_chunk) demo_relay =
     Some (stream_success, r')"
    using stays_delivered [OF demo_chunks(2) demo_chunks(1) f demo_read demo_quiet(1), of demo_relay_ctx 100]
      demo_quiet(2) demo_translated by simp blast
  then show ?thesis using relay_translates [OF r _ demo_chunks(2)] by auto
qed

theorem relay_ends_witness:
  "length (upstream_chunks (demo_prepared demo_chunk)) < upstream_polls demo_polls \<and>
   drive_stream demo_relay_env demo_polls (demo_poll Upstream_Ready) (demo_prepared demo_chunk) demo_relay \<noteq> None"
proof -
  have "length (upstream_chunks (demo_prepared demo_chunk)) < upstream_polls demo_polls"
    by (simp only: demo_chunks(1) demo_quiet(2)) simp
  then show ?thesis using relay_ends by blast
qed

theorem failure_announced_twice_witness:
  "\<exists>o' r'. drive_stream (demo_relay_env\<lparr>rv_codec := demo_codec\<lparr>de_value := (\<lambda>_. Some (JObject [(''error'', JNull)]))\<rparr>\<rparr>)
       [demo_poll Upstream_Ready] (demo_poll Upstream_Ready) (demo_prepared demo_chunk) demo_relay = Some (o', r') \<and>
     so_status o' = ''stream_error'' \<and> count_list (rl_sent r') DONE_FRAME \<ge> 2"
proof -
  let ?rv = "demo_relay_env\<lparr>rv_codec := demo_codec\<lparr>de_value := (\<lambda>_. Some (JObject [(''error'', JNull)]))\<rparr>\<rparr>"
  let ?fl = "failure_of ServerError (Some 502) ''error''"
  let ?e = "(openai_encoder_new demo_relay_ctx)\<lparr>oe_include_usage := False\<rparr>"
  obtain f where f: "push (rl_framer demo_relay) demo_chunk = (f, Inr (''data: s'' # [''data: x'', ''data: [DONE]'']))"
    using demo_pushed by (auto simp: relay_start_def)
  have d: "extract_data ''data: s'' = Some ''s''" "trim ''s'' \<noteq> ''[DONE]''" by code_simp+
  have p: "payload_error_failure (rv_codec ?rv) (rv_adapter ?rv) ''s'' = Some ?fl"
    by (simp add: payload_error_failure_def demo_relay_env_def demo_adapter_def)
  have e: "rl_encoder demo_relay = Enc_OpenAi ?e" "6 \<le> rl_room demo_relay" "rl_sent demo_relay = []"
    by (simp_all add: relay_start_def demo_relay_env_def)
  obtain o' r' where "drive_stream ?rv [demo_poll Upstream_Ready] (demo_poll Upstream_Ready) (demo_prepared demo_chunk) demo_relay = Some (o', r')"
    "so_status o' = ''stream_error''"
    "rl_sent r' = rl_sent demo_relay @ openai_error_frame (rv_codec ?rv) (uf_message ?fl) ?e @ openai_error_frame (rv_codec ?rv) (uf_message ?fl) ?e"
    using failure_announced_twice [OF demo_chunks(2), of demo_chunk demo_chunk "[]" "demo_poll Upstream_Ready" demo_relay f
        "''data: s''" "[''data: x'', ''data: [DONE]'']" "''s''" ?rv ?fl ?e "[]" "demo_poll Upstream_Ready"]
      demo_chunks(1) [of demo_chunk] f d p e by (auto simp: demo_poll_def)
  then show ?thesis using e(3) by (simp add: openai_error_frame_def)
qed

lemma demo_passes:
  "\<exists>r'. drive_stream_passthrough demo_relay_env demo_relay_ctx [demo_poll Upstream_Ready, demo_poll Upstream_Ready]
      (demo_prepared demo_chunk) demo_relay = Some (stream_success, r') \<and> rl_committed r'"
proof -
  obtain f where f: "push (rl_framer demo_relay) demo_chunk = (f, Inr [''data: s'', ''data: x'', ''data: [DONE]''])" "fr_buffer f = []"
    using demo_pushed by (auto simp: relay_start_def)
  have d: "extract_data ''data: s'' = Some ''s''" "extract_data ''data: x'' = Some ''x''" "extract_data ''data: [DONE]'' = Some ''[DONE]''"
    "trim ''s'' \<noteq> ''[DONE]''" "trim ''x'' \<noteq> ''[DONE]''" "trim ''[DONE]'' = ''[DONE]''" by code_simp+
  have a: "payload_error_failure (rv_codec demo_relay_env) (rv_adapter demo_relay_env) w = None" for w
    by (simp add: payload_error_failure_def demo_relay_env_def demo_relay_codec_def)
  have b: "ad_parse_stream_chunk (rv_adapter demo_relay_env) ''s'' = Inr []"
    "ad_parse_stream_chunk (rv_adapter demo_relay_env) ''x'' = Inr [TextDelta ''x'']"
    by (simp_all add: demo_relay_env_def demo_adapter_def)
  have t: "payload_is_terminal (rv_codec demo_relay_env) ''s'' [] = False"
    "payload_is_terminal (rv_codec demo_relay_env) ''x'' [TextDelta ''x''] = False"
    using d by (simp_all add: payload_is_terminal_def demo_relay_env_def demo_relay_codec_def)
  obtain r1 where "pass_chunk demo_relay_env (demo_poll Upstream_Ready) demo_chunk demo_relay = (None, r1)"
    "rl_framer r1 = f" "rl_terminal r1" "rl_committed r1"
    using f(1)
    by (simp add: pass_chunk_def push_chunk_def d a b t Let_def forward_frame_def usage_only_def relay_start_def send_one_def
        note_event_def note_kind_def relay_flight_def mark_ttft_def)
  then show ?thesis
    using f(2) demo_chunks(1) [of demo_chunk]
    by (simp add: drive_stream_passthrough_def demo_poll_def close_passthrough_def check_complete_def pending_bytes_def)
qed

theorem passthrough_faithful_witness:
  "\<exists>r' bs. drive_stream_passthrough demo_relay_env demo_relay_ctx [demo_poll Upstream_Ready, demo_poll Upstream_Ready]
      (demo_prepared demo_chunk) demo_relay = Some (stream_success, r') \<and> rl_committed r' \<and>
     upstream_chunks (demo_prepared demo_chunk) = map Inr bs \<and> snd (split_raw (concat bs)) = []"
proof -
  obtain r' where r: "drive_stream_passthrough demo_relay_env demo_relay_ctx [demo_poll Upstream_Ready, demo_poll Upstream_Ready]
      (demo_prepared demo_chunk) demo_relay = Some (stream_success, r')" "rl_committed r'"
    using demo_passes by blast
  from passthrough_faithful [OF r(1) _ r(2)] show ?thesis using r by auto
qed

end
