(* ===== verification/Attempt_Slots.thy ===== *)
theory Attempt_Slots
  imports Attempt_Loop
begin

text \<open>
  Concurrency slots across the attempts of a request (\<^verbatim>\<open>src/src/pipeline.rs\<close> with
  \<^verbatim>\<open>src/src/upstream_traffic.rs\<close>): an attempt takes at most one slot of its target, and whatever way it ends other
  than by an answer gives it back.
\<close>

abbreviation traffic :: "loop_state \<Rightarrow> upstream_traffic" where
  "traffic l \<equiv> ap_traffic (ls_app l)"

definition inflight :: "loop_state \<Rightarrow> target_key \<Rightarrow> nat" where
  "inflight l k = tc_inflight (entry_or controller_default (traffic l) k)"

text \<open>Other requests are left out: their slots are their own.\<close>

definition others_keep_traffic :: "attempt_env \<Rightarrow> bool" where
  "others_keep_traffic e \<longleftrightarrow> (\<forall>i a. ap_traffic (ae_others e i a) = ap_traffic a)"

lemma inflight_cong: "traffic l' = traffic l \<Longrightarrow> inflight l' = inflight l"
  by (rule ext) (simp add: inflight_def)

lemma app_on_app [simp]: "ls_app (on_app f l) = f (ls_app l)"
  by (simp add: on_app_def)

lemma traffic_bookkeeping [simp]:
  "traffic (on_trace g l) = traffic l" "traffic (push_path d l) = traffic l" "traffic (record_skip l) = traffic l"
  "traffic (record_flight rx ms ev d l) = traffic l" "traffic (record_telemetry te l) = traffic l"
  "traffic (set_last_error err l) = traffic l" "traffic (close_request rx ms out lat l) = traffic l"
  "traffic (skip_step ms tg d l) = traffic l"
  by (simp_all add: on_trace_def push_path_def record_skip_def record_flight_def record_telemetry_def
      set_last_error_def close_request_def skip_step_def Let_def)

lemma traffic_reject [simp]: "traffic (snd (record_provider_circuit_reject ms t rj l)) = traffic l"
  by (simp add: record_provider_circuit_reject_def)

lemma traffic_end_circuit [simp]: "traffic (snd (end_circuit p f pa l)) = traffic l"
  by (simp add: end_circuit_def case_prod_beta Let_def)

subsection \<open>Slots\<close>

definition held :: "traffic_permit option \<Rightarrow> target_key \<Rightarrow> target_key \<Rightarrow> nat" where
  "held permit k0 k = (if k = k0 then (case permit of Some p \<Rightarrow> of_bool (\<not> pm_finished p) | None \<Rightarrow> 0) else 0)"

definition ends_permit :: "(traffic_permit \<times> controller \<Rightarrow> traffic_permit \<times> controller) \<Rightarrow> bool" where
  "ends_permit f \<longleftrightarrow> (\<forall>p c. tc_inflight (snd (f (p, c))) = tc_inflight c - of_bool (\<not> pm_finished p))"

lemma ends_finish: "ends_permit (finish_permit out now)"
  by (auto simp: ends_permit_def finish_permit_def end_permit_def Let_def)

lemma ends_drop: "ends_permit drop_permit"
  by (auto simp: ends_permit_def drop_permit_def end_permit_def Let_def)

lemma inflight_end_traffic:
  "ends_permit f \<Longrightarrow> inflight (snd (end_traffic k0 f permit l)) k = inflight l k - held permit k0 k"
  by (auto simp: end_traffic_def inflight_def held_def ends_permit_def case_prod_beta Let_def with_entry_def entry_or_def
      split: option.splits if_splits)

lemma inflight_finish_traffic [simp]:
  "inflight (finish_traffic t kind now permit l) k = inflight l k - held permit (traffic_key t) k"
  by (simp add: finish_traffic_def inflight_end_traffic ends_finish)

lemma inflight_release_permit [simp]:
  "inflight (release_permit t permit l) k = inflight l k - held permit (traffic_key t) k"
  by (simp add: release_permit_def inflight_end_traffic ends_drop)

lemma mark_first_event_slot:
  "pm_finished (fst (mark_first_event ttft now (p, c))) = pm_finished p"
  "tc_inflight (snd (mark_first_event ttft now (p, c))) = tc_inflight c"
  by (simp_all add: mark_first_event_def Let_def case_prod_beta)

lemma inflight_first_event:
  assumes "end_traffic k0 (mark_first_event ttft now) permit l = (permit', l')"
  shows "inflight l' k = inflight l k" "held permit' k0 k = held permit k0 k"
  using assms mark_first_event_slot [of ttft now]
  by (auto simp: end_traffic_def inflight_def held_def case_prod_beta Let_def with_entry_def entry_or_def
      split: option.splits if_splits)

subsection \<open>Phases\<close>

lemma traffic_admit: "traffic (snd (admit_target re rx e t l)) = traffic l"
  by (simp add: admit_target_def Let_def)

lemma traffic_soft_quota: "traffic (snd (check_soft_quota re rx e t l)) = traffic l"
  by (simp add: check_soft_quota_def Let_def split: option.split)

lemma traffic_select: "traffic (snd (select_adapter re rx e t l)) = traffic l"
  by (simp add: select_adapter_def skip_with_def Let_def split: sum.split)

lemma traffic_circuit: "traffic (snd (check_circuit e t l)) = traffic l"
proof -
  obtain m r where m: "check_available (pv_id (rs_provider t)) (ae_wall e 4) (ap_circuits (ls_app l)) = (m, r)"
    using prod.exhaust by blast
  show ?thesis
  proof (cases r)
    case (Inl rj)
    obtain err l2 where r: "record_provider_circuit_reject (ae_ms e 3) t rj (on_app (\<lambda>a. a\<lparr>ap_circuits := m\<rparr>) l) = (err, l2)"
      using prod.exhaust by blast
    then show ?thesis using traffic_reject [of "ae_ms e 3" t rj "on_app (\<lambda>a. a\<lparr>ap_circuits := m\<rparr>) l"]
      by (simp add: check_circuit_def m Inl)
  qed (simp add: check_circuit_def m)
qed

lemma traffic_credential: "others_keep_traffic e \<Longrightarrow> traffic (snd (get_credential e t l)) = traffic l"
proof -
  assume o: "others_keep_traffic e"
  show ?thesis
  proof (cases "ae_credential e")
    case (Inl err)
    define l2 where "l2 = set_last_error (pe_internal ''credential unavailable'') (on_app (ae_others e 0) l)"
    obtain r app where d: "disable_invalid_credential e (rs_account t) err ''request credential resolution'' (ls_app l2) = (r, app)"
      using prod.exhaust by blast
    have "traffic l2 = traffic l" using o by (simp add: l2_def others_keep_traffic_def)
    moreover have "ap_traffic app = traffic l2"
      using d by (auto simp: disable_invalid_credential_def Let_def split: if_splits)
    ultimately show ?thesis
      unfolding get_credential_def Let_def Inl sum.case l2_def [symmetric] d prod.case
      by (simp split: sum.split bool.split)
  qed (use o in \<open>simp add: get_credential_def others_keep_traffic_def\<close>)
qed

lemma traffic_portability: "traffic (snd (settle_portability re rx e t ad report req l)) = traffic l"
  by (simp add: settle_portability_def Let_def split: sum.split option.split prod.split)

lemma traffic_report [simp]: "traffic (report_opaque rx e t report l) = traffic l"
  by (simp add: report_opaque_def Let_def)

lemma traffic_bind:
  "traffic (snd p) = traffic l \<Longrightarrow> (\<And>x l'. p = (Inr x, l') \<Longrightarrow> traffic l' = traffic l \<Longrightarrow> traffic (snd (f x l')) = traffic l) \<Longrightarrow>
   traffic (snd (phase_bind p f)) = traffic l"
  by (cases p) (auto simp: phase_bind_def split: sum.splits)

lemma traffic_prepare: "others_keep_traffic e \<Longrightarrow> traffic (snd (prepare_request re rx e t pa l)) = traffic l"
proof -
  assume o: "others_keep_traffic e"
  obtain prof ad where pa: "pa = (prof, ad)" using prod.exhaust by blast
  obtain r store where r: "resolve_opaque_state (re_cipher re) (re_crypto re) (re_codec re) (ae_inst e 2) (ae_wall e 5)
     (rx_request rx) (rx_key_id rx) (rx_session rx) (ad_opaque_state_target ad (rs_model t))
     (ap_opaque (ls_app (on_app (ae_others e 1) l))) = (r, store)"
    using prod.exhaust by blast
  have "traffic (on_app (\<lambda>a. a\<lparr>ap_opaque := store\<rparr>) (on_app (ae_others e 1) l)) = traffic l"
    using o by (simp add: others_keep_traffic_def)
  then show ?thesis
    unfolding prepare_request_def Let_def pa prod.case r
    by (cases r) (auto simp: traffic_portability split: sum.split intro!: traffic_bind)
qed

lemma traffic_check: "traffic (snd (check_request re rx e t pa req l)) = traffic l"
  by (cases pa) (simp add: check_request_def reject_request_def Let_def split: sum.split option.split)

lemma inflight_acquire:
  assumes "others_keep_traffic e" "acquire_permit rx e t l = (r, l')"
  shows "inflight l' k = inflight l k + (case r of Inr permit \<Rightarrow> held permit (traffic_key t) k | Inl _ \<Rightarrow> 0)"
proof -
  define l0 where "l0 = on_app (ae_others e 2) l"
  have l0: "traffic l0 = traffic l" using assms(1) by (simp add: l0_def others_keep_traffic_def)
  obtain m q where a: "upstream_try_acquire (traffic_key t) (ae_inst e 3) (traffic l0) = (m, q)" using prod.exhaust by blast
  note step = assms(2) [unfolded acquire_permit_def Let_def l0_def [symmetric] a prod.case]
  have m: "tc_inflight (entry_or controller_default m k) = inflight l k +
      (case q of Inr p \<Rightarrow> held (Some p) (traffic_key t) k | Inl _ \<Rightarrow> 0)"
    using a l0 by (auto simp: upstream_try_acquire_def try_acquire_def with_entry_def inflight_def held_def entry_or_def Let_def
        split: if_splits)
  show ?thesis
  proof (cases "is_adaptive_route rx")
    case True
    then show ?thesis using step m by (cases q) (auto simp: inflight_def)
  next
    case False
    then show ?thesis using step l0 by (auto simp: inflight_def held_def)
  qed
qed

lemma inflight_reserve:
  assumes "reserve_attempt rx e t permit l = (r, l')"
  shows "inflight l' k = inflight l k - (case r of Inr _ \<Rightarrow> 0 | Inl _ \<Rightarrow> held permit (traffic_key t) k)"
proof (cases "phase_budget (ae_inst e 4) (rx_deadline rx) (provider_phase_timeout (rs_provider t))")
  case None
  then show ?thesis using assms
    by (auto simp: reserve_attempt_def inflight_cong [OF traffic_bookkeeping(1)])
next
  case (Some b)
  obtain dl budget where b: "b = (dl, budget)" using prod.exhaust by blast
  obtain m q where m: "begin_attempt_with_policy (pv_id (rs_provider t)) (ac_id (rs_account t))
      (provider_correlation_target_id t) (correlation_policy_of t) (ae_wall e 6) (ap_circuits (ls_app l)) = (m, q)"
    using prod.exhaust by blast
  define l1 where "l1 = on_app (\<lambda>a. a\<lparr>ap_circuits := m\<rparr>) l"
  have l1: "inflight l1 = inflight l" by (rule inflight_cong) (simp add: l1_def)
  note step = assms [unfolded reserve_attempt_def Some b option.case prod.case m Let_def l1_def [symmetric]]
  show ?thesis
  proof (cases q)
    case (Inl rj)
    obtain err l2 where r: "record_provider_circuit_reject (ae_ms e 10) t rj l1 = (err, l2)" using prod.exhaust by blast
    have "inflight (set_last_error err l2) = inflight l"
      using inflight_cong [OF traffic_reject [of "ae_ms e 10" t rj l1]] l1 r
      by (simp add: inflight_cong [OF traffic_bookkeeping(6)])
    then show ?thesis using step Inl r by auto
  next
    case (Inr pa)
    then show ?thesis using step l1 by auto
  qed
qed

text \<open>Before the send: a phase that ends the iteration has given back its slot, and otherwise one may be held.\<close>

definition holds :: "resolved_target \<Rightarrow> loop_state \<Rightarrow> traffic_permit option \<Rightarrow> loop_state \<Rightarrow> bool" where
  "holds t l permit l' \<longleftrightarrow> (\<forall>k. inflight l' k = inflight l k + held permit (traffic_key t) k)"

lemma bind_same_traffic:
  "phase_bind p f = (r, l') \<Longrightarrow> traffic (snd p) = traffic l \<Longrightarrow>
   ((\<exists>s. r = Inl s) \<and> traffic l' = traffic l) \<or> (\<exists>x l1. traffic l1 = traffic l \<and> f x l1 = (r, l'))"
  by (cases p) (auto simp: phase_bind_def split: sum.splits)

lemma slots_reserved:
  assumes o: "others_keep_traffic e"
    and b: "phase_bind (acquire_permit rx e t l) (\<lambda>permit l.
         phase_bind (reserve_attempt rx e t permit l) (\<lambda>slot l. (Inr (pa, cred, req, probing, pt, permit, slot), l))) = (r, l')"
  shows "case r of Inl _ \<Rightarrow> inflight l' = inflight l | Inr (pa, cred, req, probing, pt, permit, slot) \<Rightarrow> holds t l permit l'"
proof -
  obtain q l1 where q: "acquire_permit rx e t l = (q, l1)" using prod.exhaust by blast
  note i = inflight_acquire [OF o q]
  show ?thesis
  proof (cases q)
    case (Inl s)
    then have "r = Inl s" "l' = l1" using b q by (auto simp: phase_bind_def)
    then show ?thesis using i Inl by (simp add: fun_eq_iff)
  next
    case (Inr permit)
    obtain w l2 where w: "reserve_attempt rx e t permit l1 = (w, l2)" using prod.exhaust by blast
    note j = inflight_reserve [OF w]
    show ?thesis
    proof (cases w)
      case (Inl s)
      then have "r = Inl s" "l' = l2" using b q w Inr by (auto simp: phase_bind_def)
      then show ?thesis using i j Inr Inl by (simp add: fun_eq_iff)
    next
      case (Inr v)
      then have "r = Inr (pa, cred, req, probing, pt, permit, v)" "l' = l2"
        using b q w \<open>q = Inr permit\<close> by (auto simp: phase_bind_def)
      then show ?thesis using i j \<open>q = Inr permit\<close> Inr by (simp add: holds_def)
    qed
  qed
qed

lemma before_send_slot:
  assumes o: "others_keep_traffic e" and b: "before_send re rx e t l = (r, l')"
  shows "case r of Inl _ \<Rightarrow> inflight l' = inflight l
    | Inr (pa, cred, req, probing, pt, permit, slot) \<Rightarrow> holds t l permit l'"
proof -
  have ended: ?thesis if "\<exists>s. r = Inl s" "traffic l' = traffic l"
  proof -
    have "inflight l' = inflight l" by (rule inflight_cong [OF that(2)])
    then show ?thesis using that(1) by auto
  qed
  have reserved: ?thesis if "traffic l0 = traffic l" "phase_bind (acquire_permit rx e t l0) (\<lambda>permit l.
         phase_bind (reserve_attempt rx e t permit l) (\<lambda>slot l. (Inr (pa, cred, req, probing, pt, permit, slot), l))) = (r, l')"
    for l0 pa cred req probing pt
  proof -
    have eq: "inflight l0 = inflight l" by (rule inflight_cong [OF that(1)])
    then have h: "holds t l0 = holds t l" by (intro ext) (simp only: holds_def)
    show ?thesis using slots_reserved [OF o that(2)] unfolding eq h .
  qed
  note b1 = b [unfolded before_send_def]
  from bind_same_traffic [OF b1, OF traffic_admit] show ?thesis
  proof (elim disjE exE conjE)
    fix probing l1 assume t1: "traffic l1 = traffic l" and b2: "phase_bind (check_soft_quota re rx e t l1) (\<lambda>_ l.
     phase_bind (select_adapter re rx e t l) (\<lambda>pa l.
     phase_bind (check_circuit e t l) (\<lambda>_ l.
     phase_bind (get_credential e t l) (\<lambda>credential l.
     phase_bind (prepare_request re rx e t pa l) (\<lambda>req l.
     phase_bind (check_request re rx e t pa req l) (\<lambda>passthrough l.
     phase_bind (acquire_permit rx e t l) (\<lambda>permit l.
     phase_bind (reserve_attempt rx e t permit l) (\<lambda>slot l.
       (Inr (pa, credential, req, probing, passthrough, permit, slot), l))))))))) = (r, l')"
    from bind_same_traffic [OF b2, OF traffic_soft_quota] show ?thesis
      apply (elim disjE exE conjE)
       apply (rule ended; simp add: t1)
      apply (drule bind_same_traffic, rule traffic_select, elim disjE exE conjE)
       apply (rule ended; simp add: t1)
      apply (drule bind_same_traffic, rule traffic_circuit, elim disjE exE conjE)
       apply (rule ended; simp add: t1)
      apply (drule bind_same_traffic, rule traffic_credential [OF o], elim disjE exE conjE)
       apply (rule ended; simp add: t1)
      apply (drule bind_same_traffic, rule traffic_prepare [OF o], elim disjE exE conjE)
       apply (rule ended; simp add: t1)
      apply (drule bind_same_traffic, rule traffic_check, elim disjE exE conjE)
       apply (rule ended; simp add: t1)
      apply (erule reserved [rotated], simp add: t1)
      done
  qed (use ended in simp)
qed

subsection \<open>After the send\<close>

lemma inflight_frames [simp]:
  "inflight (on_trace g l) = inflight l" "inflight (push_path d l) = inflight l"
  "inflight (record_flight rx ms ev d l) = inflight l" "inflight (set_last_error err l) = inflight l"
  "inflight (close_request rx ms out lat l) = inflight l"
  by (rule inflight_cong, simp)+

lemma inflight_fail_account [simp]: "inflight (fail_account re e t f l) = inflight l"
  by (rule inflight_cong) (simp add: fail_account_def split: prod.split)

lemma inflight_quota [simp]: "inflight (observe_failure_quota e t f l) = inflight l"
  by (rule inflight_cong) (simp add: observe_failure_quota_def)

lemma inflight_note_failure [simp]: "inflight (note_failure e t kind fb tr l) = inflight l"
  by (rule inflight_cong) (simp add: note_failure_def split: prod.split)

lemma inflight_mark_logical [simp]: "inflight (mark_logical t f fb l) = inflight l"
  by (rule inflight_cong) (simp add: mark_logical_def)

lemma inflight_fail_circuit: "fail_circuit e t f pa l = (tr, l') \<Longrightarrow> inflight l' = inflight l"
proof -
  assume "fail_circuit e t f pa l = (tr, l')"
  then have "l' = snd (end_circuit (pv_id (rs_provider t)) (finish_failure (uf_kind f) (uf_status f) (ae_wall e 10)) pa l)"
    by (auto simp: fail_circuit_def Let_def split: prod.splits)
  then show ?thesis by (simp only: inflight_cong [OF traffic_end_circuit])
qed

lemma inflight_conclude: "conclude rx e t fb d err l = (s, l') \<Longrightarrow> inflight l' = inflight l \<and> (\<forall>a. s \<noteq> Answered a)"
  by (auto simp: conclude_def split: if_splits)

text \<open>A failed attempt leaves the slots as they were before it took one.\<close>

definition gives_back :: "resolved_target \<Rightarrow> traffic_permit option \<Rightarrow> loop_state \<Rightarrow> step \<Rightarrow> loop_state \<Rightarrow> bool" where
  "gives_back t permit l s l' \<longleftrightarrow>
     (case s of
        Answered a \<Rightarrow> at_target a = t \<and>
          (\<forall>k. inflight l' k = inflight l k \<and> held (at_traffic_permit a) (traffic_key t) k = held permit (traffic_key t) k)
      | _ \<Rightarrow> \<forall>k. inflight l' k = inflight l k - held permit (traffic_key t) k)"

lemma gives_back_conclude:
  "conclude rx e t fb d err l1 = (s, l') \<Longrightarrow> \<forall>k. inflight l1 k = inflight l k - held permit (traffic_key t) k \<Longrightarrow>
   gives_back t permit l s l'"
  using inflight_conclude [of rx e t fb d err l1 s l'] by (auto simp: gives_back_def split: step.split)

lemma connect_failed_slots: "connect_failed re rx e t permit pa f l = (s, l') \<Longrightarrow> gives_back t permit l s l'"
  unfolding connect_failed_def Let_def
  by (split prod.splits) (erule gives_back_conclude, drule inflight_fail_circuit, simp)

lemma response_invalid_slots: "response_invalid re rx e t permit pa f l = (s, l') \<Longrightarrow> gives_back t permit l s l'"
  unfolding response_invalid_def Let_def
  by (split prod.splits) (erule gives_back_conclude, drule inflight_fail_circuit, simp)

lemma gives_back_same: "inflight l1 = inflight l \<Longrightarrow> gives_back t permit l1 s l' = gives_back t permit l s l'"
  unfolding gives_back_def by (elim ssubst) (rule refl)

lemma response_valid_slots:
  "response_valid re rx e t ad req pt permit pa p l = (s, l') \<Longrightarrow> gives_back t permit l s l'"
proof -
  assume r: "response_valid re rx e t ad req pt permit pa p l = (s, l')"
  obtain permit' l1 where p: "(if pr_is_sse p then end_traffic (traffic_key t) (mark_first_event
      (sat_since (ae_inst e 8) (ae_inst e 5)) (ae_inst e 8)) permit l else (permit, l)) = (permit', l1)"
    using prod.exhaust by blast
  have l1: "inflight l1 k = inflight l k \<and> held permit' (traffic_key t) k = held permit (traffic_key t) k" for k
    using p inflight_first_event [of "traffic_key t" _ _ permit l permit' l1 k] by (auto split: if_splits)
  have c: "traffic (snd (end_circuit a b c d)) = traffic d" for a b c d by simp
  have "traffic l' = traffic l1 \<and> (\<exists>ans. s = Answered ans \<and> at_target ans = t \<and> at_traffic_permit ans = permit')"
    using r unfolding response_valid_def p prod.case Let_def
    by (auto simp: c dest!: arg_cong [of "end_circuit _ _ _ _" _ snd] split: prod.splits if_splits)
  then show ?thesis using l1 inflight_cong [of l' l1] by (auto simp: gives_back_def)
qed

lemma rotation_failed_slots:
  "rotation_failed re rx e t kind tr err l = (s, l') \<Longrightarrow> inflight l' = inflight l \<and> (\<forall>a. s \<noteq> Answered a)"
  using inflight_cong [of "on_app (\<lambda>a. let db = fst (mark_rate_limited (re_codec re) (ae_wall e 11) (ac_id (rs_account t))
      (min (unwrap_or (ce_retry_after_secs err) (if ce_retryable err then 5 else 30)) 3600)
      (''credential refresh failed: '' @ ce_message err) (ap_db a)) in a\<lparr>ap_db := db, ap_snapshot := reload db\<rparr>) l" l]
  by (auto simp: rotation_failed_def Let_def split: if_splits)

lemma after_auth_error_slots:
  assumes "others_keep_traffic e" "after_auth_error re rx e t kind tr l = (r, l')"
  shows "inflight l' = inflight l \<and> (\<forall>a. r \<noteq> Inl (Answered a))"
proof (cases "kind \<noteq> AuthError \<or> ac_id (rs_account t) \<in> ls_auth_retried l")
  case True
  then show ?thesis using assms by (auto simp: after_auth_error_def)
next
  case False
  let ?l0 = "on_app (ae_others e 4) l"
  have l0: "inflight ?l0 = inflight l" using assms(1) by (intro inflight_cong) (simp add: others_keep_traffic_def)
  note step = assms(2) [unfolded after_auth_error_def if_not_P [OF False] Let_def]
  show ?thesis
  proof (cases "rotate_credential e (rs_provider t)")
    case (Inl err)
    obtain s l2 where rf: "rotation_failed re rx e t kind tr err ?l0 = (s, l2)" using prod.exhaust by blast
    then show ?thesis using step Inl l0 rotation_failed_slots [OF rf] by (auto split: if_splits)
  next
    case (Inr rotated)
    have "inflight (retry_rotated rx e t kind tr ?l0) = inflight l"
      unfolding l0 [symmetric] by (rule inflight_cong) (simp add: retry_rotated_def Let_def note_failure_def split: prod.split)
    then show ?thesis using step Inr l0 by (cases rotated) auto
  qed
qed

lemma response_error_slots:
  assumes o: "others_keep_traffic e" and "response_error re rx e t ad permit pa dl status obs l = (s, l')"
  shows "gives_back t permit l s l'"
proof -
  obtain f0 eb where c: "classify_response re e t ad dl status = (f0, eb)" using prod.exhaust by blast
  define f where "f = apply_header_reset_to_rate_limit (ae_wall e 12) f0 obs"
  define l1 where "l1 = observe_failure_quota e t f (finish_traffic t (uf_kind f) (ae_inst e 7) permit l)"
  obtain tr l2 where fc: "fail_circuit e t f pa l1 = (tr, l2)" using prod.exhaust by blast
  define l3 where "l3 = record_flight rx (ae_ms e 12) ''upstream_error''
                 (''HTTP '' @ show_nat status @ '' '' @ failure_kind_debug (uf_kind f)) l2"
  obtain r l4 where aa: "after_auth_error re rx e t (uf_kind f) tr l3 = (r, l4)" using prod.exhaust by blast
  have l4: "\<forall>k. inflight l4 k = inflight l k - held permit (traffic_key t) k"
    using inflight_fail_circuit [OF fc] after_auth_error_slots [OF o aa] by (simp add: l1_def l3_def)
  note step = assms(2) [unfolded response_error_def Let_def c prod.case f_def [symmetric] l1_def [symmetric] fc
      l3_def [symmetric] aa]
  show ?thesis
  proof (cases r)
    case (Inl s0)
    then show ?thesis using step l4 after_auth_error_slots [OF o aa] by (auto simp: gives_back_def split: step.split)
  next
    case (Inr u)
    then show ?thesis using step l4 by - (simp, erule gives_back_conclude, simp)
  qed
qed

lemma handle_response_slots:
  "others_keep_traffic e \<Longrightarrow> handle_response re rx e t ad req pt permit pa dl r l = (s, l') \<Longrightarrow> gives_back t permit l s l'"
proof -
  assume o: "others_keep_traffic e" and h: "handle_response re rx e t ad req pt permit pa dl r l = (s, l')"
  obtain q obs where q: "observe_headers (re_codec re) (re_clock re) (ae_wall e 13)
      (pv_id (rs_provider t), ac_id (rs_account t)) (header_text (ae_headers e)) (ap_quota (ls_app l)) = (q, obs)"
    using prod.exhaust by blast
  define l1 where "l1 = on_app (\<lambda>a. a\<lparr>ap_quota := q\<rparr>) l"
  have l1: "inflight l1 = inflight l" by (rule inflight_cong) (simp add: l1_def)
  have "gives_back t permit l1 s l'"
    using h unfolding handle_response_def q prod.case Let_def l1_def [symmetric]
    by (auto split: if_splits sum.splits dest: response_invalid_slots response_valid_slots response_error_slots [OF o])
  then show ?thesis by (simp only: gives_back_same [OF l1])
qed

lemma send_attempt_slots:
  assumes o: "others_keep_traffic e" and s: "send_attempt re rx e t pa cred req probing pt permit sl l = (s, l')"
  shows "gives_back t permit l s l'"
proof -
  let ?l1 = "begin_dispatch re rx e t (fst pa) probing pt l"
  obtain r l2 where d: "dispatch re rx e (snd pa) (upstream_ctx re t (fst pa) cred) req pt ?l1 = (r, l2)"
    using prod.exhaust by blast
  have "traffic l2 = traffic ?l1" using d o by (auto simp: dispatch_def Let_def others_keep_traffic_def split: prod.splits)
  also have "traffic ?l1 = traffic l" by (simp add: begin_dispatch_def Let_def)
  finally have l2: "inflight l2 = inflight l" by (rule inflight_cong)
  have "gives_back t permit l2 s l'"
    using s d by (cases r) (auto simp: send_attempt_def Let_def dest: connect_failed_slots handle_response_slots [OF o])
  then show ?thesis by (simp only: gives_back_same [OF l2])
qed

text \<open>One iteration: only an answer keeps a slot, and it is the one the answer carries.\<close>

definition keeps_slots :: "loop_state \<Rightarrow> (proxy_error + attempt) option \<Rightarrow> loop_state \<Rightarrow> bool" where
  "keeps_slots l r l' \<longleftrightarrow>
     (case r of
        Some (Inr a) \<Rightarrow> \<forall>k. inflight l' k = inflight l k + held (at_traffic_permit a) (traffic_key (at_target a)) k
      | _ \<Rightarrow> inflight l' = inflight l)"

lemma keeps_slots_from: "keeps_slots l1 r l' \<Longrightarrow> inflight l1 = inflight l \<Longrightarrow> keeps_slots l r l'"
  by (auto simp: keeps_slots_def split: option.splits sum.splits)

lemma attempt_target_slots:
  assumes o: "others_keep_traffic e" and a: "attempt_target re rx e t l = (s, l')"
  shows "keeps_slots l (case s of Answered ans \<Rightarrow> Some (Inr ans) | _ \<Rightarrow> None) l'"
proof -
  obtain r l0 where b: "before_send re rx e t l = (r, l0)" using prod.exhaust by blast
  note bs = before_send_slot [OF o b]
  show ?thesis
  proof (cases r)
    case (Inl s0)
    then have "s = s0" "l' = l0" using a b by (auto simp: attempt_target_def)
    then show ?thesis using bs Inl quiet_before_send [of l re rx e t] b
      by (auto simp: keeps_slots_def quiet_phase_def split: step.splits)
  next
    case (Inr x)
    obtain pa cred req probing pt permit sl where x: "x = (pa, cred, req, probing, pt, permit, sl)" by (metis surj_pair)
    have g: "gives_back t permit l0 s l'"
      using a b Inr x by (intro send_attempt_slots [OF o]) (simp add: attempt_target_def)
    have "inflight l0 k = inflight l k + held permit (traffic_key t) k" for k using bs Inr x by (simp add: holds_def)
    then show ?thesis using g by (auto simp: gives_back_def keeps_slots_def fun_eq_iff split: step.splits)
  qed
qed

lemma attempt_loop_slots:
  "\<forall>i. others_keep_traffic (env i) \<Longrightarrow> attempt_loop re rx env i ts l = (r, l') \<Longrightarrow> keeps_slots l r l'"
proof (induction re rx env i ts l arbitrary: r l' rule: attempt_loop.induct)
  case (2 re rx env i t ts l)
  obtain s l1 where a: "attempt_target re rx (env i) t l = (s, l1)" using prod.exhaust by blast
  have o: "others_keep_traffic (env i)" using 2(3) by simp
  note loop = trans [OF attempt_loop_step [where env = env and i = i, OF a, symmetric] 2(4)]
  note slots = attempt_target_slots [OF o a]
  show ?case
  proof (cases s)
    case Next_Target
    then have "keeps_slots l1 r l'" using 2(1) [OF a [symmetric] Next_Target] 2(3) loop by simp
    then show ?thesis by (rule keeps_slots_from) (use slots Next_Target in \<open>simp add: keeps_slots_def\<close>)
  next
    case Same_Target
    then have "keeps_slots l1 r l'" using 2(2) [OF a [symmetric] Same_Target] 2(3) loop by simp
    then show ?thesis by (rule keeps_slots_from) (use slots Same_Target in \<open>simp add: keeps_slots_def\<close>)
  qed (use slots loop in \<open>auto simp: keeps_slots_def\<close>)
qed (simp add: keeps_slots_def)

end
