(* ===== verification/Request_Run.thy ===== *)
theory Request_Run
  imports Attempt_Slots
begin

text \<open>
  A request from its acceptance to the response drivers (\<^verbatim>\<open>src/src/pipeline.rs\<close>, \<open>run\<close>): the resolution of the model
  against one snapshot, the candidates that remain and their order, the attempt loop, and what a request without an
  answer ends with. \<open>None\<close> is a panic of the request's task.
\<close>

section \<open>Candidates\<close>

text \<open>What the outside supplies around the loop; the admission is the outcome of \<open>limits::reserve\<close>.\<close>

record run_env =
  rn_admission :: "proxy_error + unit"
  rn_uuid :: string
  rn_inst :: "nat \<Rightarrow> nanos"
  rn_wall :: "nat \<Rightarrow> nanos"
  rn_ms :: "nat \<Rightarrow> nat"
  rn_others :: "app_state \<Rightarrow> app_state"
  rn_account_draw :: "nat \<Rightarrow> int \<Rightarrow> int"
  rn_group_draws :: "nat \<Rightarrow> nat \<Rightarrow> int \<Rightarrow> int"
  rn_pick :: "int \<Rightarrow> int"
  rn_usage :: "usage_count list option"
  rn_plugin_facts :: plugin_facts
  rn_show_percent :: "f64 \<Rightarrow> string"
  rn_attempts :: "nat \<Rightarrow> attempt_env"

text \<open>What the client asked.\<close>

record run_request =
  rr_id :: string
  rr_format :: frontend_format
  rr_key :: "virtual_key_row option"
  rr_body :: internal_request
  rr_allow_fallback :: bool
  rr_session :: "string option"
  rr_protocol_headers :: "(string \<times> string) list"

definition key_tag :: "virtual_key_row option \<Rightarrow> string option" where
  "key_tag key = Option.bind key (\<lambda>k. if vk_tag k = [] then None else Some (vk_tag k))"

definition request_facts_of :: "run_request \<Rightarrow> string option \<Rightarrow> request_facts" where
  "request_facts_of rq route =
     (let req = rr_body rq; needs = request_needs req
      in \<lparr>rf_frontend = format_as_str (rr_format rq), rf_requested_model = requested_model req,
          rf_requested_route = route, rf_key_tag = key_tag (rr_key rq), rf_has_tools = need_tools needs,
          rf_has_images = need_vision needs, rf_has_reasoning = need_reasoning needs,
          rf_input_tokens = approx_input_tokens req\<rparr>)"

definition target_facts_of :: "codec \<Rightarrow> resolved_target \<Rightarrow> target_facts" where
  "target_facts_of cd t =
     \<lparr>tf_model_id = md_id (rs_model t), tf_model_display = md_display_name (rs_model t),
      tf_provider_id = pv_id (rs_provider t), tf_provider_name = pv_name (rs_provider t),
      tf_capabilities = model_caps cd (rs_model t),
      tf_capabilities_raw = unwrap_or (de_value cd (md_capabilities (rs_model t))) JNull,
      tf_context_window = md_context_window (rs_model t), tf_max_output_tokens = md_max_output_tokens (rs_model t)\<rparr>"

text \<open>A model without a route: one candidate for each account of its provider.\<close>

definition direct_target :: "model_row \<Rightarrow> provider_row \<Rightarrow> account_row \<Rightarrow> resolved_target" where
  "direct_target m p a = \<lparr>rs_account = a, rs_model = m, rs_provider = p, rs_route_target_id = None, rs_priority = 1,
     rs_weight = 1, rs_predicate = target_predicate_default, rs_param_overrides = JNull\<rparr>"

definition direct_targets ::
  "codec \<Rightarrow> run_env \<Rightarrow> snapshot \<Rightarrow> string \<Rightarrow> string \<Rightarrow> (proxy_error + resolved_target list) option" where
  "direct_targets cd rn snap provider_id model_id =
     (case map_of (sn_models snap) model_id of
        None \<Rightarrow> Some (Inl (pe_not_found ''model not found''))
      | Some m \<Rightarrow>
          (case map_of (sn_providers snap) provider_id of
             None \<Rightarrow> Some (Inl (pe_not_found ''provider not found''))
           | Some p \<Rightarrow> map_option (\<lambda>as. Inr (map (direct_target m p) as))
               (select_accounts cd (rn_wall rn 0) (rn_account_draw rn) snap provider_id None)))"

text \<open>A route's targets: the predicate of each decides, and each decision is traced.\<close>

fun eligible_targets ::
  "codec \<Rightarrow> nat \<Rightarrow> request_facts \<Rightarrow> plugin_facts \<Rightarrow> resolved_target list \<Rightarrow> route_trace
    \<Rightarrow> (resolved_target list \<times> route_trace) option" where
  "eligible_targets cd ms rf pf [] tr = Some ([], tr)"
| "eligible_targets cd ms rf pf (t # ts) tr =
     (case eligibility_with_facts (ser_value cd) rf (target_facts_of cd t) pf (rs_predicate t) of
        None \<Rightarrow> None
      | Some el \<Rightarrow>
          let tr1 = trace_candidate ms (model_name_of t @ '' @ '' @ label_of t) (el_eligible el)
                      (Some (tri_as_str (el_result el))) (el_explanation el) tr
          in map_option (\<lambda>(kept, tr'). (if el_eligible el then t # kept else kept, tr'))
               (eligible_targets cd ms rf pf ts tr1))"

definition trace_plugin_facts :: "codec \<Rightarrow> nat \<Rightarrow> plugin_facts \<Rightarrow> route_trace \<Rightarrow> route_trace" where
  "trace_plugin_facts cd ms pf tr =
     fold (\<lambda>(plugin_id, reason). trace_plugin_fact_failure ms plugin_id reason) (pf_failures pf)
       (fold (\<lambda>e. trace_plugin_fact (ser_value cd) ms (pf_name e) (pf_value e) (pf_source e)) (pf_entries pf) tr)"

definition order_state_of :: "run_env \<Rightarrow> app_state \<Rightarrow> order_state" where
  "order_state_of rn a = \<lparr>os_quota = ap_quota a, os_traffic = ap_traffic a, os_usage = rn_usage rn,
     os_rr_counters = ap_rr_counters a\<rparr>"

definition order_targets ::
  "codec \<Rightarrow> run_env \<Rightarrow> route_row \<Rightarrow> resolved_target list \<Rightarrow> app_state \<Rightarrow> (ordered_route_targets \<times> app_state) option" where
  "order_targets cd rn route ts a =
     map_option (\<lambda>(ot, s). (ot, a\<lparr>ap_rr_counters := os_rr_counters s\<rparr>))
       (order_route_targets cd (rn_wall rn 1) (rn_inst rn 1) (rn_group_draws rn) (rn_pick rn) route ts (order_state_of rn a))"

definition route_candidates ::
  "codec \<Rightarrow> run_env \<Rightarrow> run_request \<Rightarrow> route_row \<Rightarrow> resolved_target list \<Rightarrow> loop_state
    \<Rightarrow> (resolved_target list \<times> loop_state) option" where
  "route_candidates cd rn rq route targets l =
     (let l1 = on_trace (\<lambda>tr. tr\<lparr>rt_route_id := Some (rt_id route), rt_route_name := Some (rt_name route)\<rparr>) l;
          facts = request_facts_of rq (Some (rt_name route))
      in Option.bind (if rt_strategy route = ''adaptive'' then Some (targets, ls_app l1)
                      else map_option (\<lambda>(ot, a). (ot_targets ot, a)) (order_targets cd rn route targets (ls_app l1)))
           (\<lambda>(ordered, a).
              let l2 = on_trace (trace_plugin_facts cd (rn_ms rn 2) (rn_plugin_facts rn)) (l1\<lparr>ls_app := rn_others rn a\<rparr>)
              in map_option (\<lambda>(kept, tr). (kept, l2\<lparr>ls_trace := tr\<rparr>))
                   (eligible_targets cd (rn_ms rn 2) facts (rn_plugin_facts rn) ordered (ls_trace l2))))"

text \<open>The key's providers and the model's context window.\<close>

definition target_excluded :: "string list \<Rightarrow> nat \<Rightarrow> resolved_target \<Rightarrow> (string \<times> string) option" where
  "target_excluded allowed input_tokens t =
     (if allowed \<noteq> [] \<and> pv_id (rs_provider t) \<notin> set allowed
      then Some (label_of t, ''model='' @ model_name_of t @ '' provider_not_permitted'')
      else case md_context_window (rs_model t) of
             Some window \<Rightarrow>
               if window > 0 \<and> int input_tokens > window
               then Some (model_name_of t, ''model='' @ model_name_of t @
                      '' context-window mismatch: input exceeds context window ('' @ show_int window @ '')'')
               else None
           | None \<Rightarrow> None)"

definition retain_permitted ::
  "string list \<Rightarrow> nat \<Rightarrow> nat \<Rightarrow> resolved_target list \<Rightarrow> loop_state \<Rightarrow> resolved_target list \<times> loop_state" where
  "retain_permitted allowed input_tokens ms ts l =
     (filter (\<lambda>t. target_excluded allowed input_tokens t = None) ts,
      on_trace (fold (\<lambda>t tr. case target_excluded allowed input_tokens t of
          None \<Rightarrow> tr | Some (target, detail) \<Rightarrow> trace_add ms ''skip'' (Some target) detail tr) ts) l)"

definition quota_evidence_detail :: "codec \<Rightarrow> (f64 \<Rightarrow> string) \<Rightarrow> quota_snapshot option option \<Rightarrow> string" where
  "quota_evidence_detail cd show_percent evidence =
     (case evidence of
        None \<Rightarrow> ''quota-evidence: not used (target was not dispatchable during adaptive ordering)''
      | Some None \<Rightarrow> ''quota-evidence: unknown (no fresh account-global observation at ordering time)''
      | Some (Some q) \<Rightarrow>
          ''quota-evidence: remaining='' @
          (case qs_remaining_fraction q of Some v \<Rightarrow> show_percent (v * 100) @ ''%'' | None \<Rightarrow> ''unknown'') @
          '' reset='' @ (case qs_reset_at q of Some r \<Rightarrow> to_rfc3339 cd r | None \<Rightarrow> ''unknown'') @
          '' source='' @ qs_source q @ '' observed='' @ to_rfc3339 cd (qs_observed_at q) @
          '' freshness=fresh scope=account-global'')"

definition trace_adaptive_quota_evidence ::
  "codec \<Rightarrow> (f64 \<Rightarrow> string) \<Rightarrow> nat \<Rightarrow> (string \<rightharpoonup> quota_snapshot option) \<Rightarrow> resolved_target \<Rightarrow> route_trace \<Rightarrow> route_trace" where
  "trace_adaptive_quota_evidence cd show_percent ms evidence t =
     trace_add ms ''candidate'' (Some (label_of t))
       (quota_evidence_detail cd show_percent (evidence (adaptive_candidate_key t)))"

definition order_adaptive_route ::
  "codec \<Rightarrow> run_env \<Rightarrow> route_row option \<Rightarrow> resolved_target list \<Rightarrow> loop_state \<Rightarrow> (resolved_target list \<times> loop_state) option" where
  "order_adaptive_route cd rn route ts l =
     (case opt_filter (\<lambda>r. rt_strategy r = ''adaptive'') route of
        None \<Rightarrow> Some (ts, l)
      | Some r \<Rightarrow>
          map_option (\<lambda>(ot, a). (ot_targets ot,
              on_trace (fold (trace_adaptive_quota_evidence cd (rn_show_percent rn) (rn_ms rn 3) (ot_quota_evidence ot))
                (ot_targets ot)) (l\<lparr>ls_app := a\<rparr>)))
            (order_targets cd rn r ts (ls_app l)))"

text \<open>Accounts whose circuit is open and not due for a probe are put behind all others.\<close>

definition is_deferred :: "codec \<Rightarrow> nanos \<Rightarrow> resolved_target \<Rightarrow> bool" where
  "is_deferred cd now t \<longleftrightarrow> effective_status cd now (rs_account t) = CircuitOpen \<and> \<not> should_probe cd now (rs_account t)"

definition defer_open ::
  "codec \<Rightarrow> nanos \<Rightarrow> nat \<Rightarrow> resolved_target list \<Rightarrow> loop_state \<Rightarrow> resolved_target list \<times> loop_state" where
  "defer_open cd now ms ts l =
     (let probeable = filter (\<lambda>t. \<not> is_deferred cd now t) ts; deferred = filter (is_deferred cd now) ts
      in (probeable @ deferred,
          if probeable \<noteq> [] \<and> deferred \<noteq> []
          then on_trace (trace_add ms ''candidate'' None
                 (show_nat (length deferred) @ '' circuit-open target(s) deferred behind healthy candidates'')) l
          else l))"

text \<open>\<^verbatim>\<open>m as usize\<close> wraps a negative setting, which the clamp then caps.\<close>

definition max_attempts_of :: "route_row option \<Rightarrow> nat \<Rightarrow> nat" where
  "max_attempts_of route n =
     (let m = (case Option.bind route rt_max_attempts of Some m \<Rightarrow> nat (m mod 2 ^ 64) | None \<Rightarrow> n)
      in min 5 (max 1 m))"

definition sticky_lookup :: "string \<Rightarrow> nanos \<Rightarrow> (string \<rightharpoonup> string \<times> nanos) \<Rightarrow> string option" where
  "sticky_lookup session now sticky =
     (case sticky session of
        Some (key, at_inst) \<Rightarrow> if sat_since now at_inst \<le> STICKY_TTL then Some key else None
      | None \<Rightarrow> None)"

definition sticky_remember :: "string \<Rightarrow> string \<Rightarrow> nanos \<Rightarrow> (string \<rightharpoonup> string \<times> nanos) \<Rightarrow> (string \<rightharpoonup> string \<times> nanos)" where
  "sticky_remember session key now sticky = sticky(session \<mapsto> (key, now))"

definition sticky_sweep :: "nanos \<Rightarrow> nanos \<Rightarrow> (string \<rightharpoonup> string \<times> nanos) \<Rightarrow> (string \<rightharpoonup> string \<times> nanos)" where
  "sticky_sweep ttl now sticky session = opt_filter (\<lambda>(_, at_inst). sat_since now at_inst \<le> ttl) (sticky session)"

definition session_origin_provider :: "route_row option \<Rightarrow> string option \<Rightarrow> resolved_target list \<Rightarrow> string option" where
  "session_origin_provider route key ts =
     (case (route, key) of
        (Some r, Some k) \<Rightarrow> map_option (\<lambda>t. pv_id (rs_provider t)) (find (\<lambda>t. pipeline_target_key r t = k) ts)
      | _ \<Rightarrow> None)"

definition promote_session ::
  "nat \<Rightarrow> route_row option \<Rightarrow> string option \<Rightarrow> resolved_target list \<Rightarrow> loop_state \<Rightarrow> resolved_target list \<times> loop_state" where
  "promote_session ms route key ts l =
     (case (route, key) of
        (Some r, Some k) \<Rightarrow>
          if rt_cache_affinity r = 0 \<and> rt_sticky_routing r = 0 then (ts, l)
          else (case position (\<lambda>t. pipeline_target_key r t = k) ts of
                  None \<Rightarrow> (ts, l)
                | Some pos \<Rightarrow>
                    let ts' = rotate pos ts
                    in (ts', on_trace (trace_add ms ''candidate'' (Some (label_of (hd ts')))
                          (if rt_sticky_routing r \<noteq> 0
                           then ''sticky-routing: previous session target promoted (FR-7.5)''
                           else ''cache-affinity: session target promoted (FR-7.3)'')) l))
      | _ \<Rightarrow> (ts, l))"

section \<open>The request\<close>

definition loop_start :: "app_state \<Rightarrow> route_trace \<Rightarrow> loop_state" where
  "loop_start a tr = \<lparr>ls_app = a, ls_path = [], ls_trace = tr, ls_last_error = None, ls_all_accounts = [],
     ls_attempts_done = 0, ls_previous_provider = None, ls_skip_logical = None, ls_auth_retried = {}, ls_sends = []\<rparr>"

text \<open>The accepted request is counted and shown, then resolved against the snapshot taken at its start.\<close>

definition frontend_debug :: "frontend_format \<Rightarrow> string" where
  "frontend_debug f = (case f of OpenAiF \<Rightarrow> ''OpenAi'' | AnthropicF \<Rightarrow> ''Anthropic'' | OpenAiResponsesF \<Rightarrow> ''OpenAiResponses'')"

definition accept_request :: "run_env \<Rightarrow> run_request \<Rightarrow> app_state \<Rightarrow> loop_state" where
  "accept_request rn rq a =
     (let i = rr_id rq; name = map_option vk_name (rr_key rq);
          debug = frontend_debug (rr_format rq)
      in loop_start
           (a\<lparr>ap_total_requests := wrap_add64 (ap_total_requests a) 1,
              ap_live := live_start i (to_ascii_lowercase debug) (requested_model (rr_body rq)) name None (ap_live a),
              ap_flight := flight_record (i, rn_ms rn 0, ''auth_complete'', unwrap_or name ''anonymous'')
                             (flight_record (i, 0, ''request_accepted'', debug) (ap_flight a))\<rparr>)
           (trace_new (rn_uuid rn) i (requested_model (rr_body rq))))"

text \<open>The candidates of the resolved name, with its route.\<close>

definition find_candidates ::
  "codec \<Rightarrow> run_env \<Rightarrow> run_request \<Rightarrow> snapshot \<Rightarrow> resolved \<Rightarrow> loop_state
    \<Rightarrow> ((proxy_error + resolved_target list \<times> route_row option) \<times> loop_state) option" where
  "find_candidates cd rn rq snap r l =
     (case r of
        Single provider_id model_id \<Rightarrow>
          map_option (\<lambda>q. (case q of Inl err \<Rightarrow> Inl err | Inr ts \<Rightarrow> Inr (ts, None), l))
            (direct_targets cd rn snap provider_id model_id)
      | Route route targets \<Rightarrow>
          map_option (\<lambda>(kept, l'). (Inr (kept, Some route),
              on_app (\<lambda>a. a\<lparr>ap_live := set_fallback_hops (rr_id rq) 0 0 (ap_live a)\<rparr>)
                (push_path (''route:'' @ rt_name route) l')))
            (route_candidates cd rn rq route targets l))"

definition order_candidates_for_attempts ::
  "codec \<Rightarrow> run_env \<Rightarrow> run_request \<Rightarrow> route_row option \<Rightarrow> resolved_target list \<Rightarrow> loop_state
    \<Rightarrow> (resolved_target list \<times> loop_state) option" where
  "order_candidates_for_attempts cd rn rq route ts l =
     (let allowed = (case rr_key rq of Some k \<Rightarrow> allowed_providers cd k | None \<Rightarrow> []);
          (ts1, l1) = retain_permitted allowed (approx_input_tokens (rr_body rq)) (rn_ms rn 3) ts l
      in map_option (\<lambda>(ts2, l2). defer_open cd (rn_wall rn 2) (rn_ms rn 4) ts2 l2) (order_adaptive_route cd rn route ts1 l1))"

definition attempts_ctx ::
  "run_env \<Rightarrow> run_request \<Rightarrow> route_row option \<Rightarrow> resolved_target list \<Rightarrow> string option \<Rightarrow> request_ctx" where
  "attempts_ctx rn rq route ts origin_key =
     \<lparr>rx_request_id = rr_id rq, rx_format = rr_format rq, rx_key_id = map_option vk_id (rr_key rq),
      rx_request = rr_body rq, rx_allow_fallback = rr_allow_fallback rq, rx_session = rr_session rq,
      rx_protocol_headers = rr_protocol_headers rq, rx_route = route, rx_max_attempts = max_attempts_of route (length ts),
      rx_deadline = rn_inst rn 0 + MAX_PRE_COMMIT_DEADLINE, rx_session_origin_key = origin_key,
      rx_session_origin_provider = session_origin_provider route origin_key ts\<rparr>"

text \<open>Every candidate was used up: the last error stands, and without one the accounts seen decide.\<close>

definition exhausted_error ::
  "codec \<Rightarrow> run_env \<Rightarrow> run_request \<Rightarrow> route_row option \<Rightarrow> loop_state \<Rightarrow> proxy_error" where
  "exhausted_error cd rn rq route l =
     (let name = (case route of Some r \<Rightarrow> ''route '' @ quoted (rt_name r) | None \<Rightarrow> requested_model (rr_body rq));
          retry_after = map_option (\<lambda>t. wait_secs t (rn_wall rn 3)) (soonest_recovery cd (ls_all_accounts l))
      in case ls_last_error l of
           Some err \<Rightarrow> err
         | None \<Rightarrow>
             if ls_all_accounts l \<noteq> [] \<and> list_all (\<lambda>a. effective_status cd (rn_wall rn 4) a = Cooldown) (ls_all_accounts l)
             then pe_rate_limited (name @ '': all targets are rate limited'') retry_after
             else pe_all_unavailable (name @ '': all targets of '' @ name @ '' are currently unavailable'') retry_after)"

definition exhaust ::
  "codec \<Rightarrow> run_env \<Rightarrow> run_request \<Rightarrow> route_row option \<Rightarrow> request_ctx \<Rightarrow> loop_state \<Rightarrow> proxy_error \<times> loop_state" where
  "exhaust cd rn rq route rx l =
     (exhausted_error cd rn rq route l,
      close_request rx (rn_ms rn 6) ''all_targets_unavailable'' (rn_ms rn 6)
        (on_app (\<lambda>a. a\<lparr>ap_failures_pre_commit := wrap_add64 (ap_failures_pre_commit a) 1\<rparr>) l))"

definition no_target :: proxy_error where
  "no_target = pe_unsupported
     ''no configured target can satisfy this request (predicates, capabilities, or limits mismatch)''"

definition attempt_candidates ::
  "request_env \<Rightarrow> run_env \<Rightarrow> run_request \<Rightarrow> route_row option \<Rightarrow> resolved_target list \<Rightarrow> loop_state
    \<Rightarrow> (proxy_error + attempt) \<times> loop_state" where
  "attempt_candidates re rn rq route ts l =
     (let origin_key = Option.bind (rr_session rq) (\<lambda>s. sticky_lookup s (rn_inst rn 2) (ap_sticky (ls_app l)));
          rx = attempts_ctx rn rq route ts origin_key
      in if ts = [] then (Inl no_target, close_request rx (rn_ms rn 5) ''no_eligible_target'' 0 l)
         else let (ts', l1) = promote_session (rn_ms rn 5) route origin_key ts l
              in case attempt_loop re rx (rn_attempts rn) 0 ts' l1 of
                   (Some r, l2) \<Rightarrow> (r, l2)
                 | (None, l2) \<Rightarrow> (case exhaust (re_codec re) rn rq route rx l2 of (err, l3) \<Rightarrow> (Inl err, l3)))"

definition not_configured :: "string \<Rightarrow> proxy_error" where
  "not_configured model = pe_not_found (''model '' @ quoted model @
     '' is not configured. Use GET /v1/models to list available models.'')"

definition run ::
  "request_env \<Rightarrow> run_env \<Rightarrow> run_request \<Rightarrow> app_state \<Rightarrow> ((proxy_error + attempt) \<times> loop_state) option" where
  "run re rn rq a =
     (let cd = re_codec re; snap = ap_snapshot a
      in case (if rr_key rq = None then Inr () else rn_admission rn) of
           Inl err \<Rightarrow> Some (Inl err, loop_start a (trace_new (rn_uuid rn) (rr_id rq) (requested_model (rr_body rq))))
         | Inr _ \<Rightarrow>
             let l = accept_request rn rq a
             in case resolve_in cd snap (requested_model (rr_body rq)) of
                  None \<Rightarrow> Some (Inl (not_configured (requested_model (rr_body rq))), l)
                | Some r \<Rightarrow>
                    let l1 = on_trace (trace_add (rn_ms rn 1) ''resolve'' None
                               (''resolved '' @ quoted (requested_model (rr_body rq)))) l
                    in Option.bind (find_candidates cd rn rq snap r l1) (\<lambda>(q, l2).
                         case q of
                           Inl err \<Rightarrow> Some (Inl err, l2)
                         | Inr (ts, route) \<Rightarrow>
                             map_option (\<lambda>(ts', l3). attempt_candidates re rn rq route ts' l3)
                               (order_candidates_for_attempts cd rn rq route ts l2)))"

text \<open>
  For the statements below: the candidates a run finds, and the list it goes through. The list is what is left of
  them after the key's and the context window's exclusions, ordered by the route's strategy, targets with an open circuit
  last, and rotated to the session's previous target.
\<close>

definition candidates_found ::
  "request_env \<Rightarrow> run_env \<Rightarrow> run_request \<Rightarrow> app_state
    \<Rightarrow> ((resolved_target list \<times> route_row option) \<times> loop_state) option" where
  "candidates_found re rn rq a =
     Option.bind (resolve_in (re_codec re) (ap_snapshot a) (requested_model (rr_body rq))) (\<lambda>r.
       case find_candidates (re_codec re) rn rq (ap_snapshot a) r
              (on_trace (trace_add (rn_ms rn 1) ''resolve'' None (''resolved '' @ quoted (requested_model (rr_body rq))))
                (accept_request rn rq a)) of
         Some (Inr w, l) \<Rightarrow> Some (w, l)
       | _ \<Rightarrow> None)"

definition found_targets :: "request_env \<Rightarrow> run_env \<Rightarrow> run_request \<Rightarrow> app_state \<Rightarrow> resolved_target list" where
  "found_targets re rn rq a = (case candidates_found re rn rq a of Some ((ts, _), _) \<Rightarrow> ts | None \<Rightarrow> [])"

definition candidate_order :: "request_env \<Rightarrow> run_env \<Rightarrow> run_request \<Rightarrow> app_state \<Rightarrow> resolved_target list" where
  "candidate_order re rn rq a =
     (case candidates_found re rn rq a of
        None \<Rightarrow> []
      | Some ((ts, route), l) \<Rightarrow>
          (case order_candidates_for_attempts (re_codec re) rn rq route ts l of
             None \<Rightarrow> []
           | Some (ts', l') \<Rightarrow>
               fst (promote_session (rn_ms rn 5) route
                 (Option.bind (rr_session rq) (\<lambda>s. sticky_lookup s (rn_inst rn 2) (ap_sticky (ls_app l')))) ts' l')))"

section \<open>Lemmas\<close>

subsection \<open>The live view of an accepted request\<close>

lemma evict_one:
  assumes "n \<le> 1" "\<And>old rest. n = 1 \<Longrightarrow> lv_order l = old # rest \<Longrightarrow> old \<noteq> i"
  shows "map_of (lv_live (evict n l)) i = map_of (lv_live l) i"
proof -
  have keep: "map_of (hm_remove old ps) i = map_of ps i" if "old \<noteq> i" for old and ps :: "(string, live_request) hash_map"
    using that by (induction ps) (auto simp: hm_remove_def)
  from assms(1) consider "n = 0" | "n = Suc 0" by linarith
  then show ?thesis
  proof cases
    case 2
    then show ?thesis using assms(2) keep by (cases "lv_order l") auto
  qed simp
qed

lemma live_start_listed:
  assumes "live_inv l" "0 < lv_max_live l" "i \<notin> set (lv_order l)"
  shows "\<exists>r. map_of (lv_live (live_start i fe m k rn l)) i = Some r \<and> \<not> lr_finished r \<and> lr_status r = ''in_flight''"
proof -
  define r where "r = \<lparr>lr_request_id = i, lr_key_name = k, lr_frontend = fe, lr_requested_model = m,
            lr_route_name = rn, lr_phase = ''selecting'', lr_commit_state = ''not_committed'', lr_fallback_hops = 0,
            lr_retry_count = 0, lr_input_tokens = None, lr_output_tokens = None, lr_status = ''in_flight'',
            lr_latency_ms = 0, lr_ttft_ms = None, lr_started_ms_ago = 0, lr_finished = False\<rparr>"
  have start: "live_start i fe m k rn l = evict (length (lv_order l) + 1 - lv_max_live l) (live_entered i r l)"
    by (simp add: live_start_def live_entered_def r_def Let_def)
  have "length (lv_order l) + 1 - lv_max_live l \<le> 1" using assms(1) by (auto simp: live_inv_def)
  moreover have "old \<noteq> i" if "length (lv_order l) + 1 - lv_max_live l = 1" "lv_order (live_entered i r l) = old # rest" for old rest
    using that assms(2,3) by (cases "lv_order l") auto
  ultimately have "map_of (lv_live (live_start i fe m k rn l)) i = map_of (lv_live (live_entered i r l)) i"
    unfolding start by (rule evict_one)
  also have "\<dots> = Some r" by (simp add: live_entered_def map_of_hm_insert)
  finally show ?thesis by (simp add: r_def)
qed

subsection \<open>Ordering adds no target\<close>

lemma mset_insert_by: "insert_by c x ys = Some zs \<Longrightarrow> mset zs = add_mset x (mset ys)"
  by (induction c x ys arbitrary: zs rule: insert_by.induct) (auto split: option.splits ordering.splits)

lemma mset_sort_by: "sort_by c xs = Some ys \<Longrightarrow> mset ys = mset xs"
  by (induction xs arbitrary: ys) (auto split: option.splits dest: mset_insert_by)

lemma set_take_targets: "set (take_targets m as) \<subseteq> ran m"
proof (induction m as rule: take_targets.induct)
  case (2 m a as)
  show ?case
  proof (cases "m (ac_id a)")
    case (Some t)
    have "ran (m(ac_id a := None)) \<subseteq> ran m" by (auto simp: ran_def)
    then have "set (take_targets (m(ac_id a := None)) as) \<subseteq> ran m" using 2(2) [OF Some] by blast
    then show ?thesis using Some by (auto simp: ranI)
  qed (use 2 in simp)
qed simp

text \<open>Each target is under the key of its own account, so a target taken is not taken again.\<close>

lemma distinct_take_targets:
  assumes "\<And>k t. m k = Some t \<Longrightarrow> ac_id (rs_account t) = k"
  shows "distinct (take_targets m as)"
  using assms
proof (induction m as rule: take_targets.induct)
  case (2 m a as)
  show ?case
  proof (cases "m (ac_id a)")
    case (Some t)
    have keys: "(m(ac_id a := None)) k = Some u \<Longrightarrow> ac_id (rs_account u) = k" for k u
      using 2(3) by (auto split: if_splits)
    have "t \<notin> ran (m(ac_id a := None))"
    proof
      assume "t \<in> ran (m(ac_id a := None))"
      then obtain k where k: "(m(ac_id a := None)) k = Some t" by (auto simp: ran_def)
      then have "k = ac_id a" using keys [OF k] 2(3) [OF Some] by simp
      then show False using k by simp
    qed
    moreover have "distinct (take_targets (m(ac_id a := None)) as)" using 2(2) [OF Some] keys by blast
    ultimately show ?thesis using set_take_targets [of "m(ac_id a := None)" as] Some by (auto simp del: fun_upd_apply)
  qed (use 2 in simp)
qed simp

lemma mset_distinct_subset: "distinct xs \<Longrightarrow> set xs \<subseteq> set ys \<Longrightarrow> mset xs \<subseteq># mset ys"
  by (rule mset_subset_eqI) (auto simp: distinct_count_atmost_1 count_mset_0_iff Suc_le_eq dest: subsetD)

lemma mset_order_accounts:
  assumes "order_route_account_candidates draw g = Some g'"
  shows "mset g' \<subseteq># mset g"
proof -
  define m where "m = map_of (rev (map (\<lambda>t. (ac_id (rs_account t), t)) g))"
  obtain as where g': "g' = take_targets m as" using assms by (auto simp: order_route_account_candidates_def m_def)
  have "ac_id (rs_account t) = k \<and> t \<in> set g" if "m k = Some t" for k t using that by (auto simp: m_def dest: map_of_SomeD)
  then show ?thesis unfolding g'
    using set_take_targets [of m as] by (intro mset_distinct_subset distinct_take_targets) (auto simp: ran_def)
qed

lemma mset_order_groups: "order_groups draws i gs = Some hs \<Longrightarrow> mset (concat hs) \<subseteq># mset (concat gs)"
proof (induction gs arbitrary: i hs)
  case (Cons g gs)
  then obtain g' hs' where "order_route_account_candidates (draws i) g = Some g'" "order_groups draws (Suc i) gs = Some hs'"
    "hs = g' # hs'" by (auto split: option.splits)
  then show ?case using Cons.IH mset_order_accounts by (fastforce intro: subset_mset.add_mono)
qed simp

lemma mset_sort_groups: "sort_groups scores disp gs = Some hs \<Longrightarrow> mset (concat hs) = mset (concat gs)"
proof (induction gs arbitrary: hs)
  case (Cons g gs)
  then obtain d hs' where "sort_by (compare_adaptive_targets scores) (filter disp g) = Some d"
    "sort_groups scores disp gs = Some hs'" "hs = (d @ filter (\<lambda>t. \<not> disp t) g) # hs'" by (auto split: option.splits)
  moreover have "mset g = mset (filter disp g) + mset (filter (\<lambda>t. \<not> disp t) g)"
    by (simp flip: multiset_partition)
  ultimately show ?case using Cons.IH mset_sort_by by fastforce
qed simp

lemma mset_concat_of: "mset xs = mset ys \<Longrightarrow> mset (concat xs) = mset (concat ys)"
  unfolding mset_concat sum_mset_sum_list [symmetric] by simp

lemma mset_adaptive: "adaptive scores disp gs = Some hs \<Longrightarrow> mset (concat hs) = mset (concat gs)"
  using mset_sort_groups mset_sort_by mset_concat_of by (fastforce simp: adaptive_def split: option.splits)

lemma mset_order_route_targets:
  assumes "order_route_targets cd wall inst draws pick route targets s = Some (ot, s')"
  shows "mset (ot_targets ot) \<subseteq># mset targets"
proof -
  obtain gs where gs: "order_groups draws 0 (group_targets targets) = Some gs"
    using assms by (auto simp: order_route_targets_def split: option.splits)
  have sub: "mset (concat gs) \<subseteq># mset targets"
    using mset_order_groups [OF gs] by (simp add: mset_group_targets)
  have rr: "mset (concat (round_robin n gs)) = mset (concat gs)" for n by (rule rr.keeps_members)
  have wt: "mset (concat (weighted pick gs)) = mset (concat gs)" by (rule wt.keeps_members)
  have lu: "mset (concat (least_used u gs)) = mset (concat gs)" for u by (rule least.keeps_members)
  have pr: "mset (concat (sort_key first_priority gs)) = mset (concat gs)" by (rule prio.keeps_members)
  have ad: "order_adaptive cd wall inst s targets gs = Some ot' \<Longrightarrow> mset (ot_targets ot') = mset (concat gs)" for ot'
    using mset_adaptive by (fastforce simp: order_adaptive_def Let_def split: option.splits)
  show ?thesis
    using assms sub rr wt lu pr ad
    by (auto simp: order_route_targets_def gs Let_def split: if_splits prod.splits)
qed

subsection \<open>Candidates of the attempts\<close>

definition permitted :: "codec \<Rightarrow> run_request \<Rightarrow> resolved_target \<Rightarrow> bool" where
  "permitted cd rq t \<longleftrightarrow>
     (case rr_key rq of Some k \<Rightarrow> allowed_providers cd k = [] \<or> pv_id (rs_provider t) \<in> set (allowed_providers cd k) | None \<Rightarrow> True) \<and>
     (case md_context_window (rs_model t) of
        Some window \<Rightarrow> window \<le> 0 \<or> int (approx_input_tokens (rr_body rq)) \<le> window | None \<Rightarrow> True)"

lemma order_candidates_permitted:
  assumes "order_candidates_for_attempts cd rn rq route ts l = Some (ts', l')"
  shows "mset ts' \<subseteq># mset (filter (permitted cd rq) ts)"
proof -
  define allowed where "allowed = (case rr_key rq of Some k \<Rightarrow> allowed_providers cd k | None \<Rightarrow> [])"
  obtain ts1 l1 where r: "retain_permitted allowed (approx_input_tokens (rr_body rq)) (rn_ms rn 3) ts l = (ts1, l1)"
    using prod.exhaust by blast
  obtain ts2 l2 where o: "order_adaptive_route cd rn route ts1 l1 = Some (ts2, l2)"
      "defer_open cd (rn_wall rn 2) (rn_ms rn 4) ts2 l2 = (ts', l')"
    using assms r by (auto simp: order_candidates_for_attempts_def allowed_def split: prod.splits)
  have p: "target_excluded allowed (approx_input_tokens (rr_body rq)) t = None \<longleftrightarrow> permitted cd rq t" for t
    by (cases "rr_key rq"; cases "md_context_window (rs_model t)")
       (auto simp: target_excluded_def permitted_def allowed_def not_less split: if_splits)
  have "ts1 = filter (permitted cd rq) ts"
    using r p by (auto simp: retain_permitted_def)
  moreover have "mset ts2 \<subseteq># mset ts1"
    using o(1) mset_order_route_targets
    by (fastforce simp: order_adaptive_route_def order_targets_def split: option.splits)
  moreover have "mset ts' = mset ts2" using o(2) by (auto simp: defer_open_def Let_def simp flip: multiset_partition)
  ultimately show ?thesis by simp
qed

lemma promote_session_mset: "promote_session ms route key ts l = (ts', l') \<Longrightarrow> mset ts' = mset ts"
  by (auto simp: promote_session_def Let_def mset_rotate split: option.splits if_splits)

lemma tally_loop_start [simp]: "tally (loop_start a tr) = (0, {}, [])"
  by (simp add: tally_def loop_start_def)

lemma tally_set_app [simp]: "tally (l\<lparr>ls_app := a\<rparr>) = tally l" "tally (l\<lparr>ls_trace := tr\<rparr>) = tally l"
  by (simp_all add: tally_def)

lemma tally_accept [simp]: "tally (accept_request rn rq a) = (0, {}, [])"
  by (simp add: accept_request_def Let_def)

lemma tally_find_candidates:
  "find_candidates cd rn rq snap r l = Some (q, l') \<Longrightarrow> tally l' = tally l"
  by (cases r) (auto simp: find_candidates_def route_candidates_def Let_def bind_eq_Some_conv)

lemma tally_order_candidates:
  assumes "order_candidates_for_attempts cd rn rq route ts l = Some (ts', l')"
  shows "tally l' = tally l"
proof -
  obtain ts1 l1 where r: "retain_permitted (case rr_key rq of Some k \<Rightarrow> allowed_providers cd k | None \<Rightarrow> [])
      (approx_input_tokens (rr_body rq)) (rn_ms rn 3) ts l = (ts1, l1)"
    using prod.exhaust by blast
  obtain ts2 l2 where o: "order_adaptive_route cd rn route ts1 l1 = Some (ts2, l2)"
      "defer_open cd (rn_wall rn 2) (rn_ms rn 4) ts2 l2 = (ts', l')"
    using assms r by (auto simp: order_candidates_for_attempts_def split: prod.splits)
  have "tally l1 = tally l" using r by (auto simp: retain_permitted_def)
  moreover have "tally l2 = tally l1" using o(1) by (auto simp: order_adaptive_route_def split: option.splits)
  moreover have "tally l' = tally l2" using o(2) by (auto simp: defer_open_def Let_def)
  ultimately show ?thesis by simp
qed

definition sends_bounded ::
  "run_request \<Rightarrow> resolved_target list \<Rightarrow> (proxy_error + attempt) \<Rightarrow> loop_state \<Rightarrow> bool" where
  "sends_bounded rq ts r l \<longleftrightarrow>
     (\<exists>ks. length ks = length ts \<and> (\<forall>k \<in> set ks. k \<le> 2) \<and> ls_sends l = sends_in_order ts ks \<and>
        ls_auth_retried l \<subseteq> account_ids ts \<and>
        sum_list ks \<le> (if rr_allow_fallback rq then 5 else 1) + card (ls_auth_retried l) \<and>
        (case r of Inr a \<Rightarrow> ls_sends l \<noteq> [] \<and> last (ls_sends l) = at_target a | Inl _ \<Rightarrow> True))"

lemma sends_bounded_none: "tally l = (0, {}, []) \<Longrightarrow> sends_bounded rq ts (Inl err) l"
  unfolding sends_bounded_def tally_def
  by (intro exI [of _ "replicate (length ts) 0"]) (auto simp: sends_zero sum_list_replicate)

lemma loop_run_bounded:
  assumes run: "loop_run rx ts l r l'" and l: "tally l = (0, {}, [])" and t: "tally l2 = tally l'"
    and rx: "rx_allow_fallback rx = rr_allow_fallback rq" "rx_max_attempts rx \<le> 5"
    and res: "case q of Inr a \<Rightarrow> r = Some (Inr a) | Inl _ \<Rightarrow> True"
  shows "sends_bounded rq ts q l2"
proof -
  have z: "ls_attempts_done l = 0" "ls_auth_retried l = {}" "ls_sends l = []" using l by (simp_all add: tally_def)
  have t2: "ls_sends l2 = ls_sends l'" "ls_auth_retried l2 = ls_auth_retried l'" using t by (simp_all add: tally_def)
  obtain ks where k: "counts_ok {} ts ks" "ls_sends l' = sends_in_order ts ks" "ls_auth_retried l' \<subseteq> account_ids ts"
      "sum_list ks = ls_attempts_done l' + card (ls_auth_retried l')"
      "ls_attempts_done l' \<le> (if rx_allow_fallback rx then rx_max_attempts rx else 1)"
      "case r of Some (Inr a) \<Rightarrow> ls_sends l' \<noteq> [] \<and> last (ls_sends l') = at_target a | _ \<Rightarrow> True"
    using run by (auto simp: loop_run_def z)
  have "length ks = length ts" using k(1) by (simp add: counts_ok_def list_all2_lengthD)
  moreover have "\<forall>k \<in> set ks. k \<le> 2" using k(1) by (auto simp: counts_ok_def send_limit_def list_all2_conv_all_nth in_set_conv_nth)
  moreover have "sum_list ks \<le> (if rr_allow_fallback rq then 5 else 1) + card (ls_auth_retried l')"
    using k(4,5) rx by (auto split: if_splits)
  moreover have "case q of Inr a \<Rightarrow> ls_sends l2 \<noteq> [] \<and> last (ls_sends l2) = at_target a | Inl _ \<Rightarrow> True"
    using k(6) res t2 by (auto split: sum.splits)
  ultimately show ?thesis unfolding sends_bounded_def t2 using k(2,3) by blast
qed

lemma attempt_candidates_bounded:
  assumes "attempt_candidates re rn rq route ts l = (r, l')" and l: "tally l = (0, {}, [])"
  shows "sends_bounded rq
    (fst (promote_session (rn_ms rn 5) route
       (Option.bind (rr_session rq) (\<lambda>s. sticky_lookup s (rn_inst rn 2) (ap_sticky (ls_app l)))) ts l)) r l'"
proof (cases "ts = []")
  case True
  then show ?thesis using assms by (auto simp: attempt_candidates_def Let_def intro: sends_bounded_none)
next
  case False
  define key where "key = Option.bind (rr_session rq) (\<lambda>s. sticky_lookup s (rn_inst rn 2) (ap_sticky (ls_app l)))"
  define rx where "rx = attempts_ctx rn rq route ts key"
  obtain ts' l1 where p: "promote_session (rn_ms rn 5) route key ts l = (ts', l1)" using prod.exhaust by blast
  obtain q l2 where q: "attempt_loop re rx (rn_attempts rn) 0 ts' l1 = (q, l2)" using prod.exhaust by blast
  have l1: "tally l1 = (0, {}, [])" using p l by (auto simp: promote_session_def Let_def split: option.splits if_splits)
  have rx: "rx_allow_fallback rx = rr_allow_fallback rq" "rx_max_attempts rx \<le> 5"
    by (simp_all add: rx_def attempts_ctx_def max_attempts_of_def)
  have run: "loop_run rx ts' l1 q l2" using attempt_loop_run [OF q] l1 by (simp add: tally_def)
  note step = assms(1) [unfolded attempt_candidates_def Let_def key_def [symmetric] rx_def [symmetric] if_not_P [OF False] p
      prod.case q]
  have "sends_bounded rq ts' r l'"
  proof (cases q)
    case None
    then have "tally l' = tally l2" "\<exists>err. r = Inl err" using step by (auto simp: exhaust_def)
    then show ?thesis using loop_run_bounded [OF run l1 _ rx, of l' r] by auto
  next
    case (Some w)
    then have "r = w" "l' = l2" using step by simp_all
    then show ?thesis using loop_run_bounded [OF run l1 refl rx, of r] Some by (auto split: sum.split)
  qed
  then show ?thesis using p unfolding key_def by simp
qed

text \<open>What comes before the attempts touches no concurrency slot, if other tasks do not.\<close>

definition others_idle :: "run_env \<Rightarrow> bool" where
  "others_idle rn \<longleftrightarrow> (\<forall>a. ap_traffic (rn_others rn a) = ap_traffic a) \<and> (\<forall>i. others_keep_traffic (rn_attempts rn i))"

lemma traffic_start [simp]: "traffic (loop_start a tr) = ap_traffic a" "traffic (accept_request rn rq a) = ap_traffic a"
  by (simp_all add: loop_start_def accept_request_def Let_def)

lemma traffic_order_targets:
  "order_targets cd rn route ts a = Some (ot, a') \<Longrightarrow> ap_traffic a' = ap_traffic a"
  by (auto simp: order_targets_def)

lemma traffic_find_candidates:
  assumes "find_candidates cd rn rq snap r l = Some (q, l')" and o: "others_idle rn"
  shows "traffic l' = traffic l"
proof (cases r)
  case (Single p m)
  then show ?thesis using assms by (auto simp: find_candidates_def)
next
  case (Route route targets)
  then obtain kept l2 where rc: "route_candidates cd rn rq route targets l = Some (kept, l2)" and l': "traffic l' = traffic l2"
    using assms(1) by (auto simp: find_candidates_def)
  have "traffic l2 = traffic l"
    using rc o by (auto simp: route_candidates_def Let_def bind_eq_Some_conv others_idle_def on_trace_def
        dest!: traffic_order_targets split: if_splits)
  then show ?thesis using l' by simp
qed

lemma traffic_order_candidates:
  assumes "order_candidates_for_attempts cd rn rq route ts l = Some (ts', l')"
  shows "traffic l' = traffic l"
proof -
  obtain ts1 l1 where r: "retain_permitted (case rr_key rq of Some k \<Rightarrow> allowed_providers cd k | None \<Rightarrow> [])
      (approx_input_tokens (rr_body rq)) (rn_ms rn 3) ts l = (ts1, l1)"
    using prod.exhaust by blast
  obtain ts2 l2 where o: "order_adaptive_route cd rn route ts1 l1 = Some (ts2, l2)"
      "defer_open cd (rn_wall rn 2) (rn_ms rn 4) ts2 l2 = (ts', l')"
    using assms r by (auto simp: order_candidates_for_attempts_def split: prod.splits)
  have "traffic l1 = traffic l" using r by (auto simp: retain_permitted_def)
  moreover have "traffic l2 = traffic l1"
    using o(1) by (auto simp: order_adaptive_route_def dest!: traffic_order_targets split: option.splits)
  moreover have "traffic l' = traffic l2" using o(2) by (auto simp: defer_open_def Let_def)
  ultimately show ?thesis by simp
qed

definition slots_kept :: "loop_state \<Rightarrow> proxy_error + attempt \<Rightarrow> loop_state \<Rightarrow> bool" where
  "slots_kept l r l' \<longleftrightarrow>
     (case r of
        Inl _ \<Rightarrow> \<forall>k. inflight l' k = inflight l k
      | Inr ans \<Rightarrow> \<forall>k. inflight l' k = inflight l k + held (at_traffic_permit ans) (traffic_key (at_target ans)) k)"

lemma attempt_candidates_slots:
  assumes "attempt_candidates re rn rq route ts l = (r, l')" and o: "others_idle rn"
  shows "slots_kept l r l'"
proof (cases "ts = []")
  case True
  then show ?thesis using assms(1) by (auto simp: attempt_candidates_def Let_def slots_kept_def inflight_def)
next
  case False
  define key where "key = Option.bind (rr_session rq) (\<lambda>s. sticky_lookup s (rn_inst rn 2) (ap_sticky (ls_app l)))"
  define rx where "rx = attempts_ctx rn rq route ts key"
  obtain ts' l1 where p: "promote_session (rn_ms rn 5) route key ts l = (ts', l1)" using prod.exhaust by blast
  obtain q l2 where q: "attempt_loop re rx (rn_attempts rn) 0 ts' l1 = (q, l2)" using prod.exhaust by blast
  have "traffic l1 = traffic l" using p by (auto simp: promote_session_def Let_def split: option.splits if_splits)
  then have l1: "inflight l1 = inflight l" by (rule inflight_cong)
  have k: "keeps_slots l1 q l2" using o by (intro attempt_loop_slots [OF _ q]) (simp add: others_idle_def)
  note step = assms(1) [unfolded attempt_candidates_def Let_def key_def [symmetric] rx_def [symmetric] if_not_P [OF False] p
      prod.case q]
  show ?thesis
  proof (cases q)
    case None
    then have "traffic l' = traffic l2" "\<exists>err. r = Inl err" using step by (auto simp: exhaust_def)
    then show ?thesis using k None l1 inflight_cong [of l' l2] by (auto simp: slots_kept_def keeps_slots_def)
  next
    case (Some w)
    then show ?thesis using step k l1 by (auto simp: slots_kept_def keeps_slots_def split: sum.splits)
  qed
qed

text \<open>A run either ends before its attempts, or attempts permitted candidates.\<close>

lemma run_cases:
  assumes "run re rn rq a = Some (r, l)"
  obtains (early) err where "r = Inl err" "tally l = (0, {}, [])" "others_idle rn \<longrightarrow> traffic l = ap_traffic a"
  | (attempts) route ts l0 where "tally l0 = (0, {}, [])" "mset ts \<subseteq># mset (filter (permitted (re_codec re) rq) (found_targets re rn rq a))"
      "attempt_candidates re rn rq route ts l0 = (r, l)" "others_idle rn \<longrightarrow> traffic l0 = ap_traffic a"
      "candidate_order re rn rq a = fst (promote_session (rn_ms rn 5) route
         (Option.bind (rr_session rq) (\<lambda>s. sticky_lookup s (rn_inst rn 2) (ap_sticky (ls_app l0)))) ts l0)"
proof (cases "if rr_key rq = None then Inr () else rn_admission rn")
  case (Inl err)
  then show ?thesis using assms early by (auto simp: run_def Let_def)
next
  case (Inr u)
  define l1 where "l1 = on_trace (trace_add (rn_ms rn 1) ''resolve'' None
     (''resolved '' @ quoted (requested_model (rr_body rq)))) (accept_request rn rq a)"
  have l1: "tally l1 = (0, {}, [])" "traffic l1 = ap_traffic a"
    by (simp_all add: l1_def)
  show ?thesis
  proof (cases "resolve_in (re_codec re) (ap_snapshot a) (requested_model (rr_body rq))")
    case None
    then show ?thesis using assms early Inr by (auto simp: run_def Let_def)
  next
    case (Some res)
    then obtain q l2 where f: "find_candidates (re_codec re) rn rq (ap_snapshot a) res l1 = Some (q, l2)"
      and k: "(case q of Inl err \<Rightarrow> Some (Inl err, l2)
         | Inr (ts, route) \<Rightarrow> map_option (\<lambda>(ts', l3). attempt_candidates re rn rq route ts' l3)
             (order_candidates_for_attempts (re_codec re) rn rq route ts l2)) = Some (r, l)"
      using assms Inr by (auto simp: run_def Let_def l1_def bind_eq_Some_conv)
    have l2: "tally l2 = (0, {}, [])" "others_idle rn \<longrightarrow> traffic l2 = ap_traffic a"
      using tally_find_candidates [OF f] traffic_find_candidates [OF f] l1 by simp_all
    show ?thesis
    proof (cases q)
      case (Inl err)
      then show ?thesis using k l2 early by auto
    next
      case q: (Inr w)
      obtain ts route where w: "w = (ts, route)" using prod.exhaust by blast
      obtain ts' l3 where o: "order_candidates_for_attempts (re_codec re) rn rq route ts l2 = Some (ts', l3)"
        "attempt_candidates re rn rq route ts' l3 = (r, l)" using k q w by auto
      have found: "candidates_found re rn rq a = Some ((ts, route), l2)"
        using Some f q w by (simp add: candidates_found_def l1_def)
      show ?thesis
        using attempts [of l3 ts' route] o tally_order_candidates [OF o(1)] traffic_order_candidates [OF o(1)] l2
          order_candidates_permitted [OF o(1)] found
        by (auto simp: found_targets_def candidate_order_def)
    qed
  qed
qed

text \<open>The list a run goes through holds candidates it found, each as often as it found it, that are permitted.\<close>

lemma candidate_order_found:
  "mset (candidate_order re rn rq a) \<subseteq># mset (filter (permitted (re_codec re) rq) (found_targets re rn rq a))"
proof (cases "candidates_found re rn rq a")
  case (Some w)
  obtain ts route l where w: "w = ((ts, route), l)" by (metis surj_pair)
  show ?thesis
  proof (cases "order_candidates_for_attempts (re_codec re) rn rq route ts l")
    case o: (Some q)
    obtain ts' l' where q: "q = (ts', l')" using prod.exhaust by blast
    have "mset (fst (promote_session ms route key ts' l')) = mset ts'" for ms key
      by (rule promote_session_mset) (rule prod.collapse [symmetric])
    then show ?thesis
      using Some w o q order_candidates_permitted [of "re_codec re" rn rq route ts l ts' l']
      by (simp add: candidate_order_def found_targets_def)
  qed (simp add: candidate_order_def Some w)
qed (simp add: candidate_order_def)

lemma sends_bounded_count:
  assumes "length ks = length ts" "\<forall>k \<in> set ks. k \<le> 2"
  shows "count_list (sends_in_order ts ks) t \<le> 2 * count_list ts t"
proof -
  have "count_list (replicate k x) t = (if x = t then k else 0)" for k and x :: resolved_target by (induction k) auto
  then show ?thesis using assms by (induction ts ks rule: list_induct2') auto
qed

text \<open>
  C1. What a request sends is bounded and in order: whatever the outside answers, a request goes down the list of the
  candidates found for its model name, each in its place and as often as it was found, less those its key may not use or
  whose context window does not hold it; it sends to each entry of that list at most twice before it goes on to the next
  and never comes back to one. It sends at most five times, or once where the client forbids fallback, not counting the
  one retry an account gets after its credential was renewed. An answer comes from the last target sent to.
\<close>

theorem run_sends_bounded:
  assumes "run re rn rq a = Some (r, l)"
  shows "mset (candidate_order re rn rq a) \<subseteq># mset (filter (permitted (re_codec re) rq) (found_targets re rn rq a)) \<and>
     (\<exists>ks. length ks = length (candidate_order re rn rq a) \<and> (\<forall>k \<in> set ks. k \<le> 2) \<and>
        ls_sends l = sends_in_order (candidate_order re rn rq a) ks \<and>
        sum_list ks \<le> (if rr_allow_fallback rq then 5 else 1) + card (ls_auth_retried l)) \<and>
     ls_auth_retried l \<subseteq> account_ids (candidate_order re rn rq a) \<and>
     (\<forall>t. count_list (ls_sends l) t \<le> 2 * count_list (found_targets re rn rq a) t) \<and>
     (case r of Inr ans \<Rightarrow> ls_sends l \<noteq> [] \<and> last (ls_sends l) = at_target ans | Inl _ \<Rightarrow> True)"
proof -
  have "sends_bounded rq (candidate_order re rn rq a) r l"
    using assms
  proof (cases rule: run_cases)
    case (early err)
    then show ?thesis by (simp add: sends_bounded_none)
  next
    case (attempts route ts l0)
    then show ?thesis using attempt_candidates_bounded [OF attempts(3,1)] by simp
  qed
  then obtain ks where ks: "length ks = length (candidate_order re rn rq a)" "\<forall>k \<in> set ks. k \<le> 2"
      "ls_sends l = sends_in_order (candidate_order re rn rq a) ks"
      "ls_auth_retried l \<subseteq> account_ids (candidate_order re rn rq a)"
      "sum_list ks \<le> (if rr_allow_fallback rq then 5 else 1) + card (ls_auth_retried l)"
      "case r of Inr ans \<Rightarrow> ls_sends l \<noteq> [] \<and> last (ls_sends l) = at_target ans | Inl _ \<Rightarrow> True"
    unfolding sends_bounded_def by blast
  have "count_list (candidate_order re rn rq a) t \<le> count_list (found_targets re rn rq a) t" for t
    using mset_subset_eq_count [OF candidate_order_found, of re rn rq a t] by (simp add: count_mset split: if_splits)
  then have "count_list (ls_sends l) t \<le> 2 * count_list (found_targets re rn rq a) t" for t
    using sends_bounded_count [OF ks(1,2), of t] ks(3) by (metis le_trans mult_le_mono2)
  then show ?thesis using ks candidate_order_found by blast
qed

text \<open>One account that serves the model directly; its upstream does not answer in time.\<close>

definition demo_request_env :: request_env where
  "demo_request_env = \<lparr>re_codec = demo_clock, re_cipher = demo_sound_suite, re_crypto = demo_crypto,
     re_calendar = \<lparr>cal_day_start = (\<lambda>t. t), cal_month_start = (\<lambda>t. t)\<rparr>,
     re_clock = \<lparr>cl_add = (\<lambda>_ _. None), cl_from_timestamp = (\<lambda>_. None), cl_from_timestamp_millis = (\<lambda>_. None)\<rparr>,
     re_send = \<lparr>sc_codec = demo_clock, sc_allow_private_upstreams = False, sc_allow_insecure_tls = False,
       sc_parse_url = (\<lambda>_. Inl ''bad url''), sc_join_url = (\<lambda>_ _. Inl ''bad url'')\<rparr>,
     re_json_error = (\<lambda>_. []), re_show_f64 = (\<lambda>_. []), re_ser_thinking = (\<lambda>_. []),
     re_plugin_adapters = Map.empty, re_adapter = (\<lambda>_. demo_adapter)\<rparr>"

definition demo_attempt_env :: attempt_env where
  "demo_attempt_env = \<lparr>ae_inst = (\<lambda>_. 0), ae_wall = (\<lambda>_. 0), ae_ms = (\<lambda>_. 0), ae_others = (\<lambda>_ a. a), ae_spend = None,
     ae_credential = Inr ''k'', ae_disable_error = False, ae_reload_error = False, ae_outbound = (\<lambda>_ _. demo_env), ae_send_timeout = True,
     ae_headers = [], ae_content_length = None, ae_body = [], ae_body_timeout = False, ae_rotation = Inr False\<rparr>"

definition demo_run_env :: run_env where
  "demo_run_env = \<lparr>rn_admission = Inr (), rn_uuid = ''u'', rn_inst = (\<lambda>_. 0), rn_wall = (\<lambda>_. 0), rn_ms = (\<lambda>_. 0),
     rn_others = (\<lambda>a. a), rn_account_draw = (\<lambda>_ _. 0), rn_group_draws = (\<lambda>_ _ _. 0), rn_pick = (\<lambda>_. 0), rn_usage = None,
     rn_plugin_facts = plugin_facts_default, rn_show_percent = (\<lambda>_. []), rn_attempts = (\<lambda>_. demo_attempt_env)\<rparr>"

definition demo_run_request :: run_request where
  "demo_run_request = \<lparr>rr_id = ''r'', rr_format = OpenAiF, rr_key = None, rr_body = Admission.demo_request,
     rr_allow_fallback = True, rr_session = None, rr_protocol_headers = []\<rparr>"

definition demo_app :: "snapshot \<Rightarrow> app_state" where
  "demo_app snap = \<lparr>ap_db = empty_db, ap_snapshot = snap, ap_circuits = Map.empty, ap_traffic = Map.empty, ap_quota = quota_empty,
     ap_telemetry = telemetry_new Map.empty, ap_flight = flight_default, ap_live = live_new 4, ap_opaque = store_new [],
     ap_outbound = ([], []), ap_sticky = Map.empty, ap_rr_counters = Map.empty, ap_total_requests = 0, ap_route_skips = 0,
     ap_route_fallbacks = 0, ap_failures_pre_commit = 0, ap_route_traces = []\<rparr>"

definition demo_one_account :: snapshot where
  "demo_one_account = snapshot_default\<lparr>sn_providers := [(''p'', demo_provider ''p'' 1)],
     sn_models := [(''m1'', demo_model ''m1'' ''p'' 1)], sn_accounts := [(''a'', demo_account ''a'' 1 1)]\<rparr>"


lemma demo_select: "select_accounts demo_clock 0 (\<lambda>_ _. 0) demo_one_account ''p'' None = Some [demo_account ''a'' 1 1]"
  by code_simp

lemma demo_resolve_run: "resolve_in demo_clock demo_one_account ''gpt'' = Some (Single ''p'' ''m1'')"
  by code_simp

definition demo_direct :: resolved_target where
  "demo_direct = direct_target (demo_model ''m1'' ''p'' 1) (demo_provider ''p'' 1) (demo_account ''a'' 1 1)"


lemma demo_direct_targets:
  "direct_targets demo_clock demo_run_env demo_one_account ''p'' ''m1'' = Some (Inr [demo_direct])"
proof -
  have "map_of (sn_models demo_one_account) ''m1'' = Some (demo_model ''m1'' ''p'' 1)"
    "map_of (sn_providers demo_one_account) ''p'' = Some (demo_provider ''p'' 1)"
    by (simp_all add: demo_one_account_def)
  then show ?thesis by (simp add: direct_targets_def demo_run_env_def demo_select demo_direct_def)
qed

lemma demo_candidates:
  "order_candidates_for_attempts demo_clock demo_run_env demo_run_request None [demo_direct] l = Some ([demo_direct], l)"
proof -
  have "\<not> is_deferred demo_clock 0 demo_direct" "target_excluded [] n demo_direct = None" for n
    by (code_simp, simp add: target_excluded_def demo_direct_def direct_target_def demo_model_def)
  then show ?thesis
    by (simp add: order_candidates_for_attempts_def retain_permitted_def order_adaptive_route_def opt_filter_def
        defer_open_def demo_run_env_def demo_run_request_def on_trace_def Let_def)
qed

lemma demo_run_fields:
  "rr_key demo_run_request = None" "requested_model (rr_body demo_run_request) = ''gpt''"
  "re_codec demo_request_env = demo_clock" "ap_snapshot (demo_app snap) = snap" "rr_allow_fallback demo_run_request"
  by (simp_all add: demo_run_request_def Admission.demo_request_def demo_request_env_def demo_app_def)

lemma demo_direct_run: "\<exists>r l. run demo_request_env demo_run_env demo_run_request (demo_app demo_one_account) = Some (r, l)"
  by (simp add: run_def demo_run_fields demo_resolve_run find_candidates_def demo_direct_targets demo_candidates Let_def)

lemma demo_candidate_order:
  "found_targets demo_request_env demo_run_env demo_run_request (demo_app demo_one_account) = [demo_direct]"
  "candidate_order demo_request_env demo_run_env demo_run_request (demo_app demo_one_account) = [demo_direct]"
  by (simp_all add: found_targets_def candidate_order_def candidates_found_def demo_run_fields demo_resolve_run
      find_candidates_def demo_direct_targets demo_candidates promote_session_def)

theorem run_sends_bounded_witness:
  "\<exists>r l k. run demo_request_env demo_run_env demo_run_request (demo_app demo_one_account) = Some (r, l) \<and>
     ls_sends l = replicate k demo_direct \<and> k \<le> 2"
proof -
  obtain r l where run: "run demo_request_env demo_run_env demo_run_request (demo_app demo_one_account) = Some (r, l)"
    using demo_direct_run by blast
  show ?thesis using run_sends_bounded [OF run] run by (auto simp: demo_candidate_order length_Suc_conv)
qed


text \<open>
  C16. The attempts of a request end: the loop looks at most once at each candidate and once more for each account
  of theirs, so what would be supplied to a later iteration has no effect on the answer or on the state it leaves.
\<close>
theorem attempt_loop_terminates:
  assumes "\<forall>j < length ts + card (account_ids ts). env (i + j) = env' (i + j)"
  shows "attempt_loop re rx env i ts l = attempt_loop re rx env' i ts l"
proof (rule attempt_loop_reads)
  fix j assume "i \<le> j" "j < i + iterations_left ts l"
  moreover have "card (account_ids ts - ls_auth_retried l) \<le> card (account_ids ts)"
    by (rule card_mono) (auto simp: account_ids_def)
  ultimately have "i \<le> j" "j - i < length ts + card (account_ids ts)" by (auto simp: iterations_left_def)
  then show "env j = env' j" using assms [rule_format, of "j - i"] by simp
qed

theorem attempt_loop_terminates_witness:
  "attempt_loop demo_request_env (attempts_ctx demo_run_env demo_run_request None [demo_direct] None)
       (\<lambda>j. if j < 2 then demo_attempt_env else demo_attempt_env\<lparr>ae_send_timeout := False\<rparr>) 0 [demo_direct]
       (loop_start (demo_app demo_one_account) (trace_new ''u'' ''r'' ''gpt'')) =
   attempt_loop demo_request_env (attempts_ctx demo_run_env demo_run_request None [demo_direct] None)
       (\<lambda>_. demo_attempt_env) 0 [demo_direct] (loop_start (demo_app demo_one_account) (trace_new ''u'' ''r'' ''gpt''))"
  by (rule attempt_loop_terminates) (simp add: account_ids_def)

text \<open>
  A request leaves no concurrency slot behind: while no other request runs, each controller of the upstream
  concurrency control counts after a failed run exactly the requests it counted before, and after an answered run the
  one slot the answer still holds for the target it came from.
\<close>
theorem run_keeps_slots:
  assumes "run re rn rq a = Some (r, l)" and "others_idle rn"
  shows "case r of
     Inl _ \<Rightarrow> \<forall>k. inflight l k = tc_inflight (entry_or controller_default (ap_traffic a) k)
   | Inr ans \<Rightarrow> \<forall>k. inflight l k = tc_inflight (entry_or controller_default (ap_traffic a) k)
                    + held (at_traffic_permit ans) (traffic_key (at_target ans)) k"
  using assms(1)
proof (cases rule: run_cases)
  case (early err)
  then show ?thesis using assms(2) by (simp add: inflight_def)
next
  case (attempts route ts l0)
  then have "slots_kept l0 r l" using attempt_candidates_slots assms(2) by blast
  then show ?thesis using attempts(4) assms(2) by (auto simp: slots_kept_def inflight_def split: sum.splits)
qed

theorem run_keeps_slots_witness:
  "\<exists>r l. run demo_request_env demo_run_env demo_run_request (demo_app demo_one_account) = Some (r, l) \<and>
     (case r of Inl _ \<Rightarrow> \<forall>k. inflight l k = 0
      | Inr ans \<Rightarrow> \<forall>k. inflight l k = held (at_traffic_permit ans) (traffic_key (at_target ans)) k)"
proof -
  obtain r l where run: "run demo_request_env demo_run_env demo_run_request (demo_app demo_one_account) = Some (r, l)"
    using demo_direct_run by blast
  have "others_idle demo_run_env"
    by (simp add: others_idle_def others_keep_traffic_def demo_run_env_def demo_attempt_env_def)
  moreover have "tc_inflight (entry_or controller_default (ap_traffic (demo_app demo_one_account)) k) = 0" for k
    by (simp add: entry_or_def demo_app_def controller_default_def)
  ultimately show ?thesis using run_keeps_slots [OF run] run by (cases r) auto
qed

text \<open>
  C32. A request for a name that resolves to nothing is answered with an error but never finished in the live view: it
  stays listed as in flight, no route trace is stored for it, and only newer requests push it out.
\<close>
theorem unknown_model_stays_in_flight:
  assumes "resolve_in (re_codec re) (ap_snapshot a) (requested_model (rr_body rq)) = None"
    and "rr_key rq = None \<or> rn_admission rn = Inr ()"
    and "live_inv (ap_live a)" and "0 < lv_max_live (ap_live a)" and "rr_id rq \<notin> set (lv_order (ap_live a))"
  shows "\<exists>l entry. run re rn rq a = Some (Inl (not_configured (requested_model (rr_body rq))), l) \<and>
     map_of (lv_live (ap_live (ls_app l))) (rr_id rq) = Some entry \<and> \<not> lr_finished entry \<and>
     lr_status entry = ''in_flight'' \<and> ap_route_traces (ls_app l) = ap_route_traces a"
proof -
  define l where "l = accept_request rn rq a"
  obtain entry where "map_of (lv_live (ap_live (ls_app l))) (rr_id rq) = Some entry" "\<not> lr_finished entry"
      "lr_status entry = ''in_flight''"
    using live_start_listed [OF assms(3-5), of "to_ascii_lowercase (frontend_debug (rr_format rq))"
        "requested_model (rr_body rq)" "map_option vk_name (rr_key rq)" None]
    by (auto simp: l_def accept_request_def loop_start_def Let_def)
  moreover have "run re rn rq a = Some (Inl (not_configured (requested_model (rr_body rq))), l)"
    using assms(1,2) by (auto simp: run_def l_def Let_def)
  moreover have "ap_route_traces (ls_app l) = ap_route_traces a"
    by (simp add: l_def accept_request_def loop_start_def Let_def)
  ultimately show ?thesis by blast
qed

theorem unknown_model_stays_in_flight_witness:
  "\<exists>l entry. run demo_request_env demo_run_env demo_run_request (demo_app snapshot_default) = Some (Inl (not_configured ''gpt''), l) \<and>
     map_of (lv_live (ap_live (ls_app l))) ''r'' = Some entry \<and> \<not> lr_finished entry \<and> ap_route_traces (ls_app l) = []"
proof -
  have "resolve_in demo_clock snapshot_default ''gpt'' = None" by code_simp
  moreover have "rr_id demo_run_request = ''r''" "ap_live (demo_app snap) = live_new 4" "ap_route_traces (demo_app snap) = []" for snap
    by (simp_all add: demo_run_request_def demo_app_def)
  ultimately show ?thesis
    using unknown_model_stays_in_flight [of demo_request_env "demo_app snapshot_default" demo_run_request demo_run_env]
    by (auto simp: demo_run_fields live_new_def live_inv_def)
qed

end
