(* ===== verification/Log_Queue.thy ===== *)
theory Log_Queue
  imports Kinetix_Prelude
begin

text \<open>
  The bounded usage-log queue (\<^verbatim>\<open>src/src/logqueue.rs\<close>): a channel of a fixed capacity between the requests and one
  worker that writes the rows in batches, with a counter for its depth and one for the rows given up. The saturation
  test of \<^verbatim>\<open>src/src/alerts.rs\<close> reads both.
\<close>

section \<open>The queue\<close>

record 'r log_queue =
  lq_capacity :: nat
  lq_channel :: "'r list"
  lq_depth :: nat
  lq_dropped :: nat
  lq_batch :: "'r list"

definition log_queue_new :: "nat \<Rightarrow> 'r log_queue" where
  "log_queue_new n = \<lparr>lq_capacity = n, lq_channel = [], lq_depth = 0, lq_dropped = 0, lq_batch = []\<rparr>"

text \<open>\<open>enqueue\<close> is two actions, which the worker may separate: the row is sent, and then it is counted.\<close>

definition try_send :: "'r \<Rightarrow> 'r log_queue \<Rightarrow> 'r log_queue option" where
  "try_send row q =
     (if length (lq_channel q) < lq_capacity q then Some (q\<lparr>lq_channel := lq_channel q @ [row]\<rparr>) else None)"

definition count_row :: "'r log_queue \<Rightarrow> 'r log_queue" where
  "count_row q = q\<lparr>lq_depth := wrap_add64 (lq_depth q) 1\<rparr>"

definition count_drop :: "'r log_queue \<Rightarrow> 'r log_queue" where
  "count_drop q = q\<lparr>lq_dropped := wrap_add64 (lq_dropped q) 1\<rparr>"

definition enqueue :: "'r \<Rightarrow> 'r log_queue \<Rightarrow> 'r log_queue" where
  "enqueue row q = (case try_send row q of Some q' \<Rightarrow> count_row q' | None \<Rightarrow> count_drop q)"

definition BATCH_LIMIT :: nat where [const_defs]: "BATCH_LIMIT = 128"

text \<open>\<^verbatim>\<open>fetch_sub\<close> wraps.\<close>

definition write_row :: "bool \<Rightarrow> 'r log_queue \<Rightarrow> 'r log_queue" where
  "write_row ok q =
     (let q' = q\<lparr>lq_batch := tl (lq_batch q), lq_depth := (lq_depth q + u64_max) mod 2 ^ 64\<rparr>
      in if ok then q' else count_drop q')"

definition queue_saturated :: "'r log_queue \<Rightarrow> bool" where
  "queue_saturated q \<longleftrightarrow>
     lq_capacity q > 0 \<and> (lq_depth q * 100) mod 2 ^ 64 \<ge> (lq_capacity q * 80) mod 2 ^ 64 \<or> lq_dropped q > 0"

section \<open>Runs\<close>

text \<open>
  Requests and the worker interleave. The worker collects a batch while there are rows, up to the limit, and then writes
  it. The history says which rows were accepted and turned away, and which of the accepted ones were stored.
\<close>

record 'r log_run =
  lu_queue :: "'r log_queue"
  lu_writing :: bool
  lu_uncounted :: nat
  lu_accepted :: "'r list"
  lu_rejected :: "'r list"
  lu_handled :: "('r \<times> bool) list"

definition log_start :: "nat \<Rightarrow> 'r log_run" where
  "log_start n = \<lparr>lu_queue = log_queue_new n, lu_writing = False, lu_uncounted = 0, lu_accepted = [], lu_rejected = [],
     lu_handled = []\<rparr>"

inductive log_step :: "'r log_run \<Rightarrow> 'r log_run \<Rightarrow> bool" where
  accept: "try_send row (lu_queue s) = Some q \<Longrightarrow>
    log_step s (s\<lparr>lu_queue := q, lu_uncounted := lu_uncounted s + 1, lu_accepted := lu_accepted s @ [row]\<rparr>)"
| count: "lu_uncounted s = Suc n \<Longrightarrow> log_step s (s\<lparr>lu_queue := count_row (lu_queue s), lu_uncounted := n\<rparr>)"
| reject: "try_send row (lu_queue s) = None \<Longrightarrow>
    log_step s (s\<lparr>lu_queue := count_drop (lu_queue s), lu_rejected := lu_rejected s @ [row]\<rparr>)"
| receive: "lq_channel (lu_queue s) = row # rest \<Longrightarrow> \<not> lu_writing s \<Longrightarrow> length (lq_batch (lu_queue s)) < BATCH_LIMIT \<Longrightarrow>
    log_step s (s\<lparr>lu_queue := (lu_queue s)\<lparr>lq_channel := rest, lq_batch := lq_batch (lu_queue s) @ [row]\<rparr>\<rparr>)"
| flush: "lq_batch (lu_queue s) \<noteq> [] \<Longrightarrow> \<not> lu_writing s \<Longrightarrow>
    lq_channel (lu_queue s) = [] \<or> length (lq_batch (lu_queue s)) = BATCH_LIMIT \<Longrightarrow> log_step s (s\<lparr>lu_writing := True\<rparr>)"
| handle: "lq_batch (lu_queue s) = row # rest \<Longrightarrow> lu_writing s \<Longrightarrow>
    log_step s (s\<lparr>lu_queue := write_row ok (lu_queue s), lu_writing := (rest \<noteq> []),
                  lu_handled := lu_handled s @ [(row, ok)]\<rparr>)"

inductive log_reachable :: "nat \<Rightarrow> 'r log_run \<Rightarrow> bool" for n where
  start: "log_reachable n (log_start n)"
| step: "log_reachable n s \<Longrightarrow> log_step s s' \<Longrightarrow> log_reachable n s'"

section \<open>Invariant\<close>

definition waiting :: "'r log_queue \<Rightarrow> 'r list" where
  "waiting q = lq_batch q @ lq_channel q"

text \<open>The depth counts the rows that wait, less those not counted yet.\<close>

definition log_inv :: "nat \<Rightarrow> 'r log_run \<Rightarrow> bool" where
  "log_inv n s \<longleftrightarrow>
     (let q = lu_queue s
      in lq_capacity q = n \<and> length (lq_channel q) \<le> n \<and> length (lq_batch q) \<le> BATCH_LIMIT \<and>
         lu_accepted s = map fst (lu_handled s) @ waiting q \<and>
         lq_depth q < 2 ^ 64 \<and> (lq_depth q + lu_uncounted s) mod 2 ^ 64 = length (waiting q) mod 2 ^ 64 \<and>
         lq_dropped q = (length (lu_rejected s) + length (filter (\<lambda>(_, ok). \<not> ok) (lu_handled s))) mod 2 ^ 64)"

lemma log_inv_start: "log_inv n (log_start n)"
  by (simp add: log_inv_def log_start_def log_queue_new_def waiting_def)

lemma wrap64_mod: "wrap_add64 a b = (a + b) mod 2 ^ 64"
  by (simp add: wrap_add64_def)

lemma depth_taken:
  assumes "(d + u) mod 18446744073709551616 = Suc x mod 18446744073709551616"
  shows "(d + 18446744073709551615 + u) mod 18446744073709551616 = x mod (18446744073709551616::nat)"
proof -
  have "(d + 18446744073709551615 + u) mod 18446744073709551616 = ((d + u) mod 18446744073709551616 + 18446744073709551615)
      mod (18446744073709551616::nat)" by (simp add: mod_simps algebra_simps)
  also have "\<dots> = (Suc x + 18446744073709551615) mod 18446744073709551616" unfolding assms by (simp add: mod_simps)
  finally show ?thesis by simp
qed

lemma log_inv_step:
  assumes "log_step s s'" and "log_inv n s"
  shows "log_inv n s'"
  using assms
proof cases
  case (accept row q)
  then show ?thesis using assms(2)
    by (auto simp: log_inv_def Let_def try_send_def waiting_def mod_Suc_eq split: if_splits) (metis mod_Suc_eq)
next
  case (count m)
  then show ?thesis using assms(2)
    by (auto simp: log_inv_def Let_def count_row_def waiting_def wrap64_mod mod_simps)
next
  case (reject row)
  then show ?thesis using assms(2)
    by (auto simp: log_inv_def Let_def count_drop_def waiting_def wrap64_mod mod_simps)
next
  case (receive row rest)
  then show ?thesis using assms(2) by (auto simp: log_inv_def Let_def waiting_def)
next
  case flush
  then show ?thesis using assms(2) by (auto simp: log_inv_def Let_def waiting_def)
next
  case (handle row rest ok)
  then show ?thesis using assms(2)
    by (auto simp: log_inv_def Let_def write_row_def count_drop_def waiting_def wrap64_mod mod_simps u64_max_def
        intro: depth_taken)
qed

lemma log_reachable_inv: "log_reachable n s \<Longrightarrow> log_inv n s"
  by (induction rule: log_reachable.induct) (auto intro: log_inv_start log_inv_step)

text \<open>
  C40. No row is lost unnoticed: in every interleaving of requests and the worker, the rows accepted are, in their order,
  those written or given up and then those that still wait, which are never more than the capacity and one batch; the
  drop counter counts the rows turned away and given up; and once every row is counted the depth is the number that wait.
\<close>
theorem log_queue_conserves:
  assumes "log_reachable n s" and "n + 128 < 2 ^ 64"
  shows "lu_accepted s = map fst (lu_handled s) @ waiting (lu_queue s) \<and> length (waiting (lu_queue s)) \<le> n + 128 \<and>
     lq_dropped (lu_queue s) = (length (lu_rejected s) + length (filter (\<lambda>(_, ok). \<not> ok) (lu_handled s))) mod 2 ^ 64 \<and>
     (lu_uncounted s = 0 \<longrightarrow> lq_depth (lu_queue s) = length (waiting (lu_queue s)))"
proof -
  have "log_inv n s" by (rule log_reachable_inv [OF assms(1)])
  moreover from this have "length (waiting (lu_queue s)) \<le> n + 128"
    by (auto simp: log_inv_def Let_def waiting_def BATCH_LIMIT_def)
  ultimately show ?thesis using assms(2) by (auto simp: log_inv_def Let_def)
qed

text \<open>A row that is stored before its sender counts it.\<close>

definition demo_taken :: "nat log_run" where
  "demo_taken = (log_start 4096)\<lparr>lu_queue := (log_queue_new 4096)\<lparr>lq_batch := [7]\<rparr>, lu_writing := True, lu_uncounted := 1,
     lu_accepted := [7]\<rparr>"

lemma demo_taken_reachable: "log_reachable 4096 demo_taken"
proof -
  let ?q = "log_queue_new 4096 :: nat log_queue"
  let ?s1 = "(log_start 4096)\<lparr>lu_queue := ?q\<lparr>lq_channel := [7]\<rparr>, lu_uncounted := 1, lu_accepted := [7]\<rparr>"
  let ?s2 = "(log_start 4096)\<lparr>lu_queue := ?q\<lparr>lq_batch := [7]\<rparr>, lu_uncounted := 1, lu_accepted := [7]\<rparr>"
  have "log_step (log_start 4096) ?s1"
    using log_step.accept [of 7 "log_start 4096" "?q\<lparr>lq_channel := [7]\<rparr>"]
    by (simp add: log_start_def try_send_def log_queue_new_def)
  moreover have "log_step ?s1 ?s2"
    using log_step.receive [of ?s1 7 "[]"] by (simp add: log_start_def log_queue_new_def BATCH_LIMIT_def)
  moreover have "log_step ?s2 demo_taken"
    using log_step.flush [of ?s2] by (simp add: demo_taken_def log_start_def log_queue_new_def)
  ultimately show ?thesis by (meson log_reachable.intros)
qed

theorem log_queue_conserves_witness:
  "lu_accepted demo_taken = map fst (lu_handled demo_taken) @ waiting (lu_queue demo_taken) \<and>
   length (waiting (lu_queue demo_taken)) \<le> 4224"
  using log_queue_conserves [OF demo_taken_reachable] by simp

text \<open>
  A false alarm: the worker can take and write a row before the request that sent it has counted it, so the depth
  wraps to \<open>2 ^ 64 - 1\<close> and the queue is reported as saturated although nothing waits in it and nothing was dropped.
\<close>
theorem log_depth_wraps:
  "\<exists>s :: nat log_run. log_reachable 4096 s \<and> lq_depth (lu_queue s) = 2 ^ 64 - 1 \<and> waiting (lu_queue s) = [] \<and>
     lq_dropped (lu_queue s) = 0 \<and> queue_saturated (lu_queue s)"
proof (intro exI conjI)
  let ?s = "demo_taken\<lparr>lu_queue := write_row True (lu_queue demo_taken), lu_writing := False, lu_handled := [(7, True)]\<rparr>"
  have "log_step demo_taken ?s"
    using log_step.handle [of demo_taken 7 "[]" True] by (simp add: demo_taken_def log_start_def)
  then show "log_reachable 4096 ?s" using demo_taken_reachable by (rule log_reachable.step [rotated])
  show "lq_depth (lu_queue ?s) = 2 ^ 64 - 1" "waiting (lu_queue ?s) = []" "lq_dropped (lu_queue ?s) = 0"
    "queue_saturated (lu_queue ?s)"
    by (simp_all add: demo_taken_def write_row_def log_queue_new_def waiting_def queue_saturated_def u64_max_def)
qed

end
