(* ===== verification/Settlement.thy ===== *)
theory Settlement
  imports Client_Relay Request_Run Log_Queue
begin

text \<open>
  Settling an answered request (\<^verbatim>\<open>src/src/pipeline.rs\<close>): \<open>finalize_log\<close>, the aggregating driver \<open>drive_aggregate\<close>, and
  \<open>stream_response\<close>, which chooses the driver. A request's slot, circuit, reservation, usage row, trace and live entry
  are all closed here. The desk is the state a settlement works on; the rows of the body log and the payloads of the
  usage hook are appended to it.
\<close>

section \<open>Rows\<close>

record usage_log_row =
  ul_id :: string
  ul_request_id :: string
  ul_ts :: string
  ul_key_id :: "string option"
  ul_key_name :: "string option"
  ul_client_format :: string
  ul_requested_model :: string
  ul_effective_model :: "string option"
  ul_route_id :: "string option"
  ul_route_name :: "string option"
  ul_fallback_hops :: int
  ul_fallback_path :: string
  ul_status :: string
  ul_status_code :: int
  ul_latency_ms :: "int option"
  ul_ttft_ms :: "int option"
  ul_input_tokens :: "int option"
  ul_output_tokens :: "int option"
  ul_cached_tokens :: "int option"
  ul_cache_write_tokens :: "int option"
  ul_thinking_tokens :: "int option"
  ul_cost_usd :: "f64 option"
  ul_cost_known :: int
  ul_price_version_id :: "string option"
  ul_cache_status :: string
  ul_serving_account_id :: "string option"
  ul_serving_account :: "string option"
  ul_serving_provider :: "string option"
  ul_upstream_request_id :: "string option"
  ul_flagged :: int
  ul_error_message :: "string option"
  ul_usage_confidence :: string
  ul_commit_state :: string
  ul_retry_count :: int
  ul_route_trace_id :: "string option"
  ul_opaque_route_id :: "string option"

record body_log =
  bl_request_id :: string
  bl_key_id :: string
  bl_direction :: string
  bl_body :: string
  bl_retention_days :: nat

text \<open>The metadata of a request; its reservation is that of a key, by number.\<close>

record request_meta =
  mt_request_id :: string
  mt_key_id :: "string option"
  mt_key_name :: "string option"
  mt_key_tag :: "string option"
  mt_client_format :: string
  mt_requested_model :: string
  mt_route_id :: "string option"
  mt_route_name :: "string option"
  mt_fallback_hops :: int
  mt_retry_count :: int
  mt_fallback_path :: "string list"
  mt_cache_status :: string
  mt_commit_state :: string
  mt_session :: "string option"
  mt_admission :: "(string \<times> nat) option"

definition meta_new :: "string \<Rightarrow> frontend_format \<Rightarrow> string \<Rightarrow> request_meta" where
  "meta_new i format model =
     \<lparr>mt_request_id = i, mt_key_id = None, mt_key_name = None, mt_key_tag = None, mt_client_format = format_as_str format,
      mt_requested_model = model, mt_route_id = None, mt_route_name = None, mt_fallback_hops = 0, mt_retry_count = 0,
      mt_fallback_path = [], mt_cache_status = ''bypass'', mt_commit_state = [], mt_session = None, mt_admission = None\<rparr>"

text \<open>What \<open>run\<close> has put into it when an attempt is answered.\<close>

definition meta_of :: "run_request \<Rightarrow> (string \<times> nat) option \<Rightarrow> attempt \<Rightarrow> loop_state \<Rightarrow> request_meta" where
  "meta_of rq reservation ans l =
     (meta_new (rr_id rq) (rr_format rq) (requested_model (rr_body rq)))
       \<lparr>mt_key_id := map_option vk_id (rr_key rq), mt_key_name := map_option vk_name (rr_key rq),
        mt_key_tag := key_tag (rr_key rq), mt_route_id := rt_route_id (ls_trace l),
        mt_route_name := rt_route_name (ls_trace l), mt_fallback_hops := int (at_retries ans),
        mt_retry_count := int (at_retries ans), mt_fallback_path := ls_path l, mt_session := rr_session rq,
        mt_admission := reservation\<rparr>"

record desk =
  dk_app :: app_state
  dk_admission :: admission_controller
  dk_log :: "usage_log_row log_queue"
  dk_body_logs :: "body_log list"
  dk_hooks :: "json list"

text \<open>What the outside supplies: identifiers, the clocks, and whether a plugin host runs.\<close>

record settle_env =
  se_codec :: codec
  se_plugins :: bool
  se_uuid :: string
  se_ts :: string
  se_started :: nanos
  se_inst :: nanos
  se_wall :: nanos
  se_clock :: wall_clock
  se_ms :: "nat \<Rightarrow> nat"

section \<open>Settling\<close>

definition persisted_ttft_ms :: "bool \<Rightarrow> int option \<Rightarrow> int option" where
  "persisted_ttft_ms is_sse ttft = (if is_sse then ttft else None)"

definition persisted_request_timing :: "int \<Rightarrow> bool \<Rightarrow> int option \<Rightarrow> int \<times> int option" where
  "persisted_request_timing duration is_sse ttft = (duration, persisted_ttft_ms is_sse ttft)"

text \<open>The slot: an outcome for the controller of the target, which a dropped permit would not give.\<close>

definition traffic_outcome_of :: "stream_end \<Rightarrow> traffic_outcome" where
  "traffic_outcome_of o' =
     (if so_status o' = ''success'' then T_Success
      else if so_status o' = ''client_disconnect'' then T_Cancelled
      else if so_code o' = 504 then T_Timeout else T_Error)"

definition settle_permit :: "settle_env \<Rightarrow> attempt \<Rightarrow> stream_end \<Rightarrow> app_state \<Rightarrow> app_state" where
  "settle_permit se ans o' a =
     (case at_traffic_permit ans of
        None \<Rightarrow> a
      | Some p \<Rightarrow> a\<lparr>ap_traffic := fst (with_entry controller_default (traffic_key (at_target ans))
          (\<lambda>c. let (p', c') = finish_permit (traffic_outcome_of o') (se_inst se) (p, c) in (c', p')) (ap_traffic a))\<rparr>)"

definition telemetry_outcome_of :: "stream_end \<Rightarrow> telemetry_outcome" where
  "telemetry_outcome_of o' =
     (if so_status o' = ''success'' then TO_Success
      else if so_status o' = ''client_disconnect'' then TO_Cancelled
      else case so_failure o' of Some (kind, _) \<Rightarrow> telemetry_outcome_for_failure kind | None \<Rightarrow> TO_TargetError)"

definition settle_attempt ::
  "nanos \<Rightarrow> stream_end \<Rightarrow> provider_attempt \<times> circuit \<Rightarrow> (provider_attempt \<times> circuit) \<times> circuit_transition" where
  "settle_attempt now o' =
     (if so_status o' = ''success'' then finish_success now
      else if so_status o' = ''client_disconnect'' then finish_neutral now
      else case so_failure o' of Some (kind, status) \<Rightarrow> finish_failure kind status now | None \<Rightarrow> finish_neutral now)"

definition settle_circuit ::
  "settle_env \<Rightarrow> attempt \<Rightarrow> stream_end \<Rightarrow> app_state \<Rightarrow> circuit_transition \<times> app_state" where
  "settle_circuit se ans o' a =
     (let (m, tr) = with_entry circuit_default (pv_id (rs_provider (at_target ans)))
            (\<lambda>c. let ((pa, c'), tr) = settle_attempt (se_wall se) o' (at_provider_attempt ans, c) in (c', tr)) (ap_circuits a)
      in (case at_circuit_transition ans of Some v \<Rightarrow> merge_transition v tr | None \<Rightarrow> tr, a\<lparr>ap_circuits := m\<rparr>))"

text \<open>The target's own time to the first token leaves out what came before its attempt.\<close>

definition target_ttft_ms :: "settle_env \<Rightarrow> attempt \<Rightarrow> int option \<Rightarrow> nat option" where
  "target_ttft_ms se ans ttft =
     (let offset = sat_since (at_attempt_started ans) (se_started se) div 1000000
      in map_option (\<lambda>v. nat (max 0 v))
           (opt_filter (\<lambda>v. - 9223372036854775808 \<le> v \<and> v \<le> 9223372036854775807)
              (map_option (\<lambda>v. v - offset) (persisted_ttft_ms (pr_is_sse (at_prepared ans)) ttft))))"

definition settle_telemetry ::
  "settle_env \<Rightarrow> request_meta \<Rightarrow> attempt \<Rightarrow> int option \<Rightarrow> stream_end \<Rightarrow> route_trace \<Rightarrow> app_state \<Rightarrow> route_trace \<times> app_state" where
  "settle_telemetry se mt ans ttft o' tr a =
     (let (transition, a1) = settle_circuit se ans o' a;
          (tr', tm) = record_target_telemetry (se_ms se 0) (at_target ans) (telemetry_outcome_of o')
            (nat (sat_since (se_inst se) (at_attempt_started ans) div 1000000)) (target_ttft_ms se ans ttft)
            (mt_fallback_hops mt > 0) False transition (tr, ap_telemetry a1)
      in (tr', a1\<lparr>ap_telemetry := tm\<rparr>))"

definition attempt_cost :: "settle_env \<Rightarrow> attempt \<Rightarrow> token_usage \<Rightarrow> f64 option" where
  "attempt_cost se ans u = compute_cost (model_prices (se_codec se) (rs_model (at_target ans))) u"

definition settle_reservation ::
  "settle_env \<Rightarrow> token_usage \<Rightarrow> f64 option \<Rightarrow> (string \<times> nat) option \<Rightarrow> admission_controller \<Rightarrow> admission_controller" where
  "settle_reservation se u cost reservation ctl =
     (case reservation of
        None \<Rightarrow> ctl
      | Some (key_id, i) \<Rightarrow> ctl\<lparr>adm_keys := fst (with_entry key_admission_default key_id
          (on_ledger (\<lambda>l. (reconcile_reservation i u cost (se_clock se) (se_inst se) l, ()))) (adm_keys ctl))\<rparr>)"

text \<open>A reservation that is dropped is cancelled.\<close>

definition drop_reservation :: "(string \<times> nat) option \<Rightarrow> admission_controller \<Rightarrow> admission_controller" where
  "drop_reservation reservation ctl =
     (case reservation of
        None \<Rightarrow> ctl
      | Some (key_id, i) \<Rightarrow> ctl\<lparr>adm_keys := fst (with_entry key_admission_default key_id
          (on_ledger (\<lambda>l. (cancel_ledger i l, ()))) (adm_keys ctl))\<rparr>)"

definition settle_affinity ::
  "settle_env \<Rightarrow> snapshot \<Rightarrow> request_meta \<Rightarrow> attempt \<Rightarrow> stream_end \<Rightarrow> app_state \<Rightarrow> app_state" where
  "settle_affinity se snap mt ans o' a =
     (case (mt_session mt, mt_route_id mt) of
        (Some session, Some route_id) \<Rightarrow>
          if map_of (sn_routes snap) route_id \<noteq> None \<and> so_status o' = ''success''
          then a\<lparr>ap_sticky := sticky_remember session
                 (route_id @ ''|'' @ ac_id (rs_account (at_target ans)) @ ''|'' @ md_id (rs_model (at_target ans)))
                 (se_inst se) (ap_sticky a)\<rparr>
          else a
      | _ \<Rightarrow> a)"

definition trace_outcome_of :: "stream_end \<Rightarrow> string" where
  "trace_outcome_of o' =
     (if so_status o' = ''success'' then ''success''
      else if so_status o' = ''client_disconnect'' then ''cancelled'' else ''failed'')"

text \<open>\<^verbatim>\<open>v as i64\<close>.\<close>

definition token_column :: "nat option \<Rightarrow> int option" where
  "token_column = map_option (\<lambda>v. wrap_i64 (int v))"

definition usage_row ::
  "settle_env \<Rightarrow> request_meta \<Rightarrow> internal_request \<Rightarrow> attempt \<Rightarrow> string \<Rightarrow> virtual_key_row option \<Rightarrow> int option
    \<Rightarrow> stream_end \<Rightarrow> token_usage \<Rightarrow> route_trace \<Rightarrow> usage_log_row" where
  "usage_row se mt req ans model key ttft o' u tr =
     (let cost = attempt_cost se ans u; t = at_target ans;
          (latency, ttft') = persisted_request_timing (int (se_ms se 2)) (pr_is_sse (at_prepared ans)) ttft
      in \<lparr>ul_id = ''usage_'' @ se_uuid se, ul_request_id = mt_request_id mt, ul_ts = se_ts se,
          ul_key_id = map_option vk_id key, ul_key_name = map_option vk_name key,
          ul_client_format = mt_client_format mt, ul_requested_model = requested_model req, ul_effective_model = Some model,
          ul_route_id = mt_route_id mt, ul_route_name = mt_route_name mt, ul_fallback_hops = mt_fallback_hops mt,
          ul_fallback_path = ser_value (se_codec se) (JArray (map JString (mt_fallback_path mt))),
          ul_status = so_status o', ul_status_code = so_code o', ul_latency_ms = Some latency, ul_ttft_ms = ttft',
          ul_input_tokens = token_column (tu_input u), ul_output_tokens = token_column (tu_output u),
          ul_cached_tokens = token_column (tu_cached u), ul_cache_write_tokens = token_column (tu_cache_write u),
          ul_thinking_tokens = token_column (tu_thinking u), ul_cost_usd = cost,
          ul_cost_known = of_bool (cost \<noteq> None), ul_price_version_id = None, ul_cache_status = cache_status_from_usage u,
          ul_serving_account_id = Some (ac_id (rs_account t)), ul_serving_account = Some (ac_label (rs_account t)),
          ul_serving_provider = Some (pv_name (rs_provider t)), ul_upstream_request_id = at_upstream_request_id ans,
          ul_flagged = of_bool (tu_input u = None \<and> so_status o' = ''success''), ul_error_message = so_error o',
          ul_usage_confidence = (if tu_input u \<noteq> None \<or> tu_output u \<noteq> None then ''provider_reported'' else ''unknown''),
          ul_commit_state = mt_commit_state mt, ul_retry_count = mt_retry_count mt,
          ul_route_trace_id = Some (rt_opaque_route_id tr), ul_opaque_route_id = Some (rt_opaque_route_id tr)\<rparr>)"

definition json_nat_opt :: "nat option \<Rightarrow> json" where
  "json_nat_opt v = (case v of Some n \<Rightarrow> jnat n | None \<Rightarrow> JNull)"

definition json_string_opt :: "string option \<Rightarrow> json" where
  "json_string_opt v = (case v of Some s \<Rightarrow> JString s | None \<Rightarrow> JNull)"

definition usage_hook ::
  "settle_env \<Rightarrow> request_meta \<Rightarrow> attempt \<Rightarrow> string \<Rightarrow> stream_end \<Rightarrow> token_usage \<Rightarrow> json" where
  "usage_hook se mt ans model o' u =
     JObject [(''request_id'', JString (mt_request_id mt)), (''model'', JString model),
       (''provider'', JString (pv_name (rs_provider (at_target ans)))),
       (''account'', JString (ac_label (rs_account (at_target ans)))), (''route'', json_string_opt (mt_route_name mt)),
       (''status'', JString (so_status o')), (''commit_state'', JString (mt_commit_state mt)),
       (''retry_count'', json_int (mt_retry_count mt)), (''input_tokens'', json_nat_opt (tu_input u)),
       (''output_tokens'', json_nat_opt (tu_output u)), (''cached_tokens'', json_nat_opt (tu_cached u)),
       (''cache_write_tokens'', json_nat_opt (tu_cache_write u)), (''thinking_tokens'', json_nat_opt (tu_thinking u)),
       (''cost_usd'', case attempt_cost se ans u of Some c \<Rightarrow> JNumber (Float c) | None \<Rightarrow> JNull),
       (''latency_ms'', jnat (se_ms se 3))]"

definition debug_option :: "nat option \<Rightarrow> string" where
  "debug_option v = (case v of Some n \<Rightarrow> ''Some('' @ show_nat n @ '')'' | None \<Rightarrow> ''None'')"

definition settle_views ::
  "settle_env \<Rightarrow> string \<Rightarrow> stream_end \<Rightarrow> token_usage \<Rightarrow> route_trace \<Rightarrow> app_state \<Rightarrow> app_state" where
  "settle_views se i o' u tr a =
     a\<lparr>ap_route_traces := ap_route_traces a @ [tr],
       ap_flight := flight_record (i, se_ms se 4, ''usage_finalized'',
         ''status='' @ so_status o' @ '' tokens='' @ debug_option (tu_input u)) (ap_flight a),
       ap_live := live_finish i (so_status o') (se_ms se 5) (tu_input u) (tu_output u) (ap_live a)\<rparr>"

text \<open>A key may ask for its bodies: what is kept of them is redacted.\<close>

definition log_body :: "virtual_key_row option \<Rightarrow> string \<Rightarrow> string \<Rightarrow> string \<Rightarrow> desk \<Rightarrow> desk" where
  "log_body key i direction body d =
     (case opt_filter (\<lambda>k. vk_body_logging k \<noteq> 0) key of
        None \<Rightarrow> d
      | Some k \<Rightarrow> d\<lparr>dk_body_logs := dk_body_logs d @
          [\<lparr>bl_request_id = i, bl_key_id = vk_id k, bl_direction = direction, bl_body = body, bl_retention_days = 7\<rparr>]\<rparr>)"

definition request_body_text :: "codec \<Rightarrow> string \<Rightarrow> internal_request \<Rightarrow> string" where
  "request_body_text cd model req =
     (case rq_raw_body req of
        Some raw \<Rightarrow> redact raw
      | None \<Rightarrow> ser_value cd (JObject [(''model'', JString model), (''messages'', jnat (length (rq_messages req)))]))"

text \<open>How a driver leaves an answer to be settled.\<close>

record driven =
  dv_end :: stream_end
  dv_ttft :: "int option"
  dv_usage :: token_usage
  dv_committed :: bool
  dv_trace :: route_trace

definition driven_of :: "stream_end \<Rightarrow> relay \<Rightarrow> driven" where
  "driven_of o' r = \<lparr>dv_end = o', dv_ttft = rl_ttft r, dv_usage = rl_usage r, dv_committed = rl_committed r,
     dv_trace = rl_trace r\<rparr>"

definition finalize_log ::
  "settle_env \<Rightarrow> snapshot \<Rightarrow> request_meta \<Rightarrow> internal_request \<Rightarrow> attempt \<Rightarrow> string \<Rightarrow> virtual_key_row option \<Rightarrow> driven
    \<Rightarrow> desk \<Rightarrow> desk" where
  "finalize_log se snap mt0 req ans model key dv d =
     (let o' = dv_end dv; u = dv_usage dv;
          (tr1, a1) = settle_telemetry se mt0 ans (dv_ttft dv) o' (dv_trace dv) (settle_permit se ans o' (dk_app d));
          ctl = settle_reservation se u (attempt_cost se ans u) (mt_admission mt0) (dk_admission d);
          a2 = settle_affinity se snap mt0 ans o' a1;
          mt = mt0\<lparr>mt_admission := None, mt_cache_status := cache_status_from_usage u,
                   mt_commit_state := (if dv_committed dv then ''post_commit'' else ''pre_commit'')\<rparr>;
          tr = trace_finish (se_ms se 1) (trace_outcome_of o') tr1;
          row = usage_row se mt req ans model key (dv_ttft dv) o' u tr
      in log_body key (mt_request_id mt) ''request'' (request_body_text (se_codec se) model req)
           (d\<lparr>dk_app := settle_views se (mt_request_id mt) o' u tr a2, dk_admission := ctl,
              dk_log := enqueue row (dk_log d),
              dk_hooks := (if se_plugins se then dk_hooks d @ [usage_hook se mt ans model o' u] else dk_hooks d)\<rparr>))"

section \<open>Aggregated answers\<close>

text \<open>The aggregating driver only waits for the upstream, for a time at a go; it is the select loop with that one branch.\<close>

datatype body_read = Read_Late | Read_At nanos

fun poll_of_read :: "body_read \<Rightarrow> poll" where
  "poll_of_read Read_Late = \<lparr>pl_gone = False, pl_pick = Idle_Elapsed, pl_ms = 0, pl_now = 0, pl_signal_ms = 0\<rparr>"
| "poll_of_read (Read_At now) = \<lparr>pl_gone = False, pl_pick = Upstream_Ready, pl_ms = 0, pl_now = now, pl_signal_ms = 0\<rparr>"

definition collect_events :: "relay_env \<Rightarrow> nanos \<Rightarrow> stream_event list \<Rightarrow> relay \<Rightarrow> relay" where
  "collect_events rv now events r =
     (let (evs, r1) = normalize_captured rv now events r
      in r1\<lparr>rl_usage := fold (\<lambda>e u. case e of Usage v \<Rightarrow> merge_usage u v | _ \<Rightarrow> u) evs (rl_usage r1),
             rl_events := rl_events r1 @ evs\<rparr>)"

definition collect_chunk :: "relay_env \<Rightarrow> poll \<Rightarrow> string \<Rightarrow> relay \<Rightarrow> stream_end option \<times> relay" where
  "collect_chunk rv p =
     push_chunk (walk_frames rv (\<lambda>_ r. r) (\<lambda>events r. (None, collect_events rv (pl_now p) events r)))"

definition commit_collected :: "nat \<Rightarrow> relay \<Rightarrow> relay" where
  "commit_collected ms r = r\<lparr>rl_committed := True, rl_trace := trace_commit ms (rl_trace r)\<rparr>"

definition drive_aggregate ::
  "relay_env \<Rightarrow> nat \<Rightarrow> nanos \<Rightarrow> body_read list \<Rightarrow> prepared_upstream \<Rightarrow> relay \<Rightarrow> (stream_end \<times> relay) option" where
  "drive_aggregate rv ms now reads pr r =
     (case pr_full_events pr of
        Some events \<Rightarrow> Some (stream_success, commit_collected ms (collect_events rv now events r))
      | None \<Rightarrow>
          map_option (\<lambda>(o0, r'). let o' = check_complete r' o0
              in (o', if so_status o' = ''success'' then commit_collected ms r' else r'))
            (select_loop rv (\<lambda>_. False) (collect_chunk rv) (map poll_of_read reads) (upstream_chunks pr) r))"

definition clamp_status :: "int \<Rightarrow> nat" where
  "clamp_status code = nat (min 599 (max 400 code))"

definition aggregate_error :: "stream_end \<Rightarrow> json" where
  "aggregate_error o' =
     JObject [(''error'', JObject [(''message'', JString (end_message o')), (''type'', JString ''upstream_error'')])]"

definition aggregate_result ::
  "codec \<Rightarrow> int \<Rightarrow> frontend_format \<Rightarrow> string \<Rightarrow> encoder_ctx \<Rightarrow> stream_end \<times> relay \<Rightarrow> nat \<times> json" where
  "aggregate_result cd created format model ctx x =
     (let (o', r) = x
      in if so_status o' \<noteq> ''success'' then (clamp_status (so_code o'), aggregate_error o')
         else (200, aggregate_with_responses_fields cd created format model (ec_request_id ctx) (rl_events r) (rl_usage r)
                (ec_responses ctx)))"

section \<open>The response\<close>

record respond_env =
  sp_settle :: settle_env
  sp_cipher :: cipher_suite
  sp_created :: int
  sp_collected :: int
  sp_polls :: "poll list"
  sp_last :: poll
  sp_reads :: "body_read list"
  sp_room :: nat
  sp_others :: "app_state \<Rightarrow> app_state"
  sp_header_ok :: "string \<times> string \<Rightarrow> bool"

record client_response =
  cr_status :: nat
  cr_headers :: "(string \<times> string) list"
  cr_body :: "string list"

definition relay_env_of :: "respond_env \<Rightarrow> frontend_format \<Rightarrow> request_meta \<Rightarrow> attempt \<Rightarrow> relay_env" where
  "relay_env_of sp format mt ans =
     \<lparr>rv_codec = se_codec (sp_settle sp), rv_cipher = sp_cipher sp, rv_format = format, rv_request_id = mt_request_id mt,
      rv_include_usage = rq_include_usage (at_request ans), rv_adapter = at_adapter ans,
      rv_is_sse = pr_is_sse (at_prepared ans), rv_key_id = mt_key_id mt, rv_session = mt_session mt,
      rv_opaque_target = ad_opaque_state_target (at_adapter ans) (rs_model (at_target ans))\<rparr>"

definition response_headers :: "codec \<Rightarrow> request_meta \<Rightarrow> attempt \<Rightarrow> route_trace \<Rightarrow> (string \<times> string) list" where
  "response_headers cd mt ans tr =
     [(''x-request-id'', mt_request_id mt), (''x-kinetix-route-id'', rt_opaque_route_id tr),
      (''x-kinetix-cache'', cache_status_from_usage (pr_precommit_usage (at_prepared ans)))] @
     (if mt_fallback_hops mt > 0 then [(''x-kinetix-fallback'', ''1'')] else []) @
     (if rt_warnings tr \<noteq> []
      then [(''x-kinetix-warning'', ser_value cd (JArray (map JString (rt_warnings tr))))] else [])"

definition stream_headers :: "(string \<times> string) list" where
  "stream_headers = [(''content-type'', ''text/event-stream''), (''cache-control'', ''no-cache''),
     (''connection'', ''keep-alive''), (''x-accel-buffering'', ''no'')]"

text \<open>A header the HTTP library refuses leaves the builder's fallback.\<close>

definition build_response ::
  "respond_env \<Rightarrow> nat \<Rightarrow> (string \<times> string) list \<Rightarrow> string list \<Rightarrow> client_response \<Rightarrow> client_response" where
  "build_response sp status headers body fallback =
     (if list_all (sp_header_ok sp) headers then \<lparr>cr_status = status, cr_headers = headers, cr_body = body\<rparr> else fallback)"

text \<open>An attempt that is dropped unsettled: its slot and its circuit attempt are released, its reservation cancelled.\<close>

definition abandon_attempt :: "settle_env \<Rightarrow> request_meta \<Rightarrow> attempt \<Rightarrow> desk \<Rightarrow> desk" where
  "abandon_attempt se mt ans d =
     (let t = at_target ans; a = dk_app d;
          a1 = (case at_traffic_permit ans of
                  None \<Rightarrow> a
                | Some p \<Rightarrow> a\<lparr>ap_traffic := fst (with_entry controller_default (traffic_key t)
                    (\<lambda>c. let (p', c') = drop_permit (p, c) in (c', p')) (ap_traffic a))\<rparr>);
          a2 = a1\<lparr>ap_circuits := fst (with_entry circuit_default (pv_id (rs_provider t))
                 (\<lambda>c. let (pa, c') = drop_attempt (se_wall se) (at_provider_attempt ans, c) in (c', ())) (ap_circuits a1))\<rparr>
      in d\<lparr>dk_app := a2, dk_admission := drop_reservation (mt_admission mt) (dk_admission d)\<rparr>)"

definition drive_answer ::
  "respond_env \<Rightarrow> relay_env \<Rightarrow> encoder_ctx \<Rightarrow> attempt \<Rightarrow> relay \<Rightarrow> (stream_end \<times> relay) option" where
  "drive_answer sp rv ctx ans r =
     (if at_passthrough ans then drive_stream_passthrough rv ctx (sp_polls sp) (at_prepared ans) r
      else drive_stream rv (sp_polls sp) (sp_last sp) (at_prepared ans) r)"

definition respond_streaming ::
  "respond_env \<Rightarrow> run_request \<Rightarrow> snapshot \<Rightarrow> request_meta \<Rightarrow> attempt \<Rightarrow> encoder_ctx \<Rightarrow> route_trace \<Rightarrow> desk
    \<Rightarrow> (client_response \<times> desk) option" where
  "respond_streaming sp rq snap mt ans ctx tr d =
     (let se = sp_settle sp; rv = relay_env_of sp (rr_format rq) mt ans; t = at_target ans;
          headers = response_headers (se_codec se) mt ans tr @ stream_headers
      in map_option (\<lambda>(o', r).
           (build_response sp 200 headers (rl_sent r) \<lparr>cr_status = 500, cr_headers = [], cr_body = [''internal error'']\<rparr>,
            finalize_log se snap mt (at_request ans) ans (md_display_name (rs_model t)) (rr_key rq) (driven_of o' r)
              (d\<lparr>dk_app := sp_others sp (rl_app r)\<rparr>)))
         (drive_answer sp rv ctx ans (relay_start rv ctx (dk_app d) tr (sp_room sp))))"

definition respond_aggregated ::
  "respond_env \<Rightarrow> run_request \<Rightarrow> snapshot \<Rightarrow> request_meta \<Rightarrow> attempt \<Rightarrow> encoder_ctx \<Rightarrow> route_trace \<Rightarrow> desk
    \<Rightarrow> (client_response \<times> desk) option" where
  "respond_aggregated sp rq snap mt ans ctx tr d =
     (let se = sp_settle sp; cd = se_codec se; rv = relay_env_of sp (rr_format rq) mt ans;
          model = requested_model (at_request ans)
      in map_option (\<lambda>(o', r).
           let d1 = finalize_log se snap mt (at_request ans) ans model (rr_key rq) (driven_of o' r)
                      (d\<lparr>dk_app := sp_others sp (rl_app r)\<rparr>);
               (status, body) = aggregate_result cd (sp_collected sp) (rr_format rq) model ctx (o', r);
               printed = ser_value cd body
           in (build_response sp status
                 (response_headers cd mt ans tr @ [(''content-type'', ''application/json'')]) [printed]
                 \<lparr>cr_status = 200, cr_headers = [], cr_body = []\<rparr>,
               if so_status o' = ''success'' then log_body (rr_key rq) (mt_request_id mt) ''response'' (redact printed) d1
               else d1))
         (drive_aggregate rv (pl_ms (sp_last sp)) (pl_now (sp_last sp)) (sp_reads sp) (at_prepared ans)
           (relay_start rv ctx (dk_app d) tr (sp_room sp))))"

definition stream_response ::
  "respond_env \<Rightarrow> run_request \<Rightarrow> snapshot \<Rightarrow> request_meta \<Rightarrow> attempt \<Rightarrow> route_trace \<Rightarrow> desk
    \<Rightarrow> ((proxy_error + client_response) \<times> desk) option" where
  "stream_response sp rq snap mt ans tr d =
     (let req = at_request ans
      in case (if rr_format rq = OpenAiResponsesF then response_fields_from_request req else Inr responses_fields_default) of
           Inl err \<Rightarrow> Some (Inl err, abandon_attempt (sp_settle sp) mt ans d)
         | Inr echoed \<Rightarrow>
             let ctx = \<lparr>ec_model_name = requested_model req, ec_request_id = mt_request_id mt, ec_created = sp_created sp,
                        ec_responses = echoed\<rparr>
             in map_option (\<lambda>(resp, d'). (Inr resp, d'))
                  (if rq_stream req then respond_streaming sp rq snap mt ans ctx tr d
                   else respond_aggregated sp rq snap mt ans ctx tr d))"

text \<open>
  A whole request: \<open>run\<close>, and the response to its answer. Without an answer its metadata is dropped, and the reservation
  with it. \<open>None\<close> is a panic, or a driver whose schedule has run out.
\<close>

definition serve ::
  "request_env \<Rightarrow> run_env \<Rightarrow> respond_env \<Rightarrow> run_request \<Rightarrow> (string \<times> nat) option \<Rightarrow> desk
    \<Rightarrow> ((proxy_error + client_response) \<times> desk) option" where
  "serve re rn sp rq reservation d =
     Option.bind (run re rn rq (dk_app d)) (\<lambda>(r, l).
       case r of
         Inl err \<Rightarrow> Some (Inl err, d\<lparr>dk_app := ls_app l, dk_admission := drop_reservation reservation (dk_admission d)\<rparr>)
       | Inr ans \<Rightarrow> stream_response sp rq (ap_snapshot (dk_app d)) (meta_of rq reservation ans l) ans (ls_trace l)
                      (d\<lparr>dk_app := ls_app l\<rparr>))"

section \<open>What relaying leaves alone\<close>

text \<open>Slots, circuits, sessions and stored traces are only touched by the settlement.\<close>

definition settled_part :: "app_state \<Rightarrow> upstream_traffic \<times> provider_circuits \<times> (string \<rightharpoonup> string \<times> nanos) \<times> route_trace list" where
  "settled_part a = (ap_traffic a, ap_circuits a, ap_sticky a, ap_route_traces a)"

lemma settled_part_updates [simp]:
  "settled_part (a\<lparr>ap_flight := fl\<rparr>) = settled_part a" "settled_part (a\<lparr>ap_live := lv\<rparr>) = settled_part a"
  "settled_part (a\<lparr>ap_opaque := os\<rparr>) = settled_part a"
  by (simp_all add: settled_part_def)

definition spares :: "relay \<Rightarrow> relay \<Rightarrow> bool" where
  "spares r r' \<longleftrightarrow> settled_part (rl_app r') = settled_part (rl_app r)"

lemma spares_refl [simp]: "spares r r"
  by (simp add: spares_def)

lemma spares_trans: "spares r r1 \<Longrightarrow> spares r1 r2 \<Longrightarrow> spares r r2"
  by (simp add: spares_def)

lemma spares_same: "rl_app r' = rl_app r \<Longrightarrow> spares r r'"
  by (simp add: spares_def)

lemma spares_flight [simp]: "spares r (relay_flight rv ms ev detail r') \<longleftrightarrow> spares r r'"
  by (simp add: spares_def relay_flight_def relay_app_def)

lemma spares_cancel [simp]: "spares r (record_cancel rv p r') \<longleftrightarrow> spares r r'"
  by (simp add: record_cancel_def) (simp add: spares_def)

lemma spares_one: "send_one f r = (b, r') \<Longrightarrow> spares r r'"
  by (auto simp: send_one_def spares_def split: if_splits)

lemma spares_all: "send_all fs r = (b, r') \<Longrightarrow> spares r r'"
proof (induction fs arbitrary: r)
  case (Cons f fs)
  obtain c r1 where 1: "send_one f r = (c, r1)" using prod.exhaust by blast
  note s = spares_one [OF 1]
  show ?case using Cons.prems Cons.IH [of r1] 1 s by (cases c) (auto intro: spares_trans)
qed simp

lemma spares_anyway: "spares r (send_anyway fs r)"
  unfolding send_anyway_def
proof (induction fs arbitrary: r)
  case (Cons f fs)
  show ?case using spares_trans [OF spares_one [of f r "fst (send_one f r)" "snd (send_one f r)"] Cons.IH] by simp
qed simp

lemma spares_announce: "spares r (announce_failure rv m r)"
proof -
  obtain fs enc where "encoder_error_frame (rv_codec rv) m (rl_encoder r) = (fs, enc)" using prod.exhaust by blast
  then show ?thesis
    using spares_trans [OF spares_same [of "r\<lparr>rl_encoder := enc\<rparr>" r] spares_anyway] by (simp add: announce_failure_def)
qed

lemma spares_commit: "spares r (commit_relay rv ms detail r)"
  by (simp add: commit_relay_def) (simp add: spares_def relay_app_def)

lemma spares_frames: "send_frames rv ms fs r = (b, r') \<Longrightarrow> spares r r'"
proof -
  let ?s = "if fs = [] \<or> rl_committed r then r else commit_relay rv ms ''first client bytes'' r"
  assume "send_frames rv ms fs r = (b, r')"
  then have "spares ?s r'" unfolding send_frames_def by (rule spares_all)
  moreover have "spares r ?s" using spares_commit by simp
  ultimately show "spares r r'" by (rule spares_trans [rotated])
qed

lemma spares_note: "spares r (note_event rv ms ev r)"
  by (simp add: note_event_def note_kind_def split: stream_event.split) (simp add: spares_def)

lemma spares_mark: "mark_frames rv ms m fs r = (m', r') \<Longrightarrow> spares r r'"
  by (auto simp: mark_frames_def mark_ttft_def split: if_splits) (simp_all add: spares_def relay_app_def)

lemma spares_emit: "emit_events rv ms m evs r = (b, r') \<Longrightarrow> spares r r'"
proof (induction evs arbitrary: m r)
  case (Cons ev evs)
  obtain fs enc where 1: "encoder_encode (rv_codec rv) ev (rl_encoder (note_event rv ms ev r)) = (fs, enc)"
    using prod.exhaust by blast
  obtain m' r2 where 2: "mark_frames rv ms m fs ((note_event rv ms ev r)\<lparr>rl_encoder := enc\<rparr>) = (m', r2)"
    using prod.exhaust by blast
  obtain c r3 where 3: "send_frames rv ms fs r2 = (c, r3)" using prod.exhaust by blast
  have "spares r r2" using spares_note [of r rv ms ev] spares_mark [OF 2] by (simp add: spares_def)
  then have s: "spares r r3" using spares_frames [OF 3] by (rule spares_trans)
  show ?case
  proof (cases c)
    case True
    then have "emit_events rv ms m' evs r3 = (b, r')" using Cons.prems 1 2 3 by (simp add: Let_def)
    then show ?thesis using Cons.IH s by (blast intro: spares_trans)
  next
    case False
    then show ?thesis using Cons.prems 1 2 3 s by (simp add: Let_def)
  qed
qed simp

lemma spares_normalize: "normalize_captured rv now evs r = (evs', r') \<Longrightarrow> spares r r'"
  by (auto simp: normalize_captured_def relay_app_def capture_events_def spares_def split: prod.splits option.splits)

lemma spares_relay_events: "relay_events rv p evs r = (x, r') \<Longrightarrow> spares r r'"
proof -
  assume h: "relay_events rv p evs r = (x, r')"
  obtain evs' r1 where 1: "normalize_captured rv (pl_now p) evs r = (evs', r1)" using prod.exhaust by blast
  obtain b r2 where 2: "emit_events rv (pl_ms p) False evs' r1 = (b, r2)" using prod.exhaust by blast
  have "spares r r2" using spares_normalize [OF 1] spares_emit [OF 2] by (rule spares_trans)
  then show ?thesis using h 1 2 by (cases b) (auto simp: relay_events_def)
qed

lemma spares_collect: "spares r (collect_events rv now evs r)"
proof -
  obtain evs' r1 where 1: "normalize_captured rv now evs r = (evs', r1)" using prod.exhaust by blast
  then show ?thesis using spares_normalize [OF 1] by (simp add: collect_events_def spares_def)
qed

lemma spares_walk:
  assumes "\<And>m r. spares r (fail m r)" and "\<And>evs r x r'. handle evs r = (x, r') \<Longrightarrow> spares r r'"
  shows "walk_frames rv fail handle frames r = (x, r') \<Longrightarrow> spares r r'"
proof (induction frames arbitrary: r)
  case (Cons frame frames)
  show ?case
  proof (cases "extract_data frame")
    case None
    then show ?thesis using Cons by simp
  next
    case (Some data)
    have t: "spares r s" if "spares (r\<lparr>rl_terminal := True\<rparr>) s" for s using that by (simp add: spares_def)
    show ?thesis
    proof (cases "trim data = ''[DONE]''")
      case True
      then show ?thesis using Cons Some t by auto
    next
      case False
      show ?thesis
      proof (cases "payload_error_failure (rv_codec rv) (rv_adapter rv) data")
        case f: (Some f)
        then show ?thesis using Cons.prems Some False assms(1) by auto
      next
        case n: None
        show ?thesis
        proof (cases "ad_parse_stream_chunk (rv_adapter rv) data")
          case (Inl f)
          then show ?thesis using Cons.prems Some False n assms(1) by auto
        next
          case (Inr evs)
          let ?r = "if payload_is_terminal (rv_codec rv) data evs then r\<lparr>rl_terminal := True\<rparr> else r"
          obtain y r1 where h: "handle evs ?r = (y, r1)" using prod.exhaust by blast
          have s: "spares r r1" using assms(2) [OF h] t by (simp split: if_splits)
          show ?thesis
          proof (cases y)
            case None
            then have "walk_frames rv fail handle frames r1 = (x, r')" using Cons.prems Some False n Inr h by simp
            then show ?thesis using Cons.IH s spares_trans by blast
          next
            case (Some o')
            then show ?thesis using Cons.prems \<open>extract_data frame = Some data\<close> False n Inr h s by simp
          qed
        qed
      qed
    qed
  qed
qed simp

lemma spares_push:
  assumes "\<And>frames r x r'. walk frames r = (x, r') \<Longrightarrow> spares r r'" and "push_chunk walk b r = (x, r')"
  shows "spares r r'"
proof -
  obtain f q where p: "push (rl_framer r) b = (f, q)" using prod.exhaust by blast
  show ?thesis
  proof (cases q)
    case (Inl e)
    then show ?thesis using assms(2) p by (auto simp: push_chunk_def spares_def)
  next
    case (Inr frames)
    then have "walk frames (r\<lparr>rl_framer := f\<rparr>) = (x, r')" using assms(2) p by (simp add: push_chunk_def)
    then have "spares (r\<lparr>rl_framer := f\<rparr>) r'" by (rule assms(1))
    then show ?thesis by (simp add: spares_def)
  qed
qed

lemma spares_loop:
  assumes "\<And>p b r x r'. chunk p b r = (x, r') \<Longrightarrow> spares r r'"
  shows "select_loop rv tick chunk ps body r = Some (o', r') \<Longrightarrow> spares r r'"
proof (induction ps arbitrary: body r)
  case (Cons p ps)
  show ?case
  proof (cases "pl_gone p")
    case True
    then show ?thesis using Cons.prems by auto
  next
    case gone: False
    show ?thesis
    proof (cases "pl_pick p")
      case (Notified g)
      then show ?thesis using Cons gone by (auto split: if_splits)
    next
      case Keepalive_Tick
      obtain b r1 where 1: "send_one keepalive_frame r = (b, r1)" using prod.exhaust by blast
      then show ?thesis
        using Cons gone Keepalive_Tick spares_one [OF 1] by (cases b) (auto intro: spares_trans split: if_splits)
    next
      case Idle_Elapsed
      then show ?thesis using Cons.prems gone by auto
    next
      case Upstream_Ready
      show ?thesis
      proof (cases body)
        case Nil
        then show ?thesis using Cons.prems gone Upstream_Ready by simp
      next
        case b: (Cons y rest)
        show ?thesis
        proof (cases y)
          case (Inl e)
          then show ?thesis using Cons.prems gone Upstream_Ready b by simp
        next
          case (Inr bytes)
          obtain x r1 where 1: "chunk p bytes r = (x, r1)" using prod.exhaust by blast
          then show ?thesis
            using Cons gone Upstream_Ready b Inr assms [OF 1] by (cases x) (auto intro: spares_trans)
        qed
      qed
    qed
  qed
qed simp

lemma spares_terminator: "spares r (snd (send_terminator rv p o' r))"
proof -
  obtain fs enc where f: "encoder_finalize (rv_codec rv) (rl_encoder r) = (fs, enc)" using prod.exhaust by blast
  obtain b r1 where s: "send_all fs (r\<lparr>rl_encoder := enc\<rparr>) = (b, r1)" using prod.exhaust by blast
  have "spares r r1" using spares_all [OF s] by (simp add: spares_def)
  then show ?thesis using f s by (cases b) (simp_all add: send_terminator_def)
qed

lemma spares_close: "spares r (snd (close_stream rv p (o', r)))"
proof -
  have "spares r (announce_failure rv m (count_post_commit r))" for m
    using spares_trans [OF spares_same [of "count_post_commit r" r] spares_announce] by (simp add: count_post_commit_def)
  then show ?thesis using spares_terminator by (simp add: close_stream_def Let_def)
qed

lemma spares_relay_chunk: "relay_chunk rv p b r = (x, r') \<Longrightarrow> spares r r'"
  unfolding relay_chunk_def by (erule spares_push [rotated]) (erule spares_walk [rotated 2], auto intro: spares_announce spares_relay_events)

lemma spares_collect_chunk: "collect_chunk rv p b r = (x, r') \<Longrightarrow> spares r r'"
  unfolding collect_chunk_def by (erule spares_push [rotated]) (erule spares_walk [rotated 2], auto intro: spares_collect)

lemma spares_drive_stream: "drive_stream rv ps p pr r = Some (o', r') \<Longrightarrow> spares r r'"
proof (cases "pr_full_events pr")
  case None
  assume "drive_stream rv ps p pr r = Some (o', r')"
  then obtain o1 r1 where 1: "select_loop rv (\<lambda>_. True) (relay_chunk rv) ps (upstream_chunks pr) r = Some (o1, r1)"
    "close_stream rv p (o1, r1) = (o', r')" using None by (auto simp: drive_stream_def)
  show ?thesis using spares_trans [OF spares_loop [OF spares_relay_chunk 1(1)] spares_close [of r1 rv p o1]] 1(2) by simp
next
  case (Some events)
  assume h: "drive_stream rv ps p pr r = Some (o', r')"
  obtain x r1 where 1: "relay_events rv p events r = (x, r1)" using prod.exhaust by blast
  then show ?thesis
    using h Some spares_relay_events [OF 1] spares_trans [OF _ spares_terminator [of r1 rv p stream_success]]
    by (cases x) (auto simp: drive_stream_def drive_full_def)
qed

lemma spares_forward: "forward_frame rv p sem frame r = (x, r') \<Longrightarrow> spares r r'"
proof -
  assume h: "forward_frame rv p sem frame r = (x, r')"
  have leave: "spares r r2" if "(case y of (True, r') \<Rightarrow> (None, r') | (False, r') \<Rightarrow> (Some client_gone, record_cancel rv p r')) = (x, r2)"
      "spares r (snd y)" for y :: "bool \<times> relay" and r2
    using that by (cases y; cases "fst y") auto
  show ?thesis
  proof (cases "rl_committed r")
    case True
    obtain b r1 where 1: "send_one (raw_frame frame) r = (b, r1)" using prod.exhaust by blast
    show ?thesis using h True spares_one [OF 1] 1 by - (rule leave [of "(b, r1)"], auto simp: forward_frame_def Let_def)
  next
    case False
    show ?thesis
    proof (cases sem)
      case no: False
      then show ?thesis using h False by (auto simp: forward_frame_def Let_def spares_def)
    next
      case sem: True
      let ?r1 = "r\<lparr>rl_pending := rl_pending r @ [frame]\<rparr>"
      let ?r2 = "relay_flight rv (pl_ms p) ''commit'' ''first validated passthrough event''
                  (mark_ttft rv (pl_ms p)
                    (relay_app (\<lambda>a. a\<lparr>ap_live := mark_committed (rv_request_id rv) (ap_live a)\<rparr>)
                      (?r1\<lparr>rl_committed := True, rl_trace := trace_commit (pl_ms p) (rl_trace ?r1)\<rparr>)))"
      obtain b r3 where 1: "send_all (map raw_frame (rl_pending ?r2)) (?r2\<lparr>rl_pending := []\<rparr>) = (b, r3)"
        using prod.exhaust by blast
      have "spares r (?r2\<lparr>rl_pending := []\<rparr>)"
        by (simp add: spares_def relay_flight_def relay_app_def mark_ttft_def)
      then have "spares r (snd (b, r3))" using spares_all [OF 1] by (simp add: spares_def)
      then show ?thesis
        using h False sem 1 by - (rule leave [of "(b, r3)"], simp_all only: forward_frame_def Let_def if_False if_True simp_thms)
    qed
  qed
qed

lemma spares_notes: "spares r (fold (note_event rv ms) evs r)"
proof (induction evs arbitrary: r)
  case (Cons ev evs)
  then show ?case using spares_note spares_trans by fastforce
qed simp

lemma spares_pass: "pass_frames rv p frames r = (x, r') \<Longrightarrow> spares r r'"
proof (induction frames arbitrary: r)
  case (Cons frame frames)
  have go: "spares s r'" if "(case forward_frame rv p sem frame s of (Some o', r'') \<Rightarrow> (Some o', r'')
      | (None, r'') \<Rightarrow> pass_frames rv p frames r'') = (x, r')" for sem s
  proof -
    obtain y s1 where 1: "forward_frame rv p sem frame s = (y, s1)" using prod.exhaust by blast
    show ?thesis using that 1 spares_forward [OF 1] Cons.IH [of s1] by (cases y) (auto intro: spares_trans)
  qed
  show ?case
  proof (cases "extract_data frame")
    case None
    then show ?thesis using Cons.prems go by (simp add: Let_def)
  next
    case (Some data)
    show ?thesis
    proof (cases "trim data = ''[DONE]''")
      case True
      then have "spares (r\<lparr>rl_terminal := True\<rparr>) r'" using Cons.prems Some go by (simp add: Let_def)
      then show ?thesis by (simp add: spares_def)
    next
      case False
      show ?thesis
      proof (cases "payload_error_failure (rv_codec rv) (rv_adapter rv) data")
        case f: (Some f)
        then show ?thesis using Cons.prems Some False by (auto simp: Let_def)
      next
        case n: None
        show ?thesis
        proof (cases "ad_parse_stream_chunk (rv_adapter rv) data")
          case (Inl f)
          then show ?thesis using Cons.prems Some False n by (auto simp: Let_def)
        next
          case (Inr evs)
          let ?r = "if payload_is_terminal (rv_codec rv) data evs then r\<lparr>rl_terminal := True\<rparr> else r"
          let ?s = "fold (note_event rv (pl_ms p)) evs ?r"
          have s: "spares r ?s" using spares_notes [of ?r rv "pl_ms p" evs] by (simp add: spares_def split: if_splits)
          have "spares ?s r'"
          proof (cases "rv_format rv = OpenAiF \<and> \<not> rv_include_usage rv \<and> usage_only evs")
            case True
            then have "pass_frames rv p frames ?s = (x, r')" using Cons.prems Some False n Inr by (simp add: Let_def)
            then show ?thesis by (rule Cons.IH)
          next
            case skip: False
            show ?thesis
              by (rule go [of "list_ex is_semantic_event evs"])
                 (use Cons.prems Some False n Inr skip in \<open>simp add: Let_def\<close>)
          qed
          with s show ?thesis by (rule spares_trans)
        qed
      qed
    qed
  qed
qed simp

lemma spares_drive_passthrough: "drive_stream_passthrough rv ctx ps pr r = Some (o', r') \<Longrightarrow> spares r r'"
proof -
  assume "drive_stream_passthrough rv ctx ps pr r = Some (o', r')"
  then obtain o1 r1 where 1: "select_loop rv rl_committed (pass_chunk rv) ps (upstream_chunks pr) r = Some (o1, r1)"
    and 2: "close_passthrough rv ctx (o1, r1) = (o', r')" by (auto simp: drive_stream_passthrough_def)
  have "pass_chunk rv p b s = (x, s') \<Longrightarrow> spares s s'" for p b s x s'
    unfolding pass_chunk_def by (erule spares_push [rotated]) (rule spares_pass)
  then have "spares r r1" by (rule spares_loop [OF _ 1])
  moreover have "spares r1 r'"
    using 2 spares_trans [OF spares_same [of "count_post_commit r1" r1] spares_anyway]
    by (auto simp: close_passthrough_def Let_def count_post_commit_def split: if_splits)
  ultimately show ?thesis by (rule spares_trans)
qed

lemma spares_drive_aggregate:
  assumes "drive_aggregate rv ms now reads pr r = Some (o', r')"
  shows "spares r r'"
proof -
  have c: "spares s (commit_collected ms s)" for s by (simp add: commit_collected_def spares_def)
  show ?thesis
  proof (cases "pr_full_events pr")
    case None
    then obtain o1 r1 where 1: "select_loop rv (\<lambda>_. False) (collect_chunk rv) (map poll_of_read reads) (upstream_chunks pr) r =
        Some (o1, r1)" and 2: "r' = commit_collected ms r1 \<or> r' = r1"
      using assms by (auto simp: drive_aggregate_def Let_def split: if_splits)
    have "spares r r1" by (rule spares_loop [OF _ 1]) (rule spares_collect_chunk)
    then show ?thesis using 2 c spares_trans by blast
  next
    case (Some events)
    then show ?thesis using assms spares_trans [OF spares_collect c] by (auto simp: drive_aggregate_def)
  qed
qed

section \<open>Slots\<close>

abbreviation slots :: "app_state \<Rightarrow> target_key \<Rightarrow> nat" where
  "slots a k \<equiv> tc_inflight (entry_or controller_default (ap_traffic a) k)"

lemma slots_ended:
  assumes "ends_permit f"
  shows "tc_inflight (entry_or controller_default
      (fst (with_entry controller_default k0 (\<lambda>c. case f (p, c) of (p', c') \<Rightarrow> (c', p')) m)) k) =
    tc_inflight (entry_or controller_default m k) - held (Some p) k0 k"
  using assms by (auto simp: with_entry_def entry_or_def ends_permit_def held_def case_prod_beta Let_def split: option.splits)

lemma slots_settled: "slots (settle_permit se ans o' a) k = slots a k - held (at_traffic_permit ans) (traffic_key (at_target ans)) k"
  by (cases "at_traffic_permit ans") (simp_all add: settle_permit_def slots_ended [OF ends_finish], simp add: held_def)

lemma traffic_settle_telemetry:
  "settle_telemetry se mt ans ttft o' tr a = (tr', a') \<Longrightarrow> ap_traffic a' = ap_traffic a"
  by (auto simp: settle_telemetry_def settle_circuit_def Let_def case_prod_beta)

lemma app_log_body [simp]: "dk_app (log_body key i direction body d) = dk_app d"
  by (simp add: log_body_def split: option.split)

lemma traffic_finalize:
  "ap_traffic (dk_app (finalize_log se snap mt req ans model key dv d)) = ap_traffic (settle_permit se ans (dv_end dv) (dk_app d))"
proof -
  obtain tr1 a1 where t: "settle_telemetry se mt ans (dv_ttft dv) (dv_end dv) (dv_trace dv)
      (settle_permit se ans (dv_end dv) (dk_app d)) = (tr1, a1)" using prod.exhaust by blast
  have "ap_traffic (settle_affinity se snap mt ans o' a) = ap_traffic a" for o' a
    by (simp add: settle_affinity_def split: option.split)
  then show ?thesis using traffic_settle_telemetry [OF t] t by (simp add: finalize_log_def Let_def settle_views_def)
qed

lemma spares_slots: "spares r r' \<Longrightarrow> ap_traffic (rl_app r') = ap_traffic (rl_app r)"
  by (simp add: spares_def settled_part_def)

lemma drive_answer_spares: "drive_answer sp rv ctx ans r = Some (o', r') \<Longrightarrow> spares r r'"
  by (auto simp: drive_answer_def intro: spares_drive_stream spares_drive_passthrough split: if_splits)

text \<open>How a response goes: it is refused and dropped, or driven and settled.\<close>

abbreviation settled_desk ::
  "respond_env \<Rightarrow> run_request \<Rightarrow> snapshot \<Rightarrow> request_meta \<Rightarrow> attempt \<Rightarrow> string \<Rightarrow> stream_end \<times> relay \<Rightarrow> desk \<Rightarrow> desk" where
  "settled_desk sp rq snap mt ans model x d \<equiv>
     finalize_log (sp_settle sp) snap mt (at_request ans) ans model (rr_key rq) (driven_of (fst x) (snd x))
       (d\<lparr>dk_app := sp_others sp (rl_app (snd x))\<rparr>)"

lemma respond_streamed:
  assumes "respond_streaming sp rq snap mt ans ctx tr d = Some (resp, d')"
  obtains x where "drive_answer sp (relay_env_of sp (rr_format rq) mt ans) ctx ans
        (relay_start (relay_env_of sp (rr_format rq) mt ans) ctx (dk_app d) tr (sp_room sp)) = Some x"
      "d' = settled_desk sp rq snap mt ans (md_display_name (rs_model (at_target ans))) x d"
  using assms by (auto simp: respond_streaming_def Let_def)

lemma respond_aggregate:
  assumes "respond_aggregated sp rq snap mt ans ctx tr d = Some (resp, d')"
  obtains o' s printed where "drive_aggregate (relay_env_of sp (rr_format rq) mt ans) (pl_ms (sp_last sp)) (pl_now (sp_last sp))
        (sp_reads sp) (at_prepared ans)
        (relay_start (relay_env_of sp (rr_format rq) mt ans) ctx (dk_app d) tr (sp_room sp)) = Some (o', s)"
      "d' = settled_desk sp rq snap mt ans (requested_model (at_request ans)) (o', s) d \<or>
       d' = log_body (rr_key rq) (mt_request_id mt) ''response'' printed
              (settled_desk sp rq snap mt ans (requested_model (at_request ans)) (o', s) d)"
      "\<exists>status body. aggregate_result (se_codec (sp_settle sp)) (sp_collected sp) (rr_format rq) (requested_model (at_request ans))
         ctx (o', s) = (status, body) \<and> (cr_status resp = status \<and> cr_body resp = [ser_value (se_codec (sp_settle sp)) body] \<or>
           cr_body resp = [])"
proof -
  obtain x where x: "drive_aggregate (relay_env_of sp (rr_format rq) mt ans) (pl_ms (sp_last sp)) (pl_now (sp_last sp))
        (sp_reads sp) (at_prepared ans)
        (relay_start (relay_env_of sp (rr_format rq) mt ans) ctx (dk_app d) tr (sp_room sp)) = Some x"
    using assms by (auto simp: respond_aggregated_def Let_def)
  obtain o' s where os: "x = (o', s)" using prod.exhaust by blast
  obtain status body where sb: "aggregate_result (se_codec (sp_settle sp)) (sp_collected sp) (rr_format rq)
      (requested_model (at_request ans)) ctx (o', s) = (status, body)" using prod.exhaust by blast
  show thesis
    using that [OF x [unfolded os], of "redact (ser_value (se_codec (sp_settle sp)) body)"] assms sb x os
    by (auto simp: respond_aggregated_def Let_def build_response_def split: if_splits)
qed

lemma respond_cases:
  assumes "stream_response sp rq snap mt ans tr d = Some (r, d')"
  obtains (refused) err where "r = Inl err" "d' = abandon_attempt (sp_settle sp) mt ans d"
  | (streamed) ctx resp where "rq_stream (at_request ans)" "r = Inr resp"
      "respond_streaming sp rq snap mt ans ctx tr d = Some (resp, d')"
  | (aggregated) ctx resp where "\<not> rq_stream (at_request ans)" "r = Inr resp"
      "respond_aggregated sp rq snap mt ans ctx tr d = Some (resp, d')"
  using assms that by (fastforce simp: stream_response_def Let_def split: sum.splits if_splits)

lemma desk_log_body [simp]:
  "dk_log (log_body key i direction body d) = dk_log d" "dk_admission (log_body key i direction body d) = dk_admission d"
  by (simp_all add: log_body_def split: option.split)

lemma respond_refused:
  "stream_response sp rq snap mt ans tr d = Some (Inl err, d') \<Longrightarrow> d' = abandon_attempt (sp_settle sp) mt ans d"
  by (erule respond_cases) simp_all

text \<open>Every response that was driven is settled once.\<close>

lemma respond_settled:
  assumes "stream_response sp rq snap mt ans tr d = Some (Inr resp, d')"
  obtains model ctx x where "spares (relay_start (relay_env_of sp (rr_format rq) mt ans) ctx (dk_app d) tr (sp_room sp)) (snd x)"
    "dk_app d' = dk_app (settled_desk sp rq snap mt ans model x d)"
    "dk_log d' = dk_log (settled_desk sp rq snap mt ans model x d)"
    "dk_admission d' = dk_admission (settled_desk sp rq snap mt ans model x d)"
  using assms
proof (cases rule: respond_cases)
  case (streamed ctx resp')
  from streamed(3) show thesis
  proof (rule respond_streamed)
    fix x
    assume "drive_answer sp (relay_env_of sp (rr_format rq) mt ans) ctx ans
          (relay_start (relay_env_of sp (rr_format rq) mt ans) ctx (dk_app d) tr (sp_room sp)) = Some x"
      and d': "d' = settled_desk sp rq snap mt ans (md_display_name (rs_model (at_target ans))) x d"
    then have "spares (relay_start (relay_env_of sp (rr_format rq) mt ans) ctx (dk_app d) tr (sp_room sp)) (snd x)"
      using drive_answer_spares [of sp _ _ _ _ "fst x" "snd x"] by simp
    then show thesis using that d' by simp
  qed
next
  case (aggregated ctx resp')
  from aggregated(3) show thesis
  proof (rule respond_aggregate)
    fix o' s printed
    assume 1: "drive_aggregate (relay_env_of sp (rr_format rq) mt ans) (pl_ms (sp_last sp)) (pl_now (sp_last sp)) (sp_reads sp)
          (at_prepared ans) (relay_start (relay_env_of sp (rr_format rq) mt ans) ctx (dk_app d) tr (sp_room sp)) = Some (o', s)"
      and 2: "d' = settled_desk sp rq snap mt ans (requested_model (at_request ans)) (o', s) d \<or>
          d' = log_body (rr_key rq) (mt_request_id mt) ''response'' printed
            (settled_desk sp rq snap mt ans (requested_model (at_request ans)) (o', s) d)"
    show thesis
      by (rule that [of ctx "(o', s)" "requested_model (at_request ans)"]) (use spares_drive_aggregate [OF 1] 2 in auto)
  qed
qed simp

text \<open>A response ends the permit of its attempt, whichever way it goes.\<close>

lemma respond_slots:
  assumes "stream_response sp rq snap mt ans tr d = Some (r, d')" and "\<And>a. ap_traffic (sp_others sp a) = ap_traffic a"
  shows "slots (dk_app d') k = slots (dk_app d) k - held (at_traffic_permit ans) (traffic_key (at_target ans)) k"
proof (cases r)
  case (Inl err)
  then have "d' = abandon_attempt (sp_settle sp) mt ans d" using assms(1) by (simp add: respond_refused)
  then show ?thesis
    by (cases "at_traffic_permit ans") (simp_all add: abandon_attempt_def Let_def slots_ended [OF ends_drop], simp add: held_def)
next
  case (Inr resp)
  from assms(1) [unfolded Inr] show ?thesis
  proof (rule respond_settled)
    fix model ctx x
    assume 1: "spares (relay_start (relay_env_of sp (rr_format rq) mt ans) ctx (dk_app d) tr (sp_room sp)) (snd x)"
      and 2: "dk_app d' = dk_app (settled_desk sp rq snap mt ans model x d)"
    show ?thesis
      using spares_slots [OF 1] assms(2) 2
      by (simp add: traffic_finalize slots_settled driven_of_def) (simp add: relay_start_def)
  qed
qed

text \<open>
  C2. A whole request leaves no slot behind: from its acceptance to the last byte of its response or to its error,
  whatever the upstreams and the client do, each controller counts in the end the requests it counted before.
\<close>
theorem request_returns_slots:
  assumes "serve re rn sp rq reservation d = Some (r, d')" and "others_idle rn"
    and "\<forall>a. ap_traffic (sp_others sp a) = ap_traffic a"
  shows "slots (dk_app d') k = slots (dk_app d) k"
proof -
  obtain q l where run: "run re rn rq (dk_app d) = Some (q, l)"
    and rest: "(case q of
         Inl err \<Rightarrow> Some (Inl err, d\<lparr>dk_app := ls_app l, dk_admission := drop_reservation reservation (dk_admission d)\<rparr>)
       | Inr ans \<Rightarrow> stream_response sp rq (ap_snapshot (dk_app d)) (meta_of rq reservation ans l) ans (ls_trace l)
                      (d\<lparr>dk_app := ls_app l\<rparr>)) = Some (r, d')"
    using assms(1) by (auto simp: serve_def bind_eq_Some_conv)
  have kept: "case q of
     Inl _ \<Rightarrow> slots (ls_app l) k = slots (dk_app d) k
   | Inr ans \<Rightarrow> slots (ls_app l) k = slots (dk_app d) k + held (at_traffic_permit ans) (traffic_key (at_target ans)) k"
    using run
  proof (cases rule: run_cases)
    case (early err)
    then show ?thesis using assms(2) by (simp add: inflight_def)
  next
    case (attempts route ts l0)
    then have "slots_kept l0 q l" using attempt_candidates_slots assms(2) by blast
    then show ?thesis using attempts(4) assms(2) by (auto simp: slots_kept_def inflight_def split: sum.splits)
  qed
  show ?thesis
  proof (cases q)
    case (Inl err)
    then show ?thesis using rest kept by auto
  next
    case (Inr ans)
    then have "stream_response sp rq (ap_snapshot (dk_app d)) (meta_of rq reservation ans l) ans (ls_trace l)
        (d\<lparr>dk_app := ls_app l\<rparr>) = Some (r, d')" using rest by simp
    from respond_slots [OF this, of k] show ?thesis using assms(3) kept Inr by simp
  qed
qed

section \<open>Aggregated answers are complete\<close>

text \<open>What the aggregating driver has collected between two states.\<close>

definition collected :: "relay_env \<Rightarrow> stream_event list \<Rightarrow> bool \<Rightarrow> relay \<Rightarrow> relay \<Rightarrow> bool" where
  "collected rv evs t r r' \<longleftrightarrow>
     (let (nevs, ts) = normalize_events evs (rl_tools r)
      in rl_events r' = rl_events r @ nevs \<and> rl_tools r' = ts \<and> (rl_terminal r' \<longleftrightarrow> rl_terminal r \<or> t) \<and>
         rl_usage r' = merge_usages evs (rl_usage r))"

lemma collect_events_collected:
  "collected rv events False r (collect_events rv now events r)" "rl_framer (collect_events rv now events r) = rl_framer r"
proof -
  obtain nevs ts where n: "normalize_events events (rl_tools r) = (nevs, ts)" by fastforce
  have "fold (\<lambda>e u. case e of Usage v \<Rightarrow> merge_usage u v | _ \<Rightarrow> u) nevs (rl_usage r) = merge_usages events (rl_usage r)"
    using merge_usages_normalize [of events "rl_tools r" "rl_usage r"] n by (simp add: merge_usages_def)
  moreover have "rl_events (relay_app f s) = rl_events s" for f s by (simp add: relay_app_def)
  ultimately show "collected rv events False r (collect_events rv now events r)"
    "rl_framer (collect_events rv now events r) = rl_framer r"
    using n by (simp_all add: collected_def collect_events_def normalize_captured_def)
qed

interpretation gathered: event_reader rv "\<lambda>_ r. r" "\<lambda>p events r. (None, collect_events rv (pl_now p) events r)" "collected rv"
  for rv
proof
  show "collected rv [] False r r" for r by (simp add: collected_def merge_usages_def)
  show "collected rv [] True r (r\<lparr>rl_terminal := True\<rparr>)" for r by (simp add: collected_def merge_usages_def)
  show "collected rv (xs @ ys) (t \<or> u) r r2" if "collected rv xs t r r1" "collected rv ys u r1 r2" for xs t r r1 ys u r2
    using that by (auto simp: collected_def normalize_append merge_usages_append Let_def split: prod.splits)
  show "collected rv xs t r r1" if "collected rv xs t (r\<lparr>rl_framer := f\<rparr>) r1" for xs t r f r1
    using that by (simp add: collected_def)
  show "collected rv xs t r r2" if "send_one keepalive_frame r = (True, r1)" "collected rv xs t r1 r2" for xs t r r1 r2
    using that(2) send_one_room [OF that(1)] by (simp add: collected_def)
  show "collected rv events False r r1" "rl_framer r1 = rl_framer r"
    if "(None, collect_events rv (pl_now p) events r) = (None, r1)" for p events r r1
    using that collect_events_collected by auto
qed simp

text \<open>
  C9. An answer without streaming is all or nothing: a response body with status 200 is the aggregation of the normalised
  events of the whole upstream stream, which was read to its end without a broken frame, an error or a missing terminal
  event; everything else is an error with a status between 400 and 599 that carries no part of the answer.
\<close>
theorem aggregate_all_or_nothing:
  assumes "drive_aggregate rv ms now reads pr (relay_start rv ctx a tr room) = Some x" and "pr_full_events pr = None"
    and "aggregate_result (rv_codec rv) created (rv_format rv) model (ctx\<lparr>ec_request_id := rv_request_id rv\<rparr>) x = (status, body)"
  shows "(status = 200 \<and>
      (\<exists>bs evs. upstream_chunks pr = map Inr bs \<and> snd (split_raw (concat bs)) = [] \<and>
         read_frames (rv_codec rv) (rv_adapter rv) (render (fst (split_raw (concat bs)))) = Some (evs, True) \<and>
         body = aggregate_with_responses_fields (rv_codec rv) created (rv_format rv) model (rv_request_id rv)
           (fst (normalize_events evs (tool_stream_new (rv_request_id rv)))) (merge_usages evs usage_default)
           (ec_responses ctx))) \<or>
    400 \<le> status \<and> status \<le> 599 \<and> (\<exists>o'. body = aggregate_error o')"
proof -
  let ?r = "relay_start rv ctx a tr room"
  let ?chunk = "\<lambda>p. push_chunk (walk_frames rv (\<lambda>_ r. r) (\<lambda>events r. (None, collect_events rv (pl_now p) events r)))"
  have chunk: "collect_chunk rv = ?chunk" by (rule ext) (simp add: collect_chunk_def)
  obtain o1 r1 where 1: "select_loop rv (\<lambda>_. False) ?chunk (map poll_of_read reads) (upstream_chunks pr) ?r = Some (o1, r1)"
    and x: "x = (check_complete r1 o1,
      if so_status (check_complete r1 o1) = ''success'' then commit_collected ms r1 else r1)"
    using assms(1,2) by (auto simp: drive_aggregate_def chunk Let_def)
  show ?thesis
  proof (cases "so_status (check_complete r1 o1) = ''success''")
    case True
    note c = check_complete_success [OF True]
    obtain bs where bs: "upstream_chunks pr = map Inr bs" "gathered.read_through rv bs ?r r1"
      using gathered.loop_reads [OF 1] True c(1) by metis
    then obtain frames evs u where f: "push_all framer_default bs = (rl_framer r1, Inr frames)"
      "read_frames (rv_codec rv) (rv_adapter rv) frames = Some (evs, u)" "collected rv evs u ?r r1"
      by (auto simp: gathered.read_through_def relay_start_def)
    have "u" using f(3) c(3) by (auto simp: collected_def relay_start_def split: prod.splits)
    moreover have "rl_events r1 = fst (normalize_events evs (tool_stream_new (rv_request_id rv)))"
      "rl_usage r1 = merge_usages evs usage_default"
      using f(3) by (auto simp: collected_def relay_start_def split: prod.splits)
    ultimately show ?thesis
      using True x assms(3) bs(1) chunks_split [OF f(1)] c(2) f(2)
      by (auto simp: aggregate_result_def commit_collected_def)
  next
    case False
    then show ?thesis using x assms(3) by (auto simp: aggregate_result_def clamp_status_def)
  qed
qed

section \<open>Charging\<close>

definition ledger_of :: "string \<Rightarrow> admission_controller \<Rightarrow> key_ledger" where
  "ledger_of key ctl = ka_ledger (entry_or key_admission_default (adm_keys ctl) key)"

text \<open>What a row says was spent: its cost when both totals were reported, and the reservation's estimate otherwise.\<close>

definition row_charge :: "usage_log_row \<Rightarrow> active_reservation \<Rightarrow> f64" where
  "row_charge row a =
     unwrap_or (opt_or (if ul_input_tokens row \<noteq> None \<and> ul_output_tokens row \<noteq> None then ul_cost_usd row else None)
       (ar_cost a)) 0"

lemma ledger_settled:
  "ledger_of key (settle_reservation se u cost (Some (key, i)) ctl) =
     reconcile_reservation i u cost (se_clock se) (se_inst se) (ledger_of key ctl)"
  by (simp add: settle_reservation_def ledger_of_def with_entry_def entry_or_def on_ledger_def)

lemma ledger_dropped: "ledger_of key (drop_reservation (Some (key, i)) ctl) = cancel_ledger i (ledger_of key ctl)"
  by (simp add: drop_reservation_def ledger_of_def with_entry_def entry_or_def on_ledger_def)

text \<open>The row of a settlement: what it says of the request, the outcome and the usage.\<close>

definition row_tells :: "settle_env \<Rightarrow> request_meta \<Rightarrow> attempt \<Rightarrow> stream_end \<Rightarrow> token_usage \<Rightarrow> usage_log_row \<Rightarrow> bool" where
  "row_tells se mt ans o' u row \<longleftrightarrow>
     ul_request_id row = mt_request_id mt \<and> ul_status row = so_status o' \<and> ul_cost_usd row = attempt_cost se ans u \<and>
     (ul_input_tokens row \<noteq> None \<longleftrightarrow> tu_input u \<noteq> None) \<and> (ul_output_tokens row \<noteq> None \<longleftrightarrow> tu_output u \<noteq> None)"

lemma usage_row_tells: "row_tells se mt ans o' u (usage_row se mt req ans model key ttft o' u tr)"
  by (simp add: row_tells_def usage_row_def persisted_request_timing_def Let_def token_column_def)

lemma finalize_books:
  obtains row where "row_tells se mt ans (dv_end dv) (dv_usage dv) row"
    and "dk_log (finalize_log se snap mt req ans model key dv d) = enqueue row (dk_log d)"
    and "dk_admission (finalize_log se snap mt req ans model key dv d) =
      settle_reservation se (dv_usage dv) (attempt_cost se ans (dv_usage dv)) (mt_admission mt) (dk_admission d)"
    and "ap_sticky (dk_app (finalize_log se snap mt req ans model key dv d)) =
      ap_sticky (settle_affinity se snap mt ans (dv_end dv) (dk_app d))"
proof -
  obtain tr1 a1 where t: "settle_telemetry se mt ans (dv_ttft dv) (dv_end dv) (dv_trace dv)
      (settle_permit se ans (dv_end dv) (dk_app d)) = (tr1, a1)" using prod.exhaust by blast
  have "ap_sticky a1 = ap_sticky (dk_app d)"
    using t by (auto simp: settle_telemetry_def settle_circuit_def settle_permit_def Let_def case_prod_beta split: option.splits)
  then have s: "ap_sticky (settle_affinity se snap mt ans o' a1) = ap_sticky (settle_affinity se snap mt ans o' (dk_app d))" for o'
    by (simp add: settle_affinity_def split: option.split)
  let ?mt = "mt\<lparr>mt_admission := None, mt_cache_status := cache_status_from_usage (dv_usage dv),
                   mt_commit_state := (if dv_committed dv then ''post_commit'' else ''pre_commit'')\<rparr>"
  let ?row = "usage_row se ?mt req ans model key (dv_ttft dv) (dv_end dv) (dv_usage dv)
    (trace_finish (se_ms se 1) (trace_outcome_of (dv_end dv)) tr1)"
  have "row_tells se mt ans (dv_end dv) (dv_usage dv) ?row"
    using usage_row_tells [of se ?mt ans "dv_end dv" "dv_usage dv"] by (simp add: row_tells_def)
  then show thesis
    by (rule that) (simp_all add: finalize_log_def t Let_def settle_views_def s)
qed

text \<open>A counter of a day or a month carries on in the period it is for and starts from zero in another.\<close>

definition carried :: "'p option \<Rightarrow> 'p \<Rightarrow> f64 \<Rightarrow> f64" where
  "carried running now spend = (if running = Some now then spend else 0)"

lemma reconciled_spend:
  assumes "map_of (kl_active l) i = Some a"
  shows "map_of (kl_active (reconcile_reservation i u cost w now l)) i = None"
    "kl_daily_spend (reconcile_reservation i u cost w now l) = carried (kl_daily_day l) (wc_day w) (kl_daily_spend l) +
       (if ar_day a = wc_day w
        then unwrap_or (opt_or (if tu_input u \<noteq> None \<and> tu_output u \<noteq> None then cost else None) (ar_cost a)) 0 else 0)"
    "kl_monthly_spend (reconcile_reservation i u cost w now l) =
       carried (kl_monthly_key l) (wc_month w) (kl_monthly_spend l) +
       (if ar_month a = wc_month w
        then unwrap_or (opt_or (if tu_input u \<noteq> None \<and> tu_output u \<noteq> None then cost else None) (ar_cost a)) 0 else 0)"
  using assms
  by (auto simp: reconcile_reservation_def reconcile_ledger_def Let_def settle_fields map_of_remove carried_def split: option.splits)

text \<open>
  C3. The reservation of a request is settled exactly once, whichever way the request ends: it is gone from its key's
  ledger; a request without an answer has spent nothing and leaves no usage row; and one with an answer leaves one row and
  adds one charge to the running day and to the running month. The charge is the row's cost, if the upstream reported both
  token totals and the cost is known, and otherwise the reservation's estimate, or nothing if that is unknown too. A
  reservation made in a day or month that is over by then is not charged to the one that runs, which starts from zero.
\<close>
theorem request_charged_once:
  fixes sp
  defines "now \<equiv> se_clock (sp_settle sp)"
  assumes "serve re rn sp rq (Some (key, i)) d = Some (r, d')"
    and "map_of (kl_active (ledger_of key (dk_admission d))) i = Some a"
  shows "map_of (kl_active (ledger_of key (dk_admission d'))) i = None \<and>
    (case r of
       Inl _ \<Rightarrow> dk_log d' = dk_log d \<and>
         kl_daily_spend (ledger_of key (dk_admission d')) = kl_daily_spend (ledger_of key (dk_admission d)) \<and>
         kl_monthly_spend (ledger_of key (dk_admission d')) = kl_monthly_spend (ledger_of key (dk_admission d))
     | Inr _ \<Rightarrow> \<exists>row. dk_log d' = enqueue row (dk_log d) \<and> ul_request_id row = rr_id rq \<and>
         kl_daily_spend (ledger_of key (dk_admission d')) =
           carried (kl_daily_day (ledger_of key (dk_admission d))) (wc_day now)
             (kl_daily_spend (ledger_of key (dk_admission d))) +
           (if ar_day a = wc_day now then row_charge row a else 0) \<and>
         kl_monthly_spend (ledger_of key (dk_admission d')) =
           carried (kl_monthly_key (ledger_of key (dk_admission d))) (wc_month now)
             (kl_monthly_spend (ledger_of key (dk_admission d))) +
           (if ar_month a = wc_month now then row_charge row a else 0))"
proof -
  obtain q l where run: "run re rn rq (dk_app d) = Some (q, l)"
    and rest: "(case q of
         Inl err \<Rightarrow> Some (Inl err, d\<lparr>dk_app := ls_app l, dk_admission := drop_reservation (Some (key, i)) (dk_admission d)\<rparr>)
       | Inr ans \<Rightarrow> stream_response sp rq (ap_snapshot (dk_app d)) (meta_of rq (Some (key, i)) ans l) ans (ls_trace l)
                      (d\<lparr>dk_app := ls_app l\<rparr>)) = Some (r, d')"
    using assms(2) by (auto simp: serve_def bind_eq_Some_conv)
  have cancelled: ?thesis if "r = Inl err" "dk_log d' = dk_log d"
      "dk_admission d' = drop_reservation (Some (key, i)) (dk_admission d)" for err
    using that by (simp add: ledger_dropped cancel_ledger_def map_of_remove)
  have settled: ?thesis if "r = Inr resp" and "mt_admission mt = Some (key, i)" "mt_request_id mt = rr_id rq"
      "dk_log d' = dk_log (settled_desk sp rq snap mt ans model x (d\<lparr>dk_app := app\<rparr>))"
      "dk_admission d' = dk_admission (settled_desk sp rq snap mt ans model x (d\<lparr>dk_app := app\<rparr>))" for resp snap mt ans model x app
  proof (rule finalize_books [of "sp_settle sp" mt ans "driven_of (fst x) (snd x)" snap "at_request ans" model "rr_key rq"
        "d\<lparr>dk_app := sp_others sp (rl_app (snd x))\<rparr>"])
    fix row
    assume "row_tells (sp_settle sp) mt ans (dv_end (driven_of (fst x) (snd x))) (dv_usage (driven_of (fst x) (snd x))) row"
      and "dk_log (settled_desk sp rq snap mt ans model x d) = enqueue row (dk_log (d\<lparr>dk_app := sp_others sp (rl_app (snd x))\<rparr>))"
      and "dk_admission (settled_desk sp rq snap mt ans model x d) =
        settle_reservation (sp_settle sp) (dv_usage (driven_of (fst x) (snd x)))
          (attempt_cost (sp_settle sp) ans (dv_usage (driven_of (fst x) (snd x)))) (mt_admission mt)
          (dk_admission (d\<lparr>dk_app := sp_others sp (rl_app (snd x))\<rparr>))"
    then show ?thesis
      using that reconciled_spend [OF assms(3)]
      by (auto simp: ledger_settled row_tells_def row_charge_def now_def)
  qed
  show ?thesis
  proof (cases q)
    case (Inl err)
    then show ?thesis using rest cancelled by auto
  next
    case (Inr ans)
    let ?mt = "meta_of rq (Some (key, i)) ans l"
    have m: "mt_admission ?mt = Some (key, i)" "mt_request_id ?mt = rr_id rq" by (simp_all add: meta_of_def meta_new_def)
    have "stream_response sp rq (ap_snapshot (dk_app d)) ?mt ans (ls_trace l) (d\<lparr>dk_app := ls_app l\<rparr>) = Some (r, d')"
      using rest Inr by simp
    note resp = this
    show ?thesis
    proof (cases r)
      case (Inl err)
      then have "d' = abandon_attempt (sp_settle sp) ?mt ans (d\<lparr>dk_app := ls_app l\<rparr>)"
        using resp by (simp add: respond_refused)
      then show ?thesis using m Inl by (intro cancelled) (simp_all add: abandon_attempt_def Let_def)
    next
      case (Inr v)
      from resp [unfolded Inr] show ?thesis by (rule respond_settled) (rule settled [OF Inr m], assumption+)
    qed
  qed
qed

section \<open>Sessions\<close>

lemma position_holds: "position P xs = Some n \<Longrightarrow> n < length xs \<and> P (xs ! n)"
  by (induction xs arbitrary: n) (auto split: if_splits)

text \<open>
  C39. Where a route is set to keep its sessions, by cache affinity or sticky routing (both are off unless configured), a
  conversation goes back to the target that served it: after a request of a session that was answered with success, the
  next request of the session that comes within the affinity's lifetime, and still has that target among its candidates,
  starts with a candidate for the same account and model.
\<close>
theorem session_returns:
  assumes "stream_response sp rq snap mt ans tr d = Some (Inr resp, d')"
    and "mt_session mt = Some s" and "mt_route_id mt = Some (rt_id route)" and "map_of (sn_routes snap) (rt_id route) \<noteq> None"
    and "now - se_inst (sp_settle sp) \<le> STICKY_TTL"
    and "rt_cache_affinity route \<noteq> 0 \<or> rt_sticky_routing route \<noteq> 0" and "at_target ans \<in> set ts"
  shows "\<exists>row. dk_log d' = enqueue row (dk_log d) \<and>
    (ul_status row = ''success'' \<longrightarrow>
       (let origin = sticky_lookup s now (ap_sticky (dk_app d')); first = hd (fst (promote_session ms (Some route) origin ts l))
        in origin = Some (pipeline_target_key route (at_target ans)) \<and>
           ac_id (rs_account first) @ ''|'' @ md_id (rs_model first) =
             ac_id (rs_account (at_target ans)) @ ''|'' @ md_id (rs_model (at_target ans))))"
  using assms(1)
proof (rule respond_settled)
  let ?k = "pipeline_target_key route (at_target ans)"
  fix model ctx x
  assume d': "dk_app d' = dk_app (settled_desk sp rq snap mt ans model x d)" "dk_log d' = dk_log (settled_desk sp rq snap mt ans model x d)"
  let ?dv = "driven_of (fst x) (snd x)" and ?d = "d\<lparr>dk_app := sp_others sp (rl_app (snd x))\<rparr>"
  obtain row where row: "row_tells (sp_settle sp) mt ans (dv_end ?dv) (dv_usage ?dv) row" "dk_log d' = enqueue row (dk_log d)"
    "ap_sticky (dk_app d') = ap_sticky (settle_affinity (sp_settle sp) snap mt ans (dv_end ?dv) (dk_app ?d))"
    by (rule finalize_books [of "sp_settle sp" mt ans ?dv snap "at_request ans" model "rr_key rq" ?d]) (simp add: d')
  have "let origin = sticky_lookup s now (ap_sticky (dk_app d')); first = hd (fst (promote_session ms (Some route) origin ts l))
      in origin = Some ?k \<and> ac_id (rs_account first) @ ''|'' @ md_id (rs_model first) =
           ac_id (rs_account (at_target ans)) @ ''|'' @ md_id (rs_model (at_target ans))"
    if "ul_status row = ''success''"
  proof -
    have "ap_sticky (dk_app d') = sticky_remember s ?k (se_inst (sp_settle sp)) (ap_sticky (dk_app ?d))"
      using row(1,3) that assms(2-4) by (auto simp: settle_affinity_def row_tells_def pipeline_target_key_def)
    moreover have "sat_since now (se_inst (sp_settle sp)) \<le> STICKY_TTL" using assms(5) by (simp add: sat_since_def const_defs)
    ultimately have o: "sticky_lookup s now (ap_sticky (dk_app d')) = Some ?k"
      by (simp add: sticky_lookup_def sticky_remember_def)
    obtain pos where pos: "position (\<lambda>t. pipeline_target_key route t = ?k) ts = Some pos"
      using assms(7) position_none [of "\<lambda>t. pipeline_target_key route t = ?k" ts]
      by (cases "position (\<lambda>t. pipeline_target_key route t = ?k) ts") auto
    then have n: "pos < length ts" "pipeline_target_key route (ts ! pos) = ?k" using position_holds [OF pos] by auto
    then have "hd (rotate pos ts) = ts ! pos" by (subst hd_rotate_conv_nth) auto
    then have "hd (fst (promote_session ms (Some route) (Some ?k) ts l)) = ts ! pos"
      using pos assms(6) by (auto simp: promote_session_def Let_def)
    then show ?thesis using o n(2) by (simp add: pipeline_target_key_def)
  qed
  then show ?thesis using row(2) by blast
qed

section \<open>Concrete requests\<close>

text \<open>A client that is gone at once, or an upstream that does not go on, ends any driver.\<close>

lemma respond_ends:
  assumes "sp_polls sp = q # qs" and "pl_gone q" and "sp_reads sp = Read_Late # rs"
  shows "\<exists>r d'. stream_response sp rq snap mt ans tr d = Some (r, d')"
proof -
  have "drive_answer sp rv ctx ans r \<noteq> None" for rv ctx r
    using assms(1,2) by (simp add: drive_answer_def drive_stream_passthrough_def drive_stream_def split: option.split)
  then have s: "respond_streaming sp rq snap mt ans ctx tr d \<noteq> None" for ctx
    by (simp add: respond_streaming_def Let_def)
  have "drive_aggregate rv ms now (sp_reads sp) (at_prepared ans) r \<noteq> None" for rv ms now r
    using assms(3) by (simp add: drive_aggregate_def split: option.split)
  then have a: "respond_aggregated sp rq snap mt ans ctx tr d \<noteq> None" for ctx
    by (simp add: respond_aggregated_def Let_def)
  show ?thesis
    using s a by (fastforce simp: stream_response_def Let_def split: sum.split)
qed

definition demo_settle_env :: settle_env where
  "demo_settle_env = \<lparr>se_codec = demo_clock, se_plugins = False, se_uuid = ''u'', se_ts = ''t'', se_started = 0, se_inst = 0,
     se_wall = 0, se_clock = demo_wall, se_ms = (\<lambda>_. 0)\<rparr>"

definition demo_respond_env :: respond_env where
  "demo_respond_env = \<lparr>sp_settle = demo_settle_env, sp_cipher = demo_sound_suite, sp_created = 0, sp_collected = 0,
     sp_polls = [(demo_poll Upstream_Ready)\<lparr>pl_gone := True\<rparr>], sp_last = demo_poll Upstream_Ready, sp_reads = [Read_Late],
     sp_room = 8, sp_others = (\<lambda>a. a), sp_header_ok = (\<lambda>_. True)\<rparr>"

text \<open>A key's controller with one reservation, of half a dollar.\<close>

definition demo_active :: active_reservation where
  "demo_active = \<lparr>ar_at = 0, ar_tokens = 10, ar_cost = Some (1 / 2), ar_day = wc_day demo_wall, ar_month = wc_month demo_wall\<rparr>"

definition demo_reserved :: admission_controller where
  "demo_reserved = \<lparr>adm_keys = [''k'' \<mapsto> \<lparr>ka_initialized = True, ka_ledger = ledger_default
     \<lparr>kl_active := [(1, demo_active)], kl_daily_day := Some (wc_day demo_wall), kl_monthly_key := Some (wc_month demo_wall)\<rparr>\<rparr>],
     adm_next_id = 1\<rparr>"

definition demo_desk :: desk where
  "demo_desk = \<lparr>dk_app = demo_app demo_one_account, dk_admission = demo_reserved, dk_log = log_queue_new 4,
     dk_body_logs = [], dk_hooks = []\<rparr>"

lemma demo_serve:
  "\<exists>r d'. serve demo_request_env demo_run_env demo_respond_env demo_run_request reservation demo_desk = Some (r, d')"
proof -
  obtain q l where run: "run demo_request_env demo_run_env demo_run_request (demo_app demo_one_account) = Some (q, l)"
    using demo_direct_run by blast
  have e: "sp_polls demo_respond_env = (demo_poll Upstream_Ready)\<lparr>pl_gone := True\<rparr> # []" "sp_reads demo_respond_env = [Read_Late]"
    "dk_app demo_desk = demo_app demo_one_account"
    by (simp_all add: demo_respond_env_def demo_desk_def)
  show ?thesis
    using run respond_ends [OF e(1) _ e(2)] by (cases q) (simp_all add: serve_def e(3))
qed

theorem request_returns_slots_witness:
  "\<exists>r d'. serve demo_request_env demo_run_env demo_respond_env demo_run_request None demo_desk = Some (r, d') \<and>
     (\<forall>k. slots (dk_app d') k = 0)"
proof -
  obtain r d' where s: "serve demo_request_env demo_run_env demo_respond_env demo_run_request None demo_desk = Some (r, d')"
    using demo_serve by blast
  have "others_idle demo_run_env"
    by (simp add: others_idle_def others_keep_traffic_def demo_run_env_def demo_attempt_env_def)
  moreover have "\<forall>a. ap_traffic (sp_others demo_respond_env a) = ap_traffic a" by (simp add: demo_respond_env_def)
  moreover have "slots (dk_app demo_desk) k = 0" for k
    by (simp add: entry_or_def demo_desk_def demo_app_def controller_default_def)
  ultimately show ?thesis using s request_returns_slots [OF s] by auto
qed

theorem request_charged_once_witness:
  "\<exists>r d'. serve demo_request_env demo_run_env demo_respond_env demo_run_request (Some (''k'', 1)) demo_desk = Some (r, d') \<and>
     map_of (kl_active (ledger_of ''k'' (dk_admission d'))) 1 = None"
proof -
  obtain r d' where s: "serve demo_request_env demo_run_env demo_respond_env demo_run_request (Some (''k'', 1)) demo_desk = Some (r, d')"
    using demo_serve by blast
  have l: "map_of (kl_active (ledger_of ''k'' (dk_admission demo_desk))) 1 = Some demo_active"
    by (simp_all add: ledger_of_def entry_or_def demo_desk_def demo_reserved_def demo_active_def demo_respond_env_def demo_settle_env_def)
  show ?thesis using s request_charged_once [OF s l] by blast
qed

text \<open>An answer that is complete before anything is sent.\<close>

definition demo_answer :: attempt where
  "demo_answer = \<lparr>at_target = demo_direct, at_upstream_request_id = None,
     at_prepared = \<lparr>pr_stream = None, pr_prefetched = [], pr_full_events = Some [TextDelta ''x''],
       pr_precommit_usage = usage_default, pr_is_sse = False\<rparr>,
     at_idle_timeout = 0, at_adapter = demo_adapter, at_passthrough = False, at_traffic_permit = None,
     at_provider_attempt = \<lparr>a_account_id = ''a'', a_target_id = ''t'', a_generation = 0, a_correlation_policy = DistinctAccounts,
       a_half_open_probe = False, a_validated_success = False, a_finished = False\<rparr>,
     at_circuit_transition = None, at_attempt_started = 0, at_request = Admission.demo_request, at_retries = 0\<rparr>"

abbreviation sticky_route :: route_row where
  "sticky_route \<equiv> demo_route\<lparr>rt_sticky_routing := 1\<rparr>"

theorem session_returns_witness:
  "\<exists>resp d' row. stream_response demo_respond_env demo_run_request (demo_one_account\<lparr>sn_routes := [(''r1'', sticky_route)]\<rparr>)
       ((meta_new ''r'' OpenAiF ''gpt'')\<lparr>mt_session := Some ''s'', mt_route_id := Some ''r1''\<rparr>) demo_answer
       (trace_new ''u'' ''r'' ''gpt'') demo_desk = Some (Inr resp, d') \<and> dk_log d' = enqueue row (dk_log demo_desk) \<and>
     (ul_status row = ''success'' \<longrightarrow>
        sticky_lookup ''s'' (secs 60) (ap_sticky (dk_app d')) = Some (pipeline_target_key sticky_route demo_direct))"
proof -
  let ?mt = "(meta_new ''r'' OpenAiF ''gpt'')\<lparr>mt_session := Some ''s'', mt_route_id := Some ''r1''\<rparr>"
  let ?snap = "demo_one_account\<lparr>sn_routes := [(''r1'', sticky_route)]\<rparr>"
  have e: "sp_polls demo_respond_env = (demo_poll Upstream_Ready)\<lparr>pl_gone := True\<rparr> # []" "sp_reads demo_respond_env = [Read_Late]"
    by (simp_all add: demo_respond_env_def)
  have f: "rr_format demo_run_request = OpenAiF" by (simp add: demo_run_request_def)
  obtain r d' where s: "stream_response demo_respond_env demo_run_request ?snap ?mt demo_answer (trace_new ''u'' ''r'' ''gpt'') demo_desk =
      Some (r, d')" using respond_ends [OF e(1) _ e(2)] by fastforce
  then obtain resp where r: "r = Inr resp" using f by (auto simp: stream_response_def Let_def split: if_splits)
  have h: "mt_session ?mt = Some ''s''" "mt_route_id ?mt = Some (rt_id sticky_route)"
    "map_of (sn_routes ?snap) (rt_id sticky_route) \<noteq> None" "secs 60 - se_inst (sp_settle demo_respond_env) \<le> STICKY_TTL"
    "rt_cache_affinity sticky_route \<noteq> 0 \<or> rt_sticky_routing sticky_route \<noteq> 0" "at_target demo_answer \<in> set [demo_direct]"
    by (simp_all add: demo_route_def demo_respond_env_def demo_settle_env_def const_defs secs_def demo_answer_def)
  show ?thesis
    using s r session_returns [OF s [unfolded r] h] by (fastforce simp: Let_def demo_answer_def)
qed

lemma demo_collects:
  "\<exists>r. drive_aggregate demo_relay_env 0 0 [Read_At 0, Read_At 0] (demo_prepared demo_chunk) demo_relay = Some (stream_success, r)"
proof -
  obtain f where f: "push (rl_framer demo_relay) demo_chunk = (f, Inr [''data: s'', ''data: x'', ''data: [DONE]''])" "fr_buffer f = []"
    using demo_pushed by (auto simp: relay_start_def)
  have d: "extract_data ''data: s'' = Some ''s''" "extract_data ''data: x'' = Some ''x''" "extract_data ''data: [DONE]'' = Some ''[DONE]''"
    "trim ''s'' \<noteq> ''[DONE]''" "trim ''x'' \<noteq> ''[DONE]''" "trim ''[DONE]'' = ''[DONE]''" by code_simp+
  have a: "payload_error_failure (rv_codec demo_relay_env) (rv_adapter demo_relay_env) w = None" for w
    by (simp add: payload_error_failure_def demo_relay_env_def demo_relay_codec_def)
  have b: "ad_parse_stream_chunk (rv_adapter demo_relay_env) ''s'' = Inr []"
    "ad_parse_stream_chunk (rv_adapter demo_relay_env) ''x'' = Inr [TextDelta ''x'']"
    by (simp_all add: demo_relay_env_def demo_adapter_def)
  have t: "payload_is_terminal (rv_codec demo_relay_env) ''s'' [] = False"
    "payload_is_terminal (rv_codec demo_relay_env) ''x'' [TextDelta ''x''] = False"
    using d by (simp_all add: payload_is_terminal_def demo_relay_env_def demo_relay_codec_def)
  obtain r1 where 1: "collect_chunk demo_relay_env (poll_of_read (Read_At 0)) demo_chunk demo_relay = (None, r1)"
    "rl_framer r1 = f" "rl_terminal r1"
    using f(1) by (simp add: collect_chunk_def push_chunk_def d a b t collect_events_collected(2) del: poll_of_read.simps)
  then have "drive_aggregate demo_relay_env 0 0 [Read_At 0, Read_At 0] (demo_prepared demo_chunk) demo_relay =
      Some (stream_success, commit_collected 0 r1)"
    using f(2) demo_chunks [of demo_chunk]
    by (simp add: drive_aggregate_def Let_def check_complete_def pending_bytes_def)
  then show ?thesis by blast
qed

theorem aggregate_all_or_nothing_witness:
  "\<exists>x status body. drive_aggregate demo_relay_env 0 0 [Read_At 0, Read_At 0] (demo_prepared demo_chunk) demo_relay = Some x \<and>
     aggregate_result (rv_codec demo_relay_env) 0 OpenAiF ''m'' demo_relay_ctx x = (status, body) \<and>
     (\<exists>bs. upstream_chunks (demo_prepared demo_chunk) = map Inr bs \<and> snd (split_raw (concat bs)) = [])"
proof -
  obtain r where r: "drive_aggregate demo_relay_env 0 0 [Read_At 0, Read_At 0] (demo_prepared demo_chunk) demo_relay =
      Some (stream_success, r)" using demo_collects by blast
  obtain status body where a: "aggregate_result (rv_codec demo_relay_env) 0 OpenAiF ''m'' demo_relay_ctx (stream_success, r) = (status, body)"
    using prod.exhaust by blast
  have f: "rv_format demo_relay_env = OpenAiF" "demo_relay_ctx\<lparr>ec_request_id := rv_request_id demo_relay_env\<rparr> = demo_relay_ctx"
    by (simp_all add: demo_relay_env_def demo_relay_ctx_def)
  have "status = 200" using a by (auto simp: aggregate_result_def)
  then show ?thesis
    using aggregate_all_or_nothing [OF r demo_chunks(2), of 0 "''m''" status body] a r f by auto
qed

end
