(* ===== verification/Spec2Isabelle.thy ===== *)
theory Spec2Isabelle
  imports Sse Provider_Circuit Key_Limits Upstream_Traffic Secrets Trace_Recorder Tool_Stream Route_Ordering Opaque_State
    Outbound Request_Checks Live_Requests Anthropic_Roundtrip Gemini_Adapter Settlement
begin

text \<open>
  Kinetix is a self-hosted gateway for language-model providers, written in Rust. A client presents a
  virtual key; the gateway checks the key's address list, rate limits and budgets, resolves the
  requested model name to a provider's model or to a route with several targets, orders the
  candidates, and attempts them in turn until one answers, recording a trace, telemetry and cost.
  This development models that core as executable definitions, one theory per component in the
  order of the code, and proves what the rest of the program relies on.

  \<^bold>\<open>How the parts interact.\<close> Configuration rows (\<open>Db_Rows\<close>, \<open>Config_Store\<close>) are loaded
  into an immutable snapshot (\<open>Registry\<close>), which resolves names to targets. Admission
  (\<open>Admission\<close>, \<open>Key_Limits\<close>) reserves tokens and money before anything is sent, at the rates of
  \<open>Cost\<close>. A route's targets are filtered by predicates (\<open>Route_Predicate\<close>) and ordered
  (\<open>Route_Ordering\<close>) from the state of accounts (\<open>Account_Pool\<close>), quota evidence (\<open>Quota\<close>)
  and measured traffic (\<open>Upstream_Traffic\<close>). An attempt passes the provider's circuit breaker
  (\<open>Provider_Circuit\<close>), takes a concurrency permit (\<open>Upstream_Traffic\<close>), and its response is
  framed (\<open>Sse\<close>) and its tool calls are normalised (\<open>Tool_Stream\<close>). Failures are classified and
  mapped to fallback, account state and client errors (\<open>Route_Policy\<close>, \<open>Account_Pool\<close>). The target's
  dialect and capabilities come from \<open>Execution_Profile\<close>, the checks of the request against them from
  \<open>Request_Checks\<close>, continuation state from \<open>Opaque_State\<close>, and the network from \<open>Outbound\<close>.
  \<open>Attempt_Loop\<close> composes all of these into the iteration of the code, and \<open>Request_Run\<close> a request from
  admission to the validated answer. \<open>Client_Relay\<close> brings the answer to the client through the frontends' encoders, and
  \<open>Settlement\<close> composes the whole: it ends the slot, the circuit attempt, the reservation, the trace and the live entry, and
  hands the usage row to \<open>Log_Queue\<close>. \<open>Trace_Recorder\<close>, \<open>Live_Requests\<close>, \<open>Target_Telemetry\<close> and \<open>Secrets\<close>
  serve all of them.

  \<^bold>\<open>Theories and sources\<close> (paths below \<^verbatim>\<open>src/src\<close>).
  \<^item> \<open>Kinetix_Prelude\<close>: Rust's saturating and wrapping arithmetic, option and string helpers, decimal
    numbers, keyed tables and runs of operations; the collections \<open>const_defs\<close> and \<open>arith_defs\<close>.
  \<^item> \<open>Core_Types\<close>: \<^verbatim>\<open>types.rs\<close>, the request and event types, usage, failures, errors.
  \<^item> \<open>Cost\<close>: \<^verbatim>\<open>cost.rs\<close>. When a cost is known, and bounds for it.
  \<^item> \<open>Sse\<close>: \<^verbatim>\<open>sse.rs\<close>. The incremental framer agrees with splitting the whole stream, accepts
    every stream that respects the limit, and buffers a bounded number of bytes.
  \<^item> \<open>Provider_Circuit\<close>: \<^verbatim>\<open>provider_circuit.rs\<close>. A step relation over concurrent attempts with one
    invariant; exclusive probes, justified refusals, correlated opening, recovery.
  \<^item> \<open>Route_Predicate\<close>: \<^verbatim>\<open>predicate.rs\<close>. Short-circuit evaluation refines Kleene logic.
  \<^item> \<open>Db_Rows\<close>, \<open>Config_Store\<close>: the configuration part of \<^verbatim>\<open>db.rs\<close>. The unique and foreign-key constraints and the
    cascades are those of the schema, which SQLite enforces: they are written as guards of each statement, and that every
    reachable database satisfies them is a lemma for \<open>Registry\<close>, not a property of the program.
  \<^item> \<open>Registry\<close>: \<^verbatim>\<open>registry.rs\<close>. The snapshot refines the store; resolution is sound whatever the
    hash-map orders, and independent of them for an unambiguous name.
  \<^item> \<open>Admission\<close>, \<open>Key_Limits\<close>: \<^verbatim>\<open>admission.rs\<close>, \<^verbatim>\<open>limits.rs\<close>, \<^verbatim>\<open>ratelimit.rs\<close>. Budget safety, up to
    what is charged beyond reservations, and rate safety in every interleaving, dominance of estimates, address matching, the per-address burst bound.
  \<^item> \<open>Upstream_Traffic\<close>: \<^verbatim>\<open>upstream_traffic.rs\<close>. Permits account for slots, provisional evidence is live,
    the limit grows no faster than its window allows.
  \<^item> \<open>Secrets\<close>: \<^verbatim>\<open>crypto.rs\<close>. Redaction leaves no secret-like token; encryption domains are separate.
  \<^item> \<open>Trace_Recorder\<close>: \<^verbatim>\<open>trace.rs\<close>. The flight recorder is bounded and keeps a faithful prefix.
  \<^item> \<open>Account_Pool\<close>: \<^verbatim>\<open>pool.rs\<close> and the account parts of \<^verbatim>\<open>pipeline.rs\<close>. Ordering permutes, weighted
    choice is exact, failures stay with their account, probing and its gap.
  \<^item> \<open>Quota\<close>: \<^verbatim>\<open>quota.rs\<close>. What evidence routing may use, and the countdown parser.
  \<^item> \<open>Target_Telemetry\<close>: \<^verbatim>\<open>target_telemetry.rs\<close>. No event is lost uncounted; quantiles are order statistics.
  \<^item> \<open>Tool_Stream\<close>, \<open>Route_Policy\<close>, \<open>Route_Ordering\<close>: \<open>ToolStreamState\<close>, the policy functions and the
    ordering of targets in \<^verbatim>\<open>pipeline.rs\<close>. Canonical tool calls, continuation state is never passed on
    silently, classification rules, and for ordering the \<open>arrangement\<close> contract that every strategy is
    interpreted to satisfy: no candidate is lost, and groups stay together.
  \<^item> \<open>Opaque_State\<close>: \<^verbatim>\<open>opaque_state.rs\<close> and its use in \<^verbatim>\<open>pipeline.rs\<close>. Encrypted continuation state is only restored
    in the scope, target and session it was captured in.
  \<^item> \<open>Ip_Text\<close>, \<open>Outbound\<close>: address parsing and \<^verbatim>\<open>outbound.rs\<close>. Every hop goes to a validated, pinned, public address,
    and credentials only to the provider's own hosts.
  \<^item> \<open>Execution_Profile\<close>, \<open>Request_Checks\<close>: profiles and transports of \<^verbatim>\<open>adapters/mod.rs\<close>; \<^verbatim>\<open>passthrough.rs\<close>, the shared
    part of \<^verbatim>\<open>frontends/mod.rs\<close> and the request checks of \<^verbatim>\<open>pipeline.rs\<close>.
  \<^item> \<open>Live_Requests\<close>: \<^verbatim>\<open>live.rs\<close>. The live view is a window over the requests started.
  \<^item> \<open>Upstream_Response\<close>, \<open>Attempt_Loop\<close>, \<open>Attempt_Slots\<close>, \<open>Request_Run\<close>: \<^verbatim>\<open>run\<close> of \<^verbatim>\<open>pipeline.rs\<close>. A response is committed
    only after a model event; the loop ends, sends a bounded number of times and in order, and gives every
    concurrency slot back. The adapter of a provider is a record of functions, and what other tasks do between two
    steps of a request is an arbitrary function on the shared state.

  \<^item> \<open>OpenAI_Frontend\<close>, \<open>OpenAI_Adapter\<close>, \<open>Chat_Roundtrip\<close>: \<^verbatim>\<open>frontends/openai.rs\<close>, \<^verbatim>\<open>adapters/openai.rs\<close> and the
    OpenAI part of \<^verbatim>\<open>frontends/mod.rs\<close>. The adapter reads back what the encoder writes, the decoder what the
    adapter builds, and collecting a stream gives the aggregated body.
  \<^item> \<open>Anthropic_Frontend\<close>: \<^verbatim>\<open>frontends/anthropic.rs\<close>. The blocks of a stream open, grow and close in the order of
    the protocol, except for text after a tool call.
  \<^item> \<open>Anthropic_Adapter\<close>, \<open>Anthropic_Roundtrip\<close>: \<^verbatim>\<open>adapters/anthropic.rs\<close>. An adaptive model is never sent a token budget,
    and the adapter reads back what the frontend writes.
  \<^item> \<open>Gemini_Schema\<close>, \<open>Gemini_Adapter\<close>: \<^verbatim>\<open>adapters/gemini.rs\<close>. An accepted tool schema is in the upstream's dialect, and some
    malformed ones panic; an assistant's message is replayed with its signatures; usage comes before the finish.

  \<^item> \<open>Responses_Frontend\<close>: \<^verbatim>\<open>frontends/responses.rs\<close>. The events of a stream are numbered without a gap; a message after a
    tool call collides with it.
  \<^item> \<open>Client_Relay\<close>: the encoders of \<^verbatim>\<open>frontends/mod.rs\<close> and the drivers \<^verbatim>\<open>drive_stream\<close> and \<^verbatim>\<open>drive_stream_passthrough\<close> of
    \<^verbatim>\<open>pipeline.rs\<close>. A success is the translation, or the bytes, of the whole upstream stream; a complete stream is
    delivered. The \<open>event_reader\<close> contract carries this over the loop, for the relaying and for the aggregating driver.
  \<^item> \<open>Log_Queue\<close>: \<^verbatim>\<open>logqueue.rs\<close>. Rows are stored, counted as dropped, or wait; the depth can wrap.
  \<^item> \<open>Settlement\<close>: \<^verbatim>\<open>stream_response\<close>, \<^verbatim>\<open>drive_aggregate\<close> and \<^verbatim>\<open>finalize_log\<close> of \<^verbatim>\<open>pipeline.rs\<close>. A whole request returns its
    slot and is charged once; an aggregated answer is all or nothing; a session returns to its target.

  \<^bold>\<open>Conventions.\<close> A struct is a record, an enum a datatype, an operation on shared state a function from
  state to state and result; operations under one lock are atomic steps and concurrency is the
  interleaving of such steps (\<open>inductive\<close> runs, or lists of operations). A panic is \<open>None\<close> and an
  error a left summand. \<^verbatim>\<open>f64\<close> is the real numbers (infinities and NaN are explicit where values are
  parsed), so rounding is not modelled, also where a large JSON integer is read as \<^verbatim>\<open>f64\<close>; \<^verbatim>\<open>u64\<close> and \<^verbatim>\<open>i64\<close> arithmetic is
  written out where it can saturate or wrap in practice, while telemetry counters and the block index of the Anthropic
  encoder are natural numbers; instants are integers of nanoseconds. A hash map that is iterated is its list of entries in
  iteration order, any other is a partial function. \<open>hm_insert\<close> appends a new key, which is one of the orders Rust may
  choose: what depends on the order of a loaded snapshot is stated for every reordering of it. One reload reads all tables
  at one time. Strings are lists of bytes.

  \<^bold>\<open>Parameters.\<close> JSON, dates and URLs are parsed and printed by libraries: the record \<open>codec\<close> stands for
  them, \<open>clock_lib\<close> and \<open>calendar\<close> for the date arithmetic, \<open>cipher_suite\<close> for the cryptography. Clocks,
  random draws, generated identifiers, nonces and whether a database transaction commits are
  arguments. Where a law of a parameter is needed it is a hypothesis of the theorem; \<open>sound_suite\<close> idealises
  a hash as injective.

  \<^bold>\<open>Termination and bounds.\<close> No definition uses fuel; loops are structural or have a measure. Bounds in
  hypotheses (weights within 64 bits, counters before wrap-around, fewer than \<open>2^32\<close> tool calls) are
  those at which the machine arithmetic stops being exact.

  \<^bold>\<open>Not modelled.\<close> Token counting, the Responses adapter, and the model catalogue; the plugin
  host, because it drives a third-party WebAssembly engine; and the administration handlers, command line,
  configuration files and alerting, which are input and output around the operations modelled here.
\<close>

end
